(* ===== verification/Prelude.thy ===== *)
theory Prelude
  imports Main "HOL-Library.Word"
begin

unbundle bit_operations_syntax

text \<open>
  The shared prelude of the Tobacco kernel development: the machine integer types, Rust's
  saturating and checked arithmetic on them, the first-match searches that the kernel's
  fixed-size tables are scanned with, and the two interfaces (locales) several components
  share: a bounded first-in first-out queue and a machine with an inductive invariant.

  The kernel is built with \<^verbatim>\<open>cargo build --release\<close> (\<^verbatim>\<open>.github/workflows/build.yml\<close>), where
  the unchecked \<open>+\<close> and \<open>-\<close> of Rust wrap around; on words \<open>+\<close> and \<open>-\<close> do the same.
\<close>

named_theorems sat_simps \<open>saturating and checked arithmetic read as natural numbers\<close>
named_theorems inv_intros \<open>one preservation fact per operation\<close>

type_synonym u8 = "8 word"
type_synonym u16 = "16 word"
type_synonym u32 = "32 word"
type_synonym u64 = "64 word"

section \<open>Rust integer arithmetic\<close>

definition sat_add :: "'a::len word \<Rightarrow> 'a word \<Rightarrow> 'a word" where
  "sat_add a b = (if unat a + unat b < 2 ^ LENGTH('a) then a + b else - 1)"

definition sat_sub :: "'a::len word \<Rightarrow> 'a word \<Rightarrow> 'a word" where
  "sat_sub a b = (if a < b then 0 else a - b)"

definition checked_add :: "'a::len word \<Rightarrow> 'a word \<Rightarrow> 'a word option" where
  "checked_add a b = (if unat a + unat b < 2 ^ LENGTH('a) then Some (a + b) else None)"

definition checked_sub :: "'a::len word \<Rightarrow> 'a word \<Rightarrow> 'a word option" where
  "checked_sub a b = (if a < b then None else Some (a - b))"

lemma unat_sat_add [sat_simps]:
  "unat (sat_add a (b :: 'a::len word)) = min (unat a + unat b) (2 ^ LENGTH('a) - 1)"
proof (cases "unat a + unat b < 2 ^ LENGTH('a)")
  case True
  then show ?thesis
    by (simp add: sat_add_def unat_word_ariths)
next
  case False
  moreover have "unat (- 1 :: 'a word) = 2 ^ LENGTH('a) - 1"
    by (simp add: unsigned_minus_1_eq_mask mask_eq_exp_minus_1)
  ultimately show ?thesis
    by (simp add: sat_add_def)
qed

lemma unat_sat_sub [sat_simps]: "unat (sat_sub a b) = unat a - unat b"
  by (simp add: sat_sub_def unat_sub_if' word_less_nat_alt)

lemma checked_add_Some [sat_simps]:
  "checked_add a b = Some c \<Longrightarrow> unat c = unat a + unat b"
  by (auto simp: checked_add_def unat_word_ariths split: if_splits)

lemma checked_add_None [sat_simps]:
  "checked_add a (b :: 'a::len word) = None \<longleftrightarrow> 2 ^ LENGTH('a) \<le> unat a + unat b"
  by (auto simp: checked_add_def)

lemma checked_sub_Some [sat_simps]:
  "checked_sub a b = Some c \<longleftrightarrow> b \<le> a \<and> c = a - b"
  by (auto simp: checked_sub_def)

text \<open>Code equations that stay on words, so that evaluation never counts to \<open>2 ^ 64\<close>.\<close>

lemma no_overflow_iff:
  "unat a + unat (b :: 'a::len word) < 2 ^ LENGTH('a) \<longleftrightarrow> b \<le> NOT a"
proof -
  have "unat (NOT a) = 2 ^ LENGTH('a) - 1 - unat a"
  proof -
    have "NOT a = - 1 - a" by (simp add: not_eq_complement)
    then have "unat (NOT a) = unat (- 1 :: 'a word) - unat a" by (simp add: unat_sub)
    then show ?thesis by (simp add: unsigned_minus_1_eq_mask mask_eq_exp_minus_1)
  qed
  moreover have "unat a < 2 ^ LENGTH('a)" by simp
  ultimately show ?thesis
    unfolding word_le_nat_alt by linarith
qed

lemma sat_add_code [code]: "sat_add a b = (if b \<le> NOT a then a + b else - 1)"
  by (simp add: sat_add_def no_overflow_iff)

lemma checked_add_code [code]: "checked_add a b = (if b \<le> NOT a then Some (a + b) else None)"
  by (simp add: checked_add_def no_overflow_iff)

lemma sat_add_le: "a \<le> sat_add a b"
proof -
  have "unat a < 2 ^ LENGTH('a)" by simp
  then have "unat a \<le> unat (sat_add a b)"
    unfolding unat_sat_add by linarith
  then show ?thesis by (simp add: word_le_nat_alt)
qed

section \<open>First-match searches\<close>

text \<open>\<open>position\<close> is Rust's \<open>Iterator::position\<close>: the index of the first match.\<close>

fun position :: "('a \<Rightarrow> bool) \<Rightarrow> 'a list \<Rightarrow> nat option" where
  "position P [] = None"
| "position P (x # xs) = (if P x then Some 0 else map_option Suc (position P xs))"

lemma position_NoneD: "position P xs = None \<Longrightarrow> x \<in> set xs \<Longrightarrow> \<not> P x"
  by (induction xs) (auto split: if_splits)

lemma position_None_iff: "position P xs = None \<longleftrightarrow> (\<forall>x \<in> set xs. \<not> P x)"
  by (induction xs) auto

lemma position_SomeD:
  "position P xs = Some i \<Longrightarrow> i < length xs \<and> P (xs ! i) \<and> (\<forall>j < i. \<not> P (xs ! j))"
proof (induction xs arbitrary: i)
  case Nil
  then show ?case by simp
next
  case (Cons x xs)
  show ?case
  proof (cases "P x")
    case True
    with Cons.prems show ?thesis by simp
  next
    case False
    with Cons.prems obtain k where k: "position P xs = Some k" and i: "i = Suc k"
      by auto
    have "\<not> P ((x # xs) ! j)" if "j < i" for j
      using Cons.IH [OF k] False i that by (cases j) auto
    then show ?thesis
      using Cons.IH [OF k] i by auto
  qed
qed

lemma position_unique:
  assumes "i < length xs" and "P (xs ! i)" and "\<And>j. j < length xs \<Longrightarrow> P (xs ! j) \<Longrightarrow> j = i"
  shows "position P xs = Some i"
proof (cases "position P xs")
  case None
  with assms(1,2) show ?thesis by (meson nth_mem position_NoneD)
next
  case (Some k)
  then show ?thesis using assms(3) position_SomeD [OF Some] by simp
qed

section \<open>Ring buffers\<close>

text \<open>
  The kernel's mailboxes, its ready queue, its log and its key buffer are all fixed arrays
  read from a start index modulo their size. \<open>ring_list xs h n\<close> is the sequence of the
  \<open>n\<close> entries of the array \<open>xs\<close> that start at \<open>h\<close>.
\<close>

definition ring_list :: "'a list \<Rightarrow> nat \<Rightarrow> nat \<Rightarrow> 'a list" where
  "ring_list xs h n = map (\<lambda>k. xs ! ((h + k) mod length xs)) [0..<n]"

lemma length_ring_list [simp]: "length (ring_list xs h n) = n"
  by (simp add: ring_list_def)

lemma ring_list_0 [simp]: "ring_list xs h 0 = []"
  by (simp add: ring_list_def)

lemma nth_ring_list: "k < n \<Longrightarrow> ring_list xs h n ! k = xs ! ((h + k) mod length xs)"
  by (simp add: ring_list_def)

lemma ring_index_inj:
  assumes "j < n" and "k < n" and "n \<le> m" and "(h + j) mod m = (h + k) mod (m :: nat)"
  shows "j = k"
proof (rule ccontr)
  assume ne: "j \<noteq> k"
  define lo hi where "lo = min j k" and "hi = max j k"
  have "(h + lo) mod m = (h + hi) mod m"
    using assms(4) by (simp add: lo_def hi_def min_def max_def)
  then have "m dvd (h + hi) - (h + lo)"
    by (metis mod_eq_dvd_iff_nat le_add2 lo_def hi_def min.cobounded1 max.cobounded1
        order_trans add_le_cancel_left)
  then have "m dvd hi - lo" by simp
  moreover have "0 < hi - lo" "hi - lo < m"
    using ne assms(1-3) by (auto simp: lo_def hi_def)
  ultimately show False by (meson dvd_imp_le not_le)
qed

text \<open>Writing one entry past the end of the sequence appends to it.\<close>

lemma ring_list_push:
  assumes "n < length xs"
  shows "ring_list (xs[(h + n) mod length xs := x]) h (Suc n) = ring_list xs h n @ [x]"
proof (rule nth_equalityI)
  fix k
  assume "k < length (ring_list (xs[(h + n) mod length xs := x]) h (Suc n))"
  then have k: "k < Suc n" by simp
  have pos: "0 < length xs" using assms by linarith
  show "ring_list (xs[(h + n) mod length xs := x]) h (Suc n) ! k = (ring_list xs h n @ [x]) ! k"
  proof (cases "k = n")
    case True
    with pos show ?thesis by (simp add: nth_ring_list nth_append)
  next
    case False
    with k have "k < n" by simp
    moreover have "(h + n) mod length xs \<noteq> (h + k) mod length xs"
      using ring_index_inj [of n "Suc n" k "length xs" h] \<open>k < n\<close> assms by auto
    ultimately show ?thesis by (simp add: nth_ring_list nth_append)
  qed
qed simp

text \<open>A write to an index outside the sequence leaves it as it is.\<close>

lemma ring_list_update_outside:
  assumes "\<And>k. k < n \<Longrightarrow> (h + k) mod length xs \<noteq> i"
  shows "ring_list (xs[i := x]) h n = ring_list xs h n"
  by (rule nth_equalityI) (auto simp: nth_ring_list assms [symmetric] nth_list_update_neq)

text \<open>Advancing the start drops the first entry.\<close>

lemma ring_list_Suc:
  "ring_list xs h (Suc n) = xs ! (h mod length xs) # ring_list xs (Suc h) n"
  by (rule nth_equalityI) (auto simp: nth_ring_list nth_Cons' Suc_diff_le)

lemma ring_list_mod: "ring_list xs (h mod length xs) n = ring_list xs h n"
  by (rule nth_equalityI) (auto simp: nth_ring_list mod_add_left_eq)

lemma set_ring_list:
  "set (ring_list xs h n) = {xs ! ((h + k) mod length xs) | k. k < n}"
  by (auto simp: ring_list_def)

section \<open>Bytes\<close>

text \<open>The bytes of a string literal, and Rust's ASCII class \<open>is_ascii_graphic\<close>.\<close>

definition ascii :: "string \<Rightarrow> u8 list" where
  "ascii str = map of_char str"

definition is_ascii_graphic :: "u8 \<Rightarrow> bool" where
  "is_ascii_graphic b \<longleftrightarrow> 0x21 \<le> b \<and> b \<le> 0x7e"

text \<open>The check of \<open>core::str::from_utf8\<close>.\<close>

definition utf8_tail :: "u8 \<Rightarrow> bool" where
  "utf8_tail b \<longleftrightarrow> 0x80 \<le> b \<and> b \<le> 0xBF"

fun utf8_valid :: "u8 list \<Rightarrow> bool" where
  "utf8_valid [] = True"
| "utf8_valid (a # r) =
     (if a < 0x80 then utf8_valid r
      else case r of
        [] \<Rightarrow> False
      | b # r2 \<Rightarrow>
          if 0xC2 \<le> a \<and> a \<le> 0xDF then utf8_tail b \<and> utf8_valid r2
          else (case r2 of
            [] \<Rightarrow> False
          | c # r3 \<Rightarrow>
              if 0xE0 \<le> a \<and> a \<le> 0xEF
              then (if a = 0xE0 then 0xA0 \<le> b \<and> b \<le> 0xBF
                    else if a = 0xED then 0x80 \<le> b \<and> b \<le> 0x9F else utf8_tail b)
                   \<and> utf8_tail c \<and> utf8_valid r3
              else (case r3 of
                [] \<Rightarrow> False
              | d # r4 \<Rightarrow>
                  0xF0 \<le> a \<and> a \<le> 0xF4
                  \<and> (if a = 0xF0 then 0x90 \<le> b \<and> b \<le> 0xBF
                      else if a = 0xF4 then 0x80 \<le> b \<and> b \<le> 0x8F else utf8_tail b)
                  \<and> utf8_tail c \<and> utf8_tail d \<and> utf8_valid r4)))"

lemma utf8_valid_ascii: "(\<forall>b \<in> set bs. b < 0x80) \<Longrightarrow> utf8_valid bs"
  by (induction bs) simp_all

text \<open>Memory as the kernel reads it through raw pointers: little-endian words.\<close>

type_synonym memory = "u64 \<Rightarrow> u8"

definition read_u32 :: "memory \<Rightarrow> u64 \<Rightarrow> u32" where
  "read_u32 mem a = ucast (mem a) + push_bit 8 (ucast (mem (a + 1)))
     + push_bit 16 (ucast (mem (a + 2))) + push_bit 24 (ucast (mem (a + 3)))"

definition read_u64 :: "memory \<Rightarrow> u64 \<Rightarrow> u64" where
  "read_u64 mem a = ucast (read_u32 mem a) + push_bit 32 (ucast (read_u32 mem (a + 4)))"

section \<open>Interfaces\<close>

text \<open>
  Runs of a queue's operations: \<open>push_all\<close> pushes a list from left to right, \<open>pop_n\<close>
  pops a number of times and collects what came out.
\<close>

fun push_all :: "('q \<Rightarrow> 'a \<Rightarrow> bool \<times> 'q) \<Rightarrow> 'q \<Rightarrow> 'a list \<Rightarrow> bool \<times> 'q" where
  "push_all push q [] = (True, q)"
| "push_all push q (x # xs) =
     (case push q x of (ok, q1) \<Rightarrow> (case push_all push q1 xs of (oks, q2) \<Rightarrow> (ok \<and> oks, q2)))"

fun pop_n :: "('q \<Rightarrow> 'a option \<times> 'q) \<Rightarrow> nat \<Rightarrow> 'q \<Rightarrow> 'a option list \<times> 'q" where
  "pop_n pop 0 q = ([], q)"
| "pop_n pop (Suc n) q =
     (case pop q of (x, q1) \<Rightarrow> (case pop_n pop n q1 of (xs, q2) \<Rightarrow> (x # xs, q2)))"

text \<open>
  A bounded first-in first-out queue: a push below the capacity appends, a push at the
  capacity is refused and changes nothing the reader can see, a pop takes the oldest entry.
\<close>

locale bounded_queue =
  fixes capacity :: nat
    and invar :: "'q \<Rightarrow> bool"
    and contents :: "'q \<Rightarrow> 'a list"
    and push :: "'q \<Rightarrow> 'a \<Rightarrow> bool \<times> 'q"
    and pop :: "'q \<Rightarrow> 'a option \<times> 'q"
  assumes contents_bound: "invar q \<Longrightarrow> length (contents q) \<le> capacity"
    and push_accepts: "invar q \<Longrightarrow> length (contents q) < capacity \<Longrightarrow>
      fst (push q x) \<and> contents (snd (push q x)) = contents q @ [x]"
    and push_rejects: "invar q \<Longrightarrow> length (contents q) = capacity \<Longrightarrow>
      \<not> fst (push q x) \<and> contents (snd (push q x)) = contents q"
    and push_invar: "invar q \<Longrightarrow> invar (snd (push q x))"
    and pop_empty: "invar q \<Longrightarrow> contents q = [] \<Longrightarrow>
      fst (pop q) = None \<and> contents (snd (pop q)) = []"
    and pop_nonempty: "invar q \<Longrightarrow> contents q = x # xs \<Longrightarrow>
      fst (pop q) = Some x \<and> contents (snd (pop q)) = xs"
    and pop_invar: "invar q \<Longrightarrow> invar (snd (pop q))"
begin

lemma push_all_spec:
  "invar q \<Longrightarrow> length (contents q) + length xs \<le> capacity \<Longrightarrow>
   fst (push_all push q xs) \<and> invar (snd (push_all push q xs)) \<and>
   contents (snd (push_all push q xs)) = contents q @ xs"
proof (induction xs arbitrary: q)
  case Nil
  then show ?case by simp
next
  case (Cons x xs)
  obtain ok q1 where p: "push q x = (ok, q1)" by fastforce
  have "ok" "contents q1 = contents q @ [x]" "invar q1"
    using push_accepts [OF Cons.prems(1), of x] push_invar [OF Cons.prems(1), of x] Cons.prems(2) p
    by auto
  then show ?case
    using Cons.IH [of q1] Cons.prems(2) p by (auto split: prod.split)
qed

lemma pop_n_spec:
  "invar q \<Longrightarrow> n \<le> length (contents q) \<Longrightarrow>
   fst (pop_n pop n q) = map Some (take n (contents q)) \<and> invar (snd (pop_n pop n q)) \<and>
   contents (snd (pop_n pop n q)) = drop n (contents q)"
proof (induction n arbitrary: q)
  case 0
  then show ?case by simp
next
  case (Suc n)
  from Suc.prems(2) obtain x xs where c: "contents q = x # xs"
    by (cases "contents q") auto
  obtain y q1 where p: "pop q = (y, q1)" by fastforce
  have "y = Some x" "contents q1 = xs" "invar q1"
    using pop_nonempty [OF Suc.prems(1) c] pop_invar [OF Suc.prems(1)] p by auto
  then show ?case
    using Suc.IH [of q1] Suc.prems(2) c p by (auto split: prod.split)
qed

lemma fifo:
  assumes "invar q" and "length (contents q) + length xs \<le> capacity"
  shows "fst (pop_n pop (length (contents q) + length xs) (snd (push_all push q xs))) =
    map Some (contents q @ xs)"
  using push_all_spec [OF assms] pop_n_spec [of "snd (push_all push q xs)"] by simp

end

text \<open>
  A machine with an inductive invariant: it holds at the start and every step keeps it, so
  it holds after any number of steps.
\<close>

locale invariant_machine =
  fixes start :: "'s \<Rightarrow> bool"
    and step :: "'s \<Rightarrow> 's \<Rightarrow> bool"
    and inv :: "'s \<Rightarrow> bool"
  assumes inv_start: "start s \<Longrightarrow> inv s"
    and inv_step: "inv s \<Longrightarrow> step s t \<Longrightarrow> inv t"
begin

lemma inv_run:
  assumes "step\<^sup>*\<^sup>* s t" and "inv s"
  shows "inv t"
  using assms by (induction rule: rtranclp_induct) (auto intro: inv_step)

lemma inv_reachable: "start s \<Longrightarrow> step\<^sup>*\<^sup>* s t \<Longrightarrow> inv t"
  by (blast intro: inv_start inv_run)

end

lemma distinct_filter_nth:
  assumes "distinct (map f (filter P xs))" and "k < length xs" and "l < length xs"
    and "P (xs ! k)" and "P (xs ! l)" and "f (xs ! k) = f (xs ! l)"
  shows "k = l"
  using assms
proof (induction xs arbitrary: k l)
  case Nil
  then show ?case by simp
next
  case (Cons x xs)
  have "f (xs ! n) \<noteq> f x" if "n < length xs" "P x" "P (xs ! n)" for n
    using Cons.prems(1) that nth_mem [OF that(1)] by (auto simp: image_iff)
  with Cons show ?case by (cases k; cases l) (auto split: if_splits)
qed

text \<open>
  Powers of two as Rust's \<open>is_power_of_two\<close> tests them, and the masks by which the kernel rounds
  addresses.
\<close>

definition is_power_of_two :: "u64 \<Rightarrow> bool" where
  "is_power_of_two v \<longleftrightarrow> v \<noteq> 0 \<and> v AND (v - 1) = 0"

lemma unat_two_power: "k < 64 \<Longrightarrow> unat (2 ^ k :: u64) = 2 ^ k"
proof -
  assume "k < 64"
  then have "(2 :: nat) ^ k < 2 ^ 64" by (intro power_strict_increasing) auto
  then have "unat (of_nat (2 ^ k) :: u64) = 2 ^ k" by (simp add: unat_of_nat del: of_nat_power)
  then show ?thesis by simp
qed

lemma power_of_two:
  assumes "is_power_of_two v"
  obtains k :: nat where "v = 2 ^ k" "k < 64"
proof -
  have v: "v \<noteq> 0" "v AND (v - 1) = 0" using assms by (simp_all add: is_power_of_two_def)
  then have pos: "0 < unat v" by (simp add: unat_gt_0)
  then obtain k where k: "2 ^ k \<le> unat v" "unat v < 2 * 2 ^ k"
    using ex_power_ivl1 [of 2 "unat v"] by auto
  have "(2 :: nat) ^ k < 2 ^ 64" using k(1) unsigned_less [where ?'a = nat, of v] by (simp add: le_less_trans)
  then have k64: "k < 64" by (rule power_less_imp_less_exp [rotated]) simp
  have top: "bit w k" if "2 ^ k \<le> unat w" "unat w < 2 * 2 ^ k" for w :: u64
  proof -
    have "unat w div 2 ^ k = 1" using that by (simp add: div_nat_eqI)
    then have "bit (unat w) k" by (simp add: bit_iff_odd)
    then show ?thesis by (simp add: bit_unsigned_iff)
  qed
  have "unat v = 2 ^ k"
  proof (rule ccontr)
    assume "unat v \<noteq> 2 ^ k"
    moreover have "unat (v - 1) = unat v - 1" using v(1) by (simp add: unat_minus_one)
    ultimately have "bit v k" "bit (v - 1) k" using k by (auto intro!: top)
    then have "bit (v AND (v - 1)) k" by (simp add: bit_and_iff)
    then show False using v(2) by simp
  qed
  moreover have "unat (2 ^ k :: u64) = 2 ^ k" using k64 by (simp add: unat_two_power)
  ultimately have "v = 2 ^ k" by (simp add: word_unat_eq_iff)
  then show thesis using that k64 by blast
qed

lemma unat_clear_low:
  fixes x :: u64
  assumes "k < 64"
  shows "unat (x AND NOT (2 ^ k - 1)) = unat x div 2 ^ k * 2 ^ k"
proof -
  have m: "(2 ^ k - 1 :: u64) = mask k" by (simp add: mask_eq_exp_minus_1)
  have "x AND NOT (2 ^ k - 1) = push_bit k (drop_bit k x)"
    unfolding m by (auto intro!: bit_word_eqI simp: bit_simps)
  also have "\<dots> = x div 2 ^ k * 2 ^ k" by (simp add: push_bit_eq_mult drop_bit_eq_div)
  finally have e: "x AND NOT (2 ^ k - 1) = x div 2 ^ k * 2 ^ k" .
  have "unat x div 2 ^ k * 2 ^ k < 2 ^ 64"
    by (rule le_less_trans [OF div_times_less_eq_dividend]) (use unsigned_less [where ?'a = nat, of x] in simp)
  then show ?thesis unfolding e
    using assms by (simp add: unat_word_ariths unat_div unat_two_power mod_mult_left_eq)
qed

end
