(* ===== verification/Ipc.thy ===== *)
theory Ipc
  imports Prelude
begin

unbundle bit_operations_syntax

text \<open>
  The inter-process communication state of the kernel, \<^verbatim>\<open>src/src/ipc.rs\<close>: bounded mailboxes
  (endpoints), the capability table of each endpoint, and every operation of \<open>IpcState\<close>.
  A method that takes \<open>&mut self\<close> and returns a \<open>Result\<close> becomes a function from the state
  to a pair of a sum (\<open>Inl\<close> the error) and the new state, so an early \<open>return Err\<close> keeps
  what was changed before it. Arrays of the source are lists whose lengths are the array
  sizes (\<open>ep_sized\<close>); \<open>u64\<close> and \<open>u8\<close> values are words, \<open>usize\<close> indices are naturals.
\<close>

section \<open>Data\<close>

definition MAX_ENDPOINTS :: nat where "MAX_ENDPOINTS = 8"
definition QUEUE_DEPTH :: nat where "QUEUE_DEPTH = 8"
definition MAX_MESSAGE_BYTES :: nat where "MAX_MESSAGE_BYTES = 64"
definition MAX_CAPABILITIES_PER_ENDPOINT :: nat where "MAX_CAPABILITIES_PER_ENDPOINT = 8"
definition MAX_CAPABILITY_LINEAGE_DEPTH :: u8 where "MAX_CAPABILITY_LINEAGE_DEPTH = 16"
definition CAPABILITY_SLOT_BITS :: nat where "CAPABILITY_SLOT_BITS = 8"
definition CAPABILITY_SLOT_MASK :: u64 where
  "CAPABILITY_SLOT_MASK = push_bit CAPABILITY_SLOT_BITS 1 - 1"

lemmas ipc_consts = MAX_ENDPOINTS_def QUEUE_DEPTH_def MAX_MESSAGE_BYTES_def
  MAX_CAPABILITIES_PER_ENDPOINT_def MAX_CAPABILITY_LINEAGE_DEPTH_def

text \<open>The newtype \<open>CapabilityRights(u8)\<close> and its constants.\<close>

type_synonym CapabilityRights = u8

definition SEND :: CapabilityRights where "SEND = push_bit 0 1"
definition RECEIVE :: CapabilityRights where "RECEIVE = push_bit 1 1"
definition CANCEL :: CapabilityRights where "CANCEL = push_bit 2 1"
definition DELEGATE :: CapabilityRights where "DELEGATE = push_bit 3 1"
definition SEND_RECEIVE :: CapabilityRights where "SEND_RECEIVE = SEND OR RECEIVE"
definition SEND_CANCEL :: CapabilityRights where "SEND_CANCEL = SEND OR CANCEL"
definition SEND_DELEGATE :: CapabilityRights where "SEND_DELEGATE = SEND OR DELEGATE"
definition CANCEL_DELEGATE :: CapabilityRights where "CANCEL_DELEGATE = CANCEL OR DELEGATE"
definition SEND_CANCEL_DELEGATE :: CapabilityRights where
  "SEND_CANCEL_DELEGATE = SEND OR CANCEL OR DELEGATE"
definition ALL_RIGHTS :: CapabilityRights where "ALL_RIGHTS = SEND_RECEIVE OR CANCEL OR DELEGATE"

lemmas rights_defs = SEND_def RECEIVE_def CANCEL_def DELEGATE_def SEND_RECEIVE_def
  SEND_CANCEL_def SEND_DELEGATE_def CANCEL_DELEGATE_def SEND_CANCEL_DELEGATE_def ALL_RIGHTS_def

definition valid :: "CapabilityRights \<Rightarrow> bool" where
  "valid r \<longleftrightarrow> r \<noteq> 0 \<and> r AND NOT ALL_RIGHTS = 0"

definition from_bits :: "u8 \<Rightarrow> CapabilityRights option" where
  "from_bits bits = (if valid bits then Some bits else None)"

definition contains :: "CapabilityRights \<Rightarrow> CapabilityRights \<Rightarrow> bool" where
  "contains r required \<longleftrightarrow> r AND required = required"

datatype IpcError =
    NotInitialized | InvalidTask | EndpointCapacity | EndpointMissing | MessageTooLarge
  | QueueFull | QueueEmpty | BufferTooSmall | BlockFailed | WakeFailed | CapabilityCapacity
  | InvalidCapability | StaleCapability | PermissionDenied | InvalidRights | Timeout
  | Cancelled | NotWaiting | RightsEscalation | LineageDepthExceeded

record Delivery =
  dl_sender :: u64
  dl_length :: u64
  dl_sequence :: u64
  dl_capability_handle :: u64
  dl_capability_rights :: u8

record CapabilityInfo =
  ci_slot :: u64
  ci_handle :: u64
  ci_target :: u64
  ci_rights :: u8
  ci_generation :: u64
  ci_parent_generation :: u64
  ci_lineage_depth :: u8
  ci_active :: bool

record RevocationReport =
  rp_revoked :: u64
  rp_descendants :: u64
  rp_queued_stripped :: u64

definition RevocationReport_empty :: RevocationReport where
  "RevocationReport_empty = \<lparr>rp_revoked = 0, rp_descendants = 0, rp_queued_stripped = 0\<rparr>"

definition merge :: "RevocationReport \<Rightarrow> RevocationReport \<Rightarrow> RevocationReport" where
  "merge self other = \<lparr>
     rp_revoked = sat_add (rp_revoked self) (rp_revoked other),
     rp_descendants = sat_add (rp_descendants self) (rp_descendants other),
     rp_queued_stripped = sat_add (rp_queued_stripped self) (rp_queued_stripped other)\<rparr>"

record Capability =
  cap_target :: u64
  cap_generation :: u64
  cap_parent_generation :: u64
  cap_lineage_depth :: u8
  cap_rights :: CapabilityRights
  cap_active :: bool

definition Capability_empty :: Capability where
  "Capability_empty = \<lparr>cap_target = 0, cap_generation = 0, cap_parent_generation = 0,
     cap_lineage_depth = 0, cap_rights = 0, cap_active = False\<rparr>"

record Message =
  msg_sender :: u64
  msg_length :: nat
  msg_sequence :: u64
  msg_capability_handle :: u64
  msg_capability_rights :: u8
  msg_bytes :: "u8 list"

definition Message_empty :: Message where
  "Message_empty = \<lparr>msg_sender = 0, msg_length = 0, msg_sequence = 0,
     msg_capability_handle = 0, msg_capability_rights = 0,
     msg_bytes = replicate MAX_MESSAGE_BYTES 0\<rparr>"

record Endpoint =
  ep_owner :: u64
  ep_queue :: "Message list"
  ep_head :: nat
  ep_len :: nat
  ep_waiting :: bool
  ep_capabilities :: "Capability list"

definition Endpoint_empty :: Endpoint where
  "Endpoint_empty = \<lparr>ep_owner = 0, ep_queue = replicate QUEUE_DEPTH Message_empty, ep_head = 0,
     ep_len = 0, ep_waiting = False,
     ep_capabilities = replicate MAX_CAPABILITIES_PER_ENDPOINT Capability_empty\<rparr>"

text \<open>The mailbox operations of an endpoint.\<close>

definition push :: "Endpoint \<Rightarrow> Message \<Rightarrow> bool \<times> Endpoint" where
  "push e message =
     (if QUEUE_DEPTH \<le> ep_len e then (False, e)
      else let tail = (ep_head e + ep_len e) mod QUEUE_DEPTH
           in (True, e\<lparr>ep_queue := (ep_queue e)[tail := message], ep_len := ep_len e + 1\<rparr>))"

definition front :: "Endpoint \<Rightarrow> Message option" where
  "front e = (if ep_len e = 0 then None else Some (ep_queue e ! ep_head e))"

definition pop :: "Endpoint \<Rightarrow> Message option \<times> Endpoint" where
  "pop e =
     (case front e of
        None \<Rightarrow> (None, e)
      | Some message \<Rightarrow>
          let e1 = e\<lparr>ep_queue := (ep_queue e)[ep_head e := Message_empty],
                     ep_head := (ep_head e + 1) mod QUEUE_DEPTH,
                     ep_len := ep_len e - 1\<rparr>
          in (Some message, if ep_len e1 = 0 then e1\<lparr>ep_head := 0\<rparr> else e1))"

record IpcState =
  ipc_initialized :: bool
  ipc_endpoints :: "Endpoint list"
  endpoints_created :: u64
  endpoints_destroyed :: u64
  messages_sent :: u64
  messages_received :: u64
  blocked_receives :: u64
  receiver_wakeups :: u64
  queue_full_events :: u64
  dropped_on_cleanup :: u64
  next_sequence :: u64
  last_sequence :: u64
  next_capability_generation :: u64
  capabilities_granted :: u64
  capabilities_revoked :: u64
  capabilities_revoked_on_cleanup :: u64
  capability_denials :: u64
  stale_capability_denials :: u64
  last_capability_generation :: u64
  cancellation_requests :: u64
  cancellation_successes :: u64
  capability_transfers :: u64
  capability_transfer_failures :: u64
  rights_attenuations :: u64
  last_transferred_rights :: u64
  revocation_trees :: u64
  cascade_revocations :: u64
  descendant_revocations :: u64
  queued_capabilities_stripped :: u64
  last_revocation_size :: u64

definition IpcState_new :: IpcState where
  "IpcState_new = \<lparr>
     ipc_initialized = False,
     ipc_endpoints = replicate MAX_ENDPOINTS Endpoint_empty,
     endpoints_created = 0, endpoints_destroyed = 0, messages_sent = 0,
     messages_received = 0, blocked_receives = 0, receiver_wakeups = 0,
     queue_full_events = 0, dropped_on_cleanup = 0, next_sequence = 1, last_sequence = 0,
     next_capability_generation = 1, capabilities_granted = 0, capabilities_revoked = 0,
     capabilities_revoked_on_cleanup = 0, capability_denials = 0,
     stale_capability_denials = 0, last_capability_generation = 0,
     cancellation_requests = 0, cancellation_successes = 0, capability_transfers = 0,
     capability_transfer_failures = 0, rights_attenuations = 0,
     last_transferred_rights = 0, revocation_trees = 0, cascade_revocations = 0,
     descendant_revocations = 0, queued_capabilities_stripped = 0,
     last_revocation_size = 0\<rparr>"

definition ipc_init :: "IpcState \<Rightarrow> IpcState" where
  "ipc_init s = (if ipc_initialized s then s else IpcState_new\<lparr>ipc_initialized := True\<rparr>)"

type_synonym 'a ipc_result = "(IpcError + 'a) \<times> IpcState"

section \<open>Handles, lookups and counters\<close>

definition encode_handle :: "nat \<Rightarrow> u64 \<Rightarrow> u64" where
  "encode_handle slot generation =
     push_bit CAPABILITY_SLOT_BITS generation OR (of_nat slot + 1)"

definition decode_handle :: "u64 \<Rightarrow> (nat \<times> u64) option" where
  "decode_handle handle =
     (let encoded_slot = handle AND CAPABILITY_SLOT_MASK;
          generation = drop_bit CAPABILITY_SLOT_BITS handle
      in if encoded_slot = 0 \<or> generation = 0 then None
         else let slot = unat (sat_sub encoded_slot 1)
              in if MAX_CAPABILITIES_PER_ENDPOINT \<le> slot then None
                 else Some (slot, generation))"

definition all_capabilities :: "Endpoint list \<Rightarrow> Capability list" where
  "all_capabilities endpoints = concat (map ep_capabilities endpoints)"

definition find_capability_generation :: "Endpoint list \<Rightarrow> u64 \<Rightarrow> Capability option" where
  "find_capability_generation endpoints generation =
     List.find (\<lambda>c. cap_active c \<and> cap_generation c = generation) (all_capabilities endpoints)"

definition find_child_generation :: "IpcState \<Rightarrow> u64 \<Rightarrow> u64 option" where
  "find_child_generation s parent_generation =
     map_option cap_generation
       (List.find (\<lambda>c. cap_active c \<and> cap_parent_generation c = parent_generation)
          (all_capabilities (ipc_endpoints s)))"

definition find_target_generation :: "IpcState \<Rightarrow> u64 \<Rightarrow> u64 option" where
  "find_target_generation s target =
     map_option cap_generation
       (List.find (\<lambda>c. cap_active c \<and> cap_target c = target)
          (all_capabilities (ipc_endpoints s)))"

definition find_endpoint :: "IpcState \<Rightarrow> u64 \<Rightarrow> nat option" where
  "find_endpoint s task_id = position (\<lambda>e. ep_owner e = task_id) (ipc_endpoints s)"

definition record_denial :: "bool \<Rightarrow> IpcState \<Rightarrow> IpcState" where
  "record_denial stale s =
     (let s1 = s\<lparr>capability_denials := sat_add (capability_denials s) 1\<rparr>
      in if stale
         then s1\<lparr>stale_capability_denials := sat_add (stale_capability_denials s1) 1\<rparr>
         else s1)"

definition record_revocation :: "RevocationReport \<Rightarrow> bool \<Rightarrow> IpcState \<Rightarrow> IpcState" where
  "record_revocation report cleanup s =
     (if rp_revoked report = 0 then s
      else
        let s1 = s\<lparr>revocation_trees := sat_add (revocation_trees s) 1\<rparr>;
            s2 = (if rp_descendants report \<noteq> 0
                  then s1\<lparr>cascade_revocations := sat_add (cascade_revocations s1) 1\<rparr> else s1);
            s3 = s2\<lparr>capabilities_revoked :=
                    sat_add (capabilities_revoked s2) (rp_revoked report)\<rparr>;
            s4 = (if cleanup
                  then s3\<lparr>capabilities_revoked_on_cleanup :=
                         sat_add (capabilities_revoked_on_cleanup s3) (rp_revoked report)\<rparr>
                  else s3)
        in s4\<lparr>descendant_revocations :=
               sat_add (descendant_revocations s4) (rp_descendants report),
             queued_capabilities_stripped :=
               sat_add (queued_capabilities_stripped s4) (rp_queued_stripped report),
             last_revocation_size := rp_revoked report\<rparr>)"

text \<open>
  The generation counter runs over \<open>1 .. max_generation\<close> and skips a generation an active
  capability still carries. The loop of the source has no bound; the fuel of one more than
  the number of capability slots is enough (\<open>allocate_generation_returns\<close>).
\<close>

definition max_generation :: u64 where
  "max_generation = drop_bit CAPABILITY_SLOT_BITS (- 1)"

fun allocate_generation_loop :: "nat \<Rightarrow> IpcState \<Rightarrow> (u64 \<times> IpcState) option" where
  "allocate_generation_loop 0 s = None"
| "allocate_generation_loop (Suc fuel) s =
     (let generation = max (next_capability_generation s) 1;
          s1 = s\<lparr>next_capability_generation :=
                 if max_generation \<le> generation then 1 else generation + 1\<rparr>
      in if find_capability_generation (ipc_endpoints s1) generation = None
         then Some (generation, s1\<lparr>last_capability_generation := generation\<rparr>)
         else allocate_generation_loop fuel s1)"

definition allocate_generation :: "IpcState \<Rightarrow> u64 \<times> IpcState" where
  "allocate_generation s =
     the (allocate_generation_loop (MAX_ENDPOINTS * MAX_CAPABILITIES_PER_ENDPOINT + 1) s)"

text \<open>Assignments through two array indices.\<close>

definition set_endpoint :: "IpcState \<Rightarrow> nat \<Rightarrow> Endpoint \<Rightarrow> IpcState" where
  "set_endpoint s i e = s\<lparr>ipc_endpoints := (ipc_endpoints s)[i := e]\<rparr>"

definition set_capability :: "IpcState \<Rightarrow> nat \<Rightarrow> nat \<Rightarrow> Capability \<Rightarrow> IpcState" where
  "set_capability s i slot c =
     (let e = ipc_endpoints s ! i
      in set_endpoint s i (e\<lparr>ep_capabilities := (ep_capabilities e)[slot := c]\<rparr>))"

section \<open>Revocation\<close>

text \<open>
  The \<open>'remove\<close> loops of \<open>revoke_branch\<close>: the first active capability with the generation
  is emptied; \<open>None\<close> when there is none (\<open>removed\<close> stays false).
\<close>

fun remove_capability :: "u64 \<Rightarrow> Capability list \<Rightarrow> Capability list option" where
  "remove_capability g [] = None"
| "remove_capability g (c # cs) =
     (if cap_active c \<and> cap_generation c = g then Some (Capability_empty # cs)
      else map_option (Cons c) (remove_capability g cs))"

fun remove_generation :: "u64 \<Rightarrow> Endpoint list \<Rightarrow> Endpoint list option" where
  "remove_generation g [] = None"
| "remove_generation g (e # es) =
     (case remove_capability g (ep_capabilities e) of
        Some cs \<Rightarrow> Some (e\<lparr>ep_capabilities := cs\<rparr> # es)
      | None \<Rightarrow> map_option (Cons e) (remove_generation g es))"

text \<open>\<open>strip_queued_generation\<close>: clear the capability of every queued message that carries
  the generation, and count them.\<close>

definition strip_offset :: "u64 \<Rightarrow> nat \<Rightarrow> u64 \<times> Endpoint \<Rightarrow> u64 \<times> Endpoint" where
  "strip_offset generation offset = (\<lambda>(stripped, e).
     let index = (ep_head e + offset) mod QUEUE_DEPTH;
         message = ep_queue e ! index
     in case decode_handle (msg_capability_handle message) of
          None \<Rightarrow> (stripped, e)
        | Some (_, queued_generation) \<Rightarrow>
            if queued_generation = generation
            then (sat_add stripped 1,
                  e\<lparr>ep_queue := (ep_queue e)[index :=
                     message\<lparr>msg_capability_handle := 0, msg_capability_rights := 0\<rparr>]\<rparr>)
            else (stripped, e))"

definition strip_endpoint :: "u64 \<Rightarrow> u64 \<times> Endpoint \<Rightarrow> u64 \<times> Endpoint" where
  "strip_endpoint generation se = fold (strip_offset generation) [0..<ep_len (snd se)] se"

fun strip_endpoints :: "u64 \<Rightarrow> u64 \<Rightarrow> Endpoint list \<Rightarrow> u64 \<times> Endpoint list" where
  "strip_endpoints g stripped [] = (stripped, [])"
| "strip_endpoints g stripped (e # es) =
     (let (stripped1, e1) = strip_endpoint g (stripped, e);
          (stripped2, es1) = strip_endpoints g stripped1 es
      in (stripped2, e1 # es1))"

definition strip_queued_generation :: "u64 \<Rightarrow> IpcState \<Rightarrow> u64 \<times> IpcState" where
  "strip_queued_generation generation s =
     (let (stripped, es) = strip_endpoints generation 0 (ipc_endpoints s)
      in (stripped, s\<lparr>ipc_endpoints := es\<rparr>))"

text \<open>The number of active capabilities, the measure of the revocation loops.\<close>

definition active_count :: "IpcState \<Rightarrow> nat" where
  "active_count s = length (filter cap_active (all_capabilities (ipc_endpoints s)))"

lemma remove_capability_count:
  "remove_capability g cs = Some cs' \<Longrightarrow>
   Suc (length (filter cap_active cs')) = length (filter cap_active cs)"
  by (induction cs arbitrary: cs') (auto simp: Capability_empty_def split: if_splits)

lemma remove_capability_None:
  "remove_capability g cs = None \<longleftrightarrow> (\<forall>c \<in> set cs. \<not> (cap_active c \<and> cap_generation c = g))"
  by (induction cs) auto

lemma remove_generation_count:
  "remove_generation g es = Some es' \<Longrightarrow>
   Suc (length (filter cap_active (all_capabilities es'))) =
     length (filter cap_active (all_capabilities es))"
proof (induction es arbitrary: es')
  case Nil
  then show ?case by simp
next
  case (Cons e es)
  show ?case
  proof (cases "remove_capability g (ep_capabilities e)")
    case None
    with Cons.prems obtain es1 where "remove_generation g es = Some es1" "es' = e # es1"
      by auto
    with Cons.IH show ?thesis by (simp add: all_capabilities_def)
  next
    case (Some cs)
    with Cons.prems have "es' = e\<lparr>ep_capabilities := cs\<rparr> # es" by simp
    with remove_capability_count [OF Some] show ?thesis by (simp add: all_capabilities_def)
  qed
qed

lemma remove_generation_None:
  "remove_generation g es = None \<longleftrightarrow>
   (\<forall>c \<in> set (all_capabilities es). \<not> (cap_active c \<and> cap_generation c = g))"
proof (induction es)
  case Nil
  then show ?case by (simp add: all_capabilities_def)
next
  case (Cons e es)
  then show ?case
    using remove_capability_None [of g "ep_capabilities e"]
    by (auto simp: all_capabilities_def split: option.splits)
qed

lemma strip_offset_capabilities [simp]:
  "ep_capabilities (snd (strip_offset g k se)) = ep_capabilities (snd se)"
  by (auto simp: strip_offset_def Let_def split: prod.splits option.splits)

lemma strip_endpoint_capabilities [simp]:
  "ep_capabilities (snd (strip_endpoint g se)) = ep_capabilities (snd se)"
proof -
  have "ep_capabilities (snd (fold (strip_offset g) ks se)) = ep_capabilities (snd se)" for ks
    by (induction ks arbitrary: se) simp_all
  then show ?thesis by (simp add: strip_endpoint_def)
qed

lemma strip_endpoints_capabilities:
  "map ep_capabilities (snd (strip_endpoints g n es)) = map ep_capabilities es"
proof (induction es arbitrary: n)
  case Nil
  then show ?case by simp
next
  case (Cons e es)
  then show ?case by (simp add: Let_def case_prod_beta)
qed

lemma active_count_strip [simp]:
  "active_count (snd (strip_queued_generation g s)) = active_count s"
  using strip_endpoints_capabilities [of g 0 "ipc_endpoints s"]
  by (auto simp: active_count_def strip_queued_generation_def all_capabilities_def Let_def
      split: prod.splits)

text \<open>
  \<open>revoke_branch\<close> removes one capability and then, in a loop, the branch of every child that
  is still there. Each call on a generation that some active capability carries removes at
  least that one, which is why both the recursion and the loop end in every state.
\<close>

function (domintros) revoke_branch ::
    "u64 \<Rightarrow> bool \<Rightarrow> IpcState \<Rightarrow> RevocationReport \<Rightarrow> IpcState \<times> RevocationReport"
  and revoke_children_loop ::
    "u64 \<Rightarrow> IpcState \<Rightarrow> RevocationReport \<Rightarrow> IpcState \<times> RevocationReport" where
  "revoke_branch generation descendant s report =
     (case remove_generation generation (ipc_endpoints s) of
        None \<Rightarrow> (s, report)
      | Some es \<Rightarrow>
          let s1 = s\<lparr>ipc_endpoints := es\<rparr>;
              report1 = report\<lparr>rp_revoked := sat_add (rp_revoked report) 1\<rparr>;
              report2 = (if descendant
                         then report1\<lparr>rp_descendants := sat_add (rp_descendants report1) 1\<rparr>
                         else report1);
              strip = strip_queued_generation generation s1;
              report3 = report2\<lparr>rp_queued_stripped :=
                                 sat_add (rp_queued_stripped report2) (fst strip)\<rparr>
          in revoke_children_loop generation (snd strip) report3)"
| "revoke_children_loop generation s report =
     (case find_child_generation s generation of
        None \<Rightarrow> (s, report)
      | Some child_generation \<Rightarrow>
          (case revoke_branch child_generation True s report of
             (s1, report1) \<Rightarrow> revoke_children_loop generation s1 report1))"
  by pat_completeness auto

lemma find_child_active:
  "find_child_generation s g = Some c \<Longrightarrow> remove_generation c (ipc_endpoints s) \<noteq> None"
  by (auto simp: find_child_generation_def find_Some_iff remove_generation_None
      dest!: nth_mem)

lemma active_count_remove:
  "remove_generation g (ipc_endpoints s) = Some es \<Longrightarrow>
   active_count (s\<lparr>ipc_endpoints := es\<rparr>) < active_count s"
  using remove_generation_count [of g "ipc_endpoints s" es] by (simp add: active_count_def)

lemma revoke_dom_count:
  "revoke_branch_revoke_children_loop_dom (Inl (g, d, s, r)) \<Longrightarrow>
   active_count (fst (revoke_branch g d s r)) \<le> active_count s \<and>
   (remove_generation g (ipc_endpoints s) \<noteq> None \<longrightarrow>
    active_count (fst (revoke_branch g d s r)) < active_count s)"
  "revoke_branch_revoke_children_loop_dom (Inr (h, t, q)) \<Longrightarrow>
   active_count (fst (revoke_children_loop h t q)) \<le> active_count t"
proof (induction g d s r and h t q rule: revoke_branch_revoke_children_loop.pinduct)
  case (1 g d s r)
  show ?case
  proof (cases "remove_generation g (ipc_endpoints s)")
    case None
    with 1 show ?thesis by (simp add: revoke_branch.psimps)
  next
    case (Some es)
    with 1 active_count_remove [OF Some] show ?thesis
      by (fastforce simp: revoke_branch.psimps Let_def)
  qed
next
  case (2 g s r)
  show ?case
  proof (cases "find_child_generation s g")
    case None
    with 2 show ?thesis by (simp add: revoke_children_loop.psimps)
  next
    case (Some c)
    with 2 show ?thesis
      by (fastforce simp: revoke_children_loop.psimps split: prod.splits)
  qed
qed

lemma revoke_dom: "All revoke_branch_revoke_children_loop_dom"
proof (rule "revoke_branch_revoke_children_loop.termination"
    [of "measures [\<lambda>x. case x of Inl (g, d, s, r) \<Rightarrow> active_count s
                           | Inr (g, s, r) \<Rightarrow> active_count s,
                   \<lambda>x. case x of Inl _ \<Rightarrow> 0 | Inr _ \<Rightarrow> 1]"], goal_cases)
  case 1
  show ?case by simp
next
  case (2 g d s r es)
  then show ?case using active_count_remove [of g s es] by simp
next
  case (3 g s r c)
  then show ?case by simp
next
  case (4 g s r c s1 r1)
  from 4(2) have "fst (revoke_branch c True s r) = s1" by (metis fst_conv)
  then have "active_count s1 < active_count s"
    using revoke_dom_count(1) [OF 4(3)] find_child_active [OF 4(1)] by metis
  then show ?case by simp
qed

termination revoke_branch
  by (rule revoke_dom)

lemma revoke_branch_count_less:
  "remove_generation g (ipc_endpoints s) \<noteq> None \<Longrightarrow>
   active_count (fst (revoke_branch g d s r)) < active_count s"
  using revoke_dom_count(1) [OF revoke_dom [THEN spec]] by simp

declare revoke_branch.simps [simp del] revoke_children_loop.simps [simp del]

definition revoke_children :: "u64 \<Rightarrow> IpcState \<Rightarrow> IpcState \<times> RevocationReport" where
  "revoke_children generation s = revoke_children_loop generation s RevocationReport_empty"

definition revoke_generation :: "u64 \<Rightarrow> IpcState \<Rightarrow> IpcState \<times> RevocationReport" where
  "revoke_generation generation s = revoke_branch generation False s RevocationReport_empty"

definition revoke :: "IpcState \<Rightarrow> u64 \<Rightarrow> u64 \<Rightarrow> RevocationReport ipc_result" where
  "revoke s owner handle =
     (case find_endpoint s owner of
        None \<Rightarrow> (Inl EndpointMissing, s)
      | Some owner_index \<Rightarrow>
          (case decode_handle handle of
             None \<Rightarrow> (Inl InvalidCapability, s)
           | Some (slot, generation) \<Rightarrow>
               let capability = ep_capabilities (ipc_endpoints s ! owner_index) ! slot
               in if \<not> cap_active capability \<or> cap_generation capability \<noteq> generation
                  then (Inl StaleCapability, record_denial True s)
                  else
                    let (s1, report) = (if slot = 0 then revoke_children generation s
                                        else revoke_generation generation s)
                    in (Inr report, record_revocation report False s1)))"

section \<open>Endpoints and capabilities\<close>

definition register :: "IpcState \<Rightarrow> u64 \<Rightarrow> unit ipc_result" where
  "register s task_id =
     (if \<not> ipc_initialized s then (Inl NotInitialized, s)
      else if task_id = 0 then (Inl InvalidTask, s)
      else if find_endpoint s task_id \<noteq> None then (Inr (), s)
      else case position (\<lambda>e. ep_owner e = 0) (ipc_endpoints s) of
        None \<Rightarrow> (Inl EndpointCapacity, s)
      | Some index \<Rightarrow>
          let s1 = set_endpoint s index (Endpoint_empty\<lparr>ep_owner := task_id\<rparr>);
              (generation, s2) = allocate_generation s1;
              s3 = set_capability s2 index 0
                     \<lparr>cap_target = task_id, cap_generation = generation,
                      cap_parent_generation = 0, cap_lineage_depth = 0,
                      cap_rights = ALL_RIGHTS, cap_active = True\<rparr>
          in (Inr (), s3\<lparr>endpoints_created := sat_add (endpoints_created s3) 1,
                        capabilities_granted := sat_add (capabilities_granted s3) 1\<rparr>))"

text \<open>
  The two \<open>while let\<close> loops of \<open>unregister\<close>. \<open>find\<close> only returns an index of the table; an
  index outside it would stop the kernel at the array access, and ends the loop here.
\<close>

definition first_active_generation :: "IpcState \<Rightarrow> nat \<Rightarrow> u64 option" where
  "first_active_generation s index =
     (if index < length (ipc_endpoints s)
      then map_option cap_generation
             (List.find cap_active (ep_capabilities (ipc_endpoints s ! index)))
      else None)"

lemma first_active_present:
  "first_active_generation s index = Some g \<Longrightarrow> remove_generation g (ipc_endpoints s) \<noteq> None"
proof -
  assume "first_active_generation s index = Some g"
  then obtain c where i: "index < length (ipc_endpoints s)" and g: "g = cap_generation c"
    and c: "List.find cap_active (ep_capabilities (ipc_endpoints s ! index)) = Some c"
    by (auto simp: first_active_generation_def split: if_splits)
  then have "cap_active c" "c \<in> set (ep_capabilities (ipc_endpoints s ! index))"
    by (auto simp: find_Some_iff)
  with i have "c \<in> set (all_capabilities (ipc_endpoints s))"
    by (auto simp: all_capabilities_def intro!: bexI [of _ "ipc_endpoints s ! index"])
  with \<open>cap_active c\<close> g show ?thesis by (auto simp: remove_generation_None)
qed

lemma find_target_present:
  "find_target_generation s t = Some g \<Longrightarrow> remove_generation g (ipc_endpoints s) \<noteq> None"
  by (auto simp: find_target_generation_def find_Some_iff remove_generation_None
      dest!: nth_mem)

function revoke_owned_loop ::
    "nat \<Rightarrow> IpcState \<Rightarrow> RevocationReport \<Rightarrow> IpcState \<times> RevocationReport" where
  "revoke_owned_loop index s report =
     (case first_active_generation s index of
        None \<Rightarrow> (s, report)
      | Some generation \<Rightarrow>
          let r = revoke_generation generation s
          in revoke_owned_loop index (fst r) (merge report (snd r)))"
  by pat_completeness auto
termination
  by (relation "measure (\<lambda>(index, s, report). active_count s)")
    (auto simp: revoke_generation_def intro!: revoke_branch_count_less dest: first_active_present)

function revoke_target_loop ::
    "u64 \<Rightarrow> IpcState \<Rightarrow> RevocationReport \<Rightarrow> IpcState \<times> RevocationReport" where
  "revoke_target_loop task_id s report =
     (case find_target_generation s task_id of
        None \<Rightarrow> (s, report)
      | Some generation \<Rightarrow>
          let r = revoke_generation generation s
          in revoke_target_loop task_id (fst r) (merge report (snd r)))"
  by pat_completeness auto
termination
  by (relation "measure (\<lambda>(task_id, s, report). active_count s)")
    (auto simp: revoke_generation_def intro!: revoke_branch_count_less dest: find_target_present)

declare revoke_owned_loop.simps [simp del] revoke_target_loop.simps [simp del]

definition unregister :: "IpcState \<Rightarrow> u64 \<Rightarrow> u64 ipc_result" where
  "unregister s task_id =
     (case find_endpoint s task_id of
        None \<Rightarrow> (Inl EndpointMissing, s)
      | Some index \<Rightarrow>
          let dropped = of_nat (ep_len (ipc_endpoints s ! index));
              (s1, report1) = revoke_owned_loop index s RevocationReport_empty;
              (s2, report2) = revoke_target_loop task_id s1 report1;
              s3 = set_endpoint s2 index Endpoint_empty;
              s4 = s3\<lparr>endpoints_destroyed := sat_add (endpoints_destroyed s3) 1,
                      dropped_on_cleanup := sat_add (dropped_on_cleanup s3) dropped\<rparr>
          in (Inr dropped, record_revocation report2 True s4))"

definition self_capability :: "IpcState \<Rightarrow> u64 \<Rightarrow> IpcError + u64" where
  "self_capability s task_id =
     (case find_endpoint s task_id of
        None \<Rightarrow> Inl EndpointMissing
      | Some index \<Rightarrow>
          let capability = ep_capabilities (ipc_endpoints s ! index) ! 0
          in if \<not> cap_active capability \<or> cap_target capability \<noteq> task_id
                \<or> \<not> contains (cap_rights capability) SEND_RECEIVE
             then Inl PermissionDenied
             else Inr (encode_handle 0 (cap_generation capability)))"

definition grant :: "IpcState \<Rightarrow> u64 \<Rightarrow> u64 \<Rightarrow> CapabilityRights \<Rightarrow> u64 ipc_result" where
  "grant s owner target rights =
     (if \<not> valid rights \<or> (contains rights RECEIVE \<and> owner \<noteq> target) then (Inl InvalidRights, s)
      else if find_endpoint s target = None then (Inl EndpointMissing, s)
      else case find_endpoint s owner of
        None \<Rightarrow> (Inl EndpointMissing, s)
      | Some owner_index \<Rightarrow>
          (case position (\<lambda>c. \<not> cap_active c)
                  (ep_capabilities (ipc_endpoints s ! owner_index)) of
             None \<Rightarrow> (Inl CapabilityCapacity, s)
           | Some slot \<Rightarrow>
               let (generation, s1) = allocate_generation s;
                   s2 = set_capability s1 owner_index slot
                          \<lparr>cap_target = target, cap_generation = generation,
                           cap_parent_generation = 0, cap_lineage_depth = 0,
                           cap_rights = rights, cap_active = True\<rparr>
               in (Inr (encode_handle slot generation),
                   s2\<lparr>capabilities_granted := sat_add (capabilities_granted s2) 1\<rparr>)))"

definition resolve_capability ::
    "IpcState \<Rightarrow> u64 \<Rightarrow> u64 \<Rightarrow> CapabilityRights \<Rightarrow> Capability ipc_result" where
  "resolve_capability s owner handle required =
     (case find_endpoint s owner of
        None \<Rightarrow> (Inl EndpointMissing, s)
      | Some owner_index \<Rightarrow>
          (case decode_handle handle of
             None \<Rightarrow> (Inl InvalidCapability, record_denial False s)
           | Some (slot, generation) \<Rightarrow>
               let capability = ep_capabilities (ipc_endpoints s ! owner_index) ! slot
               in if \<not> cap_active capability \<or> cap_generation capability \<noteq> generation
                  then (Inl StaleCapability, record_denial True s)
                  else if \<not> contains (cap_rights capability) required
                  then (Inl PermissionDenied, record_denial False s)
                  else if find_endpoint s (cap_target capability) = None
                  then (let (s1, report) = revoke_generation (cap_generation capability) s
                        in (Inl StaleCapability,
                            record_denial True (record_revocation report True s1)))
                  else (Inr capability, s)))"

definition resolve :: "IpcState \<Rightarrow> u64 \<Rightarrow> u64 \<Rightarrow> CapabilityRights \<Rightarrow> u64 ipc_result" where
  "resolve s owner handle required =
     (case resolve_capability s owner handle required of
        (Inl error, s1) \<Rightarrow> (Inl error, s1)
      | (Inr capability, s1) \<Rightarrow> (Inr (cap_target capability), s1))"

section \<open>Messages\<close>

text \<open>\<open>Message::empty()\<close> with its fields filled in by a sender.\<close>

definition make_message :: "u64 \<Rightarrow> u64 \<Rightarrow> u64 \<Rightarrow> u8 \<Rightarrow> u8 list \<Rightarrow> Message" where
  "make_message sender sequence handle rights bytes =
     Message_empty\<lparr>msg_sender := sender, msg_length := length bytes, msg_sequence := sequence,
       msg_capability_handle := handle, msg_capability_rights := rights,
       msg_bytes := bytes @ drop (length bytes) (msg_bytes Message_empty)\<rparr>"

definition send :: "IpcState \<Rightarrow> u64 \<Rightarrow> u64 \<Rightarrow> u8 list \<Rightarrow> (u64 \<times> bool) ipc_result" where
  "send s sender receiver bytes =
     (if \<not> ipc_initialized s then (Inl NotInitialized, s)
      else if MAX_MESSAGE_BYTES < length bytes then (Inl MessageTooLarge, s)
      else if find_endpoint s sender = None then (Inl EndpointMissing, s)
      else case find_endpoint s receiver of
        None \<Rightarrow> (Inl EndpointMissing, s)
      | Some receiver_index \<Rightarrow>
          if QUEUE_DEPTH \<le> ep_len (ipc_endpoints s ! receiver_index)
          then (Inl QueueFull, s\<lparr>queue_full_events := sat_add (queue_full_events s) 1\<rparr>)
          else
            let sequence = next_sequence s;
                s1 = s\<lparr>next_sequence := sat_add (next_sequence s) 1\<rparr>;
                message = make_message sender sequence 0 0 bytes;
                e = ipc_endpoints s1 ! receiver_index;
                waiting = ep_waiting e;
                (pushed, e1) = push (e\<lparr>ep_waiting := False\<rparr>) message;
                s2 = set_endpoint s1 receiver_index e1
            in if \<not> pushed then (Inl QueueFull, s2)
               else (Inr (sequence, waiting),
                     s2\<lparr>messages_sent := sat_add (messages_sent s2) 1,
                        last_sequence := sequence\<rparr>))"

definition send_capability ::
    "IpcState \<Rightarrow> u64 \<Rightarrow> u64 \<Rightarrow> u8 list \<Rightarrow> (u64 \<times> bool \<times> u64) ipc_result" where
  "send_capability s sender handle bytes =
     (case resolve s sender handle SEND of
        (Inl error, s1) \<Rightarrow> (Inl error, s1)
      | (Inr receiver, s1) \<Rightarrow>
          (case send s1 sender receiver bytes of
             (Inl error, s2) \<Rightarrow> (Inl error, s2)
           | (Inr (sequence, waiting), s2) \<Rightarrow> (Inr (sequence, waiting, receiver), s2)))"

text \<open>The part of \<open>try_send_with_capability\<close> after every check has passed.\<close>

definition transfer_capability ::
    "IpcState \<Rightarrow> u64 \<Rightarrow> u64 \<Rightarrow> Capability \<Rightarrow> u8 \<Rightarrow> CapabilityRights \<Rightarrow> u8 list \<Rightarrow> nat \<Rightarrow> nat \<Rightarrow>
     (u64 \<times> bool \<times> u64 \<times> u64) ipc_result" where
  "transfer_capability s sender receiver source lineage_depth requested_rights bytes
       receiver_index recipient_slot =
     (let sequence = next_sequence s;
          (generation, s1) = allocate_generation s;
          recipient_handle = encode_handle recipient_slot generation;
          message = make_message sender sequence recipient_handle requested_rights bytes;
          waiting = ep_waiting (ipc_endpoints s1 ! receiver_index);
          s2 = set_capability s1 receiver_index recipient_slot
                 \<lparr>cap_target = cap_target source, cap_generation = generation,
                  cap_parent_generation = cap_generation source,
                  cap_lineage_depth = lineage_depth, cap_rights = requested_rights,
                  cap_active = True\<rparr>;
          (pushed, e1) = push (ipc_endpoints s2 ! receiver_index) message
      in if \<not> pushed
         then (Inl QueueFull, set_capability s2 receiver_index recipient_slot Capability_empty)
         else
           let s3 = set_endpoint s2 receiver_index (e1\<lparr>ep_waiting := False\<rparr>);
               s4 = s3\<lparr>next_sequence := sat_add (next_sequence s3) 1,
                       messages_sent := sat_add (messages_sent s3) 1,
                       last_sequence := sequence,
                       capabilities_granted := sat_add (capabilities_granted s3) 1,
                       capability_transfers := sat_add (capability_transfers s3) 1\<rparr>;
               s5 = (if requested_rights \<noteq> cap_rights source
                     then s4\<lparr>rights_attenuations := sat_add (rights_attenuations s4) 1\<rparr>
                     else s4)
           in (Inr (sequence, waiting, receiver, recipient_handle),
               s5\<lparr>last_transferred_rights := ucast requested_rights\<rparr>))"

definition try_send_with_capability ::
    "IpcState \<Rightarrow> u64 \<Rightarrow> u64 \<Rightarrow> u64 \<Rightarrow> CapabilityRights \<Rightarrow> u8 list \<Rightarrow>
     (u64 \<times> bool \<times> u64 \<times> u64) ipc_result" where
  "try_send_with_capability s sender destination_handle transfer_handle requested_rights bytes =
     (if \<not> valid requested_rights then (Inl InvalidRights, record_denial False s)
      else if MAX_MESSAGE_BYTES < length bytes then (Inl MessageTooLarge, s)
      else case resolve s sender destination_handle SEND of
        (Inl error, s1) \<Rightarrow> (Inl error, s1)
      | (Inr receiver, s1) \<Rightarrow>
      (case resolve_capability s1 sender transfer_handle DELEGATE of
        (Inl error, s2) \<Rightarrow> (Inl error, s2)
      | (Inr source, s2) \<Rightarrow>
          if \<not> contains (cap_rights source) requested_rights
          then (Inl RightsEscalation, record_denial False s2)
          else if contains requested_rights RECEIVE \<and> receiver \<noteq> cap_target source
          then (Inl InvalidRights, record_denial False s2)
          else case checked_add (cap_lineage_depth source) 1 of
            None \<Rightarrow> (Inl LineageDepthExceeded, record_denial False s2)
          | Some lineage_depth \<Rightarrow>
              if MAX_CAPABILITY_LINEAGE_DEPTH < lineage_depth
              then (Inl LineageDepthExceeded, record_denial False s2)
              else case find_endpoint s2 receiver of
                None \<Rightarrow> (Inl EndpointMissing, s2)
              | Some receiver_index \<Rightarrow>
                  if QUEUE_DEPTH \<le> ep_len (ipc_endpoints s2 ! receiver_index)
                  then (Inl QueueFull,
                        s2\<lparr>queue_full_events := sat_add (queue_full_events s2) 1\<rparr>)
                  else case position (\<lambda>c. \<not> cap_active c)
                              (ep_capabilities (ipc_endpoints s2 ! receiver_index)) of
                    None \<Rightarrow> (Inl CapabilityCapacity, s2)
                  | Some recipient_slot \<Rightarrow>
                      transfer_capability s2 sender receiver source lineage_depth
                        requested_rights bytes receiver_index recipient_slot))"

definition send_with_capability ::
    "IpcState \<Rightarrow> u64 \<Rightarrow> u64 \<Rightarrow> u64 \<Rightarrow> CapabilityRights \<Rightarrow> u8 list \<Rightarrow>
     (u64 \<times> bool \<times> u64 \<times> u64) ipc_result" where
  "send_with_capability s sender destination_handle transfer_handle requested_rights bytes =
     (case try_send_with_capability s sender destination_handle transfer_handle
             requested_rights bytes of
        (Inl error, s1) \<Rightarrow>
          (Inl error,
           s1\<lparr>capability_transfer_failures := sat_add (capability_transfer_failures s1) 1\<rparr>)
      | (Inr result, s1) \<Rightarrow> (Inr result, s1))"

definition can_receive :: "IpcState \<Rightarrow> u64 \<Rightarrow> unit ipc_result" where
  "can_receive s receiver =
     (case self_capability s receiver of
        Inl error \<Rightarrow> (Inl error, s)
      | Inr handle \<Rightarrow>
          (case resolve s receiver handle RECEIVE of
             (Inl error, s1) \<Rightarrow> (Inl error, s1)
           | (Inr target, s1) \<Rightarrow>
               if target \<noteq> receiver then (Inl PermissionDenied, record_denial False s1)
               else (Inr (), s1)))"

text \<open>
  \<open>receive\<close> also writes the caller's buffer: the new contents of \<open>output\<close> are the second
  component of the result.
\<close>

definition receive ::
    "IpcState \<Rightarrow> u64 \<Rightarrow> u8 list \<Rightarrow> (IpcError + Delivery) \<times> u8 list \<times> IpcState" where
  "receive s receiver output =
     (case can_receive s receiver of
        (Inl error, s1) \<Rightarrow> (Inl error, output, s1)
      | (Inr _, s1) \<Rightarrow>
          (case find_endpoint s1 receiver of
             None \<Rightarrow> (Inl EndpointMissing, output, s1)
           | Some index \<Rightarrow>
               (case front (ipc_endpoints s1 ! index) of
                  None \<Rightarrow> (Inl QueueEmpty, output, s1)
                | Some message \<Rightarrow>
                    if length output < msg_length message
                    then (Inl BufferTooSmall, output, s1)
                    else (case pop (ipc_endpoints s1 ! index) of
                       (None, e) \<Rightarrow> (Inl QueueEmpty, output, set_endpoint s1 index e)
                     | (Some message1, e) \<Rightarrow>
                         let s2 = set_endpoint s1 index e;
                             output1 = take (msg_length message1) (msg_bytes message1)
                                       @ drop (msg_length message1) output
                         in (Inr \<lparr>dl_sender = msg_sender message1,
                                  dl_length = of_nat (msg_length message1),
                                  dl_sequence = msg_sequence message1,
                                  dl_capability_handle = msg_capability_handle message1,
                                  dl_capability_rights = msg_capability_rights message1\<rparr>,
                             output1,
                             s2\<lparr>messages_received := sat_add (messages_received s2) 1\<rparr>)))))"

definition set_waiting :: "IpcState \<Rightarrow> u64 \<Rightarrow> bool \<Rightarrow> unit ipc_result" where
  "set_waiting s task_id waiting =
     (case find_endpoint s task_id of
        None \<Rightarrow> (Inl EndpointMissing, s)
      | Some index \<Rightarrow>
          (Inr (), set_endpoint s index ((ipc_endpoints s ! index)\<lparr>ep_waiting := waiting\<rparr>)))"

definition has_message :: "IpcState \<Rightarrow> u64 \<Rightarrow> IpcError + bool" where
  "has_message s task_id =
     (case find_endpoint s task_id of
        None \<Rightarrow> Inl EndpointMissing
      | Some index \<Rightarrow> Inr (ep_len (ipc_endpoints s ! index) \<noteq> 0))"

definition capability_info :: "IpcState \<Rightarrow> u64 \<Rightarrow> nat \<Rightarrow> CapabilityInfo option" where
  "capability_info s owner slot =
     (if MAX_CAPABILITIES_PER_ENDPOINT \<le> slot then None
      else case find_endpoint s owner of
        None \<Rightarrow> None
      | Some index \<Rightarrow>
          let capability = ep_capabilities (ipc_endpoints s ! index) ! slot
          in Some \<lparr>ci_slot = of_nat slot,
                   ci_handle = (if cap_active capability
                                then encode_handle slot (cap_generation capability) else 0),
                   ci_target = cap_target capability,
                   ci_rights = cap_rights capability,
                   ci_generation = cap_generation capability,
                   ci_parent_generation = cap_parent_generation capability,
                   ci_lineage_depth = cap_lineage_depth capability,
                   ci_active = cap_active capability\<rparr>)"

fun error_code :: "IpcError \<Rightarrow> u64" where
  "error_code NotInitialized = 1"
| "error_code InvalidTask = 2"
| "error_code EndpointCapacity = 3"
| "error_code EndpointMissing = 4"
| "error_code MessageTooLarge = 5"
| "error_code QueueFull = 6"
| "error_code QueueEmpty = 7"
| "error_code BufferTooSmall = 8"
| "error_code BlockFailed = 9"
| "error_code WakeFailed = 10"
| "error_code CapabilityCapacity = 11"
| "error_code InvalidCapability = 12"
| "error_code StaleCapability = 13"
| "error_code PermissionDenied = 14"
| "error_code InvalidRights = 15"
| "error_code Timeout = 16"
| "error_code Cancelled = 17"
| "error_code NotWaiting = 18"
| "error_code RightsEscalation = 19"
| "error_code LineageDepthExceeded = 20"

section \<open>The kernel's own consistency checks\<close>

definition endpoint_owners_unique :: "Endpoint list \<Rightarrow> bool" where
  "endpoint_owners_unique endpoints \<longleftrightarrow>
     list_all (\<lambda>left.
         ep_owner (endpoints ! left) = 0 \<or>
         list_all (\<lambda>right. ep_owner (endpoints ! right) \<noteq> ep_owner (endpoints ! left))
           [left + 1..<MAX_ENDPOINTS])
       [0..<MAX_ENDPOINTS]"

text \<open>The checks of \<open>capability_tables_valid\<close> on slot 0 and on one active capability.\<close>

definition self_capability_valid :: "Endpoint \<Rightarrow> bool" where
  "self_capability_valid endpoint \<longleftrightarrow>
     (let c = ep_capabilities endpoint ! 0
      in cap_active c \<and> cap_target c = ep_owner endpoint \<and> cap_generation c \<noteq> 0
         \<and> cap_parent_generation c = 0 \<and> cap_lineage_depth c = 0
         \<and> contains (cap_rights c) SEND_RECEIVE)"

definition capability_valid :: "Endpoint list \<Rightarrow> Capability \<Rightarrow> bool" where
  "capability_valid endpoints c \<longleftrightarrow>
     cap_generation c \<noteq> 0 \<and> valid (cap_rights c)
     \<and> cap_lineage_depth c \<le> MAX_CAPABILITY_LINEAGE_DEPTH
     \<and> list_ex (\<lambda>e. ep_owner e = cap_target c) endpoints
     \<and> (if cap_parent_generation c = 0 then cap_lineage_depth c = 0
         else case find_capability_generation endpoints (cap_parent_generation c) of
           None \<Rightarrow> False
         | Some parent \<Rightarrow>
             cap_generation parent \<noteq> cap_generation c
             \<and> cap_target parent = cap_target c
             \<and> contains (cap_rights parent) DELEGATE
             \<and> contains (cap_rights parent) (cap_rights c)
             \<and> checked_add (cap_lineage_depth parent) 1 = Some (cap_lineage_depth c))"

definition capability_tables_valid :: "Endpoint list \<Rightarrow> bool" where
  "capability_tables_valid endpoints \<longleftrightarrow>
     list_all (\<lambda>endpoint.
         if ep_owner endpoint = 0 then \<not> list_ex cap_active (ep_capabilities endpoint)
         else self_capability_valid endpoint
              \<and> list_all (\<lambda>c. cap_active c \<longrightarrow> capability_valid endpoints c)
                  (ep_capabilities endpoint))
       endpoints"

definition capability_generations_unique :: "Endpoint list \<Rightarrow> bool" where
  "capability_generations_unique endpoints \<longleftrightarrow>
     list_all (\<lambda>le. list_all (\<lambda>ls.
         let left = ep_capabilities (endpoints ! le) ! ls
         in \<not> cap_active left \<or>
            list_all (\<lambda>re.
              list_all (\<lambda>rs.
                  let right = ep_capabilities (endpoints ! re) ! rs
                  in \<not> (cap_active right \<and> cap_generation right = cap_generation left))
                [(if re = le then ls + 1 else 0)..<MAX_CAPABILITIES_PER_ENDPOINT])
              [le..<MAX_ENDPOINTS])
         [0..<MAX_CAPABILITIES_PER_ENDPOINT]) [0..<MAX_ENDPOINTS]"

definition queued_capability_valid :: "Endpoint \<Rightarrow> Message \<Rightarrow> bool" where
  "queued_capability_valid endpoint message \<longleftrightarrow>
     (if msg_capability_handle message = 0 then msg_capability_rights message = 0
      else case decode_handle (msg_capability_handle message) of
        None \<Rightarrow> False
      | Some (slot, generation) \<Rightarrow>
          let c = ep_capabilities endpoint ! slot
          in cap_active c \<and> cap_generation c = generation
             \<and> cap_rights c = msg_capability_rights message)"

definition queued_capabilities_valid :: "Endpoint list \<Rightarrow> bool" where
  "queued_capabilities_valid endpoints \<longleftrightarrow>
     list_all (\<lambda>endpoint.
         ep_owner endpoint = 0 \<or>
         list_all (\<lambda>offset.
             queued_capability_valid endpoint
               (ep_queue endpoint ! ((ep_head endpoint + offset) mod QUEUE_DEPTH)))
           [0..<ep_len endpoint])
       endpoints"

definition invariants :: "IpcState \<Rightarrow> bool" where
  "invariants s \<longleftrightarrow>
     ipc_initialized s
     \<and> list_all (\<lambda>e. ep_len e \<le> QUEUE_DEPTH \<and> ep_head e < QUEUE_DEPTH) (ipc_endpoints s)
     \<and> endpoint_owners_unique (ipc_endpoints s)
     \<and> capability_generations_unique (ipc_endpoints s)
     \<and> capability_tables_valid (ipc_endpoints s)
     \<and> queued_capabilities_valid (ipc_endpoints s)"

end
