(* ===== verification/Ipc_Revoke.thy ===== *)
theory Ipc_Revoke
  imports Ipc
begin

unbundle bit_operations_syntax

text \<open>
  What revocation does (\<open>IpcState::revoke_branch\<close> and its callers): the nested loops remove
  exactly the capabilities that descend from the revoked one, strip exactly the queued
  messages that carry one of them, change nothing else, and report the right numbers. The
  abstract description is a closed form on the endpoint array, \<open>revoke_eps R\<close>, for the set
  \<open>R\<close> of generations below the revoked one in the parent relation.
\<close>

named_theorems revoke_simps \<open>reading the closed form of a revocation\<close>

section \<open>Handles\<close>

lemma max_generation_eq: "max_generation = mask 56"
  by (simp add: max_generation_def CAPABILITY_SLOT_BITS_def)

lemma slot_mask_eq: "CAPABILITY_SLOT_MASK = mask 8"
  by (simp add: CAPABILITY_SLOT_MASK_def CAPABILITY_SLOT_BITS_def mask_eq_exp_minus_1)

lemma le_max_generation: "g \<le> max_generation \<longleftrightarrow> unat g < 2 ^ 56"
proof -
  have "unat (mask 56 :: u64) = 2 ^ 56 - 1" by (simp add: mask_eq_exp_minus_1)
  then show ?thesis by (auto simp: word_le_nat_alt max_generation_eq)
qed

lemma drop_bit_le_max_generation: "drop_bit 8 (h :: u64) \<le> max_generation"
proof -
  have "unat h < 2 ^ 64" by (rule order_less_le_trans [OF unsigned_less]) simp
  then have "unat h div 2 ^ 8 < 2 ^ 56" by (simp add: div_less_iff_less_mult)
  then show ?thesis by (simp add: le_max_generation drop_bit_eq_div unat_div)
qed

lemma decode_handle_Some:
  assumes "decode_handle h = Some (slot, g)"
  shows "slot < 8" "g \<noteq> 0" "g \<le> max_generation" "h \<noteq> 0"
  using assms drop_bit_le_max_generation [of h]
  by (auto simp: decode_handle_def Let_def ipc_consts CAPABILITY_SLOT_BITS_def split: if_splits)

lemma decode_handle_0 [simp]: "decode_handle 0 = None"
  by (simp add: decode_handle_def)

lemma slot_word:
  assumes "slot < 8"
  shows "take_bit 8 (of_nat slot + 1 :: u64) = of_nat slot + 1" "drop_bit 8 (of_nat slot + 1 :: u64) = 0"
    "unat (of_nat slot + 1 - 1 :: u64) = slot" "(of_nat slot + 1 :: u64) \<noteq> 0"
    "\<not> (of_nat slot + 1 :: u64) < 1"
proof -
  have "slot \<in> {0, 1, 2, 3, 4, 5, 6, 7}" using assms by auto
  then show "take_bit 8 (of_nat slot + 1 :: u64) = of_nat slot + 1"
    "drop_bit 8 (of_nat slot + 1 :: u64) = 0" "unat (of_nat slot + 1 - 1 :: u64) = slot"
    "(of_nat slot + 1 :: u64) \<noteq> 0" "\<not> (of_nat slot + 1 :: u64) < 1"
    by auto
qed

lemma take_bit_generation:
  assumes "g \<le> max_generation"
  shows "take_bit 56 g = (g :: u64)"
proof -
  have "unat g < 2 ^ 56" using assms by (simp only: le_max_generation)
  then show ?thesis by (simp add: word_unat_eq_iff unsigned_take_bit_eq take_bit_nat_eq_self)
qed

lemma decode_encode_handle:
  assumes "slot < 8" and "g \<noteq> 0" and "g \<le> max_generation"
  shows "decode_handle (encode_handle slot g) = Some (slot, g)"
proof -
  have low: "encode_handle slot g AND CAPABILITY_SLOT_MASK = of_nat slot + 1"
    using slot_word(1) [OF assms(1)]
    by (simp add: encode_handle_def slot_mask_eq CAPABILITY_SLOT_BITS_def
        take_bit_eq_mask [symmetric] take_bit_push_bit)
  have "drop_bit 8 (push_bit 8 g) = take_bit 56 g"
    by (rule bit_eqI) (auto simp: bit_simps)
  then have high: "drop_bit 8 (encode_handle slot g) = g"
    using slot_word(2) [OF assms(1)] take_bit_generation [OF assms(3)]
    by (simp add: encode_handle_def CAPABILITY_SLOT_BITS_def)
  show ?thesis
    using assms slot_word [OF assms(1)] low high
    by (simp add: decode_handle_def CAPABILITY_SLOT_BITS_def ipc_consts sat_sub_def)
qed

lemma encode_decode_handle:
  assumes "decode_handle h = Some (slot, g)"
  shows "encode_handle slot g = h"
proof -
  let ?low = "h AND CAPABILITY_SLOT_MASK"
  have low: "?low \<noteq> 0" and g: "g = drop_bit 8 h" and slot: "slot = unat (sat_sub ?low 1)"
    using assms
    by (auto simp: decode_handle_def CAPABILITY_SLOT_BITS_def Let_def split: if_splits)
  have "of_nat slot + 1 = ?low"
    using low by (simp add: slot sat_sub_def word_less_1)
  then have "encode_handle slot g = push_bit 8 (drop_bit 8 h) OR take_bit 8 h"
    by (simp add: encode_handle_def g CAPABILITY_SLOT_BITS_def slot_mask_eq take_bit_eq_mask)
  also have "\<dots> = h"
    by (rule bit_eqI) (auto simp: bit_simps)
  finally show ?thesis .
qed

section \<open>The closed form\<close>

abbreviation active_generations :: "Endpoint list \<Rightarrow> u64 list" where
  "active_generations es \<equiv> map cap_generation (filter cap_active (all_capabilities es))"

text \<open>No two active capabilities carry the same generation.\<close>

definition gens_unique :: "Endpoint list \<Rightarrow> bool" where
  "gens_unique es \<longleftrightarrow> distinct (active_generations es)"

definition queues_sized :: "Endpoint list \<Rightarrow> bool" where
  "queues_sized es \<longleftrightarrow> (\<forall>e \<in> set es. length (ep_queue e) = QUEUE_DEPTH)"

text \<open>Emptying the capabilities of a set \<open>R\<close> of generations, and stripping the live messages
  (those between head and tail) that carry one of them.\<close>

definition drop_cap :: "u64 set \<Rightarrow> Capability \<Rightarrow> Capability" where
  "drop_cap R c = (if cap_active c \<and> cap_generation c \<in> R then Capability_empty else c)"

definition strip_msg :: "u64 set \<Rightarrow> Message \<Rightarrow> Message" where
  "strip_msg R m =
     (case decode_handle (msg_capability_handle m) of
        None \<Rightarrow> m
      | Some (_, g) \<Rightarrow>
          if g \<in> R then m\<lparr>msg_capability_handle := 0, msg_capability_rights := 0\<rparr> else m)"

definition ring_live :: "nat \<Rightarrow> nat \<Rightarrow> nat \<Rightarrow> bool" where
  "ring_live h n k \<longleftrightarrow> (\<exists>j < n. (h + j) mod QUEUE_DEPTH = k)"

definition strip_queue :: "u64 set \<Rightarrow> nat \<Rightarrow> nat \<Rightarrow> Message list \<Rightarrow> Message list" where
  "strip_queue R h n q =
     map (\<lambda>k. if ring_live h n k then strip_msg R (q ! k) else q ! k) [0..<length q]"

definition revoke_ep :: "u64 set \<Rightarrow> Endpoint \<Rightarrow> Endpoint" where
  "revoke_ep R e = e\<lparr>ep_capabilities := map (drop_cap R) (ep_capabilities e),
                     ep_queue := strip_queue R (ep_head e) (ep_len e) (ep_queue e)\<rparr>"

abbreviation revoke_eps :: "u64 set \<Rightarrow> Endpoint list \<Rightarrow> Endpoint list" where
  "revoke_eps R es \<equiv> map (revoke_ep R) es"

text \<open>The parent relation of the active capabilities, and the generations below one.\<close>

definition child :: "Endpoint list \<Rightarrow> u64 \<Rightarrow> u64 \<Rightarrow> bool" where
  "child es p x \<longleftrightarrow>
     (\<exists>c \<in> set (all_capabilities es).
        cap_active c \<and> cap_parent_generation c = p \<and> cap_generation c = x)"

definition descendants :: "Endpoint list \<Rightarrow> u64 \<Rightarrow> u64 set" where
  "descendants es g = {x. (child es)\<^sup>+\<^sup>+ g x}"

definition branch_of :: "Endpoint list \<Rightarrow> u64 \<Rightarrow> u64 set" where
  "branch_of es g =
     (if g \<in> set (active_generations es) then insert g (descendants es g) else {})"

lemma drop_cap_drop_cap [simp]: "drop_cap R (drop_cap R' c) = drop_cap (R' \<union> R) c"
  by (auto simp: drop_cap_def Capability_empty_def)

lemma strip_msg_strip_msg [simp]: "strip_msg R (strip_msg R' m) = strip_msg (R' \<union> R) m"
  by (auto simp: strip_msg_def split: option.splits)

lemma strip_queue_strip_queue [simp]:
  "strip_queue R h n (strip_queue R' h n q) = strip_queue (R' \<union> R) h n q"
  by (rule nth_equalityI) (auto simp: strip_queue_def)

lemma revoke_ep_revoke_ep [simp]: "revoke_ep R (revoke_ep R' e) = revoke_ep (R' \<union> R) e"
  by (simp add: revoke_ep_def o_def)

lemma length_strip_queue [simp]: "length (strip_queue R h n q) = length q"
  by (simp add: strip_queue_def)

lemma revoke_ep_sel [simp]:
  "ep_owner (revoke_ep R e) = ep_owner e" "ep_head (revoke_ep R e) = ep_head e"
  "ep_len (revoke_ep R e) = ep_len e" "ep_waiting (revoke_ep R e) = ep_waiting e"
  "ep_capabilities (revoke_ep R e) = map (drop_cap R) (ep_capabilities e)"
  "ep_queue (revoke_ep R e) = strip_queue R (ep_head e) (ep_len e) (ep_queue e)"
  by (simp_all add: revoke_ep_def)

lemma all_capabilities_revoke [simp]:
  "all_capabilities (revoke_eps R es) = map (drop_cap R) (all_capabilities es)"
  by (induction es) (simp_all add: all_capabilities_def)

lemma queues_sized_revoke [simp]: "queues_sized (revoke_eps R es) = queues_sized es"
  by (simp add: queues_sized_def)

lemma filter_drop_cap:
  "filter cap_active (map (drop_cap R) cs) =
   filter (\<lambda>c. cap_generation c \<notin> R) (filter cap_active cs)"
  by (induction cs) (auto simp: drop_cap_def Capability_empty_def)

lemma gens_unique_revoke [simp]: "gens_unique es \<Longrightarrow> gens_unique (revoke_eps R es)"
  unfolding gens_unique_def all_capabilities_revoke filter_drop_cap by (rule distinct_map_filter)

lemma child_revoke: "child (revoke_eps R es) = (\<lambda>p x. child es p x \<and> x \<notin> R)"
  by (auto simp: child_def drop_cap_def Capability_empty_def fun_eq_iff split: if_splits)

lemma child_active: "child es p x \<Longrightarrow> x \<in> set (active_generations es)"
  by (auto simp: child_def)

lemma drop_cap_empty [simp]: "drop_cap {} = id"
  by (auto simp: drop_cap_def fun_eq_iff)

lemma strip_msg_empty [simp]: "strip_msg {} = id"
  by (auto simp: strip_msg_def fun_eq_iff split: option.splits)

lemma strip_queue_empty [simp]: "strip_queue {} h n q = q"
  by (rule nth_equalityI) (simp_all add: strip_queue_def)

lemma revoke_ep_empty [simp]: "revoke_ep {} e = e"
  by (simp add: revoke_ep_def)

section \<open>One removal\<close>

lemma drop_cap_id:
  "\<forall>c \<in> set cs. \<not> (cap_active c \<and> cap_generation c = g) \<Longrightarrow> map (drop_cap {g}) cs = cs"
  by (induction cs) (auto simp: drop_cap_def)

lemma remove_capability_eq:
  "distinct (map cap_generation (filter cap_active cs)) \<Longrightarrow> remove_capability g cs = Some cs' \<Longrightarrow>
   cs' = map (drop_cap {g}) cs"
proof (induction cs arbitrary: cs')
  case Nil
  then show ?case by simp
next
  case (Cons c cs)
  show ?case
  proof (cases "cap_active c \<and> cap_generation c = g")
    case True
    with Cons.prems(1) have "\<forall>c \<in> set cs. \<not> (cap_active c \<and> cap_generation c = g)"
      by (auto simp: image_iff)
    then have "map (drop_cap {g}) cs = cs" by (rule drop_cap_id)
    moreover have "drop_cap {g} c = Capability_empty" using True by (simp add: drop_cap_def)
    ultimately show ?thesis using True Cons.prems(2) by simp
  next
    case False
    with Cons.prems obtain ds where "remove_capability g cs = Some ds" "cs' = c # ds" by auto
    with False Cons show ?thesis by (auto simp: drop_cap_def split: if_splits)
  qed
qed

lemma remove_generation_eq:
  "gens_unique es \<Longrightarrow> remove_generation g es = Some es' \<Longrightarrow>
   es' = map (\<lambda>e. e\<lparr>ep_capabilities := map (drop_cap {g}) (ep_capabilities e)\<rparr>) es"
proof (induction es arbitrary: es')
  case Nil
  then show ?case by simp
next
  case (Cons e es)
  let ?f = "\<lambda>e. e\<lparr>ep_capabilities := map (drop_cap {g}) (ep_capabilities e)\<rparr>"
  have u: "distinct (map cap_generation (filter cap_active (ep_capabilities e)))" "gens_unique es"
    using Cons.prems(1) by (simp_all add: gens_unique_def all_capabilities_def)
  show ?case
  proof (cases "remove_capability g (ep_capabilities e)")
    case None
    then have "?f e = e" by (simp add: drop_cap_id remove_capability_None)
    with None Cons.IH [OF u(2)] Cons.prems(2) show ?thesis by auto
  next
    case (Some cs)
    then have "\<exists>c \<in> set (ep_capabilities e). cap_active c \<and> cap_generation c = g"
      using remove_capability_None [of g "ep_capabilities e"] by auto
    then have "\<forall>c \<in> set (all_capabilities es). \<not> (cap_active c \<and> cap_generation c = g)"
      using Cons.prems(1) by (fastforce simp: gens_unique_def all_capabilities_def)
    then have "\<forall>e \<in> set es. ?f e = e"
      by (simp add: all_capabilities_def drop_cap_id)
    then have "map ?f es = es" by (simp add: map_idI)
    with Some Cons.prems(2) remove_capability_eq [OF u(1) Some] show ?thesis by simp
  qed
qed

lemma strip_offset_eq:
  assumes "length (ep_queue e) = QUEUE_DEPTH"
  shows "snd (strip_offset g k (n, e)) =
    e\<lparr>ep_queue := (ep_queue e)[(ep_head e + k) mod QUEUE_DEPTH :=
        strip_msg {g} (ep_queue e ! ((ep_head e + k) mod QUEUE_DEPTH))]\<rparr>"
  by (auto simp: strip_offset_def strip_msg_def Let_def split: option.splits)

lemma strip_fold_eq:
  assumes "length (ep_queue e) = QUEUE_DEPTH"
  shows "snd (fold (strip_offset g) [0..<k] (n, e)) =
    e\<lparr>ep_queue := strip_queue {g} (ep_head e) k (ep_queue e)\<rparr>"
proof (induction k)
  case 0
  have "strip_queue {g} (ep_head e) 0 (ep_queue e) = ep_queue e"
    by (simp add: strip_queue_def ring_live_def map_nth)
  then show ?case by simp
next
  case (Suc k)
  let ?i = "(ep_head e + k) mod QUEUE_DEPTH"
  obtain n1 e1 where f: "fold (strip_offset g) [0..<k] (n, e) = (n1, e1)" by fastforce
  with Suc have e1: "e1 = e\<lparr>ep_queue := strip_queue {g} (ep_head e) k (ep_queue e)\<rparr>" by simp
  have i: "?i < length (ep_queue e)" using assms by (simp add: ipc_consts)
  have "(strip_queue {g} (ep_head e) k (ep_queue e))[?i :=
          strip_msg {g} (strip_queue {g} (ep_head e) k (ep_queue e) ! ?i)] =
        strip_queue {g} (ep_head e) (Suc k) (ep_queue e)"
    using i by (intro nth_equalityI)
      (auto simp: strip_queue_def nth_list_update ring_live_def less_Suc_eq)
  then show ?case
    using strip_offset_eq [of e1 g k n1] f e1 assms by simp
qed

lemma strip_endpoints_eq:
  "queues_sized es \<Longrightarrow>
   snd (strip_endpoints g n es) =
   map (\<lambda>e. e\<lparr>ep_queue := strip_queue {g} (ep_head e) (ep_len e) (ep_queue e)\<rparr>) es"
  by (induction es arbitrary: n)
    (simp_all add: queues_sized_def Let_def case_prod_beta strip_endpoint_def strip_fold_eq)

lemma remove_and_strip_eq:
  assumes "gens_unique (ipc_endpoints s)" and "queues_sized (ipc_endpoints s)"
    and "remove_generation g (ipc_endpoints s) = Some es"
  shows "snd (strip_queued_generation g (s\<lparr>ipc_endpoints := es\<rparr>)) =
    s\<lparr>ipc_endpoints := revoke_eps {g} (ipc_endpoints s)\<rparr>"
proof -
  have es: "es = map (\<lambda>e. e\<lparr>ep_capabilities := map (drop_cap {g}) (ep_capabilities e)\<rparr>)
      (ipc_endpoints s)"
    by (rule remove_generation_eq [OF assms(1,3)])
  then have "queues_sized es" using assms(2) by (simp add: queues_sized_def)
  then show ?thesis
    by (simp add: strip_queued_generation_def Let_def case_prod_beta strip_endpoints_eq)
      (simp add: es revoke_ep_def o_def)
qed

section \<open>The whole branch\<close>

text \<open>Two facts on reachability: removing what is below one child first, or the root first,
  leaves the rest reachable as before.\<close>

lemma tranclp_split_child:
  assumes "A g c"
  defines "D \<equiv> insert c {x. A\<^sup>+\<^sup>+ c x}"
  shows "{x. A\<^sup>+\<^sup>+ g x} = D \<union> {x. (\<lambda>p x. A p x \<and> x \<notin> D)\<^sup>+\<^sup>+ g x}"
proof -
  let ?B = "\<lambda>p x. A p x \<and> x \<notin> D"
  have "x \<in> D \<or> ?B\<^sup>+\<^sup>+ g x" if "A\<^sup>+\<^sup>+ g x" for x
    using that
  proof (induction rule: tranclp_induct)
    case (base y)
    then show ?case by auto
  next
    case (step y z)
    show ?case
    proof (cases "y \<in> D")
      case True
      then have "A\<^sup>+\<^sup>+ c z"
        using step.hyps(2) by (auto simp: D_def intro: tranclp.trancl_into_trancl)
      then show ?thesis by (simp add: D_def)
    next
      case False
      with step show ?thesis by (auto intro: tranclp.trancl_into_trancl)
    qed
  qed
  moreover have "A\<^sup>+\<^sup>+ g x" if "x \<in> D" for x
    using that assms(1) by (auto simp: D_def intro: tranclp_trans)
  moreover have "A\<^sup>+\<^sup>+ g x" if "?B\<^sup>+\<^sup>+ g x" for x
    using that by (induction rule: tranclp_induct) (auto intro: tranclp.trancl_into_trancl)
  ultimately show ?thesis by auto
qed

lemma tranclp_split_root:
  "insert g {x. A\<^sup>+\<^sup>+ g x} = insert g {x. (\<lambda>p x. A p x \<and> x \<noteq> g)\<^sup>+\<^sup>+ g x}"
proof -
  let ?B = "\<lambda>p x. A p x \<and> x \<noteq> g"
  have "x = g \<or> ?B\<^sup>+\<^sup>+ g x" if "A\<^sup>+\<^sup>+ g x" for x
    using that by (induction rule: tranclp_induct) (auto intro: tranclp.trancl_into_trancl)
  moreover have "A\<^sup>+\<^sup>+ g x" if "?B\<^sup>+\<^sup>+ g x" for x
    using that by (induction rule: tranclp_induct) (auto intro: tranclp.trancl_into_trancl)
  ultimately show ?thesis by auto
qed

lemma remove_generation_present:
  "remove_generation g es = None \<longleftrightarrow> g \<notin> set (active_generations es)"
  by (auto simp: remove_generation_None)

lemma find_child_None: "find_child_generation s g = None \<longleftrightarrow> (\<nexists>x. child (ipc_endpoints s) g x)"
  by (auto simp: find_child_generation_def find_None_iff child_def)

lemma find_child_Some: "find_child_generation s g = Some c \<Longrightarrow> child (ipc_endpoints s) g c"
  by (auto simp: find_child_generation_def find_Some_iff child_def dest!: nth_mem)

lemma descendants_none: "\<nexists>x. child es g x \<Longrightarrow> descendants es g = {}"
  by (auto simp: descendants_def dest: tranclpD)

lemma descendants_step:
  assumes "child es g c"
  shows "branch_of es c \<union> descendants (revoke_eps (branch_of es c) es) g = descendants es g"
  using tranclp_split_child [of "child es" g c] assms child_active [OF assms]
  by (simp add: branch_of_def descendants_def child_revoke)

lemma branch_step:
  assumes "g \<in> set (active_generations es)"
  shows "insert g (descendants (revoke_eps {g} es) g) = branch_of es g"
  using tranclp_split_root [of g "child es"] assms
  by (simp add: branch_of_def descendants_def child_revoke)

theorem revoke_eq:
  "gens_unique (ipc_endpoints s) \<Longrightarrow> queues_sized (ipc_endpoints s) \<Longrightarrow>
   fst (revoke_branch g d s r) =
     s\<lparr>ipc_endpoints := revoke_eps (branch_of (ipc_endpoints s) g) (ipc_endpoints s)\<rparr>"
  "gens_unique (ipc_endpoints t) \<Longrightarrow> queues_sized (ipc_endpoints t) \<Longrightarrow>
   fst (revoke_children_loop h t q) =
     t\<lparr>ipc_endpoints := revoke_eps (descendants (ipc_endpoints t) h) (ipc_endpoints t)\<rparr>"
proof (induction g d s r and h t q rule: revoke_branch_revoke_children_loop.induct)
  case (1 g d s r)
  show ?case
  proof (cases "remove_generation g (ipc_endpoints s)")
    case None
    moreover from None have "branch_of (ipc_endpoints s) g = {}"
      unfolding branch_of_def remove_generation_present by simp
    ultimately show ?thesis by (simp add: revoke_branch.simps)
  next
    case (Some es)
    then have g: "g \<in> set (active_generations (ipc_endpoints s))"
      using remove_generation_present [of g "ipc_endpoints s"] by auto
    note eq = remove_and_strip_eq [OF 1(2,3) Some]
    show ?thesis
      using 1(1) [OF Some refl refl refl refl refl] 1(2,3) Some branch_step [OF g]
      by (simp add: revoke_branch.simps Let_def eq o_def)
  qed
next
  case (2 g s r)
  show ?case
  proof (cases "find_child_generation s g")
    case None
    then have "descendants (ipc_endpoints s) g = {}"
      by (intro descendants_none) (simp add: find_child_None)
    with None show ?thesis by (simp add: revoke_children_loop.simps)
  next
    case (Some c)
    obtain s1 r1 where b: "revoke_branch c True s r = (s1, r1)" by fastforce
    have s1: "s1 = s\<lparr>ipc_endpoints := revoke_eps (branch_of (ipc_endpoints s) c) (ipc_endpoints s)\<rparr>"
      using 2(1) [OF Some 2(3,4)] b by simp
    show ?thesis
      using 2(2) [OF Some b [symmetric]] 2(3,4) Some b descendants_step [OF find_child_Some [OF Some]]
      by (simp add: revoke_children_loop.simps s1 o_def)
  qed
qed

section \<open>The report\<close>

lemma sat_add_1: "unat a + 1 < 2 ^ 64 \<Longrightarrow> unat (sat_add a (1 :: u64)) = unat a + 1"
  unfolding unat_sat_add by simp

lemma active_count_remove_eq:
  "remove_generation g (ipc_endpoints s) = Some es \<Longrightarrow>
   Suc (active_count (s\<lparr>ipc_endpoints := es\<rparr>)) = active_count s"
  using remove_generation_count [of g "ipc_endpoints s" es] by (simp add: active_count_def)

text \<open>
  Both counters are exact as long as they cannot saturate: what is added to \<open>revoked\<close> is the
  number of capabilities that disappeared, and \<open>descendants\<close> misses only the root.
\<close>

lemma revoke_report:
  "unat (rp_revoked r) + active_count s < 2 ^ 64 \<Longrightarrow>
   unat (rp_revoked (snd (revoke_branch g d s r))) + active_count (fst (revoke_branch g d s r)) =
     unat (rp_revoked r) + active_count s"
  "unat (rp_revoked q) + active_count t < 2 ^ 64 \<Longrightarrow>
   unat (rp_revoked (snd (revoke_children_loop h t q)))
     + active_count (fst (revoke_children_loop h t q)) = unat (rp_revoked q) + active_count t"
proof (induction g d s r and h t q rule: revoke_branch_revoke_children_loop.induct)
  case (1 g d s r)
  show ?case
  proof (cases "remove_generation g (ipc_endpoints s)")
    case None
    then show ?thesis by (simp add: revoke_branch.simps)
  next
    case (Some es)
    note c = active_count_remove_eq [OF Some]
    have "unat (sat_add (rp_revoked r) 1) = unat (rp_revoked r) + 1"
      using 1(2) c by (intro sat_add_1) linarith
    with 1(1) [OF Some refl refl refl refl refl] 1(2) c Some show ?thesis
      by (simp add: revoke_branch.simps Let_def)
  qed
next
  case (2 g s r)
  show ?case
  proof (cases "find_child_generation s g")
    case None
    then show ?thesis by (simp add: revoke_children_loop.simps)
  next
    case (Some c)
    obtain s1 r1 where b: "revoke_branch c True s r = (s1, r1)" by fastforce
    with 2(1) [OF Some 2(3)] 2(2) [OF Some b [symmetric]] 2(3) Some show ?thesis
      by (simp add: revoke_children_loop.simps)
  qed
qed

lemma descendants_report:
  "unat (rp_descendants r) + active_count s < 2 ^ 64 \<Longrightarrow>
   unat (rp_descendants (snd (revoke_branch g d s r))) + active_count (fst (revoke_branch g d s r))
     + (if d \<or> remove_generation g (ipc_endpoints s) = None then 0 else 1) =
     unat (rp_descendants r) + active_count s"
  "unat (rp_descendants q) + active_count t < 2 ^ 64 \<Longrightarrow>
   unat (rp_descendants (snd (revoke_children_loop h t q)))
     + active_count (fst (revoke_children_loop h t q)) = unat (rp_descendants q) + active_count t"
proof (induction g d s r and h t q rule: revoke_branch_revoke_children_loop.induct)
  case (1 g d s r)
  show ?case
  proof (cases "remove_generation g (ipc_endpoints s)")
    case None
    then show ?thesis by (simp add: revoke_branch.simps)
  next
    case (Some es)
    note c = active_count_remove_eq [OF Some]
    have "unat (sat_add (rp_descendants r) 1) = unat (rp_descendants r) + 1"
      using 1(2) c by (intro sat_add_1) linarith
    with 1(1) [OF Some refl refl refl refl refl] 1(2) c Some show ?thesis
      by (auto simp add: revoke_branch.simps Let_def)
  qed
next
  case (2 g s r)
  show ?case
  proof (cases "find_child_generation s g")
    case None
    then show ?thesis by (simp add: revoke_children_loop.simps)
  next
    case (Some c)
    obtain s1 r1 where b: "revoke_branch c True s r = (s1, r1)" by fastforce
    with 2(1) [OF Some 2(3)] 2(2) [OF Some b [symmetric]] 2(3) Some show ?thesis
      by (simp add: revoke_children_loop.simps)
  qed
qed

end
