(* ===== verification/Ipc_Invariant.thy ===== *)
theory Ipc_Invariant
  imports Ipc_Revoke
begin

unbundle bit_operations_syntax

text \<open>
  The consistency of the IPC state. \<open>IpcState::invariants\<close> is the check the kernel runs on
  itself; it is not inductive, because a capability for the task number 0 would pass it while
  an endpoint is free. \<open>ipc_inv\<close> strengthens it: array sizes, generations within the handle
  encoding, real targets, and receive rights only over the holder's own mailbox. Every
  operation of \<open>IpcState\<close> keeps \<open>ipc_inv\<close>, and \<open>ipc_inv\<close> implies \<open>invariants\<close>.
\<close>

section \<open>The strengthened invariant\<close>

definition ep_sized :: "Endpoint \<Rightarrow> bool" where
  "ep_sized e \<longleftrightarrow>
     length (ep_queue e) = QUEUE_DEPTH
     \<and> length (ep_capabilities e) = MAX_CAPABILITIES_PER_ENDPOINT
     \<and> ep_head e < QUEUE_DEPTH \<and> ep_len e \<le> QUEUE_DEPTH
     \<and> (\<forall>m \<in> set (ep_queue e).
          length (msg_bytes m) = MAX_MESSAGE_BYTES \<and> msg_length m \<le> MAX_MESSAGE_BYTES)"

abbreviation ep_messages :: "Endpoint \<Rightarrow> Message list" where
  "ep_messages e \<equiv> ring_list (ep_queue e) (ep_head e) (ep_len e)"

text \<open>A capability and its parent agree: same target, delegable, no more rights, one deeper.\<close>

definition parent_ok :: "Capability \<Rightarrow> Capability \<Rightarrow> bool" where
  "parent_ok p c \<longleftrightarrow>
     cap_active p \<and> cap_generation p = cap_parent_generation c
     \<and> cap_generation p \<noteq> cap_generation c \<and> cap_target p = cap_target c
     \<and> contains (cap_rights p) DELEGATE \<and> contains (cap_rights p) (cap_rights c)
     \<and> checked_add (cap_lineage_depth p) 1 = Some (cap_lineage_depth c)"

definition cap_ok :: "Endpoint list \<Rightarrow> Capability \<Rightarrow> bool" where
  "cap_ok es c \<longleftrightarrow>
     cap_generation c \<noteq> 0 \<and> cap_generation c \<le> max_generation
     \<and> valid (cap_rights c) \<and> cap_lineage_depth c \<le> MAX_CAPABILITY_LINEAGE_DEPTH
     \<and> cap_target c \<noteq> 0
     \<and> (if cap_parent_generation c = 0 then cap_lineage_depth c = 0
         else \<exists>p \<in> set (all_capabilities es). parent_ok p c)"

text \<open>What survives every revocation, and the two clauses that need the owners.\<close>

definition es_weak :: "Endpoint list \<Rightarrow> bool" where
  "es_weak es \<longleftrightarrow>
     length es = MAX_ENDPOINTS \<and> (\<forall>e \<in> set es. ep_sized e)
     \<and> distinct (filter (\<lambda>t. t \<noteq> 0) (map ep_owner es))
     \<and> gens_unique es
     \<and> (\<forall>e \<in> set es. ep_owner e = 0 \<longrightarrow> (\<forall>c \<in> set (ep_capabilities e). \<not> cap_active c))
     \<and> (\<forall>c \<in> set (all_capabilities es). cap_active c \<longrightarrow> cap_ok es c)
     \<and> (\<forall>e \<in> set es. ep_owner e \<noteq> 0 \<longrightarrow>
          (\<forall>m \<in> set (ep_messages e). queued_capability_valid e m))
     \<and> (\<forall>e \<in> set es. \<forall>c \<in> set (ep_capabilities e).
          cap_active c \<longrightarrow> contains (cap_rights c) RECEIVE \<longrightarrow> cap_target c = ep_owner e)"

definition selfs_ok :: "Endpoint list \<Rightarrow> bool" where
  "selfs_ok es \<longleftrightarrow> (\<forall>e \<in> set es. ep_owner e \<noteq> 0 \<longrightarrow> self_capability_valid e)"

definition targets_ok :: "Endpoint list \<Rightarrow> bool" where
  "targets_ok es \<longleftrightarrow>
     (\<forall>c \<in> set (all_capabilities es). cap_active c \<longrightarrow> cap_target c \<in> set (map ep_owner es))"

definition es_inv :: "Endpoint list \<Rightarrow> bool" where
  "es_inv es \<longleftrightarrow> es_weak es \<and> selfs_ok es \<and> targets_ok es"

definition ipc_inv :: "IpcState \<Rightarrow> bool" where
  "ipc_inv s \<longleftrightarrow>
     ipc_initialized s \<and> next_capability_generation s \<le> max_generation
     \<and> es_inv (ipc_endpoints s)"

section \<open>Facts about the invariant\<close>

lemma contains_trans: "contains a b \<Longrightarrow> contains b c \<Longrightarrow> contains a c"
  unfolding contains_def by (metis and.assoc)

lemma es_weak_sized: "es_weak es \<Longrightarrow> e \<in> set es \<Longrightarrow> ep_sized e"
  by (simp add: es_weak_def)

lemma es_weak_queues: "es_weak es \<Longrightarrow> queues_sized es"
  by (simp add: es_weak_def queues_sized_def ep_sized_def)

lemma es_weak_gens: "es_weak es \<Longrightarrow> gens_unique es"
  by (simp add: es_weak_def)

lemma mem_all_capabilities:
  "c \<in> set (all_capabilities es) \<longleftrightarrow> (\<exists>e \<in> set es. c \<in> set (ep_capabilities e))"
  by (auto simp: all_capabilities_def)

lemma gens_unique_eq:
  assumes "gens_unique es" and "c \<in> set (all_capabilities es)" and "d \<in> set (all_capabilities es)"
    and "cap_active c" and "cap_active d" and "cap_generation c = cap_generation d"
  shows "c = d"
  using assms unfolding gens_unique_def distinct_map inj_on_def by auto

lemma find_capability_generation_iff:
  assumes "gens_unique es"
  shows "find_capability_generation es g = Some c \<longleftrightarrow>
    c \<in> set (all_capabilities es) \<and> cap_active c \<and> cap_generation c = g"
proof
  assume "find_capability_generation es g = Some c"
  then show "c \<in> set (all_capabilities es) \<and> cap_active c \<and> cap_generation c = g"
    by (auto simp: find_capability_generation_def find_Some_iff)
next
  assume c: "c \<in> set (all_capabilities es) \<and> cap_active c \<and> cap_generation c = g"
  then obtain d where d: "find_capability_generation es g = Some d"
    by (cases "find_capability_generation es g")
      (auto simp: find_capability_generation_def find_None_iff)
  then have "d \<in> set (all_capabilities es) \<and> cap_active d \<and> cap_generation d = g"
    by (auto simp: find_capability_generation_def find_Some_iff)
  with c gens_unique_eq [OF assms, of c d] d show "find_capability_generation es g = Some c"
    by simp
qed

lemma find_capability_generation_None:
  "find_capability_generation es g = None \<longleftrightarrow> g \<notin> set (active_generations es)"
  by (auto simp: find_capability_generation_def find_None_iff)

section \<open>Revocation keeps the weak invariant\<close>

text \<open>
  A set of generations that can be revoked from \<open>G\<close>: closed under children, and every member
  is in \<open>G\<close> or the child of a member.
\<close>

definition revocable :: "Endpoint list \<Rightarrow> u64 set \<Rightarrow> u64 set \<Rightarrow> bool" where
  "revocable es G R \<longleftrightarrow>
     (\<forall>p x. p \<in> R \<longrightarrow> child es p x \<longrightarrow> x \<in> R)
     \<and> (\<forall>x \<in> R. x \<in> G \<or> (\<exists>p \<in> R. child es p x))"

lemma revocable_empty [simp]: "revocable es G {}"
  by (simp add: revocable_def)

lemma revocable_branch: "revocable es {g} (branch_of es g)"
  unfolding revocable_def branch_of_def descendants_def
  by (auto intro: tranclp.trancl_into_trancl elim: tranclp.cases)

lemma revocable_descendants: "revocable es {x. child es g x} (descendants es g)"
  unfolding revocable_def descendants_def
  by (auto intro: tranclp.trancl_into_trancl elim: tranclp.cases)

lemma revocable_mono: "revocable es G R \<Longrightarrow> G \<subseteq> H \<Longrightarrow> revocable es H R"
  by (auto simp: revocable_def)

lemma revocable_compose:
  "revocable es G R \<Longrightarrow> revocable (revoke_eps R es) G R' \<Longrightarrow> revocable es G (R \<union> R')"
  unfolding revocable_def child_revoke by blast

lemma drop_cap_active: "cap_active (drop_cap R c) \<Longrightarrow> drop_cap R c = c \<and> cap_generation c \<notin> R"
  by (auto simp: drop_cap_def Capability_empty_def split: if_splits)

lemma drop_cap_keep: "cap_generation c \<notin> R \<Longrightarrow> drop_cap R c = c"
  by (simp add: drop_cap_def)

lemma ring_live_index:
  "length q = QUEUE_DEPTH \<Longrightarrow> k < n \<Longrightarrow> ring_live h n ((h + k) mod length q)"
  by (auto simp: ring_live_def)

lemma ring_list_strip:
  assumes "length q = QUEUE_DEPTH"
  shows "ring_list (strip_queue R h n q) h n = map (strip_msg R) (ring_list q h n)"
proof (rule nth_equalityI)
  fix k
  assume "k < length (ring_list (strip_queue R h n q) h n)"
  then have k: "k < n" by simp
  have "(h + k) mod length q < length q" using assms by (simp add: ipc_consts)
  with k ring_live_index [OF assms k, of h] show
    "ring_list (strip_queue R h n q) h n ! k = map (strip_msg R) (ring_list q h n) ! k"
    by (simp add: nth_ring_list) (simp add: strip_queue_def)
qed simp

lemma set_strip_queue: "m \<in> set (strip_queue R h n q) \<Longrightarrow> \<exists>m' \<in> set q. m = m' \<or> m = strip_msg R m'"
  by (auto simp: strip_queue_def)

lemma strip_msg_sel [simp]:
  "msg_bytes (strip_msg R m) = msg_bytes m" "msg_length (strip_msg R m) = msg_length m"
  "msg_sender (strip_msg R m) = msg_sender m" "msg_sequence (strip_msg R m) = msg_sequence m"
  by (auto simp: strip_msg_def split: option.splits)

lemma ep_sized_revoke: "ep_sized e \<Longrightarrow> ep_sized (revoke_ep R e)"
  by (auto simp: ep_sized_def dest!: set_strip_queue)

lemma queued_valid_revoke:
  assumes "ep_sized e" and "queued_capability_valid e m"
  shows "queued_capability_valid (revoke_ep R e) (strip_msg R m)"
proof (cases "decode_handle (msg_capability_handle m)")
  case None
  then show ?thesis using assms by (auto simp: queued_capability_valid_def strip_msg_def split: if_splits)
next
  case (Some sg)
  obtain slot g where sg: "sg = (slot, g)" by fastforce
  with Some have slot: "slot < length (ep_capabilities e)" "msg_capability_handle m \<noteq> 0"
    using decode_handle_Some [of "msg_capability_handle m" slot g] assms(1)
    by (auto simp: ep_sized_def ipc_consts)
  then show ?thesis
    using assms(2) Some sg
    by (auto simp: queued_capability_valid_def strip_msg_def drop_cap_def Let_def)
qed

lemma cap_ok_revoke:
  assumes "cap_ok es c" and "revocable es G R" and "cap_generation c \<notin> R"
    and "c \<in> set (all_capabilities es)" and "cap_active c"
  shows "cap_ok (revoke_eps R es) c"
proof (cases "cap_parent_generation c = 0")
  case True
  with assms(1) show ?thesis by (simp add: cap_ok_def)
next
  case False
  with assms(1) obtain p where p: "p \<in> set (all_capabilities es)" "parent_ok p c"
    by (auto simp: cap_ok_def)
  have "child es (cap_generation p) (cap_generation c)"
    using p(2) assms(4,5) by (auto simp: child_def parent_ok_def)
  with assms(2,3) have "cap_generation p \<notin> R" by (auto simp: revocable_def)
  with p have "p \<in> set (all_capabilities (revoke_eps R es))"
    by (simp add: image_iff) (metis drop_cap_keep)
  with p(2) assms(1) False show ?thesis by (auto simp: cap_ok_def)
qed

lemma es_weak_revoke:
  assumes "es_weak es" and "revocable es G R"
  shows "es_weak (revoke_eps R es)"
proof -
  have q: "\<forall>m \<in> set (ep_messages (revoke_ep R e)). queued_capability_valid (revoke_ep R e) m"
    if "e \<in> set es" "ep_owner e \<noteq> 0" for e
    using assms(1) that queued_valid_revoke [of e _ R]
    by (auto simp: es_weak_def ring_list_strip ep_sized_def)
  have c: "cap_ok (revoke_eps R es) (drop_cap R c)"
    if "c \<in> set (all_capabilities es)" "cap_active (drop_cap R c)" for c
    using assms that cap_ok_revoke [OF _ assms(2), of c] drop_cap_active [OF that(2)]
    by (auto simp: es_weak_def)
  have r: "cap_target (drop_cap R c) = ep_owner e"
    if "e \<in> set es" "c \<in> set (ep_capabilities e)" "cap_active (drop_cap R c)"
      "contains (cap_rights (drop_cap R c)) RECEIVE" for e c
    using assms(1) that drop_cap_active [OF that(3)] by (auto simp: es_weak_def)
  have f: "\<not> cap_active (drop_cap R c)" if "\<not> cap_active c" for c
    using that by (simp add: drop_cap_def)
  show ?thesis
    using assms(1) q c r f ep_sized_revoke gens_unique_revoke [of es R]
    unfolding es_weak_def by (simp add: o_def)
qed

end
