(* ===== verification/Ipc_Update.thy ===== *)
theory Ipc_Update
  imports Ipc_Invariant "HOL-Library.Multiset"
begin

text \<open>
  The building blocks of the preservation proofs: the generation allocator returns a fresh
  generation within its fuel, and the four ways an operation changes the endpoint table
  (a mailbox, a new capability, a new endpoint, a cleared endpoint) keep the invariant.
\<close>

section \<open>Allocation of generations\<close>

text \<open>The \<open>k\<close>-th generation the loop tries when it starts at \<open>c\<close>.\<close>

definition candidate :: "nat \<Rightarrow> nat \<Rightarrow> nat" where
  "candidate c k = (c - 1 + k) mod (2 ^ 56 - 1) + 1"

definition next_generation :: "u64 \<Rightarrow> u64" where
  "next_generation g = (if max_generation \<le> g then 1 else g + 1)"

lemma max_generation_word: "max_generation = 0xFFFFFFFFFFFFFF"
  by (simp add: max_generation_eq mask_eq_exp_minus_1)

lemma unat_max_generation: "unat max_generation = 2 ^ 56 - 1"
  by (simp add: max_generation_word)

lemma candidate_0: "0 < c \<Longrightarrow> c < 2 ^ 56 \<Longrightarrow> candidate c 0 = c"
  by (simp add: candidate_def)

lemma candidate_next:
  assumes "0 < c" and "c < 2 ^ 56"
  shows "candidate (if c = 2 ^ 56 - 1 then 1 else c + 1) k = candidate c (Suc k)"
proof (cases "c = 2 ^ 56 - 1")
  case True
  then have "c - 1 + Suc k = k + (2 ^ 56 - 1)" by simp
  with True show ?thesis unfolding candidate_def by (simp only: mod_add_self2) simp
next
  case False
  with assms show ?thesis unfolding candidate_def by simp
qed

lemma candidate_inj:
  assumes "j < 2 ^ 56 - 1" and "k < 2 ^ 56 - 1" and "candidate c j = candidate c k"
  shows "j = k"
  using assms ring_index_inj [of j "2 ^ 56 - 1" k "2 ^ 56 - 1" "c - 1"] by (simp add: candidate_def)

lemma next_generation_range:
  assumes "1 \<le> g" and "g \<le> max_generation"
  shows "1 \<le> next_generation g" "next_generation g \<le> max_generation"
    and "unat (next_generation g) = (if unat g = 2 ^ 56 - 1 then 1 else unat g + 1)"
proof -
  have g: "unat g < 2 ^ 56" using assms(2) by (simp add: le_max_generation)
  show u: "unat (next_generation g) = (if unat g = 2 ^ 56 - 1 then 1 else unat g + 1)"
  proof (cases "unat g = 2 ^ 56 - 1")
    case True
    then have "max_generation \<le> g" by (simp add: word_le_nat_alt unat_max_generation)
    with True show ?thesis by (simp add: next_generation_def)
  next
    case False
    with g have "\<not> max_generation \<le> g" by (simp add: word_le_nat_alt unat_max_generation)
    moreover have "unat (g + 1) = unat g + 1" using g by (subst unat_add_lem [THEN iffD1]) simp_all
    ultimately show ?thesis using False by (simp add: next_generation_def)
  qed
  show "1 \<le> next_generation g" using u by (simp add: word_le_nat_alt)
  show "next_generation g \<le> max_generation" using u g
    by (simp add: word_le_nat_alt unat_max_generation split: if_splits)
qed

lemma allocate_loop_None:
  assumes "allocate_generation_loop fuel s = None"
    and "next_capability_generation s \<le> max_generation" and "k < fuel"
  shows "of_nat (candidate (unat (max (next_capability_generation s) 1)) k)
    \<in> set (active_generations (ipc_endpoints s))"
  using assms
proof (induction fuel arbitrary: s k)
  case 0
  then show ?case by simp
next
  case (Suc fuel)
  define g where "g = max (next_capability_generation s) 1"
  define s1 where "s1 = s\<lparr>next_capability_generation := next_generation g\<rparr>"
  have g: "1 \<le> g" "g \<le> max_generation"
    using Suc.prems(2) by (auto simp: g_def max_generation_word)
  then have gn: "0 < unat g" "unat g < 2 ^ 56"
    by (simp_all add: le_max_generation) (simp add: word_le_nat_alt)
  from Suc.prems(1) have act: "g \<in> set (active_generations (ipc_endpoints s))"
    and loop: "allocate_generation_loop fuel s1 = None"
    by (auto simp: Let_def g_def [symmetric] next_generation_def s1_def
        find_capability_generation_None split: if_splits)
  show ?case
  proof (cases k)
    case 0
    with act gn show ?thesis by (simp add: g_def [symmetric] candidate_0)
  next
    case (Suc k')
    have "max (next_generation g) 1 = next_generation g"
      using next_generation_range(1) [OF g] by (simp add: max_def)
    with Suc.IH [OF loop, of k'] Suc \<open>k < Suc fuel\<close> next_generation_range(2,3) [OF g]
      candidate_next [OF gn, of k']
    show ?thesis by (simp add: s1_def g_def [symmetric])
  qed
qed

lemma allocate_loop_Some:
  assumes "allocate_generation_loop fuel s = Some (g, s')"
    and "next_capability_generation s \<le> max_generation"
  shows "g \<noteq> 0 \<and> g \<le> max_generation \<and> g \<notin> set (active_generations (ipc_endpoints s))
    \<and> s' = s\<lparr>next_capability_generation := next_generation g, last_capability_generation := g\<rparr>"
  using assms
proof (induction fuel arbitrary: s)
  case 0
  then show ?case by simp
next
  case (Suc fuel)
  define c where "c = max (next_capability_generation s) 1"
  have c: "1 \<le> c" "c \<le> max_generation"
    using Suc.prems(2) by (auto simp: c_def max_generation_word)
  show ?case
  proof (cases "find_capability_generation (ipc_endpoints s) c = None")
    case True
    with Suc.prems(1) have "g = c" "s' = s\<lparr>next_capability_generation := next_generation g,
        last_capability_generation := g\<rparr>"
      by (auto simp: Let_def c_def [symmetric] next_generation_def)
    with c True show ?thesis by (auto simp: find_capability_generation_None)
  next
    case False
    with Suc.prems(1) have "allocate_generation_loop fuel
        (s\<lparr>next_capability_generation := next_generation c\<rparr>) = Some (g, s')"
      by (simp add: Let_def c_def [symmetric] next_generation_def)
    from Suc.IH [OF this] next_generation_range(2) [OF c] show ?thesis by simp
  qed
qed

lemma length_all_capabilities:
  "es_weak es \<Longrightarrow> length (all_capabilities es) = MAX_ENDPOINTS * MAX_CAPABILITIES_PER_ENDPOINT"
proof -
  assume "es_weak es"
  then have len: "length es = MAX_ENDPOINTS"
    and caps: "\<forall>e \<in> set es. length (ep_capabilities e) = MAX_CAPABILITIES_PER_ENDPOINT"
    by (auto simp: es_weak_def ep_sized_def)
  from caps have "length (all_capabilities es) = length es * MAX_CAPABILITIES_PER_ENDPOINT"
    by (induction es) (simp_all add: all_capabilities_def)
  with len show ?thesis by simp
qed

lemma allocate_loop_fuel:
  assumes "es_weak (ipc_endpoints s)" and "next_capability_generation s \<le> max_generation"
  shows "allocate_generation_loop (MAX_ENDPOINTS * MAX_CAPABILITIES_PER_ENDPOINT + 1) s \<noteq> None"
proof
  let ?n = "MAX_ENDPOINTS * MAX_CAPABILITIES_PER_ENDPOINT + 1"
  let ?A = "set (active_generations (ipc_endpoints s))"
  define f where "f k = (of_nat (candidate (unat (max (next_capability_generation s) 1)) k) :: u64)"
    for k
  assume "allocate_generation_loop ?n s = None"
  then have sub: "f ` {..<?n} \<subseteq> ?A"
    using allocate_loop_None [OF _ assms(2)] by (fastforce simp: f_def simp del: allocate_generation_loop.simps)
  have small: "candidate c k < 2 ^ 64" for c k
    unfolding candidate_def using mod_less_divisor [of "2 ^ 56 - 1" "c - 1 + k"] by simp
  have "inj_on f {..<?n}"
  proof (rule inj_onI)
    fix j k assume jk: "j \<in> {..<?n}" "k \<in> {..<?n}" "f j = f k"
    have "unat (f j) = unat (f k)" using jk(3) by simp
    then show "j = k"
      using jk(1,2) candidate_inj [of j k] small
      by (simp add: f_def unat_of_nat take_bit_eq_mod ipc_consts)
  qed
  then have "?n \<le> card ?A" using card_mono [OF _ sub] by (simp add: card_image)
  also have "\<dots> \<le> length (all_capabilities (ipc_endpoints s))"
    using card_length [of "active_generations (ipc_endpoints s)"] length_filter_le
    by (metis (no_types, lifting) length_map order_trans)
  finally show False using length_all_capabilities [OF assms(1)] by simp
qed

text \<open>The allocator returns, and what it returns is a fresh generation that fits a handle.\<close>

lemma allocate_generation_returns:
  assumes "es_weak (ipc_endpoints s)" and "next_capability_generation s \<le> max_generation"
  obtains g where "allocate_generation s =
      (g, s\<lparr>next_capability_generation := next_generation g, last_capability_generation := g\<rparr>)"
    and "g \<noteq> 0" and "g \<le> max_generation" and "next_generation g \<le> max_generation"
    and "g \<notin> set (active_generations (ipc_endpoints s))"
proof -
  obtain g s' where loop:
    "allocate_generation_loop (MAX_ENDPOINTS * MAX_CAPABILITIES_PER_ENDPOINT + 1) s = Some (g, s')"
    using allocate_loop_fuel [OF assms] by fastforce
  note spec = allocate_loop_Some [OF loop assms(2)]
  then have "1 \<le> g" by (simp add: word_le_nat_alt unat_gt_0 Suc_le_eq)
  with spec next_generation_range(2) [of g] loop show ?thesis
    by (intro that [of g]) (simp_all add: allocate_generation_def)
qed

section \<open>Changing one endpoint\<close>

text \<open>The active capabilities as a multiset, which one assignment changes in one place.\<close>

definition active_caps :: "Endpoint list \<Rightarrow> Capability multiset" where
  "active_caps es = mset (filter cap_active (all_capabilities es))"

definition ep_active :: "Endpoint \<Rightarrow> Capability multiset" where
  "ep_active e = mset (filter cap_active (ep_capabilities e))"

lemma active_caps_update:
  assumes "i < length es"
  shows "active_caps (es[i := e]) + ep_active (es ! i) = active_caps es + ep_active e"
proof -
  have "active_caps es = active_caps (take i es @ es ! i # drop (Suc i) es)"
    using assms by (simp add: id_take_nth_drop [symmetric])
  then show ?thesis
    using assms by (simp add: upd_conv_take_nth_drop active_caps_def ep_active_def all_capabilities_def)
qed

lemma set_active_caps:
  "c \<in># active_caps es \<longleftrightarrow> c \<in> set (all_capabilities es) \<and> cap_active c"
  by (auto simp: active_caps_def)

definition gens_distinct :: "Capability multiset \<Rightarrow> bool" where
  "gens_distinct A \<longleftrightarrow> (\<forall>g. count (image_mset cap_generation A) g \<le> 1)"

lemma distinct_count: "distinct xs \<longleftrightarrow> (\<forall>x. count (mset xs) x \<le> 1)"
proof -
  have "count (mset xs) x = 1" if "x \<in> set xs" "count (mset xs) x \<le> 1" for x
    using that by (simp add: le_Suc_eq count_eq_zero_iff del: count_mset)
  moreover have "count (mset xs) x \<le> 1" if "x \<in> set xs \<longrightarrow> count (mset xs) x = 1" for x
    using that by (metis count_eq_zero_iff set_mset_mset le_refl zero_le)
  ultimately show ?thesis unfolding distinct_count_atmost_1
    by (metis count_eq_zero_iff set_mset_mset)
qed

lemma gens_unique_active: "gens_unique es \<longleftrightarrow> gens_distinct (active_caps es)"
  by (simp add: gens_unique_def gens_distinct_def active_caps_def distinct_count mset_map
      del: count_mset)

lemma gens_distinct_add:
  "gens_distinct A \<Longrightarrow> cap_generation c \<notin> cap_generation ` set_mset A \<Longrightarrow>
   gens_distinct (add_mset c A)"
  by (auto simp: gens_distinct_def count_eq_zero_iff)

lemma cap_ok_active:
  "cap_ok es c \<longleftrightarrow>
     cap_generation c \<noteq> 0 \<and> cap_generation c \<le> max_generation
     \<and> valid (cap_rights c) \<and> cap_lineage_depth c \<le> MAX_CAPABILITY_LINEAGE_DEPTH
     \<and> cap_target c \<noteq> 0
     \<and> (if cap_parent_generation c = 0 then cap_lineage_depth c = 0
         else \<exists>p. p \<in># active_caps es \<and> parent_ok p c)"
  by (auto simp: cap_ok_def set_active_caps parent_ok_def)

lemma cap_ok_mono: "cap_ok es c \<Longrightarrow> active_caps es \<subseteq># active_caps es' \<Longrightarrow> cap_ok es' c"
  by (auto simp: cap_ok_active dest: mset_subset_eqD split: if_splits)

text \<open>The clauses of the weak invariant that concern one endpoint, and those that concern
  the active capabilities of all.\<close>

definition ep_ok :: "Endpoint \<Rightarrow> bool" where
  "ep_ok e \<longleftrightarrow> ep_sized e
     \<and> (ep_owner e = 0 \<longrightarrow> ep_active e = {#})
     \<and> (ep_owner e \<noteq> 0 \<longrightarrow> (\<forall>m \<in> set (ep_messages e). queued_capability_valid e m))
     \<and> (\<forall>c \<in># ep_active e. contains (cap_rights c) RECEIVE \<longrightarrow> cap_target c = ep_owner e)"

lemma es_weak_alt:
  "es_weak es \<longleftrightarrow>
     length es = MAX_ENDPOINTS \<and> (\<forall>e \<in> set es. ep_ok e)
     \<and> distinct (filter (\<lambda>t. t \<noteq> 0) (map ep_owner es))
     \<and> gens_distinct (active_caps es)
     \<and> (\<forall>c \<in># active_caps es. cap_ok es c)"
proof -
  have "ep_active e = {#} \<longleftrightarrow> (\<forall>c \<in> set (ep_capabilities e). \<not> cap_active c)" for e
    by (simp add: ep_active_def filter_empty_conv del: mset_filter)
  moreover have "(\<forall>c \<in># ep_active e. P c) \<longleftrightarrow> (\<forall>c \<in> set (ep_capabilities e). cap_active c \<longrightarrow> P c)"
    for e P by (auto simp: ep_active_def)
  moreover have "(\<forall>c \<in># active_caps es. P c) \<longleftrightarrow>
      (\<forall>c \<in> set (all_capabilities es). cap_active c \<longrightarrow> P c)" for P
    by (auto simp: set_active_caps)
  ultimately show ?thesis
    unfolding es_weak_def ep_ok_def gens_unique_active by (auto simp: ball_conj_distrib)
qed

lemma es_update_weak:
  assumes "es_weak es" and "i < MAX_ENDPOINTS" and "ep_ok e"
    and "distinct (filter (\<lambda>t. t \<noteq> 0) (map ep_owner (es[i := e])))"
    and "active_caps (es[i := e]) = A + active_caps es"
    and "gens_distinct (A + active_caps es)"
    and "\<And>c. c \<in># A \<Longrightarrow> cap_ok es c"
  shows "es_weak (es[i := e])"
proof -
  note weak = assms(1) [unfolded es_weak_alt]
  have "cap_ok es c" if "c \<in># A + active_caps es" for c
    using weak assms(7) that by (meson union_iff)
  moreover have "active_caps es \<subseteq># active_caps (es[i := e])" unfolding assms(5) by simp
  ultimately have ok: "\<forall>c \<in># A + active_caps es. cap_ok (es[i := e]) c"
    using cap_ok_mono by blast
  have "\<forall>e' \<in> set (es[i := e]). ep_ok e'"
    using weak assms(3) set_update_subset_insert [of es i e] by blast
  with ok weak assms(4,6) show ?thesis unfolding es_weak_alt assms(5) by (metis length_list_update)
qed

lemma map_update_same:
  "i < length es \<Longrightarrow> f e = f (es ! i) \<Longrightarrow> map f (es[i := e]) = map f es"
  by (metis list_update_id map_update)

text \<open>A new mailbox: the owner and the capabilities stay.\<close>

lemma es_inv_mailbox:
  assumes "es_inv es" and "i < MAX_ENDPOINTS" and "ep_sized e"
    and "ep_owner e = ep_owner (es ! i)" and "ep_capabilities e = ep_capabilities (es ! i)"
    and "\<And>m. m \<in> set (ep_messages e) \<Longrightarrow>
      m \<in> set (ep_messages (es ! i)) \<or> queued_capability_valid e m"
  shows "es_inv (es[i := e])"
proof -
  have i: "i < length es" using assms(1,2) by (simp add: es_inv_def es_weak_def)
  then have old: "ep_ok (es ! i)" using assms(1) nth_mem [OF i] unfolding es_inv_def es_weak_alt by blast
  have act: "ep_active e = ep_active (es ! i)" by (simp add: ep_active_def assms(5))
  have caps: "active_caps (es[i := e]) = {#} + active_caps es"
    using active_caps_update [OF i, of e] act by simp
  have "queued_capability_valid (es ! i) m = queued_capability_valid e m" for m
    unfolding queued_capability_valid_def assms(5) by simp
  then have "ep_ok e" using old assms(3,4,6) act by (auto simp: ep_ok_def)
  then have "es_weak (es[i := e])"
    using assms(1,2) i caps map_update_same [of i es ep_owner e, OF i assms(4)]
    by (intro es_update_weak [where A = "{#}"]) (simp_all add: es_inv_def es_weak_alt)
  moreover have "selfs_ok (es[i := e])"
    using assms(1,4,5) i set_update_subset_insert [of es i e]
    by (auto simp: es_inv_def selfs_ok_def self_capability_valid_def)
  moreover have "targets_ok (es[i := e])"
    using assms(1) caps map_update_same [of i es ep_owner e, OF i assms(4)]
    unfolding es_inv_def targets_ok_def by (metis add_0 set_active_caps)
  ultimately show ?thesis by (simp add: es_inv_def)
qed

text \<open>A new capability in a free slot of an owned endpoint.\<close>

definition add_cap :: "Endpoint \<Rightarrow> nat \<Rightarrow> Capability \<Rightarrow> Endpoint" where
  "add_cap e slot c = e\<lparr>ep_capabilities := (ep_capabilities e)[slot := c]\<rparr>"

lemma add_cap_sel [simp]:
  "ep_owner (add_cap e slot c) = ep_owner e" "ep_queue (add_cap e slot c) = ep_queue e"
  "ep_head (add_cap e slot c) = ep_head e" "ep_len (add_cap e slot c) = ep_len e"
  "ep_waiting (add_cap e slot c) = ep_waiting e"
  "ep_capabilities (add_cap e slot c) = (ep_capabilities e)[slot := c]"
  by (simp_all add: add_cap_def)

lemma ep_active_add:
  assumes "slot < length (ep_capabilities e)" and "\<not> cap_active (ep_capabilities e ! slot)"
    and "cap_active c"
  shows "ep_active (add_cap e slot c) = add_mset c (ep_active e)"
  using assms by (simp add: ep_active_def mset_update nth_mem_mset)

lemma queued_valid_add:
  assumes "\<not> cap_active (ep_capabilities e ! slot)" and "queued_capability_valid e m"
  shows "queued_capability_valid (add_cap e slot c) m"
proof (cases "decode_handle (msg_capability_handle m)")
  case None
  with assms show ?thesis by (auto simp: queued_capability_valid_def split: if_splits)
next
  case (Some sg)
  then have "(ep_capabilities e)[slot := c] ! fst sg = ep_capabilities e ! fst sg
    \<or> msg_capability_handle m = 0"
    using assms by (cases "fst sg = slot")
      (auto simp: queued_capability_valid_def Let_def case_prod_beta)
  with assms(2) Some show ?thesis
    by (auto simp: queued_capability_valid_def Let_def case_prod_beta)
qed

lemma ep_ok_add:
  assumes "ep_ok e" and "ep_owner e \<noteq> 0" and "slot < MAX_CAPABILITIES_PER_ENDPOINT"
    and "\<not> cap_active (ep_capabilities e ! slot)" and "cap_active c"
    and "contains (cap_rights c) RECEIVE \<Longrightarrow> cap_target c = ep_owner e"
  shows "ep_ok (add_cap e slot c)"
proof -
  have "slot < length (ep_capabilities e)" using assms(1,3) by (simp add: ep_ok_def ep_sized_def)
  from ep_active_add [OF this assms(4,5)] assms show ?thesis
    using queued_valid_add [OF assms(4)] by (auto simp: ep_ok_def ep_sized_def)
qed

definition new_capability :: "Endpoint list \<Rightarrow> nat \<Rightarrow> nat \<Rightarrow> Capability \<Rightarrow> bool" where
  "new_capability es i slot c \<longleftrightarrow>
     i < MAX_ENDPOINTS \<and> ep_owner (es ! i) \<noteq> 0 \<and> slot < MAX_CAPABILITIES_PER_ENDPOINT
     \<and> \<not> cap_active (ep_capabilities (es ! i) ! slot) \<and> cap_active c \<and> cap_ok es c
     \<and> cap_generation c \<notin> set (active_generations es)
     \<and> (contains (cap_rights c) RECEIVE \<longrightarrow> cap_target c = ep_owner (es ! i))"

lemma es_weak_nth: "es_weak es \<Longrightarrow> i < MAX_ENDPOINTS \<Longrightarrow> i < length es \<and> ep_ok (es ! i)"
  unfolding es_weak_alt by (metis nth_mem)

lemma new_capability_active:
  assumes "es_weak es" and "new_capability es i slot c"
  shows "active_caps (es[i := add_cap (es ! i) slot c]) = {#c#} + active_caps es"
proof -
  have i: "i < length es" "slot < length (ep_capabilities (es ! i))"
    using assms es_weak_nth [OF assms(1), of i] by (auto simp: new_capability_def ep_ok_def ep_sized_def)
  have "ep_active (add_cap (es ! i) slot c) = {#c#} + ep_active (es ! i)"
    using ep_active_add [OF i(2)] assms(2) by (simp add: new_capability_def)
  with active_caps_update [OF i(1), of "add_cap (es ! i) slot c"] show ?thesis
    by (simp add: ac_simps)
qed

lemma new_capability_owners:
  "map ep_owner (es[i := add_cap (es ! i) slot c]) = map ep_owner es"
  by (metis add_cap_sel(1) list_update_beyond map_update_same not_le_imp_less)

lemma new_capability_weak:
  assumes "es_weak es" and "new_capability es i slot c"
  shows "es_weak (es[i := add_cap (es ! i) slot c])"
proof (rule es_update_weak [OF assms(1), where A = "{#c#}"])
  note n = assms(2) [unfolded new_capability_def]
  show "ep_ok (add_cap (es ! i) slot c)"
    using n es_weak_nth [OF assms(1), of i] by (intro ep_ok_add) auto
  show "distinct (filter (\<lambda>t. t \<noteq> 0) (map ep_owner (es[i := add_cap (es ! i) slot c])))"
    unfolding new_capability_owners using assms(1) unfolding es_weak_def by blast
  have "cap_generation c \<notin> cap_generation ` set_mset (active_caps es)"
    using n by (simp add: active_caps_def)
  moreover have "gens_distinct (active_caps es)" using assms(1) unfolding es_weak_alt by blast
  ultimately show "gens_distinct ({#c#} + active_caps es)" by (simp add: gens_distinct_add)
qed (use assms new_capability_active in \<open>auto simp: new_capability_def\<close>)

lemma new_capability_targets:
  assumes "es_weak es" and "new_capability es i slot c"
    and "targets_ok es" and "cap_target c \<in> set (map ep_owner es)"
  shows "targets_ok (es[i := add_cap (es ! i) slot c])"
proof -
  have "\<forall>d \<in># {#c#} + active_caps es. cap_target d \<in> set (map ep_owner es)"
    using assms(3,4) by (auto simp: targets_ok_def set_active_caps)
  then show ?thesis unfolding targets_ok_def new_capability_owners
    by (metis new_capability_active [OF assms(1,2)] set_active_caps)
qed

lemma selfs_ok_update:
  assumes "\<And>j. j < length es \<Longrightarrow> j \<noteq> i \<Longrightarrow> ep_owner (es ! j) \<noteq> 0 \<Longrightarrow> self_capability_valid (es ! j)"
    and "ep_owner e \<noteq> 0 \<Longrightarrow> self_capability_valid e"
  shows "selfs_ok (es[i := e])"
  unfolding selfs_ok_def
proof (intro ballI impI)
  fix x assume "x \<in> set (es[i := e])" "ep_owner x \<noteq> 0"
  then obtain j where "j < length es" "x = es[i := e] ! j" "ep_owner x \<noteq> 0"
    by (metis in_set_conv_nth length_list_update)
  with assms show "self_capability_valid x" by (cases "j = i") auto
qed

lemma new_capability_inv:
  assumes "es_inv es" and "new_capability es i slot c" and "cap_target c \<in> set (map ep_owner es)"
  shows "es_inv (es[i := add_cap (es ! i) slot c])"
proof -
  have weak: "es_weak es" using assms(1) by (simp add: es_inv_def)
  have self: "self_capability_valid (es ! j)" if "j < length es" "ep_owner (es ! j) \<noteq> 0" for j
    using assms(1) that by (simp add: es_inv_def selfs_ok_def)
  then have s: "self_capability_valid (es ! i)"
    using assms(2) es_weak_nth [OF weak, of i] by (simp add: new_capability_def)
  have "slot \<noteq> 0"
    using s assms(2) by (metis new_capability_def self_capability_valid_def)
  with s have "self_capability_valid (add_cap (es ! i) slot c)"
    by (simp add: self_capability_valid_def)
  then have "selfs_ok (es[i := add_cap (es ! i) slot c])" using self by (intro selfs_ok_update)
  with new_capability_weak [OF weak assms(2)] new_capability_targets [OF weak assms(2) _ assms(3)]
    assms(1)
  show ?thesis by (simp add: es_inv_def)
qed

end
