(* ===== verification/Ipc_Preserve.thy ===== *)
theory Ipc_Preserve
  imports Ipc_Update
begin

text \<open>
  Every operation of \<open>IpcState\<close> keeps the invariant: endpoints that come and go, revocation,
  grants, resolution, and the messages.
\<close>

section \<open>Endpoints come and go\<close>

lemma distinct_filter_update:
  assumes "distinct (filter P xs)" and "\<not> P x \<or> x \<notin> set xs"
  shows "distinct (filter P (xs[i := x]))"
proof (cases "i < length xs")
  case True
  have "distinct (filter P (take i xs @ xs ! i # drop (Suc i) xs))"
    using assms(1) True by (simp add: id_take_nth_drop [symmetric])
  moreover have "x \<notin> set (take i xs) \<and> x \<notin> set (drop (Suc i) xs)" if "P x"
    using assms(2) that by (auto dest: in_set_takeD in_set_dropD)
  ultimately show ?thesis
    using True by (auto simp: upd_conv_take_nth_drop split: if_splits)
qed (use assms in \<open>simp add: list_update_beyond\<close>)

abbreviation fresh_ep :: "u64 \<Rightarrow> Endpoint" where
  "fresh_ep t \<equiv> Endpoint_empty\<lparr>ep_owner := t\<rparr>"

lemma fresh_ep_active [simp]: "ep_active (fresh_ep t) = {#}"
  by (simp add: ep_active_def Endpoint_empty_def Capability_empty_def)

lemma fresh_ep_ok [simp]: "ep_ok (fresh_ep t)"
  by (simp add: ep_ok_def ep_sized_def ipc_consts) (simp add: Endpoint_empty_def ipc_consts Message_empty_def)

lemma fresh_active:
  assumes "i < length es" and "ep_active (es ! i) = {#}"
  shows "active_caps (es[i := fresh_ep t]) = active_caps es"
  using active_caps_update [OF assms(1), of "fresh_ep t"] assms(2) by simp

lemma fresh_weak:
  assumes "es_weak es" and "i < MAX_ENDPOINTS" and "ep_active (es ! i) = {#}"
    and "t = 0 \<or> t \<notin> set (map ep_owner es)"
  shows "es_weak (es[i := fresh_ep t])"
proof (rule es_update_weak [OF assms(1), where A = "{#}"])
  have "distinct (filter (\<lambda>t. t \<noteq> 0) ((map ep_owner es)[i := t]))"
    using assms(1,4) by (intro distinct_filter_update) (auto simp: es_weak_def)
  then show "distinct (filter (\<lambda>t. t \<noteq> 0) (map ep_owner (es[i := fresh_ep t])))"
    by (simp add: map_update)
  show "active_caps (es[i := fresh_ep t]) = {#} + active_caps es"
    using fresh_active assms(3) es_weak_nth [OF assms(1,2)] by simp
  show "gens_distinct ({#} + active_caps es)" using assms(1) by (simp add: es_weak_alt)
qed (use assms in auto)

lemma fresh_targets:
  assumes "es_weak es" and "i < MAX_ENDPOINTS" and "ep_active (es ! i) = {#}" and "targets_ok es"
    and "\<And>c. c \<in># active_caps es \<Longrightarrow> cap_target c \<noteq> ep_owner (es ! i)"
  shows "targets_ok (es[i := fresh_ep t])"
proof -
  have i: "i < length es" using es_weak_nth [OF assms(1,2)] by blast
  have "cap_target c \<in> set (map ep_owner (es[i := fresh_ep t]))" if c: "c \<in># active_caps es" for c
  proof -
    have "cap_target c \<in> ep_owner ` set es"
      using assms(4) c by (auto simp: targets_ok_def set_active_caps)
    then obtain j where "j < length es" "cap_target c = ep_owner (es ! j)"
      by (metis imageE in_set_conv_nth)
    moreover from this assms(5) [OF c] have "j \<noteq> i" by auto
    ultimately show ?thesis
      by (metis length_list_update length_map nth_list_update_neq nth_map nth_mem)
  qed
  then show ?thesis
    unfolding targets_ok_def by (metis fresh_active [OF i assms(3)] set_active_caps)
qed

lemma es_inv_register:
  assumes "es_inv es" and "i < MAX_ENDPOINTS" and "ep_owner (es ! i) = 0" and "t \<noteq> 0"
    and "t \<notin> set (map ep_owner es)" and "cap_active c" and "cap_target c = t"
    and "cap_generation c \<notin> set (active_generations es)" and "cap_generation c \<noteq> 0"
    and "cap_generation c \<le> max_generation" and "cap_parent_generation c = 0"
    and "cap_lineage_depth c = 0" and "cap_rights c = ALL_RIGHTS"
  shows "es_inv (es[i := add_cap (fresh_ep t) 0 c])"
proof -
  have weak: "es_weak es" using assms(1) by (simp add: es_inv_def)
  note i = es_weak_nth [OF weak assms(2)]
  have none: "ep_active (es ! i) = {#}" using i assms(3) by (simp add: ep_ok_def)
  define es1 where "es1 = es[i := fresh_ep t]"
  have weak1: "es_weak es1" using fresh_weak [OF weak assms(2) none] assms(5) by (simp add: es1_def)
  have act1: "active_caps es1 = active_caps es" using fresh_active none i by (simp add: es1_def)
  have tgt: "targets_ok es1"
    unfolding es1_def using assms(1,3) none weak
    by (intro fresh_targets [OF weak assms(2)]) (auto simp: es_inv_def es_weak_alt cap_ok_def)
  have "valid ALL_RIGHTS" by (simp add: valid_def rights_defs)
  moreover have "set (active_generations es1) = set (active_generations es)"
    using act1 unfolding active_caps_def by (metis mset_eq_setD set_map)
  moreover have es1i: "es1 ! i = fresh_ep t" using i by (simp add: es1_def)
  ultimately have new: "new_capability es1 i 0 c"
    using assms i unfolding new_capability_def cap_ok_def
    by (simp add: ipc_consts Endpoint_empty_def Capability_empty_def)
  have "self_capability_valid (add_cap (fresh_ep t) 0 c)"
    using assms(6-13) by (simp add: self_capability_valid_def Let_def Endpoint_empty_def ipc_consts
        contains_def rights_defs)
  then have "selfs_ok (es[i := add_cap (fresh_ep t) 0 c])"
    using assms(1) by (intro selfs_ok_update) (auto simp: es_inv_def selfs_ok_def)
  moreover have "t \<in> set (map ep_owner es1)"
    using i set_update_memI [of i "map ep_owner es" t] by (simp add: es1_def map_update)
  ultimately show ?thesis
    using new_capability_weak [OF weak1 new] new_capability_targets [OF weak1 new tgt] assms(7) es1i
    by (simp add: es_inv_def es1_def)
qed

section \<open>Revocation keeps the self capabilities\<close>

lemma gens_unique_slot:
  assumes "gens_unique es" and "e \<in> set es"
    and "k < length (ep_capabilities e)" and "l < length (ep_capabilities e)"
    and "cap_active (ep_capabilities e ! k)" and "cap_active (ep_capabilities e ! l)"
    and "cap_generation (ep_capabilities e ! k) = cap_generation (ep_capabilities e ! l)"
  shows "k = l"
proof -
  have "distinct (map cap_generation (filter cap_active (ep_capabilities e)))"
    using assms(1,2) unfolding gens_unique_def all_capabilities_def
    by (induction es) (auto simp: distinct_append)
  from distinct_filter_nth [OF this assms(3-7)] show ?thesis .
qed

lemma owner_index:
  assumes "es_weak es" and "i < length es" and "j < length es"
    and "ep_owner (es ! i) = ep_owner (es ! j)" and "ep_owner (es ! i) \<noteq> 0"
  shows "i = j"
proof -
  have "distinct (map id (filter (\<lambda>t. t \<noteq> 0) (map ep_owner es)))"
    using assms(1) by (simp add: es_weak_def)
  from distinct_filter_nth [OF this, of i j] assms(2-5) show ?thesis by simp
qed

lemma zero_not_active: "es_weak es \<Longrightarrow> 0 \<notin> set (active_generations es)"
  by (auto simp: es_weak_def cap_ok_def)

lemma revocable_zero:
  assumes "es_weak es" and "revocable es G R" and "G \<subseteq> set (active_generations es)"
  shows "0 \<notin> R"
  using zero_not_active [OF assms(1)] assms(2,3) child_active [of es _ 0]
  unfolding revocable_def by blast

lemma self_capability_active:
  assumes "es_inv es" and "j < length es" and "ep_owner (es ! j) \<noteq> 0"
  shows "ep_capabilities (es ! j) ! 0 \<in> set (all_capabilities es)"
    and "self_capability_valid (es ! j)" and "cap_active (ep_capabilities (es ! j) ! 0)"
    and "0 < length (ep_capabilities (es ! j))"
proof -
  have "ep_sized (es ! j)" using assms es_weak_sized [OF _ nth_mem] by (simp add: es_inv_def)
  then show len: "0 < length (ep_capabilities (es ! j))" by (simp add: ep_sized_def ipc_consts)
  show s: "self_capability_valid (es ! j)" using assms by (simp add: es_inv_def selfs_ok_def)
  then show "cap_active (ep_capabilities (es ! j) ! 0)" by (simp add: self_capability_valid_def Let_def)
  show "ep_capabilities (es ! j) ! 0 \<in> set (all_capabilities es)"
    unfolding mem_all_capabilities
    by (rule bexI [of _ "es ! j"]) (use assms(2) len nth_mem in blast)+
qed

text \<open>A self capability has no parent: it goes only when it is itself among the roots.\<close>

lemma self_generation_revoked:
  assumes "es_inv es" and "revocable es G R" and "G \<subseteq> set (active_generations es)"
    and "j < length es" and "ep_owner (es ! j) \<noteq> 0"
    and "cap_generation (ep_capabilities (es ! j) ! 0) \<in> R"
  shows "cap_generation (ep_capabilities (es ! j) ! 0) \<in> G"
proof (rule ccontr)
  let ?c = "ep_capabilities (es ! j) ! 0"
  assume "cap_generation ?c \<notin> G"
  with assms(2,6) obtain p where "p \<in> R" "child es p (cap_generation ?c)"
    unfolding revocable_def by blast
  then obtain d where d: "d \<in> set (all_capabilities es)" "cap_active d"
    "cap_parent_generation d = p" "cap_generation d = cap_generation ?c"
    by (auto simp: child_def)
  note c = self_capability_active [OF assms(1,4,5)]
  have weak: "es_weak es" using assms(1) by (simp add: es_inv_def)
  have "d = ?c" using gens_unique_eq [OF es_weak_gens [OF weak] d(1) c(1) d(2) c(3) d(4)] .
  with c(2) d(3) have "p = 0" by (simp add: self_capability_valid_def Let_def)
  with \<open>p \<in> R\<close> revocable_zero [OF weak assms(2,3)] show False by simp
qed

lemma self_valid_revoke:
  assumes "es_inv es" and "revocable es G R" and "G \<subseteq> set (active_generations es)"
    and "j < length es" and "ep_owner (es ! j) \<noteq> 0"
    and "cap_generation (ep_capabilities (es ! j) ! 0) \<notin> G"
  shows "self_capability_valid (revoke_ep R (es ! j))"
proof -
  have "cap_generation (ep_capabilities (es ! j) ! 0) \<notin> R"
    using self_generation_revoked [OF assms(1-5)] assms(6) by blast
  then show ?thesis
    using self_capability_active(2,4) [OF assms(1,4,5)]
    by (simp add: self_capability_valid_def Let_def drop_cap_keep)
qed

lemma selfs_ok_revoke:
  assumes "es_inv es" and "revocable es G R" and "G \<subseteq> set (active_generations es)"
    and "\<And>j. j < length es \<Longrightarrow> ep_owner (es ! j) \<noteq> 0 \<Longrightarrow>
      cap_generation (ep_capabilities (es ! j) ! 0) \<notin> G"
  shows "selfs_ok (revoke_eps R es)"
  using self_valid_revoke [OF assms(1-3)] assms(4) by (auto simp: selfs_ok_def in_set_conv_nth)

lemma targets_ok_revoke: "targets_ok es \<Longrightarrow> targets_ok (revoke_eps R es)"
  unfolding targets_ok_def by simp (metis drop_cap_active)

lemma es_inv_revoke:
  assumes "es_inv es" and "revocable es G R" and "G \<subseteq> set (active_generations es)"
    and "\<And>j. j < length es \<Longrightarrow> ep_owner (es ! j) \<noteq> 0 \<Longrightarrow>
      cap_generation (ep_capabilities (es ! j) ! 0) \<notin> G"
  shows "es_inv (revoke_eps R es)"
  using selfs_ok_revoke [OF assms] targets_ok_revoke es_weak_revoke [OF _ assms(2)] assms(1)
  by (simp add: es_inv_def)

text \<open>The generation of a self capability determines its endpoint, because it can receive.\<close>

lemma self_generation_index:
  assumes "es_inv es" and "j < length es" and "ep_owner (es ! j) \<noteq> 0" and "i < length es"
    and "c \<in> set (ep_capabilities (es ! i))" and "cap_active c"
    and "cap_generation c = cap_generation (ep_capabilities (es ! j) ! 0)"
  shows "i = j"
proof -
  have weak: "es_weak es" using assms(1) by (simp add: es_inv_def)
  note self = self_capability_active [OF assms(1-3)]
  have "c \<in> set (all_capabilities es)" using assms(4,5) by (auto simp: mem_all_capabilities)
  then have c: "c = ep_capabilities (es ! j) ! 0"
    using gens_unique_eq [OF es_weak_gens [OF weak] _ self(1) assms(6) self(3) assms(7)] by blast
  with self(2) have "contains (cap_rights c) SEND_RECEIVE" and t: "cap_target c = ep_owner (es ! j)"
    by (simp_all add: self_capability_valid_def Let_def)
  moreover have "contains SEND_RECEIVE RECEIVE" by (simp add: contains_def rights_defs)
  ultimately have "contains (cap_rights c) RECEIVE" by (blast intro: contains_trans)
  then have "cap_target c = ep_owner (es ! i)"
    using weak assms(4-6) nth_mem [OF assms(4)] unfolding es_weak_def by blast
  with t show ?thesis using owner_index [OF weak assms(4,2)] assms(3) by simp
qed

section \<open>The clean-up loops\<close>

lemma revoke_generation_eq:
  "es_weak (ipc_endpoints s) \<Longrightarrow>
   fst (revoke_generation g s) =
     s\<lparr>ipc_endpoints := revoke_eps (branch_of (ipc_endpoints s) g) (ipc_endpoints s)\<rparr>"
  unfolding revoke_generation_def by (rule revoke_eq(1) [OF es_weak_gens es_weak_queues])

lemma revoke_children_eq:
  "es_weak (ipc_endpoints s) \<Longrightarrow>
   fst (revoke_children g s) =
     s\<lparr>ipc_endpoints := revoke_eps (descendants (ipc_endpoints s) g) (ipc_endpoints s)\<rparr>"
  unfolding revoke_children_def by (rule revoke_eq(2) [OF es_weak_gens es_weak_queues])

definition owned_generations :: "Endpoint list \<Rightarrow> nat \<Rightarrow> u64 set" where
  "owned_generations es i = cap_generation ` {c \<in> set (ep_capabilities (es ! i)). cap_active c}"

definition target_generations :: "Endpoint list \<Rightarrow> u64 \<Rightarrow> u64 set" where
  "target_generations es t =
     cap_generation ` {c \<in> set (all_capabilities es). cap_active c \<and> cap_target c = t}"

lemma owned_generations_revoke:
  "i < length es \<Longrightarrow> owned_generations (revoke_eps R es) i = owned_generations es i - R"
  unfolding owned_generations_def
  by (auto simp: image_iff drop_cap_def Capability_empty_def split: if_splits)

lemma target_generations_revoke:
  "target_generations (revoke_eps R es) t = target_generations es t - R"
  unfolding target_generations_def
  by (auto simp: image_iff drop_cap_def Capability_empty_def split: if_splits)

lemma revoke_owned_loop_eq:
  "es_weak (ipc_endpoints s) \<Longrightarrow> i < length (ipc_endpoints s) \<Longrightarrow>
   \<exists>R. fst (revoke_owned_loop i s r) = s\<lparr>ipc_endpoints := revoke_eps R (ipc_endpoints s)\<rparr>
     \<and> revocable (ipc_endpoints s) (owned_generations (ipc_endpoints s) i) R
     \<and> owned_generations (ipc_endpoints s) i \<subseteq> R"
proof (induction i s r rule: revoke_owned_loop.induct)
  case (1 i s r)
  let ?es = "ipc_endpoints s"
  show ?case
  proof (cases "first_active_generation s i")
    case None
    then have "owned_generations ?es i = {}"
      using 1(3) by (auto simp: first_active_generation_def owned_generations_def find_None_iff)
    with None show ?thesis
      by (intro exI [of _ "{}"]) (simp add: revoke_owned_loop.simps)
  next
    case (Some g)
    let ?B = "branch_of ?es g"
    let ?s1 = "fst (revoke_generation g s)"
    have s1: "?s1 = s\<lparr>ipc_endpoints := revoke_eps ?B ?es\<rparr>" by (rule revoke_generation_eq [OF 1(2)])
    have g: "g \<in> owned_generations ?es i"
      using Some 1(3) by (auto simp: first_active_generation_def owned_generations_def find_Some_iff)
    have B: "revocable ?es (owned_generations ?es i) ?B"
      by (rule revocable_mono [OF revocable_branch]) (use g in simp)
    have "es_weak (ipc_endpoints ?s1)" using es_weak_revoke [OF 1(2) B] by (simp add: s1)
    from 1(1) [OF Some refl this] 1(3) obtain R where
      R: "fst (revoke_owned_loop i ?s1 (merge r (snd (revoke_generation g s))))
            = ?s1\<lparr>ipc_endpoints := revoke_eps R (revoke_eps ?B ?es)\<rparr>"
        "revocable (revoke_eps ?B ?es) (owned_generations ?es i - ?B) R"
        "owned_generations ?es i - ?B \<subseteq> R"
      by (auto simp: s1 owned_generations_revoke)
    have "revocable ?es (owned_generations ?es i) (?B \<union> R)"
      by (rule revocable_compose [OF B revocable_mono [OF R(2)]]) blast
    moreover have "revoke_owned_loop i s r =
        revoke_owned_loop i ?s1 (merge r (snd (revoke_generation g s)))"
      by (subst revoke_owned_loop.simps) (simp add: Some Let_def)
    ultimately show ?thesis
      using R(1,3) by (intro exI [of _ "?B \<union> R"]) (auto simp: s1 o_def)
  qed
qed

lemma revoke_target_loop_eq:
  "es_weak (ipc_endpoints s) \<Longrightarrow>
   \<exists>R. fst (revoke_target_loop t s r) = s\<lparr>ipc_endpoints := revoke_eps R (ipc_endpoints s)\<rparr>
     \<and> revocable (ipc_endpoints s) (target_generations (ipc_endpoints s) t) R
     \<and> target_generations (ipc_endpoints s) t \<subseteq> R"
proof (induction t s r rule: revoke_target_loop.induct)
  case (1 t s r)
  let ?es = "ipc_endpoints s"
  show ?case
  proof (cases "find_target_generation s t")
    case None
    then have "target_generations ?es t = {}"
      by (auto simp: find_target_generation_def target_generations_def find_None_iff)
    with None show ?thesis
      by (intro exI [of _ "{}"]) (simp add: revoke_target_loop.simps)
  next
    case (Some g)
    let ?B = "branch_of ?es g"
    let ?s1 = "fst (revoke_generation g s)"
    have s1: "?s1 = s\<lparr>ipc_endpoints := revoke_eps ?B ?es\<rparr>" by (rule revoke_generation_eq [OF 1(2)])
    have g: "g \<in> target_generations ?es t"
      using Some by (auto simp: find_target_generation_def target_generations_def find_Some_iff
          intro!: image_eqI)
    have B: "revocable ?es (target_generations ?es t) ?B"
      by (rule revocable_mono [OF revocable_branch]) (use g in simp)
    have "es_weak (ipc_endpoints ?s1)" using es_weak_revoke [OF 1(2) B] by (simp add: s1)
    from 1(1) [OF Some refl this] obtain R where
      R: "fst (revoke_target_loop t ?s1 (merge r (snd (revoke_generation g s))))
            = ?s1\<lparr>ipc_endpoints := revoke_eps R (revoke_eps ?B ?es)\<rparr>"
        "revocable (revoke_eps ?B ?es) (target_generations ?es t - ?B) R"
        "target_generations ?es t - ?B \<subseteq> R"
      by (auto simp: s1 target_generations_revoke)
    have "revocable ?es (target_generations ?es t) (?B \<union> R)"
      by (rule revocable_compose [OF B revocable_mono [OF R(2)]]) blast
    moreover have "revoke_target_loop t s r =
        revoke_target_loop t ?s1 (merge r (snd (revoke_generation g s)))"
      by (subst revoke_target_loop.simps) (simp add: Some Let_def)
    ultimately show ?thesis
      using R(1,3) by (intro exI [of _ "?B \<union> R"]) (auto simp: s1 o_def)
  qed
qed

section \<open>Unregistering an endpoint\<close>

lemma generations_active:
  "i < length es \<Longrightarrow>
   owned_generations es i \<union> target_generations es t \<subseteq> set (active_generations es)"
  by (auto simp: owned_generations_def target_generations_def mem_all_capabilities
      intro!: image_eqI)

lemma ep_active_revoked:
  assumes "owned_generations es i \<subseteq> R" and "i < length es"
  shows "ep_active (revoke_eps R es ! i) = {#}"
proof -
  have "\<not> cap_active (drop_cap R c)" if "c \<in> set (ep_capabilities (es ! i))" for c
    using assms(1) that by (auto simp: owned_generations_def drop_cap_def Capability_empty_def)
  then show ?thesis using assms(2) by (simp add: ep_active_def filter_empty_conv del: mset_filter)
qed

lemma self_not_cleaned:
  assumes "es_inv es" and "i < length es" and "j < length es" and "j \<noteq> i"
    and "ep_owner (es ! j) \<noteq> 0"
  shows "cap_generation (ep_capabilities (es ! j) ! 0)
    \<notin> owned_generations es i \<union> target_generations es (ep_owner (es ! i))"
proof
  let ?c = "ep_capabilities (es ! j) ! 0"
  have weak: "es_weak es" using assms(1) by (simp add: es_inv_def)
  note self = self_capability_active [OF assms(1,3,5)]
  assume "cap_generation ?c \<in> owned_generations es i \<union> target_generations es (ep_owner (es ! i))"
  then show False
  proof
    assume "cap_generation ?c \<in> owned_generations es i"
    then obtain c where "c \<in> set (ep_capabilities (es ! i))" "cap_active c"
      "cap_generation c = cap_generation ?c"
      unfolding owned_generations_def by auto
    with self_generation_index [OF assms(1,3,5,2)] assms(4) show False by blast
  next
    assume "cap_generation ?c \<in> target_generations es (ep_owner (es ! i))"
    then obtain c where "c \<in> set (all_capabilities es)" "cap_active c"
      "cap_generation c = cap_generation ?c" and t: "cap_target c = ep_owner (es ! i)"
      unfolding target_generations_def by auto
    then have "c = ?c" using gens_unique_eq [OF es_weak_gens [OF weak] _ self(1) _ self(3)] by blast
    with self(2) t have "ep_owner (es ! i) = ep_owner (es ! j)"
      by (simp add: self_capability_valid_def Let_def)
    with owner_index [OF weak assms(2,3)] assms(4,5) show False by simp
  qed
qed

lemma es_inv_unregister:
  assumes "es_inv es" and "i < length es"
    and G: "G = owned_generations es i \<union> target_generations es (ep_owner (es ! i))"
    and "revocable es G R" and "G \<subseteq> R"
  shows "es_inv ((revoke_eps R es)[i := Endpoint_empty])"
proof -
  let ?es = "revoke_eps R es"
  have weak: "es_weak ?es" using assms(1,4) es_weak_revoke by (simp add: es_inv_def)
  have i: "i < MAX_ENDPOINTS" using assms(1,2) by (simp add: es_inv_def es_weak_def)
  have sub: "G \<subseteq> set (active_generations es)" unfolding G by (rule generations_active [OF assms(2)])
  have none: "ep_active (?es ! i) = {#}" using ep_active_revoked assms(2,5) G by blast
  have eq: "fresh_ep 0 = Endpoint_empty" by (simp add: Endpoint_empty_def)
  have "cap_target c \<noteq> ep_owner (?es ! i)" if "c \<in># active_caps ?es" for c
  proof
    assume t: "cap_target c = ep_owner (?es ! i)"
    from that obtain c' where "c' \<in> set (all_capabilities es)" "c = drop_cap R c'" "cap_active c"
      by (auto simp: set_active_caps)
    moreover from this have "c = c'" "cap_generation c' \<notin> R" using drop_cap_active by auto
    ultimately show False
      using t assms(2,5) unfolding G target_generations_def by auto
  qed
  then have "targets_ok (?es[i := Endpoint_empty])"
    using fresh_targets [OF weak i none, of 0] targets_ok_revoke assms(1)
    unfolding eq es_inv_def by blast
  moreover have "es_weak (?es[i := Endpoint_empty])"
    using fresh_weak [OF weak i none, of 0] unfolding eq by simp
  moreover have "selfs_ok (?es[i := Endpoint_empty])"
  proof (rule selfs_ok_update)
    fix j assume "j < length ?es" "j \<noteq> i" "ep_owner (?es ! j) \<noteq> 0"
    then show "self_capability_valid (?es ! j)"
      using self_valid_revoke [OF assms(1,4) sub, of j] self_not_cleaned [OF assms(1,2), of j] G
      by simp
  qed (simp add: Endpoint_empty_def)
  ultimately show ?thesis by (simp add: es_inv_def)
qed

section \<open>The operations\<close>

lemma record_denial_sel [simp]:
  "ipc_endpoints (record_denial b s) = ipc_endpoints s"
  "ipc_initialized (record_denial b s) = ipc_initialized s"
  "next_capability_generation (record_denial b s) = next_capability_generation s"
  "next_sequence (record_denial b s) = next_sequence s"
  by (simp_all add: record_denial_def Let_def)

lemma record_revocation_sel [simp]:
  "ipc_endpoints (record_revocation r b s) = ipc_endpoints s"
  "ipc_initialized (record_revocation r b s) = ipc_initialized s"
  "next_capability_generation (record_revocation r b s) = next_capability_generation s"
  "next_sequence (record_revocation r b s) = next_sequence s"
  by (simp_all add: record_revocation_def Let_def)

lemma set_endpoint_sel [simp]:
  "ipc_endpoints (set_endpoint s i e) = (ipc_endpoints s)[i := e]"
  "ipc_initialized (set_endpoint s i e) = ipc_initialized s"
  "next_capability_generation (set_endpoint s i e) = next_capability_generation s"
  "next_sequence (set_endpoint s i e) = next_sequence s"
  by (simp_all add: set_endpoint_def)

lemma set_capability_eq:
  "set_capability s i slot c = set_endpoint s i (add_cap (ipc_endpoints s ! i) slot c)"
  by (simp add: set_capability_def add_cap_def Let_def)

lemma ipc_inv_weak: "ipc_inv s \<Longrightarrow> es_weak (ipc_endpoints s)"
  by (simp add: ipc_inv_def es_inv_def)

lemma find_endpoint_Some:
  assumes "ipc_inv s" and "find_endpoint s t = Some i"
  shows "i < MAX_ENDPOINTS" "i < length (ipc_endpoints s)" "ep_owner (ipc_endpoints s ! i) = t"
    "ep_ok (ipc_endpoints s ! i)"
proof -
  from position_SomeD [OF assms(2) [unfolded find_endpoint_def]]
  show "ep_owner (ipc_endpoints s ! i) = t" and i: "i < length (ipc_endpoints s)" by auto
  show m: "i < MAX_ENDPOINTS" using i ipc_inv_weak [OF assms(1)] by (simp add: es_weak_def)
  show "ep_ok (ipc_endpoints s ! i)" using es_weak_nth [OF ipc_inv_weak [OF assms(1)] m] by blast
qed

lemma find_endpoint_None:
  "find_endpoint s t = None \<longleftrightarrow> t \<notin> set (map ep_owner (ipc_endpoints s))"
  by (auto simp: find_endpoint_def position_None_iff)

lemma unregister_eq:
  assumes "ipc_inv s" and "find_endpoint s t = Some i"
  obtains R report where
    "unregister s t = (Inr (of_nat (ep_len (ipc_endpoints s ! i))),
       record_revocation report True
         (s\<lparr>ipc_endpoints := (revoke_eps R (ipc_endpoints s))[i := Endpoint_empty],
            endpoints_destroyed := sat_add (endpoints_destroyed s) 1,
            dropped_on_cleanup :=
              sat_add (dropped_on_cleanup s) (of_nat (ep_len (ipc_endpoints s ! i)))\<rparr>))"
    and "revocable (ipc_endpoints s)
      (owned_generations (ipc_endpoints s) i \<union> target_generations (ipc_endpoints s) t) R"
    and "owned_generations (ipc_endpoints s) i \<union> target_generations (ipc_endpoints s) t \<subseteq> R"
proof -
  let ?es = "ipc_endpoints s"
  note weak = ipc_inv_weak [OF assms(1)]
  note i = find_endpoint_Some [OF assms]
  obtain s1 r1 where l1: "revoke_owned_loop i s RevocationReport_empty = (s1, r1)" by fastforce
  obtain s2 r2 where l2: "revoke_target_loop t s1 r1 = (s2, r2)" by fastforce
  from revoke_owned_loop_eq [OF weak i(2), of RevocationReport_empty] l1 obtain R1 where
    R1: "s1 = s\<lparr>ipc_endpoints := revoke_eps R1 ?es\<rparr>" "revocable ?es (owned_generations ?es i) R1"
      "owned_generations ?es i \<subseteq> R1" by auto
  have "es_weak (ipc_endpoints s1)" using es_weak_revoke [OF weak R1(2)] R1(1) by simp
  from revoke_target_loop_eq [OF this, of t r1] l2 R1(1) obtain R2 where
    R2: "s2 = s1\<lparr>ipc_endpoints := revoke_eps R2 (revoke_eps R1 ?es)\<rparr>"
      "revocable (revoke_eps R1 ?es) (target_generations ?es t - R1) R2"
      "target_generations ?es t - R1 \<subseteq> R2" by (auto simp: target_generations_revoke)
  let ?G = "owned_generations ?es i \<union> target_generations ?es t"
  have "revocable ?es ?G (R1 \<union> R2)"
    by (rule revocable_compose) (auto intro: revocable_mono [OF R1(2)] revocable_mono [OF R2(2)])
  moreover have "?G \<subseteq> R1 \<union> R2" using R1(3) R2(3) by blast
  ultimately show ?thesis
    using assms(2) R1(1) R2(1) l1 l2
    by (intro that [of r2 "R1 \<union> R2"]) (simp_all add: unregister_def Let_def set_endpoint_def o_def)
qed

end
