(* ===== verification/Ipc_Ops.thy ===== *)
theory Ipc_Ops
  imports Ipc_Preserve
begin

unbundle bit_operations_syntax

text \<open>
  Each operation of \<open>IpcState\<close> on a consistent state: what it returns on every branch, the
  exact state it leaves, and that the state stays consistent.
\<close>

section \<open>The mailbox as a bounded queue\<close>

definition mailbox_ok :: "Endpoint \<Rightarrow> bool" where
  "mailbox_ok e \<longleftrightarrow> length (ep_queue e) = QUEUE_DEPTH \<and> ep_head e < QUEUE_DEPTH
     \<and> ep_len e \<le> QUEUE_DEPTH"

lemma ep_sized_mailbox: "ep_sized e \<Longrightarrow> mailbox_ok e"
  by (simp add: ep_sized_def mailbox_ok_def)

lemma push_ok:
  assumes "mailbox_ok e" and "ep_len e < QUEUE_DEPTH"
  shows "fst (push e m)" and "ep_messages (snd (push e m)) = ep_messages e @ [m]"
    and "mailbox_ok (snd (push e m))" and "ep_owner (snd (push e m)) = ep_owner e"
    and "ep_capabilities (snd (push e m)) = ep_capabilities e"
    and "set (ep_queue (snd (push e m))) \<subseteq> insert m (set (ep_queue e))"
    and "ep_waiting (snd (push e m)) = ep_waiting e" and "ep_len (snd (push e m)) = ep_len e + 1"
  using assms ring_list_push [of "ep_len e" "ep_queue e" "ep_head e" m] set_update_subset_insert
  by (simp_all add: push_def mailbox_ok_def Let_def)

lemma push_full: "QUEUE_DEPTH \<le> ep_len e \<Longrightarrow> push e m = (False, e)"
  by (simp add: push_def)

lemma front_eq:
  assumes "mailbox_ok e"
  shows "front e = (case ep_messages e of [] \<Rightarrow> None | m # ms \<Rightarrow> Some m)"
proof (cases "ep_len e")
  case (Suc n)
  with assms show ?thesis by (simp add: front_def ring_list_Suc mailbox_ok_def)
qed (simp add: front_def)

lemma pop_empty_eq: "ep_len e = 0 \<Longrightarrow> pop e = (None, e)"
  by (simp add: pop_def front_def)

lemma pop_ok:
  assumes "mailbox_ok e" and "ep_messages e = m # ms"
  shows "fst (pop e) = Some m" and "ep_messages (snd (pop e)) = ms"
    and "mailbox_ok (snd (pop e))" and "ep_owner (snd (pop e)) = ep_owner e"
    and "ep_capabilities (snd (pop e)) = ep_capabilities e"
    and "set (ep_queue (snd (pop e))) \<subseteq> insert Message_empty (set (ep_queue e))"
    and "ep_waiting (snd (pop e)) = ep_waiting e"
proof -
  let ?q = "ep_queue e" and ?h = "ep_head e"
  have len: "ep_len e = Suc (length ms)"
    using arg_cong [OF assms(2), of length] by simp
  have size: "length ?q = QUEUE_DEPTH" "?h < length ?q" "length ms < length ?q"
    using assms(1) len by (auto simp: mailbox_ok_def)
  have front: "front e = Some m" using front_eq [OF assms(1)] assms(2) by simp
  then show "fst (pop e) = Some m" by (simp add: pop_def Let_def)
  have out: "(Suc ?h + k) mod length ?q \<noteq> ?h" if "k < length ms" for k
    using ring_index_inj [of "Suc k" "length ?q" 0 "length ?q" ?h] that size by auto
  have "ring_list (?q[?h := Message_empty]) (Suc ?h) (length ms) = ring_list ?q (Suc ?h) (length ms)"
    by (rule ring_list_update_outside) (use out in simp)
  also have "\<dots> = ms" using assms(2) len by (simp add: ring_list_Suc)
  finally have "ring_list (?q[?h := Message_empty]) (Suc ?h mod length ?q) (length ms) = ms"
    using ring_list_mod [of "?q[?h := Message_empty]" "Suc ?h" "length ms"] by simp
  then show "ep_messages (snd (pop e)) = ms"
    using front len size by (cases ms) (simp_all add: pop_def Let_def)
  show "mailbox_ok (snd (pop e))" using front len assms(1)
    by (simp add: pop_def Let_def mailbox_ok_def ipc_consts)
  show "ep_owner (snd (pop e)) = ep_owner e" "ep_capabilities (snd (pop e)) = ep_capabilities e"
    "set (ep_queue (snd (pop e))) \<subseteq> insert Message_empty (set (ep_queue e))"
    "ep_waiting (snd (pop e)) = ep_waiting e"
    using front set_update_subset_insert by (simp_all add: pop_def Let_def)
qed

interpretation mailbox: bounded_queue QUEUE_DEPTH mailbox_ok ep_messages push pop
proof unfold_locales
  fix e :: Endpoint and m ms
  assume ok: "mailbox_ok e"
  show "length (ep_messages e) \<le> QUEUE_DEPTH" using ok by (simp add: mailbox_ok_def)
  show "fst (push e m) \<and> ep_messages (snd (push e m)) = ep_messages e @ [m]"
    if "length (ep_messages e) < QUEUE_DEPTH" using push_ok(1,2) [OF ok] that by simp
  show "\<not> fst (push e m) \<and> ep_messages (snd (push e m)) = ep_messages e"
    if "length (ep_messages e) = QUEUE_DEPTH" using that by (simp add: push_full)
  show "mailbox_ok (snd (push e m))"
    using push_ok(3) [OF ok] push_full [of e m] ok by (cases "ep_len e < QUEUE_DEPTH") auto
  show "fst (pop e) = None \<and> ep_messages (snd (pop e)) = []" if "ep_messages e = []"
    using arg_cong [OF that, of length] by (simp add: pop_empty_eq)
  show "fst (pop e) = Some m \<and> ep_messages (snd (pop e)) = ms" if "ep_messages e = m # ms"
    using pop_ok(1,2) [OF ok that] by simp
  show "mailbox_ok (snd (pop e))"
    using pop_ok(3) [OF ok] ok pop_empty_eq [of e]
    by (cases "ep_messages e") (auto dest: arg_cong [of _ _ length])
qed

lemma ep_sized_push:
  assumes "ep_sized e" and "ep_len e < QUEUE_DEPTH"
    and "length (msg_bytes m) = MAX_MESSAGE_BYTES" and "msg_length m \<le> MAX_MESSAGE_BYTES"
  shows "ep_sized (snd (push e m))"
  using push_ok(3,5,6) [OF ep_sized_mailbox [OF assms(1)] assms(2), of m] assms
  by (auto simp: ep_sized_def mailbox_ok_def)

lemma Message_empty_sized [simp]:
  "length (msg_bytes Message_empty) = MAX_MESSAGE_BYTES" "msg_length Message_empty = 0"
  by (simp_all add: Message_empty_def)

lemma ep_sized_pop:
  assumes "ep_sized e" and "ep_messages e = m # ms"
  shows "ep_sized (snd (pop e))"
  using pop_ok(3,5,6) [OF ep_sized_mailbox [OF assms(1)] assms(2)] assms(1)
  by (auto simp: ep_sized_def mailbox_ok_def)

lemma make_message_sized:
  "length bytes \<le> MAX_MESSAGE_BYTES \<Longrightarrow>
   length (msg_bytes (make_message a b c d bytes)) = MAX_MESSAGE_BYTES
   \<and> msg_length (make_message a b c d bytes) \<le> MAX_MESSAGE_BYTES"
  by (simp add: make_message_def)

section \<open>Initialisation and endpoints\<close>

lemma IpcState_new_es_inv: "es_inv (replicate MAX_ENDPOINTS Endpoint_empty)"
proof -
  have none: "\<not> cap_active c" if "c \<in> set (all_capabilities (replicate n Endpoint_empty))" for c n
    using that by (auto simp: all_capabilities_def Endpoint_empty_def Capability_empty_def)
  have "ep_ok Endpoint_empty" using fresh_ep_ok [of 0] by (simp add: Endpoint_empty_def)
  then show ?thesis
    using none [of _ MAX_ENDPOINTS]
    by (auto simp: es_inv_def es_weak_alt selfs_ok_def targets_ok_def set_active_caps
        gens_distinct_def active_caps_def Endpoint_empty_def filter_empty_conv ipc_consts)
qed

lemma ipc_init_inv: "ipc_inv s \<or> \<not> ipc_initialized s \<Longrightarrow> ipc_inv (ipc_init s)"
  using IpcState_new_es_inv
  by (auto simp: ipc_init_def ipc_inv_def IpcState_new_def max_generation_word)

lemma ipc_inv_core:
  assumes "ipc_inv s" and "ipc_initialized t = ipc_initialized s"
    and "next_capability_generation t = next_capability_generation s"
    and "ipc_endpoints t = ipc_endpoints s"
  shows "ipc_inv t"
  using assms by (simp add: ipc_inv_def)

text \<open>What \<open>register\<close> does on each branch.\<close>

lemma register_eq:
  assumes "ipc_inv s" and "t \<noteq> 0" and "find_endpoint s t = None"
    and "position (\<lambda>e. ep_owner e = 0) (ipc_endpoints s) = Some i"
  obtains g s' where "register s t = (Inr (), s')"
    and "ipc_endpoints s' = (ipc_endpoints s)[i := add_cap (fresh_ep t) 0
           \<lparr>cap_target = t, cap_generation = g, cap_parent_generation = 0,
            cap_lineage_depth = 0, cap_rights = ALL_RIGHTS, cap_active = True\<rparr>]"
    and "ipc_initialized s'" and "next_capability_generation s' \<le> max_generation"
    and "g \<noteq> 0" and "g \<le> max_generation" and "g \<notin> set (active_generations (ipc_endpoints s))"
    and "i < MAX_ENDPOINTS" and "ep_owner (ipc_endpoints s ! i) = 0"
proof -
  let ?es = "ipc_endpoints s"
  let ?s1 = "set_endpoint s i (fresh_ep t)"
  have i: "i < length ?es" "ep_owner (?es ! i) = 0" using position_SomeD [OF assms(4)] by auto
  note weak = ipc_inv_weak [OF assms(1)]
  have m: "i < MAX_ENDPOINTS" using i weak by (simp add: es_weak_def)
  have none: "ep_active (?es ! i) = {#}" using es_weak_nth [OF weak m] i by (simp add: ep_ok_def)
  have w1: "es_weak (ipc_endpoints ?s1)"
    using fresh_weak [OF weak m none, of t] assms(3) by (simp add: find_endpoint_None)
  have n1: "next_capability_generation ?s1 \<le> max_generation"
    using assms(1) by (simp add: ipc_inv_def)
  obtain g where g: "allocate_generation ?s1 = (g, ?s1\<lparr>next_capability_generation :=
        next_generation g, last_capability_generation := g\<rparr>)" "g \<noteq> 0" "g \<le> max_generation"
      "next_generation g \<le> max_generation" "g \<notin> set (active_generations (ipc_endpoints ?s1))"
    by (rule allocate_generation_returns [OF w1 n1])
  have "set (active_generations (ipc_endpoints ?s1)) = set (active_generations ?es)"
    using fresh_active [OF i(1) none, of t] unfolding active_caps_def
    by (metis mset_eq_setD set_map set_endpoint_sel(1))
  with g that [of _ g] assms m i show ?thesis
    by (auto simp: register_def Let_def set_capability_eq ipc_inv_def)
qed

lemma register_errors:
  assumes "ipc_inv s"
  shows "register s 0 = (Inl InvalidTask, s)"
    and "find_endpoint s t \<noteq> None \<Longrightarrow> t \<noteq> 0 \<Longrightarrow> register s t = (Inr (), s)"
    and "find_endpoint s t = None \<Longrightarrow> t \<noteq> 0 \<Longrightarrow> 0 \<notin> set (map ep_owner (ipc_endpoints s)) \<Longrightarrow>
      register s t = (Inl EndpointCapacity, s)"
proof -
  have pos: "position (\<lambda>e. ep_owner e = 0) (ipc_endpoints s) = None"
    if "0 \<notin> set (map ep_owner (ipc_endpoints s))"
    using that by (auto simp: position_None_iff)
  show "register s 0 = (Inl InvalidTask, s)"
    "find_endpoint s t \<noteq> None \<Longrightarrow> t \<noteq> 0 \<Longrightarrow> register s t = (Inr (), s)"
    "find_endpoint s t = None \<Longrightarrow> t \<noteq> 0 \<Longrightarrow> 0 \<notin> set (map ep_owner (ipc_endpoints s)) \<Longrightarrow>
      register s t = (Inl EndpointCapacity, s)"
    using assms pos by (auto simp: register_def ipc_inv_def)
qed

lemma register_inv:
  assumes "ipc_inv s"
  shows "ipc_inv (snd (register s t))"
proof (cases "t = 0 \<or> find_endpoint s t \<noteq> None \<or> 0 \<notin> set (map ep_owner (ipc_endpoints s))")
  case True
  with register_errors [OF assms] assms show ?thesis
    by (metis snd_conv)
next
  case False
  then obtain i where i: "position (\<lambda>e. ep_owner e = 0) (ipc_endpoints s) = Some i"
    by (cases "position (\<lambda>e. ep_owner e = 0) (ipc_endpoints s)") (auto simp: position_None_iff)
  from False have t: "t \<noteq> 0" "find_endpoint s t = None" by auto
  show ?thesis
    by (rule register_eq [OF assms t i])
      (use assms t in \<open>simp add: ipc_inv_def es_inv_register find_endpoint_None\<close>)
qed

lemma unregister_inv:
  assumes "ipc_inv s"
  shows "ipc_inv (snd (unregister s t))"
proof (cases "find_endpoint s t")
  case None
  then show ?thesis using assms by (simp add: unregister_def)
next
  case (Some i)
  note i = find_endpoint_Some [OF assms Some]
  show ?thesis
    by (rule unregister_eq [OF assms Some], insert i assms es_inv_unregister)
      (simp add: ipc_inv_def)
qed

section \<open>Granting, revoking and resolving capabilities\<close>

lemma find_endpoint_owned:
  assumes "ipc_inv s" and "t \<noteq> 0" and "find_endpoint s t = Some i"
  shows "ep_owner (ipc_endpoints s ! i) \<noteq> 0" "t \<in> set (map ep_owner (ipc_endpoints s))"
  using find_endpoint_Some [OF assms(1,3)] assms(2) by auto

lemma free_slot:
  assumes "ep_ok e" and "position (\<lambda>c. \<not> cap_active c) (ep_capabilities e) = Some slot"
  shows "slot < MAX_CAPABILITIES_PER_ENDPOINT" "\<not> cap_active (ep_capabilities e ! slot)"
  using position_SomeD [OF assms(2)] assms(1) by (auto simp: ep_ok_def ep_sized_def)

lemma grant_eq:
  assumes "ipc_inv s" and "owner \<noteq> 0" and "target \<noteq> 0" and "valid rights"
    and "contains rights RECEIVE \<longrightarrow> owner = target" and "find_endpoint s target \<noteq> None"
    and "find_endpoint s owner = Some i"
    and "position (\<lambda>c. \<not> cap_active c) (ep_capabilities (ipc_endpoints s ! i)) = Some slot"
  obtains g s' c where "grant s owner target rights = (Inr (encode_handle slot g), s')"
    and "c = \<lparr>cap_target = target, cap_generation = g, cap_parent_generation = 0,
              cap_lineage_depth = 0, cap_rights = rights, cap_active = True\<rparr>"
    and "ipc_endpoints s' = (ipc_endpoints s)[i := add_cap (ipc_endpoints s ! i) slot c]"
    and "new_capability (ipc_endpoints s) i slot c" and "ipc_inv s'"
proof -
  note weak = ipc_inv_weak [OF assms(1)]
  note i = find_endpoint_Some [OF assms(1,7)]
  obtain g where g: "allocate_generation s = (g, s\<lparr>next_capability_generation :=
        next_generation g, last_capability_generation := g\<rparr>)" "g \<noteq> 0" "g \<le> max_generation"
      "next_generation g \<le> max_generation" "g \<notin> set (active_generations (ipc_endpoints s))"
    by (rule allocate_generation_returns [OF weak]) (use assms(1) in \<open>simp add: ipc_inv_def\<close>)
  define c where "c = \<lparr>cap_target = target, cap_generation = g, cap_parent_generation = 0,
              cap_lineage_depth = 0, cap_rights = rights, cap_active = True\<rparr>"
  define s' where "s' = snd (grant s owner target rights)"
  have eq: "grant s owner target rights = (Inr (encode_handle slot g), s')"
    and es: "ipc_endpoints s' = (ipc_endpoints s)[i := add_cap (ipc_endpoints s ! i) slot c]"
    and n: "next_capability_generation s' = next_generation g" "ipc_initialized s'"
    using assms g(1) by (auto simp: s'_def grant_def Let_def set_capability_eq c_def ipc_inv_def)
  have new: "new_capability (ipc_endpoints s) i slot c"
    using assms(2-5) g(2-5) i free_slot [OF i(4) assms(8)]
    by (simp add: new_capability_def c_def cap_ok_def)
  have "es_inv (ipc_endpoints s')"
    unfolding es using assms(1,6) new
    by (intro new_capability_inv) (auto simp: ipc_inv_def c_def find_endpoint_None)
  with n g(4) have "ipc_inv s'" by (simp add: ipc_inv_def)
  with that [OF eq c_def es new] show ?thesis .
qed

lemma grant_inv:
  assumes "ipc_inv s" and "owner \<noteq> 0" and "target \<noteq> 0"
  shows "ipc_inv (snd (grant s owner target rights))"
proof (cases "valid rights \<and> (contains rights RECEIVE \<longrightarrow> owner = target)
    \<and> find_endpoint s target \<noteq> None \<and> find_endpoint s owner \<noteq> None \<and>
    position (\<lambda>c. \<not> cap_active c)
      (ep_capabilities (ipc_endpoints s ! the (find_endpoint s owner))) \<noteq> None")
  case True
  then obtain i slot where "find_endpoint s owner = Some i" "valid rights"
    "contains rights RECEIVE \<longrightarrow> owner = target" "find_endpoint s target \<noteq> None"
    "position (\<lambda>c. \<not> cap_active c) (ep_capabilities (ipc_endpoints s ! i)) = Some slot"
    by auto
  then show ?thesis by (auto elim!: grant_eq [OF assms])
next
  case False
  then have "snd (grant s owner target rights) = s"
    by (auto simp: grant_def split: option.splits)
  with assms(1) show ?thesis by simp
qed

lemma slot_capability:
  assumes "ipc_inv s" and "find_endpoint s owner = Some i" and "decode_handle h = Some (slot, g)"
  shows "ep_capabilities (ipc_endpoints s ! i) ! slot \<in> set (ep_capabilities (ipc_endpoints s ! i))"
    and "ep_capabilities (ipc_endpoints s ! i) ! slot \<in> set (all_capabilities (ipc_endpoints s))"
    and "slot < length (ep_capabilities (ipc_endpoints s ! i))"
proof -
  note i = find_endpoint_Some [OF assms(1,2)]
  show len: "slot < length (ep_capabilities (ipc_endpoints s ! i))"
    using decode_handle_Some [OF assms(3)] i(4) by (simp add: ep_ok_def ep_sized_def ipc_consts)
  then show c: "ep_capabilities (ipc_endpoints s ! i) ! slot
      \<in> set (ep_capabilities (ipc_endpoints s ! i))" by (rule nth_mem)
  show "ep_capabilities (ipc_endpoints s ! i) ! slot \<in> set (all_capabilities (ipc_endpoints s))"
    unfolding mem_all_capabilities using c nth_mem [OF i(2)] by blast
qed

text \<open>The set of generations that \<open>revoke\<close> takes away.\<close>

definition revoked_set :: "Endpoint list \<Rightarrow> nat \<Rightarrow> u64 \<Rightarrow> u64 set" where
  "revoked_set es slot g = (if slot = 0 then descendants es g else branch_of es g)"

lemma revoke_ok_eq:
  assumes "ipc_inv s" and "find_endpoint s owner = Some i" and "decode_handle h = Some (slot, g)"
    and "cap_active (ep_capabilities (ipc_endpoints s ! i) ! slot)"
    and "cap_generation (ep_capabilities (ipc_endpoints s ! i) ! slot) = g"
  obtains report where "revoke s owner h = (Inr report, record_revocation report False
     (s\<lparr>ipc_endpoints := revoke_eps (revoked_set (ipc_endpoints s) slot g) (ipc_endpoints s)\<rparr>))"
proof -
  let ?r = "if slot = 0 then revoke_children g s else revoke_generation g s"
  have "fst ?r = s\<lparr>ipc_endpoints := revoke_eps (revoked_set (ipc_endpoints s) slot g) (ipc_endpoints s)\<rparr>"
    using revoke_children_eq revoke_generation_eq ipc_inv_weak [OF assms(1)]
    by (simp add: revoked_set_def)
  with assms(2-5) show ?thesis
    by (intro that [of "snd ?r"]) (simp add: revoke_def Let_def case_prod_beta)
qed

lemma revoke_errors:
  "find_endpoint s owner = None \<Longrightarrow> revoke s owner h = (Inl EndpointMissing, s)"
  "find_endpoint s owner = Some i \<Longrightarrow> decode_handle h = None \<Longrightarrow>
   revoke s owner h = (Inl InvalidCapability, s)"
  "find_endpoint s owner = Some i \<Longrightarrow> decode_handle h = Some (slot, g) \<Longrightarrow>
   \<not> cap_active (ep_capabilities (ipc_endpoints s ! i) ! slot)
     \<or> cap_generation (ep_capabilities (ipc_endpoints s ! i) ! slot) \<noteq> g \<Longrightarrow>
   revoke s owner h = (Inl StaleCapability, record_denial True s)"
  by (auto simp: revoke_def Let_def)

lemma revoked_roots:
  assumes "ipc_inv s" and "find_endpoint s owner = Some i" and "decode_handle h = Some (slot, g)"
    and "cap_active (ep_capabilities (ipc_endpoints s ! i) ! slot)"
    and "cap_generation (ep_capabilities (ipc_endpoints s ! i) ! slot) = g"
    and "j < length (ipc_endpoints s)" and "ep_owner (ipc_endpoints s ! j) \<noteq> 0"
  shows "cap_generation (ep_capabilities (ipc_endpoints s ! j) ! 0)
    \<notin> (if slot = 0 then {x. child (ipc_endpoints s) g x} else {g})"
proof -
  let ?es = "ipc_endpoints s"
  have inv: "es_inv ?es" using assms(1) by (simp add: ipc_inv_def)
  then have weak: "es_weak ?es" by (simp add: es_inv_def)
  note self = self_capability_active [OF inv assms(6,7)]
  note i = find_endpoint_Some [OF assms(1,2)] and c = slot_capability [OF assms(1-3)]
  have "\<not> child ?es g (cap_generation (ep_capabilities (?es ! j) ! 0))"
  proof
    assume "child ?es g (cap_generation (ep_capabilities (?es ! j) ! 0))"
    then obtain d where "d \<in> set (all_capabilities ?es)" "cap_active d"
      "cap_parent_generation d = g" "cap_generation d = cap_generation (ep_capabilities (?es ! j) ! 0)"
      by (auto simp: child_def)
    with gens_unique_eq [OF es_weak_gens [OF weak] _ self(1) _ self(3)] self(2)
    have "g = 0" by (auto simp: self_capability_valid_def Let_def)
    with decode_handle_Some [OF assms(3)] show False by simp
  qed
  moreover have "slot = 0" if "cap_generation (ep_capabilities (?es ! j) ! 0) = g"
  proof -
    have "i = j" using self_generation_index [OF inv assms(6,7) i(2) c(1)] assms(4,5) that by simp
    with gens_unique_slot [OF es_weak_gens [OF weak] nth_mem [OF i(2)] c(3), of 0] assms(4,5)
      self(3,4) that show "slot = 0" by simp
  qed
  ultimately show ?thesis by auto
qed

lemma revocable_revoked_set:
  "revocable es (if slot = 0 then {x. child es g x} else {g}) (revoked_set es slot g)"
  by (simp add: revoked_set_def revocable_branch revocable_descendants)

lemma revoke_inv:
  assumes "ipc_inv s"
  shows "ipc_inv (snd (revoke s owner h))"
proof (cases "\<exists>i slot g. find_endpoint s owner = Some i \<and> decode_handle h = Some (slot, g)
    \<and> cap_active (ep_capabilities (ipc_endpoints s ! i) ! slot)
    \<and> cap_generation (ep_capabilities (ipc_endpoints s ! i) ! slot) = g")
  case True
  then obtain i slot g where hit: "find_endpoint s owner = Some i" "decode_handle h = Some (slot, g)"
    "cap_active (ep_capabilities (ipc_endpoints s ! i) ! slot)"
    "cap_generation (ep_capabilities (ipc_endpoints s ! i) ! slot) = g" by blast
  let ?G = "if slot = 0 then {x. child (ipc_endpoints s) g x} else {g}"
  have "g \<in> set (active_generations (ipc_endpoints s))"
    using slot_capability(2) [OF assms hit(1,2)] hit(3,4) by force
  then have "?G \<subseteq> set (active_generations (ipc_endpoints s))" using child_active by auto
  then have "es_inv (revoke_eps (revoked_set (ipc_endpoints s) slot g) (ipc_endpoints s))"
    using revoked_roots [OF assms hit] assms revocable_revoked_set
    by (intro es_inv_revoke [of _ ?G]) (simp_all add: ipc_inv_def)
  with assms show ?thesis
    by (auto simp: ipc_inv_def intro: revoke_ok_eq [OF assms hit])
next
  case False
  then have "snd (revoke s owner h) = s \<or> snd (revoke s owner h) = record_denial True s"
    by (auto simp: revoke_def Let_def split: option.splits)
  with assms show ?thesis by (auto simp: ipc_inv_def)
qed

text \<open>
  Resolution on a consistent state changes nothing but the counters of denials: a capability
  whose target has gone does not exist, so the branch of \<open>resolve_capability\<close> that revokes
  one is never taken.
\<close>

lemma resolve_capability_cases:
  assumes "ipc_inv s"
  obtains (denied) e s' where "resolve_capability s owner h required = (Inl e, s')"
      and "s' = s \<or> s' = record_denial False s \<or> s' = record_denial True s"
  | (granted) i slot c where "resolve_capability s owner h required = (Inr c, s)"
      and "find_endpoint s owner = Some i" and "decode_handle h = Some (slot, cap_generation c)"
      and "c = ep_capabilities (ipc_endpoints s ! i) ! slot" and "cap_active c"
      and "contains (cap_rights c) required" and "c \<in> set (all_capabilities (ipc_endpoints s))"
      and "cap_ok (ipc_endpoints s) c" and "find_endpoint s (cap_target c) \<noteq> None"
proof (cases "\<exists>i slot g. find_endpoint s owner = Some i \<and> decode_handle h = Some (slot, g)
    \<and> cap_active (ep_capabilities (ipc_endpoints s ! i) ! slot)
    \<and> cap_generation (ep_capabilities (ipc_endpoints s ! i) ! slot) = g
    \<and> contains (cap_rights (ep_capabilities (ipc_endpoints s ! i) ! slot)) required")
  case True
  then obtain i slot c where hit: "find_endpoint s owner = Some i"
    "decode_handle h = Some (slot, cap_generation c)" "cap_active c"
    "c = ep_capabilities (ipc_endpoints s ! i) ! slot" "contains (cap_rights c) required" by blast
  have c: "c \<in> set (all_capabilities (ipc_endpoints s))"
    using slot_capability(2) [OF assms hit(1,2)] hit(4) by simp
  then have "cap_ok (ipc_endpoints s) c" "find_endpoint s (cap_target c) \<noteq> None"
    using assms hit(3) by (auto simp: ipc_inv_def es_inv_def es_weak_def targets_ok_def find_endpoint_None)
  with hit c show ?thesis
    by (intro granted) (auto simp: resolve_capability_def Let_def)
next
  case False
  then have "\<exists>e s'. resolve_capability s owner h required = (Inl e, s')
      \<and> (s' = s \<or> s' = record_denial False s \<or> s' = record_denial True s)"
    by (auto simp: resolve_capability_def Let_def split: option.splits)
  with denied show ?thesis by blast
qed

lemma resolve_cases:
  assumes "ipc_inv s"
  obtains (denied) e s' where "resolve s owner h required = (Inl e, s')"
      and "s' = s \<or> s' = record_denial False s \<or> s' = record_denial True s"
  | (granted) i slot c where "resolve s owner h required = (Inr (cap_target c), s)"
      and "find_endpoint s owner = Some i" and "decode_handle h = Some (slot, cap_generation c)"
      and "c = ep_capabilities (ipc_endpoints s ! i) ! slot" and "cap_active c"
      and "contains (cap_rights c) required" and "c \<in> set (all_capabilities (ipc_endpoints s))"
      and "cap_ok (ipc_endpoints s) c" and "find_endpoint s (cap_target c) \<noteq> None"
  using assms
  by (cases rule: resolve_capability_cases [OF assms, of owner h required]) (auto simp: resolve_def)

lemma resolve_capability_inv:
  assumes "ipc_inv s"
  shows "ipc_inv (snd (resolve_capability s owner h required))"
  by (cases rule: resolve_capability_cases [OF assms, of owner h required])
    (use assms in \<open>auto simp: ipc_inv_def\<close>)

lemma resolve_inv:
  assumes "ipc_inv s"
  shows "ipc_inv (snd (resolve s owner h required))"
  by (cases rule: resolve_cases [OF assms, of owner h required])
    (use assms in \<open>auto simp: ipc_inv_def\<close>)

section \<open>Messages\<close>

lemma send_ok_eq:
  assumes "ipc_initialized s" and "length bytes \<le> MAX_MESSAGE_BYTES"
    and "find_endpoint s sender \<noteq> None" and "find_endpoint s receiver = Some i"
    and "ep_len (ipc_endpoints s ! i) < QUEUE_DEPTH"
  shows "fst (send s sender receiver bytes) =
      Inr (next_sequence s, ep_waiting (ipc_endpoints s ! i))"
    and "ipc_endpoints (snd (send s sender receiver bytes)) = (ipc_endpoints s)[i :=
      snd (push ((ipc_endpoints s ! i)\<lparr>ep_waiting := False\<rparr>)
            (make_message sender (next_sequence s) 0 0 bytes))]"
    and "ipc_initialized (snd (send s sender receiver bytes)) = ipc_initialized s"
    and "next_capability_generation (snd (send s sender receiver bytes)) =
      next_capability_generation s"
    and "next_sequence (snd (send s sender receiver bytes)) = sat_add (next_sequence s) 1"
  using assms by (auto simp: send_def Let_def push_def)

lemma send_fails_eq:
  assumes "\<not> (ipc_initialized s \<and> length bytes \<le> MAX_MESSAGE_BYTES
    \<and> find_endpoint s sender \<noteq> None \<and> (\<exists>i. find_endpoint s receiver = Some i
    \<and> ep_len (ipc_endpoints s ! i) < QUEUE_DEPTH))"
  shows "\<exists>e. fst (send s sender receiver bytes) = Inl e"
    and "snd (send s sender receiver bytes) = s
      \<or> snd (send s sender receiver bytes) = s\<lparr>queue_full_events := sat_add (queue_full_events s) 1\<rparr>"
  using assms by (auto simp: send_def split: option.splits)

lemma queued_valid_cong:
  assumes "ep_capabilities e = ep_capabilities e'"
  shows "queued_capability_valid e m = queued_capability_valid e' m"
  unfolding queued_capability_valid_def assms ..

lemma mailbox_push_inv:
  assumes "es_inv es" and "i < MAX_ENDPOINTS" and "ep_len (es ! i) < QUEUE_DEPTH"
    and "length (msg_bytes m) = MAX_MESSAGE_BYTES" and "msg_length m \<le> MAX_MESSAGE_BYTES"
    and "queued_capability_valid (es ! i) m"
    and e: "e = snd (push ((es ! i)\<lparr>ep_waiting := w\<rparr>) m)"
  shows "es_inv (es[i := e\<lparr>ep_waiting := w'\<rparr>])"
proof -
  let ?e = "(es ! i)\<lparr>ep_waiting := w\<rparr>"
  have "ep_ok (es ! i)" using es_weak_nth assms(1,2) by (simp add: es_inv_def)
  then have size: "ep_sized ?e" by (simp add: ep_ok_def ep_sized_def)
  then have sized: "ep_sized e" using assms(3-5) unfolding e by (intro ep_sized_push) simp_all
  note p = push_ok [OF ep_sized_mailbox [OF size], of m, folded e]
  have "queued_capability_valid (e\<lparr>ep_waiting := w'\<rparr>) m"
    using assms(3,6) p(5) queued_valid_cong [of "e\<lparr>ep_waiting := w'\<rparr>" "es ! i" m] by simp
  then show ?thesis
    using assms(1-3) sized p
    by (intro es_inv_mailbox) (auto simp: ep_sized_def)
qed

lemma queued_valid_no_capability:
  "queued_capability_valid e (make_message a b 0 0 bytes)"
  by (simp add: queued_capability_valid_def make_message_def)

lemma send_inv:
  assumes "ipc_inv s"
  shows "ipc_inv (snd (send s sender receiver bytes))"
proof (cases "length bytes \<le> MAX_MESSAGE_BYTES \<and> find_endpoint s sender \<noteq> None
    \<and> (\<exists>i. find_endpoint s receiver = Some i \<and> ep_len (ipc_endpoints s ! i) < QUEUE_DEPTH)")
  case True
  then obtain i where i: "find_endpoint s receiver = Some i"
    and len: "ep_len (ipc_endpoints s ! i) < QUEUE_DEPTH" by blast
  let ?m = "make_message sender (next_sequence s) 0 0 bytes"
  let ?e = "snd (push ((ipc_endpoints s ! i)\<lparr>ep_waiting := False\<rparr>) ?m)"
  have "ep_waiting ?e = False" using len by (simp add: push_def Let_def)
  then have "?e\<lparr>ep_waiting := False\<rparr> = ?e" by simp
  moreover have "es_inv ((ipc_endpoints s)[i := ?e\<lparr>ep_waiting := False\<rparr>])"
    using assms True len find_endpoint_Some(1) [OF assms i] make_message_sized [of bytes]
    by (intro mailbox_push_inv [OF _ _ _ _ _ _ refl])
      (auto simp: ipc_inv_def queued_valid_no_capability)
  ultimately show ?thesis
    using send_ok_eq [of s bytes sender receiver i] True i len assms by (simp add: ipc_inv_def)
next
  case False
  with send_fails_eq(2) [of s bytes sender receiver] assms show ?thesis
    by (auto simp: ipc_inv_def)
qed

lemma send_capability_inv:
  assumes "ipc_inv s"
  shows "ipc_inv (snd (send_capability s sender h bytes))"
  using resolve_inv [OF assms, of sender h SEND] send_inv
  by (auto simp: send_capability_def split: prod.split sum.split) (metis snd_conv)+

lemma mailbox_pop_inv:
  assumes "es_inv es" and "i < MAX_ENDPOINTS"
  shows "es_inv (es[i := snd (pop (es ! i))])"
proof (cases "ep_messages (es ! i)")
  case Nil
  then have "snd (pop (es ! i)) = es ! i"
    using pop_empty_eq [of "es ! i"] by (auto dest: arg_cong [of _ _ length])
  with assms show ?thesis by simp
next
  case (Cons m ms)
  have "ep_sized (es ! i)" using es_weak_nth assms by (simp add: es_inv_def ep_ok_def)
  with Cons ep_sized_pop pop_ok [OF ep_sized_mailbox, of "es ! i"] assms show ?thesis
    by (intro es_inv_mailbox) auto
qed

lemma can_receive_state:
  assumes "ipc_inv s"
  shows "ipc_inv (snd (can_receive s t))"
    and "ipc_endpoints (snd (can_receive s t)) = ipc_endpoints s"
proof -
  have "\<exists>s'. snd (can_receive s t) = s' \<and> (s' = s \<or> s' = record_denial False s \<or> s' = record_denial True s)"
  proof (cases "self_capability s t")
    case (Inl e)
    then show ?thesis by (simp add: can_receive_def)
  next
    case (Inr h)
    then show ?thesis
      by (cases rule: resolve_cases [OF assms, of t h RECEIVE]) (auto simp: can_receive_def)
  qed
  with assms show "ipc_inv (snd (can_receive s t))"
    "ipc_endpoints (snd (can_receive s t)) = ipc_endpoints s" by (auto simp: ipc_inv_def)
qed

lemma receive_inv:
  assumes "ipc_inv s"
  shows "ipc_inv (snd (snd (receive s t output)))"
proof -
  obtain r s1 where c: "can_receive s t = (r, s1)" by fastforce
  have s1: "ipc_inv s1" using can_receive_state(1) [OF assms, of t] c by simp
  have "ipc_inv (set_endpoint s1 i (snd (pop (ipc_endpoints s1 ! i))))"
    if "find_endpoint s1 t = Some i" for i
    using s1 mailbox_pop_inv [of "ipc_endpoints s1" i] find_endpoint_Some(1) [OF s1 that]
    by (simp add: ipc_inv_def)
  with s1 c show ?thesis
    by (auto simp: receive_def Let_def ipc_inv_def split: sum.split option.split prod.split)
qed

lemma set_waiting_inv:
  assumes "ipc_inv s"
  shows "ipc_inv (snd (set_waiting s t w))"
proof (cases "find_endpoint s t")
  case (Some i)
  note i = find_endpoint_Some [OF assms Some]
  have "es_inv ((ipc_endpoints s)[i := (ipc_endpoints s ! i)\<lparr>ep_waiting := w\<rparr>])"
    using assms i by (intro es_inv_mailbox) (auto simp: ipc_inv_def ep_ok_def ep_sized_def)
  with Some assms show ?thesis by (simp add: set_waiting_def ipc_inv_def)
qed (use assms in \<open>simp add: set_waiting_def\<close>)

section \<open>Messages that carry a capability\<close>

lemma transfer_capability_ok:
  assumes "ipc_inv s" and "find_endpoint s receiver = Some i" and "receiver \<noteq> 0"
    and "ep_len (ipc_endpoints s ! i) < QUEUE_DEPTH" and "length bytes \<le> MAX_MESSAGE_BYTES"
    and "position (\<lambda>c. \<not> cap_active c) (ep_capabilities (ipc_endpoints s ! i)) = Some slot"
    and "source \<in> set (all_capabilities (ipc_endpoints s))" and "cap_active source"
    and "contains (cap_rights source) DELEGATE" and "contains (cap_rights source) requested"
    and "valid requested" and "contains requested RECEIVE \<longrightarrow> receiver = cap_target source"
    and "checked_add (cap_lineage_depth source) 1 = Some depth"
    and "depth \<le> MAX_CAPABILITY_LINEAGE_DEPTH"
  obtains g s' c m where "transfer_capability s sender receiver source depth requested bytes i slot =
      (Inr (next_sequence s, ep_waiting (ipc_endpoints s ! i), receiver, encode_handle slot g), s')"
    and "c = \<lparr>cap_target = cap_target source, cap_generation = g,
              cap_parent_generation = cap_generation source, cap_lineage_depth = depth,
              cap_rights = requested, cap_active = True\<rparr>"
    and "m = make_message sender (next_sequence s) (encode_handle slot g) requested bytes"
    and "ipc_endpoints s' = (ipc_endpoints s)[i :=
           (snd (push (add_cap (ipc_endpoints s ! i) slot c) m))\<lparr>ep_waiting := False\<rparr>]"
    and "new_capability (ipc_endpoints s) i slot c" and "ipc_inv s'" and "parent_ok source c"
proof -
  let ?es = "ipc_endpoints s"
  note weak = ipc_inv_weak [OF assms(1)]
  note i = find_endpoint_Some [OF assms(1,2)] and slot = free_slot [OF find_endpoint_Some(4) [OF assms(1,2)] assms(6)]
  obtain g where g: "allocate_generation s = (g, s\<lparr>next_capability_generation :=
        next_generation g, last_capability_generation := g\<rparr>)" "g \<noteq> 0" "g \<le> max_generation"
      "next_generation g \<le> max_generation" "g \<notin> set (active_generations ?es)"
    by (rule allocate_generation_returns [OF weak]) (use assms(1) in \<open>simp add: ipc_inv_def\<close>)
  define c where "c = \<lparr>cap_target = cap_target source, cap_generation = g,
              cap_parent_generation = cap_generation source, cap_lineage_depth = depth,
              cap_rights = requested, cap_active = True\<rparr>"
  define m where "m = make_message sender (next_sequence s) (encode_handle slot g) requested bytes"
  define e where "e = snd (push (add_cap (?es ! i) slot c) m)"
  have push: "push (add_cap (?es ! i) slot c) m = (True, e)"
    using assms(4) by (simp add: e_def push_def Let_def)
  define s' where "s' = snd (transfer_capability s sender receiver source depth requested bytes i slot)"
  have eq: "transfer_capability s sender receiver source depth requested bytes i slot =
      (Inr (next_sequence s, ep_waiting (?es ! i), receiver, encode_handle slot g), s')"
    and es: "ipc_endpoints s' = ?es[i := e\<lparr>ep_waiting := False\<rparr>]"
    and n: "next_capability_generation s' = next_generation g" "ipc_initialized s'"
    using assms(1) g(1) push i(2)
    by (auto simp: s'_def transfer_capability_def Let_def set_capability_eq c_def m_def ipc_inv_def)
  have src: "cap_ok ?es source" using weak assms(7,8) by (auto simp: es_weak_def)
  have "cap_generation source \<noteq> g" using g(5) assms(7,8) by auto
  then have parent: "parent_ok source c" using assms(8-10,13) by (simp add: parent_ok_def c_def)
  then have "cap_ok ?es c"
    using src g(2,3) assms(7,11,14) by (auto simp: cap_ok_def c_def)
  then have new: "new_capability ?es i slot c"
    using assms(3,12) g(5) i slot by (simp add: new_capability_def c_def)
  have "cap_target c \<in> set (map ep_owner ?es)"
    using assms(1,7,8) by (simp add: c_def ipc_inv_def es_inv_def targets_ok_def)
  then have inv: "es_inv (?es[i := add_cap (?es ! i) slot c])"
    using new_capability_inv [OF _ new] assms(1) by (simp add: ipc_inv_def)
  have "decode_handle (encode_handle slot g) = Some (slot, g)"
    using decode_encode_handle [of slot g] slot g by (simp add: ipc_consts)
  then have "queued_capability_valid (add_cap (?es ! i) slot c) m"
    using slot i(4) by (auto simp: queued_capability_valid_def m_def make_message_def Let_def
        c_def ep_ok_def ep_sized_def)
  moreover have w: "(add_cap (?es ! i) slot c)\<lparr>ep_waiting := ep_waiting (?es ! i)\<rparr> =
      add_cap (?es ! i) slot c" by (simp add: add_cap_def)
  have "e = snd (push ((?es[i := add_cap (?es ! i) slot c] ! i)\<lparr>ep_waiting := ep_waiting (?es ! i)\<rparr>) m)"
    using i(2) by (simp only: e_def w nth_list_update_eq)
  moreover have "length (msg_bytes m) = MAX_MESSAGE_BYTES" "msg_length m \<le> MAX_MESSAGE_BYTES"
    using make_message_sized [OF assms(5)] by (simp_all add: m_def)
  ultimately have "es_inv (?es[i := e\<lparr>ep_waiting := False\<rparr>])"
    using mailbox_push_inv [OF inv, of i m e "ep_waiting (?es ! i)" False] i assms(4) by simp
  with n g(4) es have "ipc_inv s'" by (simp add: ipc_inv_def)
  with that [OF eq c_def m_def es [unfolded e_def] new] parent show ?thesis by blast
qed

text \<open>
  \<open>try_send_with_capability\<close> either fails and leaves every endpoint as it was, or all its
  checks have passed and one derived capability travels with one message.
\<close>

lemma try_send_with_capability_cases:
  assumes "ipc_inv s"
  obtains (failed) e s' where
      "try_send_with_capability s sender dest transfer requested bytes = (Inl e, s')"
      and "ipc_endpoints s' = ipc_endpoints s" and "ipc_inv s'"
  | (sent) receiver source depth i slot g s' c m where
      "try_send_with_capability s sender dest transfer requested bytes =
        (Inr (next_sequence s, ep_waiting (ipc_endpoints s ! i), receiver, encode_handle slot g), s')"
      and "c = \<lparr>cap_target = cap_target source, cap_generation = g,
              cap_parent_generation = cap_generation source, cap_lineage_depth = depth,
              cap_rights = requested, cap_active = True\<rparr>"
      and "m = make_message sender (next_sequence s) (encode_handle slot g) requested bytes"
      and "ipc_endpoints s' = (ipc_endpoints s)[i :=
           (snd (push (add_cap (ipc_endpoints s ! i) slot c) m))\<lparr>ep_waiting := False\<rparr>]"
      and "new_capability (ipc_endpoints s) i slot c" and "ipc_inv s'"
      and "find_endpoint s receiver = Some i" and "length bytes \<le> MAX_MESSAGE_BYTES"
      and "ep_len (ipc_endpoints s ! i) < QUEUE_DEPTH"
      and "resolve s sender dest SEND = (Inr receiver, s)"
      and "resolve_capability s sender transfer DELEGATE = (Inr source, s)"
      and "contains (cap_rights source) requested" and "parent_ok source c"
proof -
  let ?run = "try_send_with_capability s sender dest transfer requested bytes"
  have fails: thesis if "isl (fst ?run)" "ipc_endpoints (snd ?run) = ipc_endpoints s"
    "ipc_initialized (snd ?run) = ipc_initialized s"
    "next_capability_generation (snd ?run) = next_capability_generation s"
    by (rule failed [of "projl (fst ?run)" "snd ?run"])
      (use that assms in \<open>auto simp: prod_eq_iff ipc_inv_def\<close>)
  show ?thesis
  proof (cases "valid requested \<and> length bytes \<le> MAX_MESSAGE_BYTES")
    case False
    then show ?thesis
      by (cases "valid requested") (auto intro!: fails simp: try_send_with_capability_def)
  next
    case go: True
    show ?thesis
    proof (rule resolve_cases [OF assms, of sender dest SEND], goal_cases denied granted)
      case (denied e s')
      with go show ?thesis by (auto intro!: fails simp: try_send_with_capability_def)
    next
      case dest: (granted j k d)
      show ?thesis
      proof (rule resolve_capability_cases [OF assms, of sender transfer DELEGATE],
          goal_cases denied granted)
        case (denied e s')
        with go dest show ?thesis by (auto intro!: fails simp: try_send_with_capability_def)
      next
        case source: (granted j' k' source)
        obtain i where i: "find_endpoint s (cap_target d) = Some i" using dest(9) by blast
        let ?ok = "contains (cap_rights source) requested
          \<and> (contains requested RECEIVE \<longrightarrow> cap_target d = cap_target source)
          \<and> (\<exists>depth. checked_add (cap_lineage_depth source) 1 = Some depth
                \<and> depth \<le> MAX_CAPABILITY_LINEAGE_DEPTH)
          \<and> ep_len (ipc_endpoints s ! i) < QUEUE_DEPTH
          \<and> position (\<lambda>c. \<not> cap_active c) (ep_capabilities (ipc_endpoints s ! i)) \<noteq> None"
        show ?thesis
        proof (cases ?ok)
          case False
          then show ?thesis using go dest(1) source(1) i
            by (auto intro!: fails simp: try_send_with_capability_def split: option.splits if_splits)
        next
          case True
          then obtain depth slot where depth: "checked_add (cap_lineage_depth source) 1 = Some depth"
            "depth \<le> MAX_CAPABILITY_LINEAGE_DEPTH" and slot: "position (\<lambda>c. \<not> cap_active c)
              (ep_capabilities (ipc_endpoints s ! i)) = Some slot" by auto
          have run: "?run = transfer_capability s sender (cap_target d) source depth requested
              bytes i slot"
            using True go dest(1) source(1) i depth slot
            by (auto simp: try_send_with_capability_def dest: leD)
          have ok: "cap_target d \<noteq> 0" "ep_len (ipc_endpoints s ! i) < QUEUE_DEPTH"
            "length bytes \<le> MAX_MESSAGE_BYTES" "contains (cap_rights source) requested"
            "valid requested" "contains requested RECEIVE \<longrightarrow> cap_target d = cap_target source"
            using True go dest(8) by (auto simp: cap_ok_def)
          obtain g s' c m where t: "transfer_capability s sender (cap_target d) source depth
                requested bytes i slot = (Inr (next_sequence s, ep_waiting (ipc_endpoints s ! i),
                cap_target d, encode_handle slot g), s')"
            and "c = \<lparr>cap_target = cap_target source, cap_generation = g,
              cap_parent_generation = cap_generation source, cap_lineage_depth = depth,
              cap_rights = requested, cap_active = True\<rparr>"
            and "m = make_message sender (next_sequence s) (encode_handle slot g) requested bytes"
            and "ipc_endpoints s' = (ipc_endpoints s)[i :=
              (snd (push (add_cap (ipc_endpoints s ! i) slot c) m))\<lparr>ep_waiting := False\<rparr>]"
            and "new_capability (ipc_endpoints s) i slot c" and "ipc_inv s'" and "parent_ok source c"
            by (rule transfer_capability_ok [OF assms i ok(1-3) slot source(7,5,6) ok(4-6) depth])
          note t = this
          show ?thesis
            by (rule sent [OF trans [OF run t(1)] t(2-6) i ok(3,2) dest(1) source(1) ok(4) t(7)])
        qed
      qed
    qed
  qed
qed

lemma send_with_capability_inv:
  assumes "ipc_inv s"
  shows "ipc_inv (snd (send_with_capability s sender dest transfer requested bytes))"
  by (rule try_send_with_capability_cases [OF assms, of sender dest transfer requested bytes])
    (auto simp: send_with_capability_def ipc_inv_def)

end
