(* ===== verification/Ipc_Security.thy ===== *)
theory Ipc_Security
  imports Ipc_Ops
begin

unbundle bit_operations_syntax

text \<open>
  The IPC component as a state machine, and what its clients rely on: the kernel's own
  check \<open>invariants\<close> holds in every reachable state, delegation only attenuates, revocation
  takes exactly the branch below a capability, a failed transfer changes no endpoint, and
  messages arrive unchanged and in order.
\<close>

section \<open>The kernel's check\<close>

lemma nth_concat_uniform:
  assumes "\<forall>xs \<in> set xss. length xs = n" and "i < length xss" and "j < n"
  shows "i * n + j < length (concat xss) \<and> concat xss ! (i * n + j) = xss ! i ! j"
  using assms
proof (induction xss arbitrary: i)
  case Nil
  then show ?case by simp
next
  case (Cons xs xss)
  show ?case
  proof (cases i)
    case 0
    with Cons.prems show ?thesis by (simp add: nth_append)
  next
    case (Suc k)
    with Cons.IH [of k] Cons.prems show ?thesis by (simp add: nth_append add.assoc)
  qed
qed

lemma nth_all_capabilities:
  assumes "es_weak es" and "i < MAX_ENDPOINTS" and "k < MAX_CAPABILITIES_PER_ENDPOINT"
  shows "i * MAX_CAPABILITIES_PER_ENDPOINT + k < length (all_capabilities es)
    \<and> all_capabilities es ! (i * MAX_CAPABILITIES_PER_ENDPOINT + k) = ep_capabilities (es ! i) ! k"
  using nth_concat_uniform [of "map ep_capabilities es" MAX_CAPABILITIES_PER_ENDPOINT i k] assms
  by (simp add: all_capabilities_def es_weak_def ep_sized_def)

lemma capability_generations_unique_inv:
  assumes "es_weak es"
  shows "capability_generations_unique es"
proof -
  have key: "le = re \<and> ls = rs"
    if "le < MAX_ENDPOINTS" "ls < MAX_CAPABILITIES_PER_ENDPOINT" "re < MAX_ENDPOINTS"
      "rs < MAX_CAPABILITIES_PER_ENDPOINT" "cap_active (ep_capabilities (es ! le) ! ls)"
      "cap_active (ep_capabilities (es ! re) ! rs)"
      "cap_generation (ep_capabilities (es ! re) ! rs) = cap_generation (ep_capabilities (es ! le) ! ls)"
    for le ls re rs
  proof -
    have "le * MAX_CAPABILITIES_PER_ENDPOINT + ls = re * MAX_CAPABILITIES_PER_ENDPOINT + rs"
      using distinct_filter_nth [OF es_weak_gens [OF assms, unfolded gens_unique_def],
          of "le * MAX_CAPABILITIES_PER_ENDPOINT + ls" "re * MAX_CAPABILITIES_PER_ENDPOINT + rs"]
        nth_all_capabilities [OF assms that(1,2)] nth_all_capabilities [OF assms that(3,4)] that
      by simp
    with that(2,4) show ?thesis unfolding ipc_consts by presburger
  qed
  show ?thesis
    unfolding capability_generations_unique_def list_all_iff Let_def
  proof (intro ballI)
    fix le ls
    assume l: "le \<in> set [0..<MAX_ENDPOINTS]" "ls \<in> set [0..<MAX_CAPABILITIES_PER_ENDPOINT]"
    let ?left = "ep_capabilities (es ! le) ! ls"
    have "\<not> (cap_active (ep_capabilities (es ! re) ! rs)
        \<and> cap_generation (ep_capabilities (es ! re) ! rs) = cap_generation ?left)"
      if "re \<in> set [le..<MAX_ENDPOINTS]" "cap_active ?left"
        "rs \<in> set [if re = le then ls + 1 else 0..<MAX_CAPABILITIES_PER_ENDPOINT]" for re rs
      using key [of le ls re rs] that l by (auto split: if_splits)
    then show "\<not> cap_active ?left \<or> (\<forall>re \<in> set [le..<MAX_ENDPOINTS].
        \<forall>rs \<in> set [if re = le then ls + 1 else 0..<MAX_CAPABILITIES_PER_ENDPOINT].
          \<not> (cap_active (ep_capabilities (es ! re) ! rs)
             \<and> cap_generation (ep_capabilities (es ! re) ! rs) = cap_generation ?left))"
      by blast
  qed
qed

lemma endpoint_owners_unique_inv: "es_weak es \<Longrightarrow> endpoint_owners_unique es"
proof -
  assume weak: "es_weak es"
  then have "length es = MAX_ENDPOINTS" by (simp add: es_weak_def)
  with owner_index [OF weak] have "ep_owner (es ! j) \<noteq> ep_owner (es ! i)"
    if "i < j" "j < MAX_ENDPOINTS" "ep_owner (es ! i) \<noteq> 0" for i j
    using that by (metis order.strict_trans less_irrefl)
  then show ?thesis unfolding endpoint_owners_unique_def list_all_iff by auto
qed

lemma capability_valid_inv:
  assumes "es_inv es" and "c \<in> set (all_capabilities es)" and "cap_active c"
  shows "capability_valid es c"
proof -
  have weak: "es_weak es" using assms(1) by (simp add: es_inv_def)
  have ok: "cap_ok es c" using weak assms(2,3) by (simp add: es_weak_def)
  have target: "list_ex (\<lambda>e. ep_owner e = cap_target c) es"
    using assms unfolding es_inv_def targets_ok_def list_ex_iff by (metis imageE list.set_map)
  have "find_capability_generation es (cap_parent_generation c) = Some p"
    if "p \<in> set (all_capabilities es)" "parent_ok p c" for p
    using that by (auto simp: find_capability_generation_iff [OF es_weak_gens [OF weak]] parent_ok_def)
  with ok target show ?thesis
    by (auto simp: capability_valid_def cap_ok_def parent_ok_def split: if_splits)
qed

lemma capability_tables_valid_inv:
  assumes "es_inv es"
  shows "capability_tables_valid es"
proof -
  have "capability_valid es c" if "e \<in> set es" "c \<in> set (ep_capabilities e)" "cap_active c" for e c
    using capability_valid_inv [OF assms] that by (auto simp: mem_all_capabilities)
  moreover have "self_capability_valid e" if "e \<in> set es" "ep_owner e \<noteq> 0" for e
    using assms that by (simp add: es_inv_def selfs_ok_def)
  moreover have "\<not> list_ex cap_active (ep_capabilities e)" if "e \<in> set es" "ep_owner e = 0" for e
    using assms that by (auto simp: es_inv_def es_weak_def list_ex_iff)
  ultimately show ?thesis by (auto simp: capability_tables_valid_def list_all_iff)
qed

lemma queued_capabilities_valid_inv:
  assumes "es_weak es"
  shows "queued_capabilities_valid es"
  unfolding queued_capabilities_valid_def list_all_iff
proof
  fix e assume e: "e \<in> set es"
  show "ep_owner e = 0 \<or> (\<forall>k \<in> set [0..<ep_len e].
      queued_capability_valid e (ep_queue e ! ((ep_head e + k) mod QUEUE_DEPTH)))"
  proof (cases "ep_owner e = 0")
    case False
    have "length (ep_queue e) = QUEUE_DEPTH" using assms e by (simp add: es_weak_def ep_sized_def)
    then have "ep_queue e ! ((ep_head e + k) mod QUEUE_DEPTH) \<in> set (ep_messages e)"
      if "k < ep_len e" for k using that by (auto simp: set_ring_list)
    with False assms e show ?thesis by (auto simp: es_weak_def)
  qed simp
qed

lemma ipc_inv_invariants: "ipc_inv s \<Longrightarrow> invariants s"
  using capability_generations_unique_inv endpoint_owners_unique_inv capability_tables_valid_inv
    queued_capabilities_valid_inv
  by (auto simp: invariants_def ipc_inv_def es_inv_def list_all_iff es_weak_def ep_sized_def)

section \<open>The state machine\<close>

text \<open>
  One call of the component. The counters that the public functions keep beside the state
  operations (waits, wake-ups, cancellations) are the rule \<open>counters\<close>. A grant is a step
  when it names tasks, whose numbers are not 0; \<open>IpcState::grant\<close> does not check this, and a
  grant in the name of 0 breaks the consistency of the state.
\<close>

inductive ipc_step :: "IpcState \<Rightarrow> IpcState \<Rightarrow> bool" where
  step_init: "ipc_step s (ipc_init s)"
| step_register: "ipc_step s (snd (register s task_id))"
| step_unregister: "ipc_step s (snd (unregister s task_id))"
| step_grant: "owner \<noteq> 0 \<Longrightarrow> target \<noteq> 0 \<Longrightarrow> ipc_step s (snd (grant s owner target rights))"
| step_revoke: "ipc_step s (snd (revoke s owner handle))"
| step_resolve: "ipc_step s (snd (resolve s owner handle required))"
| step_send: "ipc_step s (snd (send s sender receiver bytes))"
| step_send_capability: "ipc_step s (snd (send_capability s sender handle bytes))"
| step_send_with_capability:
    "ipc_step s (snd (send_with_capability s sender destination transfer requested bytes))"
| step_can_receive: "ipc_step s (snd (can_receive s receiver))"
| step_receive: "ipc_step s (snd (snd (receive s receiver output)))"
| step_set_waiting: "ipc_step s (snd (set_waiting s task_id waiting))"
| step_counters: "ipc_step s (s\<lparr>blocked_receives := a, receiver_wakeups := b,
    cancellation_requests := c, cancellation_successes := d\<rparr>)"

lemmas ipc_step_inv = ipc_init_inv register_inv unregister_inv grant_inv revoke_inv resolve_inv
  send_inv send_capability_inv send_with_capability_inv can_receive_state(1) receive_inv
  set_waiting_inv

interpretation ipc: invariant_machine "\<lambda>s. s = ipc_init IpcState_new" ipc_step ipc_inv
proof unfold_locales
  show "ipc_inv s" if "s = ipc_init IpcState_new" for s
    using that ipc_init_inv [of IpcState_new] by (simp add: IpcState_new_def)
  show "ipc_inv t" if "ipc_inv s" "ipc_step s t" for s t
    using that(2,1) by (cases rule: ipc_step.cases) (auto simp: ipc_step_inv, simp add: ipc_inv_def)
qed

section \<open>Delegation\<close>

lemma child_parent_ok:
  assumes "es_weak es" and "child es p x" and "p \<noteq> 0"
    and "d \<in> set (all_capabilities es)" and "cap_active d" and "cap_generation d = x"
  obtains c where "c \<in> set (all_capabilities es)" and "parent_ok c d" and "cap_generation c = p"
proof -
  obtain d' where "d' \<in> set (all_capabilities es)" "cap_active d'" "cap_parent_generation d' = p"
    "cap_generation d' = x" using assms(2) by (auto simp: child_def)
  with gens_unique_eq [OF es_weak_gens [OF assms(1)] _ assms(4) _ assms(5)] assms(6)
  have "cap_parent_generation d = p" by metis
  moreover have "cap_ok es d" using assms(1,4,5) by (simp add: es_weak_def)
  ultimately show ?thesis using assms(3) that by (auto simp: cap_ok_def parent_ok_def)
qed

lemma parent_ok_depth: "parent_ok c d \<Longrightarrow> cap_lineage_depth c < cap_lineage_depth d"
  by (auto simp: parent_ok_def checked_add_Some word_less_nat_alt unat_word_ariths split: if_splits)

lemma descendant_attenuated:
  assumes "es_weak es" and "(child es)\<^sup>+\<^sup>+ p x" and "p \<noteq> 0"
    and "c \<in> set (all_capabilities es)" and "cap_active c" and "cap_generation c = p"
    and "d \<in> set (all_capabilities es)" and "cap_active d" and "cap_generation d = x"
  shows "cap_target d = cap_target c \<and> contains (cap_rights c) (cap_rights d)
    \<and> cap_lineage_depth c < cap_lineage_depth d"
  using assms(2,7-9)
proof (induction arbitrary: d rule: tranclp_induct)
  case (base y)
  obtain c' where c': "c' \<in> set (all_capabilities es)" "parent_ok c' d" "cap_generation c' = p"
    by (rule child_parent_ok [OF assms(1) base(1) assms(3) base(2-4)])
  have "cap_active c'" using c'(2) by (simp add: parent_ok_def)
  with gens_unique_eq [OF es_weak_gens [OF assms(1)] c'(1) assms(4)] c'(3) assms(5,6)
  have "c' = c" by simp
  with c'(2) parent_ok_depth show ?case by (auto simp: parent_ok_def)
next
  case (step y z)
  have "y \<noteq> 0" using step(1) zero_not_active [OF assms(1)] child_active by (metis tranclp.cases)
  obtain c' where c': "c' \<in> set (all_capabilities es)" "parent_ok c' d" "cap_generation c' = y"
    by (rule child_parent_ok [OF assms(1) step(2) \<open>y \<noteq> 0\<close> step(4-6)])
  have "cap_active c'" using c'(2) by (simp add: parent_ok_def)
  with step(3) c' have "cap_target c' = cap_target c" "contains (cap_rights c) (cap_rights c')"
    "cap_lineage_depth c < cap_lineage_depth c'" by auto
  with c'(2) parent_ok_depth [OF c'(2)] show ?case
    by (auto simp: parent_ok_def intro: contains_trans)
qed

section \<open>Revocation\<close>

lemma active_count_card:
  assumes "gens_unique (ipc_endpoints s)"
  shows "active_count s = card (set (active_generations (ipc_endpoints s)))"
  using distinct_card [OF assms [unfolded gens_unique_def]] by (simp add: active_count_def)

lemma active_generations_revoke:
  "set (active_generations (revoke_eps R es)) = set (active_generations es) - R"
  by (auto simp: image_iff drop_cap_def Capability_empty_def split: if_splits)

lemma active_revoke:
  "c \<in> set (all_capabilities (revoke_eps R es)) \<and> cap_active c \<longleftrightarrow>
   c \<in> set (all_capabilities es) \<and> cap_active c \<and> cap_generation c \<notin> R"
  by (auto simp: image_iff drop_cap_def Capability_empty_def split: if_splits)

lemma revoked_set_active:
  assumes "g \<in> set (active_generations es)"
  shows "revoked_set es slot g \<subseteq> set (active_generations es)"
proof -
  have "descendants es g \<subseteq> set (active_generations es)"
    unfolding descendants_def using child_active by (metis (no_types, lifting) mem_Collect_eq subsetI tranclp.cases)
  then show ?thesis using assms by (auto simp: revoked_set_def branch_of_def)
qed

lemma revoke_report_card:
  assumes "ipc_inv s" and "find_endpoint s owner = Some i" and "decode_handle h = Some (slot, g)"
    and "cap_active (ep_capabilities (ipc_endpoints s ! i) ! slot)"
    and "cap_generation (ep_capabilities (ipc_endpoints s ! i) ! slot) = g"
    and "revoke s owner h = (Inr report, s')"
  shows "unat (rp_revoked report) = card (revoked_set (ipc_endpoints s) slot g)"
proof -
  let ?es = "ipc_endpoints s"
  let ?R = "revoked_set ?es slot g"
  let ?r = "if slot = 0 then revoke_children g s else revoke_generation g s"
  note weak = ipc_inv_weak [OF assms(1)]
  have es: "fst ?r = s\<lparr>ipc_endpoints := revoke_eps ?R ?es\<rparr>"
    using revoke_children_eq revoke_generation_eq weak by (simp add: revoked_set_def)
  have report: "report = snd ?r"
    using assms(2-6) by (auto simp: revoke_def Let_def case_prod_beta split: if_splits)
  have sub: "?R \<subseteq> set (active_generations ?es)"
    using slot_capability(2) [OF assms(1-3)] assms(4,5) by (intro revoked_set_active) force
  have count: "active_count s \<le> 64"
    using length_all_capabilities [OF weak] length_filter_le [of cap_active "all_capabilities ?es"]
    by (simp add: active_count_def ipc_consts)
  have "unat (rp_revoked report) + active_count (fst ?r) = active_count s"
    using revoke_report(1) [of RevocationReport_empty s g False]
      revoke_report(2) [of RevocationReport_empty s g] count
    unfolding report by (simp add: revoke_children_def revoke_generation_def RevocationReport_empty_def)
  moreover have "active_count s = card (set (active_generations ?es))"
    by (rule active_count_card [OF es_weak_gens [OF weak]])
  moreover have "active_count (fst ?r) = card (set (active_generations ?es) - ?R)"
    using active_count_card [of "fst ?r"] es_weak_gens [OF weak] active_generations_revoke [of ?R ?es]
    unfolding es by simp
  ultimately show ?thesis
    using card_Diff_subset [OF finite_subset [OF sub] sub] card_mono [OF _ sub] by simp
qed

end
