(* ===== verification/Ipc_Properties.thy ===== *)
theory Ipc_Properties
  imports Ipc_Security
begin

unbundle bit_operations_syntax

text \<open>
  The properties of the IPC component, over the states the kernel can reach, each with a
  concrete run that satisfies its hypotheses.
\<close>

definition ipc_reachable :: "IpcState \<Rightarrow> bool" where
  "ipc_reachable s \<longleftrightarrow> ipc_step\<^sup>*\<^sup>* (ipc_init IpcState_new) s"

lemma reachable_inv: "ipc_reachable s \<Longrightarrow> ipc_inv s"
  unfolding ipc_reachable_def using ipc.inv_reachable by blast

lemma reachable_start: "ipc_reachable (ipc_init IpcState_new)"
  by (simp add: ipc_reachable_def)

lemma reachable_step: "ipc_reachable s \<Longrightarrow> ipc_step s t \<Longrightarrow> ipc_reachable t"
  unfolding ipc_reachable_def by (rule rtranclp.rtrancl_into_rtrancl)

definition active_cap :: "IpcState \<Rightarrow> Capability \<Rightarrow> bool" where
  "active_cap s c \<longleftrightarrow> c \<in> set (all_capabilities (ipc_endpoints s)) \<and> cap_active c"

section \<open>A run\<close>

text \<open>
  Tasks 1 and 2 register; task 1 is granted a delegable send capability for task 2 and uses
  it to send a message that carries an attenuated copy of that capability.
\<close>

definition run_registered :: IpcState where
  "run_registered = snd (register (snd (register (ipc_init IpcState_new) 1)) 2)"

definition run_granted :: IpcState where
  "run_granted = snd (grant run_registered 1 2 SEND_DELEGATE)"

definition run_sent :: IpcState where
  "run_sent = snd (send_with_capability run_granted 1 0x302 0x302 SEND [1, 2, 3])"

lemma run_registered_reachable: "ipc_reachable run_registered"
  unfolding run_registered_def by (intro reachable_step [OF _ step_register] reachable_start)

lemma run_granted_reachable: "ipc_reachable run_granted"
  unfolding run_granted_def by (intro reachable_step [OF run_registered_reachable] step_grant) simp_all

lemma run_sent_reachable: "ipc_reachable run_sent"
  unfolding run_sent_def
  by (intro reachable_step [OF run_granted_reachable step_send_with_capability])

lemma run_granted_facts:
  "find_endpoint run_granted 1 = Some 0" "find_endpoint run_granted 2 = Some 1"
  "ep_len (ipc_endpoints run_granted ! 1) = 0" "ipc_initialized run_granted"
  by code_simp+

lemma run_sent_facts:
  "find_endpoint run_sent 1 = Some 0" "find_endpoint run_sent 2 = Some 1"
  "decode_handle 0x302 = Some (1, 3)"
  "cap_active (ep_capabilities (ipc_endpoints run_sent ! 0) ! 1)"
  "cap_generation (ep_capabilities (ipc_endpoints run_sent ! 0) ! 1) = 3"
  by code_simp+

section \<open>Consistency\<close>

text \<open>
  The operations with their arguments, so that a run is a list of calls. \<open>grant\<close> alone has a
  condition: it is used between tasks, whose numbers are not 0 (\<open>names_tasks\<close>).
\<close>

datatype ipc_op = OpInit | OpRegister u64 | OpUnregister u64 | OpGrant u64 u64 CapabilityRights
  | OpRevoke u64 u64 | OpResolve u64 u64 CapabilityRights | OpSend u64 u64 "u8 list"
  | OpSendCapability u64 u64 "u8 list" | OpSendWithCapability u64 u64 u64 CapabilityRights "u8 list"
  | OpCanReceive u64 | OpReceive u64 "u8 list" | OpSetWaiting u64 bool | OpCounters u64 u64 u64 u64

fun run_op :: "ipc_op \<Rightarrow> IpcState \<Rightarrow> IpcState" where
  "run_op OpInit s = ipc_init s"
| "run_op (OpRegister t) s = snd (register s t)"
| "run_op (OpUnregister t) s = snd (unregister s t)"
| "run_op (OpGrant owner target rights) s = snd (grant s owner target rights)"
| "run_op (OpRevoke owner handle) s = snd (revoke s owner handle)"
| "run_op (OpResolve owner handle required) s = snd (resolve s owner handle required)"
| "run_op (OpSend sender receiver bytes) s = snd (send s sender receiver bytes)"
| "run_op (OpSendCapability sender handle bytes) s = snd (send_capability s sender handle bytes)"
| "run_op (OpSendWithCapability sender destination transfer requested bytes) s =
     snd (send_with_capability s sender destination transfer requested bytes)"
| "run_op (OpCanReceive receiver) s = snd (can_receive s receiver)"
| "run_op (OpReceive receiver buffer) s = snd (snd (receive s receiver buffer))"
| "run_op (OpSetWaiting t waiting) s = snd (set_waiting s t waiting)"
| "run_op (OpCounters a b c d) s = s\<lparr>blocked_receives := a, receiver_wakeups := b,
     cancellation_requests := c, cancellation_successes := d\<rparr>"

fun names_tasks :: "ipc_op \<Rightarrow> bool" where
  "names_tasks (OpGrant owner target rights) \<longleftrightarrow> owner \<noteq> 0 \<and> target \<noteq> 0"
| "names_tasks _ \<longleftrightarrow> True"

lemma run_op_step: "names_tasks op \<Longrightarrow> ipc_step s (run_op op s)"
  by (cases op) (auto intro: ipc_step.intros)

lemma run_ops_reachable:
  assumes "list_all names_tasks ops" "ipc_reachable s"
  shows "ipc_reachable (fold run_op ops s)"
  using assms by (induction ops arbitrary: s) (auto intro: reachable_step run_op_step)

text \<open>
  C10. The check the kernel runs on its own IPC state, \<open>IpcState::invariants\<close>, holds after any
  sequence of the component's operations, with any arguments, in which no grant names task 0 as its
  owner or target: owners and generations are unique, every owned endpoint keeps its self capability,
  every capability has a live target and a valid parent, and every queued message carries a capability its
  receiver holds. The restriction is needed: in the state with two registered tasks a grant with owner 0
  succeeds and the check fails after it.
\<close>

theorem reachable_invariants:
  "(list_all names_tasks ops \<longrightarrow> invariants (fold run_op ops (ipc_init IpcState_new)))
   \<and> \<not> invariants (fold run_op [OpRegister 1, OpRegister 2, OpGrant 0 1 SEND] (ipc_init IpcState_new))"
proof
  show "list_all names_tasks ops \<longrightarrow> invariants (fold run_op ops (ipc_init IpcState_new))"
    by (simp add: ipc_inv_invariants reachable_inv run_ops_reachable reachable_start)
  show "\<not> invariants (fold run_op [OpRegister 1, OpRegister 2, OpGrant 0 1 SEND] (ipc_init IpcState_new))"
    by code_simp
qed

theorem reachable_invariants_witness:
  "invariants (fold run_op [OpRegister 1, OpRegister 2, OpGrant 1 2 SEND, OpSend 1 2 [7], OpReceive 2 [0]]
     (ipc_init IpcState_new))"
  using reachable_invariants [THEN conjunct1, of "[OpRegister 1, OpRegister 2, OpGrant 1 2 SEND, OpSend 1 2 [7], OpReceive 2 [0]]"]
  by simp

section \<open>Revocation\<close>

text \<open>
  C11. Revoking a live handle succeeds and removes exactly one branch of the delegation tree:
  the capability and everything derived from it, or only what is derived from it when the
  handle is the self capability in slot 0. Every other capability stays as it was, the
  report counts the removed capabilities, and no queued message carries one of them.
\<close>

theorem revoke_takes_the_branch:
  assumes "ipc_reachable s" and "find_endpoint s owner = Some i"
    and "decode_handle h = Some (slot, g)"
    and "cap_active (ep_capabilities (ipc_endpoints s ! i) ! slot)"
    and "cap_generation (ep_capabilities (ipc_endpoints s ! i) ! slot) = g"
  shows "\<exists>report s'. revoke s owner h = (Inr report, s')
    \<and> (\<forall>c. active_cap s' c \<longleftrightarrow>
          active_cap s c \<and> cap_generation c \<notin> revoked_set (ipc_endpoints s) slot g)
    \<and> unat (rp_revoked report) = card (revoked_set (ipc_endpoints s) slot g)
    \<and> (\<forall>e \<in> set (ipc_endpoints s'). \<forall>m \<in> set (ep_messages e). \<forall>k x.
          decode_handle (msg_capability_handle m) = Some (k, x) \<longrightarrow>
          x \<notin> revoked_set (ipc_endpoints s) slot g)"
proof -
  let ?R = "revoked_set (ipc_endpoints s) slot g"
  note inv = reachable_inv [OF assms(1)]
  obtain report where eq: "revoke s owner h = (Inr report, record_revocation report False
     (s\<lparr>ipc_endpoints := revoke_eps ?R (ipc_endpoints s)\<rparr>))"
    by (rule revoke_ok_eq [OF inv assms(2-5)])
  have "unat (rp_revoked report) = card ?R" by (rule revoke_report_card [OF inv assms(2-5) eq])
  moreover have "x \<notin> ?R" if "e \<in> set (ipc_endpoints s)" "m \<in> set (ep_messages (revoke_ep ?R e))"
    "decode_handle (msg_capability_handle m) = Some (k, x)" for e m k x
    using that es_weak_sized [OF ipc_inv_weak [OF inv] that(1)]
    by (auto simp: ring_list_strip ep_sized_def strip_msg_def split: option.splits if_splits)
  ultimately show ?thesis
    using eq active_revoke [of _ ?R "ipc_endpoints s"] by (auto simp: active_cap_def)
qed

theorem revoke_takes_the_branch_witness:
  "\<exists>report s'. revoke run_sent 1 0x302 = (Inr report, s')
    \<and> (\<forall>c. active_cap s' c \<longleftrightarrow>
          active_cap run_sent c \<and> cap_generation c \<notin> revoked_set (ipc_endpoints run_sent) 1 3)
    \<and> unat (rp_revoked report) = card (revoked_set (ipc_endpoints run_sent) 1 3)
    \<and> (\<forall>e \<in> set (ipc_endpoints s'). \<forall>m \<in> set (ep_messages e). \<forall>k x.
          decode_handle (msg_capability_handle m) = Some (k, x) \<longrightarrow>
          x \<notin> revoked_set (ipc_endpoints run_sent) 1 3)"
  by (rule revoke_takes_the_branch [OF run_sent_reachable run_sent_facts(1,3-5)])

text \<open>
  C12. After a successful revocation no task can use a handle to a capability of the revoked
  branch: for every owner, every slot and every right, \<open>resolve\<close> answers with an error.
\<close>

theorem revoked_handles_fail:
  assumes "ipc_reachable s" and "find_endpoint s owner = Some i"
    and "decode_handle h = Some (slot, g)" and "revoke s owner h = (Inr report, s')"
    and "decode_handle h' = Some (slot', g')"
    and "g' \<in> revoked_set (ipc_endpoints s) slot g"
  shows "\<exists>e. fst (resolve s' task h' required) = Inl e"
proof -
  note inv = reachable_inv [OF assms(1)]
  have live: "cap_active (ep_capabilities (ipc_endpoints s ! i) ! slot)"
    "cap_generation (ep_capabilities (ipc_endpoints s ! i) ! slot) = g"
    using assms(2-4) by (auto simp: revoke_def Let_def split: if_splits)
  have "s' = snd (revoke s owner h)" using assms(4) by simp
  then have inv': "ipc_inv s'" using revoke_inv [OF inv] by simp
  have es: "ipc_endpoints s' = revoke_eps (revoked_set (ipc_endpoints s) slot g) (ipc_endpoints s)"
    by (rule revoke_ok_eq [OF inv assms(2,3) live]) (use assms(4) in simp)
  show ?thesis
  proof (rule resolve_cases [OF inv', of task h' required], goal_cases denied granted)
    case (denied e t)
    then show ?case by simp
  next
    case (granted j k c)
    then have "cap_generation c = g'" using assms(5) by simp
    with granted active_revoke [of c "revoked_set (ipc_endpoints s) slot g" "ipc_endpoints s"] assms(6)
    show ?case by (simp add: es)
  qed
qed

theorem revoked_handles_fail_witness:
  "\<exists>e. fst (resolve (snd (revoke run_sent 1 0x302)) 2 0x402 SEND) = Inl e"
proof -
  have dec: "decode_handle 0x402 = Some (1, 4)" by code_simp
  obtain report s' where r: "revoke run_sent 1 0x302 = (Inr report, s')"
    by (rule revoke_ok_eq [OF reachable_inv [OF run_sent_reachable] run_sent_facts(1,3-5)])
  have "child (ipc_endpoints run_sent) 3 4" unfolding child_def by code_simp
  moreover have "3 \<in> set (active_generations (ipc_endpoints run_sent))" by code_simp
  ultimately have "4 \<in> revoked_set (ipc_endpoints run_sent) 1 3"
    by (auto simp: revoked_set_def branch_of_def descendants_def)
  from revoked_handles_fail [OF run_sent_reachable run_sent_facts(1,3) r dec this, of 2 SEND] r
  show ?thesis by simp
qed

text \<open>
  C13. Delegation only attenuates: a capability derived from another through any number of
  transfers names the same target, has no right the other lacks, and is deeper in the
  lineage, so the chains are bounded by the lineage limit.
\<close>

theorem delegation_attenuates:
  assumes "ipc_reachable s" and "active_cap s c" and "active_cap s d"
    and "(child (ipc_endpoints s))\<^sup>+\<^sup>+ (cap_generation c) (cap_generation d)"
  shows "cap_target d = cap_target c \<and> contains (cap_rights c) (cap_rights d)
    \<and> cap_lineage_depth c < cap_lineage_depth d
    \<and> cap_lineage_depth d \<le> MAX_CAPABILITY_LINEAGE_DEPTH"
proof -
  have weak: "es_weak (ipc_endpoints s)" by (rule ipc_inv_weak [OF reachable_inv [OF assms(1)]])
  have "cap_ok (ipc_endpoints s) c" "cap_ok (ipc_endpoints s) d"
    using weak assms(2,3) by (auto simp: es_weak_def active_cap_def)
  then show ?thesis
    using descendant_attenuated [OF weak assms(4)] assms(2,3)
    by (auto simp: active_cap_def cap_ok_def)
qed

lemma run_sent_capabilities:
  "active_cap run_sent \<lparr>cap_target = 2, cap_generation = 3, cap_parent_generation = 0,
     cap_lineage_depth = 0, cap_rights = SEND_DELEGATE, cap_active = True\<rparr>"
  "active_cap run_sent \<lparr>cap_target = 2, cap_generation = 4, cap_parent_generation = 3,
     cap_lineage_depth = 1, cap_rights = SEND, cap_active = True\<rparr>"
  "child (ipc_endpoints run_sent) 3 4"
  unfolding active_cap_def child_def by code_simp+

theorem delegation_attenuates_witness:
  "contains SEND_DELEGATE SEND \<and> (0 :: u8) < 1"
  using delegation_attenuates [OF run_sent_reachable run_sent_capabilities(1,2)]
    run_sent_capabilities(3) by auto

text \<open>
  Only the owner of a mailbox can receive from it: in every reachable state a capability
  with the receive right, however it was obtained, names the endpoint that holds it.
\<close>

theorem receive_confined:
  assumes "ipc_reachable s" and "e \<in> set (ipc_endpoints s)" and "c \<in> set (ep_capabilities e)"
    and "cap_active c" and "contains (cap_rights c) RECEIVE"
  shows "cap_target c = ep_owner e"
  using ipc_inv_weak [OF reachable_inv [OF assms(1)]] assms(2-5) by (auto simp: es_weak_def)

theorem receive_confined_witness:
  "cap_target (ep_capabilities (ipc_endpoints run_sent ! 1) ! 0) = ep_owner (ipc_endpoints run_sent ! 1)"
proof (rule receive_confined [OF run_sent_reachable])
  show "ipc_endpoints run_sent ! 1 \<in> set (ipc_endpoints run_sent)" by code_simp
  show "ep_capabilities (ipc_endpoints run_sent ! 1) ! 0
      \<in> set (ep_capabilities (ipc_endpoints run_sent ! 1))" by code_simp
  show "cap_active (ep_capabilities (ipc_endpoints run_sent ! 1) ! 0)" by code_simp
  show "contains (cap_rights (ep_capabilities (ipc_endpoints run_sent ! 1) ! 0)) RECEIVE" by code_simp
qed

section \<open>Transfers\<close>

text \<open>
  C14. A transfer that fails is atomic: whatever check stops \<open>send_with_capability\<close>, no
  capability table and no mailbox has changed.
\<close>

theorem transfer_failure_atomic:
  assumes "ipc_reachable s"
    and "fst (send_with_capability s sender dest transfer requested bytes) = Inl e"
  shows "ipc_endpoints (snd (send_with_capability s sender dest transfer requested bytes)) =
    ipc_endpoints s"
  by (rule try_send_with_capability_cases [OF reachable_inv [OF assms(1)],
        of sender dest transfer requested bytes])
    (use assms(2) in \<open>simp_all add: send_with_capability_def\<close>)

theorem transfer_failure_atomic_witness:
  "ipc_endpoints (snd (send_with_capability run_granted 1 0x302 0x302 ALL_RIGHTS [1])) =
    ipc_endpoints run_granted"
proof (rule transfer_failure_atomic [OF run_granted_reachable])
  show "fst (send_with_capability run_granted 1 0x302 0x302 ALL_RIGHTS [1]) = Inl RightsEscalation"
    by code_simp
qed

lemma find_endpoint_owners:
  assumes "map ep_owner (ipc_endpoints s') = map ep_owner (ipc_endpoints s)"
  shows "find_endpoint s' t = find_endpoint s t"
proof -
  have "position (\<lambda>e. f e = t) es = position (\<lambda>x. x = t) (map f es)" for f :: "Endpoint \<Rightarrow> u64" and es
    by (induction es) auto
  with assms show ?thesis by (simp add: find_endpoint_def)
qed

lemma resolve_new:
  assumes "find_endpoint s owner = Some i" and "decode_handle h = Some (slot, cap_generation c)"
    and "ep_capabilities (ipc_endpoints s ! i) ! slot = c" and "cap_active c"
    and "contains (cap_rights c) required" and "find_endpoint s (cap_target c) \<noteq> None"
  shows "resolve_capability s owner h required = (Inr c, s)"
  using assms by (auto simp: resolve_capability_def)

text \<open>The endpoints after a transfer: one more capability, the same owners.\<close>

lemma transfer_state:
  assumes "ipc_inv s" and "find_endpoint s receiver = Some i"
    and "new_capability (ipc_endpoints s) i slot c" and "ep_len (ipc_endpoints s ! i) < QUEUE_DEPTH"
    and "ipc_endpoints s' = (ipc_endpoints s)[i :=
      (snd (push (add_cap (ipc_endpoints s ! i) slot c) m))\<lparr>ep_waiting := False\<rparr>]"
  shows "find_endpoint s' t = find_endpoint s t"
    and "active_caps (ipc_endpoints s') = {#c#} + active_caps (ipc_endpoints s)"
    and "ep_capabilities (ipc_endpoints s' ! i) ! slot = c"
proof -
  let ?e = "ipc_endpoints s ! i"
  let ?e' = "(snd (push (add_cap ?e slot c) m))\<lparr>ep_waiting := False\<rparr>"
  have i: "i < length (ipc_endpoints s)" using find_endpoint_Some(2) [OF assms(1,2)] .
  have p: "ep_capabilities ?e' = (ep_capabilities ?e)[slot := c]" "ep_owner ?e' = ep_owner ?e"
    using assms(4) by (simp_all add: push_def Let_def)
  have "map ep_owner (ipc_endpoints s') = map ep_owner (ipc_endpoints s)"
    unfolding assms(5) by (rule map_update_same [OF i p(2)])
  then show "find_endpoint s' t = find_endpoint s t" by (rule find_endpoint_owners)
  have "map ep_capabilities (ipc_endpoints s') =
      map ep_capabilities ((ipc_endpoints s)[i := add_cap ?e slot c])"
    unfolding assms(5) map_update p(1) by simp
  then show "active_caps (ipc_endpoints s') = {#c#} + active_caps (ipc_endpoints s)"
    using new_capability_active [OF ipc_inv_weak [OF assms(1)] assms(3)]
    by (simp add: active_caps_def all_capabilities_def)
  have "slot < length (ep_capabilities ?e)"
    using assms(3) find_endpoint_Some(4) [OF assms(1,2)]
    by (simp add: new_capability_def ep_ok_def ep_sized_def)
  then show "ep_capabilities (ipc_endpoints s' ! i) ! slot = c"
    unfolding assms(5) nth_list_update_eq [OF i] p(1) by simp
qed

text \<open>
  C15. A transfer that succeeds gives the receiver exactly one new capability: the handle in
  the message resolves for the receiver, to the target of the sender's capability, with the
  requested rights, which the sender's capability has, and as a child of it. Nothing else
  is gained or lost.
\<close>

theorem transfer_confers:
  assumes "ipc_reachable s"
    and "send_with_capability s sender dest transfer requested bytes =
      (Inr (sequence, waiting, receiver, handle), s')"
  shows "\<exists>source c. resolve_capability s sender transfer DELEGATE = (Inr source, s)
    \<and> resolve_capability s' receiver handle requested = (Inr c, s')
    \<and> cap_target c = cap_target source \<and> cap_rights c = requested
    \<and> contains (cap_rights source) requested
    \<and> cap_parent_generation c = cap_generation source
    \<and> (\<forall>d. active_cap s' d \<longleftrightarrow> active_cap s d \<or> d = c)"
proof -
  note inv = reachable_inv [OF assms(1)] and weak = ipc_inv_weak [OF reachable_inv [OF assms(1)]]
  from assms(2) have run: "try_send_with_capability s sender dest transfer requested bytes =
      (Inr (sequence, waiting, receiver, handle), s')"
    by (auto simp: send_with_capability_def split: prod.splits sum.splits)
  show ?thesis
  proof (rule try_send_with_capability_cases [OF inv, of sender dest transfer requested bytes],
      goal_cases failed sent)
    case (failed e t)
    with run show ?case by simp
  next
    case (sent rc source depth i slot g t c m)
    from sent(1) run have eq: "t = s'" "rc = receiver" "handle = encode_handle slot g" by auto
    note state = transfer_state [OF inv sent(7,5,9,4), unfolded eq(1)]
    have slot: "slot < MAX_CAPABILITIES_PER_ENDPOINT" and ok: "cap_ok (ipc_endpoints s) c"
      using sent(5) by (auto simp: new_capability_def)
    have "decode_handle handle = Some (slot, cap_generation c)"
      using eq(3) sent(2) slot ok decode_encode_handle [of slot g] by (simp add: cap_ok_def ipc_consts)
    moreover have "find_endpoint s (cap_target source) \<noteq> None"
      by (rule resolve_capability_cases [OF inv, of sender transfer DELEGATE]) (use sent(11) in auto)
    ultimately have "resolve_capability s' receiver handle requested = (Inr c, s')"
      using state sent(2,7) eq(2) by (intro resolve_new) (auto simp: contains_def)
    moreover have "\<forall>d. active_cap s' d \<longleftrightarrow> active_cap s d \<or> d = c"
      unfolding active_cap_def set_active_caps [symmetric] state(2) by auto
    ultimately show ?case using sent(2,11,12) by auto
  qed
qed

theorem transfer_confers_witness:
  "\<exists>source c. resolve_capability run_granted 1 0x302 DELEGATE = (Inr source, run_granted)
    \<and> resolve_capability run_sent 2 0x402 SEND = (Inr c, run_sent)
    \<and> cap_target c = cap_target source \<and> cap_rights c = SEND
    \<and> contains (cap_rights source) SEND
    \<and> cap_parent_generation c = cap_generation source
    \<and> (\<forall>d. active_cap run_sent d \<longleftrightarrow> active_cap run_granted d \<or> d = c)"
proof (rule transfer_confers [OF run_granted_reachable])
  have "fst (send_with_capability run_granted 1 0x302 0x302 SEND [1, 2, 3]) = Inr (1, False, 2, 0x402)"
    by code_simp
  then show "send_with_capability run_granted 1 0x302 0x302 SEND [1, 2, 3] =
      (Inr (1, False, 2, 0x402), run_sent)"
    by (simp add: run_sent_def prod_eq_iff)
qed

end
