(* ===== verification/Ipc_Selftest.thy ===== *)
theory Ipc_Selftest
  imports Ipc "HOL-Library.State_Monad"
begin

text \<open>
  The statistics of the IPC component (\<open>snapshot\<close>), its error names, and the self test the
  kernel runs at boot: \<open>model_selftest\<close>, \<open>transfer_model_selftest\<close> and
  \<open>revocation_tree_model_selftest\<close> of \<^verbatim>\<open>src/src/ipc.rs\<close>. The test threads one state through many
  calls, so it is written in the state monad; the kernel evaluates it here as well.
\<close>

section \<open>Statistics and names\<close>

record Snapshot =
  sn_initialized :: bool
  sn_endpoint_capacity :: u64
  sn_active_endpoints :: u64
  sn_queue_depth :: u64
  sn_max_message_bytes :: u64
  sn_queued_messages :: u64
  sn_waiting_receivers :: u64
  sn_endpoints_created :: u64
  sn_endpoints_destroyed :: u64
  sn_messages_sent :: u64
  sn_messages_received :: u64
  sn_blocked_receives :: u64
  sn_receiver_wakeups :: u64
  sn_queue_full_events :: u64
  sn_dropped_on_cleanup :: u64
  sn_last_sequence :: u64
  sn_capability_slots_per_endpoint :: u64
  sn_active_capabilities :: u64
  sn_capabilities_granted :: u64
  sn_capabilities_revoked :: u64
  sn_capabilities_revoked_on_cleanup :: u64
  sn_capability_denials :: u64
  sn_stale_capability_denials :: u64
  sn_last_capability_generation :: u64
  sn_cancellation_requests :: u64
  sn_cancellation_successes :: u64
  sn_capability_transfers :: u64
  sn_capability_transfer_failures :: u64
  sn_rights_attenuations :: u64
  sn_last_transferred_rights :: u64
  sn_revocation_trees :: u64
  sn_cascade_revocations :: u64
  sn_descendant_revocations :: u64
  sn_queued_capabilities_stripped :: u64
  sn_last_revocation_size :: u64

text \<open>The loop of \<open>snapshot\<close>: active endpoints, queued messages, waiting receivers and
  active capabilities of the owned endpoints.\<close>

fun snapshot_counts :: "Endpoint list \<Rightarrow> u64 \<times> u64 \<times> u64 \<times> u64 \<Rightarrow> u64 \<times> u64 \<times> u64 \<times> u64" where
  "snapshot_counts [] acc = acc"
| "snapshot_counts (endpoint # es) (active_endpoints, queued_messages, waiting_receivers, active_capabilities) =
     (if ep_owner endpoint = 0
      then snapshot_counts es (active_endpoints, queued_messages, waiting_receivers, active_capabilities)
      else snapshot_counts es
        (sat_add active_endpoints 1,
         sat_add queued_messages (of_nat (ep_len endpoint)),
         (if ep_waiting endpoint then sat_add waiting_receivers 1 else waiting_receivers),
         sat_add active_capabilities
           (of_nat (length (filter cap_active (ep_capabilities endpoint))))))"

definition snapshot :: "IpcState \<Rightarrow> Snapshot" where
  "snapshot s =
     (case snapshot_counts (ipc_endpoints s) (0, 0, 0, 0) of
        (active_endpoints, queued_messages, waiting_receivers, active_capabilities) \<Rightarrow> \<lparr>
     sn_initialized = ipc_initialized s,
     sn_endpoint_capacity = of_nat MAX_ENDPOINTS,
     sn_active_endpoints = active_endpoints,
     sn_queue_depth = of_nat QUEUE_DEPTH,
     sn_max_message_bytes = of_nat MAX_MESSAGE_BYTES,
     sn_queued_messages = queued_messages,
     sn_waiting_receivers = waiting_receivers,
     sn_endpoints_created = endpoints_created s,
     sn_endpoints_destroyed = endpoints_destroyed s,
     sn_messages_sent = messages_sent s,
     sn_messages_received = messages_received s,
     sn_blocked_receives = blocked_receives s,
     sn_receiver_wakeups = receiver_wakeups s,
     sn_queue_full_events = queue_full_events s,
     sn_dropped_on_cleanup = dropped_on_cleanup s,
     sn_last_sequence = last_sequence s,
     sn_capability_slots_per_endpoint = of_nat MAX_CAPABILITIES_PER_ENDPOINT,
     sn_active_capabilities = active_capabilities,
     sn_capabilities_granted = capabilities_granted s,
     sn_capabilities_revoked = capabilities_revoked s,
     sn_capabilities_revoked_on_cleanup = capabilities_revoked_on_cleanup s,
     sn_capability_denials = capability_denials s,
     sn_stale_capability_denials = stale_capability_denials s,
     sn_last_capability_generation = last_capability_generation s,
     sn_cancellation_requests = cancellation_requests s,
     sn_cancellation_successes = cancellation_successes s,
     sn_capability_transfers = capability_transfers s,
     sn_capability_transfer_failures = capability_transfer_failures s,
     sn_rights_attenuations = rights_attenuations s,
     sn_last_transferred_rights = last_transferred_rights s,
     sn_revocation_trees = revocation_trees s,
     sn_cascade_revocations = cascade_revocations s,
     sn_descendant_revocations = descendant_revocations s,
     sn_queued_capabilities_stripped = queued_capabilities_stripped s,
     sn_last_revocation_size = last_revocation_size s\<rparr>)"

fun error_name :: "IpcError \<Rightarrow> string" where
  "error_name NotInitialized = ''not initialized''"
| "error_name InvalidTask = ''invalid task''"
| "error_name EndpointCapacity = ''endpoint capacity''"
| "error_name EndpointMissing = ''endpoint missing''"
| "error_name MessageTooLarge = ''message too large''"
| "error_name QueueFull = ''queue full''"
| "error_name QueueEmpty = ''queue empty''"
| "error_name BufferTooSmall = ''buffer too small''"
| "error_name BlockFailed = ''block failed''"
| "error_name WakeFailed = ''wake failed''"
| "error_name CapabilityCapacity = ''capability capacity''"
| "error_name InvalidCapability = ''invalid capability''"
| "error_name StaleCapability = ''stale capability''"
| "error_name PermissionDenied = ''permission denied''"
| "error_name InvalidRights = ''invalid capability rights''"
| "error_name Timeout = ''receive timeout''"
| "error_name Cancelled = ''receive cancelled''"
| "error_name NotWaiting = ''receiver is not waiting''"
| "error_name RightsEscalation = ''capability rights escalation''"
| "error_name LineageDepthExceeded = ''capability lineage depth exceeded''"

section \<open>The self test\<close>

type_synonym 'a ipc_m = "(IpcState, 'a) state"

definition ipc_op :: "(IpcState \<Rightarrow> 'a \<times> IpcState) \<Rightarrow> 'a ipc_m" where
  "ipc_op f = State f"

definition ipc_ask :: "(IpcState \<Rightarrow> 'a) \<Rightarrow> 'a ipc_m" where
  "ipc_ask f = State (\<lambda>s. (f s, s))"

text \<open>\<open>Result::and_then\<close>, \<open>is_ok\<close>, and \<open>receive\<close> with its buffer.\<close>

definition and_then :: "IpcError + 'a \<Rightarrow> ('a \<Rightarrow> (IpcError + 'b) ipc_m) \<Rightarrow> (IpcError + 'b) ipc_m" where
  "and_then r f = (case r of Inl e \<Rightarrow> State_Monad.return (Inl e) | Inr x \<Rightarrow> f x)"

definition result_is_ok :: "IpcError + 'a \<Rightarrow> bool" where "result_is_ok r = (case r of Inl _ \<Rightarrow> False | Inr _ \<Rightarrow> True)"

definition receive_op :: "u64 \<Rightarrow> u8 list \<Rightarrow> ((IpcError + Delivery) \<times> u8 list) ipc_m" where
  "receive_op receiver output =
     ipc_op (\<lambda>s. case receive s receiver output of (r, out, s1) \<Rightarrow> ((r, out), s1))"

text \<open>\<open>let Ok(x) = r else \<open>return false\<close>\<close>.\<close>

definition let_ok :: "IpcError + 'a \<Rightarrow> ('a \<Rightarrow> bool ipc_m) \<Rightarrow> bool ipc_m" where
  "let_ok r f = (case r of Inl _ \<Rightarrow> State_Monad.return False | Inr x \<Rightarrow> f x)"

definition model_selftest_body :: "bool ipc_m" where
  "model_selftest_body = do {
     _ \<leftarrow> ipc_op (\<lambda>s. ((), ipc_init s));
     registered1 \<leftarrow> ipc_op (\<lambda>s. register s 1);
     registered2 \<leftarrow> (if result_is_ok registered1 then ipc_op (\<lambda>s. register s 2)
                    else State_Monad.return registered1);
     self_cap \<leftarrow> ipc_ask (\<lambda>s. self_capability s 1);
     send_cap \<leftarrow> ipc_op (\<lambda>s. grant s 1 2 SEND);
     receive_only \<leftarrow> ipc_op (\<lambda>s. grant s 1 1 RECEIVE);
     cancel_cap \<leftarrow> ipc_op (\<lambda>s. grant s 1 2 CANCEL);
     cancel_resolved \<leftarrow> and_then cancel_cap (\<lambda>handle. ipc_op (\<lambda>s. resolve s 1 handle CANCEL));
     sent \<leftarrow> and_then send_cap (\<lambda>handle. ipc_op (\<lambda>s. send_capability s 1 handle (ascii ''ping'')));
     (received, output) \<leftarrow> receive_op 2 (replicate MAX_MESSAGE_BYTES 0);
     denied \<leftarrow> and_then receive_only
       (\<lambda>handle. ipc_op (\<lambda>s. send_capability s 1 handle (ascii ''denied'')));
     revoked \<leftarrow> and_then send_cap
       (\<lambda>handle. ipc_op (\<lambda>s. case revoke s 1 handle of
            (Inl e, s1) \<Rightarrow> (Inl e, s1) | (Inr _, s1) \<Rightarrow> (Inr handle, s1)));
     stale \<leftarrow> and_then revoked
       (\<lambda>handle. ipc_op (\<lambda>s. send_capability s 1 handle (ascii ''stale'')));
     if registered2 = Inr () \<and> result_is_ok self_cap \<and> sent = Inr (1, False, 2)
        \<and> (case received of Inl _ \<Rightarrow> False
            | Inr d \<Rightarrow> dl_sender d = 1 \<and> dl_length d = 4 \<and> dl_sequence d = 1)
        \<and> take 4 output = ascii ''ping'' \<and> denied = Inl PermissionDenied
        \<and> stale = Inl StaleCapability \<and> cancel_resolved = Inr 2
     then do {
       gone1 \<leftarrow> ipc_op (\<lambda>s. unregister s 1);
       gone2 \<leftarrow> (if result_is_ok gone1 then ipc_op (\<lambda>s. unregister s 2) else State_Monad.return gone1);
       ipc_ask (\<lambda>s. result_is_ok gone2 \<and> sn_active_endpoints (snapshot s) = 0 \<and> invariants s)
     }
     else State_Monad.return False
   }"

text \<open>
  The three registrations, the two loops over the queue and the loop that fills the
  capability table. The last one ends after at most as many rounds as an endpoint has slots,
  since every grant takes one; an exhausted fuel fails the test.
\<close>

definition register_three :: "bool ipc_m" where
  "register_three = do {
     _ \<leftarrow> ipc_op (\<lambda>s. ((), ipc_init s));
     r1 \<leftarrow> ipc_op (\<lambda>s. register s 1);
     let_ok r1 (\<lambda>_. do {
       r2 \<leftarrow> ipc_op (\<lambda>s. register s 2);
       let_ok r2 (\<lambda>_. do {
         r3 \<leftarrow> ipc_op (\<lambda>s. register s 3);
         let_ok r3 (\<lambda>_. State_Monad.return True) }) }) }"

primrec send_indexes :: "u64 \<Rightarrow> nat list \<Rightarrow> bool ipc_m" where
  "send_indexes destination [] = State_Monad.return True"
| "send_indexes destination (index # indexes) = do {
     r \<leftarrow> ipc_op (\<lambda>s. send_capability s 1 destination [of_nat index]);
     let_ok r (\<lambda>_. send_indexes destination indexes) }"

primrec receive_times :: "nat \<Rightarrow> u8 list \<Rightarrow> bool ipc_m" where
  "receive_times 0 output = State_Monad.return True"
| "receive_times (Suc n) output = do {
     (r, output1) \<leftarrow> receive_op 2 output;
     let_ok r (\<lambda>_. receive_times n output1) }"

primrec fill_table :: "nat \<Rightarrow> bool ipc_m" where
  "fill_table 0 = State_Monad.return False"
| "fill_table (Suc fuel) = do {
     free \<leftarrow> ipc_ask (\<lambda>s. list_ex (\<lambda>c. \<not> cap_active c) (ep_capabilities
              (ipc_endpoints s ! (case find_endpoint s 2 of None \<Rightarrow> 0 | Some i \<Rightarrow> i))));
     if \<not> free then State_Monad.return True
     else do {
       r \<leftarrow> ipc_op (\<lambda>s. grant s 2 3 SEND);
       let_ok r (\<lambda>_. fill_table fuel) } }"

definition let_true :: "bool ipc_m \<Rightarrow> bool ipc_m \<Rightarrow> bool ipc_m" where
  "let_true m k = do { b \<leftarrow> m; if b then k else State_Monad.return False }"

text \<open>The first half of \<open>transfer_model_selftest\<close>: the checks named \<open>attenuated\<close>,
  \<open>delegation_denied\<close> and \<open>escalation_denied\<close>.\<close>

definition transfer_checks :: "u64 \<Rightarrow> u64 \<Rightarrow> bool ipc_m \<Rightarrow> bool ipc_m" where
  "transfer_checks destination source rest = do {
     sent \<leftarrow> ipc_op (\<lambda>s. send_with_capability s 1 destination source SEND (ascii ''grant''));
     let_ok sent (\<lambda>(sequence, waiting, receiver, _). do {
       (received, output) \<leftarrow> receive_op 2 (replicate MAX_MESSAGE_BYTES 0);
       let_ok received (\<lambda>delivery. do {
         can_send \<leftarrow> ipc_op (\<lambda>s. resolve s 2 (dl_capability_handle delivery) SEND);
         can_cancel \<leftarrow> ipc_op (\<lambda>s. resolve s 2 (dl_capability_handle delivery) CANCEL);
         delegated \<leftarrow> ipc_op (\<lambda>s. send_with_capability s 1 destination destination SEND
                              (ascii ''delegate''));
         escalated \<leftarrow> ipc_op (\<lambda>s. send_with_capability s 1 destination source SEND_CANCEL
                              (ascii ''escalate''));
         checked \<leftarrow> rest;
         State_Monad.return (checked \<and> sequence = 1 \<and> \<not> waiting \<and> receiver = 2
           \<and> dl_capability_handle delivery \<noteq> 0 \<and> dl_capability_rights delivery = SEND
           \<and> can_send = Inr 3 \<and> can_cancel = Inl PermissionDenied
           \<and> take 5 output = ascii ''grant''
           \<and> delegated = Inl PermissionDenied \<and> escalated = Inl RightsEscalation) }) }) }"

text \<open>The second half: \<open>queue_full_atomic\<close>, \<open>table_full_atomic\<close> and the final counters.\<close>

definition transfer_limits :: "u64 \<Rightarrow> u64 \<Rightarrow> bool ipc_m" where
  "transfer_limits destination source =
     let_true (send_indexes destination [0..<QUEUE_DEPTH]) (do {
       caps_before \<leftarrow> ipc_ask (\<lambda>s. sn_active_capabilities (snapshot s));
       full \<leftarrow> ipc_op (\<lambda>s. send_with_capability s 1 destination source SEND (ascii ''full''));
       caps_after \<leftarrow> ipc_ask (\<lambda>s. sn_active_capabilities (snapshot s));
       let_true (receive_times QUEUE_DEPTH (replicate MAX_MESSAGE_BYTES 0))
         (let_true (fill_table (MAX_CAPABILITIES_PER_ENDPOINT + 1)) (do {
           queued_before \<leftarrow> ipc_ask (\<lambda>s. sn_queued_messages (snapshot s));
           no_slot \<leftarrow> ipc_op (\<lambda>s. send_with_capability s 1 destination source SEND
                                (ascii ''no-slot''));
           ipc_ask (\<lambda>s. full = Inl QueueFull \<and> caps_after = caps_before
             \<and> no_slot = Inl CapabilityCapacity
             \<and> sn_queued_messages (snapshot s) = queued_before
             \<and> sn_capability_transfers (snapshot s) = 1
             \<and> sn_rights_attenuations (snapshot s) = 1
             \<and> sn_capability_transfer_failures (snapshot s) = 4
             \<and> invariants s) })) })"

definition transfer_model_selftest_body :: "bool ipc_m" where
  "transfer_model_selftest_body = let_true register_three (do {
     destination_result \<leftarrow> ipc_op (\<lambda>s. grant s 1 2 SEND);
     let_ok destination_result (\<lambda>destination. do {
       source_result \<leftarrow> ipc_op (\<lambda>s. grant s 1 3 SEND_DELEGATE);
       let_ok source_result (\<lambda>source.
         transfer_checks destination source (transfer_limits destination source)) }) })"

definition transfer_model_selftest :: bool where
  "transfer_model_selftest = fst (run_state transfer_model_selftest_body IpcState_new)"

lemma transfer_model_selftest_True: "transfer_model_selftest"
  by code_simp

text \<open>
  \<open>revocation_tree_model_selftest\<close>, one definition per scenario. \<open>cascade_check\<close> returns the
  value of \<open>queued_revoke_safe\<close> and \<open>descendants_stale\<close>.
\<close>

definition cascade_check :: "u64 \<Rightarrow> u64 \<Rightarrow> bool ipc_m" where
  "cascade_check destination root = do {
     r \<leftarrow> ipc_op (\<lambda>s. send_with_capability s 1 destination root SEND_DELEGATE (ascii ''child''));
     let_ok r (\<lambda>_. do {
       (d, output) \<leftarrow> receive_op 2 (replicate MAX_MESSAGE_BYTES 0);
       let_ok d (\<lambda>child_delivery. do {
         leaf \<leftarrow> ipc_op (\<lambda>s. send_with_capability s 2 (dl_capability_handle child_delivery)
                       (dl_capability_handle child_delivery) SEND (ascii ''leaf''));
         let_ok leaf (\<lambda>(_, _, _, grandchild). do {
           cascade_result \<leftarrow> ipc_op (\<lambda>s. revoke s 1 root);
           let_ok cascade_result (\<lambda>cascade. do {
             (d3, output3) \<leftarrow> receive_op 3 output;
             let_ok d3 (\<lambda>stripped. do {
               stale_child \<leftarrow> ipc_op (\<lambda>s. send_capability s 2 (dl_capability_handle child_delivery)
                                     (ascii ''stale''));
               stale_grandchild \<leftarrow> ipc_op (\<lambda>s. send_capability s 3 grandchild (ascii ''stale''));
               State_Monad.return (rp_revoked cascade = 3 \<and> rp_descendants cascade = 2
                 \<and> rp_queued_stripped cascade = 1 \<and> dl_capability_handle stripped = 0
                 \<and> dl_capability_rights stripped = 0 \<and> take 4 output3 = ascii ''leaf''
                 \<and> stale_child = Inl StaleCapability
                 \<and> stale_grandchild = Inl StaleCapability) }) }) }) }) }) }"

definition revoke_before_send_check :: "u64 \<Rightarrow> bool ipc_m" where
  "revoke_before_send_check destination = do {
     r \<leftarrow> ipc_op (\<lambda>s. grant s 1 3 SEND_DELEGATE);
     let_ok r (\<lambda>revoke_first. do {
       revoked \<leftarrow> ipc_op (\<lambda>s. revoke s 1 revoke_first);
       if result_is_ok revoked then do {
         late \<leftarrow> ipc_op (\<lambda>s. send_with_capability s 1 destination revoke_first SEND (ascii ''late''));
         State_Monad.return (late = Inl StaleCapability) }
       else State_Monad.return False }) }"

text \<open>A capability that was received before its root is revoked, for the rights of the root,
  the requested rights, and the test of the received handle afterwards.\<close>

definition receive_before_revoke_check ::
    "u64 \<Rightarrow> CapabilityRights \<Rightarrow> CapabilityRights \<Rightarrow> u8 list \<Rightarrow> (u64 \<Rightarrow> bool ipc_m) \<Rightarrow> bool ipc_m" where
  "receive_before_revoke_check destination root_rights requested text test = do {
     r \<leftarrow> ipc_op (\<lambda>s. grant s 1 3 root_rights);
     let_ok r (\<lambda>root. do {
       sent \<leftarrow> ipc_op (\<lambda>s. send_with_capability s 1 destination root requested text);
       let_ok sent (\<lambda>_. do {
         (d, output) \<leftarrow> receive_op 2 (replicate MAX_MESSAGE_BYTES 0);
         let_ok d (\<lambda>delivery. do {
           revoked \<leftarrow> ipc_op (\<lambda>s. revoke s 1 root);
           if result_is_ok revoked then test (dl_capability_handle delivery)
           else State_Monad.return False }) }) }) }"

definition self_root_check :: "u64 \<Rightarrow> bool ipc_m" where
  "self_root_check destination = do {
     r \<leftarrow> ipc_ask (\<lambda>s. self_capability s 1);
     let_ok r (\<lambda>self_root. do {
       sent \<leftarrow> ipc_op (\<lambda>s. send_with_capability s 1 destination self_root SEND (ascii ''self''));
       let_ok sent (\<lambda>_. do {
         (d, output) \<leftarrow> receive_op 2 (replicate MAX_MESSAGE_BYTES 0);
         let_ok d (\<lambda>delivery. do {
           self_report \<leftarrow> ipc_op (\<lambda>s. revoke s 1 self_root);
           self_after \<leftarrow> ipc_ask (\<lambda>s. self_capability s 1);
           stale \<leftarrow> ipc_op (\<lambda>s. send_capability s 2 (dl_capability_handle delivery) (ascii ''stale''));
           State_Monad.return ((case self_report of Inl _ \<Rightarrow> False
               | Inr report \<Rightarrow> rp_revoked report = 1 \<and> rp_descendants report = 1)
             \<and> self_after = Inr self_root \<and> stale = Inl StaleCapability) }) }) }) }"

definition revocation_tree_model_selftest_body :: "bool ipc_m" where
  "revocation_tree_model_selftest_body = let_true register_three (do {
     destination_result \<leftarrow> ipc_op (\<lambda>s. grant s 1 2 SEND);
     let_ok destination_result (\<lambda>destination. do {
       root_result \<leftarrow> ipc_op (\<lambda>s. grant s 1 3 SEND_CANCEL_DELEGATE);
       let_ok root_result (\<lambda>root.
         let_true (cascade_check destination root)
         (let_true (revoke_before_send_check destination)
         (let_true (receive_before_revoke_check destination SEND_DELEGATE SEND (ascii ''early'')
             (\<lambda>handle. do {
               stale \<leftarrow> ipc_op (\<lambda>s. send_capability s 2 handle (ascii ''stale''));
               State_Monad.return (stale = Inl StaleCapability) }))
         (let_true (receive_before_revoke_check destination CANCEL_DELEGATE CANCEL (ascii ''cancel'')
             (\<lambda>handle. do {
               stale \<leftarrow> ipc_op (\<lambda>s. resolve s 2 handle CANCEL);
               State_Monad.return (stale = Inl StaleCapability) }))
         (let_true (self_root_check destination)
           (ipc_ask (\<lambda>s. 4 \<le> sn_cascade_revocations (snapshot s)
              \<and> 5 \<le> sn_descendant_revocations (snapshot s)
              \<and> 1 \<le> sn_queued_capabilities_stripped (snapshot s)
              \<and> invariants s))))))) }) })"

definition revocation_tree_model_selftest :: bool where
  "revocation_tree_model_selftest =
     fst (run_state revocation_tree_model_selftest_body IpcState_new)"

lemma revocation_tree_model_selftest_True: "revocation_tree_model_selftest"
  by code_simp

definition model_selftest :: bool where
  "model_selftest \<longleftrightarrow> fst (run_state model_selftest_body IpcState_new)
     \<and> transfer_model_selftest \<and> revocation_tree_model_selftest"

definition selftest :: "IpcState \<Rightarrow> bool" where
  "selftest s \<longleftrightarrow> invariants s \<and> model_selftest"

lemma model_selftest_body_True: "fst (run_state model_selftest_body IpcState_new)"
  by code_simp

lemma model_selftest_True: "model_selftest"
  using model_selftest_body_True transfer_model_selftest_True revocation_tree_model_selftest_True
  by (simp add: model_selftest_def)

end
