(* ===== verification/Ipc_Lifecycle.thy ===== *)
theory Ipc_Lifecycle
  imports Ipc_Properties Ipc_Selftest
begin

unbundle bit_operations_syntax

text \<open>
  Messages from sender to receiver, and the life of an endpoint from registration to
  clean-up, over the reachable states.
\<close>

section \<open>Receiving\<close>

lemma can_receive_owner:
  assumes "ipc_inv s" and "t \<noteq> 0" and "find_endpoint s t = Some i"
  shows "can_receive s t = (Inr (), s)"
proof -
  let ?c = "ep_capabilities (ipc_endpoints s ! i) ! 0"
  note i = find_endpoint_Some [OF assms(1,3)]
  have inv: "es_inv (ipc_endpoints s)" using assms(1) by (simp add: ipc_inv_def)
  note self = self_capability_active [OF inv i(2)]
  have valid: "cap_active ?c" "cap_target ?c = t" "contains (cap_rights ?c) SEND_RECEIVE"
    using self(2) i(3) assms(2) by (simp_all add: self_capability_valid_def Let_def)
  have "cap_ok (ipc_endpoints s) ?c"
    using self(1) i(3) assms(2) valid(1) inv by (simp add: es_inv_def es_weak_def)
  then have dec: "decode_handle (encode_handle 0 (cap_generation ?c)) = Some (0, cap_generation ?c)"
    using decode_encode_handle [of 0 "cap_generation ?c"] by (simp add: cap_ok_def)
  have "contains SEND_RECEIVE RECEIVE" by (simp add: contains_def rights_defs)
  with valid(3) have "contains (cap_rights ?c) RECEIVE" by (rule contains_trans)
  with dec valid assms(3) have "resolve_capability s t (encode_handle 0 (cap_generation ?c)) RECEIVE
      = (Inr ?c, s)" by (intro resolve_new) auto
  with valid assms(3) show ?thesis
    by (simp add: can_receive_def self_capability_def resolve_def Let_def)
qed

definition delivery_of :: "Message \<Rightarrow> Delivery" where
  "delivery_of m = \<lparr>dl_sender = msg_sender m, dl_length = of_nat (msg_length m),
     dl_sequence = msg_sequence m, dl_capability_handle = msg_capability_handle m,
     dl_capability_rights = msg_capability_rights m\<rparr>"

lemma receive_spec:
  assumes inv: "ipc_inv s" and "t \<noteq> 0" and "find_endpoint s t = Some i"
  shows "case ep_messages (ipc_endpoints s ! i) of
      [] \<Rightarrow> receive s t buffer = (Inl QueueEmpty, buffer, s)
    | m # ms \<Rightarrow>
        if length buffer < msg_length m then receive s t buffer = (Inl BufferTooSmall, buffer, s)
        else \<exists>s'. receive s t buffer =
            (Inr (delivery_of m),
             take (msg_length m) (msg_bytes m) @ drop (msg_length m) buffer, s')
          \<and> ep_messages (ipc_endpoints s' ! i) = ms
          \<and> (\<forall>j. j \<noteq> i \<longrightarrow> ipc_endpoints s' ! j = ipc_endpoints s ! j)
          \<and> (\<forall>c. active_cap s' c \<longleftrightarrow> active_cap s c)"
proof -
  note i = find_endpoint_Some [OF inv assms(3)] and can = can_receive_owner [OF inv assms(2,3)]
  let ?e = "ipc_endpoints s ! i"
  have box: "mailbox_ok ?e" using i(4) by (simp add: ep_ok_def ep_sized_mailbox)
  show ?thesis
  proof (cases "ep_messages ?e")
    case Nil
    then show ?thesis using can assms(3) front_eq [OF box] by (simp add: receive_def)
  next
    case (Cons m ms)
    obtain e' where pop: "pop ?e = (Some m, e')"
      using pop_ok(1) [OF box Cons] by (metis prod.collapse)
    note p = pop_ok [OF box Cons, unfolded pop snd_conv]
    let ?s = "(set_endpoint s i e')\<lparr>messages_received := sat_add (messages_received s) 1\<rparr>"
    have run: "receive s t buffer = (Inr (delivery_of m),
        take (msg_length m) (msg_bytes m) @ drop (msg_length m) buffer, ?s)"
      if "\<not> length buffer < msg_length m"
      using that can assms(3) front_eq [OF box] Cons pop
      by (simp add: receive_def delivery_of_def Let_def set_endpoint_def)
    have "map ep_capabilities ((ipc_endpoints s)[i := e']) = map ep_capabilities (ipc_endpoints s)"
      by (rule map_update_same [OF i(2) p(5)])
    then have "active_cap ?s c = active_cap s c" for c
      by (simp add: active_cap_def all_capabilities_def)
    then show ?thesis
      using Cons run can assms(3) front_eq [OF box] p(2) i(2) by (auto simp: receive_def)
  qed
qed

text \<open>
  C16. \<open>receive\<close> on every branch: an empty mailbox answers \<open>QueueEmpty\<close>, a buffer shorter than
  the oldest message answers \<open>BufferTooSmall\<close>, both without any change; otherwise the oldest
  message is delivered, its bytes are copied to the front of the buffer, the rest of the
  buffer stays, and the mailbox keeps the other messages in order.
\<close>

theorem receive_oldest:
  assumes "ipc_reachable s" and "t \<noteq> 0" and "find_endpoint s t = Some i"
  shows "case ep_messages (ipc_endpoints s ! i) of
      [] \<Rightarrow> receive s t output = (Inl QueueEmpty, output, s)
    | m # ms \<Rightarrow>
        if length output < msg_length m then receive s t output = (Inl BufferTooSmall, output, s)
        else \<exists>s'. receive s t output =
            (Inr (delivery_of m),
             take (msg_length m) (msg_bytes m) @ drop (msg_length m) output, s')
          \<and> ep_messages (ipc_endpoints s' ! i) = ms
          \<and> (\<forall>j. j \<noteq> i \<longrightarrow> ipc_endpoints s' ! j = ipc_endpoints s ! j)
          \<and> (\<forall>c. active_cap s' c \<longleftrightarrow> active_cap s c)"
  by (rule receive_spec [OF reachable_inv [OF assms(1)] assms(2,3)])

theorem receive_oldest_witness:
  "\<exists>s'. receive run_sent 2 (replicate 64 0) =
      (Inr (delivery_of (make_message 1 1 0x402 SEND [1, 2, 3])), [1, 2, 3] @ replicate 61 0, s')
    \<and> ep_messages (ipc_endpoints s' ! 1) = []"
proof -
  have one: "ep_messages (ipc_endpoints run_sent ! 1) = [make_message 1 1 0x402 SEND [1, 2, 3]]"
    by code_simp
  have "msg_length (make_message 1 1 0x402 SEND [1, 2, 3]) = 3"
    "take 3 (msg_bytes (make_message 1 1 0x402 SEND [1, 2, 3])) = [1, 2, 3]"
    by (simp_all add: make_message_def)
  with receive_oldest [OF run_sent_reachable _ run_sent_facts(2), of "replicate 64 0"] one
  show ?thesis by auto
qed

text \<open>
  A message arrives as it was sent: after \<open>send\<close> into an empty mailbox, the receiver gets
  the sender's number, the sequence number that \<open>send\<close> returned, no capability, and the bytes
  unchanged, and its mailbox is empty again.
\<close>

theorem send_then_receive:
  assumes "ipc_reachable s" and "receiver \<noteq> 0" and "find_endpoint s receiver = Some i"
    and "find_endpoint s sender \<noteq> None" and "ep_len (ipc_endpoints s ! i) = 0"
    and "length bytes \<le> MAX_MESSAGE_BYTES" and "length bytes \<le> length output"
  shows "\<exists>s1 s2 waiting. send s sender receiver bytes = (Inr (next_sequence s, waiting), s1)
    \<and> receive s1 receiver output =
        (Inr \<lparr>dl_sender = sender, dl_length = of_nat (length bytes), dl_sequence = next_sequence s,
              dl_capability_handle = 0, dl_capability_rights = 0\<rparr>,
         bytes @ drop (length bytes) output, s2)
    \<and> ep_messages (ipc_endpoints s2 ! i) = []"
proof -
  note inv = reachable_inv [OF assms(1)]
  note i = find_endpoint_Some [OF inv assms(3)]
  let ?e = "(ipc_endpoints s ! i)\<lparr>ep_waiting := False\<rparr>"
  let ?m = "make_message sender (next_sequence s) 0 0 bytes"
  define s1 where "s1 = snd (send s sender receiver bytes)"
  have init: "ipc_initialized s" and room: "ep_len (ipc_endpoints s ! i) < QUEUE_DEPTH"
    using inv assms(5) by (simp_all add: ipc_inv_def ipc_consts)
  note sent = send_ok_eq [OF init assms(6,4,3) room]
  have box: "mailbox_ok ?e" using i(4) by (simp add: ep_ok_def ep_sized_def mailbox_ok_def)
  have reach: "ipc_reachable s1" unfolding s1_def by (rule reachable_step [OF assms(1) step_send])
  have es: "ipc_endpoints s1 = (ipc_endpoints s)[i := snd (push ?e ?m)]" unfolding s1_def by (rule sent(2))
  have "map ep_owner (ipc_endpoints s1) = map ep_owner (ipc_endpoints s)"
    unfolding es by (rule map_update_same [OF i(2)]) (use push_ok(4) [OF box] room in simp)
  then have find: "find_endpoint s1 receiver = Some i" using find_endpoint_owners assms(3) by metis
  have msgs: "ep_messages (ipc_endpoints s1 ! i) = [?m]"
    using push_ok(2) [OF box, of ?m] room assms(5) i(2) by (simp add: es)
  have m: "msg_length ?m = length bytes" "take (length bytes) (msg_bytes ?m) = bytes"
    by (simp_all add: make_message_def)
  obtain s2 where "receive s1 receiver output =
      (Inr (delivery_of ?m), bytes @ drop (length bytes) output, s2)"
    "ep_messages (ipc_endpoints s2 ! i) = []"
    using receive_spec [OF reachable_inv [OF reach] assms(2) find, of "output"]
      msgs m assms(7) by auto
  moreover have "delivery_of ?m = \<lparr>dl_sender = sender, dl_length = of_nat (length bytes),
      dl_sequence = next_sequence s, dl_capability_handle = 0, dl_capability_rights = 0\<rparr>"
    by (simp add: delivery_of_def make_message_def)
  moreover have "send s sender receiver bytes =
      (Inr (next_sequence s, ep_waiting (ipc_endpoints s ! i)), s1)"
    using sent(1) by (simp add: prod_eq_iff s1_def)
  ultimately show ?thesis by auto
qed

theorem send_then_receive_witness:
  "\<exists>s1 s2 waiting. send run_granted 1 2 [7, 8] = (Inr (next_sequence run_granted, waiting), s1)
    \<and> receive s1 2 [0, 0, 9] =
        (Inr \<lparr>dl_sender = 1, dl_length = of_nat (length [7, 8 :: u8]),
              dl_sequence = next_sequence run_granted,
              dl_capability_handle = 0, dl_capability_rights = 0\<rparr>,
         [7, 8] @ drop (length [7, 8 :: u8]) [0, 0, 9], s2)
    \<and> ep_messages (ipc_endpoints s2 ! 1) = []"
  by (rule send_then_receive [OF run_granted_reachable _ run_granted_facts(2)])
    (simp_all add: run_granted_facts ipc_consts del: One_nat_def)

text \<open>
  C17. The mailbox is a first-in first-out queue of eight messages: pushing any messages
  that fit and popping them all returns the old messages and then the new ones, in order.
\<close>

theorem mailbox_fifo:
  assumes "mailbox_ok e" and "length (ep_messages e) + length ms \<le> QUEUE_DEPTH"
  shows "fst (pop_n pop (length (ep_messages e) + length ms) (snd (push_all push e ms))) =
    map Some (ep_messages e @ ms)"
  by (rule mailbox.fifo [OF assms])

theorem mailbox_fifo_witness:
  "fst (pop_n pop 2 (snd (push_all push Endpoint_empty
      [make_message 1 1 0 0 [5], make_message 2 2 0 0 []]))) =
    map Some [make_message 1 1 0 0 [5], make_message 2 2 0 0 []]"
proof -
  have "mailbox_ok Endpoint_empty" "ep_messages Endpoint_empty = []"
    by (simp_all add: mailbox_ok_def Endpoint_empty_def ipc_consts)
  then show ?thesis
    using mailbox_fifo [of Endpoint_empty "[make_message 1 1 0 0 [5], make_message 2 2 0 0 []]"]
    by (simp add: ipc_consts numeral_2_eq_2)
qed

section \<open>The life of an endpoint\<close>

text \<open>
  Registering a new task while an endpoint is free succeeds and gives it an empty
  mailbox and a self capability whose handle resolves to the task itself with every right;
  no other capability changes.
\<close>

theorem register_confers:
  assumes "ipc_reachable s" and "t \<noteq> 0" and "find_endpoint s t = None"
    and "find_endpoint s 0 \<noteq> None"
  shows "\<exists>s' h c. register s t = (Inr (), s') \<and> self_capability s' t = Inr h
    \<and> resolve s' t h ALL_RIGHTS = (Inr t, s') \<and> has_message s' t = Inr False
    \<and> (\<forall>d. active_cap s' d \<longleftrightarrow> active_cap s d \<or> d = c)"
proof -
  note inv = reachable_inv [OF assms(1)]
  obtain i where "find_endpoint s 0 = Some i" using assms(4) by blast
  then have free: "position (\<lambda>e. ep_owner e = 0) (ipc_endpoints s) = Some i"
    by (simp add: find_endpoint_def)
  show ?thesis
  proof (rule register_eq [OF inv assms(2,3) free], goal_cases)
    case (1 g s')
    define c where "c = \<lparr>cap_target = t, cap_generation = g, cap_parent_generation = 0,
            cap_lineage_depth = 0, cap_rights = ALL_RIGHTS, cap_active = True\<rparr>"
    let ?e = "add_cap (fresh_ep t) 0 c"
    have es: "ipc_endpoints s' = (ipc_endpoints s)[i := ?e]" using 1(2) by (simp add: c_def)
    note i = es_weak_nth [OF ipc_inv_weak [OF inv] 1(8)]
    have none: "ep_active (ipc_endpoints s ! i) = {#}" using i 1(9) by (simp add: ep_ok_def)
    have e: "ep_owner ?e = t" "ep_len ?e = 0" "ep_capabilities ?e ! 0 = c" "ep_active ?e = {#c#}"
      by (simp_all add: Endpoint_empty_def ipc_consts ep_active_def Capability_empty_def c_def
          numeral_nat)
    have "j = i" if "j < length (ipc_endpoints s')" "ep_owner (ipc_endpoints s' ! j) = t" for j
      using that assms(3) by (cases "j = i") (auto simp: es find_endpoint_None)
    then have find: "find_endpoint s' t = Some i"
      unfolding find_endpoint_def using i e(1) by (intro position_unique) (auto simp: es)
    have nth: "ipc_endpoints s' ! i = ?e" using i by (simp add: es)
    have self: "self_capability s' t = Inr (encode_handle 0 g)"
      using find e(3) by (simp add: self_capability_def nth c_def contains_def rights_defs)
    have "resolve_capability s' t (encode_handle 0 g) ALL_RIGHTS = (Inr c, s')"
      using find e(3) decode_encode_handle [OF _ 1(5,6), of 0]
      by (intro resolve_new) (auto simp: nth c_def contains_def)
    then have res: "resolve s' t (encode_handle 0 g) ALL_RIGHTS = (Inr t, s')"
      by (simp add: resolve_def c_def)
    have "active_caps (ipc_endpoints s') = {#c#} + active_caps (ipc_endpoints s)"
      using active_caps_update [of i "ipc_endpoints s" ?e] i none e(4) by (simp add: es)
    then have "active_cap s' d \<longleftrightarrow> active_cap s d \<or> d = c" for d
      unfolding active_cap_def set_active_caps [symmetric] by auto
    with 1(1) self res find e(2) show ?case by (auto simp: has_message_def nth)
  qed
qed

theorem register_confers_witness:
  "\<exists>s' h c. register run_sent 3 = (Inr (), s') \<and> self_capability s' 3 = Inr h
    \<and> resolve s' 3 h ALL_RIGHTS = (Inr 3, s') \<and> has_message s' 3 = Inr False
    \<and> (\<forall>d. active_cap s' d \<longleftrightarrow> active_cap run_sent d \<or> d = c)"
proof (rule register_confers [OF run_sent_reachable])
  show "find_endpoint run_sent 3 = None" by code_simp
  show "find_endpoint run_sent 0 \<noteq> None" by code_simp
qed simp

text \<open>The generations a clean-up removes are those derived from the roots it starts at.\<close>

lemma revocable_closure:
  assumes "es_weak es" and "revocable es G R" and "G \<subseteq> R" and "G \<subseteq> set (active_generations es)"
  shows "R = {x. \<exists>g \<in> G. (child es)\<^sup>*\<^sup>* g x}"
proof (intro set_eqI iffI)
  fix x assume "x \<in> {x. \<exists>g \<in> G. (child es)\<^sup>*\<^sup>* g x}"
  then obtain g where "g \<in> G" "(child es)\<^sup>*\<^sup>* g x" by blast
  from this(2,1) show "x \<in> R"
    by (induction rule: rtranclp_induct) (use assms(2,3) in \<open>auto simp: revocable_def\<close>)
next
  have act: "R \<subseteq> set (active_generations es)"
    using assms(2,4) child_active unfolding revocable_def by blast
  have "\<exists>g \<in> G. (child es)\<^sup>*\<^sup>* g (cap_generation d)"
    if "cap_generation d \<in> R" "d \<in> set (all_capabilities es)" "cap_active d" for d
    using that
  proof (induction "unat (cap_lineage_depth d)" arbitrary: d rule: less_induct)
    case less
    show ?case
    proof (cases "cap_generation d \<in> G")
      case False
      with less.prems assms(2) obtain p where p: "p \<in> R" "child es p (cap_generation d)"
        unfolding revocable_def by blast
      have "p \<noteq> 0" using p(1) revocable_zero [OF assms(1,2,4)] by blast
      then obtain c where c: "c \<in> set (all_capabilities es)" "parent_ok c d" "cap_generation c = p"
        using child_parent_ok [OF assms(1) p(2) _ less.prems(2,3) refl] by blast
      moreover have "cap_active c" using c(2) by (simp add: parent_ok_def)
      moreover have "unat (cap_lineage_depth c) < unat (cap_lineage_depth d)"
        using parent_ok_depth [OF c(2)] by (simp add: word_less_nat_alt)
      ultimately obtain g where "g \<in> G" "(child es)\<^sup>*\<^sup>* g p" using less.hyps p(1) by blast
      with p(2) show ?thesis by (meson rtranclp.rtrancl_into_rtrancl)
    qed blast
  qed
  then show "x \<in> {x. \<exists>g \<in> G. (child es)\<^sup>*\<^sup>* g x}" if "x \<in> R" for x
    using act that by fastforce
qed

lemma unregister_forgets:
  assumes inv: "ipc_inv s" and "t \<noteq> 0" and "find_endpoint s t = Some i"
  shows "\<exists>n. fst (unregister s t) = Inr n" "find_endpoint (snd (unregister s t)) t = None"
proof -
  let ?es = "ipc_endpoints s" and ?s = "snd (unregister s t)"
  note weak = ipc_inv_weak [OF inv] and i = find_endpoint_Some [OF inv assms(3)]
  obtain R n where es: "ipc_endpoints ?s = (revoke_eps R ?es)[i := Endpoint_empty]" and n: "fst (unregister s t) = Inr n"
    by (rule unregister_eq [OF inv assms(3)]) simp
  show "\<exists>n. fst (unregister s t) = Inr n" using n by blast
  have "ep_owner (ipc_endpoints ?s ! j) \<noteq> t" if "j < length ?es" for j
    using owner_index [OF weak i(2) that] that i(3) assms(2)
    by (cases "j = i") (auto simp: es Endpoint_empty_def)
  then show "find_endpoint ?s t = None"
    unfolding find_endpoint_None
    by (metis (no_types, lifting) es imageE in_set_conv_nth length_list_update length_map list.set_map)
qed

text \<open>
  Unregistering a task cleans up after it: the endpoint is gone, the returned count is
  the number of messages it dropped, and exactly those capabilities are revoked that the
  task held, that named it, or that were derived from one of these.
\<close>

theorem unregister_cleans:
  assumes "ipc_reachable s" and "t \<noteq> 0" and "find_endpoint s t = Some i"
  shows "\<exists>n s'. unregister s t = (Inr n, s') \<and> unat n = ep_len (ipc_endpoints s ! i)
    \<and> find_endpoint s' t = None
    \<and> (\<forall>c. active_cap s' c \<longleftrightarrow> active_cap s c \<and>
          \<not> (\<exists>g \<in> owned_generations (ipc_endpoints s) i \<union> target_generations (ipc_endpoints s) t.
              (child (ipc_endpoints s))\<^sup>*\<^sup>* g (cap_generation c)))"
proof -
  let ?es = "ipc_endpoints s"
  let ?G = "owned_generations ?es i \<union> target_generations ?es t"
  note inv = reachable_inv [OF assms(1)]
  note weak = ipc_inv_weak [OF inv] and i = find_endpoint_Some [OF inv assms(3)]
  show ?thesis
  proof (rule unregister_eq [OF inv assms(3)], goal_cases)
    case (1 R report)
    let ?s = "snd (unregister s t)"
    have es: "ipc_endpoints ?s = (revoke_eps R ?es)[i := Endpoint_empty]" using 1(1) by simp
    have R: "R = {x. \<exists>g \<in> ?G. (child ?es)\<^sup>*\<^sup>* g x}"
      by (rule revocable_closure [OF weak 1(2,3) generations_active [OF i(2)]])
    have empty: "ep_active Endpoint_empty = {#}"
      using fresh_ep_active [of 0] by (simp add: ep_active_def)
    have none: "ep_active (revoke_eps R ?es ! i) = {#}"
      using ep_active_revoked [OF _ i(2)] 1(3) by blast
    then have "active_caps (ipc_endpoints ?s) = active_caps (revoke_eps R ?es)"
      using active_caps_update [of i "revoke_eps R ?es" Endpoint_empty] i(2) es empty by simp
    then have caps: "active_cap ?s c \<longleftrightarrow> active_cap s c \<and> cap_generation c \<notin> R" for c
      using active_revoke [of c R ?es] set_active_caps [of c] unfolding active_cap_def by metis
    have "find_endpoint ?s t = None" by (rule unregister_forgets(2) [OF inv assms(2,3)])
    moreover have "unat (of_nat (ep_len (?es ! i)) :: u64) = ep_len (?es ! i)"
      using i(4) by (simp add: ep_ok_def ep_sized_def ipc_consts unat_of_nat take_bit_nat_eq_self)
    ultimately show ?case using 1(1) caps R by (auto simp: prod_eq_iff)
  qed
qed

theorem unregister_cleans_witness:
  "\<exists>n s'. unregister run_sent 2 = (Inr n, s') \<and> unat n = ep_len (ipc_endpoints run_sent ! 1)
    \<and> find_endpoint s' 2 = None
    \<and> (\<forall>c. active_cap s' c \<longleftrightarrow> active_cap run_sent c \<and>
          \<not> (\<exists>g \<in> owned_generations (ipc_endpoints run_sent) 1
                 \<union> target_generations (ipc_endpoints run_sent) 2.
              (child (ipc_endpoints run_sent))\<^sup>*\<^sup>* g (cap_generation c)))"
  by (rule unregister_cleans [OF run_sent_reachable _ run_sent_facts(2)]) simp

section \<open>Handles, generations and the self test\<close>

text \<open>
  Handles are an exact encoding of a slot and a generation: a handle decodes to a slot
  and a generation if and only if it is their encoding, the slot exists, and the generation
  is not 0 and fits the upper 56 bits.
\<close>

theorem handle_encoding:
  "decode_handle h = Some (slot, g) \<longleftrightarrow>
   h = encode_handle slot g \<and> slot < MAX_CAPABILITIES_PER_ENDPOINT \<and> g \<noteq> 0 \<and> g \<le> max_generation"
  using decode_encode_handle [of slot g] encode_decode_handle [of h slot g]
    decode_handle_Some [of h slot g]
  by (auto simp: ipc_consts)

text \<open>
  C18. The search for a generation ends: in every reachable state the loop of
  \<open>allocate_generation\<close> returns after at most one more round than there are capability slots,
  with a generation that is not 0, fits a handle, and that no active capability carries.
\<close>

theorem allocate_generation_fresh:
  assumes "ipc_reachable s"
  shows "\<exists>g s'. allocate_generation_loop (MAX_ENDPOINTS * MAX_CAPABILITIES_PER_ENDPOINT + 1) s = Some (g, s')
    \<and> g \<noteq> 0 \<and> g \<le> max_generation \<and> (\<forall>c. active_cap s c \<longrightarrow> cap_generation c \<noteq> g)
    \<and> ipc_endpoints s' = ipc_endpoints s"
proof -
  have weak: "es_weak (ipc_endpoints s)" and next_ok: "next_capability_generation s \<le> max_generation"
    using reachable_inv [OF assms] by (simp_all add: ipc_inv_def es_inv_def)
  obtain g s' where loop:
    "allocate_generation_loop (MAX_ENDPOINTS * MAX_CAPABILITIES_PER_ENDPOINT + 1) s = Some (g, s')"
    using allocate_loop_fuel [OF weak next_ok] by fastforce
  note g = allocate_loop_Some [OF loop next_ok]
  then have "\<forall>c. active_cap s c \<longrightarrow> cap_generation c \<noteq> g" "ipc_endpoints s' = ipc_endpoints s"
    by (auto simp: active_cap_def)
  with g loop show ?thesis by blast
qed

theorem allocate_generation_fresh_witness:
  "\<exists>g s'. allocate_generation_loop (MAX_ENDPOINTS * MAX_CAPABILITIES_PER_ENDPOINT + 1) run_sent = Some (g, s')
    \<and> g \<noteq> 0 \<and> g \<le> max_generation \<and> (\<forall>c. active_cap run_sent c \<longrightarrow> cap_generation c \<noteq> g)
    \<and> ipc_endpoints s' = ipc_endpoints run_sent"
  by (rule allocate_generation_fresh [OF run_sent_reachable])

text \<open>
  The self test of the IPC component passes in every reachable state: the consistency
  check holds, and the three scenarios it plays on a fresh state (delivery and denial,
  transfer limits, revocation trees) end as the test expects.
\<close>

theorem selftest_passes: "ipc_reachable s \<Longrightarrow> selftest s"
  using ipc_inv_invariants reachable_inv model_selftest_True by (simp add: selftest_def)

theorem selftest_passes_witness: "selftest run_sent"
  by (rule selftest_passes [OF run_sent_reachable])

text \<open>
  \<open>find(0)\<close> matches the free endpoints, so \<open>grant\<close> with owner 0 puts an active capability
  into an endpoint nobody owns, and the kernel's own check fails. The operation does not exclude it, and
  \<open>run_capability_test\<close> (process.rs) calls it so when the spawn of its first task failed.
\<close>

lemma grant_owner_zero_breaks_invariants:
  "fst (grant run_registered 0 1 SEND) = Inr 0x301
   \<and> \<not> invariants (snd (grant run_registered 0 1 SEND))"
  by code_simp

end
