(* ===== verification/Scheduler.thy ===== *)
theory Scheduler
  imports Prelude
begin

text \<open>
  The scheduler, \<^verbatim>\<open>src/src/scheduler.rs\<close>: a ring of at most eight ready tasks, a table of at most
  eight blocked tasks and the current task. One definition per method of \<open>Scheduler\<close>; the
  serial log lines are not part of the state. The tick count that \<open>init\<close> reads from the
  interrupt component is an argument.
\<close>

definition QUEUE_CAPACITY :: nat where "QUEUE_CAPACITY = 8"
definition DEFAULT_QUANTUM_TICKS :: u64 where "DEFAULT_QUANTUM_TICKS = 2"
definition STARVATION_LIMIT_TICKS :: u64 where "STARVATION_LIMIT_TICKS = 18"

section \<open>State\<close>

record SchedSnapshot =
  ss_initialized :: bool
  ss_queue_capacity :: u64
  ss_queued_tasks :: u64
  ss_current_task :: u64
  ss_last_task :: u64
  ss_context_switches :: u64
  ss_cooperative_yields :: u64
  ss_timer_ticks :: u64
  ss_accounted_ticks :: u64
  ss_failed_enqueues :: u64
  ss_last_switch_tick :: u64
  ss_quantum_ticks :: u64
  ss_slice_ticks :: u64
  ss_timer_preemptions :: u64
  ss_round_robin_rotations :: u64
  ss_starvation_preventions :: u64
  ss_max_wait_ticks :: u64
  ss_blocked_tasks :: u64
  ss_block_events :: u64
  ss_blocking_switches :: u64
  ss_wake_events :: u64
  ss_failed_wakeups :: u64

record PreemptionDecision =
  switched :: bool
  previous_task :: u64
  next_task :: u64
  waited_ticks :: u64
  starvation_guard :: bool

definition PreemptionDecision_none :: "u64 \<Rightarrow> PreemptionDecision" where
  "PreemptionDecision_none current = \<lparr>switched = False, previous_task = current,
     next_task = current, waited_ticks = 0, starvation_guard = False\<rparr>"

record QueueEntry =
  task_id :: u64
  ready_since :: u64

definition QueueEntry_empty :: QueueEntry where
  "QueueEntry_empty = \<lparr>task_id = 0, ready_since = 0\<rparr>"

record Scheduler =
  sch_initialized :: bool
  sch_queue :: "QueueEntry list"
  sch_blocked :: "u64 list"
  sch_head :: nat
  sch_len :: nat
  sch_blocked_len :: nat
  current_task :: u64
  last_task :: u64
  context_switches :: u64
  cooperative_yields :: u64
  timer_ticks :: u64
  accounted_ticks :: u64
  failed_enqueues :: u64
  last_switch_tick :: u64
  quantum_ticks :: u64
  slice_ticks :: u64
  timer_preemptions :: u64
  round_robin_rotations :: u64
  starvation_preventions :: u64
  max_wait_ticks :: u64
  block_events :: u64
  blocking_switches :: u64
  wake_events :: u64
  failed_wakeups :: u64

definition Scheduler_new :: Scheduler where
  "Scheduler_new = \<lparr>sch_initialized = False,
     sch_queue = replicate QUEUE_CAPACITY QueueEntry_empty,
     sch_blocked = replicate QUEUE_CAPACITY 0,
     sch_head = 0, sch_len = 0, sch_blocked_len = 0, current_task = 0, last_task = 0,
     context_switches = 0, cooperative_yields = 0, timer_ticks = 0, accounted_ticks = 0,
     failed_enqueues = 0, last_switch_tick = 0, quantum_ticks = DEFAULT_QUANTUM_TICKS,
     slice_ticks = 0, timer_preemptions = 0, round_robin_rotations = 0,
     starvation_preventions = 0, max_wait_ticks = 0, block_events = 0,
     blocking_switches = 0, wake_events = 0, failed_wakeups = 0\<rparr>"

definition sched_init :: "u64 \<Rightarrow> Scheduler \<Rightarrow> Scheduler" where
  "sched_init ticks s =
     (if sch_initialized s then s
      else Scheduler_new\<lparr>sch_initialized := True, last_switch_tick := ticks\<rparr>)"

definition sched_snapshot :: "Scheduler \<Rightarrow> SchedSnapshot" where
  "sched_snapshot s = \<lparr>
     ss_initialized = sch_initialized s,
     ss_queue_capacity = of_nat QUEUE_CAPACITY,
     ss_queued_tasks = of_nat (sch_len s),
     ss_current_task = current_task s,
     ss_last_task = last_task s,
     ss_context_switches = context_switches s,
     ss_cooperative_yields = cooperative_yields s,
     ss_timer_ticks = timer_ticks s,
     ss_accounted_ticks = accounted_ticks s,
     ss_failed_enqueues = failed_enqueues s,
     ss_last_switch_tick = last_switch_tick s,
     ss_quantum_ticks = quantum_ticks s,
     ss_slice_ticks = slice_ticks s,
     ss_timer_preemptions = timer_preemptions s,
     ss_round_robin_rotations = round_robin_rotations s,
     ss_starvation_preventions = starvation_preventions s,
     ss_max_wait_ticks = max_wait_ticks s,
     ss_blocked_tasks = of_nat (sch_blocked_len s),
     ss_block_events = block_events s,
     ss_blocking_switches = blocking_switches s,
     ss_wake_events = wake_events s,
     ss_failed_wakeups = failed_wakeups s\<rparr>"

section \<open>Searching and removing\<close>

text \<open>The entry at an offset from the head of the ring.\<close>

definition entry_at :: "Scheduler \<Rightarrow> nat \<Rightarrow> QueueEntry" where
  "entry_at s offset = sch_queue s ! ((sch_head s + offset) mod QUEUE_CAPACITY)"

definition sched_contains :: "Scheduler \<Rightarrow> u64 \<Rightarrow> bool" where
  "sched_contains s t \<longleftrightarrow> list_ex (\<lambda>offset. task_id (entry_at s offset) = t) [0..<sch_len s]"

text \<open>One round of the shift loop of \<open>remove_at\<close>.\<close>

definition shift_entry :: "nat \<Rightarrow> nat \<Rightarrow> QueueEntry list \<Rightarrow> QueueEntry list" where
  "shift_entry head shift queue =
     queue[(head + shift) mod QUEUE_CAPACITY := queue ! ((head + shift + 1) mod QUEUE_CAPACITY)]"

definition remove_at :: "Scheduler \<Rightarrow> nat \<Rightarrow> QueueEntry \<times> Scheduler" where
  "remove_at s offset =
     (if sch_len s \<le> offset then (QueueEntry_empty, s)
      else
        let removed = entry_at s offset;
            queue1 = fold (shift_entry (sch_head s)) [offset..<sch_len s - 1] (sch_queue s);
            tail = (sch_head s + sch_len s - 1) mod QUEUE_CAPACITY;
            s1 = s\<lparr>sch_queue := queue1[tail := QueueEntry_empty], sch_len := sch_len s - 1\<rparr>
        in (removed, if sch_len s1 = 0 then s1\<lparr>sch_head := 0\<rparr> else s1))"

definition sched_remove :: "Scheduler \<Rightarrow> u64 \<Rightarrow> bool \<times> Scheduler" where
  "sched_remove s t =
     (case List.find (\<lambda>offset. task_id (entry_at s offset) = t) [0..<sch_len s] of
        None \<Rightarrow> (False, s)
      | Some offset \<Rightarrow> (True, snd (remove_at s offset)))"

definition contains_blocked :: "Scheduler \<Rightarrow> u64 \<Rightarrow> bool" where
  "contains_blocked s t \<longleftrightarrow> List.member (take (sch_blocked_len s) (sch_blocked s)) t"

definition remove_blocked :: "Scheduler \<Rightarrow> u64 \<Rightarrow> bool \<times> Scheduler" where
  "remove_blocked s t =
     (case position (\<lambda>b. b = t) (take (sch_blocked_len s) (sch_blocked s)) of
        None \<Rightarrow> (False, s)
      | Some index \<Rightarrow>
          let blocked1 = fold (\<lambda>shift blocked. blocked[shift := blocked ! (shift + 1)])
                [index..<sch_blocked_len s - 1] (sch_blocked s);
              n = sch_blocked_len s - 1
          in (True, s\<lparr>sch_blocked := blocked1[n := 0], sch_blocked_len := n\<rparr>))"

section \<open>Operations\<close>

definition enqueue_at :: "Scheduler \<Rightarrow> u64 \<Rightarrow> u64 \<Rightarrow> bool \<times> Scheduler" where
  "enqueue_at s t since =
     (if t = 0 then (False, s\<lparr>failed_enqueues := sat_add (failed_enqueues s) 1\<rparr>)
      else if sched_contains s t \<or> current_task s = t then (True, s)
      else if QUEUE_CAPACITY \<le> sch_len s
      then (False, s\<lparr>failed_enqueues := sat_add (failed_enqueues s) 1\<rparr>)
      else let tail = (sch_head s + sch_len s) mod QUEUE_CAPACITY
           in (True, s\<lparr>sch_queue := (sch_queue s)[tail := \<lparr>task_id = t, ready_since = since\<rparr>],
                      sch_len := sch_len s + 1\<rparr>))"

definition enqueue :: "Scheduler \<Rightarrow> u64 \<Rightarrow> bool \<times> Scheduler" where
  "enqueue s t = enqueue_at s t (timer_ticks s)"

definition begin_task :: "Scheduler \<Rightarrow> u64 \<Rightarrow> Scheduler" where
  "begin_task s t =
     (let s1 = snd (sched_remove s t);
          s2 = snd (remove_blocked s1 t)
      in s2\<lparr>current_task := t, last_task := t,
            context_switches := sat_add (context_switches s2) 1,
            last_switch_tick := timer_ticks s2, slice_ticks := 0\<rparr>)"

definition finish_task :: "Scheduler \<Rightarrow> u64 \<Rightarrow> Scheduler" where
  "finish_task s t =
     (let s1 = (if current_task s = t
                then s\<lparr>current_task := 0, slice_ticks := 0, last_switch_tick := timer_ticks s\<rparr>
                else s);
          s2 = snd (sched_remove s1 t);
          s3 = snd (remove_blocked s2 t)
      in s3\<lparr>last_task := t\<rparr>)"

definition yield_current :: "Scheduler \<Rightarrow> u64 \<times> Scheduler" where
  "yield_current s =
     (let s1 = s\<lparr>cooperative_yields := sat_add (cooperative_yields s) 1\<rparr>
      in if current_task s1 = 0 then (0, s1)
         else (current_task s1, s1\<lparr>last_switch_tick := timer_ticks s1\<rparr>))"

definition push_blocked :: "Scheduler \<Rightarrow> u64 \<Rightarrow> Scheduler" where
  "push_blocked s t = s\<lparr>sch_blocked := (sch_blocked s)[sch_blocked_len s := t],
                        sch_blocked_len := sch_blocked_len s + 1\<rparr>"

definition block_task :: "Scheduler \<Rightarrow> u64 \<Rightarrow> bool \<times> Scheduler" where
  "block_task s t =
     (if t = 0 then (False, s)
      else if contains_blocked s t then (True, s)
      else if QUEUE_CAPACITY \<le> sch_blocked_len s then (False, s)
      else
        let (known, s1) = (if current_task s = t then (True, s\<lparr>current_task := 0, slice_ticks := 0\<rparr>)
                           else sched_remove s t)
        in if \<not> known then (False, s1)
           else let s2 = push_blocked s1 t
                in (True, s2\<lparr>block_events := sat_add (block_events s2) 1\<rparr>))"

text \<open>The scan of \<open>select_next_offset\<close>: the first offset with the longest wait so far.\<close>

definition scan_wait :: "Scheduler \<Rightarrow> nat \<Rightarrow> nat \<times> u64 \<Rightarrow> nat \<times> u64" where
  "scan_wait s offset = (\<lambda>(selected, longest_wait).
     let waited = sat_sub (timer_ticks s) (ready_since (entry_at s offset))
     in if longest_wait < waited then (offset, waited) else (selected, longest_wait))"

definition select_next_offset :: "Scheduler \<Rightarrow> nat \<times> bool" where
  "select_next_offset s =
     (let (selected, longest_wait) = fold (scan_wait s) [0..<sch_len s] (0, 0)
      in if STARVATION_LIMIT_TICKS \<le> longest_wait then (selected, selected \<noteq> 0) else (0, False))"

definition block_current_and_dispatch :: "Scheduler \<Rightarrow> u64 \<Rightarrow> PreemptionDecision \<times> Scheduler" where
  "block_current_and_dispatch s t =
     (if \<not> sch_initialized s \<or> t = 0 \<or> current_task s \<noteq> t \<or> sch_len s = 0
         \<or> QUEUE_CAPACITY \<le> sch_blocked_len s
      then (PreemptionDecision_none (current_task s), s)
      else
        let (offset, guard) = select_next_offset s;
            (nxt, s1) = remove_at s offset
        in if task_id nxt = 0 then (PreemptionDecision_none (current_task s1), s1)
           else
             let waited = sat_sub (timer_ticks s1) (ready_since nxt);
                 s2 = push_blocked (s1\<lparr>max_wait_ticks := max (max_wait_ticks s1) waited\<rparr>) t;
                 s3 = s2\<lparr>current_task := task_id nxt, last_task := task_id nxt,
                         context_switches := sat_add (context_switches s2) 1,
                         block_events := sat_add (block_events s2) 1,
                         blocking_switches := sat_add (blocking_switches s2) 1\<rparr>;
                 s4 = (if guard
                       then s3\<lparr>starvation_preventions := sat_add (starvation_preventions s3) 1\<rparr>
                       else s3)
             in (\<lparr>switched = True, previous_task = t, next_task = task_id nxt,
                  waited_ticks = waited, starvation_guard = guard\<rparr>,
                 s4\<lparr>last_switch_tick := timer_ticks s4, slice_ticks := 0\<rparr>))"

definition wake_task :: "Scheduler \<Rightarrow> u64 \<Rightarrow> bool \<times> Scheduler" where
  "wake_task s t =
     (if t = 0 then (False, s\<lparr>failed_wakeups := sat_add (failed_wakeups s) 1\<rparr>)
      else if current_task s = t \<or> sched_contains s t then (True, s)
      else case remove_blocked s t of
        (False, s1) \<Rightarrow> (False, s1\<lparr>failed_wakeups := sat_add (failed_wakeups s1) 1\<rparr>)
      | (True, s1) \<Rightarrow>
          (case enqueue_at s1 t (timer_ticks s1) of
             (False, s2) \<Rightarrow>
               let s3 = push_blocked s2 t
               in (False, s3\<lparr>failed_wakeups := sat_add (failed_wakeups s3) 1\<rparr>)
           | (True, s2) \<Rightarrow> (True, s2\<lparr>wake_events := sat_add (wake_events s2) 1\<rparr>)))"

definition on_timer_tick :: "Scheduler \<Rightarrow> Scheduler" where
  "on_timer_tick s =
     (let s1 = s\<lparr>timer_ticks := sat_add (timer_ticks s) 1\<rparr>
      in if current_task s1 \<noteq> 0
         then s1\<lparr>accounted_ticks := sat_add (accounted_ticks s1) 1,
                 slice_ticks := sat_add (slice_ticks s1) 1\<rparr>
         else s1)"

definition preempt_current :: "Scheduler \<Rightarrow> PreemptionDecision \<times> Scheduler" where
  "preempt_current s =
     (let previous = current_task s
      in if \<not> sch_initialized s \<or> previous = 0 \<or> sch_len s = 0 \<or> slice_ticks s < quantum_ticks s
         then (PreemptionDecision_none previous, s)
         else
           let (offset, guard) = select_next_offset s;
               (nxt, s1) = remove_at s offset
           in if task_id nxt = 0 then (PreemptionDecision_none previous, s1)
              else
                let waited = sat_sub (timer_ticks s1) (ready_since nxt);
                    s2 = s1\<lparr>max_wait_ticks := max (max_wait_ticks s1) waited, current_task := 0\<rparr>;
                    (queued, s3) = enqueue_at s2 previous (timer_ticks s2)
                in if \<not> queued
                   then (PreemptionDecision_none previous,
                         snd (enqueue_at (s3\<lparr>current_task := previous\<rparr>)
                                (task_id nxt) (ready_since nxt)))
                   else
                     let s4 = s3\<lparr>current_task := task_id nxt, last_task := task_id nxt,
                                 context_switches := sat_add (context_switches s3) 1,
                                 timer_preemptions := sat_add (timer_preemptions s3) 1,
                                 round_robin_rotations := sat_add (round_robin_rotations s3) 1\<rparr>;
                         s5 = (if guard
                               then s4\<lparr>starvation_preventions :=
                                      sat_add (starvation_preventions s4) 1\<rparr>
                               else s4)
                     in (\<lparr>switched = True, previous_task = previous, next_task = task_id nxt,
                          waited_ticks = waited, starvation_guard = guard\<rparr>,
                         s5\<lparr>last_switch_tick := timer_ticks s5, slice_ticks := 0\<rparr>))"

text \<open>The public entry of the timer interrupt does nothing before \<open>init\<close>.\<close>

definition timer_interrupt :: "Scheduler \<Rightarrow> Scheduler" where
  "timer_interrupt s = (if sch_initialized s then on_timer_tick s else s)"

section \<open>The self test\<close>

definition queue_capacity_consistent :: "Scheduler \<Rightarrow> bool" where
  "queue_capacity_consistent s \<longleftrightarrow> sch_len s \<le> QUEUE_CAPACITY \<and> sch_blocked_len s \<le> QUEUE_CAPACITY
     \<and> sch_head s < QUEUE_CAPACITY"

definition queue_has_duplicates :: "Scheduler \<Rightarrow> bool" where
  "queue_has_duplicates s \<longleftrightarrow>
     list_ex (\<lambda>left. task_id (entry_at s left) = 0
         \<or> list_ex (\<lambda>right. task_id (entry_at s right) = task_id (entry_at s left))
             [left + 1..<sch_len s])
       [0..<sch_len s]"

definition blocked_has_duplicates :: "Scheduler \<Rightarrow> bool" where
  "blocked_has_duplicates s \<longleftrightarrow>
     list_ex (\<lambda>left. sch_blocked s ! left = 0
         \<or> list_ex (\<lambda>right. sch_blocked s ! left = sch_blocked s ! right)
             [left + 1..<sch_blocked_len s])
       [0..<sch_blocked_len s]"

definition queue_blocked_overlap :: "Scheduler \<Rightarrow> bool" where
  "queue_blocked_overlap s \<longleftrightarrow>
     list_ex (\<lambda>offset. contains_blocked s (task_id (entry_at s offset))) [0..<sch_len s]"

text \<open>The four scenarios of \<open>model_selftest\<close>.\<close>

definition round_robin_selftest :: bool where
  "round_robin_selftest =
     (let s0 = Scheduler_new\<lparr>sch_initialized := True, quantum_ticks := 1, current_task := 1\<rparr>;
          (q2, s1) = enqueue_at s0 2 0;
          (q3, s2) = enqueue_at s1 3 0;
          (first, s3) = preempt_current (on_timer_tick s2);
          (second, s4) = preempt_current (on_timer_tick s3)
      in q2 \<and> q3 \<and> switched first \<and> previous_task first = 1 \<and> next_task first = 2
         \<and> \<not> starvation_guard first \<and> switched second \<and> previous_task second = 2
         \<and> next_task second = 3)"

definition starvation_selftest :: bool where
  "starvation_selftest =
     (let s0 = Scheduler_new\<lparr>sch_initialized := True, quantum_ticks := 1,
                 timer_ticks := STARVATION_LIMIT_TICKS + 4, current_task := 7\<rparr>;
          recent = sat_sub (timer_ticks s0) 1;
          starved = sat_sub (timer_ticks s0) (STARVATION_LIMIT_TICKS + 1);
          (q8, s1) = enqueue_at s0 8 recent;
          (q9, s2) = enqueue_at s1 9 starved;
          (guarded, s3) = preempt_current (on_timer_tick s2)
      in q8 \<and> q9 \<and> switched guarded \<and> next_task guarded = 9 \<and> starvation_guard guarded
         \<and> starvation_preventions s3 = 1)"

definition blocking_selftest :: bool where
  "blocking_selftest =
     (let s0 = Scheduler_new\<lparr>sch_initialized := True\<rparr>;
          (queued, s1) = enqueue_at s0 11 0;
          (blocked, s2) = block_task s1 11;
          blocked_snapshot = sched_snapshot s2;
          (woke, s3) = wake_task s2 11;
          wake_snapshot = sched_snapshot s3
      in queued \<and> blocked \<and> ss_blocked_tasks blocked_snapshot = 1
         \<and> ss_queued_tasks blocked_snapshot = 0 \<and> woke \<and> ss_blocked_tasks wake_snapshot = 0
         \<and> ss_queued_tasks wake_snapshot = 1 \<and> ss_block_events wake_snapshot = 1
         \<and> ss_wake_events wake_snapshot = 1)"

definition handoff_selftest :: bool where
  "handoff_selftest =
     (let s0 = Scheduler_new\<lparr>sch_initialized := True, current_task := 20\<rparr>;
          (q21, s1) = enqueue_at s0 21 0;
          (q22, s2) = enqueue_at s1 22 0;
          (decision, s3) = block_current_and_dispatch s2 20;
          snap = sched_snapshot s3;
          (woke, s4) = wake_task s3 20
      in q21 \<and> q22 \<and> switched decision \<and> previous_task decision = 20 \<and> next_task decision = 21
         \<and> ss_current_task snap = 21 \<and> ss_blocked_tasks snap = 1
         \<and> ss_blocking_switches snap = 1 \<and> woke)"

definition sched_model_selftest :: bool where
  "sched_model_selftest \<longleftrightarrow>
     round_robin_selftest \<and> starvation_selftest \<and> blocking_selftest \<and> handoff_selftest"

definition sched_selftest :: "Scheduler \<Rightarrow> bool" where
  "sched_selftest s \<longleftrightarrow> sch_initialized s \<and> sch_len s \<le> QUEUE_CAPACITY
     \<and> queue_capacity_consistent s \<and> \<not> queue_has_duplicates s \<and> \<not> blocked_has_duplicates s
     \<and> \<not> queue_blocked_overlap s \<and> 0 < quantum_ticks s \<and> sched_model_selftest"

lemma sched_model_selftest_True: "sched_model_selftest"
  by code_simp

end
