(* ===== verification/Scheduler_Proofs.thy ===== *)
theory Scheduler_Proofs
  imports Scheduler
begin

text \<open>
  The scheduler as an abstract machine over three lists: the ready tasks in ring order, the
  blocked tasks and the current task. Each operation is shown to act on these lists as its
  name says; the invariant, the round-robin order and its fairness follow.
\<close>

section \<open>The abstraction\<close>

definition ready :: "Scheduler \<Rightarrow> QueueEntry list" where
  "ready s = ring_list (sch_queue s) (sch_head s) (sch_len s)"

definition blocked_tasks :: "Scheduler \<Rightarrow> u64 list" where
  "blocked_tasks s = take (sch_blocked_len s) (sch_blocked s)"

abbreviation ready_ids :: "Scheduler \<Rightarrow> u64 list" where
  "ready_ids s \<equiv> map task_id (ready s)"

definition sched_sized :: "Scheduler \<Rightarrow> bool" where
  "sched_sized s \<longleftrightarrow> length (sch_queue s) = QUEUE_CAPACITY \<and> length (sch_blocked s) = QUEUE_CAPACITY
     \<and> sch_head s < QUEUE_CAPACITY \<and> sch_len s \<le> QUEUE_CAPACITY \<and> sch_blocked_len s \<le> QUEUE_CAPACITY"

lemma length_ready [simp]: "length (ready s) = sch_len s"
  by (simp add: ready_def)

lemma entry_at_ready: "sched_sized s \<Longrightarrow> k < sch_len s \<Longrightarrow> entry_at s k = ready s ! k"
  by (simp add: entry_at_def ready_def nth_ring_list sched_sized_def)

lemma sched_contains_iff:
  assumes "sched_sized s"
  shows "sched_contains s t \<longleftrightarrow> t \<in> set (ready_ids s)"
proof -
  have "t \<in> set (ready_ids s) \<longleftrightarrow> (\<exists>k < sch_len s. task_id (ready s ! k) = t)"
    unfolding in_set_conv_nth by auto
  then show ?thesis using entry_at_ready [OF assms] by (auto simp: sched_contains_def list_ex_iff)
qed

lemma contains_blocked_iff: "contains_blocked s t \<longleftrightarrow> t \<in> set (blocked_tasks s)"
  by (simp add: contains_blocked_def blocked_tasks_def)

text \<open>Counters and the current task are no part of the three.\<close>

lemma ready_frame [simp]:
  "ready (s\<lparr>sch_initialized := b\<rparr>) = ready s"
  "ready (s\<lparr>current_task := x\<rparr>) = ready s"
  "ready (s\<lparr>last_task := x\<rparr>) = ready s"
  "ready (s\<lparr>context_switches := x\<rparr>) = ready s"
  "ready (s\<lparr>cooperative_yields := x\<rparr>) = ready s"
  "ready (s\<lparr>timer_ticks := x\<rparr>) = ready s"
  "ready (s\<lparr>accounted_ticks := x\<rparr>) = ready s"
  "ready (s\<lparr>failed_enqueues := x\<rparr>) = ready s"
  "ready (s\<lparr>last_switch_tick := x\<rparr>) = ready s"
  "ready (s\<lparr>slice_ticks := x\<rparr>) = ready s"
  "ready (s\<lparr>timer_preemptions := x\<rparr>) = ready s"
  "ready (s\<lparr>round_robin_rotations := x\<rparr>) = ready s"
  "ready (s\<lparr>starvation_preventions := x\<rparr>) = ready s"
  "ready (s\<lparr>max_wait_ticks := x\<rparr>) = ready s"
  "ready (s\<lparr>block_events := x\<rparr>) = ready s"
  "ready (s\<lparr>blocking_switches := x\<rparr>) = ready s"
  "ready (s\<lparr>wake_events := x\<rparr>) = ready s"
  "ready (s\<lparr>failed_wakeups := x\<rparr>) = ready s"
  by (simp_all add: ready_def)

lemma blocked_tasks_frame [simp]:
  "blocked_tasks (s\<lparr>sch_initialized := b\<rparr>) = blocked_tasks s"
  "blocked_tasks (s\<lparr>current_task := x\<rparr>) = blocked_tasks s"
  "blocked_tasks (s\<lparr>last_task := x\<rparr>) = blocked_tasks s"
  "blocked_tasks (s\<lparr>context_switches := x\<rparr>) = blocked_tasks s"
  "blocked_tasks (s\<lparr>cooperative_yields := x\<rparr>) = blocked_tasks s"
  "blocked_tasks (s\<lparr>timer_ticks := x\<rparr>) = blocked_tasks s"
  "blocked_tasks (s\<lparr>accounted_ticks := x\<rparr>) = blocked_tasks s"
  "blocked_tasks (s\<lparr>failed_enqueues := x\<rparr>) = blocked_tasks s"
  "blocked_tasks (s\<lparr>last_switch_tick := x\<rparr>) = blocked_tasks s"
  "blocked_tasks (s\<lparr>slice_ticks := x\<rparr>) = blocked_tasks s"
  "blocked_tasks (s\<lparr>timer_preemptions := x\<rparr>) = blocked_tasks s"
  "blocked_tasks (s\<lparr>round_robin_rotations := x\<rparr>) = blocked_tasks s"
  "blocked_tasks (s\<lparr>starvation_preventions := x\<rparr>) = blocked_tasks s"
  "blocked_tasks (s\<lparr>max_wait_ticks := x\<rparr>) = blocked_tasks s"
  "blocked_tasks (s\<lparr>block_events := x\<rparr>) = blocked_tasks s"
  "blocked_tasks (s\<lparr>blocking_switches := x\<rparr>) = blocked_tasks s"
  "blocked_tasks (s\<lparr>wake_events := x\<rparr>) = blocked_tasks s"
  "blocked_tasks (s\<lparr>failed_wakeups := x\<rparr>) = blocked_tasks s"
  by (simp_all add: blocked_tasks_def)

lemma sched_sized_frame [simp]:
  "sched_sized (s\<lparr>sch_initialized := b\<rparr>) = sched_sized s"
  "sched_sized (s\<lparr>current_task := x\<rparr>) = sched_sized s"
  "sched_sized (s\<lparr>last_task := x\<rparr>) = sched_sized s"
  "sched_sized (s\<lparr>context_switches := x\<rparr>) = sched_sized s"
  "sched_sized (s\<lparr>cooperative_yields := x\<rparr>) = sched_sized s"
  "sched_sized (s\<lparr>timer_ticks := x\<rparr>) = sched_sized s"
  "sched_sized (s\<lparr>accounted_ticks := x\<rparr>) = sched_sized s"
  "sched_sized (s\<lparr>failed_enqueues := x\<rparr>) = sched_sized s"
  "sched_sized (s\<lparr>last_switch_tick := x\<rparr>) = sched_sized s"
  "sched_sized (s\<lparr>slice_ticks := x\<rparr>) = sched_sized s"
  "sched_sized (s\<lparr>timer_preemptions := x\<rparr>) = sched_sized s"
  "sched_sized (s\<lparr>round_robin_rotations := x\<rparr>) = sched_sized s"
  "sched_sized (s\<lparr>starvation_preventions := x\<rparr>) = sched_sized s"
  "sched_sized (s\<lparr>max_wait_ticks := x\<rparr>) = sched_sized s"
  "sched_sized (s\<lparr>block_events := x\<rparr>) = sched_sized s"
  "sched_sized (s\<lparr>blocking_switches := x\<rparr>) = sched_sized s"
  "sched_sized (s\<lparr>wake_events := x\<rparr>) = sched_sized s"
  "sched_sized (s\<lparr>failed_wakeups := x\<rparr>) = sched_sized s"
  by (simp_all add: sched_sized_def)

section \<open>Removing an entry\<close>

text \<open>The shift loop on a list: the entries after \<open>k\<close> move one place to the front.\<close>

definition shift_list :: "nat \<Rightarrow> 'a list \<Rightarrow> 'a list" where
  "shift_list i xs = xs[i := xs ! (i + 1)]"

lemma shift_list_fold:
  assumes "k \<le> j" and "j < length xs"
  shows "fold shift_list [k..<j] xs = take k xs @ take (j - k) (drop (Suc k) xs) @ drop j xs"
  using assms
proof (induction j)
  case 0
  then show ?case by simp
next
  case (Suc j)
  show ?case
  proof (cases "k = Suc j")
    case False
    with Suc have k: "k \<le> j" "Suc j < length xs" by auto
    let ?ys = "take k xs @ take (j - k) (drop (Suc k) xs)"
    have "fold shift_list [k..<Suc j] xs = shift_list j (?ys @ drop j xs)"
      using Suc k by simp
    also have "\<dots> = ?ys @ shift_list 0 (drop j xs)"
      using k by (simp add: shift_list_def nth_append list_update_append min_def)
    also have "shift_list 0 (drop j xs) = xs ! Suc j # drop (Suc j) xs"
      using k by (simp add: shift_list_def Cons_nth_drop_Suc [symmetric])
    also have "?ys @ xs ! Suc j # drop (Suc j) xs =
        take k xs @ take (Suc j - k) (drop (Suc k) xs) @ drop (Suc j) xs"
      using k by (simp add: Suc_diff_le take_Suc_conv_app_nth)
    finally show ?thesis .
  qed (simp add: id_take_nth_drop)
qed

definition delete_nth :: "nat \<Rightarrow> 'a list \<Rightarrow> 'a list" where
  "delete_nth k xs = take k xs @ drop (Suc k) xs"

lemma delete_nth_fold:
  assumes "k < n" and "n \<le> length xs"
  shows "take (n - 1) ((fold shift_list [k..<n - 1] xs)[n - 1 := z]) = delete_nth k (take n xs)"
proof -
  obtain m where m: "n = Suc m" "k \<le> m" "m < length xs" using assms by (cases n) auto
  then have "take m ((fold shift_list [k..<m] xs)[m := z]) = take k xs @ take (m - k) (drop (Suc k) xs)"
    by (simp add: shift_list_fold)
  with m show ?thesis by (simp add: delete_nth_def drop_take)
qed

lemma ring_list_update:
  assumes "j < n" and "n \<le> length xs"
  shows "ring_list (xs[(h + j) mod length xs := x]) h n = (ring_list xs h n)[j := x]"
proof (rule nth_equalityI)
  fix k assume "k < length (ring_list (xs[(h + j) mod length xs := x]) h n)"
  then have k: "k < n" by simp
  have "0 < length xs" using assms by linarith
  moreover have "(h + j) mod length xs \<noteq> (h + k) mod length xs" if "k \<noteq> j"
    using ring_index_inj [OF assms(1) k assms(2)] that by auto
  ultimately show "ring_list (xs[(h + j) mod length xs := x]) h n ! k = (ring_list xs h n)[j := x] ! k"
    using k assms(1) by (cases "k = j") (simp_all add: nth_ring_list)
qed simp

lemma ring_list_take: "m \<le> n \<Longrightarrow> ring_list xs h m = take m (ring_list xs h n)"
  by (simp add: ring_list_def take_map)

lemma length_shift_fold [simp]: "length (fold (shift_entry h) ks q) = length q"
  by (induction ks arbitrary: q) (simp_all add: shift_entry_def)

lemma ring_shift_fold:
  assumes "length q = QUEUE_CAPACITY" and "n \<le> QUEUE_CAPACITY" and "j < n"
  shows "ring_list (fold (shift_entry h) [k..<j] q) h n = fold shift_list [k..<j] (ring_list q h n)"
  using assms(3)
proof (induction j)
  case 0
  then show ?case by simp
next
  case (Suc j)
  show ?case
  proof (cases "k \<le> j")
    case True
    let ?q = "fold (shift_entry h) [k..<j] q"
    have "ring_list (shift_entry h j ?q) h n = shift_list j (ring_list ?q h n)"
      using assms Suc.prems ring_list_update [of j n ?q h]
      by (simp add: shift_entry_def shift_list_def nth_ring_list)
    with Suc True show ?thesis by simp
  qed simp
qed

lemma remove_at_ready:
  assumes "sched_sized s" and "k < sch_len s"
  shows "fst (remove_at s k) = ready s ! k"
    and "ready (snd (remove_at s k)) = delete_nth k (ready s)"
    and "sched_sized (snd (remove_at s k))"
proof -
  let ?q = "sch_queue s" and ?h = "sch_head s" and ?n = "sch_len s"
  let ?q1 = "fold (shift_entry ?h) [k..<?n - 1] ?q"
  let ?q2 = "?q1[(?h + (?n - 1)) mod QUEUE_CAPACITY := QueueEntry_empty]"
  have size: "length ?q = QUEUE_CAPACITY" "?n \<le> QUEUE_CAPACITY" "?n - 1 < ?n"
    using assms by (auto simp: sched_sized_def)
  show "fst (remove_at s k) = ready s ! k"
    using assms entry_at_ready by (simp add: remove_at_def Let_def)
  have "ring_list ?q2 ?h (?n - 1) = take (?n - 1) (ring_list ?q2 ?h ?n)"
    by (rule ring_list_take) simp
  also have "ring_list ?q2 ?h ?n = (fold shift_list [k..<?n - 1] (ready s))[?n - 1 := QueueEntry_empty]"
    using ring_list_update [OF size(3), of ?q1 ?h QueueEntry_empty] size ring_shift_fold [OF size, of ?h k]
    by (simp add: ready_def)
  also have "take (?n - 1) \<dots> = delete_nth k (ready s)"
    using delete_nth_fold [OF assms(2), of "ready s" QueueEntry_empty] by simp
  finally have eq: "ring_list ?q2 ?h (?n - 1) = delete_nth k (ready s)" .
  have tail: "?h + ?n - 1 = ?h + (?n - 1)" using assms(2) by simp
  show "ready (snd (remove_at s k)) = delete_nth k (ready s)"
  proof (cases "?n = 1")
    case True
    with assms(2) show ?thesis
      using eq by (simp add: remove_at_def Let_def ready_def)
  next
    case False
    with assms(2) eq tail show ?thesis by (simp add: remove_at_def Let_def ready_def)
  qed
  show "sched_sized (snd (remove_at s k))"
    using assms by (auto simp: remove_at_def Let_def sched_sized_def)
qed

lemma remove_at_other [simp]:
  "blocked_tasks (snd (remove_at s k)) = blocked_tasks s"
  "sch_blocked_len (snd (remove_at s k)) = sch_blocked_len s"
  "current_task (snd (remove_at s k)) = current_task s"
  "timer_ticks (snd (remove_at s k)) = timer_ticks s"
  "quantum_ticks (snd (remove_at s k)) = quantum_ticks s"
  "sch_initialized (snd (remove_at s k)) = sch_initialized s"
  "slice_ticks (snd (remove_at s k)) = slice_ticks s"
  by (simp_all add: remove_at_def Let_def blocked_tasks_def)

lemma delete_nth_filter:
  "distinct (map f xs) \<Longrightarrow> k < length xs \<Longrightarrow> delete_nth k xs = filter (\<lambda>x. f x \<noteq> f (xs ! k)) xs"
proof -
  assume d: "distinct (map f xs)" and k: "k < length xs"
  have xs: "xs = take k xs @ xs ! k # drop (Suc k) xs" using k by (rule id_take_nth_drop)
  have "f (xs ! k) \<notin> f ` set (take k xs)" "f (xs ! k) \<notin> f ` set (drop (Suc k) xs)"
    using d by (subst (asm) xs, simp)+
  then have "filter (\<lambda>x. f x \<noteq> f (xs ! k)) (take k xs) = take k xs"
    "filter (\<lambda>x. f x \<noteq> f (xs ! k)) (drop (Suc k) xs) = drop (Suc k) xs"
    by (auto simp: filter_id_conv image_iff)
  moreover have "filter (\<lambda>x. f x \<noteq> f (xs ! k)) xs =
      filter (\<lambda>x. f x \<noteq> f (xs ! k)) (take k xs @ xs ! k # drop (Suc k) xs)"
    by (rule arg_cong [OF xs])
  ultimately show ?thesis by (simp add: delete_nth_def)
qed

lemma find_offset:
  assumes "sched_sized s"
  shows "List.find (\<lambda>k. task_id (entry_at s k) = t) [0..<sch_len s] = None \<longleftrightarrow> t \<notin> set (ready_ids s)"
    and "List.find (\<lambda>k. task_id (entry_at s k) = t) [0..<sch_len s] = Some k \<Longrightarrow>
      k < sch_len s \<and> task_id (ready s ! k) = t"
proof -
  show "List.find (\<lambda>k. task_id (entry_at s k) = t) [0..<sch_len s] = None \<longleftrightarrow> t \<notin> set (ready_ids s)"
    using sched_contains_iff [OF assms, of t]
    by (auto simp: find_None_iff sched_contains_def list_ex_iff)
  show "List.find (\<lambda>k. task_id (entry_at s k) = t) [0..<sch_len s] = Some k \<Longrightarrow>
      k < sch_len s \<and> task_id (ready s ! k) = t"
    using entry_at_ready [OF assms] by (auto simp: find_Some_iff)
qed

text \<open>Removing a task by number filters it out of the ready list.\<close>

lemma sched_remove_ready:
  assumes "sched_sized s" and "distinct (ready_ids s)"
  shows "fst (sched_remove s t) \<longleftrightarrow> t \<in> set (ready_ids s)"
    and "ready (snd (sched_remove s t)) = filter (\<lambda>e. task_id e \<noteq> t) (ready s)"
    and "sched_sized (snd (sched_remove s t))"
proof -
  let ?f = "List.find (\<lambda>k. task_id (entry_at s k) = t) [0..<sch_len s]"
  show "fst (sched_remove s t) \<longleftrightarrow> t \<in> set (ready_ids s)"
    using find_offset(1) [OF assms(1), of t] by (cases ?f) (simp_all add: sched_remove_def)
  show "ready (snd (sched_remove s t)) = filter (\<lambda>e. task_id e \<noteq> t) (ready s)"
  proof (cases ?f)
    case None
    with find_offset(1) [OF assms(1), of t] have "t \<notin> set (ready_ids s)" by simp
    then have "filter (\<lambda>e. task_id e \<noteq> t) (ready s) = ready s" by (auto simp: filter_id_conv)
    with None show ?thesis by (simp add: sched_remove_def)
  next
    case (Some k)
    with find_offset(2) [OF assms(1) Some] remove_at_ready(2) [OF assms(1), of k]
      delete_nth_filter [OF assms(2), of k]
    show ?thesis by (simp add: sched_remove_def)
  qed
  show "sched_sized (snd (sched_remove s t))"
    using remove_at_ready(3) [OF assms(1)] find_offset(2) [OF assms(1)] assms(1)
    by (cases ?f) (auto simp: sched_remove_def)
qed

lemma sched_remove_other [simp]:
  "blocked_tasks (snd (sched_remove s t)) = blocked_tasks s"
  "sch_blocked_len (snd (sched_remove s t)) = sch_blocked_len s"
  "current_task (snd (sched_remove s t)) = current_task s"
  "timer_ticks (snd (sched_remove s t)) = timer_ticks s"
  "quantum_ticks (snd (sched_remove s t)) = quantum_ticks s"
  "sch_initialized (snd (sched_remove s t)) = sch_initialized s"
  by (simp_all add: sched_remove_def split: option.split)

lemma remove_blocked_tasks:
  assumes "sched_sized s" and "distinct (blocked_tasks s)"
  shows "fst (remove_blocked s t) \<longleftrightarrow> t \<in> set (blocked_tasks s)"
    and "blocked_tasks (snd (remove_blocked s t)) = filter (\<lambda>b. b \<noteq> t) (blocked_tasks s)"
    and "sched_sized (snd (remove_blocked s t))"
proof -
  let ?p = "position (\<lambda>b. b = t) (blocked_tasks s)"
  have fold: "fold (\<lambda>i xs. xs[i := xs ! Suc i]) = fold (shift_list :: nat \<Rightarrow> u64 list \<Rightarrow> u64 list)"
    by (rule arg_cong [of _ _ fold]) (simp add: shift_list_def fun_eq_iff)
  have len: "length (fold shift_list ks xs) = length xs" for ks and xs :: "u64 list"
    by (induction ks arbitrary: xs) (simp_all add: shift_list_def)
  have n: "length (sch_blocked s) = QUEUE_CAPACITY" "sch_blocked_len s \<le> QUEUE_CAPACITY"
    using assms(1) by (auto simp: sched_sized_def)
  show "fst (remove_blocked s t) \<longleftrightarrow> t \<in> set (blocked_tasks s)"
    using position_None_iff [of "\<lambda>b. b = t" "blocked_tasks s"]
    by (cases ?p) (auto simp: remove_blocked_def blocked_tasks_def Let_def)
  show "blocked_tasks (snd (remove_blocked s t)) = filter (\<lambda>b. b \<noteq> t) (blocked_tasks s)"
  proof (cases ?p)
    case None
    then have "filter (\<lambda>b. b \<noteq> t) (blocked_tasks s) = blocked_tasks s"
      by (auto simp: filter_id_conv position_None_iff)
    with None show ?thesis by (simp add: remove_blocked_def blocked_tasks_def)
  next
    case (Some k)
    from position_SomeD [OF Some] have k: "k < sch_blocked_len s" "blocked_tasks s ! k = t"
      using n by (auto simp: blocked_tasks_def)
    have "blocked_tasks (snd (remove_blocked s t)) = delete_nth k (blocked_tasks s)"
      using delete_nth_fold [OF k(1), of "sch_blocked s" 0] n Some
      by (simp add: remove_blocked_def blocked_tasks_def Let_def fold)
    also have "\<dots> = filter (\<lambda>b. b \<noteq> t) (blocked_tasks s)"
      using delete_nth_filter [of id "blocked_tasks s" k] assms(2) k n by (simp add: blocked_tasks_def)
    finally show ?thesis .
  qed
  show "sched_sized (snd (remove_blocked s t))"
    using assms(1) by (auto simp: remove_blocked_def sched_sized_def Let_def fold len split: option.split)
qed

lemma remove_blocked_other [simp]:
  "ready (snd (remove_blocked s t)) = ready s"
  "sch_len (snd (remove_blocked s t)) = sch_len s"
  "current_task (snd (remove_blocked s t)) = current_task s"
  "timer_ticks (snd (remove_blocked s t)) = timer_ticks s"
  "quantum_ticks (snd (remove_blocked s t)) = quantum_ticks s"
  "sch_initialized (snd (remove_blocked s t)) = sch_initialized s"
  by (simp_all add: remove_blocked_def Let_def ready_def split: option.split)

section \<open>The invariant\<close>

text \<open>
  No task is 0 or appears twice, among the ready, the blocked and the current task; the
  ready list is in the order in which its tasks became ready.
\<close>

definition sched_inv :: "Scheduler \<Rightarrow> bool" where
  "sched_inv s \<longleftrightarrow> sched_sized s
     \<and> distinct (ready_ids s @ blocked_tasks s) \<and> 0 \<notin> set (ready_ids s @ blocked_tasks s)
     \<and> current_task s \<notin> set (ready_ids s @ blocked_tasks s)
     \<and> sorted (map ready_since (ready s))
     \<and> (\<forall>e \<in> set (ready s). ready_since e \<le> timer_ticks s)
     \<and> 0 < quantum_ticks s"

lemma sched_invD:
  assumes "sched_inv s"
  shows "sched_sized s" "distinct (ready_ids s)" "distinct (blocked_tasks s)"
    "0 \<notin> set (ready_ids s)" "current_task s \<notin> set (ready_ids s)"
    "current_task s \<notin> set (blocked_tasks s)" "0 < quantum_ticks s"
  using assms by (auto simp: sched_inv_def)

text \<open>The invariant speaks of these components only.\<close>

lemma sched_inv_cong:
  assumes "sched_inv s" and "sched_sized t" and "ready t = ready s" and "blocked_tasks t = blocked_tasks s"
    and "current_task t = current_task s" and "timer_ticks s \<le> timer_ticks t"
    and "quantum_ticks t = quantum_ticks s"
  shows "sched_inv t"
  using assms by (auto simp: sched_inv_def intro: order_trans)

lemma enqueue_at_cases:
  assumes "sched_sized s"
  shows "t = 0 \<Longrightarrow> enqueue_at s t since = (False, s\<lparr>failed_enqueues := sat_add (failed_enqueues s) 1\<rparr>)"
    and "t \<noteq> 0 \<Longrightarrow> t \<in> set (ready_ids s) \<or> current_task s = t \<Longrightarrow> enqueue_at s t since = (True, s)"
    and "t \<noteq> 0 \<Longrightarrow> t \<notin> set (ready_ids s) \<Longrightarrow> current_task s \<noteq> t \<Longrightarrow> sch_len s = QUEUE_CAPACITY \<Longrightarrow>
      enqueue_at s t since = (False, s\<lparr>failed_enqueues := sat_add (failed_enqueues s) 1\<rparr>)"
  using sched_contains_iff [OF assms, of t] by (auto simp: enqueue_at_def)

lemma enqueue_at_new:
  assumes "sched_sized s" and "t \<noteq> 0" and "t \<notin> set (ready_ids s)" and "current_task s \<noteq> t"
    and "sch_len s < QUEUE_CAPACITY"
  shows "fst (enqueue_at s t since)"
    and "ready (snd (enqueue_at s t since)) = ready s @ [\<lparr>task_id = t, ready_since = since\<rparr>]"
    and "sched_sized (snd (enqueue_at s t since))"
    and "snd (enqueue_at s t since) =
      s\<lparr>sch_queue := sch_queue (snd (enqueue_at s t since)), sch_len := sch_len s + 1\<rparr>"
proof -
  have eq: "enqueue_at s t since = (True, s\<lparr>sch_queue := (sch_queue s)[(sch_head s + sch_len s) mod
      QUEUE_CAPACITY := \<lparr>task_id = t, ready_since = since\<rparr>], sch_len := sch_len s + 1\<rparr>)"
    using assms sched_contains_iff [OF assms(1), of t] by (simp add: enqueue_at_def)
  show "fst (enqueue_at s t since)" by (simp add: eq)
  show "ready (snd (enqueue_at s t since)) = ready s @ [\<lparr>task_id = t, ready_since = since\<rparr>]"
    using ring_list_push [of "sch_len s" "sch_queue s" "sch_head s"] assms(1,5)
    by (simp add: eq ready_def sched_sized_def)
  show "sched_sized (snd (enqueue_at s t since))" using assms(1,5) by (auto simp: eq sched_sized_def)
  show "snd (enqueue_at s t since) =
      s\<lparr>sch_queue := sch_queue (snd (enqueue_at s t since)), sch_len := sch_len s + 1\<rparr>"
    by (simp add: eq)
qed

lemma enqueue_at_other [simp]:
  "blocked_tasks (snd (enqueue_at s t since)) = blocked_tasks s"
  "sch_blocked_len (snd (enqueue_at s t since)) = sch_blocked_len s"
  "current_task (snd (enqueue_at s t since)) = current_task s"
  "timer_ticks (snd (enqueue_at s t since)) = timer_ticks s"
  "quantum_ticks (snd (enqueue_at s t since)) = quantum_ticks s"
  "sch_initialized (snd (enqueue_at s t since)) = sch_initialized s"
  by (simp_all add: enqueue_at_def Let_def blocked_tasks_def)

lemma enqueue_inv:
  assumes "sched_inv s" and "t \<notin> set (blocked_tasks s)"
  shows "sched_inv (snd (enqueue s t))"
proof (cases "t \<noteq> 0 \<and> t \<notin> set (ready_ids s) \<and> current_task s \<noteq> t \<and> sch_len s < QUEUE_CAPACITY")
  case True
  then show ?thesis
    using assms enqueue_at_new [OF sched_invD(1) [OF assms(1)], of t "timer_ticks s"]
    unfolding enqueue_def sched_inv_def by (simp add: sorted_append)
next
  case False
  have "sch_len s \<le> QUEUE_CAPACITY" using assms(1) by (simp add: sched_inv_def sched_sized_def)
  with False have "snd (enqueue s t) = s \<or>
      snd (enqueue s t) = s\<lparr>failed_enqueues := sat_add (failed_enqueues s) 1\<rparr>"
    using enqueue_at_cases [OF sched_invD(1) [OF assms(1)], of t "timer_ticks s"]
    unfolding enqueue_def by (metis le_neq_implies_less snd_conv)
  with assms(1) show ?thesis by (elim disjE) (simp_all add: sched_inv_def)
qed

lemma sorted_filter_ready: "sorted (map ready_since xs) \<Longrightarrow> sorted (map ready_since (filter P xs))"
  by (rule sorted_filter)

text \<open>Taking a task out of the ready and the blocked tasks.\<close>

lemma remove_both:
  fixes s t
  assumes "sched_inv s"
  defines "u \<equiv> snd (remove_blocked (snd (sched_remove s t)) t)"
  shows "sched_sized u" "ready u = filter (\<lambda>e. task_id e \<noteq> t) (ready s)"
    "blocked_tasks u = filter (\<lambda>b. b \<noteq> t) (blocked_tasks s)"
    "current_task u = current_task s" "timer_ticks u = timer_ticks s"
    "quantum_ticks u = quantum_ticks s" "sch_initialized u = sch_initialized s"
proof -
  note r = sched_remove_ready [OF sched_invD(1,2) [OF assms(1)], of t]
  have "distinct (blocked_tasks (snd (sched_remove s t)))" using sched_invD(3) [OF assms(1)] by simp
  note b = remove_blocked_tasks [OF r(3) this, of t]
  show "sched_sized u" "ready u = filter (\<lambda>e. task_id e \<noteq> t) (ready s)"
    "blocked_tasks u = filter (\<lambda>b. b \<noteq> t) (blocked_tasks s)"
    "current_task u = current_task s" "timer_ticks u = timer_ticks s"
    "quantum_ticks u = quantum_ticks s" "sch_initialized u = sch_initialized s"
    unfolding u_def using r b by simp_all
qed

lemma map_filter_ids: "map task_id (filter (\<lambda>e. task_id e \<noteq> t) xs) = filter (\<lambda>i. i \<noteq> t) (map task_id xs)"
  by (simp add: filter_map o_def)

lemma begin_task_state:
  assumes "sched_inv s"
  shows "ready (begin_task s t) = filter (\<lambda>e. task_id e \<noteq> t) (ready s)"
    "blocked_tasks (begin_task s t) = filter (\<lambda>b. b \<noteq> t) (blocked_tasks s)"
    "current_task (begin_task s t) = t" "sched_sized (begin_task s t)"
    "timer_ticks (begin_task s t) = timer_ticks s" "quantum_ticks (begin_task s t) = quantum_ticks s"
    "sch_initialized (begin_task s t) = sch_initialized s"
  using remove_both [OF assms, of t]
  by (simp_all add: begin_task_def Let_def)

lemma begin_task_inv:
  assumes "sched_inv s"
  shows "sched_inv (begin_task s t)"
  using begin_task_state [OF assms, of t] assms
  unfolding sched_inv_def by (auto simp: map_filter_ids sorted_filter_ready)

lemma finish_task_state:
  assumes "sched_inv s"
  shows "ready (finish_task s t) = filter (\<lambda>e. task_id e \<noteq> t) (ready s)"
    "blocked_tasks (finish_task s t) = filter (\<lambda>b. b \<noteq> t) (blocked_tasks s)"
    "current_task (finish_task s t) = (if current_task s = t then 0 else current_task s)"
    "sched_sized (finish_task s t)" "timer_ticks (finish_task s t) = timer_ticks s"
    "quantum_ticks (finish_task s t) = quantum_ticks s"
    "sch_initialized (finish_task s t) = sch_initialized s"
proof -
  define s1 where "s1 = (if current_task s = t
    then s\<lparr>current_task := 0, slice_ticks := 0, last_switch_tick := timer_ticks s\<rparr> else s)"
  have sel: "ready s1 = ready s" "blocked_tasks s1 = blocked_tasks s" "timer_ticks s1 = timer_ticks s"
    "quantum_ticks s1 = quantum_ticks s" "sch_initialized s1 = sch_initialized s"
    "current_task s1 = (if current_task s = t then 0 else current_task s)"
    by (simp_all add: s1_def)
  have "sched_sized s1" using sched_invD(1) [OF assms] by (simp add: s1_def)
  then have "sched_inv s1" using assms by (auto simp: sched_inv_def sel)
  from remove_both [OF this, of t] sel show
    "ready (finish_task s t) = filter (\<lambda>e. task_id e \<noteq> t) (ready s)"
    "blocked_tasks (finish_task s t) = filter (\<lambda>b. b \<noteq> t) (blocked_tasks s)"
    "current_task (finish_task s t) = (if current_task s = t then 0 else current_task s)"
    "sched_sized (finish_task s t)" "timer_ticks (finish_task s t) = timer_ticks s"
    "quantum_ticks (finish_task s t) = quantum_ticks s"
    "sch_initialized (finish_task s t) = sch_initialized s"
    by (simp_all add: finish_task_def s1_def [symmetric] Let_def)
qed

lemma finish_task_inv:
  assumes "sched_inv s"
  shows "sched_inv (finish_task s t)"
  using finish_task_state [OF assms, of t] assms
  unfolding sched_inv_def by (auto simp: map_filter_ids sorted_filter_ready)

lemma yield_current_inv: "sched_inv s \<Longrightarrow> sched_inv (snd (yield_current s))"
  by (simp add: yield_current_def Let_def sched_inv_def)

lemma on_timer_tick_state:
  "ready (on_timer_tick s) = ready s" "blocked_tasks (on_timer_tick s) = blocked_tasks s"
  "current_task (on_timer_tick s) = current_task s" "sched_sized (on_timer_tick s) = sched_sized s"
  "timer_ticks (on_timer_tick s) = sat_add (timer_ticks s) 1"
  "quantum_ticks (on_timer_tick s) = quantum_ticks s"
  "sch_initialized (on_timer_tick s) = sch_initialized s" "sch_len (on_timer_tick s) = sch_len s"
  by (simp_all add: on_timer_tick_def Let_def)

lemma on_timer_tick_inv: "sched_inv s \<Longrightarrow> sched_inv (on_timer_tick s)"
  by (rule sched_inv_cong [of s])
    (auto simp: on_timer_tick_state sched_invD(1) sat_add_le)

lemma timer_interrupt_inv: "sched_inv s \<Longrightarrow> sched_inv (timer_interrupt s)"
  by (simp add: timer_interrupt_def on_timer_tick_inv)

section \<open>Blocking and waking\<close>

lemma push_blocked_state:
  assumes "sched_sized s" and "sch_blocked_len s < QUEUE_CAPACITY"
  shows "blocked_tasks (push_blocked s t) = blocked_tasks s @ [t]"
    and "sched_sized (push_blocked s t)" and "ready (push_blocked s t) = ready s"
    and "current_task (push_blocked s t) = current_task s"
    and "timer_ticks (push_blocked s t) = timer_ticks s"
    and "quantum_ticks (push_blocked s t) = quantum_ticks s"
    and "sch_initialized (push_blocked s t) = sch_initialized s"
  using assms
  by (simp_all add: push_blocked_def blocked_tasks_def sched_sized_def ready_def
      take_Suc_conv_app_nth Suc_le_eq)

lemma block_task_state:
  assumes "sched_inv s" and "t \<noteq> 0" and "t \<notin> set (blocked_tasks s)"
    and "sch_blocked_len s < QUEUE_CAPACITY" and "current_task s = t \<or> t \<in> set (ready_ids s)"
  shows "fst (block_task s t)"
    and "blocked_tasks (snd (block_task s t)) = blocked_tasks s @ [t]"
    and "ready (snd (block_task s t)) = filter (\<lambda>e. task_id e \<noteq> t) (ready s)"
    and "current_task (snd (block_task s t)) = (if current_task s = t then 0 else current_task s)"
    and "sched_sized (snd (block_task s t))"
    and "timer_ticks (snd (block_task s t)) = timer_ticks s"
    and "quantum_ticks (snd (block_task s t)) = quantum_ticks s"
proof -
  define s1 where "s1 = (if current_task s = t then s\<lparr>current_task := 0, slice_ticks := 0\<rparr>
    else snd (sched_remove s t))"
  note r = sched_remove_ready [OF sched_invD(1,2) [OF assms(1)], of t]
  have known: "current_task s \<noteq> t \<Longrightarrow> fst (sched_remove s t)" using assms(5) r(1) by blast
  have "filter (\<lambda>e. task_id e \<noteq> t) (ready s) = ready s" if "current_task s = t"
    using sched_invD(5) [OF assms(1)] that by (auto simp: filter_id_conv image_iff)
  then have s1: "ready s1 = filter (\<lambda>e. task_id e \<noteq> t) (ready s)" "sched_sized s1"
    "blocked_tasks s1 = blocked_tasks s" "sch_blocked_len s1 = sch_blocked_len s"
    "current_task s1 = (if current_task s = t then 0 else current_task s)"
    "timer_ticks s1 = timer_ticks s" "quantum_ticks s1 = quantum_ticks s"
    using r sched_invD(1) [OF assms(1)] by (simp_all add: s1_def)
  have eq: "block_task s t = (True, (push_blocked s1 t)\<lparr>block_events :=
      sat_add (block_events (push_blocked s1 t)) 1\<rparr>)"
    using assms(2-4) known
    by (auto simp: block_task_def contains_blocked_iff s1_def Let_def case_prod_beta)
  note p = push_blocked_state [OF s1(2), of t]
  show "fst (block_task s t)"
    "blocked_tasks (snd (block_task s t)) = blocked_tasks s @ [t]"
    "ready (snd (block_task s t)) = filter (\<lambda>e. task_id e \<noteq> t) (ready s)"
    "current_task (snd (block_task s t)) = (if current_task s = t then 0 else current_task s)"
    "sched_sized (snd (block_task s t))" "timer_ticks (snd (block_task s t)) = timer_ticks s"
    "quantum_ticks (snd (block_task s t)) = quantum_ticks s"
    using p s1 assms(4) by (simp_all add: eq)
qed

lemma block_task_rejects:
  assumes "sched_inv s"
    and "t = 0 \<or> t \<in> set (blocked_tasks s) \<or> sch_blocked_len s = QUEUE_CAPACITY
      \<or> (current_task s \<noteq> t \<and> t \<notin> set (ready_ids s))"
  shows "snd (block_task s t) = s"
proof -
  have "snd (sched_remove s t) = s" if "t \<notin> set (ready_ids s)"
    using that find_offset(1) [OF sched_invD(1) [OF assms(1)], of t] by (simp add: sched_remove_def)
  with sched_remove_ready(1) [OF sched_invD(1,2) [OF assms(1)], of t] assms(2) show ?thesis
    by (auto simp: block_task_def contains_blocked_iff Let_def case_prod_beta)
qed

lemma block_task_inv:
  assumes "sched_inv s"
  shows "sched_inv (snd (block_task s t))"
proof (cases "t = 0 \<or> t \<in> set (blocked_tasks s) \<or> sch_blocked_len s = QUEUE_CAPACITY
      \<or> (current_task s \<noteq> t \<and> t \<notin> set (ready_ids s))")
  case True
  with block_task_rejects [OF assms] assms show ?thesis by simp
next
  case False
  then have "sch_blocked_len s < QUEUE_CAPACITY"
    using sched_invD(1) [OF assms] by (auto simp: sched_sized_def)
  with False block_task_state [OF assms, of t] assms show ?thesis
    unfolding sched_inv_def by (auto simp: map_filter_ids sorted_filter_ready)
qed

lemma wake_task_state:
  assumes "sched_inv s" and "t \<in> set (blocked_tasks s)" and "sch_len s < QUEUE_CAPACITY"
  shows "fst (wake_task s t)"
    and "blocked_tasks (snd (wake_task s t)) = filter (\<lambda>b. b \<noteq> t) (blocked_tasks s)"
    and "ready (snd (wake_task s t)) = ready s @ [\<lparr>task_id = t, ready_since = timer_ticks s\<rparr>]"
    and "current_task (snd (wake_task s t)) = current_task s"
    and "sched_sized (snd (wake_task s t))"
    and "timer_ticks (snd (wake_task s t)) = timer_ticks s"
    and "quantum_ticks (snd (wake_task s t)) = quantum_ticks s"
proof -
  have t: "t \<noteq> 0" "t \<notin> set (ready_ids s)" "current_task s \<noteq> t"
    using assms(1,2) by (auto simp: sched_inv_def)
  note r = remove_blocked_tasks [OF sched_invD(1,3) [OF assms(1)], of t]
  obtain s1 where s1: "remove_blocked s t = (True, s1)" using r(1) assms(2) by (metis prod.collapse)
  note r = r [unfolded s1 snd_conv] and o = remove_blocked_other [of s t, unfolded s1 snd_conv]
  have c: "\<not> sched_contains s t" using t(2) sched_contains_iff [OF sched_invD(1) [OF assms(1)]] by blast
  note e = enqueue_at_new [OF r(3) t(1), of "timer_ticks s"]
  obtain s2 where s2: "enqueue_at s1 t (timer_ticks s1) = (True, s2)"
    using e(1) t o assms(3) by (metis prod.collapse)
  have n: "ready s2 = ready s @ [\<lparr>task_id = t, ready_since = timer_ticks s\<rparr>]" "sched_sized s2"
    using e(2,3) s2 t o assms(3) by simp_all
  note o2 = enqueue_at_other [of s1 t "timer_ticks s1", unfolded s2 snd_conv]
  have eq: "wake_task s t = (True, s2\<lparr>wake_events := sat_add (wake_events s2) 1\<rparr>)"
    using t c s1 s2 by (simp add: wake_task_def)
  show "fst (wake_task s t)"
    "blocked_tasks (snd (wake_task s t)) = filter (\<lambda>b. b \<noteq> t) (blocked_tasks s)"
    "ready (snd (wake_task s t)) = ready s @ [\<lparr>task_id = t, ready_since = timer_ticks s\<rparr>]"
    "current_task (snd (wake_task s t)) = current_task s" "sched_sized (snd (wake_task s t))"
    "timer_ticks (snd (wake_task s t)) = timer_ticks s"
    "quantum_ticks (snd (wake_task s t)) = quantum_ticks s"
    using r n o o2 by (simp_all add: eq)
qed

lemma wake_task_full:
  assumes "sched_inv s" and "t \<in> set (blocked_tasks s)" and "sch_len s = QUEUE_CAPACITY"
  shows "\<not> fst (wake_task s t)"
    and "blocked_tasks (snd (wake_task s t)) = filter (\<lambda>b. b \<noteq> t) (blocked_tasks s) @ [t]"
    and "ready (snd (wake_task s t)) = ready s" and "sched_sized (snd (wake_task s t))"
    and "current_task (snd (wake_task s t)) = current_task s"
    and "timer_ticks (snd (wake_task s t)) = timer_ticks s"
    and "quantum_ticks (snd (wake_task s t)) = quantum_ticks s"
proof -
  have t: "t \<noteq> 0" "t \<notin> set (ready_ids s)" "current_task s \<noteq> t"
    using assms(1,2) by (auto simp: sched_inv_def)
  note r = remove_blocked_tasks [OF sched_invD(1,3) [OF assms(1)], of t]
  obtain s1 where s1: "remove_blocked s t = (True, s1)" using r(1) assms(2) by (metis prod.collapse)
  note r = r [unfolded s1 snd_conv] and o = remove_blocked_other [of s t, unfolded s1 snd_conv]
  have c: "\<not> sched_contains s t" using t(2) sched_contains_iff [OF sched_invD(1) [OF assms(1)]] by blast
  let ?s2 = "s1\<lparr>failed_enqueues := sat_add (failed_enqueues s1) 1\<rparr>"
  have "enqueue_at s1 t (timer_ticks s1) = (False, ?s2)"
    using t o assms(3) by (intro enqueue_at_cases(3) [OF r(3)]) simp_all
  then have eq: "wake_task s t = (False, (push_blocked ?s2 t)\<lparr>failed_wakeups :=
      sat_add (failed_wakeups (push_blocked ?s2 t)) 1\<rparr>)"
    using t c s1 by (simp add: wake_task_def Let_def)
  have "length (blocked_tasks s1) < length (blocked_tasks s)"
    unfolding r(2) using assms(2) by (rule length_filter_less) simp
  moreover have "length (blocked_tasks u) = sch_blocked_len u" if "sched_sized u" for u
    using that by (simp add: blocked_tasks_def sched_sized_def)
  ultimately have room: "sch_blocked_len ?s2 < QUEUE_CAPACITY"
    using r(3) sched_invD(1) [OF assms(1)] by (fastforce simp: sched_sized_def)
  have "sched_sized ?s2" using r(3) by simp
  note p = push_blocked_state [OF this room, of t]
  show "\<not> fst (wake_task s t)"
    "blocked_tasks (snd (wake_task s t)) = filter (\<lambda>b. b \<noteq> t) (blocked_tasks s) @ [t]"
    "ready (snd (wake_task s t)) = ready s" "sched_sized (snd (wake_task s t))"
    "current_task (snd (wake_task s t)) = current_task s"
    "timer_ticks (snd (wake_task s t)) = timer_ticks s"
    "quantum_ticks (snd (wake_task s t)) = quantum_ticks s"
    using p r o by (simp_all add: eq)
qed

lemma wake_task_not_blocked:
  assumes "sched_inv s" and "t \<notin> set (blocked_tasks s)"
  shows "snd (wake_task s t) = s \<or>
    snd (wake_task s t) = s\<lparr>failed_wakeups := sat_add (failed_wakeups s) 1\<rparr>"
proof -
  have "position (\<lambda>b. b = t) (blocked_tasks s) = None" using assms(2) by (auto simp: position_None_iff)
  then have "remove_blocked s t = (False, s)" by (simp add: remove_blocked_def blocked_tasks_def)
  then show ?thesis by (simp add: wake_task_def)
qed

lemma wake_task_inv:
  assumes "sched_inv s"
  shows "sched_inv (snd (wake_task s t))"
proof (cases "t \<in> set (blocked_tasks s)")
  case False
  from wake_task_not_blocked [OF assms this] assms show ?thesis
    by (elim disjE) (simp_all add: sched_inv_def)
next
  case True
  have t: "t \<noteq> 0" "t \<notin> set (ready_ids s)" "current_task s \<noteq> t"
    using assms True by (auto simp: sched_inv_def)
  show ?thesis
  proof (cases "sch_len s < QUEUE_CAPACITY")
    case room: True
    from wake_task_state [OF assms True room] assms t show ?thesis
      unfolding sched_inv_def by (auto simp: sorted_append)
  next
    case False
    then have "sch_len s = QUEUE_CAPACITY" using sched_invD(1) [OF assms] by (simp add: sched_sized_def)
    from wake_task_full [OF assms True this] assms t show ?thesis
      unfolding sched_inv_def by auto
  qed
qed

section \<open>Choosing the next task\<close>

definition wait_of :: "Scheduler \<Rightarrow> nat \<Rightarrow> u64" where
  "wait_of s k = sat_sub (timer_ticks s) (ready_since (ready s ! k))"

lemma scan_spec:
  assumes "sched_sized s" and "n \<le> sch_len s" and "fold (scan_wait s) [0..<n] (0, 0) = (k, w)"
  shows "(\<forall>i < n. wait_of s i \<le> w) \<and>
    (k = 0 \<and> w = 0 \<or> k < n \<and> wait_of s k = w \<and> (\<forall>i < k. wait_of s i < w))"
  using assms(2,3)
proof (induction n arbitrary: k w)
  case 0
  then show ?case by simp
next
  case (Suc n)
  obtain k' w' where f: "fold (scan_wait s) [0..<n] (0, 0) = (k', w')" by fastforce
  have e: "entry_at s n = ready s ! n" using entry_at_ready [OF assms(1)] Suc.prems(1) by simp
  have IH: "(\<forall>i < n. wait_of s i \<le> w') \<and>
    (k' = 0 \<and> w' = 0 \<or> k' < n \<and> wait_of s k' = w' \<and> (\<forall>i < k'. wait_of s i < w'))"
    using Suc.IH [OF _ f] Suc.prems(1) by simp
  have kw: "(k, w) = (if w' < wait_of s n then (n, wait_of s n) else (k', w'))"
  proof -
    have "scan_wait s n (k', w') = (k, w)" using Suc.prems(2) f by simp
    then show ?thesis using e by (auto simp: scan_wait_def wait_of_def Let_def split: if_splits)
  qed
  show ?case
  proof (cases "w' < wait_of s n")
    case True
    with IH kw show ?thesis by (auto simp: less_Suc_eq intro: le_less_trans order.strict_implies_order)
  next
    case False
    with IH kw show ?thesis by (auto simp: less_Suc_eq not_less)
  qed
qed

lemma select_next_offset_bound:
  assumes "sched_sized s" and "0 < sch_len s"
  shows "fst (select_next_offset s) < sch_len s"
proof -
  obtain k w where f: "fold (scan_wait s) [0..<sch_len s] (0, 0) = (k, w)" by fastforce
  from scan_spec [OF assms(1) le_refl f] assms(2) f show ?thesis
    by (auto simp: select_next_offset_def)
qed

text \<open>On a list in the order of readiness the oldest entry is the first.\<close>

lemma select_next_offset_first:
  assumes "sched_inv s" and "0 < sch_len s"
  shows "select_next_offset s = (0, False)"
proof -
  obtain k w where f: "fold (scan_wait s) [0..<sch_len s] (0, 0) = (k, w)" by fastforce
  note spec = scan_spec [OF sched_invD(1) [OF assms(1)] le_refl f]
  have "k = 0"
  proof (rule ccontr)
    assume "k \<noteq> 0"
    with spec have k: "k < sch_len s" "wait_of s k = w" "wait_of s 0 < w" by auto
    have "ready_since (ready s ! 0) \<le> ready_since (ready s ! k)"
      using assms(1) k(1) sorted_nth_mono [of "map ready_since (ready s)" 0 k]
      by (simp add: sched_inv_def)
    then have "wait_of s k \<le> wait_of s 0"
      by (simp add: wait_of_def word_le_nat_alt unat_sat_sub)
    with k show False by simp
  qed
  with f show ?thesis by (simp add: select_next_offset_def)
qed

lemma delete_first: "0 < length xs \<Longrightarrow> delete_nth 0 xs = tl xs"
  by (cases xs) (simp_all add: delete_nth_def)

text \<open>The first ready task is taken off the list.\<close>

lemma take_first:
  assumes "sched_inv s" and "ready s = e # es"
  obtains s1 where "select_next_offset s = (0, False)" and "remove_at s 0 = (e, s1)"
    and "ready s1 = es" and "sched_sized s1" and "task_id e \<noteq> 0"
    and "blocked_tasks s1 = blocked_tasks s" and "sch_blocked_len s1 = sch_blocked_len s"
    and "current_task s1 = current_task s" and "timer_ticks s1 = timer_ticks s"
    and "quantum_ticks s1 = quantum_ticks s" and "sch_initialized s1 = sch_initialized s"
proof -
  have len: "0 < sch_len s" using assms(2) length_ready [of s] by simp
  note r = remove_at_ready [OF sched_invD(1) [OF assms(1)] len]
  obtain s1 where s1: "remove_at s 0 = (e, s1)"
    using r(1) assms(2) by (metis nth_Cons_0 prod.collapse)
  note o = remove_at_other [of s 0, unfolded s1 snd_conv]
  have "task_id e \<noteq> 0" using sched_invD(4) [OF assms(1)] assms(2) by auto
  moreover have "ready s1 = es" using r(2) s1 assms(2) len by (simp add: delete_nth_def)
  ultimately show ?thesis
    using that [OF select_next_offset_first [OF assms(1) len] s1] r(3) o s1 by simp
qed

section \<open>Switching tasks\<close>

lemma preempt_current_state:
  assumes "sched_inv s" and "sch_initialized s" and "current_task s \<noteq> 0"
    and "ready s = e # es" and "quantum_ticks s \<le> slice_ticks s"
  defines "r \<equiv> preempt_current s"
  shows "fst r = \<lparr>switched = True, previous_task = current_task s, next_task = task_id e,
      waited_ticks = sat_sub (timer_ticks s) (ready_since e), starvation_guard = False\<rparr>"
    and "ready (snd r) = es @ [\<lparr>task_id = current_task s, ready_since = timer_ticks s\<rparr>]"
    and "current_task (snd r) = task_id e" and "blocked_tasks (snd r) = blocked_tasks s"
    and "sched_sized (snd r)" and "timer_ticks (snd r) = timer_ticks s"
    and "quantum_ticks (snd r) = quantum_ticks s" and "sch_initialized (snd r)"
    and "slice_ticks (snd r) = 0"
proof -
  obtain s1 where n: "select_next_offset s = (0, False)" "remove_at s 0 = (e, s1)" "ready s1 = es"
    "sched_sized s1" "task_id e \<noteq> 0" "blocked_tasks s1 = blocked_tasks s"
    "sch_blocked_len s1 = sch_blocked_len s" "current_task s1 = current_task s"
    "timer_ticks s1 = timer_ticks s" "quantum_ticks s1 = quantum_ticks s"
    "sch_initialized s1 = sch_initialized s"
    by (rule take_first [OF assms(1,4)])
  define s2 where "s2 = s1\<lparr>max_wait_ticks := max (max_wait_ticks s1)
    (sat_sub (timer_ticks s1) (ready_since e)), current_task := 0\<rparr>"
  have sel: "ready s2 = es" "sched_sized s2" "current_task s2 = 0" "timer_ticks s2 = timer_ticks s"
    "blocked_tasks s2 = blocked_tasks s" "quantum_ticks s2 = quantum_ticks s" "sch_initialized s2"
    using n assms(2) by (simp_all add: s2_def)
  have "sch_len s \<le> QUEUE_CAPACITY" using sched_invD(1) [OF assms(1)] by (simp add: sched_sized_def)
  then have room: "sch_len s2 < QUEUE_CAPACITY"
    using assms(4) sel(1) length_ready [of s] length_ready [of s2] by simp
  have "current_task s \<notin> set (map task_id es)" using sched_invD(5) [OF assms(1)] assms(4) by auto
  then have new: "current_task s \<notin> set (ready_ids s2)" "current_task s2 \<noteq> current_task s"
    using sel assms(3) by auto
  note q = enqueue_at_new [OF sel(2) assms(3) new room, of "timer_ticks s2"]
  obtain s3 where s3: "enqueue_at s2 (current_task s) (timer_ticks s2) = (True, s3)"
    using q(1) by (metis prod.collapse)
  note q = q [unfolded s3 snd_conv]
  note o = enqueue_at_other [of s2 "current_task s" "timer_ticks s2", unfolded s3 snd_conv]
  have len: "sch_len s \<noteq> 0" using assms(4) length_ready [of s] by simp
  have tk: "timer_ticks s2 = timer_ticks s1" by (simp add: s2_def)
  have eq: "r = (\<lparr>switched = True, previous_task = current_task s, next_task = task_id e,
        waited_ticks = sat_sub (timer_ticks s1) (ready_since e), starvation_guard = False\<rparr>,
      s3\<lparr>current_task := task_id e, last_task := task_id e,
         context_switches := sat_add (context_switches s3) 1,
         timer_preemptions := sat_add (timer_preemptions s3) 1,
         round_robin_rotations := sat_add (round_robin_rotations s3) 1,
         last_switch_tick := timer_ticks s3, slice_ticks := 0\<rparr>)"
    using assms(2,3,5) len n(1,2,5) s3 [unfolded tk]
    by (simp add: r_def preempt_current_def Let_def s2_def [symmetric] not_less)
  show "fst r = \<lparr>switched = True, previous_task = current_task s, next_task = task_id e,
      waited_ticks = sat_sub (timer_ticks s) (ready_since e), starvation_guard = False\<rparr>"
    "ready (snd r) = es @ [\<lparr>task_id = current_task s, ready_since = timer_ticks s\<rparr>]"
    "current_task (snd r) = task_id e" "blocked_tasks (snd r) = blocked_tasks s"
    "sched_sized (snd r)" "timer_ticks (snd r) = timer_ticks s"
    "quantum_ticks (snd r) = quantum_ticks s" "sch_initialized (snd r)" "slice_ticks (snd r) = 0"
    using n(9) sel q o by (simp_all add: eq)
qed

lemma preempt_current_refuses:
  assumes "\<not> sch_initialized s \<or> current_task s = 0 \<or> ready s = [] \<or> slice_ticks s < quantum_ticks s"
  shows "preempt_current s = (PreemptionDecision_none (current_task s), s)"
proof -
  have "ready s = [] \<Longrightarrow> sch_len s = 0" using length_ready [of s] by simp
  with assms show ?thesis by (auto simp: preempt_current_def Let_def)
qed

lemma preempt_current_inv:
  assumes "sched_inv s"
  shows "sched_inv (snd (preempt_current s))"
proof (cases "\<not> sch_initialized s \<or> current_task s = 0 \<or> ready s = [] \<or> slice_ticks s < quantum_ticks s")
  case True
  with preempt_current_refuses assms show ?thesis by simp
next
  case False
  then obtain e es where e: "ready s = e # es" by (cases "ready s") auto
  have "sch_initialized s" "current_task s \<noteq> 0" "quantum_ticks s \<le> slice_ticks s" using False by auto
  from preempt_current_state [OF assms this(1,2) e this(3)] assms this(2) e show ?thesis
    unfolding sched_inv_def by (auto simp: sorted_append)
qed

lemma dispatch_state:
  assumes "sched_inv s" and "sch_initialized s" and "current_task s \<noteq> 0"
    and "ready s = e # es" and "sch_blocked_len s < QUEUE_CAPACITY"
  defines "r \<equiv> block_current_and_dispatch s (current_task s)"
  shows "fst r = \<lparr>switched = True, previous_task = current_task s, next_task = task_id e,
      waited_ticks = sat_sub (timer_ticks s) (ready_since e), starvation_guard = False\<rparr>"
    and "ready (snd r) = es" and "current_task (snd r) = task_id e"
    and "blocked_tasks (snd r) = blocked_tasks s @ [current_task s]"
    and "sched_sized (snd r)" and "timer_ticks (snd r) = timer_ticks s"
    and "quantum_ticks (snd r) = quantum_ticks s" and "sch_initialized (snd r)"
    and "slice_ticks (snd r) = 0"
proof -
  obtain s1 where n: "select_next_offset s = (0, False)" "remove_at s 0 = (e, s1)" "ready s1 = es"
    "sched_sized s1" "task_id e \<noteq> 0" "blocked_tasks s1 = blocked_tasks s"
    "sch_blocked_len s1 = sch_blocked_len s" "current_task s1 = current_task s"
    "timer_ticks s1 = timer_ticks s" "quantum_ticks s1 = quantum_ticks s"
    "sch_initialized s1 = sch_initialized s"
    by (rule take_first [OF assms(1,4)])
  define s1' where "s1' = s1\<lparr>max_wait_ticks := max (max_wait_ticks s1)
    (sat_sub (timer_ticks s1) (ready_since e))\<rparr>"
  have "sched_sized s1'" "sch_blocked_len s1' < QUEUE_CAPACITY"
    using n assms(5) by (simp_all add: s1'_def)
  note p = push_blocked_state [OF this, of "current_task s"]
  have len: "sch_len s \<noteq> 0" using assms(4) length_ready [of s] by simp
  define s2 where "s2 = push_blocked s1' (current_task s)"
  have eq: "r = (\<lparr>switched = True, previous_task = current_task s, next_task = task_id e,
        waited_ticks = sat_sub (timer_ticks s1) (ready_since e), starvation_guard = False\<rparr>,
      s2\<lparr>current_task := task_id e, last_task := task_id e,
         context_switches := sat_add (context_switches s2) 1,
         block_events := sat_add (block_events s2) 1,
         blocking_switches := sat_add (blocking_switches s2) 1,
         last_switch_tick := timer_ticks s2, slice_ticks := 0\<rparr>)"
    using assms(2,3,5) len n(1,2,5)
    by (simp add: r_def block_current_and_dispatch_def Let_def s1'_def [symmetric] s2_def [symmetric]
        not_le)
  have "ready s1' = es" "blocked_tasks s1' = blocked_tasks s" "timer_ticks s1' = timer_ticks s"
    "quantum_ticks s1' = quantum_ticks s" "sch_initialized s1'"
    using n assms(2) by (simp_all add: s1'_def)
  then show "fst r = \<lparr>switched = True, previous_task = current_task s, next_task = task_id e,
      waited_ticks = sat_sub (timer_ticks s) (ready_since e), starvation_guard = False\<rparr>"
    "ready (snd r) = es" "current_task (snd r) = task_id e"
    "blocked_tasks (snd r) = blocked_tasks s @ [current_task s]"
    "sched_sized (snd r)" "timer_ticks (snd r) = timer_ticks s"
    "quantum_ticks (snd r) = quantum_ticks s" "sch_initialized (snd r)" "slice_ticks (snd r) = 0"
    using n(9) p by (simp_all add: eq s2_def)
qed

lemma dispatch_refuses:
  assumes "\<not> sch_initialized s \<or> t = 0 \<or> current_task s \<noteq> t \<or> ready s = []
    \<or> QUEUE_CAPACITY \<le> sch_blocked_len s"
  shows "block_current_and_dispatch s t = (PreemptionDecision_none (current_task s), s)"
proof -
  have "ready s = [] \<Longrightarrow> sch_len s = 0" using length_ready [of s] by simp
  with assms show ?thesis by (auto simp: block_current_and_dispatch_def)
qed

lemma dispatch_inv:
  assumes "sched_inv s"
  shows "sched_inv (snd (block_current_and_dispatch s t))"
proof (cases "\<not> sch_initialized s \<or> t = 0 \<or> current_task s \<noteq> t \<or> ready s = []
    \<or> QUEUE_CAPACITY \<le> sch_blocked_len s")
  case True
  from dispatch_refuses [OF this] assms show ?thesis by simp
next
  case False
  then obtain e es where e: "ready s = e # es" by (cases "ready s") auto
  have c: "sch_initialized s" "current_task s \<noteq> 0" "sch_blocked_len s < QUEUE_CAPACITY"
    "t = current_task s" using False by auto
  from dispatch_state [OF assms c(1,2) e c(3)] assms c(2,4) e show ?thesis
    unfolding sched_inv_def by auto
qed

lemma sched_init_inv: "sched_inv s \<or> \<not> sch_initialized s \<Longrightarrow> sched_inv (sched_init ticks s)"
  by (auto simp: sched_init_def sched_inv_def)
    (simp_all add: Scheduler_new_def sched_sized_def ready_def blocked_tasks_def QUEUE_CAPACITY_def
      DEFAULT_QUANTUM_TICKS_def)

section \<open>The scheduler as a state machine\<close>

text \<open>Tasks that are blocked are woken, never enqueued again.\<close>

inductive sched_step :: "Scheduler \<Rightarrow> Scheduler \<Rightarrow> bool" where
  sched_enqueue: "\<not> contains_blocked s t \<Longrightarrow> sched_step s (snd (enqueue s t))"
| sched_begin: "sched_step s (begin_task s t)"
| sched_finish: "sched_step s (finish_task s t)"
| sched_yield: "sched_step s (snd (yield_current s))"
| sched_block: "sched_step s (snd (block_task s t))"
| sched_dispatch: "sched_step s (snd (block_current_and_dispatch s t))"
| sched_wake: "sched_step s (snd (wake_task s t))"
| sched_tick: "sched_step s (timer_interrupt s)"
| sched_preempt: "sched_step s (snd (preempt_current s))"

interpretation sched: invariant_machine "\<lambda>s. \<exists>ticks. s = sched_init ticks Scheduler_new" sched_step sched_inv
proof unfold_locales
  show "sched_inv s" if "\<exists>ticks. s = sched_init ticks Scheduler_new" for s
    using that sched_init_inv [of Scheduler_new] by (auto simp: Scheduler_new_def)
  show "sched_inv t" if "sched_inv s" "sched_step s t" for s t
    using that(2,1)
    by (cases rule: sched_step.cases)
      (auto simp: contains_blocked_iff enqueue_inv begin_task_inv finish_task_inv yield_current_inv
        block_task_inv dispatch_inv wake_task_inv timer_interrupt_inv preempt_current_inv)
qed

end
