(* ===== verification/Scheduler_Properties.thy ===== *)
theory Scheduler_Properties
  imports Scheduler_Proofs "HOL-Library.Multiset"
begin

text \<open>The properties of the scheduler over the states it can reach.\<close>

definition sched_reachable :: "Scheduler \<Rightarrow> bool" where
  "sched_reachable s \<longleftrightarrow> (\<exists>ticks. sched_step\<^sup>*\<^sup>* (sched_init ticks Scheduler_new) s)"

lemma sched_reachable_inv: "sched_reachable s \<Longrightarrow> sched_inv s"
  unfolding sched_reachable_def using sched.inv_reachable by blast

lemma sched_reachable_start: "sched_reachable (sched_init ticks Scheduler_new)"
  by (auto simp: sched_reachable_def)

lemma sched_reachable_step: "sched_reachable s \<Longrightarrow> sched_step s t \<Longrightarrow> sched_reachable t"
  unfolding sched_reachable_def by (meson rtranclp.rtrancl_into_rtrancl)

text \<open>Every operation but \<open>init\<close> keeps the flag \<open>initialized\<close>.\<close>

lemma sched_step_initialized:
  assumes "sched_step s t" and "sched_inv s"
  shows "sch_initialized t = sch_initialized s"
  using assms(1)
proof (cases rule: sched_step.cases)
  case (sched_begin t')
  then show ?thesis using begin_task_state(7) [OF assms(2)] by simp
next
  case (sched_finish t')
  then show ?thesis using finish_task_state(7) [OF assms(2)] by simp
qed (auto simp: enqueue_def enqueue_at_def yield_current_def block_task_def
    block_current_and_dispatch_def push_blocked_def wake_task_def timer_interrupt_def
    on_timer_tick_def preempt_current_def Let_def case_prod_beta split: bool.splits)

lemma sched_reachable_initialized:
  assumes "sched_reachable s"
  shows "sch_initialized s"
proof -
  obtain ticks where "sched_step\<^sup>*\<^sup>* (sched_init ticks Scheduler_new) s"
    using assms by (auto simp: sched_reachable_def)
  then have "sch_initialized s \<and> sched_inv s"
  proof (induction rule: rtranclp_induct)
    case base
    then show ?case
      using sched.inv_start by (auto simp: sched_init_def Scheduler_new_def)
  next
    case (step t u)
    then show ?case using sched_step_initialized sched.inv_step by blast
  qed
  then show ?thesis by simp
qed

section \<open>A run\<close>

definition sched_run :: Scheduler where
  "sched_run = timer_interrupt (timer_interrupt (snd (enqueue (snd (enqueue
     (begin_task (sched_init 0 Scheduler_new) 1) 2)) 3)))"

lemma sched_run_reachable: "sched_reachable sched_run"
proof -
  have "\<not> contains_blocked (begin_task (sched_init 0 Scheduler_new) 1) 2" by code_simp
  moreover have "\<not> contains_blocked (snd (enqueue (begin_task (sched_init 0 Scheduler_new) 1) 2)) 3"
    by code_simp
  ultimately show ?thesis
    unfolding sched_run_def
    by (intro sched_reachable_step [OF _ sched_tick] sched_reachable_step [OF _ sched_enqueue]
        sched_reachable_step [OF _ sched_begin] sched_reachable_start)
qed

lemma sched_run_facts:
  "current_task sched_run = 1"
  "ready sched_run = [\<lparr>task_id = 2, ready_since = 0\<rparr>, \<lparr>task_id = 3, ready_since = 0\<rparr>]"
  "quantum_ticks sched_run \<le> slice_ticks sched_run"
  "sch_blocked_len sched_run < QUEUE_CAPACITY"
  by code_simp+

section \<open>Consistency\<close>

lemma sched_inv_selftest:
  assumes "sched_inv s" and "sch_initialized s"
  shows "sched_selftest s"
proof -
  note inv = sched_invD [OF assms(1)]
  note e = entry_at_ready [OF inv(1)]
  have ids: "task_id (ready s ! i) = ready_ids s ! i" if "i < sch_len s" for i using that by simp
  have "\<not> queue_has_duplicates s"
    using inv(2,4) e nth_eq_iff_index_eq [OF inv(2)] nth_mem [of _ "ready_ids s"]
    by (auto simp: queue_has_duplicates_def list_ex_iff)
  moreover have "\<not> blocked_has_duplicates s"
  proof -
    have len: "length (blocked_tasks s) = sch_blocked_len s"
      using inv(1) by (simp add: blocked_tasks_def sched_sized_def)
    have nth: "sch_blocked s ! i = blocked_tasks s ! i" if "i < sch_blocked_len s" for i
      using that by (simp add: blocked_tasks_def)
    have "0 \<notin> set (blocked_tasks s)" using assms(1) by (simp add: sched_inv_def)
    then have "blocked_tasks s ! i \<noteq> 0" if "i < sch_blocked_len s" for i
      using nth_mem [of i "blocked_tasks s"] len that by metis
    then show ?thesis
      using nth nth_eq_iff_index_eq [OF inv(3)] len
      by (auto simp: blocked_has_duplicates_def list_ex_iff)
  qed
  moreover have "task_id (ready s ! i) \<notin> set (blocked_tasks s)" if "i < sch_len s" for i
    using assms(1) ids [OF that] nth_mem [of i "ready_ids s"] that unfolding sched_inv_def
    by (metis disjoint_iff distinct_append length_map length_ready)
  then have "\<not> queue_blocked_overlap s"
    using e by (simp add: queue_blocked_overlap_def list_ex_iff contains_blocked_iff)
  ultimately show ?thesis
    using assms(2) inv(1,7) sched_model_selftest_True
    by (simp add: sched_selftest_def queue_capacity_consistent_def sched_sized_def)
qed

text \<open>
  The scheduler's self test passes in every reachable state: the ring and the table of
  blocked tasks stay within their capacity, no task is 0 or queued twice, no task is both
  ready and blocked, and the scenarios of the test end as expected.
\<close>

theorem sched_reachable_selftest: "sched_reachable s \<Longrightarrow> sched_selftest s"
  by (intro sched_inv_selftest sched_reachable_inv sched_reachable_initialized)

theorem sched_reachable_selftest_witness: "sched_selftest sched_run"
  by (rule sched_reachable_selftest [OF sched_run_reachable])

section \<open>Round robin\<close>

text \<open>
  Preemption is round robin: when the current task has used its quantum and others are
  ready, the first ready task becomes current, the old one goes to the end of the list, and
  the slice starts anew; otherwise nothing changes. The starvation guard is never needed.
\<close>

theorem preempt_round_robin:
  assumes "sched_reachable s"
  shows "if current_task s = 0 \<or> ready s = [] \<or> slice_ticks s < quantum_ticks s
    then preempt_current s = (PreemptionDecision_none (current_task s), s)
    else \<exists>s'. preempt_current s =
          (\<lparr>switched = True, previous_task = current_task s, next_task = task_id (hd (ready s)),
            waited_ticks = sat_sub (timer_ticks s) (ready_since (hd (ready s))),
            starvation_guard = False\<rparr>, s')
      \<and> current_task s' = task_id (hd (ready s))
      \<and> ready s' = tl (ready s) @ [\<lparr>task_id = current_task s, ready_since = timer_ticks s\<rparr>]
      \<and> blocked_tasks s' = blocked_tasks s \<and> slice_ticks s' = 0"
proof (cases "current_task s = 0 \<or> ready s = [] \<or> slice_ticks s < quantum_ticks s")
  case True
  then show ?thesis using preempt_current_refuses by auto
next
  case False
  then obtain e es where e: "ready s = e # es" by (cases "ready s") auto
  from False have c: "current_task s \<noteq> 0" "quantum_ticks s \<le> slice_ticks s" by auto
  note p = preempt_current_state [OF sched_reachable_inv [OF assms]
      sched_reachable_initialized [OF assms] c(1) e c(2)]
  show ?thesis using False p e by (auto intro!: exI [of _ "snd (preempt_current s)"] simp: prod_eq_iff)
qed

theorem preempt_round_robin_witness:
  "\<exists>s'. preempt_current sched_run =
      (\<lparr>switched = True, previous_task = 1, next_task = 2, waited_ticks = sat_sub (timer_ticks sched_run) 0,
        starvation_guard = False\<rparr>, s') \<and> current_task s' = 2"
  using preempt_round_robin [OF sched_run_reachable] sched_run_facts by (auto simp: not_less [symmetric])

text \<open>
  The choice of the next task, for any contents of the ready list: when some task has
  waited for the starvation limit, the choice is the first of those that have waited
  longest, and the guard is raised if it is not at the front; otherwise it is the front.
\<close>

theorem select_next_longest_wait:
  assumes "sched_sized s" and "0 < sch_len s"
  shows "case select_next_offset s of (k, guard) \<Rightarrow>
    k < sch_len s \<and> guard = (k \<noteq> 0)
    \<and> (if \<exists>i < sch_len s. STARVATION_LIMIT_TICKS \<le> wait_of s i
        then (\<forall>i < sch_len s. wait_of s i \<le> wait_of s k) \<and> (\<forall>i < k. wait_of s i < wait_of s k)
        else k = 0)"
proof -
  obtain k w where f: "fold (scan_wait s) [0..<sch_len s] (0, 0) = (k, w)" by fastforce
  note spec = scan_spec [OF assms(1) le_refl f]
  have pos: "STARVATION_LIMIT_TICKS \<noteq> 0" by (simp add: STARVATION_LIMIT_TICKS_def)
  show ?thesis
  proof (cases "STARVATION_LIMIT_TICKS \<le> w")
    case True
    then have "w \<noteq> 0" using pos by auto
    with spec have "k < sch_len s" "wait_of s k = w" "\<forall>i < k. wait_of s i < w" by auto
    with True f spec show ?thesis by (auto simp: select_next_offset_def)
  next
    case False
    with spec have "\<not> (\<exists>i < sch_len s. STARVATION_LIMIT_TICKS \<le> wait_of s i)"
      by (meson order_trans)
    with False f assms(2) show ?thesis by (auto simp: select_next_offset_def)
  qed
qed

theorem select_next_longest_wait_witness:
  "case select_next_offset sched_run of (k, guard) \<Rightarrow> k < sch_len sched_run \<and> guard = (k \<noteq> 0)"
proof -
  have "sched_sized sched_run" by (rule sched_invD(1) [OF sched_reachable_inv [OF sched_run_reachable]])
  moreover have "0 < sch_len sched_run" by code_simp
  ultimately show ?thesis using select_next_longest_wait [of sched_run] by auto
qed

text \<open>A full time slice: the ticks of one quantum, then the preemption.\<close>

definition time_slice :: "Scheduler \<Rightarrow> Scheduler" where
  "time_slice s = snd (preempt_current ((timer_interrupt ^^ unat (quantum_ticks s)) s))"

lemma ticks_state:
  assumes "sch_initialized s" and "current_task s \<noteq> 0"
  shows "ready ((timer_interrupt ^^ n) s) = ready s"
    "current_task ((timer_interrupt ^^ n) s) = current_task s"
    "quantum_ticks ((timer_interrupt ^^ n) s) = quantum_ticks s"
    "sch_initialized ((timer_interrupt ^^ n) s)"
    "n < 2 ^ 64 \<Longrightarrow> n \<le> unat (slice_ticks ((timer_interrupt ^^ n) s))"
proof (induction n)
  case (Suc n)
  let ?s = "(timer_interrupt ^^ n) s"
  {
    case 1
    then show ?case using Suc by (simp add: timer_interrupt_def on_timer_tick_state)
  next
    case 2
    then show ?case using Suc by (simp add: timer_interrupt_def on_timer_tick_state)
  next
    case 3
    then show ?case using Suc by (simp add: timer_interrupt_def on_timer_tick_state)
  next
    case 4
    then show ?case using Suc by (simp add: timer_interrupt_def on_timer_tick_state)
  next
    case 5
    have "timer_interrupt ?s = on_timer_tick ?s" by (subst timer_interrupt_def) (simp add: Suc)
    then have "slice_ticks (timer_interrupt ?s) = sat_add (slice_ticks ?s) 1"
      using Suc(2) assms(2) by (simp add: on_timer_tick_def Let_def)
    then have "unat (slice_ticks (timer_interrupt ?s)) = min (unat (slice_ticks ?s) + 1) (2 ^ 64 - 1)"
      using unat_sat_add [of "slice_ticks ?s" 1] by simp
    with 5 Suc(5) show ?case by simp
  }
qed (use assms in simp_all)

lemma ticks_inv: "sched_inv s \<Longrightarrow> sched_inv ((timer_interrupt ^^ n) s)"
  by (induction n) (simp_all add: timer_interrupt_inv)

lemma time_slice_state:
  assumes "sched_inv s" and "sch_initialized s" and "current_task s \<noteq> 0" and "ready s = e # es"
  shows "current_task (time_slice s) = task_id e"
    and "\<exists>since. ready (time_slice s) = es @ [\<lparr>task_id = current_task s, ready_since = since\<rparr>]"
    and "sched_inv (time_slice s)" and "sch_initialized (time_slice s)"
    and "quantum_ticks (time_slice s) = quantum_ticks s"
proof -
  let ?s = "(timer_interrupt ^^ unat (quantum_ticks s)) s"
  note t = ticks_state [OF assms(2,3), of "unat (quantum_ticks s)"]
  have q: "quantum_ticks ?s \<le> slice_ticks ?s"
    using t(3,5) unsigned_less [of "quantum_ticks s"] by (simp add: word_le_nat_alt)
  have c: "current_task ?s \<noteq> 0" "ready ?s = e # es" using t assms(3,4) by simp_all
  note p = preempt_current_state [OF ticks_inv [OF assms(1)] t(4) c(1,2) q]
  show "current_task (time_slice s) = task_id e" "sch_initialized (time_slice s)"
    "quantum_ticks (time_slice s) = quantum_ticks s"
    "\<exists>since. ready (time_slice s) = es @ [\<lparr>task_id = current_task s, ready_since = since\<rparr>]"
    using p t by (simp_all add: time_slice_def)
  show "sched_inv (time_slice s)"
    unfolding time_slice_def by (rule preempt_current_inv [OF ticks_inv [OF assms(1)]])
qed

lemma time_slices:
  assumes "sched_inv s" and "sch_initialized s" and "current_task s \<noteq> 0" and "k < length (ready s)"
  shows "current_task ((time_slice ^^ Suc k) s) = ready_ids s ! k"
  using assms
proof (induction k arbitrary: s)
  case 0
  then obtain e es where e: "ready s = e # es" by (cases "ready s") auto
  then show ?case using time_slice_state(1) [OF 0(1-3)] by simp
next
  case (Suc k)
  then obtain e es where e: "ready s = e # es" by (cases "ready s") auto
  note t = time_slice_state [OF Suc.prems(1-3) e]
  then obtain since where r: "ready (time_slice s) = es @ [\<lparr>task_id = current_task s, ready_since = since\<rparr>]"
    by blast
  have k: "k < length es" using Suc.prems(4) e by simp
  have "current_task (time_slice s) \<noteq> 0"
    using t(1) sched_invD(4) [OF Suc.prems(1)] e by auto
  then have "current_task ((time_slice ^^ Suc k) (time_slice s)) = ready_ids (time_slice s) ! k"
    using Suc.IH [OF t(3,4)] r k by simp
  then show ?case using r k e by (simp add: funpow_swap1 nth_append)
qed

text \<open>
  C19. Fairness: from every reachable state with a current task, the task at position \<open>k\<close> of
  the ready list runs after exactly \<open>k + 1\<close> time slices. No ready task waits longer than one
  round over the list.
\<close>

theorem round_robin_fair:
  assumes "sched_reachable s" and "current_task s \<noteq> 0" and "k < length (ready s)"
  shows "current_task ((time_slice ^^ Suc k) s) = task_id (ready s ! k)"
  using time_slices [OF sched_reachable_inv [OF assms(1)] sched_reachable_initialized [OF assms(1)]
      assms(2,3)] assms(3) by simp

theorem round_robin_fair_witness: "current_task ((time_slice ^^ 2) sched_run) = 3"
  using round_robin_fair [OF sched_run_reachable, of 1] sched_run_facts
  by (simp add: numeral_2_eq_2)

section \<open>No task is lost\<close>

definition all_tasks :: "Scheduler \<Rightarrow> u64 multiset" where
  "all_tasks s = (if current_task s = 0 then {#} else {#current_task s#})
     + mset (ready_ids s) + mset (blocked_tasks s)"

lemma mset_filter_none: "x \<notin> set xs \<Longrightarrow> filter (\<lambda>y. y \<noteq> x) xs = xs"
  by (auto simp: filter_id_conv)

lemma mset_filter_one:
  "distinct xs \<Longrightarrow> x \<in> set xs \<Longrightarrow> add_mset x (mset (filter (\<lambda>y. y \<noteq> x) xs)) = mset xs"
  by (induction xs) (auto simp: mset_filter_none simp del: mset_filter)

lemma block_task_conserves:
  assumes "sched_inv s"
  shows "all_tasks (snd (block_task s t)) = all_tasks s"
proof (cases "t = 0 \<or> t \<in> set (blocked_tasks s) \<or> sch_blocked_len s = QUEUE_CAPACITY
      \<or> (current_task s \<noteq> t \<and> t \<notin> set (ready_ids s))")
  case True
  with block_task_rejects [OF assms] show ?thesis by simp
next
  case False
  then have "sch_blocked_len s < QUEUE_CAPACITY"
    using sched_invD(1) [OF assms] by (auto simp: sched_sized_def)
  with False have b: "t \<noteq> 0" "t \<notin> set (blocked_tasks s)" "sch_blocked_len s < QUEUE_CAPACITY"
    "current_task s = t \<or> t \<in> set (ready_ids s)" by auto
  note st = block_task_state [OF assms b]
  show ?thesis
  proof (cases "current_task s = t")
    case True
    with st b(1) sched_invD(5) [OF assms] mset_filter_none [of t "ready_ids s"] show ?thesis
      by (simp add: all_tasks_def map_filter_ids)
  next
    case False
    with b(4) mset_filter_one [OF sched_invD(2) [OF assms], of t] have
      "add_mset t (mset (filter (\<lambda>y. y \<noteq> t) (ready_ids s))) = mset (ready_ids s)" by simp
    with False st show ?thesis by (simp add: all_tasks_def map_filter_ids)
  qed
qed

lemma wake_task_conserves:
  assumes "sched_inv s"
  shows "all_tasks (snd (wake_task s t)) = all_tasks s"
proof (cases "t \<in> set (blocked_tasks s)")
  case False
  from wake_task_not_blocked [OF assms False] show ?thesis
    by (elim disjE) (simp_all add: all_tasks_def)
next
  case True
  note f = mset_filter_one [OF sched_invD(3) [OF assms] True]
  show ?thesis
  proof (cases "sch_len s < QUEUE_CAPACITY")
    case room: True
    from wake_task_state [OF assms True room] f [symmetric] show ?thesis by (simp add: all_tasks_def)
  next
    case False
    then have "sch_len s = QUEUE_CAPACITY" using sched_invD(1) [OF assms] by (simp add: sched_sized_def)
    from wake_task_full [OF assms True this] f [symmetric] show ?thesis by (simp add: all_tasks_def)
  qed
qed

lemma preempt_conserves:
  assumes "sched_inv s"
  shows "all_tasks (snd (preempt_current s)) = all_tasks s"
proof (cases "\<not> sch_initialized s \<or> current_task s = 0 \<or> ready s = [] \<or> slice_ticks s < quantum_ticks s")
  case True
  with preempt_current_refuses show ?thesis by simp
next
  case False
  then obtain e es where e: "ready s = e # es" by (cases "ready s") auto
  have c: "sch_initialized s" "current_task s \<noteq> 0" "quantum_ticks s \<le> slice_ticks s" using False by auto
  have "task_id e \<noteq> 0" using sched_invD(4) [OF assms] e by auto
  with preempt_current_state [OF assms c(1,2) e c(3)] c(2) e show ?thesis by (simp add: all_tasks_def)
qed

lemma dispatch_conserves:
  assumes "sched_inv s"
  shows "all_tasks (snd (block_current_and_dispatch s t)) = all_tasks s"
proof (cases "\<not> sch_initialized s \<or> t = 0 \<or> current_task s \<noteq> t \<or> ready s = []
    \<or> QUEUE_CAPACITY \<le> sch_blocked_len s")
  case True
  from dispatch_refuses [OF this] show ?thesis by simp
next
  case False
  then obtain e es where e: "ready s = e # es" by (cases "ready s") auto
  have c: "sch_initialized s" "current_task s \<noteq> 0" "sch_blocked_len s < QUEUE_CAPACITY"
    "t = current_task s" using False by auto
  have "task_id e \<noteq> 0" using sched_invD(4) [OF assms] e by auto
  with dispatch_state [OF assms c(1,2) e c(3)] c(2,4) e show ?thesis by (simp add: all_tasks_def)
qed

text \<open>
  No task is lost or duplicated: preemption, blocking, dispatching, waking, yielding and
  timer ticks only move tasks between the current task, the ready list and the blocked
  tasks, also when a table is full.
\<close>

theorem tasks_conserved:
  assumes "sched_reachable s"
  shows "all_tasks (snd (preempt_current s)) = all_tasks s
    \<and> all_tasks (snd (block_task s t)) = all_tasks s
    \<and> all_tasks (snd (block_current_and_dispatch s t)) = all_tasks s
    \<and> all_tasks (snd (wake_task s t)) = all_tasks s
    \<and> all_tasks (snd (yield_current s)) = all_tasks s
    \<and> all_tasks (timer_interrupt s) = all_tasks s"
proof -
  note inv = sched_reachable_inv [OF assms]
  have "all_tasks (snd (yield_current s)) = all_tasks s"
    by (simp add: yield_current_def Let_def all_tasks_def)
  moreover have "all_tasks (timer_interrupt s) = all_tasks s"
    by (simp add: timer_interrupt_def all_tasks_def on_timer_tick_state)
  ultimately show ?thesis
    using preempt_conserves [OF inv] block_task_conserves [OF inv] dispatch_conserves [OF inv]
      wake_task_conserves [OF inv] by simp
qed

theorem tasks_conserved_witness:
  "all_tasks (snd (block_current_and_dispatch sched_run 1)) = {#1, 2, 3#}"
proof -
  have "all_tasks sched_run = {#1, 2, 3#}"
    using sched_run_facts by (simp add: all_tasks_def, code_simp)
  with tasks_conserved [OF sched_run_reachable, of 1] show ?thesis by simp
qed

text \<open>
  Blocking and waking a task: a current or ready task that is blocked, while the table
  of blocked tasks has room, is neither current nor ready until \<open>wake_task\<close> puts it at the
  end of the ready list, and the other blocked tasks stay as they were.
\<close>

theorem block_then_wake:
  assumes "sched_reachable s" and "t \<noteq> 0" and "t \<notin> set (blocked_tasks s)"
    and "sch_blocked_len s < QUEUE_CAPACITY" and "current_task s = t \<or> t \<in> set (ready_ids s)"
    and "sch_len s < QUEUE_CAPACITY"
  shows "\<exists>s1 s2. block_task s t = (True, s1) \<and> current_task s1 \<noteq> t \<and> t \<notin> set (ready_ids s1)
    \<and> wake_task s1 t = (True, s2)
    \<and> ready_ids s2 = filter (\<lambda>i. i \<noteq> t) (ready_ids s) @ [t]
    \<and> blocked_tasks s2 = blocked_tasks s"
proof -
  define s1 where "s1 = snd (block_task s t)"
  note inv = sched_reachable_inv [OF assms(1)]
  note b = block_task_state [OF inv assms(2-5), folded s1_def]
  have inv1: "sched_inv s1" unfolding s1_def by (rule block_task_inv [OF inv])
  have "length (ready s1) \<le> length (ready s)" unfolding b(3) by (rule length_filter_le)
  then have room: "sch_len s1 < QUEUE_CAPACITY" using assms(6) by simp
  have t: "t \<in> set (blocked_tasks s1)" using b(2) by simp
  note w = wake_task_state [OF inv1 t room]
  have "filter (\<lambda>b. b \<noteq> t) (blocked_tasks s) = blocked_tasks s"
    using assms(3) by (rule mset_filter_none)
  then show ?thesis
    using b w assms(2)
    by (intro exI [of _ s1] exI [of _ "snd (wake_task s1 t)"])
      (auto simp: s1_def prod_eq_iff map_filter_ids)
qed

theorem block_then_wake_witness:
  "\<exists>s1 s2. block_task sched_run 2 = (True, s1) \<and> current_task s1 \<noteq> 2 \<and> 2 \<notin> set (ready_ids s1)
    \<and> wake_task s1 2 = (True, s2)
    \<and> ready_ids s2 = filter (\<lambda>i. i \<noteq> 2) (ready_ids sched_run) @ [2]
    \<and> blocked_tasks s2 = blocked_tasks sched_run"
proof (rule block_then_wake [OF sched_run_reachable])
  show "2 \<notin> set (blocked_tasks sched_run)" by code_simp
  show "sch_len sched_run < QUEUE_CAPACITY" by code_simp
qed (simp_all add: sched_run_facts)

end
