(* ===== verification/Multiboot.thy ===== *)
theory Multiboot
  imports Prelude
begin

unbundle bit_operations_syntax

text \<open>
  The parser of the Multiboot2 boot information, \<^verbatim>\<open>src/src/multiboot.rs\<close>. Raw pointer reads go
  to a memory, an argument of every function that reads; 32-bit counters are words, offsets
  and array lengths are naturals (they stay below \<open>2 ^ 33\<close>, so no \<open>usize\<close> operation wraps or
  saturates).
\<close>

section \<open>Data\<close>

definition MULTIBOOT2_BOOTLOADER_MAGIC :: u32 where "MULTIBOOT2_BOOTLOADER_MAGIC = 0x36d76289"
definition MAX_BOOT_INFO_ADDRESS :: u64 where "MAX_BOOT_INFO_ADDRESS = 0x40000000"
definition MAX_BOOT_INFO_SIZE :: u32 where "MAX_BOOT_INFO_SIZE = 0x100000"
definition MAX_TEXT_LEN :: nat where "MAX_TEXT_LEN = 96"
definition MAX_REGIONS :: nat where "MAX_REGIONS = 16"
definition MAX_MODULES :: nat where "MAX_MODULES = 4"

definition TAG_END :: u32 where "TAG_END = 0"
definition TAG_COMMAND_LINE :: u32 where "TAG_COMMAND_LINE = 1"
definition TAG_BOOTLOADER_NAME :: u32 where "TAG_BOOTLOADER_NAME = 2"
definition TAG_MODULE :: u32 where "TAG_MODULE = 3"
definition TAG_BASIC_MEMORY :: u32 where "TAG_BASIC_MEMORY = 4"
definition TAG_MEMORY_MAP :: u32 where "TAG_MEMORY_MAP = 6"

definition MEMORY_AVAILABLE :: u32 where "MEMORY_AVAILABLE = 1"
definition MEMORY_ACPI_RECLAIMABLE :: u32 where "MEMORY_ACPI_RECLAIMABLE = 3"
definition MEMORY_ACPI_NVS :: u32 where "MEMORY_ACPI_NVS = 4"
definition MEMORY_BAD :: u32 where "MEMORY_BAD = 5"

lemmas multiboot_consts = MAX_TEXT_LEN_def MAX_REGIONS_def MAX_MODULES_def

record TextField =
  tf_bytes :: "u8 list"
  tf_len :: nat

definition TextField_empty :: TextField where
  "TextField_empty = \<lparr>tf_bytes = replicate MAX_TEXT_LEN 0, tf_len = 0\<rparr>"

definition as_str :: "TextField \<Rightarrow> u8 list" where
  "as_str t = (let bs = take (tf_len t) (tf_bytes t) in if utf8_valid bs then bs else [])"

text \<open>The loop of \<open>set_from_c_string\<close> over the indices; it ends at the first zero byte.\<close>

fun c_string_loop :: "memory \<Rightarrow> u64 \<Rightarrow> nat list \<Rightarrow> TextField \<Rightarrow> TextField" where
  "c_string_loop mem address [] t = t"
| "c_string_loop mem address (index # rest) t =
     (let byte = mem (address + of_nat index)
      in if byte = 0 then t
         else c_string_loop mem address rest
           (t\<lparr>tf_bytes := (tf_bytes t)[index := if is_ascii_graphic byte \<or> byte = 0x20
                                                then byte else 0x3f],
              tf_len := tf_len t + 1\<rparr>))"

definition set_from_c_string :: "memory \<Rightarrow> u64 \<Rightarrow> nat \<Rightarrow> TextField \<Rightarrow> TextField" where
  "set_from_c_string mem address max_len t =
     c_string_loop mem address [0..<min max_len MAX_TEXT_LEN] (t\<lparr>tf_len := 0\<rparr>)"

record MemoryRegion =
  base_addr :: u64
  region_length :: u64
  region_type :: u32

record BootModule =
  mod_start :: u64
  mod_end :: u64
  mod_command_line :: TextField

definition BootModule_empty :: BootModule where
  "BootModule_empty = \<lparr>mod_start = 0, mod_end = 0, mod_command_line = TextField_empty\<rparr>"

definition mod_size :: "BootModule \<Rightarrow> u64" where
  "mod_size m = sat_sub (mod_end m) (mod_start m)"

definition is_valid :: "BootModule \<Rightarrow> bool" where
  "is_valid m \<longleftrightarrow> mod_start m \<noteq> 0 \<and> mod_start m < mod_end m \<and> mod_end m \<le> MAX_BOOT_INFO_ADDRESS
     \<and> mod_size m \<le> MAX_BOOT_INFO_ADDRESS"

definition MemoryRegion_empty :: MemoryRegion where
  "MemoryRegion_empty = \<lparr>base_addr = 0, region_length = 0, region_type = 0\<rparr>"

definition end_addr :: "MemoryRegion \<Rightarrow> u64" where
  "end_addr r = sat_add (base_addr r) (region_length r)"

definition type_name :: "MemoryRegion \<Rightarrow> string" where
  "type_name r =
     (if region_type r = MEMORY_AVAILABLE then ''available''
      else if region_type r = MEMORY_ACPI_RECLAIMABLE then ''acpi reclaim''
      else if region_type r = MEMORY_ACPI_NVS then ''acpi nvs''
      else if region_type r = MEMORY_BAD then ''bad''
      else ''reserved'')"

definition is_available :: "MemoryRegion \<Rightarrow> bool" where
  "is_available r \<longleftrightarrow> region_type r = MEMORY_AVAILABLE"

record MemorySummary =
  has_basic_memory :: bool
  has_memory_map :: bool
  mem_lower_kib :: u32
  mem_upper_kib :: u32
  entry_size :: u32
  entry_version :: u32
  ms_region_count :: u32
  stored_region_count :: u32
  usable_region_count :: u32
  reserved_region_count :: u32
  acpi_region_count :: u32
  bad_region_count :: u32
  usable_bytes :: u64
  reserved_bytes :: u64
  acpi_bytes :: u64
  bad_bytes :: u64
  highest_address :: u64
  first_usable_base :: u64
  first_usable_length :: u64
  largest_usable_base :: u64
  largest_usable_length :: u64
  ms_regions :: "MemoryRegion list"

definition MemorySummary_empty :: MemorySummary where
  "MemorySummary_empty = \<lparr>has_basic_memory = False, has_memory_map = False, mem_lower_kib = 0,
     mem_upper_kib = 0, entry_size = 0, entry_version = 0, ms_region_count = 0,
     stored_region_count = 0, usable_region_count = 0, reserved_region_count = 0,
     acpi_region_count = 0, bad_region_count = 0, usable_bytes = 0, reserved_bytes = 0,
     acpi_bytes = 0, bad_bytes = 0, highest_address = 0, first_usable_base = 0,
     first_usable_length = 0, largest_usable_base = 0, largest_usable_length = 0,
     ms_regions = replicate MAX_REGIONS MemoryRegion_empty\<rparr>"

text \<open>The \<open>match\<close> on the type at the end of \<open>add_region\<close>.\<close>

definition count_region :: "MemorySummary \<Rightarrow> MemoryRegion \<Rightarrow> MemorySummary" where
  "count_region s r =
     (if region_type r = MEMORY_AVAILABLE then
        let s1 = (if usable_region_count s = 0
                  then s\<lparr>first_usable_base := base_addr r, first_usable_length := region_length r\<rparr>
                  else s);
            s2 = s1\<lparr>usable_region_count := usable_region_count s1 + 1,
                    usable_bytes := sat_add (usable_bytes s1) (region_length r)\<rparr>
        in if largest_usable_length s2 < region_length r
           then s2\<lparr>largest_usable_base := base_addr r, largest_usable_length := region_length r\<rparr>
           else s2
      else if region_type r = MEMORY_ACPI_RECLAIMABLE \<or> region_type r = MEMORY_ACPI_NVS then
        s\<lparr>acpi_region_count := acpi_region_count s + 1,
          acpi_bytes := sat_add (acpi_bytes s) (region_length r)\<rparr>
      else if region_type r = MEMORY_BAD then
        s\<lparr>bad_region_count := bad_region_count s + 1,
          bad_bytes := sat_add (bad_bytes s) (region_length r)\<rparr>
      else
        s\<lparr>reserved_region_count := reserved_region_count s + 1,
          reserved_bytes := sat_add (reserved_bytes s) (region_length r)\<rparr>)"

definition add_region :: "MemorySummary \<Rightarrow> MemoryRegion \<Rightarrow> MemorySummary" where
  "add_region s r =
     (if region_length r = 0 then s
      else
        let s1 = s\<lparr>ms_region_count := ms_region_count s + 1,
                   highest_address := max (highest_address s) (end_addr r)\<rparr>;
            stored_index = unat (stored_region_count s1);
            s2 = (if stored_index < MAX_REGIONS
                  then s1\<lparr>ms_regions := (ms_regions s1)[stored_index := r],
                          stored_region_count := stored_region_count s1 + 1\<rparr>
                  else s1)
        in count_region s2 r)"

record BootInfoSummary =
  bi_magic :: u32
  bi_address :: u64
  valid_magic :: bool
  parsed :: bool
  total_size :: u32
  bi_reserved :: u32
  tag_count :: u32
  has_end_tag :: bool
  bootloader_name :: TextField
  command_line :: TextField
  module_count :: u32
  stored_module_count :: u32
  highest_module_end :: u64
  bi_modules :: "BootModule list"
  bi_memory :: MemorySummary

definition BootInfoSummary_empty :: BootInfoSummary where
  "BootInfoSummary_empty = \<lparr>bi_magic = 0, bi_address = 0, valid_magic = False, parsed = False,
     total_size = 0, bi_reserved = 0, tag_count = 0, has_end_tag = False,
     bootloader_name = TextField_empty, command_line = TextField_empty, module_count = 0,
     stored_module_count = 0, highest_module_end = 0,
     bi_modules = replicate MAX_MODULES BootModule_empty, bi_memory = MemorySummary_empty\<rparr>"

definition add_module :: "BootInfoSummary \<Rightarrow> BootModule \<Rightarrow> BootInfoSummary" where
  "add_module s m =
     (if \<not> is_valid m then s
      else
        let s1 = s\<lparr>module_count := sat_add (module_count s) 1,
                   highest_module_end := max (highest_module_end s) (mod_end m)\<rparr>;
            index = unat (stored_module_count s1)
        in if index < MAX_MODULES
           then s1\<lparr>bi_modules := (bi_modules s1)[index := m],
                   stored_module_count := sat_add (stored_module_count s1) 1\<rparr>
           else s1)"

section \<open>Queries on the stored summary\<close>

definition region :: "BootInfoSummary \<Rightarrow> nat \<Rightarrow> MemoryRegion option" where
  "region s index =
     (if unat (stored_region_count (bi_memory s)) \<le> index then None
      else Some (ms_regions (bi_memory s) ! index))"

definition boot_module :: "BootInfoSummary \<Rightarrow> nat \<Rightarrow> BootModule option" where
  "boot_module s index =
     (if unat (stored_module_count s) \<le> index then None else Some (bi_modules s ! index))"

definition find_module :: "BootInfoSummary \<Rightarrow> u8 list \<Rightarrow> BootModule option" where
  "find_module s cmd =
     List.find (\<lambda>m. as_str (mod_command_line m) = cmd)
       (map ((!) (bi_modules s)) [0..<unat (stored_module_count s)])"

section \<open>Parsing\<close>

definition parse_module :: "memory \<Rightarrow> BootInfoSummary \<Rightarrow> u64 \<Rightarrow> u32 \<Rightarrow> BootInfoSummary" where
  "parse_module mem s tag_address tag_size =
     (if tag_size < 17 then s
      else if mem (tag_address + ucast tag_size - 1) \<noteq> 0 then s
      else add_module s \<lparr>mod_start = ucast (read_u32 mem (tag_address + 8)),
             mod_end = ucast (read_u32 mem (tag_address + 12)),
             mod_command_line = set_from_c_string mem (tag_address + 16) (unat tag_size - 16)
                                  TextField_empty\<rparr>)"

definition parse_basic_memory :: "memory \<Rightarrow> BootInfoSummary \<Rightarrow> u64 \<Rightarrow> u32 \<Rightarrow> BootInfoSummary" where
  "parse_basic_memory mem s tag_address tag_size =
     (if tag_size < 16 then s
      else s\<lparr>bi_memory := (bi_memory s)\<lparr>has_basic_memory := True,
             mem_lower_kib := read_u32 mem (tag_address + 8),
             mem_upper_kib := read_u32 mem (tag_address + 12)\<rparr>\<rparr>)"

definition read_region :: "memory \<Rightarrow> u64 \<Rightarrow> MemoryRegion" where
  "read_region mem entry_address =
     \<lparr>base_addr = read_u64 mem entry_address, region_length = read_u64 mem (entry_address + 8),
      region_type = read_u32 mem (entry_address + 16)\<rparr>"

text \<open>The entry size is at least 24 where the loop is called, so the second guard holds.\<close>

function memory_map_loop :: "memory \<Rightarrow> u64 \<Rightarrow> nat \<Rightarrow> nat \<Rightarrow> nat \<Rightarrow> MemorySummary \<Rightarrow> MemorySummary" where
  "memory_map_loop mem entries_start entries_len sz offset s =
     (if offset + 24 \<le> entries_len \<and> 0 < sz
      then memory_map_loop mem entries_start entries_len sz (offset + sz)
             (add_region s (read_region mem (entries_start + of_nat offset)))
      else s)"
  by pat_completeness auto
termination
  by (relation "measure (\<lambda>(mem, st, len, sz, offset, s). len - offset)") auto

declare memory_map_loop.simps [simp del]

definition parse_memory_map :: "memory \<Rightarrow> BootInfoSummary \<Rightarrow> u64 \<Rightarrow> u32 \<Rightarrow> BootInfoSummary" where
  "parse_memory_map mem s tag_address tag_size =
     (if tag_size < 16 then s
      else
        let sz = read_u32 mem (tag_address + 8);
            version = read_u32 mem (tag_address + 12)
        in if sz < 24 then s
           else s\<lparr>bi_memory := memory_map_loop mem (tag_address + 16) (unat tag_size - 16)
                    (unat sz) 0
                    ((bi_memory s)\<lparr>has_memory_map := True, entry_size := sz,
                       entry_version := version\<rparr>)\<rparr>)"

definition boot_align_up :: "nat \<Rightarrow> nat \<Rightarrow> nat" where
  "boot_align_up value alignment = (value + alignment - 1) div alignment * alignment"

text \<open>
  The dispatch on one tag, and the loop over the tags. \<open>align_up\<close> with a power of two rounds
  up to a multiple, so the offset grows by at least the eight bytes of a tag header.
\<close>

definition parse_tag :: "memory \<Rightarrow> BootInfoSummary \<Rightarrow> u32 \<Rightarrow> u64 \<Rightarrow> u32 \<Rightarrow> BootInfoSummary" where
  "parse_tag mem s tag_type tag_address tag_size =
     (if tag_type = TAG_COMMAND_LINE then
        s\<lparr>command_line := set_from_c_string mem (tag_address + 8) (unat tag_size - 8) (command_line s)\<rparr>
      else if tag_type = TAG_BOOTLOADER_NAME then
        s\<lparr>bootloader_name :=
            set_from_c_string mem (tag_address + 8) (unat tag_size - 8) (bootloader_name s)\<rparr>
      else if tag_type = TAG_MODULE then parse_module mem s tag_address tag_size
      else if tag_type = TAG_BASIC_MEMORY then parse_basic_memory mem s tag_address tag_size
      else if tag_type = TAG_MEMORY_MAP then parse_memory_map mem s tag_address tag_size
      else s)"

function parse_tags :: "memory \<Rightarrow> u64 \<Rightarrow> nat \<Rightarrow> nat \<Rightarrow> BootInfoSummary \<Rightarrow> BootInfoSummary" where
  "parse_tags mem address sz offset s =
     (if \<not> offset + 8 \<le> sz then s
      else
        let tag_address = address + of_nat offset;
            tag_type = read_u32 mem tag_address;
            tag_size = read_u32 mem (tag_address + 4)
        in if tag_size < 8 then s
           else
             let tag_end = offset + unat tag_size
             in if sz < tag_end \<or> tag_end < offset then s
                else
                  let s1 = s\<lparr>tag_count := tag_count s + 1\<rparr>
                  in if tag_type = TAG_END then s1\<lparr>has_end_tag := tag_size = 8\<rparr>
                     else
                       let s2 = parse_tag mem s1 tag_type tag_address tag_size;
                           next_offset = boot_align_up (offset + unat tag_size) 8
                       in if next_offset \<le> offset then s2
                          else parse_tags mem address sz next_offset s2)"
  by pat_completeness auto
termination
  by (relation "measure (\<lambda>(mem, address, sz, offset, s). sz - offset)") auto

declare parse_tags.simps [simp del]

definition parse :: "memory \<Rightarrow> u32 \<Rightarrow> u64 \<Rightarrow> BootInfoSummary" where
  "parse mem magic address =
     (let s0 = BootInfoSummary_empty\<lparr>bi_magic := magic, bi_address := address,
                 valid_magic := magic = MULTIBOOT2_BOOTLOADER_MAGIC\<rparr>
      in if \<not> valid_magic s0 \<or> address = 0 \<or> MAX_BOOT_INFO_ADDRESS \<le> address then s0
         else
           let sz = read_u32 mem address;
               s1 = s0\<lparr>total_size := sz, bi_reserved := read_u32 mem (address + 4)\<rparr>
           in if \<not> (16 \<le> sz \<and> sz \<le> MAX_BOOT_INFO_SIZE) then s1
              else if MAX_BOOT_INFO_ADDRESS \<le> sat_add address (ucast sz) then s1
              else
                let s2 = parse_tags mem address (unat sz) 8 s1
                in s2\<lparr>parsed := has_end_tag s2\<rparr>)"

end
