(* ===== verification/Physmem.thy ===== *)
theory Physmem
  imports Multiboot
begin

unbundle bit_operations_syntax

text \<open>
  The physical frame allocator, \<^verbatim>\<open>src/src/physmem.rs\<close>: a bump allocator over at most 16 regions
  of the boot memory map with a stack of at most 128 recycled frames. The addresses of the
  kernel image come from the linker and are arguments, beside the boot summary of
  \<open>Multiboot\<close>. Plain additions wrap, as in the release build of the kernel.
\<close>

definition FRAME_SIZE :: u64 where "FRAME_SIZE = 4096"
definition MAX_ALLOC_REGIONS :: nat where "MAX_ALLOC_REGIONS = 16"
definition MAX_RECYCLED_FRAMES :: nat where "MAX_RECYCLED_FRAMES = 128"
definition MIN_ALLOC_ADDR :: u64 where "MIN_ALLOC_ADDR = 0x00100000"

definition align_down :: "u64 \<Rightarrow> u64 \<Rightarrow> u64" where
  "align_down v alignment = v AND NOT (alignment - 1)"

definition is_frame_aligned :: "u64 \<Rightarrow> bool" where
  "is_frame_aligned v \<longleftrightarrow> v AND (FRAME_SIZE - 1) = 0"

definition align_up :: "u64 \<Rightarrow> u64 \<Rightarrow> u64" where
  "align_up v alignment = align_down (sat_add v (alignment - 1)) alignment"

record AllocRegion =
  ar_start :: u64
  ar_end :: u64

definition AllocRegion_empty :: AllocRegion where
  "AllocRegion_empty = \<lparr>ar_start = 0, ar_end = 0\<rparr>"

definition frame_count :: "AllocRegion \<Rightarrow> u64" where
  "frame_count r = sat_sub (ar_end r) (ar_start r) div FRAME_SIZE"

record FrameAllocator =
  fa_initialized :: bool
  fa_exhausted :: bool
  fa_regions :: "AllocRegion list"
  fa_region_count :: nat
  fa_current_region :: nat
  fa_next_frame :: u64
  total_usable_frames :: u64
  allocatable_frames :: u64
  allocated_frames :: u64
  fa_recycled_frames :: "u64 list"
  fa_recycled_count :: nat
  skipped_frames :: u64
  last_allocated_frame :: u64
  fa_kernel_start :: u64
  fa_kernel_end :: u64
  protected_until :: u64

definition FrameAllocator_new :: FrameAllocator where
  "FrameAllocator_new = \<lparr>fa_initialized = False, fa_exhausted = False,
     fa_regions = replicate MAX_ALLOC_REGIONS AllocRegion_empty, fa_region_count = 0,
     fa_current_region = 0, fa_next_frame = 0, total_usable_frames = 0, allocatable_frames = 0,
     allocated_frames = 0, fa_recycled_frames = replicate MAX_RECYCLED_FRAMES 0,
     fa_recycled_count = 0, skipped_frames = 0, last_allocated_frame = 0, fa_kernel_start = 0,
     fa_kernel_end = 0, protected_until = 0\<rparr>"

definition add_memory_region :: "FrameAllocator \<Rightarrow> MemoryRegion \<Rightarrow> FrameAllocator" where
  "add_memory_region s r =
     (if \<not> is_available r \<or> region_length r < FRAME_SIZE then s
      else
        let region_start = align_up (base_addr r) FRAME_SIZE;
            region_end = align_down (end_addr r) FRAME_SIZE
        in if region_end \<le> region_start then s
           else
             let s1 = s\<lparr>total_usable_frames :=
                         total_usable_frames s + (region_end - region_start) div FRAME_SIZE\<rparr>
             in if region_end \<le> protected_until s1
                then s1\<lparr>skipped_frames :=
                       skipped_frames s1 + (region_end - region_start) div FRAME_SIZE\<rparr>
                else
                  let alloc_start = max region_start (protected_until s1);
                      s2 = s1\<lparr>skipped_frames := skipped_frames s1
                                + sat_sub alloc_start region_start div FRAME_SIZE\<rparr>
                  in if region_end \<le> alloc_start then s2
                     else if fa_region_count s2 < MAX_ALLOC_REGIONS
                     then
                       let alloc_region = \<lparr>ar_start = alloc_start, ar_end = region_end\<rparr>
                       in s2\<lparr>allocatable_frames := allocatable_frames s2 + frame_count alloc_region,
                             fa_regions := (fa_regions s2)[fa_region_count s2 := alloc_region],
                             fa_region_count := fa_region_count s2 + 1\<rparr>
                     else s2\<lparr>skipped_frames :=
                            skipped_frames s2 + (region_end - alloc_start) div FRAME_SIZE\<rparr>)"

text \<open>
  \<open>init\<close>: everything below the kernel image, the first megabyte, the boot information and the
  boot modules is protected; then the stored regions are added in order.
\<close>

definition protected_end :: "u64 \<Rightarrow> BootInfoSummary \<Rightarrow> u64" where
  "protected_end kernel_end_addr boot =
     (let p0 = max (align_up kernel_end_addr FRAME_SIZE) MIN_ALLOC_ADDR;
          p1 = (if bi_address boot \<noteq> 0 \<and> total_size boot \<noteq> 0
                then max p0 (align_up (sat_add (bi_address boot) (ucast (total_size boot))) FRAME_SIZE)
                else p0)
      in max p1 (align_up (highest_module_end boot) FRAME_SIZE))"

definition phys_init :: "u64 \<Rightarrow> u64 \<Rightarrow> BootInfoSummary \<Rightarrow> FrameAllocator" where
  "phys_init kernel_start_addr kernel_end_addr boot =
     (let s0 = FrameAllocator_new\<lparr>fa_kernel_start := kernel_start_addr,
                 fa_kernel_end := align_up kernel_end_addr FRAME_SIZE,
                 protected_until := protected_end kernel_end_addr boot\<rparr>;
          s1 = fold (\<lambda>index s. case region boot index of None \<Rightarrow> s | Some r \<Rightarrow> add_memory_region s r)
                 [0..<unat (stored_region_count (bi_memory boot))] s0;
          s2 = (if 0 < fa_region_count s1 then s1\<lparr>fa_next_frame := ar_start (fa_regions s1 ! 0)\<rparr>
                else s1\<lparr>fa_exhausted := True\<rparr>)
      in s2\<lparr>fa_initialized := True\<rparr>)"

text \<open>The \<open>while\<close> loop of \<open>allocate_frame\<close>; every round but the last moves to the next region.\<close>

function bump_loop :: "FrameAllocator \<Rightarrow> u64 option \<times> FrameAllocator" where
  "bump_loop s =
     (if fa_current_region s < fa_region_count s then
        let r = fa_regions s ! fa_current_region s;
            s1 = (if fa_next_frame s < ar_start r then s\<lparr>fa_next_frame := ar_start r\<rparr> else s)
        in if fa_next_frame s1 < ar_end r
           then let frame = fa_next_frame s1
                in (Some frame, s1\<lparr>fa_next_frame := sat_add (fa_next_frame s1) FRAME_SIZE,
                      allocated_frames := allocated_frames s1 + 1, last_allocated_frame := frame\<rparr>)
           else
             let s2 = s1\<lparr>fa_current_region := fa_current_region s1 + 1\<rparr>
             in bump_loop
                  (if fa_current_region s2 < fa_region_count s2
                   then s2\<lparr>fa_next_frame := ar_start (fa_regions s2 ! fa_current_region s2)\<rparr>
                   else s2)
      else (None, s\<lparr>fa_exhausted := True\<rparr>))"
  by pat_completeness auto
termination
  by (relation "measure (\<lambda>s. fa_region_count s - fa_current_region s)") (auto simp: Let_def)

declare bump_loop.simps [simp del]

text \<open>\<open>allocate_frame\<close> and \<open>free_frame\<close> of an allocator that \<open>init\<close> has set up.\<close>

definition allocate_frame :: "FrameAllocator \<Rightarrow> u64 option \<times> FrameAllocator" where
  "allocate_frame s =
     (if 0 < fa_recycled_count s then
        let n = fa_recycled_count s - 1;
            frame = fa_recycled_frames s ! n
        in (Some frame, s\<lparr>fa_recycled_count := n, fa_recycled_frames := (fa_recycled_frames s)[n := 0],
              allocated_frames := allocated_frames s + 1, last_allocated_frame := frame,
              fa_exhausted := False\<rparr>)
      else bump_loop s)"

fun issued_in :: "FrameAllocator \<Rightarrow> u64 \<Rightarrow> nat list \<Rightarrow> bool" where
  "issued_in s frame [] = False"
| "issued_in s frame (index # rest) =
     (let r = fa_regions s ! index
      in if ar_start r \<le> frame \<and> frame < ar_end r
         then (if index < fa_current_region s then True
               else if index = fa_current_region s then frame < fa_next_frame s
               else False)
         else issued_in s frame rest)"

definition is_issued_frame :: "FrameAllocator \<Rightarrow> u64 \<Rightarrow> bool" where
  "is_issued_frame s frame = issued_in s frame [0..<fa_region_count s]"

definition free_frame :: "FrameAllocator \<Rightarrow> u64 \<Rightarrow> bool \<times> FrameAllocator" where
  "free_frame s frame =
     (if \<not> is_frame_aligned frame \<or> frame < protected_until s \<or> \<not> is_issued_frame s frame
      then (False, s)
      else if MAX_RECYCLED_FRAMES \<le> fa_recycled_count s then (False, s)
      else if list_ex (\<lambda>index. fa_recycled_frames s ! index = frame) [0..<fa_recycled_count s]
      then (False, s)
      else (True, s\<lparr>fa_recycled_frames := (fa_recycled_frames s)[fa_recycled_count s := frame],
              fa_recycled_count := fa_recycled_count s + 1,
              allocated_frames := sat_sub (allocated_frames s) 1, fa_exhausted := False\<rparr>))"

text \<open>The entry points, which initialise the allocator on first use.\<close>

definition phys_allocate ::
    "u64 \<Rightarrow> u64 \<Rightarrow> BootInfoSummary \<Rightarrow> FrameAllocator \<Rightarrow> u64 option \<times> FrameAllocator" where
  "phys_allocate ks ke boot s =
     allocate_frame (if fa_initialized s then s else phys_init ks ke boot)"

definition phys_free ::
    "u64 \<Rightarrow> u64 \<Rightarrow> BootInfoSummary \<Rightarrow> FrameAllocator \<Rightarrow> u64 \<Rightarrow> bool \<times> FrameAllocator" where
  "phys_free ks ke boot s frame =
     free_frame (if fa_initialized s then s else phys_init ks ke boot) frame"

record PhysSnapshot =
  ps_initialized :: bool
  ps_exhausted :: bool
  ps_region_count :: u32
  ps_current_region :: u32
  ps_total_usable_frames :: u64
  ps_allocatable_frames :: u64
  ps_allocated_frames :: u64
  ps_recycled_frames :: u64
  ps_recycled_capacity :: u64
  ps_skipped_frames :: u64
  ps_free_frames :: u64
  ps_next_frame :: u64
  ps_last_allocated_frame :: u64
  ps_kernel_start :: u64
  ps_kernel_end :: u64
  ps_protected_until :: u64

definition phys_snapshot :: "FrameAllocator \<Rightarrow> PhysSnapshot" where
  "phys_snapshot s = \<lparr>
     ps_initialized = fa_initialized s,
     ps_exhausted = fa_exhausted s,
     ps_region_count = of_nat (fa_region_count s),
     ps_current_region = of_nat (fa_current_region s),
     ps_total_usable_frames = total_usable_frames s,
     ps_allocatable_frames = allocatable_frames s,
     ps_allocated_frames = allocated_frames s,
     ps_recycled_frames = of_nat (fa_recycled_count s),
     ps_recycled_capacity = of_nat MAX_RECYCLED_FRAMES,
     ps_skipped_frames = skipped_frames s,
     ps_free_frames = sat_sub (allocatable_frames s) (allocated_frames s),
     ps_next_frame = fa_next_frame s,
     ps_last_allocated_frame = last_allocated_frame s,
     ps_kernel_start = fa_kernel_start s,
     ps_kernel_end = fa_kernel_end s,
     ps_protected_until = protected_until s\<rparr>"

end
