(* ===== verification/Multiboot_Properties.thy ===== *)
theory Multiboot_Properties
  imports Multiboot
begin

text \<open>
  The parser of the boot information reads only what the boot loader declared, whatever the
  contents are, and the summary it returns is well formed: counters within the arrays,
  printable text, valid modules below the recorded end.
\<close>

section \<open>Locality\<close>

definition agree :: "memory \<Rightarrow> memory \<Rightarrow> u64 \<Rightarrow> nat \<Rightarrow> bool" where
  "agree m1 m2 a n \<longleftrightarrow> (\<forall>i < n. m1 (a + of_nat i) = m2 (a + of_nat i))"

lemma agreeD: "agree m1 m2 a n \<Longrightarrow> i < n \<Longrightarrow> x = a + of_nat i \<Longrightarrow> m1 x = m2 x"
  by (simp add: agree_def)

lemma agree_sub:
  assumes "agree m1 m2 a n" and "off + k \<le> n" and "x = a + of_nat off"
  shows "agree m1 m2 x k"
  unfolding agree_def
proof (intro allI impI)
  fix i assume "i < k"
  with assms show "m1 (x + of_nat i) = m2 (x + of_nat i)"
    by (intro agreeD [OF assms(1), of "off + i"]) (simp_all add: add.assoc)
qed

lemma read_u32_local: "agree m1 m2 a 4 \<Longrightarrow> read_u32 m1 a = read_u32 m2 a"
  using agreeD [of m1 m2 a 4 0 a] agreeD [of m1 m2 a 4 1 "a + 1"] agreeD [of m1 m2 a 4 2 "a + 2"]
    agreeD [of m1 m2 a 4 3 "a + 3"]
  by (simp add: read_u32_def)

lemma read_u64_local: "agree m1 m2 a 8 \<Longrightarrow> read_u64 m1 a = read_u64 m2 a"
  using read_u32_local [OF agree_sub [of m1 m2 a 8 0 4 a]]
    read_u32_local [OF agree_sub [of m1 m2 a 8 4 4 "a + 4"]]
  by (simp add: read_u64_def)

lemma c_string_local:
  "(\<forall>i \<in> set ks. m1 (a + of_nat i) = m2 (a + of_nat i)) \<Longrightarrow>
   c_string_loop m1 a ks t = c_string_loop m2 a ks t"
  by (induction ks arbitrary: t) (simp_all add: Let_def)

lemma set_from_c_string_local:
  "agree m1 m2 a n \<Longrightarrow> set_from_c_string m1 a n t = set_from_c_string m2 a n t"
  unfolding set_from_c_string_def by (rule c_string_local) (simp add: agree_def)

lemma memory_map_local:
  "agree m1 m2 a n \<Longrightarrow> memory_map_loop m1 a n sz offset s = memory_map_loop m2 a n sz offset s"
proof (induction m1 a n sz offset s rule: memory_map_loop.induct)
  case (1 m1 a n sz offset s)
  show ?case
  proof (cases "offset + 24 \<le> n \<and> 0 < sz")
    case True
    let ?e = "a + of_nat offset"
    have e: "agree m1 m2 ?e 24" using True by (intro agree_sub [OF 1(2)]) simp_all
    have "read_u64 m1 ?e = read_u64 m2 ?e" "read_u64 m1 (?e + 8) = read_u64 m2 (?e + 8)"
      "read_u32 m1 (?e + 16) = read_u32 m2 (?e + 16)"
      using read_u64_local [OF agree_sub [OF e, of 0]] read_u64_local [OF agree_sub [OF e, of 8]]
        read_u32_local [OF agree_sub [OF e, of 16]] by simp_all
    then have "read_region m1 ?e = read_region m2 ?e" by (simp add: read_region_def)
    with 1(1) [OF True 1(2)] True show ?thesis
      by (simp add: memory_map_loop.simps [of m1 a n sz offset] memory_map_loop.simps [of m2 a n sz offset])
  next
    case False
    then show ?thesis
      by (auto simp: memory_map_loop.simps [of m1 a n sz offset] memory_map_loop.simps [of m2 a n sz offset])
  qed
qed

lemma ucast_of_nat: "(ucast (w :: u32) :: u64) = of_nat (unat w)"
  by simp

lemma parse_tag_local:
  assumes "agree m1 m2 a (unat tag_size)" and "8 \<le> tag_size"
  shows "parse_tag m1 s tag_type a tag_size = parse_tag m2 s tag_type a tag_size"
proof -
  let ?n = "unat tag_size"
  have str: "set_from_c_string m1 (a + 8) (?n - 8) t = set_from_c_string m2 (a + 8) (?n - 8) t" for t
    using assms(2) by (intro set_from_c_string_local agree_sub [OF assms(1), of 8])
      (simp_all add: word_le_nat_alt)
  have r: "read_u32 m1 (a + 8) = read_u32 m2 (a + 8)" "read_u32 m1 (a + 12) = read_u32 m2 (a + 12)"
    if "16 \<le> ?n"
    using that read_u32_local [OF agree_sub [OF assms(1), of 8]]
      read_u32_local [OF agree_sub [OF assms(1), of 12]] by simp_all
  have "parse_module m1 s a tag_size = parse_module m2 s a tag_size"
  proof (cases "tag_size < 17")
    case False
    then have n: "17 \<le> ?n" by (simp add: word_less_nat_alt)
    then have "a + ucast tag_size - 1 = a + of_nat (?n - 1)" by (simp add: of_nat_diff)
    then have last: "m1 (a + ucast tag_size - 1) = m2 (a + ucast tag_size - 1)"
      using n by (intro agreeD [OF assms(1), of "?n - 1"]) simp_all
    have "set_from_c_string m1 (a + 16) (?n - 16) t = set_from_c_string m2 (a + 16) (?n - 16) t" for t
      using n by (intro set_from_c_string_local agree_sub [OF assms(1), of 16]) simp_all
    with last n r show ?thesis by (simp add: parse_module_def)
  qed (simp add: parse_module_def)
  moreover have "parse_basic_memory m1 s a tag_size = parse_basic_memory m2 s a tag_size"
    using r by (simp add: parse_basic_memory_def word_less_nat_alt)
  moreover have "parse_memory_map m1 s a tag_size = parse_memory_map m2 s a tag_size"
  proof (cases "tag_size < 16")
    case False
    then have n: "16 \<le> ?n" by (simp add: word_less_nat_alt)
    then have "agree m1 m2 (a + 16) (?n - 16)" by (intro agree_sub [OF assms(1), of 16]) simp_all
    from memory_map_local [OF this] r [OF n] show ?thesis by (simp add: parse_memory_map_def Let_def)
  qed (simp add: parse_memory_map_def)
  ultimately show ?thesis using str by (simp add: parse_tag_def)
qed

lemma parse_tags_local:
  "agree m1 m2 a sz \<Longrightarrow> parse_tags m1 a sz offset s = parse_tags m2 a sz offset s"
proof (induction m1 a sz offset s rule: parse_tags.induct)
  case (1 m1 a sz offset s)
  let ?a = "a + of_nat offset"
  show ?case
  proof (cases "offset + 8 \<le> sz")
    case True
    then have head: "agree m1 m2 ?a 8" by (intro agree_sub [OF 1(2)]) simp_all
    have r: "read_u32 m1 ?a = read_u32 m2 ?a" "read_u32 m1 (?a + 4) = read_u32 m2 (?a + 4)"
      using read_u32_local [OF agree_sub [OF head, of 0]] read_u32_local [OF agree_sub [OF head, of 4]]
      by simp_all
    let ?n = "read_u32 m1 (?a + 4)"
    have tag: "parse_tag m1 s' tt ?a ?n = parse_tag m2 s' tt ?a ?n"
      if "\<not> ?n < 8" "\<not> (sz < offset + unat ?n \<or> offset + unat ?n < offset)" for s' tt
      using that by (intro parse_tag_local agree_sub [OF 1(2)]) auto
    show ?thesis
      using 1(1) [OF _ refl refl refl _ refl _ refl _ refl refl _ 1(2)] True r tag
      by (subst (1 2) parse_tags.simps) (simp add: Let_def)
  next
    case False
    then show ?thesis by (subst (1 2) parse_tags.simps) simp
  qed
qed

text \<open>
  C20. The parser stays inside the boot information: its result depends only on the header
  and on the bytes that the header declares, so two memories that agree there, whatever the
  tags contain, parse to the same summary.
\<close>

theorem parse_reads_declared_bytes:
  assumes "\<forall>i < max 8 (unat (read_u32 m1 address)). m1 (address + of_nat i) = m2 (address + of_nat i)"
  shows "parse m1 magic address = parse m2 magic address"
proof -
  let ?n = "max 8 (unat (read_u32 m1 address))"
  have ag: "agree m1 m2 address ?n" using assms by (simp add: agree_def)
  then have head: "agree m1 m2 address 8" by (simp add: agree_def)
  have r: "read_u32 m1 address = read_u32 m2 address" "read_u32 m1 (address + 4) = read_u32 m2 (address + 4)"
    by (rule read_u32_local [OF agree_sub [OF head, of 0]], simp_all)
      (rule read_u32_local [OF agree_sub [OF head, of 4]], simp_all)
  from ag have "agree m1 m2 address (unat (read_u32 m1 address))" by (simp add: agree_def)
  then have tags: "parse_tags m1 address (unat (read_u32 m2 address)) 8 s =
      parse_tags m2 address (unat (read_u32 m2 address)) 8 s" for s
    unfolding r by (rule parse_tags_local)
  show ?thesis unfolding parse_def Let_def r tags ..
qed

text \<open>A boot information with an empty tag list at \<open>0x1000\<close>, in two different memories.\<close>

definition boot_image :: "u8 \<Rightarrow> memory" where
  "boot_image fill a =
     (if 0x1000 \<le> a \<and> a < 0x1010
      then [16, 0, 0, 0, 0, 0, 0, 0, 0, 0, 0, 0, 8, 0, 0, 0] ! unat (a - 0x1000) else fill)"

theorem parse_reads_declared_bytes_witness:
  "parse (boot_image 0) MULTIBOOT2_BOOTLOADER_MAGIC 0x1000 =
     parse (boot_image 0xFF) MULTIBOOT2_BOOTLOADER_MAGIC 0x1000
   \<and> parsed (parse (boot_image 0) MULTIBOOT2_BOOTLOADER_MAGIC 0x1000)"
proof
  have "unat (read_u32 (boot_image 0) 0x1000) = 16" by code_simp
  moreover have "\<forall>i \<in> set [0..<16]. boot_image 0 (0x1000 + of_nat i) = boot_image 0xFF (0x1000 + of_nat i)"
    by code_simp
  ultimately show "parse (boot_image 0) MULTIBOOT2_BOOTLOADER_MAGIC 0x1000 =
     parse (boot_image 0xFF) MULTIBOOT2_BOOTLOADER_MAGIC 0x1000"
    by (intro parse_reads_declared_bytes) simp
  show "parsed (parse (boot_image 0) MULTIBOOT2_BOOTLOADER_MAGIC 0x1000)" by code_simp
qed

section \<open>Well-formed summaries\<close>

definition printable :: "u8 \<Rightarrow> bool" where
  "printable b \<longleftrightarrow> is_ascii_graphic b \<or> b = 0x20"

definition text_ok :: "TextField \<Rightarrow> bool" where
  "text_ok t \<longleftrightarrow> length (tf_bytes t) = MAX_TEXT_LEN \<and> tf_len t \<le> MAX_TEXT_LEN
     \<and> (\<forall>i < tf_len t. printable (tf_bytes t ! i))"

definition memory_ok :: "MemorySummary \<Rightarrow> bool" where
  "memory_ok s \<longleftrightarrow> length (ms_regions s) = MAX_REGIONS \<and> unat (stored_region_count s) \<le> MAX_REGIONS
     \<and> (\<forall>i < unat (stored_region_count s). region_length (ms_regions s ! i) \<noteq> 0
           \<and> end_addr (ms_regions s ! i) \<le> highest_address s)"

definition summary_ok :: "BootInfoSummary \<Rightarrow> bool" where
  "summary_ok s \<longleftrightarrow> text_ok (bootloader_name s) \<and> text_ok (command_line s)
     \<and> memory_ok (bi_memory s)
     \<and> length (bi_modules s) = MAX_MODULES \<and> unat (stored_module_count s) \<le> MAX_MODULES
     \<and> (\<forall>i < unat (stored_module_count s). is_valid (bi_modules s ! i)
           \<and> text_ok (mod_command_line (bi_modules s ! i))
           \<and> mod_end (bi_modules s ! i) \<le> highest_module_end s)"

lemma c_string_loop_ok:
  "length (tf_bytes t) = MAX_TEXT_LEN \<Longrightarrow> tf_len t = k \<Longrightarrow> k \<le> n \<Longrightarrow> n \<le> MAX_TEXT_LEN \<Longrightarrow>
   \<forall>i < k. printable (tf_bytes t ! i) \<Longrightarrow> text_ok (c_string_loop mem a [k..<n] t)"
proof (induction "n - k" arbitrary: k t)
  case 0
  then show ?case by (simp add: text_ok_def)
next
  case (Suc m)
  then have k: "k < n" by simp
  let ?b = "mem (a + of_nat k)"
  let ?c = "if is_ascii_graphic ?b \<or> ?b = 0x20 then ?b else 0x3f"
  let ?t = "t\<lparr>tf_bytes := (tf_bytes t)[k := ?c], tf_len := tf_len t + 1\<rparr>"
  have c: "printable ?c" by (auto simp: printable_def is_ascii_graphic_def)
  have "text_ok (c_string_loop mem a [Suc k..<n] ?t)"
  proof (rule Suc.hyps(1))
    show "\<forall>i < Suc k. printable (tf_bytes ?t ! i)"
    proof (intro allI impI)
      fix i assume "i < Suc k"
      with c Suc.prems(1,4,5) k show "printable (tf_bytes ?t ! i)" by (cases "i = k") auto
    qed
  qed (use Suc.hyps(2) Suc.prems k in auto)
  with k Suc.prems show ?case by (simp add: upt_conv_Cons Let_def text_ok_def)
qed

lemma set_from_c_string_ok: "text_ok t \<Longrightarrow> text_ok (set_from_c_string mem a n t)"
  unfolding set_from_c_string_def by (rule c_string_loop_ok) (auto simp: text_ok_def)

lemma text_ok_empty [simp]: "text_ok TextField_empty"
  by (simp add: text_ok_def TextField_empty_def)

text \<open>Well-formed text is ASCII, so \<open>as_str\<close> never falls back to the empty string.\<close>

lemma as_str_text_ok:
  assumes "text_ok t"
  shows "as_str t = take (tf_len t) (tf_bytes t)"
proof -
  have "b < 0x80" if "b \<in> set (take (tf_len t) (tf_bytes t))" for b
  proof -
    obtain i where "i < tf_len t" "b = tf_bytes t ! i" using \<open>b \<in> _\<close> by (auto simp: in_set_conv_nth)
    with assms have "printable b" by (simp add: text_ok_def)
    then have "b \<le> 0x7e" by (auto simp: printable_def is_ascii_graphic_def)
    then show ?thesis by (rule le_less_trans) simp
  qed
  then show ?thesis by (simp add: as_str_def utf8_valid_ascii)
qed

lemma count_region_sel [simp]:
  "ms_regions (count_region s r) = ms_regions s"
  "stored_region_count (count_region s r) = stored_region_count s"
  "highest_address (count_region s r) = highest_address s"
  by (simp_all add: count_region_def Let_def)

lemma unat_plus_1: "unat (w :: 'a::len word) < n \<Longrightarrow> n < 2 ^ LENGTH('a) \<Longrightarrow> unat (w + 1) = unat w + 1"
  by (simp add: unat_word_ariths)

lemma add_region_ok:
  assumes "memory_ok s"
  shows "memory_ok (add_region s r)"
proof (cases "region_length r = 0")
  case False
  let ?n = "unat (stored_region_count s)"
  have old: "region_length (ms_regions s ! i) \<noteq> 0 \<and>
      end_addr (ms_regions s ! i) \<le> max (highest_address s) (end_addr r)" if "i < ?n" for i
    using assms that by (auto simp: memory_ok_def le_max_iff_disj)
  show ?thesis
  proof (cases "?n < MAX_REGIONS")
    case True
    then have n: "unat (stored_region_count s + 1) = ?n + 1" by (rule unat_plus_1) (simp add: multiboot_consts)
    show ?thesis
      unfolding memory_ok_def
    proof (intro conjI allI impI)
      fix i assume "i < unat (stored_region_count (add_region s r))"
      with False True n have "i < ?n + 1" by (simp add: add_region_def Let_def)
      with old False True assms show "region_length (ms_regions (add_region s r) ! i) \<noteq> 0"
        "end_addr (ms_regions (add_region s r) ! i) \<le> highest_address (add_region s r)"
        by (cases "i = ?n"; simp add: add_region_def Let_def memory_ok_def)+
    qed (use assms False True n in \<open>simp_all add: add_region_def Let_def memory_ok_def\<close>)
  next
    case full: False
    with assms False old show ?thesis by (simp add: add_region_def Let_def memory_ok_def)
  qed
qed (simp add: add_region_def assms)

lemma memory_map_loop_ok: "memory_ok s \<Longrightarrow> memory_ok (memory_map_loop mem a n sz offset s)"
  by (induction mem a n sz offset s rule: memory_map_loop.induct)
    (subst memory_map_loop.simps, simp add: add_region_ok)

lemma add_module_ok:
  assumes "summary_ok s" and "text_ok (mod_command_line m)"
  shows "summary_ok (add_module s m)"
proof (cases "is_valid m")
  case True
  let ?n = "unat (stored_module_count s)"
  have old: "is_valid (bi_modules s ! i) \<and> text_ok (mod_command_line (bi_modules s ! i))
      \<and> mod_end (bi_modules s ! i) \<le> max (highest_module_end s) (mod_end m)" if "i < ?n" for i
    using assms(1) that by (auto simp: summary_ok_def le_max_iff_disj)
  show ?thesis
  proof (cases "?n < MAX_MODULES")
    case room: True
    then have n: "unat (sat_add (stored_module_count s) 1) = ?n + 1"
      using unat_sat_add [of "stored_module_count s" 1] by (simp add: multiboot_consts)
    have new: "is_valid (bi_modules (add_module s m) ! i)
        \<and> text_ok (mod_command_line (bi_modules (add_module s m) ! i))
        \<and> mod_end (bi_modules (add_module s m) ! i) \<le> highest_module_end (add_module s m)"
      if "i < ?n + 1" for i
      using that old True room assms
      by (cases "i = ?n") (simp_all add: add_module_def Let_def summary_ok_def)
    with True room n assms show ?thesis by (simp add: add_module_def Let_def summary_ok_def)
  next
    case full: False
    with True old assms show ?thesis by (simp add: add_module_def Let_def summary_ok_def)
  qed
qed (simp add: add_module_def assms)

lemma parse_tag_ok:
  assumes "summary_ok s"
  shows "summary_ok (parse_tag mem s tt a sz)"
proof -
  have "summary_ok (parse_module mem s a sz)"
    by (simp add: parse_module_def add_module_ok assms set_from_c_string_ok)
  moreover have "summary_ok (parse_basic_memory mem s a sz)"
    using assms by (simp add: parse_basic_memory_def summary_ok_def memory_ok_def)
  moreover have "memory_ok ((bi_memory s)\<lparr>has_memory_map := True, entry_size := x, entry_version := v\<rparr>)"
    for x v using assms by (simp add: summary_ok_def memory_ok_def)
  then have "summary_ok (parse_memory_map mem s a sz)"
    using assms by (simp add: parse_memory_map_def summary_ok_def Let_def memory_map_loop_ok)
  ultimately show ?thesis
    using assms by (simp add: parse_tag_def summary_ok_def set_from_c_string_ok)
qed

lemma parse_tags_ok: "summary_ok s \<Longrightarrow> summary_ok (parse_tags mem a sz offset s)"
proof (induction mem a sz offset s rule: parse_tags.induct)
  case (1 mem a sz offset s)
  have "summary_ok (s\<lparr>tag_count := c\<rparr>)" "summary_ok (s\<lparr>tag_count := c, has_end_tag := b\<rparr>)" for c b
    using 1(2) by (simp_all add: summary_ok_def)
  with 1 parse_tag_ok show ?case
    by (subst parse_tags.simps) (simp add: Let_def)
qed

lemma BootInfoSummary_empty_ok: "summary_ok BootInfoSummary_empty"
  by (simp add: summary_ok_def BootInfoSummary_empty_def memory_ok_def MemorySummary_empty_def)

lemma summary_ok_parse: "summary_ok (parse mem magic address)"
proof -
  have *: "summary_ok (BootInfoSummary_empty\<lparr>bi_magic := a, bi_address := b, valid_magic := c\<rparr>)"
    "summary_ok (BootInfoSummary_empty\<lparr>bi_magic := a, bi_address := b, valid_magic := c,
       total_size := d, bi_reserved := e\<rparr>)" for a b c d e
    using BootInfoSummary_empty_ok by (simp_all add: summary_ok_def)
  moreover have "summary_ok (s\<lparr>parsed := p\<rparr>)" if "summary_ok s" for s p
    using that by (simp add: summary_ok_def)
  ultimately show ?thesis using parse_tags_ok by (simp add: parse_def Let_def)
qed

text \<open>
  C21. The summary of any boot information, also of a malformed one, is well formed: at most
  16 regions and 4 modules are stored, within their arrays; every stored region is non-empty
  and ends below the highest address; every stored module is valid and ends below the
  recorded end; and all texts are printable ASCII of at most 96 bytes.
\<close>

theorem parse_well_formed: "summary_ok (parse mem magic address)"
  by (rule summary_ok_parse)

end
