(* ===== verification/Physmem_Properties.thy ===== *)
theory Physmem_Properties
  imports Physmem Multiboot_Properties
begin

unbundle bit_operations_syntax

text \<open>
  The frame allocator against its specification: a set of live frames that \<open>allocate_frame\<close>
  grows by a fresh frame and \<open>free_frame\<close> shrinks by the frame it accepts.
\<close>

section \<open>Alignment\<close>

lemma frame_mask: "FRAME_SIZE - 1 = mask 12"
  by (simp add: FRAME_SIZE_def mask_eq_exp_minus_1)

lemma aligned_iff: "is_frame_aligned v \<longleftrightarrow> 4096 dvd unat v"
proof -
  have "v AND mask 12 = v mod 4096" by (simp add: take_bit_eq_mask [symmetric] take_bit_eq_mod)
  moreover have "v mod 4096 = 0 \<longleftrightarrow> unat (v mod 4096) = 0" by (simp add: unat_eq_0)
  ultimately show ?thesis
    by (simp add: is_frame_aligned_def frame_mask unat_mod_distrib dvd_eq_mod_eq_0)
qed

lemma unat_align_down: "unat (align_down v FRAME_SIZE) = unat v div 4096 * 4096"
proof -
  have "align_down v FRAME_SIZE = push_bit 12 (drop_bit 12 v)"
    unfolding align_down_def frame_mask
    by (rule bit_eqI) (auto simp: bit_simps)
  also have "\<dots> = v div 4096 * 4096" by (simp add: push_bit_eq_mult drop_bit_eq_div)
  finally have eq: "align_down v FRAME_SIZE = v div 4096 * 4096" .
  have "unat v < 2 ^ 64" using unsigned_less [of v] by simp
  then have "unat v div 4096 * 4096 < 2 ^ 64" by (meson div_times_less_eq_dividend le_less_trans)
  then show ?thesis unfolding eq by (simp add: unat_word_ariths unat_div_distrib)
qed

lemma align_down_props: "is_frame_aligned (align_down v FRAME_SIZE)" "align_down v FRAME_SIZE \<le> v"
  by (simp_all add: aligned_iff unat_align_down word_le_nat_alt)

lemma align_up_aligned: "is_frame_aligned (align_up v FRAME_SIZE)"
  by (simp add: align_up_def align_down_props)

lemma align_up_ge:
  assumes "unat v \<le> 2 ^ 64 - 4096"
  shows "v \<le> align_up v FRAME_SIZE"
proof -
  have "unat (sat_add v (FRAME_SIZE - 1)) = unat v + 4095"
    using assms unat_sat_add [of v "FRAME_SIZE - 1"] by (simp add: FRAME_SIZE_def)
  then have "unat (align_up v FRAME_SIZE) = (unat v + 4095) div 4096 * 4096"
    by (simp add: align_up_def unat_align_down)
  also have "\<dots> \<ge> unat v" by linarith
  finally show ?thesis by (simp add: word_le_nat_alt)
qed

text \<open>Two aligned addresses differ by at least a frame.\<close>

lemma aligned_less:
  assumes "is_frame_aligned a" and "is_frame_aligned b" and "a < b"
  shows "unat a + 4096 \<le> unat b"
proof -
  obtain k l where "unat a = 4096 * k" "unat b = 4096 * l"
    using assms(1,2) unfolding aligned_iff by (meson dvdE)
  with assms(3) show ?thesis by (simp add: word_less_nat_alt)
qed

lemma next_frame_props:
  assumes "is_frame_aligned a" and "is_frame_aligned b" and "a < b"
  shows "unat (sat_add a FRAME_SIZE) = unat a + 4096" "is_frame_aligned (sat_add a FRAME_SIZE)"
    "sat_add a FRAME_SIZE \<le> b"
proof -
  note ab = aligned_less [OF assms]
  have "unat b < 2 ^ 64" using unsigned_less [of b] by simp
  with ab show u: "unat (sat_add a FRAME_SIZE) = unat a + 4096"
    using unat_sat_add [of a FRAME_SIZE] by (simp add: FRAME_SIZE_def)
  then show "is_frame_aligned (sat_add a FRAME_SIZE)" "sat_add a FRAME_SIZE \<le> b"
    using assms(1) ab by (simp_all add: aligned_iff word_le_nat_alt)
qed

section \<open>The specification\<close>

definition frames :: "AllocRegion \<Rightarrow> u64 set" where
  "frames r = {f. is_frame_aligned f \<and> ar_start r \<le> f \<and> f < ar_end r}"

definition all_frames :: "FrameAllocator \<Rightarrow> u64 set" where
  "all_frames s = (\<Union>i < fa_region_count s. frames (fa_regions s ! i))"

definition issued :: "FrameAllocator \<Rightarrow> u64 set" where
  "issued s = {f. \<exists>i < fa_region_count s. f \<in> frames (fa_regions s ! i)
     \<and> (i < fa_current_region s \<or> i = fa_current_region s \<and> f < fa_next_frame s)}"

definition recycled :: "FrameAllocator \<Rightarrow> u64 list" where
  "recycled s = take (fa_recycled_count s) (fa_recycled_frames s)"

text \<open>The frames in use: handed out and not given back.\<close>

definition live_frames :: "FrameAllocator \<Rightarrow> u64 set" where
  "live_frames s = issued s - set (recycled s)"

definition regions_ok :: "FrameAllocator \<Rightarrow> bool" where
  "regions_ok s \<longleftrightarrow> length (fa_regions s) = MAX_ALLOC_REGIONS \<and> fa_region_count s \<le> MAX_ALLOC_REGIONS
     \<and> (\<forall>i < fa_region_count s. let r = fa_regions s ! i in is_frame_aligned (ar_start r)
           \<and> is_frame_aligned (ar_end r) \<and> ar_start r < ar_end r \<and> protected_until s \<le> ar_start r)
     \<and> (\<forall>i < fa_region_count s. \<forall>j < i. ar_end (fa_regions s ! i) \<le> ar_start (fa_regions s ! j)
           \<or> ar_end (fa_regions s ! j) \<le> ar_start (fa_regions s ! i))"

definition cursor_ok :: "FrameAllocator \<Rightarrow> bool" where
  "cursor_ok s \<longleftrightarrow> fa_current_region s \<le> fa_region_count s
     \<and> (fa_current_region s < fa_region_count s \<longrightarrow>
          is_frame_aligned (fa_next_frame s)
          \<and> ar_start (fa_regions s ! fa_current_region s) \<le> fa_next_frame s
          \<and> fa_next_frame s \<le> ar_end (fa_regions s ! fa_current_region s))"

definition phys_inv :: "FrameAllocator \<Rightarrow> bool" where
  "phys_inv s \<longleftrightarrow> regions_ok s \<and> cursor_ok s
     \<and> length (fa_recycled_frames s) = MAX_RECYCLED_FRAMES
     \<and> fa_recycled_count s \<le> MAX_RECYCLED_FRAMES
     \<and> distinct (recycled s) \<and> set (recycled s) \<subseteq> issued s
     \<and> unat (allocated_frames s) = card (live_frames s)"

lemma region_okD:
  assumes "regions_ok s" and "i < fa_region_count s"
  shows "is_frame_aligned (ar_start (fa_regions s ! i))" "is_frame_aligned (ar_end (fa_regions s ! i))"
    "ar_start (fa_regions s ! i) < ar_end (fa_regions s ! i)"
    "protected_until s \<le> ar_start (fa_regions s ! i)"
  using assms unfolding regions_ok_def Let_def by blast+

lemma region_unique:
  assumes "regions_ok s" and "i < fa_region_count s" and "j < fa_region_count s"
    and "ar_start (fa_regions s ! i) \<le> f" and "f < ar_end (fa_regions s ! i)"
    and "ar_start (fa_regions s ! j) \<le> f" and "f < ar_end (fa_regions s ! j)"
  shows "i = j"
proof (rule ccontr)
  assume "i \<noteq> j"
  then have "ar_end (fa_regions s ! i) \<le> ar_start (fa_regions s ! j)
      \<or> ar_end (fa_regions s ! j) \<le> ar_start (fa_regions s ! i)"
    using assms(1-3) unfolding regions_ok_def by (metis linorder_neqE_nat)
  with assms(4-7) show False by (meson le_less_trans less_le_trans not_less)
qed

lemma issued_in_iff:
  assumes "regions_ok s" and "set ks \<subseteq> {..<fa_region_count s}"
  shows "issued_in s f ks \<longleftrightarrow> (\<exists>i \<in> set ks. ar_start (fa_regions s ! i) \<le> f \<and> f < ar_end (fa_regions s ! i)
    \<and> (i < fa_current_region s \<or> i = fa_current_region s \<and> f < fa_next_frame s))"
  using assms(2)
proof (induction ks)
  case (Cons k ks)
  let ?r = "fa_regions s ! k"
  show ?case
  proof (cases "ar_start ?r \<le> f \<and> f < ar_end ?r")
    case True
    have "i = k" if "i \<in> set (k # ks)" "ar_start (fa_regions s ! i) \<le> f" "f < ar_end (fa_regions s ! i)" for i
      using region_unique [OF assms(1), of i k f] Cons.prems that True by auto
    then have "(\<exists>i \<in> set (k # ks). ar_start (fa_regions s ! i) \<le> f \<and> f < ar_end (fa_regions s ! i)
        \<and> (i < fa_current_region s \<or> i = fa_current_region s \<and> f < fa_next_frame s)) \<longleftrightarrow>
      (k < fa_current_region s \<or> k = fa_current_region s \<and> f < fa_next_frame s)"
      using True by auto
    with True show ?thesis by (simp add: Let_def)
  next
    case False
    with Cons show ?thesis by (auto simp: Let_def)
  qed
qed simp

lemma is_issued_frame_iff:
  assumes "regions_ok s" and "is_frame_aligned f"
  shows "is_issued_frame s f \<longleftrightarrow> f \<in> issued s"
proof -
  have "set [0..<fa_region_count s] \<subseteq> {..<fa_region_count s}" by auto
  from issued_in_iff [OF assms(1) this, of f] assms(2) show ?thesis
    by (auto simp: is_issued_frame_def issued_def frames_def)
qed

lemma issued_props:
  assumes "regions_ok s" and "f \<in> issued s"
  shows "is_frame_aligned f" "protected_until s \<le> f" "f \<in> all_frames s"
  using assms region_okD(4) [OF assms(1)] by (auto simp: issued_def frames_def all_frames_def intro: order_trans)

section \<open>The bump loop\<close>

text \<open>Moving the cursor past a used-up region changes no issued frame.\<close>

definition advance :: "FrameAllocator \<Rightarrow> FrameAllocator" where
  "advance s = (let s2 = s\<lparr>fa_current_region := fa_current_region s + 1\<rparr>
     in if fa_current_region s2 < fa_region_count s2
        then s2\<lparr>fa_next_frame := ar_start (fa_regions s2 ! fa_current_region s2)\<rparr> else s2)"

lemma advance_sel [simp]:
  "fa_regions (advance s) = fa_regions s" "fa_region_count (advance s) = fa_region_count s"
  "fa_current_region (advance s) = fa_current_region s + 1"
  "protected_until (advance s) = protected_until s" "recycled (advance s) = recycled s"
  "fa_recycled_frames (advance s) = fa_recycled_frames s"
  "fa_recycled_count (advance s) = fa_recycled_count s"
  "allocated_frames (advance s) = allocated_frames s" "fa_initialized (advance s) = fa_initialized s"
  by (simp_all add: advance_def Let_def recycled_def)

lemma regions_ok_cong:
  "fa_regions t = fa_regions s \<Longrightarrow> fa_region_count t = fa_region_count s \<Longrightarrow>
   protected_until t = protected_until s \<Longrightarrow> regions_ok t = regions_ok s"
  by (simp add: regions_ok_def)

lemma advance_ok:
  assumes "regions_ok s" and "cursor_ok s" and "fa_current_region s < fa_region_count s"
    and "\<not> fa_next_frame s < ar_end (fa_regions s ! fa_current_region s)"
  shows "cursor_ok (advance s)" and "issued (advance s) = issued s"
proof -
  let ?k = "fa_current_region s"
  have next_end: "fa_next_frame s = ar_end (fa_regions s ! ?k)"
    using assms(2-4) by (simp add: cursor_ok_def)
  have at: "fa_next_frame (advance s) = ar_start (fa_regions s ! Suc ?k)" if "Suc ?k < fa_region_count s"
    using that by (simp add: advance_def Let_def)
  show "cursor_ok (advance s)"
    using assms(3) at region_okD [OF assms(1), of "Suc ?k"] by (auto simp: cursor_ok_def Suc_le_eq)
  show "issued (advance s) = issued s"
    using at next_end assms(3) by (auto simp: issued_def frames_def less_Suc_eq)
qed

lemma bump_loop_cases:
  assumes "cursor_ok s"
  shows "\<not> fa_current_region s < fa_region_count s \<Longrightarrow> bump_loop s = (None, s\<lparr>fa_exhausted := True\<rparr>)"
    and "fa_current_region s < fa_region_count s \<Longrightarrow>
      fa_next_frame s < ar_end (fa_regions s ! fa_current_region s) \<Longrightarrow>
      bump_loop s = (Some (fa_next_frame s), s\<lparr>fa_next_frame := sat_add (fa_next_frame s) FRAME_SIZE,
        allocated_frames := allocated_frames s + 1, last_allocated_frame := fa_next_frame s\<rparr>)"
    and "fa_current_region s < fa_region_count s \<Longrightarrow>
      \<not> fa_next_frame s < ar_end (fa_regions s ! fa_current_region s) \<Longrightarrow>
      bump_loop s = bump_loop (advance s)"
proof -
  have "\<not> fa_next_frame s < ar_start (fa_regions s ! fa_current_region s)"
    if "fa_current_region s < fa_region_count s"
    using assms that by (auto simp: cursor_ok_def)
  then show "\<not> fa_current_region s < fa_region_count s \<Longrightarrow> bump_loop s = (None, s\<lparr>fa_exhausted := True\<rparr>)"
    "fa_current_region s < fa_region_count s \<Longrightarrow>
      fa_next_frame s < ar_end (fa_regions s ! fa_current_region s) \<Longrightarrow>
      bump_loop s = (Some (fa_next_frame s), s\<lparr>fa_next_frame := sat_add (fa_next_frame s) FRAME_SIZE,
        allocated_frames := allocated_frames s + 1, last_allocated_frame := fa_next_frame s\<rparr>)"
    "fa_current_region s < fa_region_count s \<Longrightarrow>
      \<not> fa_next_frame s < ar_end (fa_regions s ! fa_current_region s) \<Longrightarrow>
      bump_loop s = bump_loop (advance s)"
    by (subst bump_loop.simps, simp add: Let_def advance_def)+
qed

text \<open>What the loop promises: it finds a frame that was not issued, or there is none.\<close>

definition bump_result :: "FrameAllocator \<Rightarrow> u64 option \<times> FrameAllocator \<Rightarrow> bool" where
  "bump_result s r \<longleftrightarrow>
     fa_regions (snd r) = fa_regions s \<and> fa_region_count (snd r) = fa_region_count s
     \<and> protected_until (snd r) = protected_until s
     \<and> fa_recycled_frames (snd r) = fa_recycled_frames s
     \<and> fa_recycled_count (snd r) = fa_recycled_count s \<and> cursor_ok (snd r)
     \<and> (case fst r of
          None \<Rightarrow> issued s = all_frames s \<and> issued (snd r) = issued s \<and> fa_exhausted (snd r)
            \<and> allocated_frames (snd r) = allocated_frames s
        | Some f \<Rightarrow> f \<notin> issued s \<and> f \<in> all_frames s \<and> issued (snd r) = insert f (issued s)
            \<and> allocated_frames (snd r) = allocated_frames s + 1)"

lemma bump_hit_issued:
  assumes "regions_ok s" and "cursor_ok s" and "fa_current_region s < fa_region_count s"
    and "fa_next_frame s < ar_end (fa_regions s ! fa_current_region s)"
    and "fa_regions t = fa_regions s" and "fa_region_count t = fa_region_count s"
    and "fa_current_region t = fa_current_region s"
    and "fa_next_frame t = sat_add (fa_next_frame s) FRAME_SIZE"
  shows "fa_next_frame s \<notin> issued s" and "fa_next_frame s \<in> all_frames s"
    and "issued t = insert (fa_next_frame s) (issued s)" and "cursor_ok t"
proof -
  let ?k = "fa_current_region s" and ?n = "fa_next_frame s"
  let ?r = "fa_regions s ! ?k"
  have cur: "is_frame_aligned ?n" "ar_start ?r \<le> ?n" using assms(2,3) by (auto simp: cursor_ok_def)
  note r = region_okD [OF assms(1,3)]
  note nx = next_frame_props [OF cur(1) r(2) assms(4)]
  have mem: "?n \<in> frames ?r" using cur assms(4) by (simp add: frames_def)
  show "?n \<in> all_frames s" using mem assms(3) by (auto simp: all_frames_def)
  show "?n \<notin> issued s"
  proof
    assume "?n \<in> issued s"
    then obtain i where "i < fa_region_count s" "?n \<in> frames (fa_regions s ! i)" "i < ?k"
      by (auto simp: issued_def)
    with region_unique [OF assms(1), of i ?k ?n] mem assms(3) show False by (auto simp: frames_def)
  qed
  have "f < sat_add ?n FRAME_SIZE \<longleftrightarrow> f < ?n \<or> f = ?n" if "is_frame_aligned f" for f
    using aligned_less [OF cur(1) that] nx(1)
    by (cases ?n f rule: linorder_cases) (auto simp: word_less_nat_alt)
  then show "issued t = insert ?n (issued s)"
    using mem assms(3,5-8) by (auto simp: issued_def frames_def)
  show "cursor_ok t"
    using assms(2,3,5-8) nx cur(2) by (auto simp: cursor_ok_def word_le_nat_alt)
qed

lemma bump_loop_spec:
  "regions_ok s \<Longrightarrow> cursor_ok s \<Longrightarrow> bump_result s (bump_loop s)"
proof (induction "fa_region_count s - fa_current_region s" arbitrary: s rule: less_induct)
  case less
  let ?k = "fa_current_region s"
  let ?r = "fa_regions s ! ?k"
  note step = bump_loop_cases [OF less.prems(2)]
  consider (none) "\<not> ?k < fa_region_count s"
    | (hit) "?k < fa_region_count s" "fa_next_frame s < ar_end ?r"
    | (miss) "?k < fa_region_count s" "\<not> fa_next_frame s < ar_end ?r" by blast
  then show ?case
  proof cases
    case none
    then have "issued s = all_frames s"
      using less.prems(2) by (auto simp: issued_def all_frames_def cursor_ok_def)
    with step(1) [OF none] less.prems(2) show ?thesis
      by (simp add: bump_result_def issued_def cursor_ok_def)
  next
    case hit
    let ?t = "s\<lparr>fa_next_frame := sat_add (fa_next_frame s) FRAME_SIZE,
        allocated_frames := allocated_frames s + 1, last_allocated_frame := fa_next_frame s\<rparr>"
    have "fa_next_frame s \<notin> issued s" "fa_next_frame s \<in> all_frames s"
      "issued ?t = insert (fa_next_frame s) (issued s)" "cursor_ok ?t"
      by (rule bump_hit_issued [OF less.prems hit, of ?t]; simp)+
    with step(2) [OF hit] show ?thesis by (simp add: bump_result_def)
  next
    case miss
    note a = advance_ok [OF less.prems miss]
    have "bump_result (advance s) (bump_loop (advance s))"
      using miss(1) less.prems(1) regions_ok_cong [of "advance s" s] a(1)
      by (intro less.hyps) simp_all
    moreover have af: "all_frames (advance s) = all_frames s" by (simp add: all_frames_def)
    ultimately show ?thesis
      unfolding step(3) [OF miss] bump_result_def advance_sel a(2) af by blast
  qed
qed

section \<open>Allocation and release\<close>

lemma card_live_bound:
  assumes "regions_ok s" and "A \<subseteq> all_frames s"
  shows "card A < 2 ^ 64"
proof -
  have "1 \<notin> all_frames s"
    by (auto simp: all_frames_def frames_def aligned_iff)
  with assms(2) have "A \<subseteq> UNIV - {1}" by blast
  then have "card A \<le> card (UNIV - {1 :: u64})" by (intro card_mono) auto
  also have "\<dots> < 2 ^ 64" by (simp add: card_word)
  finally show ?thesis .
qed

lemma phys_invD:
  assumes "phys_inv s"
  shows "regions_ok s" "cursor_ok s" "set (recycled s) \<subseteq> issued s" "distinct (recycled s)"
    "length (recycled s) = fa_recycled_count s"
  using assms by (auto simp: phys_inv_def recycled_def)

lemma issued_cong:
  "fa_regions t = fa_regions s \<Longrightarrow> fa_region_count t = fa_region_count s \<Longrightarrow>
   fa_current_region t = fa_current_region s \<Longrightarrow> fa_next_frame t = fa_next_frame s \<Longrightarrow>
   issued t = issued s"
  by (simp add: issued_def)

lemma allocate_Some:
  assumes "phys_inv s" and "allocate_frame s = (Some f, s')"
  shows "f \<notin> live_frames s" "f \<in> all_frames s" "live_frames s' = insert f (live_frames s)"
    "phys_inv s'" "protected_until s' = protected_until s" "all_frames s' = all_frames s"
proof -
  note inv = phys_invD [OF assms(1)]
  have "f \<notin> live_frames s \<and> f \<in> all_frames s \<and> live_frames s' = insert f (live_frames s)
      \<and> regions_ok s' \<and> cursor_ok s' \<and> length (fa_recycled_frames s') = MAX_RECYCLED_FRAMES
      \<and> fa_recycled_count s' \<le> MAX_RECYCLED_FRAMES \<and> distinct (recycled s')
      \<and> set (recycled s') \<subseteq> issued s' \<and> allocated_frames s' = allocated_frames s + 1
      \<and> protected_until s' = protected_until s \<and> all_frames s' = all_frames s"
  proof (cases "0 < fa_recycled_count s")
    case True
    let ?n = "fa_recycled_count s - 1"
    have len: "?n < length (recycled s)" using True inv(5) by simp
    have s': "s' = s\<lparr>fa_recycled_count := ?n, fa_recycled_frames := (fa_recycled_frames s)[?n := 0],
        allocated_frames := allocated_frames s + 1, last_allocated_frame := f, fa_exhausted := False\<rparr>"
      and f: "f = recycled s ! ?n"
      using assms(2) True len by (auto simp: allocate_frame_def Let_def recycled_def)
    have rec: "recycled s = recycled s' @ [f]"
      using True len f inv(5) by (simp add: recycled_def s' take_Suc_conv_app_nth [symmetric])
    have iss: "issued s' = issued s" by (rule issued_cong) (simp_all add: s')
    have reg: "regions_ok s' = regions_ok s" "all_frames s' = all_frames s"
      by (simp_all add: regions_ok_def all_frames_def s')
    have "f \<in> issued s" "f \<notin> set (recycled s')" using rec inv(3,4) by auto
    with rec inv reg iss issued_props(3) [OF inv(1)] assms(1) show ?thesis
      by (auto simp: live_frames_def phys_inv_def s' cursor_ok_def)
  next
    case False
    with assms(2) have b: "bump_loop s = (Some f, s')" by (simp add: allocate_frame_def)
    have r: "recycled s = []" using False inv(5) by auto
    have "bump_result s (Some f, s')" using bump_loop_spec [OF inv(1,2)] b by simp
    with r assms(1) inv regions_ok_cong [of s' s] show ?thesis
      by (auto simp: bump_result_def live_frames_def recycled_def phys_inv_def all_frames_def)
  qed
  note new = this
  show "f \<notin> live_frames s" "f \<in> all_frames s" "live_frames s' = insert f (live_frames s)"
    "protected_until s' = protected_until s" "all_frames s' = all_frames s"
    using new by blast+
  have "insert f (live_frames s) \<subseteq> all_frames s"
    using new issued_props(3) [OF inv(1)] by (auto simp: live_frames_def)
  from card_live_bound [OF inv(1) this] new assms(1)
  have "unat (allocated_frames s) + 1 = card (live_frames s')" "card (live_frames s') < 2 ^ 64"
    by (simp_all add: phys_inv_def)
  then have "unat (allocated_frames s') = card (live_frames s')"
    using new by (simp add: unat_word_ariths)
  with new show "phys_inv s'" by (simp add: phys_inv_def)
qed

lemma allocate_None:
  assumes "phys_inv s" and "allocate_frame s = (None, s')"
  shows "live_frames s = all_frames s" "fa_exhausted s'" "live_frames s' = live_frames s"
    "phys_inv s'" "protected_until s' = protected_until s" "all_frames s' = all_frames s"
proof -
  note inv = phys_invD [OF assms(1)]
  have z: "\<not> 0 < fa_recycled_count s" and b: "bump_loop s = (None, s')"
    using assms(2) by (auto simp: allocate_frame_def Let_def split: if_splits)
  have r: "recycled s = []" using z inv(5) by auto
  have "bump_result s (None, s')" using bump_loop_spec [OF inv(1,2)] b by simp
  then have sel: "fa_regions s' = fa_regions s" "fa_region_count s' = fa_region_count s"
    "protected_until s' = protected_until s" "fa_recycled_frames s' = fa_recycled_frames s"
    "fa_recycled_count s' = fa_recycled_count s" "cursor_ok s'" "issued s = all_frames s"
    "issued s' = issued s" "fa_exhausted s'" "allocated_frames s' = allocated_frames s"
    by (simp_all add: bump_result_def)
  then have rec: "recycled s' = recycled s" by (simp add: recycled_def)
  show "live_frames s = all_frames s" "fa_exhausted s'" "live_frames s' = live_frames s"
    "protected_until s' = protected_until s" "all_frames s' = all_frames s"
    using sel r rec by (simp_all add: live_frames_def all_frames_def)
  show "phys_inv s'"
    using assms(1) sel rec regions_ok_cong [of s' s] by (simp add: phys_inv_def live_frames_def)
qed

lemma free_frame_iff:
  assumes "phys_inv s"
  shows "fst (free_frame s f) \<longleftrightarrow> f \<in> live_frames s \<and> fa_recycled_count s < MAX_RECYCLED_FRAMES"
proof -
  note inv = phys_invD [OF assms]
  have "list_ex (\<lambda>i. fa_recycled_frames s ! i = f) [0..<fa_recycled_count s] \<longleftrightarrow> f \<in> set (recycled s)"
    using inv(5) by (auto simp: list_ex_iff in_set_conv_nth recycled_def)
  moreover have "is_frame_aligned f \<and> protected_until s \<le> f \<and> is_issued_frame s f \<longleftrightarrow> f \<in> issued s"
    using is_issued_frame_iff [OF inv(1), of f] issued_props [OF inv(1), of f] by blast
  ultimately show ?thesis by (auto simp: free_frame_def live_frames_def not_less)
qed

lemma free_frame_accepts:
  assumes "phys_inv s" and "free_frame s f = (True, s')"
  shows "live_frames s' = live_frames s - {f}" "phys_inv s'" "protected_until s' = protected_until s"
    "all_frames s' = all_frames s" "recycled s' = recycled s @ [f]"
proof -
  note inv = phys_invD [OF assms(1)]
  have f: "f \<in> live_frames s" "fa_recycled_count s < MAX_RECYCLED_FRAMES"
    using free_frame_iff [OF assms(1), of f] assms(2) by auto
  have s': "s' = s\<lparr>fa_recycled_frames := (fa_recycled_frames s)[fa_recycled_count s := f],
      fa_recycled_count := fa_recycled_count s + 1,
      allocated_frames := sat_sub (allocated_frames s) 1, fa_exhausted := False\<rparr>"
    using assms(2) by (auto simp: free_frame_def split: if_splits)
  have len: "length (fa_recycled_frames s) = MAX_RECYCLED_FRAMES" using assms(1) by (simp add: phys_inv_def)
  show rec: "recycled s' = recycled s @ [f]"
    using len f(2) by (simp add: recycled_def s' take_Suc_conv_app_nth)
  have iss: "issued s' = issued s" by (rule issued_cong) (simp_all add: s')
  show live: "live_frames s' = live_frames s - {f}" using rec iss by (auto simp: live_frames_def)
  show "protected_until s' = protected_until s" "all_frames s' = all_frames s"
    by (simp_all add: s' all_frames_def)
  have "finite (live_frames s)" by simp
  then have "unat (allocated_frames s') = card (live_frames s')"
    using f(1) live assms(1) by (simp add: s' unat_sat_sub phys_inv_def)
  moreover have "regions_ok s' = regions_ok s" "cursor_ok s' = cursor_ok s"
    by (simp_all add: regions_ok_def cursor_ok_def s')
  ultimately show "phys_inv s'"
    using assms(1) rec iss f by (auto simp: phys_inv_def s' live_frames_def)
qed

lemma free_frame_rejects: "\<not> fst (free_frame s f) \<Longrightarrow> snd (free_frame s f) = s"
  by (auto simp: free_frame_def split: if_splits)

end
