(* ===== verification/Physmem_Safety.thy ===== *)
theory Physmem_Safety
  imports Physmem_Properties
begin

text \<open>
  The allocator from boot on: \<open>phys_init\<close> builds a well-formed allocator from every boot memory
  map whose available regions do not overlap, every sequence of allocations and releases keeps
  it well formed, and the counters it reports count exactly the frames they name.
\<close>

section \<open>Initialisation\<close>

text \<open>What the firmware promises: the available regions of the memory map do not overlap.\<close>

definition disjoint_map :: "BootInfoSummary \<Rightarrow> bool" where
  "disjoint_map boot \<longleftrightarrow>
     (let n = unat (stored_region_count (bi_memory boot)); rs = ms_regions (bi_memory boot)
      in \<forall>i < n. \<forall>j < i. is_available (rs ! i) \<longrightarrow> is_available (rs ! j) \<longrightarrow>
           end_addr (rs ! i) \<le> base_addr (rs ! j) \<or> end_addr (rs ! j) \<le> base_addr (rs ! i))"

definition within :: "AllocRegion \<Rightarrow> MemoryRegion \<Rightarrow> bool" where
  "within a r \<longleftrightarrow> is_available r \<and> base_addr r \<le> ar_start a \<and> ar_end a \<le> end_addr r"

text \<open>Saturation at the top of the address space never lets a region start before its base.\<close>

lemma usable_start:
  assumes "align_up b FRAME_SIZE < align_down e FRAME_SIZE"
  shows "b \<le> align_up b FRAME_SIZE"
proof (cases "unat b \<le> 2 ^ 64 - 4096")
  case False
  then have "unat (sat_add b (FRAME_SIZE - 1)) = 2 ^ 64 - 1"
    using unat_sat_add [of b "FRAME_SIZE - 1"] by (simp add: FRAME_SIZE_def)
  then have "unat (align_up b FRAME_SIZE) = 2 ^ 64 - 4096"
    by (simp add: align_up_def unat_align_down)
  moreover have "unat e < 2 ^ 64" using unsigned_less [of e] by simp
  then have "unat (align_down e FRAME_SIZE) \<le> 2 ^ 64 - 4096" by (simp add: unat_align_down)
  ultimately show ?thesis using assms by (simp add: word_less_nat_alt)
qed (rule align_up_ge)

lemma aligned_max: "is_frame_aligned a \<Longrightarrow> is_frame_aligned b \<Longrightarrow> is_frame_aligned (max a b)"
  by (simp add: max_def)

text \<open>Adding a region of the memory map either stores one more region or none.\<close>

lemma add_memory_region_cases:
  assumes "is_frame_aligned (protected_until s)"
  obtains (same) "fa_regions (add_memory_region s r) = fa_regions s"
      "fa_region_count (add_memory_region s r) = fa_region_count s"
      "allocatable_frames (add_memory_region s r) = allocatable_frames s"
  | (stored) a where "fa_region_count s < MAX_ALLOC_REGIONS"
      "fa_regions (add_memory_region s r) = (fa_regions s)[fa_region_count s := a]"
      "fa_region_count (add_memory_region s r) = fa_region_count s + 1"
      "allocatable_frames (add_memory_region s r) = allocatable_frames s + frame_count a"
      "within a r" "is_frame_aligned (ar_start a)" "is_frame_aligned (ar_end a)"
      "ar_start a < ar_end a" "protected_until s \<le> ar_start a"
proof -
  let ?b = "align_up (base_addr r) FRAME_SIZE" and ?e = "align_down (end_addr r) FRAME_SIZE"
  let ?a = "max ?b (protected_until s)"
  show thesis
  proof (cases "is_available r \<and> \<not> region_length r < FRAME_SIZE \<and> ?b < ?e \<and> protected_until s < ?e
      \<and> fa_region_count s < MAX_ALLOC_REGIONS")
    case True
    have "base_addr r \<le> ?a" using usable_start [of "base_addr r" "end_addr r"] True by (simp add: le_max_iff_disj)
    moreover have "\<not> ?e \<le> ?b" "\<not> ?e \<le> protected_until s" "\<not> ?e \<le> ?a" "?a < ?e"
      using True by (auto simp: not_le)
    ultimately show thesis
      using True
      by (intro stored [of "\<lparr>ar_start = ?a, ar_end = ?e\<rparr>"])
        (simp_all add: add_memory_region_def Let_def within_def align_up_aligned align_down_props
          assms aligned_max)
  next
    case False
    then show thesis
      by (intro same) (auto simp: add_memory_region_def Let_def not_less not_le)
  qed
qed

lemma add_memory_region_sel:
  "protected_until (add_memory_region s r) = protected_until s"
  "fa_current_region (add_memory_region s r) = fa_current_region s"
  "fa_recycled_frames (add_memory_region s r) = fa_recycled_frames s"
  "fa_recycled_count (add_memory_region s r) = fa_recycled_count s"
  "allocated_frames (add_memory_region s r) = allocated_frames s"
  by (simp_all add: add_memory_region_def Let_def)

lemma card_frames:
  assumes "is_frame_aligned (ar_start a)" and "is_frame_aligned (ar_end a)"
  shows "card (frames a) = unat (frame_count a)"
proof -
  obtain k l where k: "unat (ar_start a) = 4096 * k" and l: "unat (ar_end a) = 4096 * l"
    using assms unfolding aligned_iff by (meson dvdE)
  have lt: "4096 * l < 2 ^ 64" unfolding l [symmetric] using unsigned_less [of "ar_end a"] by simp
  have un: "unat (of_nat (4096 * i) :: u64) = 4096 * i" if "i < l" for i
    using that lt by (simp add: unat_of_nat del: of_nat_mult)
  have "frames a = (\<lambda>i. of_nat (4096 * i)) ` {k..<l}"
  proof (intro set_eqI iffI)
    fix f assume f: "f \<in> frames a"
    then obtain i where i: "unat f = 4096 * i" by (auto simp: frames_def aligned_iff elim: dvdE)
    have "of_nat (unat f) = f" by simp
    then have "f = of_nat (4096 * i)" unfolding i by (rule sym)
    moreover have "k \<le> i" "i < l"
      using f i k l by (simp_all add: frames_def word_le_nat_alt word_less_nat_alt)
    ultimately show "f \<in> (\<lambda>i. of_nat (4096 * i)) ` {k..<l}" by auto
  qed (auto simp: frames_def aligned_iff word_le_nat_alt word_less_nat_alt k l un simp del: of_nat_mult)
  moreover have "inj_on (\<lambda>i. of_nat (4096 * i) :: u64) {k..<l}"
    by (rule inj_on_inverseI [of _ "\<lambda>w. unat w div 4096"]) (simp add: un del: of_nat_mult)
  ultimately have "card (frames a) = l - k" by (simp add: card_image)
  also have "\<dots> = unat (frame_count a)"
    by (simp add: frame_count_def unat_div_distrib unat_sat_sub k l FRAME_SIZE_def
        diff_mult_distrib2 [symmetric])
  finally show ?thesis .
qed

text \<open>The allocator while the first \<open>n\<close> stored regions of the memory map have been added.\<close>

definition init_inv :: "BootInfoSummary \<Rightarrow> nat \<Rightarrow> FrameAllocator \<Rightarrow> bool" where
  "init_inv boot n s \<longleftrightarrow> regions_ok s
     \<and> (\<forall>k < fa_region_count s. \<exists>i < n. within (fa_regions s ! k) (ms_regions (bi_memory boot) ! i))
     \<and> unat (allocatable_frames s) = card (all_frames s)"

lemma frames_disjoint:
  "ar_end a \<le> ar_start b \<or> ar_end b \<le> ar_start a \<Longrightarrow> frames a \<inter> frames b = {}"
  by (auto simp: frames_def dest: less_le_trans le_less_trans)

lemma init_inv_step:
  assumes "init_inv boot n s" and "disjoint_map boot" and "is_frame_aligned (protected_until s)"
    and "n < unat (stored_region_count (bi_memory boot))"
  shows "init_inv boot (Suc n) (add_memory_region s (ms_regions (bi_memory boot) ! n))"
    (is "init_inv _ _ ?t")
proof -
  let ?rs = "ms_regions (bi_memory boot)" and ?c = "fa_region_count s"
  have ok: "regions_ok s" using assms(1) by (simp add: init_inv_def)
  have old: "\<exists>i < n. within (fa_regions s ! k) (?rs ! i)" if "k < ?c" for k
    using assms(1) that by (simp add: init_inv_def)
  show ?thesis
  proof (rule add_memory_region_cases [OF assms(3), of "?rs ! n"], goal_cases same stored)
    case same
    then have "regions_ok ?t" "all_frames ?t = all_frames s"
      using ok regions_ok_cong [of ?t s] by (simp_all add: add_memory_region_sel all_frames_def)
    with same assms(1) show ?thesis by (auto simp: init_inv_def less_Suc_eq)
  next
    case (stored a)
    have len: "length (fa_regions s) = MAX_ALLOC_REGIONS" using ok by (simp add: regions_ok_def)
    have nth: "fa_regions ?t ! k = (if k = ?c then a else fa_regions s ! k)" for k
      using stored len by (simp add: nth_list_update)
    have dis: "ar_end a \<le> ar_start (fa_regions s ! j) \<or> ar_end (fa_regions s ! j) \<le> ar_start a"
      if j: "j < ?c" for j
    proof -
      obtain i where i: "i < n" "within (fa_regions s ! j) (?rs ! i)" using old [OF j] by blast
      then have "end_addr (?rs ! n) \<le> base_addr (?rs ! i) \<or> end_addr (?rs ! i) \<le> base_addr (?rs ! n)"
        using assms(2,4) stored(5) unfolding disjoint_map_def Let_def within_def by blast
      with i stored(5) show ?thesis unfolding within_def by (meson order_trans)
    qed
    have ok': "regions_ok ?t"
      unfolding regions_ok_def Let_def
    proof (intro conjI allI impI)
      fix i assume "i < fa_region_count ?t"
      then have "i < ?c \<or> i = ?c" using stored by auto
      then show "is_frame_aligned (ar_start (fa_regions ?t ! i))"
        "is_frame_aligned (ar_end (fa_regions ?t ! i))"
        "ar_start (fa_regions ?t ! i) < ar_end (fa_regions ?t ! i)"
        "protected_until ?t \<le> ar_start (fa_regions ?t ! i)"
        using region_okD [OF ok, of i] stored(6-9) by (auto simp: nth add_memory_region_sel)
      fix j assume "j < i"
      then show "ar_end (fa_regions ?t ! i) \<le> ar_start (fa_regions ?t ! j)
          \<or> ar_end (fa_regions ?t ! j) \<le> ar_start (fa_regions ?t ! i)"
        using \<open>i < ?c \<or> i = ?c\<close> dis ok by (auto simp: nth regions_ok_def)
    qed (use stored len ok in \<open>simp_all add: regions_ok_def\<close>)
    have all: "all_frames ?t = frames a \<union> all_frames s"
      using stored(3) by (auto simp: all_frames_def nth less_Suc_eq split: if_splits)
    have "frames a \<inter> all_frames s = {}" using frames_disjoint dis by (auto simp: all_frames_def)
    then have card: "card (all_frames ?t) = unat (frame_count a) + card (all_frames s)"
      using stored by (simp add: all card_Un_disjoint card_frames)
    have "card (all_frames ?t) < 2 ^ 64" by (rule card_live_bound [OF ok']) simp
    then have "unat (allocatable_frames ?t) = card (all_frames ?t)"
      using assms(1) stored card by (simp add: init_inv_def unat_word_ariths)
    moreover have "\<exists>i < Suc n. within (fa_regions ?t ! k) (?rs ! i)" if "k < fa_region_count ?t" for k
      using that old [of k] stored(3,5) by (auto simp: nth less_Suc_eq)
    ultimately show ?thesis using ok' by (simp add: init_inv_def)
  qed
qed

definition init_fold :: "BootInfoSummary \<Rightarrow> nat \<Rightarrow> FrameAllocator \<Rightarrow> FrameAllocator" where
  "init_fold boot n s =
     fold (\<lambda>index s. case region boot index of None \<Rightarrow> s | Some r \<Rightarrow> add_memory_region s r) [0..<n] s"

lemma init_fold_simps:
  "init_fold boot 0 s = s"
  "n < unat (stored_region_count (bi_memory boot)) \<Longrightarrow>
   init_fold boot (Suc n) s = add_memory_region (init_fold boot n s) (ms_regions (bi_memory boot) ! n)"
  by (simp_all add: init_fold_def region_def)

lemma init_fold_ok:
  assumes "disjoint_map boot" and "is_frame_aligned (protected_until s)" and "init_inv boot 0 s"
    and "n \<le> unat (stored_region_count (bi_memory boot))"
  shows "init_inv boot n (init_fold boot n s) \<and> protected_until (init_fold boot n s) = protected_until s
    \<and> fa_current_region (init_fold boot n s) = fa_current_region s
    \<and> fa_recycled_frames (init_fold boot n s) = fa_recycled_frames s
    \<and> fa_recycled_count (init_fold boot n s) = fa_recycled_count s
    \<and> allocated_frames (init_fold boot n s) = allocated_frames s"
  using assms(4)
proof (induction n)
  case (Suc n)
  then show ?case
    using init_inv_step [of boot n "init_fold boot n s"] assms(1,2)
    by (simp add: init_fold_simps add_memory_region_sel)
qed (simp add: init_fold_simps assms(3))

lemma protected_end_aligned: "is_frame_aligned (protected_end k boot)"
proof -
  have "is_frame_aligned MIN_ALLOC_ADDR" by code_simp
  then show ?thesis by (simp add: protected_end_def Let_def aligned_max align_up_aligned)
qed

lemma phys_init_ok:
  assumes "disjoint_map boot"
  shows "phys_inv (phys_init ks ke boot)" "live_frames (phys_init ks ke boot) = {}"
    "protected_until (phys_init ks ke boot) = protected_end ke boot"
    "unat (allocatable_frames (phys_init ks ke boot)) = card (all_frames (phys_init ks ke boot))"
    "\<And>f. f \<in> all_frames (phys_init ks ke boot) \<Longrightarrow>
       \<exists>i < unat (stored_region_count (bi_memory boot)). is_available (ms_regions (bi_memory boot) ! i)
         \<and> base_addr (ms_regions (bi_memory boot) ! i) \<le> f
         \<and> unat f + 4096 \<le> unat (end_addr (ms_regions (bi_memory boot) ! i))"
proof -
  let ?n = "unat (stored_region_count (bi_memory boot))" and ?rs = "ms_regions (bi_memory boot)"
  let ?s = "FrameAllocator_new\<lparr>fa_kernel_start := ks, fa_kernel_end := align_up ke FRAME_SIZE,
      protected_until := protected_end ke boot\<rparr>"
  let ?t = "init_fold boot ?n ?s" and ?u = "phys_init ks ke boot"
  have i0: "init_inv boot 0 ?s"
    by (simp add: init_inv_def regions_ok_def FrameAllocator_new_def all_frames_def)
  note t = init_fold_ok [OF assms _ i0 order_refl, simplified, OF protected_end_aligned]
  have u: "?u = (if 0 < fa_region_count ?t then ?t\<lparr>fa_next_frame := ar_start (fa_regions ?t ! 0)\<rparr>
      else ?t\<lparr>fa_exhausted := True\<rparr>)\<lparr>fa_initialized := True\<rparr>"
    unfolding phys_init_def Let_def init_fold_def ..
  have sel: "fa_regions ?u = fa_regions ?t" "fa_region_count ?u = fa_region_count ?t"
    "protected_until ?u = protected_end ke boot" "fa_current_region ?u = 0"
    "fa_recycled_frames ?u = replicate MAX_RECYCLED_FRAMES 0" "fa_recycled_count ?u = 0"
    "allocated_frames ?u = 0" "allocatable_frames ?u = allocatable_frames ?t"
    "0 < fa_region_count ?t \<Longrightarrow> fa_next_frame ?u = ar_start (fa_regions ?t ! 0)"
    using t by (simp_all add: u FrameAllocator_new_def)
  show "protected_until ?u = protected_end ke boot" by (rule sel)
  have ok: "regions_ok ?u" using t regions_ok_cong [of ?u ?t] sel by (simp add: init_inv_def)
  have iss: "issued ?u = {}" using sel by (auto simp: issued_def frames_def)
  show live: "live_frames ?u = {}" by (simp add: live_frames_def iss)
  have "cursor_ok ?u"
    using region_okD [OF ok, of 0] by (auto simp: cursor_ok_def sel)
  with ok iss live sel show "phys_inv ?u" by (simp add: phys_inv_def recycled_def)
  have all: "all_frames ?u = all_frames ?t" by (simp add: all_frames_def sel)
  with t sel show "unat (allocatable_frames ?u) = card (all_frames ?u)" by (simp add: init_inv_def)
  fix f assume "f \<in> all_frames ?u"
  then obtain k where k: "k < fa_region_count ?u" "f \<in> frames (fa_regions ?u ! k)"
    by (auto simp: all_frames_def)
  moreover from k obtain i where i: "i < ?n" "within (fa_regions ?u ! k) (?rs ! i)"
    using t sel by (auto simp: init_inv_def)
  moreover have "unat f + 4096 \<le> unat (ar_end (fa_regions ?u ! k))"
    using k by (intro aligned_less) (auto simp: frames_def region_okD [OF ok])
  ultimately show "\<exists>i < ?n. is_available (?rs ! i) \<and> base_addr (?rs ! i) \<le> f
      \<and> unat f + 4096 \<le> unat (end_addr (?rs ! i))"
    by (intro exI [of _ i]) (auto simp: within_def frames_def word_le_nat_alt)
qed

section \<open>Runs\<close>

inductive phys_step :: "FrameAllocator \<Rightarrow> FrameAllocator \<Rightarrow> bool" where
  step_allocate: "phys_step s (snd (allocate_frame s))"
| step_free: "phys_step s (snd (free_frame s f))"

inductive_cases phys_step_cases: "phys_step s t"

definition booted :: "u64 \<Rightarrow> u64 \<Rightarrow> BootInfoSummary \<Rightarrow> FrameAllocator \<Rightarrow> bool" where
  "booted ks ke boot s \<longleftrightarrow> disjoint_map boot \<and> s = phys_init ks ke boot"

text \<open>The invariant of a run: well formed, over the frames that the boot memory map gave.\<close>

definition run_inv :: "u64 \<Rightarrow> u64 \<Rightarrow> BootInfoSummary \<Rightarrow> FrameAllocator \<Rightarrow> bool" where
  "run_inv ks ke boot s \<longleftrightarrow> disjoint_map boot \<and> phys_inv s
     \<and> protected_until s = protected_end ke boot
     \<and> all_frames s = all_frames (phys_init ks ke boot)
     \<and> allocatable_frames s = allocatable_frames (phys_init ks ke boot)"

lemma bump_loop_allocatable: "allocatable_frames (snd (bump_loop s)) = allocatable_frames s"
  by (induction s rule: bump_loop.induct) (subst bump_loop.simps, simp add: Let_def)

lemma allocatable_const:
  "allocatable_frames (snd (allocate_frame s)) = allocatable_frames s"
  "allocatable_frames (snd (free_frame s f)) = allocatable_frames s"
  by (simp_all add: allocate_frame_def free_frame_def Let_def bump_loop_allocatable)

lemma allocate_keeps:
  assumes "phys_inv s"
  shows "phys_inv (snd (allocate_frame s))"
    "protected_until (snd (allocate_frame s)) = protected_until s"
    "all_frames (snd (allocate_frame s)) = all_frames s"
proof -
  have "phys_inv s' \<and> protected_until s' = protected_until s \<and> all_frames s' = all_frames s"
    if "allocate_frame s = (res, s')" for res s'
    using that allocate_Some(4-6) [OF assms] allocate_None(4-6) [OF assms] by (cases res) blast+
  from this [of "fst (allocate_frame s)"]
  show "phys_inv (snd (allocate_frame s))"
    "protected_until (snd (allocate_frame s)) = protected_until s"
    "all_frames (snd (allocate_frame s)) = all_frames s" by simp_all
qed

lemma free_keeps:
  assumes "phys_inv s"
  shows "phys_inv (snd (free_frame s f))"
    "protected_until (snd (free_frame s f)) = protected_until s"
    "all_frames (snd (free_frame s f)) = all_frames s"
proof -
  have "phys_inv s' \<and> protected_until s' = protected_until s \<and> all_frames s' = all_frames s"
    if "free_frame s f = (res, s')" for res s'
    using that free_frame_accepts(2-4) [OF assms, of f s'] free_frame_rejects [of s f] assms
    by (cases res) auto
  from this [of "fst (free_frame s f)"]
  show "phys_inv (snd (free_frame s f))"
    "protected_until (snd (free_frame s f)) = protected_until s"
    "all_frames (snd (free_frame s f)) = all_frames s" by simp_all
qed

interpretation frames: invariant_machine "booted ks ke boot" phys_step "run_inv ks ke boot"
proof
  show "run_inv ks ke boot s" if "booted ks ke boot s" for s
    using that phys_init_ok [of boot ks ke] by (simp add: booted_def run_inv_def)
  show "run_inv ks ke boot t" if "run_inv ks ke boot s" "phys_step s t" for s t
    using that(2,1)
    by (elim phys_step_cases) (auto simp: run_inv_def allocate_keeps free_keeps allocatable_const)
qed

definition phys_reachable :: "u64 \<Rightarrow> u64 \<Rightarrow> BootInfoSummary \<Rightarrow> FrameAllocator \<Rightarrow> bool" where
  "phys_reachable ks ke boot s \<longleftrightarrow> disjoint_map boot \<and> phys_step\<^sup>*\<^sup>* (phys_init ks ke boot) s"

lemma phys_reachableD:
  assumes "phys_reachable ks ke boot s"
  shows "phys_inv s" "protected_until s = protected_end ke boot"
    "all_frames s = all_frames (phys_init ks ke boot)" "disjoint_map boot"
    "unat (allocatable_frames s) = card (all_frames s)"
proof -
  have d: "disjoint_map boot" using assms by (simp add: phys_reachable_def)
  have "run_inv ks ke boot s"
    by (rule frames.inv_reachable [of ks ke boot]) (use assms in \<open>auto simp: phys_reachable_def booted_def\<close>)
  with phys_init_ok(4) [OF d, of ks ke] d
  show "phys_inv s" "protected_until s = protected_end ke boot"
    "all_frames s = all_frames (phys_init ks ke boot)" "disjoint_map boot"
    "unat (allocatable_frames s) = card (all_frames s)"
    by (simp_all add: run_inv_def)
qed

lemma live_in_all: "phys_inv s \<Longrightarrow> live_frames s \<subseteq> all_frames s"
  using issued_props(3) phys_invD(1) by (auto simp: live_frames_def)

text \<open>A boot memory map with 16 available frames above the first megabyte.\<close>

definition small_boot :: BootInfoSummary where
  "small_boot = BootInfoSummary_empty\<lparr>bi_memory := add_region MemorySummary_empty
     \<lparr>base_addr = 0x100000, region_length = 0x10000, region_type = MEMORY_AVAILABLE\<rparr>\<rparr>"

lemma small_boot_disjoint: "disjoint_map small_boot"
proof -
  have "unat (stored_region_count (bi_memory small_boot)) = 1" by code_simp
  then show ?thesis by (simp add: disjoint_map_def)
qed

lemma small_boot_reachable: "phys_reachable 0x100000 0x104000 small_boot
    (snd (allocate_frame (phys_init 0x100000 0x104000 small_boot)))"
  unfolding phys_reachable_def by (blast intro: small_boot_disjoint step_allocate)

text \<open>
  C22. In every state that allocations and releases reach from boot, a frame in use is aligned,
  lies wholly inside an available region of the boot memory map and above the protected area,
  and the reported counters are exact: the allocated frames are the frames in use, the free
  frames those of the allocator that are not.
\<close>

theorem live_frames_safe:
  assumes "phys_reachable ks ke boot s"
  shows "(\<forall>f \<in> live_frames s. is_frame_aligned f \<and> protected_end ke boot \<le> f
      \<and> (\<exists>i < unat (stored_region_count (bi_memory boot)). is_available (ms_regions (bi_memory boot) ! i)
           \<and> base_addr (ms_regions (bi_memory boot) ! i) \<le> f
           \<and> unat f + 4096 \<le> unat (end_addr (ms_regions (bi_memory boot) ! i))))
    \<and> unat (ps_allocated_frames (phys_snapshot s)) = card (live_frames s)
    \<and> unat (ps_free_frames (phys_snapshot s)) = card (all_frames s - live_frames s)"
proof (intro conjI ballI)
  note r = phys_reachableD [OF assms]
  fix f assume f: "f \<in> live_frames s"
  then have iss: "f \<in> issued s" by (simp add: live_frames_def)
  note props = issued_props [OF phys_invD(1) [OF r(1)] iss]
  show "is_frame_aligned f" "protected_end ke boot \<le> f" using props r(2) by simp_all
  show "\<exists>i < unat (stored_region_count (bi_memory boot)). is_available (ms_regions (bi_memory boot) ! i)
           \<and> base_addr (ms_regions (bi_memory boot) ! i) \<le> f
           \<and> unat f + 4096 \<le> unat (end_addr (ms_regions (bi_memory boot) ! i))"
    using props(3) phys_init_ok(5) [OF r(4)] unfolding r(3) by blast
next
  note r = phys_reachableD [OF assms]
  show "unat (ps_allocated_frames (phys_snapshot s)) = card (live_frames s)"
    using r(1) by (simp add: phys_snapshot_def phys_inv_def)
  with r live_in_all [OF r(1)]
  show "unat (ps_free_frames (phys_snapshot s)) = card (all_frames s - live_frames s)"
    by (simp add: phys_snapshot_def unat_sat_sub card_Diff_subset)
qed

theorem live_frames_safe_witness:
  "let s = snd (allocate_frame (phys_init 0x100000 0x104000 small_boot)) in
   phys_reachable 0x100000 0x104000 small_boot s
   \<and> 1 = card (live_frames s) \<and> 11 = card (all_frames s - live_frames s)"
proof -
  let ?s = "snd (allocate_frame (phys_init 0x100000 0x104000 small_boot))"
  have "unat (ps_allocated_frames (phys_snapshot ?s)) = 1"
    "unat (ps_free_frames (phys_snapshot ?s)) = 11" by code_simp+
  with live_frames_safe [OF small_boot_reachable] small_boot_reachable show ?thesis by simp
qed

text \<open>
  Allocation is correct and complete: while some frame of the allocator is not in use it
  returns one that was not in use, above the protected area, and exactly that frame becomes
  used; it fails only when every frame is in use, and then changes no frame.
\<close>

theorem allocate_fresh:
  assumes "phys_reachable ks ke boot s"
  shows "case allocate_frame s of
      (Some f, s') \<Rightarrow> f \<in> all_frames s - live_frames s \<and> protected_end ke boot \<le> f
        \<and> live_frames s' = insert f (live_frames s)
    | (None, s') \<Rightarrow> live_frames s = all_frames s \<and> live_frames s' = live_frames s \<and> fa_exhausted s'"
proof -
  note r = phys_reachableD [OF assms]
  obtain res s' where e: "allocate_frame s = (res, s')" by force
  show ?thesis
  proof (cases res)
    case None
    with e allocate_None [OF r(1)] show ?thesis by simp
  next
    case (Some f)
    with e have e': "allocate_frame s = (Some f, s')" by simp
    note a = allocate_Some [OF r(1) e']
    then have "f \<in> issued s'" by (auto simp: live_frames_def)
    from issued_props(2) [OF phys_invD(1) [OF a(4)] this] a r(2) e' show ?thesis by simp
  qed
qed

theorem allocate_fresh_witness:
  "let s = snd (allocate_frame (phys_init 0x100000 0x104000 small_boot)) in
   phys_reachable 0x100000 0x104000 small_boot s
   \<and> 0x105000 \<notin> live_frames s \<and> 0x105000 \<in> live_frames (snd (allocate_frame s))"
proof -
  let ?s = "snd (allocate_frame (phys_init 0x100000 0x104000 small_boot))"
  have "fst (allocate_frame ?s) = Some 0x105000" by code_simp
  then have "allocate_frame ?s = (Some 0x105000, snd (allocate_frame ?s))" by (metis prod.collapse)
  with allocate_fresh [OF small_boot_reachable] small_boot_reachable show ?thesis
    by (simp add: Let_def split: prod.splits)
qed

text \<open>
  C23. Release accepts a frame exactly when it is in use and the recycling stack has room, so
  neither a double release nor a foreign, protected or misaligned address is ever accepted;
  an accepted frame leaves use and is the next one allocated, a refusal changes nothing.
\<close>

theorem free_correct:
  assumes "phys_reachable ks ke boot s"
  shows "(fst (free_frame s f) \<longleftrightarrow> f \<in> live_frames s \<and> fa_recycled_count s < MAX_RECYCLED_FRAMES)
    \<and> (if fst (free_frame s f)
       then live_frames (snd (free_frame s f)) = live_frames s - {f}
         \<and> fst (allocate_frame (snd (free_frame s f))) = Some f
         \<and> \<not> fst (free_frame (snd (free_frame s f)) f)
       else snd (free_frame s f) = s)"
proof -
  note inv = phys_reachableD(1) [OF assms]
  show ?thesis
  proof (cases "fst (free_frame s f)")
    case True
    then obtain s' where e: "free_frame s f = (True, s')" by (metis prod.collapse)
    note a = free_frame_accepts [OF inv e]
    have c: "fa_recycled_count s' = Suc (length (recycled s))"
      using phys_invD(5) [OF a(2)] a(5) by simp
    then have "fa_recycled_frames s' ! length (recycled s) = (recycled s @ [f]) ! length (recycled s)"
      unfolding a(5) [symmetric] by (simp add: recycled_def)
    with c have "fst (allocate_frame s') = Some f" by (simp add: allocate_frame_def Let_def)
    moreover have "\<not> fst (free_frame s' f)" using free_frame_iff [OF a(2), of f] a(1) by simp
    ultimately show ?thesis using e a(1) free_frame_iff [OF inv, of f] by simp
  next
    case False
    with free_frame_iff [OF inv, of f] free_frame_rejects [OF False] show ?thesis by simp
  qed
qed

theorem free_correct_witness:
  "let s = snd (allocate_frame (phys_init 0x100000 0x104000 small_boot)) in
   phys_reachable 0x100000 0x104000 small_boot s \<and> 0x104000 \<in> live_frames s
   \<and> fst (allocate_frame (snd (free_frame s 0x104000))) = Some 0x104000
   \<and> 0x105000 \<notin> live_frames s"
proof -
  let ?s = "snd (allocate_frame (phys_init 0x100000 0x104000 small_boot))"
  have "fst (free_frame ?s 0x104000)" "\<not> fst (free_frame ?s 0x105000)"
    "fa_recycled_count ?s < MAX_RECYCLED_FRAMES" by code_simp+
  with free_correct [OF small_boot_reachable] small_boot_reachable show ?thesis
    by (auto simp: Let_def)
qed

text \<open>
  The protected area covers what the kernel was booted with: the first megabyte, the
  kernel image, the boot information and every stored boot module, as long as these end a
  page below the top of the address space (above it \<open>align_up\<close> saturates and rounds down).
\<close>

theorem protected_covers:
  assumes "summary_ok boot" and "total_size boot \<noteq> 0" and "bi_address boot \<noteq> 0"
    and "unat ke \<le> 2 ^ 64 - 4096" and "unat (highest_module_end boot) \<le> 2 ^ 64 - 4096"
    and "unat (bi_address boot) + unat (total_size boot) \<le> 2 ^ 64 - 4096"
  shows "MIN_ALLOC_ADDR \<le> protected_end ke boot \<and> ke \<le> protected_end ke boot
    \<and> bi_address boot + ucast (total_size boot) \<le> protected_end ke boot
    \<and> (\<forall>i < unat (stored_module_count boot). mod_end (bi_modules boot ! i) \<le> protected_end ke boot)"
proof -
  let ?e = "sat_add (bi_address boot) (ucast (total_size boot))"
  have "unat (total_size boot) < 2 ^ 32" using unsigned_less [of "total_size boot"] by simp
  then have u: "unat (ucast (total_size boot) :: u64) = unat (total_size boot)"
    by (simp add: unsigned_ucast_eq take_bit_nat_eq_self_iff)
  with assms(6) have e: "?e = bi_address boot + ucast (total_size boot)" "unat ?e \<le> 2 ^ 64 - 4096"
    using unat_sat_add [of "bi_address boot" "ucast (total_size boot)"] by (simp_all add: sat_add_def)
  note up = align_up_ge [OF assms(4)] align_up_ge [OF assms(5)] align_up_ge [OF e(2)]
  have "\<forall>i < unat (stored_module_count boot). mod_end (bi_modules boot ! i) \<le> highest_module_end boot"
    using assms(1) by (simp add: summary_ok_def)
  with up assms(2,3) show ?thesis
    unfolding e(1) protected_end_def Let_def
    by (auto simp: le_max_iff_disj intro: order_trans)
qed

theorem protected_covers_witness:
  "let boot = parse (boot_image 0) MULTIBOOT2_BOOTLOADER_MAGIC 0x1000 in
   MIN_ALLOC_ADDR \<le> protected_end 0x204000 boot \<and> 0x204000 \<le> protected_end 0x204000 boot"
proof -
  let ?b = "parse (boot_image 0) MULTIBOOT2_BOOTLOADER_MAGIC 0x1000"
  have "total_size ?b = 16" "bi_address ?b = 0x1000" "highest_module_end ?b = 0" by code_simp+
  moreover have "summary_ok ?b" by (rule summary_ok_parse)
  ultimately show ?thesis using protected_covers [of ?b "0x204000"] by (simp add: Let_def)
qed

end
