(* ===== verification/Klog.thy ===== *)
theory Klog
  imports Prelude
begin

unbundle bit_operations_syntax

text \<open>
  The kernel log, \<^verbatim>\<open>src/src/klog.rs\<close>: a ring of 128 entries whose texts are sanitised copies,
  and the message builder that renders labels and numbers. The tick counter that
  \<^verbatim>\<open>interrupts::ticks\<close> reads is an argument of \<open>append\<close>. An array access out of bounds, which
  Rust turns into a panic, is the value \<open>None\<close>.
\<close>

definition ENTRY_COUNT :: nat where "ENTRY_COUNT = 128"
definition TAG_CAPACITY :: nat where "TAG_CAPACITY = 12"
definition MESSAGE_CAPACITY :: nat where "MESSAGE_CAPACITY = 80"

lemmas klog_consts = ENTRY_COUNT_def TAG_CAPACITY_def MESSAGE_CAPACITY_def

record LogEntry =
  le_sequence :: u64
  le_tick :: u64
  le_tag :: "u8 list"
  le_tag_len :: u8
  le_message :: "u8 list"
  le_message_len :: u8

definition Entry_empty :: LogEntry where
  "Entry_empty = \<lparr>le_sequence = 0, le_tick = 0, le_tag = replicate TAG_CAPACITY 0, le_tag_len = 0,
     le_message = replicate MESSAGE_CAPACITY 0, le_message_len = 0\<rparr>"

definition entry_tag :: "LogEntry \<Rightarrow> u8 list" where
  "entry_tag e = take (unat (le_tag_len e)) (le_tag e)"

definition entry_message :: "LogEntry \<Rightarrow> u8 list" where
  "entry_message e = take (unat (le_message_len e)) (le_message e)"

record LogRing =
  lr_initialized :: bool
  lr_entries :: "LogEntry list"
  lr_write_index :: nat
  lr_count :: nat
  lr_dropped :: u64
  lr_next_sequence :: u64

definition LogRing_new :: LogRing where
  "LogRing_new = \<lparr>lr_initialized = False, lr_entries = replicate ENTRY_COUNT Entry_empty,
     lr_write_index = 0, lr_count = 0, lr_dropped = 0, lr_next_sequence = 0\<rparr>"

definition log_init :: "LogRing \<Rightarrow> LogRing" where
  "log_init r = r\<lparr>lr_write_index := 0, lr_count := 0, lr_dropped := 0, lr_next_sequence := 0,
     lr_initialized := True\<rparr>"

definition sanitize_byte :: "u8 \<Rightarrow> u8" where
  "sanitize_byte b = (if b = 0x0d \<or> b = 0x0a \<or> b = 0x09 then 0x20
     else if 0x20 \<le> b \<and> b \<le> 0x7e then b else 0x2e)"

fun copy_loop :: "u8 list \<Rightarrow> nat \<Rightarrow> u8 list \<Rightarrow> nat \<times> u8 list" where
  "copy_loop [] len destination = (len, destination)"
| "copy_loop (byte # rest) len destination =
     (if length destination \<le> len then (len, destination)
      else copy_loop rest (len + 1) (destination[len := sanitize_byte byte]))"

definition copy_sanitized :: "u8 list \<Rightarrow> u8 list \<Rightarrow> nat \<times> u8 list" where
  "copy_sanitized source destination = copy_loop source 0 destination"

definition log_append :: "u64 \<Rightarrow> u8 list \<Rightarrow> u8 list \<Rightarrow> LogRing \<Rightarrow> LogRing" where
  "log_append ticks tag message r =
     (let r0 = (if \<not> lr_initialized r then r\<lparr>lr_initialized := True\<rparr> else r);
          (tag_len, tag_bytes) = copy_sanitized tag (le_tag Entry_empty);
          (message_len, message_bytes) = copy_sanitized message (le_message Entry_empty);
          entry = Entry_empty\<lparr>le_sequence := lr_next_sequence r0, le_tick := ticks,
            le_tag := tag_bytes, le_tag_len := of_nat tag_len,
            le_message := message_bytes, le_message_len := of_nat message_len\<rparr>;
          r1 = r0\<lparr>lr_entries := (lr_entries r0)[lr_write_index r0 := entry],
                  lr_write_index := (lr_write_index r0 + 1) mod ENTRY_COUNT,
                  lr_next_sequence := sat_add (lr_next_sequence r0) 1\<rparr>
      in if lr_count r1 < ENTRY_COUNT then r1\<lparr>lr_count := lr_count r1 + 1\<rparr>
         else r1\<lparr>lr_dropped := sat_add (lr_dropped r1) 1\<rparr>)"

record LogSnapshot =
  lsn_initialized :: bool
  lsn_capacity :: u64
  lsn_count :: u64
  lsn_dropped :: u64
  lsn_next_sequence :: u64

definition log_snapshot :: "LogRing \<Rightarrow> LogSnapshot" where
  "log_snapshot r = \<lparr>lsn_initialized = lr_initialized r, lsn_capacity = of_nat ENTRY_COUNT,
     lsn_count = of_nat (lr_count r), lsn_dropped = lr_dropped r,
     lsn_next_sequence = lr_next_sequence r\<rparr>"

definition log_entry :: "LogRing \<Rightarrow> nat \<Rightarrow> LogEntry option" where
  "log_entry r index_from_oldest =
     (if lr_count r \<le> index_from_oldest then None
      else
        let oldest = (if lr_count r < ENTRY_COUNT then 0 else lr_write_index r);
            index = (oldest + index_from_oldest) mod ENTRY_COUNT
        in Some (lr_entries r ! index))"

section \<open>The message builder\<close>

record MessageBuilder =
  mb_bytes :: "u8 list"
  mb_len :: nat

definition MessageBuilder_new :: MessageBuilder where
  "MessageBuilder_new = \<lparr>mb_bytes = replicate MESSAGE_CAPACITY 0, mb_len = 0\<rparr>"

definition as_bytes :: "MessageBuilder \<Rightarrow> u8 list" where
  "as_bytes b = take (mb_len b) (mb_bytes b)"

definition push_byte :: "u8 \<Rightarrow> MessageBuilder \<Rightarrow> MessageBuilder" where
  "push_byte byte b =
     (if mb_len b < length (mb_bytes b)
      then b\<lparr>mb_bytes := (mb_bytes b)[mb_len b := sanitize_byte byte], mb_len := mb_len b + 1\<rparr>
      else b)"

definition push_bytes :: "u8 list \<Rightarrow> MessageBuilder \<Rightarrow> MessageBuilder" where
  "push_bytes v b = fold push_byte v b"

text \<open>The loop of \<open>push_u64\<close> fills a digit array from the right; \<open>None\<close> is the bounds panic.\<close>

function decimal_loop :: "u64 \<Rightarrow> nat \<Rightarrow> u8 list \<Rightarrow> (nat \<times> u8 list) option" where
  "decimal_loop v index digits =
     (if v = 0 then Some (index, digits)
      else if index = 0 \<or> length digits < index then None
      else decimal_loop (v div 10) (index - 1) (digits[index - 1 := 0x30 + ucast (v mod 10)]))"
  by pat_completeness auto
termination
  by (relation "measure (\<lambda>(v, _, _). unat v)")
    (auto simp: unat_div_distrib unat_gt_0)

declare decimal_loop.simps [simp del]

definition push_u64 :: "u64 \<Rightarrow> MessageBuilder \<Rightarrow> MessageBuilder option" where
  "push_u64 v b =
     (if v = 0 then Some (push_byte 0x30 b)
      else case decimal_loop v 20 (replicate 20 0) of
        None \<Rightarrow> None
      | Some (index, digits) \<Rightarrow> Some (push_bytes (drop index digits) b))"

function hex_loop :: "u64 \<Rightarrow> bool \<Rightarrow> nat \<Rightarrow> MessageBuilder \<Rightarrow> MessageBuilder" where
  "hex_loop v started shift b =
     (let nibble = (ucast (drop_bit shift v AND 0x0f) :: u8);
          (started', b') =
            (if nibble \<noteq> 0 \<or> started \<or> shift = 0
             then (True, push_byte (if nibble < 10 then 0x30 + nibble else 0x61 + (nibble - 10)) b)
             else (started, b))
      in if shift = 0 then b' else hex_loop v started' (shift - 4) b')"
  by pat_completeness auto
termination
  by (relation "measure (\<lambda>(_, _, shift, _). shift)") auto

declare hex_loop.simps [simp del]

definition push_hex_u64 :: "u64 \<Rightarrow> MessageBuilder \<Rightarrow> MessageBuilder" where
  "push_hex_u64 v b = hex_loop v False 60 (push_bytes (ascii ''0x'') b)"

definition labeled :: "u8 list \<Rightarrow> MessageBuilder" where
  "labeled label_bytes = push_bytes (ascii '': '') (push_bytes label_bytes MessageBuilder_new)"

definition append_labeled_bytes :: "u64 \<Rightarrow> u8 list \<Rightarrow> u8 list \<Rightarrow> u8 list \<Rightarrow> LogRing \<Rightarrow> LogRing" where
  "append_labeled_bytes ticks tag label_bytes bytes r =
     log_append ticks tag (as_bytes (push_bytes bytes (labeled label_bytes))) r"

definition append_u64 :: "u64 \<Rightarrow> u8 list \<Rightarrow> u8 list \<Rightarrow> u64 \<Rightarrow> LogRing \<Rightarrow> LogRing option" where
  "append_u64 ticks tag label_bytes v r =
     (case push_u64 v (labeled label_bytes) of
        None \<Rightarrow> None
      | Some b \<Rightarrow> Some (log_append ticks tag (as_bytes b) r))"

definition append_hex_u64 :: "u64 \<Rightarrow> u8 list \<Rightarrow> u8 list \<Rightarrow> u64 \<Rightarrow> LogRing \<Rightarrow> LogRing" where
  "append_hex_u64 ticks tag label_bytes v r =
     log_append ticks tag (as_bytes (push_hex_u64 v (labeled label_bytes))) r"

definition append_bool :: "u64 \<Rightarrow> u8 list \<Rightarrow> u8 list \<Rightarrow> bool \<Rightarrow> LogRing \<Rightarrow> LogRing" where
  "append_bool ticks tag label_bytes enabled r =
     log_append ticks tag
       (as_bytes (push_bytes (ascii (if enabled then ''on'' else ''off'')) (labeled label_bytes))) r"

end
