(* ===== verification/Numerals.thy ===== *)
theory Numerals
  imports Prelude
begin

text \<open>
  Numerals as text: the reference printer and reader that the kernel's number rendering
  (\<open>Klog\<close>) and the header fields of the archive builder (\<open>Mkinitramfs\<close>) are compared with.
\<close>

text \<open>The reference printer and reader for numerals of base 10 and 16.\<close>

definition digit :: "nat \<Rightarrow> u8" where
  "digit d = (if d < 10 then 0x30 + of_nat d else 0x61 + of_nat (d - 10))"

fun numeral_text :: "nat \<Rightarrow> nat \<Rightarrow> u8 list" where
  "numeral_text base n =
     (if n < base \<or> base < 2 then [digit n] else numeral_text base (n div base) @ [digit (n mod base)])"

declare numeral_text.simps [simp del]

definition digit_value :: "u8 \<Rightarrow> nat" where
  "digit_value b = (if b < 0x61 then unat b - 0x30 else unat b - 0x57)"

definition numeral_value :: "nat \<Rightarrow> u8 list \<Rightarrow> nat" where
  "numeral_value base bs = fold (\<lambda>b v. v * base + digit_value b) bs 0"

lemma digit_value_digit: "d < 16 \<Longrightarrow> digit_value (digit d) = d"
proof -
  assume "d < 16"
  moreover have "\<forall>d \<in> set [0..<16]. digit_value (digit d) = d" by code_simp
  ultimately show ?thesis by simp
qed

lemma numeral_value_text:
  "1 < base \<Longrightarrow> base \<le> 16 \<Longrightarrow> numeral_value base (numeral_text base n) = n"
proof (induction base n rule: numeral_text.induct)
  case (1 base n)
  have d: "n mod base < 16" using 1(2,3) by (meson less_le_trans mod_less_divisor order.strict_trans zero_less_one)
  show ?case
  proof (cases "n < base")
    case True
    with 1 show ?thesis by (subst numeral_text.simps) (simp add: numeral_value_def digit_value_digit)
  next
    case False
    with 1(1) [OF _ 1(2,3)] 1(2) have "numeral_value base (numeral_text base (n div base)) = n div base" by simp
    with False 1(2) d show ?thesis
      by (subst numeral_text.simps) (simp add: numeral_value_def digit_value_digit)
  qed
qed

lemma numeral_text_length: "n < base ^ Suc k \<Longrightarrow> 1 < base \<Longrightarrow> length (numeral_text base n) \<le> Suc k"
proof (induction k arbitrary: n)
  case 0
  then show ?case by (subst numeral_text.simps) simp
next
  case (Suc k)
  then have "n div base < base ^ Suc k" by (simp add: less_mult_imp_div_less mult.commute)
  with Suc show ?case by (subst numeral_text.simps) simp
qed

text \<open>The \<open>k\<close> low hexadecimal digits of a number; the loop prints them once it has started.\<close>

fun hex_pad :: "nat \<Rightarrow> nat \<Rightarrow> u8 list" where
  "hex_pad 0 n = []"
| "hex_pad (Suc k) n = digit (n div 16 ^ k mod 16) # hex_pad k n"

lemma hex_pad_snoc: "hex_pad (Suc k) n = hex_pad k (n div 16) @ [digit (n mod 16)]"
  by (induction k) (simp_all add: div_mult2_eq [symmetric])

lemma numeral_text_hex_pad:
  "n < 16 ^ Suc k \<Longrightarrow> n div 16 ^ k \<noteq> 0 \<Longrightarrow> numeral_text 16 n = hex_pad (Suc k) n"
proof (induction k arbitrary: n)
  case 0
  then show ?case by (subst numeral_text.simps) simp
next
  case (Suc k)
  have "numeral_text 16 (n div 16) = hex_pad (Suc k) (n div 16)"
    using Suc.prems by (intro Suc.IH) (simp_all add: div_mult2_eq [symmetric] less_mult_imp_div_less mult.commute)
  moreover have "\<not> n < 16"
  proof
    assume "n < 16"
    also have "(16 :: nat) \<le> 16 ^ Suc k" by simp
    finally show False using Suc.prems(2) by simp
  qed
  ultimately show ?case
    unfolding hex_pad_snoc [of "Suc k" n] by (subst numeral_text.simps) simp
qed

text \<open>Rust's format \<^verbatim>\<open>{:08x}\<close>: the hexadecimal numeral, padded with zeros to eight digits.\<close>

definition format_08x :: "nat \<Rightarrow> u8 list" where
  "format_08x n = (let t = numeral_text 16 n in replicate (8 - length t) 0x30 @ t)"

lemma length_hex_pad [simp]: "length (hex_pad k n) = k"
  by (induction k) simp_all

lemma hex_pad_zeros: "n < 16 ^ k \<Longrightarrow> hex_pad (j + k) n = replicate j 0x30 @ hex_pad k n"
proof (induction j)
  case (Suc j)
  have "n < 16 ^ (j + k)" using Suc.prems by (rule less_le_trans) simp
  with Suc show ?case by (simp add: digit_def)
qed simp

lemma numeral_text_16:
  "n < 16 ^ Suc k \<Longrightarrow> \<exists>j \<le> k. numeral_text 16 n = hex_pad (Suc j) n \<and> n < 16 ^ Suc j"
proof (induction k)
  case 0
  then show ?case by (subst numeral_text.simps) simp
next
  case (Suc k)
  show ?case
  proof (cases "n < 16 ^ Suc k")
    case True
    with Suc.IH show ?thesis by (meson le_SucI)
  next
    case False
    then have "n div 16 ^ Suc k \<noteq> 0" by (simp add: div_eq_0_iff)
    with numeral_text_hex_pad [OF Suc.prems] Suc.prems show ?thesis by blast
  qed
qed

lemma format_08x_eq:
  assumes "n < 2 ^ 32"
  shows "format_08x n = hex_pad 8 n"
proof -
  have "n < 16 ^ Suc 7" using assms by simp
  then obtain j where j: "j \<le> 7" "numeral_text 16 n = hex_pad (Suc j) n" "n < 16 ^ Suc j"
    using numeral_text_16 by blast
  with hex_pad_zeros [of n "Suc j" "7 - j"] show ?thesis by (simp add: format_08x_def Let_def)
qed

end
