(* ===== verification/Klog_Properties.thy ===== *)
theory Klog_Properties
  imports Klog Numerals
begin

unbundle bit_operations_syntax

text \<open>
  The log against its specification: the newest 128 appended entries in the order they were
  appended, with sanitised texts; and the message builder against a reference numeral printer.
\<close>

section \<open>Sanitised copies\<close>

definition clean :: "u8 list \<Rightarrow> u8 list" where
  "clean bs = map sanitize_byte bs"

lemma sanitize_printable: "0x20 \<le> sanitize_byte b \<and> sanitize_byte b \<le> 0x7e"
  by (simp add: sanitize_byte_def)

lemma sanitize_idem [simp]: "sanitize_byte (sanitize_byte b) = sanitize_byte b"
proof -
  have "\<not> 0x20 \<le> (0x0d :: u8)" "\<not> 0x20 \<le> (0x0a :: u8)" "\<not> 0x20 \<le> (0x09 :: u8)" by simp_all
  with sanitize_printable [of b] have "sanitize_byte b \<noteq> 0x0d" "sanitize_byte b \<noteq> 0x0a"
    "sanitize_byte b \<noteq> 0x09" by metis+
  with sanitize_printable [of b] show ?thesis by (simp add: sanitize_byte_def [of "sanitize_byte b"])
qed

lemma clean_simps [simp]:
  "clean [] = []" "clean (xs @ ys) = clean xs @ clean ys" "length (clean xs) = length xs"
  "clean (clean xs) = clean xs" "clean (take n xs) = take n (clean xs)"
  by (simp_all add: clean_def take_map)

lemma copy_loop_eq:
  "len \<le> length d \<Longrightarrow> copy_loop src len d =
     (len + min (length src) (length d - len),
      take len d @ clean (take (length d - len) src) @ drop (len + min (length src) (length d - len)) d)"
proof (induction src arbitrary: len d)
  case (Cons b src)
  show ?case
  proof (cases "len < length d")
    case True
    have "take (Suc len) (d[len := x]) = take len d @ [x]" for x
      using True by (simp add: take_Suc_conv_app_nth)
    moreover obtain k where "length d - len = Suc k" using True by (cases "length d - len") auto
    moreover from this have "length d - Suc len = k" by simp
    ultimately show ?thesis using True by (simp add: Cons.IH clean_def)
  next
    case False
    with Cons.prems show ?thesis by simp
  qed
qed simp

lemma copy_sanitized_eq:
  "copy_sanitized src d = (min (length src) (length d),
     clean (take (length d) src) @ drop (min (length src) (length d)) d)"
  by (simp add: copy_sanitized_def copy_loop_eq)

section \<open>The ring\<close>

definition log_ok :: "LogRing \<Rightarrow> bool" where
  "log_ok r \<longleftrightarrow> length (lr_entries r) = ENTRY_COUNT \<and> lr_count r \<le> ENTRY_COUNT
     \<and> lr_write_index r < ENTRY_COUNT
     \<and> (lr_count r < ENTRY_COUNT \<longrightarrow> lr_write_index r = lr_count r)"

text \<open>The entries a reader sees, oldest first.\<close>

definition log_contents :: "LogRing \<Rightarrow> LogEntry list" where
  "log_contents r = ring_list (lr_entries r)
     (if lr_count r < ENTRY_COUNT then 0 else lr_write_index r) (lr_count r)"

lemma log_entry_eq:
  "log_ok r \<Longrightarrow> log_entry r i = (if i < length (log_contents r) then Some (log_contents r ! i) else None)"
  by (simp add: log_entry_def log_contents_def Let_def nth_ring_list log_ok_def)

definition new_entry :: "u64 \<Rightarrow> u64 \<Rightarrow> u8 list \<Rightarrow> u8 list \<Rightarrow> LogEntry" where
  "new_entry seq ticks tag message = \<lparr>le_sequence = seq, le_tick = ticks,
     le_tag = clean (take TAG_CAPACITY tag) @ replicate (TAG_CAPACITY - length tag) 0,
     le_tag_len = of_nat (min (length tag) TAG_CAPACITY),
     le_message = clean (take MESSAGE_CAPACITY message) @ replicate (MESSAGE_CAPACITY - length message) 0,
     le_message_len = of_nat (min (length message) MESSAGE_CAPACITY)\<rparr>"

lemma new_entry_texts:
  "entry_tag (new_entry seq ticks tag message) = clean (take TAG_CAPACITY tag)"
  "entry_message (new_entry seq ticks tag message) = clean (take MESSAGE_CAPACITY message)"
proof -
  have small: "take (unat (of_nat (min (length s) k) :: u8)) (clean (take k s) @ replicate (k - length s) 0)
      = clean (take k s)" if "k < 256" for s k
  proof -
    have "unat (of_nat (min (length s) k) :: u8) = min (length s) k"
      using that by (simp add: unat_of_nat)
    moreover have "take (min (length s) k) (clean s) = take k (clean s)" by (cases "length s \<le> k") simp_all
    ultimately show ?thesis by simp
  qed
  show "entry_tag (new_entry seq ticks tag message) = clean (take TAG_CAPACITY tag)"
    "entry_message (new_entry seq ticks tag message) = clean (take MESSAGE_CAPACITY message)"
    using small [of TAG_CAPACITY] small [of MESSAGE_CAPACITY]
    by (simp_all add: entry_tag_def entry_message_def new_entry_def klog_consts)
qed

lemma log_append_eq:
  "log_append ticks tag message r =
     (let e = new_entry (lr_next_sequence r) ticks tag message;
          r1 = r\<lparr>lr_initialized := True, lr_entries := (lr_entries r)[lr_write_index r := e],
                 lr_write_index := (lr_write_index r + 1) mod ENTRY_COUNT,
                 lr_next_sequence := sat_add (lr_next_sequence r) 1\<rparr>
      in if lr_count r < ENTRY_COUNT then r1\<lparr>lr_count := lr_count r + 1\<rparr>
         else r1\<lparr>lr_dropped := sat_add (lr_dropped r) 1\<rparr>)"
proof -
  have *: "copy_sanitized s (replicate n 0) =
      (min (length s) n, clean (take n s) @ replicate (n - length s) 0)" for s n
    by (simp add: copy_sanitized_eq min_def)
  show ?thesis
    by (cases r) (simp add: log_append_def Entry_empty_def new_entry_def * Let_def)
qed

lemma log_append_ok:
  assumes "log_ok r"
  shows "log_ok (log_append ticks tag message r)"
    and "log_contents (log_append ticks tag message r) =
      (if length (log_contents r) < ENTRY_COUNT then log_contents r else tl (log_contents r))
        @ [new_entry (lr_next_sequence r) ticks tag message]"
proof -
  let ?e = "new_entry (lr_next_sequence r) ticks tag message" and ?xs = "lr_entries r"
  let ?w = "lr_write_index r" and ?n = "lr_count r"
  have len: "length ?xs = ENTRY_COUNT" and w: "?w < ENTRY_COUNT" and n: "?n \<le> ENTRY_COUNT"
    using assms by (simp_all add: log_ok_def)
  show "log_ok (log_append ticks tag message r)"
    using assms by (auto simp: log_append_eq Let_def log_ok_def klog_consts mod_Suc)
  show "log_contents (log_append ticks tag message r) =
      (if length (log_contents r) < ENTRY_COUNT then log_contents r else tl (log_contents r)) @ [?e]"
  proof (cases "?n < ENTRY_COUNT")
    case True
    then have wn: "?w = ?n" using assms by (simp add: log_ok_def)
    have "ring_list (?xs[?n := ?e]) 0 (Suc ?n) = ring_list ?xs 0 ?n @ [?e]"
      using ring_list_push [of ?n ?xs 0 ?e] True len by simp
    moreover have "Suc ?n mod ENTRY_COUNT = 0" if "\<not> Suc ?n < ENTRY_COUNT"
    proof -
      from that True have "Suc ?n = ENTRY_COUNT" by simp
      then show ?thesis by simp
    qed
    ultimately show ?thesis using True wn by (simp add: log_contents_def log_append_eq Let_def)
  next
    case False
    then obtain m where m: "?n = Suc m" "?n = ENTRY_COUNT" using n by (cases ?n) (auto simp: klog_consts)
    have "Suc ?w + m = ?w + length ?xs" using m len by simp
    then have "(Suc ?w + m) mod length ?xs = ?w" unfolding \<open>Suc ?w + m = _\<close> using w len by simp
    then have "ring_list (?xs[?w := ?e]) (Suc ?w) (Suc m) = ring_list ?xs (Suc ?w) m @ [?e]"
      using ring_list_push [of m ?xs "Suc ?w" ?e] m len by simp
    then have "ring_list (?xs[?w := ?e]) (Suc ?w mod ENTRY_COUNT) ?n = ring_list ?xs (Suc ?w) m @ [?e]"
      using ring_list_mod [of "?xs[?w := ?e]" "Suc ?w" ?n] m len by simp
    moreover have "tl (ring_list ?xs ?w ?n) = ring_list ?xs (Suc ?w) m" by (simp add: m ring_list_Suc)
    ultimately show ?thesis using False by (simp add: log_contents_def log_append_eq Let_def)
  qed
qed

text \<open>The entries of a sequence of appends, numbered from the start.\<close>

definition entries_of :: "(u64 \<times> u8 list \<times> u8 list) list \<Rightarrow> LogEntry list" where
  "entries_of ms = map (\<lambda>i. case ms ! i of (t, tag, msg) \<Rightarrow> new_entry (of_nat i) t tag msg) [0..<length ms]"

lemma length_entries_of [simp]: "length (entries_of ms) = length ms"
  by (simp add: entries_of_def)

lemma entries_of_snoc:
  "entries_of (ms @ [(t, tag, msg)]) = entries_of ms @ [new_entry (of_nat (length ms)) t tag msg]"
  by (simp add: entries_of_def nth_append)

definition append_all :: "(u64 \<times> u8 list \<times> u8 list) list \<Rightarrow> LogRing \<Rightarrow> LogRing" where
  "append_all ms r = fold (\<lambda>(t, tag, msg). log_append t tag msg) ms r"

lemma append_all_contents:
  assumes "length (lr_entries r) = ENTRY_COUNT" and "length ms < 2 ^ 64"
  shows "log_ok (append_all ms (log_init r))
    \<and> log_contents (append_all ms (log_init r)) = drop (length ms - ENTRY_COUNT) (entries_of ms)
    \<and> lr_next_sequence (append_all ms (log_init r)) = of_nat (length ms)
    \<and> lr_count (append_all ms (log_init r)) = min (length ms) ENTRY_COUNT
    \<and> lr_dropped (append_all ms (log_init r)) = of_nat (length ms - ENTRY_COUNT)"
  using assms(2)
proof (induction ms rule: rev_induct)
  case Nil
  show ?case using assms(1)
    by (simp add: append_all_def log_init_def log_ok_def log_contents_def entries_of_def klog_consts)
next
  case (snoc x ms)
  obtain t tag msg where x: "x = (t, tag, msg)" by (cases x)
  let ?r = "append_all ms (log_init r)"
  have len: "length ms < 2 ^ 64 - 1" using snoc.prems by simp
  with snoc have IH: "log_ok ?r" "log_contents ?r = drop (length ms - ENTRY_COUNT) (entries_of ms)"
    "lr_next_sequence ?r = of_nat (length ms)" "lr_count ?r = min (length ms) ENTRY_COUNT"
    "lr_dropped ?r = of_nat (length ms - ENTRY_COUNT)" by simp_all
  have step: "append_all (ms @ [x]) (log_init r) = log_append t tag msg ?r"
    by (simp add: append_all_def x)
  have inc: "sat_add (of_nat k) 1 = (of_nat (Suc k) :: u64)" if "k \<le> length ms" for k
    using that len by (simp add: sat_add_def unat_of_nat)
  have "lr_dropped (log_append t tag msg ?r) = of_nat (Suc (length ms) - ENTRY_COUNT)"
    using inc [of "length ms - ENTRY_COUNT"] IH(4,5)
    by (auto simp: log_append_eq Let_def Suc_diff_le not_less min_def)
  moreover have "lr_next_sequence (log_append t tag msg ?r) = of_nat (Suc (length ms))"
    using inc [of "length ms"] IH(3) by (simp add: log_append_eq Let_def)
  moreover have "lr_count (log_append t tag msg ?r) = min (Suc (length ms)) ENTRY_COUNT"
    using IH(4) by (simp add: log_append_eq Let_def min_def)
  moreover have "log_contents (log_append t tag msg ?r) =
      drop (Suc (length ms) - ENTRY_COUNT) (entries_of (ms @ [x]))"
  proof (cases "length ms < ENTRY_COUNT")
    case False
    then have "Suc (length ms) - ENTRY_COUNT = Suc (length ms - ENTRY_COUNT)" by simp
    with False show ?thesis
      unfolding log_append_ok(2) [OF IH(1)] IH(2,3) by (simp add: x entries_of_snoc drop_Suc tl_drop klog_consts)
  qed (simp add: log_append_ok(2) [OF IH(1)] IH(2,3) x entries_of_snoc)
  ultimately show ?case unfolding step using log_append_ok(1) [OF IH(1)] by simp
qed

section \<open>Numerals\<close>

lemma digit_clean: "d < 16 \<Longrightarrow> sanitize_byte (digit d) = digit d"
proof -
  assume "d < 16"
  moreover have "\<forall>d \<in> set [0..<16]. sanitize_byte (digit d) = digit d" by code_simp
  ultimately show ?thesis by simp
qed

lemma numeral_text_clean: "1 < base \<Longrightarrow> base \<le> 16 \<Longrightarrow> clean (numeral_text base n) = numeral_text base n"
proof (induction base n rule: numeral_text.induct)
  case (1 base n)
  have "n mod base < 16" using 1(2,3) by (meson less_le_trans mod_less_divisor order.strict_trans zero_less_one)
  with 1 show ?case by (subst (1 2) numeral_text.simps) (auto simp: clean_def digit_clean)
qed

text \<open>The digit array of the decimal loop never runs out.\<close>

lemma decimal_digit: "(0x30 :: u8) + ucast ((v :: u64) mod 10) = digit (unat v mod 10)"
proof -
  have "ucast (v mod 10) = (of_nat (unat (v mod 10)) :: u8)" by simp
  then show ?thesis by (simp add: digit_def unat_mod_distrib)
qed

lemma decimal_loop_eq:
  assumes "v \<noteq> 0" and "length (numeral_text 10 (unat v)) \<le> i" and "i \<le> length d"
  shows "\<exists>j d'. decimal_loop v i d = Some (j, d') \<and> drop j d' = numeral_text 10 (unat v) @ drop i d"
  using assms
proof (induction v i d rule: decimal_loop.induct)
  case (1 v i d)
  let ?x = "digit (unat v mod 10)" and ?t = "numeral_text 10 (unat (v div 10))"
  have div: "unat (v div 10) = unat v div 10" by (simp add: unat_div_distrib)
  have i: "0 < i" using 1(3) by (subst (asm) numeral_text.simps) (auto split: if_splits)
  have dr: "drop (i - 1) (d[i - 1 := ?x]) = ?x # drop i d"
    using i 1(4) Cons_nth_drop_Suc [of "i - 1" "d[i - 1 := ?x]"] by simp
  have step: "decimal_loop v i d = decimal_loop (v div 10) (i - 1) (d[i - 1 := ?x])"
    using 1(2,4) i by (subst decimal_loop.simps) (simp add: decimal_digit)
  show ?case
  proof (cases "v div 10 = 0")
    case True
    then have "unat v < 10" using div by (simp add: div_eq_0_iff)
    then have "numeral_text 10 (unat v) = [?x]" by (subst numeral_text.simps) simp
    with True dr show ?thesis unfolding step by (subst decimal_loop.simps) simp
  next
    case False
    then have "\<not> unat v < 10" using div by (auto simp: unat_eq_0 [symmetric])
    then have t: "numeral_text 10 (unat v) = ?t @ [?x]" by (subst numeral_text.simps) (simp add: div)
    have "\<exists>j d'. decimal_loop (v div 10) (i - 1) (d[i - 1 := ?x]) = Some (j, d') \<and>
        drop j d' = ?t @ drop (i - 1) (d[i - 1 := ?x])"
      using 1(1) [OF 1(2)] 1(3,4) i False t by (simp add: decimal_digit)
    with dr t show ?thesis unfolding step by simp
  qed
qed

section \<open>The message builder\<close>

definition builder_ok :: "MessageBuilder \<Rightarrow> bool" where
  "builder_ok b \<longleftrightarrow> length (mb_bytes b) = MESSAGE_CAPACITY \<and> mb_len b \<le> MESSAGE_CAPACITY"

lemma push_byte_ok:
  assumes "builder_ok b"
  shows "builder_ok (push_byte x b)" "as_bytes (push_byte x b) = take MESSAGE_CAPACITY (as_bytes b @ clean [x])"
  using assms by (auto simp: push_byte_def builder_ok_def as_bytes_def clean_def take_Suc_conv_app_nth)

lemma take_take_append: "take n (take n xs @ ys) = take n (xs @ ys)"
  by (cases "length xs \<le> n") simp_all

lemma push_bytes_ok:
  assumes "builder_ok b"
  shows "builder_ok (push_bytes v b) \<and>
    as_bytes (push_bytes v b) = take MESSAGE_CAPACITY (as_bytes b @ clean v)"
  using assms
proof (induction v arbitrary: b)
  case Nil
  then show ?case by (simp add: push_bytes_def builder_ok_def as_bytes_def)
next
  case (Cons x v)
  have "push_bytes (x # v) b = push_bytes v (push_byte x b)" by (simp add: push_bytes_def)
  moreover note Cons.IH [OF push_byte_ok(1) [OF Cons.prems]]
  ultimately show ?case
    unfolding push_byte_ok(2) [OF Cons.prems] take_take_append by (simp add: clean_def)
qed

lemma nibble_eq: "(ucast (drop_bit k v AND 0x0f) :: u8) = of_nat (unat (v :: u64) div 2 ^ k mod 16)"
proof -
  have "drop_bit k v AND 0x0f = drop_bit k v AND mask 4" by (simp add: mask_eq_exp_minus_1)
  also have "\<dots> = drop_bit k v mod 16" by (simp add: take_bit_eq_mask [symmetric] take_bit_eq_mod)
  finally have "unat (drop_bit k v AND 0x0f) = unat (drop_bit k v) mod 16" by (simp add: unat_mod_distrib)
  also have "unat (drop_bit k v) = drop_bit k (unat v)" by (rule unat_drop_bit_eq)
  also have "\<dots> = unat v div 2 ^ k" by (rule drop_bit_eq_div)
  finally have u: "unat (drop_bit k v AND 0x0f) = unat v div 2 ^ k mod 16" .
  have "(ucast (drop_bit k v AND 0x0f) :: u8) = of_nat (unat (drop_bit k v AND 0x0f))" by simp
  then show ?thesis unfolding u .
qed

lemma hex_digit: "d < 16 \<Longrightarrow>
   (if (of_nat d :: u8) < 10 then 0x30 + of_nat d else 0x61 + (of_nat d - 10)) = digit d"
proof -
  assume "d < 16"
  moreover have "\<forall>d \<in> set [0..<16]. (if (of_nat d :: u8) < 10 then 0x30 + of_nat d
      else 0x61 + (of_nat d - 10)) = digit d" by code_simp
  ultimately show ?thesis by simp
qed

lemma nibble_zero: "d < 16 \<Longrightarrow> (of_nat d :: u8) = 0 \<longleftrightarrow> d = 0"
proof -
  assume "d < 16"
  moreover have "\<forall>d \<in> set [0..<16]. (of_nat d :: u8) = 0 \<longleftrightarrow> d = 0" by code_simp
  ultimately show ?thesis by simp
qed

lemma hex_loop_eq:
  "hex_loop v started (4 * k) b =
     (let d = unat v div 16 ^ k mod 16; s = (d \<noteq> 0 \<or> started \<or> k = 0);
          b' = (if s then push_byte (digit d) b else b)
      in if k = 0 then b' else hex_loop v s (4 * (k - 1)) b')"
proof -
  have p: "unat v div 2 ^ (4 * k) = unat v div 16 ^ k" by (simp add: power_mult)
  have s: "4 * k - 4 = 4 * (k - 1)" by simp
  have d: "unat v div 16 ^ k mod 16 < 16" by simp
  show ?thesis
    unfolding hex_loop.simps [of v started "4 * k" b] nibble_eq p hex_digit [OF d] nibble_zero [OF d]
      s Let_def
    by simp
qed

lemma hex_loop_started:
  "builder_ok b \<Longrightarrow> builder_ok (hex_loop v True (4 * k) b)
     \<and> as_bytes (hex_loop v True (4 * k) b) = take MESSAGE_CAPACITY (as_bytes b @ hex_pad (Suc k) (unat v))"
proof (induction k arbitrary: b)
  case 0
  then show ?case
    using push_byte_ok [OF 0] by (simp add: hex_loop_eq [of v True 0, simplified] Let_def clean_def digit_clean)
next
  case (Suc k)
  note p = push_byte_ok [OF Suc.prems, of "digit (unat v div 16 ^ Suc k mod 16)"]
  have "clean [digit (unat v div 16 ^ Suc k mod 16)] = [digit (unat v div 16 ^ Suc k mod 16)]"
    by (simp add: clean_def digit_clean)
  with Suc.IH [OF p(1)] show ?case
    unfolding hex_loop_eq [of v True "Suc k"] p(2) take_take_append by (simp add: Let_def del: take_append)
qed

lemma hex_loop_fresh:
  "builder_ok b \<Longrightarrow> unat v < 16 ^ Suc k \<Longrightarrow> builder_ok (hex_loop v False (4 * k) b)
     \<and> as_bytes (hex_loop v False (4 * k) b) = take MESSAGE_CAPACITY (as_bytes b @ numeral_text 16 (unat v))"
proof (induction k arbitrary: b)
  case 0
  then have "numeral_text 16 (unat v) = [digit (unat v)]" by (subst numeral_text.simps) simp
  with push_byte_ok [OF 0(1)] 0(2) show ?case
    by (simp add: hex_loop_eq [of v False 0, simplified] Let_def clean_def digit_clean)
next
  case (Suc k)
  let ?d = "unat v div 16 ^ Suc k mod 16"
  have lt: "unat v div 16 ^ Suc k < 16"
    using Suc.prems(2) by (simp add: less_mult_imp_div_less mult.commute)
  show ?case
  proof (cases "unat v div 16 ^ Suc k = 0")
    case True
    then have "unat v < 16 ^ Suc k" by (simp add: div_eq_0_iff)
    from Suc.IH [OF Suc.prems(1) this] True show ?thesis
      unfolding hex_loop_eq [of v False "Suc k"] by (simp add: Let_def)
  next
    case False
    then have d: "?d \<noteq> 0" using lt by simp
    have eq: "hex_loop v False (4 * Suc k) b = hex_loop v True (4 * Suc k) b"
      unfolding hex_loop_eq [of v _ "Suc k"] Let_def using d by simp
    from hex_loop_started [OF Suc.prems(1), of v "Suc k"] numeral_text_hex_pad [OF Suc.prems(2) False]
    show ?thesis unfolding eq by simp
  qed
qed

lemma labeled_ok:
  "builder_ok (labeled l) \<and> as_bytes (labeled l) = take MESSAGE_CAPACITY (clean l @ ascii '': '')"
proof -
  have new: "builder_ok MessageBuilder_new" "as_bytes MessageBuilder_new = []"
    by (simp_all add: builder_ok_def MessageBuilder_new_def as_bytes_def)
  have "clean (ascii '': '') = ascii '': ''" by code_simp
  with push_bytes_ok [OF new(1), of l] push_bytes_ok [of "push_bytes l MessageBuilder_new" "ascii '': ''"] new(2)
  show ?thesis by (simp add: labeled_def take_take_append del: take_append)
qed

lemma push_u64_ok:
  assumes "builder_ok b"
  obtains b' where "push_u64 v b = Some b'" "builder_ok b'"
    "as_bytes b' = take MESSAGE_CAPACITY (as_bytes b @ numeral_text 10 (unat v))"
proof (cases "v = 0")
  case True
  then have "numeral_text 10 (unat v) = [digit 0]" by (subst numeral_text.simps) simp
  moreover have "digit 0 = 0x30" by (simp add: digit_def)
  ultimately show thesis
    using that [of "push_byte 0x30 b"] push_byte_ok [OF assms, of "0x30"] True digit_clean [of 0]
    by (simp add: push_u64_def clean_def)
next
  case False
  have "unat v < 2 ^ 64" using unsigned_less [of v] by simp
  then have "unat v < 10 ^ Suc 19" by simp
  from numeral_text_length [OF this] have "length (numeral_text 10 (unat v)) \<le> 20" by simp
  from decimal_loop_eq [OF False this, of "replicate 20 0"] obtain j d where
    "decimal_loop v 20 (replicate 20 0) = Some (j, d)" "drop j d = numeral_text 10 (unat v)" by auto
  with False push_bytes_ok [OF assms, of "drop j d"] numeral_text_clean [of 10 "unat v"] show thesis
    by (intro that [of "push_bytes (drop j d) b"]) (simp_all add: push_u64_def)
qed

lemma push_hex_u64_ok:
  assumes "builder_ok b"
  shows "as_bytes (push_hex_u64 v b) = take MESSAGE_CAPACITY (as_bytes b @ ascii ''0x'' @ numeral_text 16 (unat v))"
proof -
  have "clean (ascii ''0x'') = ascii ''0x''" by code_simp
  moreover have "unat v < 2 ^ 64" using unsigned_less [of v] by simp
  then have "unat v < 16 ^ Suc 15" by simp
  moreover note p = push_bytes_ok [OF assms, of "ascii ''0x''"]
  ultimately show ?thesis
    using hex_loop_fresh [of "push_bytes (ascii ''0x'') b" v 15]
    by (simp add: push_hex_u64_def take_take_append del: take_append)
qed

section \<open>Claims\<close>

lemma printable_clean: "b \<in> set (clean bs) \<Longrightarrow> 0x20 \<le> b \<and> b \<le> 0x7e"
  using sanitize_printable by (auto simp: clean_def)

text \<open>
  C24. After the log is initialised and any sequence of messages is appended, the reader sees
  exactly the newest 128 of them, oldest first: entry \<open>i\<close> is the message number
  \<open>n - min n 128 + i\<close>, with that sequence number, its tick, and its tag and text cut to 12 and
  80 bytes and free of control bytes; there is no further entry, and the number of messages
  that were overwritten is reported.
\<close>

theorem log_keeps_newest:
  assumes "length (lr_entries r) = ENTRY_COUNT" and "length ms < 2 ^ 64"
  shows "let s = append_all ms (log_init r); n = length ms; k = min n ENTRY_COUNT in
     (\<forall>i < k. \<exists>e. log_entry s i = Some e \<and> (case ms ! (n - k + i) of (t, tag, msg) \<Rightarrow>
         le_sequence e = of_nat (n - k + i) \<and> le_tick e = t
         \<and> entry_tag e = clean (take TAG_CAPACITY tag)
         \<and> entry_message e = clean (take MESSAGE_CAPACITY msg)))
     \<and> (\<forall>i \<ge> k. log_entry s i = None)
     \<and> lsn_count (log_snapshot s) = of_nat k \<and> lsn_dropped (log_snapshot s) = of_nat (n - k)"
proof -
  define s n k where "s = append_all ms (log_init r)" and "n = length ms" and "k = min n ENTRY_COUNT"
  have kn: "k \<le> n" "n - ENTRY_COUNT = n - k" by (simp_all add: k_def min_def)
  have a: "log_ok s" "log_contents s = drop (n - k) (entries_of ms)" "lr_count s = k"
    "lr_dropped s = of_nat (n - k)"
    using append_all_contents [OF assms]
    unfolding s_def [symmetric] n_def [symmetric] k_def [symmetric] kn(2) by simp_all
  have len: "length (log_contents s) = k" using a(2) kn(1) by (simp add: n_def)
  define e where "e i = (case ms ! (n - k + i) of (t, tag, msg) \<Rightarrow> new_entry (of_nat (n - k + i)) t tag msg)" for i
  have "log_contents s ! i = e i" if "i < k" for i
    using a(2) kn(1) that by (simp add: e_def entries_of_def n_def)
  then have entry: "log_entry s i = Some (e i)" if "i < k" for i
    using log_entry_eq [OF a(1), of i] len that by simp
  have parts: "case ms ! (n - k + i) of (t, tag, msg) \<Rightarrow>
      le_sequence (e i) = of_nat (n - k + i) \<and> le_tick (e i) = t
      \<and> entry_tag (e i) = clean (take TAG_CAPACITY tag)
      \<and> entry_message (e i) = clean (take MESSAGE_CAPACITY msg)" for i
    by (cases "ms ! (n - k + i)") (simp add: e_def new_entry_texts, simp add: new_entry_def)
  have none: "log_entry s i = None" if "k \<le> i" for i
    using log_entry_eq [OF a(1), of i] len that by simp
  have counts: "lsn_count (log_snapshot s) = of_nat k" "lsn_dropped (log_snapshot s) = of_nat (n - k)"
    using a(3,4) by (simp_all add: log_snapshot_def)
  show ?thesis
    unfolding Let_def s_def [symmetric] n_def [symmetric] k_def [symmetric]
    by (intro conjI allI impI exI, rule entry, assumption, rule parts, rule none, assumption, rule counts,
      rule counts)
qed

theorem log_keeps_newest_witness:
  "let s = append_all [(7, ascii ''ipc'', ascii ''ready'')] (log_init LogRing_new) in
   (\<exists>e. log_entry s 0 = Some e \<and> le_tick e = 7 \<and> entry_message e = ascii ''ready'')
   \<and> log_entry s 1 = None"
proof -
  have "clean (take MESSAGE_CAPACITY (ascii ''ready'')) = ascii ''ready''" by code_simp
  moreover have "min 1 ENTRY_COUNT = 1" by (simp add: klog_consts)
  moreover have "length (lr_entries LogRing_new) = ENTRY_COUNT" by (simp add: LogRing_new_def)
  ultimately show ?thesis
    using log_keeps_newest [of LogRing_new "[(7, ascii ''ipc'', ascii ''ready'')]"]
    by (auto simp: Let_def)
qed

text \<open>
  C25. Numbers are logged faithfully: appending a labelled number never runs past the digit
  array, and for every value the entry's text is the label, a colon and the decimal (or, with
  \<open>0x\<close>, the hexadecimal) numeral of that value, cut to the message capacity; reading the
  numeral back gives the value.
\<close>

theorem append_number_renders:
  "(\<exists>r'. append_u64 t tag l v r = Some r'
      \<and> r' = log_append t tag (take MESSAGE_CAPACITY (clean l @ ascii '': '' @ numeral_text 10 (unat v))) r)
   \<and> append_hex_u64 t tag l v r =
       log_append t tag (take MESSAGE_CAPACITY (clean l @ ascii '': 0x'' @ numeral_text 16 (unat v))) r
   \<and> numeral_value 10 (numeral_text 10 (unat v)) = unat v
   \<and> numeral_value 16 (numeral_text 16 (unat v)) = unat v"
proof (intro conjI)
  note l = labeled_ok [of l]
  obtain b where "push_u64 v (labeled l) = Some b"
    "as_bytes b = take MESSAGE_CAPACITY (as_bytes (labeled l) @ numeral_text 10 (unat v))"
    using push_u64_ok [of "labeled l" v] l by metis
  with l show "\<exists>r'. append_u64 t tag l v r = Some r' \<and> r' = log_append t tag
      (take MESSAGE_CAPACITY (clean l @ ascii '': '' @ numeral_text 10 (unat v))) r"
    by (simp add: append_u64_def take_take_append del: take_append)
  have "as_bytes (push_hex_u64 v (labeled l)) =
      take MESSAGE_CAPACITY ((clean l @ ascii '': '') @ ascii ''0x'' @ numeral_text 16 (unat v))"
    using push_hex_u64_ok [of "labeled l" v] l by (simp only: take_take_append)
  moreover have "ascii '': 0x'' = ascii '': '' @ ascii ''0x''" by (simp add: ascii_def)
  ultimately show "append_hex_u64 t tag l v r =
      log_append t tag (take MESSAGE_CAPACITY (clean l @ ascii '': 0x'' @ numeral_text 16 (unat v))) r"
    by (simp add: append_hex_u64_def)
qed (simp_all add: numeral_value_text)

end
