(* ===== verification/Keyboard.thy ===== *)
theory Keyboard
  imports Prelude
begin

unbundle bit_operations_syntax

text \<open>
  The keyboard driver, \<^verbatim>\<open>src/src/keyboard.rs\<close>: a ring buffer of key events between the interrupt
  handler and the shell, and the state machine that decodes scancodes. The counters that
  \<^verbatim>\<open>src/src/stats.rs\<close> keeps for the driver are part of its state. The controller's ports are
  hardware: what the \<open>i\<close>-th read of the status and of the data port returns is an argument.
\<close>

definition KEY_BUFFER_SIZE :: nat where "KEY_BUFFER_SIZE = 256"

datatype KeyEvent = KeyChar u8 | Enter | Backspace | Tab | Escape | ArrowUp | ArrowDown | ArrowLeft
  | ArrowRight | ShiftPressed | ShiftReleased | CapsLockToggled bool

record KeyBuffer =
  kb_buffer :: "KeyEvent list"
  read_index :: nat
  write_index :: nat

definition KeyBuffer_new :: KeyBuffer where
  "KeyBuffer_new = \<lparr>kb_buffer = replicate KEY_BUFFER_SIZE Escape, read_index = 0, write_index = 0\<rparr>"

text \<open>
  \<open>push\<close> reports whether it stored the event; the source reports it through the counters of
  stored and dropped events, which \<open>push_event\<close> updates.
\<close>

definition key_push :: "KeyBuffer \<Rightarrow> KeyEvent \<Rightarrow> bool \<times> KeyBuffer" where
  "key_push b event =
     (let write = write_index b;
          next_write = (write + 1) mod KEY_BUFFER_SIZE
      in if next_write = read_index b then (False, b)
         else (True, b\<lparr>kb_buffer := (kb_buffer b)[write := event], write_index := next_write\<rparr>))"

definition key_pop :: "KeyBuffer \<Rightarrow> KeyEvent option \<times> KeyBuffer" where
  "key_pop b =
     (let read = read_index b
      in if read = write_index b then (None, b)
         else let event = kb_buffer b ! read; next_read = (read + 1) mod KEY_BUFFER_SIZE
              in (Some event, b\<lparr>read_index := next_read\<rparr>))"

definition key_len :: "KeyBuffer \<Rightarrow> nat" where
  "key_len b = (let read = read_index b; write = write_index b
     in if read \<le> write then write - read else KEY_BUFFER_SIZE - read + write)"

text \<open>
  The same \<open>pop\<close> with the keyboard interrupt arriving between its atomic accesses: after the
  load of the read index the handler pushes \<open>es1\<close>, after the test \<open>es2\<close>, after the read of the
  cell \<open>es3\<close>; the store of the read index comes last.
\<close>

definition push_events :: "KeyEvent list \<Rightarrow> KeyBuffer \<Rightarrow> KeyBuffer" where
  "push_events es b = fold (\<lambda>e b. snd (key_push b e)) es b"

definition interrupted_pop ::
    "KeyEvent list \<Rightarrow> KeyEvent list \<Rightarrow> KeyEvent list \<Rightarrow> KeyBuffer \<Rightarrow> KeyEvent option \<times> KeyBuffer" where
  "interrupted_pop es1 es2 es3 b =
     (let read = read_index b;
          b1 = push_events es1 b
      in if read = write_index b1 then (None, b1)
         else
           let b2 = push_events es2 b1;
               event = kb_buffer b2 ! read;
               next_read = (read + 1) mod KEY_BUFFER_SIZE;
               b3 = push_events es3 b2
           in (Some event, b3\<lparr>read_index := next_read\<rparr>))"

record Keyboard =
  key_buffer :: KeyBuffer
  shift_pressed :: bool
  caps_lock :: bool
  extended_scancode :: bool
  keyboard_scancodes :: u64
  keyboard_events :: u64
  keyboard_dropped_events :: u64

definition Keyboard_new :: Keyboard where
  "Keyboard_new = \<lparr>key_buffer = KeyBuffer_new, shift_pressed = False, caps_lock = False,
     extended_scancode = False, keyboard_scancodes = 0, keyboard_events = 0,
     keyboard_dropped_events = 0\<rparr>"

definition push_event :: "KeyEvent \<Rightarrow> Keyboard \<Rightarrow> Keyboard" where
  "push_event event k =
     (case key_push (key_buffer k) event of
        (True, b) \<Rightarrow> k\<lparr>key_buffer := b, keyboard_events := keyboard_events k + 1\<rparr>
      | (False, b) \<Rightarrow> k\<lparr>key_buffer := b, keyboard_dropped_events := keyboard_dropped_events k + 1\<rparr>)"

definition pop_event :: "Keyboard \<Rightarrow> KeyEvent option \<times> Keyboard" where
  "pop_event k = (case key_pop (key_buffer k) of (e, b) \<Rightarrow> (e, k\<lparr>key_buffer := b\<rparr>))"

definition pending_events :: "Keyboard \<Rightarrow> nat" where
  "pending_events k = key_len (key_buffer k)"

definition letter :: "u8 \<Rightarrow> bool \<Rightarrow> bool \<Rightarrow> u8" where
  "letter lowercase shifted caps = (if shifted \<noteq> caps then lowercase - 32 else lowercase)"

definition event_table :: "bool \<Rightarrow> bool \<Rightarrow> (u8 \<times> KeyEvent) list" where
  "event_table shifted caps = [
      (0x01, Escape),
      (0x02, KeyChar (if shifted then 0x21 else 0x31)),
      (0x03, KeyChar (if shifted then 0x40 else 0x32)),
      (0x04, KeyChar (if shifted then 0x23 else 0x33)),
      (0x05, KeyChar (if shifted then 0x24 else 0x34)),
      (0x06, KeyChar (if shifted then 0x25 else 0x35)),
      (0x07, KeyChar (if shifted then 0x5e else 0x36)),
      (0x08, KeyChar (if shifted then 0x26 else 0x37)),
      (0x09, KeyChar (if shifted then 0x2a else 0x38)),
      (0x0a, KeyChar (if shifted then 0x28 else 0x39)),
      (0x0b, KeyChar (if shifted then 0x29 else 0x30)),
      (0x0c, KeyChar (if shifted then 0x5f else 0x2d)),
      (0x0d, KeyChar (if shifted then 0x2b else 0x3d)),
      (0x0e, Backspace),
      (0x0f, Tab),
      (0x10, KeyChar (letter 0x71 shifted caps)),
      (0x11, KeyChar (letter 0x77 shifted caps)),
      (0x12, KeyChar (letter 0x65 shifted caps)),
      (0x13, KeyChar (letter 0x72 shifted caps)),
      (0x14, KeyChar (letter 0x74 shifted caps)),
      (0x15, KeyChar (letter 0x79 shifted caps)),
      (0x16, KeyChar (letter 0x75 shifted caps)),
      (0x17, KeyChar (letter 0x69 shifted caps)),
      (0x18, KeyChar (letter 0x6f shifted caps)),
      (0x19, KeyChar (letter 0x70 shifted caps)),
      (0x1a, KeyChar (if shifted then 0x7b else 0x5b)),
      (0x1b, KeyChar (if shifted then 0x7d else 0x5d)),
      (0x1c, Enter),
      (0x1e, KeyChar (letter 0x61 shifted caps)),
      (0x1f, KeyChar (letter 0x73 shifted caps)),
      (0x20, KeyChar (letter 0x64 shifted caps)),
      (0x21, KeyChar (letter 0x66 shifted caps)),
      (0x22, KeyChar (letter 0x67 shifted caps)),
      (0x23, KeyChar (letter 0x68 shifted caps)),
      (0x24, KeyChar (letter 0x6a shifted caps)),
      (0x25, KeyChar (letter 0x6b shifted caps)),
      (0x26, KeyChar (letter 0x6c shifted caps)),
      (0x27, KeyChar (if shifted then 0x3a else 0x3b)),
      (0x28, KeyChar (if shifted then 0x22 else 0x27)),
      (0x29, KeyChar (if shifted then 0x7e else 0x60)),
      (0x2b, KeyChar (if shifted then 0x7c else 0x5c)),
      (0x2c, KeyChar (letter 0x7a shifted caps)),
      (0x2d, KeyChar (letter 0x78 shifted caps)),
      (0x2e, KeyChar (letter 0x63 shifted caps)),
      (0x2f, KeyChar (letter 0x76 shifted caps)),
      (0x30, KeyChar (letter 0x62 shifted caps)),
      (0x31, KeyChar (letter 0x6e shifted caps)),
      (0x32, KeyChar (letter 0x6d shifted caps)),
      (0x33, KeyChar (if shifted then 0x3c else 0x2c)),
      (0x34, KeyChar (if shifted then 0x3e else 0x2e)),
      (0x35, KeyChar (if shifted then 0x3f else 0x2f)),
      (0x39, KeyChar 0x20)
    ]"

definition scancode_to_event :: "Keyboard \<Rightarrow> u8 \<Rightarrow> KeyEvent option" where
  "scancode_to_event k scancode = map_of (event_table (shift_pressed k) (caps_lock k)) scancode"

definition handle_extended_scancode :: "u8 \<Rightarrow> Keyboard \<Rightarrow> Keyboard" where
  "handle_extended_scancode scancode k =
     (if scancode AND 0x80 \<noteq> 0 then k
      else
        let event = (if scancode = 0x48 then Some ArrowUp
                     else if scancode = 0x50 then Some ArrowDown
                     else if scancode = 0x4b then Some ArrowLeft
                     else if scancode = 0x4d then Some ArrowRight
                     else None)
        in case event of Some e \<Rightarrow> push_event e k | None \<Rightarrow> k)"

definition handle_scancode :: "u8 \<Rightarrow> Keyboard \<Rightarrow> Keyboard" where
  "handle_scancode scancode k0 =
     (let k = k0\<lparr>keyboard_scancodes := keyboard_scancodes k0 + 1\<rparr>
      in if scancode = 0xe0 then k\<lparr>extended_scancode := True\<rparr>
         else if extended_scancode k
         then handle_extended_scancode scancode (k\<lparr>extended_scancode := False\<rparr>)
         else if scancode = 0x2a \<or> scancode = 0x36
         then push_event ShiftPressed (k\<lparr>shift_pressed := True\<rparr>)
         else if scancode = 0xaa \<or> scancode = 0xb6
         then push_event ShiftReleased (k\<lparr>shift_pressed := False\<rparr>)
         else if scancode = 0x3a
         then let enabled = (\<not> caps_lock k)
              in push_event (CapsLockToggled enabled) (k\<lparr>caps_lock := enabled\<rparr>)
         else if scancode AND 0x80 \<noteq> 0 then k
         else case scancode_to_event k scancode of Some e \<Rightarrow> push_event e k | None \<Rightarrow> k)"

text \<open>
  \<open>poll\<close> handles at most 16 pending scancodes, \<open>init\<close> discards at most 32. \<open>status i\<close> and
  \<open>data i\<close> are what the ports return in round \<open>i\<close>.
\<close>

definition has_pending_scancode :: "u8 \<Rightarrow> bool" where
  "has_pending_scancode status \<longleftrightarrow> status AND 0x01 \<noteq> 0"

fun poll_loop :: "(nat \<Rightarrow> u8) \<Rightarrow> (nat \<Rightarrow> u8) \<Rightarrow> nat list \<Rightarrow> Keyboard \<Rightarrow> Keyboard" where
  "poll_loop status data [] k = k"
| "poll_loop status data (i # rest) k =
     (if \<not> has_pending_scancode (status i) then k
      else poll_loop status data rest (handle_scancode (data i) k))"

definition poll :: "(nat \<Rightarrow> u8) \<Rightarrow> (nat \<Rightarrow> u8) \<Rightarrow> Keyboard \<Rightarrow> Keyboard" where
  "poll status data k = poll_loop status data [0..<16] k"

fun drain_loop :: "(nat \<Rightarrow> u8) \<Rightarrow> nat list \<Rightarrow> nat" where
  "drain_loop status [] = 0"
| "drain_loop status (i # rest) =
     (if \<not> has_pending_scancode (status i) then 0 else 1 + drain_loop status rest)"

text \<open>The number of scancodes that \<open>init\<close> reads and discards.\<close>

definition drain_output_buffer :: "(nat \<Rightarrow> u8) \<Rightarrow> nat" where
  "drain_output_buffer status = drain_loop status [0..<32]"

end
