(* ===== verification/Keyboard_Properties.thy ===== *)
theory Keyboard_Properties
  imports Keyboard
begin

unbundle bit_operations_syntax

text \<open>
  The key buffer is a bounded queue of 255 events, also when the interrupt handler runs in the
  middle of a \<open>pop\<close>; and the decoder's modifier state is what the scancode history says.
\<close>

section \<open>The key buffer as a bounded queue\<close>

definition key_ok :: "KeyBuffer \<Rightarrow> bool" where
  "key_ok b \<longleftrightarrow> length (kb_buffer b) = KEY_BUFFER_SIZE \<and> read_index b < KEY_BUFFER_SIZE
     \<and> write_index b < KEY_BUFFER_SIZE"

definition key_events :: "KeyBuffer \<Rightarrow> KeyEvent list" where
  "key_events b = ring_list (kb_buffer b) (read_index b) (key_len b)"

lemma key_len_write:
  assumes "key_ok b"
  shows "key_len b < KEY_BUFFER_SIZE" "(read_index b + key_len b) mod KEY_BUFFER_SIZE = write_index b"
    "key_len b = 0 \<longleftrightarrow> read_index b = write_index b"
    "(write_index b + 1) mod KEY_BUFFER_SIZE = read_index b \<longleftrightarrow> key_len b = KEY_BUFFER_SIZE - 1"
  using assms by (auto simp: key_ok_def key_len_def Let_def KEY_BUFFER_SIZE_def mod_Suc le_mod_geq)

lemma key_push_ok:
  assumes "key_ok b"
  shows "key_ok (snd (key_push b e))" "read_index (snd (key_push b e)) = read_index b"
    "fst (key_push b e) \<longleftrightarrow> key_len b < KEY_BUFFER_SIZE - 1"
    "key_events (snd (key_push b e)) = key_events b @ (if fst (key_push b e) then [e] else [])"
proof -
  note l = key_len_write [OF assms]
  show "key_ok (snd (key_push b e))" "read_index (snd (key_push b e)) = read_index b"
    using assms by (auto simp: key_push_def Let_def key_ok_def KEY_BUFFER_SIZE_def)
  show acc: "fst (key_push b e) \<longleftrightarrow> key_len b < KEY_BUFFER_SIZE - 1"
    using l by (auto simp: key_push_def Let_def)
  show "key_events (snd (key_push b e)) = key_events b @ (if fst (key_push b e) then [e] else [])"
  proof (cases "fst (key_push b e)")
    case True
    let ?b = "snd (key_push b e)"
    have b: "?b = b\<lparr>kb_buffer := (kb_buffer b)[write_index b := e],
        write_index := (write_index b + 1) mod KEY_BUFFER_SIZE\<rparr>"
      using True by (simp add: key_push_def Let_def split: if_splits)
    have lt: "key_len b < 255" using True acc by (simp add: KEY_BUFFER_SIZE_def)
    have len: "key_len ?b = Suc (key_len b)"
      using assms lt unfolding b by (auto simp: key_ok_def key_len_def Let_def KEY_BUFFER_SIZE_def mod_Suc)
    have "ring_list ((kb_buffer b)[write_index b := e]) (read_index b) (Suc (key_len b)) = key_events b @ [e]"
      using ring_list_push [of "key_len b" "kb_buffer b" "read_index b" e] l(1,2) assms
      by (simp add: key_events_def key_ok_def)
    with True len b show ?thesis by (simp add: key_events_def)
  qed (simp add: key_push_def Let_def split: if_splits)
qed

lemma key_pop_ok:
  assumes "key_ok b"
  shows "key_ok (snd (key_pop b))"
    "key_events b = [] \<Longrightarrow> key_pop b = (None, b)"
    "key_events b = e # es \<Longrightarrow> fst (key_pop b) = Some e \<and> key_events (snd (key_pop b)) = es"
proof -
  note l = key_len_write [OF assms]
  show "key_ok (snd (key_pop b))"
    using assms by (simp add: key_pop_def Let_def key_ok_def KEY_BUFFER_SIZE_def)
  have "length (key_events b) = key_len b" by (simp add: key_events_def)
  then show "key_pop b = (None, b)" if "key_events b = []"
    using that l(3) by (simp add: key_pop_def)
  show "fst (key_pop b) = Some e \<and> key_events (snd (key_pop b)) = es" if ev: "key_events b = e # es"
  proof -
    have len: "key_len b = Suc (length es)" using arg_cong [OF ev, of length] by (simp add: key_events_def)
    then have ne: "read_index b \<noteq> write_index b" using l(3) by simp
    have size: "length (kb_buffer b) = KEY_BUFFER_SIZE" "read_index b < KEY_BUFFER_SIZE"
      using assms by (simp_all add: key_ok_def)
    have "key_events b = kb_buffer b ! read_index b # ring_list (kb_buffer b) (Suc (read_index b)) (length es)"
      using size by (simp add: key_events_def len ring_list_Suc)
    then have e: "kb_buffer b ! read_index b = e"
      and es: "ring_list (kb_buffer b) (Suc (read_index b)) (length es) = es" using ev by simp_all
    have "key_len (b\<lparr>read_index := (read_index b + 1) mod KEY_BUFFER_SIZE\<rparr>) = length es"
      using len assms by (auto simp: key_ok_def key_len_def Let_def KEY_BUFFER_SIZE_def mod_Suc split: if_splits)
    with ne e es size show ?thesis
      using ring_list_mod [of "kb_buffer b" "Suc (read_index b)" "length es"]
      by (simp add: key_pop_def key_events_def)
  qed
qed

interpretation keys: bounded_queue "KEY_BUFFER_SIZE - 1" key_ok key_events key_push key_pop
proof unfold_locales
  fix b :: KeyBuffer and e es
  assume ok: "key_ok b"
  note l = key_len_write [OF ok] and p = key_push_ok [OF ok, of e]
  have len: "length (key_events b) = key_len b" by (simp add: key_events_def)
  show "length (key_events b) \<le> KEY_BUFFER_SIZE - 1" using len l(1) by simp
  show "fst (key_push b e) \<and> key_events (snd (key_push b e)) = key_events b @ [e]"
    if "length (key_events b) < KEY_BUFFER_SIZE - 1" using p len that by simp
  show "\<not> fst (key_push b e) \<and> key_events (snd (key_push b e)) = key_events b"
    if "length (key_events b) = KEY_BUFFER_SIZE - 1" using p len that by simp
  show "key_ok (snd (key_push b e))" by (rule p)
  show "fst (key_pop b) = None \<and> key_events (snd (key_pop b)) = []" if "key_events b = []"
    using key_pop_ok(2) [OF ok that] that by simp
  show "fst (key_pop b) = Some e \<and> key_events (snd (key_pop b)) = es" if "key_events b = e # es"
    using key_pop_ok(3) [OF ok that] .
  show "key_ok (snd (key_pop b))" by (rule key_pop_ok(1) [OF ok])
qed

section \<open>Interrupts during a pop\<close>

text \<open>What a burst of pushes leaves: the read index and every stored event stay in place.\<close>

lemma push_events_ok:
  assumes "key_ok b"
  shows "key_ok (push_events es b) \<and> read_index (push_events es b) = read_index b
    \<and> (\<exists>xs. key_events (push_events es b) = key_events b @ xs)"
  using assms
proof (induction es arbitrary: b)
  case (Cons e es)
  have "push_events (e # es) b = push_events es (snd (key_push b e))" by (simp add: push_events_def)
  with Cons.IH [OF key_push_ok(1) [OF Cons.prems, of e]] key_push_ok [OF Cons.prems, of e] show ?case
    by (auto split: if_splits)
qed (simp add: push_events_def)

lemma key_events_head: "key_ok b \<Longrightarrow> key_events b = x # xs \<Longrightarrow> kb_buffer b ! read_index b = x"
  using key_pop_ok(3) [of b x xs] by (auto simp: key_pop_def Let_def split: if_splits)

lemma interrupted_pop_eq:
  assumes "key_ok b"
  shows "interrupted_pop es1 es2 es3 b =
    (if key_events (push_events es1 b) = [] then (None, push_events es1 b)
     else key_pop (push_events es3 (push_events es2 (push_events es1 b))))"
proof -
  define b1 b2 b3 where b: "b1 = push_events es1 b" "b2 = push_events es2 b1" "b3 = push_events es3 b2"
  have p1: "key_ok b1" "read_index b1 = read_index b"
    using push_events_ok [OF assms, of es1] by (simp_all add: b)
  have p2: "key_ok b2" "read_index b2 = read_index b" "\<exists>xs. key_events b2 = key_events b1 @ xs"
    using push_events_ok [OF p1(1), of es2] p1 by (simp_all add: b)
  have p3: "key_ok b3" "read_index b3 = read_index b" "\<exists>xs. key_events b3 = key_events b2 @ xs"
    using push_events_ok [OF p2(1), of es3] p2 by (simp_all add: b)
  have empty: "key_events c = [] \<longleftrightarrow> read_index c = write_index c" if "key_ok c" for c
    using key_len_write(3) [OF that] length_0_conv [of "key_events c"] by (simp add: key_events_def)
  show ?thesis
  proof (cases "key_events b1")
    case Nil
    with empty [OF p1(1)] p1(2) show ?thesis by (simp add: interrupted_pop_def Let_def b)
  next
    case (Cons x xs)
    then have ne: "read_index b \<noteq> write_index b1" using empty [OF p1(1)] p1(2) by auto
    obtain ys zs where ev: "key_events b2 = x # ys" "key_events b3 = x # zs"
      using p2(3) p3(3) Cons by auto
    have "kb_buffer b2 ! read_index b = x" using key_events_head [OF p2(1) ev(1)] p2(2) by simp
    moreover have "kb_buffer b3 ! read_index b = x" using key_events_head [OF p3(1) ev(2)] p3(2) by simp
    moreover have "read_index b3 \<noteq> write_index b3" using empty [OF p3(1)] ev(2) by simp
    ultimately show ?thesis
      using ne Cons p3(2) by (simp add: interrupted_pop_def key_pop_def Let_def b)
  qed
qed

text \<open>
  C26. The key buffer is safe between the interrupt handler and the reader: whatever events the
  handler pushes between the accesses of a \<open>pop\<close>, the reader gets the oldest event present when
  it tested the buffer (or nothing when it was empty then), and the buffer is left as if the
  pushes had come first and the pop had been atomic, so no event is lost, doubled or reordered.
\<close>

theorem pop_interrupt_safe:
  assumes "key_ok b"
  shows "let b1 = push_events es1 b; b3 = push_events es3 (push_events es2 b1) in
    case key_events b1 of
      [] \<Rightarrow> interrupted_pop es1 es2 es3 b = (None, b1)
    | x # xs \<Rightarrow> \<exists>b'. interrupted_pop es1 es2 es3 b = (Some x, b') \<and> key_ok b'
        \<and> key_events b3 = x # key_events b'"
proof (cases "key_events (push_events es1 b)")
  case Nil
  then show ?thesis by (simp add: Let_def interrupted_pop_eq [OF assms])
next
  case (Cons x xs)
  let ?b3 = "push_events es3 (push_events es2 (push_events es1 b))"
  have ok: "key_ok ?b3" using assms push_events_ok by blast
  obtain ys where ys: "key_events ?b3 = x # ys"
    using push_events_ok [of "push_events es1 b" es2] push_events_ok [of "push_events es2 (push_events es1 b)" es3]
      push_events_ok [OF assms, of es1] Cons by auto
  from Cons key_pop_ok(1) [OF ok] key_pop_ok(3) [OF ok ys] ys show ?thesis
    by (cases "key_pop ?b3") (simp add: Let_def interrupted_pop_eq [OF assms])
qed

theorem pop_interrupt_safe_witness:
  "\<exists>b'. interrupted_pop [Tab] [Enter] [Escape] KeyBuffer_new = (Some Tab, b')
     \<and> key_ok b' \<and> Tab # key_events b' = [Tab, Enter, Escape]"
proof -
  have ok: "key_ok KeyBuffer_new" by (simp add: key_ok_def KeyBuffer_new_def KEY_BUFFER_SIZE_def)
  have "key_events (push_events [Tab] KeyBuffer_new) = [Tab]"
    "key_events (push_events [Escape] (push_events [Enter] (push_events [Tab] KeyBuffer_new)))
       = [Tab, Enter, Escape]" by code_simp+
  with pop_interrupt_safe [OF ok, of "[Tab]" "[Escape]" "[Enter]"] show ?thesis
    by (auto simp: Let_def)
qed

section \<open>The decoder\<close>

text \<open>
  The scancodes of a history that are not part of an extended sequence: \<open>0xe0\<close> takes the next
  other byte with it.
\<close>

fun plain :: "u8 list \<Rightarrow> u8 list" and after_e0 :: "u8 list \<Rightarrow> u8 list" where
  "plain [] = []"
| "plain (c # cs) = (if c = 0xe0 then after_e0 cs else c # plain cs)"
| "after_e0 [] = []"
| "after_e0 (c # cs) = (if c = 0xe0 then after_e0 cs else plain cs)"

text \<open>Whether shift is held, and caps lock on, after a history of plain scancodes.\<close>

definition shift_after :: "bool \<Rightarrow> u8 list \<Rightarrow> bool" where
  "shift_after held cs = fold (\<lambda>c h. if c = 0x2a \<or> c = 0x36 then True
     else if c = 0xaa \<or> c = 0xb6 then False else h) cs held"

definition caps_after :: "bool \<Rightarrow> u8 list \<Rightarrow> bool" where
  "caps_after on cs \<longleftrightarrow> (on \<noteq> odd (count_list cs 0x3a))"

lemma push_event_sel [simp]:
  "shift_pressed (push_event e k) = shift_pressed k" "caps_lock (push_event e k) = caps_lock k"
  "extended_scancode (push_event e k) = extended_scancode k"
  "keyboard_scancodes (push_event e k) = keyboard_scancodes k"
  "key_buffer (push_event e k) = snd (key_push (key_buffer k) e)"
  by (simp_all add: push_event_def split: prod.splits bool.splits)

lemma extended_sel [simp]:
  "shift_pressed (handle_extended_scancode c k) = shift_pressed k"
  "caps_lock (handle_extended_scancode c k) = caps_lock k"
  "extended_scancode (handle_extended_scancode c k) = extended_scancode k"
  "keyboard_scancodes (handle_extended_scancode c k) = keyboard_scancodes k"
  by (simp_all add: handle_extended_scancode_def split: option.splits)

lemma handle_scancode_sel:
  "extended_scancode (handle_scancode c k) = (c = 0xe0)"
  "shift_pressed (handle_scancode c k) = (if c = 0xe0 \<or> extended_scancode k then shift_pressed k
     else shift_after (shift_pressed k) [c])"
  "caps_lock (handle_scancode c k) = (if c = 0xe0 \<or> extended_scancode k then caps_lock k
     else caps_after (caps_lock k) [c])"
  "keyboard_scancodes (handle_scancode c k) = keyboard_scancodes k + 1"
  by (auto simp: handle_scancode_def Let_def shift_after_def caps_after_def split: option.splits)

lemma shift_after_Cons: "shift_after h (c # cs) = shift_after (shift_after h [c]) cs"
  by (simp add: shift_after_def)

lemma caps_after_Cons: "caps_after h (c # cs) = caps_after (caps_after h [c]) cs"
  by (auto simp: caps_after_def)

lemma decode_state:
  "shift_pressed (fold handle_scancode cs k) =
     shift_after (shift_pressed k) (if extended_scancode k then after_e0 cs else plain cs)
   \<and> caps_lock (fold handle_scancode cs k) =
     caps_after (caps_lock k) (if extended_scancode k then after_e0 cs else plain cs)
   \<and> keyboard_scancodes (fold handle_scancode cs k) = keyboard_scancodes k + of_nat (length cs)"
proof (induction cs arbitrary: k)
  case Nil
  show ?case by (simp add: shift_after_def caps_after_def)
next
  case (Cons c cs)
  show ?case
    using Cons.IH [of "handle_scancode c k"]
    by (cases "c = 0xe0"; cases "extended_scancode k")
      (simp_all add: handle_scancode_sel shift_after_Cons [of _ c "plain cs"] caps_after_Cons [of _ c "plain cs"])
qed

definition event_ok :: "KeyEvent \<Rightarrow> bool" where
  "event_ok e = (case e of KeyChar c \<Rightarrow> 0x20 \<le> c \<and> c \<le> 0x7e | _ \<Rightarrow> True)"

lemma event_table_ok: "list_all (event_ok \<circ> snd) (event_table shifted caps)"
proof -
  have "\<forall>s \<in> set [True, False]. \<forall>c \<in> set [True, False]. list_all (event_ok \<circ> snd) (event_table s c)"
    by code_simp
  then show ?thesis by (cases shifted; cases caps) simp_all
qed

lemma scancode_event_ok: "scancode_to_event k c = Some e \<Longrightarrow> event_ok e"
  using event_table_ok [of "shift_pressed k" "caps_lock k"] map_of_SomeD [of _ c e]
  by (fastforce simp: scancode_to_event_def list_all_iff)

text \<open>A scancode adds at most one event.\<close>

definition one_event :: "KeyBuffer \<Rightarrow> Keyboard \<Rightarrow> bool" where
  "one_event b k \<longleftrightarrow> key_buffer k = b \<or> (\<exists>e. event_ok e \<and> key_buffer k = snd (key_push b e))"

lemma one_event_intros:
  "key_buffer k = b \<Longrightarrow> one_event b k"
  "key_buffer k = b \<Longrightarrow> event_ok e \<Longrightarrow> one_event b (push_event e k)"
  by (auto simp: one_event_def)

lemma one_event_if:
  "(P \<Longrightarrow> one_event b k) \<Longrightarrow> (\<not> P \<Longrightarrow> one_event b k') \<Longrightarrow> one_event b (if P then k else k')"
  by simp

lemma one_event_option:
  "key_buffer k = b \<Longrightarrow> (\<And>e. opt = Some e \<Longrightarrow> event_ok e) \<Longrightarrow>
   one_event b (case opt of Some e \<Rightarrow> push_event e k | None \<Rightarrow> k)"
  by (cases opt) (simp_all add: one_event_intros)

lemma extended_one: "key_buffer k = b \<Longrightarrow> one_event b (handle_extended_scancode c k)"
  unfolding handle_extended_scancode_def Let_def
  by (rule one_event_if, simp add: one_event_intros, rule one_event_option)
    (auto simp: event_ok_def split: if_splits)

lemma handle_scancode_one: "one_event (key_buffer k) (handle_scancode c k)"
  unfolding handle_scancode_def Let_def
  by (intro one_event_if one_event_option extended_one one_event_intros)
    (simp_all add: event_ok_def [of ShiftPressed] event_ok_def [of ShiftReleased]
      event_ok_def [of "CapsLockToggled _"] scancode_event_ok)

lemma handle_scancode_buffer:
  assumes "key_ok (key_buffer k)" and "list_all event_ok (key_events (key_buffer k))"
  shows "key_ok (key_buffer (handle_scancode c k)) \<and> list_all event_ok (key_events (key_buffer (handle_scancode c k)))"
  using handle_scancode_one [of k c] assms key_push_ok(1,4) [OF assms(1)] by (auto simp: one_event_def)

text \<open>
  C27. The decoder tracks the modifiers correctly over every scancode history, extended
  sequences included: shift is held when the last plain shift code was a press, caps lock is
  on after an odd number of plain presses, whatever was dropped from the buffer; and every
  character waiting for the shell is printable ASCII.
\<close>

theorem decoder_correct:
  "let k = fold handle_scancode cs Keyboard_new in
     shift_pressed k = shift_after False (plain cs)
   \<and> caps_lock k = odd (count_list (plain cs) 0x3a)
   \<and> keyboard_scancodes k = of_nat (length cs)
   \<and> (\<forall>c. KeyChar c \<in> set (key_events (key_buffer k)) \<longrightarrow> 0x20 \<le> c \<and> c \<le> 0x7e)"
proof -
  let ?k = "fold handle_scancode cs Keyboard_new"
  have "key_ok (key_buffer (fold handle_scancode cs k)) \<and> list_all event_ok (key_events (key_buffer (fold handle_scancode cs k)))"
    if "key_ok (key_buffer k)" "list_all event_ok (key_events (key_buffer k))" for k
    using that by (induction cs arbitrary: k) (simp_all add: handle_scancode_buffer)
  from this [of Keyboard_new] have "list_all event_ok (key_events (key_buffer ?k))"
    by (simp add: Keyboard_new_def KeyBuffer_new_def key_ok_def key_events_def key_len_def
        KEY_BUFFER_SIZE_def)
  then have "\<forall>c. KeyChar c \<in> set (key_events (key_buffer ?k)) \<longrightarrow> 0x20 \<le> c \<and> c \<le> 0x7e"
    by (auto simp: list_all_iff event_ok_def split: KeyEvent.splits)
  with decode_state [of cs Keyboard_new] show ?thesis
    by (simp add: Let_def Keyboard_new_def caps_after_def)
qed

theorem decoder_correct_witness:
  "let k = fold handle_scancode [0x2a, 0x1e, 0xe0, 0x2a] Keyboard_new in
   shift_pressed k \<and> KeyChar 0x41 \<in> set (key_events (key_buffer k)) \<and> 0x41 \<le> (0x7e :: u8)"
proof -
  let ?k = "fold handle_scancode [0x2a, 0x1e, 0xe0, 0x2a] Keyboard_new"
  have "KeyChar 0x41 \<in> set (key_events (key_buffer ?k))" by code_simp
  moreover have "shift_after False (plain [0x2a, 0x1e, 0xe0, 0x2a])" by code_simp
  ultimately show ?thesis
    using decoder_correct [of "[0x2a, 0x1e, 0xe0, 0x2a]"] unfolding Let_def by blast
qed

end
