(* ===== verification/Slices.thy ===== *)
theory Slices
  imports Prelude
begin

text \<open>
  Byte slices and \<open>usize\<close> offsets, shared by the archive and the program loader. Offsets are
  naturals; the checked additions of the source fail at \<open>2 ^ 64\<close>, and \<open>get\<close> is the slice access
  that answers \<open>None\<close> out of range instead of panicking.
\<close>

definition usize_add :: "nat \<Rightarrow> nat \<Rightarrow> nat option" where
  "usize_add a b = (if a + b < 2 ^ 64 then Some (a + b) else None)"

lemma usize_add_code [code]:
  "usize_add a b = (if int a + int b < 18446744073709551616 then Some (a + b) else None)"
  by (simp add: usize_add_def)

lemma usize_add_SomeD: "usize_add a b = Some c \<Longrightarrow> c = a + b \<and> a + b < 2 ^ 64"
  by (simp add: usize_add_def split: if_splits)

definition slice :: "'a list \<Rightarrow> nat \<Rightarrow> nat \<Rightarrow> 'a list" where
  "slice xs a b = take (b - a) (drop a xs)"

definition get_slice :: "'a list \<Rightarrow> nat \<Rightarrow> nat \<Rightarrow> 'a list option" where
  "get_slice xs a b = (if a \<le> b \<and> b \<le> length xs then Some (slice xs a b) else None)"

lemma length_slice: "b \<le> length xs \<Longrightarrow> length (slice xs a b) = b - a"
  by (simp add: slice_def)

lemma get_slice_SomeD:
  "get_slice xs a b = Some s \<Longrightarrow> a \<le> b \<and> b \<le> length xs \<and> s = slice xs a b \<and> length s = b - a"
  by (auto simp: get_slice_def length_slice split: if_splits)

text \<open>A slice of a concatenation.\<close>

lemma slice_append3:
  "length pre = a \<Longrightarrow> length mid = b - a \<Longrightarrow> slice (pre @ mid @ post) a b = mid"
  by (simp add: slice_def)

lemma get_slice_append3:
  "length pre = a \<Longrightarrow> b = a + length mid \<Longrightarrow> get_slice (pre @ mid @ post) a b = Some mid"
  by (simp add: get_slice_def slice_append3)

definition checked_mul :: "'a::len word \<Rightarrow> 'a word \<Rightarrow> 'a word option" where
  "checked_mul a b = (if unat a * unat b < 2 ^ LENGTH('a) then Some (a * b) else None)"

lemma checked_mul_code [code]:
  "checked_mul a (b :: 'a::len word) = (if uint a * uint b < 2 ^ LENGTH('a) then Some (a * b) else None)"
proof -
  have "int (unat a * unat b) < int (2 ^ LENGTH('a)) \<longleftrightarrow> uint a * uint b < 2 ^ LENGTH('a)" by simp
  then have "unat a * unat b < 2 ^ LENGTH('a) \<longleftrightarrow> uint a * uint b < 2 ^ LENGTH('a)"
    by (simp only: of_nat_less_iff)
  then show ?thesis by (simp add: checked_mul_def)
qed

end
