(* ===== verification/Initramfs.thy ===== *)
theory Initramfs
  imports Slices Multiboot
begin

unbundle bit_operations_syntax

text \<open>
  The boot archive, \<^verbatim>\<open>src/src/initramfs.rs\<close>: the parser of CPIO \<open>newc\<close> archives, the table of
  entries it fills, and the lookup by path. The archive lies in physical memory, where the
  boot loader put it; \<open>init\<close> reads it through the boot summary of \<open>Multiboot\<close>. Messages on the
  serial console are not part of the state.
\<close>

definition CPIO_NEWC_MAGIC :: "u8 list" where "CPIO_NEWC_MAGIC = ascii ''070701''"
definition CPIO_HEADER_SIZE :: nat where "CPIO_HEADER_SIZE = 110"
definition CPIO_TRAILER :: "u8 list" where "CPIO_TRAILER = ascii ''TRAILER!!!''"
definition INIT_PATH :: "u8 list" where "INIT_PATH = ascii ''bin/init''"
definition MAX_ARCHIVE_SIZE :: u64 where "MAX_ARCHIVE_SIZE = 32 * 1024 * 1024"
definition MAX_ENTRIES :: nat where "MAX_ENTRIES = 32"
definition MAX_PATH_LEN :: nat where "MAX_PATH_LEN = 96"
definition MODE_TYPE_MASK :: u32 where "MODE_TYPE_MASK = 0xF000"
definition MODE_REGULAR :: u32 where "MODE_REGULAR = 0x8000"
definition MODE_DIRECTORY :: u32 where "MODE_DIRECTORY = 0x4000"

datatype ArchiveError = MissingModule | InvalidModule | ArchiveTooLarge | TruncatedHeader
  | InvalidMagic | InvalidHexField | InvalidNameSize | NameTooLong | NameMissingTerminator
  | InvalidPath | EntryOutsideArchive | ChecksumUnsupported | MissingTrailer | InvalidTrailer
  | TrailingGarbage | TooManyEntries | MissingInit | InitNotRegular

section \<open>Paths\<close>

definition is_ascii_alphanumeric :: "u8 \<Rightarrow> bool" where
  "is_ascii_alphanumeric b \<longleftrightarrow> (0x30 \<le> b \<and> b \<le> 0x39) \<or> (0x41 \<le> b \<and> b \<le> 0x5a) \<or> (0x61 \<le> b \<and> b \<le> 0x7a)"

fun valid_path_loop :: "u8 list \<Rightarrow> nat list \<Rightarrow> nat \<Rightarrow> bool" where
  "valid_path_loop path [] component_start = True"
| "valid_path_loop path (index # rest) component_start =
     (if index = length path \<or> path ! index = 0x2f
      then let component = slice path component_start index
           in if component = [] \<or> component = ascii ''.'' \<or> component = ascii ''..'' then False
              else valid_path_loop path rest (index + 1)
      else let byte = path ! index
           in if \<not> (is_ascii_alphanumeric byte \<or> byte = 0x2e \<or> byte = 0x5f \<or> byte = 0x2d) then False
              else valid_path_loop path rest component_start)"

definition valid_path :: "u8 list \<Rightarrow> bool" where
  "valid_path path =
     (if path = [] \<or> path ! 0 = 0x2f \<or> last path = 0x2f then False
      else valid_path_loop path [0..<length path + 1] 0)"

definition normalize_requested_path :: "u8 list \<Rightarrow> u8 list option" where
  "normalize_requested_path path =
     (let normalized = (if path \<noteq> [] \<and> hd path = 0x2f then tl path else path)
      in if valid_path normalized then Some normalized else None)"

record PathField =
  pf_bytes :: "u8 list"
  pf_len :: nat

definition PathField_empty :: PathField where
  "PathField_empty = \<lparr>pf_bytes = replicate MAX_PATH_LEN 0, pf_len = 0\<rparr>"

definition from_bytes :: "u8 list \<Rightarrow> ArchiveError + PathField" where
  "from_bytes bytes =
     (if bytes = [] \<or> MAX_PATH_LEN < length bytes \<or> \<not> valid_path bytes
      then Inl (if MAX_PATH_LEN < length bytes then NameTooLong else InvalidPath)
      else Inr \<lparr>pf_bytes = bytes @ drop (length bytes) (pf_bytes PathField_empty), pf_len = length bytes\<rparr>)"

definition path_as_str :: "PathField \<Rightarrow> u8 list" where
  "path_as_str p = (let bs = take (pf_len p) (pf_bytes p) in if utf8_valid bs then bs else [])"

section \<open>Entries\<close>

record EntryInfo =
  ei_path :: PathField
  ei_size :: u64
  ei_mode :: u32
  ei_regular :: bool
  ei_directory :: bool

definition EntryInfo_empty :: EntryInfo where
  "EntryInfo_empty = \<lparr>ei_path = PathField_empty, ei_size = 0, ei_mode = 0, ei_regular = False,
     ei_directory = False\<rparr>"

record ArchiveState =
  as_initialized :: bool
  as_module_found :: bool
  as_valid :: bool
  as_module_start :: u64
  as_module_end :: u64
  as_entry_count :: nat
  as_regular_files :: u64
  as_directories :: u64
  as_total_file_bytes :: u64
  as_init_found :: bool
  as_init_size :: u64
  as_entries :: "EntryInfo list"
  as_last_error :: "ArchiveError option"

definition ArchiveState_empty :: ArchiveState where
  "ArchiveState_empty = \<lparr>as_initialized = False, as_module_found = False, as_valid = False,
     as_module_start = 0, as_module_end = 0, as_entry_count = 0, as_regular_files = 0,
     as_directories = 0, as_total_file_bytes = 0, as_init_found = False, as_init_size = 0,
     as_entries = replicate MAX_ENTRIES EntryInfo_empty, as_last_error = None\<rparr>"

record ArchiveSnapshot =
  asn_initialized :: bool
  asn_module_found :: bool
  asn_valid :: bool
  asn_module_start :: u64
  asn_module_end :: u64
  asn_archive_size :: u64
  asn_entry_count :: u64
  asn_regular_files :: u64
  asn_directories :: u64
  asn_total_file_bytes :: u64
  asn_init_found :: bool
  asn_init_size :: u64
  asn_last_error :: "ArchiveError option"

definition archive_snapshot :: "ArchiveState \<Rightarrow> ArchiveSnapshot" where
  "archive_snapshot s = \<lparr>asn_initialized = as_initialized s, asn_module_found = as_module_found s,
     asn_valid = as_valid s, asn_module_start = as_module_start s, asn_module_end = as_module_end s,
     asn_archive_size = sat_sub (as_module_end s) (as_module_start s),
     asn_entry_count = of_nat (as_entry_count s), asn_regular_files = as_regular_files s,
     asn_directories = as_directories s, asn_total_file_bytes = as_total_file_bytes s,
     asn_init_found = as_init_found s, asn_init_size = as_init_size s,
     asn_last_error = as_last_error s\<rparr>"

definition archive_entry :: "ArchiveState \<Rightarrow> nat \<Rightarrow> EntryInfo option" where
  "archive_entry s index = (if as_entry_count s \<le> index then None else Some (as_entries s ! index))"

definition hex_digit_value :: "u8 \<Rightarrow> u32 option" where
  "hex_digit_value b =
     (if 0x30 \<le> b \<and> b \<le> 0x39 then Some (ucast (b - 0x30))
      else if 0x61 \<le> b \<and> b \<le> 0x66 then Some (ucast (b - 0x61 + 10))
      else if 0x41 \<le> b \<and> b \<le> 0x46 then Some (ucast (b - 0x41 + 10))
      else None)"

fun parse_hex_loop :: "u8 list \<Rightarrow> u32 \<Rightarrow> ArchiveError + u32" where
  "parse_hex_loop [] v = Inr v"
| "parse_hex_loop (byte # rest) v =
     (case hex_digit_value byte of
        None \<Rightarrow> Inl InvalidHexField
      | Some digit \<Rightarrow>
          (case checked_mul v 16 of
             None \<Rightarrow> Inl InvalidHexField
           | Some current \<Rightarrow>
               (case checked_add current digit of
                  None \<Rightarrow> Inl InvalidHexField
                | Some v' \<Rightarrow> parse_hex_loop rest v')))"

definition parse_hex_u32 :: "u8 list \<Rightarrow> ArchiveError + u32" where
  "parse_hex_u32 bytes = (if length bytes \<noteq> 8 then Inl InvalidHexField else parse_hex_loop bytes 0)"

definition archive_align_up :: "nat \<Rightarrow> nat \<Rightarrow> nat option" where
  "archive_align_up v alignment =
     map_option (\<lambda>aligned. aligned div alignment * alignment) (usize_add v (alignment - 1))"

record ParsedEntry =
  pe_name :: "u8 list"
  pe_data :: "u8 list"
  pe_mode :: u32
  pe_next_offset :: nat
  pe_trailer :: bool

text \<open>The loop over the thirteen hexadecimal fields of a header stops at the first bad one.\<close>

fun check_fields :: "u8 list \<Rightarrow> nat list \<Rightarrow> ArchiveError + unit" where
  "check_fields header [] = Inr ()"
| "check_fields header (field_offset # rest) =
     (case parse_hex_u32 (slice header field_offset (field_offset + 8)) of
        Inl e \<Rightarrow> Inl e
      | Inr _ \<Rightarrow> check_fields header rest)"

definition field_offsets :: "nat list" where
  "field_offsets = [6, 14, 22, 30, 38, 46, 54, 62, 70, 78, 86, 94, 102]"

text \<open>\<open>bind\<close> is Rust's \<open>?\<close> operator: an error returns at once.\<close>

definition bind :: "'e + 'a \<Rightarrow> ('a \<Rightarrow> 'e + 'b) \<Rightarrow> 'e + 'b" where
  "bind r f = (case r of Inl e \<Rightarrow> Inl e | Inr x \<Rightarrow> f x)"

definition ok_or :: "'a option \<Rightarrow> 'e \<Rightarrow> 'e + 'a" where
  "ok_or r e = (case r of None \<Rightarrow> Inl e | Some x \<Rightarrow> Inr x)"

text \<open>The second half of \<open>parse_entry\<close>: the name, the data and the place of the next entry.\<close>

definition parse_entry_body :: "u8 list \<Rightarrow> nat \<Rightarrow> u32 \<Rightarrow> nat \<Rightarrow> nat \<Rightarrow> ArchiveError + ParsedEntry" where
  "parse_entry_body bytes header_end mode file_size name_size =
     bind (ok_or (usize_add header_end name_size) EntryOutsideArchive) (\<lambda>name_end.
     bind (ok_or (get_slice bytes header_end name_end) EntryOutsideArchive) (\<lambda>name_with_nul.
     if name_with_nul = [] \<or> last name_with_nul \<noteq> 0 then Inl NameMissingTerminator
     else
       let name = slice name_with_nul 0 (name_size - 1)
       in bind (ok_or (archive_align_up name_end 4) EntryOutsideArchive) (\<lambda>data_start.
          bind (ok_or (usize_add data_start file_size) EntryOutsideArchive) (\<lambda>data_end.
          bind (ok_or (get_slice bytes data_start data_end) EntryOutsideArchive) (\<lambda>data.
          bind (ok_or (archive_align_up data_end 4) EntryOutsideArchive) (\<lambda>next_offset.
          if length bytes < next_offset then Inl EntryOutsideArchive
          else
            let trailer = (name = CPIO_TRAILER)
            in if trailer \<and> data \<noteq> [] then Inl InvalidTrailer
               else if \<not> trailer \<and> \<not> valid_path name then Inl InvalidPath
               else Inr \<lparr>pe_name = name, pe_data = data, pe_mode = mode,
                         pe_next_offset = next_offset, pe_trailer = trailer\<rparr>))))))"

definition parse_entry :: "u8 list \<Rightarrow> nat \<Rightarrow> ArchiveError + ParsedEntry" where
  "parse_entry bytes offset =
     bind (ok_or (usize_add offset CPIO_HEADER_SIZE) EntryOutsideArchive) (\<lambda>header_end.
     bind (ok_or (get_slice bytes offset header_end) TruncatedHeader) (\<lambda>header.
     if slice header 0 6 \<noteq> CPIO_NEWC_MAGIC then Inl InvalidMagic
     else
       bind (check_fields header field_offsets) (\<lambda>_.
       bind (parse_hex_u32 (slice header 14 22)) (\<lambda>mode.
       bind (parse_hex_u32 (slice header 54 62)) (\<lambda>file_size.
       bind (parse_hex_u32 (slice header 94 102)) (\<lambda>name_size.
       bind (parse_hex_u32 (slice header 102 110)) (\<lambda>checksum.
       if checksum \<noteq> 0 then Inl ChecksumUnsupported
       else if name_size = 0 then Inl InvalidNameSize
       else if MAX_PATH_LEN + 1 < unat name_size then Inl NameTooLong
       else parse_entry_body bytes header_end mode (unat file_size) (unat name_size))))))))"

lemma bind_Inr: "bind r f = Inr y \<longleftrightarrow> (\<exists>x. r = Inr x \<and> f x = Inr y)"
  by (cases r) (simp_all add: bind_def)

lemma ok_or_Inr: "ok_or r e = Inr x \<longleftrightarrow> r = Some x"
  by (cases r) (simp_all add: ok_or_def)

lemma archive_align_upD: "archive_align_up v 4 = Some a \<Longrightarrow> v \<le> a \<and> a < v + 4 \<and> 4 dvd a"
  by (auto simp: archive_align_up_def dest!: usize_add_SomeD)

text \<open>What a successful parse has established.\<close>

definition body_ok :: "u8 list \<Rightarrow> nat \<Rightarrow> nat \<Rightarrow> nat \<Rightarrow> ParsedEntry \<Rightarrow> bool" where
  "body_ok bytes header_end file_size name_size p \<longleftrightarrow>
     (\<exists>data_start. header_end + name_size \<le> data_start \<and> data_start < header_end + name_size + 4
        \<and> data_start + file_size \<le> length bytes
        \<and> pe_data p = slice bytes data_start (data_start + file_size)
        \<and> data_start + file_size \<le> pe_next_offset p)
     \<and> name_size \<noteq> 0 \<and> length (pe_name p) = name_size - 1
     \<and> pe_name p = slice bytes header_end (header_end + (name_size - 1))
     \<and> pe_next_offset p \<le> length bytes \<and> 4 dvd pe_next_offset p
     \<and> pe_trailer p = (pe_name p = CPIO_TRAILER)
     \<and> (if pe_trailer p then pe_data p = [] else valid_path (pe_name p))"

lemma parse_entry_bodyD:
  assumes "parse_entry_body bytes header_end mode file_size name_size = Inr p"
  shows "body_ok bytes header_end file_size name_size p \<and> pe_mode p = mode"
proof -
  obtain name_end nul data_start data_end data where
    ne: "usize_add header_end name_size = Some name_end" "get_slice bytes header_end name_end = Some nul"
      "nul \<noteq> []"
    and ds: "archive_align_up name_end 4 = Some data_start" "usize_add data_start file_size = Some data_end"
      "get_slice bytes data_start data_end = Some data"
    and nx: "archive_align_up data_end 4 = Some (pe_next_offset p)" "pe_next_offset p \<le> length bytes"
    and p: "pe_name p = slice nul 0 (name_size - 1)" "pe_data p = data" "pe_mode p = mode"
      "pe_trailer p = (pe_name p = CPIO_TRAILER)"
      "if pe_trailer p then data = [] else valid_path (pe_name p)"
    using assms unfolding parse_entry_body_def bind_Inr ok_or_Inr Let_def
    by (fastforce split: if_splits simp: bind_Inr ok_or_Inr)
  have name_end: "name_end = header_end + name_size" using usize_add_SomeD [OF ne(1)] by simp
  have nul: "nul = slice bytes header_end name_end" "length nul = name_size"
    using get_slice_SomeD [OF ne(2)] name_end by auto
  have ns: "name_size \<noteq> 0" "length (pe_name p) = name_size - 1"
    using nul(2) ne(3) p(1) by (auto simp: length_slice)
  have "slice (slice bytes header_end name_end) 0 (name_size - 1) =
      slice bytes header_end (header_end + (name_size - 1))"
    by (simp add: slice_def name_end min_def)
  then have "pe_name p = slice bytes header_end (header_end + (name_size - 1))" using p(1) nul(1) by simp
  with ns show ?thesis
    using p(2-) nx archive_align_upD [OF ds(1)] archive_align_upD [OF nx(1)] usize_add_SomeD [OF ds(2)]
      get_slice_SomeD [OF ds(3)] name_end
    unfolding body_ok_def by (auto intro!: exI [of _ data_start])
qed

lemma parse_entry_InrD:
  assumes "parse_entry bytes offset = Inr p"
  obtains header file_size name_size where
    "get_slice bytes offset (offset + CPIO_HEADER_SIZE) = Some header"
    "check_fields header field_offsets = Inr ()"
    "parse_hex_u32 (slice header 14 22) = Inr (pe_mode p)"
    "parse_hex_u32 (slice header 54 62) = Inr file_size"
    "parse_hex_u32 (slice header 94 102) = Inr name_size" "unat name_size \<le> MAX_PATH_LEN + 1"
    "body_ok bytes (offset + CPIO_HEADER_SIZE) (unat file_size) (unat name_size) p"
proof -
  obtain header_end header mode fs ns where
    "usize_add offset CPIO_HEADER_SIZE = Some header_end" "get_slice bytes offset header_end = Some header"
    "check_fields header field_offsets = Inr ()" "parse_hex_u32 (slice header 14 22) = Inr mode"
    "parse_hex_u32 (slice header 54 62) = Inr fs" "parse_hex_u32 (slice header 94 102) = Inr ns"
    "unat ns \<le> MAX_PATH_LEN + 1"
    "parse_entry_body bytes header_end mode (unat fs) (unat ns) = Inr p"
    using assms unfolding parse_entry_def bind_Inr ok_or_Inr
    by (fastforce split: if_splits simp: bind_Inr ok_or_Inr not_less)
  moreover from this(1) have "header_end = offset + CPIO_HEADER_SIZE" using usize_add_SomeD by simp
  ultimately show thesis using that parse_entry_bodyD by metis
qed

text \<open>Every entry ends behind its header, so the loops over the archive make progress.\<close>

lemma parse_entry_progress:
  assumes "parse_entry bytes offset = Inr p"
  shows "offset + CPIO_HEADER_SIZE < pe_next_offset p \<and> pe_next_offset p \<le> length bytes"
  by (rule parse_entry_InrD [OF assms]) (auto simp: body_ok_def)

section \<open>The archive\<close>

text \<open>One round of the loop of \<open>parse_archive\<close> for an entry that is not the trailer.\<close>

definition record_entry :: "ParsedEntry \<Rightarrow> ArchiveState \<Rightarrow> (ArchiveError + unit) \<times> ArchiveState" where
  "record_entry p s =
     (if MAX_ENTRIES \<le> as_entry_count s then (Inl TooManyEntries, s)
      else
        let file_type = pe_mode p AND MODE_TYPE_MASK;
            regular = (file_type = MODE_REGULAR);
            directory = (file_type = MODE_DIRECTORY);
            size_bytes = of_nat (length (pe_data p))
        in if pe_name p = INIT_PATH \<and> \<not> regular then (Inl InitNotRegular, s)
           else
             (case from_bytes (pe_name p) of
                Inl e \<Rightarrow> (Inl e, s)
              | Inr path \<Rightarrow>
                  let info = \<lparr>ei_path = path, ei_size = size_bytes, ei_mode = pe_mode p,
                              ei_regular = regular, ei_directory = directory\<rparr>;
                      s1 = s\<lparr>as_entries := (as_entries s)[as_entry_count s := info],
                             as_entry_count := as_entry_count s + 1\<rparr>;
                      s2 = (if regular
                            then s1\<lparr>as_regular_files := sat_add (as_regular_files s1) 1,
                                    as_total_file_bytes := sat_add (as_total_file_bytes s1) size_bytes\<rparr>
                            else s1);
                      s3 = (if directory
                            then s2\<lparr>as_directories := sat_add (as_directories s2) 1\<rparr> else s2);
                      s4 = (if pe_name p = INIT_PATH
                            then s3\<lparr>as_init_found := True, as_init_size := size_bytes\<rparr> else s3)
                  in (Inr (), s4)))"

text \<open>The loop: an error, or the offset behind the last parsed entry and whether it was the trailer.\<close>

function archive_loop :: "u8 list \<Rightarrow> nat \<Rightarrow> ArchiveState \<Rightarrow> (ArchiveError + nat \<times> bool) \<times> ArchiveState" where
  "archive_loop bytes offset s =
     (if offset < length bytes then
        (case parse_entry bytes offset of
           Inl e \<Rightarrow> (Inl e, s)
         | Inr p \<Rightarrow>
             if pe_trailer p then (Inr (pe_next_offset p, True), s)
             else (case record_entry p s of
                     (Inl e, s') \<Rightarrow> (Inl e, s')
                   | (Inr _, s') \<Rightarrow> archive_loop bytes (pe_next_offset p) s'))
      else (Inr (offset, False), s))"
  by pat_completeness auto
termination
  by (relation "measure (\<lambda>(bytes, offset, _). length bytes - offset)")
    (auto dest!: parse_entry_progress)

declare archive_loop.simps [simp del]

definition parse_archive :: "u8 list \<Rightarrow> ArchiveState \<Rightarrow> (ArchiveError + unit) \<times> ArchiveState" where
  "parse_archive bytes s =
     (case archive_loop bytes 0 s of
        (Inl e, s') \<Rightarrow> (Inl e, s')
      | (Inr (offset, trailer_found), s') \<Rightarrow>
          if \<not> trailer_found then (Inl MissingTrailer, s')
          else if list_ex (\<lambda>byte. byte \<noteq> 0) (drop offset bytes) then (Inl TrailingGarbage, s')
          else if \<not> as_init_found s' then (Inl MissingInit, s')
          else (Inr (), s'))"

definition raw_bytes :: "memory \<Rightarrow> u64 \<Rightarrow> nat \<Rightarrow> u8 list" where
  "raw_bytes mem start len = map (\<lambda>i. mem (start + of_nat i)) [0..<len]"

definition initramfs_init :: "memory \<Rightarrow> BootInfoSummary \<Rightarrow> ArchiveState" where
  "initramfs_init mem boot =
     (let s0 = ArchiveState_empty\<lparr>as_initialized := True\<rparr>;
          (result, s1) =
            (case find_module boot (ascii ''initramfs'') of
               Some m \<Rightarrow>
                 let s = s0\<lparr>as_module_found := True, as_module_start := mod_start m,
                            as_module_end := mod_end m\<rparr>
                 in if \<not> is_valid m then (Inl InvalidModule, s)
                    else if MAX_ARCHIVE_SIZE < mod_size m then (Inl ArchiveTooLarge, s)
                    else parse_archive (raw_bytes mem (mod_start m) (unat (mod_size m))) s
             | None \<Rightarrow> (Inl MissingModule, s0))
      in case result of
           Inr _ \<Rightarrow> s1\<lparr>as_valid := True\<rparr>
         | Inl e \<Rightarrow> s1\<lparr>as_last_error := Some e\<rparr>)"

definition archive_bytes :: "memory \<Rightarrow> ArchiveState \<Rightarrow> u8 list option" where
  "archive_bytes mem s =
     (if \<not> as_valid s \<or> as_module_end s \<le> as_module_start s then None
      else Some (raw_bytes mem (as_module_start s) (unat (as_module_end s - as_module_start s))))"

record File =
  file_path :: "u8 list"
  file_data :: "u8 list"
  file_mode :: u32

function find_loop :: "u8 list \<Rightarrow> u8 list \<Rightarrow> nat \<Rightarrow> File option" where
  "find_loop bytes requested offset =
     (if offset < length bytes then
        (case parse_entry bytes offset of
           Inl _ \<Rightarrow> None
         | Inr p \<Rightarrow>
             if pe_trailer p then None
             else if pe_name p = requested
             then (if utf8_valid (pe_name p)
                   then Some \<lparr>file_path = pe_name p, file_data = pe_data p, file_mode = pe_mode p\<rparr>
                   else None)
             else find_loop bytes requested (pe_next_offset p))
      else None)"
  by pat_completeness auto
termination
  by (relation "measure (\<lambda>(bytes, _, offset). length bytes - offset)")
    (auto dest!: parse_entry_progress)

declare find_loop.simps [simp del]

definition find_file :: "memory \<Rightarrow> ArchiveState \<Rightarrow> u8 list \<Rightarrow> File option" where
  "find_file mem s path =
     (case normalize_requested_path path of
        None \<Rightarrow> None
      | Some requested \<Rightarrow>
          (case archive_bytes mem s of
             None \<Rightarrow> None
           | Some bytes \<Rightarrow> find_loop bytes requested 0))"

definition initramfs_selftest :: "memory \<Rightarrow> ArchiveState \<Rightarrow> bool" where
  "initramfs_selftest mem s =
     (let sn = archive_snapshot s
      in case find_file mem s (ascii ''/bin/init'') of
           None \<Rightarrow> False
         | Some init \<Rightarrow>
             asn_initialized sn \<and> asn_module_found sn \<and> asn_valid sn \<and> asn_last_error sn = None
             \<and> 2 \<le> asn_entry_count sn \<and> 1 \<le> asn_regular_files sn \<and> 1 \<le> asn_directories sn
             \<and> asn_init_found sn \<and> asn_init_size sn = of_nat (length (file_data init))
             \<and> file_path init = ascii ''bin/init''
             \<and> file_mode init AND MODE_TYPE_MASK = MODE_REGULAR
             \<and> take 4 (file_data init) = [0x7f, 0x45, 0x4c, 0x46]
             \<and> find_file mem s (ascii ''/missing'') = None
             \<and> find_file mem s (ascii ''../bin/init'') = None)"

definition archive_error_name :: "ArchiveError \<Rightarrow> string" where
  "archive_error_name e =
     (case e of
        MissingModule \<Rightarrow> ''Multiboot2 initramfs module is missing''
      | InvalidModule \<Rightarrow> ''initramfs module range is invalid''
      | ArchiveTooLarge \<Rightarrow> ''initramfs exceeds the size limit''
      | TruncatedHeader \<Rightarrow> ''CPIO header is truncated''
      | InvalidMagic \<Rightarrow> ''CPIO newc magic is invalid''
      | InvalidHexField \<Rightarrow> ''CPIO hexadecimal field is invalid''
      | InvalidNameSize \<Rightarrow> ''CPIO name size is invalid''
      | NameTooLong \<Rightarrow> ''CPIO path exceeds the kernel limit''
      | NameMissingTerminator \<Rightarrow> ''CPIO path is not NUL terminated''
      | InvalidPath \<Rightarrow> ''CPIO path is unsafe or invalid''
      | EntryOutsideArchive \<Rightarrow> ''CPIO entry extends outside the archive''
      | ChecksumUnsupported \<Rightarrow> ''CPIO checksum field is unsupported''
      | MissingTrailer \<Rightarrow> ''CPIO trailer is missing''
      | InvalidTrailer \<Rightarrow> ''CPIO trailer contains file data''
      | TrailingGarbage \<Rightarrow> ''CPIO has non-zero data after its trailer''
      | TooManyEntries \<Rightarrow> ''CPIO contains too many entries''
      | MissingInit \<Rightarrow> ''/bin/init is missing from initramfs''
      | InitNotRegular \<Rightarrow> ''/bin/init is not a regular file'')"

end
