(* ===== verification/Mkinitramfs.thy ===== *)
theory Mkinitramfs
  imports Numerals Slices
begin

unbundle bit_operations_syntax

text \<open>
  The host tool that builds the boot archive, \<^verbatim>\<open>src/tools/mkinitramfs.rs\<close>: the CPIO writer and
  the ELF image of \<open>/bin/init\<close>. A failed assertion or an out of range write is \<open>None\<close>. Writing
  the result to a file is left out.
\<close>

definition USER_ELF_BASE_TOOL :: u64 where "USER_ELF_BASE_TOOL = 0x40100000"
definition PAGE_SIZE :: u64 where "PAGE_SIZE = 4096"
definition USER_DATA_BASE :: u64 where "USER_DATA_BASE = USER_ELF_BASE_TOOL + PAGE_SIZE"
definition ELF_HEADER_SIZE_TOOL :: nat where "ELF_HEADER_SIZE_TOOL = 64"
definition PROGRAM_HEADER_SIZE_TOOL :: nat where "PROGRAM_HEADER_SIZE_TOOL = 56"
definition PROGRAM_HEADER_COUNT :: nat where "PROGRAM_HEADER_COUNT = 2"
definition TEXT_OFFSET :: nat where "TEXT_OFFSET = 0x1000"
definition DATA_OFFSET :: nat where "DATA_OFFSET = 0x2000"
definition INIT_DATA :: "u8 list" where "INIT_DATA = ascii ''Tobacco init'' @ [0, 0, 0, 0]"
definition INIT_ELF_SIZE :: nat where "INIT_ELF_SIZE = DATA_OFFSET + length INIT_DATA"

lemmas tool_consts = USER_ELF_BASE_TOOL_def PAGE_SIZE_def USER_DATA_BASE_def ELF_HEADER_SIZE_TOOL_def
  PROGRAM_HEADER_SIZE_TOOL_def PROGRAM_HEADER_COUNT_def TEXT_OFFSET_def DATA_OFFSET_def

section \<open>The archive\<close>

text \<open>Each round of \<open>pad_to_four\<close> appends one zero byte.\<close>

function pad_to_four :: "u8 list \<Rightarrow> u8 list" where
  "pad_to_four bytes = (if length bytes mod 4 \<noteq> 0 then pad_to_four (bytes @ [0]) else bytes)"
  by pat_completeness auto
termination
  by (relation "measure (\<lambda>bytes. 4 - (length bytes + 3) mod 4)") (simp, simp, presburger)

declare pad_to_four.simps [simp del]

definition cpio_header :: "nat \<Rightarrow> nat \<Rightarrow> nat \<Rightarrow> nat \<Rightarrow> nat \<Rightarrow> u8 list" where
  "cpio_header inode mode links file_size name_size =
     ascii ''070701'' @ format_08x inode @ format_08x mode @ format_08x 0 @ format_08x 0
       @ format_08x links @ format_08x 0 @ format_08x file_size @ format_08x 0 @ format_08x 0
       @ format_08x 0 @ format_08x 0 @ format_08x name_size @ format_08x 0"

definition append_entry ::
    "u8 list \<Rightarrow> u32 \<Rightarrow> u8 list \<Rightarrow> u32 \<Rightarrow> u32 \<Rightarrow> u8 list \<Rightarrow> u8 list option" where
  "append_entry archive inode name mode links data =
     (let name_size = length name + 1;
          header = cpio_header (unat inode) (unat mode) (unat links) (length data) name_size
      in if length header \<noteq> 110 then None
         else Some (pad_to_four (pad_to_four (archive @ header @ name @ [0]) @ data)))"

definition build_initramfs :: "u8 list \<Rightarrow> u8 list option" where
  "build_initramfs init_elf =
     (case append_entry [] 1 (ascii ''bin'') 0x41ed 2 [] of
        None \<Rightarrow> None
      | Some a1 \<Rightarrow>
          (case append_entry a1 2 (ascii ''bin/init'') 0x81ed 1 init_elf of
             None \<Rightarrow> None
           | Some a2 \<Rightarrow> append_entry a2 3 (ascii ''TRAILER!!!'') 0 1 []))"

section \<open>The program\<close>

fun le_bytes :: "nat \<Rightarrow> u64 \<Rightarrow> u8 list" where
  "le_bytes 0 v = []"
| "le_bytes (Suc n) v = ucast v # le_bytes n (drop_bit 8 v)"

definition emit_mov_imm64 :: "u8 \<Rightarrow> u64 \<Rightarrow> u8 list" where
  "emit_mov_imm64 opcode v = [0x48, opcode] @ le_bytes 8 v"

definition emit_mov_rax :: "u64 \<Rightarrow> u8 list" where "emit_mov_rax v = emit_mov_imm64 0xb8 v"
definition emit_mov_rdi :: "u64 \<Rightarrow> u8 list" where "emit_mov_rdi v = emit_mov_imm64 0xbf v"
definition emit_mov_rsi :: "u64 \<Rightarrow> u8 list" where "emit_mov_rsi v = emit_mov_imm64 0xbe v"
definition emit_mov_rdx :: "u64 \<Rightarrow> u8 list" where "emit_mov_rdx v = emit_mov_imm64 0xba v"
definition emit_int80 :: "u8 list" where "emit_int80 = [0xcd, 0x80]"

definition build_init_code :: "u8 list" where
  "build_init_code =
     emit_mov_rax 1 @ emit_mov_rdi 1 @ emit_int80
     @ emit_mov_rax 4 @ emit_int80
     @ emit_mov_rax 2 @ emit_int80
     @ emit_mov_rax 7 @ emit_int80
     @ emit_mov_rax 8 @ emit_int80 @ [0x49, 0x89, 0xc4]
     @ emit_mov_rax 5 @ [0x4c, 0x89, 0xe7] @ emit_mov_rsi USER_DATA_BASE @ emit_mov_rdx 4 @ emit_int80
     @ emit_mov_rax 6 @ emit_mov_rdi (USER_DATA_BASE + 8) @ emit_mov_rsi 8 @ emit_int80
     @ emit_mov_rax 3 @ emit_mov_rdi 42 @ emit_int80 @ [0xf4, 0xeb, 0xfd]"

text \<open>A write of a byte slice into the image panics out of range.\<close>

definition write_bytes :: "u8 list \<Rightarrow> nat \<Rightarrow> u8 list \<Rightarrow> u8 list option" where
  "write_bytes destination offset bytes =
     (if offset + length bytes \<le> length destination
      then Some (take offset destination @ bytes @ drop (offset + length bytes) destination)
      else None)"

fun write_all :: "(nat \<times> u8 list) list \<Rightarrow> u8 list \<Rightarrow> u8 list option" where
  "write_all [] img = Some img"
| "write_all ((offset, bytes) # rest) img =
     (case write_bytes img offset bytes of None \<Rightarrow> None | Some img1 \<Rightarrow> write_all rest img1)"

definition init_elf_writes :: "(nat \<times> u8 list) list" where
  "init_elf_writes =
     (let code_size = of_nat (length build_init_code);
          text_header = ELF_HEADER_SIZE_TOOL;
          data_header = ELF_HEADER_SIZE_TOOL + PROGRAM_HEADER_SIZE_TOOL
      in [(0, [0x7f, 0x45, 0x4c, 0x46]), (4, [2]), (5, [1]), (6, [1]),
          (16, le_bytes 2 2), (18, le_bytes 2 62), (20, le_bytes 4 1),
          (24, le_bytes 8 USER_ELF_BASE_TOOL), (32, le_bytes 8 (of_nat ELF_HEADER_SIZE_TOOL)),
          (52, le_bytes 2 (of_nat ELF_HEADER_SIZE_TOOL)), (54, le_bytes 2 (of_nat PROGRAM_HEADER_SIZE_TOOL)),
          (56, le_bytes 2 (of_nat PROGRAM_HEADER_COUNT)),
          (text_header, le_bytes 4 1), (text_header + 4, le_bytes 4 5),
          (text_header + 8, le_bytes 8 (of_nat TEXT_OFFSET)), (text_header + 16, le_bytes 8 USER_ELF_BASE_TOOL),
          (text_header + 32, le_bytes 8 code_size), (text_header + 40, le_bytes 8 code_size),
          (text_header + 48, le_bytes 8 PAGE_SIZE),
          (data_header, le_bytes 4 1), (data_header + 4, le_bytes 4 6),
          (data_header + 8, le_bytes 8 (of_nat DATA_OFFSET)),
          (data_header + 16, le_bytes 8 (USER_ELF_BASE_TOOL + PAGE_SIZE)),
          (data_header + 32, le_bytes 8 (of_nat (length INIT_DATA))),
          (data_header + 40, le_bytes 8 PAGE_SIZE), (data_header + 48, le_bytes 8 PAGE_SIZE),
          (TEXT_OFFSET, build_init_code), (DATA_OFFSET, INIT_DATA)])"

definition build_init_elf :: "u8 list option" where
  "build_init_elf =
     (if length build_init_code \<le> unat PAGE_SIZE
      then write_all init_elf_writes (replicate INIT_ELF_SIZE 0) else None)"

end
