(* ===== verification/Initramfs_Roundtrip.thy ===== *)
theory Initramfs_Roundtrip
  imports Initramfs Mkinitramfs
begin

unbundle bit_operations_syntax

text \<open>
  The archive parser accepts only safe paths and never leaves the archive; and it reads back
  exactly what the builder wrote.
\<close>

section \<open>Paths\<close>

text \<open>The components of a path, between its slashes.\<close>

fun split_path :: "u8 list \<Rightarrow> u8 list \<Rightarrow> u8 list list" where
  "split_path acc [] = [acc]"
| "split_path acc (b # bs) = (if b = 0x2f then acc # split_path [] bs else split_path (acc @ [b]) bs)"

definition path_byte :: "u8 \<Rightarrow> bool" where
  "path_byte b \<longleftrightarrow> is_ascii_alphanumeric b \<or> b = 0x2e \<or> b = 0x5f \<or> b = 0x2d"

definition component_ok :: "u8 list \<Rightarrow> bool" where
  "component_ok c \<longleftrightarrow> c \<noteq> [] \<and> c \<noteq> ascii ''.'' \<and> c \<noteq> ascii ''..'' \<and> list_all path_byte c"

lemma split_path_head: "\<exists>c cs. split_path acc bs = (acc @ c) # cs"
proof (induction bs arbitrary: acc)
  case (Cons b bs)
  show ?case using Cons.IH [of "acc @ [b]"] by (cases "b = 0x2f") auto
qed simp

lemma slice_snoc: "a \<le> i \<Longrightarrow> i < length xs \<Longrightarrow> slice xs a (Suc i) = slice xs a i @ [xs ! i]"
  by (simp add: slice_def Suc_diff_le take_Suc_conv_app_nth)

lemma valid_path_loop_eq:
  assumes "i \<le> length path" and "k \<le> i" and "list_all path_byte (slice path k i)"
  shows "valid_path_loop path [i..<length path + 1] k \<longleftrightarrow>
    list_all component_ok (split_path (slice path k i) (drop i path))"
  using assms
proof (induction "length path - i" arbitrary: i k)
  case 0
  then have "i = length path" by simp
  with 0 show ?case by (auto simp: component_ok_def Let_def)
next
  case (Suc m)
  then have i: "i < length path" by simp
  have up: "[i..<length path + 1] = i # [Suc i..<length path + 1]" using i by (simp add: upt_conv_Cons)
  have dr: "drop i path = path ! i # drop (Suc i) path" using i by (simp add: Cons_nth_drop_Suc)
  show ?case
  proof (cases "path ! i = 0x2f")
    case True
    have "valid_path_loop path [Suc i..<length path + 1] (Suc i) \<longleftrightarrow>
        list_all component_ok (split_path [] (drop (Suc i) path))"
      using Suc.hyps(1) [of "Suc i" "Suc i"] Suc.hyps(2) i by (simp add: slice_def)
    with True i Suc.prems(3) show ?thesis
      unfolding up dr by (auto simp: Let_def component_ok_def)
  next
    case False
    note sn = slice_snoc [OF Suc.prems(2) i]
    show ?thesis
    proof (cases "path_byte (path ! i)")
      case True
      then have "valid_path_loop path [Suc i..<length path + 1] k \<longleftrightarrow>
          list_all component_ok (split_path (slice path k (Suc i)) (drop (Suc i) path))"
        using Suc.hyps(1) [of "Suc i" k] Suc.hyps(2) Suc.prems i sn by simp
      with True False i show ?thesis unfolding up dr by (auto simp: Let_def path_byte_def sn)
    next
      case bad: False
      obtain c cs where "split_path (slice path k i @ [path ! i]) (drop (Suc i) path) =
          (slice path k i @ [path ! i] @ c) # cs"
        using split_path_head [of "slice path k i @ [path ! i]" "drop (Suc i) path"] by auto
      with bad False i show ?thesis
        unfolding up dr by (simp add: Let_def path_byte_def component_ok_def)
    qed
  qed
qed

lemma split_path_last: "bs \<noteq> [] \<Longrightarrow> last bs = 0x2f \<Longrightarrow> [] \<in> set (split_path acc bs)"
  by (induction bs arbitrary: acc) (auto split: if_splits)

lemma valid_path_iff: "valid_path path \<longleftrightarrow> list_all component_ok (split_path [] path)"
proof -
  have "\<not> list_all component_ok (split_path [] path)" if "path = [] \<or> path ! 0 = 0x2f \<or> last path = 0x2f"
  proof (cases path)
    case (Cons b bs)
    show ?thesis
    proof (cases "b = 0x2f")
      case False
      with that Cons have "last path = 0x2f" by simp
      with split_path_last [of path "[]"] Cons show ?thesis by (auto simp: list_all_iff component_ok_def)
    qed (simp add: Cons component_ok_def)
  qed (simp add: component_ok_def)
  moreover have "valid_path_loop path [0..<length path + 1] 0 \<longleftrightarrow> list_all component_ok (split_path [] path)"
    using valid_path_loop_eq [of 0 path 0] by (simp add: slice_def)
  ultimately show ?thesis unfolding valid_path_def by auto
qed

lemma split_path_bytes: "b \<in> set bs \<Longrightarrow> b \<noteq> 0x2f \<Longrightarrow> \<exists>c \<in> set (split_path acc bs). b \<in> set c"
proof (induction bs arbitrary: acc)
  case (Cons x xs)
  show ?case
  proof (cases "b = x")
    case True
    with Cons.prems split_path_head [of "acc @ [x]" xs] show ?thesis by force
  qed (use Cons in auto)
qed simp

lemma valid_path_bytes:
  assumes "valid_path path" and "b \<in> set path"
  shows "path_byte b \<or> b = 0x2f"
  using assms split_path_bytes [OF assms(2), of "[]"] by (auto simp: valid_path_iff list_all_iff component_ok_def)

lemma valid_path_utf8:
  assumes "valid_path path"
  shows "utf8_valid path"
proof (rule utf8_valid_ascii, rule ballI)
  fix b assume "b \<in> set path"
  with valid_path_bytes [OF assms] have "path_byte b \<or> b = 0x2f" by blast
  moreover have "b \<le> 0x7a" if "b \<le> 0x39 \<or> b \<le> 0x5a"
    using that order_trans [of b "0x39" "0x7a"] order_trans [of b "0x5a" "0x7a"] by auto
  ultimately have "b \<le> 0x7a" by (auto simp: path_byte_def is_ascii_alphanumeric_def)
  then show "b < 0x80" by (rule le_less_trans) simp
qed

text \<open>
  What \<open>Mkinitramfs\<close> writes, \<open>Initramfs\<close> reads: an entry at a time, then whole archives.
\<close>

section \<open>Header fields\<close>

lemma hex_digit_value_digit: "d < 16 \<Longrightarrow> hex_digit_value (digit d) = Some (of_nat d)"
proof -
  assume "d < 16"
  moreover have "\<forall>d \<in> set [0..<16]. hex_digit_value (digit d) = Some (of_nat d)" by code_simp
  ultimately show ?thesis by simp
qed

lemma parse_hex_loop_pad:
  "unat v * 16 ^ k + n mod 16 ^ k < 2 ^ 32 \<Longrightarrow>
   parse_hex_loop (hex_pad k n) v = Inr (of_nat (unat v * 16 ^ k + n mod 16 ^ k))"
proof (induction k arbitrary: v)
  case 0
  then show ?case by simp
next
  case (Suc k)
  let ?d = "n div 16 ^ k mod 16"
  have split: "n mod 16 ^ Suc k = ?d * 16 ^ k + n mod 16 ^ k"
    using mod_mult2_eq [of n "16 ^ k" 16] by (simp only: power_Suc2 mult.commute [of "16 ^ k"])
  have val: "unat v * 16 ^ Suc k + n mod 16 ^ Suc k = (unat v * 16 + ?d) * 16 ^ k + n mod 16 ^ k"
    unfolding split by (simp add: algebra_simps)
  have "unat v * 16 + ?d \<le> (unat v * 16 + ?d) * 16 ^ k" by simp
  also have "\<dots> \<le> (unat v * 16 + ?d) * 16 ^ k + n mod 16 ^ k" by simp
  finally have lt: "unat v * 16 + ?d < 2 ^ 32" using Suc.prems unfolding val by (rule le_less_trans)
  have mul: "checked_mul v 16 = Some (v * 16)" using lt by (simp add: checked_mul_def)
  have um: "unat (v * 16) = unat v * 16" using lt by (simp add: unat_word_ariths)
  have ud: "unat (of_nat ?d :: u32) = ?d" by (simp add: unat_of_nat)
  have add: "checked_add (v * 16) (of_nat ?d) = Some (v * 16 + of_nat ?d)"
    using lt um ud by (simp add: checked_add_def)
  have u: "unat (v * 16 + of_nat ?d) = unat v * 16 + ?d"
    using checked_add_Some [OF add] um ud by simp
  have "parse_hex_loop (hex_pad k n) (v * 16 + of_nat ?d) =
      Inr (of_nat (unat (v * 16 + of_nat ?d) * 16 ^ k + n mod 16 ^ k))"
    using Suc.prems val u by (intro Suc.IH) simp
  then show ?case unfolding val u [symmetric]
    by (simp add: hex_digit_value_digit mul add)
qed

lemma parse_hex_format: "n < 2 ^ 32 \<Longrightarrow> parse_hex_u32 (format_08x n) = Inr (of_nat n)"
  using parse_hex_loop_pad [of 0 8 n] by (simp add: format_08x_eq parse_hex_u32_def)

lemma length_format_08x: "n < 2 ^ 32 \<Longrightarrow> length (format_08x n) = 8"
  by (simp add: format_08x_eq)

lemma header_fields:
  fixes inode mode links fs ns :: nat
  assumes "inode < 2 ^ 32" "mode < 2 ^ 32" "links < 2 ^ 32" "fs < 2 ^ 32" "ns < 2 ^ 32"
  defines "h \<equiv> cpio_header inode mode links fs ns"
  shows "length h = 110" "slice h 0 6 = CPIO_NEWC_MAGIC" "check_fields h field_offsets = Inr ()"
    "slice h 14 22 = format_08x mode" "slice h 54 62 = format_08x fs"
    "slice h 94 102 = format_08x ns" "slice h 102 110 = format_08x 0"
proof -
  note len = assms(1-5) [THEN length_format_08x] length_format_08x [of 0, simplified]
  have magic: "length (ascii ''070701'') = 6" by (simp add: ascii_def)
  show "length h = 110" "slice h 0 6 = CPIO_NEWC_MAGIC"
    "slice h 14 22 = format_08x mode" "slice h 54 62 = format_08x fs"
    "slice h 94 102 = format_08x ns" "slice h 102 110 = format_08x 0"
    by (simp_all add: h_def cpio_header_def slice_def len magic CPIO_NEWC_MAGIC_def)
  show "check_fields h field_offsets = Inr ()"
    by (simp add: h_def cpio_header_def slice_def len magic field_offsets_def
        assms(1-5) [THEN parse_hex_format] parse_hex_format [of 0, simplified])
qed

section \<open>One entry\<close>

definition pad :: "nat \<Rightarrow> u8 list" where
  "pad n = replicate ((4 - n mod 4) mod 4) 0"

lemma mod_4_cases: "n mod 4 = 0 \<or> n mod 4 = 1 \<or> n mod 4 = 2 \<or> n mod 4 = (3 :: nat)"
  by presburger

lemma length_pad_cases:
  "n mod 4 = 0 \<Longrightarrow> pad n = []" "n mod 4 = 1 \<Longrightarrow> pad n = [0, 0, 0]" "n mod 4 = 2 \<Longrightarrow> pad n = [0, 0]"
  "n mod 4 = 3 \<Longrightarrow> pad n = [0]"
proof -
  have "replicate 3 (0 :: u8) = [0, 0, 0]" "replicate 2 (0 :: u8) = [0, 0]" by code_simp+
  then show "n mod 4 = 0 \<Longrightarrow> pad n = []" "n mod 4 = 1 \<Longrightarrow> pad n = [0, 0, 0]" "n mod 4 = 2 \<Longrightarrow> pad n = [0, 0]"
    "n mod 4 = 3 \<Longrightarrow> pad n = [0]"
    by (simp_all add: pad_def)
qed

lemma pad_Suc: "n mod 4 \<noteq> 0 \<Longrightarrow> pad n = 0 # pad (Suc n)"
  using mod_4_cases [of n] by (auto simp: length_pad_cases mod_Suc)

lemma pad_to_four_eq: "pad_to_four bs = bs @ pad (length bs)"
proof (induction bs rule: pad_to_four.induct)
  case (1 bs)
  show ?case
  proof (cases "length bs mod 4 = 0")
    case True
    then show ?thesis by (subst pad_to_four.simps) (simp add: length_pad_cases)
  next
    case False
    with 1 pad_Suc [OF False] show ?thesis by (subst pad_to_four.simps) simp
  qed
qed

lemma pad_aligned: "n + length (pad n) = (n + 3) div 4 * 4"
  using mod_4_cases [of n] by (elim disjE) (simp only: length_pad_cases, simp, presburger)+

lemma length_pad: "4 dvd n + length (pad n)" "length (pad n) < 4"
  by (simp add: pad_aligned) (use mod_4_cases [of n] in \<open>auto simp: length_pad_cases\<close>)

lemma pad_cong: "4 dvd n \<Longrightarrow> pad (n + m) = pad m"
  unfolding pad_def by (metis mod_add_self1 mod_add_left_eq add_0 dvd_imp_mod_0)

definition entry_bytes :: "u32 \<Rightarrow> u8 list \<Rightarrow> u32 \<Rightarrow> u32 \<Rightarrow> u8 list \<Rightarrow> u8 list" where
  "entry_bytes inode name mode links data =
     cpio_header (unat inode) (unat mode) (unat links) (length data) (length name + 1)
     @ name @ [0] @ pad (111 + length name) @ data @ pad (length data)"

lemma unat_u32: "unat (w :: u32) < 2 ^ 32"
  using unsigned_less [of w] by simp

lemma append_entry_eq:
  assumes "4 dvd length a" and "length name < 2 ^ 32 - 1" and "length data < 2 ^ 32"
  shows "append_entry a inode name mode links data = Some (a @ entry_bytes inode name mode links data)"
    and "4 dvd length (entry_bytes inode name mode links data)"
proof -
  let ?h = "cpio_header (unat inode) (unat mode) (unat links) (length data) (length name + 1)"
  have h: "length ?h = 110" using assms(2,3) by (intro header_fields(1) unat_u32) simp_all
  have p1: "pad (length a + (110 + (length name + 1))) = pad (111 + length name)"
    using pad_cong [OF assms(1), of "111 + length name"] by (simp add: add.commute add.left_commute)
  have d: "4 dvd length a + (111 + length name + length (pad (111 + length name)))"
    by (rule dvd_add [OF assms(1) length_pad(1) [of "111 + length name"]])
  have p2: "pad (length a + (111 + length name + length (pad (111 + length name))) + length data) = pad (length data)"
    using pad_cong [OF d] .
  show "append_entry a inode name mode links data = Some (a @ entry_bytes inode name mode links data)"
    using p1 p2 h by (simp add: append_entry_def Let_def pad_to_four_eq entry_bytes_def ac_simps)
  have "length (entry_bytes inode name mode links data) =
      (111 + length name + length (pad (111 + length name))) + (length data + length (pad (length data)))"
    using h by (simp add: entry_bytes_def)
  then show "4 dvd length (entry_bytes inode name mode links data)" using length_pad(1) by simp
qed

lemma length_entry_bytes_eq:
  assumes "length name < 2 ^ 32 - 1" and "length data < 2 ^ 32"
  shows "length (entry_bytes inode name mode links data) =
    111 + length name + length (pad (111 + length name)) + length data + length (pad (length data))"
proof -
  have "length (cpio_header (unat inode) (unat mode) (unat links) (length data) (length name + 1)) = 110"
    using assms by (intro header_fields(1) unat_u32) simp_all
  then show ?thesis by (simp add: entry_bytes_def)
qed

lemma length_entry_bytes:
  assumes "length name < 2 ^ 32 - 1" and "length data < 2 ^ 32"
  shows "length (entry_bytes inode name mode links data) < 118 + length name + length data"
  using length_entry_bytes_eq [OF assms, of inode mode links] length_pad(2) [of "111 + length name"]
    length_pad(2) [of "length data"] by simp

definition parsed_of :: "u8 list \<Rightarrow> u32 \<Rightarrow> u8 list \<Rightarrow> nat \<Rightarrow> ParsedEntry" where
  "parsed_of name mode data next_offset = \<lparr>pe_name = name, pe_data = data, pe_mode = mode,
     pe_next_offset = next_offset, pe_trailer = (name = CPIO_TRAILER)\<rparr>"

lemma archive_align_up_pad: "n < 2 ^ 64 - 3 \<Longrightarrow> archive_align_up n 4 = Some (n + length (pad n))"
  unfolding pad_aligned by (simp add: archive_align_up_def usize_add_def)

lemma parse_entry_at:
  fixes inode mode links :: u32
  assumes "4 dvd length pre" and "length name \<le> MAX_PATH_LEN" and "length data < 2 ^ 32"
    and "name = CPIO_TRAILER \<and> data = [] \<or> name \<noteq> CPIO_TRAILER \<and> valid_path name"
  defines "e \<equiv> entry_bytes inode name mode links data"
  assumes "length (pre @ e @ post) < 2 ^ 63"
  shows "parse_entry (pre @ e @ post) (length pre) = Inr (parsed_of name mode data (length pre + length e))"
proof -
  define h bs p1 p2 where "h = cpio_header (unat inode) (unat mode) (unat links) (length data) (length name + 1)"
    and "bs = pre @ e @ post" and "p1 = pad (111 + length name)" and "p2 = pad (length data)"
  define he where "he = length pre + 110"
  define ne where "ne = he + (length name + 1)"
  define ds where "ds = ne + length p1"
  define de where "de = ds + length data"
  have ns: "length name + 1 < 2 ^ 32" using assms(2) by (simp add: MAX_PATH_LEN_def)
  note hf = header_fields [OF unat_u32 [of inode] unat_u32 [of mode] unat_u32 [of links] assms(3) ns, folded h_def]
  have bs: "bs = pre @ h @ name @ [0] @ p1 @ data @ p2 @ post"
    by (simp add: bs_def e_def entry_bytes_def h_def p1_def p2_def)
  have total: "length pre + length e = de + length p2"
    using hf(1) by (simp add: e_def entry_bytes_def de_def ds_def ne_def he_def p1_def p2_def h_def)
  have fits: "de + length p2 \<le> length bs" "de + length p2 < 2 ^ 63" using assms(6) total by (simp_all add: bs_def)
  have g1: "get_slice bs (length pre) he = Some h"
    unfolding bs using hf(1) by (intro get_slice_append3) (simp_all add: he_def)
  have g2: "get_slice bs he ne = Some (name @ [0])"
    using get_slice_append3 [of "pre @ h" he ne "name @ [0]" "p1 @ data @ p2 @ post"] hf(1)
    unfolding bs by (simp add: he_def ne_def)
  have g3: "get_slice bs ds de = Some data"
    using get_slice_append3 [of "pre @ h @ name @ [0] @ p1" ds de data "p2 @ post"] hf(1)
    unfolding bs by (simp add: he_def ne_def ds_def de_def)
  have "ne = length pre + (111 + length name)" by (simp add: ne_def he_def)
  then have "pad ne = p1" using pad_cong [OF assms(1), of "111 + length name"] by (simp add: p1_def)
  moreover have "4 dvd ds"
    using dvd_add [OF assms(1) length_pad(1) [of "111 + length name"]]
    by (simp add: ds_def ne_def he_def p1_def ac_simps)
  then have "pad de = p2" unfolding de_def p2_def by (rule pad_cong)
  ultimately have al: "archive_align_up ne 4 = Some ds" "archive_align_up de 4 = Some (de + length p2)"
    using archive_align_up_pad [of ne] archive_align_up_pad [of de] fits(2)
    by (simp_all add: ds_def de_def)
  have us: "usize_add (length pre) CPIO_HEADER_SIZE = Some he" "usize_add he (length name + 1) = Some ne"
    "usize_add ds (length data) = Some de"
    using fits(2) by (simp_all add: usize_add_def CPIO_HEADER_SIZE_def he_def ne_def ds_def de_def)
  have "slice (name @ [0]) 0 (length name + 1 - 1) = name" by (simp add: slice_def)
  then have body: "parse_entry_body bs he mode (length data) (length name + 1) =
      Inr (parsed_of name mode data (de + length p2))"
    unfolding parse_entry_body_def us(2) ok_or_def bind_def option.case sum.case g2 al us(3) g3 Let_def
    using assms(4) fits(1) by (auto simp: parsed_of_def)
  have un: "unat (of_nat (length name + 1) :: u32) = length name + 1"
    "unat (of_nat (length data) :: u32) = length data"
    using ns assms(3) by (simp_all add: unat_of_nat del: of_nat_add of_nat_Suc)
  then have nz: "(of_nat (length name + 1) :: u32) \<noteq> 0" by (metis unat_0 add_is_0 one_neq_zero)
  have hx: "parse_hex_u32 (format_08x (unat mode)) = Inr mode"
    "parse_hex_u32 (format_08x (length data)) = Inr (of_nat (length data))"
    "parse_hex_u32 (format_08x (length name + 1)) = Inr (of_nat (length name + 1))"
    "parse_hex_u32 (format_08x 0) = Inr 0"
    using parse_hex_format [OF unat_u32 [of mode]] parse_hex_format [OF assms(3)] parse_hex_format [OF ns]
      parse_hex_format [of 0] by simp_all
  show ?thesis
    unfolding parse_entry_def bs_def [symmetric] us(1) total ok_or_def bind_def option.case sum.case g1 hf hx un body
    using nz assms(2) by simp
qed

section \<open>Whole archives\<close>

text \<open>A member of an archive: inode, name, mode, links and data.\<close>

type_synonym member = "u32 \<times> u8 list \<times> u32 \<times> u32 \<times> u8 list"

definition member_bytes :: "member \<Rightarrow> u8 list" where
  "member_bytes m = (case m of (inode, name, mode, links, data) \<Rightarrow> entry_bytes inode name mode links data)"

definition member_name :: "member \<Rightarrow> u8 list" where
  "member_name m = fst (snd m)"

definition member_mode :: "member \<Rightarrow> u32" where
  "member_mode m = fst (snd (snd m))"

definition member_data :: "member \<Rightarrow> u8 list" where
  "member_data m = snd (snd (snd (snd m)))"

definition member_ok :: "member \<Rightarrow> bool" where
  "member_ok m \<longleftrightarrow> valid_path (member_name m) \<and> length (member_name m) \<le> MAX_PATH_LEN
     \<and> length (member_data m) < 2 ^ 32"

definition trailer_bytes :: "u32 \<Rightarrow> u32 \<Rightarrow> u8 list" where
  "trailer_bytes inode links = entry_bytes inode CPIO_TRAILER 0 links []"

definition archive_of :: "member list \<Rightarrow> u8 list \<Rightarrow> u8 list" where
  "archive_of ms tail = concat (map member_bytes ms) @ tail"

definition parsed_member :: "member \<Rightarrow> nat \<Rightarrow> ParsedEntry" where
  "parsed_member m next_offset = \<lparr>pe_name = member_name m, pe_data = member_data m,
     pe_mode = member_mode m, pe_next_offset = next_offset, pe_trailer = False\<rparr>"

lemma trailer_not_path: "\<not> valid_path CPIO_TRAILER"
  by code_simp

lemma trailer_length: "length CPIO_TRAILER \<le> MAX_PATH_LEN"
  by code_simp

lemma member_bytes_dvd: "member_ok m \<Longrightarrow> 4 dvd length (member_bytes m)"
  using append_entry_eq(2) [of "[]" "member_name m" "member_data m"]
  by (cases m) (simp add: member_bytes_def member_ok_def member_name_def member_data_def MAX_PATH_LEN_def)

lemma parse_member_at:
  assumes "4 dvd length pre" and "member_ok m" and "length (pre @ member_bytes m @ post) < 2 ^ 63"
  shows "parse_entry (pre @ member_bytes m @ post) (length pre) =
    Inr (parsed_member m (length pre + length (member_bytes m)))"
proof -
  obtain inode name mode links data where m: "m = (inode, name, mode, links, data)" by (cases m)
  have "name \<noteq> CPIO_TRAILER" using assms(2) trailer_not_path by (auto simp: m member_ok_def member_name_def)
  with parse_entry_at [OF assms(1), of name data inode mode links post] assms(2,3) show ?thesis
    by (simp add: m member_ok_def member_name_def member_data_def member_mode_def member_bytes_def
        parsed_of_def parsed_member_def)
qed

lemma parse_trailer_at:
  assumes "4 dvd length pre" and "length (pre @ trailer_bytes inode links @ post) < 2 ^ 63"
  shows "parse_entry (pre @ trailer_bytes inode links @ post) (length pre) =
    Inr (parsed_of CPIO_TRAILER 0 [] (length pre + length (trailer_bytes inode links)))"
  using parse_entry_at [OF assms(1) trailer_length, of "[]" inode 0 links post] assms(2)
  by (simp add: trailer_bytes_def)

text \<open>The loop over an archive records its members one after the other.\<close>

fun record_all :: "member list \<Rightarrow> ArchiveState \<Rightarrow> (ArchiveError + unit) \<times> ArchiveState" where
  "record_all [] s = (Inr (), s)"
| "record_all (m # ms) s =
     (case record_entry (parsed_member m 0) s of
        (Inl e, s') \<Rightarrow> (Inl e, s')
      | (Inr _, s') \<Rightarrow> record_all ms s')"

lemma record_entry_offset: "record_entry (parsed_member m k) s = record_entry (parsed_member m 0) s"
  unfolding record_entry_def parsed_member_def ParsedEntry.select_convs ..

lemma archive_loop_members:
  assumes "4 dvd length pre" and "list_all member_ok ms"
    and "length (pre @ concat (map member_bytes ms) @ trailer_bytes inode links) < 2 ^ 63"
  shows "archive_loop (pre @ concat (map member_bytes ms) @ trailer_bytes inode links) (length pre) s =
    (case record_all ms s of
       (Inl e, s') \<Rightarrow> (Inl e, s')
     | (Inr _, s') \<Rightarrow> (Inr (length (pre @ concat (map member_bytes ms) @ trailer_bytes inode links), True), s'))"
  using assms
proof (induction ms arbitrary: pre s)
  case Nil
  have ne: "0 < length (trailer_bytes inode links)" by (simp add: trailer_bytes_def entry_bytes_def)
  with parse_trailer_at [OF Nil.prems(1), of inode links "[]"] Nil.prems(3) show ?case
    by (subst archive_loop.simps) (simp add: parsed_of_def)
next
  case (Cons m ms)
  let ?post = "concat (map member_bytes ms) @ trailer_bytes inode links"
  have m: "member_ok m" "list_all member_ok ms" using Cons.prems(2) by simp_all
  have p: "parse_entry (pre @ member_bytes m @ ?post) (length pre) =
      Inr (parsed_member m (length (pre @ member_bytes m)))"
    using parse_member_at [OF Cons.prems(1) m(1), of ?post] Cons.prems(3) by simp
  have lt: "length pre < length (pre @ member_bytes m @ ?post)"
    by (cases m) (simp add: member_bytes_def entry_bytes_def)
  have d: "4 dvd length (pre @ member_bytes m)" using Cons.prems(1) member_bytes_dvd [OF m(1)] by simp
  have b: "length ((pre @ member_bytes m) @ ?post) < 2 ^ 63" using Cons.prems(3) by simp
  have IH: "archive_loop (pre @ member_bytes m @ ?post) (length (pre @ member_bytes m)) t =
      (case record_all ms t of (Inl e, s') \<Rightarrow> (Inl e, s')
       | (Inr _, s') \<Rightarrow> (Inr (length (pre @ member_bytes m @ ?post), True), s'))" for t
    using Cons.IH [OF d m(2) b, of t] unfolding append_assoc .
  have tr: "pe_trailer (parsed_member m k) = False" "pe_next_offset (parsed_member m k) = k" for k
    by (simp_all add: parsed_member_def)
  have step: "archive_loop (pre @ member_bytes m @ ?post) (length pre) s =
      (case record_entry (parsed_member m 0) s of
         (Inl e, s') \<Rightarrow> (Inl e, s')
       | (Inr _, s') \<Rightarrow> archive_loop (pre @ member_bytes m @ ?post) (length (pre @ member_bytes m)) s')"
    unfolding archive_loop.simps [of _ "length pre"] p sum.case tr
      record_entry_offset [of m "length (pre @ member_bytes m)"]
    using lt by simp
  show ?case
    using step IH by (simp split: prod.splits sum.splits)
qed

lemma find_loop_members:
  assumes "4 dvd length pre" and "list_all member_ok ms"
    and "length (pre @ concat (map member_bytes ms) @ trailer_bytes inode links) < 2 ^ 63"
  shows "find_loop (pre @ concat (map member_bytes ms) @ trailer_bytes inode links) path (length pre) =
    map_option (\<lambda>m. \<lparr>file_path = path, file_data = member_data m, file_mode = member_mode m\<rparr>)
      (List.find (\<lambda>m. member_name m = path) ms)"
  using assms
proof (induction ms arbitrary: pre)
  case Nil
  have ne: "0 < length (trailer_bytes inode links)" by (simp add: trailer_bytes_def entry_bytes_def)
  with parse_trailer_at [OF Nil.prems(1), of inode links "[]"] Nil.prems(3) show ?case
    by (subst find_loop.simps) (simp add: parsed_of_def)
next
  case (Cons m ms)
  let ?post = "concat (map member_bytes ms) @ trailer_bytes inode links"
  have m: "member_ok m" "list_all member_ok ms" using Cons.prems(2) by simp_all
  have p: "parse_entry (pre @ member_bytes m @ ?post) (length pre) =
      Inr (parsed_member m (length (pre @ member_bytes m)))"
    using parse_member_at [OF Cons.prems(1) m(1), of ?post] Cons.prems(3) by simp
  have lt: "length pre < length (pre @ member_bytes m @ ?post)"
    by (cases m) (simp add: member_bytes_def entry_bytes_def)
  have d: "4 dvd length (pre @ member_bytes m)" using Cons.prems(1) member_bytes_dvd [OF m(1)] by simp
  have IH: "find_loop (pre @ member_bytes m @ ?post) path (length (pre @ member_bytes m)) =
      map_option (\<lambda>m. \<lparr>file_path = path, file_data = member_data m, file_mode = member_mode m\<rparr>)
        (List.find (\<lambda>m. member_name m = path) ms)"
    using Cons.IH [OF d m(2)] Cons.prems(3) by simp
  have "utf8_valid (member_name m)" using m(1) by (simp add: member_ok_def valid_path_utf8)
  with lt IH show ?case
    by (subst find_loop.simps, cases "member_name m = path") (simp_all add: p parsed_member_def)
qed

end
