(* ===== verification/Initramfs_Archive.thy ===== *)
theory Initramfs_Archive
  imports Initramfs_Roundtrip
begin

unbundle bit_operations_syntax

text \<open>
  The claims about the boot archive: lookups are confined to the archive, archives that the
  builder writes are read back member by member, and the archive of the build is accepted.
\<close>

section \<open>Recording members\<close>

definition info_of :: "member \<Rightarrow> EntryInfo" where
  "info_of m = \<lparr>ei_path = \<lparr>pf_bytes = member_name m @ replicate (MAX_PATH_LEN - length (member_name m)) 0,
       pf_len = length (member_name m)\<rparr>, ei_size = of_nat (length (member_data m)),
     ei_mode = member_mode m, ei_regular = (member_mode m AND MODE_TYPE_MASK = MODE_REGULAR),
     ei_directory = (member_mode m AND MODE_TYPE_MASK = MODE_DIRECTORY)\<rparr>"

definition init_regular :: "member \<Rightarrow> bool" where
  "init_regular m \<longleftrightarrow> (member_name m = INIT_PATH \<longrightarrow> member_mode m AND MODE_TYPE_MASK = MODE_REGULAR)"

lemma from_bytes_ok:
  "valid_path name \<Longrightarrow> length name \<le> MAX_PATH_LEN \<Longrightarrow>
   from_bytes name = Inr \<lparr>pf_bytes = name @ replicate (MAX_PATH_LEN - length name) 0, pf_len = length name\<rparr>"
  by (auto simp: from_bytes_def PathField_empty_def valid_path_def)

lemma record_entry_ok:
  assumes "member_ok m" and "init_regular m" and "as_entry_count s < MAX_ENTRIES"
  obtains s' where "record_entry (parsed_member m 0) s = (Inr (), s')"
    "as_entries s' = (as_entries s)[as_entry_count s := info_of m]"
    "as_entry_count s' = as_entry_count s + 1"
    "as_init_found s' = (as_init_found s \<or> member_name m = INIT_PATH)"
    "as_module_start s' = as_module_start s" "as_module_end s' = as_module_end s"
    "as_last_error s' = as_last_error s"
proof -
  have p: "from_bytes (pe_name (parsed_member m 0)) = Inr (ei_path (info_of m))"
    using assms(1) by (simp add: parsed_member_def info_of_def member_ok_def from_bytes_ok)
  have n: "\<not> (pe_name (parsed_member m 0) = INIT_PATH \<and>
      pe_mode (parsed_member m 0) AND MODE_TYPE_MASK \<noteq> MODE_REGULAR)"
    using assms(2) by (simp add: parsed_member_def init_regular_def)
  show thesis
    by (rule that [of "snd (record_entry (parsed_member m 0) s)"])
      (use assms(3) p n in \<open>auto simp: record_entry_def Let_def parsed_member_def info_of_def\<close>)
qed

lemma record_all_ok:
  assumes "list_all member_ok ms" and "list_all init_regular ms"
    and "as_entry_count s + length ms \<le> MAX_ENTRIES" and "length (as_entries s) = MAX_ENTRIES"
  shows "\<exists>s'. record_all ms s = (Inr (), s') \<and> as_entry_count s' = as_entry_count s + length ms
    \<and> (\<forall>i < length ms. as_entries s' ! (as_entry_count s + i) = info_of (ms ! i))
    \<and> (\<forall>i < as_entry_count s. as_entries s' ! i = as_entries s ! i)
    \<and> as_init_found s' = (as_init_found s \<or> (\<exists>m \<in> set ms. member_name m = INIT_PATH))"
  using assms
proof (induction ms arbitrary: s)
  case (Cons m ms)
  then have m: "member_ok m" "init_regular m" "as_entry_count s < MAX_ENTRIES" by simp_all
  obtain s1 where s1: "record_entry (parsed_member m 0) s = (Inr (), s1)"
    "as_entries s1 = (as_entries s)[as_entry_count s := info_of m]"
    "as_entry_count s1 = as_entry_count s + 1"
    "as_init_found s1 = (as_init_found s \<or> member_name m = INIT_PATH)"
    using record_entry_ok [OF m] by metis
  obtain s2 where s2: "record_all ms s1 = (Inr (), s2)"
    "as_entry_count s2 = as_entry_count s1 + length ms"
    "\<forall>i < length ms. as_entries s2 ! (as_entry_count s1 + i) = info_of (ms ! i)"
    "\<forall>i < as_entry_count s1. as_entries s2 ! i = as_entries s1 ! i"
    "as_init_found s2 = (as_init_found s1 \<or> (\<exists>m \<in> set ms. member_name m = INIT_PATH))"
    using Cons.IH [of s1] Cons.prems s1 by auto
  have "as_entries s2 ! (as_entry_count s + i) = info_of ((m # ms) ! i)" if "i < Suc (length ms)" for i
  proof (cases i)
    case 0
    then show ?thesis using s2(4) s1(2,3) Cons.prems(4) m(3) by simp
  next
    case (Suc j)
    then show ?thesis using s2(3) s1(3) that by (metis Suc_less_eq add_Suc_right add_Suc_shift nth_Cons_Suc plus_1_eq_Suc add.commute)
  qed
  moreover have "\<forall>i < as_entry_count s. as_entries s2 ! i = as_entries s ! i"
    using s2(4) s1(2,3) by simp
  ultimately show ?case using s1 s2 by (intro exI [of _ s2]) auto
qed simp

text \<open>The calls of \<open>append_entry\<close> for a list of members, one after the other.\<close>

fun append_members :: "u8 list \<Rightarrow> member list \<Rightarrow> u8 list option" where
  "append_members a [] = Some a"
| "append_members a ((inode, name, mode, links, data) # ms) =
     (case append_entry a inode name mode links data of None \<Rightarrow> None | Some a1 \<Rightarrow> append_members a1 ms)"

lemma append_members_eq:
  "4 dvd length a \<Longrightarrow> list_all member_ok ms \<Longrightarrow>
   append_members a ms = Some (a @ concat (map member_bytes ms)) \<and> 4 dvd length (concat (map member_bytes ms))"
proof (induction ms arbitrary: a)
  case (Cons m ms)
  obtain inode name mode links data where m: "m = (inode, name, mode, links, data)" by (cases m)
  have ok: "length name < 2 ^ 32 - 1" "length data < 2 ^ 32" "4 dvd length (member_bytes m)"
    using Cons.prems(2) member_bytes_dvd [of m]
    by (simp_all add: m member_ok_def member_name_def member_data_def MAX_PATH_LEN_def)
  note a = append_entry_eq(1) [OF Cons.prems(1) ok(1,2), of inode mode links]
  have "4 dvd length (a @ member_bytes m)" using Cons.prems(1) ok(3) by simp
  from Cons.IH [OF this] Cons.prems(2) a ok(3) show ?case
    by (simp add: m member_bytes_def)
qed simp

section \<open>Claims\<close>

text \<open>
  C28. The archive is read back exactly: when the builder appends any list of at most 32
  members with safe names, among them a regular \<open>bin/init\<close>, and the trailer, the kernel
  accepts the archive, its table lists the members in order with their names, sizes and
  modes, and looking up any path returns the data and mode of the first member of that name,
  and nothing for other paths.
\<close>

theorem archive_roundtrip:
  assumes "list_all member_ok ms" and "list_all init_regular ms" and "length ms \<le> MAX_ENTRIES"
    and "\<exists>m \<in> set ms. member_name m = INIT_PATH"
    and "append_members [] ms = Some a" and "append_entry a inode CPIO_TRAILER 0 links [] = Some bytes"
    and "length bytes < 2 ^ 63"
  shows "(\<exists>s. parse_archive bytes ArchiveState_empty = (Inr (), s) \<and> as_entry_count s = length ms
      \<and> (\<forall>i < length ms. archive_entry s i = Some (info_of (ms ! i))
           \<and> path_as_str (ei_path (info_of (ms ! i))) = member_name (ms ! i)))
    \<and> (\<forall>path. find_loop bytes path 0 =
         map_option (\<lambda>m. \<lparr>file_path = path, file_data = member_data m, file_mode = member_mode m\<rparr>)
           (List.find (\<lambda>m. member_name m = path) ms))"
proof -
  have a: "a = concat (map member_bytes ms)" "4 dvd length a"
    using append_members_eq [of "[]" ms] assms(1,5) by auto
  have bytes: "bytes = concat (map member_bytes ms) @ trailer_bytes inode links"
    using append_entry_eq(1) [OF a(2), of CPIO_TRAILER "[]" inode 0 links] assms(6) trailer_length a(1)
    by (simp add: trailer_bytes_def MAX_PATH_LEN_def)
  obtain s where s: "record_all ms ArchiveState_empty = (Inr (), s)" "as_entry_count s = length ms"
    "\<forall>i < length ms. as_entries s ! i = info_of (ms ! i)" "as_init_found s"
    using record_all_ok [OF assms(1,2), of ArchiveState_empty] assms(3,4)
    by (auto simp: ArchiveState_empty_def)
  have loop: "archive_loop bytes 0 ArchiveState_empty = (Inr (length bytes, True), s)"
    using archive_loop_members [of "[]" ms inode links ArchiveState_empty] assms(1,7) s(1)
    by (simp add: bytes)
  have "parse_archive bytes ArchiveState_empty = (Inr (), s)" using s(4) by (simp add: parse_archive_def loop)
  moreover have "path_as_str (ei_path (info_of m)) = member_name m" if "member_ok m" for m
    using that valid_path_utf8 by (simp add: path_as_str_def info_of_def member_ok_def Let_def)
  ultimately have "\<exists>s. parse_archive bytes ArchiveState_empty = (Inr (), s) \<and> as_entry_count s = length ms
      \<and> (\<forall>i < length ms. archive_entry s i = Some (info_of (ms ! i))
           \<and> path_as_str (ei_path (info_of (ms ! i))) = member_name (ms ! i))"
    using s(2,3) assms(1) by (intro exI [of _ s]) (auto simp: archive_entry_def list_all_length)
  moreover have "find_loop bytes path 0 =
      map_option (\<lambda>m. \<lparr>file_path = path, file_data = member_data m, file_mode = member_mode m\<rparr>)
        (List.find (\<lambda>m. member_name m = path) ms)" for path
    using find_loop_members [of "[]" ms inode links path] assms(1,7) by (simp add: bytes)
  ultimately show ?thesis by blast
qed

definition sample_members :: "member list" where
  "sample_members = [(1, ascii ''bin'', 0x41ed, 2, []), (2, INIT_PATH, 0x81ed, 1, [0x7f, 0x45])]"

lemma sample_members_ok:
  "list_all member_ok sample_members" "list_all init_regular sample_members"
  "length sample_members \<le> MAX_ENTRIES" "\<exists>m \<in> set sample_members. member_name m = INIT_PATH"
proof -
  have "\<forall>m \<in> set sample_members. valid_path (member_name m) \<and> length (member_name m) \<le> MAX_PATH_LEN
      \<and> length (member_data m) \<le> 2" by code_simp
  then show "list_all member_ok sample_members" by (fastforce simp: list_all_iff member_ok_def)
  show "list_all init_regular sample_members" "length sample_members \<le> MAX_ENTRIES"
    "\<exists>m \<in> set sample_members. member_name m = INIT_PATH" by code_simp+
qed

theorem archive_roundtrip_witness:
  "\<exists>a bytes. append_members [] sample_members = Some a \<and> append_entry a 3 CPIO_TRAILER 0 1 [] = Some bytes
     \<and> (\<exists>s. parse_archive bytes ArchiveState_empty = (Inr (), s) \<and> as_entry_count s = 2)
     \<and> find_loop bytes INIT_PATH 0 = Some \<lparr>file_path = INIT_PATH, file_data = [0x7f, 0x45], file_mode = 0x81ed\<rparr>
     \<and> find_loop bytes (ascii ''etc'') 0 = None"
proof -
  define a bytes where "a = concat (map member_bytes sample_members)" and "bytes = a @ trailer_bytes 3 1"
  have ab: "append_members [] sample_members = Some a" "append_entry a 3 CPIO_TRAILER 0 1 [] = Some bytes"
    using append_members_eq [of "[]" sample_members] sample_members_ok(1) trailer_length
      append_entry_eq(1) [of a CPIO_TRAILER "[]" 3 0 1]
    by (simp_all add: a_def bytes_def trailer_bytes_def MAX_PATH_LEN_def)
  have "length (member_bytes m) < 200" if "m \<in> set sample_members" for m
    using that length_entry_bytes [of "ascii ''bin''" "[]" 1 "0x41ed" 2]
      length_entry_bytes [of INIT_PATH "[0x7f, 0x45]" 2 "0x81ed" 1]
    by (auto simp: sample_members_def member_bytes_def INIT_PATH_def ascii_def)
  from this [of "(1, ascii ''bin'', 0x41ed, 2, [])"] this [of "(2, INIT_PATH, 0x81ed, 1, [0x7f, 0x45])"]
  have "length a < 400" by (simp add: a_def sample_members_def)
  moreover have "length (trailer_bytes 3 1) < 200"
    using length_entry_bytes [of CPIO_TRAILER "[]" 3 0 1] by (simp add: trailer_bytes_def CPIO_TRAILER_def ascii_def)
  ultimately have "length bytes < 2 ^ 63" by (simp add: bytes_def)
  note r = archive_roundtrip [OF sample_members_ok ab(1,2) this]
  have m: "List.find (\<lambda>m. member_name m = INIT_PATH) sample_members = Some (sample_members ! 1)"
    "List.find (\<lambda>m. member_name m = ascii ''etc'') sample_members = None"
    "member_data (sample_members ! 1) = [0x7f, 0x45]" "member_mode (sample_members ! 1) = 0x81ed"
    "length sample_members = 2" by code_simp+
  have "\<exists>s. parse_archive bytes ArchiveState_empty = (Inr (), s) \<and> as_entry_count s = 2"
    using r [THEN conjunct1] unfolding m(5) by blast
  moreover have "find_loop bytes INIT_PATH 0 =
      Some \<lparr>file_path = INIT_PATH, file_data = [0x7f, 0x45], file_mode = 0x81ed\<rparr>"
    using r [THEN conjunct2, rule_format, of INIT_PATH] unfolding m(1) option.map m(3,4) .
  moreover have "find_loop bytes (ascii ''etc'') 0 = None"
    using r [THEN conjunct2, rule_format, of "ascii ''etc''"] unfolding m(2) option.map .
  ultimately show ?thesis using ab(1,2) by blast
qed

lemma find_loop_confined:
  "find_loop bytes requested offset = Some f \<Longrightarrow> file_path f = requested
     \<and> (\<exists>a b. a \<le> b \<and> b \<le> length bytes \<and> file_data f = slice bytes a b)"
proof (induction bytes requested offset rule: find_loop.induct)
  case (1 bytes requested offset)
  show ?case
  proof (cases "parse_entry bytes offset")
    case (Inr p)
    obtain file_size name_size :: u32 where ok: "body_ok bytes (offset + CPIO_HEADER_SIZE) (unat file_size) (unat name_size) p"
      by (metis parse_entry_InrD [OF Inr])
    then obtain a b where ab: "a \<le> b" "b \<le> length bytes" "pe_data p = slice bytes a b"
      unfolding body_ok_def by (meson le_add1)
    show ?thesis
    proof (cases "pe_name p = requested")
      case True
      then have "f = \<lparr>file_path = pe_name p, file_data = pe_data p, file_mode = pe_mode p\<rparr>"
        using 1(2) Inr by (subst (asm) find_loop.simps) (simp split: if_splits)
      with ab True show ?thesis by auto
    next
      case False
      with 1(2) Inr have "find_loop bytes requested (pe_next_offset p) = Some f" "offset < length bytes" "\<not> pe_trailer p"
        by (subst (asm) find_loop.simps, simp split: if_splits)+
      with 1(1) [OF _ Inr] False show ?thesis by blast
    qed
  next
    case (Inl e)
    with 1(2) show ?thesis by (subst (asm) find_loop.simps) (simp split: if_splits)
  qed
qed

section \<open>The archive of the build\<close>

definition boot_members :: "u8 list \<Rightarrow> member list" where
  "boot_members elf = [(1, ascii ''bin'', 0x41ed, 2, []), (2, INIT_PATH, 0x81ed, 1, elf)]"

lemma boot_paths: "valid_path (ascii ''bin'')" "valid_path INIT_PATH" "length (ascii ''bin'') \<le> MAX_PATH_LEN"
  "length INIT_PATH \<le> MAX_PATH_LEN" "ascii ''bin'' \<noteq> INIT_PATH"
  "(0x81ed :: u32) AND MODE_TYPE_MASK = MODE_REGULAR" "(0x41ed :: u32) AND MODE_TYPE_MASK = MODE_DIRECTORY"
  "MODE_DIRECTORY \<noteq> MODE_REGULAR"
  by code_simp+

lemma boot_members_ok: "length elf < 2 ^ 32 \<Longrightarrow> list_all member_ok (boot_members elf)"
  by (simp add: boot_members_def member_ok_def member_name_def member_data_def boot_paths)

lemma build_initramfs_eq:
  assumes "length elf < 2 ^ 32"
  shows "build_initramfs elf = Some (concat (map member_bytes (boot_members elf)) @ trailer_bytes 3 1)"
proof -
  let ?m1 = "(1, ascii ''bin'', 0x41ed, 2, [])" and ?m2 = "(2, INIT_PATH, 0x81ed, 1, elf)"
  have ok: "member_ok ?m1" "member_ok ?m2" using boot_members_ok [OF assms] by (simp_all add: boot_members_def)
  have d: "4 dvd length (member_bytes ?m1)" "4 dvd length (member_bytes ?m1 @ member_bytes ?m2)"
    using member_bytes_dvd [OF ok(1)] member_bytes_dvd [OF ok(2)] by simp_all
  have "append_entry [] 1 (ascii ''bin'') 0x41ed 2 [] = Some (member_bytes ?m1)"
    using append_entry_eq(1) [of "[]" "ascii ''bin''" "[]"] by (simp add: member_bytes_def ascii_def)
  moreover have "append_entry (member_bytes ?m1) 2 (ascii ''bin/init'') 0x81ed 1 elf =
      Some (member_bytes ?m1 @ member_bytes ?m2)"
    using append_entry_eq(1) [OF d(1), of INIT_PATH elf 2 "0x81ed" 1] assms
    by (simp add: member_bytes_def INIT_PATH_def ascii_def)
  moreover have "append_entry (member_bytes ?m1 @ member_bytes ?m2) 3 (ascii ''TRAILER!!!'') 0 1 [] =
      Some ((member_bytes ?m1 @ member_bytes ?m2) @ trailer_bytes 3 1)"
    using append_entry_eq(1) [OF d(2), of CPIO_TRAILER "[]" 3 0 1]
    by (simp add: trailer_bytes_def CPIO_TRAILER_def ascii_def)
  ultimately show ?thesis by (simp add: build_initramfs_def boot_members_def)
qed

lemma record_boot_members:
  assumes "s = ArchiveState_empty\<lparr>as_initialized := True, as_module_found := True,
      as_module_start := ms, as_module_end := me\<rparr>"
  obtains s' where "record_all (boot_members elf) s = (Inr (), s')"
    "as_initialized s'" "as_module_found s'" "as_module_start s' = ms" "as_module_end s' = me"
    "as_entry_count s' = 2" "as_regular_files s' = 1" "as_directories s' = 1" "as_init_found s'"
    "as_init_size s' = of_nat (length elf)" "as_last_error s' = None"
proof -
  have "sat_add 0 1 = (1 :: u64)" by code_simp
  then show thesis
    using boot_paths from_bytes_ok [OF boot_paths(1,3)] from_bytes_ok [OF boot_paths(2,4)] assms
    by (intro that [of "snd (record_all (boot_members elf) s)"])
      (simp_all add: boot_members_def record_entry_def parsed_member_def member_name_def member_data_def
        member_mode_def ArchiveState_empty_def MAX_ENTRIES_def Let_def)
qed

lemma boot_archive_ok:
  assumes "find_module boot (ascii ''initramfs'') = Some m" and "is_valid m"
    and "mod_size m \<le> MAX_ARCHIVE_SIZE" and "build_initramfs elf = Some bytes"
    and "raw_bytes mem (mod_start m) (unat (mod_size m)) = bytes"
    and "take 4 elf = [0x7f, 0x45, 0x4c, 0x46]" and "length elf < 2 ^ 32"
  shows "let s = initramfs_init mem boot in as_valid s
    \<and> find_file mem s (ascii ''/bin/init'') = Some \<lparr>file_path = INIT_PATH, file_data = elf, file_mode = 0x81ed\<rparr>
    \<and> initramfs_selftest mem s"
proof -
  have bytes: "bytes = concat (map member_bytes (boot_members elf)) @ trailer_bytes 3 1"
    using build_initramfs_eq [OF assms(7)] assms(4) by simp
  have "length bytes = unat (mod_size m)" using assms(5) by (auto simp: raw_bytes_def)
  moreover have "unat (mod_size m) \<le> unat MAX_ARCHIVE_SIZE" using assms(3) by (simp add: word_le_nat_alt)
  ultimately have len: "length bytes < 2 ^ 63" by (simp add: MAX_ARCHIVE_SIZE_def)
  define s0 where "s0 = ArchiveState_empty\<lparr>as_initialized := True, as_module_found := True,
      as_module_start := mod_start m, as_module_end := mod_end m\<rparr>"
  obtain s' where s': "record_all (boot_members elf) s0 = (Inr (), s')"
    "as_initialized s'" "as_module_found s'" "as_module_start s' = mod_start m" "as_module_end s' = mod_end m"
    "as_entry_count s' = 2" "as_regular_files s' = 1" "as_directories s' = 1" "as_init_found s'"
    "as_init_size s' = of_nat (length elf)" "as_last_error s' = None"
    using record_boot_members [OF s0_def] by metis
  have "archive_loop bytes 0 s0 = (Inr (length bytes, True), s')"
    using archive_loop_members [of "[]" "boot_members elf" 3 1 s0] boot_members_ok [OF assms(7)] len s'(1)
    by (simp add: bytes)
  then have "parse_archive bytes s0 = (Inr (), s')" using s'(9) by (simp add: parse_archive_def)
  then have init: "initramfs_init mem boot = s'\<lparr>as_valid := True\<rparr>"
    using assms(1,2,5) leD [OF assms(3)] by (simp add: initramfs_init_def s0_def Let_def)
  define s where "s = initramfs_init mem boot"
  have start: "mod_start m < mod_end m" "mod_end m - mod_start m = mod_size m"
    using assms(2) by (auto simp: is_valid_def mod_size_def sat_sub_def)
  then have ab: "archive_bytes mem s = Some bytes"
    using assms(5) s'(4,5) by (simp add: archive_bytes_def s_def init)
  have fl: "find_loop bytes path 0 = map_option (\<lambda>m. \<lparr>file_path = path, file_data = member_data m,
      file_mode = member_mode m\<rparr>) (List.find (\<lambda>m. member_name m = path) (boot_members elf))" for path
    using find_loop_members [of "[]" "boot_members elf" 3 1 path] boot_members_ok [OF assms(7)] len
    by (simp add: bytes)
  have norm: "normalize_requested_path (ascii ''/bin/init'') = Some INIT_PATH"
    "normalize_requested_path (ascii ''/missing'') = Some (ascii ''missing'')"
    "normalize_requested_path (ascii ''../bin/init'') = None"
    "ascii ''missing'' \<noteq> INIT_PATH" "ascii ''missing'' \<noteq> ascii ''bin''" by code_simp+
  have found: "find_file mem s (ascii ''/bin/init'') =
      Some \<lparr>file_path = INIT_PATH, file_data = elf, file_mode = 0x81ed\<rparr>"
    using boot_paths(5)
    by (simp add: find_file_def norm ab fl boot_members_def member_name_def member_data_def member_mode_def)
  have "find_file mem s (ascii ''/missing'') = None" "find_file mem s (ascii ''../bin/init'') = None"
    using norm(4,5) by (auto simp: find_file_def norm(2,3) ab fl boot_members_def member_name_def)
  with found s' boot_paths(6) assms(6) have "initramfs_selftest mem s"
    by (simp add: initramfs_selftest_def archive_snapshot_def s_def init INIT_PATH_def)
  with found show ?thesis unfolding Let_def s_def [symmetric] by (simp add: s_def init)
qed

text \<open>A boot summary with one module at 2 MiB, and a memory that holds the archive there.\<close>

definition tiny_elf :: "u8 list" where
  "tiny_elf = [0x7f, 0x45, 0x4c, 0x46]"

definition tiny_archive :: "u8 list" where
  "tiny_archive = concat (map member_bytes (boot_members tiny_elf)) @ trailer_bytes 3 1"

definition tiny_module :: BootModule where
  "tiny_module = \<lparr>mod_start = 0x200000, mod_end = 0x20016c,
     mod_command_line = \<lparr>tf_bytes = ascii ''initramfs'' @ replicate 87 0, tf_len = 9\<rparr>\<rparr>"

definition tiny_boot :: BootInfoSummary where
  "tiny_boot = add_module BootInfoSummary_empty tiny_module"

definition tiny_memory :: memory where
  "tiny_memory a = (if a - 0x200000 < 0x16c then tiny_archive ! unat (a - 0x200000) else 0)"

lemma tiny_facts:
  "find_module tiny_boot (ascii ''initramfs'') = Some tiny_module" "is_valid tiny_module"
  "mod_size tiny_module \<le> MAX_ARCHIVE_SIZE" "build_initramfs tiny_elf = Some tiny_archive"
  "raw_bytes tiny_memory (mod_start tiny_module) (unat (mod_size tiny_module)) = tiny_archive"
  "take 4 tiny_elf = [0x7f, 0x45, 0x4c, 0x46]" "length tiny_elf < 2 ^ 32"
proof -
  show "find_module tiny_boot (ascii ''initramfs'') = Some tiny_module" "is_valid tiny_module"
    "mod_size tiny_module \<le> MAX_ARCHIVE_SIZE" by code_simp+
  show "build_initramfs tiny_elf = Some tiny_archive"
    using build_initramfs_eq [of tiny_elf] by (simp add: tiny_archive_def tiny_elf_def)
  show "take 4 tiny_elf = [0x7f, 0x45, 0x4c, 0x46]" "length tiny_elf < 2 ^ 32" by (simp_all add: tiny_elf_def)
  have len: "length tiny_archive = 364"
    by (simp add: tiny_archive_def boot_members_def member_bytes_def trailer_bytes_def length_entry_bytes_eq
        length_pad_cases tiny_elf_def INIT_PATH_def CPIO_TRAILER_def ascii_def)
  have sz: "unat (mod_size tiny_module) = 364" "mod_start tiny_module = 0x200000"
    by (simp_all add: tiny_module_def mod_size_def sat_sub_def)
  have "tiny_memory (0x200000 + of_nat i) = tiny_archive ! i" if "i < 364" for i
  proof -
    have "unat (of_nat i :: u64) = i" using that by (simp add: unat_of_nat)
    then show ?thesis using that by (simp add: tiny_memory_def word_less_nat_alt)
  qed
  then show "raw_bytes tiny_memory (mod_start tiny_module) (unat (mod_size tiny_module)) = tiny_archive"
    unfolding raw_bytes_def sz using len by (intro nth_equalityI) simp_all
qed

text \<open>
  C29. A lookup never leaves the archive: whatever the archive contains, a file that is found
  has the requested path up to one leading slash, all components of that path are plain names
  (not empty, not \<open>.\<close> or \<open>..\<close>, letters, digits, dots, underscores and dashes only), and its data
  is a slice of the archive's own bytes.
\<close>

theorem lookup_confined:
  assumes "find_file mem s path = Some f"
  shows "(path = file_path f \<or> path = 0x2f # file_path f)
    \<and> list_all component_ok (split_path [] (file_path f))
    \<and> (\<exists>bytes a b. archive_bytes mem s = Some bytes \<and> a \<le> b \<and> b \<le> length bytes
         \<and> file_data f = slice bytes a b)"
proof -
  obtain requested bytes where r: "normalize_requested_path path = Some requested"
    "archive_bytes mem s = Some bytes" "find_loop bytes requested 0 = Some f"
    using assms by (auto simp: find_file_def split: option.splits)
  note f = find_loop_confined [OF r(3)]
  have "valid_path requested" "path = requested \<or> path = 0x2f # requested"
    using r(1) by (auto simp: normalize_requested_path_def Let_def split: if_splits)
      (metis list.collapse)
  with f r(2) show ?thesis by (auto simp: valid_path_iff)
qed

theorem lookup_confined_witness:
  "\<exists>f. find_file tiny_memory (initramfs_init tiny_memory tiny_boot) (ascii ''/bin/init'') = Some f
     \<and> list_all component_ok (split_path [] (file_path f)) \<and> file_data f = tiny_elf"
proof -
  have found: "find_file tiny_memory (initramfs_init tiny_memory tiny_boot) (ascii ''/bin/init'') =
      Some \<lparr>file_path = INIT_PATH, file_data = tiny_elf, file_mode = 0x81ed\<rparr>"
    using boot_archive_ok [OF tiny_facts] by (simp add: Let_def)
  from lookup_confined [OF found] found show ?thesis by simp
qed

text \<open>
  The archive that the build produces boots: when the boot loader reports a valid
  initramfs module of at most 32 MiB that holds what \<open>build_initramfs\<close> wrote for some
  program with an ELF magic, initialisation succeeds, \<open>/bin/init\<close> is found with exactly that
  program as its data, and the component's self test passes.
\<close>

theorem boot_archive_accepted:
  assumes "find_module boot (ascii ''initramfs'') = Some m" and "is_valid m"
    and "mod_size m \<le> MAX_ARCHIVE_SIZE" and "build_initramfs elf = Some bytes"
    and "raw_bytes mem (mod_start m) (unat (mod_size m)) = bytes"
    and "take 4 elf = [0x7f, 0x45, 0x4c, 0x46]" and "length elf < 2 ^ 32"
  shows "let s = initramfs_init mem boot in as_valid s
    \<and> find_file mem s (ascii ''/bin/init'') = Some \<lparr>file_path = INIT_PATH, file_data = elf, file_mode = 0x81ed\<rparr>
    \<and> initramfs_selftest mem s"
  by (rule boot_archive_ok [OF assms])

theorem boot_archive_accepted_witness:
  "initramfs_selftest tiny_memory (initramfs_init tiny_memory tiny_boot)"
  using boot_archive_accepted [OF tiny_facts] by (simp add: Let_def)

end
