(* ===== verification/Memory.thy ===== *)
theory Memory
  imports Prelude
begin

unbundle bit_operations_syntax

text \<open>
  Byte-addressed memory as the kernel writes it through raw pointers, and page frames seen as
  arrays of 512 entries of 64 bits. A frame is a 4 KiB aligned address; the kernel reaches
  physical frames through the identity map, so a physical address is also a pointer.
\<close>

section \<open>Words in memory\<close>

definition write_u64 :: "memory \<Rightarrow> u64 \<Rightarrow> u64 \<Rightarrow> memory" where
  "write_u64 mem a v = (\<lambda>x. if x - a < 8 then ucast (drop_bit (8 * unat (x - a)) v) else mem x)"

definition write_bytes :: "memory \<Rightarrow> u64 \<Rightarrow> u64 \<Rightarrow> u8 \<Rightarrow> memory" where
  "write_bytes mem a n v = (\<lambda>x. if x - a < n then v else mem x)"

definition copy_bytes :: "memory \<Rightarrow> u64 \<Rightarrow> u64 \<Rightarrow> u64 \<Rightarrow> memory" where
  "copy_bytes mem dst src n = (\<lambda>x. if x - dst < n then mem (src + (x - dst)) else mem x)"

lemma bytes_to_u32:
  fixes a b c d :: u8
  shows "ucast a + push_bit 8 (ucast b) + push_bit 16 (ucast c) + push_bit 24 (ucast d)
    = (ucast a OR push_bit 8 (ucast b) OR push_bit 16 (ucast c) OR push_bit 24 (ucast d) :: u32)"
proof -
  let ?a = "ucast a :: u32" and ?b = "push_bit 8 (ucast b) :: u32"
    and ?c = "push_bit 16 (ucast c) :: u32" and ?d = "push_bit 24 (ucast d) :: u32"
  have 1: "?a + ?b = ?a OR ?b"
    by (rule disjunctive_add) (auto simp: bit_simps dest: bit_imp_le_length)
  have 2: "(?a OR ?b) + ?c = (?a OR ?b) OR ?c"
    by (rule disjunctive_add) (auto simp: bit_simps dest: bit_imp_le_length)
  have 3: "((?a OR ?b) OR ?c) + ?d = ((?a OR ?b) OR ?c) OR ?d"
    by (rule disjunctive_add) (auto simp: bit_simps dest: bit_imp_le_length)
  show ?thesis unfolding 1 2 3 by (simp add: ac_simps)
qed

lemma u32s_to_u64:
  fixes a b :: u32
  shows "ucast a + push_bit 32 (ucast b) = (ucast a OR push_bit 32 (ucast b) :: u64)"
  by (rule disjunctive_add) (auto simp: bit_simps dest: bit_imp_le_length)

text \<open>Reading back a word that was written.\<close>

lemma byte_of_written:
  "k < 8 \<Longrightarrow> write_u64 mem a v (a + of_nat k) = ucast (drop_bit (8 * k) v)"
proof -
  assume k: "k < 8"
  then have u: "unat (of_nat k :: u64) = k" by (simp add: unat_of_nat)
  moreover have "(of_nat k :: u64) < 8" using k u by (simp add: word_less_nat_alt)
  ultimately show ?thesis by (simp add: write_u64_def)
qed

lemma read_u64_write_same [simp]: "read_u64 (write_u64 mem a v) a = v"
proof -
  have b: "write_u64 mem a v a = ucast v" "write_u64 mem a v (a + 1) = ucast (drop_bit 8 v)"
    "write_u64 mem a v (a + 2) = ucast (drop_bit 16 v)"
    "write_u64 mem a v (a + 3) = ucast (drop_bit 24 v)"
    "write_u64 mem a v (a + 4) = ucast (drop_bit 32 v)"
    "write_u64 mem a v (a + 5) = ucast (drop_bit 40 v)"
    "write_u64 mem a v (a + 6) = ucast (drop_bit 48 v)"
    "write_u64 mem a v (a + 7) = ucast (drop_bit 56 v)"
    using byte_of_written [of 0 mem a v] byte_of_written [of 1 mem a v] byte_of_written [of 2 mem a v]
      byte_of_written [of 3 mem a v] byte_of_written [of 4 mem a v] byte_of_written [of 5 mem a v]
      byte_of_written [of 6 mem a v] byte_of_written [of 7 mem a v]
    by (simp_all del: of_nat_numeral add: of_nat_numeral)
  have lo: "read_u32 (write_u64 mem a v) a = ucast v"
    unfolding read_u32_def bytes_to_u32 b
  proof (rule bit_word_eqI, goal_cases bits)
    case (bits n)
    then show ?case by (cases "n < 24"; cases "n < 16") (auto simp: bit_simps dest: bit_imp_le_length)
  qed
  have hi: "read_u32 (write_u64 mem a v) (a + 4) = ucast (drop_bit 32 v)"
    unfolding read_u32_def bytes_to_u32
  proof (rule bit_word_eqI, goal_cases bits)
    case (bits n)
    then show ?case by (cases "n < 24"; cases "n < 16") (auto simp: b bit_simps add.assoc dest: bit_imp_le_length)
  qed
  show ?thesis
    unfolding read_u64_def u32s_to_u64 lo hi
    by (rule bit_word_eqI) (auto simp: bit_simps dest: bit_imp_le_length)
qed

lemma read_u64_cong:
  assumes "\<And>k. k < 8 \<Longrightarrow> mem (a + k) = mem' (a + k)"
  shows "read_u64 mem a = read_u64 mem' a"
proof -
  have "mem (a + k) = mem' (a + k)" if "k \<in> {0, 1, 2, 3, 4, 5, 6, 7}" for k
    by (rule assms) (use that in auto)
  then have "mem a = mem' a" "mem (a + 1) = mem' (a + 1)" "mem (a + 2) = mem' (a + 2)"
    "mem (a + 3) = mem' (a + 3)" "mem (a + 4) = mem' (a + 4)" "mem (a + 5) = mem' (a + 5)"
    "mem (a + 6) = mem' (a + 6)" "mem (a + 7) = mem' (a + 7)"
    by (metis add.right_neutral insertCI)+
  then show ?thesis by (simp add: read_u64_def read_u32_def add.assoc)
qed

section \<open>Frames\<close>

definition frame_aligned :: "u64 \<Rightarrow> bool" where
  "frame_aligned f \<longleftrightarrow> f AND 0xfff = 0"

text \<open>The frame an address lies in.\<close>

definition page_of :: "u64 \<Rightarrow> u64" where
  "page_of x = x AND NOT 0xfff"

lemma low_mask: "(0xfff :: u64) = mask 12"
  by (simp add: mask_eq_exp_minus_1)

lemma page_split: "x = page_of x + (x AND 0xfff)"
  unfolding page_of_def
  by (rule trans [OF _ disjunctive_add [symmetric]])
    (auto simp: bit_simps intro!: bit_word_eqI)

lemma low_less: "x AND 0xfff < (4096 :: u64)"
  using and_mask_less' [of 12 x] by (simp add: low_mask [symmetric])

lemma page_of_aligned: "frame_aligned f \<Longrightarrow> page_of f = f"
  using page_split [of f] by (simp add: frame_aligned_def)

lemma frame_aligned_page_of [simp]: "frame_aligned (page_of x)"
  by (rule bit_word_eqI [THEN eq_reflection, THEN meta_eq_to_obj_eq, of "page_of x AND 0xfff" 0,
      folded frame_aligned_def]) (auto simp: page_of_def bit_simps)

lemma page_of_add:
  assumes "frame_aligned f" and "k < 4096"
  shows "page_of (f + k) = f" "(f + k) AND 0xfff = k"
proof -
  have "k = k AND mask 12" using assms(2) by (simp add: less_mask_eq)
  then have k: "bit k n \<Longrightarrow> n < 12" for n by (metis bit_and_iff bit_mask_iff)
  have f: "bit f n \<Longrightarrow> \<not> n < 12" for n
    using assms(1) unfolding frame_aligned_def low_mask
    by (metis bit_and_iff bit_mask_iff bit_imp_le_length bit_0_eq bot_apply bot_bool_def
        possible_bit_word)
  have "f + k = f OR k" by (rule disjunctive_add) (use k f in blast)
  then show "page_of (f + k) = f" "(f + k) AND 0xfff = k"
    unfolding page_of_def low_mask
    by (auto intro!: bit_word_eqI simp: bit_simps dest: k f bit_imp_le_length)
qed

lemma in_frame_iff: "frame_aligned f \<Longrightarrow> x - f < 4096 \<longleftrightarrow> page_of x = f"
proof
  assume f: "frame_aligned f"
  show "page_of x = f" if "x - f < 4096" using page_of_add(1) [OF f that] by simp
  show "x - f < 4096" if "page_of x = f"
    using page_split [of x] that low_less [of x] by (metis add_diff_cancel_left')
qed

section \<open>Tables\<close>

definition entry_at :: "memory \<Rightarrow> u64 \<Rightarrow> nat \<Rightarrow> u64" where
  "entry_at mem frame i = read_u64 mem (frame + 8 * of_nat i)"

definition set_entry :: "memory \<Rightarrow> u64 \<Rightarrow> nat \<Rightarrow> u64 \<Rightarrow> memory" where
  "set_entry mem frame i v = write_u64 mem (frame + 8 * of_nat i) v"

lemma entry_offset:
  fixes k :: u64
  assumes "i < 512" and "k < 8"
  shows "8 * of_nat i + k < (4096 :: u64)" "unat (8 * of_nat i + k :: u64) = 8 * i + unat k"
proof -
  have k: "unat k < 8" using assms(2) by (simp add: word_less_nat_alt)
  show u: "unat (8 * of_nat i + k :: u64) = 8 * i + unat k"
    using assms(1) k by (simp add: unat_of_nat unat_word_ariths take_bit_nat_def)
  show "8 * of_nat i + k < (4096 :: u64)" using u assms(1) k by (simp add: word_less_nat_alt)
qed

lemma entry_page:
  assumes "frame_aligned f" and "i < 512" and "(k :: u64) < 8"
  shows "page_of (f + 8 * of_nat i + k) = f" "(f + 8 * of_nat i + k) AND 0xfff = 8 * of_nat i + k"
  using page_of_add [OF assms(1) entry_offset(1) [OF assms(2,3)]] by (simp_all add: add.assoc)

lemma entry_set_same [simp]: "entry_at (set_entry mem f i v) f i = v"
  by (simp add: entry_at_def set_entry_def)

lemma entry_set_other:
  assumes "frame_aligned f" and "frame_aligned g" and "i < 512" and "j < 512"
    and "f \<noteq> g \<or> i \<noteq> j"
  shows "entry_at (set_entry mem f i v) g j = entry_at mem g j"
  unfolding entry_at_def
proof (rule read_u64_cong)
  fix k :: u64 assume k: "k < 8"
  have "\<not> g + 8 * of_nat j + k - (f + 8 * of_nat i) < 8"
  proof
    let ?d = "g + 8 * of_nat j + k - (f + 8 * of_nat i)"
    assume d: "?d < 8"
    have e: "g + 8 * of_nat j + k = f + 8 * of_nat i + ?d" by simp
    have "g = f" using entry_page(1) [OF assms(2,4) k] entry_page(1) [OF assms(1,3) d] e by simp
    moreover have "8 * of_nat j + k = 8 * of_nat i + ?d"
      using entry_page(2) [OF assms(2,4) k] entry_page(2) [OF assms(1,3) d] e by simp
    then have "8 * j + unat k = 8 * i + unat ?d"
      using entry_offset(2) [OF assms(4) k] entry_offset(2) [OF assms(3) d] by simp
    then have "j = i" using k d unfolding word_less_nat_alt by simp
    ultimately show False using assms(5) by simp
  qed
  then show "set_entry mem f i v (g + 8 * of_nat j + k) = mem (g + 8 * of_nat j + k)"
    by (simp add: set_entry_def write_u64_def)
qed

lemma entry_set:
  "frame_aligned f \<Longrightarrow> frame_aligned g \<Longrightarrow> i < 512 \<Longrightarrow> j < 512 \<Longrightarrow>
   entry_at (set_entry mem f i v) g j = (if g = f \<and> j = i then v else entry_at mem g j)"
  by (auto simp: entry_set_other)

definition zero_frame :: "memory \<Rightarrow> u64 \<Rightarrow> memory" where
  "zero_frame mem frame = write_bytes mem frame 4096 0"

lemma entry_zero [simp]:
  assumes "frame_aligned f" and "frame_aligned g" and "i < 512"
  shows "entry_at (zero_frame mem f) g i = (if g = f then 0 else entry_at mem g i)"
proof -
  have z: "zero_frame mem f (g + 8 * of_nat i + k) = (if g = f then 0 else mem (g + 8 * of_nat i + k))"
    if "k < 8" for k :: u64
    using entry_page(1) [OF assms(2,3) that] in_frame_iff [OF assms(1)]
    by (simp add: zero_frame_def write_bytes_def)
  have "read_u64 (zero_frame mem f) (g + 8 * of_nat i) =
      read_u64 (\<lambda>x. if g = f then 0 else mem x) (g + 8 * of_nat i)"
    by (rule read_u64_cong) (simp add: z)
  moreover have "read_u64 (\<lambda>x. 0) a = 0" for a by (simp add: read_u64_def read_u32_def)
  ultimately show ?thesis by (simp add: entry_at_def)
qed

definition copy_table :: "memory \<Rightarrow> u64 \<Rightarrow> u64 \<Rightarrow> memory" where
  "copy_table mem dst src = copy_bytes mem dst src 4096"

lemma entry_copy:
  assumes "frame_aligned f" and "frame_aligned g" and "i < 512"
  shows "entry_at (copy_table mem f h) g i = entry_at mem (if g = f then h else g) i"
proof -
  have z: "copy_table mem f h (g + 8 * of_nat i + k) =
      mem ((if g = f then h else g) + 8 * of_nat i + k)" if "k < 8" for k :: u64
    using entry_page(1) [OF assms(2,3) that] in_frame_iff [OF assms(1)]
    by (simp add: copy_table_def copy_bytes_def add.assoc)
  have "read_u64 (copy_table mem f h) (g + 8 * of_nat i) =
      read_u64 (\<lambda>x. mem (x + ((if g = f then h else g) - g))) (g + 8 * of_nat i)"
    by (rule read_u64_cong) (subst z, simp, simp add: algebra_simps)
  also have "\<dots> = read_u64 mem ((if g = f then h else g) + 8 * of_nat i)"
    by (simp add: read_u64_def read_u32_def algebra_simps)
  finally show ?thesis by (simp add: entry_at_def)
qed

end
