(* ===== verification/Paging.thy ===== *)
theory Paging
  imports Physmem Memory
begin

unbundle bit_operations_syntax

text \<open>
  The virtual memory code, \<^verbatim>\<open>src/src/paging.rs\<close>: translation through the four levels of page
  tables, the kernel's page mapper with its table of tracked mappings, and the address spaces
  of user processes. Page tables live in physical memory, which the kernel reads and writes
  through the identity map of the first gigabyte; table references of the source are the
  addresses of their frames here, and an element of a table is \<open>entry_at\<close> or \<open>set_entry\<close> of
  \<open>Memory\<close>. One record holds what the module reads and changes: physical memory, the frame
  allocator, the mapper, the counters and CR3, with the addresses the linker provides.
  \<open>invlpg\<close> and the masking of interrupts change nothing in this state.
\<close>

section \<open>Constants\<close>

definition PAGE_SIZE_4K :: u64 where "PAGE_SIZE_4K = 4096"
definition HUGE_PAGE_SIZE :: u64 where "HUGE_PAGE_SIZE = 2 * 1024 * 1024"
definition BOOT_IDENTITY_MAP_BYTES :: u64 where "BOOT_IDENTITY_MAP_BYTES = 1024 * 1024 * 1024"
definition PAGE_TABLE_MEMORY_BYTES :: u64 where "PAGE_TABLE_MEMORY_BYTES = PAGE_SIZE_4K * 3"
definition KERNEL_VIRTUAL_BASE :: u64 where "KERNEL_VIRTUAL_BASE = 0xffff800000000000"
definition KERNEL_VIRTUAL_SIZE :: u64 where "KERNEL_VIRTUAL_SIZE = 1024 * 1024 * 1024"
definition KERNEL_VIRTUAL_END :: u64 where
  "KERNEL_VIRTUAL_END = KERNEL_VIRTUAL_BASE + KERNEL_VIRTUAL_SIZE"
definition KERNEL_HEAP_GUARD_LOW :: u64 where
  "KERNEL_HEAP_GUARD_LOW = KERNEL_VIRTUAL_BASE + 0x01000000"
definition KERNEL_HEAP_BASE :: u64 where "KERNEL_HEAP_BASE = KERNEL_HEAP_GUARD_LOW + PAGE_SIZE_4K"
definition KERNEL_HEAP_SIZE :: u64 where "KERNEL_HEAP_SIZE = 64 * 1024"
definition KERNEL_HEAP_GUARD_HIGH :: u64 where
  "KERNEL_HEAP_GUARD_HIGH = KERNEL_HEAP_BASE + KERNEL_HEAP_SIZE"
definition KERNEL_VM_TEST_PAGE :: u64 where "KERNEL_VM_TEST_PAGE = KERNEL_VIRTUAL_BASE + 0x02000000"
definition USER_SPACE_BASE :: u64 where "USER_SPACE_BASE = BOOT_IDENTITY_MAP_BYTES"
definition USER_SPACE_SIZE :: u64 where "USER_SPACE_SIZE = 16 * 1024 * 1024"
definition USER_SPACE_END :: u64 where "USER_SPACE_END = USER_SPACE_BASE + USER_SPACE_SIZE"
definition USER_PROBE_CODE_PAGE :: u64 where "USER_PROBE_CODE_PAGE = USER_SPACE_BASE"
definition USER_PROBE_STACK_PAGE :: u64 where
  "USER_PROBE_STACK_PAGE = USER_SPACE_BASE + PAGE_SIZE_4K"
definition USER_PROBE_STACK_TOP :: u64 where
  "USER_PROBE_STACK_TOP = USER_PROBE_STACK_PAGE + PAGE_SIZE_4K"
definition USER_ELF_BASE :: u64 where "USER_ELF_BASE = USER_SPACE_BASE + 0x00100000"
definition USER_ELF_SIZE :: u64 where "USER_ELF_SIZE = 0x00100000"
definition USER_ELF_END :: u64 where "USER_ELF_END = USER_ELF_BASE + USER_ELF_SIZE"
definition USER_ELF_STACK_GUARD :: u64 where "USER_ELF_STACK_GUARD = USER_ELF_END"
definition USER_ELF_STACK_PAGE :: u64 where
  "USER_ELF_STACK_PAGE = USER_ELF_STACK_GUARD + PAGE_SIZE_4K"
definition USER_ELF_STACK_TOP :: u64 where "USER_ELF_STACK_TOP = USER_ELF_STACK_PAGE + PAGE_SIZE_4K"

definition PAGE_TABLE_ENTRIES :: nat where "PAGE_TABLE_ENTRIES = 512"
definition ENTRY_PRESENT :: u64 where "ENTRY_PRESENT = push_bit 0 1"
definition ENTRY_WRITABLE :: u64 where "ENTRY_WRITABLE = push_bit 1 1"
definition ENTRY_USER :: u64 where "ENTRY_USER = push_bit 2 1"
definition ENTRY_HUGE_PAGE :: u64 where "ENTRY_HUGE_PAGE = push_bit 7 1"
definition ENTRY_NO_EXECUTE :: u64 where "ENTRY_NO_EXECUTE = push_bit 63 1"
definition DEFAULT_PAGE_FLAGS :: u64 where "DEFAULT_PAGE_FLAGS = ENTRY_PRESENT OR ENTRY_WRITABLE"
definition USER_DATA_PAGE_FLAGS :: u64 where
  "USER_DATA_PAGE_FLAGS = DEFAULT_PAGE_FLAGS OR ENTRY_USER OR ENTRY_NO_EXECUTE"
definition ENTRY_ADDR_MASK :: u64 where "ENTRY_ADDR_MASK = 0x000ffffffffff000"
definition HUGE_ENTRY_ADDR_MASK :: u64 where "HUGE_ENTRY_ADDR_MASK = 0x000fffffffe00000"
definition MAX_TRACKED_MAPPINGS :: nat where "MAX_TRACKED_MAPPINGS = 128"
definition MAX_PROCESS_USER_PAGES :: nat where "MAX_PROCESS_USER_PAGES = 65"
definition MAX_PROCESS_TABLE_FRAMES :: nat where "MAX_PROCESS_TABLE_FRAMES = 16"

lemmas entry_bit_defs = ENTRY_PRESENT_def ENTRY_WRITABLE_def ENTRY_USER_def ENTRY_HUGE_PAGE_def
  ENTRY_NO_EXECUTE_def

lemmas region_consts = PAGE_SIZE_4K_def BOOT_IDENTITY_MAP_BYTES_def KERNEL_VIRTUAL_BASE_def
  KERNEL_VIRTUAL_SIZE_def KERNEL_VIRTUAL_END_def KERNEL_HEAP_GUARD_LOW_def KERNEL_HEAP_BASE_def
  KERNEL_HEAP_SIZE_def KERNEL_HEAP_GUARD_HIGH_def USER_SPACE_BASE_def USER_SPACE_SIZE_def
  USER_SPACE_END_def USER_ELF_BASE_def USER_ELF_SIZE_def USER_ELF_END_def
  USER_ELF_STACK_GUARD_def USER_ELF_STACK_PAGE_def USER_ELF_STACK_TOP_def

section \<open>Data\<close>

record TranslateResult =
  tr_virt :: u64
  tr_phys :: u64
  tr_mapped :: bool
  tr_huge_page :: bool
  tr_user_accessible :: bool
  tr_writable :: bool
  tr_executable :: bool
  tr_page_size :: u64

record UserPagePermissions =
  up_writable :: bool
  up_executable :: bool

definition READ_EXECUTE :: UserPagePermissions where
  "READ_EXECUTE = \<lparr>up_writable = False, up_executable = True\<rparr>"

definition READ_WRITE :: UserPagePermissions where
  "READ_WRITE = \<lparr>up_writable = True, up_executable = False\<rparr>"

definition permission_flags :: "UserPagePermissions \<Rightarrow> u64" where
  "permission_flags p =
     (let flags = ENTRY_PRESENT OR ENTRY_USER;
          flags = (if up_writable p then flags OR ENTRY_WRITABLE else flags)
      in if \<not> up_executable p then flags OR ENTRY_NO_EXECUTE else flags)"

datatype MapError = MapVirtualUnaligned | MapPhysicalUnaligned | MapOutsideManagedRange
  | MapPhysicalNotIdentityMapped | MapAlreadyMapped | MapHugePageConflict | MapOutOfFrames

datatype UnmapError = UnmapVirtualUnaligned | UnmapOutsideManagedRange | UnmapNotMapped
  | UnmapHugePageConflict | PageTableNotReachable

datatype PageOwner = OwnerKernel | OwnerHeap | OwnerUser | OwnerTest

fun default_flags :: "PageOwner \<Rightarrow> u64" where
  "default_flags OwnerUser = USER_DATA_PAGE_FLAGS"
| "default_flags OwnerKernel = DEFAULT_PAGE_FLAGS"
| "default_flags OwnerHeap = DEFAULT_PAGE_FLAGS"
| "default_flags OwnerTest = DEFAULT_PAGE_FLAGS"

record MappingInfo =
  mi_virt :: u64
  mi_phys :: u64
  mi_owner :: PageOwner
  mi_user_accessible :: bool
  mi_writable :: bool
  mi_executable :: bool

record PermissionAudit =
  checked_pages :: u64
  violations :: u64
  kernel_pages :: u64
  heap_pages :: u64
  pa_user_pages :: u64
  test_pages :: u64
  guard_pages_intact :: bool
  tracking_consistent :: bool

datatype AddressSpaceError = SpaceNotInitialized | SpaceOutOfFrames | SpacePhysicalNotIdentityMapped
  | TableCapacityExceeded | PageCapacityExceeded | SpaceVirtualUnaligned | OutsideUserRange
  | SpaceAlreadyMapped | MissingPageTable | ActiveAddressSpace

record AddressSpaceAudit =
  valid_root :: bool
  aa_mapped_pages :: u64
  aa_user_pages :: u64
  writable_pages :: u64
  executable_pages :: u64
  writable_executable_pages :: u64
  stack_guard_intact :: bool

record CleanupReport =
  user_frames_freed :: u64
  table_frames_freed :: u64
  complete :: bool

record AddressSpaceStats =
  st_created :: u64
  st_destroyed :: u64
  st_active :: u64
  st_user_frames_freed :: u64
  st_table_frames_freed :: u64
  st_cleanup_failures :: u64
  st_last_created_root :: u64
  st_last_destroyed_root :: u64

record AddressSpace =
  root_frame :: u64
  as_table_frames :: "u64 list"
  table_frame_count :: nat
  as_user_frames :: "u64 list"
  user_virtuals :: "u64 list"
  user_permissions :: "UserPagePermissions list"
  user_frame_count :: nat
  as_active :: bool

definition AddressSpace_empty :: AddressSpace where
  "AddressSpace_empty = \<lparr>root_frame = 0, as_table_frames = replicate MAX_PROCESS_TABLE_FRAMES 0,
     table_frame_count = 0, as_user_frames = replicate MAX_PROCESS_USER_PAGES 0,
     user_virtuals = replicate MAX_PROCESS_USER_PAGES 0,
     user_permissions = replicate MAX_PROCESS_USER_PAGES READ_WRITE, user_frame_count = 0,
     as_active = False\<rparr>"

record MappingRecord =
  mr_virt :: u64
  mr_phys :: u64
  mr_flags :: u64
  mr_owner :: PageOwner
  mr_active :: bool

definition MappingRecord_empty :: MappingRecord where
  "MappingRecord_empty = \<lparr>mr_virt = 0, mr_phys = 0, mr_flags = 0, mr_owner = OwnerKernel,
     mr_active = False\<rparr>"

definition record_info :: "MappingRecord \<Rightarrow> MappingInfo" where
  "record_info r = \<lparr>mi_virt = mr_virt r, mi_phys = mr_phys r, mi_owner = mr_owner r,
     mi_user_accessible = (mr_flags r AND ENTRY_USER \<noteq> 0),
     mi_writable = (mr_flags r AND ENTRY_WRITABLE \<noteq> 0),
     mi_executable = (mr_flags r AND ENTRY_NO_EXECUTE = 0)\<rparr>"

record MapperState =
  mp_initialized :: bool
  mp_mapped_pages :: u64
  mp_unmapped_pages :: u64
  mp_page_table_frames :: u64
  mp_guard_pages :: u64
  mp_records :: "MappingRecord list"
  tracking_overflows :: u64
  tracking_misses :: u64

definition MapperState_new :: MapperState where
  "MapperState_new = \<lparr>mp_initialized = False, mp_mapped_pages = 0, mp_unmapped_pages = 0,
     mp_page_table_frames = 0, mp_guard_pages = 0,
     mp_records = replicate MAX_TRACKED_MAPPINGS MappingRecord_empty, tracking_overflows = 0,
     tracking_misses = 0\<rparr>"

record Vm =
  vm_kernel_start :: u64
  vm_kernel_end :: u64
  vm_boot :: BootInfoSummary
  p4_addr :: u64
  p3_addr :: u64
  p2_addr :: u64
  vm_phys :: memory
  vm_frames :: FrameAllocator
  vm_mapper :: MapperState
  paging_initialized :: bool
  address_spaces_created :: u64
  address_spaces_destroyed :: u64
  active_address_spaces :: u64
  total_user_frames_freed :: u64
  total_table_frames_freed :: u64
  address_space_cleanup_failures :: u64
  last_created_root :: u64
  last_destroyed_root :: u64
  vm_cr3 :: u64

text \<open>The calls into the frame allocator, and writes to physical memory.\<close>

definition vm_allocate :: "Vm \<Rightarrow> u64 option \<times> Vm" where
  "vm_allocate vm =
     (case phys_allocate (vm_kernel_start vm) (vm_kernel_end vm) (vm_boot vm) (vm_frames vm) of
        (frame, fa) \<Rightarrow> (frame, vm\<lparr>vm_frames := fa\<rparr>))"

definition vm_free :: "Vm \<Rightarrow> u64 \<Rightarrow> bool \<times> Vm" where
  "vm_free vm frame =
     (case phys_free (vm_kernel_start vm) (vm_kernel_end vm) (vm_boot vm) (vm_frames vm) frame of
        (ok, fa) \<Rightarrow> (ok, vm\<lparr>vm_frames := fa\<rparr>))"

definition write_entry :: "Vm \<Rightarrow> u64 \<Rightarrow> nat \<Rightarrow> u64 \<Rightarrow> Vm" where
  "write_entry vm frame index v = vm\<lparr>vm_phys := set_entry (vm_phys vm) frame index v\<rparr>"

definition update_mapper :: "(MapperState \<Rightarrow> MapperState) \<Rightarrow> Vm \<Rightarrow> Vm" where
  "update_mapper f vm = vm\<lparr>vm_mapper := f (vm_mapper vm)\<rparr>"

section \<open>Address predicates and entries\<close>

definition in_managed_virtual_range :: "u64 \<Rightarrow> bool" where
  "in_managed_virtual_range virt \<longleftrightarrow> KERNEL_VIRTUAL_BASE \<le> virt \<and> virt < KERNEL_VIRTUAL_END"

definition in_user_virtual_range :: "u64 \<Rightarrow> bool" where
  "in_user_virtual_range virt \<longleftrightarrow> USER_SPACE_BASE \<le> virt \<and> virt < USER_SPACE_END"

definition identity_reachable :: "u64 \<Rightarrow> bool" where
  "identity_reachable phys \<longleftrightarrow> phys < BOOT_IDENTITY_MAP_BYTES"

definition is_page_aligned :: "u64 \<Rightarrow> bool" where
  "is_page_aligned v \<longleftrightarrow> v AND (PAGE_SIZE_4K - 1) = 0"

definition in_page :: "u64 \<Rightarrow> u64 \<Rightarrow> bool" where
  "in_page address page_start \<longleftrightarrow>
     page_start \<le> address \<and> address < sat_add page_start PAGE_SIZE_4K"

definition is_guard_page :: "u64 \<Rightarrow> bool" where
  "is_guard_page virt \<longleftrightarrow>
     in_page virt KERNEL_HEAP_GUARD_LOW \<or> in_page virt KERNEL_HEAP_GUARD_HIGH"

definition in_mappable_virtual_range :: "u64 \<Rightarrow> u64 \<Rightarrow> bool" where
  "in_mappable_virtual_range virt flags =
     (if flags AND ENTRY_USER \<noteq> 0 then in_user_virtual_range virt
      else in_managed_virtual_range virt \<and> \<not> is_guard_page virt)"

definition entry_present :: "u64 \<Rightarrow> bool" where "entry_present e \<longleftrightarrow> e AND ENTRY_PRESENT \<noteq> 0"
definition entry_huge :: "u64 \<Rightarrow> bool" where "entry_huge e \<longleftrightarrow> e AND ENTRY_HUGE_PAGE \<noteq> 0"
definition entry_user :: "u64 \<Rightarrow> bool" where "entry_user e \<longleftrightarrow> e AND ENTRY_USER \<noteq> 0"
definition entry_writable :: "u64 \<Rightarrow> bool" where "entry_writable e \<longleftrightarrow> e AND ENTRY_WRITABLE \<noteq> 0"
definition entry_no_execute :: "u64 \<Rightarrow> bool" where
  "entry_no_execute e \<longleftrightarrow> e AND ENTRY_NO_EXECUTE \<noteq> 0"
definition entry_addr :: "u64 \<Rightarrow> u64" where "entry_addr e = e AND ENTRY_ADDR_MASK"
definition huge_entry_addr :: "u64 \<Rightarrow> u64" where "huge_entry_addr e = e AND HUGE_ENTRY_ADDR_MASK"

definition p4_index :: "u64 \<Rightarrow> nat" where "p4_index virt = unat (drop_bit 39 virt AND 0x1ff)"
definition p3_index :: "u64 \<Rightarrow> nat" where "p3_index virt = unat (drop_bit 30 virt AND 0x1ff)"
definition p2_index :: "u64 \<Rightarrow> nat" where "p2_index virt = unat (drop_bit 21 virt AND 0x1ff)"
definition p1_index :: "u64 \<Rightarrow> nat" where "p1_index virt = unat (drop_bit 12 virt AND 0x1ff)"

definition table_from_entry :: "u64 \<Rightarrow> u64 option" where
  "table_from_entry entry =
     (let address = entry_addr entry in if \<not> identity_reachable address then None else Some address)"

definition table_from_frame :: "u64 \<Rightarrow> u64 option" where
  "table_from_frame frame =
     (if \<not> identity_reachable frame \<or> \<not> is_page_aligned frame then None else Some frame)"

definition table_from_frame_mut :: "u64 \<Rightarrow> AddressSpaceError + u64" where
  "table_from_frame_mut frame =
     (if \<not> identity_reachable frame \<or> \<not> is_page_aligned frame
      then Inl SpacePhysicalNotIdentityMapped else Inr frame)"

definition table_from_entry_mut :: "u64 \<Rightarrow> u64 option" where
  "table_from_entry_mut entry =
     (let address = entry_addr entry in if \<not> identity_reachable address then None else Some address)"

section \<open>Translation\<close>

definition unmapped :: "u64 \<Rightarrow> TranslateResult" where
  "unmapped virt = \<lparr>tr_virt = virt, tr_phys = 0, tr_mapped = False, tr_huge_page = False,
     tr_user_accessible = False, tr_writable = False, tr_executable = False, tr_page_size = 0\<rparr>"

text \<open>\<open>translate\<close> walks the tables of the boot page table root.\<close>

definition translate :: "Vm \<Rightarrow> u64 \<Rightarrow> TranslateResult" where
  "translate vm virt =
     (let mem = vm_phys vm;
          huge_offset = virt AND (HUGE_PAGE_SIZE - 1);
          p4_entry = entry_at mem (p4_addr vm) (p4_index virt)
      in if \<not> entry_present p4_entry then unmapped virt
      else
        let user_accessible = entry_user p4_entry;
            writable = entry_writable p4_entry;
            executable = (\<not> entry_no_execute p4_entry)
        in case table_from_entry p4_entry of
          None \<Rightarrow> unmapped virt
        | Some p3 \<Rightarrow>
            let p3_entry = entry_at mem p3 (p3_index virt)
            in if \<not> entry_present p3_entry then unmapped virt
            else
              let user_accessible = (user_accessible \<and> entry_user p3_entry);
                  writable = (writable \<and> entry_writable p3_entry);
                  executable = (executable \<and> \<not> entry_no_execute p3_entry)
              in case table_from_entry p3_entry of
                None \<Rightarrow> unmapped virt
              | Some p2 \<Rightarrow>
                  let p2_entry = entry_at mem p2 (p2_index virt)
                  in if \<not> entry_present p2_entry then unmapped virt
                  else
                    let user_accessible = (user_accessible \<and> entry_user p2_entry);
                        writable = (writable \<and> entry_writable p2_entry);
                        executable = (executable \<and> \<not> entry_no_execute p2_entry)
                    in if entry_huge p2_entry
                       then \<lparr>tr_virt = virt, tr_phys = sat_add (huge_entry_addr p2_entry) huge_offset,
                             tr_mapped = True, tr_huge_page = True,
                             tr_user_accessible = (user_accessible \<and> entry_user p2_entry),
                             tr_writable = (writable \<and> entry_writable p2_entry),
                             tr_executable = (executable \<and> \<not> entry_no_execute p2_entry),
                             tr_page_size = HUGE_PAGE_SIZE\<rparr>
                       else case table_from_entry p2_entry of
                         None \<Rightarrow> unmapped virt
                       | Some p1 \<Rightarrow>
                           let p1_entry = entry_at mem p1 (p1_index virt)
                           in if \<not> entry_present p1_entry then unmapped virt
                           else
                             \<lparr>tr_virt = virt,
                              tr_phys = sat_add (entry_addr p1_entry) (virt AND (PAGE_SIZE_4K - 1)),
                              tr_mapped = True, tr_huge_page = False,
                              tr_user_accessible = (user_accessible \<and> entry_user p1_entry),
                              tr_writable = (writable \<and> entry_writable p1_entry),
                              tr_executable = (executable \<and> \<not> entry_no_execute p1_entry),
                              tr_page_size = PAGE_SIZE_4K\<rparr>)"

text \<open>\<open>translate_from_root\<close> walks the tables of an address space.\<close>

definition translate_from_root :: "memory \<Rightarrow> u64 \<Rightarrow> u64 \<Rightarrow> TranslateResult" where
  "translate_from_root mem root virt =
     (case table_from_frame root of
        None \<Rightarrow> unmapped virt
      | Some p4 \<Rightarrow>
        let huge_offset = virt AND (HUGE_PAGE_SIZE - 1);
            p4_entry = entry_at mem p4 (p4_index virt)
        in if \<not> entry_present p4_entry then unmapped virt
        else
          let user_accessible = entry_user p4_entry;
              writable = entry_writable p4_entry;
              executable = (\<not> entry_no_execute p4_entry)
          in case table_from_entry p4_entry of
            None \<Rightarrow> unmapped virt
          | Some p3 \<Rightarrow>
              let p3_entry = entry_at mem p3 (p3_index virt)
              in if \<not> entry_present p3_entry then unmapped virt
              else
                let user_accessible = (user_accessible \<and> entry_user p3_entry);
                    writable = (writable \<and> entry_writable p3_entry);
                    executable = (executable \<and> \<not> entry_no_execute p3_entry)
                in case table_from_entry p3_entry of
                  None \<Rightarrow> unmapped virt
                | Some p2 \<Rightarrow>
                    let p2_entry = entry_at mem p2 (p2_index virt)
                    in if \<not> entry_present p2_entry then unmapped virt
                    else
                      let user_accessible = (user_accessible \<and> entry_user p2_entry);
                          writable = (writable \<and> entry_writable p2_entry);
                          executable = (executable \<and> \<not> entry_no_execute p2_entry)
                      in if entry_huge p2_entry
                         then \<lparr>tr_virt = virt,
                               tr_phys = sat_add (huge_entry_addr p2_entry) huge_offset,
                               tr_mapped = True, tr_huge_page = True,
                               tr_user_accessible = user_accessible, tr_writable = writable,
                               tr_executable = executable, tr_page_size = HUGE_PAGE_SIZE\<rparr>
                         else case table_from_entry p2_entry of
                           None \<Rightarrow> unmapped virt
                         | Some p1 \<Rightarrow>
                             let p1_entry = entry_at mem p1 (p1_index virt)
                             in if \<not> entry_present p1_entry then unmapped virt
                             else
                               \<lparr>tr_virt = virt,
                                tr_phys = sat_add (entry_addr p1_entry) (virt AND (PAGE_SIZE_4K - 1)),
                                tr_mapped = True, tr_huge_page = False,
                                tr_user_accessible = (user_accessible \<and> entry_user p1_entry),
                                tr_writable = (writable \<and> entry_writable p1_entry),
                                tr_executable = (executable \<and> \<not> entry_no_execute p1_entry),
                                tr_page_size = PAGE_SIZE_4K\<rparr>)"

end
