(* ===== verification/Page_Mapper.thy ===== *)
theory Page_Mapper
  imports Paging
begin

unbundle bit_operations_syntax

text \<open>
  The kernel's page mapper of \<^verbatim>\<open>src/src/paging.rs\<close>: mapping and unmapping of single pages in the
  boot page tables, the table of tracked mappings with its audit, the guard pages around the
  heap, and the module's snapshot.
\<close>

section \<open>Tracked mappings\<close>

definition record_mapping ::
    "MapperState \<Rightarrow> u64 \<Rightarrow> u64 \<Rightarrow> u64 \<Rightarrow> PageOwner \<Rightarrow> MapperState" where
  "record_mapping st virt phys flags owner =
     (case position (\<lambda>r. mr_active r \<and> mr_virt r = virt) (mp_records st) of
        Some i \<Rightarrow> st\<lparr>mp_records := (mp_records st)[i := (mp_records st ! i)
                      \<lparr>mr_phys := phys, mr_flags := flags, mr_owner := owner\<rparr>]\<rparr>
      | None \<Rightarrow>
          (case position (\<lambda>r. \<not> mr_active r) (mp_records st) of
             Some i \<Rightarrow> st\<lparr>mp_records := (mp_records st)[i := \<lparr>mr_virt = virt, mr_phys = phys,
                          mr_flags = flags, mr_owner = owner, mr_active = True\<rparr>]\<rparr>
           | None \<Rightarrow> st\<lparr>tracking_overflows := sat_add (tracking_overflows st) 1\<rparr>))"

definition forget_mapping :: "MapperState \<Rightarrow> u64 \<Rightarrow> MappingRecord option \<times> MapperState" where
  "forget_mapping st virt =
     (case position (\<lambda>r. mr_active r \<and> mr_virt r = virt) (mp_records st) of
        Some i \<Rightarrow> (Some (mp_records st ! i),
                   st\<lparr>mp_records := (mp_records st)[i := MappingRecord_empty]\<rparr>)
      | None \<Rightarrow> (None, st\<lparr>tracking_misses := sat_add (tracking_misses st) 1\<rparr>))"

definition state_mapping_info :: "MapperState \<Rightarrow> u64 \<Rightarrow> MappingInfo option" where
  "state_mapping_info st virt =
     map_option record_info
       (find (\<lambda>r. mr_active r \<and> mr_virt r = align_down virt PAGE_SIZE_4K) (mp_records st))"

definition active_mapping_count :: "MapperState \<Rightarrow> u64" where
  "active_mapping_count st =
     fold (\<lambda>r count. if mr_active r then count + 1 else count) (mp_records st) 0"

definition owner_counts :: "MapperState \<Rightarrow> u64 \<times> u64 \<times> u64 \<times> u64" where
  "owner_counts st =
     fold (\<lambda>r (kernel, heap, user, test).
             if \<not> mr_active r then (kernel, heap, user, test)
             else (case mr_owner r of
                 OwnerKernel \<Rightarrow> (kernel + 1, heap, user, test)
               | OwnerHeap \<Rightarrow> (kernel, heap + 1, user, test)
               | OwnerUser \<Rightarrow> (kernel, heap, user + 1, test)
               | OwnerTest \<Rightarrow> (kernel, heap, user, test + 1)))
       (mp_records st) (0, 0, 0, 0)"

section \<open>Mapping\<close>

text \<open>
  \<open>ensure_next_table\<close> takes a reference to an entry: the table and the index it lies at. It
  answers with the table the entry points to after the call.
\<close>

definition ensure_next_table :: "Vm \<Rightarrow> u64 \<Rightarrow> nat \<Rightarrow> u64 \<Rightarrow> (MapError + u64) \<times> Vm" where
  "ensure_next_table vm table index flags =
     (let entry = entry_at (vm_phys vm) table index
      in if entry_present entry
         then if entry_huge entry then (Inl MapHugePageConflict, vm)
              else
                let entry = entry OR (flags AND (ENTRY_WRITABLE OR ENTRY_USER));
                    vm = write_entry vm table index entry
                in (case table_from_entry_mut entry of
                      None \<Rightarrow> (Inl MapPhysicalNotIdentityMapped, vm)
                    | Some t \<Rightarrow> (Inr t, vm))
         else case vm_allocate vm of
             (None, vm) \<Rightarrow> (Inl MapOutOfFrames, vm)
           | (Some frame, vm) \<Rightarrow>
               if \<not> identity_reachable frame
               then (Inl MapPhysicalNotIdentityMapped, snd (vm_free vm frame))
               else
                 let vm = vm\<lparr>vm_phys := zero_frame (vm_phys vm) frame\<rparr>;
                     entry = frame OR ENTRY_PRESENT OR (flags AND (ENTRY_WRITABLE OR ENTRY_USER));
                     vm = write_entry vm table index entry;
                     vm = update_mapper (\<lambda>st. st\<lparr>mp_page_table_frames :=
                                           sat_add (mp_page_table_frames st) 1\<rparr>) vm
                 in (case table_from_entry_mut entry of
                       None \<Rightarrow> (Inl MapPhysicalNotIdentityMapped, vm)
                     | Some t \<Rightarrow> (Inr t, vm)))"

definition map_page_inner_with_flags ::
    "Vm \<Rightarrow> u64 \<Rightarrow> u64 \<Rightarrow> u64 \<Rightarrow> PageOwner \<Rightarrow> (MapError + unit) \<times> Vm" where
  "map_page_inner_with_flags vm virt phys flags owner =
     (if \<not> is_page_aligned virt then (Inl MapVirtualUnaligned, vm)
      else if \<not> is_page_aligned phys then (Inl MapPhysicalUnaligned, vm)
      else if \<not> in_mappable_virtual_range virt flags then (Inl MapOutsideManagedRange, vm)
      else if \<not> identity_reachable phys then (Inl MapPhysicalNotIdentityMapped, vm)
      else case ensure_next_table vm (p4_addr vm) (p4_index virt) flags of
        (Inl error, vm) \<Rightarrow> (Inl error, vm)
      | (Inr p3, vm) \<Rightarrow>
      (case ensure_next_table vm p3 (p3_index virt) flags of
        (Inl error, vm) \<Rightarrow> (Inl error, vm)
      | (Inr p2, vm) \<Rightarrow>
      if entry_huge (entry_at (vm_phys vm) p2 (p2_index virt)) then (Inl MapHugePageConflict, vm)
      else case ensure_next_table vm p2 (p2_index virt) flags of
        (Inl error, vm) \<Rightarrow> (Inl error, vm)
      | (Inr p1, vm) \<Rightarrow>
      if entry_present (entry_at (vm_phys vm) p1 (p1_index virt)) then (Inl MapAlreadyMapped, vm)
      else
        let vm = write_entry vm p1 (p1_index virt) (phys OR flags);
            vm = update_mapper (\<lambda>st. record_mapping
                   (st\<lparr>mp_mapped_pages := sat_add (mp_mapped_pages st) 1\<rparr>)
                   virt phys flags owner) vm
        in (Inr (), vm)))"

definition map_page_inner_with_owner ::
    "Vm \<Rightarrow> u64 \<Rightarrow> u64 \<Rightarrow> PageOwner \<Rightarrow> (MapError + unit) \<times> Vm" where
  "map_page_inner_with_owner vm virt phys owner =
     map_page_inner_with_flags vm virt phys (default_flags owner) owner"

definition map_new_page_with_flags ::
    "Vm \<Rightarrow> u64 \<Rightarrow> u64 \<Rightarrow> PageOwner \<Rightarrow> (MapError + u64) \<times> Vm" where
  "map_new_page_with_flags vm virt flags owner =
     (if \<not> is_page_aligned virt then (Inl MapVirtualUnaligned, vm)
      else if \<not> in_mappable_virtual_range virt flags then (Inl MapOutsideManagedRange, vm)
      else if tr_mapped (translate vm virt) then (Inl MapAlreadyMapped, vm)
      else case vm_allocate vm of
        (None, vm) \<Rightarrow> (Inl MapOutOfFrames, vm)
      | (Some phys, vm) \<Rightarrow>
          if \<not> identity_reachable phys
          then (Inl MapPhysicalNotIdentityMapped, snd (vm_free vm phys))
          else
            case map_page_inner_with_flags (vm\<lparr>vm_phys := zero_frame (vm_phys vm) phys\<rparr>)
                   virt phys flags owner of
              (Inl error, vm) \<Rightarrow> (Inl error, snd (vm_free vm phys))
            | (Inr _, vm) \<Rightarrow> (Inr phys, vm))"

definition map_new_page_owned :: "Vm \<Rightarrow> u64 \<Rightarrow> PageOwner \<Rightarrow> (MapError + u64) \<times> Vm" where
  "map_new_page_owned vm virt owner = map_new_page_with_flags vm virt (default_flags owner) owner"

definition map_new_page :: "Vm \<Rightarrow> u64 \<Rightarrow> (MapError + u64) \<times> Vm" where
  "map_new_page vm virt = map_new_page_owned vm virt OwnerKernel"

definition map_new_user_page ::
    "Vm \<Rightarrow> u64 \<Rightarrow> UserPagePermissions \<Rightarrow> (MapError + u64) \<times> Vm" where
  "map_new_user_page vm virt permissions =
     map_new_page_with_flags vm virt (permission_flags permissions) OwnerUser"

definition map_page :: "Vm \<Rightarrow> u64 \<Rightarrow> u64 \<Rightarrow> (MapError + unit) \<times> Vm" where
  "map_page vm virt phys = map_page_inner_with_owner vm virt phys OwnerKernel"

definition map_user_page_with_permissions ::
    "Vm \<Rightarrow> u64 \<Rightarrow> u64 \<Rightarrow> UserPagePermissions \<Rightarrow> (MapError + unit) \<times> Vm" where
  "map_user_page_with_permissions vm virt phys permissions =
     map_page_inner_with_flags vm virt phys (permission_flags permissions) OwnerUser"

definition map_kernel_user_page :: "Vm \<Rightarrow> u64 \<Rightarrow> u64 \<Rightarrow> (MapError + unit) \<times> Vm" where
  "map_kernel_user_page vm virt phys = map_user_page_with_permissions vm virt phys READ_WRITE"

definition unmap_page_inner :: "Vm \<Rightarrow> u64 \<Rightarrow> (UnmapError + u64) \<times> Vm" where
  "unmap_page_inner vm virt =
     (let mem = vm_phys vm
      in if \<not> is_page_aligned virt then (Inl UnmapVirtualUnaligned, vm)
      else if \<not> in_managed_virtual_range virt \<and> \<not> in_user_virtual_range virt
      then (Inl UnmapOutsideManagedRange, vm)
      else
        let p4_entry = entry_at mem (p4_addr vm) (p4_index virt)
        in if \<not> entry_present p4_entry then (Inl UnmapNotMapped, vm)
        else case table_from_entry_mut p4_entry of
          None \<Rightarrow> (Inl PageTableNotReachable, vm)
        | Some p3 \<Rightarrow>
        let p3_entry = entry_at mem p3 (p3_index virt)
        in if \<not> entry_present p3_entry then (Inl UnmapNotMapped, vm)
        else case table_from_entry_mut p3_entry of
          None \<Rightarrow> (Inl PageTableNotReachable, vm)
        | Some p2 \<Rightarrow>
        let p2_entry = entry_at mem p2 (p2_index virt)
        in if entry_huge p2_entry then (Inl UnmapHugePageConflict, vm)
        else if \<not> entry_present p2_entry then (Inl UnmapNotMapped, vm)
        else case table_from_entry_mut p2_entry of
          None \<Rightarrow> (Inl PageTableNotReachable, vm)
        | Some p1 \<Rightarrow>
        let entry = entry_at mem p1 (p1_index virt)
        in if \<not> entry_present entry then (Inl UnmapNotMapped, vm)
        else
          (Inr (entry_addr entry),
           update_mapper (\<lambda>st. snd (forget_mapping
               (st\<lparr>mp_unmapped_pages := sat_add (mp_unmapped_pages st) 1\<rparr>) virt))
             (write_entry vm p1 (p1_index virt) 0)))"

definition unmap_page :: "Vm \<Rightarrow> u64 \<Rightarrow> (UnmapError + u64) \<times> Vm" where
  "unmap_page vm virt = unmap_page_inner vm virt"

definition mapping_info :: "Vm \<Rightarrow> u64 \<Rightarrow> MappingInfo option" where
  "mapping_info vm virt = state_mapping_info (vm_mapper vm) virt"

text \<open>\<open>probe_map_unmap\<close>: each early return is a branch; a failed probe still unmaps its page.\<close>

definition probe_map_unmap :: "Vm \<Rightarrow> u64 \<Rightarrow> bool \<times> Vm" where
  "probe_map_unmap vm virt =
     (if tr_mapped (translate vm virt) then (False, vm)
      else case map_new_page_owned vm virt OwnerTest of
        (Inl _, vm) \<Rightarrow> (False, vm)
      | (Inr phys, vm) \<Rightarrow>
          let mapped = translate vm virt;
              owner = mapping_info vm virt
          in if \<not> tr_mapped mapped \<or> tr_phys mapped \<noteq> phys \<or> tr_page_size mapped \<noteq> PAGE_SIZE_4K
                \<or> map_option mi_owner owner \<noteq> Some OwnerTest
             then (case unmap_page vm virt of
                     (Inr unmapped_phys, vm) \<Rightarrow> (False, snd (vm_free vm unmapped_phys))
                   | (Inl _, vm) \<Rightarrow> (False, vm))
             else case unmap_page vm virt of
               (Inl _, vm) \<Rightarrow> (False, vm)
             | (Inr unmapped_phys, vm) \<Rightarrow>
                 if unmapped_phys \<noteq> phys then (False, vm)
                 else case vm_free vm unmapped_phys of
                   (False, vm) \<Rightarrow> (False, vm)
                 | (True, vm) \<Rightarrow>
                     (\<not> tr_mapped (translate vm virt) \<and> mapping_info vm virt = None, vm))"

section \<open>Audit\<close>

definition audit_record :: "Vm \<Rightarrow> MappingRecord \<Rightarrow> PermissionAudit \<Rightarrow> PermissionAudit" where
  "audit_record vm r audit =
     (if \<not> mr_active r then audit
      else
        let audit = audit\<lparr>checked_pages := sat_add (checked_pages audit) 1\<rparr>;
            audit = (case mr_owner r of
                OwnerKernel \<Rightarrow> audit\<lparr>kernel_pages := sat_add (kernel_pages audit) 1\<rparr>
              | OwnerHeap \<Rightarrow> audit\<lparr>heap_pages := sat_add (heap_pages audit) 1\<rparr>
              | OwnerUser \<Rightarrow> audit\<lparr>pa_user_pages := sat_add (pa_user_pages audit) 1\<rparr>
              | OwnerTest \<Rightarrow> audit\<lparr>test_pages := sat_add (test_pages audit) 1\<rparr>);
            translated = translate vm (mr_virt r);
            ok = (tr_mapped translated \<and> tr_phys translated = mr_phys r
                  \<and> tr_page_size translated = PAGE_SIZE_4K
                  \<and> tr_user_accessible translated = (mr_flags r AND ENTRY_USER \<noteq> 0)
                  \<and> tr_writable translated = (mr_flags r AND ENTRY_WRITABLE \<noteq> 0)
                  \<and> tr_executable translated = (mr_flags r AND ENTRY_NO_EXECUTE = 0));
            ok = (case mr_owner r of
                OwnerUser \<Rightarrow> ok \<and> in_user_virtual_range (mr_virt r) \<and> tr_user_accessible translated
              | _ \<Rightarrow> ok \<and> in_managed_virtual_range (mr_virt r) \<and> \<not> tr_user_accessible translated)
        in if \<not> ok then audit\<lparr>violations := sat_add (violations audit) 1\<rparr> else audit)"

definition permission_audit_inner :: "Vm \<Rightarrow> MapperState \<Rightarrow> PermissionAudit" where
  "permission_audit_inner vm st =
     (let audit = fold (audit_record vm) (mp_records st)
            \<lparr>checked_pages = 0, violations = 0, kernel_pages = 0, heap_pages = 0,
             pa_user_pages = 0, test_pages = 0,
             guard_pages_intact = (\<not> tr_mapped (translate vm KERNEL_HEAP_GUARD_LOW)
                                   \<and> \<not> tr_mapped (translate vm KERNEL_HEAP_GUARD_HIGH)),
             tracking_consistent = True\<rparr>;
          audit = (if checked_pages audit \<noteq> active_mapping_count st \<or> tracking_overflows st \<noteq> 0
                   then audit\<lparr>tracking_consistent := False,
                              violations := sat_add (violations audit) 1\<rparr>
                   else audit)
      in if \<not> guard_pages_intact audit
         then audit\<lparr>violations := sat_add (violations audit) 1\<rparr> else audit)"

definition permission_audit :: "Vm \<Rightarrow> PermissionAudit" where
  "permission_audit vm = permission_audit_inner vm (vm_mapper vm)"

text \<open>The conjunction stops at the first part that fails; the mapping attempts are calls.\<close>

definition guard_page_test :: "Vm \<Rightarrow> bool \<times> Vm" where
  "guard_page_test vm =
     (if tr_mapped (translate vm KERNEL_HEAP_GUARD_LOW) then (False, vm)
      else if tr_mapped (translate vm KERNEL_HEAP_GUARD_HIGH) then (False, vm)
      else case map_new_page_owned vm KERNEL_HEAP_GUARD_LOW OwnerTest of
        (Inl MapOutsideManagedRange, vm) \<Rightarrow>
          (case map_new_page_owned vm KERNEL_HEAP_GUARD_HIGH OwnerTest of
             (Inl MapOutsideManagedRange, vm) \<Rightarrow> (True, vm)
           | (_, vm) \<Rightarrow> (False, vm))
      | (_, vm) \<Rightarrow> (False, vm))"

definition fault_policy :: "Vm \<Rightarrow> u64 \<Rightarrow> u64 \<Rightarrow> string" where
  "fault_policy vm address error_code =
     (if in_page address KERNEL_HEAP_GUARD_LOW \<or> in_page address KERNEL_HEAP_GUARD_HIGH
      then ''heap guard page violation''
      else if in_user_virtual_range address \<and> \<not> tr_mapped (translate vm address)
      then ''user virtual address not mapped''
      else if in_user_virtual_range address then ''user virtual address protection fault''
      else if in_managed_virtual_range address \<and> \<not> tr_mapped (translate vm address)
      then ''managed virtual address not mapped''
      else if in_managed_virtual_range address then ''managed virtual address protection fault''
      else if address < BOOT_IDENTITY_MAP_BYTES then ''low identity-map page fault''
      else ''outside Tobacco managed virtual memory'')"

fun map_error_name :: "MapError \<Rightarrow> string" where
  "map_error_name MapVirtualUnaligned = ''virtual address is not 4 KiB aligned''"
| "map_error_name MapPhysicalUnaligned = ''physical address is not 4 KiB aligned''"
| "map_error_name MapOutsideManagedRange = ''virtual address outside managed range''"
| "map_error_name MapPhysicalNotIdentityMapped = ''physical frame is not identity reachable''"
| "map_error_name MapAlreadyMapped = ''virtual page is already mapped''"
| "map_error_name MapHugePageConflict = ''mapping conflicts with a huge page''"
| "map_error_name MapOutOfFrames = ''physical frame allocator exhausted''"

fun unmap_error_name :: "UnmapError \<Rightarrow> string" where
  "unmap_error_name UnmapVirtualUnaligned = ''virtual address is not 4 KiB aligned''"
| "unmap_error_name UnmapOutsideManagedRange = ''virtual address outside managed range''"
| "unmap_error_name UnmapNotMapped = ''virtual page is not mapped''"
| "unmap_error_name UnmapHugePageConflict = ''mapping conflicts with a huge page''"
| "unmap_error_name PageTableNotReachable = ''page table is not identity reachable''"

section \<open>Snapshot and initialisation\<close>

definition count_present_entries :: "memory \<Rightarrow> u64 \<Rightarrow> u64" where
  "count_present_entries mem table =
     fold (\<lambda>i count. if entry_present (entry_at mem table i) then count + 1 else count)
       [0..<PAGE_TABLE_ENTRIES] 0"

definition count_huge_entries :: "memory \<Rightarrow> u64 \<Rightarrow> u64" where
  "count_huge_entries mem table =
     fold (\<lambda>i count. if entry_present (entry_at mem table i) \<and> entry_huge (entry_at mem table i)
                     then count + 1 else count)
       [0..<PAGE_TABLE_ENTRIES] 0"

record PagingSnapshot =
  pg_initialized :: bool
  mapper_initialized :: bool
  pg_cr3 :: u64
  pg_p4_addr :: u64
  pg_p3_addr :: u64
  pg_p2_addr :: u64
  p4_present_entries :: u64
  p3_present_entries :: u64
  p2_present_entries :: u64
  pg_huge_pages :: u64
  identity_mapped_bytes :: u64
  page_table_bytes :: u64
  pg_mapped_pages :: u64
  pg_unmapped_pages :: u64
  pg_page_table_frames :: u64
  pg_guard_pages :: u64
  tracked_mappings :: u64
  tracking_capacity :: u64
  pg_tracking_overflows :: u64
  pg_tracking_misses :: u64
  kernel_owned_pages :: u64
  heap_owned_pages :: u64
  user_owned_pages :: u64
  test_owned_pages :: u64
  permission_violations :: u64

definition sat_mul :: "u64 \<Rightarrow> u64 \<Rightarrow> u64" where
  "sat_mul a b = (if unat a * unat b < 2 ^ 64 then a * b else - 1)"

definition paging_snapshot :: "Vm \<Rightarrow> PagingSnapshot" where
  "paging_snapshot vm =
     (let mem = vm_phys vm;
          huge_pages = count_huge_entries mem (p2_addr vm);
          st = vm_mapper vm;
          (kernel, heap, user, test) = owner_counts st;
          audit = permission_audit_inner vm st
      in \<lparr>pg_initialized = paging_initialized vm, mapper_initialized = mp_initialized st,
          pg_cr3 = vm_cr3 vm, pg_p4_addr = p4_addr vm, pg_p3_addr = p3_addr vm,
          pg_p2_addr = p2_addr vm,
          p4_present_entries = count_present_entries mem (p4_addr vm),
          p3_present_entries = count_present_entries mem (p3_addr vm),
          p2_present_entries = count_present_entries mem (p2_addr vm),
          pg_huge_pages = huge_pages,
          identity_mapped_bytes = sat_mul huge_pages HUGE_PAGE_SIZE,
          page_table_bytes = PAGE_TABLE_MEMORY_BYTES,
          pg_mapped_pages = mp_mapped_pages st, pg_unmapped_pages = mp_unmapped_pages st,
          pg_page_table_frames = mp_page_table_frames st, pg_guard_pages = mp_guard_pages st,
          tracked_mappings = active_mapping_count st,
          tracking_capacity = of_nat MAX_TRACKED_MAPPINGS,
          pg_tracking_overflows = tracking_overflows st, pg_tracking_misses = tracking_misses st,
          kernel_owned_pages = kernel, heap_owned_pages = heap, user_owned_pages = user,
          test_owned_pages = test, permission_violations = violations audit\<rparr>)"

definition paging_init :: "Vm \<Rightarrow> PagingSnapshot \<times> Vm" where
  "paging_init vm =
     (let vm1 = update_mapper (\<lambda>st. st\<lparr>mp_initialized := True, mp_guard_pages := 2\<rparr>)
                  (vm\<lparr>paging_initialized := True\<rparr>)
      in (paging_snapshot vm1, vm1))"

end
