(* ===== verification/Address_Space.thy ===== *)
theory Address_Space
  imports Paging
begin

unbundle bit_operations_syntax

text \<open>
  The address spaces of user processes, \<open>AddressSpace\<close> of \<^verbatim>\<open>src/src/paging.rs\<close>: a root table, a
  private table for the low half of the address space and one for the user gigabyte, leaf
  tables on demand, and the list of user pages with their frames and permissions. Methods
  with \<open>&mut self\<close> return the changed space beside the changed virtual memory state.
\<close>

definition allocate_zeroed_frame :: "Vm \<Rightarrow> (AddressSpaceError + u64) \<times> Vm" where
  "allocate_zeroed_frame vm =
     (case vm_allocate vm of
        (None, vm1) \<Rightarrow> (Inl SpaceOutOfFrames, vm1)
      | (Some frame, vm1) \<Rightarrow>
          if \<not> identity_reachable frame
          then (Inl SpacePhysicalNotIdentityMapped, snd (vm_free vm1 frame))
          else (Inr frame, vm1\<lparr>vm_phys := zero_frame (vm_phys vm1) frame\<rparr>))"

definition allocate_table_frame ::
    "AddressSpace \<Rightarrow> Vm \<Rightarrow> (AddressSpaceError + u64) \<times> AddressSpace \<times> Vm" where
  "allocate_table_frame space vm =
     (if MAX_PROCESS_TABLE_FRAMES \<le> table_frame_count space
      then (Inl TableCapacityExceeded, space, vm)
      else case allocate_zeroed_frame vm of
        (Inl error, vm1) \<Rightarrow> (Inl error, space, vm1)
      | (Inr frame, vm1) \<Rightarrow>
          (Inr frame,
           space\<lparr>as_table_frames := (as_table_frames space)[table_frame_count space := frame],
                 table_frame_count := table_frame_count space + 1\<rparr>, vm1))"

text \<open>The loops that give frames back: from the last table frame down to the first.\<close>

fun free_tables_loop :: "AddressSpace \<Rightarrow> nat \<Rightarrow> Vm \<Rightarrow> CleanupReport \<Rightarrow> CleanupReport \<times> Vm" where
  "free_tables_loop space 0 vm report = (report, vm)"
| "free_tables_loop space (Suc remaining) vm report =
     (case vm_free vm (as_table_frames space ! remaining) of
        (True, vm1) \<Rightarrow> free_tables_loop space remaining vm1
          (report\<lparr>table_frames_freed := sat_add (table_frames_freed report) 1\<rparr>)
      | (False, vm1) \<Rightarrow> free_tables_loop space remaining vm1 (report\<lparr>complete := False\<rparr>))"

fun free_users_loop :: "AddressSpace \<Rightarrow> nat list \<Rightarrow> Vm \<Rightarrow> CleanupReport \<Rightarrow> CleanupReport \<times> Vm" where
  "free_users_loop space [] vm report = (report, vm)"
| "free_users_loop space (index # rest) vm report =
     (case vm_free vm (as_user_frames space ! index) of
        (True, vm1) \<Rightarrow> free_users_loop space rest vm1
          (report\<lparr>user_frames_freed := sat_add (user_frames_freed report) 1\<rparr>)
      | (False, vm1) \<Rightarrow> free_users_loop space rest vm1 (report\<lparr>complete := False\<rparr>))"

fun release_tables_loop :: "AddressSpace \<Rightarrow> nat \<Rightarrow> Vm \<Rightarrow> Vm" where
  "release_tables_loop space 0 vm = vm"
| "release_tables_loop space (Suc remaining) vm =
     release_tables_loop space remaining (snd (vm_free vm (as_table_frames space ! remaining)))"

definition release_partial_tables :: "AddressSpace \<Rightarrow> Vm \<Rightarrow> AddressSpace \<times> Vm" where
  "release_partial_tables space vm =
     (AddressSpace_empty, release_tables_loop space (table_frame_count space) vm)"

text \<open>The closure \<open>setup\<close> of \<open>create\<close>: three tables, copies of the kernel's, and the user entry.\<close>

definition create_setup :: "Vm \<Rightarrow> (AddressSpaceError + unit) \<times> AddressSpace \<times> Vm" where
  "create_setup vm =
     (case allocate_table_frame AddressSpace_empty vm of
        (Inl error, space, vm) \<Rightarrow> (Inl error, space, vm)
      | (Inr root, space, vm) \<Rightarrow>
      let space = space\<lparr>root_frame := root\<rparr>
      in case allocate_table_frame space vm of
        (Inl error, space, vm) \<Rightarrow> (Inl error, space, vm)
      | (Inr low_p3, space, vm) \<Rightarrow>
      (case allocate_table_frame space vm of
        (Inl error, space, vm) \<Rightarrow> (Inl error, space, vm)
      | (Inr user_p2, space, vm) \<Rightarrow>
      let source_p4 = p4_addr vm
      in case table_from_frame_mut root of
        Inl error \<Rightarrow> (Inl error, space, vm)
      | Inr destination_p4 \<Rightarrow>
      let vm = vm\<lparr>vm_phys := copy_table (vm_phys vm) destination_p4 source_p4\<rparr>
      in case table_from_entry (entry_at (vm_phys vm) source_p4 0) of
        None \<Rightarrow> (Inl MissingPageTable, space, vm)
      | Some source_low_p3 \<Rightarrow>
      (case table_from_frame_mut low_p3 of
        Inl error \<Rightarrow> (Inl error, space, vm)
      | Inr destination_low_p3 \<Rightarrow>
      let vm = vm\<lparr>vm_phys := copy_table (vm_phys vm) destination_low_p3 source_low_p3\<rparr>;
          vm = write_entry vm destination_p4 0
                 (low_p3 OR ENTRY_PRESENT OR ENTRY_WRITABLE OR ENTRY_USER);
          user_p3_index = unat (drop_bit 30 USER_SPACE_BASE AND 0x1ff);
          vm = write_entry vm destination_low_p3 user_p3_index
                 (user_p2 OR ENTRY_PRESENT OR ENTRY_WRITABLE OR ENTRY_USER)
      in (Inr (), space, vm))))"

definition create :: "Vm \<Rightarrow> (AddressSpaceError + AddressSpace) \<times> Vm" where
  "create vm =
     (if \<not> paging_initialized vm then (Inl SpaceNotInitialized, vm)
      else case create_setup vm of
        (Inl error, space, vm1) \<Rightarrow> (Inl error, snd (release_partial_tables space vm1))
      | (Inr _, space, vm1) \<Rightarrow>
          let space1 = space\<lparr>as_active := True\<rparr>
          in (Inr space1,
              vm1\<lparr>address_spaces_created := address_spaces_created vm1 + 1,
                  active_address_spaces := active_address_spaces vm1 + 1,
                  last_created_root := root_frame space1\<rparr>))"

definition mapped_pages :: "AddressSpace \<Rightarrow> u64" where
  "mapped_pages space = of_nat (user_frame_count space)"

definition table_frames :: "AddressSpace \<Rightarrow> u64" where
  "table_frames space = of_nat (table_frame_count space)"

definition first_user_frame :: "AddressSpace \<Rightarrow> u64" where
  "first_user_frame space = (case as_user_frames space of [] \<Rightarrow> 0 | frame # _ \<Rightarrow> frame)"

definition space_translate :: "Vm \<Rightarrow> AddressSpace \<Rightarrow> u64 \<Rightarrow> TranslateResult" where
  "space_translate vm space virt =
     (if \<not> as_active space \<or> root_frame space = 0 then unmapped virt
      else translate_from_root (vm_phys vm) (root_frame space) virt)"

text \<open>
  The closure of \<open>map_user_page\<close>: the walk, a new leaf table when there is none, the leaf entry.
\<close>

definition ensure_leaf_table ::
    "Vm \<Rightarrow> AddressSpace \<Rightarrow> u64 \<Rightarrow> nat \<Rightarrow> (AddressSpaceError + unit) \<times> AddressSpace \<times> Vm" where
  "ensure_leaf_table vm space p2 index =
     (if \<not> entry_present (entry_at (vm_phys vm) p2 index)
      then case allocate_table_frame space vm of
          (Inl error, space, vm) \<Rightarrow> (Inl error, space, vm)
        | (Inr p1_frame, space, vm) \<Rightarrow>
            (Inr (), space, write_entry vm p2 index
               (p1_frame OR ENTRY_PRESENT OR ENTRY_WRITABLE OR ENTRY_USER))
      else (Inr (), space, vm))"

definition insert_user_page ::
    "Vm \<Rightarrow> AddressSpace \<Rightarrow> u64 \<Rightarrow> UserPagePermissions \<Rightarrow>
     (AddressSpaceError + u64) \<times> AddressSpace \<times> Vm" where
  "insert_user_page vm space virt permissions =
     (case table_from_frame_mut (root_frame space) of
        Inl error \<Rightarrow> (Inl error, space, vm)
      | Inr p4 \<Rightarrow>
      case table_from_entry_mut (entry_at (vm_phys vm) p4 (p4_index virt)) of
        None \<Rightarrow> (Inl MissingPageTable, space, vm)
      | Some p3 \<Rightarrow>
      case table_from_entry_mut (entry_at (vm_phys vm) p3 (p3_index virt)) of
        None \<Rightarrow> (Inl MissingPageTable, space, vm)
      | Some p2 \<Rightarrow>
      (case ensure_leaf_table vm space p2 (p2_index virt) of
        (Inl error, space, vm) \<Rightarrow> (Inl error, space, vm)
      | (Inr _, space, vm) \<Rightarrow>
      case table_from_entry_mut (entry_at (vm_phys vm) p2 (p2_index virt)) of
        None \<Rightarrow> (Inl MissingPageTable, space, vm)
      | Some p1 \<Rightarrow>
          if entry_present (entry_at (vm_phys vm) p1 (p1_index virt))
          then (Inl SpaceAlreadyMapped, space, vm)
          else case allocate_zeroed_frame vm of
            (Inl error, vm) \<Rightarrow> (Inl error, space, vm)
          | (Inr frame, vm) \<Rightarrow>
              let n = user_frame_count space
              in (Inr frame,
                  space\<lparr>as_user_frames := (as_user_frames space)[n := frame],
                        user_virtuals := (user_virtuals space)[n := virt],
                        user_permissions := (user_permissions space)[n := permissions],
                        user_frame_count := n + 1\<rparr>,
                  write_entry vm p1 (p1_index virt) (frame OR permission_flags permissions))))"

definition map_user_page ::
    "Vm \<Rightarrow> AddressSpace \<Rightarrow> u64 \<Rightarrow> UserPagePermissions \<Rightarrow>
     (AddressSpaceError + u64) \<times> AddressSpace \<times> Vm" where
  "map_user_page vm space virt permissions =
     (if \<not> as_active space \<or> root_frame space = 0 then (Inl SpaceNotInitialized, space, vm)
      else if \<not> is_page_aligned virt then (Inl SpaceVirtualUnaligned, space, vm)
      else if \<not> in_user_virtual_range virt then (Inl OutsideUserRange, space, vm)
      else if MAX_PROCESS_USER_PAGES \<le> user_frame_count space
      then (Inl PageCapacityExceeded, space, vm)
      else if tr_mapped (space_translate vm space virt) then (Inl SpaceAlreadyMapped, space, vm)
      else insert_user_page vm space virt permissions)"

text \<open>One round of the loop of \<open>audit\<close>.\<close>

definition audit_page :: "Vm \<Rightarrow> AddressSpace \<Rightarrow> nat \<Rightarrow> AddressSpaceAudit \<Rightarrow> AddressSpaceAudit" where
  "audit_page vm space index audit =
     (let translation = space_translate vm space (user_virtuals space ! index);
          permissions = user_permissions space ! index;
          audit = (if tr_mapped translation \<and> tr_phys translation = as_user_frames space ! index
                      \<and> tr_user_accessible translation
                      \<and> tr_writable translation = up_writable permissions
                      \<and> tr_executable translation = up_executable permissions
                   then audit\<lparr>aa_user_pages := sat_add (aa_user_pages audit) 1\<rparr> else audit);
          audit = (if tr_writable translation
                   then audit\<lparr>writable_pages := sat_add (writable_pages audit) 1\<rparr> else audit);
          audit = (if tr_executable translation
                   then audit\<lparr>executable_pages := sat_add (executable_pages audit) 1\<rparr> else audit)
      in if tr_writable translation \<and> tr_executable translation
         then audit\<lparr>writable_executable_pages := sat_add (writable_executable_pages audit) 1\<rparr>
         else audit)"

definition space_audit :: "Vm \<Rightarrow> AddressSpace \<Rightarrow> AddressSpaceAudit" where
  "space_audit vm space =
     fold (audit_page vm space) [0..<user_frame_count space]
       \<lparr>valid_root = (as_active space \<and> root_frame space \<noteq> 0),
        aa_mapped_pages = of_nat (user_frame_count space), aa_user_pages = 0, writable_pages = 0,
        executable_pages = 0, writable_executable_pages = 0,
        stack_guard_intact = (\<not> tr_mapped (space_translate vm space USER_ELF_STACK_GUARD))\<rparr>"

definition destroy ::
    "Vm \<Rightarrow> AddressSpace \<Rightarrow> (AddressSpaceError + CleanupReport) \<times> AddressSpace \<times> Vm" where
  "destroy vm space =
     (if \<not> as_active space
      then (Inr \<lparr>user_frames_freed = 0, table_frames_freed = 0, complete = True\<rparr>, space, vm)
      else if vm_cr3 vm = root_frame space then (Inl ActiveAddressSpace, space, vm)
      else
        let root = root_frame space;
            (report, vm1) = free_users_loop space [0..<user_frame_count space] vm
              \<lparr>user_frames_freed = 0, table_frames_freed = 0, complete = True\<rparr>;
            (report, vm2) = free_tables_loop space (table_frame_count space) vm1 report;
            vm3 = vm2\<lparr>address_spaces_destroyed := address_spaces_destroyed vm2 + 1,
                      active_address_spaces := active_address_spaces vm2 - 1,
                      total_user_frames_freed :=
                        total_user_frames_freed vm2 + user_frames_freed report,
                      total_table_frames_freed :=
                        total_table_frames_freed vm2 + table_frames_freed report,
                      last_destroyed_root := root\<rparr>;
            vm4 = (if \<not> complete report
                   then vm3\<lparr>address_space_cleanup_failures :=
                          address_space_cleanup_failures vm3 + 1\<rparr>
                   else vm3)
        in (Inr report, AddressSpace_empty, vm4))"

definition address_space_stats :: "Vm \<Rightarrow> AddressSpaceStats" where
  "address_space_stats vm = \<lparr>
     st_created = address_spaces_created vm,
     st_destroyed = address_spaces_destroyed vm,
     st_active = active_address_spaces vm,
     st_user_frames_freed = total_user_frames_freed vm,
     st_table_frames_freed = total_table_frames_freed vm,
     st_cleanup_failures = address_space_cleanup_failures vm,
     st_last_created_root = last_created_root vm,
     st_last_destroyed_root = last_destroyed_root vm\<rparr>"

fun address_space_error_name :: "AddressSpaceError \<Rightarrow> string" where
  "address_space_error_name SpaceNotInitialized = ''address space is not initialized''"
| "address_space_error_name SpaceOutOfFrames = ''address space frame allocation failed''"
| "address_space_error_name SpacePhysicalNotIdentityMapped =
     ''address space frame is not identity reachable''"
| "address_space_error_name TableCapacityExceeded = ''address space page-table capacity exceeded''"
| "address_space_error_name PageCapacityExceeded = ''address space user-page capacity exceeded''"
| "address_space_error_name SpaceVirtualUnaligned = ''address space virtual page is unaligned''"
| "address_space_error_name OutsideUserRange = ''address space page is outside user range''"
| "address_space_error_name SpaceAlreadyMapped = ''address space page is already mapped''"
| "address_space_error_name MissingPageTable = ''address space page table is missing''"
| "address_space_error_name ActiveAddressSpace = ''cannot destroy the active address space''"

end
