(* ===== verification/Elf.thy ===== *)
theory Elf
  imports Page_Mapper Address_Space Initramfs
begin

unbundle bit_operations_syntax

text \<open>
  The program loader, \<^verbatim>\<open>src/src/elf.rs\<close>: validation of an ELF64 image against the limits of the user
  region, loading into the kernel's own user pages at boot, and loading into a fresh address
  space for a process. An image is the byte slice that the archive lookup returns. Errors are the
  source's \<open>LoadError\<close>; every \<open>?\<close> is a \<open>bind\<close>.
\<close>

section \<open>Constants and data\<close>

definition ELF_HEADER_SIZE :: nat where "ELF_HEADER_SIZE = 64"
definition PROGRAM_HEADER_SIZE :: nat where "PROGRAM_HEADER_SIZE = 56"
definition MAX_PROGRAM_HEADERS :: nat where "MAX_PROGRAM_HEADERS = 32"
definition MAX_LOAD_SEGMENTS :: nat where "MAX_LOAD_SEGMENTS = 8"
definition MAX_LOAD_PAGES :: nat where "MAX_LOAD_PAGES = 64"
definition MAX_MAPPED_PAGES :: nat where "MAX_MAPPED_PAGES = MAX_LOAD_PAGES + 1"
definition PT_LOAD :: u32 where "PT_LOAD = 1"
definition PF_EXECUTE :: u32 where "PF_EXECUTE = 1"
definition PF_WRITE :: u32 where "PF_WRITE = 2"
definition PF_READ :: u32 where "PF_READ = 4"

datatype LoadError = AlreadyLoaded | InitProgramMissing | ImageTooSmall | BadMagic | UnsupportedClass
  | UnsupportedEndianness | UnsupportedIdentVersion | UnsupportedType | UnsupportedMachine
  | UnsupportedVersion | InvalidHeaderSize | InvalidProgramHeaderSize | InvalidProgramHeaderCount
  | ProgramHeaderTableOutsideImage | NoLoadSegments | TooManyLoadSegments
  | SegmentFileLargerThanMemory | SegmentOutsideImage | SegmentAddressOverflow
  | SegmentOutsideUserRegion | SegmentAlignmentInvalid | SegmentMissingReadPermission
  | WritableExecutableSegment | SegmentPageOverlap | TooManyLoadPages
  | EntryOutsideExecutableSegment | TargetPageAlreadyMapped | PageMappingFailed MapError
  | StackMappingFailed MapError | AddressSpaceFailed AddressSpaceError | MappingLost

record LoadedImage =
  li_entry_point :: u64
  li_image_start :: u64
  li_image_end :: u64
  li_stack_top :: u64
  li_load_segments :: u64
  li_mapped_pages :: u64
  li_writable_pages :: u64
  li_executable_pages :: u64

record ProcessImage =
  pi_address_space :: AddressSpace
  pi_entry_point :: u64
  pi_stack_top :: u64
  pi_mapped_pages :: u64
  pi_table_frames :: u64
  pi_first_user_frame :: u64

record ElfSnapshot =
  es_initialized :: bool
  es_loaded :: bool
  es_entry_point :: u64
  es_image_start :: u64
  es_image_end :: u64
  es_stack_top :: u64
  es_load_segments :: u64
  es_mapped_pages :: u64
  es_writable_pages :: u64
  es_executable_pages :: u64
  es_last_error :: "LoadError option"

record SegmentPlan =
  sp_file_offset :: u64
  sp_virtual_address :: u64
  sp_file_size :: u64
  sp_memory_size :: u64
  sp_writable :: bool
  sp_executable :: bool

definition SegmentPlan_empty :: SegmentPlan where
  "SegmentPlan_empty = \<lparr>sp_file_offset = 0, sp_virtual_address = 0, sp_file_size = 0,
     sp_memory_size = 0, sp_writable = False, sp_executable = False\<rparr>"

definition elf_align_down :: "u64 \<Rightarrow> u64 \<Rightarrow> u64" where
  "elf_align_down v alignment = v AND NOT (alignment - 1)"

definition elf_align_up :: "u64 \<Rightarrow> u64 \<Rightarrow> u64" where
  "elf_align_up v alignment =
     (case checked_add v (alignment - 1) of
        Some aligned \<Rightarrow> elf_align_down aligned alignment
      | None \<Rightarrow> (- 1) AND NOT (alignment - 1))"

definition page_start :: "SegmentPlan \<Rightarrow> u64" where
  "page_start s = elf_align_down (sp_virtual_address s) PAGE_SIZE_4K"

definition memory_end :: "SegmentPlan \<Rightarrow> u64" where
  "memory_end s = sp_virtual_address s + sp_memory_size s"

definition page_end :: "SegmentPlan \<Rightarrow> u64" where
  "page_end s = elf_align_up (memory_end s) PAGE_SIZE_4K"

definition sp_permissions :: "SegmentPlan \<Rightarrow> UserPagePermissions" where
  "sp_permissions s = \<lparr>up_writable = sp_writable s, up_executable = sp_executable s\<rparr>"

record ImagePlan =
  ip_entry_point :: u64
  ip_image_start :: u64
  ip_image_end :: u64
  ip_total_pages :: nat
  ip_segment_count :: nat
  ip_segments :: "SegmentPlan list"

record LoaderState =
  ls_initialized :: bool
  ls_loaded :: "LoadedImage option"
  ls_last_error :: "LoadError option"

definition LoaderState_new :: LoaderState where
  "LoaderState_new = \<lparr>ls_initialized = False, ls_loaded = None, ls_last_error = None\<rparr>"

section \<open>Fields of an image\<close>

text \<open>Rust's \<open>from_le_bytes\<close>, at any width.\<close>

fun from_le_bytes :: "u8 list \<Rightarrow> 'a::len word" where
  "from_le_bytes [] = 0"
| "from_le_bytes (b # bs) = ucast b OR push_bit 8 (from_le_bytes bs)"

definition image_u16 :: "u8 list \<Rightarrow> nat \<Rightarrow> LoadError + u16" where
  "image_u16 img offset =
     bind (ok_or (get_slice img offset (offset + 2)) ImageTooSmall) (\<lambda>bytes. Inr (from_le_bytes bytes))"

definition image_u32 :: "u8 list \<Rightarrow> nat \<Rightarrow> LoadError + u32" where
  "image_u32 img offset =
     bind (ok_or (get_slice img offset (offset + 4)) ImageTooSmall) (\<lambda>bytes. Inr (from_le_bytes bytes))"

definition image_u64 :: "u8 list \<Rightarrow> nat \<Rightarrow> LoadError + u64" where
  "image_u64 img offset =
     bind (ok_or (get_slice img offset (offset + 8)) ImageTooSmall) (\<lambda>bytes. Inr (from_le_bytes bytes))"

section \<open>Validation\<close>

text \<open>The checks of \<open>validate_image\<close> before its loop: entry point, start of the table and count.\<close>

definition validate_header :: "u8 list \<Rightarrow> LoadError + u64 \<times> nat \<times> nat" where
  "validate_header img =
     (if length img < ELF_HEADER_SIZE then Inl ImageTooSmall
      else if take 4 img \<noteq> [0x7f, 0x45, 0x4c, 0x46] then Inl BadMagic
      else if img ! 4 \<noteq> 2 then Inl UnsupportedClass
      else if img ! 5 \<noteq> 1 then Inl UnsupportedEndianness
      else if img ! 6 \<noteq> 1 then Inl UnsupportedIdentVersion
      else bind (image_u16 img 16) (\<lambda>elf_type. if elf_type \<noteq> 2 then Inl UnsupportedType
      else bind (image_u16 img 18) (\<lambda>machine. if machine \<noteq> 62 then Inl UnsupportedMachine
      else bind (image_u32 img 20) (\<lambda>version. if version \<noteq> 1 then Inl UnsupportedVersion
      else bind (image_u16 img 52) (\<lambda>header_size.
        if unat header_size \<noteq> ELF_HEADER_SIZE then Inl InvalidHeaderSize
      else bind (image_u16 img 54) (\<lambda>program_header_size.
        if unat program_header_size \<noteq> PROGRAM_HEADER_SIZE then Inl InvalidProgramHeaderSize
      else bind (image_u64 img 24) (\<lambda>entry_point.
           bind (image_u64 img 32) (\<lambda>program_header_offset.
           bind (image_u16 img 56) (\<lambda>count.
           let program_header_count = unat count
           in if program_header_count = 0 \<or> MAX_PROGRAM_HEADERS < program_header_count
              then Inl InvalidProgramHeaderCount
              else let table_size = program_header_count * PROGRAM_HEADER_SIZE;
                       table_start = unat program_header_offset
                   in bind (ok_or (usize_add table_start table_size) ProgramHeaderTableOutsideImage)
                        (\<lambda>table_end. if length img < table_end then Inl ProgramHeaderTableOutsideImage
                           else Inr (entry_point, table_start, program_header_count)))))))))))"

text \<open>
  One round of the loop. The first half reads and checks a header: no segment when it is not
  loadable or empty. The second half adds the segment to the plan.
\<close>

definition check_segment :: "u8 list \<Rightarrow> nat \<Rightarrow> LoadError + SegmentPlan option" where
  "check_segment img offset =
     bind (image_u32 img offset) (\<lambda>segment_type. if segment_type \<noteq> PT_LOAD then Inr None
     else bind (image_u32 img (offset + 4)) (\<lambda>flags.
          bind (image_u64 img (offset + 8)) (\<lambda>file_offset.
          bind (image_u64 img (offset + 16)) (\<lambda>virtual_address.
          bind (image_u64 img (offset + 32)) (\<lambda>file_size.
          bind (image_u64 img (offset + 40)) (\<lambda>memory_size.
          bind (image_u64 img (offset + 48)) (\<lambda>alignment.
          if memory_size < file_size then Inl SegmentFileLargerThanMemory
          else if memory_size = 0 then Inr None
          else bind (ok_or (checked_add file_offset file_size) SegmentOutsideImage) (\<lambda>file_end.
          if of_nat (length img) < file_end then Inl SegmentOutsideImage
          else bind (ok_or (checked_add virtual_address memory_size) SegmentAddressOverflow) (\<lambda>mem_end.
          if virtual_address < USER_ELF_BASE \<or> USER_ELF_END < mem_end then Inl SegmentOutsideUserRegion
          else if 1 < alignment \<and> (\<not> is_power_of_two alignment
                  \<or> virtual_address mod alignment \<noteq> file_offset mod alignment)
          then Inl SegmentAlignmentInvalid
          else if flags AND PF_READ = 0 then Inl SegmentMissingReadPermission
          else let writable = (flags AND PF_WRITE \<noteq> 0); executable = (flags AND PF_EXECUTE \<noteq> 0)
               in if writable \<and> executable then Inl WritableExecutableSegment
                  else Inr (Some \<lparr>sp_file_offset = file_offset, sp_virtual_address = virtual_address,
                        sp_file_size = file_size, sp_memory_size = memory_size,
                        sp_writable = writable, sp_executable = executable\<rparr>))))))))))"

definition pages_overlap :: "SegmentPlan \<Rightarrow> SegmentPlan \<Rightarrow> bool" where
  "pages_overlap segment existing \<longleftrightarrow>
     page_start segment < page_end existing \<and> page_start existing < page_end segment"

definition add_segment :: "ImagePlan \<Rightarrow> SegmentPlan \<Rightarrow> LoadError + ImagePlan" where
  "add_segment plan segment =
     (if MAX_LOAD_SEGMENTS \<le> ip_segment_count plan then Inl TooManyLoadSegments
      else if list_ex (\<lambda>i. pages_overlap segment (ip_segments plan ! i)) [0..<ip_segment_count plan]
      then Inl SegmentPageOverlap
      else let pages = unat ((page_end segment - page_start segment) div PAGE_SIZE_4K)
           in bind (ok_or (usize_add (ip_total_pages plan) pages) TooManyLoadPages) (\<lambda>total.
              if MAX_LOAD_PAGES < total then Inl TooManyLoadPages
              else Inr (plan\<lparr>ip_total_pages := total,
                     ip_image_start := min (ip_image_start plan) (page_start segment),
                     ip_image_end := max (ip_image_end plan) (page_end segment),
                     ip_segments := (ip_segments plan)[ip_segment_count plan := segment],
                     ip_segment_count := ip_segment_count plan + 1\<rparr>)))"

fun plan_headers :: "u8 list \<Rightarrow> nat \<Rightarrow> nat list \<Rightarrow> ImagePlan \<Rightarrow> bool \<Rightarrow> LoadError + ImagePlan \<times> bool" where
  "plan_headers img table_start [] plan entry_is_executable = Inr (plan, entry_is_executable)"
| "plan_headers img table_start (index # rest) plan entry_is_executable =
     bind (check_segment img (table_start + index * PROGRAM_HEADER_SIZE)) (\<lambda>found.
     case found of
       None \<Rightarrow> plan_headers img table_start rest plan entry_is_executable
     | Some segment \<Rightarrow>
         bind (add_segment plan segment) (\<lambda>plan.
         plan_headers img table_start rest plan
           (entry_is_executable \<or> sp_executable segment
              \<and> sp_virtual_address segment \<le> ip_entry_point plan
              \<and> ip_entry_point plan < memory_end segment)))"

definition validate_image :: "u8 list \<Rightarrow> LoadError + ImagePlan" where
  "validate_image img =
     bind (validate_header img) (\<lambda>(entry_point, table_start, program_header_count).
     bind (plan_headers img table_start [0..<program_header_count]
             \<lparr>ip_entry_point = entry_point, ip_image_start = - 1, ip_image_end = 0,
              ip_total_pages = 0, ip_segment_count = 0,
              ip_segments = replicate MAX_LOAD_SEGMENTS SegmentPlan_empty\<rparr> False)
       (\<lambda>(plan, entry_is_executable).
        if ip_segment_count plan = 0 then Inl NoLoadSegments
        else if \<not> entry_is_executable then Inl EntryOutsideExecutableSegment
        else Inr plan))"

section \<open>Copying\<close>

text \<open>\<open>copy_nonoverlapping\<close> from a byte slice into memory.\<close>

definition copy_in :: "memory \<Rightarrow> u64 \<Rightarrow> u8 list \<Rightarrow> memory" where
  "copy_in mem a bytes =
     (\<lambda>x. if unat (x - a) < length bytes then bytes ! unat (x - a) else mem x)"

definition copy_chunk :: "SegmentPlan \<Rightarrow> u64 \<Rightarrow> u64" where
  "copy_chunk segment copied =
     min (PAGE_SIZE_4K - ((sp_virtual_address segment + copied) AND (PAGE_SIZE_4K - 1)))
       (sp_file_size segment - copied)"

lemma copy_chunk_bounds:
  assumes "copied < sp_file_size segment"
  shows "0 < copy_chunk segment copied" "copy_chunk segment copied \<le> sp_file_size segment - copied"
proof -
  have "(sp_virtual_address segment + copied) AND (PAGE_SIZE_4K - 1) < PAGE_SIZE_4K"
    using low_less [of "sp_virtual_address segment + copied"] by (simp add: PAGE_SIZE_4K_def)
  then have "0 < PAGE_SIZE_4K - ((sp_virtual_address segment + copied) AND (PAGE_SIZE_4K - 1))"
    by (metis word_neq_0_conv eq_iff_diff_eq_0 order_less_irrefl)
  moreover have "0 < sp_file_size segment - copied"
    using assms by (metis word_neq_0_conv eq_iff_diff_eq_0 order_less_irrefl)
  ultimately show "0 < copy_chunk segment copied" by (simp add: copy_chunk_def)
  show "copy_chunk segment copied \<le> sp_file_size segment - copied" by (simp add: copy_chunk_def)
qed

lemma unat_copied:
  assumes "copied < sp_file_size segment"
  shows "unat (copied + copy_chunk segment copied) = unat copied + unat (copy_chunk segment copied)"
    "unat copied + unat (copy_chunk segment copied) \<le> unat (sp_file_size segment)"
proof -
  have "unat (sp_file_size segment - copied) = unat (sp_file_size segment) - unat copied"
    using assms by (simp add: unat_sub less_imp_le)
  then show le: "unat copied + unat (copy_chunk segment copied) \<le> unat (sp_file_size segment)"
    using copy_chunk_bounds(2) [OF assms] assms by (simp add: word_le_nat_alt word_less_nat_alt)
  have "unat (sp_file_size segment) < 2 ^ 64" using unsigned_less [where ?'a = nat, of "sp_file_size segment"] by simp
  with le have "unat copied + unat (copy_chunk segment copied) < 2 ^ 64" by linarith
  then show "unat (copied + copy_chunk segment copied) = unat copied + unat (copy_chunk segment copied)"
    by (simp add: unat_word_ariths)
qed

text \<open>
  The loop that \<open>copy_segment\<close> and \<open>copy_segment_to_address_space\<close> share; they differ in the
  translation, which the copied bytes do not change.
\<close>

function copy_loop ::
  "(memory \<Rightarrow> u64 \<Rightarrow> TranslateResult) \<Rightarrow> u8 list \<Rightarrow> SegmentPlan \<Rightarrow> u64 \<Rightarrow> memory \<Rightarrow>
   (LoadError + unit) \<times> memory" where
  "copy_loop tr img segment copied mem =
     (if copied < sp_file_size segment then
        let translation = tr mem (sp_virtual_address segment + copied)
        in if \<not> tr_mapped translation \<or> \<not> tr_user_accessible translation then (Inl MappingLost, mem)
           else let chunk = copy_chunk segment copied;
                    source_offset = unat (sp_file_offset segment + copied)
                in copy_loop tr img segment (copied + chunk)
                     (copy_in mem (tr_phys translation)
                        (slice img source_offset (source_offset + unat chunk)))
      else (Inr (), mem))"
  by pat_completeness auto
termination
proof (relation "measure (\<lambda>(_, _, segment, copied, _). unat (sp_file_size segment) - unat copied)",
    goal_cases wf step)
  case (step tr img segment copied mem x xa xb)
  then have "copied < sp_file_size segment" by simp
  from unat_copied [OF this] copy_chunk_bounds(1) [OF this] step show ?case
    by (simp add: word_less_nat_alt)
qed simp

declare copy_loop.simps [simp del]

definition copy_segment :: "u8 list \<Rightarrow> SegmentPlan \<Rightarrow> Vm \<Rightarrow> (LoadError + unit) \<times> Vm" where
  "copy_segment img segment vm =
     (case copy_loop (\<lambda>mem. translate (vm\<lparr>vm_phys := mem\<rparr>)) img segment 0 (vm_phys vm) of
        (r, mem) \<Rightarrow> (r, vm\<lparr>vm_phys := mem\<rparr>))"

definition copy_segment_to_address_space ::
  "u8 list \<Rightarrow> SegmentPlan \<Rightarrow> AddressSpace \<Rightarrow> Vm \<Rightarrow> (LoadError + unit) \<times> Vm" where
  "copy_segment_to_address_space img segment space vm =
     (case copy_loop (\<lambda>mem. space_translate (vm\<lparr>vm_phys := mem\<rparr>) space) img segment 0 (vm_phys vm) of
        (r, mem) \<Rightarrow> (r, vm\<lparr>vm_phys := mem\<rparr>))"

section \<open>Pages of a segment\<close>

text \<open>
  The values of \<open>page\<close> in a loop that starts at a page and adds a page while it is below a limit.
  The limits are page aligned, so the addition never wraps: \<open>pages_from_loop\<close> is the loop.
\<close>

definition pages_from :: "u64 \<Rightarrow> u64 \<Rightarrow> u64 list" where
  "pages_from page limit =
     map (\<lambda>k. page + of_nat k * PAGE_SIZE_4K) [0..<(unat limit - unat page + 4095) div 4096]"

lemma page_count_Suc:
  assumes "a < (b :: nat)"
  shows "(b - a + 4095) div 4096 = Suc ((b - (a + 4096) + 4095) div 4096)"
proof (cases "a + 4096 \<le> b")
  case True
  then obtain d where "b = a + 4096 + d" using le_iff_add by blast
  then show ?thesis by simp
next
  case False
  then have "(b - a + 4095) div 4096 = 1" using assms by (intro div_nat_eqI) auto
  then show ?thesis using False by simp
qed

lemma pages_from_loop:
  assumes "unat limit + 4096 \<le> 2 ^ 64"
  shows "pages_from page limit =
    (if page < limit then page # pages_from (page + PAGE_SIZE_4K) limit else [])"
proof (cases "page < limit")
  case True
  then have l: "unat page < unat limit" by (simp add: word_less_nat_alt)
  have u: "unat (page + PAGE_SIZE_4K) = unat page + 4096"
    using l assms by (simp add: PAGE_SIZE_4K_def unat_word_ariths)
  define n where "n = (unat limit - (unat page + 4096) + 4095) div 4096"
  have "(unat limit - unat page + 4095) div 4096 = Suc n" unfolding n_def by (rule page_count_Suc [OF l])
  then have "pages_from page limit = map (\<lambda>k. page + of_nat k * PAGE_SIZE_4K) (0 # map Suc [0..<n])"
    unfolding pages_from_def by (simp only: upt_conv_Cons map_Suc_upt [symmetric] zero_less_Suc)
  also have "\<dots> = page # pages_from (page + PAGE_SIZE_4K) limit"
    unfolding pages_from_def u n_def [symmetric] by (simp add: algebra_simps comp_def)
  finally show ?thesis using True by simp
next
  case False
  then have "unat limit \<le> unat page" by (simp add: word_less_nat_alt)
  then show ?thesis using False by (simp add: pages_from_def)
qed

definition segment_pages :: "SegmentPlan \<Rightarrow> u64 list" where
  "segment_pages segment = pages_from (page_start segment) (page_end segment)"

definition plan_segments :: "ImagePlan \<Rightarrow> SegmentPlan list" where
  "plan_segments plan = take (ip_segment_count plan) (ip_segments plan)"

section \<open>Loading at boot\<close>

text \<open>The pages in \<open>mapped[..mapped_count]\<close>, last one first.\<close>

fun rollback_loop :: "u64 list \<Rightarrow> Vm \<Rightarrow> Vm" where
  "rollback_loop [] vm = vm"
| "rollback_loop (page # rest) vm =
     (case unmap_page vm page of
        (Inr frame, vm) \<Rightarrow> rollback_loop rest (snd (vm_free vm frame))
      | (Inl error, vm) \<Rightarrow> rollback_loop rest vm)"

definition rollback_mappings :: "u64 list \<Rightarrow> Vm \<Rightarrow> Vm" where
  "rollback_mappings mapped vm = rollback_loop (rev mapped) vm"

text \<open>The counters of \<open>load_image\<close>: the pages mapped so far and how many are writable or executable.\<close>

record Loading =
  ld_mapped :: "u64 list"
  ld_writable :: u64
  ld_executable :: u64

fun load_pages :: "SegmentPlan \<Rightarrow> u64 list \<Rightarrow> Loading \<Rightarrow> Vm \<Rightarrow> (LoadError + Loading) \<times> Vm" where
  "load_pages segment [] ld vm = (Inr ld, vm)"
| "load_pages segment (page # rest) ld vm =
     (if tr_mapped (translate vm page)
      then (Inl TargetPageAlreadyMapped, rollback_mappings (ld_mapped ld) vm)
      else case map_new_user_page vm page (sp_permissions segment) of
        (Inr _, vm) \<Rightarrow> load_pages segment rest
          (ld\<lparr>ld_mapped := ld_mapped ld @ [page],
              ld_writable := (if sp_writable segment then sat_add (ld_writable ld) 1 else ld_writable ld),
              ld_executable := (if sp_executable segment then sat_add (ld_executable ld) 1
                                else ld_executable ld)\<rparr>) vm
      | (Inl error, vm) \<Rightarrow> (Inl (PageMappingFailed error), rollback_mappings (ld_mapped ld) vm))"

fun load_segments :: "SegmentPlan list \<Rightarrow> Loading \<Rightarrow> Vm \<Rightarrow> (LoadError + Loading) \<times> Vm" where
  "load_segments [] ld vm = (Inr ld, vm)"
| "load_segments (segment # rest) ld vm =
     (case load_pages segment (segment_pages segment) ld vm of
        (Inl error, vm) \<Rightarrow> (Inl error, vm)
      | (Inr ld, vm) \<Rightarrow> load_segments rest ld vm)"

fun copy_segments :: "u8 list \<Rightarrow> SegmentPlan list \<Rightarrow> Vm \<Rightarrow> (LoadError + unit) \<times> Vm" where
  "copy_segments img [] vm = (Inr (), vm)"
| "copy_segments img (segment # rest) vm =
     (case copy_segment img segment vm of
        (Inl error, vm) \<Rightarrow> (Inl error, vm)
      | (Inr _, vm) \<Rightarrow> copy_segments img rest vm)"

definition load_stack :: "Loading \<Rightarrow> Vm \<Rightarrow> (LoadError + Loading) \<times> Vm" where
  "load_stack ld vm =
     (if tr_mapped (translate vm USER_ELF_STACK_PAGE)
      then (Inl TargetPageAlreadyMapped, rollback_mappings (ld_mapped ld) vm)
      else case map_new_user_page vm USER_ELF_STACK_PAGE READ_WRITE of
        (Inr _, vm) \<Rightarrow> (Inr (ld\<lparr>ld_mapped := ld_mapped ld @ [USER_ELF_STACK_PAGE],
                              ld_writable := sat_add (ld_writable ld) 1\<rparr>), vm)
      | (Inl error, vm) \<Rightarrow> (Inl (StackMappingFailed error), rollback_mappings (ld_mapped ld) vm))"

definition load_image :: "u8 list \<Rightarrow> Vm \<Rightarrow> (LoadError + LoadedImage) \<times> Vm" where
  "load_image img vm =
     (case validate_image img of
        Inl error \<Rightarrow> (Inl error, vm)
      | Inr plan \<Rightarrow>
      (case load_segments (plan_segments plan) \<lparr>ld_mapped = [], ld_writable = 0, ld_executable = 0\<rparr> vm of
        (Inl error, vm) \<Rightarrow> (Inl error, vm)
      | (Inr ld, vm) \<Rightarrow>
      (case load_stack ld vm of
        (Inl error, vm) \<Rightarrow> (Inl error, vm)
      | (Inr ld, vm) \<Rightarrow>
      (case copy_segments img (plan_segments plan) vm of
        (Inl error, vm) \<Rightarrow> (Inl error, rollback_mappings (ld_mapped ld) vm)
      | (Inr _, vm) \<Rightarrow>
          (Inr \<lparr>li_entry_point = ip_entry_point plan, li_image_start = ip_image_start plan,
                li_image_end = ip_image_end plan, li_stack_top = USER_ELF_STACK_TOP,
                li_load_segments = of_nat (ip_segment_count plan),
                li_mapped_pages = of_nat (length (ld_mapped ld)),
                li_writable_pages = ld_writable ld, li_executable_pages = ld_executable ld\<rparr>, vm)))))"

definition elf_snapshot :: "LoaderState \<Rightarrow> ElfSnapshot" where
  "elf_snapshot st =
     (let field = (\<lambda>f. case ls_loaded st of None \<Rightarrow> 0 | Some img \<Rightarrow> f img)
      in \<lparr>es_initialized = ls_initialized st, es_loaded = (ls_loaded st \<noteq> None),
          es_entry_point = field li_entry_point, es_image_start = field li_image_start,
          es_image_end = field li_image_end, es_stack_top = field li_stack_top,
          es_load_segments = field li_load_segments, es_mapped_pages = field li_mapped_pages,
          es_writable_pages = field li_writable_pages,
          es_executable_pages = field li_executable_pages, es_last_error = ls_last_error st\<rparr>)"

text \<open>The archive is read in the physical memory of the state, where the boot loader put it.\<close>

definition elf_init :: "ArchiveState \<Rightarrow> LoaderState \<Rightarrow> Vm \<Rightarrow> ElfSnapshot \<times> LoaderState \<times> Vm" where
  "elf_init archive st vm =
     (if ls_initialized st then (elf_snapshot st, st, vm)
      else
        let st = st\<lparr>ls_initialized := True\<rparr>;
            (r, vm) = (case find_file (vm_phys vm) archive (ascii ''/bin/init'') of
                         None \<Rightarrow> (Inl InitProgramMissing, vm)
                       | Some file \<Rightarrow> load_image (file_data file) vm);
            st = (case r of
                    Inr img \<Rightarrow> st\<lparr>ls_loaded := Some img, ls_last_error := None\<rparr>
                  | Inl error \<Rightarrow> st\<lparr>ls_last_error := Some error\<rparr>)
        in (elf_snapshot st, st, vm))"

section \<open>Loading a process\<close>

fun map_pages :: "SegmentPlan \<Rightarrow> u64 list \<Rightarrow> AddressSpace \<Rightarrow> Vm \<Rightarrow> (LoadError + unit) \<times> AddressSpace \<times> Vm" where
  "map_pages segment [] space vm = (Inr (), space, vm)"
| "map_pages segment (page # rest) space vm =
     (case map_user_page vm space page (sp_permissions segment) of
        (Inl error, space, vm) \<Rightarrow> (Inl (AddressSpaceFailed error), space, vm)
      | (Inr _, space, vm) \<Rightarrow> map_pages segment rest space vm)"

fun map_segments :: "SegmentPlan list \<Rightarrow> AddressSpace \<Rightarrow> Vm \<Rightarrow> (LoadError + unit) \<times> AddressSpace \<times> Vm" where
  "map_segments [] space vm = (Inr (), space, vm)"
| "map_segments (segment # rest) space vm =
     (case map_pages segment (segment_pages segment) space vm of
        (Inl error, space, vm) \<Rightarrow> (Inl error, space, vm)
      | (Inr _, space, vm) \<Rightarrow> map_segments rest space vm)"

fun fill_segments :: "u8 list \<Rightarrow> SegmentPlan list \<Rightarrow> AddressSpace \<Rightarrow> Vm \<Rightarrow> (LoadError + unit) \<times> Vm" where
  "fill_segments img [] space vm = (Inr (), vm)"
| "fill_segments img (segment # rest) space vm =
     (case copy_segment_to_address_space img segment space vm of
        (Inl error, vm) \<Rightarrow> (Inl error, vm)
      | (Inr _, vm) \<Rightarrow> fill_segments img rest space vm)"

text \<open>The closure \<open>setup\<close> of \<open>create_process_image\<close>.\<close>

definition process_setup ::
  "u8 list \<Rightarrow> ImagePlan \<Rightarrow> AddressSpace \<Rightarrow> Vm \<Rightarrow> (LoadError + unit) \<times> AddressSpace \<times> Vm" where
  "process_setup img plan space vm =
     (case map_segments (plan_segments plan) space vm of
        (Inl error, space, vm) \<Rightarrow> (Inl error, space, vm)
      | (Inr _, space, vm) \<Rightarrow>
      (case map_user_page vm space USER_ELF_STACK_PAGE READ_WRITE of
        (Inl error, space, vm) \<Rightarrow> (Inl (AddressSpaceFailed error), space, vm)
      | (Inr _, space, vm) \<Rightarrow>
      (case fill_segments img (plan_segments plan) space vm of
        (Inl error, vm) \<Rightarrow> (Inl error, space, vm)
      | (Inr _, vm) \<Rightarrow>
          let audit = space_audit vm space
          in if \<not> valid_root audit \<or> aa_user_pages audit \<noteq> mapped_pages space
                \<or> writable_executable_pages audit \<noteq> 0 \<or> \<not> stack_guard_intact audit
             then (Inl MappingLost, space, vm)
             else (Inr (), space, vm))))"

text \<open>The part of \<open>create_process_image\<close> after the archive lookup, for the bytes of the file.\<close>

definition process_from_image :: "u8 list \<Rightarrow> Vm \<Rightarrow> (LoadError + ProcessImage) \<times> Vm" where
  "process_from_image img vm =
     (case validate_image img of
        Inl error \<Rightarrow> (Inl error, vm)
      | Inr plan \<Rightarrow>
      (case create vm of
        (Inl error, vm) \<Rightarrow> (Inl (AddressSpaceFailed error), vm)
      | (Inr space, vm) \<Rightarrow>
      (case process_setup img plan space vm of
        (Inl error, space, vm) \<Rightarrow> (Inl error, snd (snd (destroy vm space)))
      | (Inr _, space, vm) \<Rightarrow>
          (Inr \<lparr>pi_address_space = space, pi_entry_point = ip_entry_point plan,
                pi_stack_top = USER_ELF_STACK_TOP, pi_mapped_pages = mapped_pages space,
                pi_table_frames = table_frames space,
                pi_first_user_frame = first_user_frame space\<rparr>, vm))))"

definition create_process_image :: "ArchiveState \<Rightarrow> Vm \<Rightarrow> (LoadError + ProcessImage) \<times> Vm" where
  "create_process_image archive vm =
     (case find_file (vm_phys vm) archive (ascii ''/bin/init'') of
        None \<Rightarrow> (Inl InitProgramMissing, vm)
      | Some file \<Rightarrow> process_from_image (file_data file) vm)"

section \<open>Self test and names\<close>

definition INIT_TEXT_SIGNATURE :: "u8 list" where
  "INIT_TEXT_SIGNATURE = [0x48, 0xb8, 0x01, 0x00, 0x00, 0x00, 0x00, 0x00, 0x00, 0x00]"
definition INIT_DATA_SIGNATURE :: "u8 list" where "INIT_DATA_SIGNATURE = ascii ''Tobacco init''"
definition INIT_BSS_PROBE_OFFSET :: u64 where "INIT_BSS_PROBE_OFFSET = 128"

definition mapped_byte :: "Vm \<Rightarrow> u64 \<Rightarrow> u8 option" where
  "mapped_byte vm virtual_address =
     (let translation = translate vm virtual_address
      in if \<not> tr_mapped translation then None else Some (vm_phys vm (tr_phys translation)))"

definition mapped_bytes_equal :: "Vm \<Rightarrow> u64 \<Rightarrow> u8 list \<Rightarrow> bool" where
  "mapped_bytes_equal vm virtual_address expected =
     list_all (\<lambda>index. mapped_byte vm (virtual_address + of_nat index) = Some (expected ! index))
       [0..<length expected]"

definition elf_selftest :: "ArchiveState \<Rightarrow> LoaderState \<Rightarrow> Vm \<Rightarrow> bool" where
  "elf_selftest archive st vm =
     (let sn = elf_snapshot st;
          txt = translate vm (es_entry_point sn);
          dat = translate vm (USER_ELF_BASE + PAGE_SIZE_4K);
          stk = translate vm USER_ELF_STACK_PAGE
      in es_initialized sn \<and> es_loaded sn \<and> es_last_error sn = None
         \<and> es_load_segments sn = 2 \<and> es_mapped_pages sn = 3 \<and> es_writable_pages sn = 2
         \<and> es_executable_pages sn = 1
         \<and> tr_mapped txt \<and> tr_user_accessible txt \<and> \<not> tr_writable txt \<and> tr_executable txt
         \<and> tr_mapped dat \<and> tr_user_accessible dat \<and> tr_writable dat \<and> \<not> tr_executable dat
         \<and> tr_mapped stk \<and> tr_user_accessible stk \<and> tr_writable stk \<and> \<not> tr_executable stk
         \<and> \<not> tr_mapped (translate vm USER_ELF_STACK_GUARD)
         \<and> mapped_bytes_equal vm USER_ELF_BASE INIT_TEXT_SIGNATURE
         \<and> mapped_bytes_equal vm (USER_ELF_BASE + PAGE_SIZE_4K) INIT_DATA_SIGNATURE
         \<and> mapped_byte vm (USER_ELF_BASE + PAGE_SIZE_4K + INIT_BSS_PROBE_OFFSET) = Some 0
         \<and> initramfs_selftest (vm_phys vm) archive
         \<and> (case find_file (vm_phys vm) archive (ascii ''/bin/init'') of
              None \<Rightarrow> False
            | Some file \<Rightarrow> (case validate_image (file_data file) of Inr _ \<Rightarrow> True | Inl _ \<Rightarrow> False))
         \<and> (case validate_image (replicate ELF_HEADER_SIZE 0) of Inl e \<Rightarrow> e = BadMagic | Inr _ \<Rightarrow> False)
         \<and> (case validate_image (replicate 32 0) of Inl e \<Rightarrow> e = ImageTooSmall | Inr _ \<Rightarrow> False))"

fun load_error_name :: "LoadError \<Rightarrow> string" where
  "load_error_name AlreadyLoaded = ''ELF image is already loaded''"
| "load_error_name InitProgramMissing = ''/bin/init is missing from initramfs''"
| "load_error_name ImageTooSmall = ''ELF image is smaller than its header''"
| "load_error_name BadMagic = ''ELF magic is invalid''"
| "load_error_name UnsupportedClass = ''ELF class is not 64-bit''"
| "load_error_name UnsupportedEndianness = ''ELF byte order is not little-endian''"
| "load_error_name UnsupportedIdentVersion = ''ELF identification version is unsupported''"
| "load_error_name UnsupportedType = ''ELF type is not executable''"
| "load_error_name UnsupportedMachine = ''ELF machine is not x86_64''"
| "load_error_name UnsupportedVersion = ''ELF version is unsupported''"
| "load_error_name InvalidHeaderSize = ''ELF header size is invalid''"
| "load_error_name InvalidProgramHeaderSize = ''ELF program header size is invalid''"
| "load_error_name InvalidProgramHeaderCount = ''ELF program header count is invalid''"
| "load_error_name ProgramHeaderTableOutsideImage = ''ELF program header table is truncated''"
| "load_error_name NoLoadSegments = ''ELF has no PT_LOAD segments''"
| "load_error_name TooManyLoadSegments = ''ELF has too many PT_LOAD segments''"
| "load_error_name SegmentFileLargerThanMemory = ''ELF segment file size exceeds memory size''"
| "load_error_name SegmentOutsideImage = ''ELF segment data is truncated''"
| "load_error_name SegmentAddressOverflow = ''ELF segment address overflows''"
| "load_error_name SegmentOutsideUserRegion = ''ELF segment is outside the user load region''"
| "load_error_name SegmentAlignmentInvalid = ''ELF segment alignment is invalid''"
| "load_error_name SegmentMissingReadPermission = ''ELF PT_LOAD segment is not readable''"
| "load_error_name WritableExecutableSegment = ''ELF segment violates W^X''"
| "load_error_name SegmentPageOverlap = ''ELF PT_LOAD pages overlap''"
| "load_error_name TooManyLoadPages = ''ELF image exceeds loader page capacity''"
| "load_error_name EntryOutsideExecutableSegment = ''ELF entry is outside executable memory''"
| "load_error_name TargetPageAlreadyMapped = ''ELF target page is already mapped''"
| "load_error_name (PageMappingFailed error) = map_error_name error"
| "load_error_name (StackMappingFailed error) = map_error_name error"
| "load_error_name (AddressSpaceFailed error) = address_space_error_name error"
| "load_error_name MappingLost = ''ELF mapping disappeared during load''"

end
