(* ===== verification/Elf_Plan.thy ===== *)
theory Elf_Plan
  imports Elf
begin

unbundle bit_operations_syntax

text \<open>
  What validation guarantees: the plan of an accepted image has disjoint page ranges inside the user
  region, file ranges inside the image and no segment that is writable and executable.
\<close>

declare bind_Inr [simp] ok_or_Inr [simp]

section \<open>Segments\<close>

definition segment_ok :: "u8 list \<Rightarrow> SegmentPlan \<Rightarrow> bool" where
  "segment_ok img s \<longleftrightarrow> unat (sp_file_offset s) + unat (sp_file_size s) \<le> length img
     \<and> sp_file_size s \<le> sp_memory_size s \<and> sp_memory_size s \<noteq> 0
     \<and> unat USER_ELF_BASE \<le> unat (sp_virtual_address s)
     \<and> unat (sp_virtual_address s) + unat (sp_memory_size s) \<le> unat USER_ELF_END
     \<and> \<not> (sp_writable s \<and> sp_executable s)"

lemma elf_numbers:
  "unat USER_ELF_BASE = 0x40100000" "unat USER_ELF_END = 0x40200000" "unat USER_ELF_STACK_PAGE = 0x40201000"
  "unat USER_ELF_STACK_GUARD = 0x40200000"
  by (simp_all add: USER_ELF_BASE_def USER_ELF_END_def USER_ELF_STACK_PAGE_def USER_ELF_STACK_GUARD_def
      USER_SPACE_BASE_def USER_ELF_SIZE_def PAGE_SIZE_4K_def BOOT_IDENTITY_MAP_BYTES_def)

lemma check_segment_ok:
  assumes "check_segment img offset = Inr (Some s)" and "length img < 2 ^ 64"
  shows "segment_ok img s"
proof -
  have len: "unat (of_nat (length img) :: u64) = length img" using assms(2) by (simp add: unat_of_nat)
  show ?thesis
    using assms(1) unfolding check_segment_def
    by (auto simp: segment_ok_def Let_def not_less word_le_nat_alt word_less_nat_alt len
        dest!: checked_add_Some split: if_splits)
qed

lemma page_bounds:
  assumes "segment_ok img s"
  defines "a \<equiv> unat (sp_virtual_address s)"
  defines "e \<equiv> unat (sp_virtual_address s) + unat (sp_memory_size s)"
  shows "unat (page_start s) = a div 4096 * 4096" "unat (memory_end s) = e"
    "unat (page_end s) = (e + 4095) div 4096 * 4096"
    "0x40100000 \<le> unat (page_start s)" "unat (page_end s) \<le> 0x40200000"
    "unat (page_start s) \<le> a" "a < e" "e \<le> unat (page_end s)"
proof -
  have b: "0x40100000 \<le> a" "e \<le> 0x40200000" "a < e"
    using assms(1) by (auto simp: segment_ok_def elf_numbers a_def e_def unat_gt_0)
  have p: "PAGE_SIZE_4K - 1 = (2 ^ 12 - 1 :: u64)" by (simp add: PAGE_SIZE_4K_def)
  show ps: "unat (page_start s) = a div 4096 * 4096"
    using unat_clear_low [of 12 "sp_virtual_address s"]
    by (simp add: page_start_def elf_align_down_def p a_def)
  show me: "unat (memory_end s) = e"
    using b by (simp add: memory_end_def e_def unat_word_ariths)
  have "unat (memory_end s + (PAGE_SIZE_4K - 1)) = e + 4095"
    using b me by (simp add: PAGE_SIZE_4K_def unat_word_ariths)
  moreover have "checked_add (memory_end s) (PAGE_SIZE_4K - 1) = Some (memory_end s + (PAGE_SIZE_4K - 1))"
    using b me by (simp add: checked_add_def PAGE_SIZE_4K_def)
  ultimately show pe: "unat (page_end s) = (e + 4095) div 4096 * 4096"
    using unat_clear_low [of 12 "memory_end s + (PAGE_SIZE_4K - 1)"]
    by (simp add: page_end_def elf_align_up_def elf_align_down_def p)
  have "0x40100 \<le> a div 4096" using div_le_mono [OF b(1), of 4096] by simp
  then show "0x40100000 \<le> unat (page_start s)" using ps by simp
  have "(e + 4095) div 4096 \<le> 0x40200" using div_le_mono [of "e + 4095" "0x40200fff" 4096] b(2) by simp
  then show "unat (page_end s) \<le> 0x40200000" using pe by simp
  show "unat (page_start s) \<le> a" "a < e" using ps b by simp_all
  have "e + 4095 < (e + 4095) div 4096 * 4096 + 4096"
    using mod_less_divisor [of 4096 "e + 4095"] div_mult_mod_eq [of "e + 4095" 4096] by linarith
  then show "e \<le> unat (page_end s)" using pe by simp
qed

text \<open>The pages of a segment as numbers.\<close>

lemma segment_pages_nth:
  assumes ok: "segment_ok img s"
  shows "length (segment_pages s) = unat ((page_end s - page_start s) div PAGE_SIZE_4K)"
    "k < length (segment_pages s) \<Longrightarrow> unat (segment_pages s ! k) = unat (page_start s) + 4096 * k
       \<and> unat (page_start s) + 4096 * k < unat (page_end s)"
proof -
  note b = page_bounds [OF ok]
  obtain c d where cd: "unat (page_start s) = c * 4096" "unat (page_end s) = d * 4096" using b(1,3) by blast
  have le: "c \<le> d" using b(6-8) cd by simp
  have n: "(unat (page_end s) - unat (page_start s) + 4095) div 4096 = d - c"
  proof -
    have "d * 4096 - c * 4096 + 4095 = 4095 + (d - c) * 4096" by (simp add: diff_mult_distrib)
    then show ?thesis unfolding cd by simp
  qed
  have "page_start s \<le> page_end s" using le cd by (simp add: word_le_nat_alt)
  then have "unat (page_end s - page_start s) = (d - c) * 4096"
    by (simp add: unat_sub cd diff_mult_distrib)
  then have "unat ((page_end s - page_start s) div PAGE_SIZE_4K) = d - c"
    by (simp add: unat_div PAGE_SIZE_4K_def)
  moreover have ps: "segment_pages s = map (\<lambda>k. page_start s + of_nat k * PAGE_SIZE_4K) [0..<d - c]"
    unfolding segment_pages_def pages_from_def n ..
  ultimately show "length (segment_pages s) = unat ((page_end s - page_start s) div PAGE_SIZE_4K)" by simp
  assume "k < length (segment_pages s)"
  then have k: "k < d - c" by (simp add: ps)
  then have lt: "c * 4096 + 4096 * k < d * 4096" by simp
  have k20: "k < 2 ^ 20" using k b(5) cd by simp
  then have "unat (of_nat k * PAGE_SIZE_4K :: u64) = 4096 * k"
    by (simp add: PAGE_SIZE_4K_def unat_word_ariths unat_of_nat)
  then have "unat (page_start s + of_nat k * PAGE_SIZE_4K) = c * 4096 + 4096 * k"
    using lt b(5) cd by (simp add: unat_word_ariths)
  then show "unat (segment_pages s ! k) = unat (page_start s) + 4096 * k
      \<and> unat (page_start s) + 4096 * k < unat (page_end s)"
    using k lt cd by (simp add: ps)
qed

text \<open>Facts on the pages of a segment as the page tables see them.\<close>

lemma segment_page_props:
  assumes ok: "segment_ok img s" and p: "p \<in> set (segment_pages s)"
  shows "frame_aligned p" "unat (page_start s) \<le> unat p" "unat p < unat (page_end s)"
    "0x40100000 \<le> unat p" "unat p < 0x40200000" "4096 dvd unat p"
proof -
  obtain k where k: "k < length (segment_pages s)" "p = segment_pages s ! k" using p by (auto simp: in_set_conv_nth)
  note n = segment_pages_nth(2) [OF ok k(1), folded k(2)] and b = page_bounds [OF ok]
  show "unat (page_start s) \<le> unat p" "unat p < unat (page_end s)" using n by simp_all
  then show "0x40100000 \<le> unat p" "unat p < 0x40200000" using b(4,5) by simp_all
  show d: "4096 dvd unat p" using n b(1) by simp
  have "unat (page_of p) = unat p" using unat_clear_low [of 12 p] d by (simp add: page_of_def)
  then have "page_of p = p" by (simp add: word_unat_eq_iff)
  then show "frame_aligned p" using frame_aligned_page_of [of p] by simp
qed

lemma segment_pages_distinct:
  assumes "segment_ok img s"
  shows "distinct (segment_pages s)"
  unfolding distinct_conv_nth using segment_pages_nth(2) [OF assms] by (metis add_left_cancel mult_left_cancel zero_neq_numeral)

lemma segment_covers:
  assumes ok: "segment_ok img s" and k: "k < unat (sp_memory_size s)"
  shows "page_of (sp_virtual_address s + of_nat k) \<in> set (segment_pages s)"
    "unat (sp_virtual_address s + of_nat k) = unat (sp_virtual_address s) + k"
proof -
  note b = page_bounds [OF ok]
  let ?a = "sp_virtual_address s" and ?v = "sp_virtual_address s + of_nat k"
  have lim: "unat ?a + k < 0x40200000" using b(5,8) k by linarith
  then show u: "unat ?v = unat ?a + k" by (simp add: unat_word_ariths unat_of_nat)
  have up: "unat (page_of ?v) = unat ?v div 4096 * 4096"
    using unat_clear_low [of 12 ?v] by (simp add: page_of_def)
  define j where "j = unat ?v div 4096 - unat ?a div 4096"
  have le: "unat ?a div 4096 \<le> unat ?v div 4096" using u by (simp add: div_le_mono)
  have e: "unat (page_of ?v) = unat (page_start s) + 4096 * j"
    using up b(1) le by (simp add: j_def diff_mult_distrib2)
  have lt: "unat (page_of ?v) < unat (page_end s)"
    using up u k b(8) div_times_less_eq_dividend [of "unat ?v" 4096] by linarith
  have j: "j < length (segment_pages s)"
  proof -
    have "page_start s \<le> page_end s" using b(6-8) by (simp add: word_le_nat_alt)
    then have "length (segment_pages s) = (unat (page_end s) - unat (page_start s)) div 4096"
      using segment_pages_nth(1) [OF ok] by (simp add: unat_div unat_sub PAGE_SIZE_4K_def)
    moreover have "4096 dvd unat (page_end s) - unat (page_start s)" using b(1,3) by (simp add: dvd_diff_nat)
    ultimately show ?thesis using e lt by (auto elim!: dvdE)
  qed
  have "unat (page_of ?v) = unat (segment_pages s ! j)" using segment_pages_nth(2) [OF ok j] e by simp
  then have "page_of ?v = segment_pages s ! j" by (simp add: word_unat_eq_iff)
  then show "page_of ?v \<in> set (segment_pages s)" using j by simp
qed

section \<open>Plans\<close>

definition disjoint_pages :: "SegmentPlan list \<Rightarrow> bool" where
  "disjoint_pages ss \<longleftrightarrow> (\<forall>i < length ss. \<forall>j < length ss. i \<noteq> j \<longrightarrow> \<not> pages_overlap (ss ! i) (ss ! j))"

definition plan_ok :: "u8 list \<Rightarrow> ImagePlan \<Rightarrow> bool" where
  "plan_ok img plan \<longleftrightarrow> length (ip_segments plan) = MAX_LOAD_SEGMENTS
     \<and> ip_segment_count plan \<le> MAX_LOAD_SEGMENTS
     \<and> (\<forall>s \<in> set (plan_segments plan). segment_ok img s)
     \<and> disjoint_pages (plan_segments plan)
     \<and> ip_total_pages plan = length (concat (map segment_pages (plan_segments plan)))
     \<and> ip_total_pages plan \<le> MAX_LOAD_PAGES"

lemma plan_segments_length: "plan_ok img plan \<Longrightarrow> length (plan_segments plan) = ip_segment_count plan"
  by (simp add: plan_ok_def plan_segments_def)

lemma pages_overlap_sym: "pages_overlap s t = pages_overlap t s"
  by (auto simp: pages_overlap_def)

lemma disjoint_pages_snoc:
  "disjoint_pages (ss @ [s]) \<longleftrightarrow> disjoint_pages ss \<and> (\<forall>t \<in> set ss. \<not> pages_overlap s t)"
proof -
  have "disjoint_pages (ss @ [s]) \<longleftrightarrow> disjoint_pages ss
      \<and> (\<forall>i < length ss. \<not> pages_overlap s (ss ! i) \<and> \<not> pages_overlap (ss ! i) s)"
    by (simp add: disjoint_pages_def all_conj_distrib less_Suc_eq imp_conjR nth_append imp_disjL)
  then show ?thesis using pages_overlap_sym by (metis in_set_conv_nth)
qed

lemma add_segmentE:
  assumes a: "add_segment plan s = Inr plan'" and s: "segment_ok img s"
  obtains total where "ip_segment_count plan < MAX_LOAD_SEGMENTS"
    "\<forall>i < ip_segment_count plan. \<not> pages_overlap s (ip_segments plan ! i)"
    "usize_add (ip_total_pages plan) (length (segment_pages s)) = Some total" "total \<le> MAX_LOAD_PAGES"
    "ip_total_pages plan' = total" "ip_segments plan' = (ip_segments plan)[ip_segment_count plan := s]"
    "ip_segment_count plan' = ip_segment_count plan + 1" "ip_entry_point plan' = ip_entry_point plan"
proof -
  let ?n = "ip_segment_count plan"
  have n: "\<not> MAX_LOAD_SEGMENTS \<le> ?n"
  proof
    assume h: "MAX_LOAD_SEGMENTS \<le> ?n"
    show False using a [unfolded add_segment_def if_P [OF h]] by simp
  qed
  have nl: "\<not> list_ex (\<lambda>i. pages_overlap s (ip_segments plan ! i)) [0..<?n]"
  proof
    assume h: "list_ex (\<lambda>i. pages_overlap s (ip_segments plan ! i)) [0..<?n]"
    show False using a [unfolded add_segment_def if_not_P [OF n] if_P [OF h]] by simp
  qed
  obtain total where t: "usize_add (ip_total_pages plan) (length (segment_pages s)) = Some total"
    and r: "(if MAX_LOAD_PAGES < total then Inl TooManyLoadPages
        else Inr (plan\<lparr>ip_total_pages := total,
               ip_image_start := min (ip_image_start plan) (page_start s),
               ip_image_end := max (ip_image_end plan) (page_end s),
               ip_segments := (ip_segments plan)[?n := s], ip_segment_count := ?n + 1\<rparr>)) = Inr plan'"
    using a [unfolded add_segment_def if_not_P [OF n] if_not_P [OF nl] Let_def bind_Inr ok_or_Inr
      segment_pages_nth(1) [OF s, symmetric]] by (elim exE conjE)
  have lim: "\<not> MAX_LOAD_PAGES < total"
  proof
    assume h: "MAX_LOAD_PAGES < total"
    show False using r [unfolded if_P [OF h]] by simp
  qed
  have e: "ip_total_pages plan' = total" "ip_segments plan' = (ip_segments plan)[?n := s]"
    "ip_segment_count plan' = ?n + 1" "ip_entry_point plan' = ip_entry_point plan"
    unfolding sum.inject(2) [THEN iffD1, OF r [unfolded if_not_P [OF lim]], symmetric] by simp_all
  show thesis by (rule that [OF _ _ t _ e]) (use n nl lim in \<open>simp_all add: list_ex_iff\<close>)
qed

lemma add_segment_ok:
  assumes ok: "plan_ok img plan" and s: "segment_ok img s" and a: "add_segment plan s = Inr plan'"
  shows "plan_ok img plan' \<and> plan_segments plan' = plan_segments plan @ [s]
    \<and> ip_entry_point plan' = ip_entry_point plan"
  using a s
proof (rule add_segmentE)
  fix total
  assume A: "ip_segment_count plan < MAX_LOAD_SEGMENTS"
    "\<forall>i < ip_segment_count plan. \<not> pages_overlap s (ip_segments plan ! i)"
    "usize_add (ip_total_pages plan) (length (segment_pages s)) = Some total" "total \<le> MAX_LOAD_PAGES"
    "ip_total_pages plan' = total" "ip_segments plan' = (ip_segments plan)[ip_segment_count plan := s]"
    "ip_segment_count plan' = ip_segment_count plan + 1" "ip_entry_point plan' = ip_entry_point plan"
  have len: "length (ip_segments plan) = MAX_LOAD_SEGMENTS" using ok by (simp add: plan_ok_def)
  have e: "plan_segments plan' = plan_segments plan @ [s]"
    using A(1) len by (simp add: plan_segments_def A(6,7) take_Suc_conv_app_nth)
  have "\<forall>t \<in> set (plan_segments plan). \<not> pages_overlap s t"
    using A(1,2) len by (auto simp: plan_segments_def in_set_conv_nth)
  moreover have "total = ip_total_pages plan + length (segment_pages s)" using usize_add_SomeD [OF A(3)] by simp
  ultimately show ?thesis
    using ok s A(1,4) len unfolding plan_ok_def e disjoint_pages_snoc by (simp add: A(5-8))
qed

definition entry_ok :: "ImagePlan \<Rightarrow> bool" where
  "entry_ok plan \<longleftrightarrow> (\<exists>s \<in> set (plan_segments plan). sp_executable s
     \<and> sp_virtual_address s \<le> ip_entry_point plan \<and> ip_entry_point plan < memory_end s)"

lemma plan_headers_ok:
  assumes "plan_headers img start is plan b = Inr (plan', b')" and "plan_ok img plan" and "length img < 2 ^ 64"
    and "b \<longrightarrow> entry_ok plan"
  shows "plan_ok img plan' \<and> (b' \<longrightarrow> entry_ok plan')"
  using assms
proof (induction "is" arbitrary: plan b)
  case (Cons i rest)
  from Cons.prems(1) obtain found where f: "check_segment img (start + i * PROGRAM_HEADER_SIZE) = Inr found"
    by auto
  show ?case
  proof (cases found)
    case None
    then show ?thesis using Cons.IH [of plan b] Cons.prems f by simp
  next
    case (Some s)
    have s: "segment_ok img s" using check_segment_ok [of img _ s] f Some Cons.prems(3) by simp
    from Cons.prems(1) f Some obtain plan1 where a: "add_segment plan s = Inr plan1"
      and r: "plan_headers img start rest plan1 (b \<or> sp_executable s \<and> sp_virtual_address s \<le> ip_entry_point plan1
         \<and> ip_entry_point plan1 < memory_end s) = Inr (plan', b')" by auto
    note A = add_segment_ok [OF Cons.prems(2) s a]
    show ?thesis by (rule Cons.IH [OF r]) (use A Cons.prems(3,4) in \<open>auto simp: entry_ok_def\<close>)
  qed
qed simp

text \<open>An accepted image has a plan within all limits, with at least one segment and its entry point in code.\<close>

lemma validate_image_ok:
  assumes "validate_image img = Inr plan" and "length img < 2 ^ 64"
  shows "plan_ok img plan" "plan_segments plan \<noteq> []"
    "entry_ok plan"
proof -
  from assms(1) obtain entry start n where
    r: "plan_headers img start [0..<n] \<lparr>ip_entry_point = entry, ip_image_start = - 1, ip_image_end = 0,
         ip_total_pages = 0, ip_segment_count = 0,
         ip_segments = replicate MAX_LOAD_SEGMENTS SegmentPlan_empty\<rparr> False = Inr (plan, True)"
    and c: "ip_segment_count plan \<noteq> 0"
    by (auto simp: validate_image_def split: if_splits)
  from plan_headers_ok [OF r _ assms(2)]
  have P: "plan_ok img plan" "entry_ok plan"
    by (simp_all add: plan_ok_def plan_segments_def disjoint_pages_def)
  then show "plan_ok img plan" "entry_ok plan" by simp_all
  show "plan_segments plan \<noteq> []" using plan_segments_length [OF P(1)] c by auto
qed

end
