(* ===== verification/Frame_Store.thy ===== *)
theory Frame_Store
  imports Paging Physmem_Properties
begin

unbundle bit_operations_syntax

text \<open>
  Page table entries bit by bit, and the indices of user addresses: what the flags of an entry
  say, that a frame survives being packed with flags, and that a user page is determined by
  its indices in the two lower levels.
\<close>

section \<open>Flags\<close>

lemma entry_flag_bits:
  "entry_present e \<longleftrightarrow> bit e 0" "entry_writable e \<longleftrightarrow> bit e 1" "entry_user e \<longleftrightarrow> bit e 2"
  "entry_huge e \<longleftrightarrow> bit e 7" "entry_no_execute e \<longleftrightarrow> bit e 63"
  by (simp_all only: entry_present_def entry_writable_def entry_user_def entry_huge_def
      entry_no_execute_def entry_bit_defs push_bit_of_1 and_exp_eq_0_iff_not_bit not_not)

text \<open>A frame the kernel can reach through the identity map.\<close>

definition ok_frame :: "u64 \<Rightarrow> bool" where
  "ok_frame f \<longleftrightarrow> frame_aligned f \<and> identity_reachable f"

lemma ok_frame_bits: "ok_frame f \<Longrightarrow> bit f n \<Longrightarrow> 12 \<le> n \<and> n < 30"
proof -
  assume f: "ok_frame f" and n: "bit f n"
  have "f AND mask 12 = 0" using f by (simp add: ok_frame_def frame_aligned_def low_mask)
  then have "\<not> bit (f AND mask 12) n" by simp
  with n have 1: "12 \<le> n" by (auto simp: bit_simps)
  have "f < 2 ^ 30" using f by (simp add: ok_frame_def identity_reachable_def BOOT_IDENTITY_MAP_BYTES_def)
  then have "f AND mask 30 = f" by (rule less_mask_eq)
  with n have "bit (f AND mask 30) n" by simp
  with 1 show ?thesis by (auto simp: bit_simps)
qed

lemma addr_mask: "ENTRY_ADDR_MASK = push_bit 12 (mask 40)"
  by (simp add: ENTRY_ADDR_MASK_def push_bit_eq_mult mask_eq_exp_minus_1)

lemma aligned_frame_iff: "is_page_aligned v \<longleftrightarrow> frame_aligned v" "is_frame_aligned v \<longleftrightarrow> frame_aligned v"
  by (simp_all add: is_page_aligned_def is_frame_aligned_def frame_aligned_def PAGE_SIZE_4K_def
      FRAME_SIZE_def)

lemma frame_aligned_entry_addr [simp]: "frame_aligned (entry_addr e)"
  unfolding frame_aligned_def entry_addr_def addr_mask low_mask
  by (rule bit_word_eqI) (auto simp: bit_simps)

text \<open>Flags that fit beside a frame.\<close>

definition flag_word :: "u64 \<Rightarrow> bool" where
  "flag_word w \<longleftrightarrow> w AND ENTRY_ADDR_MASK = 0"

lemma flag_word_bits: "flag_word w \<Longrightarrow> bit w n \<Longrightarrow> \<not> (12 \<le> n \<and> n < 52)"
proof
  assume w: "flag_word w" and n: "bit w n" and r: "12 \<le> n \<and> n < 52"
  have "bit (w AND ENTRY_ADDR_MASK) n" using n r by (auto simp: addr_mask bit_simps)
  with w show False by (simp add: flag_word_def)
qed

lemma entry_addr_pack [simp]: "ok_frame f \<Longrightarrow> flag_word w \<Longrightarrow> entry_addr (f OR w) = f"
  unfolding entry_addr_def addr_mask
  by (rule bit_word_eqI) (auto simp: bit_simps dest: ok_frame_bits flag_word_bits)

lemma pack_bits:
  assumes "ok_frame f"
  shows "bit (f OR w) 0 = bit w 0" "bit (f OR w) 1 = bit w 1" "bit (f OR w) 2 = bit w 2"
    "bit (f OR w) 7 = bit w 7" "bit (f OR w) 63 = bit w 63"
  using ok_frame_bits [OF assms, of 0] ok_frame_bits [OF assms, of 1] ok_frame_bits [OF assms, of 2]
    ok_frame_bits [OF assms, of 7] ok_frame_bits [OF assms, of 63] by (auto simp: bit_or_iff)

definition TABLE_FLAGS :: u64 where
  "TABLE_FLAGS = ENTRY_PRESENT OR ENTRY_WRITABLE OR ENTRY_USER"

lemma flag_wordI: "(\<And>n. bit w n \<Longrightarrow> n < 12 \<or> 52 \<le> n) \<Longrightarrow> flag_word w"
  unfolding flag_word_def addr_mask by (rule bit_word_eqI) (fastforce simp: bit_simps)

lemma entry_bits_bit:
  "bit ENTRY_PRESENT n \<longleftrightarrow> n = 0" "bit ENTRY_WRITABLE n \<longleftrightarrow> n = 1" "bit ENTRY_USER n \<longleftrightarrow> n = 2"
  "bit ENTRY_NO_EXECUTE n \<longleftrightarrow> n = 63"
  by (auto simp: entry_bit_defs bit_simps simp del: push_bit_of_1)

lemma table_flags:
  "flag_word TABLE_FLAGS" "bit TABLE_FLAGS 0" "bit TABLE_FLAGS 1" "bit TABLE_FLAGS 2"
  "\<not> bit TABLE_FLAGS 7" "\<not> bit TABLE_FLAGS 63"
  by (auto intro!: flag_wordI simp: TABLE_FLAGS_def bit_or_iff entry_bits_bit)

lemma permission_flag_bits:
  "flag_word (permission_flags p)" "bit (permission_flags p) 0"
  "bit (permission_flags p) 1 = up_writable p" "bit (permission_flags p) 2"
  "\<not> bit (permission_flags p) 7" "bit (permission_flags p) 63 = (\<not> up_executable p)"
  by (auto intro!: flag_wordI simp: permission_flags_def Let_def bit_or_iff entry_bits_bit
      split: if_splits)

lemma table_entry:
  assumes "ok_frame f"
  shows "entry_present (f OR TABLE_FLAGS)" "entry_user (f OR TABLE_FLAGS)"
    "entry_writable (f OR TABLE_FLAGS)" "\<not> entry_no_execute (f OR TABLE_FLAGS)"
    "\<not> entry_huge (f OR TABLE_FLAGS)" "entry_addr (f OR TABLE_FLAGS) = f" "f OR TABLE_FLAGS \<noteq> 0"
  using assms table_flags pack_bits [OF assms, of TABLE_FLAGS]
  by (auto simp: entry_flag_bits)

lemma leaf_entry:
  assumes "ok_frame f"
  shows "entry_present (f OR permission_flags p)" "entry_user (f OR permission_flags p)"
    "entry_writable (f OR permission_flags p) = up_writable p"
    "entry_no_execute (f OR permission_flags p) = (\<not> up_executable p)"
    "entry_addr (f OR permission_flags p) = f" "f OR permission_flags p \<noteq> 0"
  using assms permission_flag_bits [of p] pack_bits [OF assms, of "permission_flags p"]
  by (auto simp: entry_flag_bits)

lemma table_from_entry_pack:
  assumes "ok_frame f"
  shows "table_from_entry (f OR TABLE_FLAGS) = Some f" "table_from_entry_mut (f OR TABLE_FLAGS) = Some f"
  using assms table_entry(6) [OF assms]
  by (simp_all add: table_from_entry_def table_from_entry_mut_def ok_frame_def)

lemma entry_zero_flags [simp]: "\<not> entry_present 0" "entry_addr 0 = 0"
  by (simp_all add: entry_present_def entry_addr_def)

section \<open>Indices of user addresses\<close>

lemma index_less: "p4_index v < 512" "p3_index v < 512" "p2_index v < 512" "p1_index v < 512"
proof -
  have "unat (w AND 0x1ff) < 512" for w :: u64
    using and_mask_less' [of 9 w] by (simp add: mask_eq_exp_minus_1 word_less_nat_alt)
  then show "p4_index v < 512" "p3_index v < 512" "p2_index v < 512" "p1_index v < 512"
    by (simp_all add: p4_index_def p3_index_def p2_index_def p1_index_def)
qed

lemma index_nat:
  "p4_index v = unat v div 2 ^ 39 mod 512" "p3_index v = unat v div 2 ^ 30 mod 512"
  "p2_index v = unat v div 2 ^ 21 mod 512" "p1_index v = unat v div 2 ^ 12 mod 512"
proof -
  have "unat (drop_bit n v AND 0x1ff) = unat v div 2 ^ n mod 512" for n
  proof -
    have "drop_bit n v AND 0x1ff = take_bit 9 (drop_bit n v)"
      by (simp add: take_bit_eq_mask mask_eq_exp_minus_1)
    then have "unat (drop_bit n v AND 0x1ff) = take_bit 9 (drop_bit n (unat v))"
      by (simp only: unsigned_take_bit_eq unat_drop_bit_eq)
    then show ?thesis by (simp add: take_bit_eq_mod drop_bit_eq_div)
  qed
  then show "p4_index v = unat v div 2 ^ 39 mod 512" "p3_index v = unat v div 2 ^ 30 mod 512"
    "p2_index v = unat v div 2 ^ 21 mod 512" "p1_index v = unat v div 2 ^ 12 mod 512"
    by (simp_all only: p4_index_def p3_index_def p2_index_def p1_index_def)
qed

lemma user_range_nat: "in_user_virtual_range v \<longleftrightarrow> 2 ^ 30 \<le> unat v \<and> unat v < 2 ^ 30 + 2 ^ 24"
  by (simp add: in_user_virtual_range_def region_consts USER_SPACE_END_def word_le_nat_alt word_less_nat_alt)

lemma user_index:
  assumes "in_user_virtual_range v"
  shows "p4_index v = 0" "p3_index v = 1"
proof -
  have "unat v div 2 ^ 39 = 0" "unat v div 2 ^ 30 = 1"
    using assms unfolding user_range_nat by (simp_all add: div_nat_eqI)
  then show "p4_index v = 0" "p3_index v = 1" by (simp_all add: index_nat)
qed

lemma user_p3: "unat (drop_bit 30 USER_SPACE_BASE AND 0x1ff) = 1"
  by code_simp

lemma page_of_nat: "unat (page_of v) = unat v - unat v mod 4096" "unat (v AND 0xfff) = unat v mod 4096"
proof -
  have "v AND 0xfff = take_bit 12 v" by (simp add: take_bit_eq_mask low_mask)
  then have "unat (v AND 0xfff) = take_bit 12 (unat v)" by (simp only: unsigned_take_bit_eq)
  then show m: "unat (v AND 0xfff) = unat v mod 4096" by (simp add: take_bit_eq_mod)
  have "unat (page_of v + (v AND 0xfff)) = unat v" by (simp add: page_split [symmetric])
  moreover have "page_of v = v - (v AND 0xfff)" using page_split [of v] by (metis add_diff_cancel)
  moreover have "v AND 0xfff \<le> v" by (simp add: word_and_le2)
  ultimately show "unat (page_of v) = unat v - unat v mod 4096" by (simp add: unat_sub m)
qed

lemma aligned_nat: "frame_aligned v \<longleftrightarrow> unat v mod 4096 = 0"
  by (metis frame_aligned_def page_of_nat(2) unat_eq_zero)

lemma div_chain: "(x :: nat) div 2 ^ 21 = x div 2 ^ 12 div 512" "x div 2 ^ 30 = x div 2 ^ 21 div 512"
  by (simp_all add: div_mult2_eq [symmetric])

lemma div_mod_inj: "(a :: nat) div m = b div m \<Longrightarrow> a mod m = b mod m \<Longrightarrow> a = b"
  by (metis div_mult_mod_eq)

text \<open>A user page is determined by its indices in the two lower levels.\<close>

lemma user_page_determined:
  assumes "in_user_virtual_range v" and "in_user_virtual_range w"
    and "p2_index v = p2_index w" and "p1_index v = p1_index w"
  shows "page_of v = page_of w"
proof -
  note r = assms(1,2) [unfolded user_range_nat]
  have 30: "unat v div 2 ^ 30 = 1" "unat w div 2 ^ 30 = 1" using r by (simp_all add: div_nat_eqI)
  have 21: "unat v div 2 ^ 21 = unat w div 2 ^ 21"
  proof (rule div_mod_inj)
    show "unat v div 2 ^ 21 div 512 = unat w div 2 ^ 21 div 512"
      unfolding div_chain(2) [symmetric] 30 ..
    show "unat v div 2 ^ 21 mod 512 = unat w div 2 ^ 21 mod 512"
      using assms(3) unfolding index_nat .
  qed
  have "unat v div 2 ^ 12 = unat w div 2 ^ 12"
  proof (rule div_mod_inj)
    show "unat v div 2 ^ 12 div 512 = unat w div 2 ^ 12 div 512"
      unfolding div_chain(1) [symmetric] 21 ..
    show "unat v div 2 ^ 12 mod 512 = unat w div 2 ^ 12 mod 512"
      using assms(4) unfolding index_nat .
  qed
  then have "unat v div 4096 = unat w div 4096" by simp
  then have "unat (page_of v) = unat (page_of w)"
    unfolding page_of_nat by (simp only: minus_mod_eq_mult_div)
  then show ?thesis by (simp add: word_unat_eq_iff)
qed

lemma user_range_index:
  assumes "unat v < 2 ^ 48" "p4_index v = 0" "p3_index v = 1" "p2_index v < 8"
  shows "in_user_virtual_range v"
proof -
  let ?n = "unat v"
  have split: "m = (m div 512) * 512 + m mod 512" for m :: nat by simp
  have d: "?n div 2 ^ 39 = ?n div 2 ^ 30 div 512" "?n div 2 ^ 30 = ?n div 2 ^ 21 div 512"
    by (simp_all flip: div_mult2_eq)
  have "?n div 2 ^ 39 < 512" using assms(1) by (simp add: div_less_iff_less_mult)
  then have 4: "?n div 2 ^ 39 = 0" using assms(2) by (simp add: index_nat)
  then have 3: "?n div 2 ^ 30 = 1" using assms(3) split [of "?n div 2 ^ 30"] unfolding index_nat d(1) by simp
  then have "?n div 2 ^ 21 = 512 + p2_index v" using split [of "?n div 2 ^ 21"] unfolding index_nat d(2) by simp
  then have "?n div 2 ^ 21 < 520" "512 \<le> ?n div 2 ^ 21" using assms(4) by simp_all
  then show ?thesis unfolding user_range_nat by (simp add: div_less_iff_less_mult less_eq_div_iff_mult_less_eq)
qed

lemma user_range_same_page: "page_of a = page_of b \<Longrightarrow> in_user_virtual_range a = in_user_virtual_range b"
proof -
  assume e: "page_of a = page_of b"
  have div: "unat v div 4096 = unat (page_of v) div 4096" for v :: u64
    by (simp add: page_of_nat minus_mod_eq_mult_div)
  have "in_user_virtual_range v \<longleftrightarrow> 2 ^ 18 \<le> unat v div 4096 \<and> unat v div 4096 < 2 ^ 18 + 2 ^ 12" for v
    unfolding user_range_nat by (simp add: div_less_iff_less_mult less_eq_div_iff_mult_less_eq)
  then show ?thesis using div [of a] div [of b] e by simp
qed

text \<open>
  The interface between virtual memory and the frame allocator: a store that hands out frames
  that are not in use and takes back frames that are, as long as it has room to remember
  them. The virtual memory code relies on nothing else of the allocator. The interpretation
  at the end shows that the calls \<open>physmem::allocate_frame\<close> and \<open>physmem::free_frame\<close> made by
  \<^verbatim>\<open>src/src/paging.rs\<close> are such a store.
\<close>

locale frame_store =
  fixes ok :: "'s \<Rightarrow> bool"
    and every :: "'s \<Rightarrow> 'f set"
    and in_use :: "'s \<Rightarrow> 'f set"
    and room :: "'s \<Rightarrow> nat"
    and alloc :: "'s \<Rightarrow> 'f option \<times> 's"
    and release :: "'s \<Rightarrow> 'f \<Rightarrow> bool \<times> 's"
  assumes alloc_Some: "ok s \<Longrightarrow> alloc s = (Some f, t) \<Longrightarrow>
      ok t \<and> f \<in> every s \<and> f \<notin> in_use s \<and> in_use t = insert f (in_use s) \<and> every t = every s \<and> 0 < room t"
    and alloc_None: "ok s \<Longrightarrow> alloc s = (None, t) \<Longrightarrow>
      ok t \<and> in_use s = every s \<and> in_use t = in_use s \<and> every t = every s"
    and release_True: "ok s \<Longrightarrow> release s f = (True, t) \<Longrightarrow>
      ok t \<and> in_use t = in_use s - {f} \<and> every t = every s \<and> Suc (room t) = room s"
    and release_False: "ok s \<Longrightarrow> release s f = (False, t) \<Longrightarrow> t = s"
    and release_accepts: "ok s \<Longrightarrow> f \<in> in_use s \<Longrightarrow> 0 < room s \<Longrightarrow> fst (release s f)"
begin

text \<open>A release never touches another frame.\<close>

lemma release_keeps:
  assumes "ok s" and "release s f = (b, t)"
  shows "ok t" "in_use s - {f} \<subseteq> in_use t" "in_use t \<subseteq> in_use s" "every t = every s" "room t \<le> room s"
  using assms release_True [of s f t] release_False [of s f t] by (cases b; auto)+

text \<open>A frame that was just handed out can be given back: nothing has changed then.\<close>

lemma alloc_release:
  assumes "ok s" and "alloc s = (Some f, t)"
  shows "in_use (snd (release t f)) = in_use s" "ok (snd (release t f))"
    "every (snd (release t f)) = every s"
proof -
  note a = alloc_Some [OF assms]
  then have "fst (release t f)" using release_accepts [of t f] by simp
  then have "release t f = (True, snd (release t f))" by (simp add: prod_eq_iff)
  from release_True [OF _ this] a
  show "in_use (snd (release t f)) = in_use s" "ok (snd (release t f))"
    "every (snd (release t f)) = every s" by auto
qed

text \<open>Giving back a list of frames.\<close>

definition release_all :: "'f list \<Rightarrow> 's \<Rightarrow> 's" where
  "release_all fs s = fold (\<lambda>f s. snd (release s f)) fs s"

lemma release_all_simps [simp]:
  "release_all [] s = s" "release_all (f # fs) s = release_all fs (snd (release s f))"
  "release_all (fs @ gs) s = release_all gs (release_all fs s)"
  by (simp_all add: release_all_def)

lemma release_all_keeps:
  "ok s \<Longrightarrow> ok (release_all fs s) \<and> in_use s - set fs \<subseteq> in_use (release_all fs s)
     \<and> in_use (release_all fs s) \<subseteq> in_use s \<and> every (release_all fs s) = every s"
proof (induction fs arbitrary: s)
  case (Cons f fs)
  note k = release_keeps [OF Cons.prems, of f "fst (release s f)" "snd (release s f)"]
  from Cons.IH [of "snd (release s f)"] k show ?case by auto
qed simp

text \<open>With room for them, distinct frames in use all leave use.\<close>

lemma release_all_frees:
  "ok s \<Longrightarrow> distinct fs \<Longrightarrow> set fs \<subseteq> in_use s \<Longrightarrow> length fs \<le> room s \<Longrightarrow>
   in_use (release_all fs s) = in_use s - set fs \<and> room (release_all fs s) = room s - length fs"
proof (induction fs arbitrary: s)
  case (Cons f fs)
  have "fst (release s f)" using Cons.prems by (intro release_accepts) auto
  then have r: "release s f = (True, snd (release s f))" by (simp add: prod_eq_iff)
  note t = release_True [OF Cons.prems(1) r]
  have "set fs \<subseteq> in_use s - {f}" using Cons.prems by auto
  then have "in_use (release_all fs (snd (release s f))) = in_use s - {f} - set fs"
    "room (release_all fs (snd (release s f))) = room (snd (release s f)) - length fs"
    using Cons.IH [of "snd (release s f)"] Cons.prems t by simp_all
  with t Cons.prems show ?case by auto
qed simp

end

section \<open>The frame allocator behind virtual memory\<close>

definition frames_ok :: "Vm \<Rightarrow> bool" where
  "frames_ok vm \<longleftrightarrow> fa_initialized (vm_frames vm) \<and> phys_inv (vm_frames vm)
     \<and> 0 \<notin> all_frames (vm_frames vm)"

definition vm_every :: "Vm \<Rightarrow> u64 set" where "vm_every vm = all_frames (vm_frames vm)"

definition vm_live :: "Vm \<Rightarrow> u64 set" where "vm_live vm = live_frames (vm_frames vm)"

definition vm_room :: "Vm \<Rightarrow> nat" where
  "vm_room vm = MAX_RECYCLED_FRAMES - fa_recycled_count (vm_frames vm)"

lemma bump_loop_initialized: "fa_initialized (snd (bump_loop s)) = fa_initialized s"
  by (induction s rule: bump_loop.induct) (subst bump_loop.simps, simp add: Let_def)

lemma bump_loop_recycled_count: "fa_recycled_count (snd (bump_loop s)) = fa_recycled_count s"
  by (induction s rule: bump_loop.induct) (subst bump_loop.simps, simp add: Let_def)

lemma allocate_bookkeeping:
  "fa_initialized (snd (allocate_frame s)) = fa_initialized s"
  "phys_inv s \<Longrightarrow> fa_recycled_count (snd (allocate_frame s)) < MAX_RECYCLED_FRAMES"
  by (auto simp: allocate_frame_def Let_def bump_loop_initialized bump_loop_recycled_count phys_inv_def
      MAX_RECYCLED_FRAMES_def)

lemma free_bookkeeping:
  "fa_initialized (snd (free_frame s f)) = fa_initialized s"
  "fst (free_frame s f) \<Longrightarrow> fa_recycled_count (snd (free_frame s f)) = Suc (fa_recycled_count s)"
  by (auto simp: free_frame_def split: if_splits)

lemma vm_allocate_eq:
  "frames_ok vm \<Longrightarrow> vm_allocate vm =
     (fst (allocate_frame (vm_frames vm)), vm\<lparr>vm_frames := snd (allocate_frame (vm_frames vm))\<rparr>)"
  by (simp add: vm_allocate_def phys_allocate_def frames_ok_def split: prod.split)

lemma vm_free_eq:
  "frames_ok vm \<Longrightarrow> vm_free vm f =
     (fst (free_frame (vm_frames vm) f), vm\<lparr>vm_frames := snd (free_frame (vm_frames vm) f)\<rparr>)"
  by (simp add: vm_free_def phys_free_def frames_ok_def split: prod.split)

lemma vm_allocateE:
  assumes "frames_ok vm" and "vm_allocate vm = (r, vm')"
  obtains fa where "allocate_frame (vm_frames vm) = (r, fa)" "vm' = vm\<lparr>vm_frames := fa\<rparr>"
  using assms by (cases "allocate_frame (vm_frames vm)") (simp add: vm_allocate_eq)

lemma vm_freeE:
  assumes "frames_ok vm" and "vm_free vm f = (b, vm')"
  obtains fa where "free_frame (vm_frames vm) f = (b, fa)" "vm' = vm\<lparr>vm_frames := fa\<rparr>"
  using assms by (cases "free_frame (vm_frames vm) f") (simp add: vm_free_eq)

lemma vm_allocate_Some:
  assumes ok: "frames_ok vm" and a: "vm_allocate vm = (Some f, vm')"
  shows "frames_ok vm' \<and> f \<in> vm_every vm \<and> f \<notin> vm_live vm \<and> vm_live vm' = insert f (vm_live vm)
    \<and> vm_every vm' = vm_every vm \<and> 0 < vm_room vm'"
proof -
  from ok a obtain fa where fa: "allocate_frame (vm_frames vm) = (Some f, fa)"
    "vm' = vm\<lparr>vm_frames := fa\<rparr>" by (rule vm_allocateE)
  have inv: "phys_inv (vm_frames vm)" using ok by (simp add: frames_ok_def)
  show ?thesis
    using allocate_Some [OF inv fa(1)] allocate_bookkeeping [of "vm_frames vm"] fa ok inv
    unfolding frames_ok_def vm_every_def vm_live_def vm_room_def by simp
qed

lemma vm_allocate_None:
  assumes ok: "frames_ok vm" and a: "vm_allocate vm = (None, vm')"
  shows "frames_ok vm' \<and> vm_live vm = vm_every vm \<and> vm_live vm' = vm_live vm
    \<and> vm_every vm' = vm_every vm"
proof -
  from ok a obtain fa where fa: "allocate_frame (vm_frames vm) = (None, fa)"
    "vm' = vm\<lparr>vm_frames := fa\<rparr>" by (rule vm_allocateE)
  have inv: "phys_inv (vm_frames vm)" using ok by (simp add: frames_ok_def)
  show ?thesis
    using allocate_None [OF inv fa(1)] allocate_bookkeeping(1) [of "vm_frames vm"] fa ok
    unfolding frames_ok_def vm_every_def vm_live_def by simp
qed

lemma vm_free_True:
  assumes ok: "frames_ok vm" and a: "vm_free vm f = (True, vm')"
  shows "frames_ok vm' \<and> vm_live vm' = vm_live vm - {f} \<and> vm_every vm' = vm_every vm
    \<and> Suc (vm_room vm') = vm_room vm"
proof -
  from ok a obtain fa where fa: "free_frame (vm_frames vm) f = (True, fa)"
    "vm' = vm\<lparr>vm_frames := fa\<rparr>" by (rule vm_freeE)
  have inv: "phys_inv (vm_frames vm)" using ok by (simp add: frames_ok_def)
  have t: "fst (free_frame (vm_frames vm) f)" using fa by simp
  show ?thesis
    using free_frame_accepts [OF inv fa(1)] free_frame_iff [OF inv, of f] fa ok t
      free_bookkeeping [of "vm_frames vm" f]
    unfolding frames_ok_def vm_every_def vm_live_def vm_room_def by auto
qed

interpretation store: frame_store frames_ok vm_every vm_live vm_room vm_allocate vm_free
proof
  fix vm vm' f
  assume ok: "frames_ok vm"
  show "vm' = vm" if "vm_free vm f = (False, vm')"
    using that vm_free_eq [OF ok] free_frame_rejects [of "vm_frames vm" f] by simp
  show "fst (vm_free vm f)" if "f \<in> vm_live vm" "0 < vm_room vm"
    using that vm_free_eq [OF ok, of f] free_frame_iff [of "vm_frames vm" f] ok
    by (simp add: vm_live_def vm_room_def frames_ok_def)
qed (use vm_allocate_Some vm_allocate_None vm_free_True in blast)+

text \<open>The frame allocator changes nothing else of the virtual memory state.\<close>

lemma vm_store_frame:
  "frames_ok vm \<Longrightarrow> vm_allocate vm = (r, vm') \<Longrightarrow> vm' = vm\<lparr>vm_frames := vm_frames vm'\<rparr>"
  "frames_ok vm \<Longrightarrow> vm_free vm f = (b, vm') \<Longrightarrow> vm' = vm\<lparr>vm_frames := vm_frames vm'\<rparr>"
  by (auto simp: vm_allocate_eq vm_free_eq)

lemma vm_every_aligned: "frames_ok vm \<Longrightarrow> f \<in> vm_every vm \<Longrightarrow> frame_aligned f"
  by (auto simp: vm_every_def all_frames_def frames_def aligned_frame_iff)

lemma vm_live_every: "frames_ok vm \<Longrightarrow> f \<in> vm_live vm \<Longrightarrow> f \<in> vm_every vm"
  using issued_props(3) phys_invD(1)
  by (auto simp: frames_ok_def vm_live_def vm_every_def live_frames_def)

end
