(* ===== verification/Space_Layout.thy ===== *)
theory Space_Layout
  imports Frame_Store Address_Space
begin

unbundle bit_operations_syntax

text \<open>
  What the page tables of one address space look like in memory: a list of table frames (root,
  low table, user table, leaf tables) and the list of user pages they map. The lemmas say how
  this picture reads as a translation and how it changes when a leaf table or a page is added,
  or when memory changes elsewhere.
\<close>

type_synonym page = "u64 \<times> u64 \<times> UserPagePermissions"

section \<open>Changes of memory\<close>

text \<open>Only the given frames have changed.\<close>

definition only_changes :: "u64 set \<Rightarrow> memory \<Rightarrow> memory \<Rightarrow> bool" where
  "only_changes F mem mem' \<longleftrightarrow>
     (\<forall>f k. frame_aligned f \<longrightarrow> f \<notin> F \<longrightarrow> k < 512 \<longrightarrow> entry_at mem' f k = entry_at mem f k)"

lemma only_changesD:
  "only_changes F mem mem' \<Longrightarrow> frame_aligned f \<Longrightarrow> f \<notin> F \<Longrightarrow> k < 512 \<Longrightarrow>
   entry_at mem' f k = entry_at mem f k"
  by (simp add: only_changes_def)

lemma only_changes_refl [simp]: "only_changes F mem mem"
  by (simp add: only_changes_def)

lemma only_changes_trans:
  "only_changes F m1 m2 \<Longrightarrow> only_changes G m2 m3 \<Longrightarrow> F \<subseteq> H \<Longrightarrow> G \<subseteq> H \<Longrightarrow> only_changes H m1 m3"
  unfolding only_changes_def by (metis subsetD)

lemma only_changes_writes:
  assumes "frame_aligned f" and "f \<in> F"
  shows "only_changes F mem (zero_frame mem f)" "only_changes F mem (copy_table mem f g)"
    "i < 512 \<Longrightarrow> only_changes F mem (set_entry mem f i v)"
  using assms by (auto simp: only_changes_def entry_copy intro!: entry_set_other)

section \<open>The picture\<close>

definition leaf :: "memory \<Rightarrow> u64 \<Rightarrow> nat \<Rightarrow> nat \<Rightarrow> u64" where
  "leaf mem p2 j k = (let e = entry_at mem p2 j in if e = 0 then 0 else entry_at mem (entry_addr e) k)"

definition frames_layout :: "u64 \<Rightarrow> u64 \<Rightarrow> u64 \<Rightarrow> u64 list \<Rightarrow> page list \<Rightarrow> bool" where
  "frames_layout rt lo us ls ps \<longleftrightarrow> distinct (rt # lo # us # ls @ map (fst \<circ> snd) ps)
     \<and> (\<forall>f \<in> set (rt # lo # us # ls) \<union> (fst \<circ> snd) ` set ps. ok_frame f \<and> f \<noteq> 0)
     \<and> distinct (map fst ps) \<and> (\<forall>v \<in> fst ` set ps. frame_aligned v \<and> in_user_virtual_range v)"

definition upper_ok :: "memory \<Rightarrow> u64 \<Rightarrow> u64 \<Rightarrow> u64 \<Rightarrow> bool" where
  "upper_ok mem rt lo us \<longleftrightarrow>
     entry_at mem rt 0 = lo OR TABLE_FLAGS \<and> entry_at mem lo 1 = us OR TABLE_FLAGS
     \<and> (\<forall>i < 512. i \<noteq> 0 \<longrightarrow> \<not> entry_user (entry_at mem rt i))
     \<and> (\<forall>i < 512. i \<noteq> 1 \<longrightarrow> \<not> entry_user (entry_at mem lo i))"

definition leaf_tables_ok :: "memory \<Rightarrow> u64 \<Rightarrow> u64 list \<Rightarrow> bool" where
  "leaf_tables_ok mem us ls \<longleftrightarrow>
     (\<forall>j < 512. entry_at mem us j = 0
        \<or> (\<exists>t \<in> set ls. entry_at mem us j = t OR TABLE_FLAGS))
     \<and> (\<forall>i < 512. \<forall>j < 512. entry_at mem us i = entry_at mem us j \<longrightarrow>
          entry_at mem us i \<noteq> 0 \<longrightarrow> i = j)
     \<and> (\<forall>t \<in> set ls. \<exists>j < 8. entry_at mem us j = t OR TABLE_FLAGS)"

definition leaves_ok :: "memory \<Rightarrow> u64 \<Rightarrow> page list \<Rightarrow> bool" where
  "leaves_ok mem us ps \<longleftrightarrow>
     (\<forall>(v, f, p) \<in> set ps. leaf mem us (p2_index v) (p1_index v) = f OR permission_flags p)
     \<and> (\<forall>j < 512. \<forall>k < 512. leaf mem us j k \<noteq> 0 \<longrightarrow>
          (\<exists>v \<in> fst ` set ps. p2_index v = j \<and> p1_index v = k))"

definition layout :: "memory \<Rightarrow> u64 \<Rightarrow> u64 \<Rightarrow> u64 \<Rightarrow> u64 list \<Rightarrow> page list \<Rightarrow> bool" where
  "layout mem rt lo us ls ps \<longleftrightarrow> frames_layout rt lo us ls ps \<and> upper_ok mem rt lo us \<and> leaf_tables_ok mem us ls \<and> leaves_ok mem us ps"

lemma frames_layoutD:
  assumes "frames_layout rt lo us ls ps"
  shows "ok_frame rt" "ok_frame lo" "ok_frame us" "rt \<noteq> 0"
    "rt \<noteq> lo" "rt \<noteq> us" "lo \<noteq> us" "t \<in> set ls \<Longrightarrow> ok_frame t \<and> t \<noteq> rt \<and> t \<noteq> lo \<and> t \<noteq> us"
    "(v, f, p) \<in> set ps \<Longrightarrow> ok_frame f \<and> f \<noteq> 0 \<and> f \<notin> set (rt # lo # us # ls)
       \<and> frame_aligned v \<and> in_user_virtual_range v"
proof -
  show "ok_frame rt" "ok_frame lo" "ok_frame us" "rt \<noteq> 0" "rt \<noteq> lo" "rt \<noteq> us" "lo \<noteq> us"
    using assms unfolding frames_layout_def by simp_all
  show "ok_frame t \<and> t \<noteq> rt \<and> t \<noteq> lo \<and> t \<noteq> us" if "t \<in> set ls"
    using assms that unfolding frames_layout_def by auto
  assume m: "(v, f, p) \<in> set ps"
  then have "f \<in> (fst \<circ> snd) ` set ps" "v \<in> fst ` set ps" by force+
  with assms show "ok_frame f \<and> f \<noteq> 0 \<and> f \<notin> set (rt # lo # us # ls) \<and> frame_aligned v
      \<and> in_user_virtual_range v"
    unfolding frames_layout_def by auto
qed

lemma ok_frame_aligned: "ok_frame f \<Longrightarrow> frame_aligned f"
  by (simp add: ok_frame_def)

section \<open>Reading the picture as a translation\<close>

text \<open>The translation a user page gives.\<close>

definition user_page :: "u64 \<Rightarrow> u64 \<Rightarrow> UserPagePermissions \<Rightarrow> TranslateResult" where
  "user_page v f p = \<lparr>tr_virt = v, tr_phys = f + (v AND 0xfff), tr_mapped = True,
     tr_huge_page = False, tr_user_accessible = True, tr_writable = up_writable p,
     tr_executable = up_executable p, tr_page_size = PAGE_SIZE_4K\<rparr>"

lemma leaf_cases:
  assumes "layout mem rt lo us ls ps" and "j < 512" and "k < 512"
  obtains "leaf mem us j k = 0"
  | v f p where "(v, f, p) \<in> set ps" "p2_index v = j" "p1_index v = k"
      "leaf mem us j k = f OR permission_flags p"
proof (cases "leaf mem us j k = 0")
  case False
  with assms obtain v where v: "v \<in> fst ` set ps" "p2_index v = j" "p1_index v = k"
    unfolding layout_def leaves_ok_def by blast
  then obtain f p where m: "(v, f, p) \<in> set ps" by auto
  with assms(1) have "leaf mem us (p2_index v) (p1_index v) = f OR permission_flags p"
    by (auto simp: layout_def leaves_ok_def)
  with v m show ?thesis by (intro that(2)) auto
qed (rule that(1))

lemma phys_add:
  assumes "ok_frame f"
  shows "sat_add f (v AND 0xfff) = f + (v AND 0xfff)"
proof -
  have "unat f < 2 ^ 30" using assms
    by (simp add: ok_frame_def identity_reachable_def BOOT_IDENTITY_MAP_BYTES_def word_less_nat_alt)
  moreover have "unat (v AND 0xfff) < 4096" using low_less [of v] by (simp add: word_less_nat_alt)
  ultimately show ?thesis by (simp add: sat_add_def)
qed

lemma walk_user:
  assumes l: "layout mem rt lo us ls ps" and i: "p4_index v = 0" "p3_index v = 1"
  shows "translate_from_root mem rt v =
    (let e = leaf mem us (p2_index v) (p1_index v)
     in if e = 0 then unmapped v
        else \<lparr>tr_virt = v, tr_phys = sat_add (entry_addr e) (v AND 0xfff), tr_mapped = True,
              tr_huge_page = False, tr_user_accessible = entry_user e,
              tr_writable = entry_writable e, tr_executable = (\<not> entry_no_execute e),
              tr_page_size = PAGE_SIZE_4K\<rparr>)"
proof -
  let ?j = "p2_index v" and ?k = "p1_index v"
  have fl: "frames_layout rt lo us ls ps" and up: "upper_ok mem rt lo us" and lt: "leaf_tables_ok mem us ls"
    using l by (simp_all add: layout_def)
  note a = frames_layoutD [OF fl]
  have root: "table_from_frame rt = Some rt"
    using a(1) by (simp add: table_from_frame_def ok_frame_def aligned_frame_iff)
  have e: "entry_at mem rt 0 = lo OR TABLE_FLAGS" "entry_at mem lo 1 = us OR TABLE_FLAGS"
    using up by (simp_all add: upper_ok_def)
  note t1 = table_entry [OF a(2)] table_from_entry_pack(1) [OF a(2)]
  note t2 = table_entry [OF a(3)] table_from_entry_pack(1) [OF a(3)]
  have page: "PAGE_SIZE_4K - 1 = 0xfff" by (simp add: PAGE_SIZE_4K_def)
  from lt index_less(3) [of v] consider (zero) "entry_at mem us ?j = 0"
    | (table) t where "t \<in> set ls" "entry_at mem us ?j = t OR TABLE_FLAGS"
    by (auto simp: leaf_tables_ok_def)
  then show ?thesis
  proof cases
    case zero
    then show ?thesis
      by (simp add: translate_from_root_def root i e t1 t2 leaf_def Let_def del: One_nat_def)
  next
    case table
    with a(8) [of t] have t: "ok_frame t" by blast
    note t3 = table_entry [OF t] table_from_entry_pack(1) [OF t]
    have lf: "leaf mem us ?j ?k = entry_at mem t ?k"
      by (simp add: leaf_def table(2) t3 Let_def)
    have pres: "entry_present (entry_at mem t ?k) \<longleftrightarrow> entry_at mem t ?k \<noteq> 0"
      using l index_less(3,4) [of v]
    proof (rule leaf_cases, goal_cases zero page)
      case (page v' f p)
      then have "ok_frame f" using frames_layoutD(9) [OF fl] by blast
      with page lf show ?case using leaf_entry [of f p] by simp
    qed (use lf in simp)
    show ?thesis
      unfolding lf
      by (simp add: translate_from_root_def root i e t1 t2 t3 table(2) pres page Let_def del: One_nat_def)
  qed
qed

lemma page_of_indices:
  "p4_index (page_of v) = p4_index v" "p3_index (page_of v) = p3_index v"
  "p2_index (page_of v) = p2_index v" "p1_index (page_of v) = p1_index v"
proof -
  have "unat (page_of v) div 2 ^ 12 = unat v div 2 ^ 12"
    by (simp add: page_of_nat minus_mod_eq_mult_div)
  then have d: "unat (page_of v) div 2 ^ (12 + n) = unat v div 2 ^ (12 + n)" for n
    by (simp only: power_add div_mult2_eq)
  show "p4_index (page_of v) = p4_index v" "p3_index (page_of v) = p3_index v"
    "p2_index (page_of v) = p2_index v" "p1_index (page_of v) = p1_index v"
    unfolding index_nat using d [of 27] d [of 18] d [of 9] d [of 0] by simp_all
qed

lemma user_range_page_of: "in_user_virtual_range v \<Longrightarrow> in_user_virtual_range (page_of v)"
proof -
  assume "in_user_virtual_range v"
  then have r: "2 ^ 30 \<le> unat v" "unat v < 2 ^ 30 + 2 ^ 24" by (simp_all add: user_range_nat)
  have "unat (page_of v) = 4096 * (unat v div 4096)" by (simp add: page_of_nat minus_mod_eq_mult_div)
  moreover have "2 ^ 18 \<le> unat v div 4096" using r(1) div_le_mono [OF r(1), of 4096] by simp
  moreover have "4096 * (unat v div 4096) \<le> unat v" by simp
  ultimately show ?thesis using r(2) unfolding user_range_nat by simp
qed

text \<open>In the user region the translation is the lookup in the list of pages.\<close>

lemma translate_lookup:
  assumes l: "layout mem rt lo us ls ps" and v: "in_user_virtual_range v"
  shows "translate_from_root mem rt v =
    (case map_of ps (page_of v) of None \<Rightarrow> unmapped v | Some (f, p) \<Rightarrow> user_page v f p)"
proof -
  have fl: "frames_layout rt lo us ls ps" using l by (simp add: layout_def)
  note w = walk_user [OF l user_index [OF v]]
  show ?thesis
  proof (cases "map_of ps (page_of v)")
    case None
    from l index_less(3,4) [of v] have "leaf mem us (p2_index v) (p1_index v) = 0"
    proof (rule leaf_cases, goal_cases zero page)
      case (page v' f p)
      note d = frames_layoutD(9) [OF fl page(1)]
      have "page_of v' = page_of v" using d page(2,3) v by (intro user_page_determined) auto
      with d page(1) have "page_of v \<in> fst ` set ps" by (force simp: page_of_aligned)
      with None show ?case by (simp add: map_of_eq_None_iff)
    qed
    with w None show ?thesis by simp
  next
    case (Some fp)
    obtain f p where fp: "fp = (f, p)" by force
    with Some have m: "(page_of v, f, p) \<in> set ps" by (auto dest: map_of_SomeD)
    then have "leaf mem us (p2_index v) (p1_index v) = f OR permission_flags p"
      using l by (fastforce simp: layout_def leaves_ok_def page_of_indices)
    moreover have f: "ok_frame f" using frames_layoutD(9) [OF fl m] by blast
    ultimately show ?thesis
      using w Some fp by (simp add: leaf_entry [OF f] phys_add [OF f] user_page_def)
  qed
qed

text \<open>Whatever is accessible from user mode anywhere is one of the pages.\<close>

lemma user_accessible_index:
  assumes l: "layout mem rt lo us ls ps" and u: "tr_user_accessible (translate_from_root mem rt v)"
  shows "p4_index v = 0" "p3_index v = 1"
proof -
  have fl: "frames_layout rt lo us ls ps" and up: "upper_ok mem rt lo us" using l by (simp_all add: layout_def)
  note a = frames_layoutD [OF fl]
  have root: "table_from_frame rt = Some rt"
    using a(1) by (simp add: table_from_frame_def ok_frame_def aligned_frame_iff)
  show 4: "p4_index v = 0"
  proof (rule ccontr)
    assume "p4_index v \<noteq> 0"
    then have "\<not> entry_user (entry_at mem rt (p4_index v))"
      using up index_less(1) by (simp add: upper_ok_def)
    with u show False by (simp add: translate_from_root_def root unmapped_def Let_def split: if_splits option.splits)
  qed
  have e: "entry_at mem rt 0 = lo OR TABLE_FLAGS" using up by (simp add: upper_ok_def)
  show "p3_index v = 1"
  proof (rule ccontr)
    assume "p3_index v \<noteq> 1"
    then have "\<not> entry_user (entry_at mem lo (p3_index v))"
      using up index_less(2) by (simp add: upper_ok_def)
    with u show False
      by (simp add: translate_from_root_def root unmapped_def 4 e table_entry [OF a(2)]
          table_from_entry_pack(1) [OF a(2)] Let_def split: if_splits option.splits)
  qed
qed

lemma user_accessible_page:
  assumes l: "layout mem rt lo us ls ps" and u: "tr_user_accessible (translate_from_root mem rt v)"
  obtains w f p where "(w, f, p) \<in> set ps" "translate_from_root mem rt v = user_page v f p"
    "p2_index w = p2_index v" "p1_index w = p1_index v"
proof -
  have fl: "frames_layout rt lo us ls ps" using l by (simp add: layout_def)
  note w = walk_user [OF l user_accessible_index [OF l u]]
  from l index_less(3,4) [of v] show ?thesis
  proof (rule leaf_cases, goal_cases zero page)
    case zero
    with w u show ?case by (simp add: unmapped_def)
  next
    case (page v' f p)
    have f: "ok_frame f" using frames_layoutD(9) [OF fl page(1)] by blast
    with w page(4) have "translate_from_root mem rt v = user_page v f p"
      by (simp add: leaf_entry [OF f] phys_add [OF f] user_page_def)
    with page show ?case by (intro that [OF page(1)])
  qed
qed

text \<open>How the picture of an address space changes: elsewhere, by a leaf table, by a page.\<close>

lemma table_entry_inj: "ok_frame s \<Longrightarrow> ok_frame t \<Longrightarrow> s OR TABLE_FLAGS = t OR TABLE_FLAGS \<Longrightarrow> s = t"
  by (metis table_entry(6))

text \<open>Entries and leaves of a layout by cases.\<close>

lemma user_entry_cases:
  assumes "leaf_tables_ok mem us ls" and "j < 512"
  obtains "entry_at mem us j = 0" | t where "t \<in> set ls" "entry_at mem us j = t OR TABLE_FLAGS"
  using assms by (auto simp: leaf_tables_ok_def)

lemma leaf_tables_cong:
  assumes "leaf_tables_ok mem us ls" and u: "\<And>j. j < 512 \<Longrightarrow> entry_at mem' us j = entry_at mem us j"
  shows "leaf_tables_ok mem' us ls"
proof -
  have "\<exists>j < 8. entry_at mem' us j = t OR TABLE_FLAGS" if t: "t \<in> set ls" for t
  proof -
    obtain j where "j < 8" "entry_at mem us j = t OR TABLE_FLAGS"
      using assms(1) t by (auto simp: leaf_tables_ok_def)
    with u [of j] show ?thesis by auto
  qed
  with assms(1) show ?thesis by (auto simp: leaf_tables_ok_def u)
qed

text \<open>The picture depends on the entries of its tables only.\<close>

lemma layout_cong:
  assumes l: "layout mem rt lo us ls ps"
    and eq: "\<And>f k. f \<in> set (rt # lo # us # ls) \<Longrightarrow> k < 512 \<Longrightarrow> entry_at mem' f k = entry_at mem f k"
  shows "layout mem' rt lo us ls ps"
proof -
  have fl: "frames_layout rt lo us ls ps" and lt: "leaf_tables_ok mem us ls" using l by (simp_all add: layout_def)
  note d = frames_layoutD [OF fl]
  have lf: "leaf mem' us j k = leaf mem us j k" if "j < 512" "k < 512" for j k
    using lt that(1)
  proof (rule user_entry_cases, goal_cases zero table)
    case (table t)
    with d(8) [of t] have "entry_addr (entry_at mem us j) = t" by (simp add: table_entry)
    with table that show ?case by (simp add: leaf_def eq Let_def)
  qed (simp add: leaf_def eq that)
  have u: "entry_at mem' us j = entry_at mem us j" if "j < 512" for j by (rule eq) (use that in auto)
  have "upper_ok mem' rt lo us" using l by (simp add: layout_def upper_ok_def eq)
  moreover have "leaf_tables_ok mem' us ls" by (rule leaf_tables_cong [OF lt u])
  moreover have "leaves_ok mem' us ps"
    using l by (auto simp: layout_def leaves_ok_def lf index_less)
  ultimately show ?thesis using fl by (simp add: layout_def)
qed

lemma layout_frame:
  assumes "layout mem rt lo us ls ps" and "only_changes F mem mem'" and "F \<inter> set (rt # lo # us # ls) = {}"
  shows "layout mem' rt lo us ls ps"
proof (rule layout_cong [OF assms(1)])
  fix f k assume f: "f \<in> set (rt # lo # us # ls)" and k: "k < (512 :: nat)"
  have "frames_layout rt lo us ls ps" using assms(1) by (simp add: layout_def)
  then have "ok_frame f" using f frames_layoutD(1-3,8) by auto
  then show "entry_at mem' f k = entry_at mem f k"
    using assms(2,3) f k by (intro only_changesD) (auto simp: ok_frame_def)
qed

text \<open>A new leaf table.\<close>

lemma layout_add_table:
  assumes l: "layout mem rt lo us ls ps" and j: "j < 8" and z: "entry_at mem us j = 0"
    and t: "ok_frame t" "t \<noteq> 0" "t \<notin> set (rt # lo # us # ls)" "t \<notin> (fst \<circ> snd) ` set ps"
  shows "layout (set_entry (zero_frame mem t) us j (t OR TABLE_FLAGS)) rt lo us (ls @ [t]) ps"
proof -
  let ?m = "set_entry (zero_frame mem t) us j (t OR TABLE_FLAGS)"
  have fl: "frames_layout rt lo us ls ps" and lt: "leaf_tables_ok mem us ls"
    and up: "upper_ok mem rt lo us" and lv: "leaves_ok mem us ps" using l by (simp_all add: layout_def)
  note d = frames_layoutD [OF fl]
  note al = ok_frame_aligned [OF d(1)] ok_frame_aligned [OF d(2)] ok_frame_aligned [OF d(3)]
    ok_frame_aligned [OF t(1)]
  have same: "entry_at ?m f k = (if f = us \<and> k = j then t OR TABLE_FLAGS else if f = t then 0 else entry_at mem f k)"
    if "ok_frame f" "k < 512" for f k
  proof (cases "f = us \<and> k = j")
    case False
    with that al j entry_set_other [of us f j k "zero_frame mem t"] show ?thesis
      by (auto simp: ok_frame_def)
  qed simp
  have ok: "ok_frame f" if "f \<in> set ls" for f using d(8) that by blast
  have lf: "leaf ?m us i k = leaf mem us i k" if "i < 512" "k < 512" for i k
    using lt that(1)
  proof (rule user_entry_cases, goal_cases zero table)
    case zero
    have "leaf mem us i k = 0" using zero by (simp add: leaf_def)
    moreover have "leaf ?m us i k = 0"
    proof (cases "i = j")
      case True
      have "us \<noteq> t" using t(3) by auto
      with True show ?thesis using t(1) that by (simp add: leaf_def same d(3) table_entry Let_def)
    next
      case False
      have "us \<noteq> t" using t(3) by auto
      with False zero that show ?thesis by (simp add: leaf_def same d(3))
    qed
    ultimately show ?case by simp
  next
    case (table s)
    then have "i \<noteq> j" "s \<noteq> us" "s \<noteq> t" "us \<noteq> t" using z table_entry(7) [OF ok] d(8) t(3) by auto
    then show ?case
      using table ok [OF table(1)] that d(3) by (simp add: leaf_def same table_entry)
  qed
  have u: "entry_at ?m us i = (if i = j then t OR TABLE_FLAGS else entry_at mem us i)" if "i < 512" for i
    using that d(3) t(3) by (auto simp: same)
  have new: "entry_at mem us i \<noteq> t OR TABLE_FLAGS" if "i < 512" for i
    using lt that
  proof (rule user_entry_cases, goal_cases zero table)
    case (table s)
    then have "s \<noteq> t" using t(3) by auto
    with table ok [OF table(1)] t(1) show ?case using table_entry_inj by metis
  qed (use table_entry(7) [OF t(1)] in simp)
  have "frames_layout rt lo us (ls @ [t]) ps" using fl t by (auto simp: frames_layout_def)
  moreover have "upper_ok ?m rt lo us" using up d t(3) by (auto simp: upper_ok_def same)
  moreover have "leaf_tables_ok ?m us (ls @ [t])"
  proof -
    have "\<exists>s \<in> set (ls @ [t]). entry_at ?m us i = s OR TABLE_FLAGS" if "i < 512" "entry_at ?m us i \<noteq> 0" for i
      using lt that u by (auto simp: leaf_tables_ok_def split: if_splits)
    moreover have "i = k"
      if "i < 512" "k < 512" "entry_at ?m us i = entry_at ?m us k" "entry_at ?m us i \<noteq> 0" for i k
      using lt that u new by (auto simp: leaf_tables_ok_def split: if_splits)
    moreover have "\<exists>i < 8. entry_at ?m us i = s OR TABLE_FLAGS" if "s \<in> set (ls @ [t])" for s
    proof (cases "s = t")
      case True
      with j show ?thesis by (intro exI [of _ j]) (simp add: u)
    next
      case False
      with that lt obtain i where i: "i < 8" "entry_at mem us i = s OR TABLE_FLAGS"
        by (auto simp: leaf_tables_ok_def)
      moreover have "s OR TABLE_FLAGS \<noteq> 0" using False that ok table_entry(7) by auto
      with i z have "i \<noteq> j" by auto
      ultimately show ?thesis by (intro exI [of _ i]) (simp add: u)
    qed
    ultimately show ?thesis unfolding leaf_tables_ok_def by blast
  qed
  moreover have "leaves_ok ?m us ps" using lv by (auto simp: leaves_ok_def lf index_less)
  ultimately show ?thesis by (simp add: layout_def)
qed

text \<open>A new page.\<close>

lemma layout_add_page:
  assumes l: "layout mem rt lo us ls ps" and v: "frame_aligned v" "in_user_virtual_range v" "v \<notin> fst ` set ps"
    and t: "t \<in> set ls" "entry_at mem us (p2_index v) = t OR TABLE_FLAGS"
    and f: "ok_frame f" "f \<noteq> 0" "f \<notin> set (rt # lo # us # ls)" "f \<notin> (fst \<circ> snd) ` set ps"
  shows "layout (set_entry (zero_frame mem f) t (p1_index v) (f OR permission_flags p)) rt lo us ls (ps @ [(v, f, p)])"
proof -
  let ?m = "set_entry (zero_frame mem f) t (p1_index v) (f OR permission_flags p)"
  have fl: "frames_layout rt lo us ls ps" and lt: "leaf_tables_ok mem us ls"
    and up: "upper_ok mem rt lo us" and lv: "leaves_ok mem us ps" using l by (simp_all add: layout_def)
  note d = frames_layoutD [OF fl]
  have ok: "ok_frame s" if "s \<in> set ls" for s using d(8) that by blast
  note tt = d(8) [OF t(1)]
  have al: "frame_aligned t" "frame_aligned f" using tt f(1) by (simp_all add: ok_frame_def)
  have same: "entry_at ?m g k = (if g = t \<and> k = p1_index v then f OR permission_flags p
      else if g = f then 0 else entry_at mem g k)" if "ok_frame g" "k < 512" for g k
    using that al index_less(4) [of v] by (auto simp: ok_frame_def entry_set_other)
  have u: "entry_at ?m us i = entry_at mem us i" if "i < 512" for i
    using that d(3) f(3) tt by (auto simp: same)
  have lf: "leaf ?m us i k = (if i = p2_index v \<and> k = p1_index v then f OR permission_flags p else leaf mem us i k)"
    if "i < 512" "k < 512" for i k
    using lt that(1)
  proof (rule user_entry_cases, goal_cases zero table)
    case zero
    moreover have "i \<noteq> p2_index v" using zero t(2) table_entry(7) [OF ok [OF t(1)]] by auto
    ultimately show ?case using that by (simp add: leaf_def u)
  next
    case (table s)
    have "s = t \<longleftrightarrow> i = p2_index v"
    proof
      assume "s = t"
      with table t have "entry_at mem us i = entry_at mem us (p2_index v)" "entry_at mem us i \<noteq> 0"
        using table_entry(7) [OF ok [OF t(1)]] by simp_all
      with lt that(1) index_less(3) [of v] show "i = p2_index v" by (simp add: leaf_tables_ok_def)
    next
      assume "i = p2_index v"
      with table t(2) ok [OF table(1)] ok [OF t(1)] show "s = t" using table_entry_inj by metis
    qed
    moreover have "s \<noteq> f" using f(3) table(1) by auto
    ultimately show ?case
      using table ok [OF table(1)] that by (auto simp: leaf_def u same table_entry)
  qed
  have "frames_layout rt lo us ls (ps @ [(v, f, p)])" using fl f v by (auto simp: frames_layout_def)
  moreover have "upper_ok ?m rt lo us" using up d f(3) tt by (auto simp: upper_ok_def same)
  moreover have "leaf_tables_ok ?m us ls" by (rule leaf_tables_cong [OF lt u])
  moreover have "leaves_ok ?m us (ps @ [(v, f, p)])"
  proof -
    have "\<not> (p2_index w = p2_index v \<and> p1_index w = p1_index v)" if "(w, g, q) \<in> set ps" for w g q
    proof
      assume i: "p2_index w = p2_index v \<and> p1_index w = p1_index v"
      note w = d(9) [OF that]
      have "page_of w = page_of v" using i w v by (intro user_page_determined) auto
      then have "w = v" using w v by (simp add: page_of_aligned)
      with v(3) that show False by force
    qed
    with lv have "leaf ?m us (p2_index w) (p1_index w) = g OR permission_flags q"
      if "(w, g, q) \<in> set ps" for w g q
      using that by (fastforce simp: leaves_ok_def lf index_less)
    moreover have "leaf ?m us (p2_index v) (p1_index v) = f OR permission_flags p"
      by (simp add: lf index_less)
    moreover have "\<exists>w \<in> fst ` set (ps @ [(v, f, p)]). p2_index w = i \<and> p1_index w = k"
      if "i < 512" "k < 512" "leaf ?m us i k \<noteq> 0" for i k
    proof (cases "i = p2_index v \<and> k = p1_index v")
      case False
      with that lv have "\<exists>w \<in> fst ` set ps. p2_index w = i \<and> p1_index w = k"
        unfolding leaves_ok_def lf [OF that(1,2)] by auto
      then show ?thesis by auto
    qed auto
    ultimately show ?thesis unfolding leaves_ok_def by auto
  qed
  ultimately show ?thesis by (simp add: layout_def)
qed

text \<open>The user region has eight leaf tables at most, so the table capacity is never reached.\<close>

lemma layout_table_bound:
  assumes "layout mem rt lo us ls ps"
  shows "length ls \<le> 8"
proof -
  have fl: "frames_layout rt lo us ls ps" and lt: "leaf_tables_ok mem us ls"
    using assms by (simp_all add: layout_def)
  have "set ls \<subseteq> (\<lambda>j. entry_addr (entry_at mem us j)) ` {..<8}"
  proof
    fix t assume t: "t \<in> set ls"
    with lt obtain j where "j < 8" "entry_at mem us j = t OR TABLE_FLAGS" by (auto simp: leaf_tables_ok_def)
    moreover have "ok_frame t" using frames_layoutD(8) [OF fl t] by blast
    ultimately show "t \<in> (\<lambda>j. entry_addr (entry_at mem us j)) ` {..<8}"
      by (force simp: table_entry)
  qed
  then have "card (set ls) \<le> 8" by (metis card_lessThan finite_lessThan surj_card_le)
  moreover have "distinct ls" using fl by (simp add: frames_layout_def)
  ultimately show ?thesis by (simp add: distinct_card)
qed

lemma user_p2_less: "in_user_virtual_range v \<Longrightarrow> p2_index v < 8"
proof -
  assume "in_user_virtual_range v"
  then have r: "2 ^ 30 \<le> unat v" "unat v < 2 ^ 30 + 2 ^ 24" by (simp_all add: user_range_nat)
  then have q: "unat v div 2 ^ 21 < 520" "512 \<le> unat v div 2 ^ 21"
    by (simp_all add: less_mult_imp_div_less div_le_mono [of "2 ^ 30" "unat v" "2 ^ 21", simplified])
  then obtain r where "unat v div 2 ^ 21 = 512 + r" using le_Suc_ex by blast
  with q(1) show ?thesis unfolding index_nat by simp
qed

end
