(* ===== verification/Space_Ops.thy ===== *)
theory Space_Ops
  imports Space_Layout
begin

unbundle bit_operations_syntax

text \<open>
  The operations on address spaces: what each may change (\<open>effect\<close>), and that each keeps the
  picture of the space it works on.
\<close>

section \<open>Spaces and what they own\<close>

definition tables :: "AddressSpace \<Rightarrow> u64 list" where
  "tables space = take (table_frame_count space) (as_table_frames space)"

definition pages :: "AddressSpace \<Rightarrow> page list" where
  "pages space = take (user_frame_count space)
     (zip (user_virtuals space) (zip (as_user_frames space) (user_permissions space)))"

definition owned :: "AddressSpace \<Rightarrow> u64 set" where
  "owned space = set (tables space) \<union> (fst \<circ> snd) ` set (pages space)"

definition arrays_ok :: "AddressSpace \<Rightarrow> bool" where
  "arrays_ok space \<longleftrightarrow> length (as_table_frames space) = MAX_PROCESS_TABLE_FRAMES
     \<and> length (as_user_frames space) = MAX_PROCESS_USER_PAGES
     \<and> length (user_virtuals space) = MAX_PROCESS_USER_PAGES
     \<and> length (user_permissions space) = MAX_PROCESS_USER_PAGES
     \<and> table_frame_count space \<le> MAX_PROCESS_TABLE_FRAMES
     \<and> user_frame_count space \<le> MAX_PROCESS_USER_PAGES"

definition space_inv :: "Vm \<Rightarrow> AddressSpace \<Rightarrow> bool" where
  "space_inv vm space \<longleftrightarrow> as_active space \<and> arrays_ok space \<and> owned space \<subseteq> vm_live vm
     \<and> (\<exists>lo us ls. tables space = root_frame space # lo # us # ls
          \<and> layout (vm_phys vm) (root_frame space) lo us ls (pages space))"

lemma space_invE:
  assumes "space_inv vm space"
  obtains lo us ls where "as_active space" "arrays_ok space" "owned space \<subseteq> vm_live vm"
    "tables space = root_frame space # lo # us # ls"
    "layout (vm_phys vm) (root_frame space) lo us ls (pages space)"
  using assms by (auto simp: space_inv_def)

lemma owned_empty [simp]: "tables AddressSpace_empty = []" "pages AddressSpace_empty = []"
  "owned AddressSpace_empty = {}" "arrays_ok AddressSpace_empty" "\<not> as_active AddressSpace_empty"
  by (simp_all add: tables_def pages_def owned_def AddressSpace_empty_def arrays_ok_def)

lemma owned_cong:
  "as_table_frames s = as_table_frames t \<Longrightarrow> table_frame_count s = table_frame_count t \<Longrightarrow>
   as_user_frames s = as_user_frames t \<Longrightarrow> user_virtuals s = user_virtuals t \<Longrightarrow>
   user_permissions s = user_permissions t \<Longrightarrow> user_frame_count s = user_frame_count t \<Longrightarrow>
   tables s = tables t \<and> pages s = pages t \<and> owned s = owned t \<and> arrays_ok s = arrays_ok t"
  by (simp add: tables_def pages_def owned_def arrays_ok_def)

section \<open>Effects\<close>

text \<open>The frames an operation on a space may write: its own and those nobody uses.\<close>

definition scope :: "Vm \<Rightarrow> AddressSpace \<Rightarrow> u64 set" where
  "scope vm space = vm_every vm - (vm_live vm - owned space)"

definition effect :: "Vm \<Rightarrow> AddressSpace \<Rightarrow> Vm \<Rightarrow> AddressSpace \<Rightarrow> bool" where
  "effect vm space vm' space' \<longleftrightarrow> frames_ok vm' \<and> vm_every vm' = vm_every vm
     \<and> p4_addr vm' = p4_addr vm \<and> paging_initialized vm' = paging_initialized vm \<and> vm_cr3 vm' = vm_cr3 vm
     \<and> vm_live vm - owned space \<subseteq> vm_live vm'
     \<and> only_changes (scope vm space) (vm_phys vm) (vm_phys vm') \<and> owned space' \<subseteq> scope vm space"

lemma effect_refl: "frames_ok vm \<Longrightarrow> owned space \<subseteq> vm_live vm \<Longrightarrow> effect vm space vm space"
  using vm_live_every by (auto simp: effect_def scope_def)

lemma effect_trans:
  assumes "effect vm s vm1 s1" and "effect vm1 s1 vm2 s2"
  shows "effect vm s vm2 s2"
proof -
  note e1 = assms(1) [unfolded effect_def] and e2 = assms(2) [unfolded effect_def]
  have ev: "vm_every vm1 = vm_every vm" and keep: "vm_live vm - owned s \<subseteq> vm_live vm1"
    and own: "owned s1 \<subseteq> scope vm s" using e1 by simp_all
  have sc: "scope vm1 s1 \<subseteq> scope vm s" using ev keep own unfolding scope_def by auto
  have "vm_live vm - owned s \<subseteq> vm_live vm1 - owned s1" using keep own unfolding scope_def by auto
  then have "vm_live vm - owned s \<subseteq> vm_live vm2" using e2 by (meson subset_trans)
  moreover have "only_changes (scope vm s) (vm_phys vm) (vm_phys vm2)"
    using e1 e2 sc by - (rule only_changes_trans [where F = "scope vm s" and ?m2.0 = "vm_phys vm1"
          and G = "scope vm1 s1"], simp_all)
  moreover have "owned s2 \<subseteq> scope vm s" using e2 sc by (meson subset_trans)
  ultimately show ?thesis using e1 e2 unfolding effect_def by simp
qed

text \<open>The state behind the frame allocator is untouched by writes to memory and counters.\<close>

lemma frames_ok_cong: "vm_frames vm' = vm_frames vm \<Longrightarrow> frames_ok vm' = frames_ok vm"
  "vm_frames vm' = vm_frames vm \<Longrightarrow> vm_live vm' = vm_live vm"
  "vm_frames vm' = vm_frames vm \<Longrightarrow> vm_every vm' = vm_every vm"
  "vm_frames vm' = vm_frames vm \<Longrightarrow> vm_room vm' = vm_room vm"
  by (simp_all add: frames_ok_def vm_live_def vm_every_def vm_room_def)

lemma frames_ok_phys [simp]: "frames_ok (vm\<lparr>vm_phys := m\<rparr>) = frames_ok vm"
  "vm_live (vm\<lparr>vm_phys := m\<rparr>) = vm_live vm" "vm_every (vm\<lparr>vm_phys := m\<rparr>) = vm_every vm"
  "frames_ok (write_entry vm f i v) = frames_ok vm" "vm_live (write_entry vm f i v) = vm_live vm"
  "vm_every (write_entry vm f i v) = vm_every vm"
  by (simp_all add: frames_ok_def vm_live_def vm_every_def write_entry_def)

lemma effect_write:
  assumes "frames_ok vm" and "owned space \<subseteq> vm_live vm" and "f \<in> owned space" and "i < 512"
  shows "effect vm space (write_entry vm f i v) space"
proof -
  have "f \<in> vm_every vm" using assms vm_live_every by blast
  then show ?thesis
    using assms vm_every_aligned [OF assms(1)] effect_refl [OF assms(1,2)]
    by (auto simp: effect_def scope_def write_entry_def intro!: only_changes_writes)
qed

section \<open>Frames\<close>

lemma allocate_zeroed_Inr:
  assumes ok: "frames_ok vm" and a: "allocate_zeroed_frame vm = (Inr f, vm')"
  shows "ok_frame f" "f \<noteq> 0" "f \<in> vm_every vm" "f \<notin> vm_live vm" "vm_live vm' = insert f (vm_live vm)"
    "frames_ok vm'" "vm' = vm\<lparr>vm_frames := vm_frames vm', vm_phys := zero_frame (vm_phys vm) f\<rparr>"
    "vm_every vm' = vm_every vm"
proof -
  from a obtain vm1 where v: "vm_allocate vm = (Some f, vm1)" and r: "identity_reachable f"
    and vm': "vm' = vm1\<lparr>vm_phys := zero_frame (vm_phys vm1) f\<rparr>"
    by (auto simp: allocate_zeroed_frame_def split: prod.splits option.splits if_splits)
  note s = store.alloc_Some [OF ok v] and e = vm_store_frame(1) [OF ok v]
  then show "f \<in> vm_every vm" "f \<notin> vm_live vm" "vm_live vm' = insert f (vm_live vm)"
    "frames_ok vm'" "vm_every vm' = vm_every vm" using vm' by simp_all
  show "ok_frame f" using r vm_every_aligned [OF ok] s by (simp add: ok_frame_def)
  show "f \<noteq> 0" using s ok by (auto simp: frames_ok_def vm_every_def)
  have "vm_phys vm1 = vm_phys vm" using e by (metis Vm.ext_inject Vm.surjective Vm.update_convs(8))
  with e vm' show "vm' = vm\<lparr>vm_frames := vm_frames vm', vm_phys := zero_frame (vm_phys vm) f\<rparr>"
    by (metis Vm.select_convs(8) Vm.surjective Vm.update_convs(7) Vm.update_convs(8))
qed

lemma allocate_zeroed_Inl:
  assumes ok: "frames_ok vm" and a: "allocate_zeroed_frame vm = (Inl e, vm')"
  shows "e = SpaceOutOfFrames \<or> e = SpacePhysicalNotIdentityMapped" "vm_live vm' = vm_live vm"
    "frames_ok vm'" "vm' = vm\<lparr>vm_frames := vm_frames vm'\<rparr>" "vm_every vm' = vm_every vm"
proof -
  have "(e = SpaceOutOfFrames \<or> e = SpacePhysicalNotIdentityMapped) \<and> vm_live vm' = vm_live vm
      \<and> frames_ok vm' \<and> vm' = vm\<lparr>vm_frames := vm_frames vm'\<rparr> \<and> vm_every vm' = vm_every vm"
  proof (cases "vm_allocate vm")
    case (Pair r vm1)
    show ?thesis
    proof (cases r)
      case None
      with a Pair have "e = SpaceOutOfFrames" "vm' = vm1" by (auto simp: allocate_zeroed_frame_def)
      with store.alloc_None [OF ok, of vm1] vm_store_frame(1) [OF ok Pair] Pair None show ?thesis by simp
    next
      case (Some f)
      with a Pair have e: "e = SpacePhysicalNotIdentityMapped" "vm' = snd (vm_free vm1 f)"
        by (auto simp: allocate_zeroed_frame_def split: if_splits)
      note s = store.alloc_Some [OF ok, of f vm1] store.alloc_release [OF ok, of f vm1]
      have ok1: "frames_ok vm1" using s(1) Pair Some by simp
      have "vm_free vm1 f = (fst (vm_free vm1 f), vm')" by (simp add: e(2))
      from vm_store_frame(2) [OF ok1 this] vm_store_frame(1) [OF ok Pair]
      have "vm' = vm\<lparr>vm_frames := vm_frames vm'\<rparr>" by (metis (no_types, lifting) Vm.surjective Vm.update_convs(8))
      with s Pair Some e show ?thesis by simp
    qed
  qed
  then show "e = SpaceOutOfFrames \<or> e = SpacePhysicalNotIdentityMapped" "vm_live vm' = vm_live vm"
    "frames_ok vm'" "vm' = vm\<lparr>vm_frames := vm_frames vm'\<rparr>" "vm_every vm' = vm_every vm" by blast+
qed

text \<open>Enough free frames, all of them reachable through the identity map.\<close>

definition plenty :: "nat \<Rightarrow> Vm \<Rightarrow> bool" where
  "plenty n vm \<longleftrightarrow> (\<forall>f \<in> vm_every vm. identity_reachable f) \<and> n \<le> card (vm_every vm - vm_live vm)"

lemma plenty_mono: "plenty n vm \<Longrightarrow> m \<le> n \<Longrightarrow> plenty m vm"
  by (simp add: plenty_def)

lemma plenty_cong: "vm_every vm' = vm_every vm \<Longrightarrow> vm_live vm' = vm_live vm \<Longrightarrow> plenty n vm' = plenty n vm"
  by (simp add: plenty_def)

lemma allocate_zeroed_plenty:
  assumes ok: "frames_ok vm"
  shows "allocate_zeroed_frame vm = (Inl e, vm') \<Longrightarrow> \<not> plenty (Suc n) vm"
    "allocate_zeroed_frame vm = (Inr f, vm') \<Longrightarrow> plenty (Suc n) vm \<Longrightarrow> plenty n vm'"
proof -
  show "\<not> plenty (Suc n) vm" if a: "allocate_zeroed_frame vm = (Inl e, vm')"
  proof (cases "vm_allocate vm")
    case (Pair r vm1)
    show ?thesis
    proof (cases r)
      case None
      with Pair store.alloc_None [OF ok, of vm1] show ?thesis by (simp add: plenty_def)
    next
      case (Some f)
      with a Pair have "\<not> identity_reachable f" by (auto simp: allocate_zeroed_frame_def split: if_splits)
      with Pair Some store.alloc_Some [OF ok, of f vm1] show ?thesis by (auto simp: plenty_def)
    qed
  qed
  assume a: "allocate_zeroed_frame vm = (Inr f, vm')" and p: "plenty (Suc n) vm"
  note z = allocate_zeroed_Inr [OF ok a]
  have "vm_every vm - vm_live vm' = (vm_every vm - vm_live vm) - {f}" using z(5) by auto
  then have "card (vm_every vm - vm_live vm) = Suc (card (vm_every vm - vm_live vm'))"
    using z(3,4) card.remove [of "vm_every vm - vm_live vm" f] by simp
  with p z(8) show "plenty n vm'" by (simp add: plenty_def)
qed

text \<open>Both outcomes as effects.\<close>

lemma allocate_zeroed_effect:
  assumes "frames_ok vm" and "owned space \<subseteq> vm_live vm"
  shows "allocate_zeroed_frame vm = (Inl e, vm') \<Longrightarrow> effect vm space vm' space"
    "allocate_zeroed_frame vm = (Inr f, vm') \<Longrightarrow> owned space' \<subseteq> insert f (owned space) \<Longrightarrow>
       effect vm space vm' space' \<and> owned space' \<subseteq> vm_live vm'"
proof -
  note r = effect_refl [OF assms]
  have sel: "vm_phys vm' = vm_phys vm" "p4_addr vm' = p4_addr vm" "vm_cr3 vm' = vm_cr3 vm"
    "paging_initialized vm' = paging_initialized vm" if "vm' = vm\<lparr>vm_frames := vm_frames vm'\<rparr>"
    by (subst that, simp)+
  show "effect vm space vm' space" if "allocate_zeroed_frame vm = (Inl e, vm')"
    using allocate_zeroed_Inl(2-5) [OF assms(1) that] sel r by (simp add: effect_def)
  assume a: "allocate_zeroed_frame vm = (Inr f, vm')" and o: "owned space' \<subseteq> insert f (owned space)"
  note i = allocate_zeroed_Inr [OF assms(1) a]
  have "vm_phys vm' = zero_frame (vm_phys vm) f" "p4_addr vm' = p4_addr vm" "vm_cr3 vm' = vm_cr3 vm"
    "paging_initialized vm' = paging_initialized vm"
    by (subst i(7), simp)+
  moreover have "f \<in> scope vm space" using i(3,4) by (simp add: scope_def)
  ultimately show "effect vm space vm' space' \<and> owned space' \<subseteq> vm_live vm'"
    using i(1,5,6,8) r o assms(2) unfolding effect_def
    by (auto simp: ok_frame_def intro!: only_changes_writes)
qed

text \<open>Appending a table frame.\<close>

definition push_table :: "AddressSpace \<Rightarrow> u64 \<Rightarrow> AddressSpace" where
  "push_table space f =
     space\<lparr>as_table_frames := (as_table_frames space)[table_frame_count space := f],
           table_frame_count := table_frame_count space + 1\<rparr>"

lemma push_table:
  assumes "arrays_ok space" and "table_frame_count space < MAX_PROCESS_TABLE_FRAMES"
  shows "tables (push_table space f) = tables space @ [f]" "pages (push_table space f) = pages space"
    "owned (push_table space f) = insert f (owned space)" "arrays_ok (push_table space f)"
    "root_frame (push_table space f) = root_frame space" "as_active (push_table space f) = as_active space"
proof -
  show t: "tables (push_table space f) = tables space @ [f]"
    using assms by (simp add: push_table_def tables_def arrays_ok_def take_Suc_conv_app_nth)
  show p: "pages (push_table space f) = pages space" by (simp add: push_table_def pages_def)
  show "owned (push_table space f) = insert f (owned space)" by (simp add: owned_def t p)
  show "arrays_ok (push_table space f)" using assms by (simp add: push_table_def arrays_ok_def)
qed (simp_all add: push_table_def)

lemma allocate_table_frame_cases:
  assumes "allocate_table_frame space vm = (r, space', vm')"
  obtains (full) "MAX_PROCESS_TABLE_FRAMES \<le> table_frame_count space" "r = Inl TableCapacityExceeded"
      "space' = space" "vm' = vm"
  | (fail) e where "table_frame_count space < MAX_PROCESS_TABLE_FRAMES"
      "allocate_zeroed_frame vm = (Inl e, vm')" "r = Inl e" "space' = space"
  | (table) f where "table_frame_count space < MAX_PROCESS_TABLE_FRAMES"
      "allocate_zeroed_frame vm = (Inr f, vm')" "r = Inr f" "space' = push_table space f"
  using assms unfolding allocate_table_frame_def push_table_def
  by (auto split: if_splits prod.splits sum.splits)

lemma allocate_table_frame_effect:
  assumes ok: "frames_ok vm" "owned space \<subseteq> vm_live vm" "arrays_ok space"
    and a: "allocate_table_frame space vm = (r, space', vm')"
  shows "effect vm space vm' space' \<and> frames_ok vm' \<and> owned space' \<subseteq> vm_live vm' \<and> arrays_ok space'"
  using a
proof (cases rule: allocate_table_frame_cases)
  case full
  with ok effect_refl [OF ok(1,2)] show ?thesis by simp
next
  case (fail e)
  with allocate_zeroed_effect(1) [OF ok(1,2), of e vm'] allocate_zeroed_Inl [OF ok(1), of e vm'] ok
  show ?thesis by simp
next
  case (table f)
  note p = push_table [OF ok(3) table(1), of f]
  show ?thesis
    using table allocate_zeroed_effect(2) [OF ok(1,2) table(2), of space'] p
      allocate_zeroed_Inr(6) [OF ok(1) table(2)] by simp
qed

section \<open>Giving frames back\<close>

lemma release_tables_loop_eq:
  "release_tables_loop space n vm = store.release_all (rev (map ((!) (as_table_frames space)) [0..<n])) vm"
  by (induction n arbitrary: vm) simp_all

lemma tables_eq_map: "arrays_ok space \<Longrightarrow>
    map ((!) (as_table_frames space)) [0..<table_frame_count space] = tables space"
  by (rule nth_equalityI) (auto simp: tables_def arrays_ok_def)

lemma release_all_sel:
  "frames_ok vm \<Longrightarrow> store.release_all fs vm = vm\<lparr>vm_frames := vm_frames (store.release_all fs vm)\<rparr>"
proof (induction fs arbitrary: vm)
  case (Cons f fs)
  let ?t = "snd (vm_free vm f)"
  have p: "vm_free vm f = (fst (vm_free vm f), ?t)" by simp
  have ok: "frames_ok ?t" using store.release_keeps(1) [OF Cons.prems p] .
  have "?t = vm\<lparr>vm_frames := vm_frames ?t\<rparr>" by (rule vm_store_frame(2) [OF Cons.prems p])
  then show ?case
    using Cons.IH [OF ok] by (simp, metis (no_types, lifting) Vm.surjective Vm.update_convs(8))
qed simp

lemma release_effect:
  assumes "frames_ok vm" and "set fs \<subseteq> owned space"
  shows "effect vm space (store.release_all fs vm) AddressSpace_empty"
proof -
  let ?t = "store.release_all fs vm"
  have "vm_phys ?t = vm_phys vm" "p4_addr ?t = p4_addr vm" "vm_cr3 ?t = vm_cr3 vm"
    "paging_initialized ?t = paging_initialized vm"
    by (subst release_all_sel [OF assms(1)], simp)+
  with store.release_all_keeps [OF assms(1), of fs] assms(2) show ?thesis
    by (auto simp: effect_def)
qed

text \<open>
  Creation, mapping and destruction of address spaces, and the system of all address spaces
  with the writes that user programs make to their pages: an invariant of every run.
\<close>

section \<open>The kernel's own tables\<close>

text \<open>
  What creation relies on: the boot root table and the low table it points to lie outside the
  frames the allocator hands out, and grant user access at most in the entry of the user
  gigabyte.
\<close>

definition kernel_tables :: "Vm \<Rightarrow> bool" where
  "kernel_tables vm \<longleftrightarrow>
     (let p4 = p4_addr vm; p3 = entry_addr (entry_at (vm_phys vm) p4 0)
      in frame_aligned p4 \<and> p4 \<notin> vm_every vm \<and> identity_reachable p3 \<and> p3 \<notin> vm_every vm
         \<and> (\<forall>i < 512. i \<noteq> 0 \<longrightarrow> \<not> entry_user (entry_at (vm_phys vm) p4 i))
         \<and> (\<forall>i < 512. i \<noteq> 1 \<longrightarrow> \<not> entry_user (entry_at (vm_phys vm) p3 i)))"

lemma scope_every: "scope vm space \<subseteq> vm_every vm"
  by (auto simp: scope_def)

lemma kernel_tables_effect:
  assumes "kernel_tables vm" and "effect vm s vm' s'"
  shows "kernel_tables vm'"
proof -
  note e = assms(2) [unfolded effect_def]
  have same: "entry_at (vm_phys vm') f k = entry_at (vm_phys vm) f k"
    if "frame_aligned f" "f \<notin> vm_every vm" "k < 512" for f k
    by (rule only_changesD [of "scope vm s"]) (use e that scope_every [of vm s] in auto)
  show ?thesis using assms(1) e unfolding kernel_tables_def Let_def by (auto simp: same)
qed

section \<open>Creation\<close>

lemma effect_phys:
  assumes "frames_ok vm" and "owned space \<subseteq> vm_live vm" and "only_changes (owned space) (vm_phys vm) m"
  shows "effect vm space (vm\<lparr>vm_phys := m\<rparr>) space"
proof -
  have "owned space \<subseteq> scope vm space" using effect_refl [OF assms(1,2)] by (simp add: effect_def)
  then have "only_changes (scope vm space) (vm_phys vm) m"
    using only_changes_trans [OF assms(3) only_changes_refl [of "owned space"]] by simp
  with effect_refl [OF assms(1,2)] show ?thesis by (simp add: effect_def)
qed

lemma ok_frame_mut: "ok_frame f \<Longrightarrow> table_from_frame_mut f = Inr f"
  by (simp add: table_from_frame_mut_def ok_frame_def aligned_frame_iff)

text \<open>The tables that a successful setup writes.\<close>

definition setup_memory :: "memory \<Rightarrow> u64 \<Rightarrow> u64 \<Rightarrow> u64 \<Rightarrow> u64 \<Rightarrow> memory" where
  "setup_memory mem p4 rt lo us =
     (let m = copy_table mem rt p4;
          m = copy_table m lo (entry_addr (entry_at m p4 0));
          m = set_entry m rt 0 (lo OR TABLE_FLAGS)
      in set_entry m lo 1 (us OR TABLE_FLAGS))"

lemma setup_layout:
  assumes ok: "ok_frame rt" "ok_frame lo" "ok_frame us" "rt \<noteq> 0" "lo \<noteq> 0" "us \<noteq> 0"
    and dist: "distinct [rt, lo, us]"
    and p4: "frame_aligned p4" "p4 \<notin> {rt, lo, us}" "\<And>i. i < 512 \<Longrightarrow> i \<noteq> 0 \<Longrightarrow> \<not> entry_user (entry_at mem p4 i)"
    and p3: "p3 = entry_addr (entry_at mem p4 0)" "p3 \<notin> {rt, lo, us}"
      "\<And>i. i < 512 \<Longrightarrow> i \<noteq> 1 \<Longrightarrow> \<not> entry_user (entry_at mem p3 i)"
    and us: "\<And>i. i < 512 \<Longrightarrow> entry_at mem us i = 0"
  shows "layout (setup_memory mem p4 rt lo us) rt lo us [] []"
    and "only_changes {rt, lo} mem (setup_memory mem p4 rt lo us)"
proof -
  let ?m1 = "copy_table mem rt p4"
  let ?m2 = "copy_table ?m1 lo p3"
  let ?m3 = "set_entry ?m2 rt 0 (lo OR TABLE_FLAGS)"
  define m where "m = set_entry ?m3 lo 1 (us OR TABLE_FLAGS)"
  have al: "frame_aligned rt" "frame_aligned lo" "frame_aligned us" "frame_aligned p3"
    and ne: "lo \<noteq> rt" "us \<noteq> rt" "us \<noteq> lo"
    using ok p3(1) dist by (auto simp: ok_frame_def)
  have e0: "entry_at ?m1 p4 0 = entry_at mem p4 0" using al p4 by (simp add: entry_copy)
  have m: "setup_memory mem p4 rt lo us = m" by (simp add: m_def setup_memory_def Let_def e0 p3(1) del: One_nat_def)
  have r: "entry_at m rt i = (if i = 0 then lo OR TABLE_FLAGS else entry_at mem p4 i)" if "i < 512" for i
    using that al ne p4 dist by (simp add: m_def entry_set entry_copy)
  have l: "entry_at m lo i = (if i = 1 then us OR TABLE_FLAGS else entry_at mem p3 i)" if "i < 512" for i
  proof (cases "i = 1")
    case False
    with that al ne dist p3 show ?thesis by (simp add: m_def entry_set entry_copy)
  qed (simp add: m_def)
  have u: "entry_at m us i = 0" if "i < 512" for i
    using that al ne us by (simp add: m_def entry_set entry_copy)
  have "frames_layout rt lo us [] []" using ok dist by (simp add: frames_layout_def)
  moreover have "upper_ok m rt lo us" using p4(3) p3(3) by (simp add: upper_ok_def r l del: One_nat_def)
  moreover have "leaf_tables_ok m us []" by (simp add: leaf_tables_ok_def u)
  moreover have "leaves_ok m us []" by (simp add: leaves_ok_def leaf_def u)
  ultimately show "layout (setup_memory mem p4 rt lo us) rt lo us [] []" by (simp add: layout_def m)
  show "only_changes {rt, lo} mem (setup_memory mem p4 rt lo us)"
    unfolding m m_def using al by (auto simp: only_changes_def entry_set entry_copy)
qed

text \<open>A space under construction: it has only fresh table frames so far.\<close>

definition building :: "Vm \<Rightarrow> Vm \<Rightarrow> AddressSpace \<Rightarrow> u64 list \<Rightarrow> bool" where
  "building vm0 vm s ts \<longleftrightarrow> frames_ok vm \<and> effect vm0 AddressSpace_empty vm s \<and> owned s \<subseteq> vm_live vm
     \<and> arrays_ok s \<and> tables s = ts \<and> pages s = [] \<and> table_frame_count s = length ts
     \<and> distinct ts \<and> (\<forall>t \<in> set ts. ok_frame t \<and> t \<noteq> 0)
     \<and> (\<forall>t \<in> set ts. \<forall>k < 512. entry_at (vm_phys vm) t k = 0)"

lemma building_root: "building vm0 vm (s\<lparr>root_frame := f\<rparr>) ts = building vm0 vm s ts"
  using owned_cong [of "s\<lparr>root_frame := f\<rparr>" s] by (simp add: building_def effect_def)

lemma building_step:
  assumes b: "building vm0 vm s ts" and n: "length ts < 3"
  obtains (fail) e vm' where "allocate_table_frame s vm = (Inl e, s, vm')" "building vm0 vm' s ts"
      "e = SpaceOutOfFrames \<or> e = SpacePhysicalNotIdentityMapped" "\<And>n. \<not> plenty (Suc n) vm"
  | (table) f vm' where "allocate_table_frame s vm = (Inr f, push_table s f, vm')"
      "building vm0 vm' (push_table s f) (ts @ [f])" "\<And>n. plenty (Suc n) vm \<Longrightarrow> plenty n vm'"
proof -
  have ok: "frames_ok vm" "owned s \<subseteq> vm_live vm" "arrays_ok s" "table_frame_count s < MAX_PROCESS_TABLE_FRAMES"
    and e0: "effect vm0 AddressSpace_empty vm s"
    and ts: "tables s = ts" "pages s = []" "table_frame_count s = length ts" "distinct ts"
      "\<And>t. t \<in> set ts \<Longrightarrow> ok_frame t \<and> t \<noteq> 0"
      "\<And>t k. t \<in> set ts \<Longrightarrow> k < 512 \<Longrightarrow> entry_at (vm_phys vm) t k = 0"
    using b n by (auto simp: building_def MAX_PROCESS_TABLE_FRAMES_def)
  obtain r s' vm' where a: "allocate_table_frame s vm = (r, s', vm')" by (metis prod_cases3)
  note e = allocate_table_frame_effect [OF ok(1-3) a]
  note tr = effect_trans [OF e0, of vm' s']
  from a show ?thesis
  proof (cases rule: allocate_table_frame_cases)
    case full
    with ok(4) show ?thesis by simp
  next
    case (fail er)
    note z = allocate_zeroed_Inl [OF ok(1) fail(2)]
    have "vm_phys vm' = vm_phys vm" by (subst z(4), simp)
    then have "building vm0 vm' s ts" using e tr fail ts by (simp add: building_def)
    with a fail z(1) allocate_zeroed_plenty(1) [OF ok(1) fail(2)] show ?thesis by (intro that(1)) auto
  next
    case (table f)
    note z = allocate_zeroed_Inr [OF ok(1) table(2)] and p = push_table [OF ok(3,4), of f]
    have m: "vm_phys vm' = zero_frame (vm_phys vm) f" by (subst z(7), simp)
    have "f \<notin> set ts" using z(4) ok(2) ts(1) by (auto simp: owned_def)
    then have "building vm0 vm' (push_table s f) (ts @ [f])"
      using e tr table ts p z(1,2) by (auto simp: building_def m ok_frame_def push_table_def)
    with a table allocate_zeroed_plenty(2) [OF ok(1) table(2)] show ?thesis by (intro that(2)) auto
  qed
qed

text \<open>The setup: an error leaves a space under construction, success the layout of an empty space.\<close>

lemma create_setup_spec:
  assumes ok: "frames_ok vm" and k: "kernel_tables vm"
  obtains (fail) e s vm' ts where "create_setup vm = (Inl e, s, vm')" "building vm vm' s ts"
      "e = SpaceOutOfFrames \<or> e = SpacePhysicalNotIdentityMapped" "\<And>n. \<not> plenty (n + 3) vm"
  | (success) s vm' lo us where "create_setup vm = (Inr (), s, vm')" "effect vm AddressSpace_empty vm' s"
      "owned s \<subseteq> vm_live vm'" "arrays_ok s" "pages s = []" "tables s = [root_frame s, lo, us]"
      "layout (vm_phys vm') (root_frame s) lo us [] []" "\<And>n. plenty (n + 3) vm \<Longrightarrow> plenty n vm'"
proof -
  let ?E = AddressSpace_empty
  have "building vm vm ?E []"
    using ok effect_refl [of vm ?E] by (simp add: building_def, simp add: AddressSpace_empty_def)
  moreover have "length ([] :: u64 list) < 3" by simp
  ultimately show ?thesis
  proof (cases rule: building_step)
    case (fail e vm')
    have "\<not> plenty (n + 3) vm" for n using fail(4) [of "n + 2"] by (simp add: numeral_3_eq_3)
    with fail that(1) [of e ?E vm' "[]"] show ?thesis by (simp add: create_setup_def)
  next
    case (table rt vm1)
    define s1 where "s1 = (push_table ?E rt)\<lparr>root_frame := rt\<rparr>"
    note t1 = table
    have "building vm vm1 s1 [rt]" using t1(2) by (simp add: s1_def building_root)
    moreover have "length [rt] < 3" by simp
    ultimately show ?thesis
    proof (cases rule: building_step)
      case (fail e vm')
      have "\<not> plenty (n + 3) vm" for n using fail(4) [of "n + 1"] t1(3) [of "n + 2"] by (auto simp: numeral_3_eq_3)
      with fail that(1) [of e s1 vm' "[rt]"] t1 show ?thesis by (simp add: create_setup_def s1_def)
    next
      case (table lo vm2)
      note t2 = table
      have "building vm vm2 (push_table s1 lo) [rt, lo]" "length [rt, lo] < 3" using t2(2) by simp_all
      then show ?thesis
      proof (cases rule: building_step)
        case (fail e vm')
        have "\<not> plenty (n + 3) vm" for n using fail(4) [of n] t1(3) [of "n + 2"] t2(3) [of "n + 1"] by (auto simp: numeral_3_eq_3)
        with fail that(1) [of e "push_table s1 lo" vm' "[rt, lo]"] t1 t2 show ?thesis
          by (simp add: create_setup_def s1_def)
      next
        case (table us vm3)
        define s3 where "s3 = push_table (push_table s1 lo) us"
        have b: "building vm vm3 s3 [rt, lo, us]" using table(2) by (simp add: s3_def)
        have root: "root_frame s3 = rt" by (simp add: s3_def push_table_def s1_def)
        have f: "ok_frame rt" "ok_frame lo" "ok_frame us" "rt \<noteq> 0" "lo \<noteq> 0" "us \<noteq> 0" "distinct [rt, lo, us]"
          and z: "\<And>i. i < 512 \<Longrightarrow> entry_at (vm_phys vm3) us i = 0"
          and ow: "owned s3 = {rt, lo, us}" and ok3: "frames_ok vm3" "owned s3 \<subseteq> vm_live vm3"
          and e3: "effect vm ?E vm3 s3"
          using b by (auto simp: building_def owned_def)
        have k3: "kernel_tables vm3" by (rule kernel_tables_effect [OF k e3])
        let ?p4 = "p4_addr vm3" and ?m = "setup_memory (vm_phys vm3) (p4_addr vm3) rt lo us"
        let ?p3 = "entry_addr (entry_at (vm_phys vm3) ?p4 0)"
        have out: "?p4 \<notin> {rt, lo, us}" "?p3 \<notin> {rt, lo, us}"
          using k3 ok3 vm_live_every [OF ok3(1)] unfolding kernel_tables_def Let_def ow by auto
        have l: "layout ?m rt lo us [] []" "only_changes {rt, lo} (vm_phys vm3) ?m"
          using k3 out z f by (intro setup_layout [where ?p3.0 = ?p3]; simp add: kernel_tables_def Let_def)+
        have e0: "entry_at (copy_table (vm_phys vm3) rt ?p4) ?p4 0 = entry_at (vm_phys vm3) ?p4 0"
          using k3 f out by (simp add: entry_copy ok_frame_def kernel_tables_def Let_def)
        have r3: "table_from_entry (entry_at (vm_phys vm3) ?p4 0) = Some ?p3"
          using k3 by (simp add: table_from_entry_def kernel_tables_def Let_def)
        have "create_setup vm = (Inr (), s3, vm3\<lparr>vm_phys := ?m\<rparr>)"
          using t1(1) t2(1) table(1) ok_frame_mut f
          by (simp add: create_setup_def s1_def s3_def ok_frame_mut e0 r3 write_entry_def user_p3
              setup_memory_def TABLE_FLAGS_def Let_def del: One_nat_def)
        moreover have "effect vm ?E (vm3\<lparr>vm_phys := ?m\<rparr>) s3"
          using only_changes_trans [OF l(2) only_changes_refl, of _ "owned s3"]
          by (intro effect_trans [OF e3] effect_phys ok3) (auto simp: ow)
        moreover have "plenty n (vm3\<lparr>vm_phys := ?m\<rparr>)" if "plenty (n + 3) vm" for n
          using that t1(3) [of "n + 2"] t2(3) [of "n + 1"] table(3) [of n] by (simp add: plenty_def numeral_3_eq_3)
        ultimately show ?thesis
          using that(2) [of s3 "vm3\<lparr>vm_phys := ?m\<rparr>" lo us] b l(1) ok3 root by (simp add: building_def)
      qed
    qed
  qed
qed

end
