(* ===== verification/Space_Runs.thy ===== *)
theory Space_Runs
  imports Space_Ops
begin

unbundle bit_operations_syntax

text \<open>
  Creation, mapping and destruction as whole operations, and runs of a system of address
  spaces in which user programs write to their pages.
\<close>

section \<open>Creation\<close>

lemma space_inv_cong:
  assumes "space_inv vm s" and "vm_phys vm' = vm_phys vm" and "vm_live vm' = vm_live vm"
  shows "space_inv vm' s"
  using assms by (simp add: space_inv_def)

lemma effect_counters:
  assumes "effect vm s vm' s'" and "vm_frames vm'' = vm_frames vm'" and "vm_phys vm'' = vm_phys vm'"
    and "p4_addr vm'' = p4_addr vm'" and "paging_initialized vm'' = paging_initialized vm'"
    and "vm_cr3 vm'' = vm_cr3 vm'"
  shows "effect vm s vm'' s'"
  using assms unfolding effect_def frames_ok_cong [OF assms(2)] by simp

lemma create_spec:
  assumes ok: "frames_ok vm" and k: "kernel_tables vm" and i: "paging_initialized vm"
  obtains (fail) e vm' where "create vm = (Inl e, vm')" "effect vm AddressSpace_empty vm' AddressSpace_empty"
      "e = SpaceOutOfFrames \<or> e = SpacePhysicalNotIdentityMapped" "\<And>n. \<not> plenty (n + 3) vm"
  | (success) s vm' where "create vm = (Inr s, vm')" "effect vm AddressSpace_empty vm' s"
      "space_inv vm' s" "pages s = []" "\<And>n. plenty (n + 3) vm \<Longrightarrow> plenty n vm'"
  using ok k
proof (cases rule: create_setup_spec)
  case (fail e s vm1 ts)
  note b = fail(2) [unfolded building_def]
  let ?vm = "release_tables_loop s (table_frame_count s) vm1"
  have eq: "?vm = store.release_all (rev (tables s)) vm1"
    using b tables_eq_map [of s] by (simp only: release_tables_loop_eq)
  have e1: "effect vm1 s ?vm AddressSpace_empty"
    unfolding eq using b by (intro release_effect) (auto simp: owned_def)
  have e0: "effect vm AddressSpace_empty vm1 s" using b by simp
  from effect_trans [OF e0 e1] fail i
    that(1) [of e ?vm] show ?thesis by (simp add: create_def release_partial_tables_def)
next
  case (success s vm1 lo us)
  let ?s = "s\<lparr>as_active := True\<rparr>"
  let ?vm = "vm1\<lparr>address_spaces_created := address_spaces_created vm1 + 1,
    active_address_spaces := active_address_spaces vm1 + 1, last_created_root := root_frame s\<rparr>"
  have o: "tables ?s = tables s" "pages ?s = pages s" "owned ?s = owned s" "arrays_ok ?s = arrays_ok s"
    using owned_cong [of ?s s] by simp_all
  have live: "vm_live ?vm = vm_live vm1" "vm_every ?vm = vm_every vm1" by (simp_all add: vm_live_def vm_every_def)
  have "plenty n ?vm" if "plenty (n + 3) vm" for n using success(8) [OF that] live by (simp add: plenty_def)
  moreover
  have "effect vm AddressSpace_empty ?vm ?s"
    using effect_counters [OF success(2), of ?vm] o by (simp add: effect_def)
  moreover have "space_inv ?vm ?s" using success by (simp add: space_inv_def o live)
  ultimately show ?thesis using that(2) [of ?s ?vm] success i o by (simp add: create_def Let_def)
qed

section \<open>Mapping\<close>

definition push_page :: "AddressSpace \<Rightarrow> u64 \<Rightarrow> u64 \<Rightarrow> UserPagePermissions \<Rightarrow> AddressSpace" where
  "push_page space v f p =
     (let n = user_frame_count space
      in space\<lparr>as_user_frames := (as_user_frames space)[n := f],
               user_virtuals := (user_virtuals space)[n := v],
               user_permissions := (user_permissions space)[n := p], user_frame_count := n + 1\<rparr>)"

lemma push_page:
  assumes "arrays_ok space" and "user_frame_count space < MAX_PROCESS_USER_PAGES"
  shows "pages (push_page space v f p) = pages space @ [(v, f, p)]"
    "tables (push_page space v f p) = tables space"
    "owned (push_page space v f p) = insert f (owned space)" "arrays_ok (push_page space v f p)"
    "root_frame (push_page space v f p) = root_frame space"
    "as_active (push_page space v f p) = as_active space"
proof -
  show p: "pages (push_page space v f p) = pages space @ [(v, f, p)]"
    using assms by (simp add: push_page_def pages_def arrays_ok_def Let_def take_Suc_conv_app_nth
        take_zip)
  show t: "tables (push_page space v f p) = tables space" by (simp add: push_page_def tables_def Let_def)
  show "owned (push_page space v f p) = insert f (owned space)" by (simp add: owned_def t p)
  show "arrays_ok (push_page space v f p)" using assms by (simp add: push_page_def arrays_ok_def Let_def)
qed (simp_all add: push_page_def Let_def)

lemma table_count: "arrays_ok s \<Longrightarrow> table_frame_count s = length (tables s)"
  by (simp add: tables_def arrays_ok_def)

text \<open>After \<open>ensure_leaf_table\<close> the entry of the user table points to a leaf table.\<close>

lemma ensure_leaf_spec:
  assumes ok: "frames_ok vm" and inv: "space_inv vm s" and t: "tables s = root_frame s # lo # us # ls"
    and j: "j < 8"
  obtains (fail) e vm' where "ensure_leaf_table vm s us j = (Inl e, s, vm')" "effect vm s vm' s"
      "space_inv vm' s" "e = SpaceOutOfFrames \<or> e = SpacePhysicalNotIdentityMapped"
      "\<And>n. \<not> plenty (Suc n) vm"
  | (leaf) s' vm' ls' t where "ensure_leaf_table vm s us j = (Inr (), s', vm')" "effect vm s vm' s'"
      "space_inv vm' s'" "tables s' = root_frame s # lo # us # ls'" "root_frame s' = root_frame s"
      "pages s' = pages s" "user_frame_count s' = user_frame_count s" "t \<in> set ls'"
      "entry_at (vm_phys vm') us j = t OR TABLE_FLAGS" "vm_live vm \<subseteq> vm_live vm'"
      "\<And>n. plenty (Suc n) vm \<Longrightarrow> plenty n vm'"
proof -
  from inv t have a: "arrays_ok s" "owned s \<subseteq> vm_live vm" and act: "as_active s"
    and l: "layout (vm_phys vm) (root_frame s) lo us ls (pages s)" by (auto elim!: space_invE)
  have fl: "frames_layout (root_frame s) lo us ls (pages s)" and lt: "leaf_tables_ok (vm_phys vm) us ls"
    using l by (simp_all add: layout_def)
  have "j < 512" using j by simp
  from lt this show ?thesis
  proof (rule user_entry_cases, goal_cases zero table)
    case (table t1)
    then have "ok_frame t1" using frames_layoutD(8) [OF fl] by blast
    with table that(2) [of s vm ls t1] effect_refl [OF ok a(2)] inv t plenty_mono [of _ vm] show ?case
      by (simp add: ensure_leaf_table_def table_entry)
  next
    case zero
    have n: "table_frame_count s < MAX_PROCESS_TABLE_FRAMES"
      using layout_table_bound [OF l] table_count [OF a(1)] t by (simp add: MAX_PROCESS_TABLE_FRAMES_def)
    obtain r s1 vm1 where al: "allocate_table_frame s vm = (r, s1, vm1)" by (metis prod_cases3)
    note ef = allocate_table_frame_effect [OF ok a(2,1) al]
    from al show ?case
    proof (cases rule: allocate_table_frame_cases)
      case full
      with n show ?thesis by simp
    next
      case (fail e)
      note z = allocate_zeroed_Inl [OF ok fail(2)]
      have "vm_phys vm1 = vm_phys vm" by (subst z(4), simp)
      then have "space_inv vm1 s" using space_inv_cong [OF inv, of vm1] z(2) by simp
      with fail that(1) [of e vm1] ef zero al z(1) allocate_zeroed_plenty(1) [OF ok fail(2)] show ?thesis
        by (simp add: ensure_leaf_table_def)
    next
      case (table f)
      note z = allocate_zeroed_Inr [OF ok table(2)] and p = push_table [OF a(1) n, of f]
      have m: "vm_phys vm1 = zero_frame (vm_phys vm) f" by (subst z(7), simp)
      let ?vm = "write_entry vm1 us j (f OR TABLE_FLAGS)"
      have fresh: "f \<notin> owned s" using z(4) a(2) by blast
      then have f: "f \<notin> set (root_frame s # lo # us # ls)" "f \<notin> (fst \<circ> snd) ` set (pages s)"
        using t by (auto simp: owned_def)
      have "layout (vm_phys ?vm) (root_frame s) lo us (ls @ [f]) (pages s)"
        using layout_add_table [OF l j zero z(1,2) f] by (simp add: write_entry_def m)
      moreover have s1: "s1 = push_table s f" "owned s1 \<subseteq> vm_live vm1" using table ef by simp_all
      ultimately have inv': "space_inv ?vm s1"
        using p t act by (simp add: space_inv_def)
      have "us \<in> owned s1" using s1 p(1) t by (simp add: owned_def)
      then have ef': "effect vm s ?vm s1"
        using ef j s1(2) by - (rule effect_trans [of vm s vm1 s1], simp, rule effect_write, simp_all)
      have "f OR ENTRY_PRESENT OR ENTRY_WRITABLE OR ENTRY_USER = f OR TABLE_FLAGS" by (simp add: TABLE_FLAGS_def)
      then have "ensure_leaf_table vm s us j = (Inr (), s1, ?vm)"
        using al table zero by (simp add: ensure_leaf_table_def)
      moreover have "plenty n ?vm" if "plenty (Suc n) vm" for n
        using allocate_zeroed_plenty(2) [OF ok table(2) that] by (simp add: plenty_def)
      ultimately show ?thesis
        using that(2) [of s1 ?vm "ls @ [f]" f] ef' inv' s1 p t z(5)
        by (simp add: push_table_def write_entry_def subset_insertI)
    qed
  qed
qed

text \<open>The whole of \<open>map_user_page\<close>.\<close>

definition map_errors :: "AddressSpaceError set" where
  "map_errors = {SpaceOutOfFrames, SpacePhysicalNotIdentityMapped}"

lemma insert_user_page_spec:
  assumes ok: "frames_ok vm" and inv: "space_inv vm s"
    and v: "frame_aligned v" "in_user_virtual_range v" "v \<notin> fst ` set (pages s)"
    and n: "user_frame_count s < MAX_PROCESS_USER_PAGES"
    and i: "insert_user_page vm s v p = (r, s', vm')"
  shows "effect vm s vm' s' \<and> space_inv vm' s' \<and> root_frame s' = root_frame s
    \<and> (case r of Inl e \<Rightarrow> e \<in> map_errors \<and> pages s' = pages s \<and> \<not> plenty 2 vm
        | Inr f \<Rightarrow> pages s' = pages s @ [(v, f, p)] \<and> f \<notin> vm_live vm
            \<and> (\<forall>n. plenty (n + 2) vm \<longrightarrow> plenty n vm')
            \<and> (\<forall>k < 512. entry_at (vm_phys vm') f k = 0))"
proof -
  from inv obtain lo us ls where t: "tables s = root_frame s # lo # us # ls"
    and l: "layout (vm_phys vm) (root_frame s) lo us ls (pages s)" by (rule space_invE)
  have fl: "frames_layout (root_frame s) lo us ls (pages s)" using l by (simp add: layout_def)
  note d = frames_layoutD [OF fl] and ix = user_index [OF v(2)]
  have up: "entry_at (vm_phys vm) (root_frame s) 0 = lo OR TABLE_FLAGS"
    "entry_at (vm_phys vm) lo 1 = us OR TABLE_FLAGS"
    using l by (simp_all add: layout_def upper_ok_def)
  note walk = ok_frame_mut [OF d(1)] table_from_entry_pack(2) [OF d(2)] table_from_entry_pack(2) [OF d(3)]
    up ix
  from ok inv t user_p2_less [OF v(2)] show ?thesis
  proof (cases rule: ensure_leaf_spec)
    case (fail e vm1)
    then show ?thesis
      using i fail(5) [of 1]
      by (auto simp: insert_user_page_def walk map_errors_def numeral_2_eq_2 simp del: One_nat_def)
  next
    case (leaf s1 vm1 ls1 t1)
    from leaf(3,4) leaf(5,6) have a: "arrays_ok s1" "owned s1 \<subseteq> vm_live vm1" and act: "as_active s1"
      and l1: "layout (vm_phys vm1) (root_frame s) lo us ls1 (pages s)"
      by (auto elim!: space_invE)
    have fl1: "frames_layout (root_frame s) lo us ls1 (pages s)" using l1 by (simp add: layout_def)
    have ok1: "frames_ok vm1" using leaf(2) by (simp add: effect_def)
    have t1: "ok_frame t1" using frames_layoutD(8) [OF fl1 leaf(8)] by blast
    have z: "entry_at (vm_phys vm1) t1 (p1_index v) = 0"
    proof -
      have "leaf (vm_phys vm1) us (p2_index v) (p1_index v) = entry_at (vm_phys vm1) t1 (p1_index v)"
        by (simp add: leaf_def leaf(9) table_entry [OF t1] Let_def)
      moreover have "leaf (vm_phys vm1) us (p2_index v) (p1_index v) = 0"
        using l1 index_less(3,4) [of v]
      proof (rule leaf_cases, goal_cases zero page)
        case (page w f q)
        note w = frames_layoutD(9) [OF fl1 page(1)]
        have "page_of w = page_of v" using w v page by (intro user_page_determined) auto
        then have "w = v" using w v by (simp add: page_of_aligned)
        with v(3) page(1) show ?case by force
      qed
      ultimately show ?thesis by simp
    qed
    have step: "insert_user_page vm s v p = (case allocate_zeroed_frame vm1 of
        (Inl error, vm) \<Rightarrow> (Inl error, s1, vm)
      | (Inr frame, vm) \<Rightarrow> (Inr frame, push_page s1 v frame p,
          write_entry vm t1 (p1_index v) (frame OR permission_flags p)))"
      by (simp add: insert_user_page_def walk leaf(1,9) table_from_entry_pack(2) [OF t1] z push_page_def
          Let_def del: One_nat_def split: prod.split sum.split)
    show ?thesis
    proof (cases "allocate_zeroed_frame vm1")
      case (Pair r2 vm2)
      show ?thesis
      proof (cases r2)
        case (Inl e)
        with Pair have al: "allocate_zeroed_frame vm1 = (Inl e, vm2)" by simp
        note zz = allocate_zeroed_Inl [OF ok1 al]
        have "vm_phys vm2 = vm_phys vm1" by (subst zz(4), simp)
        then have "space_inv vm2 s1" using space_inv_cong [OF leaf(3), of vm2] zz(2) by simp
        with effect_trans [OF leaf(2) allocate_zeroed_effect(1) [OF ok1 a(2) al]] i step al leaf zz(1)
          allocate_zeroed_plenty(1) [OF ok1 al, of 0] leaf(11) [of 1]
        show ?thesis by (auto simp: map_errors_def numeral_2_eq_2)
      next
        case (Inr f)
        with Pair have al: "allocate_zeroed_frame vm1 = (Inr f, vm2)" by simp
        note zz = allocate_zeroed_Inr [OF ok1 al]
        have n1: "user_frame_count s1 < MAX_PROCESS_USER_PAGES" using n leaf(7) by simp
        note p = push_page [OF a(1) n1, of v f p]
        have m: "vm_phys vm2 = zero_frame (vm_phys vm1) f" by (subst zz(7), simp)
        let ?s = "push_page s1 v f p"
        let ?vm = "write_entry vm2 t1 (p1_index v) (f OR permission_flags p)"
        have res: "r = Inr f" "s' = ?s" "vm' = ?vm" using i step al by simp_all
        have "f \<notin> owned s1" using zz(4) a(2) by blast
        then have f: "f \<notin> set (root_frame s # lo # us # ls1)" "f \<notin> (fst \<circ> snd) ` set (pages s)"
          using leaf(4,6) by (auto simp: owned_def)
        have lay: "layout (vm_phys ?vm) (root_frame s) lo us ls1 (pages s @ [(v, f, p)])"
          using layout_add_page [OF l1 v leaf(8,9) zz(1,2) f] by (simp add: write_entry_def m)
        have e2: "effect vm1 s1 vm2 ?s" "owned ?s \<subseteq> vm_live vm2"
          using allocate_zeroed_effect(2) [OF ok1 a(2) al, of ?s] p(3) by simp_all
        have t1o: "t1 \<in> owned ?s" using p(2) leaf(4,8) by (simp add: owned_def)
        have e3: "effect vm s ?vm ?s"
          by (rule effect_trans [OF leaf(2)], rule effect_trans [OF e2(1)], rule effect_write)
            (use zz(6) e2(2) t1o index_less(4) in auto)
        have "space_inv ?vm ?s"
          using lay p leaf(4,5,6) act e2(2) by (simp add: space_inv_def)
        moreover have "entry_at (vm_phys ?vm) f k = 0" if "k < 512" for k
          using that zz(1) t1 f leaf(8) index_less(4) [of v]
          by (auto simp: write_entry_def m entry_set ok_frame_def)
        moreover have "f \<notin> vm_live vm" using zz(4) leaf(10) by blast
        moreover have "\<forall>n. plenty (n + 2) vm \<longrightarrow> plenty n ?vm"
        proof (intro allI impI)
          fix n assume "plenty (n + 2) vm"
          then have "plenty (Suc (Suc n)) vm" by simp
          from allocate_zeroed_plenty(2) [OF ok1 al leaf(11) [OF this]] plenty_cong [of ?vm vm2 n]
          show "plenty n ?vm" by simp
        qed
        ultimately show ?thesis using e3 p(1,5) leaf(5,6) unfolding res by simp
      qed
    qed
  qed
qed

lemma space_translate_inv:
  assumes "space_inv vm s" and "in_user_virtual_range v"
  shows "space_translate vm s v =
    (case map_of (pages s) (page_of v) of None \<Rightarrow> unmapped v | Some (f, p) \<Rightarrow> user_page v f p)"
proof -
  from assms(1) obtain lo us ls where act: "as_active s"
    and l: "layout (vm_phys vm) (root_frame s) lo us ls (pages s)" by (rule space_invE)
  have "root_frame s \<noteq> 0" using frames_layoutD(4) l unfolding layout_def by blast
  with act translate_lookup [OF l assms(2)] show ?thesis by (simp add: space_translate_def)
qed

lemma user_page_mapped [simp]: "tr_mapped (user_page v f p)" "\<not> tr_mapped (unmapped v)"
  by (simp_all add: user_page_def unmapped_def)

lemma map_user_page_spec:
  assumes ok: "frames_ok vm" and inv: "space_inv vm s" and m: "map_user_page vm s v p = (r, s', vm')"
  shows "effect vm s vm' s' \<and> space_inv vm' s' \<and> root_frame s' = root_frame s"
    and "if \<not> is_page_aligned v then r = Inl SpaceVirtualUnaligned \<and> s' = s \<and> vm' = vm
      else if \<not> in_user_virtual_range v then r = Inl OutsideUserRange \<and> s' = s \<and> vm' = vm
      else if length (pages s) = MAX_PROCESS_USER_PAGES then r = Inl PageCapacityExceeded \<and> s' = s \<and> vm' = vm
      else if v \<in> fst ` set (pages s) then r = Inl SpaceAlreadyMapped \<and> s' = s \<and> vm' = vm
      else case r of Inl e \<Rightarrow> e \<in> map_errors \<and> pages s' = pages s \<and> \<not> plenty 2 vm
        | Inr f \<Rightarrow> pages s' = pages s @ [(v, f, p)] \<and> f \<notin> vm_live vm
            \<and> (\<forall>n. plenty (n + 2) vm \<longrightarrow> plenty n vm')
            \<and> (\<forall>k < 512. entry_at (vm_phys vm') f k = 0)"
proof -
  from inv obtain lo us ls where act: "as_active s" and a: "arrays_ok s" "owned s \<subseteq> vm_live vm"
    and l: "layout (vm_phys vm) (root_frame s) lo us ls (pages s)" by (rule space_invE)
  have r0: "root_frame s \<noteq> 0" using frames_layoutD(4) l unfolding layout_def by blast
  have len: "length (pages s) = user_frame_count s" "user_frame_count s \<le> MAX_PROCESS_USER_PAGES"
    using a(1) by (simp_all add: pages_def arrays_ok_def)
  have mapped: "tr_mapped (space_translate vm s v) \<longleftrightarrow> v \<in> fst ` set (pages s)"
    if "frame_aligned v" "in_user_virtual_range v"
  proof -
    have "v \<in> fst ` set (pages s) \<longleftrightarrow> map_of (pages s) v \<noteq> None" by (simp add: map_of_eq_None_iff)
    then show ?thesis
      using space_translate_inv [OF inv that(2)] that(1)
      by (simp add: page_of_aligned split: option.splits prod.splits)
  qed
  note same = effect_refl [OF ok a(2)] inv
  define main where "main \<longleftrightarrow> frame_aligned v \<and> in_user_virtual_range v
    \<and> length (pages s) \<noteq> MAX_PROCESS_USER_PAGES \<and> v \<notin> fst ` set (pages s)"
  have go: "effect vm s vm' s' \<and> space_inv vm' s' \<and> root_frame s' = root_frame s
    \<and> (case r of Inl e \<Rightarrow> e \<in> map_errors \<and> pages s' = pages s \<and> \<not> plenty 2 vm
        | Inr f \<Rightarrow> pages s' = pages s @ [(v, f, p)] \<and> f \<notin> vm_live vm
            \<and> (\<forall>n. plenty (n + 2) vm \<longrightarrow> plenty n vm')
            \<and> (\<forall>k < 512. entry_at (vm_phys vm') f k = 0))" if main
    using that insert_user_page_spec [OF ok inv, of v p r s' vm'] m act r0 len mapped
    unfolding main_def map_user_page_def aligned_frame_iff by simp
  have stay: "s' = s \<and> vm' = vm" if "\<not> main"
    using that m act r0 len mapped unfolding main_def map_user_page_def aligned_frame_iff
    by (auto split: if_splits)
  show "effect vm s vm' s' \<and> space_inv vm' s' \<and> root_frame s' = root_frame s"
    using go stay same by (cases main) simp_all
  show "if \<not> is_page_aligned v then r = Inl SpaceVirtualUnaligned \<and> s' = s \<and> vm' = vm
      else if \<not> in_user_virtual_range v then r = Inl OutsideUserRange \<and> s' = s \<and> vm' = vm
      else if length (pages s) = MAX_PROCESS_USER_PAGES then r = Inl PageCapacityExceeded \<and> s' = s \<and> vm' = vm
      else if v \<in> fst ` set (pages s) then r = Inl SpaceAlreadyMapped \<and> s' = s \<and> vm' = vm
      else case r of Inl e \<Rightarrow> e \<in> map_errors \<and> pages s' = pages s \<and> \<not> plenty 2 vm
        | Inr f \<Rightarrow> pages s' = pages s @ [(v, f, p)] \<and> f \<notin> vm_live vm
            \<and> (\<forall>n. plenty (n + 2) vm \<longrightarrow> plenty n vm')
            \<and> (\<forall>k < 512. entry_at (vm_phys vm') f k = 0)"
  proof (cases main)
    case True
    with go show ?thesis unfolding main_def aligned_frame_iff by simp
  next
    case False
    with stay m act r0 len mapped show ?thesis
      unfolding main_def map_user_page_def aligned_frame_iff by (auto split: if_splits)
  qed
qed

section \<open>Destruction\<close>

lemma free_users_loop_vm:
  "snd (free_users_loop s is vm rep) = store.release_all (map ((!) (as_user_frames s)) is) vm"
  by (induction "is" arbitrary: vm rep) (auto split: prod.split bool.split)

lemma free_tables_loop_vm:
  "snd (free_tables_loop s n vm rep) = store.release_all (rev (map ((!) (as_table_frames s)) [0..<n])) vm"
  by (induction n arbitrary: vm rep) (auto split: prod.split bool.split)

text \<open>With room for all of them every release succeeds and is counted.\<close>

lemma free_users_loop_report:
  assumes "frames_ok vm" and "distinct (map ((!) (as_user_frames s)) is)"
    and "set (map ((!) (as_user_frames s)) is) \<subseteq> vm_live vm" and "length is \<le> vm_room vm"
    and "unat (user_frames_freed rep) + length is < 2 ^ 64"
  shows "fst (free_users_loop s is vm rep) = rep\<lparr>user_frames_freed := user_frames_freed rep + of_nat (length is)\<rparr>"
  using assms
proof (induction "is" arbitrary: vm rep)
  case (Cons i "is")
  let ?f = "as_user_frames s ! i"
  let ?rep = "rep\<lparr>user_frames_freed := user_frames_freed rep + 1\<rparr>"
  have "fst (vm_free vm ?f)" using Cons.prems by (intro store.release_accepts) auto
  then obtain t1 where r: "vm_free vm ?f = (True, t1)" by (metis prod.collapse)
  note t = store.release_True [OF Cons.prems(1) r]
  have u: "sat_add (user_frames_freed rep) 1 = user_frames_freed rep + 1"
    "unat (user_frames_freed rep + 1) = Suc (unat (user_frames_freed rep))"
    using Cons.prems(5) by (simp_all add: sat_add_def unat_word_ariths)
  have "as_user_frames s ! i \<notin> set (map ((!) (as_user_frames s)) is)" using Cons.prems(2) by simp
  moreover have "set (map ((!) (as_user_frames s)) is) \<subseteq> vm_live vm" using Cons.prems(3) by simp
  ultimately have sub: "set (map ((!) (as_user_frames s)) is) \<subseteq> vm_live t1" using t by blast
  have "fst (free_users_loop s is t1 ?rep) = ?rep\<lparr>user_frames_freed := user_frames_freed ?rep + of_nat (length is)\<rparr>"
  proof (rule Cons.IH)
    show "frames_ok t1" using t by simp
    show "distinct (map ((!) (as_user_frames s)) is)" using Cons.prems(2) by simp
    show "set (map ((!) (as_user_frames s)) is) \<subseteq> vm_live t1" by (rule sub)
    show "length is \<le> vm_room t1" using Cons.prems(4) t by simp
    show "unat (user_frames_freed ?rep) + length is < 2 ^ 64" using Cons.prems(5) u(2) by simp
  qed
  then show ?case by (simp add: r u(1) add.assoc)
qed simp

lemma free_tables_loop_report:
  assumes "frames_ok vm" and "distinct (map ((!) (as_table_frames s)) [0..<n])"
    and "set (map ((!) (as_table_frames s)) [0..<n]) \<subseteq> vm_live vm" and "n \<le> vm_room vm"
    and "unat (table_frames_freed rep) + n < 2 ^ 64"
  shows "fst (free_tables_loop s n vm rep) = rep\<lparr>table_frames_freed := table_frames_freed rep + of_nat n\<rparr>"
  using assms
proof (induction n arbitrary: vm rep)
  case (Suc n)
  let ?f = "as_table_frames s ! n"
  let ?rep = "rep\<lparr>table_frames_freed := table_frames_freed rep + 1\<rparr>"
  have "fst (vm_free vm ?f)" using Suc.prems by (intro store.release_accepts) auto
  then obtain t1 where r: "vm_free vm ?f = (True, t1)" by (metis prod.collapse)
  note t = store.release_True [OF Suc.prems(1) r]
  have u: "sat_add (table_frames_freed rep) 1 = table_frames_freed rep + 1"
    "unat (table_frames_freed rep + 1) = Suc (unat (table_frames_freed rep))"
    using Suc.prems(5) by (simp_all add: sat_add_def unat_word_ariths)
  have "as_table_frames s ! n \<notin> set (map ((!) (as_table_frames s)) [0..<n])" using Suc.prems(2) by simp
  moreover have "set (map ((!) (as_table_frames s)) [0..<n]) \<subseteq> vm_live vm" using Suc.prems(3) by simp
  ultimately have sub: "set (map ((!) (as_table_frames s)) [0..<n]) \<subseteq> vm_live t1" using t by blast
  have "fst (free_tables_loop s n t1 ?rep) = ?rep\<lparr>table_frames_freed := table_frames_freed ?rep + of_nat n\<rparr>"
  proof (rule Suc.IH)
    show "frames_ok t1" using t by simp
    show "distinct (map ((!) (as_table_frames s)) [0..<n])" using Suc.prems(2) by simp
    show "set (map ((!) (as_table_frames s)) [0..<n]) \<subseteq> vm_live t1" by (rule sub)
    show "n \<le> vm_room t1" using Suc.prems(4) t by simp
    show "unat (table_frames_freed ?rep) + n < 2 ^ 64" using Suc.prems(5) u(2) by simp
  qed
  then show ?case by (simp add: r u(1) add.assoc)
qed simp

lemma page_frames_eq: "arrays_ok s \<Longrightarrow>
    map ((!) (as_user_frames s)) [0..<user_frame_count s] = map (fst \<circ> snd) (pages s)"
  by (rule nth_equalityI) (auto simp: pages_def arrays_ok_def)

definition frames_of :: "AddressSpace \<Rightarrow> u64 list" where
  "frames_of s = map (fst \<circ> snd) (pages s) @ rev (tables s)"

lemma set_frames_of: "set (frames_of s) = owned s"
  by (auto simp: frames_of_def owned_def)

lemma frames_of_distinct: "space_inv vm s \<Longrightarrow> distinct (frames_of s)"
proof -
  assume "space_inv vm s"
  then obtain lo us ls where "tables s = root_frame s # lo # us # ls"
    "frames_layout (root_frame s) lo us ls (pages s)" unfolding layout_def by (rule space_invE [unfolded layout_def]) blast
  then have "distinct (tables s @ map (fst \<circ> snd) (pages s))" by (simp add: frames_layout_def)
  then show ?thesis unfolding frames_of_def by (simp add: Int_commute)
qed

lemma destroy_vm:
  assumes a: "arrays_ok s" and act: "as_active s" and c: "vm_cr3 vm \<noteq> root_frame s"
  obtains rep vm' where "destroy vm s = (Inr rep, AddressSpace_empty, vm')"
    "vm_frames vm' = vm_frames (store.release_all (frames_of s) vm)"
    "vm_phys vm' = vm_phys (store.release_all (frames_of s) vm)"
    "p4_addr vm' = p4_addr (store.release_all (frames_of s) vm)"
    "paging_initialized vm' = paging_initialized (store.release_all (frames_of s) vm)"
    "vm_cr3 vm' = vm_cr3 (store.release_all (frames_of s) vm)"
    "rep = fst (free_tables_loop s (table_frame_count s)
       (snd (free_users_loop s [0..<user_frame_count s] vm
          \<lparr>user_frames_freed = 0, table_frames_freed = 0, complete = True\<rparr>))
       (fst (free_users_loop s [0..<user_frame_count s] vm
          \<lparr>user_frames_freed = 0, table_frames_freed = 0, complete = True\<rparr>)))"
proof -
  let ?R = "\<lparr>user_frames_freed = 0, table_frames_freed = 0, complete = True\<rparr>"
  obtain r1 vm1 where u: "free_users_loop s [0..<user_frame_count s] vm ?R = (r1, vm1)" by force
  obtain r2 vm2 where t: "free_tables_loop s (table_frame_count s) vm1 r1 = (r2, vm2)" by force
  have "vm2 = store.release_all (frames_of s) vm"
    using free_users_loop_vm [of s "[0..<user_frame_count s]" vm ?R]
      free_tables_loop_vm [of s "table_frame_count s" vm1 r1] u t page_frames_eq [OF a] tables_eq_map [OF a]
    by (simp add: frames_of_def)
  with act c u t show ?thesis
    by (intro that [of r2 "snd (snd (destroy vm s))"]) (simp_all add: destroy_def Let_def)
qed

lemma destroy_spec:
  assumes ok: "frames_ok vm" and inv: "space_inv vm s" and c: "vm_cr3 vm \<noteq> root_frame s"
  obtains rep vm' where "destroy vm s = (Inr rep, AddressSpace_empty, vm')"
    "effect vm s vm' AddressSpace_empty" "vm_live vm - owned s \<subseteq> vm_live vm'" "vm_live vm' \<subseteq> vm_live vm"
    "length (frames_of s) \<le> vm_room vm \<Longrightarrow> vm_live vm' = vm_live vm - owned s
       \<and> rep = \<lparr>user_frames_freed = of_nat (length (pages s)), table_frames_freed = of_nat (length (tables s)),
                complete = True\<rparr>"
proof -
  from inv have act: "as_active s" and a: "arrays_ok s" "owned s \<subseteq> vm_live vm" by (auto elim!: space_invE)
  let ?t = "store.release_all (frames_of s) vm"
  let ?R = "\<lparr>user_frames_freed = 0, table_frames_freed = 0, complete = True\<rparr>"
  from a(1) act c obtain rep vm' where d: "destroy vm s = (Inr rep, AddressSpace_empty, vm')"
    and f: "vm_frames vm' = vm_frames ?t" and o: "vm_phys vm' = vm_phys ?t" "p4_addr vm' = p4_addr ?t"
      "paging_initialized vm' = paging_initialized ?t" "vm_cr3 vm' = vm_cr3 ?t"
    and rep: "rep = fst (free_tables_loop s (table_frame_count s)
       (snd (free_users_loop s [0..<user_frame_count s] vm ?R))
       (fst (free_users_loop s [0..<user_frame_count s] vm ?R)))" by (rule destroy_vm)
  have e: "effect vm s vm' AddressSpace_empty"
    by (rule effect_counters [OF release_effect [OF ok, of "frames_of s"] f o]) (simp add: set_frames_of)
  have lv: "vm_live vm' = vm_live ?t" by (rule frames_ok_cong(2) [OF f])
  note keep = store.release_all_keeps [OF ok, of "frames_of s"]
  have counts: "length (pages s) = user_frame_count s" "length (tables s) = table_frame_count s"
    "user_frame_count s \<le> 65" "table_frame_count s \<le> 16"
    using a(1) by (simp_all add: pages_def tables_def arrays_ok_def MAX_PROCESS_USER_PAGES_def
        MAX_PROCESS_TABLE_FRAMES_def)
  have "vm_live vm' = vm_live vm - owned s \<and> rep = \<lparr>user_frames_freed = of_nat (length (pages s)),
      table_frames_freed = of_nat (length (tables s)), complete = True\<rparr>"
    if room: "length (frames_of s) \<le> vm_room vm"
  proof -
    let ?us = "map (fst \<circ> snd) (pages s)"
    note dis = frames_of_distinct [OF inv, unfolded frames_of_def]
    note pf = page_frames_eq [OF a(1)] and tf = tables_eq_map [OF a(1)]
    let ?vm1 = "store.release_all ?us vm"
    have ow: "set ?us \<subseteq> vm_live vm" "set (tables s) \<subseteq> vm_live vm" using a(2) by (auto simp: owned_def)
    have rm: "length ?us + length (tables s) \<le> vm_room vm" using room by (simp add: frames_of_def)
    have u: "fst (free_users_loop s [0..<user_frame_count s] vm ?R) = ?R\<lparr>user_frames_freed := of_nat (length (pages s))\<rparr>"
      using free_users_loop_report [OF ok, of s "[0..<user_frame_count s]" ?R] dis ow rm counts
      unfolding pf by simp
    have v: "snd (free_users_loop s [0..<user_frame_count s] vm ?R) = ?vm1"
      by (simp add: free_users_loop_vm pf)
    note all1 = store.release_all_frees [OF ok _ ow(1)] and k1 = store.release_all_keeps [OF ok, of ?us]
    have l1: "vm_live ?vm1 = vm_live vm - set ?us" "vm_room ?vm1 = vm_room vm - length ?us"
      using all1 dis rm by simp_all
    have sub: "set (tables s) \<subseteq> vm_live ?vm1" using dis ow(2) unfolding l1(1) by auto
    have "fst (free_tables_loop s (table_frame_count s) ?vm1 (?R\<lparr>user_frames_freed := of_nat (length (pages s))\<rparr>))
        = ?R\<lparr>user_frames_freed := of_nat (length (pages s)), table_frames_freed := of_nat (length (tables s))\<rparr>"
      using free_tables_loop_report [of ?vm1 s "table_frame_count s"
          "?R\<lparr>user_frames_freed := of_nat (length (pages s))\<rparr>"] k1 l1 dis ow rm counts sub
      unfolding tf by simp
    moreover have "vm_live ?t = vm_live vm - owned s"
      using store.release_all_frees [OF ok, of "frames_of s"] frames_of_distinct [OF inv] room a(2)
      by (simp add: set_frames_of)
    ultimately show ?thesis using rep u v lv by simp
  qed
  with d e keep lv show ?thesis by (intro that [of rep vm']) (auto simp: set_frames_of)
qed

end
