(* ===== verification/Space_Contents.thy ===== *)
theory Space_Contents
  imports Space_Runs
begin

unbundle bit_operations_syntax

text \<open>
  The bytes behind the pages of an address space: mapping another page leaves them alone, and
  writing them leaves the page tables alone.
\<close>

section \<open>Bytes and entries\<close>

lemma byte_of_read_u32:
  assumes "i < 4"
  shows "mem (a + of_nat i) = ucast (drop_bit (8 * i) (read_u32 mem a))"
proof -
  have i: "i \<in> {0, 1, 2, 3}" using assms by auto
  show ?thesis unfolding read_u32_def bytes_to_u32
    by (rule bit_word_eqI) (use i in \<open>auto simp: bit_simps dest: bit_imp_le_length\<close>)
qed

lemma byte_of_read_u64:
  assumes "i < 8"
  shows "mem (a + of_nat i) = ucast (drop_bit (8 * i) (read_u64 mem a))"
proof (cases "i < 4")
  case True
  then have "mem (a + of_nat i) = ucast (drop_bit (8 * i) (read_u32 mem a))" by (rule byte_of_read_u32)
  also have "\<dots> = ucast (drop_bit (8 * i) (read_u64 mem a))"
    unfolding read_u64_def u32s_to_u64
    by (rule bit_word_eqI) (use True in \<open>auto simp: bit_simps dest: bit_imp_le_length\<close>)
  finally show ?thesis .
next
  case False
  then obtain j where j: "i = 4 + j" "j < 4" using assms by (metis add_less_cancel_left le_Suc_ex not_less numeral_Bit0)
  have "mem (a + of_nat i) = ucast (drop_bit (8 * j) (read_u32 mem (a + 4)))"
    using byte_of_read_u32 [OF j(2), of mem "a + 4"] by (simp add: j add.assoc)
  also have "\<dots> = ucast (drop_bit (8 * i) (read_u64 mem a))"
    unfolding read_u64_def u32s_to_u64
    by (rule bit_word_eqI) (use j in \<open>auto simp: bit_simps algebra_simps dest: bit_imp_le_length\<close>)
  finally show ?thesis .
qed

lemma address_in_entry:
  assumes "frame_aligned f" "page_of x = f"
  obtains k i where "k < 512" "i < 8" "x = f + 8 * of_nat k + of_nat i"
proof -
  define d where "d = unat (x AND 0xfff)"
  have d: "d < 4096" using low_less [of x] by (simp add: d_def word_less_nat_alt)
  have "x = f + (x AND 0xfff)" using page_split [of x] assms(2) by simp
  also have "x AND 0xfff = of_nat (8 * (d div 8) + d mod 8)" by (simp add: d_def)
  also have "(of_nat (8 * (d div 8) + d mod 8) :: u64) = 8 * of_nat (d div 8) + of_nat (d mod 8)"
    by (simp only: of_nat_add of_nat_mult of_nat_numeral)
  finally have "x = f + 8 * of_nat (d div 8) + of_nat (d mod 8)" by (simp only: add.assoc)
  moreover have "d div 8 < 512" "d mod 8 < 8" using d by auto
  ultimately show thesis using that by blast
qed

text \<open>The bytes of a frame are determined by its entries.\<close>

lemma frame_bytes:
  assumes f: "frame_aligned f" "page_of x = f"
  shows "(\<And>k. k < 512 \<Longrightarrow> entry_at mem f k = entry_at mem' f k) \<Longrightarrow> mem x = mem' x"
    "(\<And>k. k < 512 \<Longrightarrow> entry_at mem f k = 0) \<Longrightarrow> mem x = 0"
proof -
  obtain k i where x: "k < 512" "i < 8" "x = f + 8 * of_nat k + of_nat i" by (rule address_in_entry [OF f])
  have b: "m x = ucast (drop_bit (8 * i) (entry_at m f k))" for m
    unfolding x(3) entry_at_def by (rule byte_of_read_u64 [OF x(2)])
  show "mem x = mem' x" if "\<And>k. k < 512 \<Longrightarrow> entry_at mem f k = entry_at mem' f k"
    using b [of mem] b [of mem'] that [OF x(1)] by simp
  show "mem x = 0" if "\<And>k. k < 512 \<Longrightarrow> entry_at mem f k = 0"
    using b [of mem] that [OF x(1)] by simp
qed

lemma only_changes_bytes:
  assumes "only_changes F mem mem'" "page_of x \<notin> F"
  shows "mem' x = mem x"
  by (rule frame_bytes(1) [OF frame_aligned_page_of refl]) (use assms in \<open>simp add: only_changes_def\<close>)

section \<open>Mapping leaves the pages alone\<close>

definition page_frames :: "AddressSpace \<Rightarrow> u64 set" where
  "page_frames s = (fst \<circ> snd) ` set (pages s)"

lemma page_frames_props:
  assumes "space_inv vm s"
  shows "page_frames s \<subseteq> vm_live vm" "page_frames s \<inter> set (tables s) = {}"
    "f \<in> page_frames s \<Longrightarrow> frame_aligned f \<and> f \<noteq> 0" "distinct (map (fst \<circ> snd) (pages s))" "distinct (map fst (pages s))"
proof -
  from assms obtain lo us ls where a: "owned s \<subseteq> vm_live vm" "tables s = root_frame s # lo # us # ls"
    "layout (vm_phys vm) (root_frame s) lo us ls (pages s)" by (rule space_invE)
  then have fl: "frames_layout (root_frame s) lo us ls (pages s)" by (simp add: layout_def)
  show "page_frames s \<subseteq> vm_live vm" using a(1) by (auto simp: page_frames_def owned_def)
  show "page_frames s \<inter> set (tables s) = {}" "f \<in> page_frames s \<Longrightarrow> frame_aligned f \<and> f \<noteq> 0"
    using frames_layoutD(9) [OF fl] a(2) by (fastforce simp: page_frames_def ok_frame_def)+
  show "distinct (map (fst \<circ> snd) (pages s))" "distinct (map fst (pages s))"
    using fl by (auto simp: frames_layout_def)
qed

lemma allocate_zeroed_keeps:
  assumes "frames_ok vm" "allocate_zeroed_frame vm = (r, vm')"
  shows "only_changes (- vm_live vm) (vm_phys vm) (vm_phys vm')" "vm_live vm \<subseteq> vm_live vm'" "frames_ok vm'"
proof -
  have "only_changes (- vm_live vm) (vm_phys vm) (vm_phys vm') \<and> vm_live vm \<subseteq> vm_live vm' \<and> frames_ok vm'"
  proof (cases r)
    case (Inl e)
    note z = allocate_zeroed_Inl [OF assms(1), of e vm']
    have "vm_phys vm' = vm_phys vm" by (subst z(4), use assms(2) Inl in simp, simp)
    then show ?thesis using z assms(2) Inl by simp
  next
    case (Inr f)
    note z = allocate_zeroed_Inr [OF assms(1), of f vm']
    have "vm_phys vm' = zero_frame (vm_phys vm) f" by (subst z(7), use assms(2) Inr in simp, simp)
    then show ?thesis using z assms(2) Inr only_changes_writes(1) [of f "- vm_live vm" "vm_phys vm"]
      by (auto simp: ok_frame_def)
  qed
  then show "only_changes (- vm_live vm) (vm_phys vm) (vm_phys vm')" "vm_live vm \<subseteq> vm_live vm'" "frames_ok vm'"
    by simp_all
qed

lemma write_entry_keeps: "frame_aligned t \<Longrightarrow> k < 512 \<Longrightarrow> only_changes {t} (vm_phys vm) (vm_phys (write_entry vm t k e))"
  by (simp add: write_entry_def only_changes_writes(3))

lemma ensure_leaf_keeps:
  assumes "frames_ok vm" "ensure_leaf_table vm s p2 j = (r, s', vm')" "frame_aligned p2" "j < 512"
  shows "only_changes (insert p2 (- vm_live vm)) (vm_phys vm) (vm_phys vm')"
proof (cases "entry_present (entry_at (vm_phys vm) p2 j)")
  case True
  then show ?thesis using assms(2) by (simp add: ensure_leaf_table_def)
next
  case False
  obtain r1 s1 vm1 where al: "allocate_table_frame s vm = (r1, s1, vm1)" by (metis prod_cases3)
  have k: "only_changes (- vm_live vm) (vm_phys vm) (vm_phys vm1)"
    using al
  proof (cases rule: allocate_table_frame_cases)
    case (fail e)
    then show ?thesis using allocate_zeroed_keeps(1) [OF assms(1)] by blast
  next
    case (table f)
    then show ?thesis using allocate_zeroed_keeps(1) [OF assms(1)] by blast
  qed simp
  have "vm' = vm1 \<or> (\<exists>e. vm' = write_entry vm1 p2 j e)"
    using False al assms(2) by (auto simp: ensure_leaf_table_def split: sum.splits)
  then show ?thesis
  proof
    assume "vm' = vm1"
    then show ?thesis using k only_changes_trans [OF k only_changes_refl] by blast
  next
    assume "\<exists>e. vm' = write_entry vm1 p2 j e"
    then show ?thesis using only_changes_trans [OF k write_entry_keeps [OF assms(3,4)]] by blast
  qed
qed

text \<open>Mapping one more page leaves the bytes of the pages already mapped.\<close>

lemma map_keeps_pages:
  assumes ok: "frames_ok vm" and inv: "space_inv vm s" and m: "map_user_page vm s v p = (r, s', vm')"
  shows "only_changes (- page_frames s) (vm_phys vm) (vm_phys vm')"
proof (cases "vm' = vm")
  case False
  then have v: "is_page_aligned v" "in_user_virtual_range v" and i: "insert_user_page vm s v p = (r, s', vm')"
    using m by (auto simp: map_user_page_def split: if_splits)
  from inv obtain lo us ls where t: "tables s = root_frame s # lo # us # ls"
    and l: "layout (vm_phys vm) (root_frame s) lo us ls (pages s)" by (rule space_invE)
  have fl: "frames_layout (root_frame s) lo us ls (pages s)" using l by (simp add: layout_def)
  note d = frames_layoutD [OF fl] and ix = user_index [OF v(2)]
  have up: "entry_at (vm_phys vm) (root_frame s) 0 = lo OR TABLE_FLAGS"
    "entry_at (vm_phys vm) lo 1 = us OR TABLE_FLAGS"
    using l by (simp_all add: layout_def upper_ok_def)
  note walk = ok_frame_mut [OF d(1)] table_from_entry_pack(2) [OF d(2)] table_from_entry_pack(2) [OF d(3)] up ix
  obtain r1 s1 vm1 where e: "ensure_leaf_table vm s us (p2_index v) = (r1, s1, vm1)" by (metis prod_cases3)
  have us: "frame_aligned us" using d(3) by (simp add: ok_frame_def)
  note k1 = ensure_leaf_keeps [OF ok e us index_less(3)]
  have pf: "page_frames s \<subseteq> vm_live vm" "page_frames s \<inter> set (tables s) = {}"
    using page_frames_props [OF inv] by blast+
  have c1: "only_changes (- page_frames s) (vm_phys vm) (vm_phys vm1)"
    by (rule only_changes_trans [OF k1 only_changes_refl [of "{}"]]) (use pf t in auto)
  from ok inv t user_p2_less [OF v(2)] show ?thesis
  proof (cases rule: ensure_leaf_spec)
    case (fail e1 vm2)
    then show ?thesis using i c1 e by (simp add: insert_user_page_def walk del: One_nat_def)
  next
    case (leaf s2 vm2 ls1 t1)
    then have eq: "s2 = s1" "vm2 = vm1" "r1 = Inr ()" using e by simp_all
    have t1: "frame_aligned t1" "ok_frame t1" "t1 \<notin> page_frames s"
    proof -
      have s1: "space_inv vm1 s1" "tables s1 = root_frame s # lo # us # ls1" "root_frame s1 = root_frame s"
        using leaf(3,4,5) eq by simp_all
      from s1(1) obtain lo' us' ls' where "tables s1 = root_frame s1 # lo' # us' # ls'"
        "layout (vm_phys vm1) (root_frame s1) lo' us' ls' (pages s1)" by (rule space_invE)
      then have "frames_layout (root_frame s) lo us ls1 (pages s1)" using s1 by (simp add: layout_def)
      from frames_layoutD(8) [OF this leaf(8)] show "frame_aligned t1" "ok_frame t1" by (simp_all add: ok_frame_def)
      show "t1 \<notin> page_frames s"
        using page_frames_props(2) [OF s1(1)] s1(2) leaf(6,8) eq by (auto simp: page_frames_def)
    qed
    have ok1: "frames_ok vm1" using leaf(2) eq by (simp add: effect_def)
    obtain r2 vm3 where al: "allocate_zeroed_frame vm1 = (r2, vm3)" by (metis surj_pair)
    have "only_changes (- vm_live vm1) (vm_phys vm1) (vm_phys vm3)" by (rule allocate_zeroed_keeps(1) [OF ok1 al])
    then have c2: "only_changes (- page_frames s) (vm_phys vm) (vm_phys vm3)"
      by (rule only_changes_trans [OF c1]) (use pf(1) leaf(10) eq in auto)
    have c3: "only_changes (- page_frames s) (vm_phys vm) (vm_phys (write_entry vm3 t1 (p1_index v) x))" for x
      by (rule only_changes_trans [OF c2 write_entry_keeps [OF t1(1) index_less(4)]]) (use t1(3) in auto)
    have "vm' = vm1 \<or> vm' = vm3 \<or> (\<exists>x. vm' = write_entry vm3 t1 (p1_index v) x)"
      using i by (auto simp: insert_user_page_def walk leaf(1,9) [unfolded eq] table_from_entry_pack(2) [OF t1(2)] al Let_def
          simp del: One_nat_def split: if_splits sum.splits)
    then show ?thesis using c1 c2 c3 by auto
  qed
qed simp

section \<open>Writing the pages\<close>

lemma space_inv_contents:
  assumes inv: "space_inv vm s" and ch: "only_changes (page_frames s) (vm_phys vm) mem'"
  shows "space_inv (vm\<lparr>vm_phys := mem'\<rparr>) s"
proof -
  from inv obtain lo us ls where a: "as_active s" "arrays_ok s" "owned s \<subseteq> vm_live vm"
    "tables s = root_frame s # lo # us # ls"
    "layout (vm_phys vm) (root_frame s) lo us ls (pages s)" by (rule space_invE)
  have "layout mem' (root_frame s) lo us ls (pages s)"
    using page_frames_props(2) [OF inv] by (intro layout_frame [OF a(5) ch]) (simp add: a(4))
  then show ?thesis using a by (simp add: space_inv_def)
qed

text \<open>Where a virtual address of a space lies in physical memory.\<close>

definition phys_of :: "AddressSpace \<Rightarrow> u64 \<Rightarrow> u64" where
  "phys_of s v = (case map_of (pages s) (page_of v) of None \<Rightarrow> 0 | Some (f, p) \<Rightarrow> f + (v AND 0xfff))"

lemma phys_of_page:
  assumes "space_inv vm s" "map_of (pages s) (page_of v) = Some (f, p)"
  shows "page_of (phys_of s v) = f" "phys_of s v AND 0xfff = v AND 0xfff" "f \<in> page_frames s"
    "in_user_virtual_range v \<Longrightarrow> space_translate vm s v = user_page v f p \<and> tr_phys (user_page v f p) = phys_of s v"
proof -
  show f: "f \<in> page_frames s" using assms(2) by (force dest: map_of_SomeD simp: page_frames_def)
  then have "frame_aligned f" using page_frames_props(3) [OF assms(1)] by blast
  from page_of_add [OF this low_less [of v]] show "page_of (phys_of s v) = f" "phys_of s v AND 0xfff = v AND 0xfff"
    using assms(2) by (simp_all add: phys_of_def)
  show "space_translate vm s v = user_page v f p \<and> tr_phys (user_page v f p) = phys_of s v"
    if "in_user_virtual_range v"
    using space_translate_inv [OF assms(1) that] assms(2) by (simp add: user_page_def phys_of_def)
qed

lemma phys_of_inj:
  assumes inv: "space_inv vm s" and v: "map_of (pages s) (page_of v) = Some (f, p)"
    and w: "map_of (pages s) (page_of w) = Some (g, q)" and e: "phys_of s v = phys_of s w"
  shows "v = w"
proof -
  note a = phys_of_page [OF inv v] and b = phys_of_page [OF inv w]
  have fg: "f = g" using a(1) b(1) e by simp
  have mem: "(page_of v, f, p) \<in> set (pages s)" "(page_of w, g, q) \<in> set (pages s)"
    using v w by (simp_all add: map_of_SomeD)
  have "inj_on (fst \<circ> snd) (set (pages s))"
    using page_frames_props(4) [OF inv] by (simp add: distinct_map)
  from inj_onD [OF this _ mem] fg have "page_of v = page_of w" by simp
  moreover have "v AND 0xfff = w AND 0xfff" using a(2) b(2) e by simp
  ultimately show ?thesis using page_split [of v] page_split [of w] by simp
qed

lemma same_page:
  assumes "unat (a AND 0xfff) + j < 4096"
  shows "page_of (a + of_nat j) = page_of a" "(a + of_nat j) AND 0xfff = (a AND 0xfff) + of_nat j"
proof -
  have j: "j < 4096" using assms by simp
  have "unat ((a AND 0xfff) + of_nat j) = unat (a AND 0xfff) + j"
    using assms j by (simp add: unat_word_ariths unat_of_nat)
  then have lt: "(a AND 0xfff) + of_nat j < 4096" using assms by (simp add: word_less_nat_alt)
  have e: "a + of_nat j = page_of a + ((a AND 0xfff) + of_nat j)" using page_split [of a] by (simp add: algebra_simps)
  show "page_of (a + of_nat j) = page_of a" "(a + of_nat j) AND 0xfff = (a AND 0xfff) + of_nat j"
    unfolding e using page_of_add [OF frame_aligned_page_of lt] by simp_all
qed

lemma phys_of_add:
  assumes "unat (v AND 0xfff) + j < 4096" "map_of (pages s) (page_of v) = Some (f, p)"
  shows "phys_of s (v + of_nat j) = phys_of s v + of_nat j"
  using same_page [OF assms(1)] assms(2) by (simp add: phys_of_def)

end
