(* ===== verification/Elf_Load.thy ===== *)
theory Elf_Load
  imports Elf_Plan Space_Contents
begin

unbundle bit_operations_syntax

text \<open>
  The loader fills the pages of a fresh address space: copying the file part of a segment puts each
  byte behind its virtual address and touches nothing else, so the rest of the pages keep the
  zeroes they were mapped with.
\<close>

section \<open>Copying\<close>

lemma copy_in_byte:
  assumes "j < length bytes" "length bytes \<le> 4096"
  shows "copy_in mem a bytes (a + of_nat j) = bytes ! j"
proof -
  have "unat (of_nat j :: u64) = j" using assms by (simp add: unat_of_nat)
  then show ?thesis using assms(1) by (simp add: copy_in_def)
qed

lemma copy_in_other:
  assumes "\<forall>j < length bytes. x \<noteq> a + of_nat j"
  shows "copy_in mem a bytes x = mem x"
proof -
  have "x = a + of_nat (unat (x - a))" by simp
  then have "\<not> unat (x - a) < length bytes" using assms by blast
  then show ?thesis by (simp add: copy_in_def)
qed

lemma copy_in_page:
  assumes "unat (a AND 0xfff) + length bytes \<le> 4096"
  shows "only_changes {page_of a} mem (copy_in mem a bytes)"
proof -
  have "entry_at (copy_in mem a bytes) f k = entry_at mem f k"
    if "frame_aligned f" "f \<noteq> page_of a" "k < 512" for f k
    unfolding entry_at_def
  proof (rule read_u64_cong)
    fix y :: u64 assume "y < 8"
    have p: "page_of (f + 8 * of_nat k + y) = f" by (rule entry_page(1) [OF that(1,3) \<open>y < 8\<close>])
    show "copy_in mem a bytes (f + 8 * of_nat k + y) = mem (f + 8 * of_nat k + y)"
    proof (rule copy_in_other, intro allI impI notI)
      fix j assume "j < length bytes" "f + 8 * of_nat k + y = a + of_nat j"
      then show False using same_page(1) [of a j] assms p that(2) by simp
    qed
  qed
  then show ?thesis by (simp add: only_changes_def)
qed

lemma elf_in_user: "0x40100000 \<le> unat v \<Longrightarrow> unat v < 0x40203000 \<Longrightarrow> in_user_virtual_range v"
  by (simp add: in_user_virtual_range_def word_le_nat_alt word_less_nat_alt USER_SPACE_BASE_def
      USER_SPACE_END_def USER_SPACE_SIZE_def BOOT_IDENTITY_MAP_BYTES_def)

lemma chunk_in_page:
  "unat ((sp_virtual_address s + c) AND 0xfff) + unat (copy_chunk s c) \<le> 4096"
proof -
  let ?l = "(sp_virtual_address s + c) AND 0xfff"
  have l: "unat ?l < 4096" using low_less [of "sp_virtual_address s + c"] by (simp add: word_less_nat_alt)
  have "copy_chunk s c \<le> 4096 - ?l" by (simp add: copy_chunk_def PAGE_SIZE_4K_def)
  moreover have "unat (4096 - ?l) = 4096 - unat ?l"
    using l by (subst unat_sub) (auto simp: word_le_nat_alt)
  ultimately show ?thesis using l by (simp add: word_le_nat_alt)
qed

text \<open>The addresses that the loop has still to fill when \<open>c\<close> bytes have been copied.\<close>

definition mapped_segment :: "AddressSpace \<Rightarrow> SegmentPlan \<Rightarrow> bool" where
  "mapped_segment s seg \<longleftrightarrow> (\<forall>k < unat (sp_memory_size seg).
     map_of (pages s) (page_of (sp_virtual_address seg + of_nat k)) \<noteq> None)"

definition stores :: "(nat \<Rightarrow> u64) \<Rightarrow> (nat \<Rightarrow> u8) \<Rightarrow> nat \<Rightarrow> nat \<Rightarrow> memory \<Rightarrow> memory \<Rightarrow> bool" where
  "stores P g c N mem mem' \<longleftrightarrow> (\<forall>k. c \<le> k \<longrightarrow> k < N \<longrightarrow> mem' (P k) = g k)
     \<and> (\<forall>x. (\<forall>k. c \<le> k \<longrightarrow> k < N \<longrightarrow> x \<noteq> P k) \<longrightarrow> mem' x = mem x)"

lemma stores_step:
  assumes inj: "\<And>k l. k < N \<Longrightarrow> l < N \<Longrightarrow> P k = P l \<Longrightarrow> k = l"
    and c: "c + n \<le> N" and len: "length bytes = n" "n \<le> 4096"
    and cont: "\<And>j. j < n \<Longrightarrow> bytes ! j = g (c + j)"
    and ph: "\<And>j. j < n \<Longrightarrow> a + of_nat j = P (c + j)"
    and f: "stores P g (c + n) N (copy_in mem a bytes) mem'"
  shows "stores P g c N mem mem'"
  unfolding stores_def
proof (intro conjI allI impI)
  fix k assume k: "c \<le> k" "k < N"
  show "mem' (P k) = g k"
  proof (cases "c + n \<le> k")
    case True
    then show ?thesis using f k by (simp add: stores_def)
  next
    case False
    then obtain j where j: "k = c + j" "j < n" using k(1) le_Suc_ex by (metis add_less_cancel_left not_less)
    have "P k \<noteq> P l" if "c + n \<le> l" "l < N" for l using inj [of k l] that k(2) False by auto
    then have "mem' (P k) = copy_in mem a bytes (P k)" using f by (simp add: stores_def)
    also have "copy_in mem a bytes (P k) = bytes ! j"
      using copy_in_byte [of j bytes] len j(2) unfolding j(1) ph [OF j(2), symmetric] by simp
    also have "\<dots> = g k" using cont [OF j(2)] j(1) by simp
    finally show ?thesis .
  qed
next
  fix x assume x: "\<forall>k. c \<le> k \<longrightarrow> k < N \<longrightarrow> x \<noteq> P k"
  then have "mem' x = copy_in mem a bytes x" using f by (simp add: stores_def)
  also have "\<dots> = mem x"
  proof (rule copy_in_other, intro allI impI)
    fix j assume "j < length bytes"
    then show "x \<noteq> a + of_nat j" using x [rule_format, of "c + j"] ph [of j] c len by simp
  qed
  finally show "mem' x = mem x" .
qed

abbreviation filled :: "u8 list \<Rightarrow> AddressSpace \<Rightarrow> SegmentPlan \<Rightarrow> nat \<Rightarrow> memory \<Rightarrow> memory \<Rightarrow> bool" where
  "filled img s seg c \<equiv> stores (\<lambda>k. phys_of s (sp_virtual_address seg + of_nat k))
     (\<lambda>k. img ! (unat (sp_file_offset seg) + k)) c (unat (sp_file_size seg))"

text \<open>The facts on one address of a segment.\<close>

lemma segment_address:
  assumes ok: "segment_ok img seg" and ms: "mapped_segment s seg" and inv: "space_inv vm s"
    and k: "k < unat (sp_memory_size seg)"
  obtains f p where "map_of (pages s) (page_of (sp_virtual_address seg + of_nat k)) = Some (f, p)"
    "space_translate vm s (sp_virtual_address seg + of_nat k) = user_page (sp_virtual_address seg + of_nat k) f p"
    "tr_phys (user_page (sp_virtual_address seg + of_nat k) f p) = phys_of s (sp_virtual_address seg + of_nat k)"
proof -
  let ?v = "sp_virtual_address seg + of_nat k"
  obtain f p where m: "map_of (pages s) (page_of ?v) = Some (f, p)"
    using ms k unfolding mapped_segment_def by auto
  have "0x40100000 \<le> unat ?v" "unat ?v < 0x40203000"
    using segment_covers(2) [OF ok k] page_bounds [OF ok] k by linarith+
  then have "in_user_virtual_range ?v" by (rule elf_in_user)
  then show thesis using that [OF m] phys_of_page(4) [OF inv m] by blast
qed

lemma segment_phys_inj:
  assumes ok: "segment_ok img seg" and ms: "mapped_segment s seg" and inv: "space_inv vm s"
    and k: "k < unat (sp_memory_size seg)" "l < unat (sp_memory_size seg)"
    and e: "phys_of s (sp_virtual_address seg + of_nat k) = phys_of s (sp_virtual_address seg + of_nat l)"
  shows "k = l"
proof -
  obtain f p where v: "map_of (pages s) (page_of (sp_virtual_address seg + of_nat k)) = Some (f, p)"
    by (rule segment_address [OF ok ms inv k(1)])
  obtain g q where w: "map_of (pages s) (page_of (sp_virtual_address seg + of_nat l)) = Some (g, q)"
    by (rule segment_address [OF ok ms inv k(2)])
  have "unat (sp_virtual_address seg + of_nat k) = unat (sp_virtual_address seg + of_nat l)"
    by (simp only: phys_of_inj [OF inv v w e])
  then show ?thesis unfolding segment_covers(2) [OF ok k(1)] segment_covers(2) [OF ok k(2)] by (rule add_left_imp_eq)
qed

lemma copy_loop_spec:
  assumes ok: "segment_ok img seg" and ms: "mapped_segment s seg" and len: "length img < 2 ^ 64"
    and inv: "space_inv (vm\<lparr>vm_phys := mem\<rparr>) s"
  shows "\<exists>mem'. copy_loop (\<lambda>m. space_translate (vm\<lparr>vm_phys := m\<rparr>) s) img seg c mem = (Inr (), mem')
    \<and> only_changes (page_frames s) mem mem' \<and> filled img s seg (unat c) mem mem'"
  using inv
proof (induction "unat (sp_file_size seg) - unat c" arbitrary: c mem rule: less_induct)
  case less
  let ?tr = "\<lambda>m. space_translate (vm\<lparr>vm_phys := m\<rparr>) s"
  show ?case
  proof (cases "c < sp_file_size seg")
    case False
    then have "unat (sp_file_size seg) \<le> unat c" by (simp add: word_less_nat_alt)
    then show ?thesis using False by (subst copy_loop.simps) (auto simp: stores_def)
  next
    case True
    define n where "n = unat (copy_chunk seg c)"
    let ?v = "sp_virtual_address seg + c"
    have u: "unat (c + copy_chunk seg c) = unat c + n" "unat c + n \<le> unat (sp_file_size seg)" "0 < n"
      using unat_copied [OF True] copy_chunk_bounds(1) [OF True] by (simp_all add: n_def word_less_nat_alt)
    have fm: "unat (sp_file_size seg) \<le> unat (sp_memory_size seg)"
      and fo: "unat (sp_file_offset seg) + unat (sp_file_size seg) \<le> length img"
      using ok by (simp_all add: segment_ok_def word_le_nat_alt)
    have uc: "unat c < unat (sp_memory_size seg)" using u fm by linarith
    obtain f p where m: "map_of (pages s) (page_of ?v) = Some (f, p)"
      and t: "?tr mem ?v = user_page ?v f p" "tr_phys (user_page ?v f p) = phys_of s ?v"
      by (rule segment_address [OF ok ms less.prems uc]) simp
    define a where "a = phys_of s ?v"
    define so where "so = unat (sp_file_offset seg + c)"
    define bytes where "bytes = slice img so (so + n)"
    have so: "so = unat (sp_file_offset seg) + unat c"
      using fo u len unfolding so_def by (simp add: unat_word_ariths)
    have lb: "length bytes = n" unfolding bytes_def using so fo u by (simp add: length_slice)
    have low: "unat (?v AND 0xfff) + n \<le> 4096" using chunk_in_page [of seg c] by (simp add: n_def)
    note pp = phys_of_page(1-3) [OF less.prems m, folded a_def]
    have ch: "only_changes {f} mem (copy_in mem a bytes)"
      using copy_in_page [of a bytes mem] low lb pp(1,2) by simp
    then have ch': "only_changes (page_frames s) mem (copy_in mem a bytes)"
      using pp(3) by (auto simp: only_changes_def)
    have inv1: "space_inv (vm\<lparr>vm_phys := copy_in mem a bytes\<rparr>) s"
      using space_inv_contents [OF less.prems, of "copy_in mem a bytes"] ch' by simp
    have d: "unat (sp_file_size seg) - unat (c + copy_chunk seg c) < unat (sp_file_size seg) - unat c"
      using u by linarith
    obtain mem' where IH: "copy_loop ?tr img seg (c + copy_chunk seg c) (copy_in mem a bytes) = (Inr (), mem')"
      "only_changes (page_frames s) (copy_in mem a bytes) mem'"
      "filled img s seg (unat c + n) (copy_in mem a bytes) mem'"
      using less.hyps [OF d inv1] u(1) by auto
    have "copy_loop ?tr img seg c mem = (Inr (), mem')"
      using IH(1) True t by (subst copy_loop.simps)
        (simp add: user_page_def a_def so_def bytes_def n_def Let_def)
    moreover have "only_changes (page_frames s) mem mem'"
      by (rule only_changes_trans [OF ch' IH(2)]) simp_all
    moreover have "filled img s seg (unat c) mem mem'"
    proof (rule stores_step [OF _ u(2) lb _ _ _ IH(3)])
      show "k < unat (sp_file_size seg) \<Longrightarrow> l < unat (sp_file_size seg) \<Longrightarrow>
          phys_of s (sp_virtual_address seg + of_nat k) = phys_of s (sp_virtual_address seg + of_nat l) \<Longrightarrow> k = l" for k l
        using segment_phys_inj [OF ok ms less.prems, of k l] fm by simp
      show "n \<le> 4096" using low by simp
      fix j assume j: "j < n"
      show "bytes ! j = img ! (unat (sp_file_offset seg) + (unat c + j))"
        using j so fo u by (simp add: bytes_def slice_def add.assoc)
      have "a + of_nat j = phys_of s (?v + of_nat j)"
        using phys_of_add [OF _ m, of j] low j by (simp add: a_def)
      then show "a + of_nat j = phys_of s (sp_virtual_address seg + of_nat (unat c + j))"
        by (simp add: add.assoc)
    qed
    ultimately show ?thesis by blast
  qed
qed

section \<open>Filling the segments\<close>

definition seg_addr :: "AddressSpace \<Rightarrow> SegmentPlan \<Rightarrow> nat \<Rightarrow> u64" where
  "seg_addr s seg k = phys_of s (sp_virtual_address seg + of_nat k)"

lemma disjoint_pages_Cons:
  "disjoint_pages (s # ss) \<longleftrightarrow> (\<forall>t \<in> set ss. \<not> pages_overlap s t) \<and> disjoint_pages ss"
proof -
  have "disjoint_pages (s # ss) \<longleftrightarrow> disjoint_pages ss
      \<and> (\<forall>i < length ss. \<not> pages_overlap s (ss ! i) \<and> \<not> pages_overlap (ss ! i) s)"
    unfolding disjoint_pages_def by (auto simp: All_less_Suc2)
  then show ?thesis using pages_overlap_sym by (metis in_set_conv_nth)
qed

lemma pages_disjoint:
  assumes "segment_ok img s" "segment_ok img t" "\<not> pages_overlap s t"
  shows "set (segment_pages s) \<inter> set (segment_pages t) = {}"
proof (rule ccontr)
  assume "\<not> ?thesis"
  then obtain p where "p \<in> set (segment_pages s)" "p \<in> set (segment_pages t)" by blast
  with segment_page_props(2,3) [OF assms(1)] segment_page_props(2,3) [OF assms(2)]
  have "unat (page_start s) < unat (page_end t)" "unat (page_start t) < unat (page_end s)"
    by (meson le_less_trans)+
  then show False using assms(3) by (simp add: pages_overlap_def word_less_nat_alt)
qed

lemma seg_addr_disjoint:
  assumes "segment_ok img s" "segment_ok img t" "\<not> pages_overlap s t" "mapped_segment sp s" "mapped_segment sp t"
    "space_inv vm sp" "k < unat (sp_memory_size s)" "l < unat (sp_memory_size t)"
  shows "seg_addr sp s k \<noteq> seg_addr sp t l"
proof
  assume e: "seg_addr sp s k = seg_addr sp t l"
  obtain f p where v: "map_of (pages sp) (page_of (sp_virtual_address s + of_nat k)) = Some (f, p)"
    by (rule segment_address [OF assms(1,4,6,7)])
  obtain g q where w: "map_of (pages sp) (page_of (sp_virtual_address t + of_nat l)) = Some (g, q)"
    by (rule segment_address [OF assms(2,5,6,8)])
  have "page_of (sp_virtual_address s + of_nat k) = page_of (sp_virtual_address t + of_nat l)"
    by (simp only: phys_of_inj [OF assms(6) v w e [unfolded seg_addr_def]])
  then show False
    using segment_covers(1) [OF assms(1,7)] segment_covers(1) [OF assms(2,8)] pages_disjoint [OF assms(1-3)]
    by (metis disjoint_iff)
qed

lemma fill_segments_spec:
  assumes "\<forall>t \<in> set ts. segment_ok img t \<and> mapped_segment s t" "disjoint_pages ts"
    and len: "length img < 2 ^ 64" and "space_inv vm s"
  shows "\<exists>mem'. fill_segments img ts s vm = (Inr (), vm\<lparr>vm_phys := mem'\<rparr>)
    \<and> only_changes (page_frames s) (vm_phys vm) mem'
    \<and> (\<forall>t \<in> set ts. \<forall>k < unat (sp_file_size t). mem' (seg_addr s t k) = img ! (unat (sp_file_offset t) + k))
    \<and> (\<forall>x. (\<forall>t \<in> set ts. \<forall>k < unat (sp_file_size t). x \<noteq> seg_addr s t k) \<longrightarrow> mem' x = vm_phys vm x)"
  using assms(1,2,4)
proof (induction ts arbitrary: vm)
  case Nil
  then show ?case by (auto intro!: exI [of _ "vm_phys vm"])
next
  case (Cons t ts)
  have t: "segment_ok img t" "mapped_segment s t" using Cons.prems(1) by simp_all
  have inv0: "space_inv (vm\<lparr>vm_phys := vm_phys vm\<rparr>) s" using Cons.prems(3) by simp
  obtain m1 where c: "copy_loop (\<lambda>m. space_translate (vm\<lparr>vm_phys := m\<rparr>) s) img t 0 (vm_phys vm) = (Inr (), m1)"
    and ch: "only_changes (page_frames s) (vm_phys vm) m1" and f: "filled img s t 0 (vm_phys vm) m1"
    using copy_loop_spec [OF t len inv0, of 0] by auto
  let ?vm = "vm\<lparr>vm_phys := m1\<rparr>"
  have inv1: "space_inv ?vm s" by (rule space_inv_contents [OF Cons.prems(3) ch])
  obtain m2 where r: "fill_segments img ts s ?vm = (Inr (), ?vm\<lparr>vm_phys := m2\<rparr>)"
    and ch2: "only_changes (page_frames s) m1 m2"
    and b: "\<forall>t \<in> set ts. \<forall>k < unat (sp_file_size t). m2 (seg_addr s t k) = img ! (unat (sp_file_offset t) + k)"
    and x: "\<forall>x. (\<forall>t \<in> set ts. \<forall>k < unat (sp_file_size t). x \<noteq> seg_addr s t k) \<longrightarrow> m2 x = m1 x"
    using Cons.IH [of ?vm] Cons.prems(1,2) inv1 by (auto simp: disjoint_pages_Cons)
  have sz: "k < unat (sp_file_size u) \<Longrightarrow> k < unat (sp_memory_size u)" if "segment_ok img u" for k u
    using that by (simp add: segment_ok_def word_le_nat_alt)
  have "fill_segments img (t # ts) s vm = (Inr (), vm\<lparr>vm_phys := m2\<rparr>)"
    using c r by (simp add: copy_segment_to_address_space_def)
  moreover have "only_changes (page_frames s) (vm_phys vm) m2" by (rule only_changes_trans [OF ch ch2]) simp_all
  moreover have "m2 (seg_addr s t k) = img ! (unat (sp_file_offset t) + k)" if k: "k < unat (sp_file_size t)" for k
  proof -
    have "seg_addr s t k \<noteq> seg_addr s u l" if u: "u \<in> set ts" "l < unat (sp_file_size u)" for u l
      using u k Cons.prems(1,2) sz
      by (intro seg_addr_disjoint [OF t(1) _ _ t(2) _ Cons.prems(3)]) (auto simp: disjoint_pages_Cons)
    then have "m2 (seg_addr s t k) = m1 (seg_addr s t k)" using x by blast
    also have "\<dots> = img ! (unat (sp_file_offset t) + k)" using f k by (simp add: stores_def seg_addr_def)
    finally show ?thesis .
  qed
  moreover have "m2 y = vm_phys vm y" if "\<forall>t \<in> set (t # ts). \<forall>k < unat (sp_file_size t). y \<noteq> seg_addr s t k" for y
    using that x f by (simp add: stores_def seg_addr_def)
  ultimately show ?case using b by (intro exI [of _ m2]) auto
qed

section \<open>Mapping the segments\<close>

text \<open>The pages of a space without their frames, and frames full of zeroes.\<close>

definition page_list :: "AddressSpace \<Rightarrow> (u64 \<times> UserPagePermissions) list" where
  "page_list s = map (\<lambda>(v, f, p). (v, p)) (pages s)"

definition zeroed :: "Vm \<Rightarrow> AddressSpace \<Rightarrow> bool" where
  "zeroed vm s \<longleftrightarrow> (\<forall>x. page_of x \<in> page_frames s \<longrightarrow> vm_phys vm x = 0)"

lemma map_page_step:
  assumes ok: "frames_ok vm" and inv: "space_inv vm s" and z: "zeroed vm s"
    and v: "frame_aligned v" "in_user_virtual_range v" "v \<notin> fst ` set (page_list s)" "length (page_list s) < 65"
    and m: "map_user_page vm s v p = (r, s', vm')"
  shows "effect vm s vm' s' \<and> space_inv vm' s' \<and> (case r of
      Inl e \<Rightarrow> e \<in> map_errors \<and> \<not> plenty 2 vm
    | Inr f \<Rightarrow> page_list s' = page_list s @ [(v, p)] \<and> zeroed vm' s' \<and> (\<forall>n. plenty (n + 2) vm \<longrightarrow> plenty n vm'))"
proof -
  note S = map_user_page_spec [OF ok inv m]
  have c: "is_page_aligned v" "length (pages s) \<noteq> MAX_PROCESS_USER_PAGES" "v \<notin> fst ` set (pages s)"
    using v by (auto simp: aligned_frame_iff page_list_def MAX_PROCESS_USER_PAGES_def image_image split_def)
  show ?thesis
  proof (cases r)
    case (Inl e)
    then show ?thesis using S v(2) c by simp
  next
    case (Inr f)
    have R: "pages s' = pages s @ [(v, f, p)]" "\<forall>n. plenty (n + 2) vm \<longrightarrow> plenty n vm'"
      "\<forall>k < 512. entry_at (vm_phys vm') f k = 0"
      using S(2) Inr v(2) c by simp_all
    have pf: "page_frames s' = insert f (page_frames s)" by (simp add: page_frames_def R(1))
    have fa: "frame_aligned f" using page_frames_props(3) [of vm' s' f] S(1) pf by blast
    have "vm_phys vm' x = 0" if "page_of x \<in> page_frames s'" for x
    proof (cases "page_of x = f")
      case True
      then show ?thesis by (rule frame_bytes(2) [OF fa]) (use R(3) in simp)
    next
      case False
      then have "page_of x \<in> page_frames s" using that pf by simp
      then show ?thesis using only_changes_bytes [OF map_keeps_pages [OF ok inv m], of x] z
        by (simp add: zeroed_def)
    qed
    then show ?thesis using S(1) R Inr by (simp add: page_list_def zeroed_def)
  qed
qed

lemma map_pages_spec:
  assumes "frames_ok vm" "space_inv vm s" "zeroed vm s"
    and "\<forall>p \<in> set ps. frame_aligned p \<and> in_user_virtual_range p" "distinct ps"
    "set ps \<inter> fst ` set (page_list s) = {}" "length (page_list s) + length ps \<le> 65"
    and "map_pages seg ps s vm = (r, s', vm')"
  shows "effect vm s vm' s' \<and> space_inv vm' s' \<and> (case r of
      Inl e \<Rightarrow> (\<exists>a \<in> map_errors. e = AddressSpaceFailed a) \<and> \<not> plenty (2 * length ps) vm
    | Inr _ \<Rightarrow> page_list s' = page_list s @ map (\<lambda>p. (p, sp_permissions seg)) ps \<and> zeroed vm' s'
        \<and> (\<forall>n. plenty (n + 2 * length ps) vm \<longrightarrow> plenty n vm'))"
  using assms
proof (induction ps arbitrary: s vm)
  case Nil
  then show ?case using effect_refl by (auto simp: space_inv_def)
next
  case (Cons p ps)
  obtain r1 s1 vm1 where m: "map_user_page vm s p (sp_permissions seg) = (r1, s1, vm1)" by (metis prod_cases3)
  have "frame_aligned p" "in_user_virtual_range p" "p \<notin> fst ` set (page_list s)" "length (page_list s) < 65"
    using Cons.prems by auto
  note S = map_page_step [OF Cons.prems(1-3) this m]
  show ?case
  proof (cases r1)
    case (Inl e)
    have "\<not> plenty (2 * length (p # ps)) vm" using S Inl plenty_mono [of "2 * length (p # ps)" vm 2] by auto
    then show ?thesis using S Inl m Cons.prems(8) by auto
  next
    case (Inr f)
    have P: "page_list s1 = page_list s @ [(p, sp_permissions seg)]" "zeroed vm1 s1" "space_inv vm1 s1"
      "effect vm s vm1 s1" "\<forall>n. plenty (n + 2) vm \<longrightarrow> plenty n vm1" using S Inr by simp_all
    have run: "map_pages seg ps s1 vm1 = (r, s', vm')" using Cons.prems(8) m Inr by simp
    have "effect vm1 s1 vm' s' \<and> space_inv vm' s' \<and> (case r of
        Inl e \<Rightarrow> (\<exists>a \<in> map_errors. e = AddressSpaceFailed a) \<and> \<not> plenty (2 * length ps) vm1
      | Inr _ \<Rightarrow> page_list s' = page_list s1 @ map (\<lambda>p. (p, sp_permissions seg)) ps \<and> zeroed vm' s'
          \<and> (\<forall>n. plenty (n + 2 * length ps) vm1 \<longrightarrow> plenty n vm'))"
      by (rule Cons.IH [OF _ P(3,2) _ _ _ _ run]) (use Cons.prems P(1,4) in \<open>auto simp: effect_def\<close>)
    moreover have "plenty (n + 2 * length (p # ps)) vm \<longrightarrow> plenty (n + 2 * length ps) vm1" for n
      using P(5) [rule_format, of "n + 2 * length ps"] by simp
    moreover have "plenty (2 * length (p # ps)) vm \<longrightarrow> plenty (2 * length ps) vm1"
      using P(5) [rule_format, of "2 * length ps"] by simp
    ultimately show ?thesis using P(1) effect_trans [OF P(4)]
      by (cases r) (auto simp del: mult_Suc_right)
  qed
qed

end
