(* ===== verification/Elf_Process.thy ===== *)
theory Elf_Process
  imports Elf_Load
begin

unbundle bit_operations_syntax

text \<open>
  Loading a process as a whole: the segments and the stack are mapped, filled and audited, or the
  address space is destroyed again. With enough frames nothing after validation can fail.
\<close>

section \<open>All segments\<close>

definition plan_page_list :: "SegmentPlan list \<Rightarrow> (u64 \<times> UserPagePermissions) list" where
  "plan_page_list ts = concat (map (\<lambda>t. map (\<lambda>p. (p, sp_permissions t)) (segment_pages t)) ts)"

lemma plan_page_list_simps [simp]:
  "plan_page_list [] = []"
  "plan_page_list (t # ts) = map (\<lambda>p. (p, sp_permissions t)) (segment_pages t) @ plan_page_list ts"
  by (simp_all add: plan_page_list_def)

lemma fst_plan_page_list: "fst ` set (plan_page_list ts) = (\<Union>t \<in> set ts. set (segment_pages t))"
  by (induction ts) (auto simp: image_Un image_image)

lemma map_segments_spec:
  assumes "frames_ok vm" "space_inv vm s" "zeroed vm s"
    and "\<forall>t \<in> set ts. segment_ok img t" "disjoint_pages ts"
    "(\<Union>t \<in> set ts. set (segment_pages t)) \<inter> fst ` set (page_list s) = {}"
    "length (page_list s) + length (plan_page_list ts) \<le> 65"
    and "map_segments ts s vm = (r, s', vm')"
  shows "effect vm s vm' s' \<and> space_inv vm' s' \<and> (case r of
      Inl e \<Rightarrow> (\<exists>a \<in> map_errors. e = AddressSpaceFailed a) \<and> \<not> plenty (2 * length (plan_page_list ts)) vm
    | Inr _ \<Rightarrow> page_list s' = page_list s @ plan_page_list ts \<and> zeroed vm' s'
        \<and> (\<forall>n. plenty (n + 2 * length (plan_page_list ts)) vm \<longrightarrow> plenty n vm'))"
  using assms
proof (induction ts arbitrary: s vm)
  case Nil
  then show ?case using effect_refl by (auto simp: space_inv_def)
next
  case (Cons t ts)
  let ?n = "length (segment_pages t)"
  obtain r1 s1 vm1 where m: "map_pages t (segment_pages t) s vm = (r1, s1, vm1)" by (metis prod_cases3)
  have t: "segment_ok img t" using Cons.prems(4) by simp
  have pg: "\<forall>p \<in> set (segment_pages t). frame_aligned p \<and> in_user_virtual_range p"
    using segment_page_props [OF t] elf_in_user by force
  have S: "effect vm s vm1 s1 \<and> space_inv vm1 s1 \<and> (case r1 of
      Inl e \<Rightarrow> (\<exists>a \<in> map_errors. e = AddressSpaceFailed a) \<and> \<not> plenty (2 * ?n) vm
    | Inr _ \<Rightarrow> page_list s1 = page_list s @ map (\<lambda>p. (p, sp_permissions t)) (segment_pages t) \<and> zeroed vm1 s1
        \<and> (\<forall>n. plenty (n + 2 * ?n) vm \<longrightarrow> plenty n vm1))"
    by (rule map_pages_spec [OF Cons.prems(1-3) pg segment_pages_distinct [OF t] _ _ m]) (use Cons.prems in auto)
  have l: "2 * length (plan_page_list (t # ts)) = 2 * length (plan_page_list ts) + 2 * ?n" by simp
  show ?case
  proof (cases r1)
    case (Inl e)
    have "\<not> plenty (2 * length (plan_page_list (t # ts))) vm"
      using S Inl plenty_mono [of "2 * length (plan_page_list (t # ts))" vm "2 * ?n"] l by auto
    then show ?thesis using S Inl m Cons.prems(8) by auto
  next
    case (Inr u)
    have P: "page_list s1 = page_list s @ map (\<lambda>p. (p, sp_permissions t)) (segment_pages t)" "zeroed vm1 s1"
      "space_inv vm1 s1" "effect vm s vm1 s1" "\<forall>n. plenty (n + 2 * ?n) vm \<longrightarrow> plenty n vm1"
      using S Inr by simp_all
    have run: "map_segments ts s1 vm1 = (r, s', vm')" using Cons.prems(8) m Inr by simp
    have dis: "set (segment_pages u) \<inter> set (segment_pages t) = {}" if "u \<in> set ts" for u
      using that Cons.prems(4,5) pages_disjoint [OF t, of u] by (auto simp: disjoint_pages_Cons)
    have "effect vm1 s1 vm' s' \<and> space_inv vm' s' \<and> (case r of
        Inl e \<Rightarrow> (\<exists>a \<in> map_errors. e = AddressSpaceFailed a) \<and> \<not> plenty (2 * length (plan_page_list ts)) vm1
      | Inr _ \<Rightarrow> page_list s' = page_list s1 @ plan_page_list ts \<and> zeroed vm' s'
          \<and> (\<forall>n. plenty (n + 2 * length (plan_page_list ts)) vm1 \<longrightarrow> plenty n vm'))"
    proof (rule Cons.IH [OF _ P(3,2) _ _ _ _ run])
      show "frames_ok vm1" using P(4) by (simp add: effect_def)
      show "(\<Union>t \<in> set ts. set (segment_pages t)) \<inter> fst ` set (page_list s1) = {}"
        using Cons.prems(6) dis unfolding P(1) by (auto simp: image_Un image_image)
    qed (use Cons.prems(4,5,7) P(1) in \<open>auto simp: disjoint_pages_Cons\<close>)
    moreover have "plenty (n + 2 * length (plan_page_list (t # ts))) vm \<longrightarrow> plenty (n + 2 * length (plan_page_list ts)) vm1" for n
      using P(5) [rule_format, of "n + 2 * length (plan_page_list ts)"] unfolding l by (simp add: add.assoc)
    moreover have "plenty (2 * length (plan_page_list (t # ts))) vm \<longrightarrow> plenty (2 * length (plan_page_list ts)) vm1"
      using P(5) [rule_format, of "2 * length (plan_page_list ts)"] unfolding l by simp
    ultimately show ?thesis using P(1) effect_trans [OF P(4)]
      by (cases r) (auto simp del: length_append)
  qed
qed

section \<open>The audit\<close>

lemma audit_passes:
  assumes inv: "space_inv vm s" and wx: "\<forall>(v, p) \<in> set (page_list s). \<not> (up_writable p \<and> up_executable p)"
    and g: "USER_ELF_STACK_GUARD \<notin> fst ` set (page_list s)"
  shows "valid_root (space_audit vm s)" "aa_user_pages (space_audit vm s) = mapped_pages s"
    "writable_executable_pages (space_audit vm s) = 0" "stack_guard_intact (space_audit vm s)"
proof -
  from inv obtain lo us ls where a: "as_active s" "arrays_ok s"
    and l: "layout (vm_phys vm) (root_frame s) lo us ls (pages s)" by (rule space_invE)
  have fl: "frames_layout (root_frame s) lo us ls (pages s)" using l by (simp add: layout_def)
  have r0: "root_frame s \<noteq> 0" using frames_layoutD(4) [OF fl] .
  let ?n = "user_frame_count s"
  have n: "?n \<le> 65" "length (pages s) = ?n"
    using a(2) by (simp_all add: arrays_ok_def pages_def MAX_PROCESS_USER_PAGES_def)
  have pg: "pages s ! i = (user_virtuals s ! i, as_user_frames s ! i, user_permissions s ! i)" if "i < ?n" for i
    using that a(2) by (simp add: pages_def arrays_ok_def)
  have tr: "space_translate vm s (user_virtuals s ! i)
      = user_page (user_virtuals s ! i) (as_user_frames s ! i) (user_permissions s ! i)
    \<and> user_virtuals s ! i AND 0xfff = 0
    \<and> \<not> (up_writable (user_permissions s ! i) \<and> up_executable (user_permissions s ! i))" if i: "i < ?n" for i
  proof -
    have m: "(user_virtuals s ! i, as_user_frames s ! i, user_permissions s ! i) \<in> set (pages s)"
      using pg [OF i] n(2) i by (metis nth_mem)
    note d = frames_layoutD(9) [OF fl m]
    have "map_of (pages s) (user_virtuals s ! i) = Some (as_user_frames s ! i, user_permissions s ! i)"
      using m page_frames_props(5) [OF inv] by simp
    then show ?thesis
      using space_translate_inv [OF inv, of "user_virtuals s ! i"] d wx m
      by (force simp: page_of_aligned frame_aligned_def page_list_def)
  qed
  let ?init = "\<lparr>valid_root = (as_active s \<and> root_frame s \<noteq> 0), aa_mapped_pages = of_nat ?n, aa_user_pages = 0,
     writable_pages = 0, executable_pages = 0, writable_executable_pages = 0,
     stack_guard_intact = (\<not> tr_mapped (space_translate vm s USER_ELF_STACK_GUARD))\<rparr>"
  have "k \<le> ?n \<Longrightarrow> valid_root (fold (audit_page vm s) [0..<k] ?init) \<and>
      unat (aa_user_pages (fold (audit_page vm s) [0..<k] ?init)) = k \<and>
      writable_executable_pages (fold (audit_page vm s) [0..<k] ?init) = 0 \<and>
      stack_guard_intact (fold (audit_page vm s) [0..<k] ?init)
        = (\<not> tr_mapped (space_translate vm s USER_ELF_STACK_GUARD))" for k
  proof (induction k)
    case 0
    then show ?case using a(1) r0 by simp
  next
    case (Suc k)
    define au where "au = fold (audit_page vm s) [0..<k] ?init"
    have IH: "valid_root au" "unat (aa_user_pages au) = k" "writable_executable_pages au = 0"
      "stack_guard_intact au = (\<not> tr_mapped (space_translate vm s USER_ELF_STACK_GUARD))"
      using Suc by (simp_all add: au_def)
    have "fold (audit_page vm s) [0..<Suc k] ?init = audit_page vm s k au" by (simp add: au_def)
    moreover have "valid_root (audit_page vm s k au) \<and> unat (aa_user_pages (audit_page vm s k au)) = Suc k
        \<and> writable_executable_pages (audit_page vm s k au) = 0
        \<and> stack_guard_intact (audit_page vm s k au) = stack_guard_intact au"
      using tr [of k] Suc.prems n(1) IH by (simp add: audit_page_def Let_def user_page_def unat_sat_add)
    ultimately show ?case using IH by simp
  qed
  from this [of ?n] have F: "valid_root (space_audit vm s)" "unat (aa_user_pages (space_audit vm s)) = ?n"
    "writable_executable_pages (space_audit vm s) = 0"
    "stack_guard_intact (space_audit vm s) = (\<not> tr_mapped (space_translate vm s USER_ELF_STACK_GUARD))"
    by (simp_all add: space_audit_def)
  then show "valid_root (space_audit vm s)" "writable_executable_pages (space_audit vm s) = 0" by simp_all
  have "unat (of_nat ?n :: u64) = ?n" using n(1) by (simp add: unat_of_nat)
  then have "unat (aa_user_pages (space_audit vm s)) = unat (of_nat ?n :: u64)" using F(2) by simp
  then show "aa_user_pages (space_audit vm s) = mapped_pages s"
    unfolding mapped_pages_def by (simp only: word_unat_eq_iff)
  have gd: "page_of USER_ELF_STACK_GUARD = USER_ELF_STACK_GUARD" "in_user_virtual_range USER_ELF_STACK_GUARD"
    by code_simp+
  have "USER_ELF_STACK_GUARD \<notin> fst ` set (pages s)" using g by (force simp: page_list_def)
  then have "map_of (pages s) USER_ELF_STACK_GUARD = None" by (simp add: map_of_eq_None_iff)
  then show "stack_guard_intact (space_audit vm s)"
    using F(4) space_translate_inv [OF inv gd(2)] gd(1) by simp
qed

section \<open>Set-up of a process\<close>

lemma plan_pages_bound:
  assumes "plan_ok img plan"
  shows "length (plan_page_list (plan_segments plan)) = ip_total_pages plan" "ip_total_pages plan \<le> 64"
proof -
  have "length (plan_page_list ts) = length (concat (map segment_pages ts))" for ts
    by (induction ts) simp_all
  then show "length (plan_page_list (plan_segments plan)) = ip_total_pages plan" "ip_total_pages plan \<le> 64"
    using assms by (simp_all add: plan_ok_def MAX_LOAD_PAGES_def)
qed

lemma stack_page: "frame_aligned USER_ELF_STACK_PAGE" "in_user_virtual_range USER_ELF_STACK_PAGE"
  "page_of USER_ELF_STACK_PAGE = USER_ELF_STACK_PAGE"
  by code_simp+

lemma segment_pages_low:
  assumes "plan_ok img plan" "p \<in> fst ` set (plan_page_list (plan_segments plan))"
  shows "0x40100000 \<le> unat p" "unat p < 0x40200000"
  using assms segment_page_props(4,5) unfolding fst_plan_page_list plan_ok_def by blast+

text \<open>The pages of a loaded process: those of the segments and the stack.\<close>

definition process_pages :: "ImagePlan \<Rightarrow> (u64 \<times> UserPagePermissions) list" where
  "process_pages plan = plan_page_list (plan_segments plan) @ [(USER_ELF_STACK_PAGE, READ_WRITE)]"

lemma page_list_map_of:
  assumes "space_inv vm s" "(v, p) \<in> set (page_list s)"
  obtains f where "map_of (pages s) v = Some (f, p)"
proof -
  obtain f where "(v, f, p) \<in> set (pages s)" using assms(2) by (auto simp: page_list_def)
  then have "map_of (pages s) v = Some (f, p)" using page_frames_props(5) [OF assms(1)] by simp
  then show thesis by (rule that)
qed

lemma segments_mapped:
  assumes inv: "space_inv vm s" and ok: "plan_ok img plan" and pl: "page_list s = process_pages plan"
    and t: "t \<in> set (plan_segments plan)" and k: "k < unat (sp_memory_size t)"
  obtains f where "map_of (pages s) (page_of (sp_virtual_address t + of_nat k)) = Some (f, sp_permissions t)"
proof -
  have "segment_ok img t" using ok t by (simp add: plan_ok_def)
  from segment_covers(1) [OF this k]
  have "(page_of (sp_virtual_address t + of_nat k), sp_permissions t) \<in> set (plan_page_list (plan_segments plan))"
    using t by (auto simp: plan_page_list_def)
  then have "(page_of (sp_virtual_address t + of_nat k), sp_permissions t) \<in> set (page_list s)"
    unfolding pl process_pages_def by simp
  then show thesis using page_list_map_of [OF inv] that by blast
qed

text \<open>What set-up achieves: every page as planned, the file bytes in place and zeroes elsewhere.\<close>

definition loaded :: "u8 list \<Rightarrow> ImagePlan \<Rightarrow> AddressSpace \<Rightarrow> memory \<Rightarrow> bool" where
  "loaded img plan s mem \<longleftrightarrow> page_list s = process_pages plan
     \<and> (\<forall>t \<in> set (plan_segments plan). \<forall>k < unat (sp_file_size t).
          mem (seg_addr s t k) = img ! (unat (sp_file_offset t) + k))
     \<and> (\<forall>x. page_of x \<in> page_frames s \<longrightarrow>
          (\<forall>t \<in> set (plan_segments plan). \<forall>k < unat (sp_file_size t). x \<noteq> seg_addr s t k) \<longrightarrow> mem x = 0)"

lemma process_setup_spec:
  assumes ok: "frames_ok vm" "space_inv vm s" "pages s = []" and plan: "plan_ok img plan"
    and len: "length img < 2 ^ 64" and run: "process_setup img plan s vm = (r, s', vm')"
  shows "effect vm s vm' s' \<and> space_inv vm' s' \<and> (case r of
      Inl e \<Rightarrow> (\<exists>a \<in> map_errors. e = AddressSpaceFailed a) \<and> \<not> plenty (2 + 2 * ip_total_pages plan) vm
    | Inr _ \<Rightarrow> loaded img plan s' (vm_phys vm'))"
proof -
  let ?ts = "plan_segments plan" and ?N = "length (plan_page_list (plan_segments plan))"
  have N: "?N = ip_total_pages plan" "?N \<le> 64" using plan_pages_bound [OF plan] by simp_all
  have po: "\<forall>t \<in> set ?ts. segment_ok img t" "disjoint_pages ?ts" using plan by (simp_all add: plan_ok_def)
  have z: "zeroed vm s" "page_list s = []" using ok(3) by (simp_all add: zeroed_def page_frames_def page_list_def)
  obtain r1 s1 vm1 where m1: "map_segments ?ts s vm = (r1, s1, vm1)" by (metis prod_cases3)
  have S1: "effect vm s vm1 s1 \<and> space_inv vm1 s1 \<and> (case r1 of
      Inl e \<Rightarrow> (\<exists>a \<in> map_errors. e = AddressSpaceFailed a) \<and> \<not> plenty (2 * ?N) vm
    | Inr _ \<Rightarrow> page_list s1 = page_list s @ plan_page_list ?ts \<and> zeroed vm1 s1
        \<and> (\<forall>n. plenty (n + 2 * ?N) vm \<longrightarrow> plenty n vm1))"
    by (rule map_segments_spec [OF ok(1,2) z(1) po _ _ m1]) (use N z(2) in simp_all)
  show ?thesis
  proof (cases r1)
    case (Inl e)
    then show ?thesis using S1 m1 run N plenty_mono [of "2 + 2 * ip_total_pages plan" vm "2 * ?N"] by (auto simp: process_setup_def)
  next
    case (Inr u)
    have P: "effect vm s vm1 s1" "space_inv vm1 s1" "page_list s1 = plan_page_list ?ts" "zeroed vm1 s1"
      "\<forall>n. plenty (n + 2 * ?N) vm \<longrightarrow> plenty n vm1" using S1 Inr z(2) by simp_all
    have ok1: "frames_ok vm1" using P(1) by (simp add: effect_def)
    have ns: "USER_ELF_STACK_PAGE \<notin> fst ` set (page_list s1)" "USER_ELF_STACK_GUARD \<notin> fst ` set (page_list s1)"
      using segment_pages_low(2) [OF plan, of USER_ELF_STACK_PAGE] segment_pages_low(2) [OF plan, of USER_ELF_STACK_GUARD]
      unfolding P(3) elf_numbers by auto
    obtain r2 s2 vm2 where m2: "map_user_page vm1 s1 USER_ELF_STACK_PAGE READ_WRITE = (r2, s2, vm2)" by (metis prod_cases3)
    have S2: "effect vm1 s1 vm2 s2 \<and> space_inv vm2 s2 \<and> (case r2 of
        Inl e \<Rightarrow> e \<in> map_errors \<and> \<not> plenty 2 vm1
      | Inr f \<Rightarrow> page_list s2 = page_list s1 @ [(USER_ELF_STACK_PAGE, READ_WRITE)] \<and> zeroed vm2 s2
          \<and> (\<forall>n. plenty (n + 2) vm1 \<longrightarrow> plenty n vm2))"
      by (rule map_page_step [OF ok1 P(2,4) stack_page(1,2) ns(1) _ m2]) (use N P(3) in simp)
    show ?thesis
    proof (cases r2)
      case (Inl e)
      have "\<not> plenty (2 + 2 * ip_total_pages plan) vm"
        using S2 Inl P(5) [rule_format, of 2] plenty_mono [of "2 + 2 * ip_total_pages plan" vm "2 + 2 * ?N"] N by auto
      then show ?thesis using S2 Inl Inr m1 m2 run effect_trans [OF P(1)] by (auto simp: process_setup_def)
    next
      case r2: (Inr f)
      have Q: "effect vm s vm2 s2" "space_inv vm2 s2" "page_list s2 = process_pages plan" "zeroed vm2 s2"
        using S2 r2 effect_trans [OF P(1)] P(3) by (simp_all add: process_pages_def)
      have ms: "\<forall>t \<in> set ?ts. segment_ok img t \<and> mapped_segment s2 t"
      proof (intro ballI conjI)
        fix t assume t: "t \<in> set ?ts"
        show "segment_ok img t" using po(1) t by simp
        show "mapped_segment s2 t" unfolding mapped_segment_def
        proof (intro allI impI)
          fix k assume "k < unat (sp_memory_size t)"
          with segments_mapped [OF Q(2) plan Q(3) t]
          show "map_of (pages s2) (page_of (sp_virtual_address t + of_nat k)) \<noteq> None" by blast
        qed
      qed
      obtain mem' where F: "fill_segments img ?ts s2 vm2 = (Inr (), vm2\<lparr>vm_phys := mem'\<rparr>)"
        and ch: "only_changes (page_frames s2) (vm_phys vm2) mem'"
        and B: "\<forall>t \<in> set ?ts. \<forall>k < unat (sp_file_size t). mem' (seg_addr s2 t k) = img ! (unat (sp_file_offset t) + k)"
          "\<forall>x. (\<forall>t \<in> set ?ts. \<forall>k < unat (sp_file_size t). x \<noteq> seg_addr s2 t k) \<longrightarrow> mem' x = vm_phys vm2 x"
        using fill_segments_spec [OF ms po(2) len Q(2)] by blast
      let ?vm = "vm2\<lparr>vm_phys := mem'\<rparr>"
      have inv: "space_inv ?vm s2" by (rule space_inv_contents [OF Q(2) ch])
      have wx: "\<forall>(v, p) \<in> set (page_list s2). \<not> (up_writable p \<and> up_executable p)"
        using po(1) unfolding Q(3) process_pages_def
        by (auto simp: plan_page_list_def sp_permissions_def segment_ok_def READ_WRITE_def)
      have gd: "USER_ELF_STACK_GUARD \<notin> fst ` set (page_list s2)"
        using ns(2) elf_numbers unfolding Q(3) P(3) process_pages_def by auto
      note au = audit_passes [OF inv wx gd]
      have res: "r = Inr ()" "s' = s2" "vm' = ?vm"
        using run m1 m2 F Inr r2 au by (simp_all add: process_setup_def)
      have "effect vm2 s2 ?vm s2"
      proof (rule effect_phys)
        show "frames_ok vm2" using Q(1) by (simp add: effect_def)
        show "owned s2 \<subseteq> vm_live vm2" using Q(2) by (simp add: space_inv_def)
        show "only_changes (owned s2) (vm_phys vm2) mem'"
          using ch by (auto simp: only_changes_def page_frames_def owned_def)
      qed
      then have "effect vm s ?vm s2" by (rule effect_trans [OF Q(1)])
      moreover have "loaded img plan s2 mem'"
        using B Q(3,4) by (simp add: loaded_def zeroed_def)
      ultimately show ?thesis using inv by (simp add: res)
    qed
  qed
qed

section \<open>A process from an image\<close>

lemma destroy_effect:
  assumes "frames_ok vm" "space_inv vm s"
  shows "\<exists>s'. effect vm s (snd (snd (destroy vm s))) s'"
proof (cases "vm_cr3 vm = root_frame s")
  case True
  have "as_active s" "owned s \<subseteq> vm_live vm" using assms(2) by (simp_all add: space_inv_def)
  then show ?thesis using True effect_refl [OF assms(1)] by (auto simp: destroy_def)
next
  case False
  obtain rep vm' where "destroy vm s = (Inr rep, AddressSpace_empty, vm')" "effect vm s vm' AddressSpace_empty"
    by (rule destroy_spec [OF assms False])
  then show ?thesis by auto
qed

lemma process_from_image_spec:
  assumes k: "frames_ok vm" "kernel_tables vm" "paging_initialized vm" and len: "length img < 2 ^ 64"
    and plan: "validate_image img = Inr plan" and run: "process_from_image img vm = (r, vm')"
  shows "(\<exists>s. effect vm AddressSpace_empty vm' s) \<and> (case r of
      Inl e \<Rightarrow> \<not> plenty (5 + 2 * ip_total_pages plan) vm
    | Inr pi \<Rightarrow> effect vm AddressSpace_empty vm' (pi_address_space pi) \<and> space_inv vm' (pi_address_space pi)
        \<and> loaded img plan (pi_address_space pi) (vm_phys vm') \<and> pi_entry_point pi = ip_entry_point plan)"
  using k
proof (cases rule: create_spec)
  case (fail e vm1)
  then show ?thesis using run plan fail(4) [of "2 + 2 * ip_total_pages plan"] by (auto simp: process_from_image_def add.commute)
next
  case (success s vm1)
  have P: "plan_ok img plan" by (rule validate_image_ok(1) [OF plan len])
  obtain r1 s1 vm2 where m: "process_setup img plan s vm1 = (r1, s1, vm2)" by (metis prod_cases3)
  have ok1: "frames_ok vm1" using success(2) by (simp add: effect_def)
  note S = process_setup_spec [OF ok1 success(3,4) P len m]
  have e: "effect vm AddressSpace_empty vm2 s1" "space_inv vm2 s1" "frames_ok vm2"
    using S effect_trans [OF success(2)] by (auto simp: effect_def)
  show ?thesis
  proof (cases r1)
    case (Inl x)
    have "r = Inl x" "vm' = snd (snd (destroy vm2 s1))"
      using run plan success(1) m Inl by (simp_all add: process_from_image_def)
    then show ?thesis
      using S Inl success(5) [of "2 + 2 * ip_total_pages plan"] destroy_effect [OF e(3,2)] effect_trans [OF e(1)] by auto
  next
    case (Inr u)
    then show ?thesis
      using run plan success(1) m S e by (auto simp: process_from_image_def)
  qed
qed

end
