(* ===== verification/Address_Space_Properties.thy ===== *)
theory Address_Space_Properties
  imports Elf_Process Physmem_Safety
begin

unbundle bit_operations_syntax

text \<open>
  The properties of the address spaces of a running kernel: from the page tables that the boot
  code builds, under any sequence of creations, mappings, destructions, program loads, switches and
  writes of user programs.
\<close>

section \<open>The system\<close>

type_synonym system = "Vm \<times> AddressSpace list"

text \<open>The page tables that the boot code of \<^verbatim>\<open>src/src/main.rs\<close> writes into zeroed memory.\<close>

definition boot_page_tables :: "memory \<Rightarrow> u64 \<Rightarrow> u64 \<Rightarrow> u64 \<Rightarrow> memory" where
  "boot_page_tables mem p4 p3 p2 =
     (let m = fold (\<lambda>i m. set_entry m p2 i (push_bit 21 (of_nat i) OR 0x83)) [0..<512] mem;
          m = set_entry m p3 0 (p2 OR 0x03)
      in set_entry m p4 0 (p3 OR 0x03))"

text \<open>
  The state in which the first address space is created: the allocator initialised from the
  boot map, the mapper initialised, CR3 at the boot root.
\<close>

definition boot_vm :: "u64 \<Rightarrow> u64 \<Rightarrow> BootInfoSummary \<Rightarrow> u64 \<Rightarrow> u64 \<Rightarrow> u64 \<Rightarrow> memory \<Rightarrow> Vm" where
  "boot_vm ks ke boot p4 p3 p2 mem = \<lparr>vm_kernel_start = ks, vm_kernel_end = ke, vm_boot = boot,
     p4_addr = p4, p3_addr = p3, p2_addr = p2, vm_phys = boot_page_tables mem p4 p3 p2,
     vm_frames = phys_init ks ke boot,
     vm_mapper = MapperState_new\<lparr>mp_initialized := True, mp_guard_pages := 2\<rparr>,
     paging_initialized = True, address_spaces_created = 0, address_spaces_destroyed = 0,
     active_address_spaces = 0, total_user_frames_freed = 0, total_table_frames_freed = 0,
     address_space_cleanup_failures = 0, last_created_root = 0, last_destroyed_root = 0,
     vm_cr3 = p4\<rparr>"

text \<open>
  What the linker script and the boot loader guarantee: the tables are three aligned pages of
  the kernel's zeroed data below the end of the image, and the boot map has no overlaps.
\<close>

definition linked :: "u64 \<Rightarrow> u64 \<Rightarrow> u64 \<Rightarrow> u64 \<Rightarrow> memory \<Rightarrow> bool" where
  "linked ke p4 p3 p2 mem \<longleftrightarrow> distinct [p4, p3, p2] \<and> unat ke \<le> 2 ^ 64 - 4096
     \<and> (\<forall>p \<in> {p4, p3, p2}. ok_frame p \<and> p < ke \<and> (\<forall>k < 512. entry_at mem p k = 0))"

inductive system_step :: "system \<Rightarrow> system \<Rightarrow> bool" where
  step_create_ok: "create vm = (Inr s, vm') \<Longrightarrow> system_step (vm, ss) (vm', ss @ [s])"
| step_create_error: "create vm = (Inl e, vm') \<Longrightarrow> system_step (vm, ss) (vm', ss)"
| step_map: "i < length ss \<Longrightarrow> map_user_page vm (ss ! i) v p = (r, s, vm') \<Longrightarrow>
    system_step (vm, ss) (vm', ss[i := s])"
| step_destroy: "i < length ss \<Longrightarrow> destroy vm (ss ! i) = (r, s, vm') \<Longrightarrow>
    system_step (vm, ss) (vm', ss[i := s])"
| step_load: "length img < 2 ^ 64 \<Longrightarrow> process_from_image img vm = (Inr pi, vm') \<Longrightarrow>
    system_step (vm, ss) (vm', ss @ [pi_address_space pi])"
| step_load_error: "length img < 2 ^ 64 \<Longrightarrow> process_from_image img vm = (Inl er, vm') \<Longrightarrow>
    system_step (vm, ss) (vm', ss)"
| step_switch: "system_step (vm, ss) (vm\<lparr>vm_cr3 := c\<rparr>, ss)"
| step_user_write: "i < length ss \<Longrightarrow> tr_user_accessible (space_translate vm (ss ! i) v) \<Longrightarrow>
    tr_writable (space_translate vm (ss ! i) v) \<Longrightarrow>
    system_step (vm, ss)
      (vm\<lparr>vm_phys := (vm_phys vm)(tr_phys (space_translate vm (ss ! i) v) := b)\<rparr>, ss)"

definition system_inv :: "u64 set \<Rightarrow> system \<Rightarrow> bool" where
  "system_inv E \<sigma> \<longleftrightarrow> (case \<sigma> of (vm, ss) \<Rightarrow>
     frames_ok vm \<and> vm_every vm = E \<and> kernel_tables vm \<and> paging_initialized vm
     \<and> (\<forall>s \<in> set ss. s = AddressSpace_empty \<or> space_inv vm s)
     \<and> (\<forall>i < length ss. \<forall>j < length ss. i \<noteq> j \<longrightarrow> owned (ss ! i) \<inter> owned (ss ! j) = {}))"

section \<open>The invariant of runs\<close>

lemma only_changes_mono: "only_changes F m m' \<Longrightarrow> F \<subseteq> H \<Longrightarrow> only_changes H m m'"
  by (auto simp: only_changes_def)

lemma space_inv_frame:
  assumes inv: "space_inv vm s" and eff: "effect vm t vm' t'" and d: "owned s \<inter> owned t = {}"
  shows "space_inv vm' s"
proof -
  from inv obtain lo us ls where s: "as_active s" "arrays_ok s" "owned s \<subseteq> vm_live vm"
    "tables s = root_frame s # lo # us # ls"
    "layout (vm_phys vm) (root_frame s) lo us ls (pages s)" by (rule space_invE)
  have c: "only_changes (scope vm t) (vm_phys vm) (vm_phys vm')" "vm_live vm - owned t \<subseteq> vm_live vm'"
    using eff by (simp_all add: effect_def)
  have "owned s \<inter> scope vm t = {}" using s(3) d unfolding scope_def by blast
  moreover have "set (root_frame s # lo # us # ls) \<subseteq> owned s"
    unfolding s(4) [symmetric] by (simp add: owned_def)
  ultimately have "layout (vm_phys vm') (root_frame s) lo us ls (pages s)"
    by (intro layout_frame [OF s(5) c(1)]) blast
  moreover have "owned s \<subseteq> vm_live vm'" using c(2) s(3) d by blast
  ultimately show ?thesis using s by (simp add: space_inv_def)
qed

text \<open>An operation on one space, with its effect, keeps the invariant of the system.\<close>

lemma system_effect:
  assumes inv: "system_inv E (vm, ss)" and i: "i < length ss" and eff: "effect vm (ss ! i) vm' s"
    and new: "s = AddressSpace_empty \<or> space_inv vm' s"
  shows "system_inv E (vm', ss[i := s])"
proof -
  have all: "t = AddressSpace_empty \<or> space_inv vm t" if "t \<in> set ss" for t
    using inv that by (simp add: system_inv_def)
  have dis: "owned (ss ! j) \<inter> owned (ss ! k) = {}" if "j < length ss" "k < length ss" "j \<noteq> k" for j k
    using inv that by (simp add: system_inv_def)
  have own: "owned s \<subseteq> scope vm (ss ! i)" using eff by (simp add: effect_def)
  have live: "owned t \<subseteq> vm_live vm" if "t \<in> set ss" for t
    using all [OF that] by (auto elim!: space_invE)
  have fresh: "owned s \<inter> owned (ss ! j) = {}" if "j < length ss" "j \<noteq> i" for j
    using own dis [OF that(1) i that(2)] live [OF nth_mem [OF that(1)]] unfolding scope_def by blast
  have old: "ss ! j = AddressSpace_empty \<or> space_inv vm' (ss ! j)" if "j < length ss" "j \<noteq> i" for j
    using all [OF nth_mem [OF that(1)]] space_inv_frame [OF _ eff dis [OF that(1) i that(2)]] by blast
  have "\<forall>t \<in> set (ss[i := s]). t = AddressSpace_empty \<or> space_inv vm' t"
    using old new i by (metis in_set_conv_nth length_list_update nth_list_update)
  moreover have "owned (ss[i := s] ! j) \<inter> owned (ss[i := s] ! k) = {}"
    if "j < length ss" "k < length ss" "j \<noteq> k" for j k
    using that dis fresh by (cases "j = i"; cases "k = i") (auto simp: Int_commute)
  moreover have "frames_ok vm'" "vm_every vm' = E" "paging_initialized vm'" using eff inv by (simp_all add: effect_def system_inv_def)
  moreover have "kernel_tables vm'" using kernel_tables_effect [OF _ eff] inv by (simp add: system_inv_def)
  ultimately show ?thesis unfolding system_inv_def by simp
qed

lemma system_inv_extend: "system_inv E (vm, ss) \<Longrightarrow> system_inv E (vm, ss @ [AddressSpace_empty])"
  by (auto simp: system_inv_def nth_append less_Suc_eq)

lemma system_inv_shrink:
  assumes "system_inv E (vm, ss @ [AddressSpace_empty])"
  shows "system_inv E (vm, ss)"
proof -
  have "owned (ss ! i) \<inter> owned (ss ! j) = {}" if ij: "i < length ss" "j < length ss" "i \<noteq> j" for i j
  proof -
    have "owned ((ss @ [AddressSpace_empty]) ! i) \<inter> owned ((ss @ [AddressSpace_empty]) ! j) = {}"
      using assms ij unfolding system_inv_def by simp
    with ij show ?thesis by (simp add: nth_append)
  qed
  with assms show ?thesis by (simp add: system_inv_def)
qed

lemma system_effect_new:
  assumes "system_inv E (vm, ss)" "effect vm AddressSpace_empty vm' s" "space_inv vm' s"
  shows "system_inv E (vm', ss @ [s])"
  using system_effect [OF system_inv_extend [OF assms(1)], of "length ss" vm' s] assms(2,3) by (simp add: nth_append)

lemma system_effect_same:
  assumes "system_inv E (vm, ss)" "effect vm AddressSpace_empty vm' s"
  shows "system_inv E (vm', ss)"
proof -
  have "effect vm AddressSpace_empty vm' AddressSpace_empty"
    using assms(2) unfolding effect_def by simp
  then have "system_inv E (vm', (ss @ [AddressSpace_empty])[length ss := AddressSpace_empty])"
    by (intro system_effect [OF system_inv_extend [OF assms(1)]]) simp_all
  then have "system_inv E (vm', ss @ [AddressSpace_empty])" by simp
  then show ?thesis by (rule system_inv_shrink)
qed

lemma system_tables:
  assumes "system_inv E (vm, ss)"
  shows "frames_ok vm" "kernel_tables vm" "paging_initialized vm"
  using assms by (simp_all add: system_inv_def)

text \<open>Where user code can write.\<close>

lemma space_accessible:
  assumes "space_inv vm s" and "tr_user_accessible (space_translate vm s v)"
  obtains w f p where "(w, f, p) \<in> set (pages s)" "space_translate vm s v = user_page v f p"
    "ok_frame f" "f \<in> owned s" "f \<notin> set (tables s)" "page_of (tr_phys (space_translate vm s v)) = f"
proof -
  from assms(1) obtain lo us ls where a: "as_active s" "tables s = root_frame s # lo # us # ls"
    and l: "layout (vm_phys vm) (root_frame s) lo us ls (pages s)" by (rule space_invE)
  have fl: "frames_layout (root_frame s) lo us ls (pages s)" using l by (simp add: layout_def)
  have t: "space_translate vm s v = translate_from_root (vm_phys vm) (root_frame s) v"
    using a(1) frames_layoutD(4) [OF fl] by (simp add: space_translate_def)
  from user_accessible_page [OF l assms(2) [unfolded t]] obtain w f p where
    w: "(w, f, p) \<in> set (pages s)" "space_translate vm s v = user_page v f p" unfolding t by blast
  note d = frames_layoutD(9) [OF fl w(1)]
  have "page_of (f + (v AND 0xfff)) = f"
    using d low_less [of v] by (intro page_of_add) (auto simp: ok_frame_def)
  moreover have "f \<in> owned s" using w(1) by (force simp: owned_def)
  ultimately show ?thesis using that [OF w(1,2)] d w(2) a(2) by (simp add: user_page_def)
qed

lemma only_changes_byte: "only_changes {page_of a} mem (mem(a := b))"
proof -
  have "entry_at (mem(a := b)) f k = entry_at mem f k"
    if "frame_aligned f" "f \<noteq> page_of a" "k < 512" for f k
    unfolding entry_at_def
  proof (rule read_u64_cong)
    fix x :: u64 assume "x < 8"
    from entry_page(1) [OF that(1,3) this] that(2) have "f + 8 * of_nat k + x \<noteq> a" by auto
    then show "(mem(a := b)) (f + 8 * of_nat k + x) = mem (f + 8 * of_nat k + x)" by simp
  qed
  then show ?thesis by (simp add: only_changes_def)
qed

lemma user_write_layout:
  assumes inv: "system_inv E (vm, ss)" and i: "i < length ss" and u: "tr_user_accessible (space_translate vm (ss ! i) v)"
  shows "system_inv E (vm\<lparr>vm_phys := (vm_phys vm)(tr_phys (space_translate vm (ss ! i) v) := b)\<rparr>, ss)"
proof -
  let ?s = "ss ! i" and ?a = "tr_phys (space_translate vm (ss ! i) v)"
  let ?vm = "vm\<lparr>vm_phys := (vm_phys vm)(?a := b)\<rparr>"
  have "?s \<noteq> AddressSpace_empty" using u by (auto simp: space_translate_def unmapped_def AddressSpace_empty_def)
  then have s: "space_inv vm ?s" using inv i by (auto simp: system_inv_def)
  from s u obtain w f p where f: "f \<in> owned ?s" "f \<notin> set (tables ?s)" "page_of ?a = f" by (rule space_accessible)
  have ch: "only_changes {f} (vm_phys vm) ((vm_phys vm)(?a := b))" using only_changes_byte [of ?a] f(3) by simp
  have ok: "frames_ok vm" "owned ?s \<subseteq> vm_live vm" using inv s by (auto simp: system_inv_def space_inv_def)
  have "effect vm ?s ?vm ?s"
    using only_changes_mono [OF ch, of "owned ?s"] f(1) by (intro effect_phys ok) simp
  moreover have "space_inv ?vm ?s"
  proof -
    from s obtain lo us ls where l: "as_active ?s" "arrays_ok ?s" "tables ?s = root_frame ?s # lo # us # ls"
      "layout (vm_phys vm) (root_frame ?s) lo us ls (pages ?s)" by (rule space_invE)
    have "layout ((vm_phys vm)(?a := b)) (root_frame ?s) lo us ls (pages ?s)"
      using f(2) by (intro layout_frame [OF l(4) ch]) (simp add: l(3))
    with l ok(2) show ?thesis by (simp add: space_inv_def)
  qed
  ultimately have "system_inv E (?vm, ss[i := ss ! i])" by (intro system_effect [OF inv i]) auto
  then show ?thesis by simp
qed

lemma system_inv_step:
  assumes inv: "system_inv E \<sigma>" and step: "system_step \<sigma> \<tau>"
  shows "system_inv E \<tau>"
  using step
proof (cases rule: system_step.cases)
  case (step_create_ok vm s vm' ss)
  from system_tables [of E vm ss] show ?thesis
    by (cases rule: create_spec) (use inv step_create_ok in \<open>auto intro: system_effect_new\<close>)
next
  case (step_create_error vm e vm' ss)
  from system_tables [of E vm ss] show ?thesis
    by (cases rule: create_spec) (use inv step_create_error in \<open>auto intro: system_effect_same\<close>)
next
  case (step_load img vm pi vm' ss)
  then obtain plan where plan: "validate_image img = Inr plan" by (auto simp: process_from_image_def split: sum.splits)
  from process_from_image_spec [OF system_tables [of E vm ss] step_load(3) plan step_load(4)] show ?thesis
    using inv step_load by (auto intro: system_effect_new)
next
  case (step_load_error img vm er vm' ss)
  show ?thesis
  proof (cases "validate_image img")
    case (Inl e)
    then show ?thesis using inv step_load_error by (simp add: process_from_image_def)
  next
    case (Inr plan)
    from process_from_image_spec [OF system_tables [of E vm ss] step_load_error(3) this step_load_error(4)]
    show ?thesis using inv step_load_error by (auto intro: system_effect_same)
  qed
next
  case (step_map i ss vm v p r s vm')
  show ?thesis
  proof (cases "ss ! i = AddressSpace_empty")
    case True
    then have "s = ss ! i" "vm' = vm" using step_map by (auto simp: map_user_page_def AddressSpace_empty_def)
    then show ?thesis using inv step_map by simp
  next
    case False
    then have "space_inv vm (ss ! i)" "frames_ok vm" using inv step_map by (auto simp: system_inv_def)
    from map_user_page_spec(1) [OF this(2,1) step_map(4)] show ?thesis
      using inv step_map by (auto intro!: system_effect)
  qed
next
  case (step_destroy i ss vm r s vm')
  show ?thesis
  proof (cases "ss ! i = AddressSpace_empty \<or> vm_cr3 vm = root_frame (ss ! i)")
    case True
    then have "s = ss ! i" "vm' = vm"
      using step_destroy by (auto simp: destroy_def AddressSpace_empty_def split: if_splits)
    then show ?thesis using inv step_destroy by simp
  next
    case False
    then have "space_inv vm (ss ! i)" "frames_ok vm" using inv step_destroy by (auto simp: system_inv_def)
    moreover have "vm_cr3 vm \<noteq> root_frame (ss ! i)" using False by simp
    ultimately show ?thesis
      by - (rule destroy_spec [of vm "ss ! i"], use inv step_destroy in \<open>auto intro!: system_effect\<close>)
  qed
next
  case (step_switch vm ss c)
  have f: "frames_ok (vm\<lparr>vm_cr3 := c\<rparr>) = frames_ok vm" "vm_live (vm\<lparr>vm_cr3 := c\<rparr>) = vm_live vm"
    "vm_every (vm\<lparr>vm_cr3 := c\<rparr>) = vm_every vm" by (simp_all add: frames_ok_def vm_live_def vm_every_def)
  then have "kernel_tables (vm\<lparr>vm_cr3 := c\<rparr>) = kernel_tables vm"
    "\<And>s. space_inv (vm\<lparr>vm_cr3 := c\<rparr>) s = space_inv vm s"
    by (simp_all add: kernel_tables_def space_inv_def)
  then show ?thesis using inv step_switch f by (simp add: system_inv_def)
next
  case (step_user_write i ss vm v b)
  with user_write_layout inv show ?thesis by simp
qed

section \<open>Boot\<close>

lemma all_frames_protected: "phys_inv s \<Longrightarrow> f \<in> all_frames s \<Longrightarrow> protected_until s \<le> f"
  using region_okD(4) [OF phys_invD(1)] by (fastforce simp: all_frames_def frames_def)

lemma boot_p2_only:
  assumes "frame_aligned p2" and "frame_aligned f" and "f \<noteq> p2" and "k < 512"
    and "\<forall>i \<in> set is. i < 512"
  shows "entry_at (fold (\<lambda>i m. set_entry m p2 i (g i)) is mem) f k = entry_at mem f k"
  using assms(5)
proof (induction "is" arbitrary: mem)
  case (Cons i "is")
  then show ?case using assms(1-4) by (simp add: entry_set)
qed simp

lemma boot_entries:
  assumes "linked ke p4 p3 p2 mem" and "i < 512"
  shows "entry_at (boot_page_tables mem p4 p3 p2) p4 i = (if i = 0 then p3 OR 3 else 0)"
    "entry_at (boot_page_tables mem p4 p3 p2) p3 i = (if i = 0 then p2 OR 3 else 0)"
proof -
  have al: "frame_aligned p4" "frame_aligned p3" "frame_aligned p2" and ne: "p4 \<noteq> p3" "p4 \<noteq> p2" "p3 \<noteq> p2"
    and z: "entry_at mem p4 i = 0" "entry_at mem p3 i = 0"
    using assms by (auto simp: linked_def ok_frame_def)
  have "\<forall>k \<in> set [0..<512]. k < (512 :: nat)" by auto
  note keep = boot_p2_only [OF al(3) _ _ assms(2) this]
  show "entry_at (boot_page_tables mem p4 p3 p2) p4 i = (if i = 0 then p3 OR 3 else 0)"
    "entry_at (boot_page_tables mem p4 p3 p2) p3 i = (if i = 0 then p2 OR 3 else 0)"
    using al ne ne [symmetric] z assms(2)
    by (simp_all add: boot_page_tables_def Let_def entry_set keep)
qed

lemma boot_system_inv:
  assumes d: "disjoint_map boot" and l: "linked ke p4 p3 p2 mem"
  shows "system_inv (all_frames (phys_init ks ke boot)) (boot_vm ks ke boot p4 p3 p2 mem, [])"
proof -
  let ?vm = "boot_vm ks ke boot p4 p3 p2 mem" and ?fa = "phys_init ks ke boot"
  note ph = phys_init_ok [OF d, of ks ke]
  have pr: "protected_end ke boot \<le> f" if "f \<in> all_frames ?fa" for f
    using all_frames_protected [OF ph(1) that] ph(3) by simp
  have low: "MIN_ALLOC_ADDR \<le> protected_end ke boot" "ke \<le> protected_end ke boot"
    using align_up_ge [of ke] l unfolding linked_def protected_end_def Let_def
    by (auto simp: le_max_iff_disj)
  have "fa_initialized ?fa" by (simp add: phys_init_def Let_def)
  moreover have "0 \<notin> all_frames ?fa"
  proof
    assume "0 \<in> all_frames ?fa"
    from order_trans [OF low(1) pr [OF this]] show False by (simp add: MIN_ALLOC_ADDR_def)
  qed
  ultimately have ok: "frames_ok ?vm" using ph(1) by (simp add: frames_ok_def boot_vm_def)
  have out: "p \<notin> vm_every ?vm" if "p < ke" for p
    using pr [of p] low(2) that by (auto simp: vm_every_def boot_vm_def)
  have f: "ok_frame p4" "ok_frame p3" "ok_frame p2" "p4 < ke" "p3 < ke" using l by (simp_all add: linked_def)
  have fw: "flag_word 3" "\<not> bit (3 :: u64) 2"
    by (simp_all add: flag_word_def ENTRY_ADDR_MASK_def bit_numeral_rec)
  have a: "entry_addr (p3 OR 3) = p3" using f(2) fw(1) by simp
  have nu: "\<not> entry_user (p2 OR 3)" "\<not> entry_user 0"
    using pack_bits(3) [OF f(3), of 3] fw(2) by (simp_all add: entry_flag_bits)
  note be = boot_entries [OF l]
  have "kernel_tables ?vm"
    using f out nu unfolding kernel_tables_def boot_vm_def Let_def
    by (simp add: be a ok_frame_def)
  moreover have "vm_every ?vm = all_frames ?fa" "paging_initialized ?vm" by (simp_all add: vm_every_def boot_vm_def)
  ultimately show ?thesis using ok by (simp add: system_inv_def)
qed

definition booted_system ::
    "u64 \<Rightarrow> u64 \<Rightarrow> BootInfoSummary \<Rightarrow> u64 \<Rightarrow> u64 \<Rightarrow> u64 \<Rightarrow> memory \<Rightarrow> system \<Rightarrow> bool" where
  "booted_system ks ke boot p4 p3 p2 mem \<sigma> \<longleftrightarrow> disjoint_map boot \<and> linked ke p4 p3 p2 mem
     \<and> \<sigma> = (boot_vm ks ke boot p4 p3 p2 mem, [])"

interpretation spaces: invariant_machine "booted_system ks ke boot p4 p3 p2 mem" system_step
    "system_inv (all_frames (phys_init ks ke boot))"
  by unfold_locales (use boot_system_inv system_inv_step in \<open>auto simp: booted_system_def\<close>)

definition system_reachable ::
    "u64 \<Rightarrow> u64 \<Rightarrow> BootInfoSummary \<Rightarrow> u64 \<Rightarrow> u64 \<Rightarrow> u64 \<Rightarrow> memory \<Rightarrow> system \<Rightarrow> bool" where
  "system_reachable ks ke boot p4 p3 p2 mem \<sigma> \<longleftrightarrow> disjoint_map boot \<and> linked ke p4 p3 p2 mem
     \<and> system_step\<^sup>*\<^sup>* (boot_vm ks ke boot p4 p3 p2 mem, []) \<sigma>"

lemma spaces_reachable_inv:
  "system_reachable ks ke boot p4 p3 p2 mem \<sigma> \<Longrightarrow> system_inv (all_frames (phys_init ks ke boot)) \<sigma>"
  by (rule spaces.inv_reachable [of ks ke boot p4 p3 p2 mem])
    (auto simp: booted_system_def system_reachable_def)

lemma reachable_space:
  assumes "system_reachable ks ke boot p4 p3 p2 mem (vm, ss)" and "i < length ss" and "as_active (ss ! i)"
  shows "space_inv vm (ss ! i)" "frames_ok vm"
  using spaces_reachable_inv [OF assms(1)] assms(3) nth_mem [OF assms(2)] by (auto simp: system_inv_def)

section \<open>A small system\<close>

text \<open>
  Twelve frames above a kernel image that ends with its three page tables; one or two address
  spaces with a page each.
\<close>

definition small_vm :: Vm where
  "small_vm = boot_vm 0x100000 0x104000 small_boot 0x101000 0x102000 0x103000 (\<lambda>_. 0)"

definition small_reachable :: "system \<Rightarrow> bool" where
  "small_reachable \<sigma> \<longleftrightarrow>
     system_reachable 0x100000 0x104000 small_boot 0x101000 0x102000 0x103000 (\<lambda>_. 0) \<sigma>"

lemma small_linked: "linked 0x104000 0x101000 0x102000 0x103000 (\<lambda>_. 0)"
  by (simp add: linked_def ok_frame_def frame_aligned_def identity_reachable_def
      BOOT_IDENTITY_MAP_BYTES_def entry_at_def read_u64_def read_u32_def)

lemma small_start: "small_reachable (small_vm, [])"
  by (simp add: small_reachable_def system_reachable_def small_vm_def small_linked small_boot_disjoint)

lemma small_step: "small_reachable \<sigma> \<Longrightarrow> system_step \<sigma> \<tau> \<Longrightarrow> small_reachable \<tau>"
  by (auto simp: small_reachable_def system_reachable_def)

lemma small_every: "small_reachable (vm, ss) \<Longrightarrow> card (vm_every vm) = 12"
proof -
  assume "small_reachable (vm, ss)"
  then have "vm_every vm = all_frames (phys_init 0x100000 0x104000 small_boot)"
    using spaces_reachable_inv by (fastforce simp: small_reachable_def system_inv_def)
  moreover have "unat (allocatable_frames (phys_init 0x100000 0x104000 small_boot)) = 12" by code_simp
  ultimately show ?thesis using phys_init_ok(4) [OF small_boot_disjoint, of "0x100000" "0x104000"] by simp
qed

lemma small_plenty: "plenty 12 small_vm"
proof -
  let ?fa = "phys_init 0x100000 0x104000 small_boot"
  note ph = phys_init_ok [OF small_boot_disjoint, where ks = "0x100000" and ke = "0x104000"]
  have r: "identity_reachable f" if "f \<in> all_frames ?fa" for f
  proof -
    have "unat (stored_region_count (bi_memory small_boot)) = 1"
      "end_addr (ms_regions (bi_memory small_boot) ! 0) = 0x110000" by code_simp+
    with ph(5) [OF that] have "unat f < 0x110000" by auto
    then show ?thesis
      by (simp add: identity_reachable_def BOOT_IDENTITY_MAP_BYTES_def word_less_nat_alt)
  qed
  moreover have "vm_every small_vm = all_frames ?fa" "vm_live small_vm = {}"
    using ph(2) by (simp_all add: vm_every_def vm_live_def small_vm_def boot_vm_def)
  moreover have "card (vm_every small_vm) = 12" using small_every [OF small_start] .
  ultimately show ?thesis by (simp add: plenty_def)
qed

lemma small_inv:
  assumes "small_reachable (vm, ss)"
  shows "frames_ok vm" "kernel_tables vm" "paging_initialized vm"
    "i < length ss \<Longrightarrow> as_active (ss ! i) \<Longrightarrow> space_inv vm (ss ! i)"
  using assms spaces_reachable_inv reachable_space unfolding small_reachable_def by (fastforce simp: system_inv_def)+

text \<open>While there are frames, creation and mapping succeed.\<close>

lemma small_create:
  assumes r: "small_reachable (vm, ss)" and p: "plenty (n + 3) vm"
  obtains s vm' where "small_reachable (vm', ss @ [s])" "plenty n vm'" "as_active s" "pages s = []"
proof -
  from small_inv(1-3) [OF r] show ?thesis
  proof (cases rule: create_spec)
    case (fail e vm')
    with p show ?thesis by blast
  next
    case (success s vm')
    have "small_reachable (vm', ss @ [s])" by (rule small_step [OF r step_create_ok [OF success(1)]])
    then show ?thesis using that success(3,4) success(5) [OF p] by (auto elim!: space_invE)
  qed
qed

lemma user_elf_base: "is_page_aligned USER_ELF_BASE" "in_user_virtual_range USER_ELF_BASE"
  "page_of USER_ELF_BASE = USER_ELF_BASE" by code_simp+

lemma small_map:
  assumes r: "small_reachable (vm, ss)" and p: "plenty 2 vm"
    and i: "i < length ss" "as_active (ss ! i)" "pages (ss ! i) = []"
  obtains f s vm' where "\<And>n. plenty (n + 2) vm \<Longrightarrow> plenty n vm'" "map_user_page vm (ss ! i) USER_ELF_BASE READ_WRITE = (Inr f, s, vm')"
    "small_reachable (vm', ss[i := s])" "as_active s" "pages s = [(USER_ELF_BASE, f, READ_WRITE)]"
proof -
  obtain res s vm' where m: "map_user_page vm (ss ! i) USER_ELF_BASE READ_WRITE = (res, s, vm')" by (metis prod_cases3)
  note sp = small_inv(4) [OF r i(1,2)]
  note t = map_user_page_spec [OF small_inv(1) [OF r] sp m]
  from t(2) i(3) user_elf_base p obtain f where f: "res = Inr f" "pages s = [(USER_ELF_BASE, f, READ_WRITE)]"
    "\<And>n. plenty (n + 2) vm \<Longrightarrow> plenty n vm'"
    by (cases res) (auto simp: MAX_PROCESS_USER_PAGES_def)
  moreover have "as_active s" using t(1) by (auto elim!: space_invE)
  moreover have "small_reachable (vm', ss[i := s])" by (rule small_step [OF r step_map [OF i(1) m]])
  ultimately show ?thesis using m by (intro that [OF f(3), of f s]) auto
qed

lemma small_access:
  assumes "small_reachable (vm, ss)" and "i < length ss" and "as_active (ss ! i)"
    and "pages (ss ! i) = [(USER_ELF_BASE, f, READ_WRITE)]"
  shows "tr_user_accessible (space_translate vm (ss ! i) USER_ELF_BASE)"
  using space_translate_inv [OF small_inv(4) [OF assms(1-3)] user_elf_base(2)] assms(4) user_elf_base(3)
  by (simp add: user_page_def)

section \<open>Properties\<close>

text \<open>
  C3. Isolation. In every reachable system a page that user code of some address space can
  access lies in a frame that is in use, above the protected area of the kernel, holds no page
  table of any address space, and is not accessible from any other address space, whatever the
  user programs have written to their pages.
\<close>

theorem spaces_isolated:
  assumes r: "system_reachable ks ke boot p4 p3 p2 mem (vm, ss)" and i: "i < length ss"
    and u: "tr_user_accessible (space_translate vm (ss ! i) v)"
  shows "let f = page_of (tr_phys (space_translate vm (ss ! i) v)) in
    f \<in> live_frames (vm_frames vm) \<and> protected_end ke boot \<le> f
    \<and> (\<forall>j < length ss. f \<notin> set (tables (ss ! j)))
    \<and> (\<forall>j < length ss. \<forall>w. j \<noteq> i \<longrightarrow> tr_user_accessible (space_translate vm (ss ! j) w) \<longrightarrow>
         page_of (tr_phys (space_translate vm (ss ! j) w)) \<noteq> f)"
proof -
  let ?f = "page_of (tr_phys (space_translate vm (ss ! i) v))"
  note inv = spaces_reachable_inv [OF r]
  have act: "as_active (ss ! k)" if "tr_user_accessible (space_translate vm (ss ! k) x)" for k x
    using that by (auto simp: space_translate_def unmapped_def split: if_splits)
  note s = reachable_space [OF r i act [OF u]]
  from s(1) u obtain w f p where f: "f \<in> owned (ss ! i)" "f \<notin> set (tables (ss ! i))" "?f = f"
    by (rule space_accessible)
  have dis: "owned (ss ! j) \<inter> owned (ss ! i) = {}" if "j < length ss" "j \<noteq> i" for j
    using inv i that by (simp add: system_inv_def)
  have live: "f \<in> vm_live vm" using f(1) s(1) by (auto elim!: space_invE)
  have "f \<in> all_frames (phys_init ks ke boot)"
    using vm_live_every [OF s(2) live] inv by (simp add: system_inv_def)
  moreover have "disjoint_map boot" using r by (simp add: system_reachable_def)
  note ph = phys_init_ok [OF this, of ks ke]
  ultimately have "protected_end ke boot \<le> f" using all_frames_protected [OF ph(1)] ph(3) by simp
  moreover have "f \<notin> set (tables (ss ! j))" if "j < length ss" for j
    using f(1,2) dis [OF that] by (cases "j = i") (auto simp: owned_def)
  moreover have "page_of (tr_phys (space_translate vm (ss ! j) x)) \<noteq> f"
    if j: "j < length ss" "j \<noteq> i" "tr_user_accessible (space_translate vm (ss ! j) x)" for j x
    using reachable_space(1) [OF r j(1) act [OF j(3)]] j(3)
    by (rule space_accessible) (use dis [OF j(1,2)] f(1) in auto)
  ultimately show ?thesis using live f(3) by (simp add: vm_live_def Let_def)
qed

theorem spaces_isolated_witness:
  "\<exists>vm s t. system_reachable 0x100000 0x104000 small_boot 0x101000 0x102000 0x103000 (\<lambda>_. 0) (vm, [s, t])
     \<and> tr_user_accessible (space_translate vm s USER_ELF_BASE)
     \<and> tr_user_accessible (space_translate vm t USER_ELF_BASE)
     \<and> page_of (tr_phys (space_translate vm s USER_ELF_BASE))
       \<noteq> page_of (tr_phys (space_translate vm t USER_ELF_BASE))"
proof -
  obtain s1 vm1 where 1: "small_reachable (vm1, [s1])" "plenty 9 vm1" "as_active s1" "pages s1 = []"
    by (rule small_create [OF small_start, of 9]) (use small_plenty in auto)
  obtain t1 vm2 where 2: "small_reachable (vm2, [s1, t1])" "plenty 6 vm2" "as_active t1" "pages t1 = []"
    by (rule small_create [OF 1(1), of 6]) (use 1(2) in auto)
  obtain f s2 vm3 where 3: "small_reachable (vm3, [s2, t1])" "plenty 4 vm3" "as_active s2"
    "pages s2 = [(USER_ELF_BASE, f, READ_WRITE)]"
    by (rule small_map [OF 2(1) plenty_mono [OF 2(2)], of 0]) (use 1 2(2) in auto)
  obtain g t2 vm4 where 4: "small_reachable (vm4, [s2, t2])" "as_active t2"
    "pages t2 = [(USER_ELF_BASE, g, READ_WRITE)]"
    by (rule small_map [OF 3(1) plenty_mono [OF 3(2)], of 1]) (use 2 in auto)
  have a: "tr_user_accessible (space_translate vm4 s2 USER_ELF_BASE)"
    "tr_user_accessible (space_translate vm4 t2 USER_ELF_BASE)"
    using small_access [OF 4(1), of 0] small_access [OF 4(1), of 1] 3 4 by simp_all
  have "page_of (tr_phys (space_translate vm4 ([s2, t2] ! 1) USER_ELF_BASE))
      \<noteq> page_of (tr_phys (space_translate vm4 ([s2, t2] ! 0) USER_ELF_BASE))"
    using spaces_isolated [OF 4(1) [unfolded small_reachable_def], of 0 USER_ELF_BASE] a
    unfolding Let_def by (auto dest!: spec [of _ "1 :: nat"])
  with a 4(1) show ?thesis unfolding small_reachable_def by (intro exI [of _ vm4] exI [of _ s2] exI [of _ t2]) auto
qed

text \<open>
  C30. An address space implements a finite map from user pages to frames with permissions.
  In every reachable system, translation of a user address is the lookup of its page in the
  map, and \<open>map_user_page\<close> either reports an error, exactly the one of the first check that
  fails or one of the two allocation errors, and leaves the map as it was, or extends the map
  by one entry whose frame was not in use and is filled with zeros. The allocation errors are
  only reported when fewer than two frames are free or some frame lies above the identity map,
  and the table capacity error never.
\<close>

theorem space_refines_map:
  assumes r: "system_reachable ks ke boot p4 p3 p2 mem (vm, ss)" and i: "i < length ss"
    and a: "as_active (ss ! i)"
  shows "(\<forall>w. in_user_virtual_range w \<longrightarrow> space_translate vm (ss ! i) w =
      (case map_of (pages (ss ! i)) (page_of w) of None \<Rightarrow> unmapped w | Some (f, p) \<Rightarrow> user_page w f p))
    \<and> (case map_user_page vm (ss ! i) v p of (res, s, vm') \<Rightarrow>
        if \<not> is_page_aligned v then res = Inl SpaceVirtualUnaligned \<and> s = ss ! i \<and> vm' = vm
        else if \<not> in_user_virtual_range v then res = Inl OutsideUserRange \<and> s = ss ! i \<and> vm' = vm
        else if length (pages (ss ! i)) = MAX_PROCESS_USER_PAGES
        then res = Inl PageCapacityExceeded \<and> s = ss ! i \<and> vm' = vm
        else if map_of (pages (ss ! i)) v \<noteq> None then res = Inl SpaceAlreadyMapped \<and> s = ss ! i \<and> vm' = vm
        else case res of
          Inl e \<Rightarrow> e \<in> {SpaceOutOfFrames, SpacePhysicalNotIdentityMapped} \<and> \<not> plenty 2 vm
            \<and> map_of (pages s) = map_of (pages (ss ! i))
        | Inr f \<Rightarrow> f \<notin> live_frames (vm_frames vm) \<and> (\<forall>k < 512. entry_at (vm_phys vm') f k = 0)
            \<and> map_of (pages s) = (map_of (pages (ss ! i)))(v \<mapsto> (f, p)))"
proof (intro conjI allI impI)
  note s = reachable_space [OF r i a]
  fix w assume "in_user_virtual_range w"
  then show "space_translate vm (ss ! i) w =
      (case map_of (pages (ss ! i)) (page_of w) of None \<Rightarrow> unmapped w | Some (f, p) \<Rightarrow> user_page w f p)"
    by (rule space_translate_inv [OF s(1)])
next
  note s = reachable_space [OF r i a]
  obtain res s' vm' where m: "map_user_page vm (ss ! i) v p = (res, s', vm')" by (metis prod_cases3)
  have dom: "v \<in> fst ` set (pages (ss ! i)) \<longleftrightarrow> map_of (pages (ss ! i)) v \<noteq> None"
    by (simp add: map_of_eq_None_iff)
  have upd: "[v \<mapsto> fp] ++ map_of (pages (ss ! i)) = (map_of (pages (ss ! i)))(v \<mapsto> fp)"
    if "\<forall>a b. map_of (pages (ss ! i)) v \<noteq> Some (a, b)" for fp
    using that by (auto simp: map_add_def split: option.splits)
  show "case map_user_page vm (ss ! i) v p of (res, s, vm') \<Rightarrow>
        if \<not> is_page_aligned v then res = Inl SpaceVirtualUnaligned \<and> s = ss ! i \<and> vm' = vm
        else if \<not> in_user_virtual_range v then res = Inl OutsideUserRange \<and> s = ss ! i \<and> vm' = vm
        else if length (pages (ss ! i)) = MAX_PROCESS_USER_PAGES
        then res = Inl PageCapacityExceeded \<and> s = ss ! i \<and> vm' = vm
        else if map_of (pages (ss ! i)) v \<noteq> None then res = Inl SpaceAlreadyMapped \<and> s = ss ! i \<and> vm' = vm
        else case res of
          Inl e \<Rightarrow> e \<in> {SpaceOutOfFrames, SpacePhysicalNotIdentityMapped} \<and> \<not> plenty 2 vm
            \<and> map_of (pages s) = map_of (pages (ss ! i))
        | Inr f \<Rightarrow> f \<notin> live_frames (vm_frames vm) \<and> (\<forall>k < 512. entry_at (vm_phys vm') f k = 0)
            \<and> map_of (pages s) = (map_of (pages (ss ! i)))(v \<mapsto> (f, p))"
    using map_user_page_spec(2) [OF s(2,1) m] m unfolding dom
    by (cases res; simp add: map_errors_def vm_live_def upd split: if_splits)
qed

theorem space_refines_map_witness:
  "\<exists>vm s. system_reachable 0x100000 0x104000 small_boot 0x101000 0x102000 0x103000 (\<lambda>_. 0) (vm, [s])
     \<and> as_active s \<and> plenty 2 vm
     \<and> (\<exists>f s' vm'. map_user_page vm s USER_ELF_BASE READ_WRITE = (Inr f, s', vm')
          \<and> f \<notin> live_frames (vm_frames vm) \<and> map_of (pages s') USER_ELF_BASE = Some (f, READ_WRITE))"
proof -
  obtain s vm where s: "small_reachable (vm, [s])" "plenty 9 vm" "as_active s" "pages s = []"
    by (rule small_create [OF small_start, of 9]) (use small_plenty in auto)
  have p: "plenty 2 vm" using plenty_mono [OF s(2)] by simp
  obtain res s' vm' where m: "map_user_page vm s USER_ELF_BASE READ_WRITE = (res, s', vm')" by (metis prod_cases3)
  have "\<exists>f. res = Inr f \<and> f \<notin> live_frames (vm_frames vm) \<and> map_of (pages s') USER_ELF_BASE = Some (f, READ_WRITE)"
    using space_refines_map [OF s(1) [unfolded small_reachable_def], of 0 USER_ELF_BASE READ_WRITE]
      s p m user_elf_base
    by (cases res) (simp_all add: MAX_PROCESS_USER_PAGES_def)
  with s(1,3) p m show ?thesis unfolding small_reachable_def by blast
qed

text \<open>
  Destroying an address space that is not the active one gives back every frame it owns:
  when the allocator has room to take them, exactly the frames of its pages and tables leave
  use, the report counts both and is complete, and the space is empty; the active space is
  refused without any change, and a space that was never active is left alone.
\<close>

theorem destroy_returns_frames:
  assumes r: "system_reachable ks ke boot p4 p3 p2 mem (vm, ss)" and i: "i < length ss"
    and room: "length (pages (ss ! i)) + length (tables (ss ! i)) + fa_recycled_count (vm_frames vm)
      \<le> MAX_RECYCLED_FRAMES"
  shows "case destroy vm (ss ! i) of (res, s, vm') \<Rightarrow>
    if \<not> as_active (ss ! i)
    then res = Inr \<lparr>user_frames_freed = 0, table_frames_freed = 0, complete = True\<rparr> \<and> s = ss ! i \<and> vm' = vm
    else if vm_cr3 vm = root_frame (ss ! i) then res = Inl ActiveAddressSpace \<and> s = ss ! i \<and> vm' = vm
    else res = Inr \<lparr>user_frames_freed = of_nat (length (pages (ss ! i))),
               table_frames_freed = of_nat (length (tables (ss ! i))), complete = True\<rparr>
      \<and> s = AddressSpace_empty
      \<and> live_frames (vm_frames vm') = live_frames (vm_frames vm) - owned (ss ! i)
      \<and> owned (ss ! i) \<subseteq> live_frames (vm_frames vm)"
proof (cases "as_active (ss ! i) \<and> vm_cr3 vm \<noteq> root_frame (ss ! i)")
  case False
  then show ?thesis by (auto simp: destroy_def)
next
  case True
  note s = reachable_space [OF r i conjunct1 [OF True]]
  have rm: "length (frames_of (ss ! i)) \<le> vm_room vm" using room by (simp add: frames_of_def vm_room_def)
  have own: "owned (ss ! i) \<subseteq> vm_live vm" using s(1) by (rule space_invE)
  from s(2,1) conjunct2 [OF True] show ?thesis
    by (rule destroy_spec) (use rm True own in \<open>simp add: vm_live_def\<close>)
qed

lemma recycled_bound: "frames_ok vm \<Longrightarrow> fa_recycled_count (vm_frames vm) \<le> card (vm_every vm)"
proof -
  assume "frames_ok vm"
  then have inv: "phys_inv (vm_frames vm)" by (simp add: frames_ok_def)
  note d = phys_invD [OF inv]
  have "set (recycled (vm_frames vm)) \<subseteq> vm_every vm"
    using d(3) issued_props(3) [OF d(1)] by (auto simp: vm_every_def)
  then have "card (set (recycled (vm_frames vm))) \<le> card (vm_every vm)" by (simp add: card_mono)
  with d(4,5) show ?thesis by (simp add: distinct_card)
qed

theorem destroy_returns_frames_witness:
  "\<exists>vm s. system_reachable 0x100000 0x104000 small_boot 0x101000 0x102000 0x103000 (\<lambda>_. 0) (vm, [s])
     \<and> (\<exists>f vm'. pages s = [(USER_ELF_BASE, f, READ_WRITE)] \<and> f \<in> live_frames (vm_frames vm)
          \<and> snd (destroy (vm\<lparr>vm_cr3 := 0\<rparr>) s) = (AddressSpace_empty, vm')
          \<and> f \<notin> live_frames (vm_frames vm'))"
proof -
  obtain s1 vm1 where 1: "small_reachable (vm1, [s1])" "plenty 9 vm1" "as_active s1" "pages s1 = []"
    by (rule small_create [OF small_start, of 9]) (use small_plenty in auto)
  obtain f s vm2 where 2: "small_reachable (vm2, [s])" "as_active s" "pages s = [(USER_ELF_BASE, f, READ_WRITE)]"
    by (rule small_map [OF 1(1) plenty_mono [OF 1(2)], of 0]) (use 1 in auto)
  let ?vm = "vm2\<lparr>vm_cr3 := 0\<rparr>"
  have r: "small_reachable (?vm, [s])" by (rule small_step [OF 2(1) step_switch])
  have inv: "frames_ok ?vm" "space_inv ?vm s" using small_inv(1,4) [OF r] 2(2) by force+
  have "arrays_ok s" "root_frame s \<noteq> 0"
    using inv(2) frames_layoutD(4) unfolding space_inv_def layout_def by blast+
  then have t: "length (tables s) \<le> 16" "vm_cr3 ?vm \<noteq> root_frame s"
    by (simp_all add: tables_def arrays_ok_def MAX_PROCESS_TABLE_FRAMES_def)
  have "fa_recycled_count (vm_frames ?vm) \<le> 12" using recycled_bound [OF inv(1)] small_every [OF r] by simp
  with t have room: "length (pages ([s] ! 0)) + length (tables ([s] ! 0)) + fa_recycled_count (vm_frames ?vm)
      \<le> MAX_RECYCLED_FRAMES" using 2(3) by (simp add: MAX_RECYCLED_FRAMES_def)
  have f: "f \<in> owned s" using 2(3) by (simp add: owned_def)
  obtain res s' vm' where d: "destroy ?vm s = (res, s', vm')" by (metis prod_cases3)
  from destroy_returns_frames [OF r [unfolded small_reachable_def] _ room] d t(2) 2(2)
  have "s' = AddressSpace_empty" "live_frames (vm_frames vm') = live_frames (vm_frames vm2) - owned s"
    "owned s \<subseteq> live_frames (vm_frames vm2)" by simp_all
  with 2 f d show ?thesis unfolding small_reachable_def by (intro exI [of _ vm2] exI [of _ s]) auto
qed

end
