(* ===== verification/Heap.thy ===== *)
theory Heap
  imports Page_Mapper
begin

unbundle bit_operations_syntax

text \<open>
  The kernel heap, \<^verbatim>\<open>src/src/heap.rs\<close>: a first-fit allocator over a table of at most 96 block
  descriptors, with splitting, coalescing, canaries around every allocation and a ring of
  recently freed addresses. The heap window is a byte-addressed memory of its own, a field of
  the state: its pages are mapped at initialisation and never change afterwards. Array loops
  run over the indices of the descriptor table, which has \<open>MAX_BLOCKS\<close> entries.
\<close>

section \<open>Constants and data\<close>

definition HEAP_BASE :: u64 where "HEAP_BASE = KERNEL_HEAP_BASE"
definition HEAP_SIZE :: u64 where "HEAP_SIZE = KERNEL_HEAP_SIZE"
definition HEAP_PAGES :: u64 where "HEAP_PAGES = HEAP_SIZE div PAGE_SIZE_4K"
definition GUARD_LOW :: u64 where "GUARD_LOW = KERNEL_HEAP_GUARD_LOW"
definition GUARD_HIGH :: u64 where "GUARD_HIGH = KERNEL_HEAP_GUARD_HIGH"

definition HEAP_SENTINEL_BYTES :: u64 where "HEAP_SENTINEL_BYTES = 64"
definition HEAP_CANARY_HEAD :: u64 where "HEAP_CANARY_HEAD = 0x544f424143434f48"
definition HEAP_CANARY_TAIL :: u64 where "HEAP_CANARY_TAIL = 0x484541505f4f4b21"
definition BLOCK_MAGIC :: u64 where "BLOCK_MAGIC = 0x48424c4f434b3031"
definition ALLOC_CANARY_HEAD :: u64 where "ALLOC_CANARY_HEAD = 0x4845415048454144"
definition ALLOC_CANARY_TAIL :: u64 where "ALLOC_CANARY_TAIL = 0x484541505441494c"
definition ALLOC_CANARY_BYTES :: u64 where "ALLOC_CANARY_BYTES = 8"
definition MIN_SPLIT_BYTES :: u64 where "MIN_SPLIT_BYTES = 32"
definition MAX_BLOCKS :: nat where "MAX_BLOCKS = 96"
definition RECENT_FREE_COUNT :: nat where "RECENT_FREE_COUNT = 16"
definition MAX_ALIGNMENT :: u64 where "MAX_ALIGNMENT = PAGE_SIZE_4K"

lemmas heap_consts = HEAP_SIZE_def KERNEL_HEAP_SIZE_def HEAP_SENTINEL_BYTES_def ALLOC_CANARY_BYTES_def
  MIN_SPLIT_BYTES_def MAX_ALIGNMENT_def PAGE_SIZE_4K_def HEAP_PAGES_def

record HeapSnapshot =
  hs_initialized :: bool
  hs_base :: u64
  hs_size :: u64
  hs_used :: u64
  hs_remaining :: u64
  hs_mapped_pages :: u64
  hs_allocations :: u64
  hs_frees :: u64
  hs_failed_allocations :: u64
  hs_failed_frees :: u64
  hs_double_frees :: u64
  hs_invalid_frees :: u64
  hs_coalesces :: u64
  hs_active_allocations :: u64
  hs_free_blocks :: u64
  hs_metadata_blocks :: u64
  hs_metadata_capacity :: u64
  hs_allocated_bytes :: u64
  hs_free_bytes :: u64
  hs_largest_free_block :: u64
  hs_high_watermark :: u64
  hs_corruption_checks :: u64
  hs_corruption_failures :: u64
  hs_corruption_detections :: u64
  hs_metadata_ok :: bool
  hs_sentinel_ok :: bool
  hs_allocation_canaries_ok :: bool
  hs_guard_low :: u64
  hs_guard_high :: u64

datatype FreeError = HeapNotInitialized | InvalidPointer | DoubleFree | Corruption

record HeapBlock =
  bl_magic :: u64
  bl_offset :: u64
  bl_size :: u64
  bl_payload_offset :: u64
  bl_requested_size :: u64
  bl_alignment :: u64
  bl_allocated :: bool
  bl_active :: bool

definition HeapBlock_empty :: HeapBlock where
  "HeapBlock_empty = \<lparr>bl_magic = 0, bl_offset = 0, bl_size = 0, bl_payload_offset = 0,
     bl_requested_size = 0, bl_alignment = 0, bl_allocated = False, bl_active = False\<rparr>"

definition HeapBlock_free :: "u64 \<Rightarrow> u64 \<Rightarrow> HeapBlock" where
  "HeapBlock_free offset sz = \<lparr>bl_magic = BLOCK_MAGIC, bl_offset = offset, bl_size = sz,
     bl_payload_offset = 0, bl_requested_size = 0, bl_alignment = 0, bl_allocated = False,
     bl_active = True\<rparr>"

definition block_end :: "HeapBlock \<Rightarrow> u64" where
  "block_end b = sat_add (bl_offset b) (bl_size b)"

definition payload_end :: "HeapBlock \<Rightarrow> u64" where
  "payload_end b = sat_add (bl_payload_offset b) (bl_requested_size b)"

record HeapStats =
  hst_allocated_bytes :: u64
  hst_free_bytes :: u64
  hst_largest_free_block :: u64
  hst_active_allocations :: u64
  hst_free_blocks :: u64
  hst_metadata_blocks :: u64
  hst_metadata_ok :: bool
  hst_allocation_canaries_ok :: bool

record KernelHeap =
  kh_canary_head :: u64
  kh_initialized :: bool
  kh_mapped_pages :: u64
  kh_allocations :: u64
  kh_frees :: u64
  kh_failed_allocations :: u64
  kh_failed_frees :: u64
  kh_double_frees :: u64
  kh_invalid_frees :: u64
  kh_coalesces :: u64
  kh_high_watermark :: u64
  kh_corruption_checks :: u64
  kh_corruption_failures :: u64
  kh_corruption_detections :: u64
  kh_blocks :: "HeapBlock list"
  kh_recent_frees :: "u64 list"
  kh_recent_free_index :: nat
  kh_canary_tail :: u64
  kh_memory :: memory

definition KernelHeap_new :: "memory \<Rightarrow> KernelHeap" where
  "KernelHeap_new mem = \<lparr>kh_canary_head = HEAP_CANARY_HEAD, kh_initialized = False,
     kh_mapped_pages = 0, kh_allocations = 0, kh_frees = 0, kh_failed_allocations = 0,
     kh_failed_frees = 0, kh_double_frees = 0, kh_invalid_frees = 0, kh_coalesces = 0,
     kh_high_watermark = 0, kh_corruption_checks = 0, kh_corruption_failures = 0,
     kh_corruption_detections = 0, kh_blocks = replicate MAX_BLOCKS HeapBlock_empty,
     kh_recent_frees = replicate RECENT_FREE_COUNT 0, kh_recent_free_index = 0,
     kh_canary_tail = HEAP_CANARY_TAIL, kh_memory = mem\<rparr>"

definition heap_align_up :: "u64 \<Rightarrow> u64 \<Rightarrow> u64" where
  "heap_align_up v align = sat_add v (align - 1) AND NOT (align - 1)"

definition ranges_overlap :: "u64 \<Rightarrow> u64 \<Rightarrow> u64 \<Rightarrow> u64 \<Rightarrow> bool" where
  "ranges_overlap left_start left_end right_start right_end \<longleftrightarrow>
     left_start < right_end \<and> right_start < left_end"

section \<open>Canaries and sentinel\<close>

definition sentinel_byte :: "nat \<Rightarrow> u8" where
  "sentinel_byte index = 0x5a XOR (of_nat index * 17)"

definition write_sentinel :: "KernelHeap \<Rightarrow> KernelHeap" where
  "write_sentinel h = h\<lparr>kh_memory :=
     fold (\<lambda>index mem. mem(HEAP_BASE + of_nat index := sentinel_byte index))
       [0..<unat HEAP_SENTINEL_BYTES] (kh_memory h)\<rparr>"

definition sentinel_ok :: "KernelHeap \<Rightarrow> bool" where
  "sentinel_ok h =
     (if \<not> kh_initialized h \<or> kh_mapped_pages h \<noteq> HEAP_PAGES then False
      else list_all (\<lambda>index. kh_memory h (HEAP_BASE + of_nat index) = sentinel_byte index)
             [0..<unat HEAP_SENTINEL_BYTES])"

definition write_allocation_canaries :: "KernelHeap \<Rightarrow> nat \<Rightarrow> KernelHeap" where
  "write_allocation_canaries h index =
     (let block = kh_blocks h ! index;
          mem = write_u64 (kh_memory h)
                  (sat_sub (sat_add HEAP_BASE (bl_payload_offset block)) ALLOC_CANARY_BYTES)
                  ALLOC_CANARY_HEAD;
          mem = write_u64 mem (sat_add HEAP_BASE (payload_end block)) ALLOC_CANARY_TAIL
      in h\<lparr>kh_memory := mem\<rparr>)"

definition allocation_canaries_ok :: "KernelHeap \<Rightarrow> nat \<Rightarrow> bool" where
  "allocation_canaries_ok h index =
     (let block = kh_blocks h ! index
      in if \<not> bl_active block \<or> \<not> bl_allocated block then False
         else read_u64 (kh_memory h)
                (sat_sub (sat_add HEAP_BASE (bl_payload_offset block)) ALLOC_CANARY_BYTES)
                = ALLOC_CANARY_HEAD
              \<and> read_u64 (kh_memory h) (sat_add HEAP_BASE (payload_end block)) = ALLOC_CANARY_TAIL)"

section \<open>Statistics\<close>

text \<open>The checks that \<open>compute_stats\<close> makes of one active block.\<close>

definition shape_ok :: "HeapBlock \<Rightarrow> bool" where
  "shape_ok block \<longleftrightarrow>
     sat_add (bl_offset block) ALLOC_CANARY_BYTES \<le> bl_payload_offset block
     \<and> sat_add (payload_end block) ALLOC_CANARY_BYTES \<le> block_end block
     \<and> ALLOC_CANARY_BYTES \<le> bl_alignment block
     \<and> is_power_of_two (bl_alignment block)
     \<and> bl_payload_offset block mod bl_alignment block = 0"

definition stats_block :: "KernelHeap \<Rightarrow> nat \<Rightarrow> HeapStats \<times> u64 \<Rightarrow> HeapStats \<times> u64" where
  "stats_block h index sc =
     (case sc of (stats, covered_bytes) \<Rightarrow>
      let block = kh_blocks h ! index
      in if \<not> bl_active block then (stats, covered_bytes)
      else
        let stats = stats\<lparr>hst_metadata_blocks := sat_add (hst_metadata_blocks stats) 1\<rparr>;
            covered_bytes = sat_add covered_bytes (bl_size block);
            stats = (if bl_magic block \<noteq> BLOCK_MAGIC \<or> bl_size block = 0
                        \<or> bl_offset block < HEAP_SENTINEL_BYTES \<or> HEAP_SIZE < block_end block
                     then stats\<lparr>hst_metadata_ok := False\<rparr> else stats);
            stats = (if list_ex (\<lambda>other_index.
                          let other = kh_blocks h ! other_index
                          in bl_active other
                             \<and> ranges_overlap (bl_offset block) (block_end block)
                                 (bl_offset other) (block_end other))
                        [index + 1..<MAX_BLOCKS]
                     then stats\<lparr>hst_metadata_ok := False\<rparr> else stats)
        in if bl_allocated block then
             let stats = stats\<lparr>hst_active_allocations := sat_add (hst_active_allocations stats) 1,
                               hst_allocated_bytes :=
                                 sat_add (hst_allocated_bytes stats) (bl_requested_size block)\<rparr>;
                 stats = (if \<not> shape_ok block
                          then stats\<lparr>hst_metadata_ok := False, hst_allocation_canaries_ok := False\<rparr>
                          else if \<not> allocation_canaries_ok h index
                          then stats\<lparr>hst_allocation_canaries_ok := False\<rparr>
                          else stats)
             in (stats, covered_bytes)
           else
             (stats\<lparr>hst_free_blocks := sat_add (hst_free_blocks stats) 1,
                    hst_free_bytes := sat_add (hst_free_bytes stats) (bl_size block),
                    hst_largest_free_block := max (hst_largest_free_block stats) (bl_size block)\<rparr>,
              covered_bytes))"

definition compute_stats :: "KernelHeap \<Rightarrow> HeapStats" where
  "compute_stats h =
     (let (stats, covered_bytes) = fold (stats_block h) [0..<MAX_BLOCKS]
            (\<lparr>hst_allocated_bytes = 0, hst_free_bytes = 0, hst_largest_free_block = 0,
              hst_active_allocations = 0, hst_free_blocks = 0, hst_metadata_blocks = 0,
              hst_metadata_ok = True, hst_allocation_canaries_ok = True\<rparr>, 0);
          stats = (if kh_initialized h \<and> covered_bytes \<noteq> sat_sub HEAP_SIZE HEAP_SENTINEL_BYTES
                   then stats\<lparr>hst_metadata_ok := False\<rparr> else stats)
      in if of_nat MAX_BLOCKS < hst_metadata_blocks stats
            \<or> HEAP_SIZE < sat_add (hst_allocated_bytes stats) (hst_free_bytes stats)
         then stats\<lparr>hst_metadata_ok := False\<rparr> else stats)"

definition metadata_ok :: "KernelHeap \<Rightarrow> HeapStats \<Rightarrow> bool" where
  "metadata_ok h stats \<longleftrightarrow> kh_canary_head h = HEAP_CANARY_HEAD \<and> kh_canary_tail h = HEAP_CANARY_TAIL
     \<and> kh_mapped_pages h \<le> HEAP_PAGES \<and> (\<not> kh_initialized h \<or> kh_mapped_pages h = HEAP_PAGES)
     \<and> hst_metadata_ok stats"

definition heap_snapshot :: "KernelHeap \<Rightarrow> HeapSnapshot" where
  "heap_snapshot h =
     (let stats = compute_stats h
      in \<lparr>hs_initialized = kh_initialized h, hs_base = HEAP_BASE, hs_size = HEAP_SIZE,
          hs_used = hst_allocated_bytes stats, hs_remaining = hst_free_bytes stats,
          hs_mapped_pages = kh_mapped_pages h, hs_allocations = kh_allocations h,
          hs_frees = kh_frees h, hs_failed_allocations = kh_failed_allocations h,
          hs_failed_frees = kh_failed_frees h, hs_double_frees = kh_double_frees h,
          hs_invalid_frees = kh_invalid_frees h, hs_coalesces = kh_coalesces h,
          hs_active_allocations = hst_active_allocations stats,
          hs_free_blocks = hst_free_blocks stats, hs_metadata_blocks = hst_metadata_blocks stats,
          hs_metadata_capacity = of_nat MAX_BLOCKS,
          hs_allocated_bytes = hst_allocated_bytes stats, hs_free_bytes = hst_free_bytes stats,
          hs_largest_free_block = hst_largest_free_block stats,
          hs_high_watermark = kh_high_watermark h,
          hs_corruption_checks = kh_corruption_checks h,
          hs_corruption_failures = kh_corruption_failures h,
          hs_corruption_detections = kh_corruption_detections h,
          hs_metadata_ok = metadata_ok h stats, hs_sentinel_ok = sentinel_ok h,
          hs_allocation_canaries_ok = hst_allocation_canaries_ok stats,
          hs_guard_low = GUARD_LOW, hs_guard_high = GUARD_HIGH\<rparr>)"

section \<open>Allocation\<close>

definition reset_allocator :: "KernelHeap \<Rightarrow> KernelHeap" where
  "reset_allocator h =
     write_sentinel
       (h\<lparr>kh_blocks := (replicate MAX_BLOCKS HeapBlock_empty)
            [0 := HeapBlock_free HEAP_SENTINEL_BYTES (sat_sub HEAP_SIZE HEAP_SENTINEL_BYTES)],
          kh_recent_frees := replicate RECENT_FREE_COUNT 0, kh_recent_free_index := 0,
          kh_high_watermark := 0\<rparr>)"

definition free_metadata_slot :: "HeapBlock list \<Rightarrow> nat option" where
  "free_metadata_slot bs = position (\<lambda>b. \<not> bl_active b) bs"

definition fail_allocation :: "KernelHeap \<Rightarrow> u64 option \<times> KernelHeap" where
  "fail_allocation h = (None, h\<lparr>kh_failed_allocations := sat_add (kh_failed_allocations h) 1\<rparr>)"

text \<open>The part of the loop body of \<open>alloc\<close> after a block has been found to fit.\<close>

definition take_block :: "KernelHeap \<Rightarrow> nat \<Rightarrow> u64 \<Rightarrow> u64 \<Rightarrow> u64 \<Rightarrow> u64 \<Rightarrow> u64 option \<times> KernelHeap" where
  "take_block h index sz effective_align payload_offset used_end =
     (let block = kh_blocks h ! index;
          remainder = sat_sub (block_end block) used_end;
          allocated_size = (if MIN_SPLIT_BYTES \<le> remainder then sat_sub used_end (bl_offset block)
                            else bl_size block);
          bs = (kh_blocks h)[index := \<lparr>bl_magic = BLOCK_MAGIC, bl_offset = bl_offset block,
                  bl_size = allocated_size, bl_payload_offset = payload_offset,
                  bl_requested_size = sz, bl_alignment = effective_align, bl_allocated = True,
                  bl_active = True\<rparr>];
          bs = (if MIN_SPLIT_BYTES \<le> remainder
                then (case free_metadata_slot bs of
                        Some slot \<Rightarrow> bs[slot := HeapBlock_free used_end remainder]
                      | None \<Rightarrow> bs[index := (bs ! index)\<lparr>bl_size := bl_size block\<rparr>])
                else bs);
          h = write_allocation_canaries (h\<lparr>kh_blocks := bs\<rparr>) index;
          h = h\<lparr>kh_allocations := sat_add (kh_allocations h) 1\<rparr>;
          used = hst_allocated_bytes (compute_stats h);
          h = h\<lparr>kh_high_watermark := max (kh_high_watermark h) used\<rparr>
      in (Some (sat_add HEAP_BASE payload_offset), h))"

fun alloc_loop :: "KernelHeap \<Rightarrow> u64 \<Rightarrow> u64 \<Rightarrow> nat list \<Rightarrow> u64 option \<times> KernelHeap" where
  "alloc_loop h sz effective_align [] = fail_allocation h"
| "alloc_loop h sz effective_align (index # rest) =
     (let block = kh_blocks h ! index
      in if \<not> bl_active block \<or> bl_allocated block then alloc_loop h sz effective_align rest
      else
        let payload_offset = heap_align_up (sat_add (bl_offset block) ALLOC_CANARY_BYTES) effective_align;
            used_end = sat_add (sat_add payload_offset sz) ALLOC_CANARY_BYTES
        in if block_end block < used_end then alloc_loop h sz effective_align rest
           else take_block h index sz effective_align payload_offset used_end)"

definition heap_alloc :: "KernelHeap \<Rightarrow> u64 \<Rightarrow> u64 \<Rightarrow> u64 option \<times> KernelHeap" where
  "heap_alloc h sz align =
     (if \<not> kh_initialized h \<or> \<not> metadata_ok h (compute_stats h) \<or> sz = 0 then fail_allocation h
      else if align = 0 \<or> \<not> is_power_of_two align \<or> MAX_ALIGNMENT < align then fail_allocation h
      else alloc_loop h sz (max align ALLOC_CANARY_BYTES) [0..<MAX_BLOCKS])"

section \<open>Release\<close>

definition find_allocated_block :: "KernelHeap \<Rightarrow> u64 \<Rightarrow> nat option" where
  "find_allocated_block h address =
     (case checked_sub address HEAP_BASE of
        None \<Rightarrow> None
      | Some offset \<Rightarrow>
          position (\<lambda>b. bl_active b \<and> bl_allocated b \<and> bl_payload_offset b = offset) (kh_blocks h))"

definition add_recent_free :: "KernelHeap \<Rightarrow> u64 \<Rightarrow> KernelHeap" where
  "add_recent_free h address =
     h\<lparr>kh_recent_frees := (kh_recent_frees h)[kh_recent_free_index h := address],
       kh_recent_free_index := (kh_recent_free_index h + 1) mod RECENT_FREE_COUNT\<rparr>"

definition was_recently_freed :: "KernelHeap \<Rightarrow> u64 \<Rightarrow> bool" where
  "was_recently_freed h address =
     (if address = 0 then False else list_ex (\<lambda>freed. freed = address) (kh_recent_frees h))"

text \<open>
  The two nested loops of \<open>coalesce_free_blocks\<close> up to their \<open>break\<close>: the descriptors after the
  first merge they find.
\<close>

fun merge_right :: "HeapBlock list \<Rightarrow> nat \<Rightarrow> nat list \<Rightarrow> HeapBlock list option" where
  "merge_right bs left [] = None"
| "merge_right bs left (right # rest) =
     (if left = right \<or> \<not> bl_active (bs ! right) \<or> bl_allocated (bs ! right)
      then merge_right bs left rest
      else if block_end (bs ! left) = bl_offset (bs ! right)
      then Some (bs[left := (bs ! left)\<lparr>bl_size := sat_add (bl_size (bs ! left)) (bl_size (bs ! right))\<rparr>,
                    right := HeapBlock_empty])
      else if block_end (bs ! right) = bl_offset (bs ! left)
      then Some (bs[left := (bs ! left)\<lparr>bl_offset := bl_offset (bs ! right),
                      bl_size := sat_add (bl_size (bs ! left)) (bl_size (bs ! right))\<rparr>,
                    right := HeapBlock_empty])
      else merge_right bs left rest)"

fun merge_left :: "HeapBlock list \<Rightarrow> nat list \<Rightarrow> HeapBlock list option" where
  "merge_left bs [] = None"
| "merge_left bs (left # rest) =
     (if \<not> bl_active (bs ! left) \<or> bl_allocated (bs ! left) then merge_left bs rest
      else case merge_right bs left [0..<length bs] of
        Some bs' \<Rightarrow> Some bs'
      | None \<Rightarrow> merge_left bs rest)"

definition active_blocks :: "HeapBlock list \<Rightarrow> nat" where
  "active_blocks bs = length (filter bl_active bs)"

lemma length_filter_update:
  "i < length xs \<Longrightarrow> length (filter P (xs[i := x])) + (if P (xs ! i) then 1 else 0) =
   length (filter P xs) + (if P x then 1 else 0)"
proof (induction xs arbitrary: i)
  case (Cons y ys)
  then show ?case by (cases i) auto
qed simp

lemma merge_right_active:
  assumes "merge_right bs left rs = Some bs'" and "left < length bs" and "\<forall>r \<in> set rs. r < length bs"
    and "bl_active (bs ! left)"
  shows "active_blocks bs' < active_blocks bs"
  using assms
proof (induction rs)
  case (Cons r rs)
  have m: "active_blocks (bs[left := b, r := HeapBlock_empty]) < active_blocks bs"
    if "left \<noteq> r" "bl_active (bs ! r)" "bl_active b" for b
    using length_filter_update [of left bs bl_active b]
      length_filter_update [of r "bs[left := b]" bl_active HeapBlock_empty] that Cons.prems
    by (simp add: active_blocks_def HeapBlock_empty_def)
  show ?case using Cons m by (auto split: if_splits)
qed simp

lemma merge_left_active:
  assumes "merge_left bs ls = Some bs'" and "\<forall>l \<in> set ls. l < length bs"
  shows "active_blocks bs' < active_blocks bs"
  using assms
proof (induction ls)
  case (Cons l ls)
  then show ?case using merge_right_active [of bs l "[0..<length bs]" bs']
    by (auto split: if_splits option.splits)
qed simp

function coalesce_free_blocks :: "KernelHeap \<Rightarrow> KernelHeap" where
  "coalesce_free_blocks h =
     (case merge_left (kh_blocks h) [0..<length (kh_blocks h)] of
        None \<Rightarrow> h
      | Some bs \<Rightarrow> coalesce_free_blocks
          (h\<lparr>kh_blocks := bs, kh_coalesces := sat_add (kh_coalesces h) 1\<rparr>))"
  by pat_completeness auto
termination
  by (relation "measure (\<lambda>h. active_blocks (kh_blocks h))") (auto intro: merge_left_active)

declare coalesce_free_blocks.simps [simp del]

definition heap_free :: "KernelHeap \<Rightarrow> u64 \<Rightarrow> (FreeError + unit) \<times> KernelHeap" where
  "heap_free h address =
     (if \<not> kh_initialized h
      then (Inl HeapNotInitialized, h\<lparr>kh_failed_frees := sat_add (kh_failed_frees h) 1\<rparr>)
      else case find_allocated_block h address of
        Some index \<Rightarrow>
          if \<not> allocation_canaries_ok h index
          then (Inl Corruption, h\<lparr>kh_failed_frees := sat_add (kh_failed_frees h) 1,
                  kh_corruption_detections := sat_add (kh_corruption_detections h) 1\<rparr>)
          else
            let h = h\<lparr>kh_blocks := (kh_blocks h)[index := (kh_blocks h ! index)
                        \<lparr>bl_allocated := False, bl_payload_offset := 0, bl_requested_size := 0,
                         bl_alignment := 0\<rparr>],
                      kh_frees := sat_add (kh_frees h) 1\<rparr>
            in (Inr (), coalesce_free_blocks (add_recent_free h address))
      | None \<Rightarrow>
          let h = h\<lparr>kh_failed_frees := sat_add (kh_failed_frees h) 1\<rparr>
          in if was_recently_freed h address
             then (Inl DoubleFree, h\<lparr>kh_double_frees := sat_add (kh_double_frees h) 1\<rparr>)
             else (Inl InvalidPointer, h\<lparr>kh_invalid_frees := sat_add (kh_invalid_frees h) 1\<rparr>))"

section \<open>Checks and initialisation\<close>

definition corruption_check :: "KernelHeap \<Rightarrow> Vm \<Rightarrow> bool \<times> KernelHeap \<times> Vm" where
  "corruption_check h vm =
     (let h = h\<lparr>kh_corruption_checks := sat_add (kh_corruption_checks h) 1\<rparr>;
          stats = compute_stats h;
          (ok, vm) = (if metadata_ok h stats \<and> sentinel_ok h \<and> hst_allocation_canaries_ok stats
                      then guard_page_test vm else (False, vm));
          h = (if \<not> ok then h\<lparr>kh_corruption_failures := sat_add (kh_corruption_failures h) 1\<rparr> else h)
      in (ok, h, vm))"

definition repair_canaries_for :: "KernelHeap \<Rightarrow> u64 \<Rightarrow> bool \<times> KernelHeap" where
  "repair_canaries_for h address =
     (case find_allocated_block h address of
        None \<Rightarrow> (False, h)
      | Some index \<Rightarrow> (True, write_allocation_canaries h index))"

definition corrupt_tail_canary_for :: "KernelHeap \<Rightarrow> u64 \<Rightarrow> bool \<times> KernelHeap" where
  "corrupt_tail_canary_for h address =
     (case find_allocated_block h address of
        None \<Rightarrow> (False, h)
      | Some index \<Rightarrow>
          (True, h\<lparr>kh_memory := write_u64 (kh_memory h)
                     (sat_add HEAP_BASE (payload_end (kh_blocks h ! index))) 0\<rparr>))"

text \<open>The loop of \<open>init\<close> over the pages of the window; it stops at the first error.\<close>

fun map_heap_pages :: "Vm \<Rightarrow> u64 \<Rightarrow> nat list \<Rightarrow> u64 \<times> Vm" where
  "map_heap_pages vm mapped_pages [] = (mapped_pages, vm)"
| "map_heap_pages vm mapped_pages (page # rest) =
     (case map_new_page_owned vm (HEAP_BASE + of_nat page * PAGE_SIZE_4K) OwnerHeap of
        (Inr _, vm) \<Rightarrow> map_heap_pages vm (mapped_pages + 1) rest
      | (Inl error, vm) \<Rightarrow> (mapped_pages, vm))"

definition heap_init :: "KernelHeap \<Rightarrow> Vm \<Rightarrow> HeapSnapshot \<times> KernelHeap \<times> Vm" where
  "heap_init h vm =
     (if kh_initialized h then (heap_snapshot h, h, vm)
      else
        let (mapped_pages, vm) = map_heap_pages vm 0 [0..<unat HEAP_PAGES];
            h = h\<lparr>kh_mapped_pages := mapped_pages, kh_initialized := (mapped_pages = HEAP_PAGES)\<rparr>;
            h = (if kh_initialized h then reset_allocator h else h)
        in (heap_snapshot h, h, vm))"

section \<open>Self tests\<close>

definition pattern_byte :: "u8 \<Rightarrow> nat \<Rightarrow> u8" where
  "pattern_byte seed index = word_rotl 1 (seed + of_nat index)"

definition write_and_verify_pattern :: "KernelHeap \<Rightarrow> u64 \<Rightarrow> u64 \<Rightarrow> u8 \<Rightarrow> bool \<times> KernelHeap" where
  "write_and_verify_pattern h address sz seed =
     (let mem = fold (\<lambda>index mem. mem(address + of_nat index := pattern_byte seed index))
                  [0..<unat sz] (kh_memory h)
      in (list_all (\<lambda>index. mem (address + of_nat index) = pattern_byte seed index) [0..<unat sz],
          h\<lparr>kh_memory := mem\<rparr>))"

definition is_ok :: "('e + 'a) \<times> 's \<Rightarrow> bool" where
  "is_ok r = (case fst r of Inr _ \<Rightarrow> True | Inl _ \<Rightarrow> False)"

definition heap_probe :: "KernelHeap \<Rightarrow> bool \<times> KernelHeap" where
  "heap_probe h =
     (case heap_alloc h 32 8 of
        (None, h) \<Rightarrow> (False, h)
      | (Some address, h) \<Rightarrow>
          let (ok, h) = write_and_verify_pattern h address 32 0xa5;
              r = heap_free h address
          in (ok \<and> is_ok r, snd r))"

text \<open>Patterns tried one after the other: the first that fails ends the conjunction.\<close>

fun write_patterns :: "KernelHeap \<Rightarrow> (u64 \<times> u64 \<times> u8) list \<Rightarrow> bool \<times> KernelHeap" where
  "write_patterns h [] = (True, h)"
| "write_patterns h ((address, sz, seed) # rest) =
     (case write_and_verify_pattern h address sz seed of
        (False, h) \<Rightarrow> (False, h)
      | (True, h) \<Rightarrow> write_patterns h rest)"

fun cleanup_addresses :: "KernelHeap \<Rightarrow> u64 list \<Rightarrow> bool \<times> KernelHeap" where
  "cleanup_addresses h [] = (True, h)"
| "cleanup_addresses h (address # rest) =
     (if address \<noteq> 0
      then let r = heap_free h address; (ok, h) = cleanup_addresses (snd r) rest in (is_ok r \<and> ok, h)
      else cleanup_addresses h rest)"

text \<open>The frees of an error path, their results dropped.\<close>

definition free_all :: "KernelHeap \<Rightarrow> u64 list \<Rightarrow> KernelHeap" where
  "free_all = foldl (\<lambda>h address. snd (heap_free h address))"

definition selftest_verdict :: "bool \<Rightarrow> HeapSnapshot \<Rightarrow> KernelHeap \<Rightarrow> Vm \<Rightarrow> bool \<times> KernelHeap \<times> Vm" where
  "selftest_verdict ok before h vm =
     (let after = heap_snapshot h
      in if ok \<and> hs_active_allocations after = hs_active_allocations before
            \<and> hs_allocated_bytes after = hs_allocated_bytes before
            \<and> hs_metadata_ok after \<and> hs_allocation_canaries_ok after
         then corruption_check h vm else (False, h, vm))"

text \<open>The second half of \<open>selftest\<close>, from the reuse of the freed block on.\<close>

definition selftest_reuse ::
  "HeapSnapshot \<Rightarrow> u64 \<Rightarrow> u64 \<Rightarrow> bool \<Rightarrow> KernelHeap \<Rightarrow> Vm \<Rightarrow> bool \<times> KernelHeap \<times> Vm" where
  "selftest_reuse before first third ok h vm =
     (case heap_alloc h 96 32 of
        (None, h) \<Rightarrow> (False, free_all h [first, third], vm)
      | (Some reused, h) \<Rightarrow>
          let (reuse_ok, h) = (if reused mod 32 = 0 then write_and_verify_pattern h reused 96 0x44
                               else (False, h))
          in case heap_alloc h 24 8 of
               (None, h) \<Rightarrow> (False, free_all h [reused, third, first], vm)
             | (Some corrupt, h) \<Rightarrow>
                 let (corrupted, h) = corrupt_tail_canary_for h corrupt;
                     r = heap_free h corrupt;
                     corruption_was_detected = (fst r = Inl Corruption);
                     (repaired, h) = repair_canaries_for (snd r) corrupt;
                     f1 = heap_free h corrupt;
                     f2 = heap_free (snd f1) reused;
                     f3 = heap_free (snd f2) third;
                     f4 = heap_free (snd f3) first
                 in selftest_verdict
                      (ok \<and> reuse_ok \<and> corrupted \<and> corruption_was_detected \<and> repaired \<and> is_ok f1
                       \<and> is_ok f2 \<and> is_ok f3 \<and> is_ok f4) before (snd f4) vm)"

definition heap_selftest :: "KernelHeap \<Rightarrow> Vm \<Rightarrow> bool \<times> KernelHeap \<times> Vm" where
  "heap_selftest h vm =
     (let before = heap_snapshot h
      in case heap_alloc h 64 16 of
        (None, h) \<Rightarrow> (False, h, vm)
      | (Some first, h) \<Rightarrow>
        (case heap_alloc h 128 64 of
          (None, h) \<Rightarrow> (False, free_all h [first], vm)
        | (Some second, h) \<Rightarrow>
          (case heap_alloc h 32 8 of
            (None, h) \<Rightarrow> (False, free_all h [second, first], vm)
          | (Some third, h) \<Rightarrow>
              let align_ok = (first mod 16 = 0 \<and> second mod 64 = 0 \<and> third mod 8 = 0);
                  (patterns_ok, h) =
                    write_patterns h [(first, 64, 0x11), (second, 128, 0x22), (third, 32, 0x33)];
                  r1 = heap_free h second;
                  r2 = heap_free (snd r1) second
              in selftest_reuse before first third
                   (align_ok \<and> patterns_ok \<and> is_ok r1 \<and> fst r2 = Inl DoubleFree) (snd r2) vm)))"

definition stress_sizes :: "u64 list" where "stress_sizes = [24, 40, 56, 72, 88, 104, 120, 136]"
definition stress_aligns :: "u64 list" where "stress_aligns = [8, 16, 32, 64, 8, 16, 32, 64]"

text \<open>The allocation loop of \<open>stress\<close>: false once the addresses so far have been cleaned up.\<close>

fun stress_fill :: "KernelHeap \<Rightarrow> u64 list \<Rightarrow> nat list \<Rightarrow> bool \<times> u64 list \<times> KernelHeap" where
  "stress_fill h addresses [] = (True, addresses, h)"
| "stress_fill h addresses (index # rest) =
     (case heap_alloc h (stress_sizes ! index) (stress_aligns ! index) of
        (None, h) \<Rightarrow> (False, addresses, snd (cleanup_addresses h addresses))
      | (Some address, h) \<Rightarrow>
          let addresses = addresses[index := address];
              (ok, h) = (if address mod stress_aligns ! index \<noteq> 0 then (False, h)
                         else write_and_verify_pattern h address (stress_sizes ! index) (of_nat index))
          in if ok then stress_fill h addresses rest
             else (False, addresses, snd (cleanup_addresses h addresses)))"

text \<open>The three frees of \<open>stress\<close>, joined by a short-circuiting disjunction of errors.\<close>

fun free_each :: "KernelHeap \<Rightarrow> u64 list \<Rightarrow> bool \<times> KernelHeap" where
  "free_each h [] = (True, h)"
| "free_each h (address # rest) =
     (let r = heap_free h address in if is_ok r then free_each (snd r) rest else (False, snd r))"

definition stress_extra :: "HeapSnapshot \<Rightarrow> u64 list \<Rightarrow> KernelHeap \<Rightarrow> Vm \<Rightarrow> bool \<times> KernelHeap \<times> Vm" where
  "stress_extra before addresses h vm =
     (case heap_alloc h 48 16 of
        (None, h) \<Rightarrow> (False, snd (cleanup_addresses h addresses), vm)
      | (Some extra_one, h) \<Rightarrow>
        (case heap_alloc h 96 32 of
          (None, h) \<Rightarrow>
            (False, snd (cleanup_addresses (snd (heap_free h extra_one)) addresses), vm)
        | (Some extra_two, h) \<Rightarrow>
            let (extra_ok, h) =
                  (if extra_one mod 16 = 0 \<and> extra_two mod 32 = 0
                   then write_patterns h [(extra_one, 48, 0x77), (extra_two, 96, 0x88)]
                   else (False, h));
                f2 = heap_free h extra_two;
                f1 = heap_free (snd f2) extra_one;
                (addresses_freed, h) = cleanup_addresses (snd f1) addresses
            in selftest_verdict (extra_ok \<and> is_ok f2 \<and> is_ok f1 \<and> addresses_freed) before h vm))"

definition heap_stress :: "KernelHeap \<Rightarrow> Vm \<Rightarrow> bool \<times> KernelHeap \<times> Vm" where
  "heap_stress h vm =
     (let before = heap_snapshot h
      in case stress_fill h (replicate 8 0) [0..<8] of
        (False, _, h) \<Rightarrow> (False, h, vm)
      | (True, addresses, h) \<Rightarrow>
          let (freed, h) = free_each h [addresses ! 1, addresses ! 3, addresses ! 5]
          in if \<not> freed then (False, snd (cleanup_addresses h addresses), vm)
             else stress_extra before (addresses[1 := 0, 3 := 0, 5 := 0]) h vm)"

end
