(* ===== verification/Heap_Invariant.thy ===== *)
theory Heap_Invariant
  imports Heap
begin

unbundle bit_operations_syntax

text \<open>
  The invariant of the kernel heap. The ranges of the active block descriptors tile the heap
  window behind the sentinel; that is a statement about sets of byte offsets, so splitting and
  merging are two instances of one update. On top of it come the per-block facts and the
  canary bytes in memory.
\<close>

section \<open>Ranges and tilings\<close>

definition range_of :: "HeapBlock \<Rightarrow> nat set" where
  "range_of b = (if bl_active b then {unat (bl_offset b)..<unat (bl_offset b) + unat (bl_size b)} else {})"

definition payload_of :: "HeapBlock \<Rightarrow> nat set" where
  "payload_of b = {unat (bl_payload_offset b)..<unat (bl_payload_offset b) + unat (bl_requested_size b)}"

definition tiles :: "HeapBlock list \<Rightarrow> bool" where
  "tiles bs \<longleftrightarrow> length bs = MAX_BLOCKS
     \<and> (\<forall>i < length bs. \<forall>j < length bs. i \<noteq> j \<longrightarrow> range_of (bs ! i) \<inter> range_of (bs ! j) = {})
     \<and> (\<Union>b \<in> set bs. range_of b) = {64..<65536}"

definition live :: "HeapBlock \<Rightarrow> bool" where
  "live b \<longleftrightarrow> bl_active b \<and> bl_allocated b"

definition vacant :: "HeapBlock \<Rightarrow> bool" where
  "vacant b \<longleftrightarrow> bl_active b \<and> \<not> bl_allocated b"

text \<open>An allocated block has its payload, aligned, between the two canaries.\<close>

definition block_ok :: "HeapBlock \<Rightarrow> bool" where
  "block_ok b \<longleftrightarrow> (bl_active b \<longrightarrow> bl_magic b = BLOCK_MAGIC \<and> bl_size b \<noteq> 0)
     \<and> (live b \<longrightarrow> unat (bl_offset b) + 8 \<le> unat (bl_payload_offset b)
          \<and> unat (bl_payload_offset b) + unat (bl_requested_size b) + 8
              \<le> unat (bl_offset b) + unat (bl_size b)
          \<and> 8 \<le> bl_alignment b \<and> is_power_of_two (bl_alignment b)
          \<and> bl_payload_offset b mod bl_alignment b = 0 \<and> bl_requested_size b \<noteq> 0)"

definition no_adjacent :: "HeapBlock list \<Rightarrow> bool" where
  "no_adjacent bs \<longleftrightarrow> (\<forall>b \<in> set bs. \<forall>c \<in> set bs. vacant b \<longrightarrow> vacant c \<longrightarrow>
     unat (bl_offset b) + unat (bl_size b) \<noteq> unat (bl_offset c))"

lemma tiles_length: "tiles bs \<Longrightarrow> length bs = MAX_BLOCKS"
  by (simp add: tiles_def)

lemma tiles_disjoint:
  "tiles bs \<Longrightarrow> i < length bs \<Longrightarrow> j < length bs \<Longrightarrow> i \<noteq> j \<Longrightarrow>
   range_of (bs ! i) \<inter> range_of (bs ! j) = {}"
  by (simp add: tiles_def)

lemma tiles_range: "tiles bs \<Longrightarrow> b \<in> set bs \<Longrightarrow> range_of b \<subseteq> {64..<65536}"
  by (auto simp: tiles_def)

lemma tiles_bounds:
  assumes "tiles bs" "b \<in> set bs" "bl_active b" "bl_size b \<noteq> 0"
  shows "64 \<le> unat (bl_offset b)" "unat (bl_offset b) + unat (bl_size b) \<le> 65536"
proof -
  have "0 < unat (bl_size b)" using assms(4) by (simp add: unat_gt_0)
  moreover have "{unat (bl_offset b)..<unat (bl_offset b) + unat (bl_size b)} \<subseteq> {64..<65536}"
    using tiles_range [OF assms(1,2)] assms(3) by (simp add: range_of_def)
  ultimately show "64 \<le> unat (bl_offset b)" "unat (bl_offset b) + unat (bl_size b) \<le> 65536"
    by simp_all
qed

text \<open>
  Splitting a block into a free slot and merging one block into another both redistribute the
  bytes of two descriptors among themselves.
\<close>

lemma UN_range_nth: "(\<Union>b \<in> set xs. range_of b) = (\<Union>k < length xs. range_of (xs ! k))"
  by (auto simp: set_conv_nth)

lemma tiles_two:
  assumes "tiles bs" "i < length bs" "j < length bs" "i \<noteq> j"
    and u: "range_of x \<union> range_of y = range_of (bs ! i) \<union> range_of (bs ! j)"
    and d: "range_of x \<inter> range_of y = {}"
  shows "tiles (bs[i := x, j := y])"
proof -
  let ?bs = "bs[i := x, j := y]"
  have n: "?bs ! k = (if k = j then y else if k = i then x else bs ! k)" if "k < length bs" for k
    using that assms by simp
  have o: "range_of (bs ! k) \<inter> (range_of x \<union> range_of y) = {}"
    if "k < length bs" "k \<noteq> i" "k \<noteq> j" for k
    unfolding u using that assms(2,3) tiles_disjoint [OF assms(1), of k i] tiles_disjoint [OF assms(1), of k j]
    by blast
  have "range_of (?bs ! a) \<inter> range_of (?bs ! b) = {}" if "a < length bs" "b < length bs" "a \<noteq> b" for a b
    using that d o [of a] o [of b] tiles_disjoint [OF assms(1) that] by (simp only: n split: if_split) blast
  moreover have "(\<Union>k < length bs. range_of (?bs ! k)) = (\<Union>k < length bs. range_of (bs ! k))"
  proof -
    let ?K = "{..<length bs} - {i, j}"
    have s: "(\<Union>k < length bs. f k) = f i \<union> f j \<union> (\<Union>k \<in> ?K. f k)" for f :: "nat \<Rightarrow> nat set"
      using assms(2,3) by blast
    have "(\<Union>k \<in> ?K. range_of (?bs ! k)) = (\<Union>k \<in> ?K. range_of (bs ! k))" by (auto simp: n)
    then show ?thesis
      unfolding s using u assms(2-4) by (simp add: n Un_commute)
  qed
  ultimately show ?thesis using assms(1) tiles_length [OF assms(1)] by (simp add: tiles_def UN_range_nth)
qed

lemma tiles_one:
  assumes "tiles bs" "i < length bs" "range_of x = range_of (bs ! i)"
  shows "tiles (bs[i := x])"
proof -
  have "range_of (bs[i := x] ! k) = range_of (bs ! k)" if "k < length bs" for k
    using that assms(2,3) by (cases "k = i") auto
  moreover from this have "(\<Union>k < length bs. range_of (bs[i := x] ! k)) = (\<Union>k < length bs. range_of (bs ! k))"
    by (intro SUP_cong) auto
  ultimately show ?thesis using assms(1) tiles_length [OF assms(1)] unfolding tiles_def UN_range_nth by simp
qed

section \<open>The bytes of the window\<close>

definition heap_byte :: "memory \<Rightarrow> nat \<Rightarrow> u8" where
  "heap_byte mem k = mem (HEAP_BASE + of_nat k)"

definition agree :: "nat set \<Rightarrow> memory \<Rightarrow> memory \<Rightarrow> bool" where
  "agree ks mem mem' \<longleftrightarrow> (\<forall>k \<in> ks. heap_byte mem k = heap_byte mem' k)"

lemma agree_mono: "agree ks mem mem' \<Longrightarrow> ls \<subseteq> ks \<Longrightarrow> agree ls mem mem'"
  by (auto simp: agree_def)

lemma agree_refl [simp]: "agree ks mem mem" and agree_sym: "agree ks mem mem' \<Longrightarrow> agree ks mem' mem"
  and agree_trans: "agree ks mem mem' \<Longrightarrow> agree ks mem' mem'' \<Longrightarrow> agree ks mem mem''"
  by (auto simp: agree_def)

lemma unat_of_nat_small: "k < 65536 \<Longrightarrow> unat (of_nat k :: u64) = k"
  by (simp add: unat_of_nat)

lemma uint_of_nat_small: "k < 65536 \<Longrightarrow> uint (of_nat k :: u64) = int k"
  by (metis unat_of_nat_small uint_nat)

lemma u64_of_nat_inj: "l < 65536 \<Longrightarrow> k < 65536 \<Longrightarrow> (of_nat l :: u64) = of_nat k \<longleftrightarrow> l = k"
  by (metis unat_of_nat_small)

lemma wrap_below: "(- 65536 :: int) < a \<Longrightarrow> a < 0 \<Longrightarrow> a mod 18446744073709551616 = a + 18446744073709551616"
  using mod_pos_pos_trivial [of "a + 18446744073709551616" 18446744073709551616] by simp

lemma heap_offset_diff:
  assumes "k < 65536" "l < 65536"
  shows "HEAP_BASE + of_nat l - (HEAP_BASE + of_nat k) < (8 :: u64) \<longleftrightarrow> k \<le> l \<and> l < k + 8"
proof -
  have s: "HEAP_BASE + of_nat l - (HEAP_BASE + of_nat k) = (of_nat l - of_nat k :: u64)" by simp
  have "uint (of_nat l - of_nat k :: u64) = (int l - int k) mod 2 ^ 64"
    by (simp add: uint_word_ariths uint_of_nat_small assms mod_diff_eq)
  also have "\<dots> = (if k \<le> l then int l - int k else int l - int k + 2 ^ 64)"
    using assms by (auto intro: mod_pos_pos_trivial simp: wrap_below)
  finally show ?thesis unfolding s word_less_def using assms by auto
qed

lemma agree_write_u64:
  assumes "k + 8 \<le> 65536" "ks \<subseteq> {..<65536}" "ks \<inter> {k..<k + 8} = {}"
  shows "agree ks (write_u64 mem (HEAP_BASE + of_nat k) v) mem"
proof -
  have "\<not> (k \<le> l \<and> l < k + 8)" if "l \<in> ks" for l using assms(3) that by auto
  then show ?thesis using assms heap_offset_diff [of k] unfolding agree_def heap_byte_def write_u64_def
    by (auto simp del: add_diff_cancel_left)
qed

lemma agree_update:
  assumes "k < 65536" "ks \<subseteq> {..<65536}" "k \<notin> ks"
  shows "agree ks (mem(HEAP_BASE + of_nat k := v)) mem"
proof -
  have "(of_nat l :: u64) \<noteq> of_nat k" if "l \<in> ks" for l
    using that assms u64_of_nat_inj [of l k] by auto
  then show ?thesis by (auto simp: agree_def heap_byte_def)
qed

lemma agree_read_u64:
  assumes "agree ks mem mem'" "{k..<k + 8} \<subseteq> ks"
  shows "read_u64 mem (HEAP_BASE + of_nat k) = read_u64 mem' (HEAP_BASE + of_nat k)"
proof (rule read_u64_cong)
  fix j :: u64 assume j: "j < 8"
  then have "unat j < 8" by (simp add: word_less_nat_alt)
  then have "k + unat j \<in> ks" using assms(2) by auto
  then have "heap_byte mem (k + unat j) = heap_byte mem' (k + unat j)"
    using assms(1) by (simp add: agree_def)
  then show "mem (HEAP_BASE + of_nat k + j) = mem' (HEAP_BASE + of_nat k + j)"
    by (simp add: heap_byte_def add.assoc)
qed

text \<open>
  The invariant of the heap state and what the checks of \<^verbatim>\<open>heap.rs\<close> compute on a state that
  satisfies it: the statistics are exact and every check passes.
\<close>

section \<open>The invariant\<close>

definition canaries :: "memory \<Rightarrow> HeapBlock \<Rightarrow> bool" where
  "canaries mem b \<longleftrightarrow>
     read_u64 mem (HEAP_BASE + of_nat (unat (bl_payload_offset b) - 8)) = ALLOC_CANARY_HEAD
     \<and> read_u64 mem (HEAP_BASE + of_nat (unat (bl_payload_offset b) + unat (bl_requested_size b)))
       = ALLOC_CANARY_TAIL"

definition blocks_inv :: "HeapBlock list \<Rightarrow> bool" where
  "blocks_inv bs \<longleftrightarrow> tiles bs \<and> (\<forall>b \<in> set bs. block_ok b)"

definition memory_inv :: "HeapBlock list \<Rightarrow> memory \<Rightarrow> bool" where
  "memory_inv bs mem \<longleftrightarrow> (\<forall>k < 64. heap_byte mem k = sentinel_byte k)
     \<and> (\<forall>b \<in> set bs. live b \<longrightarrow> canaries mem b)"

definition heap_inv :: "KernelHeap \<Rightarrow> bool" where
  "heap_inv h \<longleftrightarrow> kh_initialized h \<and> kh_mapped_pages h = HEAP_PAGES
     \<and> kh_canary_head h = HEAP_CANARY_HEAD \<and> kh_canary_tail h = HEAP_CANARY_TAIL
     \<and> blocks_inv (kh_blocks h) \<and> no_adjacent (kh_blocks h)
     \<and> memory_inv (kh_blocks h) (kh_memory h)
     \<and> length (kh_recent_frees h) = RECENT_FREE_COUNT \<and> kh_recent_free_index h < RECENT_FREE_COUNT"

section \<open>Arithmetic of one block\<close>

lemma heap_base_room: "unat HEAP_BASE + 65536 < 2 ^ 64"
  by (simp add: HEAP_BASE_def KERNEL_HEAP_BASE_def KERNEL_HEAP_GUARD_LOW_def KERNEL_VIRTUAL_BASE_def
      PAGE_SIZE_4K_def)

lemma sat_add_base: "unat w < 65536 \<Longrightarrow> sat_add HEAP_BASE w = HEAP_BASE + w"
  using heap_base_room by (simp add: sat_add_def)

lemma block_bounds:
  assumes "blocks_inv bs" "b \<in> set bs" "bl_active b"
  shows "64 \<le> unat (bl_offset b)" "unat (bl_offset b) + unat (bl_size b) \<le> 65536" "0 < unat (bl_size b)"
    "bl_magic b = BLOCK_MAGIC" "unat (block_end b) = unat (bl_offset b) + unat (bl_size b)"
proof -
  have ok: "bl_magic b = BLOCK_MAGIC" "bl_size b \<noteq> 0"
    using assms by (auto simp: blocks_inv_def block_ok_def)
  then show b: "64 \<le> unat (bl_offset b)" "unat (bl_offset b) + unat (bl_size b) \<le> 65536"
    "0 < unat (bl_size b)" "bl_magic b = BLOCK_MAGIC"
    using tiles_bounds [of bs b] assms by (auto simp: blocks_inv_def unat_gt_0)
  then show "unat (block_end b) = unat (bl_offset b) + unat (bl_size b)"
    by (simp add: block_end_def unat_sat_add)
qed

lemma live_bounds:
  assumes "blocks_inv bs" "b \<in> set bs" "live b"
  shows "unat (bl_offset b) + 8 \<le> unat (bl_payload_offset b)"
    "unat (bl_payload_offset b) + unat (bl_requested_size b) + 8 \<le> unat (bl_offset b) + unat (bl_size b)"
    "72 \<le> unat (bl_payload_offset b)"
    "unat (bl_payload_offset b) + unat (bl_requested_size b) + 8 \<le> 65536"
    "unat (payload_end b) = unat (bl_payload_offset b) + unat (bl_requested_size b)"
    "0 < unat (bl_requested_size b)" "shape_ok b"
proof -
  have o: "block_ok b" "bl_active b" using assms by (auto simp: blocks_inv_def live_def)
  note b = block_bounds [OF assms(1,2) o(2)]
  show p: "unat (bl_offset b) + 8 \<le> unat (bl_payload_offset b)"
    "unat (bl_payload_offset b) + unat (bl_requested_size b) + 8 \<le> unat (bl_offset b) + unat (bl_size b)"
    "0 < unat (bl_requested_size b)"
    using o(1) assms(3) by (simp_all add: block_ok_def unat_gt_0)
  then show q: "72 \<le> unat (bl_payload_offset b)"
    "unat (bl_payload_offset b) + unat (bl_requested_size b) + 8 \<le> 65536" using b by linarith+
  then show e: "unat (payload_end b) = unat (bl_payload_offset b) + unat (bl_requested_size b)"
    by (simp add: payload_end_def unat_sat_add)
  have "sat_add (bl_offset b) ALLOC_CANARY_BYTES \<le> bl_payload_offset b"
    "sat_add (payload_end b) ALLOC_CANARY_BYTES \<le> block_end b"
    using p q b e by (simp_all add: word_le_nat_alt unat_sat_add ALLOC_CANARY_BYTES_def)
  then show "shape_ok b" using o(1) assms(3) by (simp add: shape_ok_def block_ok_def ALLOC_CANARY_BYTES_def)
qed

lemma canary_addresses:
  assumes "blocks_inv bs" "b \<in> set bs" "live b"
  shows "sat_sub (sat_add HEAP_BASE (bl_payload_offset b)) ALLOC_CANARY_BYTES
      = HEAP_BASE + of_nat (unat (bl_payload_offset b) - 8)"
    "sat_add HEAP_BASE (payload_end b)
      = HEAP_BASE + of_nat (unat (bl_payload_offset b) + unat (bl_requested_size b))"
proof -
  note l = live_bounds [OF assms]
  have "8 \<le> unat (bl_payload_offset b)" using l(3) by simp
  then have "of_nat (unat (bl_payload_offset b) - 8) = bl_payload_offset b - 8"
    by (simp add: of_nat_diff)
  moreover have "sat_sub (HEAP_BASE + bl_payload_offset b) 8 = HEAP_BASE + bl_payload_offset b - 8"
  proof -
    have "unat (HEAP_BASE + bl_payload_offset b) = unat HEAP_BASE + unat (bl_payload_offset b)"
      using heap_base_room l(4) by (subst unat_plus_simple [THEN iffD1]) (auto simp: no_olen_add_nat)
    then have "8 \<le> HEAP_BASE + bl_payload_offset b" using l(3) by (simp add: word_le_nat_alt)
    then show ?thesis by (auto simp: sat_sub_def dest: leD)
  qed
  ultimately show "sat_sub (sat_add HEAP_BASE (bl_payload_offset b)) ALLOC_CANARY_BYTES
      = HEAP_BASE + of_nat (unat (bl_payload_offset b) - 8)"
    using l sat_add_base [of "bl_payload_offset b"] by (simp add: ALLOC_CANARY_BYTES_def)
  have "of_nat (unat (bl_payload_offset b) + unat (bl_requested_size b)) = payload_end b"
    unfolding l(5) [symmetric] by simp
  then show "sat_add HEAP_BASE (payload_end b)
      = HEAP_BASE + of_nat (unat (bl_payload_offset b) + unat (bl_requested_size b))"
    using l sat_add_base [of "payload_end b"] by simp
qed

lemma allocation_canaries_iff:
  assumes "blocks_inv (kh_blocks h)" "i < MAX_BLOCKS"
  shows "allocation_canaries_ok h i \<longleftrightarrow> live (kh_blocks h ! i) \<and> canaries (kh_memory h) (kh_blocks h ! i)"
proof -
  have "kh_blocks h ! i \<in> set (kh_blocks h)" using assms by (auto simp: blocks_inv_def tiles_def)
  from canary_addresses [OF assms(1) this] show ?thesis
    by (auto simp: allocation_canaries_ok_def Let_def live_def canaries_def)
qed

lemma canaries_agree:
  assumes "blocks_inv bs" "b \<in> set bs" "live b" "agree (range_of b - payload_of b) mem mem'"
  shows "canaries mem b = canaries mem' b"
proof -
  note l = live_bounds [OF assms(1-3)]
  have "{unat (bl_payload_offset b) - 8..<unat (bl_payload_offset b) - 8 + 8} \<subseteq> range_of b - payload_of b"
    "{unat (bl_payload_offset b) + unat (bl_requested_size b)..<
      unat (bl_payload_offset b) + unat (bl_requested_size b) + 8} \<subseteq> range_of b - payload_of b"
    using l assms(3) by (auto simp: range_of_def payload_of_def live_def)
  then show ?thesis unfolding canaries_def using agree_read_u64 [OF assms(4)] by (simp only:)
qed

section \<open>The statistics\<close>

definition weight :: "HeapBlock \<Rightarrow> nat" where
  "weight b = (if bl_active b then unat (bl_size b) else 0)"

definition requested :: "HeapBlock \<Rightarrow> nat" where
  "requested b = (if live b then unat (bl_requested_size b) else 0)"

definition vacancy :: "HeapBlock \<Rightarrow> nat" where
  "vacancy b = (if vacant b then unat (bl_size b) else 0)"

lemma weight_total:
  assumes "tiles bs"
  shows "(\<Sum>i < length bs. weight (bs ! i)) = 65472"
proof -
  have "weight b = card (range_of b)" for b by (simp add: weight_def range_of_def)
  then have "(\<Sum>i < length bs. weight (bs ! i)) = card (\<Union>i < length bs. range_of (bs ! i))"
    by (subst card_UN_disjoint) (use assms in \<open>auto simp: tiles_def range_of_def\<close>)
  also have "(\<Union>i < length bs. range_of (bs ! i)) = {64..<65536}"
    using assms unfolding tiles_def UN_range_nth by blast
  finally show ?thesis by simp
qed

lemma weight_split:
  assumes "blocks_inv bs" "b \<in> set bs"
  shows "requested b + vacancy b \<le> weight b"
  using live_bounds(1,2) [OF assms]
  by (cases "live b") (auto simp: weight_def requested_def vacancy_def live_def vacant_def)

lemma no_overlap:
  assumes "blocks_inv bs" "i < length bs" "j < length bs" "i \<noteq> j" "bl_active (bs ! i)" "bl_active (bs ! j)"
  shows "\<not> ranges_overlap (bl_offset (bs ! i)) (block_end (bs ! i)) (bl_offset (bs ! j)) (block_end (bs ! j))"
proof -
  have "range_of (bs ! i) \<inter> range_of (bs ! j) = {}"
    using tiles_disjoint [of bs i j] assms by (simp add: blocks_inv_def)
  then show ?thesis
    using assms block_bounds(3,5) [OF assms(1) nth_mem [OF assms(2)] assms(5)]
      block_bounds(3,5) [OF assms(1) nth_mem [OF assms(3)] assms(6)]
    by (auto simp: ranges_overlap_def range_of_def word_less_nat_alt disjoint_iff)
qed

lemma sum_prefix_le:
  assumes "n \<le> (m :: nat)"
  shows "(\<Sum>i < n. f i) \<le> (\<Sum>i < m. f i :: nat)"
  using assms by (intro sum_mono2) auto

definition stats_inv :: "KernelHeap \<Rightarrow> nat \<Rightarrow> HeapStats \<times> u64 \<Rightarrow> bool" where
  "stats_inv h n sc \<longleftrightarrow> hst_metadata_ok (fst sc)
     \<and> unat (snd sc) = (\<Sum>i < n. weight (kh_blocks h ! i))
     \<and> unat (hst_allocated_bytes (fst sc)) = (\<Sum>i < n. requested (kh_blocks h ! i))
     \<and> unat (hst_free_bytes (fst sc)) = (\<Sum>i < n. vacancy (kh_blocks h ! i))
     \<and> unat (hst_metadata_blocks (fst sc)) \<le> n
     \<and> (hst_allocation_canaries_ok (fst sc) \<longleftrightarrow>
          (\<forall>i < n. live (kh_blocks h ! i) \<longrightarrow> canaries (kh_memory h) (kh_blocks h ! i)))"

lemma stats_step:
  assumes inv: "blocks_inv (kh_blocks h)" and n: "n < MAX_BLOCKS" and I: "stats_inv h n sc"
  shows "stats_inv h (Suc n) (stats_block h n sc)"
proof -
  define b where "b = kh_blocks h ! n"
  obtain stats covered where sc: "sc = (stats, covered)" by (cases sc)
  have len: "length (kh_blocks h) = MAX_BLOCKS" using inv by (simp add: blocks_inv_def tiles_def)
  then have mem: "b \<in> set (kh_blocks h)" using n by (simp add: b_def)
  have tot: "(\<Sum>i < Suc n. weight (kh_blocks h ! i)) \<le> 65472"
    using sum_prefix_le [of "Suc n" MAX_BLOCKS "\<lambda>i. weight (kh_blocks h ! i)"] n len
      weight_total [of "kh_blocks h"] inv by (simp add: blocks_inv_def)
  have ws: "(\<Sum>i < Suc n. requested (kh_blocks h ! i) + vacancy (kh_blocks h ! i))
      \<le> (\<Sum>i < Suc n. weight (kh_blocks h ! i))"
    by (rule sum_mono) (use n len weight_split [OF inv] in auto)
  note room = order_trans [OF ws tot, unfolded sum.distrib]
  have ov: "\<not> list_ex (\<lambda>j. let other = kh_blocks h ! j in bl_active other
      \<and> ranges_overlap (bl_offset b) (block_end b) (bl_offset other) (block_end other)) [n + 1..<MAX_BLOCKS]"
    if "bl_active b"
    using no_overlap [OF inv, of n] that n len by (auto simp: list_ex_iff b_def Let_def)
  show ?thesis
  proof (cases "bl_active b")
    case False
    then show ?thesis using I
      by (auto simp: sc stats_inv_def stats_block_def b_def [symmetric] weight_def requested_def
          vacancy_def live_def vacant_def less_Suc_eq)
  next
    case True
    note bb = block_bounds [OF inv mem True]
    have head: "\<not> (bl_magic b \<noteq> BLOCK_MAGIC \<or> bl_size b = 0 \<or> bl_offset b < HEAP_SENTINEL_BYTES
        \<or> HEAP_SIZE < block_end b)"
      using bb by (auto simp: word_less_nat_alt HEAP_SENTINEL_BYTES_def HEAP_SIZE_def KERNEL_HEAP_SIZE_def)
    have can: "live b \<Longrightarrow> allocation_canaries_ok h n \<longleftrightarrow> canaries (kh_memory h) b"
      using allocation_canaries_iff [OF inv n] by (simp add: b_def)
    have nn: "n < 96" using n by (simp add: MAX_BLOCKS_def)
    show ?thesis
    proof (cases "bl_allocated b")
      case alloc: True
      then have lv: "live b" using True by (simp add: live_def)
      note sh = live_bounds(7) [OF inv mem lv]
      show ?thesis
        using I True alloc lv sh head ov [OF True] can [OF lv] room tot nn unfolding sc
        by (auto simp: stats_inv_def stats_block_def Let_def b_def [symmetric] weight_def requested_def
            vacancy_def live_def vacant_def less_Suc_eq unat_sat_add)
    next
      case False
      then show ?thesis
        using I True head ov [OF True] room tot nn unfolding sc
        by (auto simp: stats_inv_def stats_block_def Let_def b_def [symmetric] weight_def requested_def
            vacancy_def live_def vacant_def less_Suc_eq unat_sat_add)
    qed
  qed
qed

lemma stats_fold:
  assumes "blocks_inv (kh_blocks h)" "n \<le> MAX_BLOCKS" "stats_inv h 0 sc"
  shows "stats_inv h n (fold (stats_block h) [0..<n] sc)"
  using assms(2)
proof (induction n)
  case (Suc n)
  then show ?case using stats_step [OF assms(1)] by simp
qed (simp add: assms(3))

lemma compute_stats_inv:
  assumes inv: "blocks_inv (kh_blocks h)"
  shows "hst_metadata_ok (compute_stats h)"
    and "unat (hst_allocated_bytes (compute_stats h)) = (\<Sum>i < MAX_BLOCKS. requested (kh_blocks h ! i))"
    and "unat (hst_free_bytes (compute_stats h)) = (\<Sum>i < MAX_BLOCKS. vacancy (kh_blocks h ! i))"
    and "hst_allocation_canaries_ok (compute_stats h) \<longleftrightarrow>
      (\<forall>b \<in> set (kh_blocks h). live b \<longrightarrow> canaries (kh_memory h) b)"
proof -
  obtain stats covered where f: "fold (stats_block h) [0..<MAX_BLOCKS]
     (\<lparr>hst_allocated_bytes = 0, hst_free_bytes = 0, hst_largest_free_block = 0,
       hst_active_allocations = 0, hst_free_blocks = 0, hst_metadata_blocks = 0,
       hst_metadata_ok = True, hst_allocation_canaries_ok = True\<rparr>, 0) = (stats, covered)"
    by (metis surj_pair)
  have I: "stats_inv h MAX_BLOCKS (stats, covered)"
    unfolding f [symmetric] by (rule stats_fold [OF inv order_refl]) (simp add: stats_inv_def)
  have len: "length (kh_blocks h) = MAX_BLOCKS" and t: "tiles (kh_blocks h)"
    using inv by (simp_all add: blocks_inv_def tiles_def)
  have c: "covered = sat_sub HEAP_SIZE HEAP_SENTINEL_BYTES"
  proof -
    have "unat covered = 65472" using I weight_total [OF t] by (simp add: stats_inv_def len)
    then have "unat covered = unat (65472 :: u64)" by simp
    then have "covered = 65472" by (simp only: word_unat_eq_iff)
    then show ?thesis by (simp add: sat_sub_def heap_consts)
  qed
  have "(\<Sum>i < MAX_BLOCKS. requested (kh_blocks h ! i) + vacancy (kh_blocks h ! i))
      \<le> (\<Sum>i < MAX_BLOCKS. weight (kh_blocks h ! i))"
    by (rule sum_mono) (use len weight_split [OF inv] in auto)
  then have room: "unat (hst_allocated_bytes stats) + unat (hst_free_bytes stats) \<le> 65472"
    using I weight_total [OF t] by (simp add: stats_inv_def len sum.distrib)
  then have "\<not> HEAP_SIZE < sat_add (hst_allocated_bytes stats) (hst_free_bytes stats)"
    by (simp add: word_less_nat_alt unat_sat_add HEAP_SIZE_def KERNEL_HEAP_SIZE_def)
  moreover have "\<not> of_nat MAX_BLOCKS < hst_metadata_blocks stats"
    using I by (simp add: stats_inv_def word_less_nat_alt MAX_BLOCKS_def)
  ultimately have "compute_stats h = stats" unfolding compute_stats_def f using c by simp
  then show "hst_metadata_ok (compute_stats h)"
    "unat (hst_allocated_bytes (compute_stats h)) = (\<Sum>i < MAX_BLOCKS. requested (kh_blocks h ! i))"
    "unat (hst_free_bytes (compute_stats h)) = (\<Sum>i < MAX_BLOCKS. vacancy (kh_blocks h ! i))"
    "hst_allocation_canaries_ok (compute_stats h) \<longleftrightarrow>
      (\<forall>b \<in> set (kh_blocks h). live b \<longrightarrow> canaries (kh_memory h) b)"
    using I len by (simp_all add: stats_inv_def all_set_conv_all_nth)
qed

lemma heap_inv_checks:
  assumes "heap_inv h"
  shows "metadata_ok h (compute_stats h)" "sentinel_ok h" "hst_allocation_canaries_ok (compute_stats h)"
  using assms compute_stats_inv [of h]
  by (auto simp: heap_inv_def metadata_ok_def sentinel_ok_def memory_inv_def heap_byte_def
      list_all_iff HEAP_SENTINEL_BYTES_def)

end
