(* ===== verification/Heap_Alloc.thy ===== *)
theory Heap_Alloc
  imports Heap_Invariant
begin

unbundle bit_operations_syntax

text \<open>
  What allocation and release do to the block table and to the bytes of the window. Splitting a
  block, freeing it and merging two blocks are updates of one or two descriptors that keep the
  tiling; the canaries of a new block are written outside every other block.
\<close>

section \<open>Updates of the block table\<close>

lemma blocks_inv_one:
  assumes "blocks_inv bs" "i < length bs" "range_of x = range_of (bs ! i)" "block_ok x"
  shows "blocks_inv (bs[i := x])"
  using assms tiles_one [of bs i x] set_update_subset_insert [of bs i x] by (auto simp: blocks_inv_def)

lemma blocks_inv_two:
  assumes "blocks_inv bs" "i < length bs" "j < length bs" "i \<noteq> j"
    "range_of x \<union> range_of y = range_of (bs ! i) \<union> range_of (bs ! j)" "range_of x \<inter> range_of y = {}"
    "block_ok x" "block_ok y"
  shows "blocks_inv (bs[i := x, j := y])"
proof -
  have "set (bs[i := x, j := y]) \<subseteq> insert y (insert x (set bs))"
    using set_update_subset_insert [of "bs[i := x]" j y] set_update_subset_insert [of bs i x] by blast
  then show ?thesis using assms tiles_two [of bs i j x y] by (auto simp: blocks_inv_def)
qed

text \<open>The allocations a client holds: payload offset and requested size.\<close>

definition allocations :: "HeapBlock list \<Rightarrow> (nat \<times> nat) set" where
  "allocations bs = {(unat (bl_payload_offset b), unat (bl_requested_size b)) | b. b \<in> set bs \<and> live b}"

lemma allocations_nth:
  "allocations bs = {(unat (bl_payload_offset (bs ! i)), unat (bl_requested_size (bs ! i))) | i.
     i < length bs \<and> live (bs ! i)}"
  unfolding allocations_def by (auto simp: in_set_conv_nth)

lemma live_distinct:
  assumes "blocks_inv bs" "i < length bs" "j < length bs" "live (bs ! i)" "live (bs ! j)"
    "bl_payload_offset (bs ! i) = bl_payload_offset (bs ! j)"
  shows "i = j"
proof (rule ccontr)
  assume "i \<noteq> j"
  then have "range_of (bs ! i) \<inter> range_of (bs ! j) = {}"
    using tiles_disjoint [of bs i j] assms by (simp add: blocks_inv_def)
  moreover have "unat (bl_payload_offset (bs ! k)) \<in> range_of (bs ! k)" if "k \<in> {i, j}" for k
    using live_bounds(1,2) [OF assms(1) nth_mem, of k] that assms(2-5)
    by (auto simp: range_of_def live_def)
  ultimately show False using assms(6) by (metis disjoint_iff insertCI)
qed

lemma payload_in_range:
  "blocks_inv bs \<Longrightarrow> b \<in> set bs \<Longrightarrow> live b \<Longrightarrow> payload_of b \<subseteq> range_of b"
  using live_bounds(1,2) [of bs b] by (auto simp: payload_of_def range_of_def live_def)

section \<open>Writing the canaries\<close>

lemma write_canaries:
  assumes inv: "blocks_inv (kh_blocks h)" and i: "i < MAX_BLOCKS" and lv: "live (kh_blocks h ! i)"
  obtains mem where "write_allocation_canaries h i = h\<lparr>kh_memory := mem\<rparr>"
    and "canaries mem (kh_blocks h ! i)"
    and "agree ({..<65536} - (range_of (kh_blocks h ! i) - payload_of (kh_blocks h ! i))) mem (kh_memory h)"
proof -
  define b where "b = kh_blocks h ! i"
  have mem: "b \<in> set (kh_blocks h)" using inv i by (simp add: b_def blocks_inv_def tiles_def)
  have lv': "live b" using lv by (simp add: b_def)
  note l = live_bounds [OF inv mem lv'] and ca = canary_addresses [OF inv mem lv']
  define p where "p = unat (bl_payload_offset b)"
  define n where "n = unat (bl_requested_size b)"
  let ?m1 = "write_u64 (kh_memory h) (HEAP_BASE + of_nat (p - 8)) ALLOC_CANARY_HEAD"
  let ?m2 = "write_u64 ?m1 (HEAP_BASE + of_nat (p + n)) ALLOC_CANARY_TAIL"
  have b: "72 \<le> p" "p + n + 8 \<le> 65536" "0 < n" using l by (simp_all add: p_def n_def)
  have e: "write_allocation_canaries h i = h\<lparr>kh_memory := ?m2\<rparr>"
    unfolding write_allocation_canaries_def Let_def b_def [symmetric] ca p_def n_def by simp
  have "agree {p - 8..<p} ?m2 ?m1"
    by (rule agree_write_u64) (use b in auto)
  then have "read_u64 ?m2 (HEAP_BASE + of_nat (p - 8)) = read_u64 ?m1 (HEAP_BASE + of_nat (p - 8))"
    by (rule agree_read_u64) (use b in auto)
  then have c: "canaries ?m2 b" by (simp add: canaries_def p_def [symmetric] n_def [symmetric] del: of_nat_add)
  let ?K = "{..<65536} - (range_of b - payload_of b)"
  have out: "?K \<inter> {p - 8..<p - 8 + 8} = {}" "?K \<inter> {p + n..<p + n + 8} = {}"
    using l b lv' by (auto simp: range_of_def payload_of_def live_def p_def n_def)
  have "agree ?K ?m2 ?m1" by (rule agree_write_u64) (use b out in auto)
  moreover have "agree ?K ?m1 (kh_memory h)" by (rule agree_write_u64) (use b out in auto)
  ultimately have "agree ?K ?m2 (kh_memory h)" by (rule agree_trans)
  with e c show thesis using that b_def by blast
qed

text \<open>The other blocks and the sentinel do not see the canaries of a new block.\<close>

lemma memory_inv_write:
  assumes inv: "blocks_inv bs" and i: "i < length bs"
    and can: "live (bs ! i) \<Longrightarrow> canaries mem' (bs ! i)"
    and ag: "agree ({..<65536} - range_of (bs ! i)) mem' mem"
    and old: "\<forall>k < 64. heap_byte mem k = sentinel_byte k"
    and others: "\<And>j. j < length bs \<Longrightarrow> j \<noteq> i \<Longrightarrow> live (bs ! j) \<Longrightarrow> canaries mem (bs ! j)"
  shows "memory_inv bs mem'"
proof -
  have t: "tiles bs" using inv by (simp add: blocks_inv_def)
  have sub: "range_of (bs ! j) \<subseteq> {64..<65536}" if "j < length bs" for j
    using tiles_range [OF t nth_mem [OF that]] .
  have "{..<64} \<subseteq> {..<65536} - range_of (bs ! i)" using sub [OF i] by force
  then have "heap_byte mem' k = sentinel_byte k" if "k < 64" for k
    using agree_mono [OF ag] old that by (auto simp: agree_def)
  moreover have "canaries mem' (bs ! j)" if "j < length bs" "live (bs ! j)" for j
  proof (cases "j = i")
    case False
    have "range_of (bs ! j) - payload_of (bs ! j) \<subseteq> {..<65536} - range_of (bs ! i)"
      using sub [OF that(1)] tiles_disjoint [OF t that(1) i False] by force
    from canaries_agree [OF inv nth_mem [OF that(1)] that(2) agree_mono [OF ag this]]
    show ?thesis using others [OF that(1) False that(2)] by simp
  qed (use can that in simp)
  ultimately show ?thesis by (auto simp: memory_inv_def in_set_conv_nth)
qed

section \<open>Alignment\<close>

lemma heap_align_up_spec:
  assumes a: "is_power_of_two a" "unat a \<le> 4096" and v: "unat v \<le> 65544"
  shows "unat v \<le> unat (heap_align_up v a)" "heap_align_up v a mod a = 0"
    and "unat v \<le> p \<Longrightarrow> p mod unat a = 0 \<Longrightarrow> unat (heap_align_up v a) \<le> p"
proof -
  obtain k where k: "a = 2 ^ k" "k < 64" by (rule power_of_two [OF a(1)])
  have ua: "unat a = 2 ^ k" using k by (simp add: unat_two_power)
  define x where "x = v + (a - 1)"
  have um: "unat (a - 1) = 2 ^ k - 1" using k ua by (simp add: unat_minus_one)
  have s: "unat v + unat (a - 1) < 2 ^ 64" using v a(2) ua um by simp
  have ux: "unat x = unat v + (2 ^ k - 1)"
    unfolding x_def using s um by (simp add: unat_word_ariths)
  have u: "unat (heap_align_up v a) = unat x div 2 ^ k * 2 ^ k"
    using s unat_clear_low [OF k(2), of x] by (simp add: heap_align_up_def sat_add_def x_def k(1))
  have "unat x < unat x div 2 ^ k * 2 ^ k + 2 ^ k" 
    using mod_less_divisor [of "2 ^ k" "unat x"] by (metis add_less_cancel_left div_mult_mod_eq zero_less_numeral zero_less_power)
  then show "unat v \<le> unat (heap_align_up v a)" unfolding u using ux by simp
  have "unat (heap_align_up v a mod a) = 0" by (simp add: unat_mod ua u)
  then show "heap_align_up v a mod a = 0" by (simp add: unat_eq_0)
  show "unat (heap_align_up v a) \<le> p" if p: "unat v \<le> p" "p mod unat a = 0"
  proof -
    have "unat x div 2 ^ k \<le> (p + (2 ^ k - 1)) div 2 ^ k" using p(1) ux by (intro div_le_mono) simp
    also have "(p + (2 ^ k - 1)) div 2 ^ k = p div 2 ^ k"
    proof -
      obtain q where q: "p = 2 ^ k * q" using p(2) ua by (auto simp: mod_eq_0_iff_dvd elim: dvdE)
      have "(2 ^ k * q + (2 ^ k - 1)) div 2 ^ k = q + (2 ^ k - 1) div 2 ^ k" by (rule div_mult_self4) simp
      then show ?thesis by (simp add: q)
    qed
    finally have "unat x div 2 ^ k * 2 ^ k \<le> p div 2 ^ k * 2 ^ k" by simp
    then show ?thesis unfolding u using div_times_less_eq_dividend [of p "2 ^ k"] by (rule order_trans)
  qed
qed

text \<open>
  Allocation keeps the invariant, adds exactly one allocation, and writes only inside the free
  block that it takes.
\<close>

section \<open>Taking a block\<close>

definition taken :: "u64 \<Rightarrow> u64 \<Rightarrow> u64 \<Rightarrow> u64 \<Rightarrow> u64 \<Rightarrow> HeapBlock" where
  "taken offset sz po n al = \<lparr>bl_magic = BLOCK_MAGIC, bl_offset = offset, bl_size = sz,
     bl_payload_offset = po, bl_requested_size = n, bl_alignment = al, bl_allocated = True,
     bl_active = True\<rparr>"

text \<open>The conditions under which the loop of \<open>alloc\<close> takes block \<open>i\<close> for \<open>n\<close> bytes at \<open>po\<close>.\<close>

definition fits :: "HeapBlock list \<Rightarrow> nat \<Rightarrow> u64 \<Rightarrow> u64 \<Rightarrow> u64 \<Rightarrow> u64 \<Rightarrow> bool" where
  "fits bs i n al po ue \<longleftrightarrow> i < length bs \<and> vacant (bs ! i) \<and> n \<noteq> 0 \<and> 8 \<le> al \<and> is_power_of_two al
     \<and> po mod al = 0 \<and> unat (bl_offset (bs ! i)) + 8 \<le> unat po \<and> unat ue = unat po + unat n + 8
     \<and> unat ue \<le> unat (bl_offset (bs ! i)) + unat (bl_size (bs ! i))"

text \<open>The block table after the block has been taken, and split when a slot is free.\<close>

definition take_table :: "HeapBlock list \<Rightarrow> nat \<Rightarrow> u64 \<Rightarrow> u64 \<Rightarrow> u64 \<Rightarrow> u64 \<Rightarrow> HeapBlock list" where
  "take_table bs i n al po ue =
     (let b = bs ! i; whole = bs[i := taken (bl_offset b) (bl_size b) po n al];
          r = sat_sub (block_end b) ue
      in if r < MIN_SPLIT_BYTES then whole
         else case free_metadata_slot whole of
           None \<Rightarrow> whole
         | Some s \<Rightarrow> bs[i := taken (bl_offset b) (sat_sub ue (bl_offset b)) po n al,
                         s := HeapBlock_free ue r])"

lemma position_cong:
  assumes "length xs = length ys" "\<And>k. k < length xs \<Longrightarrow> P (xs ! k) = P (ys ! k)"
  shows "position P xs = position P ys"
  using assms
proof (induction xs arbitrary: ys)
  case (Cons x xs)
  then obtain y zs where ys: "ys = y # zs" by (cases ys) auto
  have "position P xs = position P zs"
    using Cons.prems(1) Cons.prems(2) [of "Suc _"] by (intro Cons.IH) (auto simp: ys)
  then show ?case using Cons.prems(2) [of 0] by (simp add: ys)
qed simp

lemma take_block_table:
  assumes "i < length (kh_blocks h)" "vacant (kh_blocks h ! i)"
  shows "\<exists>h'. take_block h i n al po ue = (Some (sat_add HEAP_BASE po), h')
     \<and> (\<exists>a w. h' = (write_allocation_canaries (h\<lparr>kh_blocks := take_table (kh_blocks h) i n al po ue\<rparr>) i)
              \<lparr>kh_allocations := a, kh_high_watermark := w\<rparr>)"
proof -
  let ?bs = "kh_blocks h" let ?b = "?bs ! i"
  have slot: "free_metadata_slot (?bs[i := taken (bl_offset ?b) s po n al])
      = free_metadata_slot (?bs[i := taken (bl_offset ?b) s' po n al])" for s s'
    unfolding free_metadata_slot_def
    by (rule position_cong) (use assms in \<open>auto simp: taken_def nth_list_update\<close>)
  have ne: "free_metadata_slot (?bs[i := taken (bl_offset ?b) s po n al]) \<noteq> Some i" for s
    unfolding free_metadata_slot_def using assms by (auto dest!: position_SomeD simp: taken_def)
  have "take_table ?bs i n al po ue =
      (let r = sat_sub (block_end ?b) ue;
           bs = ?bs[i := taken (bl_offset ?b) (if MIN_SPLIT_BYTES \<le> r then sat_sub ue (bl_offset ?b)
                  else bl_size ?b) po n al]
       in if MIN_SPLIT_BYTES \<le> r
          then (case free_metadata_slot bs of Some slot \<Rightarrow> bs[slot := HeapBlock_free ue r]
                | None \<Rightarrow> bs[i := (bs ! i)\<lparr>bl_size := bl_size ?b\<rparr>])
          else bs)"
    using assms(1) slot [of "sat_sub ue (bl_offset ?b)" "bl_size ?b"]
    by (auto simp: take_table_def Let_def taken_def not_less split: option.splits)
  then have "take_block h i n al po ue =
      (let h = write_allocation_canaries (h\<lparr>kh_blocks := take_table ?bs i n al po ue\<rparr>) i;
           h = h\<lparr>kh_allocations := sat_add (kh_allocations h) 1\<rparr>;
           used = hst_allocated_bytes (compute_stats h);
           h = h\<lparr>kh_high_watermark := max (kh_high_watermark h) used\<rparr>
       in (Some (sat_add HEAP_BASE po), h))"
    unfolding take_block_def Let_def taken_def by (simp only:)
  then show ?thesis unfolding Let_def by blast
qed

lemma nth_one: "b \<in> set (bs[i := x]) \<Longrightarrow> b = x \<or> (\<exists>k < length bs. k \<noteq> i \<and> b = bs ! k)"
  by (metis in_set_conv_nth length_list_update nth_list_update_eq nth_list_update_neq)

lemma nth_two:
  assumes "b \<in> set (bs[i := x, j := y])"
  shows "b = x \<or> b = y \<or> (\<exists>k < length bs. k \<noteq> i \<and> k \<noteq> j \<and> b = bs ! k)"
proof -
  from nth_one [OF assms] consider "b = y" | k where "k < length bs" "k \<noteq> j" "b = bs[i := x] ! k" by auto
  then show ?thesis
  proof cases
    case (2 k)
    then show ?thesis by (cases "k = i") auto
  qed simp
qed

lemma no_adjacent_shrink:
  assumes "no_adjacent bs" "\<And>b. b \<in> set bs' \<Longrightarrow> vacant b \<Longrightarrow> b \<in> set bs"
  shows "no_adjacent bs'"
  using assms by (auto simp: no_adjacent_def)

lemma no_adjacent_split:
  assumes inv: "blocks_inv bs" and na: "no_adjacent bs" and ij: "i < length bs" "j < length bs" "i \<noteq> j"
    and b: "vacant (bs ! i)" and x: "\<not> vacant x"
    and y: "unat (bl_offset (bs ! i)) < unat (bl_offset y)" "bl_size y \<noteq> 0"
      "unat (bl_offset y) + unat (bl_size y) = unat (bl_offset (bs ! i)) + unat (bl_size (bs ! i))"
  shows "no_adjacent (bs[i := x, j := y])"
proof -
  let ?e = "\<lambda>b. unat (bl_offset b) + unat (bl_size b)"
  have ys: "0 < unat (bl_size y)" using y(2) by (simp add: unat_gt_0)
  have a: "?e (bs ! k) \<noteq> unat (bl_offset y) \<and> ?e y \<noteq> unat (bl_offset (bs ! k))"
    if k: "k < length bs" "k \<noteq> i" "vacant (bs ! k)" for k
  proof
    have "range_of (bs ! k) \<inter> range_of (bs ! i) = {}"
      using tiles_disjoint [of bs k i] k ij inv by (simp add: blocks_inv_def)
    moreover have "unat (bl_offset y) - 1 \<in> range_of (bs ! i)"
      using y ys b by (auto simp: range_of_def vacant_def)
    moreover have "?e (bs ! k) - 1 \<in> range_of (bs ! k)"
      using block_bounds(3) [OF inv nth_mem [OF k(1)]] k(3) by (auto simp: range_of_def vacant_def)
    ultimately show "?e (bs ! k) \<noteq> unat (bl_offset y)" by (metis disjoint_iff)
    show "?e y \<noteq> unat (bl_offset (bs ! k))"
      using na b k(1,3) ij(1) unfolding y(3) no_adjacent_def by auto
  qed
  show ?thesis
    unfolding no_adjacent_def using a x ys na
    by (auto dest!: nth_two simp: no_adjacent_def)
qed

lemma taken_ok:
  assumes "fits bs i n al po ue" "unat sz \<le> unat (bl_size (bs ! i))"
    "unat ue \<le> unat (bl_offset (bs ! i)) + unat sz"
  shows "block_ok (taken (bl_offset (bs ! i)) sz po n al)" "live (taken (bl_offset (bs ! i)) sz po n al)"
proof -
  have "0 < unat sz" using assms by (simp add: fits_def)
  then show "block_ok (taken (bl_offset (bs ! i)) sz po n al)" "live (taken (bl_offset (bs ! i)) sz po n al)"
    using assms by (auto simp: fits_def block_ok_def taken_def live_def unat_gt_0)
qed

text \<open>The table after an allocation: the invariant holds and one allocation is new.\<close>

lemma take_table_spec:
  assumes inv: "blocks_inv bs" and na: "no_adjacent bs" and fit: "fits bs i n al po ue"
  defines "bs' \<equiv> take_table bs i n al po ue"
  shows "blocks_inv bs' \<and> no_adjacent bs' \<and> live (bs' ! i) \<and> bl_payload_offset (bs' ! i) = po
    \<and> bl_requested_size (bs' ! i) = n \<and> range_of (bs' ! i) \<subseteq> range_of (bs ! i)
    \<and> (\<forall>j < length bs. j \<noteq> i \<longrightarrow> live (bs' ! j) \<longrightarrow> bs' ! j = bs ! j)
    \<and> (\<forall>j < length bs. live (bs ! j) \<longrightarrow> j \<noteq> i \<and> bs' ! j = bs ! j)"
proof -
  define b where "b = bs ! i"
  have f: "i < length bs" "vacant b" using fit by (simp_all add: fits_def b_def)
  have act: "bl_active b" using f(2) by (simp add: vacant_def)
  note bb = block_bounds [OF inv nth_mem [OF f(1)], folded b_def, OF act]
  let ?x = "taken (bl_offset b) (bl_size b) po n al"
  have x: "block_ok ?x" "live ?x" using taken_ok [OF fit, of "bl_size b"] fit by (auto simp: b_def fits_def)
  have rx: "range_of ?x = range_of (bs ! i)" using act by (simp add: range_of_def taken_def b_def)
  have nx: "no_adjacent (bs[i := ?x])"
    by (rule no_adjacent_shrink [OF na]) (use x(2) in \<open>auto dest!: nth_one simp: live_def vacant_def\<close>)
  have whole: ?thesis if "bs' = bs[i := ?x]"
    unfolding that using blocks_inv_one [OF inv f(1) rx x(1)] nx f x(2) rx
    by (auto simp: live_def vacant_def taken_def b_def nth_list_update)
  define r where "r = sat_sub (block_end b) ue"
  show ?thesis
  proof (cases "r < MIN_SPLIT_BYTES \<or> free_metadata_slot (bs[i := ?x]) = None")
    case True
    then show ?thesis by (intro whole) (auto simp: bs'_def take_table_def Let_def b_def r_def)
  next
    case False
    then obtain s where s: "free_metadata_slot (bs[i := ?x]) = Some s" by auto
    let ?y = "taken (bl_offset b) (sat_sub ue (bl_offset b)) po n al" and ?z = "HeapBlock_free ue r"
    have s': "s < length bs" "s \<noteq> i" "\<not> bl_active (bs ! s)"
      using s f(1) unfolding free_metadata_slot_def
      by (auto dest!: position_SomeD simp: nth_list_update taken_def split: if_splits)
    have e: "bs' = bs[i := ?y, s := ?z]"
      using False s by (simp add: bs'_def take_table_def Let_def b_def r_def)
    have fb: "unat (bl_offset b) + 8 \<le> unat po" "unat ue = unat po + unat n + 8"
      "unat ue \<le> unat (bl_offset b) + unat (bl_size b)" using fit by (simp_all add: fits_def b_def)
    have ur: "unat r = unat (bl_offset b) + unat (bl_size b) - unat ue"
      by (simp add: r_def unat_sat_sub bb)
    have r32: "32 \<le> unat r" using False by (simp add: word_less_nat_alt MIN_SPLIT_BYTES_def)
    then have r0: "r \<noteq> 0" by auto
    have us: "unat (sat_sub ue (bl_offset b)) = unat ue - unat (bl_offset b)" by (simp add: unat_sat_sub)
    have y: "block_ok ?y" "live ?y"
      using taken_ok [OF fit, of "sat_sub ue (bl_offset b)"] fb us by (auto simp: b_def)
    have z: "block_ok ?z" using r0 by (simp add: block_ok_def HeapBlock_free_def live_def)
    have ry: "range_of ?y = {unat (bl_offset b)..<unat ue}" using us fb by (simp add: range_of_def taken_def)
    have rz: "range_of ?z = {unat ue..<unat (bl_offset b) + unat (bl_size b)}"
      using ur fb by (simp add: range_of_def HeapBlock_free_def)
    have rb: "range_of (bs ! i) = {unat (bl_offset b)..<unat (bl_offset b) + unat (bl_size b)}"
      "range_of (bs ! s) = {}"
      using act s' by (simp_all add: range_of_def b_def)
    have "blocks_inv bs'" unfolding e
      by (rule blocks_inv_two [OF inv f(1) s'(1) s'(2) [symmetric]])
        (use ry rz rb fb y z in \<open>auto simp: ivl_disj_un\<close>)
    moreover have "no_adjacent bs'" unfolding e
      by (rule no_adjacent_split [OF inv na f(1) s'(1) s'(2) [symmetric]])
        (use f fb y ur r0 r32 in \<open>auto simp: b_def HeapBlock_free_def live_def vacant_def\<close>)
    ultimately show ?thesis using f s' y ry rb fb unfolding e
      by (auto simp: live_def vacant_def taken_def b_def HeapBlock_free_def nth_list_update)
  qed
qed

section \<open>The allocation as a whole\<close>

lemma allocations_table:
  assumes "live (bs' ! i)" "i < length bs" "length bs' = length bs"
    "\<forall>j < length bs. j \<noteq> i \<longrightarrow> live (bs' ! j) \<longrightarrow> bs' ! j = bs ! j"
    "\<forall>j < length bs. live (bs ! j) \<longrightarrow> j \<noteq> i \<and> bs' ! j = bs ! j"
  shows "allocations bs' = insert (unat (bl_payload_offset (bs' ! i)), unat (bl_requested_size (bs' ! i)))
    (allocations bs)"
proof -
  let ?key = "\<lambda>b. (unat (bl_payload_offset b), unat (bl_requested_size b))"
  have a: "allocations xs = (\<lambda>j. ?key (xs ! j)) ` {j. j < length xs \<and> live (xs ! j)}" for xs
    unfolding allocations_nth by (simp add: image_Collect)
  have "live (bs' ! j) \<longleftrightarrow> j = i \<or> live (bs ! j)" if "j < length bs" for j
    using assms that by metis
  then have "{j. j < length bs' \<and> live (bs' ! j)} = insert i {j. j < length bs \<and> live (bs ! j)}"
    using assms(2,3) by auto
  then have "allocations bs' = insert (?key (bs' ! i)) ((\<lambda>j. ?key (bs' ! j)) ` {j. j < length bs \<and> live (bs ! j)})"
    by (simp add: a)
  also have "(\<lambda>j. ?key (bs' ! j)) ` {j. j < length bs \<and> live (bs ! j)} = allocations bs"
    unfolding a by (rule image_cong) (use assms(5) in auto)
  finally show ?thesis .
qed

text \<open>The bytes of the payloads that a client holds.\<close>

definition payload_bytes :: "HeapBlock list \<Rightarrow> nat set" where
  "payload_bytes bs = (\<Union>(p, n) \<in> allocations bs. {p..<p + n})"

lemma payload_bytes_blocks: "payload_bytes bs = (\<Union>b \<in> {b \<in> set bs. live b}. payload_of b)"
  by (fastforce simp: payload_bytes_def allocations_def payload_of_def)

lemma payload_bytes_window:
  assumes "blocks_inv bs"
  shows "payload_bytes bs \<subseteq> {64..<65536}"
  unfolding payload_bytes_blocks
  using payload_in_range [OF assms] tiles_range assms unfolding blocks_inv_def by fast

lemma payload_outside:
  assumes inv: "blocks_inv bs" and i: "i < length bs" "vacant (bs ! i)"
  shows "payload_bytes bs \<inter> range_of (bs ! i) = {}"
proof -
  have "payload_of (bs ! j) \<inter> range_of (bs ! i) = {}" if "j < length bs" "live (bs ! j)" for j
  proof -
    have "j \<noteq> i" using that i by (auto simp: live_def vacant_def)
    then have "range_of (bs ! j) \<inter> range_of (bs ! i) = {}"
      using tiles_disjoint [of bs j i] inv that i by (simp add: blocks_inv_def)
    then show ?thesis using payload_in_range [OF inv nth_mem [OF that(1)] that(2)] by blast
  qed
  then show ?thesis unfolding payload_bytes_blocks by (auto simp: in_set_conv_nth)
qed

lemma take_block_spec:
  assumes inv: "heap_inv h" and fit: "fits (kh_blocks h) i n al po ue"
    and run: "take_block h i n al po ue = (r, h')"
  shows "heap_inv h' \<and> r = Some (HEAP_BASE + po)
    \<and> allocations (kh_blocks h') = insert (unat po, unat n) (allocations (kh_blocks h))
    \<and> {unat po..<unat po + unat n} \<subseteq> range_of (kh_blocks h ! i)
    \<and> agree ({..<65536} - range_of (kh_blocks h ! i)) (kh_memory h') (kh_memory h)"
proof -
  let ?bs = "kh_blocks h"
  define bs' where "bs' = take_table ?bs i n al po ue"
  have bi: "blocks_inv ?bs" "no_adjacent ?bs" "memory_inv ?bs (kh_memory h)"
    using inv by (simp_all add: heap_inv_def)
  have i: "i < length ?bs" "vacant (?bs ! i)" using fit by (simp_all add: fits_def)
  note T = take_table_spec [OF bi(1,2) fit, folded bs'_def]
  note T1 = T [THEN conjunct1] T [THEN conjunct2, THEN conjunct1] T [THEN conjunct2, THEN conjunct2, THEN conjunct1]
  from T have T2: "bl_payload_offset (bs' ! i) = po" "bl_requested_size (bs' ! i) = n"
    "range_of (bs' ! i) \<subseteq> range_of (?bs ! i)" by blast+
  from T have T3: "\<forall>j < length ?bs. j \<noteq> i \<longrightarrow> live (bs' ! j) \<longrightarrow> bs' ! j = ?bs ! j"
    "\<forall>j < length ?bs. live (?bs ! j) \<longrightarrow> j \<noteq> i \<and> bs' ! j = ?bs ! j" by blast+
  have len: "length bs' = MAX_BLOCKS" "length ?bs = MAX_BLOCKS"
    using T1 bi(1) by (simp_all add: blocks_inv_def tiles_def)
  define hb where "hb = h\<lparr>kh_blocks := bs'\<rparr>"
  have hb: "kh_blocks hb = bs'" "kh_memory hb = kh_memory h" by (simp_all add: hb_def)
  obtain mem where w: "write_allocation_canaries hb i = hb\<lparr>kh_memory := mem\<rparr>"
    and can: "canaries mem (bs' ! i)"
    and ag: "agree ({..<65536} - (range_of (bs' ! i) - payload_of (bs' ! i))) mem (kh_memory h)"
    by (rule write_canaries [of hb i, unfolded hb]) (use T1 i len in simp_all)
  obtain a w' where h': "h' = h\<lparr>kh_blocks := bs', kh_memory := mem, kh_allocations := a, kh_high_watermark := w'\<rparr>"
    and r: "r = Some (sat_add HEAP_BASE po)"
    using take_block_table [OF i, of n al po ue] run
    unfolding bs'_def [symmetric] hb_def [symmetric] w by (auto simp: hb_def)
  have ag': "agree ({..<65536} - range_of (bs' ! i)) mem (kh_memory h)" by (rule agree_mono [OF ag]) auto
  have "memory_inv bs' mem"
  proof (rule memory_inv_write [of bs' i])
    show "blocks_inv bs'" "i < length bs'" "canaries mem (bs' ! i)"
      "agree ({..<65536} - range_of (bs' ! i)) mem (kh_memory h)"
      using T1 i len can ag' by simp_all
    show "\<forall>k<64. heap_byte (kh_memory h) k = sentinel_byte k" using bi(3) by (simp add: memory_inv_def)
    show "canaries (kh_memory h) (bs' ! j)" if "j < length bs'" "j \<noteq> i" "live (bs' ! j)" for j
      proof -
      have "bs' ! j = ?bs ! j" "j < length ?bs" using T3(1) that len by simp_all
      then show ?thesis using bi(3) that(3) by (simp add: memory_inv_def)
    qed
  qed
  then have "heap_inv h'" using T1(1,2) inv by (simp add: h' heap_inv_def)
  moreover have "sat_add HEAP_BASE po = HEAP_BASE + po"
    using fit block_bounds(2) [OF bi(1) nth_mem [OF i(1)]] i(2)
    by (intro sat_add_base) (auto simp: fits_def vacant_def)
  moreover have "allocations bs' = insert (unat po, unat n) (allocations ?bs)"
    using allocations_table [OF T1(3) i(1) _ T3] len by (simp add: T2)
  moreover have "{unat po..<unat po + unat n} \<subseteq> range_of (?bs ! i)"
    using fit by (auto simp: fits_def range_of_def vacant_def)
  moreover have "agree ({..<65536} - range_of (?bs ! i)) mem (kh_memory h)"
    by (rule agree_mono [OF ag']) (use T2(3) in blast)
  ultimately show ?thesis by (simp add: h' r)
qed

text \<open>Some free block has room for \<open>n\<close> bytes at alignment \<open>a\<close> and the two canaries.\<close>

definition has_room :: "HeapBlock list \<Rightarrow> nat \<Rightarrow> nat \<Rightarrow> bool" where
  "has_room bs n a \<longleftrightarrow> (\<exists>b \<in> set bs. vacant b \<and> (\<exists>p. unat (bl_offset b) + 8 \<le> p
     \<and> p + n + 8 \<le> unat (bl_offset b) + unat (bl_size b) \<and> p mod a = 0))"

definition align_ok :: "u64 \<Rightarrow> bool" where
  "align_ok al \<longleftrightarrow> 8 \<le> al \<and> is_power_of_two al \<and> unat al \<le> 4096"

lemma block_room:
  fixes n :: u64
  assumes inv: "blocks_inv bs" and b: "b \<in> set bs" "vacant b" and al: "align_ok al"
  defines "po \<equiv> heap_align_up (sat_add (bl_offset b) ALLOC_CANARY_BYTES) al"
  defines "ue \<equiv> sat_add (sat_add po n) ALLOC_CANARY_BYTES"
  shows "\<not> block_end b < ue \<Longrightarrow> unat (bl_offset b) + 8 \<le> unat po \<and> po mod al = 0
      \<and> unat ue = unat po + unat n + 8 \<and> unat ue \<le> unat (bl_offset b) + unat (bl_size b)"
    and "block_end b < ue \<Longrightarrow> unat (bl_offset b) + 8 \<le> p \<Longrightarrow> p mod unat al = 0 \<Longrightarrow>
      unat (bl_offset b) + unat (bl_size b) < p + unat n + 8"
proof -
  have act: "bl_active b" using b(2) by (simp add: vacant_def)
  note bb = block_bounds [OF inv b(1) act]
  have uv: "unat (sat_add (bl_offset b) ALLOC_CANARY_BYTES) = unat (bl_offset b) + 8"
    using bb by (simp add: unat_sat_add ALLOC_CANARY_BYTES_def)
  have le: "unat (bl_offset b) + 8 \<le> 65544" using bb by linarith
  have al': "is_power_of_two al" "unat al \<le> 4096" using al by (simp_all add: align_ok_def)
  have A: "unat (bl_offset b) + 8 \<le> unat po" "po mod al = 0"
    "unat (bl_offset b) + 8 \<le> p \<Longrightarrow> p mod unat al = 0 \<Longrightarrow> unat po \<le> p" for p
    using heap_align_up_spec [OF al', of "sat_add (bl_offset b) ALLOC_CANARY_BYTES"] le
    unfolding po_def uv by auto
  have ue: "unat ue = min (min (unat po + unat n) (2 ^ 64 - 1) + 8) (2 ^ 64 - 1)"
    unfolding ue_def ALLOC_CANARY_BYTES_def unat_sat_add by simp
  show "\<not> block_end b < ue \<Longrightarrow> unat (bl_offset b) + 8 \<le> unat po \<and> po mod al = 0
      \<and> unat ue = unat po + unat n + 8 \<and> unat ue \<le> unat (bl_offset b) + unat (bl_size b)"
    using A(1,2) bb ue by (simp add: word_less_nat_alt)
  assume "block_end b < ue" and p: "unat (bl_offset b) + 8 \<le> p" "p mod unat al = 0"
  then show "unat (bl_offset b) + unat (bl_size b) < p + unat n + 8"
    using A(3) [OF p] bb ue by (simp add: word_less_nat_alt)
qed

lemma alloc_loop_spec:
  assumes inv: "heap_inv h" and n: "n \<noteq> 0" and al: "align_ok al" and "set is \<subseteq> {..<MAX_BLOCKS}"
    and "alloc_loop h n al is = (r, h')"
  shows "(\<exists>i po ue. fits (kh_blocks h) i n al po ue \<and> take_block h i n al po ue = (r, h'))
    \<or> ((r, h') = fail_allocation h \<and> (\<forall>i \<in> set is. vacant (kh_blocks h ! i) \<longrightarrow>
         (\<forall>p. unat (bl_offset (kh_blocks h ! i)) + 8 \<le> p \<longrightarrow> p mod unat al = 0 \<longrightarrow>
           unat (bl_offset (kh_blocks h ! i)) + unat (bl_size (kh_blocks h ! i)) < p + unat n + 8)))"
  using assms(4,5)
proof (induction "is")
  case (Cons i rest)
  let ?b = "kh_blocks h ! i"
  have bi: "blocks_inv (kh_blocks h)" using inv by (simp add: heap_inv_def)
  then have i: "i < length (kh_blocks h)" using Cons.prems(1) by (simp add: blocks_inv_def tiles_def)
  let ?po = "heap_align_up (sat_add (bl_offset ?b) ALLOC_CANARY_BYTES) al"
  let ?ue = "sat_add (sat_add ?po n) ALLOC_CANARY_BYTES"
  show ?case
  proof (cases "vacant ?b")
    case False
    then show ?thesis using Cons by (auto simp: vacant_def)
  next
    case True
    note R = block_room [OF bi nth_mem [OF i] True al, of n]
    show ?thesis
    proof (cases "block_end ?b < ?ue")
      case True
      then have "alloc_loop h n al rest = (r, h')"
        using Cons.prems(2) \<open>vacant ?b\<close> by (simp add: vacant_def Let_def)
      with Cons.IH Cons.prems(1) R(2) [OF True] show ?thesis by auto
    next
      case False
      then have "fits (kh_blocks h) i n al ?po ?ue"
        using R(1) [OF False] i \<open>vacant ?b\<close> n al by (simp add: fits_def align_ok_def)
      moreover have "take_block h i n al ?po ?ue = (r, h')"
        using Cons.prems(2) \<open>vacant ?b\<close> False by (simp add: vacant_def Let_def)
      ultimately show ?thesis by blast
    qed
  qed
qed simp

lemma heap_base_aligned: "unat HEAP_BASE mod 4096 = 0"
  by (simp add: HEAP_BASE_def KERNEL_HEAP_BASE_def KERNEL_HEAP_GUARD_LOW_def KERNEL_VIRTUAL_BASE_def
      PAGE_SIZE_4K_def)

lemma heap_address:
  assumes "unat po < 65536"
  shows "unat (HEAP_BASE + po) = unat HEAP_BASE + unat po"
  using heap_base_room assms by (simp add: unat_word_ariths)

lemma effective_align:
  assumes "is_power_of_two al" "unat al \<le> 4096"
  shows "align_ok (max al ALLOC_CANARY_BYTES)" "unat al dvd unat (max al ALLOC_CANARY_BYTES)" "unat al dvd 4096"
proof -
  obtain k where k: "al = 2 ^ k" "k < 64" by (rule power_of_two [OF assms(1)])
  then have u: "unat al = 2 ^ k" by (simp add: unat_two_power)
  have "(2 :: nat) ^ k \<le> 2 ^ 12" using assms(2) u by simp
  then have k12: "k \<le> 12" by (rule power_le_imp_le_exp [rotated]) simp
  then have "(2 :: nat) ^ k dvd 2 ^ 12" by (rule le_imp_power_dvd)
  then show "unat al dvd 4096" using u by simp
  have e: "al \<le> 8 \<longleftrightarrow> k \<le> 3"
  proof -
    have "al \<le> 8 \<longleftrightarrow> (2 :: nat) ^ k \<le> 2 ^ 3" using u by (simp add: word_le_nat_alt)
    then show ?thesis by (simp only: power_increasing_iff)
  qed
  show "unat al dvd unat (max al ALLOC_CANARY_BYTES)"
  proof (cases "al \<le> 8")
    case True
    then have "(2 :: nat) ^ k dvd 2 ^ 3" using e by (intro le_imp_power_dvd) simp
    then show ?thesis using True u by (simp add: max_def ALLOC_CANARY_BYTES_def)
  qed (simp add: max_def ALLOC_CANARY_BYTES_def)
  have "is_power_of_two 8" by (simp add: is_power_of_two_def)
  then show "align_ok (max al ALLOC_CANARY_BYTES)"
    using assms by (auto simp: align_ok_def max_def ALLOC_CANARY_BYTES_def)
qed

definition request_ok :: "u64 \<Rightarrow> u64 \<Rightarrow> bool" where
  "request_ok n al \<longleftrightarrow> n \<noteq> 0 \<and> is_power_of_two al \<and> unat al \<le> 4096"

lemma heap_alloc_cases:
  assumes inv: "heap_inv h" and run: "heap_alloc h n al = (r, h')"
  shows "(\<exists>i po ue. request_ok n al \<and> fits (kh_blocks h) i n (max al ALLOC_CANARY_BYTES) po ue
        \<and> take_block h i n (max al ALLOC_CANARY_BYTES) po ue = (r, h'))
    \<or> ((r, h') = fail_allocation h
       \<and> (request_ok n al \<longrightarrow> \<not> has_room (kh_blocks h) (unat n) (unat (max al ALLOC_CANARY_BYTES))))"
proof (cases "request_ok n al")
  case False
  then have "(r, h') = fail_allocation h"
    using run by (auto simp: request_ok_def heap_alloc_def is_power_of_two_def MAX_ALIGNMENT_def
        PAGE_SIZE_4K_def word_less_nat_alt split: if_splits)
  then show ?thesis using False by simp
next
  case True
  let ?al = "max al ALLOC_CANARY_BYTES"
  have ok: "n \<noteq> 0" "align_ok ?al" using True effective_align(1) by (simp_all add: request_ok_def)
  have "alloc_loop h n ?al [0..<MAX_BLOCKS] = (r, h')"
    using run True inv heap_inv_checks(1) [OF inv]
    by (simp add: heap_alloc_def request_ok_def is_power_of_two_def MAX_ALIGNMENT_def
        PAGE_SIZE_4K_def word_less_nat_alt heap_inv_def split: if_splits)
  moreover have "\<not> has_room (kh_blocks h) (unat n) (unat ?al)"
    if "\<forall>i \<in> set [0..<MAX_BLOCKS]. vacant (kh_blocks h ! i) \<longrightarrow>
         (\<forall>p. unat (bl_offset (kh_blocks h ! i)) + 8 \<le> p \<longrightarrow> p mod unat ?al = 0 \<longrightarrow>
           unat (bl_offset (kh_blocks h ! i)) + unat (bl_size (kh_blocks h ! i)) < p + unat n + 8)"
  proof
    assume "has_room (kh_blocks h) (unat n) (unat ?al)"
    moreover have "length (kh_blocks h) = MAX_BLOCKS"
      using inv by (simp add: heap_inv_def blocks_inv_def tiles_def)
    ultimately show False using that by (fastforce simp: has_room_def in_set_conv_nth)
  qed
  ultimately show ?thesis using alloc_loop_spec [OF inv ok, of "[0..<MAX_BLOCKS]" r h'] True
    by fastforce
qed

end
