(* ===== verification/Heap_Interface.thy ===== *)
theory Heap_Interface
  imports Heap_Alloc
begin

unbundle bit_operations_syntax

text \<open>
  Release: the freed block becomes vacant and the merge loop runs until no two vacant blocks are
  neighbours. Merging moves the bytes of two vacant descriptors into one, so the tiling and the
  allocations of every client stay as they are.
\<close>

section \<open>One merge\<close>

definition merged :: "HeapBlock list \<Rightarrow> HeapBlock list \<Rightarrow> bool" where
  "merged bs bs' \<longleftrightarrow> (\<exists>l r x. l < length bs \<and> r < length bs \<and> l \<noteq> r \<and> vacant (bs ! l) \<and> vacant (bs ! r)
     \<and> bs' = bs[l := x, r := HeapBlock_empty] \<and> vacant x \<and> block_ok x
     \<and> range_of x = range_of (bs ! l) \<union> range_of (bs ! r))"

lemma join_blocks:
  assumes inv: "blocks_inv bs" and l: "l < length bs" "vacant (bs ! l)" and r: "r < length bs" "vacant (bs ! r)"
    and adj: "block_end (bs ! l) = bl_offset (bs ! r)"
    and x: "vacant x" "bl_magic x = BLOCK_MAGIC" "bl_offset x = bl_offset (bs ! l)"
      "bl_size x = sat_add (bl_size (bs ! l)) (bl_size (bs ! r))
       \<or> bl_size x = sat_add (bl_size (bs ! r)) (bl_size (bs ! l))"
  shows "block_ok x" "range_of x = range_of (bs ! l) \<union> range_of (bs ! r)"
proof -
  have act: "bl_active (bs ! l)" "bl_active (bs ! r)" using l r by (simp_all add: vacant_def)
  note L = block_bounds [OF inv nth_mem [OF l(1)] act(1)] and R = block_bounds [OF inv nth_mem [OF r(1)] act(2)]
  have s: "unat (bl_size x) = unat (bl_size (bs ! l)) + unat (bl_size (bs ! r))"
    using x(4) L(2) R(2) by (auto simp: unat_sat_add)
  then have "bl_size x \<noteq> 0" using L(3) by auto
  then show "block_ok x" using x by (simp add: block_ok_def vacant_def live_def)
  have "unat (bl_offset (bs ! r)) = unat (bl_offset (bs ! l)) + unat (bl_size (bs ! l))"
    using L(5) adj by simp
  then show "range_of x = range_of (bs ! l) \<union> range_of (bs ! r)"
    using s x act by (auto simp: range_of_def vacant_def)
qed

lemma merge_right_spec:
  assumes inv: "blocks_inv bs" and l: "l < length bs" "vacant (bs ! l)" and "set rs \<subseteq> {..<length bs}"
  shows "case merge_right bs l rs of
      Some bs' \<Rightarrow> merged bs bs'
    | None \<Rightarrow> \<forall>r \<in> set rs. r \<noteq> l \<longrightarrow> vacant (bs ! r) \<longrightarrow> block_end (bs ! l) \<noteq> bl_offset (bs ! r)"
  using assms(4)
proof (induction rs)
  case (Cons r rest)
  have r: "r < length bs" using Cons.prems by simp
  have m: "bl_magic (bs ! k) = BLOCK_MAGIC" if "k < length bs" "vacant (bs ! k)" for k
    using block_bounds(4) [OF inv nth_mem [OF that(1)]] that(2) by (simp add: vacant_def)
  show ?case
  proof (cases "l = r \<or> \<not> vacant (bs ! r)")
    case True
    then show ?thesis using Cons by (auto simp: vacant_def split: option.splits)
  next
    case False
    then have v: "vacant (bs ! r)" "l \<noteq> r" by simp_all
    show ?thesis
    proof (cases "block_end (bs ! l) = bl_offset (bs ! r)")
      case adj: True
      let ?x = "(bs ! l)\<lparr>bl_size := sat_add (bl_size (bs ! l)) (bl_size (bs ! r))\<rparr>"
      have "vacant ?x" using l by (simp add: vacant_def)
      with join_blocks [OF inv l r v(1) adj, of ?x] m [OF l] l r v have
        "merged bs (bs[l := ?x, r := HeapBlock_empty])" by (auto simp: merged_def)
      then show ?thesis using adj v by (simp add: vacant_def)
    next
      case no: False
      show ?thesis
      proof (cases "block_end (bs ! r) = bl_offset (bs ! l)")
        case adj: True
        let ?x = "(bs ! l)\<lparr>bl_offset := bl_offset (bs ! r), bl_size := sat_add (bl_size (bs ! l)) (bl_size (bs ! r))\<rparr>"
        have "vacant ?x" using l by (simp add: vacant_def)
        with join_blocks [OF inv r v(1) l adj, of ?x] m [OF l] l r v have
          "merged bs (bs[l := ?x, r := HeapBlock_empty])" by (auto simp: merged_def Un_commute)
        then show ?thesis using adj no v by (simp add: vacant_def)
      next
        case False
        then show ?thesis using Cons no v by (auto simp: vacant_def split: option.splits)
      qed
    qed
  qed
qed simp

lemma merge_left_spec:
  assumes inv: "blocks_inv bs" and "set ls \<subseteq> {..<length bs}"
  shows "case merge_left bs ls of
      Some bs' \<Rightarrow> merged bs bs'
    | None \<Rightarrow> \<forall>l \<in> set ls. vacant (bs ! l) \<longrightarrow> (\<forall>r < length bs. r \<noteq> l \<longrightarrow> vacant (bs ! r) \<longrightarrow>
        block_end (bs ! l) \<noteq> bl_offset (bs ! r))"
  using assms(2)
proof (induction ls)
  case (Cons l rest)
  then have IH: "case merge_left bs rest of Some bs' \<Rightarrow> merged bs bs'
    | None \<Rightarrow> \<forall>l \<in> set rest. vacant (bs ! l) \<longrightarrow> (\<forall>r < length bs. r \<noteq> l \<longrightarrow> vacant (bs ! r) \<longrightarrow>
        block_end (bs ! l) \<noteq> bl_offset (bs ! r))" and l: "l < length bs" by simp_all
  show ?case
  proof (cases "vacant (bs ! l)")
    case True
    have "set [0..<length bs] \<subseteq> {..<length bs}" by auto
    from merge_right_spec [OF inv l True this] True IH show ?thesis
      by (auto simp: vacant_def split: option.splits)
  next
    case False
    then show ?thesis using IH by (auto simp: vacant_def split: option.splits)
  qed
qed simp

lemma merged_keeps:
  assumes inv: "blocks_inv bs" and m: "merged bs bs'"
  shows "blocks_inv bs'" "{b \<in> set bs'. live b} = {b \<in> set bs. live b}"
proof -
  obtain l r x where lr: "l < length bs" "r < length bs" "l \<noteq> r" "vacant (bs ! l)" "vacant (bs ! r)"
    and e: "bs' = bs[l := x, r := HeapBlock_empty]" and x: "vacant x" "block_ok x"
    and rx: "range_of x = range_of (bs ! l) \<union> range_of (bs ! r)"
    using m unfolding merged_def by blast
  have em: "range_of HeapBlock_empty = {}" "block_ok HeapBlock_empty" "\<not> live HeapBlock_empty"
    by (simp_all add: range_of_def HeapBlock_empty_def block_ok_def live_def)
  show "blocks_inv bs'" unfolding e
    by (rule blocks_inv_two [OF inv lr(1-3)]) (use rx em x in simp_all)
  have nx: "\<not> live x" "\<not> live (bs ! l)" "\<not> live (bs ! r)" using x lr by (simp_all add: vacant_def live_def)
  have "b \<in> set bs" if "b \<in> set bs'" "live b" for b
    using nth_two [of b bs l x r HeapBlock_empty] that nx em(3) unfolding e by auto
  moreover have "b \<in> set bs'" if "b \<in> set bs" "live b" for b
  proof -
    obtain k where k: "k < length bs" "b = bs ! k" using \<open>b \<in> set bs\<close> by (auto simp: in_set_conv_nth)
    then have "k \<noteq> l" "k \<noteq> r" using nx that by auto
    then have "bs' ! k = b" "k < length bs'" using k by (simp_all add: e)
    then show ?thesis by (metis nth_mem)
  qed
  ultimately show "{b \<in> set bs'. live b} = {b \<in> set bs. live b}" by blast
qed

section \<open>The merge loop\<close>

lemma coalesce_spec:
  assumes "blocks_inv (kh_blocks h)"
  shows "\<exists>bs' c. coalesce_free_blocks h = h\<lparr>kh_blocks := bs', kh_coalesces := c\<rparr>
    \<and> blocks_inv bs' \<and> no_adjacent bs' \<and> {b \<in> set bs'. live b} = {b \<in> set (kh_blocks h). live b}"
  using assms
proof (induction h rule: coalesce_free_blocks.induct)
  case (1 h)
  let ?bs = "kh_blocks h"
  have "set [0..<length ?bs] \<subseteq> {..<length ?bs}" by auto
  note M = merge_left_spec [OF 1(2) this]
  show ?case
  proof (cases "merge_left ?bs [0..<length ?bs]")
    case None
    have "unat (bl_offset (?bs ! i)) + unat (bl_size (?bs ! i)) \<noteq> unat (bl_offset (?bs ! j))"
      if ij: "i < length ?bs" "j < length ?bs" "vacant (?bs ! i)" "vacant (?bs ! j)" for i j
    proof -
      note b = block_bounds(3,5) [OF 1(2) nth_mem [OF ij(1)]]
      have act: "bl_active (?bs ! i)" using ij by (simp add: vacant_def)
      show ?thesis
      proof (cases "i = j")
        case True
        then show ?thesis using b(1) [OF act] by simp
      next
        case False
        then have "block_end (?bs ! i) \<noteq> bl_offset (?bs ! j)" using M None ij by auto
        then show ?thesis using b(2) [OF act] by (metis word_unat_eq_iff)
      qed
    qed
    then have "no_adjacent ?bs" by (auto simp: no_adjacent_def in_set_conv_nth)
    moreover have "coalesce_free_blocks h = h\<lparr>kh_blocks := ?bs, kh_coalesces := kh_coalesces h\<rparr>"
      using None by (subst coalesce_free_blocks.simps) simp
    ultimately show ?thesis using 1(2) by blast
  next
    case (Some bs1)
    then have m: "merged ?bs bs1" using M by simp
    note k = merged_keeps [OF 1(2) m]
    let ?h1 = "h\<lparr>kh_blocks := bs1, kh_coalesces := sat_add (kh_coalesces h) 1\<rparr>"
    obtain bs' c where "coalesce_free_blocks ?h1 = ?h1\<lparr>kh_blocks := bs', kh_coalesces := c\<rparr>"
      "blocks_inv bs'" "no_adjacent bs'" "{b \<in> set bs'. live b} = {b \<in> set bs1. live b}"
      using 1(1) [OF Some] k(1) by auto
    moreover have "coalesce_free_blocks h = coalesce_free_blocks ?h1"
      using Some by (subst coalesce_free_blocks.simps) simp
    ultimately show ?thesis using k(2) by auto
  qed
qed

section \<open>Release of one allocation\<close>

lemma allocations_image:
  "allocations bs = (\<lambda>b. (unat (bl_payload_offset b), unat (bl_requested_size b))) ` {b \<in> set bs. live b}"
  unfolding allocations_def by blast

lemma allocations_live: "{b \<in> set bs'. live b} = {b \<in> set bs. live b} \<Longrightarrow> allocations bs' = allocations bs"
  unfolding allocations_def by blast

lemma memory_inv_live:
  "{b \<in> set bs'. live b} \<subseteq> {b \<in> set bs. live b} \<Longrightarrow> memory_inv bs mem \<Longrightarrow> memory_inv bs' mem"
  by (auto simp: memory_inv_def)

text \<open>The address of an allocation that a client holds.\<close>

definition held :: "KernelHeap \<Rightarrow> u64 \<Rightarrow> bool" where
  "held h address \<longleftrightarrow> HEAP_BASE \<le> address
     \<and> unat (address - HEAP_BASE) \<in> fst ` allocations (kh_blocks h)"

lemma find_allocated:
  assumes inv: "blocks_inv (kh_blocks h)"
  shows "case find_allocated_block h address of
      Some i \<Rightarrow> held h address \<and> i < length (kh_blocks h) \<and> live (kh_blocks h ! i)
        \<and> bl_payload_offset (kh_blocks h ! i) = address - HEAP_BASE
    | None \<Rightarrow> \<not> held h address"
proof (cases "HEAP_BASE \<le> address")
  case False
  then show ?thesis by (simp add: find_allocated_block_def checked_sub_def held_def not_le)
next
  case True
  let ?P = "\<lambda>b. bl_active b \<and> bl_allocated b \<and> bl_payload_offset b = address - HEAP_BASE"
  have f: "find_allocated_block h address = position ?P (kh_blocks h)"
    using True by (auto simp: find_allocated_block_def checked_sub_def dest: leD)
  show ?thesis
  proof (cases "position ?P (kh_blocks h)")
    case None
    then have "\<not> held h address"
      by (fastforce simp: held_def allocations_def live_def position_None_iff word_unat_eq_iff)
    then show ?thesis by (simp add: f None)
  next
    case (Some i)
    from position_SomeD [OF this] have "i < length (kh_blocks h)" "?P (kh_blocks h ! i)" by auto
    then have "held h address" using True unfolding held_def allocations_def live_def
      by (force intro: nth_mem)
    then show ?thesis using \<open>i < _\<close> \<open>?P _\<close> by (simp add: f Some live_def)
  qed
qed

lemma free_live:
  assumes inv: "blocks_inv bs" and i: "i < length bs" "live (bs ! i)"
    and y: "y = (bs ! i)\<lparr>bl_allocated := False, bl_payload_offset := 0, bl_requested_size := 0, bl_alignment := 0\<rparr>"
  shows "blocks_inv (bs[i := y])" "{b \<in> set (bs[i := y]). live b} = {b \<in> set bs. live b} - {bs ! i}"
proof -
  have "block_ok (bs ! i)" using inv i by (simp add: blocks_inv_def)
  then show "blocks_inv (bs[i := y])"
    by (intro blocks_inv_one [OF inv i(1)]) (simp_all add: y range_of_def block_ok_def live_def)
  have ny: "\<not> live y" by (simp add: y live_def)
  have "b \<in> set bs \<and> b \<noteq> bs ! i" if b: "b \<in> set (bs[i := y])" "live b" for b
  proof -
    obtain k where k: "k < length bs" "k \<noteq> i" "b = bs ! k" using nth_one [OF b(1)] ny b(2) by auto
    then show ?thesis using live_distinct [OF inv k(1) i(1)] b(2) i(2) by auto
  qed
  moreover have "b \<in> set (bs[i := y])" if b: "b \<in> set bs" "live b" "b \<noteq> bs ! i" for b
  proof -
    obtain k where k: "k < length bs" "b = bs ! k" using b(1) by (auto simp: in_set_conv_nth)
    then have "k \<noteq> i" using b(3) by auto
    then have "bs[i := y] ! k = b" using k by simp
    then show ?thesis using k(1) by (metis length_list_update nth_mem)
  qed
  ultimately show "{b \<in> set (bs[i := y]). live b} = {b \<in> set bs. live b} - {bs ! i}" by blast
qed

lemma allocations_remove:
  assumes inv: "blocks_inv bs" and i: "i < length bs" "live (bs ! i)"
    and e: "{b \<in> set bs'. live b} = {b \<in> set bs. live b} - {bs ! i}"
  shows "allocations bs' = {a \<in> allocations bs. fst a \<noteq> unat (bl_payload_offset (bs ! i))}"
proof -
  have d: "b = bs ! i" if "b \<in> set bs" "live b" "bl_payload_offset b = bl_payload_offset (bs ! i)" for b
    using that live_distinct [OF inv _ i(1) _ i(2)] by (auto simp: in_set_conv_nth)
  have "b \<in> set bs' \<and> live b \<longleftrightarrow> b \<in> set bs \<and> live b
      \<and> unat (bl_payload_offset b) \<noteq> unat (bl_payload_offset (bs ! i))" for b
    using e d [of b] by (auto simp: word_unat_eq_iff)
  then have "{b \<in> set bs'. live b}
      = {b \<in> {b \<in> set bs. live b}. unat (bl_payload_offset b) \<noteq> unat (bl_payload_offset (bs ! i))}"
    by blast
  then show ?thesis unfolding allocations_image by force
qed

text \<open>
  The kernel heap as its clients see it: the interface of an allocator as a locale, the heap as an
  instance of it, and the properties of every run of allocations, releases, payload writes and
  checks from initialisation on.
\<close>

section \<open>The allocations of the clients\<close>

text \<open>Address and length of every allocation that has not been released.\<close>

definition owned :: "KernelHeap \<Rightarrow> (u64 \<times> nat) set" where
  "owned h = (\<lambda>(p, n). (HEAP_BASE + of_nat p, n)) ` allocations (kh_blocks h)"

text \<open>The byte addresses of an allocation.\<close>

definition block_bytes :: "u64 \<times> nat \<Rightarrow> u64 set" where
  "block_bytes an = {fst an + of_nat k | k. k < snd an}"

definition heap_window :: "u64 set" where
  "heap_window = {HEAP_BASE + of_nat k | k. 64 \<le> k \<and> k < 65536}"

lemma allocations_bounds:
  assumes "blocks_inv bs" "(p, n) \<in> allocations bs"
  shows "72 \<le> p" "p + n + 8 \<le> 65536" "0 < n"
  using assms live_bounds [OF assms(1)] by (auto simp: allocations_def)

lemma held_owned:
  assumes "blocks_inv (kh_blocks h)"
  shows "held h address \<longleftrightarrow> address \<in> fst ` owned h"
proof
  assume h: "held h address"
  then obtain n where "(unat (address - HEAP_BASE), n) \<in> allocations (kh_blocks h)"
    by (force simp: held_def)
  then show "address \<in> fst ` owned h" by (force simp: owned_def)
next
  assume "address \<in> fst ` owned h"
  then obtain p n where p: "(p, n) \<in> allocations (kh_blocks h)" "address = HEAP_BASE + of_nat p"
    by (auto simp: owned_def)
  have b: "p < 65536" using allocations_bounds [OF assms p(1)] by simp
  then have u: "unat (of_nat p :: u64) = p" by (rule unat_of_nat_small)
  then have "unat address = unat HEAP_BASE + p" using heap_address [of "of_nat p"] b p(2) by simp
  then show "held h address" using p u by (force simp: held_def word_le_nat_alt)
qed

lemma payloads_disjoint:
  assumes inv: "blocks_inv bs" and "(p, n) \<in> allocations bs" "(q, m) \<in> allocations bs" "(p, n) \<noteq> (q, m)"
  shows "{p..<p + n} \<inter> {q..<q + m} = {}"
proof -
  from assms obtain i j where i: "i < length bs" "live (bs ! i)" "p = unat (bl_payload_offset (bs ! i))"
      "n = unat (bl_requested_size (bs ! i))"
    and j: "j < length bs" "live (bs ! j)" "q = unat (bl_payload_offset (bs ! j))"
      "m = unat (bl_requested_size (bs ! j))"
    unfolding allocations_nth by auto
  then have "i \<noteq> j" using assms(4) by auto
  then have "range_of (bs ! i) \<inter> range_of (bs ! j) = {}"
    using tiles_disjoint [of bs i j] inv i j by (simp add: blocks_inv_def)
  then show ?thesis
    using payload_in_range [OF inv nth_mem [OF i(1)] i(2)] payload_in_range [OF inv nth_mem [OF j(1)] j(2)] i j
    unfolding payload_of_def by blast
qed

lemma block_bytes_disjoint:
  assumes "{p..<p + n} \<inter> {q..<q + m} = {}" "p + n \<le> 65536" "q + m \<le> 65536"
  shows "block_bytes (HEAP_BASE + of_nat p, n) \<inter> block_bytes (HEAP_BASE + of_nat q, m) = {}"
proof (rule ccontr)
  assume "\<not> ?thesis"
  then obtain k l where kl: "k < n" "l < m" "(of_nat (p + k) :: u64) = of_nat (q + l)"
    by (auto simp: block_bytes_def add.assoc)
  then have "p + k = q + l" using u64_of_nat_inj [of "p + k" "q + l"] assms(2,3) by simp
  then have "p + k \<in> {p..<p + n} \<inter> {q..<q + m}" using kl by auto
  then show False using assms(1) by simp
qed

section \<open>The operations on states that satisfy the invariant\<close>

lemma heap_alloc_spec:
  assumes inv: "heap_inv h" and run: "heap_alloc h n al = (r, h')"
  shows "case r of
      None \<Rightarrow> h' = h\<lparr>kh_failed_allocations := sat_add (kh_failed_allocations h) 1\<rparr>
        \<and> (request_ok n al \<longrightarrow> \<not> has_room (kh_blocks h) (unat n) (unat (max al ALLOC_CANARY_BYTES)))
    | Some address \<Rightarrow> heap_inv h' \<and> request_ok n al \<and> address mod al = 0
        \<and> owned h' = insert (address, unat n) (owned h)
        \<and> block_bytes (address, unat n) \<subseteq> heap_window
        \<and> (\<forall>an \<in> owned h. block_bytes an \<inter> block_bytes (address, unat n) = {}
             \<and> (\<forall>x \<in> block_bytes an. kh_memory h' x = kh_memory h x))"
  using heap_alloc_cases [OF inv run]
proof (elim disjE exE conjE)
  fix i po ue
  assume req: "request_ok n al" and fit: "fits (kh_blocks h) i n (max al ALLOC_CANARY_BYTES) po ue"
    and tk: "take_block h i n (max al ALLOC_CANARY_BYTES) po ue = (r, h')"
  let ?bs = "kh_blocks h"
  note T = take_block_spec [OF inv fit tk]
  have bi: "blocks_inv ?bs" using inv by (simp add: heap_inv_def)
  have i: "i < length ?bs" "vacant (?bs ! i)" using fit by (simp_all add: fits_def)
  have "range_of (?bs ! i) \<subseteq> {64..<65536}"
    using tiles_range [of ?bs, OF _ nth_mem [OF i(1)]] bi by (simp add: blocks_inv_def)
  then have "{unat po..<unat po + unat n} \<subseteq> {64..<65536}" using T by blast
  moreover have win: "0 < unat n" using req by (simp add: request_ok_def unat_gt_0)
  ultimately have po: "64 \<le> unat po" "unat po + unat n \<le> 65536" by simp_all
  have addr: "unat (HEAP_BASE + po) = unat HEAP_BASE + unat po" using po win by (intro heap_address) simp
  have "(HEAP_BASE + po) mod al = 0"
  proof -
    have e: "is_power_of_two al" "unat al \<le> 4096" using req by (simp_all add: request_ok_def)
    have "unat (max al ALLOC_CANARY_BYTES) dvd unat po"
      using fit unfolding fits_def by (metis mod_eq_0_iff_dvd unat_mod unsigned_0)
    then have "unat al dvd unat po" using effective_align(2) [OF e] dvd_trans by blast
    moreover have "unat al dvd unat HEAP_BASE"
      using effective_align(3) [OF e] heap_base_aligned by (meson dvd_trans mod_eq_0_iff_dvd)
    ultimately have "unat ((HEAP_BASE + po) mod al) = 0" by (simp add: unat_mod addr)
    then show ?thesis by (simp only: unat_eq_0)
  qed
  moreover have "owned h' = insert (HEAP_BASE + po, unat n) (owned h)" using T by (simp add: owned_def)
  moreover have "block_bytes (HEAP_BASE + po, unat n) \<subseteq> heap_window"
  proof
    fix x assume "x \<in> block_bytes (HEAP_BASE + po, unat n)"
    then obtain k where k: "k < unat n" "x = HEAP_BASE + of_nat (unat po + k)"
      by (auto simp: block_bytes_def add.assoc)
    then show "x \<in> heap_window" using po unfolding heap_window_def
      by (intro CollectI exI [of _ "unat po + k"]) simp
  qed
  moreover have "block_bytes an \<inter> block_bytes (HEAP_BASE + po, unat n) = {}
      \<and> (\<forall>x \<in> block_bytes an. kh_memory h' x = kh_memory h x)" if an: "an \<in> owned h" for an
  proof -
    obtain p m where pm: "(p, m) \<in> allocations ?bs" "an = (HEAP_BASE + of_nat p, m)"
      using an by (auto simp: owned_def)
    note b = allocations_bounds [OF bi pm(1)]
    have "{p..<p + m} \<subseteq> payload_bytes ?bs" using pm(1) by (auto simp: payload_bytes_def)
    then have d: "{p..<p + m} \<inter> range_of (?bs ! i) = {}" using payload_outside [OF bi i] by blast
    then have "{p..<p + m} \<inter> {unat po..<unat po + unat n} = {}" using T by blast
    from block_bytes_disjoint [OF this] have "block_bytes an \<inter> block_bytes (HEAP_BASE + po, unat n) = {}"
      using b po pm(2) by simp
    moreover have "{p..<p + m} \<subseteq> {..<65536} - range_of (?bs ! i)" using d b by auto
    then have "agree {p..<p + m} (kh_memory h') (kh_memory h)" using T agree_mono by blast
    then have "kh_memory h' x = kh_memory h x" if "x \<in> block_bytes an" for x
      using that by (auto simp: pm(2) block_bytes_def agree_def heap_byte_def add.assoc
          simp flip: of_nat_add)
    ultimately show ?thesis by blast
  qed
  ultimately show ?thesis using T req by simp
qed (auto simp: fail_allocation_def)

lemma heap_free_spec:
  assumes inv: "heap_inv h" and run: "heap_free h address = (r, h')"
  shows "heap_inv h' \<and> kh_memory h' = kh_memory h
    \<and> (if held h address then r = Inr () \<and> owned h' = {an \<in> owned h. fst an \<noteq> address}
       else r = Inl (if address \<noteq> 0 \<and> address \<in> set (kh_recent_frees h) then DoubleFree else InvalidPointer)
         \<and> kh_blocks h' = kh_blocks h)"
proof -
  let ?bs = "kh_blocks h"
  have I: "kh_initialized h" "blocks_inv ?bs" "memory_inv ?bs (kh_memory h)" "no_adjacent ?bs"
    using inv by (simp_all add: heap_inv_def)
  show ?thesis
  proof (cases "find_allocated_block h address")
    case None
    then have "\<not> held h address" using find_allocated [OF I(2), of address] by simp
    then show ?thesis using run None I inv
      by (auto simp: heap_free_def was_recently_freed_def list_ex_iff heap_inv_def Let_def split: if_splits)
  next
    case (Some i)
    then have i: "held h address" "i < length ?bs" "live (?bs ! i)"
      "bl_payload_offset (?bs ! i) = address - HEAP_BASE"
      using find_allocated [OF I(2), of address] by simp_all
    have can: "allocation_canaries_ok h i"
      using allocation_canaries_iff [OF I(2), of i] i I(2,3)
      by (simp add: memory_inv_def blocks_inv_def tiles_def)
    define y where "y = (?bs ! i)\<lparr>bl_allocated := False, bl_payload_offset := 0, bl_requested_size := 0, bl_alignment := 0\<rparr>"
    note F = free_live [OF I(2) i(2,3) y_def]
    define h1 where "h1 = add_recent_free (h\<lparr>kh_blocks := ?bs[i := y], kh_frees := sat_add (kh_frees h) 1\<rparr>) address"
    have h1: "kh_blocks h1 = ?bs[i := y]" "kh_memory h1 = kh_memory h" "kh_initialized h1 = kh_initialized h"
      "kh_mapped_pages h1 = kh_mapped_pages h" "kh_canary_head h1 = kh_canary_head h"
      "kh_canary_tail h1 = kh_canary_tail h" "length (kh_recent_frees h1) = length (kh_recent_frees h)"
      "kh_recent_free_index h1 < RECENT_FREE_COUNT"
      by (simp_all add: h1_def add_recent_free_def RECENT_FREE_COUNT_def)
    have "heap_free h address = (Inr (), coalesce_free_blocks h1)"
      using Some can I(1) by (simp add: heap_free_def h1_def y_def)
    then have r: "r = Inr ()" "h' = coalesce_free_blocks h1" using run by simp_all
    obtain bs' c where C: "h' = h1\<lparr>kh_blocks := bs', kh_coalesces := c\<rparr>" "blocks_inv bs'" "no_adjacent bs'"
      and L: "{b \<in> set bs'. live b} = {b \<in> set (?bs[i := y]). live b}"
      using coalesce_spec [of h1] F(1) unfolding r(2) h1(1) by blast
    have "memory_inv bs' (kh_memory h)"
      by (rule memory_inv_live [OF _ I(3)]) (use L F(2) in blast)
    then have "heap_inv h'" using C inv h1 by (simp add: heap_inv_def)
    moreover have "allocations bs' = {a \<in> allocations ?bs. fst a \<noteq> unat (address - HEAP_BASE)}"
      using allocations_remove [OF I(2) i(2,3), of bs'] L F(2) i(4) by simp
    then have "owned h' = {an \<in> owned h. fst an \<noteq> address}"
      using allocations_bounds(2) [OF I(2)] unat_of_nat_small
      by (fastforce simp: owned_def C(1) eq_diff_eq)
    moreover have "kh_memory h' = kh_memory h" by (simp add: C(1) h1)
    ultimately show ?thesis using r(1) i(1) by simp
  qed
qed

section \<open>The interface of an allocator\<close>

text \<open>
  What a client may rely on: a granted allocation is new and is the only change of the set of
  allocations, a release removes exactly the allocation at its address, and a refused call
  changes nothing that a client owns.
\<close>

locale allocator =
  fixes valid :: "'s \<Rightarrow> bool"
    and allocs :: "'s \<Rightarrow> ('a \<times> nat) set"
    and len :: "'n \<Rightarrow> nat"
    and alloc :: "'s \<Rightarrow> 'n \<Rightarrow> 'n \<Rightarrow> 'a option \<times> 's"
    and release :: "'s \<Rightarrow> 'a \<Rightarrow> ('e + unit) \<times> 's"
  assumes granted: "valid s \<Longrightarrow> alloc s n al = (Some a, s') \<Longrightarrow>
      valid s' \<and> a \<notin> fst ` allocs s \<and> allocs s' = insert (a, len n) (allocs s)"
    and refused: "valid s \<Longrightarrow> alloc s n al = (None, s') \<Longrightarrow> valid s' \<and> allocs s' = allocs s"
    and released: "valid s \<Longrightarrow> a \<in> fst ` allocs s \<Longrightarrow> release s a = (r, s') \<Longrightarrow>
      valid s' \<and> r = Inr () \<and> allocs s' = {an \<in> allocs s. fst an \<noteq> a}"
    and rejected: "valid s \<Longrightarrow> a \<notin> fst ` allocs s \<Longrightarrow> release s a = (r, s') \<Longrightarrow>
      valid s' \<and> r \<noteq> Inr () \<and> allocs s' = allocs s"
begin

lemma alloc_release:
  assumes "valid s" "alloc s n al = (Some a, s1)" "release s1 a = (r, s2)"
  shows "valid s2 \<and> r = Inr () \<and> allocs s2 = allocs s"
proof -
  note g = granted [OF assms(1,2)]
  then have "a \<in> fst ` allocs s1" by (auto simp: rev_image_eqI)
  from released [OF _ this assms(3)] g show ?thesis by (force simp: image_iff)
qed

lemma release_twice:
  assumes "valid s" "release s a = (Inr (), s1)" "release s1 a = (r, s2)"
  shows "r \<noteq> Inr () \<and> allocs s2 = allocs s1"
proof -
  have "a \<in> fst ` allocs s" using rejected [OF assms(1) _ assms(2)] by blast
  note f = released [OF assms(1) this assms(2)]
  then have "a \<notin> fst ` allocs s1" by auto
  with rejected [of s1 a r s2] f assms(3) show ?thesis by blast
qed

end

lemma owned_not_fresh:
  assumes inv: "heap_inv h" and "(a, m) \<in> owned h" and "0 < n"
    and d: "\<forall>an \<in> owned h. block_bytes an \<inter> block_bytes (a, n) = {}"
  shows False
proof -
  have "0 < m" using assms(1,2) allocations_bounds(3) by (auto simp: owned_def heap_inv_def)
  then have "a \<in> block_bytes (a, m)" "a \<in> block_bytes (a, n)"
    using assms(3) by (force simp: block_bytes_def intro!: exI [of _ 0])+
  then show False using d assms(2) by blast
qed

interpretation kernel_heap: allocator heap_inv owned unat heap_alloc heap_free
proof unfold_locales
  fix h h' :: KernelHeap and n al a r
  assume inv: "heap_inv h"
  then have bi: "blocks_inv (kh_blocks h)" by (simp add: heap_inv_def)
  show "heap_inv h' \<and> a \<notin> fst ` owned h \<and> owned h' = insert (a, unat n) (owned h)"
    if "heap_alloc h n al = (Some a, h')"
  proof -
    have S: "heap_inv h'" "request_ok n al" "owned h' = insert (a, unat n) (owned h)"
      "\<forall>an \<in> owned h. block_bytes an \<inter> block_bytes (a, unat n) = {}"
      using heap_alloc_spec [OF inv that] by simp_all
    have "0 < unat n" using S(2) by (simp add: request_ok_def unat_gt_0)
    then have "a \<notin> fst ` owned h" using owned_not_fresh [OF inv _ _ S(4)] by auto
    then show ?thesis using S by simp
  qed
  show "heap_inv h' \<and> owned h' = owned h" if "heap_alloc h n al = (None, h')"
    using heap_alloc_spec [OF inv that] inv by (simp add: heap_inv_def owned_def)
  show "heap_inv h' \<and> r = Inr () \<and> owned h' = {an \<in> owned h. fst an \<noteq> a}"
    if "a \<in> fst ` owned h" "heap_free h a = (r, h')"
    using heap_free_spec [OF inv that(2)] held_owned [OF bi] that(1) by simp
  show "heap_inv h' \<and> r \<noteq> Inr () \<and> owned h' = owned h"
    if "a \<notin> fst ` owned h" "heap_free h a = (r, h')"
    using heap_free_spec [OF inv that(2)] held_owned [OF bi] that(1) by (simp add: owned_def)
qed

end
