(* ===== verification/Heap_Properties.thy ===== *)
theory Heap_Properties
  imports Heap_Interface
begin

unbundle bit_operations_syntax

text \<open>
  Every run of the kernel heap from its initialisation: allocations, releases, writes of clients
  into their own payloads, corruption checks and canary repairs, in any order.
\<close>

section \<open>Initialisation\<close>

definition heap_start :: "KernelHeap \<Rightarrow> bool" where
  "heap_start h \<longleftrightarrow> (\<exists>h0. kh_initialized h0 \<and> kh_mapped_pages h0 = HEAP_PAGES
     \<and> kh_canary_head h0 = HEAP_CANARY_HEAD \<and> kh_canary_tail h0 = HEAP_CANARY_TAIL
     \<and> h = reset_allocator h0)"

lemma heap_init_starts:
  assumes "heap_init (KernelHeap_new mem) vm = (snap, h, vm')" "kh_initialized h"
  shows "heap_start h"
proof -
  define h0 where "h0 = (KernelHeap_new mem)\<lparr>kh_mapped_pages := HEAP_PAGES, kh_initialized := True\<rparr>"
  have "h = reset_allocator h0"
    using assms
    by (auto simp: heap_init_def KernelHeap_new_def Let_def h0_def split: prod.splits if_splits)
  then show ?thesis unfolding heap_start_def
    by (intro exI [of _ h0]) (simp add: h0_def KernelHeap_new_def)
qed

lemma sentinel_written:
  assumes "n \<le> 64"
  shows "k < n \<Longrightarrow> heap_byte (fold (\<lambda>index mem. mem(HEAP_BASE + of_nat index := sentinel_byte index)) [0..<n] mem) k
    = sentinel_byte k"
  using assms
proof (induction n)
  case (Suc n)
  then show ?case using u64_of_nat_inj [of k n] by (cases "k = n") (auto simp: heap_byte_def)
qed simp

lemma tiles_reset: "tiles ((replicate MAX_BLOCKS HeapBlock_empty)[0 := HeapBlock_free 64 65472])"
proof -
  have e: "range_of HeapBlock_empty = {}" by (simp add: range_of_def HeapBlock_empty_def)
  have f: "range_of (HeapBlock_free 64 65472) = {64..<65536}"
    by (simp add: range_of_def HeapBlock_free_def)
  have r: "replicate MAX_BLOCKS HeapBlock_empty = HeapBlock_empty # replicate 95 HeapBlock_empty"
    by (simp add: MAX_BLOCKS_def numeral_eq_Suc)
  have n: "range_of ((HeapBlock_free 64 65472 # replicate 95 HeapBlock_empty) ! i)
      = (if i = 0 then {64..<65536} else {})" if "i < 96" for i
    using that e f by (cases i) auto
  show ?thesis unfolding tiles_def r using n e f by (auto simp: MAX_BLOCKS_def)
qed

lemma reset_inv: "heap_start h \<Longrightarrow> heap_inv h \<and> owned h = {}"
proof -
  assume "heap_start h"
  then obtain h0 where h0: "kh_initialized h0" "kh_mapped_pages h0 = HEAP_PAGES"
    "kh_canary_head h0 = HEAP_CANARY_HEAD" "kh_canary_tail h0 = HEAP_CANARY_TAIL" "h = reset_allocator h0"
    by (auto simp: heap_start_def)
  let ?bs = "(replicate MAX_BLOCKS HeapBlock_empty)[0 := HeapBlock_free 64 65472]"
  have sz: "sat_sub HEAP_SIZE 64 = 65472" "HEAP_SENTINEL_BYTES = 64"
    by (simp_all add: sat_sub_def heap_consts)
  have bs: "kh_blocks h = ?bs"
    unfolding h0(5) reset_allocator_def write_sentinel_def sz by simp
  have el: "b = HeapBlock_free 64 65472 \<or> b = HeapBlock_empty" if "b \<in> set ?bs" for b
    using nth_one [OF that] by auto
  have nl: "\<not> live b \<and> block_ok b" if "b \<in> set ?bs" for b
    using el [OF that] by (auto simp: live_def block_ok_def HeapBlock_free_def HeapBlock_empty_def)
  have "no_adjacent ?bs"
  proof -
    have v: "b = HeapBlock_free 64 65472" if "b \<in> set ?bs" "vacant b" for b
      using el [OF that(1)] that(2) by (auto simp: vacant_def HeapBlock_empty_def)
    have "unat (bl_offset b) + unat (bl_size b) = 65536" "unat (bl_offset b) = 64"
      if "b \<in> set ?bs" "vacant b" for b
      unfolding v [OF that] by (simp_all add: HeapBlock_free_def)
    then show ?thesis unfolding no_adjacent_def by simp
  qed
  moreover have "blocks_inv ?bs" using tiles_reset nl by (simp add: blocks_inv_def)
  moreover have "memory_inv ?bs (kh_memory h)"
    using nl sentinel_written [of 64] unfolding memory_inv_def h0(5) reset_allocator_def write_sentinel_def sz
    by simp
  moreover have "kh_initialized h" "kh_mapped_pages h = HEAP_PAGES" "kh_canary_head h = HEAP_CANARY_HEAD"
    "kh_canary_tail h = HEAP_CANARY_TAIL" "length (kh_recent_frees h) = RECENT_FREE_COUNT"
    "kh_recent_free_index h < RECENT_FREE_COUNT"
    using h0 by (simp_all add: reset_allocator_def write_sentinel_def RECENT_FREE_COUNT_def)
  moreover have "allocations ?bs = {}" using nl by (auto simp: allocations_def)
  ultimately show ?thesis by (simp add: heap_inv_def bs owned_def)
qed

section \<open>Runs\<close>

inductive heap_step :: "KernelHeap \<Rightarrow> KernelHeap \<Rightarrow> bool" where
  alloc: "heap_alloc h n al = (r, h') \<Longrightarrow> heap_step h h'"
| free: "heap_free h address = (res, h') \<Longrightarrow> heap_step h h'"
| client_write: "(address, n) \<in> owned h \<Longrightarrow> k < n \<Longrightarrow>
    heap_step h (h\<lparr>kh_memory := (kh_memory h)(address + of_nat k := v)\<rparr>)"
| check: "corruption_check h vm = (ok, h', vm') \<Longrightarrow> heap_step h h'"
| repair: "repair_canaries_for h address = (ok, h') \<Longrightarrow> heap_step h h'"

lemma client_write_inv:
  assumes inv: "heap_inv h" and an: "(address, n) \<in> owned h" and k: "k < n"
  shows "heap_inv (h\<lparr>kh_memory := (kh_memory h)(address + of_nat k := v)\<rparr>)"
proof -
  let ?bs = "kh_blocks h"
  have I: "blocks_inv ?bs" "memory_inv ?bs (kh_memory h)" using inv by (simp_all add: heap_inv_def)
  obtain p where p: "(p, n) \<in> allocations ?bs" "address = HEAP_BASE + of_nat p"
    using an by (auto simp: owned_def)
  then obtain i where i: "i < length ?bs" "live (?bs ! i)" "p = unat (bl_payload_offset (?bs ! i))"
    "n = unat (bl_requested_size (?bs ! i))" unfolding allocations_nth by auto
  have pk: "p + k \<in> payload_of (?bs ! i)" using i k by (simp add: payload_of_def)
  have pr: "payload_of (?bs ! i) \<subseteq> range_of (?bs ! i)" by (rule payload_in_range [OF I(1) nth_mem [OF i(1)] i(2)])
  have small: "p + k < 65536" using allocations_bounds [OF I(1) p(1)] k by simp
  let ?mem = "(kh_memory h)(HEAP_BASE + of_nat (p + k) := v)"
  have ag: "agree ({..<65536} - payload_of (?bs ! i)) ?mem (kh_memory h)"
    by (rule agree_update) (use pk small in auto)
  have "memory_inv ?bs ?mem"
  proof (rule memory_inv_write [OF I(1) i(1)])
    have "range_of (?bs ! i) \<subseteq> {..<65536}"
      using tiles_range [OF _ nth_mem [OF i(1)]] I(1) by (force simp: blocks_inv_def)
    then have "agree (range_of (?bs ! i) - payload_of (?bs ! i)) ?mem (kh_memory h)"
      by (intro agree_mono [OF ag]) auto
    then show "canaries ?mem (?bs ! i)"
      using canaries_agree [OF I(1) nth_mem [OF i(1)] i(2)] I(2) i by (simp add: memory_inv_def)
    show "agree ({..<65536} - range_of (?bs ! i)) ?mem (kh_memory h)"
      by (rule agree_mono [OF ag]) (use pr in auto)
  qed (use I(2) in \<open>simp_all add: memory_inv_def\<close>)
  then show ?thesis using inv by (simp add: heap_inv_def p(2) add.assoc)
qed

lemma repair_inv:
  assumes inv: "heap_inv h" and run: "repair_canaries_for h address = (ok, h')"
  shows "heap_inv h' \<and> ok = held h address"
proof -
  let ?bs = "kh_blocks h"
  have I: "blocks_inv ?bs" "memory_inv ?bs (kh_memory h)" using inv by (simp_all add: heap_inv_def)
  show ?thesis
  proof (cases "find_allocated_block h address")
    case None
    then show ?thesis using find_allocated [OF I(1), of address] run inv
      by (simp add: repair_canaries_for_def)
  next
    case (Some i)
    then have i: "held h address" "i < length ?bs" "live (?bs ! i)"
      using find_allocated [OF I(1), of address] by simp_all
    have i': "i < MAX_BLOCKS" using i(2) I(1) by (simp add: blocks_inv_def tiles_def)
    obtain mem where w: "write_allocation_canaries h i = h\<lparr>kh_memory := mem\<rparr>"
      and c: "canaries mem (?bs ! i)"
      and ag: "agree ({..<65536} - (range_of (?bs ! i) - payload_of (?bs ! i))) mem (kh_memory h)"
      by (rule write_canaries [OF I(1) i' i(3)])
    have "memory_inv ?bs mem"
      by (rule memory_inv_write [OF I(1) i(2) c agree_mono [OF ag]])
        (use I(2) in \<open>auto simp: memory_inv_def\<close>)
    moreover have "h' = h\<lparr>kh_memory := mem\<rparr>" "ok" using run Some w by (auto simp: repair_canaries_for_def)
    ultimately show ?thesis using i(1) inv by (simp add: heap_inv_def)
  qed
qed

lemma check_inv:
  assumes "heap_inv h" "corruption_check h vm = (ok, h', vm')"
  shows "heap_inv h'"
  using assms by (auto simp: corruption_check_def Let_def heap_inv_def split: prod.splits if_splits)

lemma heap_inv_step:
  assumes inv: "heap_inv h" and "heap_step h h'"
  shows "heap_inv h'"
  using assms(2)
proof cases
  case (alloc n al r)
  then show ?thesis
    using kernel_heap.granted [OF inv] kernel_heap.refused [OF inv] by (cases r) auto
next
  case (free address res)
  then show ?thesis using heap_free_spec [OF inv] by blast
next
  case (client_write address n k v)
  then show ?thesis using client_write_inv [OF inv] by simp
next
  case (check vm ok vm')
  then show ?thesis using check_inv [OF inv] by blast
next
  case (repair address ok)
  then show ?thesis using repair_inv [OF inv] by blast
qed

interpretation heap_runs: invariant_machine heap_start heap_step heap_inv
  by unfold_locales (use reset_inv heap_inv_step in auto)

text \<open>With nothing allocated the whole window is one free block again.\<close>

lemma unfragmented:
  assumes inv: "heap_inv h" and empty: "owned h = {}"
  shows "\<exists>b \<in> set (kh_blocks h). vacant b \<and> bl_offset b = 64 \<and> bl_size b = 65472"
proof -
  let ?bs = "kh_blocks h"
  have I: "blocks_inv ?bs" "tiles ?bs" "no_adjacent ?bs" using inv by (simp_all add: heap_inv_def blocks_inv_def)
  have nl: "\<not> live b" if "b \<in> set ?bs" for b
    using empty that by (auto simp: owned_def allocations_def)
  have cover: "\<exists>i < length ?bs. vacant (?bs ! i) \<and> k \<in> range_of (?bs ! i)" if "k \<in> {64..<65536}" for k
  proof -
    have "k \<in> (\<Union>i < length ?bs. range_of (?bs ! i))"
      using I(2) that unfolding tiles_def UN_range_nth by blast
    then obtain i where "i < length ?bs" "k \<in> range_of (?bs ! i)" by blast
    then show ?thesis using nl [of "?bs ! i"]
      by (intro exI [of _ i]) (auto simp: vacant_def live_def range_of_def split: if_splits)
  qed
  from cover [of 64] obtain i where i: "i < length ?bs" "vacant (?bs ! i)" "64 \<in> range_of (?bs ! i)" by auto
  let ?b = "?bs ! i"
  have act: "bl_active ?b" using i by (simp add: vacant_def)
  note bb = block_bounds [OF I(1) nth_mem [OF i(1)] act]
  have o: "unat (bl_offset ?b) = 64" using i(3) act bb by (simp add: range_of_def)
  have e: "64 + unat (bl_size ?b) = 65536"
  proof (rule ccontr)
    assume "64 + unat (bl_size ?b) \<noteq> 65536"
    then have "64 + unat (bl_size ?b) \<in> {64..<65536}" using bb o by simp
    from cover [OF this] obtain j where j: "j < length ?bs" "vacant (?bs ! j)"
      "64 + unat (bl_size ?b) \<in> range_of (?bs ! j)" by auto
    have "j \<noteq> i" using j(3) act o by (auto simp: range_of_def)
    then have d: "range_of ?b \<inter> range_of (?bs ! j) = {}" using tiles_disjoint [OF I(2) i(1) j(1)] by simp
    have "unat (bl_offset (?bs ! j)) \<noteq> 64 + unat (bl_size ?b)"
      using I(3) i(1,2) j(1,2) o unfolding no_adjacent_def by (metis nth_mem)
    then have "63 + unat (bl_size ?b) \<in> range_of (?bs ! j)"
      using j(3) by (auto simp: range_of_def split: if_splits)
    moreover have "63 + unat (bl_size ?b) \<in> range_of ?b" using act o bb(3) by (auto simp: range_of_def)
    ultimately show False using d by blast
  qed
  have "unat (bl_offset ?b) = unat (64 :: u64)" "unat (bl_size ?b) = unat (65472 :: u64)"
    using o e by simp_all
  then have "bl_offset ?b = 64" "bl_size ?b = 65472" by (simp_all only: word_unat_eq_iff)
  then show ?thesis using i by (metis nth_mem)
qed

text \<open>A block that was taken had room, and a released address is remembered.\<close>

lemma alloc_had_room:
  assumes inv: "heap_inv h" and "heap_alloc h n al = (Some address, h')"
  shows "has_room (kh_blocks h) (unat n) (unat (max al ALLOC_CANARY_BYTES))"
  using heap_alloc_cases [OF assms]
proof (elim disjE exE conjE)
  fix i po ue assume f: "fits (kh_blocks h) i n (max al ALLOC_CANARY_BYTES) po ue"
  have "unat po mod unat (max al ALLOC_CANARY_BYTES) = 0"
    using f unfolding fits_def by (metis unat_mod unsigned_0)
  then show ?thesis using f unfolding has_room_def fits_def
    by (intro bexI [of _ "kh_blocks h ! i"] conjI exI [of _ "unat po"]) simp_all
qed (simp add: fail_allocation_def)

lemma coalesce_recent: "kh_recent_frees (coalesce_free_blocks h) = kh_recent_frees h"
  by (induction h rule: coalesce_free_blocks.induct)
    (subst coalesce_free_blocks.simps, simp split: option.splits)

lemma heap_base_pos: "HEAP_BASE \<noteq> 0"
  by (simp add: HEAP_BASE_def KERNEL_HEAP_BASE_def KERNEL_HEAP_GUARD_LOW_def KERNEL_VIRTUAL_BASE_def
      PAGE_SIZE_4K_def)

lemma double_free:
  assumes inv: "heap_inv h" and run: "heap_free h address = (Inr (), h')"
  shows "fst (heap_free h' address) = Inl DoubleFree"
proof -
  note S = heap_free_spec [OF inv run]
  have bi: "blocks_inv (kh_blocks h)" "blocks_inv (kh_blocks h')" using inv S by (simp_all add: heap_inv_def)
  have a: "held h address" using S by (cases "held h address") simp_all
  then have "owned h' = {an \<in> owned h. fst an \<noteq> address}" using S by simp
  then have "address \<notin> fst ` owned h'" by auto
  then have "\<not> held h' address" using held_owned [OF bi(2), of address] by simp
  moreover from a have "address \<noteq> 0" by (auto simp: held_def heap_base_pos)
  moreover have "address \<in> set (kh_recent_frees h')"
  proof -
    have "kh_recent_frees h' = (kh_recent_frees h)[kh_recent_free_index h := address]"
      using run unfolding heap_free_def Let_def
      by (auto simp: coalesce_recent add_recent_free_def split: if_splits option.splits)
    then show ?thesis using inv
      by (auto simp: heap_inv_def intro: set_update_memI)
  qed
  ultimately show ?thesis
    using heap_free_spec [of h' address "fst (heap_free h' address)" "snd (heap_free h' address)"] S by simp
qed

section \<open>Properties\<close>

text \<open>
  C31. In every state that the kernel heap reaches from its initialisation by allocations, releases,
  client writes into payloads, corruption checks and canary repairs, in any order, all the checks of
  \<^verbatim>\<open>heap.rs\<close> pass: the metadata check that guards every allocation, the sentinel and the
  canaries of every allocation. The active descriptors partition the bytes 64 to 65535 of the
  window, no two free blocks are neighbours, the two byte counters are the exact sums over the
  descriptors, the payloads of the clients do not overlap, and when nothing is allocated the
  window is one free block again.
\<close>

theorem heap_always_consistent:
  assumes "heap_start h0" and "heap_step\<^sup>*\<^sup>* h0 h"
  shows "metadata_ok h (compute_stats h) \<and> sentinel_ok h \<and> hst_allocation_canaries_ok (compute_stats h)
    \<and> tiles (kh_blocks h) \<and> no_adjacent (kh_blocks h)
    \<and> unat (hst_allocated_bytes (compute_stats h)) = (\<Sum>i < MAX_BLOCKS. requested (kh_blocks h ! i))
    \<and> unat (hst_free_bytes (compute_stats h)) = (\<Sum>i < MAX_BLOCKS. vacancy (kh_blocks h ! i))
    \<and> (\<forall>x y. x \<in> owned h \<longrightarrow> y \<in> owned h \<longrightarrow> x \<noteq> y \<longrightarrow> block_bytes x \<inter> block_bytes y = {})
    \<and> (owned h = {} \<longrightarrow> (\<exists>b \<in> set (kh_blocks h). vacant b \<and> bl_offset b = 64 \<and> bl_size b = 65472))"
proof -
  have inv: "heap_inv h" by (rule heap_runs.inv_reachable [OF assms])
  then have bi: "blocks_inv (kh_blocks h)" by (simp add: heap_inv_def)
  have "block_bytes x \<inter> block_bytes y = {}" if xy: "x \<in> owned h" "y \<in> owned h" "x \<noteq> y" for x y
  proof -
    obtain p n q m where x: "x = (HEAP_BASE + of_nat p, n)" "(p, n) \<in> allocations (kh_blocks h)"
      and y: "y = (HEAP_BASE + of_nat q, m)" "(q, m) \<in> allocations (kh_blocks h)"
      using xy(1,2) by (auto simp: owned_def)
    then have "(p, n) \<noteq> (q, m)" using xy(3) by auto
    from block_bytes_disjoint [OF payloads_disjoint [OF bi x(2) y(2) this]] show ?thesis
      using allocations_bounds(2) [OF bi x(2)] allocations_bounds(2) [OF bi y(2)] by (simp add: x y)
  qed
  then show ?thesis
    using heap_inv_checks [OF inv] compute_stats_inv [OF bi] inv unfragmented [OF inv]
    by (simp add: heap_inv_def blocks_inv_def)
qed

definition demo_heap :: KernelHeap where
  "demo_heap = reset_allocator ((KernelHeap_new (\<lambda>_. 0))
     \<lparr>kh_mapped_pages := HEAP_PAGES, kh_initialized := True\<rparr>)"

lemma demo_start: "heap_start demo_heap"
  unfolding heap_start_def demo_heap_def by (intro exI conjI refl) (simp_all add: KernelHeap_new_def)

theorem heap_always_consistent_witness:
  "metadata_ok (snd (heap_alloc demo_heap 100 16)) (compute_stats (snd (heap_alloc demo_heap 100 16)))"
proof -
  have "heap_step\<^sup>*\<^sup>* demo_heap (snd (heap_alloc demo_heap 100 16))"
    by (rule r_into_rtranclp) (rule heap_step.alloc [OF surjective_pairing])
  from heap_always_consistent [OF demo_start this] show ?thesis by simp
qed

text \<open>
  C32. Allocation in a reachable state succeeds exactly when the size is not zero, the alignment is a
  power of two of at most a page, and some free block has an aligned place for the payload
  between its two canaries. The address granted is aligned, its bytes lie in the window
  behind the sentinel and overlap no other allocation, the bytes of every other allocation keep
  their values, and the set of allocations gains exactly this one; releasing it at once gives the
  set back. A refused request changes only the failure counter.
\<close>

theorem heap_alloc_correct:
  assumes "heap_start h0" and "heap_step\<^sup>*\<^sup>* h0 h" and "heap_alloc h n al = (r, h')"
  shows "(r \<noteq> None \<longleftrightarrow> n \<noteq> 0 \<and> is_power_of_two al \<and> unat al \<le> 4096
           \<and> has_room (kh_blocks h) (unat n) (unat (max al ALLOC_CANARY_BYTES)))
    \<and> (r = None \<longrightarrow> h' = h\<lparr>kh_failed_allocations := sat_add (kh_failed_allocations h) 1\<rparr>)
    \<and> (\<forall>address. r = Some address \<longrightarrow> address mod al = 0 \<and> block_bytes (address, unat n) \<subseteq> heap_window
         \<and> owned h' = insert (address, unat n) (owned h)
         \<and> (\<forall>an \<in> owned h. block_bytes an \<inter> block_bytes (address, unat n) = {}
              \<and> (\<forall>x \<in> block_bytes an. kh_memory h' x = kh_memory h x))
         \<and> fst (heap_free h' address) = Inr () \<and> owned (snd (heap_free h' address)) = owned h)"
proof -
  have inv: "heap_inv h" by (rule heap_runs.inv_reachable [OF assms(1,2)])
  note S = heap_alloc_spec [OF inv assms(3)]
  show ?thesis
  proof (cases r)
    case None
    then show ?thesis using S by (auto simp: request_ok_def)
  next
    case (Some address)
    have "has_room (kh_blocks h) (unat n) (unat (max al ALLOC_CANARY_BYTES))"
      by (rule alloc_had_room [OF inv]) (use assms(3) Some in simp)
    moreover have "fst (heap_free h' address) = Inr () \<and> owned (snd (heap_free h' address)) = owned h"
      using kernel_heap.alloc_release [OF inv, of n al address h' "fst (heap_free h' address)"
          "snd (heap_free h' address)"] assms(3) Some by simp
    ultimately show ?thesis using S Some by (simp add: request_ok_def)
  qed
qed

theorem heap_alloc_correct_witness:
  "fst (heap_alloc demo_heap 0 16) = None \<and> (fst (heap_alloc demo_heap 100 16) \<noteq> None \<longleftrightarrow>
     has_room (kh_blocks demo_heap) 100 16)"
  using heap_alloc_correct [OF demo_start rtranclp.rtrancl_refl surjective_pairing, of 0 16]
    heap_alloc_correct [OF demo_start rtranclp.rtrancl_refl surjective_pairing, of 100 16]
  by (simp add: is_power_of_two_def ALLOC_CANARY_BYTES_def max_def)

text \<open>
  C33. Release in a reachable state succeeds exactly for the address of an allocation that is held,
  removes exactly that allocation and changes no byte of the window. Every other address is refused
  without a change of the block table, as a double free when it is among the last sixteen
  addresses released and as an invalid pointer otherwise; so a second release of an address is
  always refused, and is reported as a double free when nothing else was released in between.
\<close>

theorem heap_free_correct:
  assumes "heap_start h0" and "heap_step\<^sup>*\<^sup>* h0 h" and "heap_free h address = (r, h')"
  shows "(r = Inr () \<longleftrightarrow> address \<in> fst ` owned h) \<and> kh_memory h' = kh_memory h
    \<and> (r = Inr () \<longrightarrow> owned h' = {an \<in> owned h. fst an \<noteq> address}
         \<and> fst (heap_free h' address) = Inl DoubleFree)
    \<and> (r \<noteq> Inr () \<longrightarrow> kh_blocks h' = kh_blocks h
         \<and> r = Inl (if address \<noteq> 0 \<and> address \<in> set (kh_recent_frees h) then DoubleFree else InvalidPointer))"
proof -
  have inv: "heap_inv h" by (rule heap_runs.inv_reachable [OF assms(1,2)])
  then have bi: "blocks_inv (kh_blocks h)" by (simp add: heap_inv_def)
  note S = heap_free_spec [OF inv assms(3)]
  have "fst (heap_free h' address) = Inl DoubleFree" if r: "r = Inr ()"
    by (rule double_free [OF inv]) (use assms(3) r in simp)
  then show ?thesis using S held_owned [OF bi, of address] by (cases "held h address") simp_all
qed

theorem heap_free_correct_witness:
  "fst (heap_free demo_heap 0) = Inl InvalidPointer \<and> kh_memory (snd (heap_free demo_heap 0)) = kh_memory demo_heap"
  using heap_free_correct [OF demo_start rtranclp.rtrancl_refl surjective_pairing, of 0] reset_inv [OF demo_start]
  by simp

end
