(* ===== verification/Elf_Init.thy ===== *)
theory Elf_Init
  imports Elf_Plan Mkinitramfs
begin

unbundle bit_operations_syntax

text \<open>
  The program that the build tool writes (\<open>build_init_elf\<close> in \<^verbatim>\<open>tools/mkinitramfs.rs\<close>) is accepted by
  the loader: each field the loader reads is one that the tool wrote, because the writes go to
  increasing offsets and do not overlap.
\<close>

section \<open>Fields of a written image\<close>

lemma write_bytes_props:
  assumes "write_bytes img off bytes = Some out"
  shows "length out = length img" "off + length bytes \<le> length img"
    "get_slice out off (off + length bytes) = Some bytes" "n \<le> off \<Longrightarrow> take n out = take n img"
proof -
  have o: "off + length bytes \<le> length img"
    and e: "out = take off img @ bytes @ drop (off + length bytes) img"
    using assms by (auto simp: write_bytes_def split: if_splits)
  then show "length out = length img" "off + length bytes \<le> length img" by simp_all
  show "get_slice out off (off + length bytes) = Some bytes"
    unfolding e by (rule get_slice_append3) (use o in simp_all)
  show "n \<le> off \<Longrightarrow> take n out = take n img" using o by (simp add: e min_def)
qed

lemma write_all_prefix:
  assumes "write_all ws img = Some out" "\<forall>(off, bytes) \<in> set ws. n \<le> off"
  shows "take n out = take n img \<and> length out = length img"
  using assms
proof (induction ws arbitrary: img)
  case (Cons w ws)
  then show ?case using write_bytes_props(1,4) by (auto split: option.splits)
qed simp

lemma write_all_field:
  assumes "write_all ws img = Some out" "sorted_wrt (\<lambda>v w. fst v + length (snd v) \<le> fst w) ws"
    and "(off, bytes) \<in> set ws"
  shows "get_slice out off (off + length bytes) = Some bytes"
  using assms
proof (induction ws arbitrary: img)
  case (Cons w ws)
  obtain o1 b1 where w: "w = (o1, b1)" by force
  from Cons.prems(1) obtain img1 where i: "write_bytes img o1 b1 = Some img1" "write_all ws img1 = Some out"
    by (auto simp: w split: option.splits)
  show ?case
  proof (cases "(off, bytes) = w")
    case True
    then have e: "o1 = off" "b1 = bytes" by (simp_all add: w)
    let ?n = "off + length bytes"
    have p: "take ?n out = take ?n img1" "length out = length img1"
      using write_all_prefix [OF i(2), of ?n] Cons.prems(2) by (auto simp: w e split_def)
    have "get_slice img1 off ?n = Some bytes" using write_bytes_props(3) [OF i(1)] e by simp
    moreover have "get_slice xs off ?n = (if ?n \<le> length xs then Some (drop off (take ?n xs)) else None)" for xs :: "u8 list"
      by (simp add: get_slice_def slice_def drop_take)
    ultimately show ?thesis using p by (metis option.distinct(1))
  next
    case False
    then show ?thesis using Cons.IH [OF i(2)] Cons.prems(2,3) by auto
  qed
qed simp

lemma length_le_bytes [simp]: "length (le_bytes n v) = n"
  by (induction n arbitrary: v) simp_all

lemma bit_from_le:
  "bit (from_le_bytes (le_bytes n v) :: 'a::len word) i \<longleftrightarrow> i < LENGTH('a) \<and> i < 8 * n \<and> bit v i"
proof (induction n arbitrary: v i)
  case (Suc n)
  show ?case
  proof (cases "i < 8")
    case True
    then show ?thesis by (auto simp: bit_simps)
  next
    case False
    then obtain j where "i = 8 + j" using le_Suc_ex not_less by blast
    then show ?thesis using Suc by (auto simp: bit_simps ac_simps dest: bit_imp_le_length)
  qed
qed simp

lemma from_le_8: "from_le_bytes (le_bytes 8 v) = v"
  by (rule bit_word_eqI) (simp add: bit_from_le)

lemma from_le_small:
  "from_le_bytes (le_bytes 4 v) = (ucast v :: u32)" "from_le_bytes (le_bytes 2 v) = (ucast v :: u16)"
  by (rule bit_word_eqI, simp add: bit_from_le bit_simps)+

section \<open>The image\<close>

lemma code_size: "length build_init_code = 165"
  by (simp add: build_init_code_def emit_mov_rax_def emit_mov_rdi_def emit_mov_rsi_def emit_mov_rdx_def
      emit_mov_imm64_def emit_int80_def)

lemma data_size: "length INIT_DATA = 16"
  by (simp add: INIT_DATA_def ascii_def)

lemmas tool_consts = ELF_HEADER_SIZE_TOOL_def PROGRAM_HEADER_SIZE_TOOL_def PROGRAM_HEADER_COUNT_def
  TEXT_OFFSET_def DATA_OFFSET_def USER_ELF_BASE_TOOL_def PAGE_SIZE_def code_size data_size

lemma init_image:
  assumes "build_init_elf = Some img"
  shows "length img = 8208" "(off, bytes) \<in> set init_elf_writes \<Longrightarrow> get_slice img off (off + length bytes) = Some bytes"
proof -
  have w: "write_all init_elf_writes (replicate INIT_ELF_SIZE 0) = Some img"
    using assms by (simp add: build_init_elf_def split: if_splits)
  have "sorted_wrt (\<lambda>v w. fst v + length (snd v) \<le> fst w) init_elf_writes"
    by (simp add: init_elf_writes_def Let_def tool_consts)
  from write_all_field [OF w this] show "(off, bytes) \<in> set init_elf_writes \<Longrightarrow> get_slice img off (off + length bytes) = Some bytes" .
  show "length img = 8208" using write_all_prefix [OF w, of 0] by (auto simp: INIT_ELF_SIZE_def tool_consts)
qed

lemma init_fields:
  assumes "build_init_elf = Some img"
  shows "(off, le_bytes 2 v) \<in> set init_elf_writes \<Longrightarrow> image_u16 img off = Inr (ucast v)"
    "(off, le_bytes 4 v) \<in> set init_elf_writes \<Longrightarrow> image_u32 img off = Inr (ucast v)"
    "(off, le_bytes 8 v) \<in> set init_elf_writes \<Longrightarrow> image_u64 img off = Inr v"
  using init_image(2) [OF assms, of off "le_bytes 2 v"] init_image(2) [OF assms, of off "le_bytes 4 v"]
    init_image(2) [OF assms, of off "le_bytes 8 v"]
  by (simp_all add: image_u16_def image_u32_def image_u64_def ok_or_def bind_def from_le_8 from_le_small)

lemma init_magic:
  assumes "build_init_elf = Some img"
  shows "take 4 img = [0x7f, 0x45, 0x4c, 0x46]" "img ! 4 = 2" "img ! 5 = 1" "img ! 6 = 1"
proof -
  note slice_all = init_image(2) [OF assms]
  have "get_slice img 0 (0 + 4) = Some [0x7f, 0x45, 0x4c, 0x46]"
    using slice_all [of 0 "[0x7f, 0x45, 0x4c, 0x46]"] by (simp add: init_elf_writes_def Let_def eval_nat_numeral)
  then show "take 4 img = [0x7f, 0x45, 0x4c, 0x46]" by (simp add: get_slice_def slice_def split: if_splits)
  have w: "(4, [2]) \<in> set init_elf_writes" "(5, [1]) \<in> set init_elf_writes" "(6, [1]) \<in> set init_elf_writes"
    by (simp_all add: init_elf_writes_def Let_def)
  show "img ! 4 = 2" "img ! 5 = 1" "img ! 6 = 1"
    using slice_all [OF w(1)] slice_all [OF w(2)] slice_all [OF w(3)] init_image(1) [OF assms]
    by (simp_all add: get_slice_def slice_def take_Suc_conv_app_nth hd_drop_conv_nth)
qed


lemma init_header:
  assumes "build_init_elf = Some img"
  shows "validate_header img = Inr (USER_ELF_BASE_TOOL, 64, 2)"
proof -
  note f = init_fields [OF assms] and w = init_elf_writes_def Let_def tool_consts
  have "image_u16 img 16 = Inr (ucast (2::u64))" "image_u16 img 18 = Inr (ucast (62::u64))"
    "image_u32 img 20 = Inr (ucast (1::u64))" "image_u64 img 24 = Inr USER_ELF_BASE_TOOL"
    "image_u64 img 32 = Inr (of_nat 64)" "image_u16 img 52 = Inr (ucast (of_nat 64 :: u64))"
    "image_u16 img 54 = Inr (ucast (of_nat 56 :: u64))" "image_u16 img 56 = Inr (ucast (of_nat 2 :: u64))"
    by (rule f, simp add: w)+
  then show ?thesis
    using init_magic [OF assms] init_image(1) [OF assms]
    by (simp add: validate_header_def ELF_HEADER_SIZE_def PROGRAM_HEADER_SIZE_def MAX_PROGRAM_HEADERS_def
        bind_def ok_or_def usize_add_def Let_def)
qed

definition init_text :: SegmentPlan where
  "init_text = \<lparr>sp_file_offset = 0x1000, sp_virtual_address = 0x40100000, sp_file_size = 165,
     sp_memory_size = 165, sp_writable = False, sp_executable = True\<rparr>"

definition init_data :: SegmentPlan where
  "init_data = \<lparr>sp_file_offset = 0x2000, sp_virtual_address = 0x40101000, sp_file_size = 16,
     sp_memory_size = 4096, sp_writable = True, sp_executable = False\<rparr>"

lemma init_checks:
  "checked_add (0x1000::u64) 165 = Some 0x10a5" "checked_add (0x40100000::u64) 165 = Some 0x401000a5"
  "checked_add (0x2000::u64) 16 = Some 0x2010" "checked_add (0x40101000::u64) 0x1000 = Some 0x40102000"
  "is_power_of_two (0x1000::u64)"
  by code_simp+

lemmas elf_consts = PT_LOAD_def PF_READ_def PF_WRITE_def PF_EXECUTE_def USER_ELF_BASE_def USER_ELF_END_def
  USER_SPACE_BASE_def USER_ELF_SIZE_def BOOT_IDENTITY_MAP_BYTES_def PAGE_SIZE_4K_def

lemma init_segments:
  assumes "build_init_elf = Some img"
  shows "check_segment img 64 = Inr (Some init_text)" "check_segment img 120 = Inr (Some init_data)"
proof -
  note f = init_fields [OF assms] and w = init_elf_writes_def Let_def tool_consts
  have "image_u32 img 64 = Inr (ucast (1::u64))" "image_u32 img (64 + 4) = Inr (ucast (5::u64))"
    "image_u64 img (64 + 8) = Inr (of_nat 0x1000)" "image_u64 img (64 + 16) = Inr 0x40100000"
    "image_u64 img (64 + 32) = Inr (of_nat 165)" "image_u64 img (64 + 40) = Inr (of_nat 165)"
    "image_u64 img (64 + 48) = Inr 0x1000"
    by (rule f, simp add: w)+
  then show "check_segment img 64 = Inr (Some init_text)"
    using init_image(1) [OF assms]
    by (simp add: check_segment_def init_text_def Let_def init_checks elf_consts)
  have "image_u32 img 120 = Inr (ucast (1::u64))" "image_u32 img (120 + 4) = Inr (ucast (6::u64))"
    "image_u64 img (120 + 8) = Inr (of_nat 0x2000)" "image_u64 img (120 + 16) = Inr 0x40101000"
    "image_u64 img (120 + 32) = Inr (of_nat 16)" "image_u64 img (120 + 40) = Inr 0x1000"
    "image_u64 img (120 + 48) = Inr 0x1000"
    by (rule f, simp add: w)+
  then show "check_segment img 120 = Inr (Some init_data)"
    using init_image(1) [OF assms]
    by (simp add: check_segment_def init_data_def Let_def init_checks elf_consts)
qed


definition init_plan :: ImagePlan where
  "init_plan = \<lparr>ip_entry_point = 0x40100000, ip_image_start = 0x40100000, ip_image_end = 0x40102000,
     ip_total_pages = 2, ip_segment_count = 2,
     ip_segments = [init_text, init_data] @ replicate 6 SegmentPlan_empty\<rparr>"

lemma init_adds:
  "add_segment \<lparr>ip_entry_point = 0x40100000, ip_image_start = - 1, ip_image_end = 0, ip_total_pages = 0,
      ip_segment_count = 0, ip_segments = replicate 8 SegmentPlan_empty\<rparr> init_text
   = Inr \<lparr>ip_entry_point = 0x40100000, ip_image_start = 0x40100000, ip_image_end = 0x40101000, ip_total_pages = 1,
      ip_segment_count = 1, ip_segments = init_text # replicate 7 SegmentPlan_empty\<rparr>"
  "add_segment \<lparr>ip_entry_point = 0x40100000, ip_image_start = 0x40100000, ip_image_end = 0x40101000, ip_total_pages = 1,
      ip_segment_count = 1, ip_segments = init_text # replicate 7 SegmentPlan_empty\<rparr> init_data = Inr init_plan"
  by code_simp+

lemma init_validates:
  assumes "build_init_elf = Some img"
  shows "validate_image img = Inr init_plan"
proof -
  have "memory_end init_text = 0x401000a5" "memory_end init_data = 0x40102000"
    by (simp_all add: memory_end_def init_text_def init_data_def)
  moreover have "sp_executable init_text" "sp_virtual_address init_text = 0x40100000"
    by (simp_all add: init_text_def)
  ultimately show ?thesis
    using init_header [OF assms] init_segments [OF assms] init_adds
    by (simp add: validate_image_def USER_ELF_BASE_TOOL_def MAX_LOAD_SEGMENTS_def PROGRAM_HEADER_SIZE_def
        upt_rec init_plan_def)
qed

lemma init_built: "\<exists>img. build_init_elf = Some img"
proof -
  have "\<forall>(off, bytes) \<in> set ws. off + length bytes \<le> length img \<Longrightarrow> \<exists>out. write_all ws img = Some out" for ws img
    by (induction ws arbitrary: img) (auto simp: write_bytes_def)
  moreover have "\<forall>(off, bytes) \<in> set init_elf_writes. off + length bytes \<le> length (replicate INIT_ELF_SIZE (0::u8))"
    by (simp add: init_elf_writes_def Let_def tool_consts INIT_ELF_SIZE_def)
  ultimately have "\<exists>out. write_all init_elf_writes (replicate INIT_ELF_SIZE 0) = Some out" by blast
  then show ?thesis by (simp add: build_init_elf_def tool_consts)
qed

end
