(* ===== verification/Elf_Properties.thy ===== *)
theory Elf_Properties
  imports Elf_Init Address_Space_Properties
begin

unbundle bit_operations_syntax

text \<open>
  The properties of the program loader: what validation accepts, and what a process finds in its
  address space when it starts.
\<close>

section \<open>What the process sees\<close>






section \<open>Properties\<close>

text \<open>
  C34. Validation is sound. An accepted image has between one and eight segments and at most 64
  pages; each segment takes its bytes from inside the image, fits its memory, lies inside the
  user region and is not both writable and executable; no page is shared by two segments; and
  the entry point lies in an executable segment.
\<close>

theorem validated_image_safe:
  assumes "validate_image img = Inr plan" and len: "length img < 2 ^ 64"
  shows "let ss = plan_segments plan in 0 < length ss \<and> length ss \<le> MAX_LOAD_SEGMENTS
    \<and> (\<Sum>s\<leftarrow>ss. unat ((page_end s - page_start s) div PAGE_SIZE_4K)) \<le> MAX_LOAD_PAGES
    \<and> (\<forall>s \<in> set ss. unat (sp_file_offset s) + unat (sp_file_size s) \<le> length img
        \<and> 0 < sp_memory_size s \<and> sp_file_size s \<le> sp_memory_size s
        \<and> unat USER_ELF_BASE \<le> unat (sp_virtual_address s)
        \<and> unat (sp_virtual_address s) + unat (sp_memory_size s) \<le> unat USER_ELF_END
        \<and> \<not> (sp_writable s \<and> sp_executable s))
    \<and> (\<forall>i < length ss. \<forall>j < length ss. i \<noteq> j \<longrightarrow> (\<forall>k < unat (sp_memory_size (ss ! i)). \<forall>l < unat (sp_memory_size (ss ! j)).
        page_of (sp_virtual_address (ss ! i) + of_nat k) \<noteq> page_of (sp_virtual_address (ss ! j) + of_nat l)))
    \<and> (\<exists>s \<in> set ss. sp_executable s \<and> unat (sp_virtual_address s) \<le> unat (ip_entry_point plan)
        \<and> unat (ip_entry_point plan) < unat (sp_virtual_address s) + unat (sp_memory_size s))"
proof -
  note v = validate_image_ok [OF assms]
  let ?ss = "plan_segments plan"
  have ok: "segment_ok img s" if "s \<in> set ?ss" for s using v(1) that by (simp add: plan_ok_def)
  have "(\<Sum>s\<leftarrow>?ss. unat ((page_end s - page_start s) div PAGE_SIZE_4K)) = length (concat (map segment_pages ?ss))"
    unfolding length_concat map_map comp_def
    by (rule arg_cong [of _ _ sum_list], rule map_cong [OF refl]) (simp add: segment_pages_nth(1) [OF ok])
  then have "(\<Sum>s\<leftarrow>?ss. unat ((page_end s - page_start s) div PAGE_SIZE_4K)) \<le> MAX_LOAD_PAGES"
    using v(1) by (simp add: plan_ok_def)
  moreover have "0 < length ?ss \<and> length ?ss \<le> MAX_LOAD_SEGMENTS"
    using v(1,2) by (simp add: plan_ok_def plan_segments_def)
  moreover have "page_of (sp_virtual_address (?ss ! i) + of_nat k) \<noteq> page_of (sp_virtual_address (?ss ! j) + of_nat l)"
    if h: "i < length ?ss" "j < length ?ss" "i \<noteq> j" "k < unat (sp_memory_size (?ss ! i))" "l < unat (sp_memory_size (?ss ! j))"
    for i j k l
  proof -
    note oi = ok [OF nth_mem [OF h(1)]] and oj = ok [OF nth_mem [OF h(2)]]
    have "\<not> pages_overlap (?ss ! i) (?ss ! j)" using v(1) h by (simp add: plan_ok_def disjoint_pages_def)
    from pages_disjoint [OF oi oj this] segment_covers(1) [OF oi h(4)] segment_covers(1) [OF oj h(5)]
    show ?thesis by auto
  qed
  moreover have "\<exists>s \<in> set ?ss. sp_executable s \<and> unat (sp_virtual_address s) \<le> unat (ip_entry_point plan)
        \<and> unat (ip_entry_point plan) < unat (sp_virtual_address s) + unat (sp_memory_size s)"
    using v(3) page_bounds(2) [OF ok] unfolding entry_ok_def word_le_nat_alt word_less_nat_alt by metis
  ultimately show ?thesis using ok unfolding Let_def segment_ok_def word_neq_0_conv by blast
qed

theorem validated_image_safe_witness:
  "\<exists>img plan. build_init_elf = Some img \<and> validate_image img = Inr plan \<and> plan_segments plan = [init_text, init_data]
     \<and> \<not> (sp_writable init_text \<and> sp_executable init_text)"
proof -
  obtain img where b: "build_init_elf = Some img" using init_built by blast
  have p: "plan_segments init_plan = [init_text, init_data]" by (simp add: plan_segments_def init_plan_def)
  from validated_image_safe [OF init_validates [OF b]] init_image(1) [OF b]
  have "\<not> (sp_writable init_text \<and> sp_executable init_text)" by (simp add: Let_def p)
  with b p init_validates [OF b] show ?thesis by blast
qed







end
