(* ===== verification/Stats.thy ===== *)
theory Stats
  imports Prelude
begin

text \<open>
  The counters of \<^verbatim>\<open>src/src/stats.rs\<close>. Each is an atomic 64-bit cell that an event increments and
  that wraps around; the snapshot reads them all.
\<close>

record Stats =
  st_timer_irqs :: u64
  st_keyboard_irqs :: u64
  st_default_irqs :: u64
  st_exceptions :: u64
  st_keyboard_scancodes :: u64
  st_keyboard_events :: u64
  st_keyboard_dropped_events :: u64
  st_shell_commands :: u64
  st_shell_errors :: u64
  st_shell_empty_commands :: u64
  st_shell_history_recalls :: u64
  st_vga_cell_writes :: u64
  st_vga_clears :: u64
  st_vga_scrolls :: u64
  st_cursor_toggles :: u64
  st_serial_bytes :: u64
  st_bench_runs :: u64
  st_syscalls :: u64
  st_user_probes :: u64
  st_user_probe_passes :: u64
  st_shell_ready_tick :: u64

definition Stats_new :: Stats where
  "Stats_new = \<lparr>st_timer_irqs = 0, st_keyboard_irqs = 0, st_default_irqs = 0,
     st_exceptions = 0, st_keyboard_scancodes = 0, st_keyboard_events = 0,
     st_keyboard_dropped_events = 0, st_shell_commands = 0, st_shell_errors = 0,
     st_shell_empty_commands = 0, st_shell_history_recalls = 0, st_vga_cell_writes = 0,
     st_vga_clears = 0, st_vga_scrolls = 0, st_cursor_toggles = 0, st_serial_bytes = 0,
     st_bench_runs = 0, st_syscalls = 0, st_user_probes = 0, st_user_probe_passes = 0,
     st_shell_ready_tick = 0\<rparr>"

definition inc_timer_irq :: "Stats \<Rightarrow> Stats" where
  "inc_timer_irq s = s\<lparr>st_timer_irqs := st_timer_irqs s + 1\<rparr>"

definition inc_keyboard_irq :: "Stats \<Rightarrow> Stats" where
  "inc_keyboard_irq s = s\<lparr>st_keyboard_irqs := st_keyboard_irqs s + 1\<rparr>"

definition inc_default_irq :: "Stats \<Rightarrow> Stats" where
  "inc_default_irq s = s\<lparr>st_default_irqs := st_default_irqs s + 1\<rparr>"

definition inc_exception :: "Stats \<Rightarrow> Stats" where
  "inc_exception s = s\<lparr>st_exceptions := st_exceptions s + 1\<rparr>"

definition inc_keyboard_scancode :: "Stats \<Rightarrow> Stats" where
  "inc_keyboard_scancode s = s\<lparr>st_keyboard_scancodes := st_keyboard_scancodes s + 1\<rparr>"

definition inc_keyboard_event :: "Stats \<Rightarrow> Stats" where
  "inc_keyboard_event s = s\<lparr>st_keyboard_events := st_keyboard_events s + 1\<rparr>"

definition inc_keyboard_dropped_event :: "Stats \<Rightarrow> Stats" where
  "inc_keyboard_dropped_event s = s\<lparr>st_keyboard_dropped_events := st_keyboard_dropped_events s + 1\<rparr>"

definition inc_shell_command :: "Stats \<Rightarrow> Stats" where
  "inc_shell_command s = s\<lparr>st_shell_commands := st_shell_commands s + 1\<rparr>"

definition inc_shell_error :: "Stats \<Rightarrow> Stats" where
  "inc_shell_error s = s\<lparr>st_shell_errors := st_shell_errors s + 1\<rparr>"

definition inc_shell_empty_command :: "Stats \<Rightarrow> Stats" where
  "inc_shell_empty_command s = s\<lparr>st_shell_empty_commands := st_shell_empty_commands s + 1\<rparr>"

definition inc_shell_history_recall :: "Stats \<Rightarrow> Stats" where
  "inc_shell_history_recall s = s\<lparr>st_shell_history_recalls := st_shell_history_recalls s + 1\<rparr>"

definition inc_vga_cell_write :: "Stats \<Rightarrow> Stats" where
  "inc_vga_cell_write s = s\<lparr>st_vga_cell_writes := st_vga_cell_writes s + 1\<rparr>"

definition inc_vga_clear :: "Stats \<Rightarrow> Stats" where
  "inc_vga_clear s = s\<lparr>st_vga_clears := st_vga_clears s + 1\<rparr>"

definition inc_vga_scroll :: "Stats \<Rightarrow> Stats" where
  "inc_vga_scroll s = s\<lparr>st_vga_scrolls := st_vga_scrolls s + 1\<rparr>"

definition inc_cursor_toggle :: "Stats \<Rightarrow> Stats" where
  "inc_cursor_toggle s = s\<lparr>st_cursor_toggles := st_cursor_toggles s + 1\<rparr>"

definition inc_serial_byte :: "Stats \<Rightarrow> Stats" where
  "inc_serial_byte s = s\<lparr>st_serial_bytes := st_serial_bytes s + 1\<rparr>"

definition inc_bench_run :: "Stats \<Rightarrow> Stats" where
  "inc_bench_run s = s\<lparr>st_bench_runs := st_bench_runs s + 1\<rparr>"

definition inc_syscall :: "Stats \<Rightarrow> Stats" where
  "inc_syscall s = s\<lparr>st_syscalls := st_syscalls s + 1\<rparr>"

definition inc_user_probe :: "Stats \<Rightarrow> Stats" where
  "inc_user_probe s = s\<lparr>st_user_probes := st_user_probes s + 1\<rparr>"

definition inc_user_probe_pass :: "Stats \<Rightarrow> Stats" where
  "inc_user_probe_pass s = s\<lparr>st_user_probe_passes := st_user_probe_passes s + 1\<rparr>"

definition mark_shell_ready :: "u64 \<Rightarrow> Stats \<Rightarrow> Stats" where
  "mark_shell_ready tick s = s\<lparr>st_shell_ready_tick := tick\<rparr>"

lemmas stats_defs =
  inc_timer_irq_def inc_keyboard_irq_def inc_default_irq_def inc_exception_def
  inc_keyboard_scancode_def inc_keyboard_event_def inc_keyboard_dropped_event_def
  inc_shell_command_def inc_shell_error_def inc_shell_empty_command_def inc_shell_history_recall_def
  inc_vga_cell_write_def inc_vga_clear_def inc_vga_scroll_def inc_cursor_toggle_def
  inc_serial_byte_def inc_bench_run_def inc_syscall_def inc_user_probe_def inc_user_probe_pass_def
  mark_shell_ready_def

end
