(* ===== verification/Vga.thy ===== *)
theory Vga
  imports Stats
begin

text \<open>
  The text console, \<^verbatim>\<open>src/src/vga.rs\<close>: a writer with its cursor over the 80 by 25 cells of the
  screen. The kernel writes cells through a raw pointer without a bounds check, so the buffer is
  a function of every offset, and staying on the screen is a property to be proved. Operations
  also count what they do in the statistics.
\<close>

unbundle bit_operations_syntax

section \<open>Constants and data\<close>

definition TEXT_ON_LIGHT :: u8 where "TEXT_ON_LIGHT = 0x70"
definition MUTED_ON_LIGHT :: u8 where "MUTED_ON_LIGHT = 0x78"
definition ACCENT_ON_LIGHT :: u8 where "ACCENT_ON_LIGHT = 0x71"
definition BAR_COLOR :: u8 where "BAR_COLOR = 0x17"
definition CURSOR_COLOR :: u8 where "CURSOR_COLOR = 0x07"
definition PANIC_BACKGROUND :: u8 where "PANIC_BACKGROUND = 0x4f"
definition PANIC_PANEL :: u8 where "PANIC_PANEL = 0x0f"
definition VGA_WIDTH :: nat where "VGA_WIDTH = 80"
definition VGA_HEIGHT :: nat where "VGA_HEIGHT = 25"
definition CONSOLE_TOP :: nat where "CONSOLE_TOP = 8"
definition CONSOLE_BOTTOM :: nat where "CONSOLE_BOTTOM = 23"
definition PANEL_LEFT :: nat where "PANEL_LEFT = 1"
definition PANEL_RIGHT :: nat where "PANEL_RIGHT = 78"
definition CONSOLE_LEFT :: nat where "CONSOLE_LEFT = 3"
definition CONSOLE_RIGHT :: nat where "CONSOLE_RIGHT = 76"
definition CONSOLE_WIDTH :: nat where "CONSOLE_WIDTH = CONSOLE_RIGHT - CONSOLE_LEFT + 1"
definition INPUT_COLUMNS_PER_ROW :: nat where "INPUT_COLUMNS_PER_ROW = CONSOLE_WIDTH - 2"
definition INPUT_BUFFER_SIZE :: nat where "INPUT_BUFFER_SIZE = 512"
definition PROMPT :: "u8 list" where "PROMPT = ascii ''> ''"

lemmas vga_consts = VGA_WIDTH_def VGA_HEIGHT_def CONSOLE_TOP_def CONSOLE_BOTTOM_def PANEL_LEFT_def
  PANEL_RIGHT_def CONSOLE_LEFT_def CONSOLE_RIGHT_def CONSOLE_WIDTH_def INPUT_COLUMNS_PER_ROW_def

record ScreenChar =
  sc_ascii_character :: u8
  sc_color_code :: u8

record Writer =
  w_row :: nat
  w_column :: nat
  w_input_row :: nat
  w_color_code :: u8
  w_cursor_visible :: bool
  w_cursor_saved :: ScreenChar
  w_buffer :: "nat \<Rightarrow> ScreenChar"

definition Writer_new :: "(nat \<Rightarrow> ScreenChar) \<Rightarrow> Writer" where
  "Writer_new buffer = \<lparr>w_row = 0, w_column = 0, w_input_row = 0, w_color_code = TEXT_ON_LIGHT,
     w_cursor_visible = False,
     w_cursor_saved = \<lparr>sc_ascii_character = 0x20, sc_color_code = TEXT_ON_LIGHT\<rparr>, w_buffer = buffer\<rparr>"

type_synonym vga = "Writer \<times> Stats"

definition on_writer :: "(Writer \<Rightarrow> Writer) \<Rightarrow> vga \<Rightarrow> vga" where
  "on_writer f v = (f (fst v), snd v)"

definition on_stats :: "(Stats \<Rightarrow> Stats) \<Rightarrow> vga \<Rightarrow> vga" where
  "on_stats f v = (fst v, f (snd v))"

definition vga_byte :: "u8 \<Rightarrow> u8" where
  "vga_byte byte = (if 0x20 \<le> byte \<and> byte \<le> 0x7e then byte else if byte = 0x0a then byte
     else if byte = 8 then byte else 0x3f)"

section \<open>Cells and the cursor\<close>

definition read_cell :: "nat \<Rightarrow> vga \<Rightarrow> ScreenChar" where
  "read_cell offset v = w_buffer (fst v) offset"

definition write_cell :: "nat \<Rightarrow> u8 \<Rightarrow> u8 \<Rightarrow> vga \<Rightarrow> vga" where
  "write_cell offset byte color v =
     on_writer (\<lambda>w. w\<lparr>w_buffer := (w_buffer w)(offset := \<lparr>sc_ascii_character = byte, sc_color_code = color\<rparr>)\<rparr>)
       (on_stats inc_vga_cell_write v)"

definition hide_cursor :: "vga \<Rightarrow> vga" where
  "hide_cursor v =
     (if \<not> w_cursor_visible (fst v) then v
      else let offset = w_row (fst v) * VGA_WIDTH + w_column (fst v);
               saved = w_cursor_saved (fst v);
               v = write_cell offset (sc_ascii_character saved) (sc_color_code saved) v
           in on_writer (\<lambda>w. w\<lparr>w_cursor_visible := False\<rparr>) v)"

definition show_cursor :: "vga \<Rightarrow> vga" where
  "show_cursor v =
     (if w_cursor_visible (fst v) then v
      else let offset = w_row (fst v) * VGA_WIDTH + w_column (fst v);
               v = on_writer (\<lambda>w. w\<lparr>w_cursor_saved := w_buffer w offset\<rparr>) v;
               v = write_cell offset 0x5f CURSOR_COLOR v
           in on_writer (\<lambda>w. w\<lparr>w_cursor_visible := True\<rparr>) v)"

definition toggle_cursor :: "vga \<Rightarrow> vga" where
  "toggle_cursor v =
     (let v = on_stats inc_cursor_toggle v
      in if w_cursor_visible (fst v) then hide_cursor v else show_cursor v)"

definition set_cursor :: "nat \<Rightarrow> nat \<Rightarrow> vga \<Rightarrow> vga" where
  "set_cursor row column v =
     on_writer (\<lambda>w. w\<lparr>w_row := min row (VGA_HEIGHT - 1), w_column := min column (VGA_WIDTH - 1)\<rparr>) (hide_cursor v)"

section \<open>Rows and scrolling\<close>

definition clear_row_with_color :: "nat \<Rightarrow> u8 \<Rightarrow> vga \<Rightarrow> vga" where
  "clear_row_with_color row color =
     fold (\<lambda>column. write_cell (row * VGA_WIDTH + column) 0x20 color) [0..<VGA_WIDTH]"

definition clear_row :: "nat \<Rightarrow> vga \<Rightarrow> vga" where
  "clear_row row v = clear_row_with_color row (w_color_code (fst v)) v"

definition clear_console_row :: "nat \<Rightarrow> vga \<Rightarrow> vga" where
  "clear_console_row row =
     fold (\<lambda>column v. write_cell (row * VGA_WIDTH + column) 0x20 (w_color_code (fst v)) v)
       [CONSOLE_LEFT..<CONSOLE_RIGHT + 1]"

definition scroll_cell :: "nat \<Rightarrow> nat \<Rightarrow> vga \<Rightarrow> vga" where
  "scroll_cell row column v =
     (let character = read_cell (row * VGA_WIDTH + column) v
      in write_cell ((row - 1) * VGA_WIDTH + column) (sc_ascii_character character)
           (sc_color_code character) v)"

definition scroll_console_up :: "vga \<Rightarrow> vga" where
  "scroll_console_up v =
     (let v = hide_cursor (on_stats inc_vga_scroll v);
          v = fold (\<lambda>row. fold (scroll_cell row) [CONSOLE_LEFT..<CONSOLE_RIGHT + 1])
                [CONSOLE_TOP + 1..<CONSOLE_BOTTOM + 1] v;
          v = clear_console_row CONSOLE_BOTTOM v
      in on_writer (\<lambda>w. w\<lparr>w_row := CONSOLE_BOTTOM, w_column := CONSOLE_LEFT\<rparr>) v)"

section \<open>Writing text\<close>

definition new_line :: "vga \<Rightarrow> vga" where
  "new_line v =
     (let v = on_writer (\<lambda>w. w\<lparr>w_column := CONSOLE_LEFT\<rparr>) v;
          v = (if CONSOLE_BOTTOM \<le> w_row (fst v) then scroll_console_up v
               else on_writer (\<lambda>w. w\<lparr>w_row := w_row w + 1\<rparr>) v)
      in if w_row (fst v) < CONSOLE_TOP then on_writer (\<lambda>w. w\<lparr>w_row := CONSOLE_TOP\<rparr>) v else v)"

definition backspace :: "vga \<Rightarrow> vga" where
  "backspace v =
     (let clear = (\<lambda>v. write_cell (w_row (fst v) * VGA_WIDTH + w_column (fst v)) 0x20 (w_color_code (fst v)) v)
      in if CONSOLE_LEFT < w_column (fst v) then clear (on_writer (\<lambda>w. w\<lparr>w_column := w_column w - 1\<rparr>) v)
         else if CONSOLE_TOP < w_row (fst v)
         then clear (on_writer (\<lambda>w. w\<lparr>w_row := w_row w - 1, w_column := CONSOLE_RIGHT\<rparr>) v)
         else v)"

definition vga_write_byte :: "u8 \<Rightarrow> vga \<Rightarrow> vga" where
  "vga_write_byte byte v =
     (if byte = 0x0a then new_line v
      else if byte = 8 then backspace v
      else
        let v = (if w_column (fst v) < CONSOLE_LEFT then on_writer (\<lambda>w. w\<lparr>w_column := CONSOLE_LEFT\<rparr>) v else v);
            v = (if CONSOLE_RIGHT < w_column (fst v) then new_line v else v);
            v = write_cell (w_row (fst v) * VGA_WIDTH + w_column (fst v)) (vga_byte byte) (w_color_code (fst v)) v;
            v = on_writer (\<lambda>w. w\<lparr>w_column := w_column w + 1\<rparr>) v
        in if CONSOLE_RIGHT < w_column (fst v) then new_line v else v)"

definition write_string :: "u8 list \<Rightarrow> vga \<Rightarrow> vga" where
  "write_string s v = fold vga_write_byte s (hide_cursor v)"

definition write_line :: "u8 list \<Rightarrow> vga \<Rightarrow> vga" where
  "write_line s v = vga_write_byte 0x0a (write_string s v)"

text \<open>The public \<open>write_byte\<close> hides the cursor first.\<close>

definition console_write_byte :: "u8 \<Rightarrow> vga \<Rightarrow> vga" where
  "console_write_byte byte v = vga_write_byte byte (hide_cursor v)"

section \<open>Text at a position\<close>

definition write_bytes_at :: "nat \<Rightarrow> u8 list \<Rightarrow> u8 \<Rightarrow> vga \<Rightarrow> vga" where
  "write_bytes_at start bytes color =
     fold (\<lambda>(offset, byte). write_cell (start + offset) byte color) (enumerate 0 bytes)"

definition write_string_at_color :: "nat \<Rightarrow> nat \<Rightarrow> u8 list \<Rightarrow> u8 \<Rightarrow> vga \<Rightarrow> vga" where
  "write_string_at_color row column s color v =
     (if VGA_HEIGHT \<le> row \<or> VGA_WIDTH \<le> column then v
      else write_bytes_at (row * VGA_WIDTH + column) (map vga_byte (take (VGA_WIDTH - column) s)) color v)"

definition write_centered_color :: "nat \<Rightarrow> u8 list \<Rightarrow> u8 \<Rightarrow> vga \<Rightarrow> vga" where
  "write_centered_color row s color =
     (let width = min (length s) VGA_WIDTH
      in write_string_at_color row ((VGA_WIDTH - width) div 2) s color)"

definition write_centered_in_range :: "nat \<Rightarrow> nat \<Rightarrow> nat \<Rightarrow> u8 list \<Rightarrow> u8 \<Rightarrow> vga \<Rightarrow> vga" where
  "write_centered_in_range row left right s color v =
     (if right < left \<or> VGA_WIDTH \<le> right then v
      else let range_width = right - left + 1;
               width = min (length s) range_width
           in write_string_at_color row (left + (range_width - width) div 2) s color v)"

text \<open>The digits of a number, last first into an array of 20.\<close>

function decimal_digits :: "u64 \<Rightarrow> u8 list \<Rightarrow> u8 list" where
  "decimal_digits v digits =
     (if 0 < v then decimal_digits (v div 10) ((0x30 + ucast (v mod 10)) # digits) else digits)"
  by pat_completeness auto
termination
  by (relation "measure (\<lambda>(v, _). unat v)") (auto simp: unat_div word_less_nat_alt)

declare decimal_digits.simps [simp del]

definition write_u64_at_color :: "nat \<Rightarrow> nat \<Rightarrow> u64 \<Rightarrow> u8 \<Rightarrow> vga \<Rightarrow> vga" where
  "write_u64_at_color row column number color v =
     (if number = 0 then write_cell (row * VGA_WIDTH + column) 0x30 color v
      else write_bytes_at (row * VGA_WIDTH + column)
             (take (VGA_WIDTH - column) (decimal_digits number [])) color v)"

definition hex_digit :: "u8 \<Rightarrow> u8" where
  "hex_digit nibble = (if nibble < 10 then 0x30 + nibble else 0x61 + (nibble - 10))"

fun hex_loop :: "nat \<Rightarrow> u64 \<Rightarrow> nat \<Rightarrow> u8 \<Rightarrow> nat list \<Rightarrow> bool \<Rightarrow> vga \<Rightarrow> vga" where
  "hex_loop row number output_column color [] started v = v"
| "hex_loop row number output_column color (shift # shifts) started v =
     (let nibble = ucast (drop_bit shift number AND 0x0f)
      in if nibble \<noteq> 0 \<or> started \<or> shift = 0
         then if output_column < VGA_WIDTH
              then hex_loop row number (output_column + 1) color shifts True
                     (write_cell (row * VGA_WIDTH + output_column) (hex_digit nibble) color v)
              else hex_loop row number output_column color shifts True v
         else hex_loop row number output_column color shifts started v)"

definition write_hex_u64_at_color :: "nat \<Rightarrow> nat \<Rightarrow> u64 \<Rightarrow> u8 \<Rightarrow> vga \<Rightarrow> vga" where
  "write_hex_u64_at_color row column number color v =
     (if VGA_WIDTH \<le> column + 2 then v
      else let v = write_cell (row * VGA_WIDTH + column) 0x30 color v;
               v = write_cell (row * VGA_WIDTH + column + 1) 0x78 color v
           in hex_loop row number (column + 2) color
                [60, 56, 52, 48, 44, 40, 36, 32, 28, 24, 20, 16, 12, 8, 4, 0] False v)"

section \<open>Boxes and screens\<close>

definition fill_rect :: "nat \<Rightarrow> nat \<Rightarrow> nat \<Rightarrow> nat \<Rightarrow> u8 \<Rightarrow> vga \<Rightarrow> vga" where
  "fill_rect upper left lower right color =
     fold (\<lambda>row. fold (\<lambda>column. write_cell (row * VGA_WIDTH + column) 0x20 color) [left..<right + 1]) [upper..<lower + 1]"

definition draw_box :: "nat \<Rightarrow> nat \<Rightarrow> nat \<Rightarrow> nat \<Rightarrow> u8 \<Rightarrow> vga \<Rightarrow> vga" where
  "draw_box upper left lower right color v =
     (let v = fold (\<lambda>column v. write_cell (lower * VGA_WIDTH + column) 0x2d color
                     (write_cell (upper * VGA_WIDTH + column) 0x2d color v)) [left..<right + 1] v;
          v = fold (\<lambda>row v. write_cell (row * VGA_WIDTH + right) 0x7c color
                     (write_cell (row * VGA_WIDTH + left) 0x7c color v)) [upper..<lower + 1] v;
          v = write_cell (upper * VGA_WIDTH + left) 0x2b color v;
          v = write_cell (upper * VGA_WIDTH + right) 0x2b color v;
          v = write_cell (lower * VGA_WIDTH + left) 0x2b color v
      in write_cell (lower * VGA_WIDTH + right) 0x2b color v)"

definition draw_status_bar :: "vga \<Rightarrow> vga" where
  "draw_status_bar v =
     (let v = clear_row_with_color 0 BAR_COLOR v;
          v = write_string_at_color 0 2 (ascii ''Tobacco Terminal'') BAR_COLOR v;
          v = write_centered_color 0 (ascii ''Phase 1 Console'') BAR_COLOR v
      in write_string_at_color 0 68 (ascii ''v0.0.5'') BAR_COLOR v)"

definition draw_panel :: "vga \<Rightarrow> vga" where
  "draw_panel v =
     (let v = fold (\<lambda>column v. write_cell (24 * VGA_WIDTH + column) 0x2d MUTED_ON_LIGHT
                     (write_cell (7 * VGA_WIDTH + column) 0x2d MUTED_ON_LIGHT v)) [PANEL_LEFT..<PANEL_RIGHT + 1] v;
          v = write_cell (7 * VGA_WIDTH + PANEL_LEFT) 0x2b MUTED_ON_LIGHT v;
          v = write_cell (7 * VGA_WIDTH + PANEL_RIGHT) 0x2b MUTED_ON_LIGHT v;
          v = write_cell (24 * VGA_WIDTH + PANEL_LEFT) 0x2b MUTED_ON_LIGHT v;
          v = write_cell (24 * VGA_WIDTH + PANEL_RIGHT) 0x2b MUTED_ON_LIGHT v
      in fold (\<lambda>row v. clear_console_row row (write_cell (row * VGA_WIDTH + PANEL_RIGHT) 0x7c MUTED_ON_LIGHT
                 (write_cell (row * VGA_WIDTH + PANEL_LEFT) 0x7c MUTED_ON_LIGHT v)))
           [CONSOLE_TOP..<CONSOLE_BOTTOM + 1] v)"

definition clear_screen :: "vga \<Rightarrow> vga" where
  "clear_screen v =
     (let v = hide_cursor (on_stats inc_vga_clear v);
          v = fold (\<lambda>offset v. write_cell offset 0x20 (w_color_code (fst v)) v) [0..<VGA_WIDTH * VGA_HEIGHT] v
      in on_writer (\<lambda>w. w\<lparr>w_row := 0, w_column := 0, w_input_row := 0\<rparr>) v)"

definition show_splash :: "vga \<Rightarrow> vga" where
  "show_splash v =
     (let v = draw_status_bar (clear_screen v);
          v = write_centered_color 2 (ascii ''Tobacco'') ACCENT_ON_LIGHT v;
          v = write_centered_color 3 (ascii ''Kernel v0.0.5 - Booted'') TEXT_ON_LIGHT v;
          v = write_centered_color 5
                (ascii ''Type help for commands  |  Up/Down history  |  Esc clears input'') MUTED_ON_LIGHT v
      in set_cursor CONSOLE_TOP CONSOLE_LEFT (draw_panel v))"

definition panic_background :: "vga \<Rightarrow> vga" where
  "panic_background = fold (\<lambda>offset. write_cell offset 0x20 PANIC_BACKGROUND) [0..<VGA_WIDTH * VGA_HEIGHT]"

definition panic_lines :: "nat \<Rightarrow> nat \<Rightarrow> vga \<Rightarrow> vga" where
  "panic_lines row column v =
     (let v = write_string_at_color row column (ascii ''status  : halted'') PANIC_PANEL v;
          v = write_string_at_color (row + 1) column (ascii ''serial  : active'') PANIC_PANEL v;
          v = write_string_at_color (row + 2) column (ascii ''action  : close QEMU or restart VM'') PANIC_PANEL v
      in v)"

definition show_panic_screen :: "u8 list \<Rightarrow> u8 list \<Rightarrow> vga \<Rightarrow> vga" where
  "show_panic_screen title detail v =
     (let v = panic_background (hide_cursor v);
          v = write_centered_color 2 (ascii ''Tobacco'') PANIC_BACKGROUND v;
          v = write_centered_color 3 (ascii ''KERNEL PANIC'') PANIC_BACKGROUND v;
          v = draw_box 5 6 19 73 PANIC_PANEL (fill_rect 5 6 19 73 PANIC_PANEL v);
          v = write_centered_in_range 7 6 73 title PANIC_PANEL v;
          v = write_string_at_color 9 10 (ascii ''error   : '') PANIC_PANEL v;
          v = write_string_at_color 9 20 detail PANIC_PANEL v;
          v = panic_lines 11 10 v;
          v = write_string_at_color 16 10 (ascii ''Tobacco stopped to protect kernel state.'') PANIC_PANEL v;
          v = write_centered_color 21 (ascii ''No host disk was touched.'') PANIC_BACKGROUND v
      in on_writer (\<lambda>w. w\<lparr>w_row := 18, w_column := 10, w_input_row := 0\<rparr>) v)"

definition show_exception_screen :: "u8 list \<Rightarrow> u64 \<Rightarrow> u64 \<Rightarrow> u64 \<Rightarrow> u64 \<Rightarrow> u64 \<Rightarrow> vga \<Rightarrow> vga" where
  "show_exception_screen name vector error_code instruction_pointer fault_address cpu_flags v =
     (let v = panic_background (hide_cursor v);
          v = write_centered_color 2 (ascii ''Tobacco'') PANIC_BACKGROUND v;
          v = write_centered_color 3 (ascii ''CPU EXCEPTION'') PANIC_BACKGROUND v;
          v = draw_box 5 4 21 75 PANIC_PANEL (fill_rect 5 4 21 75 PANIC_PANEL v);
          v = write_centered_in_range 7 4 75 name PANIC_PANEL v;
          v = write_string_at_color 9 8 (ascii ''vector  : '') PANIC_PANEL v;
          v = write_u64_at_color 9 18 vector PANIC_PANEL v;
          v = write_string_at_color 10 8 (ascii ''error   : '') PANIC_PANEL v;
          v = write_hex_u64_at_color 10 18 error_code PANIC_PANEL v;
          v = write_string_at_color 11 8 (ascii ''rip     : '') PANIC_PANEL v;
          v = write_hex_u64_at_color 11 18 instruction_pointer PANIC_PANEL v;
          v = write_string_at_color 12 8 (ascii ''cr2     : '') PANIC_PANEL v;
          v = write_hex_u64_at_color 12 18 fault_address PANIC_PANEL v;
          v = write_string_at_color 13 8 (ascii ''rflags  : '') PANIC_PANEL v;
          v = write_hex_u64_at_color 13 18 cpu_flags PANIC_PANEL v;
          v = panic_lines 15 8 v;
          v = write_string_at_color 19 8 (ascii ''Tobacco stopped to protect kernel state.'') PANIC_PANEL v;
          v = write_centered_color 23 (ascii ''No host disk was touched.'') PANIC_BACKGROUND v
      in on_writer (\<lambda>w. w\<lparr>w_row := 20, w_column := 8, w_input_row := 0\<rparr>) v)"

section \<open>The input line\<close>

definition write_prompt_at :: "nat \<Rightarrow> vga \<Rightarrow> vga" where
  "write_prompt_at row = write_bytes_at (row * VGA_WIDTH + CONSOLE_LEFT) PROMPT ACCENT_ON_LIGHT"

definition render_row :: "u8 list \<Rightarrow> nat \<Rightarrow> vga \<Rightarrow> vga" where
  "render_row input visual_row v =
     (let row = w_input_row (fst v) + visual_row;
          start = visual_row * INPUT_COLUMNS_PER_ROW;
          finish = min (start + INPUT_COLUMNS_PER_ROW) (length input);
          v = write_prompt_at row v
      in if start < length input
         then write_bytes_at (row * VGA_WIDTH + CONSOLE_LEFT + length PROMPT)
                (map vga_byte (take (finish - start) (drop start input))) (w_color_code (fst v)) v
         else v)"

definition render_input_with_cursor :: "u8 list \<Rightarrow> nat \<Rightarrow> vga \<Rightarrow> vga" where
  "render_input_with_cursor input cursor_index v =
     (let v = hide_cursor v;
          rows_needed = length input div INPUT_COLUMNS_PER_ROW + 1;
          v = (if CONSOLE_BOTTOM < w_input_row (fst v) + rows_needed - 1
               then let scroll_count = w_input_row (fst v) + rows_needed - 1 - CONSOLE_BOTTOM;
                        v = (scroll_console_up ^^ scroll_count) v
                    in on_writer (\<lambda>w. w\<lparr>w_input_row := max (w_input_row w - scroll_count) CONSOLE_TOP\<rparr>) v
               else v);
          v = fold clear_console_row [w_input_row (fst v)..<CONSOLE_BOTTOM + 1] v;
          v = fold (render_row input) [0..<rows_needed] v;
          cursor_index = min cursor_index (length input)
      in set_cursor (w_input_row (fst v) + cursor_index div INPUT_COLUMNS_PER_ROW)
           (CONSOLE_LEFT + length PROMPT + cursor_index mod INPUT_COLUMNS_PER_ROW) v)"

definition render_input :: "u8 list \<Rightarrow> vga \<Rightarrow> vga" where
  "render_input input = render_input_with_cursor input (length input)"

definition start_prompt :: "vga \<Rightarrow> vga" where
  "start_prompt v =
     (let v = hide_cursor v;
          v = (if w_column (fst v) \<noteq> CONSOLE_LEFT then new_line v else v);
          v = on_writer (\<lambda>w. w\<lparr>w_input_row := w_row w\<rparr>) v
      in render_input [] v)"

definition vga_init :: "vga \<Rightarrow> vga" where
  "vga_init = clear_screen"

end
