(* ===== verification/Vga_Properties.thy ===== *)
theory Vga_Properties
  imports Vga
begin

text \<open>
  The console stays where it belongs: no operation touches memory behind the screen, and once the
  prompt is up, text, input lines and the blinking cursor stay inside the console panel.
\<close>

section \<open>Selectors\<close>

lemma writer_sel [simp]:
  "fst (on_writer f v) = f (fst v)" "snd (on_writer f v) = snd v"
  "fst (on_stats g v) = fst v" "snd (on_stats g v) = g (snd v)"
  by (simp_all add: on_writer_def on_stats_def)

lemma write_cell_sel [simp]:
  "w_row (fst (write_cell k x c v)) = w_row (fst v)" "w_column (fst (write_cell k x c v)) = w_column (fst v)"
  "w_input_row (fst (write_cell k x c v)) = w_input_row (fst v)"
  "w_color_code (fst (write_cell k x c v)) = w_color_code (fst v)"
  "w_cursor_visible (fst (write_cell k x c v)) = w_cursor_visible (fst v)"
  "w_cursor_saved (fst (write_cell k x c v)) = w_cursor_saved (fst v)"
  "w_buffer (fst (write_cell k x c v)) = (w_buffer (fst v))(k := \<lparr>sc_ascii_character = x, sc_color_code = c\<rparr>)"
  by (simp_all add: write_cell_def)

text \<open>The input row moves only when the console scrolls.\<close>

lemma input_row_cells [simp]:
  "w_input_row (fst (hide_cursor v)) = w_input_row (fst v)"
  "w_input_row (fst (clear_console_row r v)) = w_input_row (fst v)"
  "w_input_row (fst (scroll_console_up v)) = w_input_row (fst v)"
  "w_input_row (fst ((scroll_console_up ^^ n) v)) = w_input_row (fst v)"
  "w_input_row (fst (write_bytes_at st bytes c v)) = w_input_row (fst v)"
proof -
  have f: "w_input_row (fst (fold f xs v)) = w_input_row (fst v)"
    if "\<And>x v. w_input_row (fst (f x v)) = w_input_row (fst v)" for f :: "'x \<Rightarrow> vga \<Rightarrow> vga" and xs v
    using that by (induction xs arbitrary: v) auto
  show h: "w_input_row (fst (hide_cursor v)) = w_input_row (fst v)" for v by (simp add: hide_cursor_def Let_def)
  show c: "w_input_row (fst (clear_console_row r v)) = w_input_row (fst v)" for r v
    unfolding clear_console_row_def by (rule f) simp
  have "w_input_row (fst (fold (scroll_cell r) xs v)) = w_input_row (fst v)" for r xs v
    by (rule f) (simp add: scroll_cell_def Let_def)
  then show s: "w_input_row (fst (scroll_console_up v)) = w_input_row (fst v)" for v
    by (simp add: scroll_console_up_def Let_def c h f)
  show "w_input_row (fst ((scroll_console_up ^^ n) v)) = w_input_row (fst v)" by (induction n) (simp_all add: s)
  show "w_input_row (fst (write_bytes_at st bytes c v)) = w_input_row (fst v)"
    unfolding write_bytes_at_def by (rule f) (simp add: split_beta)
qed

section \<open>A canvas\<close>

text \<open>
  A set of cells with a row and a column from which on the cursor moves: the whole screen, or the
  inside of the console panel. An operation stays on the canvas if it keeps the cursor in range and
  every other cell as it was.
\<close>

locale canvas =
  fixes cells :: "nat set" and first_row first_column :: nat
  assumes bounds: "first_row \<le> CONSOLE_TOP" "first_column \<le> CONSOLE_LEFT"
    and inside: "first_row \<le> r \<Longrightarrow> r \<le> CONSOLE_BOTTOM \<Longrightarrow> first_column \<le> c \<Longrightarrow> c \<le> CONSOLE_RIGHT \<Longrightarrow>
      r * VGA_WIDTH + c \<in> cells"
begin

definition placed :: "(nat \<Rightarrow> ScreenChar) \<Rightarrow> vga \<Rightarrow> bool" where
  "placed b v \<longleftrightarrow> (\<forall>k. k \<notin> cells \<longrightarrow> w_buffer (fst v) k = b k)
     \<and> first_row \<le> w_row (fst v) \<and> w_row (fst v) \<le> CONSOLE_BOTTOM
     \<and> first_column \<le> w_column (fst v) \<and> w_column (fst v) \<le> CONSOLE_RIGHT
     \<and> first_row \<le> w_input_row (fst v) \<and> w_input_row (fst v) \<le> CONSOLE_BOTTOM"

lemma placed_cell: "placed b v \<Longrightarrow> k \<in> cells \<Longrightarrow> placed b (write_cell k x c v)"
  by (auto simp: placed_def)

lemma placed_cursor: "placed b v \<Longrightarrow> w_row (fst v) * VGA_WIDTH + w_column (fst v) \<in> cells"
  by (auto simp: placed_def intro: inside)

lemma placed_stats [simp]: "placed b (on_stats f v) = placed b v"
  by (simp add: placed_def)

lemma placed_fold:
  assumes "placed b v" "\<And>x v. x \<in> set xs \<Longrightarrow> placed b v \<Longrightarrow> placed b (f x v)"
  shows "placed b (fold f xs v)"
  using assms by (induction xs arbitrary: v) auto

lemma placed_visible [simp]: "placed b (on_writer (\<lambda>w. w\<lparr>w_cursor_visible := x\<rparr>) v) = placed b v"
  by (simp add: placed_def)

lemma placed_hide: "placed b v \<Longrightarrow> placed b (hide_cursor v)"
  by (simp add: hide_cursor_def Let_def placed_cell placed_cursor)

lemma placed_show: "placed b v \<Longrightarrow> placed b (show_cursor v)"
proof -
  assume p: "placed b v"
  let ?v = "on_writer (\<lambda>w. w\<lparr>w_cursor_saved := w_buffer w (w_row (fst v) * VGA_WIDTH + w_column (fst v))\<rparr>) v"
  have "placed b ?v" using p by (simp add: placed_def)
  from placed_cell [OF this placed_cursor [OF p]] show ?thesis using p
    by (simp add: show_cursor_def Let_def)
qed

lemma placed_toggle: "placed b v \<Longrightarrow> placed b (toggle_cursor v)"
  by (simp add: toggle_cursor_def Let_def placed_hide placed_show)

lemma placed_move:
  assumes "placed b v" "first_row \<le> r" "r \<le> CONSOLE_BOTTOM" "first_column \<le> c" "c \<le> CONSOLE_RIGHT"
  shows "placed b (on_writer (\<lambda>w. w\<lparr>w_row := r, w_column := c\<rparr>) v)"
  using assms by (simp add: placed_def)

lemma console_cell: "CONSOLE_TOP \<le> r \<Longrightarrow> r \<le> CONSOLE_BOTTOM \<Longrightarrow> CONSOLE_LEFT \<le> c \<Longrightarrow> c \<le> CONSOLE_RIGHT \<Longrightarrow>
    r * VGA_WIDTH + c \<in> cells"
  using bounds by (intro inside) auto

lemma placed_clear_row:
  assumes "placed b v" "first_row \<le> r" "r \<le> CONSOLE_BOTTOM"
  shows "placed b (clear_console_row r v)"
  unfolding clear_console_row_def
  by (rule placed_fold [OF assms(1)], rule placed_cell) (use assms bounds in \<open>auto intro!: inside\<close>)

lemma placed_scroll:
  assumes "placed b v"
  shows "placed b (scroll_console_up v)"
proof -
  have s: "placed b (scroll_cell r c v)" if "placed b v" "CONSOLE_TOP < r" "r \<le> CONSOLE_BOTTOM" "CONSOLE_LEFT \<le> c" "c \<le> CONSOLE_RIGHT"
    for r c v
    using that by (auto simp: scroll_cell_def Let_def intro!: placed_cell console_cell)
  have f: "placed b (fold (\<lambda>row. fold (scroll_cell row) [CONSOLE_LEFT..<CONSOLE_RIGHT + 1])
      [CONSOLE_TOP + 1..<CONSOLE_BOTTOM + 1] (hide_cursor (on_stats inc_vga_scroll v)))"
    by (intro placed_fold placed_hide s) (use assms in auto)
  have c: "placed b (clear_console_row CONSOLE_BOTTOM (fold (\<lambda>row. fold (scroll_cell row) [CONSOLE_LEFT..<CONSOLE_RIGHT + 1])
      [CONSOLE_TOP + 1..<CONSOLE_BOTTOM + 1] (hide_cursor (on_stats inc_vga_scroll v))))"
    by (rule placed_clear_row [OF f]) (use bounds in \<open>auto simp: vga_consts\<close>)
  show ?thesis unfolding scroll_console_up_def Let_def
    by (rule placed_move [OF c]) (use bounds in \<open>auto simp: vga_consts\<close>)
qed

lemma placed_new_line:
  assumes "placed b v"
  shows "placed b (new_line v)"
proof -
  let ?v = "on_writer (\<lambda>w. w\<lparr>w_column := CONSOLE_LEFT\<rparr>) v"
  have v: "placed b ?v" using assms bounds by (auto simp: placed_def vga_consts)
  have s: "placed b (scroll_console_up ?v)" by (rule placed_scroll [OF v])
  have "placed b (on_writer (\<lambda>w. w\<lparr>w_row := CONSOLE_TOP\<rparr>) u)" if "placed b u" for u
    using that bounds by (auto simp: placed_def vga_consts)
  moreover have "placed b (on_writer (\<lambda>w. w\<lparr>w_row := w_row w + 1\<rparr>) ?v)" if "w_row (fst v) < CONSOLE_BOTTOM"
    using that v by (auto simp: placed_def)
  ultimately show ?thesis using v s by (auto simp: new_line_def Let_def)
qed

lemma placed_backspace:
  assumes "placed b v"
  shows "placed b (backspace v)"
proof -
  have e: "placed b (write_cell (w_row (fst u) * VGA_WIDTH + w_column (fst u)) 0x20 (w_color_code (fst u)) u)"
    if "placed b u" for u
    using that by (intro placed_cell placed_cursor)
  have 1: "placed b (on_writer (\<lambda>w. w\<lparr>w_column := w_column w - 1\<rparr>) v)" if "CONSOLE_LEFT < w_column (fst v)"
    using assms that bounds by (auto simp: placed_def)
  have 2: "placed b (on_writer (\<lambda>w. w\<lparr>w_row := w_row w - 1, w_column := CONSOLE_RIGHT\<rparr>) v)" if "CONSOLE_TOP < w_row (fst v)"
    using assms that bounds by (auto simp: placed_def vga_consts)
  show ?thesis unfolding backspace_def Let_def using e [OF 1] e [OF 2] assms by (auto simp only: split: if_split)
qed

lemma placed_write_byte:
  assumes "placed b v"
  shows "placed b (vga_write_byte byte v)"
proof -
  define u where "u = (if w_column (fst v) < CONSOLE_LEFT then on_writer (\<lambda>w. w\<lparr>w_column := CONSOLE_LEFT\<rparr>) v else v)"
  have u: "placed b u" "w_column (fst u) \<le> CONSOLE_RIGHT"
    using assms bounds by (auto simp: u_def placed_def vga_consts)
  define t where "t = write_cell (w_row (fst u) * VGA_WIDTH + w_column (fst u)) (vga_byte byte) (w_color_code (fst u)) u"
  have t: "placed b t" "w_column (fst t) = w_column (fst u)"
    unfolding t_def using u by (simp_all add: placed_cell placed_cursor)
  define w where "w = on_writer (\<lambda>w. w\<lparr>w_column := Suc (w_column w)\<rparr>) t"
  have w: "placed b w" if "\<not> CONSOLE_RIGHT < w_column (fst w)" using t that by (auto simp: w_def placed_def)
  have "new_line w = new_line t" by (simp add: w_def new_line_def on_writer_def)
  then have "placed b (if CONSOLE_RIGHT < w_column (fst w) then new_line w else w)"
    using w placed_new_line [OF t(1)] by auto
  then show ?thesis
    using placed_new_line [OF assms] placed_backspace [OF assms] u(2)
    by (simp add: vga_write_byte_def Let_def u_def [symmetric] t_def [symmetric] w_def [symmetric]
        del: writer_sel split: if_splits)
qed

lemma placed_write_string: "placed b v \<Longrightarrow> placed b (write_string s v)"
  unfolding write_string_def by (intro placed_fold placed_hide placed_write_byte)

lemma placed_write_line: "placed b v \<Longrightarrow> placed b (write_line s v)"
  unfolding write_line_def by (intro placed_write_byte placed_write_string)

lemma placed_bytes_at:
  assumes "placed b v" "first_row \<le> r" "r \<le> CONSOLE_BOTTOM" "first_column \<le> c" "c + length bytes \<le> CONSOLE_RIGHT + 1"
  shows "placed b (write_bytes_at (r * VGA_WIDTH + c) bytes color v)"
  unfolding write_bytes_at_def
proof (rule placed_fold [OF assms(1)])
  fix x u assume x: "x \<in> set (enumerate 0 bytes)" "placed b u"
  obtain k y where xk: "x = (k, y)" by fastforce
  have "k < length bytes" using x(1) xk by (auto simp: in_set_enumerate_eq)
  then have "r * VGA_WIDTH + (c + k) \<in> cells" using assms by (intro inside) auto
  then show "placed b ((case x of (offset, byte) \<Rightarrow> write_cell (r * VGA_WIDTH + c + offset) byte color) u)"
    using x(2) by (simp add: xk placed_cell add.assoc)
qed

lemma placed_render_row:
  assumes "placed b v" "w_input_row (fst v) + k \<le> CONSOLE_BOTTOM"
  shows "placed b (render_row input k v)" "w_input_row (fst (render_row input k v)) = w_input_row (fst v)"
proof -
  have p: "placed b (write_prompt_at (w_input_row (fst v) + k) v)"
    unfolding write_prompt_at_def using assms bounds
    by (intro placed_bytes_at) (auto simp: placed_def PROMPT_def ascii_def vga_consts)
  have r: "first_row \<le> w_input_row (fst v) + k" "first_column \<le> CONSOLE_LEFT + length PROMPT"
    using assms(1) bounds by (auto simp: placed_def)
  have l: "CONSOLE_LEFT + length PROMPT + length (map vga_byte (take (min (k * INPUT_COLUMNS_PER_ROW + INPUT_COLUMNS_PER_ROW)
      (length input) - k * INPUT_COLUMNS_PER_ROW) (drop (k * INPUT_COLUMNS_PER_ROW) input))) \<le> CONSOLE_RIGHT + 1"
    by (simp add: PROMPT_def ascii_def vga_consts)
  show "placed b (render_row input k v)"
    unfolding render_row_def Let_def using p placed_bytes_at [OF p r(1) assms(2) r(2) l]
    by (simp add: add.assoc)
  show "w_input_row (fst (render_row input k v)) = w_input_row (fst v)"
    by (simp add: render_row_def Let_def write_prompt_at_def)
qed

lemma placed_clear_rows:
  assumes "placed b v" "first_row \<le> r"
  shows "placed b (fold clear_console_row [r..<CONSOLE_BOTTOM + 1] v)"
  by (intro placed_fold placed_clear_row) (use assms in auto)

lemma placed_scrolls: "placed b v \<Longrightarrow> placed b ((scroll_console_up ^^ n) v)"
  by (induction n) (auto intro: placed_scroll)

lemma placed_set_cursor:
  assumes "placed b v" "first_row \<le> r" "r \<le> CONSOLE_BOTTOM" "first_column \<le> c" "c \<le> CONSOLE_RIGHT"
  shows "placed b (set_cursor r c v)"
  unfolding set_cursor_def by (rule placed_move [OF placed_hide [OF assms(1)]]) (use assms in \<open>auto simp: vga_consts\<close>)

lemma placed_render:
  assumes p: "placed b v" and l: "length input < 16 * INPUT_COLUMNS_PER_ROW"
  shows "placed b (render_input_with_cursor input k v)"
proof -
  define n where "n = length input div INPUT_COLUMNS_PER_ROW + 1"
  have n: "1 \<le> n" "n \<le> 16" using l by (auto simp: n_def vga_consts)
  define u where "u = (let v = hide_cursor v in if CONSOLE_BOTTOM < w_input_row (fst v) + n - 1
       then let scroll_count = w_input_row (fst v) + n - 1 - CONSOLE_BOTTOM;
                v = (scroll_console_up ^^ scroll_count) v
            in on_writer (\<lambda>w. w\<lparr>w_input_row := max (w_input_row w - scroll_count) CONSOLE_TOP\<rparr>) v
       else v)"
  have i: "first_row \<le> w_input_row (fst v)" "w_input_row (fst v) \<le> CONSOLE_BOTTOM" using p by (auto simp: placed_def)
  have s: "placed b ((scroll_console_up ^^ m) (hide_cursor v))" for m by (intro placed_scrolls placed_hide p)
  have "placed b (on_writer (\<lambda>w. w\<lparr>w_input_row := r\<rparr>) x)" if "placed b x" "first_row \<le> r" "r \<le> CONSOLE_BOTTOM" for r x
    using that by (simp add: placed_def)
  then have u: "placed b u" "w_input_row (fst u) + n - 1 \<le> CONSOLE_BOTTOM"
    using s [of "w_input_row (fst v) + n - 1 - CONSOLE_BOTTOM"] placed_hide [OF p] i n bounds
    unfolding u_def Let_def on_writer_def by (auto simp: vga_consts)
  define t where "t = fold clear_console_row [w_input_row (fst u)..<CONSOLE_BOTTOM + 1] u"
  have "w_input_row (fst (fold clear_console_row rs x)) = w_input_row (fst x)" for rs x by (induction rs arbitrary: x) auto
  then have t: "w_input_row (fst t) = w_input_row (fst u)" unfolding t_def .
  have "first_row \<le> w_input_row (fst u)" using u(1) by (simp add: placed_def)
  then have pt: "placed b t" unfolding t_def by (rule placed_clear_rows [OF u(1)])
  have r: "placed b (fold (render_row input) ks x) \<and> w_input_row (fst (fold (render_row input) ks x)) = w_input_row (fst x)"
    if "placed b x" "\<forall>k \<in> set ks. w_input_row (fst x) + k \<le> CONSOLE_BOTTOM" for ks x
    using that by (induction ks arbitrary: x) (auto simp: placed_render_row)
  define w where "w = fold (render_row input) [0..<n] t"
  have "\<forall>k \<in> set [0..<n]. w_input_row (fst t) + k \<le> CONSOLE_BOTTOM" using t u(2) by auto
  then have w: "placed b w" "w_input_row (fst w) = w_input_row (fst u)" using r [OF pt, of "[0..<n]"] t by (auto simp: w_def)
  have c: "min k (length input) div INPUT_COLUMNS_PER_ROW \<le> n - 1" by (simp add: n_def div_le_mono)
  have "placed b (set_cursor (w_input_row (fst w) + min k (length input) div INPUT_COLUMNS_PER_ROW)
           (CONSOLE_LEFT + length PROMPT + min k (length input) mod INPUT_COLUMNS_PER_ROW) w)"
  proof (rule placed_set_cursor [OF w(1)])
    show "w_input_row (fst w) + min k (length input) div INPUT_COLUMNS_PER_ROW \<le> CONSOLE_BOTTOM" using c u(2) w(2) n by simp
    show "first_row \<le> w_input_row (fst w) + min k (length input) div INPUT_COLUMNS_PER_ROW" using w(1) by (auto simp: placed_def)
    have "min k (length input) mod INPUT_COLUMNS_PER_ROW < INPUT_COLUMNS_PER_ROW" by (rule mod_less_divisor) (simp add: vga_consts)
    then show "CONSOLE_LEFT + length PROMPT + min k (length input) mod INPUT_COLUMNS_PER_ROW \<le> CONSOLE_RIGHT"
      by (simp add: PROMPT_def ascii_def vga_consts)
    show "first_column \<le> CONSOLE_LEFT + length PROMPT + min k (length input) mod INPUT_COLUMNS_PER_ROW" using bounds by simp
  qed
  then show ?thesis
    unfolding render_input_with_cursor_def Let_def n_def [symmetric] w_def t_def u_def by simp
qed

lemma placed_start_prompt:
  assumes "placed b v"
  shows "placed b (start_prompt v)"
proof -
  have "placed b (on_writer (\<lambda>w. w\<lparr>w_input_row := w_row w\<rparr>) x)" if "placed b x" for x
    using that by (simp add: placed_def)
  then show ?thesis unfolding start_prompt_def Let_def render_input_def
    using placed_hide [OF assms] placed_new_line by (intro placed_render) (auto simp: vga_consts)
qed

end

interpretation screen: canvas "{..<VGA_WIDTH * VGA_HEIGHT}" 0 0
  by unfold_locales (auto simp: vga_consts)

definition console_cells :: "nat set" where
  "console_cells = {r * VGA_WIDTH + c |r c. CONSOLE_TOP \<le> r \<and> r \<le> CONSOLE_BOTTOM \<and> CONSOLE_LEFT \<le> c \<and> c \<le> CONSOLE_RIGHT}"

interpretation console: canvas console_cells CONSOLE_TOP CONSOLE_LEFT
  by unfold_locales (auto simp: console_cells_def)

section \<open>Whole screens\<close>

lemma screen_cell: "screen.placed b v \<Longrightarrow> r < VGA_HEIGHT \<Longrightarrow> c < VGA_WIDTH \<Longrightarrow> screen.placed b (write_cell (r * VGA_WIDTH + c) x y v)"
  by (rule screen.placed_cell) (auto simp: vga_consts)

lemma screen_bytes:
  assumes "screen.placed b v" "r < VGA_HEIGHT" "c + length bytes \<le> VGA_WIDTH"
  shows "screen.placed b (write_bytes_at (r * VGA_WIDTH + c) bytes color v)"
  unfolding write_bytes_at_def
proof (rule screen.placed_fold [OF assms(1)])
  fix x u assume x: "x \<in> set (enumerate 0 bytes)" "screen.placed b u"
  obtain k y where xk: "x = (k, y)" by fastforce
  have "k < length bytes" using x(1) xk by (auto simp: in_set_enumerate_eq)
  then show "screen.placed b ((case x of (offset, byte) \<Rightarrow> write_cell (r * VGA_WIDTH + c + offset) byte color) u)"
    using screen_cell [OF x(2) assms(2), of "c + k"] assms(3) by (simp add: xk add.assoc)
qed

lemma screen_string: "screen.placed b v \<Longrightarrow> screen.placed b (write_string_at_color r c s color v)"
  unfolding write_string_at_color_def by (auto intro!: screen_bytes)

lemma screen_centered:
  "screen.placed b v \<Longrightarrow> screen.placed b (write_centered_color r s color v)"
  "screen.placed b v \<Longrightarrow> screen.placed b (write_centered_in_range r left right s color v)"
  by (simp_all add: write_centered_color_def write_centered_in_range_def Let_def screen_string)

lemma screen_u64: "screen.placed b v \<Longrightarrow> r < VGA_HEIGHT \<Longrightarrow> c < VGA_WIDTH \<Longrightarrow> screen.placed b (write_u64_at_color r c n color v)"
  unfolding write_u64_at_color_def by (auto intro!: screen_cell screen_bytes)

lemma screen_hex_loop: "screen.placed b v \<Longrightarrow> r < VGA_HEIGHT \<Longrightarrow> screen.placed b (hex_loop r n c color shifts started v)"
proof (induction r n c color shifts started v rule: hex_loop.induct)
  case (2 r n c color shift shifts started v)
  then show ?case using screen_cell [of b v r c] by (auto simp: Let_def)
qed simp

lemma screen_hex:
  assumes "screen.placed b v" "r < VGA_HEIGHT"
  shows "screen.placed b (write_hex_u64_at_color r c n color v)"
proof (cases "VGA_WIDTH \<le> c + 2")
  case False
  then have c: "c < VGA_WIDTH" "c + 1 < VGA_WIDTH" by (simp_all add: vga_consts)
  have "screen.placed b (write_cell (r * VGA_WIDTH + (c + 1)) 0x78 color (write_cell (r * VGA_WIDTH + c) 0x30 color v))"
    by (intro screen_cell assms c)
  then show ?thesis using False assms(2) unfolding write_hex_u64_at_color_def Let_def
    by (auto simp only: if_False add.assoc intro!: screen_hex_loop)
qed (simp add: write_hex_u64_at_color_def assms)

lemma screen_fill:
  "screen.placed b v \<Longrightarrow> bo < VGA_HEIGHT \<Longrightarrow> ri < VGA_WIDTH \<Longrightarrow> screen.placed b (fill_rect to le bo ri color v)"
  unfolding fill_rect_def by (intro screen.placed_fold screen_cell) auto

lemma screen_box:
  assumes "screen.placed b v" "to \<le> bo" "bo < VGA_HEIGHT" "le \<le> ri" "ri < VGA_WIDTH"
  shows "screen.placed b (draw_box to le bo ri color v)"
  unfolding draw_box_def Let_def by (intro screen_cell screen.placed_fold) (use assms in auto)

lemma screen_background: "screen.placed b v \<Longrightarrow> screen.placed b (panic_background v)"
  unfolding panic_background_def by (intro screen.placed_fold screen.placed_cell) auto

lemma screen_status_bar: "screen.placed b v \<Longrightarrow> screen.placed b (draw_status_bar v)"
  unfolding draw_status_bar_def clear_row_with_color_def Let_def
  by (intro screen_string screen_centered screen.placed_fold screen_cell) (auto simp: vga_consts)

lemma screen_panel: "screen.placed b v \<Longrightarrow> screen.placed b (draw_panel v)"
  unfolding draw_panel_def Let_def
  by (intro screen.placed_fold screen.placed_clear_row screen_cell) (auto simp: vga_consts)

lemma screen_lines: "screen.placed b v \<Longrightarrow> screen.placed b (panic_lines r c v)"
  unfolding panic_lines_def Let_def by (intro screen_string)

lemma screen_cursor:
  "screen.placed b v \<Longrightarrow> r \<le> 23 \<Longrightarrow> c \<le> 76 \<Longrightarrow>
    screen.placed b (on_writer (\<lambda>w. w\<lparr>w_row := r, w_column := c, w_input_row := 0\<rparr>) v)"
  unfolding screen.placed_def by (simp add: vga_consts)

lemma screen_clear: "screen.placed b v \<Longrightarrow> screen.placed b (clear_screen v)"
  unfolding clear_screen_def Let_def by (intro screen_cursor screen.placed_fold screen.placed_cell screen.placed_hide) auto

lemma screen_splash: "screen.placed b v \<Longrightarrow> screen.placed b (show_splash v)"
  unfolding show_splash_def Let_def
  by (intro screen.placed_set_cursor screen_panel screen_centered screen_status_bar screen_clear) (auto simp: vga_consts)

lemma screen_panic: "screen.placed b v \<Longrightarrow> screen.placed b (show_panic_screen title detail v)"
  unfolding show_panic_screen_def Let_def
  by (intro screen_cursor screen_centered screen_string screen_lines screen_box screen_fill screen_background screen.placed_hide) (auto simp: vga_consts)

lemma screen_exception: "screen.placed b v \<Longrightarrow> screen.placed b (show_exception_screen name a e i f c v)"
  unfolding show_exception_screen_def Let_def
  by (intro screen_cursor screen_centered screen_string screen_lines screen_hex screen_u64 screen_box screen_fill
      screen_background screen.placed_hide) (auto simp: vga_consts)

section \<open>Runs\<close>

text \<open>
  What the kernel does with the console once the prompt is up. The shell never renders an input of
  more than \<open>INPUT_BUFFER_SIZE\<close> bytes.
\<close>

inductive console_step :: "vga \<Rightarrow> vga \<Rightarrow> bool" where
  "console_step v (write_string s v)"
| "console_step v (write_line s v)"
| "console_step v (console_write_byte byte v)"
| "console_step v (start_prompt v)"
| "length input \<le> INPUT_BUFFER_SIZE \<Longrightarrow> console_step v (render_input_with_cursor input k v)"
| "console_step v (toggle_cursor v)"

inductive vga_step :: "vga \<Rightarrow> vga \<Rightarrow> bool" where
  vga_console: "console_step v v' \<Longrightarrow> vga_step v v'"
| vga_clear: "vga_step v (clear_screen v)"
| vga_splash: "vga_step v (show_splash v)"
| vga_panic: "vga_step v (show_panic_screen title detail v)"
| vga_exception: "vga_step v (show_exception_screen name vector error ip fault flags v)"

lemma short_input: "length input \<le> INPUT_BUFFER_SIZE \<Longrightarrow> length input < 16 * INPUT_COLUMNS_PER_ROW"
  by (simp add: INPUT_BUFFER_SIZE_def vga_consts)

context canvas
begin

lemma placed_step: "console_step v v' \<Longrightarrow> placed b v \<Longrightarrow> placed b v'"
  by (induction rule: console_step.induct)
    (auto simp: console_write_byte_def intro: placed_write_string placed_write_line placed_write_byte placed_hide
      placed_start_prompt placed_toggle placed_render short_input)

end

interpretation vga_runs: invariant_machine "\<lambda>v. \<exists>s. v = (Writer_new b, s)" vga_step "screen.placed b" for b
proof unfold_locales
  show "screen.placed b v" if "\<exists>s. v = (Writer_new b, s)" for v
    using that unfolding screen.placed_def by (auto simp: Writer_new_def)
  show "screen.placed b v'" if "screen.placed b v" "vga_step v v'" for v v'
    using that(2,1) by (induction rule: vga_step.induct)
      (auto intro: screen.placed_step screen_clear screen_splash screen_panic screen_exception)
qed

text \<open>After the splash screen a prompt puts the input row inside the panel.\<close>

lemma prompt_placed:
  assumes "w_row (fst v) = CONSOLE_TOP" "w_column (fst v) = CONSOLE_LEFT" "\<not> w_cursor_visible (fst v)"
  shows "console.placed (w_buffer (fst v)) (start_prompt v)"
proof -
  let ?v = "on_writer (\<lambda>w. w\<lparr>w_input_row := w_row w\<rparr>) v"
  have "console.placed (w_buffer (fst v)) ?v" unfolding console.placed_def using assms by (simp add: vga_consts)
  from console.placed_render [OF this, of "[]" 0] show ?thesis
    using assms by (simp add: start_prompt_def hide_cursor_def Let_def render_input_def vga_consts)
qed

lemma splash_cursor:
  "w_row (fst (show_splash v)) = CONSOLE_TOP" "w_column (fst (show_splash v)) = CONSOLE_LEFT"
  "\<not> w_cursor_visible (fst (show_splash v))"
  by (simp_all add: show_splash_def Let_def set_cursor_def hide_cursor_def vga_consts)

text \<open>Blinking restores the cell under the cursor.\<close>

lemma cursor_blink:
  "\<not> w_cursor_visible (fst v) \<Longrightarrow> w_buffer (fst (toggle_cursor (toggle_cursor v))) = w_buffer (fst v)"
  by (simp add: toggle_cursor_def Let_def show_cursor_def hide_cursor_def fun_upd_idem)

section \<open>Properties\<close>

text \<open>
  C40. The console writes through a raw pointer, but never behind the screen: after any sequence of
  console operations from the start of the kernel, memory past the 2000 cells is as it was and the
  cursor is on the screen. Once the splash screen and a prompt are shown, writing text, editing an
  input line of at most 512 bytes and blinking the cursor change only cells inside the console
  panel, so the frame, the header and the status bar stay intact.
\<close>

theorem console_confined:
  assumes "vga_step\<^sup>*\<^sup>* (Writer_new b, s) v"
  shows "(\<forall>k \<ge> VGA_WIDTH * VGA_HEIGHT. w_buffer (fst v) k = b k)
    \<and> w_row (fst v) < VGA_HEIGHT \<and> w_column (fst v) < VGA_WIDTH
    \<and> (\<forall>u. console_step\<^sup>*\<^sup>* (start_prompt (show_splash v)) u \<longrightarrow>
         (\<forall>k. k \<notin> console_cells \<longrightarrow> w_buffer (fst u) k = w_buffer (fst (show_splash v)) k)
         \<and> CONSOLE_TOP \<le> w_row (fst u) \<and> w_row (fst u) \<le> CONSOLE_BOTTOM
         \<and> CONSOLE_LEFT \<le> w_column (fst u) \<and> w_column (fst u) \<le> CONSOLE_RIGHT)"
proof -
  have "screen.placed b v" by (rule vga_runs.inv_reachable [OF _ assms]) blast
  then have 1: "\<forall>k \<ge> VGA_WIDTH * VGA_HEIGHT. w_buffer (fst v) k = b k" "w_row (fst v) < VGA_HEIGHT" "w_column (fst v) < VGA_WIDTH"
    unfolding screen.placed_def by (auto simp: vga_consts)
  have "console.placed (w_buffer (fst (show_splash v))) u" if "console_step\<^sup>*\<^sup>* (start_prompt (show_splash v)) u" for u
    using that prompt_placed [OF splash_cursor, of v] by (induction rule: rtranclp_induct) (auto intro: console.placed_step)
  with 1 show ?thesis unfolding console.placed_def by blast
qed

theorem console_confined_witness:
  "let v = (Writer_new (\<lambda>_. \<lparr>sc_ascii_character = 0, sc_color_code = 0\<rparr>), Stats_new) in
     sc_ascii_character (w_buffer (fst (write_line (ascii ''ready'') v)) 5000) = 0
     \<and> CONSOLE_TOP \<le> w_row (fst (write_string (ascii ''ready'') (start_prompt (show_splash v))))"
proof -
  define b where "b = (\<lambda>_ :: nat. \<lparr>sc_ascii_character = 0, sc_color_code = 0\<rparr>)"
  have "vga_step\<^sup>*\<^sup>* (Writer_new b, Stats_new) (write_line (ascii ''ready'') (Writer_new b, Stats_new))"
    by (rule r_into_rtranclp) (intro vga_console console_step.intros)
  from console_confined [OF this] have 1: "sc_ascii_character (w_buffer (fst (write_line (ascii ''ready'') (Writer_new b, Stats_new))) 5000) = 0"
    by (simp add: vga_consts b_def)
  have "console_step\<^sup>*\<^sup>* (start_prompt (show_splash (Writer_new b, Stats_new)))
      (write_string (ascii ''ready'') (start_prompt (show_splash (Writer_new b, Stats_new))))"
    by (rule r_into_rtranclp) (rule console_step.intros)
  with console_confined [OF rtranclp.rtrancl_refl, of b Stats_new]
  have "CONSOLE_TOP \<le> w_row (fst (write_string (ascii ''ready'') (start_prompt (show_splash (Writer_new b, Stats_new)))))" by blast
  with 1 show ?thesis by (simp add: b_def Let_def)
qed

end
