(* ===== verification/Contexts.thy ===== *)
theory Contexts
  imports Paging
begin

unbundle bit_operations_syntax

text \<open>
  Saved processor contexts: the frame that the system call entry pushes (\<^verbatim>\<open>src/src/user.rs\<close>), the
  context that the timer interrupt saves (\<^verbatim>\<open>src/src/interrupts.rs\<close>), and the conversions between
  them in \<^verbatim>\<open>src/src/process.rs\<close>. A blocked system call is saved with its instruction pointer moved
  back over the instruction, so that it runs again when the task is resumed.
\<close>

definition USER_DATA_SELECTOR :: u16 where "USER_DATA_SELECTOR = 0x2b"
definition USER_CODE_SELECTOR :: u16 where "USER_CODE_SELECTOR = 0x33"
definition SYSCALL_INSTRUCTION_BYTES :: u64 where "SYSCALL_INSTRUCTION_BYTES = 2"

text \<open>The system call numbers of \<^verbatim>\<open>src/src/syscall.rs\<close>.\<close>

definition SYSCALL_LOG :: u64 where "SYSCALL_LOG = 1"
definition SYSCALL_UPTIME :: u64 where "SYSCALL_UPTIME = 2"
definition SYSCALL_EXIT :: u64 where "SYSCALL_EXIT = 3"
definition SYSCALL_YIELD :: u64 where "SYSCALL_YIELD = 4"
definition SYSCALL_IPC_SEND :: u64 where "SYSCALL_IPC_SEND = 5"
definition SYSCALL_IPC_RECEIVE :: u64 where "SYSCALL_IPC_RECEIVE = 6"
definition SYSCALL_GETPID :: u64 where "SYSCALL_GETPID = 7"
definition SYSCALL_IPC_SELF :: u64 where "SYSCALL_IPC_SELF = 8"
definition SYSCALL_IPC_RECEIVE_TIMEOUT :: u64 where "SYSCALL_IPC_RECEIVE_TIMEOUT = 9"
definition SYSCALL_IPC_CANCEL :: u64 where "SYSCALL_IPC_CANCEL = 10"
definition SYSCALL_IPC_SEND_CAPABILITY :: u64 where "SYSCALL_IPC_SEND_CAPABILITY = 11"
definition SYSCALL_IPC_REVOKE :: u64 where "SYSCALL_IPC_REVOKE = 12"

lemmas syscall_numbers =
  SYSCALL_LOG_def SYSCALL_UPTIME_def SYSCALL_EXIT_def SYSCALL_YIELD_def
  SYSCALL_IPC_SEND_def SYSCALL_IPC_RECEIVE_def SYSCALL_GETPID_def SYSCALL_IPC_SELF_def
  SYSCALL_IPC_RECEIVE_TIMEOUT_def SYSCALL_IPC_CANCEL_def SYSCALL_IPC_SEND_CAPABILITY_def SYSCALL_IPC_REVOKE_def

record SyscallFrame =
  sf_r15 :: u64
  sf_r14 :: u64
  sf_r13 :: u64
  sf_r12 :: u64
  sf_r11 :: u64
  sf_r10 :: u64
  sf_r9 :: u64
  sf_r8 :: u64
  sf_rbp :: u64
  sf_rdi :: u64
  sf_rsi :: u64
  sf_rdx :: u64
  sf_rcx :: u64
  sf_rbx :: u64
  sf_rax :: u64
  sf_rip :: u64
  sf_cs :: u64
  sf_rflags :: u64
  sf_rsp :: u64
  sf_ss :: u64

record TimerContext =
  tc_gs :: u64
  tc_fs :: u64
  tc_es :: u64
  tc_ds :: u64
  tc_r15 :: u64
  tc_r14 :: u64
  tc_r13 :: u64
  tc_r12 :: u64
  tc_r11 :: u64
  tc_r10 :: u64
  tc_r9 :: u64
  tc_r8 :: u64
  tc_rbp :: u64
  tc_rdi :: u64
  tc_rsi :: u64
  tc_rdx :: u64
  tc_rcx :: u64
  tc_rbx :: u64
  tc_rax :: u64
  tc_instruction_pointer :: u64
  tc_code_segment :: u64
  tc_cpu_flags :: u64
  tc_stack_pointer :: u64
  tc_stack_segment :: u64

definition TimerContext_empty :: TimerContext where
  "TimerContext_empty = \<lparr>
     tc_gs = 0, tc_fs = 0, tc_es = 0, tc_ds = 0, tc_r15 = 0, tc_r14 = 0, tc_r13 = 0, tc_r12 = 0,
     tc_r11 = 0, tc_r10 = 0, tc_r9 = 0, tc_r8 = 0, tc_rbp = 0, tc_rdi = 0, tc_rsi = 0, tc_rdx = 0,
     tc_rcx = 0, tc_rbx = 0, tc_rax = 0, tc_instruction_pointer = 0, tc_code_segment = 0,
     tc_cpu_flags = 0, tc_stack_pointer = 0, tc_stack_segment = 0\<rparr>"

definition from_user :: "TimerContext \<Rightarrow> bool" where
  "from_user c \<longleftrightarrow> tc_code_segment c AND 3 = 3"

definition save_syscall_context :: "TimerContext \<Rightarrow> SyscallFrame \<Rightarrow> bool \<Rightarrow> TimerContext" where
  "save_syscall_context context frame restart_syscall =
     (let user_data = ucast USER_DATA_SELECTOR
      in context\<lparr>
        tc_gs := user_data, tc_fs := user_data, tc_es := user_data, tc_ds := user_data,
        tc_r15 := sf_r15 frame, tc_r14 := sf_r14 frame, tc_r13 := sf_r13 frame, tc_r12 := sf_r12 frame,
        tc_r11 := sf_r11 frame, tc_r10 := sf_r10 frame, tc_r9 := sf_r9 frame, tc_r8 := sf_r8 frame,
        tc_rbp := sf_rbp frame, tc_rdi := sf_rdi frame, tc_rsi := sf_rsi frame, tc_rdx := sf_rdx frame,
        tc_rcx := sf_rcx frame, tc_rbx := sf_rbx frame, tc_rax := sf_rax frame,
        tc_instruction_pointer := (if restart_syscall then sat_sub (sf_rip frame) SYSCALL_INSTRUCTION_BYTES else sf_rip frame),
        tc_code_segment := sf_cs frame, tc_cpu_flags := sf_rflags frame,
        tc_stack_pointer := sf_rsp frame, tc_stack_segment := sf_ss frame\<rparr>)"

definition load_syscall_context :: "SyscallFrame \<Rightarrow> TimerContext \<Rightarrow> SyscallFrame" where
  "load_syscall_context frame context = frame\<lparr>
     sf_r15 := tc_r15 context, sf_r14 := tc_r14 context, sf_r13 := tc_r13 context,
     sf_r12 := tc_r12 context, sf_r11 := tc_r11 context, sf_r10 := tc_r10 context,
     sf_r9 := tc_r9 context, sf_r8 := tc_r8 context, sf_rbp := tc_rbp context,
     sf_rdi := tc_rdi context, sf_rsi := tc_rsi context, sf_rdx := tc_rdx context,
     sf_rcx := tc_rcx context, sf_rbx := tc_rbx context, sf_rax := tc_rax context,
     sf_rip := tc_instruction_pointer context, sf_cs := tc_code_segment context,
     sf_rflags := tc_cpu_flags context, sf_rsp := tc_stack_pointer context,
     sf_ss := tc_stack_segment context\<rparr>"

definition initial_timer_context :: "u64 \<Rightarrow> u64 \<Rightarrow> TimerContext" where
  "initial_timer_context entry_point stack_top =
     (let user_data = ucast USER_DATA_SELECTOR
      in \<lparr>
        tc_gs = user_data, tc_fs = user_data, tc_es = user_data, tc_ds = user_data, tc_r15 = 0,
        tc_r14 = 0, tc_r13 = 0, tc_r12 = 0, tc_r11 = 0, tc_r10 = 0, tc_r9 = 0, tc_r8 = 0,
        tc_rbp = 0, tc_rdi = 0, tc_rsi = 0, tc_rdx = 0, tc_rcx = 0, tc_rbx = 0, tc_rax = 0,
        tc_instruction_pointer = entry_point, tc_code_segment = ucast USER_CODE_SELECTOR,
        tc_cpu_flags = 0x202, tc_stack_pointer = stack_top, tc_stack_segment = user_data\<rparr>)"

definition syscall_context_selftest :: bool where
  "syscall_context_selftest =
     (let source = \<lparr>
            sf_r15 = 15, sf_r14 = 14, sf_r13 = 13, sf_r12 = 12, sf_r11 = 11, sf_r10 = 10,
            sf_r9 = 9, sf_r8 = 8, sf_rbp = 7, sf_rdi = 6, sf_rsi = 5, sf_rdx = 4, sf_rcx = 3,
            sf_rbx = 2, sf_rax = SYSCALL_IPC_RECEIVE, sf_rip = 0x40100080,
            sf_cs = ucast USER_CODE_SELECTOR, sf_rflags = 0x202, sf_rsp = USER_ELF_STACK_TOP,
            sf_ss = ucast USER_DATA_SELECTOR\<rparr>;
          context = save_syscall_context TimerContext_empty source True;
          restored = load_syscall_context \<lparr>
            sf_r15 = 0, sf_r14 = 0, sf_r13 = 0, sf_r12 = 0, sf_r11 = 0, sf_r10 = 0, sf_r9 = 0,
            sf_r8 = 0, sf_rbp = 0, sf_rdi = 0, sf_rsi = 0, sf_rdx = 0, sf_rcx = 0, sf_rbx = 0,
            sf_rax = 0, sf_rip = 0, sf_cs = 0, sf_rflags = 0, sf_rsp = 0, sf_ss = 0\<rparr> context
      in tc_instruction_pointer context = sf_rip source - SYSCALL_INSTRUCTION_BYTES
         \<and> sf_r15 restored = sf_r15 source
         \<and> sf_r12 restored = sf_r12 source
         \<and> sf_rdi restored = sf_rdi source
         \<and> sf_rsi restored = sf_rsi source
         \<and> sf_rdx restored = sf_rdx source
         \<and> sf_rcx restored = sf_rcx source
         \<and> sf_rax restored = sf_rax source
         \<and> sf_rip restored = sf_rip source - SYSCALL_INSTRUCTION_BYTES
         \<and> sf_cs restored = sf_cs source
         \<and> sf_rflags restored = sf_rflags source
         \<and> sf_rsp restored = sf_rsp source
         \<and> sf_ss restored = sf_ss source)"

text \<open>Saving and loading is exact up to the instruction pointer.\<close>

lemma load_save_context:
  "load_syscall_context frame' (save_syscall_context context frame restart)
   = frame\<lparr>sf_rip := (if restart then sat_sub (sf_rip frame) SYSCALL_INSTRUCTION_BYTES else sf_rip frame)\<rparr>"
  by (simp add: load_syscall_context_def save_syscall_context_def Let_def)

lemma syscall_context_selftest_True: syscall_context_selftest
  by (simp add: syscall_context_selftest_def load_save_context Let_def)
    (simp add: save_syscall_context_def sat_sub_def SYSCALL_INSTRUCTION_BYTES_def Let_def)

end
