(* ===== verification/Process.thy ===== *)
theory Process
  imports Contexts Scheduler Ipc_Selftest Heap Elf
begin

unbundle bit_operations_syntax

text \<open>
  The process table, \<^verbatim>\<open>src/src/process.rs\<close>: tasks with their address space, heap block, IPC
  endpoint and saved context, and the transitions between ready, running, blocked and exited
  that keep the scheduler and the mailboxes in step. The statics of the modules that take part
  are the fields of one record, which every operation receives and returns.
\<close>

section \<open>Constants and data\<close>

definition MAX_TASKS :: nat where "MAX_TASKS = 8"
definition TASK_HEAP_BYTES :: u64 where "TASK_HEAP_BYTES = 128"
definition TASK_HEAP_ALIGNMENT :: u64 where "TASK_HEAP_ALIGNMENT = 64"
definition PREEMPT_TEST_SWITCHES :: u64 where "PREEMPT_TEST_SWITCHES = 8"
definition PREEMPT_TEST_EXIT_CODE :: u64 where "PREEMPT_TEST_EXIT_CODE = 0x5052"
definition SPIN_PROGRAM :: "u8 list" where "SPIN_PROGRAM = [0xf3, 0x90, 0xeb, 0xfc]"
definition MAX_USER_BUFFER_BYTES :: u64 where "MAX_USER_BUFFER_BYTES = 1024 * 1024"

datatype TimerAction = TimerContinue | TimerSwitch u64 | TimerStop u64

datatype TaskState = TaskEmpty | TaskReady | TaskRunning | TaskBlocked | TaskExited

datatype IpcWakeReason = WakeNone | WakeMessage | WakeTimeout | WakeCancelled

record Task =
  tk_id :: u64
  tk_parent_id :: u64
  tk_state :: TaskState
  tk_entry_point :: u64
  tk_stack_top :: u64
  tk_exit_code :: u64
  tk_syscalls_before :: u64
  tk_syscalls_after :: u64
  tk_runs :: u64
  tk_address_space_root :: u64
  tk_first_user_frame :: u64
  tk_owned_user_pages :: u64
  tk_owned_table_frames :: u64
  tk_heap_allocation :: u64
  tk_resources_active :: bool
  tk_cleanup_complete :: bool
  tk_cleanup_user_frames :: u64
  tk_cleanup_table_frames :: u64
  tk_heap_released :: bool
  tk_timer_preemptions :: u64
  tk_scheduled_slices :: u64
  tk_last_scheduled_tick :: u64
  tk_max_wait_ticks :: u64
  tk_wait_target :: u64
  tk_ipc_waiting :: bool
  tk_ipc_restart_pending :: bool
  tk_ipc_deadline_tick :: u64
  tk_ipc_wake_reason :: IpcWakeReason

definition Task_empty :: Task where
  "Task_empty = \<lparr>tk_id = 0, tk_parent_id = 0, tk_state = TaskEmpty, tk_entry_point = 0,
     tk_stack_top = 0, tk_exit_code = 0, tk_syscalls_before = 0, tk_syscalls_after = 0, tk_runs = 0,
     tk_address_space_root = 0, tk_first_user_frame = 0, tk_owned_user_pages = 0,
     tk_owned_table_frames = 0, tk_heap_allocation = 0, tk_resources_active = False,
     tk_cleanup_complete = False, tk_cleanup_user_frames = 0, tk_cleanup_table_frames = 0,
     tk_heap_released = False, tk_timer_preemptions = 0, tk_scheduled_slices = 0,
     tk_last_scheduled_tick = 0, tk_max_wait_ticks = 0, tk_wait_target = 0, tk_ipc_waiting = False,
     tk_ipc_restart_pending = False, tk_ipc_deadline_tick = 0, tk_ipc_wake_reason = WakeNone\<rparr>"

record ProcSnapshot =
  ps_initialized :: bool
  ps_task_capacity :: u64
  ps_task_slots_used :: u64
  ps_ready_tasks :: u64
  ps_running_tasks :: u64
  ps_blocked_tasks :: u64
  ps_exited_tasks :: u64
  ps_zombie_children :: u64
  ps_active_resources :: u64
  ps_next_task_id :: u64
  ps_spawned_tasks :: u64
  ps_exited_total :: u64
  ps_failed_spawns :: u64
  ps_cleanup_successes :: u64
  ps_cleanup_failures :: u64
  ps_reclaimed_user_frames :: u64
  ps_reclaimed_table_frames :: u64
  ps_heap_releases :: u64
  ps_last_task_id :: u64
  ps_last_exit_code :: u64
  ps_preemption_active :: bool
  ps_preemption_runs :: u64
  ps_preemption_passes :: u64
  ps_reaped_total :: u64
  ps_wait_blocks :: u64
  ps_parent_wakeups :: u64
  ps_ipc_blocking_switches :: u64
  ps_ipc_restart_completions :: u64
  ps_ipc_timeouts :: u64
  ps_ipc_cancellations :: u64

record WaitResult =
  wr_found :: bool
  wr_blocked :: bool
  wr_reaped :: bool
  wr_child_id :: u64
  wr_exit_code :: u64

definition WaitResult_missing :: WaitResult where
  "WaitResult_missing = \<lparr>wr_found = False, wr_blocked = False, wr_reaped = False, wr_child_id = 0,
     wr_exit_code = 0\<rparr>"

record UserBufferValidation =
  ub_valid :: bool
  ub_pages_checked :: u64
  ub_writable :: bool

record ProcessSlot =
  sl_task :: Task
  sl_address_space :: AddressSpace
  sl_timer_context :: TimerContext
  sl_context_valid :: bool

definition ProcessSlot_empty :: ProcessSlot where
  "ProcessSlot_empty = \<lparr>sl_task = Task_empty, sl_address_space = AddressSpace_empty,
     sl_timer_context = TimerContext_empty, sl_context_valid = False\<rparr>"

record ProcessTable =
  pt_initialized :: bool
  pt_next_task_id :: u64
  pt_spawned_tasks :: u64
  pt_exited_total :: u64
  pt_failed_spawns :: u64
  pt_cleanup_successes :: u64
  pt_cleanup_failures :: u64
  pt_reclaimed_user_frames :: u64
  pt_reclaimed_table_frames :: u64
  pt_heap_releases :: u64
  pt_active_resources :: u64
  pt_last_task_id :: u64
  pt_last_exit_code :: u64
  pt_preemption_active :: bool
  pt_preemption_target :: u64
  pt_preemption_switches :: u64
  pt_preemption_runs :: u64
  pt_preemption_passes :: u64
  pt_reaped_total :: u64
  pt_wait_blocks :: u64
  pt_parent_wakeups :: u64
  pt_ipc_blocking_switches :: u64
  pt_ipc_restart_completions :: u64
  pt_ipc_timeouts :: u64
  pt_ipc_cancellations :: u64
  pt_slots :: "ProcessSlot list"

definition ProcessTable_new :: ProcessTable where
  "ProcessTable_new = \<lparr>pt_initialized = False, pt_next_task_id = 1, pt_spawned_tasks = 0,
     pt_exited_total = 0, pt_failed_spawns = 0, pt_cleanup_successes = 0, pt_cleanup_failures = 0,
     pt_reclaimed_user_frames = 0, pt_reclaimed_table_frames = 0, pt_heap_releases = 0,
     pt_active_resources = 0, pt_last_task_id = 0, pt_last_exit_code = 0,
     pt_preemption_active = False, pt_preemption_target = 0, pt_preemption_switches = 0,
     pt_preemption_runs = 0, pt_preemption_passes = 0, pt_reaped_total = 0, pt_wait_blocks = 0,
     pt_parent_wakeups = 0, pt_ipc_blocking_switches = 0, pt_ipc_restart_completions = 0,
     pt_ipc_timeouts = 0, pt_ipc_cancellations = 0,
     pt_slots = replicate MAX_TASKS ProcessSlot_empty\<rparr>"

text \<open>
  The statics of the process table, the scheduler, the mailboxes, the heap, virtual memory and
  the archive, and the tick counter of the timer.
\<close>

record Kernel =
  k_table :: ProcessTable
  k_sched :: Scheduler
  k_ipc :: IpcState
  k_heap :: KernelHeap
  k_vm :: Vm
  k_archive :: ArchiveState
  k_ticks :: u64

abbreviation slots :: "Kernel \<Rightarrow> ProcessSlot list" where
  "slots K \<equiv> pt_slots (k_table K)"

abbreviation task_at :: "Kernel \<Rightarrow> nat \<Rightarrow> Task" where
  "task_at K i \<equiv> sl_task (slots K ! i)"

definition update_slot :: "nat \<Rightarrow> (ProcessSlot \<Rightarrow> ProcessSlot) \<Rightarrow> Kernel \<Rightarrow> Kernel" where
  "update_slot i f K = K\<lparr>k_table := (k_table K)\<lparr>pt_slots := (slots K)[i := f (slots K ! i)]\<rparr>\<rparr>"

definition update_task :: "nat \<Rightarrow> (Task \<Rightarrow> Task) \<Rightarrow> Kernel \<Rightarrow> Kernel" where
  "update_task i f = update_slot i (\<lambda>slot. slot\<lparr>sl_task := f (sl_task slot)\<rparr>)"

definition update_table :: "(ProcessTable \<Rightarrow> ProcessTable) \<Rightarrow> Kernel \<Rightarrow> Kernel" where
  "update_table f K = K\<lparr>k_table := f (k_table K)\<rparr>"

section \<open>Lookup\<close>

definition free_slot :: "ProcessTable \<Rightarrow> nat option" where
  "free_slot p = position (\<lambda>slot. let task = sl_task slot in tk_state task = TaskEmpty
     \<or> (tk_state task = TaskExited \<and> \<not> tk_resources_active task \<and> tk_parent_id task = 0)) (pt_slots p)"

definition find_task :: "ProcessTable \<Rightarrow> u64 \<Rightarrow> nat option" where
  "find_task p t =
     position (\<lambda>slot. tk_state (sl_task slot) \<noteq> TaskEmpty \<and> tk_id (sl_task slot) = t) (pt_slots p)"

definition proc_task :: "ProcessTable \<Rightarrow> nat \<Rightarrow> Task option" where
  "proc_task p index =
     (if MAX_TASKS \<le> index \<or> tk_state (sl_task (pt_slots p ! index)) = TaskEmpty then None
      else Some (sl_task (pt_slots p ! index)))"

definition task_by_id :: "ProcessTable \<Rightarrow> u64 \<Rightarrow> Task option" where
  "task_by_id p t = map_option (\<lambda>index. sl_task (pt_slots p ! index)) (find_task p t)"

text \<open>The loop of \<open>find_child\<close>: a finished child at once, else the first child.\<close>

fun find_child_loop :: "ProcessTable \<Rightarrow> u64 \<Rightarrow> u64 \<Rightarrow> nat list \<Rightarrow> nat option \<Rightarrow> nat option" where
  "find_child_loop p parent child [] first_match = first_match"
| "find_child_loop p parent child (index # rest) first_match =
     (let task = sl_task (pt_slots p ! index)
      in if tk_state task = TaskEmpty \<or> tk_parent_id task \<noteq> parent \<or> (child \<noteq> 0 \<and> tk_id task \<noteq> child)
         then find_child_loop p parent child rest first_match
         else if tk_state task = TaskExited \<and> \<not> tk_resources_active task then Some index
         else find_child_loop p parent child rest
                (if first_match = None then Some index else first_match))"

definition find_child :: "ProcessTable \<Rightarrow> u64 \<Rightarrow> u64 \<Rightarrow> nat option" where
  "find_child p parent child = find_child_loop p parent child [0..<MAX_TASKS] None"

definition child_count :: "ProcessTable \<Rightarrow> u64 \<Rightarrow> u64" where
  "child_count p parent = of_nat (length (filter
     (\<lambda>slot. tk_state (sl_task slot) \<noteq> TaskEmpty \<and> tk_parent_id (sl_task slot) = parent) (pt_slots p)))"

section \<open>Initialisation and snapshot\<close>

definition proc_init :: "ProcessTable \<Rightarrow> ProcessTable" where
  "proc_init p = (if pt_initialized p then p else p\<lparr>pt_initialized := True\<rparr>)"

definition count_state :: "ProcessSlot \<Rightarrow> ProcSnapshot \<Rightarrow> ProcSnapshot" where
  "count_state slot s =
     (let used = s\<lparr>ps_task_slots_used := sat_add (ps_task_slots_used s) 1\<rparr>
      in case tk_state (sl_task slot) of
           TaskEmpty \<Rightarrow> s
         | TaskReady \<Rightarrow> used\<lparr>ps_ready_tasks := sat_add (ps_ready_tasks s) 1\<rparr>
         | TaskRunning \<Rightarrow> used\<lparr>ps_running_tasks := sat_add (ps_running_tasks s) 1\<rparr>
         | TaskBlocked \<Rightarrow> used\<lparr>ps_blocked_tasks := sat_add (ps_blocked_tasks s) 1\<rparr>
         | TaskExited \<Rightarrow>
             let exited = used\<lparr>ps_exited_tasks := sat_add (ps_exited_tasks s) 1\<rparr>
             in if tk_parent_id (sl_task slot) \<noteq> 0
                then exited\<lparr>ps_zombie_children := sat_add (ps_zombie_children s) 1\<rparr> else exited)"

definition proc_snapshot :: "ProcessTable \<Rightarrow> ProcSnapshot" where
  "proc_snapshot p = fold count_state (pt_slots p)
     \<lparr>ps_initialized = pt_initialized p, ps_task_capacity = of_nat MAX_TASKS, ps_task_slots_used = 0,
      ps_ready_tasks = 0, ps_running_tasks = 0, ps_blocked_tasks = 0, ps_exited_tasks = 0,
      ps_zombie_children = 0, ps_active_resources = pt_active_resources p,
      ps_next_task_id = pt_next_task_id p, ps_spawned_tasks = pt_spawned_tasks p,
      ps_exited_total = pt_exited_total p, ps_failed_spawns = pt_failed_spawns p,
      ps_cleanup_successes = pt_cleanup_successes p, ps_cleanup_failures = pt_cleanup_failures p,
      ps_reclaimed_user_frames = pt_reclaimed_user_frames p,
      ps_reclaimed_table_frames = pt_reclaimed_table_frames p, ps_heap_releases = pt_heap_releases p,
      ps_last_task_id = pt_last_task_id p, ps_last_exit_code = pt_last_exit_code p,
      ps_preemption_active = pt_preemption_active p, ps_preemption_runs = pt_preemption_runs p,
      ps_preemption_passes = pt_preemption_passes p, ps_reaped_total = pt_reaped_total p,
      ps_wait_blocks = pt_wait_blocks p, ps_parent_wakeups = pt_parent_wakeups p,
      ps_ipc_blocking_switches = pt_ipc_blocking_switches p,
      ps_ipc_restart_completions = pt_ipc_restart_completions p,
      ps_ipc_timeouts = pt_ipc_timeouts p, ps_ipc_cancellations = pt_ipc_cancellations p\<rparr>"

section \<open>Creating tasks\<close>

definition fail_spawn :: "Kernel \<Rightarrow> Kernel" where
  "fail_spawn = update_table (\<lambda>p. p\<lparr>pt_failed_spawns := sat_add (pt_failed_spawns p) 1\<rparr>)"

text \<open>The address space that cannot be installed is destroyed.\<close>

definition drop_space :: "AddressSpace \<Rightarrow> Kernel \<Rightarrow> Kernel" where
  "drop_space space K = K\<lparr>k_vm := snd (snd (destroy (k_vm K) space))\<rparr>"

definition install_task ::
  "u64 \<Rightarrow> u64 \<Rightarrow> u64 \<Rightarrow> AddressSpace \<Rightarrow> u64 \<Rightarrow> u64 \<Rightarrow> u64 \<Rightarrow> u64 \<Rightarrow> Kernel \<Rightarrow> Task option \<times> Kernel" where
  "install_task entry_point stack_top parent_id space first_frame user_pages table_pages heap_address K =
     (let K = update_table proc_init K
      in case free_slot (k_table K) of
           None \<Rightarrow> (None, fail_spawn (drop_space space K))
         | Some index \<Rightarrow>
             let t = pt_next_task_id (k_table K);
                 K = update_table (\<lambda>p. p\<lparr>pt_next_task_id := sat_add (pt_next_task_id p) 1\<rparr>) K
             in (case register (k_ipc K) t of
                   (Inl error, s) \<Rightarrow> (None, fail_spawn (drop_space space (K\<lparr>k_ipc := s\<rparr>)))
                 | (Inr _, s) \<Rightarrow>
                     let task = Task_empty\<lparr>tk_id := t, tk_parent_id := parent_id, tk_state := TaskReady,
                           tk_entry_point := entry_point, tk_stack_top := stack_top,
                           tk_address_space_root := root_frame space,
                           tk_first_user_frame := first_frame, tk_owned_user_pages := user_pages,
                           tk_owned_table_frames := table_pages, tk_heap_allocation := heap_address,
                           tk_resources_active := True\<rparr>;
                         K = K\<lparr>k_ipc := s\<rparr>;
                         K = update_slot index (\<lambda>_. \<lparr>sl_task = task, sl_address_space = space,
                               sl_timer_context = initial_timer_context entry_point stack_top,
                               sl_context_valid = True\<rparr>) K;
                         K = update_table (\<lambda>p. p\<lparr>pt_spawned_tasks := sat_add (pt_spawned_tasks p) 1,
                               pt_active_resources := sat_add (pt_active_resources p) 1,
                               pt_last_task_id := t\<rparr>) K
                     in (Some task, K\<lparr>k_sched := snd (enqueue (k_sched K) t)\<rparr>)))"

text \<open>The heap block of a task that was not installed is released.\<close>

definition install_or_free ::
  "u64 \<Rightarrow> u64 \<Rightarrow> u64 \<Rightarrow> AddressSpace \<Rightarrow> u64 \<Rightarrow> u64 \<Rightarrow> u64 \<Rightarrow> u64 \<Rightarrow> Kernel \<Rightarrow> Task option \<times> Kernel" where
  "install_or_free entry_point stack_top parent_id space first_frame user_pages table_pages heap_address K =
     (case install_task entry_point stack_top parent_id space first_frame user_pages table_pages heap_address K of
        (None, K) \<Rightarrow> (None, K\<lparr>k_heap := snd (heap_free (k_heap K) heap_address)\<rparr>)
      | (Some task, K) \<Rightarrow> (Some task, K))"

definition spawn_legacy :: "u64 \<Rightarrow> u64 \<Rightarrow> Kernel \<Rightarrow> Task option \<times> Kernel" where
  "spawn_legacy entry_point stack_top K =
     (case heap_alloc (k_heap K) TASK_HEAP_BYTES TASK_HEAP_ALIGNMENT of
        (None, h) \<Rightarrow> (None, fail_spawn (K\<lparr>k_heap := h\<rparr>))
      | (Some address, h) \<Rightarrow>
          install_or_free entry_point stack_top 0 AddressSpace_empty 0 0 0 address (K\<lparr>k_heap := h\<rparr>))"

text \<open>The end of the two functions that load a program: the heap block, then the task.\<close>

definition spawn_image :: "u64 \<Rightarrow> ProcessImage \<Rightarrow> Kernel \<Rightarrow> Task option \<times> Kernel" where
  "spawn_image parent_id img K =
     (case heap_alloc (k_heap K) TASK_HEAP_BYTES TASK_HEAP_ALIGNMENT of
        (None, h) \<Rightarrow> (None, fail_spawn (drop_space (pi_address_space img) (K\<lparr>k_heap := h\<rparr>)))
      | (Some address, h) \<Rightarrow>
          install_or_free (pi_entry_point img) (pi_stack_top img) parent_id (pi_address_space img)
            (pi_first_user_frame img) (pi_mapped_pages img) (pi_table_frames img) address (K\<lparr>k_heap := h\<rparr>))"

definition valid_parent :: "ProcessTable \<Rightarrow> u64 \<Rightarrow> bool" where
  "valid_parent p parent_id \<longleftrightarrow> (case find_task p parent_id of
      None \<Rightarrow> False
    | Some index \<Rightarrow> tk_state (sl_task (pt_slots p ! index)) \<notin> {TaskEmpty, TaskExited})"

definition spawn_elf_child :: "u64 \<Rightarrow> Kernel \<Rightarrow> Task option \<times> Kernel" where
  "spawn_elf_child parent_id K =
     (if parent_id \<noteq> 0 \<and> \<not> valid_parent (k_table K) parent_id then (None, fail_spawn K)
      else case create_process_image (k_archive K) (k_vm K) of
             (Inl error, vm) \<Rightarrow> (None, fail_spawn (K\<lparr>k_vm := vm\<rparr>))
           | (Inr img, vm) \<Rightarrow> spawn_image parent_id img (K\<lparr>k_vm := vm\<rparr>))"

definition spawn_elf_init :: "Kernel \<Rightarrow> Task option \<times> Kernel" where
  "spawn_elf_init = spawn_elf_child 0"

definition spawn_preempt_task :: "Kernel \<Rightarrow> Task option \<times> Kernel" where
  "spawn_preempt_task K =
     (case create_process_image (k_archive K) (k_vm K) of
        (Inl error, vm) \<Rightarrow> (None, fail_spawn (K\<lparr>k_vm := vm\<rparr>))
      | (Inr img, vm) \<Rightarrow>
          let translation = space_translate vm (pi_address_space img) (pi_entry_point img)
          in if \<not> tr_mapped translation \<or> \<not> tr_user_accessible translation \<or> \<not> tr_executable translation
             then (None, fail_spawn (drop_space (pi_address_space img) (K\<lparr>k_vm := vm\<rparr>)))
             else spawn_image 0 img
                    (K\<lparr>k_vm := vm\<lparr>vm_phys := copy_in (vm_phys vm) (tr_phys translation) SPIN_PROGRAM\<rparr>\<rparr>))"

section \<open>Running, exit and cleanup\<close>

definition mark_running :: "u64 \<Rightarrow> u64 \<Rightarrow> Kernel \<Rightarrow> bool \<times> Kernel" where
  "mark_running t syscalls_before K =
     (case find_task (k_table K) t of
        None \<Rightarrow> (False, K)
      | Some index \<Rightarrow>
          let K = update_task index (\<lambda>task. task\<lparr>tk_state := TaskRunning,
                    tk_syscalls_before := syscalls_before, tk_runs := sat_add (tk_runs task) 1,
                    tk_scheduled_slices := sat_add (tk_scheduled_slices task) 1,
                    tk_last_scheduled_tick := k_ticks K\<rparr>) K;
              K = update_table (\<lambda>p. p\<lparr>pt_last_task_id := t\<rparr>) K
          in (True, K\<lparr>k_sched := begin_task (k_sched K) t\<rparr>))"

definition wake_waiting_parent :: "u64 \<Rightarrow> u64 \<Rightarrow> Kernel \<Rightarrow> bool \<times> Kernel" where
  "wake_waiting_parent parent_id child_id K =
     (case find_task (k_table K) parent_id of
        None \<Rightarrow> (False, K)
      | Some index \<Rightarrow>
          let parent = task_at K index
          in if tk_state parent \<noteq> TaskBlocked
                \<or> (tk_wait_target parent \<noteq> 0 \<and> tk_wait_target parent \<noteq> child_id)
             then (False, K)
             else case wake_task (k_sched K) parent_id of
                    (False, sch) \<Rightarrow> (False, K\<lparr>k_sched := sch\<rparr>)
                  | (True, sch) \<Rightarrow>
                      let K = update_task index (\<lambda>task. task\<lparr>tk_state := TaskReady, tk_wait_target := 0\<rparr>)
                                (K\<lparr>k_sched := sch\<rparr>)
                      in (True, update_table (\<lambda>p. p\<lparr>pt_parent_wakeups := sat_add (pt_parent_wakeups p) 1\<rparr>) K))"

definition mark_exited :: "u64 \<Rightarrow> u64 \<Rightarrow> u64 \<Rightarrow> Kernel \<Rightarrow> bool \<times> Kernel" where
  "mark_exited t exit_code syscalls_after K =
     (case find_task (k_table K) t of
        None \<Rightarrow> (False, K)
      | Some index \<Rightarrow>
          let parent_id = tk_parent_id (task_at K index);
              K = update_task index (\<lambda>task. task\<lparr>tk_state := TaskExited, tk_exit_code := exit_code,
                    tk_syscalls_after := syscalls_after, tk_ipc_waiting := False,
                    tk_ipc_restart_pending := False, tk_ipc_deadline_tick := 0,
                    tk_ipc_wake_reason := WakeNone\<rparr>) K;
              K = update_table (\<lambda>p. p\<lparr>pt_exited_total := sat_add (pt_exited_total p) 1,
                    pt_last_task_id := t, pt_last_exit_code := exit_code\<rparr>) K;
              K = K\<lparr>k_sched := finish_task (k_sched K) t\<rparr>
          in (True, if parent_id \<noteq> 0 then snd (wake_waiting_parent parent_id t K) else K))"

definition cleanup_task :: "u64 \<Rightarrow> Kernel \<Rightarrow> bool \<times> Kernel" where
  "cleanup_task t K =
     (case find_task (k_table K) t of
        None \<Rightarrow> (False, K)
      | Some index \<Rightarrow>
          if \<not> tk_resources_active (task_at K index) then (tk_cleanup_complete (task_at K index), K)
          else
            let heap_address = tk_heap_allocation (task_at K index);
                (heap_released, h) = (if heap_address = 0 then (False, k_heap K)
                  else case heap_free (k_heap K) heap_address of
                         (Inr _, h) \<Rightarrow> (True, h) | (Inl _, h) \<Rightarrow> (False, h));
                (endpoint, s) = unregister (k_ipc K) t;
                endpoint_released = (case endpoint of Inr _ \<Rightarrow> True | Inl _ \<Rightarrow> False);
                (cleanup, space, vm) = destroy (k_vm K) (sl_address_space (slots K ! index));
                (user_frames, table_pages, pages_complete) = (case cleanup of
                    Inr report \<Rightarrow> (user_frames_freed report, table_frames_freed report, complete report)
                  | Inl _ \<Rightarrow> (0, 0, False));
                done_all = (heap_released \<and> endpoint_released \<and> pages_complete);
                K = K\<lparr>k_heap := h, k_ipc := s, k_vm := vm\<rparr>;
                K = update_slot index (\<lambda>slot. slot\<lparr>sl_address_space := space\<rparr>) K;
                K = update_task index (\<lambda>task. task\<lparr>tk_cleanup_user_frames := user_frames,
                      tk_cleanup_table_frames := table_pages, tk_heap_released := heap_released,
                      tk_cleanup_complete := done_all, tk_resources_active := False,
                      tk_heap_allocation := (if heap_released then 0 else tk_heap_allocation task)\<rparr>) K;
                K = update_table (\<lambda>p. p\<lparr>
                      pt_active_resources := sat_sub (pt_active_resources p) 1,
                      pt_reclaimed_user_frames := sat_add (pt_reclaimed_user_frames p) user_frames,
                      pt_reclaimed_table_frames := sat_add (pt_reclaimed_table_frames p) table_pages,
                      pt_heap_releases := (if heap_released then sat_add (pt_heap_releases p) 1
                        else pt_heap_releases p),
                      pt_cleanup_successes := (if done_all then sat_add (pt_cleanup_successes p) 1
                        else pt_cleanup_successes p),
                      pt_cleanup_failures := (if done_all then pt_cleanup_failures p
                        else sat_add (pt_cleanup_failures p) 1)\<rparr>) K
            in (done_all, K))"

definition start_preemption_test :: "ProcessTable \<Rightarrow> ProcessTable" where
  "start_preemption_test p = p\<lparr>pt_preemption_active := True, pt_preemption_target := PREEMPT_TEST_SWITCHES,
     pt_preemption_switches := 0, pt_preemption_runs := sat_add (pt_preemption_runs p) 1\<rparr>"

definition stop_preemption_test :: "bool \<Rightarrow> ProcessTable \<Rightarrow> u64 \<times> ProcessTable" where
  "stop_preemption_test passed p =
     (let p1 = p\<lparr>pt_preemption_active := False, pt_preemption_target := 0\<rparr>
      in (pt_preemption_switches p1,
          if passed then p1\<lparr>pt_preemption_passes := sat_add (pt_preemption_passes p1) 1\<rparr> else p1))"

section \<open>Switching\<close>

text \<open>The bookkeeping for a task that is given the processor.\<close>

definition dispatched :: "u64 \<Rightarrow> u64 \<Rightarrow> Task \<Rightarrow> Task" where
  "dispatched ticks waited task = task\<lparr>tk_state := TaskRunning, tk_runs := sat_add (tk_runs task) 1,
     tk_scheduled_slices := sat_add (tk_scheduled_slices task) 1, tk_last_scheduled_tick := ticks,
     tk_max_wait_ticks := max (tk_max_wait_ticks task) waited\<rparr>"

definition on_timer_interrupt :: "TimerContext \<Rightarrow> Kernel \<Rightarrow> TimerAction \<times> TimerContext \<times> Kernel" where
  "on_timer_interrupt context K =
     (if \<not> pt_preemption_active (k_table K) \<or> \<not> from_user context then (TimerContinue, context, K)
      else if pt_preemption_target (k_table K) \<le> pt_preemption_switches (k_table K)
      then (TimerStop PREEMPT_TEST_EXIT_CODE, context, K)
      else
        let (decision, sch) = preempt_current (k_sched K);
            K = K\<lparr>k_sched := sch\<rparr>;
            deactivate = update_table (\<lambda>p. p\<lparr>pt_preemption_active := False\<rparr>)
        in if \<not> switched decision then (TimerContinue, context, K)
           else case find_task (k_table K) (previous_task decision) of
             None \<Rightarrow> (TimerStop (PREEMPT_TEST_EXIT_CODE + 1), context, deactivate K)
           | Some previous_index \<Rightarrow>
             (case find_task (k_table K) (next_task decision) of
                None \<Rightarrow> (TimerStop (PREEMPT_TEST_EXIT_CODE + 2), context, deactivate K)
              | Some next_index \<Rightarrow>
                  let K = update_slot previous_index (\<lambda>slot. slot\<lparr>sl_timer_context := context,
                            sl_context_valid := True\<rparr>) K;
                      K = update_task previous_index (\<lambda>task. task\<lparr>tk_state := TaskReady,
                            tk_timer_preemptions := sat_add (tk_timer_preemptions task) 1\<rparr>) K
                  in if \<not> sl_context_valid (slots K ! next_index)
                        \<or> tk_address_space_root (task_at K next_index) = 0
                     then (TimerStop (PREEMPT_TEST_EXIT_CODE + 3), context, deactivate K)
                     else
                       let K = update_task next_index (dispatched (k_ticks K) (waited_ticks decision)) K;
                           K = update_table (\<lambda>p. p\<lparr>
                                 pt_preemption_switches := sat_add (pt_preemption_switches p) 1,
                                 pt_last_task_id := next_task decision\<rparr>) K
                       in (TimerSwitch (tk_address_space_root (task_at K next_index)),
                           sl_timer_context (slots K ! next_index), K)))"

section \<open>Waiting for children\<close>

definition wait_child :: "u64 \<Rightarrow> u64 \<Rightarrow> Kernel \<Rightarrow> WaitResult \<times> Kernel" where
  "wait_child parent_id child_id K =
     (case find_task (k_table K) parent_id of
        None \<Rightarrow> (WaitResult_missing, K)
      | Some parent_index \<Rightarrow>
          if tk_state (task_at K parent_index) \<in> {TaskEmpty, TaskExited} then (WaitResult_missing, K)
          else case find_child (k_table K) parent_id child_id of
            None \<Rightarrow> (WaitResult_missing, K)
          | Some child_index \<Rightarrow>
              let child = task_at K child_index
              in if tk_state child = TaskExited \<and> \<not> tk_resources_active child \<and> tk_cleanup_complete child
                 then (\<lparr>wr_found = True, wr_blocked = False, wr_reaped = True, wr_child_id = tk_id child,
                         wr_exit_code = tk_exit_code child\<rparr>,
                       update_table (\<lambda>p. p\<lparr>pt_reaped_total := sat_add (pt_reaped_total p) 1\<rparr>)
                         (update_slot child_index (\<lambda>_. ProcessSlot_empty) K))
                 else
                   let (blocked, sch) = (if tk_state child \<noteq> TaskExited then block_task (k_sched K) parent_id
                                         else (False, k_sched K));
                       K = K\<lparr>k_sched := sch\<rparr>
                   in if blocked
                      then (\<lparr>wr_found = True, wr_blocked = True, wr_reaped = False,
                              wr_child_id = tk_id child, wr_exit_code = 0\<rparr>,
                            update_table (\<lambda>p. p\<lparr>pt_wait_blocks := sat_add (pt_wait_blocks p) 1\<rparr>)
                              (update_task parent_index (\<lambda>task. task\<lparr>tk_state := TaskBlocked,
                                 tk_wait_target := tk_id child\<rparr>) K))
                      else (\<lparr>wr_found = True, wr_blocked = False, wr_reaped = False,
                              wr_child_id = tk_id child, wr_exit_code = tk_exit_code child\<rparr>, K))"

section \<open>Blocking on messages\<close>

definition block_for_ipc :: "u64 \<Rightarrow> Kernel \<Rightarrow> bool \<times> Kernel" where
  "block_for_ipc t K =
     (case find_task (k_table K) t of
        None \<Rightarrow> (False, K)
      | Some index \<Rightarrow>
          let task = task_at K index
          in if tk_state task \<notin> {TaskReady, TaskRunning} \<or> tk_wait_target task \<noteq> 0 \<or> tk_ipc_waiting task
             then (False, K)
             else case block_task (k_sched K) t of
                    (False, sch) \<Rightarrow> (False, K\<lparr>k_sched := sch\<rparr>)
                  | (True, sch) \<Rightarrow>
                      (True, update_task index (\<lambda>task. task\<lparr>tk_state := TaskBlocked, tk_ipc_waiting := True,
                               tk_ipc_deadline_tick := 0, tk_ipc_wake_reason := WakeNone\<rparr>) (K\<lparr>k_sched := sch\<rparr>)))"

definition block_for_ipc_syscall ::
  "u64 \<Rightarrow> SyscallFrame \<Rightarrow> u64 \<Rightarrow> Kernel \<Rightarrow> u64 option \<times> SyscallFrame \<times> Kernel" where
  "block_for_ipc_syscall t frame deadline_tick K =
     (case find_task (k_table K) t of
        None \<Rightarrow> (None, frame, K)
      | Some previous_index \<Rightarrow>
          let previous = task_at K previous_index
          in if tk_state previous \<noteq> TaskRunning \<or> tk_wait_target previous \<noteq> 0 \<or> tk_ipc_waiting previous
                \<or> tk_ipc_restart_pending previous
             then (None, frame, K)
             else
               let K = update_slot previous_index (\<lambda>slot. slot\<lparr>
                         sl_timer_context := save_syscall_context (sl_timer_context slot) frame True,
                         sl_context_valid := True\<rparr>) K;
                   (decision, sch) = block_current_and_dispatch (k_sched K) t;
                   K = K\<lparr>k_sched := sch\<rparr>
               in if \<not> switched decision \<or> previous_task decision \<noteq> t then (None, frame, K)
                  else case find_task (k_table K) (next_task decision) of
                    None \<Rightarrow> (None, frame, K)
                  | Some next_index \<Rightarrow>
                      if \<not> sl_context_valid (slots K ! next_index)
                         \<or> tk_address_space_root (task_at K next_index) = 0
                      then (None, frame, K)
                      else
                        let K = update_task previous_index (\<lambda>task. task\<lparr>tk_state := TaskBlocked,
                                  tk_ipc_waiting := True, tk_ipc_restart_pending := True,
                                  tk_ipc_deadline_tick := deadline_tick, tk_ipc_wake_reason := WakeNone\<rparr>) K;
                            K = update_task next_index (dispatched (k_ticks K) (waited_ticks decision)) K;
                            frame = load_syscall_context frame (sl_timer_context (slots K ! next_index));
                            K = update_table (\<lambda>p. p\<lparr>
                                  pt_ipc_blocking_switches := sat_add (pt_ipc_blocking_switches p) 1,
                                  pt_last_task_id := next_task decision\<rparr>) K
                        in (Some (tk_address_space_root (task_at K next_index)), frame, K))"

text \<open>The common part of a wake-up by a message and of a cancellation.\<close>

definition wake_ipc_task :: "IpcWakeReason \<Rightarrow> u64 \<Rightarrow> Kernel \<Rightarrow> bool \<times> Kernel" where
  "wake_ipc_task reason t K =
     (case find_task (k_table K) t of
        None \<Rightarrow> (False, K)
      | Some index \<Rightarrow>
          if tk_state (task_at K index) \<noteq> TaskBlocked \<or> \<not> tk_ipc_waiting (task_at K index) then (False, K)
          else case wake_task (k_sched K) t of
                 (False, sch) \<Rightarrow> (False, K\<lparr>k_sched := sch\<rparr>)
               | (True, sch) \<Rightarrow>
                   (True, update_task index (\<lambda>task. task\<lparr>tk_state := TaskReady, tk_ipc_waiting := False,
                            tk_ipc_deadline_tick := 0, tk_ipc_wake_reason := reason\<rparr>) (K\<lparr>k_sched := sch\<rparr>)))"

definition wake_from_ipc :: "u64 \<Rightarrow> Kernel \<Rightarrow> bool \<times> Kernel" where
  "wake_from_ipc = wake_ipc_task WakeMessage"

definition cancel_ipc_wait :: "u64 \<Rightarrow> Kernel \<Rightarrow> bool \<times> Kernel" where
  "cancel_ipc_wait t K =
     (case wake_ipc_task WakeCancelled t K of
        (False, K) \<Rightarrow> (False, K)
      | (True, K) \<Rightarrow>
          (True, update_table (\<lambda>p. p\<lparr>pt_ipc_cancellations := sat_add (pt_ipc_cancellations p) 1\<rparr>) K))"

definition expire_slot :: "u64 \<Rightarrow> nat \<Rightarrow> Kernel \<Rightarrow> Kernel" where
  "expire_slot now index K =
     (let task = task_at K index
      in if tk_state task \<noteq> TaskBlocked \<or> \<not> tk_ipc_waiting task \<or> tk_ipc_deadline_tick task = 0
            \<or> now < tk_ipc_deadline_tick task
         then K
         else case wake_task (k_sched K) (tk_id task) of
                (False, sch) \<Rightarrow> K\<lparr>k_sched := sch\<rparr>
              | (True, sch) \<Rightarrow>
                  let K = K\<lparr>k_sched := sch, k_ipc := snd (set_waiting (k_ipc K) (tk_id task) False)\<rparr>;
                      K = update_task index (\<lambda>task. task\<lparr>tk_state := TaskReady, tk_ipc_waiting := False,
                            tk_ipc_deadline_tick := 0, tk_ipc_wake_reason := WakeTimeout\<rparr>) K
                  in update_table (\<lambda>p. p\<lparr>pt_ipc_timeouts := sat_add (pt_ipc_timeouts p) 1\<rparr>) K)"

definition expire_ipc_deadlines :: "u64 \<Rightarrow> Kernel \<Rightarrow> Kernel" where
  "expire_ipc_deadlines now K = fold (expire_slot now) [0..<MAX_TASKS] K"

definition complete_restart :: "Kernel \<Rightarrow> Kernel" where
  "complete_restart =
     update_table (\<lambda>p. p\<lparr>pt_ipc_restart_completions := sat_add (pt_ipc_restart_completions p) 1\<rparr>)"

definition take_ipc_wake_reason :: "u64 \<Rightarrow> Kernel \<Rightarrow> IpcWakeReason \<times> Kernel" where
  "take_ipc_wake_reason t K =
     (case find_task (k_table K) t of
        None \<Rightarrow> (WakeNone, K)
      | Some index \<Rightarrow>
          let reason = tk_ipc_wake_reason (task_at K index);
              K = update_task index (\<lambda>task. task\<lparr>tk_ipc_wake_reason := WakeNone\<rparr>) K
          in if reason \<in> {WakeTimeout, WakeCancelled} \<and> tk_ipc_restart_pending (task_at K index)
             then (reason, complete_restart
                    (update_task index (\<lambda>task. task\<lparr>tk_ipc_restart_pending := False\<rparr>) K))
             else (reason, K))"

definition complete_ipc_restart :: "u64 \<Rightarrow> Kernel \<Rightarrow> bool \<times> Kernel" where
  "complete_ipc_restart t K =
     (case find_task (k_table K) t of
        None \<Rightarrow> (False, K)
      | Some index \<Rightarrow>
          if \<not> tk_ipc_restart_pending (task_at K index) then (False, K)
          else (True, complete_restart (update_task index (\<lambda>task. task\<lparr>tk_ipc_restart_pending := False,
                 tk_ipc_deadline_tick := 0, tk_ipc_wake_reason := WakeNone\<rparr>) K)))"
end
