(* ===== verification/User_Memory.thy ===== *)
theory User_Memory
  imports Process
begin

unbundle bit_operations_syntax

text \<open>
  Access of the kernel to the memory of a process, \<^verbatim>\<open>src/src/process.rs\<close>: the check of a user
  buffer page by page, copies in both directions through the process's own page tables, and the
  small programs that the kernel's tests assemble into a code page.
\<close>

section \<open>Checking a buffer\<close>

text \<open>The loop over the pages of a buffer; the counter is the number of pages seen.\<close>

function check_pages :: "(u64 \<Rightarrow> TranslateResult) \<Rightarrow> bool \<Rightarrow> u64 \<Rightarrow> u64 \<Rightarrow> u64 \<Rightarrow> bool \<times> u64" where
  "check_pages tr writable final_page page pages_checked =
     (let translation = tr page;
          pages_checked = sat_add pages_checked 1
      in if \<not> tr_mapped translation \<or> \<not> tr_user_accessible translation
            \<or> (writable \<and> \<not> tr_writable translation)
         then (False, pages_checked)
         else if page = final_page then (True, pages_checked)
         else case checked_add page PAGE_SIZE_4K of
                None \<Rightarrow> (False, pages_checked)
              | Some nxt \<Rightarrow> check_pages tr writable final_page nxt pages_checked)"
  by pat_completeness auto
termination
proof (relation "measure (\<lambda>(_, _, _, page, _). 2 ^ 64 - unat page)", goal_cases wf step)
  case (step tr writable final_page page pages_checked x xa nxt)
  then have "unat nxt = unat page + 4096" using checked_add_Some [of page PAGE_SIZE_4K nxt]
    by (simp add: PAGE_SIZE_4K_def)
  moreover have "unat nxt < 2 ^ 64" using unsigned_less [where ?'a = nat, of nxt] by simp
  ultimately show ?case by simp
qed simp

declare check_pages.simps [simp del]

definition validate_user_buffer :: "Kernel \<Rightarrow> u64 \<Rightarrow> u64 \<Rightarrow> u64 \<Rightarrow> bool \<Rightarrow> UserBufferValidation" where
  "validate_user_buffer K t address len writable =
     (let invalid = \<lparr>ub_valid = False, ub_pages_checked = 0, ub_writable = writable\<rparr>
      in case find_task (k_table K) t of
           None \<Rightarrow> invalid
         | Some index \<Rightarrow>
             if tk_address_space_root (task_at K index) = 0 \<or> MAX_USER_BUFFER_BYTES < len then invalid
             else if len = 0 then \<lparr>ub_valid = True, ub_pages_checked = 0, ub_writable = writable\<rparr>
             else case checked_add address (len - 1) of
                    None \<Rightarrow> invalid
                  | Some last_byte \<Rightarrow>
                      let page_mask = NOT (PAGE_SIZE_4K - 1);
                          (valid, pages_checked) =
                            check_pages (space_translate (k_vm K) (sl_address_space (slots K ! index))) writable
                              (last_byte AND page_mask) (address AND page_mask) 0
                      in \<lparr>ub_valid = valid, ub_pages_checked = pages_checked, ub_writable = writable\<rparr>)"

section \<open>Copying\<close>

definition user_chunk :: "u64 \<Rightarrow> nat \<Rightarrow> nat" where
  "user_chunk virtual_address remaining =
     min (unat PAGE_SIZE_4K - unat (virtual_address AND (PAGE_SIZE_4K - 1))) remaining"

lemma user_chunk_pos: "0 < remaining \<Longrightarrow> 0 < user_chunk a remaining" "user_chunk a remaining \<le> remaining"
  using low_less [of a] by (simp_all add: user_chunk_def PAGE_SIZE_4K_def word_less_nat_alt)

text \<open>
  The two directions of \<open>copy_user_bytes\<close>. The kernel's side of the copy is a byte slice, which
  the copy out of user memory returns filled.
\<close>

function copy_out_loop ::
  "(u64 \<Rightarrow> TranslateResult) \<Rightarrow> memory \<Rightarrow> u64 \<Rightarrow> nat \<Rightarrow> u8 list \<Rightarrow> bool \<times> u8 list" where
  "copy_out_loop tr mem address copied buffer =
     (if copied < length buffer then
        let virtual_address = sat_add address (of_nat copied);
            translation = tr virtual_address
        in if \<not> tr_mapped translation \<or> \<not> tr_user_accessible translation then (False, buffer)
           else let chunk = user_chunk virtual_address (length buffer - copied)
                in copy_out_loop tr mem address (copied + chunk)
                     (take copied buffer @ map (\<lambda>j. mem (tr_phys translation + of_nat j)) [0..<chunk]
                        @ drop (copied + chunk) buffer)
      else (True, buffer))"
  by pat_completeness auto
termination
proof (relation "measure (\<lambda>(_, _, _, copied, buffer). length buffer - copied)", goal_cases wf step)
  case (step tr mem address copied buffer)
  then show ?case
    using user_chunk_pos [where remaining = "length buffer - copied" and a = "sat_add address (of_nat copied)"]
    by (simp add: min_def)
qed simp

function copy_in_loop ::
  "(memory \<Rightarrow> u64 \<Rightarrow> TranslateResult) \<Rightarrow> u64 \<Rightarrow> u8 list \<Rightarrow> nat \<Rightarrow> memory \<Rightarrow> bool \<times> memory" where
  "copy_in_loop tr address buffer copied mem =
     (if copied < length buffer then
        let virtual_address = sat_add address (of_nat copied);
            translation = tr mem virtual_address
        in if \<not> tr_mapped translation \<or> \<not> tr_user_accessible translation \<or> \<not> tr_writable translation
           then (False, mem)
           else let chunk = user_chunk virtual_address (length buffer - copied)
                in copy_in_loop tr address buffer (copied + chunk)
                     (copy_in mem (tr_phys translation) (take chunk (drop copied buffer)))
      else (True, mem))"
  by pat_completeness auto
termination
proof (relation "measure (\<lambda>(_, _, buffer, copied, _). length buffer - copied)", goal_cases wf step)
  case (step tr address buffer copied mem)
  then show ?case
    using user_chunk_pos [where remaining = "length buffer - copied" and a = "sat_add address (of_nat copied)"]
    by (simp add: diff_less_mono2)
qed simp

declare copy_out_loop.simps [simp del] copy_in_loop.simps [simp del]

definition copy_from_user :: "Kernel \<Rightarrow> u64 \<Rightarrow> u64 \<Rightarrow> u8 list \<Rightarrow> bool \<times> u8 list" where
  "copy_from_user K t address buffer =
     (if \<not> ub_valid (validate_user_buffer K t address (of_nat (length buffer)) False) then (False, buffer)
      else case find_task (k_table K) t of
             None \<Rightarrow> (False, buffer)
           | Some index \<Rightarrow>
               copy_out_loop (space_translate (k_vm K) (sl_address_space (slots K ! index)))
                 (vm_phys (k_vm K)) address 0 buffer)"

definition copy_to_user :: "Kernel \<Rightarrow> u64 \<Rightarrow> u64 \<Rightarrow> u8 list \<Rightarrow> bool \<times> Kernel" where
  "copy_to_user K t address buffer =
     (if \<not> ub_valid (validate_user_buffer K t address (of_nat (length buffer)) True) then (False, K)
      else case find_task (k_table K) t of
             None \<Rightarrow> (False, K)
           | Some index \<Rightarrow>
               (case copy_in_loop
                       (\<lambda>mem. space_translate ((k_vm K)\<lparr>vm_phys := mem\<rparr>) (sl_address_space (slots K ! index)))
                       address buffer 0 (vm_phys (k_vm K)) of
                  (copied, mem) \<Rightarrow> (copied, K\<lparr>k_vm := (k_vm K)\<lparr>vm_phys := mem\<rparr>\<rparr>)))"

end
