(* ===== verification/Ipc_Calls.thy ===== *)
theory Ipc_Calls
  imports User_Memory
begin

text \<open>
  The entry points of \<^verbatim>\<open>src/src/ipc.rs\<close> that join the mailboxes to the process table: a send wakes
  a waiting receiver, a receive on an empty queue blocks the caller, and a cancellation ends the
  wait of another task.
\<close>

datatype ReceiveOutcome = ReceivedMessage Delivery | ReceiveBlocked

datatype SyscallBlockOutcome = MessageReady | Switched u64

type_synonym 'a call = "Kernel \<Rightarrow> (IpcError + 'a) \<times> Kernel"

text \<open>An operation of the mailboxes as an operation of the kernel.\<close>

definition with_ipc :: "(IpcState \<Rightarrow> 'a \<times> IpcState) \<Rightarrow> Kernel \<Rightarrow> 'a \<times> Kernel" where
  "with_ipc f K = (case f (k_ipc K) of (r, s) \<Rightarrow> (r, K\<lparr>k_ipc := s\<rparr>))"

definition update_ipc :: "(IpcState \<Rightarrow> IpcState) \<Rightarrow> Kernel \<Rightarrow> Kernel" where
  "update_ipc f K = K\<lparr>k_ipc := f (k_ipc K)\<rparr>"

definition register_endpoint :: "u64 \<Rightarrow> unit call" where
  "register_endpoint t = with_ipc (\<lambda>s. register s t)"

definition unregister_endpoint :: "u64 \<Rightarrow> u64 call" where
  "unregister_endpoint t = with_ipc (\<lambda>s. unregister s t)"

definition grant_capability :: "u64 \<Rightarrow> u64 \<Rightarrow> CapabilityRights \<Rightarrow> u64 call" where
  "grant_capability owner target rights = with_ipc (\<lambda>s. grant s owner target rights)"

definition revoke_capability_tree :: "u64 \<Rightarrow> u64 \<Rightarrow> RevocationReport call" where
  "revoke_capability_tree owner handle = with_ipc (\<lambda>s. revoke s owner handle)"

definition revoke_capability :: "u64 \<Rightarrow> u64 \<Rightarrow> unit call" where
  "revoke_capability owner handle K =
     (case revoke_capability_tree owner handle K of
        (Inl error, K) \<Rightarrow> (Inl error, K)
      | (Inr _, K) \<Rightarrow> (Inr (), K))"

definition clear_waiting :: "u64 \<Rightarrow> unit call" where
  "clear_waiting t = with_ipc (\<lambda>s. set_waiting s t False)"

section \<open>Cancelling a wait\<close>

definition cancel_wait :: "u64 \<Rightarrow> u64 \<Rightarrow> u64 call" where
  "cancel_wait requester handle K =
     (let K = update_ipc (\<lambda>s. s\<lparr>cancellation_requests := sat_add (cancellation_requests s) 1\<rparr>) K
      in case with_ipc (\<lambda>s. resolve s requester handle CANCEL) K of
           (Inl error, K) \<Rightarrow> (Inl error, K)
         | (Inr target, K) \<Rightarrow>
             (case cancel_ipc_wait target K of
                (False, K) \<Rightarrow> (Inl NotWaiting, K)
              | (True, K) \<Rightarrow>
                  (case with_ipc (\<lambda>s. set_waiting s target False) K of
                     (Inl error, K) \<Rightarrow> (Inl error, K)
                   | (Inr _, K) \<Rightarrow>
                       (Inr target, update_ipc
                          (\<lambda>s. s\<lparr>cancellation_successes := sat_add (cancellation_successes s) 1\<rparr>) K))))"

section \<open>Sending\<close>

definition finish_send_locked :: "u64 \<Rightarrow> bool \<Rightarrow> u64 \<Rightarrow> u64 call" where
  "finish_send_locked sequence wake_receiver receiver K =
     (if wake_receiver then
        case wake_from_ipc receiver K of
          (True, K) \<Rightarrow>
            (Inr sequence, update_ipc (\<lambda>s. s\<lparr>receiver_wakeups := sat_add (receiver_wakeups s) 1\<rparr>) K)
        | (False, K) \<Rightarrow> (Inl WakeFailed, snd (with_ipc (\<lambda>s. set_waiting s receiver True) K))
      else (Inr sequence, K))"

definition ipc_send :: "u64 \<Rightarrow> u64 \<Rightarrow> u8 list \<Rightarrow> u64 call" where
  "ipc_send sender receiver bytes K =
     (case with_ipc (\<lambda>s. send s sender receiver bytes) K of
        (Inl error, K) \<Rightarrow> (Inl error, K)
      | (Inr (sequence, wake_receiver), K) \<Rightarrow> finish_send_locked sequence wake_receiver receiver K)"

definition ipc_send_capability :: "u64 \<Rightarrow> u64 \<Rightarrow> u8 list \<Rightarrow> u64 call" where
  "ipc_send_capability sender handle bytes K =
     (case with_ipc (\<lambda>s. send_capability s sender handle bytes) K of
        (Inl error, K) \<Rightarrow> (Inl error, K)
      | (Inr (sequence, wake_receiver, receiver), K) \<Rightarrow>
          finish_send_locked sequence wake_receiver receiver K)"

definition ipc_send_with_capability ::
  "u64 \<Rightarrow> u64 \<Rightarrow> u64 \<Rightarrow> CapabilityRights \<Rightarrow> u8 list \<Rightarrow> u64 call" where
  "ipc_send_with_capability sender destination_handle transfer_handle requested_rights bytes K =
     (case with_ipc (\<lambda>s. send_with_capability s sender destination_handle transfer_handle
                           requested_rights bytes) K of
        (Inl error, K) \<Rightarrow> (Inl error, K)
      | (Inr (sequence, wake_receiver, receiver, recipient_handle), K) \<Rightarrow>
          (case finish_send_locked sequence wake_receiver receiver K of
             (Inl error, K) \<Rightarrow> (Inl error, K)
           | (Inr _, K) \<Rightarrow> (Inr sequence, K)))"

section \<open>Receiving\<close>

text \<open>The new contents of the caller's buffer are the second component.\<close>

definition ipc_receive ::
  "u64 \<Rightarrow> u8 list \<Rightarrow> bool \<Rightarrow> Kernel \<Rightarrow> (IpcError + ReceiveOutcome) \<times> u8 list \<times> Kernel" where
  "ipc_receive receiver output block_when_empty K =
     (case receive (k_ipc K) receiver output of
        (Inr delivery, output, s) \<Rightarrow> (Inr (ReceivedMessage delivery), output, K\<lparr>k_ipc := s\<rparr>)
      | (Inl error, output, s) \<Rightarrow>
          let K = K\<lparr>k_ipc := s\<rparr>
          in if error = QueueEmpty \<and> block_when_empty then
               case with_ipc (\<lambda>s. set_waiting s receiver True) K of
                 (Inl error, K) \<Rightarrow> (Inl error, output, K)
               | (Inr _, K) \<Rightarrow>
                   (case block_for_ipc receiver K of
                      (False, K) \<Rightarrow>
                        (Inl BlockFailed, output, snd (with_ipc (\<lambda>s. set_waiting s receiver False) K))
                    | (True, K) \<Rightarrow>
                        (Inr ReceiveBlocked, output, update_ipc
                           (\<lambda>s. s\<lparr>blocked_receives := sat_add (blocked_receives s) 1\<rparr>) K))
             else (Inl error, output, K))"

definition block_syscall ::
  "u64 \<Rightarrow> SyscallFrame \<Rightarrow> u64 \<Rightarrow> Kernel \<Rightarrow> (IpcError + SyscallBlockOutcome) \<times> SyscallFrame \<times> Kernel" where
  "block_syscall receiver frame deadline_tick K =
     (case with_ipc (\<lambda>s. can_receive s receiver) K of
        (Inl error, K) \<Rightarrow> (Inl error, frame, K)
      | (Inr _, K) \<Rightarrow>
          (case has_message (k_ipc K) receiver of
             Inl error \<Rightarrow> (Inl error, frame, K)
           | Inr True \<Rightarrow> (Inr MessageReady, frame, K)
           | Inr False \<Rightarrow>
               (case with_ipc (\<lambda>s. set_waiting s receiver True) K of
                  (Inl error, K) \<Rightarrow> (Inl error, frame, K)
                | (Inr _, K) \<Rightarrow>
                    (case block_for_ipc_syscall receiver frame deadline_tick K of
                       (None, frame, K) \<Rightarrow>
                         (Inl BlockFailed, frame, snd (with_ipc (\<lambda>s. set_waiting s receiver False) K))
                     | (Some address_space_root, frame, K) \<Rightarrow>
                         (Inr (Switched address_space_root), frame, update_ipc
                            (\<lambda>s. s\<lparr>blocked_receives := sat_add (blocked_receives s) 1\<rparr>) K)))))"

end
