(* ===== verification/Descriptors.thy ===== *)
theory Descriptors
  imports Contexts
begin

unbundle bit_operations_syntax

text \<open>
  The descriptor tables: the global descriptor table and task state segment of \<^verbatim>\<open>src/src/gdt.rs\<close>,
  the interrupt descriptor table of \<^verbatim>\<open>src/src/interrupts.rs\<close>, and the record of the last panic,
  \<^verbatim>\<open>src/src/paniclog.rs\<close>. The addresses of statics and of the assembly stubs are arguments.
\<close>

section \<open>Segments\<close>

definition KERNEL_CODE_SELECTOR :: u16 where "KERNEL_CODE_SELECTOR = 0x08"
definition KERNEL_DATA_SELECTOR :: u16 where "KERNEL_DATA_SELECTOR = 0x10"
definition TSS_SELECTOR :: u16 where "TSS_SELECTOR = 0x18"
definition DOUBLE_FAULT_IST_INDEX :: u16 where "DOUBLE_FAULT_IST_INDEX = 1"
definition GDT_ENTRY_COUNT :: nat where "GDT_ENTRY_COUNT = 7"
definition DOUBLE_FAULT_STACK_SIZE :: u64 where "DOUBLE_FAULT_STACK_SIZE = 16 * 1024"
definition PRIVILEGE_STACK_SIZE :: u64 where "PRIVILEGE_STACK_SIZE = 16 * 1024"
definition KERNEL_CODE_DESCRIPTOR :: u64 where "KERNEL_CODE_DESCRIPTOR = 0x00af9a000000ffff"
definition KERNEL_DATA_DESCRIPTOR :: u64 where "KERNEL_DATA_DESCRIPTOR = 0x00cf92000000ffff"
definition USER_DATA_DESCRIPTOR :: u64 where "USER_DATA_DESCRIPTOR = 0x00cff2000000ffff"
definition USER_CODE_DESCRIPTOR :: u64 where "USER_CODE_DESCRIPTOR = 0x00affa000000ffff"
definition TSS_AVAILABLE_DESCRIPTOR :: u64 where "TSS_AVAILABLE_DESCRIPTOR = 0x89"

lemmas gdt_consts = KERNEL_CODE_SELECTOR_def KERNEL_DATA_SELECTOR_def TSS_SELECTOR_def USER_DATA_SELECTOR_def
  USER_CODE_SELECTOR_def DOUBLE_FAULT_IST_INDEX_def GDT_ENTRY_COUNT_def KERNEL_CODE_DESCRIPTOR_def
  KERNEL_DATA_DESCRIPTOR_def USER_DATA_DESCRIPTOR_def USER_CODE_DESCRIPTOR_def TSS_AVAILABLE_DESCRIPTOR_def

text \<open>The packed segment has 104 bytes.\<close>

definition TSS_BYTES :: u64 where "TSS_BYTES = 4 + 8 * 3 + 8 + 8 * 7 + 8 + 2 + 2"

record TaskStateSegment =
  tss_privilege_stack_table :: "u64 list"
  tss_interrupt_stack_table :: "u64 list"
  tss_iomap_base :: u16

definition TaskStateSegment_new :: TaskStateSegment where
  "TaskStateSegment_new = \<lparr>tss_privilege_stack_table = replicate 3 0,
     tss_interrupt_stack_table = replicate 7 0, tss_iomap_base = ucast TSS_BYTES\<rparr>"

definition tss_descriptor :: "u64 \<Rightarrow> u64 \<Rightarrow> u64 \<times> u64" where
  "tss_descriptor base limit =
     ((limit AND 0xffff) OR push_bit 16 (base AND 0x00ffffff) OR push_bit 40 TSS_AVAILABLE_DESCRIPTOR
        OR push_bit 48 (drop_bit 16 limit AND 0x0f) OR push_bit 56 (drop_bit 24 base AND 0xff),
      drop_bit 32 base AND 0xffffffff)"

definition gdt_limit :: u16 where "gdt_limit = of_nat (8 * GDT_ENTRY_COUNT - 1)"

definition stack_end :: "u64 \<Rightarrow> u64 \<Rightarrow> u64" where
  "stack_end base bytes = base + bytes"

text \<open>The tables that \<open>init\<close> writes before it loads them.\<close>

definition gdt_init :: "u64 \<Rightarrow> u64 \<Rightarrow> u64 \<Rightarrow> TaskStateSegment \<Rightarrow> u64 list \<times> TaskStateSegment" where
  "gdt_init tss_base privilege_stack double_fault_stack tss =
     (let (tss_low, tss_high) = tss_descriptor tss_base (TSS_BYTES - 1)
      in ([0, KERNEL_CODE_DESCRIPTOR, KERNEL_DATA_DESCRIPTOR, tss_low, tss_high, USER_DATA_DESCRIPTOR,
           USER_CODE_DESCRIPTOR],
          tss\<lparr>tss_privilege_stack_table :=
                (tss_privilege_stack_table tss)[0 := stack_end privilege_stack PRIVILEGE_STACK_SIZE],
              tss_interrupt_stack_table :=
                (tss_interrupt_stack_table tss)[unat (DOUBLE_FAULT_IST_INDEX - 1) :=
                  stack_end double_fault_stack DOUBLE_FAULT_STACK_SIZE],
              tss_iomap_base := ucast TSS_BYTES\<rparr>))"

section \<open>Interrupt gates\<close>

definition IDT_ENTRIES :: nat where "IDT_ENTRIES = 256"
definition INTERRUPT_GATE :: u16 where "INTERRUPT_GATE = 0x8e00"
definition INTERRUPT_GATE_DPL3 :: u16 where "INTERRUPT_GATE_DPL3 = 0xee00"
definition PIC_1_OFFSET :: u8 where "PIC_1_OFFSET = 32"
definition PIC_2_OFFSET :: u8 where "PIC_2_OFFSET = 40"
definition TIMER_IRQ :: u8 where "TIMER_IRQ = 0"
definition KEYBOARD_IRQ :: u8 where "KEYBOARD_IRQ = 1"
definition TIMER_VECTOR :: nat where "TIMER_VECTOR = unat (PIC_1_OFFSET + TIMER_IRQ)"
definition KEYBOARD_VECTOR :: nat where "KEYBOARD_VECTOR = unat (PIC_1_OFFSET + KEYBOARD_IRQ)"
definition SYSCALL_VECTOR :: nat where "SYSCALL_VECTOR = 0x80"

lemmas idt_consts = IDT_ENTRIES_def INTERRUPT_GATE_def INTERRUPT_GATE_DPL3_def PIC_1_OFFSET_def PIC_2_OFFSET_def
  TIMER_IRQ_def KEYBOARD_IRQ_def TIMER_VECTOR_def KEYBOARD_VECTOR_def SYSCALL_VECTOR_def

record IdtEntry =
  ie_offset_low :: u16
  ie_selector :: u16
  ie_options :: u16
  ie_offset_mid :: u16
  ie_offset_high :: u32
  ie_reserved :: u32

definition IdtEntry_missing :: IdtEntry where
  "IdtEntry_missing = \<lparr>ie_offset_low = 0, ie_selector = 0, ie_options = 0, ie_offset_mid = 0,
     ie_offset_high = 0, ie_reserved = 0\<rparr>"

definition set_handler_with_options :: "u64 \<Rightarrow> u16 \<Rightarrow> IdtEntry \<Rightarrow> IdtEntry" where
  "set_handler_with_options address options e =
     \<lparr>ie_offset_low = ucast address, ie_selector = KERNEL_CODE_SELECTOR, ie_options = options,
      ie_offset_mid = ucast (drop_bit 16 address), ie_offset_high = ucast (drop_bit 32 address),
      ie_reserved = 0\<rparr>"

definition set_handler_with_ist :: "u64 \<Rightarrow> u16 \<Rightarrow> IdtEntry \<Rightarrow> IdtEntry" where
  "set_handler_with_ist address ist_index = set_handler_with_options address (INTERRUPT_GATE OR (ist_index AND 0x0007))"

definition set_handler :: "u64 \<Rightarrow> IdtEntry \<Rightarrow> IdtEntry" where
  "set_handler address = set_handler_with_ist address 0"

definition set_user_handler :: "u64 \<Rightarrow> IdtEntry \<Rightarrow> IdtEntry" where
  "set_user_handler address = set_handler_with_options address INTERRUPT_GATE_DPL3"

text \<open>The assembly stubs; the number of an exception stub is in its name.\<close>

datatype Stub = TimerStub | KeyboardStub | SyscallStub | DefaultIrqStub | DefaultStub | ExceptionStub nat

definition exception_vectors :: "nat list" where
  "exception_vectors = [0, 1, 2, 3, 4, 5, 6, 7, 8, 10, 11, 12, 13, 14, 16, 17, 18, 19, 20, 21, 28, 29, 30]"

definition install_gate :: "(IdtEntry \<Rightarrow> IdtEntry) \<Rightarrow> nat \<Rightarrow> IdtEntry list \<Rightarrow> IdtEntry list" where
  "install_gate f vector idt = idt[vector := f (idt ! vector)]"

definition init_idt :: "(Stub \<Rightarrow> u64) \<Rightarrow> IdtEntry list \<Rightarrow> IdtEntry list" where
  "init_idt stub idt =
     (let idt = fold (install_gate (set_handler (stub DefaultStub))) [0..<IDT_ENTRIES] idt;
          idt = fold (\<lambda>vector. install_gate
                   (if vector = 8 then set_handler_with_ist (stub (ExceptionStub 8)) DOUBLE_FAULT_IST_INDEX
                    else set_handler (stub (ExceptionStub vector))) vector) exception_vectors idt;
          idt = fold (install_gate (set_handler (stub DefaultIrqStub)))
                  [unat PIC_1_OFFSET..<unat PIC_2_OFFSET + 8] idt;
          idt = install_gate (set_handler (stub TimerStub)) TIMER_VECTOR idt;
          idt = install_gate (set_handler (stub KeyboardStub)) KEYBOARD_VECTOR idt
      in install_gate (set_user_handler (stub SyscallStub)) SYSCALL_VECTOR idt)"

definition gate_present :: "u16 \<Rightarrow> bool" where "gate_present options \<longleftrightarrow> options AND 0x8000 \<noteq> 0"
definition gate_dpl :: "u16 \<Rightarrow> u16" where "gate_dpl options = drop_bit 13 options AND 0x0003"
definition gate_ist :: "u16 \<Rightarrow> u16" where "gate_ist options = options AND 0x0007"

text \<open>The sizes of the packed gate, of the exception frame, and of the two saved contexts.\<close>

record AbiSnapshot =
  abi_idt_entry_bytes :: u64
  abi_exception_context_bytes :: u64
  abi_timer_context_bytes :: u64
  abi_syscall_frame_bytes :: u64
  abi_timer_gate_present :: bool
  abi_keyboard_gate_present :: bool
  abi_syscall_gate_present :: bool
  abi_syscall_gate_dpl3 :: bool
  abi_double_fault_ist :: bool
  abi_pic_timer_vector :: u64
  abi_pic_keyboard_vector :: u64
  abi_syscall_vector :: u64

definition abi_snapshot :: "IdtEntry list \<Rightarrow> AbiSnapshot" where
  "abi_snapshot idt =
     (let timer = ie_options (idt ! TIMER_VECTOR); keyboard = ie_options (idt ! KEYBOARD_VECTOR);
          syscall = ie_options (idt ! SYSCALL_VECTOR); double_fault = ie_options (idt ! 8)
      in \<lparr>abi_idt_entry_bytes = 2 * 4 + 4 * 2, abi_exception_context_bytes = 8 * 5,
          abi_timer_context_bytes = 8 * 24, abi_syscall_frame_bytes = 8 * 20,
          abi_timer_gate_present = gate_present timer, abi_keyboard_gate_present = gate_present keyboard,
          abi_syscall_gate_present = gate_present syscall, abi_syscall_gate_dpl3 = (gate_dpl syscall = 3),
          abi_double_fault_ist = (gate_ist double_fault = DOUBLE_FAULT_IST_INDEX),
          abi_pic_timer_vector = of_nat TIMER_VECTOR, abi_pic_keyboard_vector = of_nat KEYBOARD_VECTOR,
          abi_syscall_vector = of_nat SYSCALL_VECTOR\<rparr>)"

section \<open>The last panic\<close>

definition KIND_CAPACITY :: nat where "KIND_CAPACITY = 32"
definition DETAIL_CAPACITY :: nat where "DETAIL_CAPACITY = 96"

record PanicRecord =
  pn_present :: bool
  pn_tick :: u64
  pn_vector :: u64
  pn_error_code :: u64
  pn_instruction_pointer :: u64
  pn_fault_address :: u64
  pn_cpu_flags :: u64
  pn_kind :: "u8 list"
  pn_kind_len :: u8
  pn_detail :: "u8 list"
  pn_detail_len :: u8

definition PanicRecord_empty :: PanicRecord where
  "PanicRecord_empty = \<lparr>pn_present = False, pn_tick = 0, pn_vector = 0, pn_error_code = 0,
     pn_instruction_pointer = 0, pn_fault_address = 0, pn_cpu_flags = 0,
     pn_kind = replicate KIND_CAPACITY 0, pn_kind_len = 0, pn_detail = replicate DETAIL_CAPACITY 0,
     pn_detail_len = 0\<rparr>"

definition panic_kind :: "PanicRecord \<Rightarrow> u8 list" where
  "panic_kind p = take (unat (pn_kind_len p)) (pn_kind p)"

definition panic_detail :: "PanicRecord \<Rightarrow> u8 list" where
  "panic_detail p = take (unat (pn_detail_len p)) (pn_detail p)"

fun copy_ascii :: "u8 list \<Rightarrow> nat \<Rightarrow> u8 list \<Rightarrow> nat \<times> u8 list" where
  "copy_ascii [] len destination = (len, destination)"
| "copy_ascii (byte # source) len destination =
     (if length destination \<le> len then (len, destination)
      else copy_ascii source (len + 1)
             (destination[len := (if 0x20 \<le> byte \<and> byte \<le> 0x7e then byte else 0x3f)]))"

definition panic_record ::
  "u8 list \<Rightarrow> u8 list \<Rightarrow> u64 \<Rightarrow> u64 \<Rightarrow> u64 \<Rightarrow> u64 \<Rightarrow> u64 \<Rightarrow> u64 \<Rightarrow> PanicRecord" where
  "panic_record kind detail tick vector error_code instruction_pointer fault_address cpu_flags =
     (let p = PanicRecord_empty\<lparr>pn_present := True, pn_tick := tick, pn_vector := vector,
                pn_error_code := error_code, pn_instruction_pointer := instruction_pointer,
                pn_fault_address := fault_address, pn_cpu_flags := cpu_flags\<rparr>;
          (kind_len, kind_bytes) = copy_ascii kind 0 (pn_kind p);
          (detail_len, detail_bytes) = copy_ascii detail 0 (pn_detail p)
      in p\<lparr>pn_kind := kind_bytes, pn_kind_len := of_nat kind_len, pn_detail := detail_bytes,
           pn_detail_len := of_nat detail_len\<rparr>)"

definition record_rust_panic :: "u8 list \<Rightarrow> u64 \<Rightarrow> PanicRecord" where
  "record_rust_panic detail tick = panic_record (ascii ''Rust panic'') detail tick 0 0 0 0 0"

definition record_exception :: "u8 list \<Rightarrow> u64 \<Rightarrow> u64 \<Rightarrow> u64 \<Rightarrow> u64 \<Rightarrow> u64 \<Rightarrow> u64 \<Rightarrow> PanicRecord" where
  "record_exception kind tick vector error_code instruction_pointer fault_address cpu_flags =
     panic_record kind (ascii ''CPU exception captured'') tick vector error_code instruction_pointer
       fault_address cpu_flags"

end
