(* ===== verification/User.thy ===== *)
theory User
  imports Ipc_Calls Vga Keyboard Descriptors
begin

unbundle bit_operations_syntax

text \<open>
  The transition to user mode, \<^verbatim>\<open>src/src/user.rs\<close>: the counters of the module, the probe program
  and its two pages, and a run of a program. The processor running the program until it comes
  back through the exit path is a function of the machine that the run receives.
\<close>

section \<open>State\<close>

record UserState =
  us_ready :: bool
  us_code_mapped :: bool
  us_stack_mapped :: bool
  us_runs :: u64
  us_passes :: u64
  us_syscalls :: u64
  us_faults :: u64
  us_last_fault_vector :: u64
  us_last_fault_address :: u64
  us_last_fault_exit_code :: u64
  us_last_exit_code :: u64
  us_last_uptime_return :: u64

definition UserState_new :: UserState where
  "UserState_new = \<lparr>us_ready = False, us_code_mapped = False, us_stack_mapped = False, us_runs = 0,
     us_passes = 0, us_syscalls = 0, us_faults = 0, us_last_fault_vector = 0,
     us_last_fault_address = 0, us_last_fault_exit_code = 0, us_last_exit_code = 0,
     us_last_uptime_return = 0\<rparr>"

record ProbeResult =
  pr_ran :: bool
  pr_passed :: bool
  pr_exit_code :: u64
  pr_syscalls_before :: u64
  pr_syscalls_after :: u64

text \<open>The statics of \<^verbatim>\<open>src/src/syscall.rs\<close>, and the whole machine.\<close>

record SyscallState =
  sy_initialized :: bool
  sy_dispatches :: u64
  sy_unknown_syscalls :: u64
  sy_last_number :: u64
  sy_last_return :: u64

definition SyscallState_new :: SyscallState where
  "SyscallState_new = \<lparr>sy_initialized = False, sy_dispatches = 0, sy_unknown_syscalls = 0,
     sy_last_number = 0, sy_last_return = 0\<rparr>"

record Machine =
  m_kernel :: Kernel
  m_user :: UserState
  m_stats :: Stats
  m_syscall :: SyscallState
  m_gate_ready :: bool
  m_idt :: "IdtEntry list"
  m_screen :: Writer
  m_keyboard :: Keyboard
  m_panic :: PanicRecord

definition update_kernel :: "(Kernel \<Rightarrow> Kernel) \<Rightarrow> Machine \<Rightarrow> Machine" where
  "update_kernel f M = M\<lparr>m_kernel := f (m_kernel M)\<rparr>"

definition update_user :: "(UserState \<Rightarrow> UserState) \<Rightarrow> Machine \<Rightarrow> Machine" where
  "update_user f M = M\<lparr>m_user := f (m_user M)\<rparr>"

definition update_stats :: "(Stats \<Rightarrow> Stats) \<Rightarrow> Machine \<Rightarrow> Machine" where
  "update_stats f M = M\<lparr>m_stats := f (m_stats M)\<rparr>"

definition update_syscall :: "(SyscallState \<Rightarrow> SyscallState) \<Rightarrow> Machine \<Rightarrow> Machine" where
  "update_syscall f M = M\<lparr>m_syscall := f (m_syscall M)\<rparr>"

text \<open>Control either comes back with a value or leaves user mode with an exit code.\<close>

datatype 'a control = ExitToKernel u64 | Returns 'a

section \<open>Counters\<close>

definition USER_FAULT_EXIT_BASE :: u64 where "USER_FAULT_EXIT_BASE = 0x1000"
definition PROBE_EXIT_CODE :: u64 where "PROBE_EXIT_CODE = 42"

definition fault_exit_code :: "u64 \<Rightarrow> u64" where
  "fault_exit_code vector = sat_add USER_FAULT_EXIT_BASE vector"

definition record_syscall :: "UserState \<Rightarrow> UserState" where
  "record_syscall u = u\<lparr>us_syscalls := us_syscalls u + 1\<rparr>"

definition record_fault :: "u64 \<Rightarrow> u64 \<Rightarrow> u64 \<Rightarrow> UserState \<Rightarrow> UserState" where
  "record_fault vector fault_address exit_code u = u\<lparr>us_faults := us_faults u + 1,
     us_last_fault_vector := vector, us_last_fault_address := fault_address,
     us_last_fault_exit_code := exit_code\<rparr>"

definition record_uptime_return :: "u64 \<Rightarrow> UserState \<Rightarrow> UserState" where
  "record_uptime_return ticks u = u\<lparr>us_last_uptime_return := ticks\<rparr>"

section \<open>The probe program\<close>

definition USER_CODE_BYTES :: "u8 list" where
  "USER_CODE_BYTES = [
    0x48, 0xb8, 0x01, 0x00, 0x00, 0x00, 0x00, 0x00, 0x00, 0x00, 0x48, 0xbf, 0x01, 0x00, 0x00, 0x00,
    0x00, 0x00, 0x00, 0x00, 0xcd, 0x80, 0x48, 0xb8, 0x04, 0x00, 0x00, 0x00, 0x00, 0x00, 0x00, 0x00,
    0xcd, 0x80, 0x48, 0xb8, 0x02, 0x00, 0x00, 0x00, 0x00, 0x00, 0x00, 0x00, 0xcd, 0x80, 0x48, 0xb8,
    0x03, 0x00, 0x00, 0x00, 0x00, 0x00, 0x00, 0x00, 0x48, 0xbf, 0x2a, 0x00, 0x00, 0x00, 0x00, 0x00,
    0x00, 0x00, 0xcd, 0x80, 0xf4, 0xeb, 0xfd]"

definition USER_FAULT_CODE_OFFSET :: u64 where "USER_FAULT_CODE_OFFSET = 128"
definition USER_FAULT_ADDRESS :: u64 where "USER_FAULT_ADDRESS = USER_SPACE_BASE + 0x3000"

definition probe_entry_point :: u64 where "probe_entry_point = USER_PROBE_CODE_PAGE"
definition fault_entry_point :: u64 where
  "fault_entry_point = USER_PROBE_CODE_PAGE + USER_FAULT_CODE_OFFSET"
definition probe_stack_top :: u64 where "probe_stack_top = USER_PROBE_STACK_TOP"

text \<open>The page of code at an address of the kernel image.\<close>

definition write_fault_program :: "u64 \<Rightarrow> memory \<Rightarrow> memory" where
  "write_fault_program destination mem =
     (let mem = mem(destination := 0x48, destination + 1 := 0xb8);
          mem = write_u64 mem (destination + 2) USER_FAULT_ADDRESS
      in mem(destination + 10 := 0x48, destination + 11 := 0x8b, destination + 12 := 0x00,
             destination + 13 := 0xf4, destination + 14 := 0xeb, destination + 15 := 0xfd))"

definition write_probe_program :: "u64 \<Rightarrow> memory \<Rightarrow> memory" where
  "write_probe_program page mem =
     (let mem = Memory.write_bytes mem page PAGE_SIZE_4K 0;
          mem = copy_in mem page USER_CODE_BYTES
      in write_fault_program (page + USER_FAULT_CODE_OFFSET) mem)"

definition map_probe_page :: "u64 \<Rightarrow> u64 \<Rightarrow> UserPagePermissions \<Rightarrow> Vm \<Rightarrow> bool \<times> Vm" where
  "map_probe_page virt phys permissions vm =
     (let translation = translate vm virt
      in if tr_mapped translation
         then (tr_phys translation = phys \<and> tr_user_accessible translation
                 \<and> tr_writable translation = up_writable permissions
                 \<and> tr_executable translation = up_executable permissions, vm)
         else case map_user_page_with_permissions vm virt phys permissions of
                (Inl _, vm) \<Rightarrow> (False, vm)
              | (Inr _, vm) \<Rightarrow> (tr_user_accessible (translate vm virt), vm))"

definition page_address :: "u64 \<Rightarrow> u64" where
  "page_address pointer = pointer AND NOT (PAGE_SIZE_4K - 1)"

definition user_init :: "u64 \<Rightarrow> u64 \<Rightarrow> Machine \<Rightarrow> Machine" where
  "user_init code_page stack_page M =
     (let vm = k_vm (m_kernel M);
          vm = vm\<lparr>vm_phys := write_probe_program code_page (vm_phys vm)\<rparr>;
          (code_mapped, vm) = map_probe_page USER_PROBE_CODE_PAGE (page_address code_page) READ_EXECUTE vm;
          (stack_mapped, vm) = map_probe_page USER_PROBE_STACK_PAGE (page_address stack_page) READ_WRITE vm
      in update_user (\<lambda>u. u\<lparr>us_code_mapped := code_mapped, us_stack_mapped := stack_mapped,
                           us_ready := (code_mapped \<and> stack_mapped)\<rparr>)
           (update_kernel (\<lambda>K. K\<lparr>k_vm := vm\<rparr>) M))"

section \<open>Running a program\<close>

definition run_program_in_address_space ::
  "(u64 \<Rightarrow> u64 \<Rightarrow> u64 \<Rightarrow> Machine \<Rightarrow> u64 \<times> Machine) \<Rightarrow> u64 \<Rightarrow> u64 \<Rightarrow> u64 \<Rightarrow> u64 \<Rightarrow> u64 \<Rightarrow> Machine
   \<Rightarrow> ProbeResult \<times> Machine" where
  "run_program_in_address_space user_enter entry_point stack_top expected_exit_code minimum_syscalls
       address_space_root M =
     (let before = us_syscalls (m_user M)
      in if \<not> us_ready (m_user M) \<or> \<not> m_gate_ready M
         then (\<lparr>pr_ran = False, pr_passed = False, pr_exit_code = 0, pr_syscalls_before = before,
                pr_syscalls_after = before\<rparr>, M)
         else
           let M = update_user (\<lambda>u. u\<lparr>us_runs := us_runs u + 1\<rparr>) M;
               M = update_stats inc_user_probe M;
               (exit_code, M) = user_enter entry_point stack_top address_space_root M;
               M = update_user (\<lambda>u. u\<lparr>us_last_exit_code := exit_code\<rparr>) M;
               after = us_syscalls (m_user M);
               passed = (exit_code = expected_exit_code \<and> sat_add before minimum_syscalls \<le> after);
               M = (if passed
                    then update_stats inc_user_probe_pass
                           (update_user (\<lambda>u. u\<lparr>us_passes := us_passes u + 1\<rparr>) M)
                    else M)
           in (\<lparr>pr_ran = True, pr_passed = passed, pr_exit_code = exit_code,
                pr_syscalls_before = before, pr_syscalls_after = after\<rparr>, M))"

end
