(* ===== verification/Syscall.thy ===== *)
theory Syscall
  imports User
begin

text \<open>
  System calls, \<^verbatim>\<open>src/src/syscall.rs\<close>: the table, the dispatcher and the twelve handlers. A handler
  receives the first argument, the caller's frame and the machine, and returns them updated with
  its outcome; leaving user mode is a value of its own. Lines of the log are left out.
\<close>

section \<open>Return values\<close>

definition RET_OK :: u64 where "RET_OK = 0"
definition RET_UNKNOWN_SYSCALL :: u64 where "RET_UNKNOWN_SYSCALL = - 1"
definition RET_INVALID_USER_BUFFER :: u64 where "RET_INVALID_USER_BUFFER = - 2"
definition RET_IPC_ERROR_BASE :: u64 where "RET_IPC_ERROR_BASE = - 33"

definition ipc_error_return :: "IpcError \<Rightarrow> u64" where
  "ipc_error_return error = sat_add RET_IPC_ERROR_BASE (error_code error)"

record SyscallOutcome =
  so_return_value :: u64
  so_switch_root :: u64

definition SyscallOutcome_complete :: "u64 \<Rightarrow> SyscallOutcome" where
  "SyscallOutcome_complete return_value = \<lparr>so_return_value = return_value, so_switch_root = 0\<rparr>"

definition SyscallOutcome_switch :: "u64 \<Rightarrow> SyscallOutcome" where
  "SyscallOutcome_switch switch_root = \<lparr>so_return_value = RET_OK, so_switch_root = switch_root\<rparr>"

abbreviation complete_error :: "IpcError \<Rightarrow> SyscallOutcome" where
  "complete_error error \<equiv> SyscallOutcome_complete (ipc_error_return error)"

type_synonym 'a frame_step = "SyscallFrame \<Rightarrow> Machine \<Rightarrow> 'a \<times> SyscallFrame \<times> Machine"
type_synonym handler = "u64 \<Rightarrow> SyscallOutcome control frame_step"

text \<open>A kernel operation as an operation of the machine.\<close>

definition with_kernel :: "(Kernel \<Rightarrow> 'a \<times> Kernel) \<Rightarrow> Machine \<Rightarrow> 'a \<times> Machine" where
  "with_kernel f M = (case f (m_kernel M) of (r, K) \<Rightarrow> (r, M\<lparr>m_kernel := K\<rparr>))"

abbreviation running_task :: "Machine \<Rightarrow> u64" where
  "running_task M \<equiv> ss_current_task (sched_snapshot (k_sched (m_kernel M)))"

section \<open>Simple handlers\<close>

definition syscall_log :: handler where
  "syscall_log arg0 frame M = (Returns (SyscallOutcome_complete RET_OK), frame\<lparr>sf_rax := RET_OK\<rparr>, M)"

definition syscall_uptime :: handler where
  "syscall_uptime arg0 frame M =
     (let ticks = k_ticks (m_kernel M)
      in (Returns (SyscallOutcome_complete ticks), frame\<lparr>sf_rax := ticks\<rparr>,
          update_user (record_uptime_return ticks) M))"

definition syscall_exit :: handler where
  "syscall_exit arg0 frame M = (ExitToKernel arg0, frame, M)"

definition syscall_yield :: handler where
  "syscall_yield arg0 frame M =
     (let (current, M) = with_kernel (\<lambda>K. case yield_current (k_sched K) of
                           (current, sch) \<Rightarrow> (current, K\<lparr>k_sched := sch\<rparr>)) M
      in (Returns (SyscallOutcome_complete RET_OK), frame\<lparr>sf_rax := RET_OK\<rparr>, M))"

definition syscall_getpid :: handler where
  "syscall_getpid arg0 frame M = (Returns (SyscallOutcome_complete (running_task M)), frame, M)"

definition syscall_ipc_self :: handler where
  "syscall_ipc_self arg0 frame M =
     (let t = running_task M;
          result = (if t = 0 then ipc_error_return InvalidTask
                    else case self_capability (k_ipc (m_kernel M)) t of
                           Inr handle \<Rightarrow> handle | Inl error \<Rightarrow> ipc_error_return error)
      in (Returns (SyscallOutcome_complete result), frame, M))"

definition syscall_ipc_cancel :: handler where
  "syscall_ipc_cancel handle frame M =
     (let requester = running_task M
      in if requester = 0 then (Returns (complete_error InvalidTask), frame, M)
         else case with_kernel (cancel_wait requester handle) M of
                (Inr target, M) \<Rightarrow> (Returns (SyscallOutcome_complete target), frame, M)
              | (Inl error, M) \<Rightarrow> (Returns (complete_error error), frame, M))"

definition syscall_ipc_revoke :: handler where
  "syscall_ipc_revoke handle frame M =
     (let owner = running_task M
      in if owner = 0 then (Returns (complete_error InvalidTask), frame, M)
         else case with_kernel (revoke_capability_tree owner handle) M of
                (Inr report, M) \<Rightarrow> (Returns (SyscallOutcome_complete (rp_revoked report)), frame, M)
              | (Inl error, M) \<Rightarrow> (Returns (complete_error error), frame, M))"

section \<open>Sending\<close>

text \<open>The message buffer of the kernel holds \<open>MAX_MESSAGE_BYTES\<close>; the slice of it that is used is as long as the message.\<close>

definition syscall_ipc_send :: handler where
  "syscall_ipc_send handle frame M =
     (let sender = running_task M;
          len = unat (sf_rdx frame)
      in if sender = 0 \<or> MAX_MESSAGE_BYTES < len then (Returns (complete_error InvalidTask), frame, M)
         else case copy_from_user (m_kernel M) sender (sf_rsi frame) (replicate len 0) of
                (False, _) \<Rightarrow> (Returns (SyscallOutcome_complete RET_INVALID_USER_BUFFER), frame, M)
              | (True, bytes) \<Rightarrow>
                  (case with_kernel (ipc_send_capability sender handle bytes) M of
                     (Inr sequence, M) \<Rightarrow>
                       (Returns (SyscallOutcome_complete sequence), frame\<lparr>sf_rax := sequence\<rparr>, M)
                   | (Inl error, M) \<Rightarrow> (Returns (complete_error error), frame, M)))"

definition syscall_ipc_send_capability :: handler where
  "syscall_ipc_send_capability destination_handle frame M =
     (let sender = running_task M;
          len = unat (sf_rdx frame)
      in if sender = 0 \<or> MAX_MESSAGE_BYTES < len then (Returns (complete_error InvalidTask), frame, M)
         else if 255 < sf_r8 frame then (Returns (complete_error InvalidRights), frame, M)
         else case from_bits (ucast (sf_r8 frame)) of
           None \<Rightarrow> (Returns (complete_error InvalidRights), frame, M)
         | Some requested_rights \<Rightarrow>
             (case copy_from_user (m_kernel M) sender (sf_rsi frame) (replicate len 0) of
                (False, _) \<Rightarrow> (Returns (SyscallOutcome_complete RET_INVALID_USER_BUFFER), frame, M)
              | (True, bytes) \<Rightarrow>
                  (case with_kernel (ipc_send_with_capability sender destination_handle (sf_rcx frame)
                                       requested_rights bytes) M of
                     (Inr sequence, M) \<Rightarrow> (Returns (SyscallOutcome_complete sequence), frame, M)
                   | (Inl error, M) \<Rightarrow> (Returns (complete_error error), frame, M))))"

section \<open>Receiving\<close>

text \<open>
  One pass of \<open>syscall_ipc_receive_common\<close>; no outcome means that a message has arrived since the
  queue was found empty, and the call starts again.
\<close>

definition receive_deadline :: "u64 option \<Rightarrow> Machine \<Rightarrow> u64" where
  "receive_deadline timeout_ticks M =
     (case timeout_ticks of None \<Rightarrow> 0 | Some ticks \<Rightarrow> sat_add (k_ticks (m_kernel M)) ticks)"

definition deliver_message :: "u64 \<Rightarrow> u64 \<Rightarrow> Delivery \<Rightarrow> u8 list \<Rightarrow> SyscallOutcome frame_step" where
  "deliver_message receiver buffer delivery message frame M =
     (case with_kernel (\<lambda>K. copy_to_user K receiver buffer (take (unat (dl_length delivery)) message)) M of
        (False, M) \<Rightarrow> (SyscallOutcome_complete RET_INVALID_USER_BUFFER, frame, M)
      | (True, M) \<Rightarrow>
          (SyscallOutcome_complete (dl_length delivery),
           frame\<lparr>sf_rdx := dl_sender delivery, sf_rcx := dl_sequence delivery,
                 sf_r8 := dl_capability_handle delivery,
                 sf_r9 := ucast (dl_capability_rights delivery), sf_rax := dl_length delivery\<rparr>,
           snd (with_kernel (complete_ipc_restart receiver) M)))"

definition wait_for_message :: "u64 \<Rightarrow> u64 option \<Rightarrow> SyscallOutcome option frame_step" where
  "wait_for_message receiver timeout_ticks frame M =
     (if timeout_ticks = Some 0 then (Some (complete_error Timeout), frame, M)
      else case block_syscall receiver frame (receive_deadline timeout_ticks M) (m_kernel M) of
             (Inr (Switched address_space_root), frame, K) \<Rightarrow>
               (Some (SyscallOutcome_switch address_space_root), frame, M\<lparr>m_kernel := K\<rparr>)
           | (Inr MessageReady, frame, K) \<Rightarrow> (None, frame, M\<lparr>m_kernel := K\<rparr>)
           | (Inl error, frame, K) \<Rightarrow> (Some (complete_error error), frame, M\<lparr>m_kernel := K\<rparr>))"

definition receive_attempt :: "u64 \<Rightarrow> u64 option \<Rightarrow> SyscallOutcome option frame_step" where
  "receive_attempt buffer timeout_ticks frame M =
     (let receiver = running_task M;
          capacity = min (unat (sf_rsi frame)) MAX_MESSAGE_BYTES
      in if receiver = 0 then (Some (complete_error InvalidTask), frame, M)
         else if \<not> ub_valid (validate_user_buffer (m_kernel M) receiver buffer (of_nat capacity) True)
         then (Some (SyscallOutcome_complete RET_INVALID_USER_BUFFER), frame, M)
         else
           let (reason, M) = with_kernel (take_ipc_wake_reason receiver) M
           in if reason = WakeTimeout then (Some (complete_error Timeout), frame, M)
              else if reason = WakeCancelled then (Some (complete_error Cancelled), frame, M)
              else case ipc_receive receiver (replicate capacity 0) False (m_kernel M) of
                (Inr (ReceivedMessage delivery), message, K) \<Rightarrow>
                  (case deliver_message receiver buffer delivery message frame (M\<lparr>m_kernel := K\<rparr>) of
                     (outcome, frame, M) \<Rightarrow> (Some outcome, frame, M))
              | (Inr ReceiveBlocked, message, K) \<Rightarrow>
                  (Some (complete_error BlockFailed), frame, M\<lparr>m_kernel := K\<rparr>)
              | (Inl error, message, K) \<Rightarrow>
                  if error = QueueEmpty then wait_for_message receiver timeout_ticks frame (M\<lparr>m_kernel := K\<rparr>)
                  else (Some (complete_error error), frame, M\<lparr>m_kernel := K\<rparr>))"

text \<open>No message can arrive between the two looks at the queue: interrupts are off.\<close>

lemma resolve_errors:
  "fst (resolve s owner handle required) \<noteq> Inl QueueEmpty"
  by (auto simp: resolve_def resolve_capability_def Let_def split: sum.splits option.splits prod.splits if_splits)

lemma can_receive_result:
  "fst (can_receive s t) \<noteq> Inl QueueEmpty" "can_receive s t = (Inr u, s1) \<Longrightarrow> s1 = s"
proof -
  have "can_receive s t = (Inl QueueEmpty, s1) \<Longrightarrow> False" for s1
    using resolve_errors [of s t _ RECEIVE]
    by (auto simp: can_receive_def self_capability_def Let_def split: sum.splits option.splits prod.splits if_splits)
      (metis fst_conv)
  then show "fst (can_receive s t) \<noteq> Inl QueueEmpty" by (metis prod.collapse)
  show "can_receive s t = (Inr u, s1) \<Longrightarrow> s1 = s"
    by (auto simp: can_receive_def resolve_def resolve_capability_def Let_def
        split: sum.splits option.splits prod.splits if_splits)
qed

lemma receive_empty:
  assumes "receive s t buffer = (Inl QueueEmpty, message, s1)"
  shows "s1 = s" "has_message s t = Inr False"
proof -
  obtain r s2 where c: "can_receive s t = (r, s2)" by fastforce
  then obtain u where r: "r = Inr u"
    using assms can_receive_result(1) [of s t] by (cases r) (auto simp: receive_def)
  have s2: "s2 = s" using can_receive_result(2) c r by simp
  show "s1 = s" "has_message s t = Inr False"
    using assms c r s2
    by (auto simp: receive_def pop_def front_def has_message_def Let_def split: option.splits prod.splits if_splits)
qed

lemma receive_empty_no_message:
  assumes "ipc_receive t buffer False K = (Inl QueueEmpty, message, K1)"
  shows "fst (block_syscall t frame deadline K1) \<noteq> Inr MessageReady"
proof -
  have r: "receive (k_ipc K) t buffer = (Inl QueueEmpty, message, k_ipc K1)"
    using assms by (auto simp: ipc_receive_def Let_def split: prod.splits sum.splits)
  then have h: "has_message (k_ipc K1) t = Inr False" using receive_empty [OF r] by simp
  obtain r s2 where c: "can_receive (k_ipc K1) t = (r, s2)" by fastforce
  show ?thesis
  proof (cases r)
    case (Inl e)
    then show ?thesis using c by (simp add: block_syscall_def with_ipc_def)
  next
    case (Inr u)
    then have "s2 = k_ipc K1" using c can_receive_result(2) [of "k_ipc K1" t u s2] by simp
    then have "has_message s2 t = Inr False" using h by simp
    then show ?thesis using c Inr
      by (auto simp: block_syscall_def with_ipc_def split: prod.splits sum.splits option.splits)
  qed
qed

lemma receive_attempt_Some: "fst (receive_attempt buffer timeout_ticks frame M) \<noteq> None"
proof -
  have w: "fst (wait_for_message t timeout_ticks frame (M\<lparr>m_kernel := K1\<rparr>)) \<noteq> None"
    if "ipc_receive t b False K = (Inl QueueEmpty, message, K1)" for t b K message K1 M
    using receive_empty_no_message [OF that, of frame "receive_deadline timeout_ticks (M\<lparr>m_kernel := K1\<rparr>)"]
    by (auto simp: wait_for_message_def split: prod.splits sum.splits SyscallBlockOutcome.splits)
  show ?thesis
    using w by (auto simp: receive_attempt_def Let_def split: prod.split sum.split ReceiveOutcome.split)
qed

function syscall_ipc_receive_common :: "u64 \<Rightarrow> u64 option \<Rightarrow> SyscallOutcome frame_step" where
  "syscall_ipc_receive_common buffer timeout_ticks frame M =
     (case receive_attempt buffer timeout_ticks frame M of
        (None, frame, M) \<Rightarrow> syscall_ipc_receive_common buffer timeout_ticks frame M
      | (Some outcome, frame, M) \<Rightarrow> (outcome, frame, M))"
  by pat_completeness auto
termination
proof (relation "{}", goal_cases)
  case (2 buffer timeout_ticks frame M)
  then show ?case using receive_attempt_Some [of buffer timeout_ticks frame M] by (metis fst_conv)
qed simp

declare syscall_ipc_receive_common.simps [simp del]

definition syscall_ipc_receive :: handler where
  "syscall_ipc_receive buffer frame M =
     (case syscall_ipc_receive_common buffer None frame M of (outcome, frame, M) \<Rightarrow> (Returns outcome, frame, M))"

definition syscall_ipc_receive_timeout :: handler where
  "syscall_ipc_receive_timeout buffer frame M =
     (case syscall_ipc_receive_common buffer (Some (sf_rdx frame)) frame M of
        (outcome, frame, M) \<Rightarrow> (Returns outcome, frame, M))"

section \<open>The table\<close>

datatype ReturnCode = Zero | Dynamic | Never

record SyscallEntry =
  se_number :: u64
  se_name :: string
  se_arg_count :: u8
  se_return_code :: ReturnCode
  se_logging :: bool
  se_handler :: handler

definition SYSCALLS :: "SyscallEntry list" where
  "SYSCALLS = [
     \<lparr>se_number = SYSCALL_LOG, se_name = ''log'', se_arg_count = 1, se_return_code = Zero,
      se_logging = True, se_handler = syscall_log\<rparr>,
     \<lparr>se_number = SYSCALL_UPTIME, se_name = ''uptime'', se_arg_count = 0, se_return_code = Dynamic,
      se_logging = True, se_handler = syscall_uptime\<rparr>,
     \<lparr>se_number = SYSCALL_EXIT, se_name = ''exit'', se_arg_count = 1, se_return_code = Never,
      se_logging = True, se_handler = syscall_exit\<rparr>,
     \<lparr>se_number = SYSCALL_YIELD, se_name = ''yield'', se_arg_count = 0, se_return_code = Zero,
      se_logging = True, se_handler = syscall_yield\<rparr>,
     \<lparr>se_number = SYSCALL_IPC_SEND, se_name = ''ipc_send'', se_arg_count = 3, se_return_code = Dynamic,
      se_logging = True, se_handler = syscall_ipc_send\<rparr>,
     \<lparr>se_number = SYSCALL_IPC_RECEIVE, se_name = ''ipc_receive'', se_arg_count = 2, se_return_code = Dynamic,
      se_logging = True, se_handler = syscall_ipc_receive\<rparr>,
     \<lparr>se_number = SYSCALL_GETPID, se_name = ''getpid'', se_arg_count = 0, se_return_code = Dynamic,
      se_logging = True, se_handler = syscall_getpid\<rparr>,
     \<lparr>se_number = SYSCALL_IPC_SELF, se_name = ''ipc_self'', se_arg_count = 0, se_return_code = Dynamic,
      se_logging = True, se_handler = syscall_ipc_self\<rparr>,
     \<lparr>se_number = SYSCALL_IPC_RECEIVE_TIMEOUT, se_name = ''ipc_receive_timeout'', se_arg_count = 3, se_return_code = Dynamic,
      se_logging = True, se_handler = syscall_ipc_receive_timeout\<rparr>,
     \<lparr>se_number = SYSCALL_IPC_CANCEL, se_name = ''ipc_cancel'', se_arg_count = 1, se_return_code = Dynamic,
      se_logging = True, se_handler = syscall_ipc_cancel\<rparr>,
     \<lparr>se_number = SYSCALL_IPC_SEND_CAPABILITY, se_name = ''ipc_send_capability'', se_arg_count = 5, se_return_code = Dynamic,
      se_logging = True, se_handler = syscall_ipc_send_capability\<rparr>,
     \<lparr>se_number = SYSCALL_IPC_REVOKE, se_name = ''ipc_revoke'', se_arg_count = 1, se_return_code = Dynamic,
      se_logging = True, se_handler = syscall_ipc_revoke\<rparr>]"

definition table_len :: nat where "table_len = length SYSCALLS"

definition table_entry :: "nat \<Rightarrow> SyscallEntry option" where
  "table_entry index = (if length SYSCALLS \<le> index then None else Some (SYSCALLS ! index))"

definition lookup :: "u64 \<Rightarrow> SyscallEntry option" where
  "lookup number = find (\<lambda>entry. se_number entry = number) SYSCALLS"

fun return_code_name :: "ReturnCode \<Rightarrow> string" where
  "return_code_name Zero = ''zero''"
| "return_code_name Dynamic = ''dynamic''"
| "return_code_name Never = ''never''"

definition table_numbers_unique :: bool where
  "table_numbers_unique \<longleftrightarrow> (\<forall>left \<in> set [0..<length SYSCALLS].
     \<forall>right \<in> set [left + 1..<length SYSCALLS]. se_number (SYSCALLS ! left) \<noteq> se_number (SYSCALLS ! right))"

definition syscall_selftest :: "SyscallState \<Rightarrow> bool" where
  "syscall_selftest s \<longleftrightarrow> sy_initialized s \<and> length SYSCALLS = 12
     \<and> list_all (\<lambda>number. lookup number \<noteq> None)
         [SYSCALL_LOG, SYSCALL_UPTIME, SYSCALL_EXIT, SYSCALL_YIELD, SYSCALL_IPC_SEND, SYSCALL_IPC_RECEIVE,
          SYSCALL_GETPID, SYSCALL_IPC_SELF, SYSCALL_IPC_RECEIVE_TIMEOUT, SYSCALL_IPC_CANCEL,
          SYSCALL_IPC_SEND_CAPABILITY, SYSCALL_IPC_REVOKE]
     \<and> table_numbers_unique
     \<and> se_arg_count (SYSCALLS ! 0) = 1 \<and> se_arg_count (SYSCALLS ! 1) = 0
     \<and> se_return_code (SYSCALLS ! 2) = Never \<and> se_return_code (SYSCALLS ! 3) = Zero
     \<and> se_arg_count (SYSCALLS ! 4) = 3 \<and> se_arg_count (SYSCALLS ! 5) = 2
     \<and> se_arg_count (SYSCALLS ! 6) = 0 \<and> se_arg_count (SYSCALLS ! 7) = 0
     \<and> se_arg_count (SYSCALLS ! 8) = 3 \<and> se_arg_count (SYSCALLS ! 9) = 1
     \<and> se_arg_count (SYSCALLS ! 10) = 5 \<and> se_arg_count (SYSCALLS ! 11) = 1"

definition syscall_init :: "SyscallState \<Rightarrow> SyscallState" where
  "syscall_init s = s\<lparr>sy_initialized := True\<rparr>"

record SyscallSnapshot =
  sn_initialized :: bool
  sn_entries :: u64
  sn_dispatches :: u64
  sn_unknown_syscalls :: u64
  sn_last_number :: u64
  sn_last_return :: u64

definition syscall_snapshot :: "SyscallState \<Rightarrow> SyscallSnapshot" where
  "syscall_snapshot s = \<lparr>sn_initialized = sy_initialized s, sn_entries = of_nat (length SYSCALLS),
     sn_dispatches = sy_dispatches s, sn_unknown_syscalls = sy_unknown_syscalls s,
     sn_last_number = sy_last_number s, sn_last_return = sy_last_return s\<rparr>"

section \<open>Dispatch\<close>

text \<open>The value returned is the address space root to switch to, 0 to go on in the caller's.\<close>

definition count_syscall :: "u64 \<Rightarrow> Machine \<Rightarrow> Machine" where
  "count_syscall number M =
     update_syscall (\<lambda>s. s\<lparr>sy_dispatches := sy_dispatches s + 1, sy_last_number := number\<rparr>)
       (update_stats inc_syscall (update_user record_syscall M))"

definition set_last_return :: "u64 \<Rightarrow> Machine \<Rightarrow> Machine" where
  "set_last_return v = update_syscall (\<lambda>s. s\<lparr>sy_last_return := v\<rparr>)"

definition dispatch :: "u64 \<Rightarrow> u64 \<Rightarrow> u64 control frame_step" where
  "dispatch number arg0 frame M =
     (let M = count_syscall number M
      in case lookup number of
           None \<Rightarrow>
             (Returns 0, frame\<lparr>sf_rax := RET_UNKNOWN_SYSCALL\<rparr>,
              set_last_return RET_UNKNOWN_SYSCALL
                (update_syscall (\<lambda>s. s\<lparr>sy_unknown_syscalls := sy_unknown_syscalls s + 1\<rparr>) M))
         | Some entry \<Rightarrow>
             let M = (if se_return_code entry = Never then set_last_return RET_OK M else M)
             in case se_handler entry arg0 frame M of
                  (ExitToKernel code, frame, M) \<Rightarrow> (ExitToKernel code, frame, M)
                | (Returns outcome, frame, M) \<Rightarrow>
                    let M = set_last_return (so_return_value outcome) M
                    in if so_switch_root outcome \<noteq> 0 then (Returns (so_switch_root outcome), frame, M)
                       else (Returns 0,
                             if se_return_code entry \<noteq> Never
                             then frame\<lparr>sf_rax := so_return_value outcome\<rparr> else frame, M))"

definition syscall_dispatch_handler :: "u64 \<Rightarrow> u64 \<Rightarrow> u64 control frame_step" where
  "syscall_dispatch_handler = dispatch"

end
