(* ===== verification/Interrupts.thy ===== *)
theory Interrupts
  imports Syscall
begin

unbundle bit_operations_syntax

text \<open>
  The interrupt and exception handlers, \<^verbatim>\<open>src/src/interrupts.rs\<close>. A handler returns the new machine
  together with the bytes it writes to ports, in order; the scancode that the keyboard controller
  delivers and the fault address in \<open>cr2\<close> are arguments. Messages to the serial port are left out.
\<close>

section \<open>Ports\<close>

type_synonym port_writes = "(u16 \<times> u8) list"

definition PIC_1_COMMAND :: u16 where "PIC_1_COMMAND = 0x20"
definition PIC_1_DATA :: u16 where "PIC_1_DATA = 0x21"
definition PIC_2_COMMAND :: u16 where "PIC_2_COMMAND = 0xa0"
definition PIC_2_DATA :: u16 where "PIC_2_DATA = 0xa1"
definition PIC_EOI :: u8 where "PIC_EOI = 0x20"
definition PIT_COMMAND_PORT :: u16 where "PIT_COMMAND_PORT = 0x43"
definition PIT_CHANNEL_0_PORT :: u16 where "PIT_CHANNEL_0_PORT = 0x40"
definition PIT_MODE_3_BINARY :: u8 where "PIT_MODE_3_BINARY = 0x36"
definition PIT_DIVISOR_18HZ :: u16 where "PIT_DIVISOR_18HZ = 65535"

lemmas port_consts = PIC_1_COMMAND_def PIC_1_DATA_def PIC_2_COMMAND_def PIC_2_DATA_def PIC_EOI_def
  PIT_COMMAND_PORT_def PIT_CHANNEL_0_PORT_def PIT_MODE_3_BINARY_def PIT_DIVISOR_18HZ_def

definition io_wait :: port_writes where "io_wait = [(0x80, 0)]"

definition remap_pic :: port_writes where
  "remap_pic =
     [(PIC_1_COMMAND, 0x11)] @ io_wait @ [(PIC_2_COMMAND, 0x11)] @ io_wait
     @ [(PIC_1_DATA, PIC_1_OFFSET)] @ io_wait @ [(PIC_2_DATA, PIC_2_OFFSET)] @ io_wait
     @ [(PIC_1_DATA, 4)] @ io_wait @ [(PIC_2_DATA, 2)] @ io_wait
     @ [(PIC_1_DATA, 0x01)] @ io_wait @ [(PIC_2_DATA, 0x01)] @ io_wait
     @ [(PIC_1_DATA, 0b11111100), (PIC_2_DATA, 0xff)]"

definition init_pit :: port_writes where
  "init_pit = [(PIT_COMMAND_PORT, PIT_MODE_3_BINARY), (PIT_CHANNEL_0_PORT, ucast (PIT_DIVISOR_18HZ AND 0x00ff)),
     (PIT_CHANNEL_0_PORT, ucast (drop_bit 8 PIT_DIVISOR_18HZ))]"

definition send_eoi :: "u8 \<Rightarrow> port_writes" where
  "send_eoi irq = (if 8 \<le> irq then [(PIC_2_COMMAND, PIC_EOI)] else []) @ [(PIC_1_COMMAND, PIC_EOI)]"

definition interrupts_init :: "(Stub \<Rightarrow> u64) \<Rightarrow> Machine \<Rightarrow> port_writes \<times> Machine" where
  "interrupts_init stub M = (remap_pic @ init_pit, M\<lparr>m_idt := init_idt stub (m_idt M), m_gate_ready := True\<rparr>)"

section \<open>Hardware interrupts\<close>

definition update_screen :: "(vga \<Rightarrow> vga) \<Rightarrow> Machine \<Rightarrow> Machine" where
  "update_screen f M =
     (let (screen, counters) = f (m_screen M, m_stats M) in M\<lparr>m_screen := screen, m_stats := counters\<rparr>)"

text \<open>The kernel's part of a tick: the clock, the scheduler's tick and the deadlines of blocked receives.\<close>

definition kernel_tick :: "Kernel \<Rightarrow> Kernel" where
  "kernel_tick K =
     (let now = sat_add (k_ticks K) 1;
          K = K\<lparr>k_ticks := k_ticks K + 1, k_sched := timer_interrupt (k_sched K)\<rparr>
      in expire_ipc_deadlines now K)"

definition timer_interrupt_handler ::
  "TimerContext option \<Rightarrow> Machine \<Rightarrow> u64 control \<times> TimerContext option \<times> port_writes \<times> Machine" where
  "timer_interrupt_handler context M =
     (let M = update_stats inc_timer_irq M;
          M = update_kernel kernel_tick M;
          M = update_screen toggle_cursor M;
          (action, context, K) =
            (case context of
               None \<Rightarrow> (TimerContinue, None, m_kernel M)
             | Some saved \<Rightarrow>
                 if \<not> from_user saved then (TimerContinue, Some saved, m_kernel M)
                 else let (action, saved, K) = on_timer_interrupt saved (m_kernel M) in (action, Some saved, K));
          M = M\<lparr>m_kernel := K\<rparr>
      in (case action of TimerContinue \<Rightarrow> Returns 0 | TimerSwitch root \<Rightarrow> Returns root
                       | TimerStop exit_code \<Rightarrow> ExitToKernel exit_code,
          context, send_eoi TIMER_IRQ, M))"

definition keyboard_interrupt_handler :: "u8 \<Rightarrow> Machine \<Rightarrow> port_writes \<times> Machine" where
  "keyboard_interrupt_handler scancode M =
     (let M = update_stats inc_keyboard_irq M;
          M = M\<lparr>m_keyboard := handle_scancode scancode (m_keyboard M)\<rparr>
      in (send_eoi KEYBOARD_IRQ, M))"

definition default_irq_handler :: "Machine \<Rightarrow> port_writes \<times> Machine" where
  "default_irq_handler M = (send_eoi TIMER_IRQ, update_stats inc_default_irq M)"

section \<open>Exceptions\<close>

record ExceptionContext =
  xc_vector :: u64
  xc_error_code :: u64
  xc_instruction_pointer :: u64
  xc_code_segment :: u64
  xc_cpu_flags :: u64

definition exception_from_user :: "u64 \<Rightarrow> bool" where
  "exception_from_user code_segment \<longleftrightarrow> code_segment AND 0x3 = 0x3"

definition exception_names :: "(nat \<times> string) list" where
  "exception_names = [(0, ''Divide Error''), (1, ''Debug Exception''), (2, ''Non-Maskable Interrupt''),
     (3, ''Breakpoint''), (4, ''Overflow''), (5, ''BOUND Range Exceeded''), (6, ''Invalid Opcode''),
     (7, ''Device Not Available''), (8, ''Double Fault''), (10, ''Invalid TSS''), (11, ''Segment Not Present''),
     (12, ''Stack Segment Fault''), (13, ''General Protection Fault''), (14, ''Page Fault''),
     (16, ''x87 Floating-Point Exception''), (17, ''Alignment Check''), (18, ''Machine Check''),
     (19, ''SIMD Floating-Point Exception''), (20, ''Virtualization Exception''),
     (21, ''Control Protection Exception''), (28, ''Hypervisor Injection Exception''),
     (29, ''VMM Communication Exception''), (30, ''Security Exception''),
     (254, ''CPU Exception With Error Code''), (255, ''Unknown CPU Interrupt'')]"

definition exception_name :: "u64 \<Rightarrow> string" where
  "exception_name vector =
     (case map_of exception_names (unat vector) of Some name \<Rightarrow> name | None \<Rightarrow> ''CPU Exception'')"

definition handle_user_exception :: "ExceptionContext \<Rightarrow> u64 \<Rightarrow> Machine \<Rightarrow> u64 \<times> Machine" where
  "handle_user_exception context fault_address M =
     (let exit_code = fault_exit_code (xc_vector context)
      in (exit_code, update_user (record_fault (xc_vector context) fault_address exit_code) M))"

text \<open>An exception of the kernel itself does not return: the machine halts with the panic screen.\<close>

datatype exception_outcome = LeaveUser u64 | Halted

definition exception_dispatch_handler ::
  "u64 \<Rightarrow> ExceptionContext \<Rightarrow> Machine \<Rightarrow> exception_outcome \<times> Machine" where
  "exception_dispatch_handler cr2 context M =
     (let M = update_stats inc_exception M;
          fault_address = (if xc_vector context = 14 then cr2 else 0);
          name = ascii (exception_name (xc_vector context))
      in if exception_from_user (xc_code_segment context)
         then let (exit_code, M) = handle_user_exception context fault_address M in (LeaveUser exit_code, M)
         else
           let M = M\<lparr>m_panic := record_exception name (k_ticks (m_kernel M)) (xc_vector context)
                       (xc_error_code context) (xc_instruction_pointer context) fault_address
                       (xc_cpu_flags context)\<rparr>
           in (Halted, update_screen (show_exception_screen name (xc_vector context) (xc_error_code context)
                 (xc_instruction_pointer context) fault_address (xc_cpu_flags context)) M))"

end
