(* ===== verification/Interrupt_Properties.thy ===== *)
theory Interrupt_Properties
  imports Interrupts
begin

unbundle bit_operations_syntax

text \<open>
  What the interrupt table does: every vector enters its own stub, only the system call gate is open to user
  code, and an exception of user code leaves the kernel as it was.
\<close>

section \<open>Gates\<close>

text \<open>The address that a gate was given, put together again.\<close>

definition gate_target :: "IdtEntry \<Rightarrow> u64" where
  "gate_target e = ucast (ie_offset_low e) OR push_bit 16 (ucast (ie_offset_mid e)) OR push_bit 32 (ucast (ie_offset_high e))"

lemma gate_target_set [simp]: "gate_target (set_handler_with_options address options e) = address"
proof (rule bit_word_eqI)
  fix n assume "n < LENGTH(64)"
  then show "bit (gate_target (set_handler_with_options address options e)) n = bit address n"
    by (cases "n < 16"; cases "n < 32") (auto simp: gate_target_def set_handler_with_options_def bit_simps)
qed

definition stub_of :: "nat \<Rightarrow> Stub" where
  "stub_of v = (if v = 0x80 then SyscallStub else if v = 32 then TimerStub else if v = 33 then KeyboardStub
     else if 34 \<le> v \<and> v < 48 then DefaultIrqStub else if v \<in> set exception_vectors then ExceptionStub v else DefaultStub)"

lemma install_gate_nth:
  "k < length idt \<Longrightarrow> install_gate f v idt ! k = (if k = v then f (idt ! k) else idt ! k)"
  "length (install_gate f v idt) = length idt"
  by (simp_all add: install_gate_def nth_list_update)

lemma length_fold_install: "length (fold (\<lambda>v. install_gate (f v) v) vs idt) = length idt"
  by (induction vs arbitrary: idt) (simp_all add: install_gate_nth)

lemma fold_install_nth:
  assumes "k < length idt" "\<And>v e e'. f v e = f v e'"
  shows "fold (\<lambda>v. install_gate (f v) v) vs idt ! k = (if k \<in> set vs then f k undefined else idt ! k)"
  using assms(1)
proof (induction vs arbitrary: idt)
  case (Cons v vs)
  then show ?case using assms(2) [of v "idt ! v" undefined] by (auto simp: install_gate_nth)
qed simp

lemma handlers_constant:
  "set_handler a e = set_handler_with_options a INTERRUPT_GATE e'"
  "set_handler_with_ist a n e = set_handler_with_options a (INTERRUPT_GATE OR (n AND 7)) e'"
  "set_user_handler a e = set_handler_with_options a INTERRUPT_GATE_DPL3 e'"
  by (simp_all add: set_handler_def set_handler_with_ist_def set_user_handler_def set_handler_with_options_def)

lemma init_idt_nth:
  assumes "length idt = IDT_ENTRIES" "v < IDT_ENTRIES"
  shows "init_idt stub idt ! v = set_handler_with_options (stub (stub_of v))
    (if v = 0x80 then INTERRUPT_GATE_DPL3 else if v = 8 then INTERRUPT_GATE OR 1 else INTERRUPT_GATE) undefined"
proof -
  let ?f1 = "\<lambda>_ :: nat. set_handler (stub DefaultStub)" and ?f3 = "\<lambda>_ :: nat. set_handler (stub DefaultIrqStub)"
  let ?f2 = "\<lambda>v. if v = 8 then set_handler_with_ist (stub (ExceptionStub 8)) DOUBLE_FAULT_IST_INDEX
                 else set_handler (stub (ExceptionStub v))"
  have f: "?f1 n e = ?f1 n e'" "?f2 n e = ?f2 n e'" "?f3 n e = ?f3 n e'" for n e e'
    by (simp_all add: handlers_constant [where e' = undefined])
  define i1 where "i1 = fold (\<lambda>v. install_gate (?f1 v) v) [0..<IDT_ENTRIES] idt"
  define i2 where "i2 = fold (\<lambda>v. install_gate (?f2 v) v) exception_vectors i1"
  define i3 where "i3 = fold (\<lambda>v. install_gate (?f3 v) v) [32..<48] i2"
  have c: "unat PIC_1_OFFSET = 32" "unat PIC_2_OFFSET + 8 = 48" "TIMER_VECTOR = 32" "KEYBOARD_VECTOR = 33" "SYSCALL_VECTOR = 0x80"
    by (simp_all add: idt_consts)
  have ex: "8 \<in> set exception_vectors" "w \<in> set exception_vectors \<Longrightarrow> w < 31" for w
    by (auto simp: exception_vectors_def)
  have v: "v < length idt" "v < length i1" "v < length i2" "v < length i3"
    using assms unfolding i3_def i2_def i1_def length_fold_install by (rule ssubst)+
  note n1 = fold_install_nth [where f = ?f1, OF v(1) f(1), of "[0..<IDT_ENTRIES]", folded i1_def, unfolded set_upt atLeastLessThan_iff]
    and n2 = fold_install_nth [where f = ?f2, OF v(2) f(2), of exception_vectors, folded i2_def]
    and n3 = fold_install_nth [where f = ?f3, OF v(3) f(3), of "[32..<48]", folded i3_def, unfolded set_upt atLeastLessThan_iff]
  have "init_idt stub idt = install_gate (set_user_handler (stub SyscallStub)) 0x80
      (install_gate (set_handler (stub KeyboardStub)) 33 (install_gate (set_handler (stub TimerStub)) 32 i3))"
    unfolding init_idt_def c Let_def i3_def i2_def i1_def by (rule refl)
  then have "init_idt stub idt ! v = (if v = 0x80 then set_user_handler (stub SyscallStub) undefined
      else if v = 33 then set_handler (stub KeyboardStub) undefined else if v = 32 then set_handler (stub TimerStub) undefined
      else if 32 \<le> v \<and> v < 48 then ?f3 v undefined else if v \<in> set exception_vectors then ?f2 v undefined else ?f1 v undefined)"
    using v assms(2) by (simp add: install_gate_nth n1 n2 n3 handlers_constant [where e' = undefined])
  then show ?thesis
    using ex(1) ex(2) [of v] by (auto simp: handlers_constant [where e' = undefined] stub_of_def DOUBLE_FAULT_IST_INDEX_def)
qed

section \<open>Properties\<close>

text \<open>
  C38. After initialisation each of the 256 gates is present, enters the kernel's code segment at
  the stub that the vector belongs to, and may be used by user code exactly for vector
  \<open>0x80\<close>. The double fault runs on its own stack. The table passes the checks of
  \<open>abi_snapshot\<close>.
\<close>

theorem gates_installed:
  assumes "length idt = IDT_ENTRIES" and "v < IDT_ENTRIES"
  shows "(let gate = init_idt stub idt ! v in gate_present (ie_options gate) \<and> gate_target gate = stub (stub_of v)
      \<and> ie_selector gate = KERNEL_CODE_SELECTOR
      \<and> gate_dpl (ie_options gate) = (if v = 0x80 then 3 else 0) \<and> gate_ist (ie_options gate) = (if v = 8 then 1 else 0))
    \<and> (let abi = abi_snapshot (init_idt stub idt) in abi_timer_gate_present abi \<and> abi_keyboard_gate_present abi
      \<and> abi_syscall_gate_present abi \<and> abi_syscall_gate_dpl3 abi \<and> abi_double_fault_ist abi)"
proof (rule conjI)
  have op: "ie_options (set_handler_with_options a options e) = options" "ie_selector (set_handler_with_options a options e) = KERNEL_CODE_SELECTOR"
    for a options e by (simp_all add: set_handler_with_options_def)
  have g: "gate_present INTERRUPT_GATE" "gate_present INTERRUPT_GATE_DPL3" "gate_present (INTERRUPT_GATE OR 1)"
    "gate_dpl INTERRUPT_GATE = 0" "gate_dpl INTERRUPT_GATE_DPL3 = 3" "gate_dpl (INTERRUPT_GATE OR 1) = 0"
    "gate_ist INTERRUPT_GATE = 0" "gate_ist INTERRUPT_GATE_DPL3 = 0" "gate_ist (INTERRUPT_GATE OR 1) = 1" by code_simp+
  show "let gate = init_idt stub idt ! v in gate_present (ie_options gate) \<and> gate_target gate = stub (stub_of v)
      \<and> ie_selector gate = KERNEL_CODE_SELECTOR
      \<and> gate_dpl (ie_options gate) = (if v = 0x80 then 3 else 0) \<and> gate_ist (ie_options gate) = (if v = 8 then 1 else 0)"
    unfolding init_idt_nth [OF assms] Let_def op using g by simp
  have c: "TIMER_VECTOR < IDT_ENTRIES" "KEYBOARD_VECTOR < IDT_ENTRIES" "SYSCALL_VECTOR < IDT_ENTRIES" "8 < IDT_ENTRIES"
    "TIMER_VECTOR = 32" "KEYBOARD_VECTOR = 33" "SYSCALL_VECTOR = 0x80" by (simp_all add: idt_consts)
  show "let abi = abi_snapshot (init_idt stub idt) in abi_timer_gate_present abi \<and> abi_keyboard_gate_present abi
      \<and> abi_syscall_gate_present abi \<and> abi_syscall_gate_dpl3 abi \<and> abi_double_fault_ist abi"
    unfolding abi_snapshot_def Let_def c(1-4) [THEN init_idt_nth [OF assms(1)]] op
    using g c(5-7) by (simp add: DOUBLE_FAULT_IST_INDEX_def)
qed

theorem gates_installed_witness:
  "let gate = init_idt (\<lambda>_. 0x123456789abc) (replicate IDT_ENTRIES IdtEntry_missing) ! 0x80
   in gate_target gate = 0x123456789abc \<and> gate_dpl (ie_options gate) = 3"
  using gates_installed [of "replicate IDT_ENTRIES IdtEntry_missing" "0x80" "\<lambda>_. 0x123456789abc"]
  by (simp add: IDT_ENTRIES_def Let_def)

section \<open>Exceptions\<close>

lemma exception_machine [simp]:
  "m_kernel (update_stats f M) = m_kernel M" "m_kernel (update_user g M) = m_kernel M"
  "m_screen (update_stats f M) = m_screen M" "m_screen (update_user g M) = m_screen M"
  "m_panic (update_stats f M) = m_panic M" "m_panic (update_user g M) = m_panic M"
  "m_keyboard (update_stats f M) = m_keyboard M" "m_keyboard (update_user g M) = m_keyboard M"
  "m_user (update_stats f M) = m_user M" "m_user (update_user g M) = g (m_user M)"
  "m_panic (update_screen h M) = m_panic M" "m_kernel (update_screen h M) = m_kernel M"
  by (simp_all add: update_stats_def update_user_def update_screen_def case_prod_beta)

lemma copy_ascii_prefix:
  assumes "n \<le> length destination"
  shows "case copy_ascii source n destination of (m, d) \<Rightarrow> m = min (n + length source) (length destination) \<and> length d = length destination
    \<and> take m d = take n destination @ map (\<lambda>b. if 0x20 \<le> b \<and> b \<le> 0x7e then b else 0x3f) (take (length destination - n) source)"
  using assms
proof (induction source n destination rule: copy_ascii.induct)
  case (2 byte source len destination)
  show ?case
  proof (cases "length destination \<le> len")
    case False
    let ?b = "if 0x20 \<le> byte \<and> byte \<le> 0x7e then byte else 0x3f :: u8"
    have d: "length destination - len = Suc (length destination - Suc len)" using False by simp
    have "take (Suc len) (destination[len := ?b]) = take len destination @ [?b]"
      using False by (simp add: take_Suc_conv_app_nth)
    then show ?thesis using 2 False by (auto simp: d)
  qed (use 2 in simp)
qed simp

text \<open>
  The exception handler. For an exception of user code, whatever its vector, it leaves user mode with
  the code \<open>0x1000\<close> plus the vector and counts the fault with its vector and address; it changes nothing
  else, so that what becomes of the task is decided by the kernel function that had entered user mode. An
  exception of the kernel stops the machine, and the panic record then names the exception, with its
  vector, error code and instruction pointer.
\<close>

lemma exceptions_contained:
  assumes e: "exception_dispatch_handler cr2 fault M = (r, M')"
  shows "if exception_from_user (xc_code_segment fault)
    then r = LeaveUser (fault_exit_code (xc_vector fault)) \<and> m_kernel M' = m_kernel M \<and> m_screen M' = m_screen M
      \<and> m_keyboard M' = m_keyboard M \<and> m_panic M' = m_panic M
      \<and> us_faults (m_user M') = us_faults (m_user M) + 1 \<and> us_last_fault_vector (m_user M') = xc_vector fault
      \<and> us_last_fault_address (m_user M') = (if xc_vector fault = 14 then cr2 else 0)
    else r = Halted \<and> pn_present (m_panic M') \<and> pn_vector (m_panic M') = xc_vector fault
      \<and> pn_error_code (m_panic M') = xc_error_code fault \<and> pn_instruction_pointer (m_panic M') = xc_instruction_pointer fault
      \<and> panic_kind (m_panic M') = ascii (exception_name (xc_vector fault))"
proof (cases "exception_from_user (xc_code_segment fault)")
  case True
  then show ?thesis using e
    by (auto simp: exception_dispatch_handler_def handle_user_exception_def Let_def record_fault_def)
next
  case False
  let ?n = "exception_name (xc_vector fault)"
  have names: "list_all (\<lambda>n. length n \<le> 32 \<and> list_all (\<lambda>b. 0x20 \<le> b \<and> b \<le> 0x7e) (ascii n)) (''CPU Exception'' # map snd exception_names)"
    by code_simp
  have "?n \<in> set (''CPU Exception'' # map snd exception_names)"
    by (auto simp: exception_name_def split: option.split dest!: map_of_SomeD intro: rev_image_eqI)
  then have n: "length ?n \<le> 32" "\<forall>b \<in> set (ascii ?n). 0x20 \<le> b \<and> b \<le> 0x7e" using names by (auto simp: list_all_iff)
  obtain m d where c: "copy_ascii (ascii ?n) 0 (replicate 32 0) = (m, d)" by fastforce
  have md: "m = length ?n" "take m d = ascii ?n"
    using copy_ascii_prefix [of 0 "replicate 32 0" "ascii ?n"] c n by (auto simp: ascii_def intro: map_idI)
  have "m_panic M' = record_exception (ascii ?n) (k_ticks (m_kernel M)) (xc_vector fault) (xc_error_code fault)
      (xc_instruction_pointer fault) (if xc_vector fault = 14 then cr2 else 0) (xc_cpu_flags fault)" "r = Halted"
    using e False by (auto simp: exception_dispatch_handler_def Let_def)
  then show ?thesis using False c md n(1)
    by (simp add: record_exception_def panic_record_def PanicRecord_empty_def KIND_CAPACITY_def panic_kind_def
        Let_def case_prod_beta unat_of_nat)
qed

end
