(* ===== verification/User_Access.thy ===== *)
theory User_Access
  imports User_Memory Elf_Properties
begin

unbundle bit_operations_syntax

text \<open>
  What a system call may read and write: a buffer passes the check exactly when every byte of it
  is accessible to the process, and the copies move exactly those bytes, through frames of the
  process's own pages. Translation ignores the bits of an address above the fourth table index,
  so the facts are stated for the canonical part of an address.
\<close>

section \<open>Canonical addresses\<close>

definition canon :: "u64 \<Rightarrow> u64" where "canon v = take_bit 48 v"

lemma canon_nat: "unat (canon v) = unat v mod 2 ^ 48"
proof -
  have "unat (take_bit 48 v) = take_bit 48 (unat v)" by (simp only: unsigned_take_bit_eq)
  then show ?thesis by (simp only: canon_def take_bit_eq_mod)
qed

lemma mod_div_mod: "(n mod 2 ^ (k + (9 + j))) div 2 ^ k mod 512 = n div 2 ^ k mod (512 :: nat)"
proof -
  have "(n mod 2 ^ (k + (9 + j))) div 2 ^ k = n div 2 ^ k mod 2 ^ (9 + j)"
    unfolding power_add [of 2 k] by (simp add: mod_mult2_eq)
  then show ?thesis by (simp add: power_add mod_mod_cancel)
qed

lemma canon_index:
  "p4_index (canon v) = p4_index v" "p3_index (canon v) = p3_index v"
  "p2_index (canon v) = p2_index v" "p1_index (canon v) = p1_index v"
  using mod_div_mod [of "unat v" 39 0] mod_div_mod [of "unat v" 30 9] mod_div_mod [of "unat v" 21 18]
    mod_div_mod [of "unat v" 12 27]
  unfolding index_nat canon_nat by simp_all

lemma canon_low:
  assumes "m = take_bit 48 m"
  shows "canon v AND m = v AND m"
proof (rule bit_word_eqI)
  fix n
  have "bit m n \<longrightarrow> n < 48" by (metis assms bit_take_bit_iff)
  then show "bit (canon v AND m) n = bit (v AND m) n" by (auto simp: canon_def bit_and_iff bit_take_bit_iff)
qed

lemma canon_translate:
  "space_translate vm s v = (space_translate vm s (canon v))\<lparr>tr_virt := v\<rparr>"
proof -
  have l: "canon v AND (HUGE_PAGE_SIZE - 1) = v AND (HUGE_PAGE_SIZE - 1)"
    "canon v AND (PAGE_SIZE_4K - 1) = v AND (PAGE_SIZE_4K - 1)"
    by (rule canon_low, code_simp)+
  show ?thesis
    by (simp add: space_translate_def translate_from_root_def canon_index l unmapped_def Let_def
        option.case_distrib [of "tr_virt_update (\<lambda>_. v)"] if_distrib [of "tr_virt_update (\<lambda>_. v)"]
        cong: option.case_cong if_cong)
qed

lemma canon_page: "page_of (canon v) = canon (page_of v)"
proof -
  have "take_bit 48 w AND m = take_bit 48 (w AND m)" for w m :: u64
    by (rule bit_word_eqI) (auto simp: bit_and_iff bit_take_bit_iff)
  then show ?thesis unfolding page_of_def canon_def .
qed


section \<open>Accessible bytes\<close>

definition accessible :: "Vm \<Rightarrow> AddressSpace \<Rightarrow> bool \<Rightarrow> u64 \<Rightarrow> bool" where
  "accessible vm s writable v \<longleftrightarrow> (let tr = space_translate vm s v in
     tr_mapped tr \<and> tr_user_accessible tr \<and> (writable \<longrightarrow> tr_writable tr))"

lemma accessible_canon: "accessible vm s w (canon v) = accessible vm s w v"
  using canon_translate [of vm s v] by (simp add: accessible_def Let_def)

lemma accessibleE:
  assumes "space_inv vm s" "accessible vm s w v"
  obtains f p where "in_user_virtual_range (canon v)" "map_of (pages s) (page_of (canon v)) = Some (f, p)"
    "w \<longrightarrow> up_writable p" "tr_phys (space_translate vm s v) = phys_of s (canon v)"
proof -
  let ?c = "canon v"
  have u: "tr_user_accessible (space_translate vm s ?c)" "w \<longrightarrow> tr_writable (space_translate vm s ?c)"
    using assms(2) unfolding accessible_canon [symmetric, of vm s w v] by (simp_all add: accessible_def Let_def)
  from assms(1) obtain lo us ls where a: "as_active s"
    and l: "layout (vm_phys vm) (root_frame s) lo us ls (pages s)" by (rule space_invE)
  have fl: "frames_layout (root_frame s) lo us ls (pages s)" using l by (simp add: layout_def)
  have t: "space_translate vm s ?c = translate_from_root (vm_phys vm) (root_frame s) ?c"
    using a frames_layoutD(4) [OF fl] by (simp add: space_translate_def)
  obtain x f p where x: "(x, f, p) \<in> set (pages s)" "p2_index x = p2_index ?c" "p1_index x = p1_index ?c"
    using user_accessible_page [OF l u(1) [unfolded t]] by blast
  have rx: "in_user_virtual_range x" using frames_layoutD(9) [OF fl x(1)] by blast
  have r: "in_user_virtual_range ?c"
  proof (rule user_range_index)
    show "unat ?c < 2 ^ 48" by (simp add: canon_nat)
    show "p4_index ?c = 0" "p3_index ?c = 1" using user_accessible_index [OF l u(1) [unfolded t]] by simp_all
    show "p2_index ?c < 8" using user_p2_less [OF rx] x(2) by simp
  qed
  have "map_of (pages s) (page_of ?c) \<noteq> None"
    using space_translate_inv [OF assms(1) r] u(1) by (auto simp: unmapped_def split: option.splits)
  then obtain g q where m: "map_of (pages s) (page_of ?c) = Some (g, q)" by auto
  have "space_translate vm s ?c = user_page ?c g q" "tr_phys (user_page ?c g q) = phys_of s ?c"
    using phys_of_page(4) [OF assms(1) m r] by simp_all
  then show thesis using that [OF r m] u(2) canon_translate [of vm s v] by (simp add: user_page_def)
qed


lemma accessible_iff:
  assumes "space_inv vm s"
  shows "accessible vm s w v \<longleftrightarrow> in_user_virtual_range (canon v)
    \<and> (\<exists>f p. map_of (pages s) (page_of (canon v)) = Some (f, p) \<and> (w \<longrightarrow> up_writable p))"
proof
  show "accessible vm s w v \<Longrightarrow> in_user_virtual_range (canon v)
    \<and> (\<exists>f p. map_of (pages s) (page_of (canon v)) = Some (f, p) \<and> (w \<longrightarrow> up_writable p))"
    by (erule accessibleE [OF assms]) blast
next
  assume "in_user_virtual_range (canon v)
    \<and> (\<exists>f p. map_of (pages s) (page_of (canon v)) = Some (f, p) \<and> (w \<longrightarrow> up_writable p))"
  then obtain f p where m: "in_user_virtual_range (canon v)" "map_of (pages s) (page_of (canon v)) = Some (f, p)"
    "w \<longrightarrow> up_writable p" by blast
  have "accessible vm s w (canon v)"
    using phys_of_page(4) [OF assms m(2,1)] m(3) by (simp add: accessible_def user_page_def)
  then show "accessible vm s w v" by (simp add: accessible_canon)
qed

lemma accessible_same_page:
  assumes "space_inv vm s" "page_of v = page_of v'"
  shows "accessible vm s w v = accessible vm s w v'"
proof -
  have e: "page_of (canon v) = page_of (canon v')" using assms(2) by (simp add: canon_page)
  show ?thesis unfolding accessible_iff [OF assms(1)] e user_range_same_page [OF e] ..
qed

section \<open>The check\<close>

lemma check_pages_spec:
  assumes "unat final_page = unat page + 4096 * n"
  shows "fst (check_pages (space_translate vm s) w final_page page c)
    \<longleftrightarrow> (\<forall>j \<le> n. accessible vm s w (page + of_nat j * 4096))"
  using assms
proof (induction n arbitrary: page c)
  case 0
  then have "page = final_page" by (simp add: word_unat_eq_iff)
  then show ?case by (subst check_pages.simps) (auto simp: accessible_def Let_def)
next
  case (Suc n)
  have ne: "page \<noteq> final_page" using Suc.prems by auto
  have "unat final_page < 2 ^ 64" using unsigned_less [where ?'a = nat, of final_page] by simp
  then have lt: "unat page + 4096 < 2 ^ 64" using Suc.prems by simp
  then have nx: "checked_add page PAGE_SIZE_4K = Some (page + 4096)" "unat (page + 4096) = unat page + 4096"
    by (simp_all add: checked_add_def PAGE_SIZE_4K_def unat_word_ariths)
  have IH: "fst (check_pages (space_translate vm s) w final_page (page + 4096) c')
    \<longleftrightarrow> (\<forall>j \<le> n. accessible vm s w (page + 4096 + of_nat j * 4096))" for c'
    by (rule Suc.IH) (use Suc.prems nx(2) in simp)
  have "(\<forall>j \<le> Suc n. accessible vm s w (page + of_nat j * 4096))
    \<longleftrightarrow> accessible vm s w page \<and> (\<forall>j \<le> n. accessible vm s w (page + 4096 + of_nat j * 4096))"
    by (auto simp: All_less_Suc2 [of "Suc n", simplified less_Suc_eq_le] algebra_simps)
  then show ?case using IH ne nx(1)
    by (subst check_pages.simps) (auto simp: accessible_def Let_def)
qed

text \<open>The bytes of a buffer lie in its pages, and each page holds one of them.\<close>

lemma buffer_pages:
  assumes "0 < len" "unat address + len \<le> 2 ^ 64" "space_inv vm s"
  defines "n \<equiv> (unat address + len - 1) div 4096 - unat address div 4096"
  shows "unat (page_of (address + of_nat (len - 1))) = unat (page_of address) + 4096 * n"
    "(\<forall>j \<le> n. accessible vm s w (page_of address + of_nat j * 4096)) \<longleftrightarrow> (\<forall>k < len. accessible vm s w (address + of_nat k))"
proof -
  let ?a = "unat address"
  have ua: "unat (address + of_nat k) = ?a + k" if "k < len" for k
    using that assms(2) by (simp add: unat_word_ariths unat_of_nat)
  have pg: "unat (page_of v) = 4096 * (unat v div 4096)" for v :: u64
    by (simp add: page_of_nat minus_mod_eq_mult_div)
  have le: "?a div 4096 \<le> (?a + len - 1) div 4096" using assms(1) by (simp add: div_le_mono)
  show "unat (page_of (address + of_nat (len - 1))) = unat (page_of address) + 4096 * n"
    using assms(1) ua [of "len - 1"] le unfolding pg n_def by (simp add: diff_mult_distrib2)
  have pj: "page_of (address + of_nat k) = page_of address + of_nat j * 4096"
    if k: "k < len" and j: "(?a + k) div 4096 = ?a div 4096 + j" for j k
  proof -
    have "4096 * (?a div 4096 + j) \<le> ?a + k" using div_times_less_eq_dividend [of "?a + k" 4096] unfolding j by (simp add: mult.commute)
    then have lt: "4096 * (?a div 4096) + 4096 * j < 2 ^ 64" using k assms(2) by simp
    then have "unat (of_nat j * 4096 :: u64) = 4096 * j"
      by (simp add: unat_word_ariths unat_of_nat)
    then have "unat (page_of address + of_nat j * 4096) = 4096 * (?a div 4096) + 4096 * j"
      using lt unfolding unat_word_ariths pg by simp
    moreover have "unat (page_of (address + of_nat k)) = 4096 * (?a div 4096 + j)" unfolding pg ua [OF k] j ..
    ultimately show ?thesis by (simp add: word_unat_eq_iff distrib_left)
  qed
  have acc: "accessible vm s w (address + of_nat k) = accessible vm s w (page_of address + of_nat j * 4096)"
    if "k < len" "(?a + k) div 4096 = ?a div 4096 + j" for j k
  proof -
    have "page_of (page_of address + of_nat j * 4096) = page_of (address + of_nat k)"
      unfolding pj [OF that, symmetric] by (simp add: page_of_aligned frame_aligned_page_of)
    then show ?thesis by (intro accessible_same_page [OF assms(3)]) simp
  qed
  show "(\<forall>j \<le> n. accessible vm s w (page_of address + of_nat j * 4096)) \<longleftrightarrow> (\<forall>k < len. accessible vm s w (address + of_nat k))"
  proof (intro iffI allI impI)
    fix k assume A: "\<forall>j \<le> n. accessible vm s w (page_of address + of_nat j * 4096)" and k: "k < len"
    define j where "j = (?a + k) div 4096 - ?a div 4096"
    have "?a div 4096 \<le> (?a + k) div 4096" by (simp add: div_le_mono)
    then have "(?a + k) div 4096 = ?a div 4096 + j" by (simp add: j_def)
    moreover have "j \<le> n" unfolding j_def n_def using k by (intro diff_le_mono div_le_mono) simp
    ultimately show "accessible vm s w (address + of_nat k)" using acc [OF k] A by simp
  next
    fix j assume A: "\<forall>k < len. accessible vm s w (address + of_nat k)" and j: "j \<le> n"
    define k where "k = 4096 * (?a div 4096 + j) - ?a"
    have hi: "4096 * (?a div 4096 + j) \<le> ?a + len - 1"
    proof -
      have "?a div 4096 + j \<le> (?a + len - 1) div 4096" using j le unfolding n_def by linarith
      then have "4096 * (?a div 4096 + j) \<le> 4096 * ((?a + len - 1) div 4096)" by simp
      also have "\<dots> \<le> ?a + len - 1" by simp
      finally show ?thesis .
    qed
    then have k: "k < len" using assms(1) by (simp add: k_def)
    have "(?a + k) div 4096 = ?a div 4096 + j"
    proof (cases "?a \<le> 4096 * (?a div 4096 + j)")
      case True
      then have "?a + k = 4096 * (?a div 4096 + j)" by (simp add: k_def)
      then show ?thesis by simp
    next
      case False
      have "j = 0"
      proof (rule ccontr)
        assume "j \<noteq> 0"
        then have "4096 * (?a div 4096 + 1) \<le> 4096 * (?a div 4096 + j)" by simp
        moreover have "?a < 4096 * (?a div 4096 + 1)" by simp
        ultimately show False using False by linarith
      qed
      then show ?thesis using False by (simp add: k_def)
    qed
    then show "accessible vm s w (page_of address + of_nat j * 4096)" using acc [OF k] A k by simp
  qed
qed


lemma validate_buffer_eq:
  assumes "find_task (k_table K) t = Some i" "tk_address_space_root (task_at K i) \<noteq> 0"
    "0 < len" "len \<le> 2 ^ 20"
  shows "ub_valid (validate_user_buffer K t address (of_nat len) w) \<longleftrightarrow> (unat address + len \<le> 2 ^ 64
    \<and> fst (check_pages (space_translate (k_vm K) (sl_address_space (slots K ! i))) w
        (page_of (address + of_nat (len - 1))) (page_of address) 0))"
proof -
  have ul: "unat (of_nat len :: u64) = len" "unat (of_nat (len - 1) :: u64) = len - 1"
    using assms(4) by (simp_all add: unat_of_nat)
  have l0: "(of_nat len :: u64) \<noteq> 0" using assms(3) ul(1) by (metis less_irrefl unat_0)
  have l1: "(of_nat len :: u64) - 1 = of_nat (len - 1)" using assms(3) by (simp add: of_nat_diff)
  have mx: "\<not> MAX_USER_BUFFER_BYTES < of_nat len"
    using assms(4) by (simp add: MAX_USER_BUFFER_BYTES_def word_less_nat_alt ul)
  have pm: "v AND NOT (PAGE_SIZE_4K - 1) = page_of v" for v by (simp add: page_of_def PAGE_SIZE_4K_def)
  have ca: "checked_add address (of_nat (len - 1))
      = (if unat address + len \<le> 2 ^ 64 then Some (address + of_nat (len - 1)) else None)"
    using assms(3) unfolding checked_add_def ul by auto
  show ?thesis
    unfolding validate_user_buffer_def Let_def l1 ca pm by (simp add: assms(1,2) mx l0 case_prod_beta)
qed

lemma validate_buffer_iff:
  assumes "find_task (k_table K) t = Some i" "space_inv (k_vm K) (sl_address_space (slots K ! i))"
    "tk_address_space_root (task_at K i) \<noteq> 0" "len < 2 ^ 64"
  shows "ub_valid (validate_user_buffer K t address (of_nat len) w) \<longleftrightarrow> len \<le> 2 ^ 20
    \<and> (len = 0 \<or> unat address + len \<le> 2 ^ 64)
    \<and> (\<forall>k < len. accessible (k_vm K) (sl_address_space (slots K ! i)) w (address + of_nat k))"
proof -
  have ul: "unat (of_nat len :: u64) = len" using assms(4) by (simp add: unat_of_nat)
  have mx: "MAX_USER_BUFFER_BYTES < of_nat len \<longleftrightarrow> 2 ^ 20 < len"
    by (simp add: MAX_USER_BUFFER_BYTES_def word_less_nat_alt ul)
  consider "2 ^ 20 < len" | "len = 0" | "len \<le> 2 ^ 20" "0 < len" by linarith
  then show ?thesis
  proof cases
    case 1
    then show ?thesis using assms(1) mx by (simp add: validate_user_buffer_def Let_def)
  next
    case 2
    then show ?thesis using assms(1,3) by (simp add: validate_user_buffer_def Let_def)
  next
    case 3
    show ?thesis
    proof (cases "unat address + len \<le> 2 ^ 64")
      case True
      note b = buffer_pages [OF 3(2) True assms(2)]
      show ?thesis
        unfolding validate_buffer_eq [OF assms(1,3) 3(2,1)] check_pages_spec [OF b(1)] b(2)
        using True 3 by blast
    next
      case False
      then show ?thesis unfolding validate_buffer_eq [OF assms(1,3) 3(2,1)] using 3 by blast
    qed
  qed
qed

section \<open>The copies\<close>

definition byte_at :: "AddressSpace \<Rightarrow> u64 \<Rightarrow> nat \<Rightarrow> u64" where
  "byte_at s address k = phys_of s (canon (address + of_nat k))"

lemma byte_at_translate:
  assumes "space_inv vm s" "accessible vm s w (address + of_nat k)"
  shows "tr_phys (space_translate vm s (address + of_nat k)) = byte_at s address k"
    "page_of (byte_at s address k) \<in> page_frames s"
proof -
  obtain f p where "map_of (pages s) (page_of (canon (address + of_nat k))) = Some (f, p)"
    "tr_phys (space_translate vm s (address + of_nat k)) = phys_of s (canon (address + of_nat k))"
    by (rule accessibleE [OF assms])
  then show "tr_phys (space_translate vm s (address + of_nat k)) = byte_at s address k"
    "page_of (byte_at s address k) \<in> page_frames s"
    using phys_of_page(1,3) [OF assms(1)] by (auto simp: byte_at_def)
qed

lemma add_mod_inj:
  fixes a k l m :: nat
  assumes e: "(a + k) mod m = (a + l) mod m" and "k < m" "l < m"
  shows "k = l"
proof -
  have le: "k = l" if h: "k \<le> l" "(a + k) mod m = (a + l) mod m" "l < m" for k l
  proof -
    have "m dvd l - k" using h mod_eq_dvd_iff_nat [of "a + k" "a + l" m] by simp
    then have "l - k = 0" using h(3) nat_dvd_not_less [of "l - k" m] by linarith
    then show ?thesis using h(1) by simp
  qed
  show ?thesis using le [of k l] le [of l k] assms by linarith
qed

lemma byte_at_inj:
  assumes "space_inv vm s" "accessible vm s w (address + of_nat k)" "accessible vm s w (address + of_nat l)"
    "k < 2 ^ 20" "l < 2 ^ 20" "byte_at s address k = byte_at s address l"
  shows "k = l"
proof -
  obtain f p where m: "map_of (pages s) (page_of (canon (address + of_nat k))) = Some (f, p)"
    by (rule accessibleE [OF assms(1,2)])
  obtain g q where n: "map_of (pages s) (page_of (canon (address + of_nat l))) = Some (g, q)"
    by (rule accessibleE [OF assms(1,3)])
  have "canon (address + of_nat k) = canon (address + of_nat l)"
    by (rule phys_of_inj [OF assms(1) m n]) (use assms(6) in \<open>simp add: byte_at_def\<close>)
  then have "unat (canon (address + of_nat k)) = unat (canon (address + of_nat l))" by simp
  moreover have "unat (canon (address + of_nat m)) = (unat address + m) mod 2 ^ 48" if "m < 2 ^ 20" for m
  proof -
    have "unat (address + of_nat m) = (unat address + m) mod 2 ^ 64" using that by (simp add: unat_word_ariths unat_of_nat)
    then show ?thesis unfolding canon_nat by (simp add: mod_mod_cancel)
  qed
  ultimately have e: "(unat address + k) mod 2 ^ 48 = (unat address + l) mod 2 ^ 48" using assms(4,5) by simp
  have "k < 2 ^ 48" "l < 2 ^ 48" using assms(4,5) by simp_all
  with e show ?thesis by (rule add_mod_inj)
qed

text \<open>Within a chunk the bytes are consecutive.\<close>

lemma chunk_bytes:
  assumes "space_inv vm s" "accessible vm s w (address + of_nat c)" "j < user_chunk (address + of_nat c) r"
  shows "byte_at s address c + of_nat j = byte_at s address (c + j)"
proof -
  let ?v = "address + of_nat c"
  have "unat (?v AND 0xfff) < 4096" using low_less [of ?v] by (simp add: word_less_nat_alt)
  moreover have u: "unat PAGE_SIZE_4K = 4096" "PAGE_SIZE_4K - 1 = 0xfff" by (simp_all add: PAGE_SIZE_4K_def)
  ultimately have lt: "unat (?v AND 0xfff) + j < 4096" using assms(3) unfolding user_chunk_def u by linarith
  note sp = same_page [OF lt]
  obtain f p where m: "map_of (pages s) (page_of (canon ?v)) = Some (f, p)" by (rule accessibleE [OF assms(1,2)])
  have low: "canon x AND 0xfff = x AND 0xfff" for x by (rule canon_low) code_simp
  have "page_of (canon (?v + of_nat j)) = page_of (canon ?v)" using sp(1) by (simp add: canon_page)
  then have "phys_of s (canon (?v + of_nat j)) = phys_of s (canon ?v) + of_nat j"
    using m sp(2) by (simp add: phys_of_def low)
  then show ?thesis by (simp add: byte_at_def add.assoc)
qed

lemma sat_add_buffer:
  fixes address :: u64
  shows "unat address + len \<le> 2 ^ 64 \<Longrightarrow> c < len \<Longrightarrow> sat_add address (of_nat c) = address + of_nat c"
  by (simp add: sat_add_def unat_of_nat)


lemma copy_out_spec:
  assumes inv: "space_inv vm s" and acc: "\<forall>k < length buffer. accessible vm s w (address + of_nat k)"
    and ov: "unat address + length buffer \<le> 2 ^ 64"
  shows "copy_out_loop (space_translate vm s) mem address c buffer
    = (True, take c buffer @ map (\<lambda>k. mem (byte_at s address k)) [c..<length buffer])"
  using acc ov
proof (induction "length buffer - c" arbitrary: c buffer rule: less_induct)
  case less
  show ?case
  proof (cases "c < length buffer")
    case False
    then show ?thesis by (subst copy_out_loop.simps) simp
  next
    case True
    define n where "n = user_chunk (address + of_nat c) (length buffer - c)"
    have n: "0 < n" "c + n \<le> length buffer"
      using user_chunk_pos [where remaining = "length buffer - c" and a = "address + of_nat c"] True
      by (simp_all add: n_def)
    have a: "accessible vm s w (address + of_nat c)" using less.prems(1) True by simp
    define b where "b = take c buffer @ map (\<lambda>j. mem (byte_at s address c + of_nat j)) [0..<n] @ drop (c + n) buffer"
    have lb: "length b = length buffer" using n True by (simp add: b_def)
    have IH: "copy_out_loop (space_translate vm s) mem address (c + n) b
        = (True, take (c + n) b @ map (\<lambda>k. mem (byte_at s address k)) [c + n..<length b])"
      by (rule less.hyps) (use lb n less.prems in simp_all)
    have "map (\<lambda>j. mem (byte_at s address c + of_nat j)) [0..<n] = map (\<lambda>k. mem (byte_at s address k)) [c..<c + n]"
      using chunk_bytes [OF inv a, of _ "length buffer - c", folded n_def]
      by (intro nth_equalityI) simp_all
    then have "take (c + n) b = take c buffer @ map (\<lambda>k. mem (byte_at s address k)) [c..<c + n]"
      using n True by (simp add: b_def)
    then have "take (c + n) b @ map (\<lambda>k. mem (byte_at s address k)) [c + n..<length b]
        = take c buffer @ map (\<lambda>k. mem (byte_at s address k)) [c..<length buffer]"
      using n lb upt_add_eq_append [of c "c + n" "length buffer - (c + n)"] by simp
    moreover have "copy_out_loop (space_translate vm s) mem address c buffer
        = copy_out_loop (space_translate vm s) mem address (c + n) b"
      using True a byte_at_translate(1) [OF inv a] sat_add_buffer [OF less.prems(2) True]
      by (subst copy_out_loop.simps) (simp add: accessible_def Let_def n_def b_def)
    ultimately show ?thesis using IH by simp
  qed
qed

lemma accessible_contents:
  assumes "space_inv vm s" "only_changes (page_frames s) (vm_phys vm) mem'"
  shows "accessible (vm\<lparr>vm_phys := mem'\<rparr>) s w v = accessible vm s w v"
  by (simp add: accessible_iff [OF assms(1)] accessible_iff [OF space_inv_contents [OF assms]])

lemma copy_in_spec:
  assumes "space_inv (vm\<lparr>vm_phys := mem\<rparr>) s"
    and "\<forall>k < length buffer. accessible (vm\<lparr>vm_phys := mem\<rparr>) s True (address + of_nat k)"
    and ov: "unat address + length buffer \<le> 2 ^ 64" and sz: "length buffer \<le> 2 ^ 20"
  shows "\<exists>mem'. copy_in_loop (\<lambda>m. space_translate (vm\<lparr>vm_phys := m\<rparr>) s) address buffer c mem = (True, mem')
    \<and> only_changes (page_frames s) mem mem' \<and> stores (byte_at s address) ((!) buffer) c (length buffer) mem mem'"
  using assms(1,2)
proof (induction "length buffer - c" arbitrary: c mem rule: less_induct)
  case less
  let ?vm = "\<lambda>m. vm\<lparr>vm_phys := m\<rparr>"
  show ?case
  proof (cases "c < length buffer")
    case False
    then show ?thesis by (subst copy_in_loop.simps) (auto simp: stores_def)
  next
    case True
    define n where "n = user_chunk (address + of_nat c) (length buffer - c)"
    define bytes where "bytes = take n (drop c buffer)"
    define a where "a = byte_at s address c"
    have n: "0 < n" "c + n \<le> length buffer"
      using user_chunk_pos [where remaining = "length buffer - c" and a = "address + of_nat c"] True
      by (simp_all add: n_def)
    have lb: "length bytes = n" using n by (simp add: bytes_def)
    have acc: "accessible (?vm mem) s True (address + of_nat c)" using less.prems(2) True by simp
    note t = byte_at_translate [OF less.prems(1) acc, folded a_def]
    have cb: "a + of_nat j = byte_at s address (c + j)" if "j < n" for j
      unfolding a_def by (rule chunk_bytes [OF less.prems(1) acc that [unfolded n_def]])
    obtain f p where m: "map_of (pages s) (page_of (canon (address + of_nat c))) = Some (f, p)"
      by (rule accessibleE [OF less.prems(1) acc])
    have "a AND 0xfff = (address + of_nat c) AND 0xfff"
      using phys_of_page(2) [OF less.prems(1) m] canon_low [of "0xfff" "address + of_nat c"]
      by (simp add: a_def byte_at_def)
    moreover have u: "unat PAGE_SIZE_4K = 4096" "PAGE_SIZE_4K - 1 = 0xfff" by (simp_all add: PAGE_SIZE_4K_def)
    have lt: "unat ((address + of_nat c) AND 0xfff) < 4096"
      using low_less [of "address + of_nat c"] by (simp add: word_less_nat_alt)
    have "unat ((address + of_nat c) AND 0xfff) + n \<le> 4096"
      using lt unfolding n_def user_chunk_def u by linarith
    ultimately have low: "unat (a AND 0xfff) + length bytes \<le> 4096" using lb by simp
    have n4: "n \<le> 4096" using low lb by simp
    let ?mem = "copy_in mem a bytes"
    have ch: "only_changes (page_frames s) mem ?mem"
      using copy_in_page [OF low, of mem] t(2) by (auto simp: only_changes_def)
    have inv1: "space_inv (?vm ?mem) s" using space_inv_contents [OF less.prems(1), of ?mem] ch by simp
    have acc1: "\<forall>k < length buffer. accessible (?vm ?mem) s True (address + of_nat k)"
      using accessible_contents [OF less.prems(1), of ?mem] ch less.prems(2) by simp
    have d: "length buffer - (c + n) < length buffer - c" using n True by simp
    obtain mem' where IH: "copy_in_loop (\<lambda>m. space_translate (?vm m) s) address buffer (c + n) ?mem = (True, mem')"
      "only_changes (page_frames s) ?mem mem'" "stores (byte_at s address) ((!) buffer) (c + n) (length buffer) ?mem mem'"
      using less.hyps [OF d inv1 acc1] by blast
    have "copy_in_loop (\<lambda>m. space_translate (?vm m) s) address buffer c mem = (True, mem')"
      using IH(1) True acc t(1) sat_add_buffer [OF ov True]
      by (subst copy_in_loop.simps) (simp add: accessible_def Let_def n_def bytes_def)
    moreover have "only_changes (page_frames s) mem mem'"
      by (rule only_changes_trans [OF ch IH(2)]) simp_all
    moreover have "stores (byte_at s address) ((!) buffer) c (length buffer) mem mem'"
    proof (rule stores_step [OF _ n(2) lb n4 _ cb IH(3)])
      show "k < length buffer \<Longrightarrow> l < length buffer \<Longrightarrow> byte_at s address k = byte_at s address l \<Longrightarrow> k = l" for k l
        using byte_at_inj [OF less.prems(1), of True address k l] less.prems(2) sz by simp
    qed (use n in \<open>simp_all add: bytes_def\<close>)
    ultimately show ?thesis by blast
  qed
qed

end
