(* ===== verification/Kernel_Invariant.thy ===== *)
theory Kernel_Invariant
  imports Heap_Properties Syscall User_Access Scheduler_Properties Ipc_Security
begin

text \<open>
  The invariant of the whole kernel: the process table, the scheduler, the mailboxes and the
  address spaces are well formed, task numbers are unique and the scheduler only knows numbers
  that were given out. Every operation of the process table keeps it.
\<close>

section \<open>The invariant\<close>

definition table_inv :: "ProcessTable \<Rightarrow> bool" where
  "table_inv p \<longleftrightarrow> length (pt_slots p) = MAX_TASKS \<and> pt_next_task_id p \<noteq> 0
     \<and> (\<forall>slot \<in> set (pt_slots p). tk_state (sl_task slot) \<noteq> TaskEmpty \<longrightarrow>
          tk_id (sl_task slot) \<noteq> 0 \<and> tk_id (sl_task slot) < pt_next_task_id p)
     \<and> (\<forall>i < MAX_TASKS. \<forall>j < MAX_TASKS. i \<noteq> j \<longrightarrow>
          tk_state (sl_task (pt_slots p ! i)) \<noteq> TaskEmpty \<longrightarrow> tk_state (sl_task (pt_slots p ! j)) \<noteq> TaskEmpty \<longrightarrow>
          tk_id (sl_task (pt_slots p ! i)) \<noteq> tk_id (sl_task (pt_slots p ! j)))"

definition sched_known :: "u64 \<Rightarrow> Scheduler \<Rightarrow> bool" where
  "sched_known n s \<longleftrightarrow> sched_inv s \<and> (\<forall>t \<in># all_tasks s. t < n)"

abbreviation spaces :: "Kernel \<Rightarrow> AddressSpace list" where
  "spaces K \<equiv> map sl_address_space (slots K)"

definition kernel_inv :: "u64 set \<Rightarrow> Kernel \<Rightarrow> bool" where
  "kernel_inv E K \<longleftrightarrow> table_inv (k_table K) \<and> sched_known (pt_next_task_id (k_table K)) (k_sched K)
     \<and> ipc_inv (k_ipc K) \<and> heap_inv (k_heap K) \<and> system_inv E (k_vm K, spaces K)"

lemma kernel_invD:
  assumes "kernel_inv E K"
  shows "table_inv (k_table K)" "sched_known (pt_next_task_id (k_table K)) (k_sched K)" "ipc_inv (k_ipc K)"
    "system_inv E (k_vm K, spaces K)" "length (slots K) = MAX_TASKS" "heap_inv (k_heap K)"
  using assms by (simp_all add: kernel_inv_def table_inv_def)

section \<open>Updates\<close>

lemma update_sel [simp]:
  "k_sched (update_table f K) = k_sched K" "k_ipc (update_table f K) = k_ipc K"
  "k_vm (update_table f K) = k_vm K" "k_heap (update_table f K) = k_heap K" "k_ticks (update_table f K) = k_ticks K"
  "k_archive (update_table f K) = k_archive K" "k_table (update_table f K) = f (k_table K)"
  "k_sched (update_slot i g K) = k_sched K" "k_ipc (update_slot i g K) = k_ipc K"
  "k_vm (update_slot i g K) = k_vm K" "k_heap (update_slot i g K) = k_heap K" "k_ticks (update_slot i g K) = k_ticks K"
  "k_archive (update_slot i g K) = k_archive K"
  "pt_slots (k_table (update_slot i g K)) = (slots K)[i := g (slots K ! i)]"
  "pt_next_task_id (k_table (update_slot i g K)) = pt_next_task_id (k_table K)"
  "k_sched (update_task i h K) = k_sched K" "k_ipc (update_task i h K) = k_ipc K"
  "k_vm (update_task i h K) = k_vm K" "k_heap (update_task i h K) = k_heap K" "k_ticks (update_task i h K) = k_ticks K"
  "k_archive (update_task i h K) = k_archive K"
  "pt_slots (k_table (update_task i h K)) = (slots K)[i := (slots K ! i)\<lparr>sl_task := h (task_at K i)\<rparr>]"
  "pt_next_task_id (k_table (update_task i h K)) = pt_next_task_id (k_table K)"
  by (simp_all add: update_table_def update_slot_def update_task_def)

text \<open>Which changes of a task keep the table well formed.\<close>

definition keeps_identity :: "Task \<Rightarrow> Task \<Rightarrow> bool" where
  "keeps_identity task task' \<longleftrightarrow> tk_id task' = tk_id task \<and> (tk_state task = TaskEmpty \<longrightarrow> tk_state task' = TaskEmpty)"

lemma table_inv_update:
  assumes "table_inv p" "keeps_identity (sl_task (pt_slots p ! i)) (sl_task slot)"
  shows "table_inv (p\<lparr>pt_slots := (pt_slots p)[i := slot]\<rparr>)"
proof (cases "i < MAX_TASKS")
  case True
  let ?old = "pt_slots p"
  have len: "length ?old = MAX_TASKS" using assms(1) by (simp add: table_inv_def)
  have b: "tk_state (sl_task (?old ! j)) \<noteq> TaskEmpty \<Longrightarrow>
      tk_id (sl_task (?old ! j)) \<noteq> 0 \<and> tk_id (sl_task (?old ! j)) < pt_next_task_id p" if "j < MAX_TASKS" for j
    using assms(1) that len by (simp add: table_inv_def)
  have s: "tk_id (sl_task (?old[i := slot] ! j)) = tk_id (sl_task (?old ! j))"
    "tk_state (sl_task (?old ! j)) = TaskEmpty \<Longrightarrow> tk_state (sl_task (?old[i := slot] ! j)) = TaskEmpty"
    if "j < MAX_TASKS" for j
    using assms(2) that len True by (cases "j = i"; simp add: keeps_identity_def)+
  have "tk_id (sl_task x) \<noteq> 0 \<and> tk_id (sl_task x) < pt_next_task_id p"
    if x: "x \<in> set (?old[i := slot])" "tk_state (sl_task x) \<noteq> TaskEmpty" for x
  proof -
    obtain j where j: "j < MAX_TASKS" "x = ?old[i := slot] ! j" using x(1) len by (auto simp: in_set_conv_nth)
    then show ?thesis using s [OF j(1)] b [OF j(1)] x(2) by metis
  qed
  moreover have "tk_id (sl_task (?old[i := slot] ! j)) \<noteq> tk_id (sl_task (?old[i := slot] ! k))"
    if "j < MAX_TASKS" "k < MAX_TASKS" "j \<noteq> k" "tk_state (sl_task (?old[i := slot] ! j)) \<noteq> TaskEmpty"
      "tk_state (sl_task (?old[i := slot] ! k)) \<noteq> TaskEmpty" for j k
    using that s [OF that(1)] s [OF that(2)] assms(1) unfolding table_inv_def by metis
  ultimately show ?thesis using assms(1) len unfolding table_inv_def by simp
next
  case False
  then have "(pt_slots p)[i := slot] = pt_slots p" using assms(1) by (simp add: table_inv_def list_update_beyond)
  then show ?thesis using assms(1) by simp
qed

lemma table_inv_slots:
  assumes "table_inv p" "pt_slots q = pt_slots p" "pt_next_task_id q = pt_next_task_id p"
  shows "table_inv q"
  using assms by (simp add: table_inv_def)

lemma update_slot_inv [inv_intros]:
  assumes "kernel_inv E K" "keeps_identity (task_at K i) (sl_task (f (slots K ! i)))"
    "sl_address_space (f (slots K ! i)) = sl_address_space (slots K ! i)"
  shows "kernel_inv E (update_slot i f K)"
proof -
  have "map sl_address_space ((slots K)[i := f (slots K ! i)]) = spaces K"
    unfolding map_update assms(3) by (cases "i < length (slots K)") (auto simp: list_update_beyond intro: list_update_same_conv [THEN iffD2])
  then show ?thesis
    using assms(1) table_inv_update [OF _ assms(2)] unfolding kernel_inv_def update_slot_def by simp
qed

lemma update_task_inv [inv_intros]:
  assumes "kernel_inv E K" "keeps_identity (task_at K i) (f (task_at K i))"
  shows "kernel_inv E (update_task i f K)"
  unfolding update_task_def by (rule update_slot_inv) (use assms in simp_all)

lemma update_table_inv [inv_intros]:
  assumes "kernel_inv E K" "pt_slots (f (k_table K)) = slots K"
    "pt_next_task_id (f (k_table K)) = pt_next_task_id (k_table K)"
  shows "kernel_inv E (update_table f K)"
  using assms table_inv_slots [OF _ assms(2,3)] by (simp add: kernel_inv_def)

lemma sched_update_inv [inv_intros]:
  "kernel_inv E K \<Longrightarrow> sched_known (pt_next_task_id (k_table K)) s \<Longrightarrow> kernel_inv E (K\<lparr>k_sched := s\<rparr>)"
  by (simp add: kernel_inv_def)

lemma ipc_update_inv [inv_intros]: "kernel_inv E K \<Longrightarrow> ipc_inv s \<Longrightarrow> kernel_inv E (K\<lparr>k_ipc := s\<rparr>)"
  by (simp add: kernel_inv_def)

lemma heap_update_inv [inv_intros]: "kernel_inv E K \<Longrightarrow> heap_inv h \<Longrightarrow> kernel_inv E (K\<lparr>k_heap := h\<rparr>)"
  by (simp add: kernel_inv_def)

lemma vm_update_inv [inv_intros]:
  "kernel_inv E K \<Longrightarrow> system_inv E (vm, spaces K) \<Longrightarrow> kernel_inv E (K\<lparr>k_vm := vm\<rparr>)"
  by (simp add: kernel_inv_def)

lemma heap_ops:
  "heap_inv h \<Longrightarrow> heap_alloc h n al = (r, h') \<Longrightarrow> heap_inv h'" "heap_inv h \<Longrightarrow> heap_free h a = (res, h') \<Longrightarrow> heap_inv h'"
  by (blast intro: heap_inv_step heap_step.alloc heap_step.free)+

section \<open>The scheduler's tasks\<close>

lemma sched_known_same:
  "sched_known n s \<Longrightarrow> sched_inv s' \<Longrightarrow> all_tasks s' = all_tasks s \<Longrightarrow> sched_known n s'"
  by (simp add: sched_known_def)

lemma sched_known_ops:
  assumes "sched_known n s"
  shows "sched_known n (snd (block_task s t))" "sched_known n (snd (block_current_and_dispatch s t))"
    "sched_known n (snd (wake_task s t))" "sched_known n (snd (preempt_current s))"
    "sched_known n (snd (yield_current s))" "sched_known n (timer_interrupt s)" "sched_known n (finish_task s t)"
proof -
  have inv: "sched_inv s" using assms by (simp add: sched_known_def)
  note same = sched_known_same [OF assms]
  show "sched_known n (snd (block_task s t))" "sched_known n (snd (block_current_and_dispatch s t))"
    "sched_known n (snd (wake_task s t))" "sched_known n (snd (preempt_current s))"
    by (intro same block_task_inv block_task_conserves dispatch_inv dispatch_conserves wake_task_inv
        wake_task_conserves preempt_current_inv preempt_conserves inv)+
  show "sched_known n (snd (yield_current s))"
    by (intro same yield_current_inv inv) (simp add: yield_current_def Let_def all_tasks_def)
  show "sched_known n (timer_interrupt s)"
    by (intro same timer_interrupt_inv inv) (simp add: timer_interrupt_def all_tasks_def on_timer_tick_state)
  have "set_mset (all_tasks (finish_task s t)) \<subseteq> set_mset (all_tasks s)"
    using finish_task_state [OF inv, of t] by (auto simp: all_tasks_def)
  then show "sched_known n (finish_task s t)"
    using assms finish_task_inv [OF inv, of t] by (auto simp: sched_known_def)
qed

lemma begin_task_known:
  assumes "sched_known n s" "t < n"
  shows "sched_known n (begin_task s t)"
proof -
  have inv: "sched_inv s" using assms by (simp add: sched_known_def)
  have "set_mset (all_tasks (begin_task s t)) \<subseteq> insert t (set_mset (all_tasks s))"
    using begin_task_state [OF inv, of t] by (auto simp: all_tasks_def)
  then show ?thesis using assms begin_task_inv [OF inv, of t] by (auto simp: sched_known_def)
qed

lemma enqueue_known:
  assumes "sched_known n s" "t \<notin> set (blocked_tasks s)" "t < m" "n \<le> m"
  shows "sched_known m (snd (enqueue s t))"
proof -
  have inv: "sched_inv s" and k: "\<forall>u \<in># all_tasks s. u < n" using assms(1) by (simp_all add: sched_known_def)
  note sz = sched_invD(1) [OF inv]
  have sub: "set_mset (all_tasks (snd (enqueue s t))) \<subseteq> insert t (set_mset (all_tasks s))"
  proof (cases "t \<noteq> 0 \<and> t \<notin> set (ready_ids s) \<and> current_task s \<noteq> t \<and> sch_len s < QUEUE_CAPACITY")
    case True
    then have "ready (snd (enqueue s t)) = ready s @ [\<lparr>task_id = t, ready_since = timer_ticks s\<rparr>]"
      using enqueue_at_new(2) [OF sz, of t "timer_ticks s"] by (simp add: enqueue_def)
    moreover have "current_task (snd (enqueue s t)) = current_task s" "blocked_tasks (snd (enqueue s t)) = blocked_tasks s"
      by (simp_all add: enqueue_def)
    ultimately show ?thesis by (auto simp: all_tasks_def)
  next
    case False
    then have "snd (enqueue s t) = s \<or> snd (enqueue s t) = s\<lparr>failed_enqueues := sat_add (failed_enqueues s) 1\<rparr>"
      using sched_contains_iff [OF sz, of t] by (auto simp: enqueue_def enqueue_at_def)
    then have "all_tasks (snd (enqueue s t)) = all_tasks s" by (elim disjE) (simp_all add: all_tasks_def)
    then show ?thesis by auto
  qed
  have "u < m" if "u \<in># all_tasks (snd (enqueue s t))" for u
  proof (cases "u = t")
    case False
    then have "u \<in># all_tasks s" using sub that by blast
    then show ?thesis using k assms(4) by (blast intro: order_less_le_trans)
  qed (simp add: assms(3))
  then show ?thesis using enqueue_inv [OF inv assms(2)] by (simp add: sched_known_def)
qed

end
