(* ===== verification/Kernel_Ops.thy ===== *)
theory Kernel_Ops
  imports Kernel_Invariant Initramfs_Archive
begin

unbundle bit_operations_syntax

text \<open>Every operation of the process table and every system call keeps the invariant of the kernel.\<close>

section \<open>Finding a task\<close>

lemma find_task_Some:
  assumes "find_task p t = Some i"
  shows "i < length (pt_slots p)" "tk_state (sl_task (pt_slots p ! i)) \<noteq> TaskEmpty" "tk_id (sl_task (pt_slots p ! i)) = t"
  using position_SomeD [OF assms [unfolded find_task_def]] by auto

lemma found_known:
  assumes "kernel_inv E K" "find_task (k_table K) t = Some i"
  shows "t \<noteq> 0" "t < pt_next_task_id (k_table K)"
proof -
  have "slots K ! i \<in> set (slots K)" using find_task_Some(1) [OF assms(2)] by simp
  then show "t \<noteq> 0" "t < pt_next_task_id (k_table K)"
    using kernel_invD(1) [OF assms(1)] find_task_Some [OF assms(2)] unfolding table_inv_def by blast+
qed

lemma keeps_identity_found:
  assumes "find_task (k_table K) t = Some i" "tk_id task = t"
  shows "keeps_identity (task_at K i) task"
  using find_task_Some [OF assms(1)] assms(2) by (simp add: keeps_identity_def)

lemma keeps_identity_id [simp]: "keeps_identity task task"
  by (simp add: keeps_identity_def)

lemmas sched_steps = sched_known_ops [OF kernel_invD(2)]

section \<open>Blocking and waking\<close>

lemma block_for_ipc_inv [inv_intros]:
  assumes "kernel_inv E K"
  shows "kernel_inv E (snd (block_for_ipc t K))"
proof (cases "find_task (k_table K) t")
  case (Some i)
  obtain b s where b: "block_task (k_sched K) t = (b, s)" by fastforce
  have "sched_known (pt_next_task_id (k_table K)) s" using sched_steps(1) [OF assms, of t] b by simp
  then have k: "kernel_inv E (K\<lparr>k_sched := s\<rparr>)" using assms by (intro inv_intros)
  show ?thesis
    using k assms Some b find_task_Some [OF Some]
    by (cases b) (auto simp: block_for_ipc_def Let_def keeps_identity_def intro!: update_task_inv)
qed (simp add: block_for_ipc_def assms)

lemma wake_ipc_task_inv [inv_intros]:
  assumes "kernel_inv E K"
  shows "kernel_inv E (snd (wake_ipc_task reason t K))"
proof (cases "find_task (k_table K) t")
  case (Some i)
  obtain b s where b: "wake_task (k_sched K) t = (b, s)" by fastforce
  have "sched_known (pt_next_task_id (k_table K)) s" using sched_steps(3) [OF assms, of t] b by simp
  then have k: "kernel_inv E (K\<lparr>k_sched := s\<rparr>)" using assms by (intro inv_intros)
  show ?thesis
    using k assms Some b find_task_Some [OF Some]
    by (cases b) (auto simp: wake_ipc_task_def Let_def keeps_identity_def intro!: update_task_inv)
qed (simp add: wake_ipc_task_def assms)

lemma cancel_ipc_wait_inv [inv_intros]:
  assumes "kernel_inv E K"
  shows "kernel_inv E (snd (cancel_ipc_wait t K))"
  using wake_ipc_task_inv [OF assms, of WakeCancelled t]
  by (auto simp: cancel_ipc_wait_def split: prod.splits bool.splits intro!: inv_intros)

lemma expire_slot_inv [inv_intros]:
  assumes "kernel_inv E K"
  shows "kernel_inv E (expire_slot now i K)"
proof -
  obtain b s where b: "wake_task (k_sched K) (tk_id (task_at K i)) = (b, s)" by fastforce
  have "sched_known (pt_next_task_id (k_table K)) s" using sched_steps(3) [OF assms] b by (metis snd_conv)
  then have k: "kernel_inv E (K\<lparr>k_sched := s\<rparr>)"
    "kernel_inv E (K\<lparr>k_sched := s, k_ipc := snd (set_waiting (k_ipc K) (tk_id (task_at K i)) False)\<rparr>)"
    using assms set_waiting_inv [OF kernel_invD(3) [OF assms]] by (auto intro!: inv_intros)
  show ?thesis
    using k assms b
    by (cases b) (auto simp: expire_slot_def Let_def keeps_identity_def intro!: update_table_inv update_task_inv)
qed

lemma fold_inv: "kernel_inv E K \<Longrightarrow> kernel_inv E (fold (expire_slot now) is K)"
  by (induction "is" arbitrary: K) (auto intro: expire_slot_inv)

lemma expire_ipc_deadlines_inv [inv_intros]: "kernel_inv E K \<Longrightarrow> kernel_inv E (expire_ipc_deadlines now K)"
  by (simp add: expire_ipc_deadlines_def fold_inv)

lemma complete_restart_inv [inv_intros]: "kernel_inv E K \<Longrightarrow> kernel_inv E (complete_restart K)"
  by (auto simp: complete_restart_def intro: inv_intros)

lemma take_ipc_wake_reason_inv [inv_intros]:
  assumes "kernel_inv E K"
  shows "kernel_inv E (snd (take_ipc_wake_reason t K))"
  using assms
  by (auto simp: take_ipc_wake_reason_def Let_def keeps_identity_def split: option.split intro!: complete_restart_inv update_task_inv)

lemma complete_ipc_restart_inv [inv_intros]:
  assumes "kernel_inv E K"
  shows "kernel_inv E (snd (complete_ipc_restart t K))"
  using assms
  by (auto simp: complete_ipc_restart_def Let_def keeps_identity_def split: option.split intro!: complete_restart_inv update_task_inv)

section \<open>Switching\<close>

lemma dispatched_identity [simp]: "tk_id (dispatched ticks waited task) = tk_id task" "tk_state (dispatched ticks waited task) = TaskRunning"
  by (simp_all add: dispatched_def)

lemma slot_update:
  "pt_slots (k_table (update_slot i f K)) ! j = (if i = j \<and> j < length (slots K) then f (slots K ! j) else slots K ! j)"
  "task_at (update_task i g K) j = (if i = j \<and> j < length (slots K) then g (task_at K j) else task_at K j)"
  by (cases "i = j"; cases "j < length (slots K)"; simp add: list_update_beyond)+

lemma dispatch_pair_inv:
  assumes "kernel_inv E K" "tk_state (task_at K i) \<noteq> TaskEmpty" "tk_state (task_at K j) \<noteq> TaskEmpty"
    "keeps_identity (task_at K i) (f (task_at K i))" "tk_state (f (task_at K i)) \<noteq> TaskEmpty"
    "\<And>p. pt_slots (c p) = pt_slots p" "\<And>p. pt_next_task_id (c p) = pt_next_task_id p"
  shows "kernel_inv E (update_table c (update_task j (dispatched ticks waited) (update_task i f K)))"
proof -
  have "kernel_inv E (update_task i f K)" by (rule update_task_inv) (use assms in simp_all)
  moreover have "tk_state (task_at (update_task i f K) j) \<noteq> TaskEmpty"
    using assms(3,5) by (simp only: slot_update(2) split: if_split) blast
  then have "keeps_identity (task_at (update_task i f K) j) (dispatched ticks waited (task_at (update_task i f K) j))"
    by (simp only: keeps_identity_def dispatched_identity) blast
  ultimately have "kernel_inv E (update_task j (dispatched ticks waited) (update_task i f K))" by (rule update_task_inv)
  then show ?thesis by (rule update_table_inv) (simp_all only: assms(6,7))
qed

lemma block_for_ipc_syscall_inv [inv_intros]:
  assumes "kernel_inv E K"
  shows "kernel_inv E (snd (snd (block_for_ipc_syscall t frame deadline K)))"
proof (cases "find_task (k_table K) t")
  case (Some i)
  define K1 where "K1 = update_slot i (\<lambda>slot. slot\<lparr>
      sl_timer_context := save_syscall_context (sl_timer_context slot) frame True, sl_context_valid := True\<rparr>) K"
  obtain d s where d: "block_current_and_dispatch (k_sched K) t = (d, s)" by fastforce
  define K2 where "K2 = K1\<lparr>k_sched := s\<rparr>"
  have d1: "block_current_and_dispatch (k_sched K1) t = (d, s)" using d by (simp add: K1_def)
  have K1: "kernel_inv E K1" using assms by (auto simp: K1_def intro!: inv_intros)
  have "sched_known (pt_next_task_id (k_table K1)) s"
    using sched_steps(2) [OF K1, of t] d by (simp add: K1_def)
  then have K2: "kernel_inv E K2" unfolding K2_def using K1 by (intro inv_intros)
  have i: "tk_state (task_at K2 i) \<noteq> TaskEmpty" "tk_id (task_at K2 i) = t"
    using find_task_Some [OF Some] by (simp_all add: K1_def K2_def)
  show ?thesis
  proof (cases "find_task (k_table K2) (next_task d)")
    case None
    then show ?thesis using K2 assms \<open>find_task (k_table K) t = Some i\<close> d1
      by (simp add: block_for_ipc_syscall_def Let_def K1_def [symmetric] K2_def [symmetric])
  next
    case (Some j)
    note p = dispatch_pair_inv [OF K2 i(1) find_task_Some(2) [OF Some],
        where f = "\<lambda>task. task\<lparr>tk_state := TaskBlocked, tk_ipc_waiting := True, tk_ipc_restart_pending := True,
                  tk_ipc_deadline_tick := deadline, tk_ipc_wake_reason := WakeNone\<rparr>"]
    show ?thesis using K2 assms \<open>find_task (k_table K) t = Some i\<close> d1 Some i p
      by (simp add: block_for_ipc_syscall_def Let_def K1_def [symmetric] K2_def [symmetric] keeps_identity_def)
  qed
qed (simp add: block_for_ipc_syscall_def assms)

lemma on_timer_interrupt_inv [inv_intros]:
  assumes "kernel_inv E K"
  shows "kernel_inv E (snd (snd (on_timer_interrupt context K)))"
proof -
  obtain d s where d: "preempt_current (k_sched K) = (d, s)" by fastforce
  define K1 where "K1 = K\<lparr>k_sched := s\<rparr>"
  have "sched_known (pt_next_task_id (k_table K)) s" using sched_steps(4) [OF assms] d by simp
  then have K1: "kernel_inv E K1" unfolding K1_def using assms by (intro inv_intros)
  have dead: "kernel_inv E (update_table (\<lambda>p. p\<lparr>pt_preemption_active := False\<rparr>) K')" if "kernel_inv E K'" for K'
    using that by (intro inv_intros) simp_all
  show ?thesis
  proof (cases "find_task (k_table K1) (previous_task d)")
    case None
    then show ?thesis using assms d K1 dead [OF K1]
      by (simp add: on_timer_interrupt_def Let_def K1_def [symmetric])
  next
    case (Some i)
    note fi = find_task_Some [OF Some]
    show ?thesis
    proof (cases "find_task (k_table K1) (next_task d)")
      case None
      then show ?thesis using assms d K1 dead [OF K1] Some
        by (simp add: on_timer_interrupt_def Let_def K1_def [symmetric])
    next
      case (Some j)
      define K2 where "K2 = update_slot i (\<lambda>slot. slot\<lparr>sl_timer_context := context, sl_context_valid := True\<rparr>) K1"
      define f :: "Task \<Rightarrow> Task" where "f = (\<lambda>task. task\<lparr>tk_state := TaskReady,
                            tk_timer_preemptions := sat_add (tk_timer_preemptions task) 1\<rparr>)"
      have K2: "kernel_inv E K2" using K1 by (auto simp: K2_def intro!: inv_intros)
      have t: "tk_state (task_at K2 i) \<noteq> TaskEmpty" "tk_state (task_at K2 j) \<noteq> TaskEmpty"
        using fi(2) find_task_Some(2) [OF Some] unfolding K2_def by (simp_all only: slot_update(1) split: if_split) simp_all
      have f: "keeps_identity (task_at K2 i) (f (task_at K2 i))" "tk_state (f (task_at K2 i)) \<noteq> TaskEmpty"
        using t(1) by (simp_all add: f_def keeps_identity_def)
      have K3: "kernel_inv E (update_task i f K2)" by (rule update_task_inv) (use K2 f in simp_all)
      note p = dispatch_pair_inv [where f = f, OF K2 t f]
      show ?thesis using assms d K1 dead [OF K3] \<open>find_task (k_table K1) (previous_task d) = Some i\<close> Some p
        by (simp add: on_timer_interrupt_def Let_def K1_def [symmetric] K2_def [symmetric] f_def [symmetric])
    qed
  qed
qed

section \<open>Running and exit\<close>

lemma mark_running_inv [inv_intros]:
  assumes "kernel_inv E K"
  shows "kernel_inv E (snd (mark_running t n K))"
proof (cases "find_task (k_table K) t")
  case (Some i)
  define K1 where "K1 = update_table (\<lambda>p. p\<lparr>pt_last_task_id := t\<rparr>)
    (update_task i (\<lambda>task. task\<lparr>tk_state := TaskRunning, tk_syscalls_before := n,
       tk_runs := sat_add (tk_runs task) 1, tk_scheduled_slices := sat_add (tk_scheduled_slices task) 1,
       tk_last_scheduled_tick := k_ticks K\<rparr>) K)"
  have K1: "kernel_inv E K1"
    using assms find_task_Some [OF Some] by (auto simp: K1_def keeps_identity_def intro!: update_table_inv update_task_inv)
  have "sched_known (pt_next_task_id (k_table K1)) (begin_task (k_sched K1) t)"
    using begin_task_known [OF kernel_invD(2) [OF K1]] found_known(2) [OF assms Some] by (simp add: K1_def)
  then have "kernel_inv E (K1\<lparr>k_sched := begin_task (k_sched K1) t\<rparr>)" using K1 by (intro inv_intros)
  then show ?thesis using Some by (simp add: mark_running_def Let_def K1_def)
qed (simp add: mark_running_def assms)

lemma wake_waiting_parent_inv [inv_intros]:
  assumes "kernel_inv E K"
  shows "kernel_inv E (snd (wake_waiting_parent parent child_task K))"
proof (cases "find_task (k_table K) parent")
  case (Some i)
  obtain b s where b: "wake_task (k_sched K) parent = (b, s)" by fastforce
  have "sched_known (pt_next_task_id (k_table K)) s" using sched_steps(3) [OF assms, of parent] b by simp
  then have k: "kernel_inv E (K\<lparr>k_sched := s\<rparr>)" using assms by (intro inv_intros)
  show ?thesis
    using k assms Some b find_task_Some [OF Some]
    by (cases b) (auto simp: wake_waiting_parent_def Let_def keeps_identity_def intro!: update_table_inv update_task_inv)
qed (simp add: wake_waiting_parent_def assms)

lemma mark_exited_inv [inv_intros]:
  assumes "kernel_inv E K"
  shows "kernel_inv E (snd (mark_exited t code n K))"
proof (cases "find_task (k_table K) t")
  case (Some i)
  define K1 where "K1 = update_table (\<lambda>p. p\<lparr>pt_exited_total := sat_add (pt_exited_total p) 1,
        pt_last_task_id := t, pt_last_exit_code := code\<rparr>)
      (update_task i (\<lambda>task. task\<lparr>tk_state := TaskExited, tk_exit_code := code, tk_syscalls_after := n,
         tk_ipc_waiting := False, tk_ipc_restart_pending := False, tk_ipc_deadline_tick := 0,
         tk_ipc_wake_reason := WakeNone\<rparr>) K)"
  have K1: "kernel_inv E K1"
    using assms find_task_Some [OF Some] by (auto simp: K1_def keeps_identity_def intro!: update_table_inv update_task_inv)
  have K2: "kernel_inv E (K1\<lparr>k_sched := finish_task (k_sched K1) t\<rparr>)"
    using K1 sched_steps(7) [OF K1] by (intro inv_intros)
  show ?thesis using Some K2 wake_waiting_parent_inv [OF K2]
    by (simp add: mark_exited_def Let_def K1_def [symmetric])
qed (simp add: mark_exited_def assms)

section \<open>Replacing an address space\<close>

lemma system_inv_forget:
  assumes "system_inv E (vm, ss)"
  shows "system_inv E (vm, ss[i := AddressSpace_empty])"
proof (cases "i < length ss")
  case True
  have "owned (ss[i := AddressSpace_empty] ! j) \<subseteq> owned (ss ! j)" if "j < length ss" for j
    using that True by (cases "j = i") simp_all
  then have "owned (ss[i := AddressSpace_empty] ! j) \<inter> owned (ss[i := AddressSpace_empty] ! k) = {}"
    if "j < length ss" "k < length ss" "j \<noteq> k" for j k
    using assms that unfolding system_inv_def by blast
  moreover have "x = AddressSpace_empty \<or> space_inv vm x" if "x \<in> set (ss[i := AddressSpace_empty])" for x
    using assms that set_update_subset_insert [of ss i AddressSpace_empty] unfolding system_inv_def by blast
  ultimately show ?thesis using assms by (simp add: system_inv_def)
qed (use assms in \<open>simp add: list_update_beyond\<close>)

lemma system_inv_last:
  assumes "system_inv E (vm, ss @ [s])"
  shows "system_inv E (vm, ss)"
  using system_inv_shrink [of E vm ss] system_inv_forget [OF assms, of "length ss"] by simp

text \<open>A new space takes the place of an old one.\<close>

lemma system_inv_place:
  assumes "system_inv E (vm, ss @ [s])" "i < length ss"
  shows "system_inv E (vm, ss[i := s])"
proof -
  let ?old = "ss @ [s]"
  define g where "g = (\<lambda>j. if j = i then length ss else j)"
  have nth: "ss[i := s] ! j = ?old ! g j" "g j < length ?old" if "j < length ss" for j
    using that assms(2) by (auto simp: g_def nth_append)
  have inj: "g j \<noteq> g k" if "j \<noteq> k" "j < length ss" "k < length ss" for j k using that by (auto simp: g_def)
  have "owned (ss[i := s] ! j) \<inter> owned (ss[i := s] ! k) = {}" if "j < length ss" "k < length ss" "j \<noteq> k" for j k
    using assms(1) nth [OF that(1)] nth [OF that(2)] inj [OF that(3,1,2)] unfolding system_inv_def by simp
  moreover have "x = AddressSpace_empty \<or> space_inv vm x" if "x \<in> set (ss[i := s])" for x
    using assms(1) that set_update_subset_insert [of ss i s] unfolding system_inv_def by auto
  ultimately show ?thesis using assms(1) by (simp add: system_inv_def)
qed

lemma replace_space_inv:
  assumes "kernel_inv E K" "system_inv E (vm, (spaces K)[i := s])"
  shows "kernel_inv E (update_slot i (\<lambda>slot. slot\<lparr>sl_address_space := s\<rparr>) (K\<lparr>k_vm := vm\<rparr>))"
  using assms table_inv_update [OF kernel_invD(1) [OF assms(1)], of i "(slots K ! i)\<lparr>sl_address_space := s\<rparr>"]
  by (simp add: kernel_inv_def update_slot_def map_update)

lemma empty_slot_inv:
  assumes "kernel_inv E K"
  shows "kernel_inv E (update_slot i (\<lambda>_. ProcessSlot_empty) K)"
proof -
  let ?new = "(slots K)[i := ProcessSlot_empty]"
  note t = kernel_invD(1) [OF assms, unfolded table_inv_def]
  have e: "?new ! j = ProcessSlot_empty \<or> ?new ! j = slots K ! j" for j
    by (cases "i = j"; cases "j < length (slots K)") (simp_all add: list_update_beyond)
  have em: "tk_state (sl_task ProcessSlot_empty) = TaskEmpty" by (simp add: ProcessSlot_empty_def Task_empty_def)
  have "tk_id (sl_task (?new ! j)) \<noteq> tk_id (sl_task (?new ! k))"
    if "j < MAX_TASKS" "k < MAX_TASKS" "j \<noteq> k" "tk_state (sl_task (?new ! j)) \<noteq> TaskEmpty"
      "tk_state (sl_task (?new ! k)) \<noteq> TaskEmpty" for j k
    using t that e [of j] e [of k] em by metis
  moreover have "tk_id (sl_task x) \<noteq> 0 \<and> tk_id (sl_task x) < pt_next_task_id (k_table K)"
    if x: "x \<in> set ?new" "tk_state (sl_task x) \<noteq> TaskEmpty" for x
    using t x em set_update_subset_insert [of "slots K" i ProcessSlot_empty] by auto
  ultimately have "table_inv (k_table (update_slot i (\<lambda>_. ProcessSlot_empty) K))"
    using t by (simp add: table_inv_def)
  moreover have "map sl_address_space ?new = (spaces K)[i := AddressSpace_empty]"
    by (simp add: map_update ProcessSlot_empty_def)
  ultimately show ?thesis
    using assms system_inv_forget [OF kernel_invD(4) [OF assms], of i] by (simp add: kernel_inv_def)
qed

lemma wait_child_inv [inv_intros]:
  assumes "kernel_inv E K"
  shows "kernel_inv E (snd (wait_child parent child_task K))"
proof (cases "find_task (k_table K) parent")
  case (Some i)
  obtain b s where b: "block_task (k_sched K) parent = (b, s)" by fastforce
  have "sched_known (pt_next_task_id (k_table K)) s" using sched_steps(1) [OF assms, of parent] b by simp
  then have k: "kernel_inv E (K\<lparr>k_sched := s\<rparr>)" using assms by (intro inv_intros)
  show ?thesis
    using k assms Some b find_task_Some [OF Some]
    by (auto simp: wait_child_def Let_def keeps_identity_def split: option.split
        intro!: update_table_inv update_task_inv empty_slot_inv)
qed (simp add: wait_child_def assms)

lemma destroy_slot:
  assumes "kernel_inv E K" "destroy (k_vm K) (sl_address_space (slots K ! i)) = (r, s, vm)" "i < MAX_TASKS"
  shows "system_inv E (vm, (spaces K)[i := s])"
proof (rule system_inv_step [OF kernel_invD(4) [OF assms(1)]], rule step_destroy)
  show "i < length (spaces K)" using assms kernel_invD(5) [OF assms(1)] by simp
  then show "destroy (k_vm K) (spaces K ! i) = (r, s, vm)" using assms(2) by simp
qed

lemma cleanup_task_inv [inv_intros]:
  assumes "kernel_inv E K"
  shows "kernel_inv E (snd (cleanup_task t K))"
proof (cases "find_task (k_table K) t")
  case (Some i)
  note f = find_task_Some [OF Some]
  define h where "h = (if tk_heap_allocation (task_at K i) = 0 then (False, k_heap K)
                  else case heap_free (k_heap K) (tk_heap_allocation (task_at K i)) of
                         (Inr _, h) \<Rightarrow> (True, h) | (Inl _, h) \<Rightarrow> (False, h))"
  obtain b h' where h': "h = (b, h')" by fastforce
  obtain e s where u: "unregister (k_ipc K) t = (e, s)" by fastforce
  obtain r sp vm where d: "destroy (k_vm K) (sl_address_space (slots K ! i)) = (r, sp, vm)" by (metis prod_cases3)
  have "heap_inv h'"
    using h' heap_ops(2) [OF kernel_invD(6) [OF assms]] kernel_invD(6) [OF assms]
    unfolding h_def by (auto split: if_splits prod.splits sum.splits)
  moreover have "ipc_inv s" using unregister_inv [OF kernel_invD(3) [OF assms], of t] u by simp
  ultimately have K1: "kernel_inv E (K\<lparr>k_heap := h', k_ipc := s\<rparr>)" using assms by (intro inv_intros)
  have "system_inv E (vm, (spaces K)[i := sp])"
    by (rule destroy_slot [OF assms d]) (use f(1) kernel_invD(5) [OF assms] in simp)
  then have K2: "kernel_inv E (update_slot i (\<lambda>slot. slot\<lparr>sl_address_space := sp\<rparr>) (K\<lparr>k_heap := h', k_ipc := s, k_vm := vm\<rparr>))"
    using replace_space_inv [OF K1, of vm i sp] by simp
  show ?thesis
    using assms Some u d K2 h' f
    by (auto simp: cleanup_task_def Let_def h_def [symmetric] keeps_identity_def split: prod.split sum.split
        intro!: update_table_inv update_task_inv)
qed (simp add: cleanup_task_def assms)

end
