(* ===== verification/Kernel_Spawn.thy ===== *)
theory Kernel_Spawn
  imports Kernel_Ops
begin

unbundle bit_operations_syntax

text \<open>
  Creating tasks: an address space that was just built is pending until it is placed in a slot
  of the process table or destroyed. Task numbers are never used twice as long as the counter
  has not reached its end.
\<close>

section \<open>Pending spaces\<close>

definition pending :: "u64 set \<Rightarrow> AddressSpace \<Rightarrow> Kernel \<Rightarrow> bool" where
  "pending E s K \<longleftrightarrow> table_inv (k_table K) \<and> sched_known (pt_next_task_id (k_table K)) (k_sched K)
     \<and> ipc_inv (k_ipc K) \<and> heap_inv (k_heap K) \<and> system_inv E (k_vm K, spaces K @ [s])"

lemma pending_empty: "kernel_inv E K \<Longrightarrow> pending E AddressSpace_empty K"
  by (simp add: kernel_inv_def pending_def system_inv_extend)

lemma pending_kernel: "pending E s K \<Longrightarrow> kernel_inv E K"
  using system_inv_last by (auto simp: kernel_inv_def pending_def)

lemma pending_heap: "pending E s K \<Longrightarrow> heap_inv h \<Longrightarrow> pending E s (K\<lparr>k_heap := h\<rparr>)"
  by (simp add: pending_def)

lemma pending_alloc:
  "pending E s K \<Longrightarrow> heap_alloc (k_heap K) n al = (r, h) \<Longrightarrow> pending E s (K\<lparr>k_heap := h\<rparr>)"
  by (rule pending_heap) (auto simp: pending_def intro: heap_ops)

lemma pending_ipc: "pending E s K \<Longrightarrow> ipc_inv c \<Longrightarrow> pending E s (K\<lparr>k_ipc := c\<rparr>)"
  by (simp add: pending_def)

lemma fail_spawn_inv [inv_intros]: "kernel_inv E K \<Longrightarrow> kernel_inv E (fail_spawn K)"
  by (auto simp: fail_spawn_def intro!: inv_intros)

lemma drop_space_inv:
  assumes "pending E s K"
  shows "kernel_inv E (drop_space s K)"
proof -
  obtain r s' vm where d: "destroy (k_vm K) s = (r, s', vm)" by (metis prod_cases3)
  have p: "system_inv E (k_vm K, spaces K @ [s])" using assms by (simp add: pending_def)
  have "system_step (k_vm K, spaces K @ [s]) (vm, (spaces K @ [s])[length (spaces K) := s'])"
    by (rule step_destroy) (use d in \<open>simp_all add: nth_append\<close>)
  moreover have "(spaces K @ [s])[length (spaces K) := s'] = spaces K @ [s']" by (simp add: list_update_append)
  ultimately have "system_inv E (vm, spaces K @ [s'])" using system_inv_step [OF p] by metis
  then have "system_inv E (vm, spaces K)" by (rule system_inv_last)
  then show ?thesis
    using vm_update_inv [OF pending_kernel [OF assms]] d by (simp add: drop_space_def)
qed

section \<open>Installing a task\<close>

lemma table_inv_next:
  assumes "table_inv p" "pt_next_task_id p \<noteq> - 1"
  shows "pt_next_task_id p < sat_add (pt_next_task_id p) 1"
    "table_inv (p\<lparr>pt_next_task_id := sat_add (pt_next_task_id p) 1\<rparr>)"
proof -
  let ?n = "pt_next_task_id p"
  have "unat ?n \<noteq> 2 ^ 64 - 1"
  proof
    assume "unat ?n = 2 ^ 64 - 1"
    moreover have "unat (- 1 :: u64) = 2 ^ 64 - 1" by (simp add: unsigned_minus_1_eq_mask mask_eq_exp_minus_1)
    ultimately show False using assms(2) by (simp add: word_unat_eq_iff)
  qed
  moreover have "unat ?n < 2 ^ 64" using unsigned_less [where ?'a = nat, of ?n] by simp
  ultimately have "unat ?n + unat (1 :: u64) < 2 ^ 64" by simp
  then have lt: "unat ?n < unat (sat_add ?n 1)" by (simp add: unat_sat_add)
  then show n: "?n < sat_add ?n 1" by (simp add: word_less_nat_alt)
  then have "sat_add ?n 1 \<noteq> 0" by auto
  then show "table_inv (p\<lparr>pt_next_task_id := sat_add ?n 1\<rparr>)"
    using assms(1) n unfolding table_inv_def by (auto intro: order_less_trans)
qed

lemma table_inv_install:
  assumes "table_inv p" "pt_next_task_id p = sat_add t 1" "t \<noteq> 0" "t < sat_add t 1" "tk_id (sl_task slot) = t"
    "\<And>x. x \<in> set (pt_slots p) \<Longrightarrow> tk_state (sl_task x) \<noteq> TaskEmpty \<Longrightarrow> tk_id (sl_task x) < t"
  shows "table_inv (p\<lparr>pt_slots := (pt_slots p)[i := slot]\<rparr>)"
proof (cases "i < MAX_TASKS")
  case True
  let ?new = "(pt_slots p)[i := slot]"
  note T = assms(1) [unfolded table_inv_def]
  have len: "length (pt_slots p) = MAX_TASKS" using T by simp
  have nth: "?new ! j = (if j = i then slot else pt_slots p ! j)" if "j < MAX_TASKS" for j
    using that True len by simp
  have lt: "tk_id (sl_task (pt_slots p ! j)) < t"
    if "j < MAX_TASKS" "tk_state (sl_task (pt_slots p ! j)) \<noteq> TaskEmpty" for j
    using assms(6) that len by simp
  have ne: "tk_id (sl_task (?new ! j)) \<noteq> tk_id (sl_task (?new ! k))"
    if "j < MAX_TASKS" "k < MAX_TASKS" "j \<noteq> k" "tk_state (sl_task (?new ! j)) \<noteq> TaskEmpty"
      "tk_state (sl_task (?new ! k)) \<noteq> TaskEmpty" for j k
  proof -
    consider "j = i" | "k = i" | "j \<noteq> i" "k \<noteq> i" by blast
    then show ?thesis
    proof cases
      case 1
      with lt [of k] nth that assms(5) show ?thesis by auto
    next
      case 2
      with lt [of j] nth that assms(5) show ?thesis by auto
    next
      case 3
      with T nth that show ?thesis by auto
    qed
  qed
  moreover have "tk_id (sl_task x) \<noteq> 0 \<and> tk_id (sl_task x) < pt_next_task_id p"
    if x: "x \<in> set ?new" "tk_state (sl_task x) \<noteq> TaskEmpty" for x
    using set_update_subset_insert [of "pt_slots p" i slot] x T assms(2-5) by auto
  ultimately show ?thesis using T by (simp add: table_inv_def)
next
  case False
  then have "(pt_slots p)[i := slot] = pt_slots p" using assms(1) by (simp add: table_inv_def list_update_beyond)
  then show ?thesis using assms(1) by simp
qed

lemma install_task_inv:
  assumes P: "pending E space K" and n: "pt_next_task_id (k_table K) \<noteq> - 1"
  shows "kernel_inv E (snd (install_task entry_point stack_top parent_id space first_frame user_pages table_pages heap_address K))"
proof -
  define K1 where "K1 = update_table proc_init K"
  define t where "t = pt_next_task_id (k_table K)"
  have pi: "pt_slots (proc_init p) = pt_slots p" "pt_next_task_id (proc_init p) = pt_next_task_id p" for p
    by (simp_all add: proc_init_def)
  have K1: "pending E space K1" "pt_next_task_id (k_table K1) = t"
    using P table_inv_slots [OF _ pi] by (simp_all add: pending_def K1_def pi t_def)
  note d1 = drop_space_inv [OF K1(1)]
  show ?thesis
  proof (cases "free_slot (k_table K1)")
    case None
    then show ?thesis using d1 by (simp add: install_task_def Let_def K1_def [symmetric] fail_spawn_inv)
  next
    case (Some i)
    then have i: "i < MAX_TASKS"
      using position_SomeD [OF Some [unfolded free_slot_def]] K1(1) by (simp add: pending_def table_inv_def)
    define K2 where "K2 = update_table (\<lambda>p. p\<lparr>pt_next_task_id := sat_add (pt_next_task_id p) 1\<rparr>) K1"
    have T1: "table_inv (k_table K1)" using K1(1) by (simp add: pending_def)
    note nx = table_inv_next [OF T1, unfolded K1(2)]
    have tn: "t \<noteq> - 1" using n by (simp add: t_def)
    have lt: "t < sat_add t 1" using nx(1) tn by simp
    have known: "sched_known t (k_sched K1)" using K1 by (simp add: pending_def)
    then have "sched_known (sat_add t 1) (k_sched K1)" using lt by (auto simp: sched_known_def intro: order_less_trans)
    then have K2: "pending E space K2" using K1 nx(2) tn by (simp add: pending_def K2_def)
    obtain r s where r: "register (k_ipc K2) t = (r, s)" by fastforce
    have "ipc_inv s" using register_inv [of "k_ipc K2" t] K2 r by (simp add: pending_def)
    then have K3: "pending E space (K2\<lparr>k_ipc := s\<rparr>)" by (rule pending_ipc [OF K2])
    show ?thesis
    proof (cases r)
      case (Inl e)
      then show ?thesis using Some r drop_space_inv [OF K3] K1(2)
        by (simp add: install_task_def Let_def K1_def [symmetric] K2_def [symmetric] fail_spawn_inv)
    next
      case (Inr u)
      define slot where "slot = \<lparr>sl_task = Task_empty\<lparr>tk_id := t, tk_parent_id := parent_id, tk_state := TaskReady,
                           tk_entry_point := entry_point, tk_stack_top := stack_top,
                           tk_address_space_root := root_frame space,
                           tk_first_user_frame := first_frame, tk_owned_user_pages := user_pages,
                           tk_owned_table_frames := table_pages, tk_heap_allocation := heap_address,
                           tk_resources_active := True\<rparr>, sl_address_space = space,
                           sl_timer_context = initial_timer_context entry_point stack_top, sl_context_valid = True\<rparr>"
      have T2: "table_inv (k_table K2)" "pt_next_task_id (k_table K2) = sat_add t 1" "slots K2 = slots K1"
        using K2 K1(2) by (simp_all add: pending_def K2_def)
      have "table_inv ((k_table K2)\<lparr>pt_slots := (slots K2)[i := slot]\<rparr>)"
      proof (rule table_inv_install [OF T2(1,2) _ lt])
        show "t \<noteq> 0" using T1 K1(2) by (simp add: table_inv_def)
        show "tk_id (sl_task slot) = t" by (simp add: slot_def)
        show "tk_id (sl_task x) < t" if "x \<in> set (slots K2)" "tk_state (sl_task x) \<noteq> TaskEmpty" for x
          using that T1 K1(2) T2(3) by (simp add: table_inv_def)
      qed
      moreover have "system_inv E (k_vm K2, (spaces K2)[i := space])"
        by (rule system_inv_place) (use K2 i T2(1) in \<open>simp_all add: pending_def table_inv_def\<close>)
      moreover have "map sl_address_space ((slots K2)[i := slot]) = (spaces K2)[i := space]"
        by (simp add: map_update slot_def)
      ultimately have K4: "kernel_inv E (update_slot i (\<lambda>_. slot) (K2\<lparr>k_ipc := s\<rparr>))"
        using K3 by (simp add: kernel_inv_def pending_def update_slot_def)
      define K5 where "K5 = update_table (\<lambda>p. p\<lparr>pt_spawned_tasks := sat_add (pt_spawned_tasks p) 1,
                               pt_active_resources := sat_add (pt_active_resources p) 1,
                               pt_last_task_id := t\<rparr>) (update_slot i (\<lambda>_. slot) (K2\<lparr>k_ipc := s\<rparr>))"
      have K5: "kernel_inv E K5" unfolding K5_def by (rule update_table_inv [OF K4]) simp_all
      have "t \<notin> set (blocked_tasks (k_sched K1))" using known by (auto simp: sched_known_def all_tasks_def)
      from enqueue_known [OF known this lt] lt
      have "sched_known (pt_next_task_id (k_table K5)) (snd (enqueue (k_sched K5) t))"
        using T2(2) by (simp add: K5_def K2_def)
      then have "kernel_inv E (K5\<lparr>k_sched := snd (enqueue (k_sched K5) t)\<rparr>)" using K5 by (intro inv_intros)
      then show ?thesis using Some r Inr K1(2)
        by (simp add: install_task_def Let_def K1_def [symmetric] K2_def [symmetric] slot_def [symmetric] K5_def)
    qed
  qed
qed

section \<open>Spawning\<close>

lemma install_or_free_inv:
  assumes "pending E space K" "pt_next_task_id (k_table K) \<noteq> - 1"
  shows "kernel_inv E (snd (install_or_free entry_point stack_top parent_id space first_frame user_pages table_pages heap_address K))"
proof -
  obtain r K1 where i: "install_task entry_point stack_top parent_id space first_frame user_pages table_pages heap_address K = (r, K1)"
    by fastforce
  have K1: "kernel_inv E K1"
    using install_task_inv [OF assms, of entry_point stack_top parent_id first_frame user_pages table_pages heap_address] i by simp
  obtain q h where f: "heap_free (k_heap K1) heap_address = (q, h)" by fastforce
  have "kernel_inv E (K1\<lparr>k_heap := h\<rparr>)" using K1 heap_ops(2) [OF kernel_invD(6) [OF K1] f] by (intro inv_intros)
  then show ?thesis using i f K1 by (cases r) (simp_all add: install_or_free_def)
qed

lemma spawn_legacy_inv:
  assumes "kernel_inv E K" "pt_next_task_id (k_table K) \<noteq> - 1"
  shows "kernel_inv E (snd (spawn_legacy entry_point stack_top K))"
proof -
  obtain r h where a: "heap_alloc (k_heap K) TASK_HEAP_BYTES TASK_HEAP_ALIGNMENT = (r, h)" by fastforce
  have P: "pending E AddressSpace_empty (K\<lparr>k_heap := h\<rparr>)" by (rule pending_alloc [OF pending_empty [OF assms(1)] a])
  show ?thesis using a assms(2) pending_kernel [OF P] install_or_free_inv [OF P]
    by (cases r) (simp_all add: spawn_legacy_def fail_spawn_inv)
qed

lemma spawn_image_inv:
  assumes "pending E (pi_address_space img) K" "pt_next_task_id (k_table K) \<noteq> - 1"
  shows "kernel_inv E (snd (spawn_image parent_id img K))"
proof -
  obtain r h where a: "heap_alloc (k_heap K) TASK_HEAP_BYTES TASK_HEAP_ALIGNMENT = (r, h)" by fastforce
  note P = pending_alloc [OF assms(1) a]
  show ?thesis using a assms(2) drop_space_inv [OF P] install_or_free_inv [OF P]
    by (cases r) (simp_all add: spawn_image_def fail_spawn_inv)
qed

lemma find_file_length:
  assumes "find_file mem a path = Some f"
  shows "length (file_data f) < 2 ^ 64"
proof -
  obtain bytes requested where b: "archive_bytes mem a = Some bytes" "find_loop bytes requested 0 = Some f"
    using assms by (auto simp: find_file_def split: option.splits)
  have "length bytes < 2 ^ 64"
    using b(1) unsigned_less [where ?'a = nat, of "as_module_end a - as_module_start a"]
    by (auto simp: archive_bytes_def raw_bytes_def split: if_splits)
  moreover have "length (file_data f) \<le> length bytes" using find_loop_confined [OF b(2)] by (auto simp: Slices.slice_def)
  ultimately show ?thesis by simp
qed

lemma create_process_image_inv:
  assumes "kernel_inv E K" "create_process_image (k_archive K) (k_vm K) = (r, vm)"
  shows "r = Inl e \<Longrightarrow> kernel_inv E (K\<lparr>k_vm := vm\<rparr>)" "r = Inr img \<Longrightarrow> pending E (pi_address_space img) (K\<lparr>k_vm := vm\<rparr>)"
proof -
  note S = kernel_invD(4) [OF assms(1)]
  show "kernel_inv E (K\<lparr>k_vm := vm\<rparr>)" if "r = Inl e"
  proof (cases "find_file (vm_phys (k_vm K)) (k_archive K) (ascii ''/bin/init'')")
    case None
    then have "vm = k_vm K" using assms(2) by (simp add: create_process_image_def)
    then show ?thesis using assms(1) S by (intro inv_intros) simp_all
  next
    case (Some f)
    then have "process_from_image (file_data f) (k_vm K) = (Inl e, vm)" using assms(2) that by (simp add: create_process_image_def)
    from system_inv_step [OF S step_load_error [OF find_file_length [OF Some] this]] show ?thesis
      using assms(1) by (intro inv_intros)
  qed
  show "pending E (pi_address_space img) (K\<lparr>k_vm := vm\<rparr>)" if r: "r = Inr img"
  proof -
    obtain f where f: "find_file (vm_phys (k_vm K)) (k_archive K) (ascii ''/bin/init'') = Some f"
      "process_from_image (file_data f) (k_vm K) = (Inr img, vm)"
      using assms(2) unfolding create_process_image_def r
      by (cases "find_file (vm_phys (k_vm K)) (k_archive K) (ascii ''/bin/init'')") simp_all
    from system_inv_step [OF S step_load [OF find_file_length [OF f(1)] f(2)]] show ?thesis
      using assms(1) by (simp add: kernel_inv_def pending_def)
  qed
qed

lemma spawn_elf_child_inv:
  assumes "kernel_inv E K" "pt_next_task_id (k_table K) \<noteq> - 1"
  shows "kernel_inv E (snd (spawn_elf_child parent_id K))"
proof -
  obtain r vm where c: "create_process_image (k_archive K) (k_vm K) = (r, vm)" by fastforce
  note i = create_process_image_inv [OF assms(1) c]
  show ?thesis
    using assms c i fail_spawn_inv [OF assms(1)]
    by (cases r) (auto simp: spawn_elf_child_def intro!: fail_spawn_inv spawn_image_inv)
qed

section \<open>Writing to the pages of a space\<close>

lemma system_inv_contents:
  assumes "system_inv E (vm, ss)" "i < length ss" "space_inv vm (ss ! i)"
    "only_changes (page_frames (ss ! i)) (vm_phys vm) mem"
  shows "system_inv E (vm\<lparr>vm_phys := mem\<rparr>, ss)"
proof -
  let ?vm = "vm\<lparr>vm_phys := mem\<rparr>"
  have o: "page_frames (ss ! i) \<subseteq> owned (ss ! i)" by (auto simp: page_frames_def owned_def)
  have "owned (ss ! i) \<subseteq> vm_live vm" using assms(3) by (rule space_invE)
  then have "effect vm (ss ! i) ?vm (ss ! i)"
    using system_tables(1) [OF assms(1)] only_changes_mono [OF assms(4) o] by (intro effect_phys)
  then have "system_inv E (?vm, ss[i := ss ! i])"
    using space_inv_contents [OF assms(3,4)] by (intro system_effect [OF assms(1,2)]) simp_all
  then show ?thesis by simp
qed

lemma spawn_preempt_task_inv:
  assumes "kernel_inv E K" "pt_next_task_id (k_table K) \<noteq> - 1"
    and e: "\<And>img vm. create_process_image (k_archive K) (k_vm K) = (Inr img, vm) \<Longrightarrow>
      unat (pi_entry_point img AND 0xfff) + 4 \<le> 4096"
  shows "kernel_inv E (snd (spawn_preempt_task K))"
proof -
  obtain r vm where c: "create_process_image (k_archive K) (k_vm K) = (r, vm)" by fastforce
  note i = create_process_image_inv [OF assms(1) c]
  show ?thesis
  proof (cases r)
    case (Inl er)
    then show ?thesis using i(1) c by (simp add: spawn_preempt_task_def fail_spawn_inv)
  next
    case (Inr img)
    let ?s = "pi_address_space img" and ?v = "pi_entry_point img"
    define tr where "tr = space_translate vm ?s ?v"
    define mem where "mem = copy_in (vm_phys vm) (tr_phys tr) SPIN_PROGRAM"
    have P: "pending E ?s (K\<lparr>k_vm := vm\<rparr>)" using i(2) Inr by simp
    have S: "system_inv E (vm, spaces K @ [?s])" using P by (simp add: pending_def)
    show ?thesis
    proof (cases "tr_mapped tr \<and> tr_user_accessible tr \<and> tr_executable tr")
      case False
      then show ?thesis using c Inr drop_space_inv [OF P]
        by (simp add: spawn_preempt_task_def Let_def tr_def [symmetric] fail_spawn_inv)
    next
      case True
      have "?s \<noteq> AddressSpace_empty"
        using True by (auto simp: tr_def space_translate_def unmapped_def AddressSpace_empty_def)
      then have inv: "space_inv vm ?s" using S by (auto simp: system_inv_def)
      have "accessible vm ?s False ?v" using True by (simp add: accessible_def tr_def)
      then obtain f p where m: "map_of (pages ?s) (page_of (canon ?v)) = Some (f, p)"
        and ph: "tr_phys tr = phys_of ?s (canon ?v)" unfolding tr_def by (rule accessibleE [OF inv])
      have "tr_phys tr AND 0xfff = ?v AND 0xfff"
        using phys_of_page(2) [OF inv m] canon_low [of "0xfff" ?v] by (simp add: ph)
      moreover have "length SPIN_PROGRAM = 4" by (simp add: SPIN_PROGRAM_def)
      ultimately have "unat (tr_phys tr AND 0xfff) + length SPIN_PROGRAM \<le> 4096" using e c Inr by simp
      from copy_in_page [OF this, of "vm_phys vm"] have "only_changes (page_frames ?s) (vm_phys vm) mem"
        using phys_of_page(1,3) [OF inv m] by (auto simp: mem_def ph only_changes_def)
      then have "system_inv E (vm\<lparr>vm_phys := mem\<rparr>, spaces K @ [?s])"
        using system_inv_contents [OF S, of "length (spaces K)" mem] inv by (simp add: nth_append)
      then have "pending E ?s (K\<lparr>k_vm := vm\<lparr>vm_phys := mem\<rparr>\<rparr>)" using P by (simp add: pending_def)
      then show ?thesis using spawn_image_inv c Inr True assms(2)
        by (simp add: spawn_preempt_task_def Let_def tr_def [symmetric] mem_def [symmetric])
    qed
  qed
qed

end
