(* ===== verification/Kernel_Calls.thy ===== *)
theory Kernel_Calls
  imports Kernel_Spawn
begin

text \<open>
  The calls that system calls make, on the invariant of the kernel, and what they may change:
  of virtual memory at most the pages of the task that receives a message.
\<close>

section \<open>Mailbox calls\<close>

lemma with_ipc_inv:
  assumes "kernel_inv E K" "\<And>s. ipc_inv s \<Longrightarrow> ipc_inv (snd (f s))"
  shows "kernel_inv E (snd (with_ipc f K))"
  using assms(2) [OF kernel_invD(3) [OF assms(1)]] assms(1)
  by (auto simp: with_ipc_def split: prod.split intro!: inv_intros)

lemma update_ipc_inv:
  "kernel_inv E K \<Longrightarrow> ipc_inv (f (k_ipc K)) \<Longrightarrow> kernel_inv E (update_ipc f K)"
  by (auto simp: update_ipc_def intro: inv_intros)

lemma ipc_counters [simp]:
  "ipc_inv (s\<lparr>blocked_receives := a\<rparr>) = ipc_inv s" "ipc_inv (s\<lparr>receiver_wakeups := a\<rparr>) = ipc_inv s"
  "ipc_inv (s\<lparr>cancellation_requests := a\<rparr>) = ipc_inv s" "ipc_inv (s\<lparr>cancellation_successes := a\<rparr>) = ipc_inv s"
  by (simp_all add: ipc_inv_def)

text \<open>What a kernel operation leaves alone: virtual memory, the heap, the archive, time, and who owns what.\<close>

definition same_owner :: "ProcessSlot \<Rightarrow> ProcessSlot \<Rightarrow> bool" where
  "same_owner a b \<longleftrightarrow> sl_address_space b = sl_address_space a \<and> tk_id (sl_task b) = tk_id (sl_task a)
     \<and> tk_address_space_root (sl_task b) = tk_address_space_root (sl_task a)
     \<and> tk_parent_id (sl_task b) = tk_parent_id (sl_task a)
     \<and> tk_resources_active (sl_task b) = tk_resources_active (sl_task a)
     \<and> (tk_state (sl_task b) = TaskEmpty \<longleftrightarrow> tk_state (sl_task a) = TaskEmpty)"

definition same_memory :: "Kernel \<Rightarrow> Kernel \<Rightarrow> bool" where
  "same_memory K K' \<longleftrightarrow> k_vm K' = k_vm K \<and> k_heap K' = k_heap K \<and> k_archive K' = k_archive K
     \<and> k_ticks K' = k_ticks K \<and> pt_next_task_id (k_table K') = pt_next_task_id (k_table K)
     \<and> list_all2 same_owner (slots K) (slots K')"

lemma same_owner_refl [simp]: "same_owner a a"
  by (simp add: same_owner_def)

lemma same_memory_refl [simp]: "same_memory K K"
  by (simp add: same_memory_def list_all2_refl)

lemma same_memory_trans: "same_memory K K1 \<Longrightarrow> same_memory K1 K2 \<Longrightarrow> same_memory K K2"
proof -
  assume a: "same_memory K K1" "same_memory K1 K2"
  have "list_all2 same_owner (slots K) (slots K2)"
    by (rule list_all2_trans [of same_owner same_owner same_owner _ "slots K1"])
      (use a in \<open>simp_all add: same_memory_def same_owner_def\<close>)
  then show ?thesis using a by (simp add: same_memory_def)
qed

lemma same_memory_fields [simp]:
  "same_memory K (K\<lparr>k_sched := s\<rparr>)" "same_memory K (K\<lparr>k_ipc := c\<rparr>)" "same_memory K (update_ipc f K)"
  "same_memory K (snd (with_ipc g K))"
  by (simp_all add: same_memory_def update_ipc_def with_ipc_def list_all2_refl split: prod.split)

lemma same_memory_table:
  "pt_slots (f (k_table K)) = slots K \<Longrightarrow> pt_next_task_id (f (k_table K)) = pt_next_task_id (k_table K) \<Longrightarrow>
    same_memory K (update_table f K)"
  by (simp add: same_memory_def list_all2_refl)

lemma same_memory_slot:
  assumes "same_owner (slots K ! i) (f (slots K ! i))"
  shows "same_memory K (update_slot i f K)"
proof (cases "i < length (slots K)")
  case True
  have "list_all2 same_owner ((slots K)[i := slots K ! i]) ((slots K)[i := f (slots K ! i)])"
    by (rule list_all2_update_cong) (use assms in \<open>simp_all add: list_all2_refl\<close>)
  then show ?thesis by (simp add: same_memory_def)
qed (simp add: same_memory_def list_all2_refl list_update_beyond)

lemma same_memory_task:
  assumes "same_owner (slots K ! i) ((slots K ! i)\<lparr>sl_task := f (task_at K i)\<rparr>)"
  shows "same_memory K (update_task i f K)"
  unfolding update_task_def by (rule same_memory_slot) (use assms in simp)

lemma same_memory_find:
  assumes "same_memory K K'"
  shows "find_task (k_table K') t = find_task (k_table K) t" "spaces K' = spaces K" "length (slots K') = length (slots K)"
proof -
  have a: "list_all2 same_owner (slots K) (slots K')" using assms by (simp add: same_memory_def)
  show l: "length (slots K') = length (slots K)" using list_all2_lengthD [OF a] by simp
  have n: "same_owner (slots K ! i) (slots K' ! i)" if "i < length (slots K)" for i
    using a that by (rule list_all2_nthD)
  show "spaces K' = spaces K" using l n by (intro nth_equalityI) (simp_all add: same_owner_def)
  have "position P (slots K') = position Q (slots K)"
    if "\<And>a b. same_owner a b \<Longrightarrow> P b = Q a" for P Q
    using a that by (induction rule: list_all2_induct) auto
  then show "find_task (k_table K') t = find_task (k_table K) t"
    unfolding find_task_def by (auto simp: same_owner_def)
qed

section \<open>Blocking and waking\<close>

lemma block_for_ipc_memory: "same_memory K (snd (block_for_ipc t K))"
proof (cases "find_task (k_table K) t")
  case (Some i)
  then show ?thesis
    using find_task_Some [OF Some]
    by (auto simp: block_for_ipc_def Let_def same_owner_def split: prod.split bool.split
        intro!: same_memory_trans [OF same_memory_fields(1) same_memory_task])
qed (simp add: block_for_ipc_def)

lemma wake_ipc_task_memory: "same_memory K (snd (wake_ipc_task reason t K))"
proof (cases "find_task (k_table K) t")
  case (Some i)
  then show ?thesis
    using find_task_Some [OF Some]
    by (auto simp: wake_ipc_task_def Let_def same_owner_def split: prod.split bool.split
        intro!: same_memory_trans [OF same_memory_fields(1) same_memory_task])
qed (simp add: wake_ipc_task_def)

lemma cancel_ipc_wait_memory: "same_memory K (snd (cancel_ipc_wait t K))"
  using wake_ipc_task_memory [of K WakeCancelled t]
  by (auto simp: cancel_ipc_wait_def split: prod.split bool.split intro!: same_memory_trans [OF _ same_memory_table])

lemma take_ipc_wake_reason_memory: "same_memory K (snd (take_ipc_wake_reason t K))"
proof (cases "find_task (k_table K) t")
  case (Some i)
  have 1: "same_memory K (update_task i (\<lambda>task. task\<lparr>tk_ipc_wake_reason := WakeNone\<rparr>) K)"
    by (rule same_memory_task) (simp add: same_owner_def)
  have 2: "same_memory K' (complete_restart (update_task i (\<lambda>task. task\<lparr>tk_ipc_restart_pending := False\<rparr>) K'))" for K'
    unfolding complete_restart_def
    by (rule same_memory_trans [OF same_memory_task same_memory_table]) (simp_all add: same_owner_def)
  show ?thesis using Some 1 same_memory_trans [OF 1 2]
    by (simp add: take_ipc_wake_reason_def Let_def)
qed (simp add: take_ipc_wake_reason_def)

lemma complete_ipc_restart_memory: "same_memory K (snd (complete_ipc_restart t K))"
proof (cases "find_task (k_table K) t")
  case (Some i)
  have "same_memory K (complete_restart (update_task i (\<lambda>task. task\<lparr>tk_ipc_restart_pending := False,
                 tk_ipc_deadline_tick := 0, tk_ipc_wake_reason := WakeNone\<rparr>) K))"
    unfolding complete_restart_def
    by (rule same_memory_trans [OF same_memory_task same_memory_table]) (simp_all add: same_owner_def)
  then show ?thesis using Some by (simp add: complete_ipc_restart_def)
qed (simp add: complete_ipc_restart_def)

lemma block_for_ipc_syscall_memory: "same_memory K (snd (snd (block_for_ipc_syscall t frame deadline K)))"
proof (cases "find_task (k_table K) t")
  case (Some i)
  define K1 where "K1 = update_slot i (\<lambda>slot. slot\<lparr>
      sl_timer_context := save_syscall_context (sl_timer_context slot) frame True, sl_context_valid := True\<rparr>) K"
  obtain d s where d: "block_current_and_dispatch (k_sched K1) t = (d, s)" by fastforce
  define K2 where "K2 = K1\<lparr>k_sched := s\<rparr>"
  have "same_memory K K1" unfolding K1_def by (rule same_memory_slot) (simp add: same_owner_def)
  then have m: "same_memory K K2" unfolding K2_def by (rule same_memory_trans) simp
  have i: "tk_state (task_at K2 i) \<noteq> TaskEmpty"
    using find_task_Some [OF Some] by (simp add: K1_def K2_def)
  show ?thesis
  proof (cases "find_task (k_table K2) (next_task d)")
    case None
    then show ?thesis using m \<open>find_task (k_table K) t = Some i\<close> d
      by (simp add: block_for_ipc_syscall_def Let_def K1_def [symmetric] K2_def [symmetric])
  next
    case (Some j)
    define f :: "Task \<Rightarrow> Task" where "f = (\<lambda>task. task\<lparr>tk_state := TaskBlocked, tk_ipc_waiting := True,
                  tk_ipc_restart_pending := True, tk_ipc_deadline_tick := deadline, tk_ipc_wake_reason := WakeNone\<rparr>)"
    have 1: "same_memory K2 (update_task i f K2)"
      by (rule same_memory_task) (use i in \<open>simp add: f_def same_owner_def\<close>)
    have "tk_state (task_at (update_task i f K2) j) \<noteq> TaskEmpty"
      using find_task_Some(2) [OF Some] by (simp only: slot_update(2) f_def split: if_split) simp
    then have 2: "same_memory (update_task i f K2) (update_task j (dispatched ticks waited) (update_task i f K2))" for ticks waited
      by (intro same_memory_task) (simp only: same_owner_def, simp add: dispatched_def)
    have "same_memory K (update_table c (update_task j (dispatched ticks waited) (update_task i f K2)))"
      if "\<And>p. pt_slots (c p) = pt_slots p" "\<And>p. pt_next_task_id (c p) = pt_next_task_id p" for c ticks waited
      by (rule same_memory_trans [OF same_memory_trans [OF m 1] same_memory_trans [OF 2 same_memory_table]])
        (simp_all only: that)
    then show ?thesis using m \<open>find_task (k_table K) t = Some i\<close> d Some i
      by (simp add: block_for_ipc_syscall_def Let_def K1_def [symmetric] K2_def [symmetric] f_def [symmetric])
  qed
qed (simp add: block_for_ipc_syscall_def)

section \<open>The calls\<close>

text \<open>An operation that keeps the invariant and the memory.\<close>

definition safe_op :: "u64 set \<Rightarrow> Kernel \<Rightarrow> Kernel \<Rightarrow> bool" where
  "safe_op E K K' \<longleftrightarrow> (kernel_inv E K \<longrightarrow> kernel_inv E K') \<and> same_memory K K'"

lemma safe_op_refl [simp]: "safe_op E K K"
  by (simp add: safe_op_def)

lemma safe_op_trans: "safe_op E K K1 \<Longrightarrow> safe_op E K1 K2 \<Longrightarrow> safe_op E K K2"
  by (auto simp: safe_op_def intro: same_memory_trans)

lemma safe_with_ipc:
  "(\<And>s. ipc_inv s \<Longrightarrow> ipc_inv (snd (f s))) \<Longrightarrow> with_ipc f K = (r, K') \<Longrightarrow> safe_op E K K'"
  using with_ipc_inv [of E K f] same_memory_fields(4) [of K f] by (auto simp: safe_op_def)

lemma safe_counters [simp]:
  "safe_op E K (update_ipc (\<lambda>s. s\<lparr>blocked_receives := a s\<rparr>) K)" "safe_op E K (update_ipc (\<lambda>s. s\<lparr>receiver_wakeups := a s\<rparr>) K)"
  "safe_op E K (update_ipc (\<lambda>s. s\<lparr>cancellation_requests := a s\<rparr>) K)"
  "safe_op E K (update_ipc (\<lambda>s. s\<lparr>cancellation_successes := a s\<rparr>) K)"
  using kernel_invD(3) [of E K] by (simp_all add: safe_op_def update_ipc_inv)

lemma safe_waiting: "safe_op E K (snd (with_ipc (\<lambda>s. set_waiting s t b) K))"
  by (rule safe_with_ipc [where f = "\<lambda>s. set_waiting s t b", OF set_waiting_inv]) (auto intro: prod.collapse [symmetric])

lemma safe_process:
  "safe_op E K (snd (block_for_ipc t K))" "safe_op E K (snd (wake_ipc_task reason t K))"
  "safe_op E K (snd (cancel_ipc_wait t K))" "safe_op E K (snd (take_ipc_wake_reason t K))"
  "safe_op E K (snd (complete_ipc_restart t K))" "safe_op E K (snd (snd (block_for_ipc_syscall t frame deadline K)))"
  by (auto simp: safe_op_def block_for_ipc_memory wake_ipc_task_memory cancel_ipc_wait_memory
      take_ipc_wake_reason_memory complete_ipc_restart_memory block_for_ipc_syscall_memory
      intro: block_for_ipc_inv wake_ipc_task_inv cancel_ipc_wait_inv take_ipc_wake_reason_inv
        complete_ipc_restart_inv block_for_ipc_syscall_inv)

end
