(* ===== verification/Syscall_Safety.thy ===== *)
theory Syscall_Safety
  imports Kernel_Calls
begin

text \<open>
  System calls are safe: each keeps the invariant of the kernel, and a byte of memory changes only
  if the calling process could itself have written it.
\<close>

section \<open>Mailbox calls\<close>

lemma finish_send_safe: "safe_op E K (snd (finish_send_locked sequence wake receiver K))"
proof -
  obtain b K1 where w: "wake_from_ipc receiver K = (b, K1)" by fastforce
  have 1: "safe_op E K K1" using safe_process(2) [of E K WakeMessage receiver] w by (simp add: wake_from_ipc_def)
  show ?thesis
    using w safe_op_trans [OF 1 safe_waiting] safe_op_trans [OF 1 safe_counters(2)]
    by (cases b) (simp_all add: finish_send_locked_def)
qed

lemma send_capability_safe: "safe_op E K (snd (ipc_send_capability sender handle bytes K))"
proof -
  obtain r K1 where s: "with_ipc (\<lambda>s. send_capability s sender handle bytes) K = (r, K1)" by fastforce
  have 1: "safe_op E K K1" by (rule safe_with_ipc [OF send_capability_inv s])
  show ?thesis using s 1 safe_op_trans [OF 1 finish_send_safe]
    by (auto simp: ipc_send_capability_def split: sum.split prod.split)
qed

lemma send_with_capability_safe:
  "safe_op E K (snd (ipc_send_with_capability sender destination transfer rights bytes K))"
proof -
  obtain r K1 where s: "with_ipc (\<lambda>s. send_with_capability s sender destination transfer rights bytes) K = (r, K1)"
    by fastforce
  have 1: "safe_op E K K1" by (rule safe_with_ipc [OF send_with_capability_inv s])
  show ?thesis
  proof (cases r)
    case (Inl e)
    then show ?thesis using s 1 by (simp add: ipc_send_with_capability_def)
  next
    case (Inr x)
    obtain sequence wake receiver h where x: "x = (sequence, wake, receiver, h)" by (metis prod_cases4)
    have "safe_op E K (snd (finish_send_locked sequence wake receiver K1))"
      by (rule safe_op_trans [OF 1 finish_send_safe])
    then show ?thesis using s Inr x
      by (auto simp: ipc_send_with_capability_def split: sum.split prod.split)
  qed
qed

lemma cancel_wait_safe: "safe_op E K (snd (cancel_wait requester handle K))"
proof -
  define K0 where "K0 = update_ipc (\<lambda>s. s\<lparr>cancellation_requests := sat_add (cancellation_requests s) 1\<rparr>) K"
  obtain r K1 where s: "with_ipc (\<lambda>s. resolve s requester handle CANCEL) K0 = (r, K1)" by fastforce
  have "safe_op E K K0" by (simp add: K0_def)
  then have 1: "safe_op E K K1" by (rule safe_op_trans) (rule safe_with_ipc [OF _ s], rule resolve_inv)
  show ?thesis
  proof (cases r)
    case (Inl e)
    then show ?thesis using s 1 by (simp add: cancel_wait_def Let_def K0_def [symmetric])
  next
    case (Inr target)
    obtain b K2 where c: "cancel_ipc_wait target K1 = (b, K2)" by fastforce
    have 2: "safe_op E K K2" using safe_op_trans [OF 1 safe_process(3), of target] c by simp
    obtain q K3 where w: "with_ipc (\<lambda>s. set_waiting s target False) K2 = (q, K3)" by fastforce
    have 3: "safe_op E K K3" using safe_op_trans [OF 2 safe_waiting, of target False] w by simp
    show ?thesis using s Inr c w 2 3 safe_op_trans [OF 3 safe_counters(4)]
      by (cases b; cases q) (simp_all add: cancel_wait_def Let_def K0_def [symmetric])
  qed
qed

lemma revoke_safe: "safe_op E K (snd (revoke_capability_tree owner handle K))"
proof -
  obtain r K1 where "with_ipc (\<lambda>s. revoke s owner handle) K = (r, K1)" by fastforce
  then have "safe_op E K K1" by (rule safe_with_ipc [rotated]) (rule revoke_inv)
  then show ?thesis using \<open>with_ipc (\<lambda>s. revoke s owner handle) K = (r, K1)\<close> by (simp add: revoke_capability_tree_def)
qed

lemma ipc_receive_safe:
  assumes "ipc_receive receiver buffer False K = (r, message, K1)"
  shows "safe_op E K K1"
proof -
  obtain q m s where v: "receive (k_ipc K) receiver buffer = (q, m, s)" by (metis prod_cases3)
  have "K1 = K\<lparr>k_ipc := s\<rparr>" using assms v by (cases q) (auto simp: ipc_receive_def Let_def)
  then show ?thesis using receive_inv [of "k_ipc K" receiver buffer] v kernel_invD(3) [of E K]
    by (auto simp: safe_op_def intro!: inv_intros)
qed

lemma block_syscall_safe: "safe_op E K (snd (snd (block_syscall receiver frame deadline K)))"
proof -
  obtain r K1 where c: "with_ipc (\<lambda>s. can_receive s receiver) K = (r, K1)" by fastforce
  have 1: "safe_op E K K1" by (rule safe_with_ipc [OF can_receive_state(1) c])
  obtain q K2 where w: "with_ipc (\<lambda>s. set_waiting s receiver True) K1 = (q, K2)" by fastforce
  have 2: "safe_op E K K2" using safe_op_trans [OF 1 safe_waiting, of receiver True] w by simp
  obtain b f K3 where b: "block_for_ipc_syscall receiver frame deadline K2 = (b, f, K3)" by (metis prod_cases3)
  have 3: "safe_op E K K3" using safe_op_trans [OF 2 safe_process(6), of receiver frame deadline] b by simp
  show ?thesis
    using c w b 1 2 safe_op_trans [OF 3 safe_waiting] safe_op_trans [OF 3 safe_counters(1)]
    by (cases r; cases q; cases b) (auto simp: block_syscall_def split: sum.split bool.split)
qed

section \<open>Writing a user buffer\<close>

text \<open>
  Memory changed at most where the task \<open>t\<close> can write: apart from that the operation is safe.
\<close>

definition confined :: "Kernel \<Rightarrow> u64 \<Rightarrow> memory \<Rightarrow> bool" where
  "confined K t mem \<longleftrightarrow> (\<forall>x. mem x \<noteq> vm_phys (k_vm K) x \<longrightarrow> (\<exists>i v. find_task (k_table K) t = Some i
     \<and> accessible (k_vm K) (sl_address_space (slots K ! i)) True v
     \<and> x = tr_phys (space_translate (k_vm K) (sl_address_space (slots K ! i)) v)))"

definition with_memory :: "memory \<Rightarrow> Kernel \<Rightarrow> Kernel" where
  "with_memory mem K = K\<lparr>k_vm := (k_vm K)\<lparr>vm_phys := mem\<rparr>\<rparr>"

definition confined_op :: "u64 set \<Rightarrow> u64 \<Rightarrow> Kernel \<Rightarrow> Kernel \<Rightarrow> bool" where
  "confined_op E t K K' \<longleftrightarrow> (kernel_inv E K \<longrightarrow> kernel_inv E K'
     \<and> (\<exists>mem. confined K t mem \<and> same_memory (with_memory mem K) K'))"

lemma with_memory_same: "with_memory (vm_phys (k_vm K)) K = K"
  by (simp add: with_memory_def)

lemma safe_confined: "safe_op E K K' \<Longrightarrow> confined_op E t K K'"
  unfolding confined_op_def safe_op_def confined_def using with_memory_same by metis

lemma same_memory_with: "same_memory K K' \<Longrightarrow> same_memory (with_memory mem K) (with_memory mem K')"
  by (simp add: same_memory_def with_memory_def)

lemma confined_same:
  assumes "same_memory K K'"
  shows "confined K' t mem = confined K t mem"
proof -
  have vm: "k_vm K' = k_vm K" using assms by (simp add: same_memory_def)
  have sp: "sl_address_space (slots K' ! i) = sl_address_space (slots K ! i)" if "find_task (k_table K) t = Some i" for i
    using same_memory_find(2,3) [OF assms] find_task_Some(1) [OF that] by (metis nth_map)
  show ?thesis unfolding confined_def vm same_memory_find(1) [OF assms] using sp by metis
qed

lemma confined_safe:
  assumes "safe_op E K K1" "confined_op E t K1 K2" "safe_op E K2 K3"
  shows "confined_op E t K K3"
  unfolding confined_op_def
proof (intro impI conjI)
  assume inv: "kernel_inv E K"
  then have K1: "kernel_inv E K1" "same_memory K K1" using assms(1) by (simp_all add: safe_op_def)
  then obtain mem where K2: "kernel_inv E K2" "confined K1 t mem" "same_memory (with_memory mem K1) K2"
    using assms(2) by (auto simp: confined_op_def)
  have K3: "same_memory K2 K3" using assms(3) by (simp add: safe_op_def)
  show "kernel_inv E K3" using assms(3) K2(1) by (simp add: safe_op_def)
  have "same_memory (with_memory mem K) K3"
    by (rule same_memory_trans [OF same_memory_with [OF K1(2)] same_memory_trans [OF K2(3) K3]])
  then show "\<exists>mem. confined K t mem \<and> same_memory (with_memory mem K) K3"
    using K2(2) confined_same [OF K1(2)] by blast
qed

lemma slot_space:
  assumes "kernel_inv E K" "find_task (k_table K) t = Some i"
  shows "sl_address_space (slots K ! i) = AddressSpace_empty \<or> space_inv (k_vm K) (sl_address_space (slots K ! i))"
    "spaces K ! i = sl_address_space (slots K ! i)" "i < length (spaces K)"
  using kernel_invD(4) [OF assms(1)] find_task_Some(1) [OF assms(2)] by (simp_all add: system_inv_def)

lemma empty_inaccessible: "\<not> accessible vm AddressSpace_empty w v"
  by (simp add: accessible_def space_translate_def unmapped_def AddressSpace_empty_def)

lemma valid_buffer:
  assumes inv: "kernel_inv E K" and v: "ub_valid (validate_user_buffer K t address (of_nat len) w)" and l: "len < 2 ^ 64"
  obtains i where "find_task (k_table K) t = Some i" "tk_address_space_root (task_at K i) \<noteq> 0" "len \<le> 2 ^ 20"
    "len \<noteq> 0 \<Longrightarrow> space_inv (k_vm K) (sl_address_space (slots K ! i))" "len \<noteq> 0 \<Longrightarrow> unat address + len \<le> 2 ^ 64"
    "\<And>k. k < len \<Longrightarrow> accessible (k_vm K) (sl_address_space (slots K ! i)) w (address + of_nat k)"
proof -
  obtain i where i: "find_task (k_table K) t = Some i"
    using v by (cases "find_task (k_table K) t") (simp_all add: validate_user_buffer_def)
  have r: "tk_address_space_root (task_at K i) \<noteq> 0"
    using v i by (auto simp: validate_user_buffer_def Let_def)
  show thesis
  proof (cases "len = 0")
    case True
    then show thesis using that [OF i r] by simp
  next
    case False
    have s: "space_inv (k_vm K) (sl_address_space (slots K ! i))"
    proof (rule ccontr)
      assume "\<not> space_inv (k_vm K) (sl_address_space (slots K ! i))"
      then have e: "sl_address_space (slots K ! i) = AddressSpace_empty" using slot_space(1) [OF inv i] by blast
      have n: "of_nat len \<noteq> (0 :: u64)" 
      proof
        assume "of_nat len = (0 :: u64)"
        then have "unat (of_nat len :: u64) = 0" by simp
        then show False using False l by (simp add: unat_of_nat)
      qed
      have "\<not> fst (check_pages (space_translate (k_vm K) AddressSpace_empty) w f p c)" for f p c
        using empty_inaccessible [of "k_vm K" False p] by (subst check_pages.simps) (auto simp: Let_def accessible_def)
      then show False using v i r n e
        by (auto simp: validate_user_buffer_def Let_def case_prod_beta split: option.splits if_splits)
    qed
    from v [unfolded validate_buffer_iff [OF i s r l]] False s show thesis using that [OF i r] by blast
  qed
qed

lemma copy_to_user_spec:
  assumes inv: "kernel_inv E K" and v: "ub_valid (validate_user_buffer K t address (of_nat (length buffer)) True)"
    and l: "length buffer < 2 ^ 64"
  shows "\<exists>mem. copy_to_user K t address buffer = (True, with_memory mem K) \<and> kernel_inv E (with_memory mem K)
    \<and> confined K t mem
    \<and> (\<forall>i k. find_task (k_table K) t = Some i \<longrightarrow> k < length buffer \<longrightarrow>
         mem (tr_phys (space_translate (k_vm K) (sl_address_space (slots K ! i)) (address + of_nat k))) = buffer ! k)
    \<and> (\<forall>i x. find_task (k_table K) t = Some i \<longrightarrow>
         (\<forall>k < length buffer. x \<noteq> tr_phys (space_translate (k_vm K) (sl_address_space (slots K ! i)) (address + of_nat k))) \<longrightarrow>
         mem x = vm_phys (k_vm K) x)"
proof -
  let ?vm = "k_vm K"
  obtain i where i: "find_task (k_table K) t = Some i" "length buffer \<le> 2 ^ 20"
    "length buffer \<noteq> 0 \<Longrightarrow> space_inv ?vm (sl_address_space (slots K ! i))" "length buffer \<noteq> 0 \<Longrightarrow> unat address + length buffer \<le> 2 ^ 64"
    "\<And>k. k < length buffer \<Longrightarrow> accessible ?vm (sl_address_space (slots K ! i)) True (address + of_nat k)"
    by (rule valid_buffer [OF inv v l]) blast
  let ?s = "sl_address_space (slots K ! i)"
  show ?thesis
  proof (cases "length buffer = 0")
    case True
    then have "copy_in_loop tr address buffer 0 mem = (True, mem)" for tr mem by (subst copy_in_loop.simps) simp
    then have "copy_to_user K t address buffer = (True, with_memory (vm_phys ?vm) K)"
      using v i(1) by (simp add: copy_to_user_def with_memory_def)
    then show ?thesis using inv True by (intro exI [of _ "vm_phys ?vm"]) (simp add: with_memory_same confined_def)
  next
    case False
    have vm: "?vm\<lparr>vm_phys := vm_phys ?vm\<rparr> = ?vm" by simp
    obtain mem where m: "copy_in_loop (\<lambda>m. space_translate (?vm\<lparr>vm_phys := m\<rparr>) ?s) address buffer 0 (vm_phys ?vm) = (True, mem)"
      "only_changes (page_frames ?s) (vm_phys ?vm) mem" "stores (byte_at ?s address) ((!) buffer) 0 (length buffer) (vm_phys ?vm) mem"
      using copy_in_spec [where vm = ?vm and mem = "vm_phys ?vm" and s = ?s and buffer = buffer and address = address and c = 0] i(2,5) i(3,4) [OF False] unfolding vm by blast
    have "copy_to_user K t address buffer = (True, with_memory mem K)"
      using v i(1) m(1) by (simp add: copy_to_user_def with_memory_def)
    moreover have "system_inv E (?vm\<lparr>vm_phys := mem\<rparr>, spaces K)"
      using system_inv_contents [OF kernel_invD(4) [OF inv], of i mem] slot_space(2,3) [OF inv i(1)] i(3) [OF False] m(2) by simp
    then have "kernel_inv E (with_memory mem K)" using inv by (simp add: with_memory_def vm_update_inv)
    moreover have b: "tr_phys (space_translate ?vm ?s (address + of_nat k)) = byte_at ?s address k" if "k < length buffer" for k
      by (rule byte_at_translate(1) [OF i(3) [OF False] i(5) [OF that]])
    then have "confined K t mem" using m(3) i(1,5) unfolding confined_def stores_def by (metis zero_le)
    moreover have "mem (tr_phys (space_translate ?vm ?s (address + of_nat k))) = buffer ! k" if "k < length buffer" for k
      using m(3) b [OF that] that by (simp add: stores_def)
    moreover have "mem x = vm_phys ?vm x" if "\<forall>k < length buffer. x \<noteq> tr_phys (space_translate ?vm ?s (address + of_nat k))" for x
      using m(3) b that by (auto simp: stores_def)
    ultimately show ?thesis using i(1) by auto
  qed
qed

lemma copy_from_user_spec:
  assumes inv: "kernel_inv E K" and i: "find_task (k_table K) t = Some i"
    and v: "ub_valid (validate_user_buffer K t address (of_nat (length buffer)) False)" and l: "length buffer < 2 ^ 64"
  shows "copy_from_user K t address buffer = (True, map (\<lambda>k. vm_phys (k_vm K)
    (tr_phys (space_translate (k_vm K) (sl_address_space (slots K ! i)) (address + of_nat k)))) [0..<length buffer])"
proof -
  let ?vm = "k_vm K" and ?s = "sl_address_space (slots K ! i)"
  obtain j where j: "find_task (k_table K) t = Some j" "length buffer \<noteq> 0 \<Longrightarrow> space_inv ?vm (sl_address_space (slots K ! j))"
    "length buffer \<noteq> 0 \<Longrightarrow> unat address + length buffer \<le> 2 ^ 64"
    "\<And>k. k < length buffer \<Longrightarrow> accessible ?vm (sl_address_space (slots K ! j)) False (address + of_nat k)"
    by (rule valid_buffer [OF inv v l]) blast
  have "j = i" using i j(1) by simp
  show ?thesis
  proof (cases "length buffer = 0")
    case True
    then have "copy_out_loop tr mem address 0 buffer = (True, buffer)" for tr mem by (subst copy_out_loop.simps) simp
    then show ?thesis using v i True by (simp add: copy_from_user_def)
  next
    case False
    note a = j(2,3) [OF False] j(4)
    have "copy_out_loop (space_translate ?vm ?s) (vm_phys ?vm) address 0 buffer
        = (True, take 0 buffer @ map (\<lambda>k. vm_phys ?vm (byte_at ?s address k)) [0..<length buffer])"
      by (rule copy_out_spec [where w = False]) (use a \<open>j = i\<close> in simp_all)
    moreover have "byte_at ?s address k = tr_phys (space_translate ?vm ?s (address + of_nat k))" if "k < length buffer" for k
      using byte_at_translate(1) [OF a(1) a(3) [OF that]] \<open>j = i\<close> by simp
    then have "map (\<lambda>k. vm_phys ?vm (byte_at ?s address k)) [0..<length buffer]
        = map (\<lambda>k. vm_phys ?vm (tr_phys (space_translate ?vm ?s (address + of_nat k)))) [0..<length buffer]" by simp
    ultimately show ?thesis using v i by (simp add: copy_from_user_def)
  qed
qed

section \<open>Handlers\<close>

lemma with_kernel_safe:
  "safe_op E (m_kernel M) (snd (f (m_kernel M))) \<Longrightarrow> with_kernel f M = (r, M') \<Longrightarrow> safe_op E (m_kernel M) (m_kernel M')"
  by (auto simp: with_kernel_def split: prod.splits)

abbreviation handler_safe :: "u64 set \<Rightarrow> Machine \<Rightarrow> 'a \<times> SyscallFrame \<times> Machine \<Rightarrow> bool" where
  "handler_safe E M r \<equiv> confined_op E (running_task M) (m_kernel M) (m_kernel (snd (snd r)))"

lemma confined_refl [simp]: "confined_op E t K K"
  by (rule safe_confined) simp

lemma simple_handlers_safe:
  "handler_safe E M (syscall_log a frame M)" "handler_safe E M (syscall_exit a frame M)"
  "handler_safe E M (syscall_getpid a frame M)" "handler_safe E M (syscall_ipc_self a frame M)"
  "handler_safe E M (syscall_uptime a frame M)"
  by (simp_all add: syscall_log_def syscall_exit_def syscall_getpid_def syscall_ipc_self_def syscall_uptime_def
      Let_def update_user_def)

lemma yield_safe: "handler_safe E M (syscall_yield a frame M)"
proof -
  obtain c s where y: "yield_current (k_sched (m_kernel M)) = (c, s)" by fastforce
  have "kernel_inv E (m_kernel M) \<Longrightarrow> sched_known (pt_next_task_id (k_table (m_kernel M))) s"
    using sched_steps(5) [of E "m_kernel M"] y by simp
  then have "safe_op E (m_kernel M) ((m_kernel M)\<lparr>k_sched := s\<rparr>)" by (auto simp: safe_op_def intro: inv_intros)
  then show ?thesis using y by (simp add: syscall_yield_def with_kernel_def safe_confined)
qed

lemma call_safe:
  assumes "\<And>K. safe_op E K (snd (f K))" "with_kernel f M = (r, M')"
  shows "confined_op E t (m_kernel M) (m_kernel M')"
  by (rule safe_confined, rule with_kernel_safe [OF assms])

lemma cancel_safe: "handler_safe E M (syscall_ipc_cancel handle frame M)"
proof -
  obtain r M' where w: "with_kernel (cancel_wait (running_task M) handle) M = (r, M')" by fastforce
  show ?thesis using call_safe [OF cancel_wait_safe w] w
    by (auto simp: syscall_ipc_cancel_def Let_def split: sum.split)
qed

lemma revoke_handler_safe: "handler_safe E M (syscall_ipc_revoke handle frame M)"
proof -
  obtain r M' where w: "with_kernel (revoke_capability_tree (running_task M) handle) M = (r, M')" by fastforce
  show ?thesis using call_safe [OF revoke_safe w] w
    by (auto simp: syscall_ipc_revoke_def Let_def split: sum.split)
qed

lemma send_safe: "handler_safe E M (syscall_ipc_send handle frame M)"
proof -
  obtain ok bytes where c: "copy_from_user (m_kernel M) (running_task M) (sf_rsi frame) (replicate (unat (sf_rdx frame)) 0) = (ok, bytes)"
    by fastforce
  obtain r M' where w: "with_kernel (ipc_send_capability (running_task M) handle bytes) M = (r, M')" by fastforce
  show ?thesis using call_safe [OF send_capability_safe w] w c
    by (auto simp: syscall_ipc_send_def Let_def split: sum.split bool.split)
qed

lemma send_capability_handler_safe: "handler_safe E M (syscall_ipc_send_capability handle frame M)"
proof -
  obtain ok bytes where c: "copy_from_user (m_kernel M) (running_task M) (sf_rsi frame) (replicate (unat (sf_rdx frame)) 0) = (ok, bytes)"
    by fastforce
  have w: "confined_op E (running_task M) (m_kernel M) (m_kernel M')"
    if "with_kernel (ipc_send_with_capability (running_task M) handle (sf_rcx frame) rights bytes) M = (r, M')" for rights r M'
    by (rule call_safe [OF send_with_capability_safe that])
  show ?thesis using w c
    by (auto simp: syscall_ipc_send_capability_def Let_def split: sum.split bool.split option.split prod.split)
qed

lemma copy_to_user_confined:
  assumes "length buffer < 2 ^ 64"
  shows "confined_op E t K (snd (copy_to_user K t address buffer))"
proof (cases "kernel_inv E K \<and> ub_valid (validate_user_buffer K t address (of_nat (length buffer)) True)")
  case True
  then obtain mem where m: "copy_to_user K t address buffer = (True, with_memory mem K)" "kernel_inv E (with_memory mem K)"
    "confined K t mem" using copy_to_user_spec [OF _ _ assms] by blast
  then show ?thesis unfolding confined_op_def m(1) snd_conv by (blast intro: same_memory_refl)
next
  case False
  then show ?thesis by (cases "kernel_inv E K") (auto simp: copy_to_user_def confined_op_def with_memory_same
        confined_def intro!: exI [of _ "vm_phys (k_vm K)"])
qed

lemma deliver_message_safe:
  "confined_op E t (m_kernel M) (m_kernel (snd (snd (deliver_message t buffer delivery message frame M))))"
proof -
  let ?bytes = "take (unat (dl_length delivery)) message"
  obtain ok M1 where c: "with_kernel (\<lambda>K. copy_to_user K t buffer ?bytes) M = (ok, M1)" by fastforce
  have "length ?bytes < 2 ^ 64"
    using unsigned_less [where ?'a = nat, of "dl_length delivery"] by (simp add: min_less_iff_disj)
  from copy_to_user_confined [OF this, of E t "m_kernel M" buffer]
  have 1: "confined_op E t (m_kernel M) (m_kernel M1)" using c by (auto simp: with_kernel_def split: prod.splits)
  obtain b M2 where r: "with_kernel (complete_ipc_restart t) M1 = (b, M2)" by fastforce
  have "safe_op E (m_kernel M1) (m_kernel M2)" by (rule with_kernel_safe [OF safe_process(5) r])
  from confined_safe [OF safe_op_refl 1 this] show ?thesis using 1 c r
    by (cases ok) (simp_all add: deliver_message_def)
qed

lemma wait_for_message_safe: "safe_op E (m_kernel M) (m_kernel (snd (snd (wait_for_message t timeout frame M))))"
  using block_syscall_safe [of E "m_kernel M" t frame "receive_deadline timeout M"]
  by (auto simp: wait_for_message_def split: prod.split sum.split SyscallBlockOutcome.split)

lemma receive_attempt_safe: "handler_safe E M (receive_attempt buffer timeout frame M)"
proof -
  define t where "t = running_task M"
  obtain reason M1 where k: "with_kernel (take_ipc_wake_reason t) M = (reason, M1)" by fastforce
  have 1: "safe_op E (m_kernel M) (m_kernel M1)" by (rule with_kernel_safe [OF safe_process(4) k])
  obtain r message K2 where v: "ipc_receive t (replicate (min (unat (sf_rsi frame)) MAX_MESSAGE_BYTES) 0) False (m_kernel M1)
      = (r, message, K2)" by (metis prod_cases3)
  have 2: "safe_op E (m_kernel M) K2" by (rule safe_op_trans [OF 1 ipc_receive_safe [OF v]])
  have d: "confined_op E t (m_kernel M) (m_kernel (snd (snd (deliver_message t buffer delivery message frame (M1\<lparr>m_kernel := K2\<rparr>)))))"
    for delivery
    using confined_safe [OF 2 _ safe_op_refl] deliver_message_safe [of E t "M1\<lparr>m_kernel := K2\<rparr>" buffer delivery message frame] by simp
  have w: "confined_op E t (m_kernel M) (m_kernel (snd (snd (wait_for_message t timeout frame (M1\<lparr>m_kernel := K2\<rparr>)))))"
    using safe_op_trans [OF 2] wait_for_message_safe [of E "M1\<lparr>m_kernel := K2\<rparr>" t timeout frame] by (intro safe_confined) simp
  show ?thesis
    using k v d w safe_confined [OF 1] safe_confined [OF 2]
    by (auto simp: receive_attempt_def Let_def t_def [symmetric] case_prod_beta split: sum.split ReceiveOutcome.split)
qed

lemma receive_common_eq:
  "syscall_ipc_receive_common buffer timeout frame M =
     (case receive_attempt buffer timeout frame M of (outcome, frame, M) \<Rightarrow> (the outcome, frame, M))"
  using receive_attempt_Some [of buffer timeout frame M]
  by (subst syscall_ipc_receive_common.simps) (auto split: prod.splits option.splits)

lemma receive_common_safe: "handler_safe E M (syscall_ipc_receive_common buffer timeout frame M)"
  using receive_attempt_safe [of E M buffer timeout frame] by (simp add: receive_common_eq case_prod_beta)

lemma receive_handlers_safe:
  "handler_safe E M (syscall_ipc_receive buffer frame M)" "handler_safe E M (syscall_ipc_receive_timeout buffer frame M)"
  using receive_common_safe [of E M buffer _ frame]
  by (simp_all add: syscall_ipc_receive_def syscall_ipc_receive_timeout_def case_prod_beta)

lemmas handlers_safe = simple_handlers_safe yield_safe cancel_safe revoke_handler_safe send_safe
  send_capability_handler_safe receive_handlers_safe

lemma table_safe: "entry \<in> set SYSCALLS \<Longrightarrow> handler_safe E M (se_handler entry a frame M)"
  by (auto simp: SYSCALLS_def handlers_safe)

lemma count_syscall_kernel [simp]:
  "m_kernel (count_syscall number M) = m_kernel M" "m_kernel (set_last_return v M) = m_kernel M"
  "m_kernel (update_syscall f M) = m_kernel M"
  by (simp_all add: count_syscall_def set_last_return_def update_syscall_def update_stats_def update_user_def)

lemma dispatch_safe: "handler_safe E M (dispatch number a frame M)"
proof (cases "lookup number")
  case None
  then show ?thesis by (simp add: dispatch_def Let_def)
next
  case (Some entry)
  define M1 where "M1 = (if se_return_code entry = Never then set_last_return RET_OK (count_syscall number M) else count_syscall number M)"
  have k: "m_kernel M1 = m_kernel M" by (simp add: M1_def)
  have "entry \<in> set SYSCALLS" using Some by (auto simp: lookup_def find_Some_iff)
  from table_safe [OF this, of E M1 a frame] have h: "confined_op E (running_task M) (m_kernel M) (m_kernel (snd (snd (se_handler entry a frame M1))))"
    by (simp add: k)
  obtain c f M2 where r: "se_handler entry a frame M1 = (c, f, M2)" by (metis prod_cases3)
  show ?thesis using h r Some
    by (cases c) (simp_all add: dispatch_def Let_def M1_def [symmetric])
qed

end
