(* ===== verification/Kernel_Runs.thy ===== *)
theory Kernel_Runs
  imports Syscall_Safety Interrupts
begin

text \<open>
  Runs of the machine: from the state in which the kernel has initialised its modules, the
  operations of the process table, interrupts, system calls, user exceptions, the kernel's own
  use of the heap and what user code writes, in any order. The invariant of the kernel holds in
  every state of a run.
\<close>

section \<open>Steps\<close>

abbreviation with_state :: "Machine \<Rightarrow> Kernel \<Rightarrow> Machine" where
  "with_state M K \<equiv> M\<lparr>m_kernel := K\<rparr>"

abbreviation ids_left :: "Machine \<Rightarrow> bool" where
  "ids_left M \<equiv> pt_next_task_id (k_table (m_kernel M)) \<noteq> - 1"

text \<open>
  Three kinds of step are limited by a condition that the code does not check; outside them
  the invariant can fail, so they are the limits under which the kernel is consistent:

  \<^item> a spawn needs a task number that is left (\<open>ids_left\<close>): \<open>next_task_id\<close> saturates
    (process.rs, \<open>install_task\<close>), so after 18446744073709551614 spawns the same number is given out again;
  \<^item> the program of a preemption test has four bytes that must fit into the page of the entry
    point (\<open>spin_fits\<close>): \<open>spawn_preempt_task\<close> writes them at its physical address and does not
    check this, but it holds for the program that the repository ships
    (\<open>Kernel_Properties.init_program_fits\<close>);
  \<^item> a grant made by the kernel itself (\<open>grant_capability\<close>) names tasks other than 0:
    \<open>IpcState::grant\<close> takes 0 for a free endpoint. No system call grants.
\<close>

definition spin_fits :: "Kernel \<Rightarrow> bool" where
  "spin_fits K \<longleftrightarrow> (case create_process_image (k_archive K) (k_vm K) of
     (Inr img, _) \<Rightarrow> unat (pi_entry_point img AND 0xfff) + 4 \<le> 4096 | (Inl _, _) \<Rightarrow> True)"

inductive machine_step :: "Machine \<Rightarrow> Machine \<Rightarrow> bool" where
  spawn_legacy: "ids_left M \<Longrightarrow> spawn_legacy entry_point sp (m_kernel M) = (r, K) \<Longrightarrow> machine_step M (with_state M K)"
| spawn_child: "ids_left M \<Longrightarrow> spawn_elf_child parent (m_kernel M) = (r, K) \<Longrightarrow> machine_step M (with_state M K)"
| spawn_preempt: "ids_left M \<Longrightarrow> spin_fits (m_kernel M) \<Longrightarrow> spawn_preempt_task (m_kernel M) = (r, K) \<Longrightarrow>
    machine_step M (with_state M K)"
| running: "mark_running t calls (m_kernel M) = (b, K) \<Longrightarrow> machine_step M (with_state M K)"
| exited: "mark_exited t code calls (m_kernel M) = (b, K) \<Longrightarrow> machine_step M (with_state M K)"
| waits: "wait_child parent t (m_kernel M) = (w, K) \<Longrightarrow> machine_step M (with_state M K)"
| cleanup: "cleanup_task t (m_kernel M) = (b, K) \<Longrightarrow> machine_step M (with_state M K)"
| test_starts: "machine_step M (update_kernel (update_table start_preemption_test) M)"
| test_stops: "machine_step M (update_kernel (update_table (\<lambda>p. snd (stop_preemption_test ok p))) M)"
| grants: "owner \<noteq> 0 \<Longrightarrow> target \<noteq> 0 \<Longrightarrow> grant_capability owner target rights (m_kernel M) = (g, K) \<Longrightarrow>
    machine_step M (with_state M K)"
| syscall: "syscall_dispatch_handler number a frame M = (c, frame', M') \<Longrightarrow> machine_step M M'"
| timer: "timer_interrupt_handler context M = (c, context', writes, M') \<Longrightarrow> machine_step M M'"
| keyboard: "keyboard_interrupt_handler scancode M = (writes, M') \<Longrightarrow> machine_step M M'"
| irq: "default_irq_handler M = (writes, M') \<Longrightarrow> machine_step M M'"
| exception: "exception_dispatch_handler cr2 fault M = (LeaveUser code, M') \<Longrightarrow> machine_step M M'"
| heap: "heap_step (k_heap (m_kernel M)) h \<Longrightarrow> machine_step M (update_kernel (\<lambda>K. K\<lparr>k_heap := h\<rparr>) M)"
| switch: "machine_step M (update_kernel (\<lambda>K. K\<lparr>k_vm := (k_vm K)\<lparr>vm_cr3 := root\<rparr>\<rparr>) M)"
| user_write: "i < MAX_TASKS \<Longrightarrow> accessible (k_vm (m_kernel M)) (spaces (m_kernel M) ! i) True v \<Longrightarrow>
    machine_step M (update_kernel (\<lambda>K. with_memory
      ((vm_phys (k_vm K))(tr_phys (space_translate (k_vm K) (spaces K ! i) v) := b)) K) M)"

section \<open>The invariant of runs\<close>

abbreviation machine_inv :: "u64 set \<Rightarrow> Machine \<Rightarrow> bool" where
  "machine_inv E M \<equiv> kernel_inv E (m_kernel M)"

lemma update_kernel_sel [simp]:
  "m_kernel (update_kernel f M) = f (m_kernel M)" "m_kernel (update_screen g M) = m_kernel M"
  "m_kernel (update_stats s M) = m_kernel M" "m_kernel (update_user u M) = m_kernel M"
  by (simp_all add: update_kernel_def update_screen_def update_stats_def update_user_def case_prod_beta)

lemma kernel_tick_inv [inv_intros]:
  assumes "kernel_inv E K"
  shows "kernel_inv E (kernel_tick K)"
proof -
  have "kernel_inv E (K\<lparr>k_ticks := k_ticks K + 1, k_sched := timer_interrupt (k_sched K)\<rparr>)"
    using assms sched_steps(6) [OF assms] by (simp add: kernel_inv_def)
  then show ?thesis by (simp add: kernel_tick_def expire_ipc_deadlines_inv)
qed

lemma timer_handler_inv:
  assumes "machine_inv E M" "timer_interrupt_handler context M = (c, context', writes, M')"
  shows "machine_inv E M'"
proof -
  have t: "kernel_inv E (kernel_tick (m_kernel M))" by (rule kernel_tick_inv [OF assms(1)])
  then have "kernel_inv E (snd (snd (on_timer_interrupt saved (kernel_tick (m_kernel M)))))" for saved
    by (rule on_timer_interrupt_inv)
  with t show ?thesis using assms(2)
    by (auto simp: timer_interrupt_handler_def Let_def case_prod_beta split: option.splits if_splits)
qed

lemma system_step_inv:
  assumes "kernel_inv E K" "system_step (k_vm K, spaces K) (vm, spaces K)"
  shows "kernel_inv E (K\<lparr>k_vm := vm\<rparr>)"
  using system_inv_step [OF kernel_invD(4) [OF assms(1)] assms(2)] assms(1) by (blast intro: vm_update_inv)

lemma machine_step_inv:
  assumes "machine_inv E M" "machine_step M M'"
  shows "machine_inv E M'"
  using assms(2)
proof cases
  case (spawn_legacy entry_point sp r K)
  then show ?thesis using spawn_legacy_inv [OF assms(1), of entry_point sp] by simp
next
  case (spawn_child parent r K)
  then show ?thesis using spawn_elf_child_inv [OF assms(1), of parent] by simp
next
  case (spawn_preempt r K)
  have "unat (pi_entry_point img AND 0xfff) + 4 \<le> 4096"
    if "create_process_image (k_archive (m_kernel M)) (k_vm (m_kernel M)) = (Inr img, vm)" for img vm
    using that spawn_preempt(3) by (simp add: spin_fits_def)
  from spawn_preempt_task_inv [OF assms(1) spawn_preempt(2) this] show ?thesis using spawn_preempt by simp
next
  case (running t calls b K)
  then show ?thesis using mark_running_inv [OF assms(1), of t calls] by simp
next
  case (exited t code calls b K)
  then show ?thesis using mark_exited_inv [OF assms(1), of t code calls] by simp
next
  case (waits parent t w K)
  then show ?thesis using wait_child_inv [OF assms(1), of parent t] by simp
next
  case (cleanup t b K)
  then show ?thesis using cleanup_task_inv [OF assms(1), of t] by simp
next
  case test_starts
  then show ?thesis using assms(1) by (auto simp: start_preemption_test_def intro!: update_table_inv)
next
  case (test_stops ok)
  then show ?thesis using assms(1) by (auto simp: stop_preemption_test_def Let_def intro!: update_table_inv)
next
  case (grants owner target rights g K)
  have "ipc_inv (snd (grant s owner target rights))" if "ipc_inv s" for s by (rule grant_inv [OF that grants(2,3)])
  from with_ipc_inv [where f = "\<lambda>s. grant s owner target rights", OF assms(1) this] show ?thesis
    using grants by (simp add: grant_capability_def)
next
  case (syscall number a frame c frame')
  then show ?thesis using dispatch_safe [of E M number a frame] assms(1)
    by (simp add: syscall_dispatch_handler_def confined_op_def)
next
  case (timer saved c saved' writes)
  then show ?thesis using timer_handler_inv [OF assms(1)] by simp
next
  case (keyboard scancode writes)
  then show ?thesis using assms(1) by (auto simp: keyboard_interrupt_handler_def Let_def)
next
  case (irq writes)
  then show ?thesis using assms(1) by (auto simp: default_irq_handler_def)
next
  case (exception cr2 fault code)
  then show ?thesis using assms(1)
    by (auto simp: exception_dispatch_handler_def handle_user_exception_def Let_def split: if_splits)
next
  case (heap h)
  then show ?thesis using heap_inv_step [OF kernel_invD(6) [OF assms(1)]] assms(1) by (auto intro: heap_update_inv)
next
  case (switch root)
  then show ?thesis using system_step_inv [OF assms(1) step_switch] by simp
next
  case (user_write i v b)
  have "i < length (spaces (m_kernel M))" using user_write kernel_invD(5) [OF assms(1)] by simp
  from system_step_inv [OF assms(1) step_user_write [OF this, of _ v b]] show ?thesis
    using user_write by (simp add: with_memory_def accessible_def Let_def)
qed

section \<open>The start\<close>

definition kernel_start :: "Vm \<Rightarrow> ArchiveState \<Rightarrow> KernelHeap \<Rightarrow> u64 \<Rightarrow> Kernel" where
  "kernel_start vm archive h ticks = \<lparr>k_table = proc_init ProcessTable_new, k_sched = sched_init ticks Scheduler_new,
     k_ipc = ipc_init IpcState_new, k_heap = h, k_vm = vm, k_archive = archive, k_ticks = ticks\<rparr>"

text \<open>
  The kernel image ends at \<open>ke\<close>, the boot loader passed \<open>boot\<close>, and the boot code left its page
  tables at \<open>p4\<close>, \<open>p3\<close> and \<open>p2\<close>; the heap is as its reset leaves it.
\<close>

definition booted_machine ::
  "u64 \<Rightarrow> u64 \<Rightarrow> BootInfoSummary \<Rightarrow> u64 \<Rightarrow> u64 \<Rightarrow> u64 \<Rightarrow> memory \<Rightarrow> Machine \<Rightarrow> bool" where
  "booted_machine ks ke boot p4 p3 p2 mem M \<longleftrightarrow> disjoint_map boot \<and> linked ke p4 p3 p2 mem
     \<and> (\<exists>archive h ticks. heap_start h
          \<and> m_kernel M = kernel_start (boot_vm ks ke boot p4 p3 p2 mem) archive h ticks)"

lemma system_inv_empties: "system_inv E (vm, []) \<Longrightarrow> system_inv E (vm, replicate n AddressSpace_empty)"
proof (induction n)
  case (Suc n)
  then have "system_inv E (vm, replicate n AddressSpace_empty @ [AddressSpace_empty])" by (intro system_inv_extend) simp
  then show ?case by (metis replicate_Suc replicate_append_same)
qed simp

lemma kernel_start_inv:
  assumes "system_inv E (vm, [])" "heap_inv h"
  shows "kernel_inv E (kernel_start vm archive h ticks)"
proof -
  have "table_inv (proc_init ProcessTable_new)"
    by (simp add: table_inv_def proc_init_def ProcessTable_new_def ProcessSlot_empty_def Task_empty_def)
  moreover have "sched_known 1 (sched_init ticks Scheduler_new)"
    using sched_init_inv [of Scheduler_new ticks]
    by (simp add: sched_known_def all_tasks_def sched_init_def Scheduler_new_def ready_def blocked_tasks_def)
  moreover have "ipc_inv (ipc_init IpcState_new)" by (rule ipc_init_inv) (simp add: IpcState_new_def)
  moreover have "map sl_address_space (pt_slots (proc_init ProcessTable_new)) = replicate MAX_TASKS AddressSpace_empty"
    by (simp add: proc_init_def ProcessTable_new_def ProcessSlot_empty_def)
  moreover have "pt_next_task_id (proc_init ProcessTable_new) = 1" by (simp add: proc_init_def ProcessTable_new_def)
  ultimately show ?thesis
    using assms system_inv_empties [OF assms(1)] by (simp add: kernel_inv_def kernel_start_def)
qed

interpretation machine_runs: invariant_machine "booted_machine ks ke boot p4 p3 p2 mem" machine_step
    "machine_inv (all_frames (phys_init ks ke boot))"
proof
  show "machine_inv (all_frames (phys_init ks ke boot)) M" if "booted_machine ks ke boot p4 p3 p2 mem M" for M
    using that boot_system_inv reset_inv kernel_start_inv unfolding booted_machine_def by fastforce
qed (rule machine_step_inv)

definition machine_reachable ::
  "u64 \<Rightarrow> u64 \<Rightarrow> BootInfoSummary \<Rightarrow> u64 \<Rightarrow> u64 \<Rightarrow> u64 \<Rightarrow> memory \<Rightarrow> Machine \<Rightarrow> bool" where
  "machine_reachable ks ke boot p4 p3 p2 mem M \<longleftrightarrow>
     (\<exists>M0. booted_machine ks ke boot p4 p3 p2 mem M0 \<and> machine_step\<^sup>*\<^sup>* M0 M)"

lemma machine_reachable_inv:
  "machine_reachable ks ke boot p4 p3 p2 mem M \<Longrightarrow> machine_inv (all_frames (phys_init ks ke boot)) M"
  unfolding machine_reachable_def by (blast intro: machine_runs.inv_reachable)

lemma machine_reachable_step:
  "machine_reachable ks ke boot p4 p3 p2 mem M \<Longrightarrow> machine_step M M' \<Longrightarrow> machine_reachable ks ke boot p4 p3 p2 mem M'"
  unfolding machine_reachable_def by (meson rtranclp.rtrancl_into_rtrancl)

end
