(* ===== verification/Kernel_Properties.thy ===== *)
theory Kernel_Properties
  imports Kernel_Runs
begin

text \<open>
  Properties of the running machine: consistency and isolation over every run, what a system call
  can reach, the copies between kernel and user memory, and the example machine on which the
  properties are applied.
\<close>

section \<open>Isolation of tasks\<close>

lemma accessible_frame:
  assumes "system_inv E (vm, ss)" "i < length ss" "accessible vm (ss ! i) w v"
  obtains f where "f = page_of (tr_phys (space_translate vm (ss ! i) v))" "f \<in> Space_Ops.owned (ss ! i)"
    "f \<notin> set (tables (ss ! i))" "f \<in> E"
proof -
  have a: "tr_user_accessible (space_translate vm (ss ! i) v)" using assms(3) by (simp add: accessible_def Let_def)
  then have act: "ss ! i \<noteq> AddressSpace_empty" using assms(3) empty_inaccessible by metis
  then have s: "space_inv vm (ss ! i)" using assms(1,2) by (auto simp: system_inv_def)
  from s a obtain w f p where f: "f \<in> Space_Ops.owned (ss ! i)" "f \<notin> set (tables (ss ! i))"
    "page_of (tr_phys (space_translate vm (ss ! i) v)) = f" by (rule space_accessible)
  have "f \<in> vm_live vm" using f(1) s by (auto elim!: space_invE)
  moreover have "frames_ok vm" "vm_every vm = E" using assms(1) by (simp_all add: system_inv_def)
  ultimately have "f \<in> E" using vm_live_every by blast
  then show ?thesis using that f by blast
qed

lemma kernel_isolated:
  assumes inv: "kernel_inv E K" and ij: "i < MAX_TASKS" "j < MAX_TASKS" and a: "accessible (k_vm K) (spaces K ! i) w v"
  shows "page_of (tr_phys (space_translate (k_vm K) (spaces K ! i) v)) \<notin> set (tables (spaces K ! j))"
    "i \<noteq> j \<Longrightarrow> accessible (k_vm K) (spaces K ! j) w' u \<Longrightarrow>
      page_of (tr_phys (space_translate (k_vm K) (spaces K ! j) u)) \<noteq> page_of (tr_phys (space_translate (k_vm K) (spaces K ! i) v))"
proof -
  note S = kernel_invD(4) [OF inv]
  have l: "length (spaces K) = MAX_TASKS" using kernel_invD(5) [OF inv] by simp
  have dis: "Space_Ops.owned (spaces K ! i) \<inter> Space_Ops.owned (spaces K ! j) = {}" if "i \<noteq> j"
    using S ij that l by (simp add: system_inv_def del: nth_map)
  obtain f where f: "f = page_of (tr_phys (space_translate (k_vm K) (spaces K ! i) v))" "f \<in> Space_Ops.owned (spaces K ! i)"
    "f \<notin> set (tables (spaces K ! i))" by (rule accessible_frame [OF S _ a]) (use ij l in auto)
  show "page_of (tr_phys (space_translate (k_vm K) (spaces K ! i) v)) \<notin> set (tables (spaces K ! j))"
    using f dis by (cases "i = j") (auto simp: Space_Ops.owned_def simp del: nth_map)
  show "page_of (tr_phys (space_translate (k_vm K) (spaces K ! j) u)) \<noteq> page_of (tr_phys (space_translate (k_vm K) (spaces K ! i) v))"
    if "i \<noteq> j" "accessible (k_vm K) (spaces K ! j) w' u"
    by (rule accessible_frame [OF S _ that(2)]) (use ij l f dis [OF that(1)] in auto)
qed

section \<open>Buffers of user memory\<close>

definition user_buffer :: "Kernel \<Rightarrow> nat \<Rightarrow> bool \<Rightarrow> u64 \<Rightarrow> nat \<Rightarrow> bool" where
  "user_buffer K i w address len \<longleftrightarrow> len \<le> 2 ^ 20 \<and> (len = 0 \<or> unat address + len \<le> 2 ^ 64)
     \<and> (\<forall>k < len. accessible (k_vm K) (sl_address_space (slots K ! i)) w (address + of_nat k))"

lemma validate_iff:
  assumes inv: "kernel_inv E K" and i: "find_task (k_table K) t = Some i" "tk_address_space_root (task_at K i) \<noteq> 0"
    and l: "len < 2 ^ 64"
  shows "ub_valid (validate_user_buffer K t address (of_nat len) w) \<longleftrightarrow> user_buffer K i w address len"
proof (cases "space_inv (k_vm K) (sl_address_space (slots K ! i))")
  case True
  then show ?thesis unfolding user_buffer_def by (rule validate_buffer_iff [OF i(1) _ i(2) l])
next
  case False
  then have e: "sl_address_space (slots K ! i) = AddressSpace_empty" using slot_space(1) [OF inv i(1)] by blast
  show ?thesis
  proof (cases "len = 0")
    case True
    then show ?thesis using i by (simp add: validate_user_buffer_def user_buffer_def MAX_USER_BUFFER_BYTES_def)
  next
    case nz: False
    then have "\<not> user_buffer K i w address len" by (auto simp: user_buffer_def e empty_inaccessible)
    moreover have "\<not> ub_valid (validate_user_buffer K t address (of_nat len) w)"
      using False nz i(1) by (auto elim: valid_buffer [OF inv _ l])
    ultimately show ?thesis by blast
  qed
qed

lemma with_memory_sel [simp]:
  "k_table (with_memory mem K) = k_table K" "k_vm (with_memory mem K) = (k_vm K)\<lparr>vm_phys := mem\<rparr>"
  by (simp_all add: with_memory_def)

text \<open>New contents of user pages change neither what is accessible nor where it is.\<close>

lemma accessible_with_memory:
  assumes "kernel_inv E K" "kernel_inv E (with_memory mem K)" "find_task (k_table K) t = Some i"
  defines "s \<equiv> sl_address_space (slots K ! i)"
  shows "accessible ((k_vm K)\<lparr>vm_phys := mem\<rparr>) s w v = accessible (k_vm K) s w v"
    "accessible (k_vm K) s w v \<Longrightarrow> tr_phys (space_translate ((k_vm K)\<lparr>vm_phys := mem\<rparr>) s v) = tr_phys (space_translate (k_vm K) s v)"
proof -
  consider "s = AddressSpace_empty" | "space_inv (k_vm K) s" "space_inv ((k_vm K)\<lparr>vm_phys := mem\<rparr>) s"
    using slot_space(1) [OF assms(1,3)] slot_space(1) [OF assms(2), of t i] assms(3) by (auto simp: s_def)
  then have "accessible ((k_vm K)\<lparr>vm_phys := mem\<rparr>) s w v = accessible (k_vm K) s w v
    \<and> (accessible (k_vm K) s w v \<longrightarrow> tr_phys (space_translate ((k_vm K)\<lparr>vm_phys := mem\<rparr>) s v) = tr_phys (space_translate (k_vm K) s v))"
  proof cases
    case 2
    have e: "accessible ((k_vm K)\<lparr>vm_phys := mem\<rparr>) s w v = accessible (k_vm K) s w v"
      unfolding accessible_iff [OF 2(1)] accessible_iff [OF 2(2)] ..
    moreover have "tr_phys (space_translate ((k_vm K)\<lparr>vm_phys := mem\<rparr>) s v) = tr_phys (space_translate (k_vm K) s v)"
      if a: "accessible (k_vm K) s w v"
      using accessibleE [OF 2(1) a] accessibleE [OF 2(2) a [folded e]] by metis
    ultimately show ?thesis by blast
  qed (simp add: empty_inaccessible)
  then show "accessible ((k_vm K)\<lparr>vm_phys := mem\<rparr>) s w v = accessible (k_vm K) s w v"
    "accessible (k_vm K) s w v \<Longrightarrow> tr_phys (space_translate ((k_vm K)\<lparr>vm_phys := mem\<rparr>) s v) = tr_phys (space_translate (k_vm K) s v)"
    by blast+
qed

text \<open>The physical address of byte \<open>k\<close> of a buffer, and a copy to it.\<close>

abbreviation buffer_byte :: "Kernel \<Rightarrow> nat \<Rightarrow> u64 \<Rightarrow> nat \<Rightarrow> u64" where
  "buffer_byte K i address k \<equiv> tr_phys (space_translate (k_vm K) (sl_address_space (slots K ! i)) (address + of_nat k))"

lemma copy_stored:
  assumes inv: "kernel_inv E K" and i: "find_task (k_table K) t = Some i" "tk_address_space_root (task_at K i) \<noteq> 0"
    and l: "length bytes < 2 ^ 64" and b: "user_buffer K i True address (length bytes)"
  shows "\<exists>mem. copy_to_user K t address bytes = (True, with_memory mem K) \<and> kernel_inv E (with_memory mem K)
    \<and> (\<forall>k < length bytes. mem (buffer_byte K i address k) = bytes ! k)
    \<and> (\<forall>x. (\<forall>k < length bytes. x \<noteq> buffer_byte K i address k) \<longrightarrow> mem x = vm_phys (k_vm K) x)
    \<and> copy_from_user (with_memory mem K) t address (replicate (length bytes) 0) = (True, bytes)"
proof -
  let ?s = "sl_address_space (slots K ! i)"
  have v: "ub_valid (validate_user_buffer K t address (of_nat (length bytes)) True)"
    using b by (simp add: validate_iff [OF inv i l])
  obtain mem where m: "copy_to_user K t address bytes = (True, with_memory mem K)" "kernel_inv E (with_memory mem K)"
    "\<forall>k < length bytes. mem (buffer_byte K i address k) = bytes ! k"
    "\<forall>x. (\<forall>k < length bytes. x \<noteq> buffer_byte K i address k) \<longrightarrow> mem x = vm_phys (k_vm K) x"
    using copy_to_user_spec [OF inv v l] i(1) by blast
  note same = accessible_with_memory [OF inv m(2) i(1)]
  have a: "accessible (k_vm K) ?s True (address + of_nat k)" if "k < length bytes" for k
    using b that by (simp add: user_buffer_def)
  have "user_buffer (with_memory mem K) i False address (length bytes)"
    using b a by (auto simp: user_buffer_def same(1)) (simp add: accessible_def Let_def)
  then have u: "ub_valid (validate_user_buffer (with_memory mem K) t address (of_nat (length (replicate (length bytes) (0 :: u8)))) False)"
    using validate_iff [OF m(2), of t i "length bytes" address False] i l by simp
  have "map (\<lambda>k. mem (tr_phys (space_translate ((k_vm K)\<lparr>vm_phys := mem\<rparr>) ?s (address + of_nat k)))) [0..<length bytes]
      = map ((!) bytes) [0..<length bytes]"
    using m(3) same(2) [OF a] by simp
  with copy_from_user_spec [OF m(2) _ u] i(1) l m show ?thesis by (auto simp: map_nth)
qed

section \<open>An example machine\<close>

text \<open>
  The small system of twelve frames with the heap of 64 KiB; and a kernel on it whose first task
  has one writable page at the base of the user region.
\<close>

definition demo_machine :: Machine where
  "demo_machine = \<lparr>m_kernel = kernel_start small_vm ArchiveState_empty demo_heap 0, m_user = UserState_new,
     m_stats = Stats_new, m_syscall = SyscallState_new, m_gate_ready = False,
     m_idt = replicate IDT_ENTRIES IdtEntry_missing, m_screen = Writer_new (\<lambda>_. \<lparr>sc_ascii_character = 0x20, sc_color_code = 0\<rparr>), m_keyboard = Keyboard_new,
     m_panic = PanicRecord_empty\<rparr>"

abbreviation demo_reachable :: "Machine \<Rightarrow> bool" where
  "demo_reachable \<equiv> machine_reachable 0x100000 0x104000 small_boot 0x101000 0x102000 0x103000 (\<lambda>_. 0)"

lemma demo_machine_reachable: "demo_reachable demo_machine"
proof -
  have "booted_machine 0x100000 0x104000 small_boot 0x101000 0x102000 0x103000 (\<lambda>_. 0) demo_machine"
    using demo_start small_linked small_boot_disjoint
    by (auto simp: booted_machine_def demo_machine_def small_vm_def)
  then show ?thesis unfolding machine_reachable_def by blast
qed

definition paged_kernel :: "Vm \<Rightarrow> AddressSpace \<Rightarrow> Kernel" where
  "paged_kernel vm s =
     (let K = kernel_start vm ArchiveState_empty demo_heap 0;
          task = Task_empty\<lparr>tk_id := 1, tk_state := TaskReady, tk_address_space_root := root_frame s\<rparr>
      in K\<lparr>k_table := (k_table K)\<lparr>pt_next_task_id := 2,
             pt_slots := (slots K)[0 := ProcessSlot_empty\<lparr>sl_task := task, sl_address_space := s\<rparr>]\<rparr>\<rparr>)"

lemma paged_slots: "slots (paged_kernel vm s) = (ProcessSlot_empty\<lparr>sl_task := Task_empty\<lparr>tk_id := 1,
    tk_state := TaskReady, tk_address_space_root := root_frame s\<rparr>, sl_address_space := s\<rparr>) # replicate 7 ProcessSlot_empty"
  by (simp add: paged_kernel_def Let_def kernel_start_def proc_init_def ProcessTable_new_def MAX_TASKS_def numeral_eq_Suc)

lemma paged_find: "find_task (k_table (paged_kernel vm s)) 1 = Some 0"
  unfolding find_task_def paged_slots by simp

abbreviation occupied :: "ProcessSlot \<Rightarrow> bool" where
  "occupied slot \<equiv> tk_state (sl_task slot) \<noteq> TaskEmpty"

lemma table_inv_distinct:
  assumes "length (pt_slots p) = MAX_TASKS" "pt_next_task_id p \<noteq> 0"
    "\<forall>slot \<in> set (filter occupied (pt_slots p)). tk_id (sl_task slot) \<noteq> 0 \<and> tk_id (sl_task slot) < pt_next_task_id p"
    "distinct (map (tk_id \<circ> sl_task) (filter occupied (pt_slots p)))"
  shows "table_inv p"
  using assms distinct_filter_nth [OF assms(4)] by (auto simp: table_inv_def)

lemma paged_kernel_inv:
  assumes "system_inv E (vm, [s])"
  shows "kernel_inv E (paged_kernel vm s)"
proof -
  let ?K = "paged_kernel vm s"
  have S: "system_inv E (vm, [s] @ replicate n AddressSpace_empty)" for n
  proof (induction n)
    case (Suc n)
    then have "system_inv E (vm, ([s] @ replicate n AddressSpace_empty) @ [AddressSpace_empty])" by (rule system_inv_extend)
    then show ?case by (simp add: replicate_append_same)
  qed (use assms in simp)
  have sp: "spaces ?K = s # replicate 7 AddressSpace_empty" unfolding paged_slots by (simp add: ProcessSlot_empty_def)
  have n: "pt_next_task_id (k_table ?K) = 2" by (simp add: paged_kernel_def Let_def)
  have "table_inv (k_table ?K)"
    by (rule table_inv_distinct) (simp_all add: paged_slots n MAX_TASKS_def ProcessSlot_empty_def Task_empty_def)
  moreover have start: "kernel_inv E (kernel_start vm ArchiveState_empty demo_heap 0)"
    using kernel_start_inv [of E vm demo_heap] reset_inv [OF demo_start] system_inv_shrink [of E vm "[]"] system_inv_forget [OF assms, of 0]
    by simp
  then have "sched_known 2 (k_sched ?K)"
    using kernel_invD(2) [OF start] by (fastforce simp: sched_known_def paged_kernel_def Let_def kernel_start_def proc_init_def ProcessTable_new_def)
  moreover have "k_ipc ?K = k_ipc (kernel_start vm ArchiveState_empty demo_heap 0)"
    "k_heap ?K = k_heap (kernel_start vm ArchiveState_empty demo_heap 0)" "k_vm ?K = vm"
    by (simp_all add: paged_kernel_def Let_def kernel_start_def)
  ultimately show ?thesis using kernel_invD(3,6) [OF start] S [of 7] n sp by (simp add: kernel_inv_def)
qed

lemma elf_base_aligned: "frame_aligned USER_ELF_BASE"
  by code_simp

lemma paged_system:
  obtains vm s f where "small_reachable (vm, [s])" "as_active s" "pages s = [(USER_ELF_BASE, f, READ_WRITE)]"
    "space_inv vm s" "root_frame s \<noteq> 0" "kernel_inv (all_frames (phys_init 0x100000 0x104000 small_boot)) (paged_kernel vm s)"
proof -
  obtain s0 vm0 where c: "small_reachable (vm0, [s0])" "plenty 9 vm0" "as_active s0" "pages s0 = []"
    by (rule small_create [OF small_start, of 9]) (use small_plenty in auto)
  obtain f s vm where m: "small_reachable (vm, [s])" "as_active s" "pages s = [(USER_ELF_BASE, f, READ_WRITE)]"
    by (rule small_map [OF c(1) plenty_mono [OF c(2)], of 0]) (use c in auto)
  have S: "system_inv (all_frames (phys_init 0x100000 0x104000 small_boot)) (vm, [s])"
    using spaces_reachable_inv m(1) by (simp add: small_reachable_def)
  have sp: "space_inv vm s" using small_inv(4) [OF m(1), of 0] m(2) by simp
  then have "root_frame s \<noteq> 0" by (auto elim!: space_invE simp: layout_def dest: frames_layoutD(4))
  then show thesis using that [OF m sp _ paged_kernel_inv [OF S]] by blast
qed

lemma paged_example:
  obtains E vm s where "kernel_inv E (paged_kernel vm s)" "root_frame s \<noteq> 0"
    "\<And>k. k < 4096 \<Longrightarrow> accessible vm s True (USER_ELF_BASE + of_nat k)"
proof -
  obtain vm s f where m: "pages s = [(USER_ELF_BASE, f, READ_WRITE)]" "space_inv vm s" "root_frame s \<noteq> 0"
    "kernel_inv (all_frames (phys_init 0x100000 0x104000 small_boot)) (paged_kernel vm s)" by (rule paged_system)
  have "accessible vm s True (USER_ELF_BASE + of_nat k)" if "k < 4096" for k
  proof -
    have "page_of (USER_ELF_BASE + of_nat k) = USER_ELF_BASE"
      by (rule page_of_add(1)) (use that in \<open>simp_all add: elf_base_aligned unat_of_nat word_less_nat_alt\<close>)
    then show ?thesis
      using accessible_same_page [OF m(2), of "USER_ELF_BASE + of_nat k" USER_ELF_BASE] user_elf_base
        space_translate_inv [OF m(2) user_elf_base(2)] m(1) by (simp add: accessible_def Let_def user_page_def READ_WRITE_def)
  qed
  then show thesis using that [OF m(4,3)] by blast
qed

definition demo_spawned :: Machine where
  "demo_spawned = with_state demo_machine (snd (spawn_legacy 0x400000 0x800000 (m_kernel demo_machine)))"

lemma demo_spawned_reachable: "demo_reachable demo_spawned"
proof -
  have "ids_left demo_machine" by (simp add: demo_machine_def kernel_start_def proc_init_def ProcessTable_new_def)
  then have "machine_step demo_machine demo_spawned"
    unfolding demo_spawned_def by (rule machine_step.spawn_legacy [OF _ surjective_pairing])
  with demo_machine_reachable show ?thesis by (rule machine_reachable_step)
qed

definition demo_frame :: SyscallFrame where
  "demo_frame = \<lparr>sf_r15 = 0, sf_r14 = 0, sf_r13 = 0, sf_r12 = 0, sf_r11 = 0, sf_r10 = 0, sf_r9 = 0, sf_r8 = 0,
     sf_rbp = 0, sf_rdi = USER_ELF_BASE, sf_rsi = 2, sf_rdx = 0, sf_rcx = 0, sf_rbx = 0, sf_rax = SYSCALL_IPC_RECEIVE,
     sf_rip = USER_ELF_BASE + 2, sf_cs = ucast USER_CODE_SELECTOR, sf_rflags = 0x202, sf_rsp = USER_ELF_STACK_TOP,
     sf_ss = ucast USER_DATA_SELECTOR\<rparr>"

lemma surjective_pairing3: "t = (fst t, fst (snd t), snd (snd t))"
  by simp

section \<open>Properties\<close>

text \<open>The program that the repository ships meets the condition on the preemption test.\<close>

lemma init_program_fits:
  assumes inv: "kernel_inv E K" and b: "build_init_elf = Some img"
    and f: "\<And>file. find_file (vm_phys (k_vm K)) (k_archive K) (ascii ''/bin/init'') = Some file \<Longrightarrow> file_data file = img"
  shows "spin_fits K"
proof -
  have len: "length img < 2 ^ 64" using init_image(1) [OF b] by simp
  obtain r vm where run: "process_from_image img (k_vm K) = (r, vm)" by force
  from process_from_image_spec [OF system_tables [OF kernel_invD(4) [OF inv]] len init_validates [OF b] run]
  have e: "pi_entry_point pi = ip_entry_point init_plan" if "r = Inr pi" for pi using that by simp
  have "unat (ip_entry_point init_plan AND 0xfff) + 4 \<le> 4096" by code_simp
  then show ?thesis
    using f e run by (auto simp: spin_fits_def create_process_image_def split: option.splits sum.splits)
qed

text \<open>
  C1. Consistency. A run starts when the kernel has initialised its modules, with the boot page
  tables and an empty heap, and takes any sequence of the steps of \<open>machine_step\<close>: spawning,
  running, exit, waiting and cleanup of tasks, system calls with any arguments, interrupts, exceptions in
  user code, grants, the kernel's own use of the heap, and writes of user code to its pages, under three
  conditions: a spawn happens while task numbers are left (the counter saturates after 18446744073709551614
  spawns), the four bytes of the preemption test's program fit in the page of the image's entry
  point, and grants made by the kernel name tasks other than 0. In every machine so reached the kernel is
  consistent. Task numbers are not zero, below the next number, and no two slots share one; the current
  task, the ready tasks and the blocked tasks of the scheduler are distinct and were given out; the
  mailboxes satisfy the checks of \<open>invariants\<close>; the heap passes its own checks. A page that a task can
  access lies above the protected area, holds no page table of any task, and is accessible to no other
  task.
\<close>

theorem kernel_always_consistent:
  assumes r: "machine_reachable ks ke boot p4 p3 p2 mem M" and K: "m_kernel M = K"
  shows "(\<forall>i < MAX_TASKS. tk_state (task_at K i) \<noteq> TaskEmpty \<longrightarrow>
        tk_id (task_at K i) \<noteq> 0 \<and> tk_id (task_at K i) < pt_next_task_id (k_table K)
        \<and> (\<forall>j < MAX_TASKS. tk_state (task_at K j) \<noteq> TaskEmpty \<longrightarrow> tk_id (task_at K j) = tk_id (task_at K i) \<longrightarrow> j = i))
    \<and> distinct (current_task (k_sched K) # ready_ids (k_sched K) @ blocked_tasks (k_sched K))
    \<and> (\<forall>t \<in> set (ready_ids (k_sched K) @ blocked_tasks (k_sched K)). t \<noteq> 0 \<and> t < pt_next_task_id (k_table K))
    \<and> invariants (k_ipc K)
    \<and> metadata_ok (k_heap K) (compute_stats (k_heap K)) \<and> sentinel_ok (k_heap K)
    \<and> (\<forall>i < MAX_TASKS. \<forall>v. accessible (k_vm K) (spaces K ! i) False v \<longrightarrow>
        (let f = page_of (tr_phys (space_translate (k_vm K) (spaces K ! i) v)) in protected_end ke boot \<le> f
         \<and> (\<forall>j < MAX_TASKS. f \<notin> set (tables (spaces K ! j)))
         \<and> (\<forall>j < MAX_TASKS. \<forall>u. j \<noteq> i \<longrightarrow> accessible (k_vm K) (spaces K ! j) False u \<longrightarrow>
              page_of (tr_phys (space_translate (k_vm K) (spaces K ! j) u)) \<noteq> f)))"
proof -
  let ?E = "all_frames (phys_init ks ke boot)"
  have inv: "kernel_inv ?E K" using machine_reachable_inv [OF r] K by simp
  have d: "disjoint_map boot" using r by (auto simp: machine_reachable_def booted_machine_def)
  note ph = phys_init_ok [OF d, of ks ke]
  have T: "(\<forall>i < MAX_TASKS. tk_state (task_at K i) \<noteq> TaskEmpty \<longrightarrow>
        tk_id (task_at K i) \<noteq> 0 \<and> tk_id (task_at K i) < pt_next_task_id (k_table K)
        \<and> (\<forall>j < MAX_TASKS. tk_state (task_at K j) \<noteq> TaskEmpty \<longrightarrow> tk_id (task_at K j) = tk_id (task_at K i) \<longrightarrow> j = i))"
    using kernel_invD(1,5) [OF inv] unfolding table_inv_def by (metis nth_mem)
  have s: "sched_inv (k_sched K)" "\<forall>t \<in># all_tasks (k_sched K). t < pt_next_task_id (k_table K)"
    using kernel_invD(2) [OF inv] by (simp_all add: sched_known_def)
  have S: "distinct (current_task (k_sched K) # ready_ids (k_sched K) @ blocked_tasks (k_sched K))"
    "\<forall>t \<in> set (ready_ids (k_sched K) @ blocked_tasks (k_sched K)). t \<noteq> 0 \<and> t < pt_next_task_id (k_table K)"
    using s unfolding sched_inv_def all_tasks_def by auto
  have "let f = page_of (tr_phys (space_translate (k_vm K) (spaces K ! i) v)) in protected_end ke boot \<le> f
         \<and> (\<forall>j < MAX_TASKS. f \<notin> set (tables (spaces K ! j)))
         \<and> (\<forall>j < MAX_TASKS. \<forall>u. j \<noteq> i \<longrightarrow> accessible (k_vm K) (spaces K ! j) False u \<longrightarrow>
              page_of (tr_phys (space_translate (k_vm K) (spaces K ! j) u)) \<noteq> f)"
    if i: "i < MAX_TASKS" "accessible (k_vm K) (spaces K ! i) False v" for i v
  proof -
    have "i < length (spaces K)" using i(1) kernel_invD(5) [OF inv] by simp
    from accessible_frame [OF kernel_invD(4) [OF inv] this i(2)]
    have "protected_end ke boot \<le> page_of (tr_phys (space_translate (k_vm K) (spaces K ! i) v))"
      using all_frames_protected [OF ph(1)] ph(3) by metis
    then show ?thesis using kernel_isolated [OF inv i(1) _ i(2)] unfolding Let_def by blast
  qed
  then show ?thesis
    using T S heap_inv_checks [OF kernel_invD(6) [OF inv]] ipc_inv_invariants [OF kernel_invD(3) [OF inv]] by blast
qed

theorem kernel_always_consistent_witness:
  "distinct (current_task (k_sched (m_kernel demo_spawned)) # ready_ids (k_sched (m_kernel demo_spawned))
     @ blocked_tasks (k_sched (m_kernel demo_spawned)))
   \<and> invariants (k_ipc (m_kernel demo_spawned))
   \<and> metadata_ok (k_heap (m_kernel demo_spawned)) (compute_stats (k_heap (m_kernel demo_spawned)))"
  using kernel_always_consistent [OF demo_spawned_reachable refl] by simp

text \<open>
  C2. A system call from any reachable machine, whatever its number and registers, changes a byte
  of physical memory only if the calling task could write that byte itself through its own page
  tables. It changes no other part of virtual memory, neither the heap nor the archive, and no
  task's address space, number or parent.
\<close>

theorem syscall_memory_confined:
  assumes r: "machine_reachable ks ke boot p4 p3 p2 mem M"
    and c: "syscall_dispatch_handler number a frame M = (c, frame', M')"
    and K: "m_kernel M = K" "m_kernel M' = K'"
  shows "(\<forall>x. vm_phys (k_vm K') x \<noteq> vm_phys (k_vm K) x \<longrightarrow>
        (\<exists>i v. find_task (k_table K) (current_task (k_sched K)) = Some i \<and> accessible (k_vm K) (spaces K ! i) True v
           \<and> x = tr_phys (space_translate (k_vm K) (spaces K ! i) v)))
    \<and> k_vm K' = (k_vm K)\<lparr>vm_phys := vm_phys (k_vm K')\<rparr> \<and> k_heap K' = k_heap K \<and> k_archive K' = k_archive K
    \<and> spaces K' = spaces K \<and> map (tk_id \<circ> sl_task) (slots K') = map (tk_id \<circ> sl_task) (slots K)
    \<and> map (tk_parent_id \<circ> sl_task) (slots K') = map (tk_parent_id \<circ> sl_task) (slots K)"
proof -
  have inv: "kernel_inv (all_frames (phys_init ks ke boot)) K" using machine_reachable_inv [OF r] K by simp
  then obtain m where m: "confined K (running_task M) m" "same_memory (with_memory m K) K'"
    using dispatch_safe [of _ M number a frame] c K by (auto simp: confined_op_def syscall_dispatch_handler_def)
  have l: "list_all2 same_owner (slots K) (slots K')" using m(2) by (simp add: same_memory_def with_memory_def)
  have maps: "map g (slots K') = map g (slots K)" if "\<And>x y. same_owner x y \<Longrightarrow> g y = g x" for g :: "ProcessSlot \<Rightarrow> 'b"
    using l that by (induction rule: list_all2_induct) simp_all
  have "spaces K' = spaces K" "map (tk_id \<circ> sl_task) (slots K') = map (tk_id \<circ> sl_task) (slots K)"
    "map (tk_parent_id \<circ> sl_task) (slots K') = map (tk_parent_id \<circ> sl_task) (slots K)"
    by (rule maps, simp add: same_owner_def)+
  moreover have "k_vm K' = (k_vm K)\<lparr>vm_phys := m\<rparr>" "k_heap K' = k_heap K" "k_archive K' = k_archive K"
    using m(2) by (simp_all add: same_memory_def with_memory_def)
  moreover have t: "running_task M = current_task (k_sched K)" using K by (simp add: sched_snapshot_def)
  have "\<exists>i v. find_task (k_table K) (current_task (k_sched K)) = Some i \<and> accessible (k_vm K) (spaces K ! i) True v
      \<and> x = tr_phys (space_translate (k_vm K) (spaces K ! i) v)" if "m x \<noteq> vm_phys (k_vm K) x" for x
    using m(1) that slot_space(2) [OF inv] unfolding confined_def t by metis
  ultimately show ?thesis by simp
qed

theorem syscall_memory_confined_witness:
  "let K = m_kernel demo_spawned; K' = m_kernel (snd (snd (syscall_dispatch_handler 7 0 demo_frame demo_spawned))) in
     spaces K' = spaces K \<and> k_heap K' = k_heap K"
  using syscall_memory_confined [OF demo_spawned_reachable surjective_pairing3 refl refl, of 7 0 demo_frame]
  by (simp add: Let_def)

text \<open>
  C4. Buffers of user memory. For a task with an address space, the check accepts a buffer exactly
  when it has at most a mebibyte, does not wrap around the address space, and the kernel's own
  translation finds each of its bytes mapped for user access, and writable if the kernel is to
  write; this translation ignores bits 48 to 63 of an address. A refused copy changes nothing. An accepted
  copy to the task puts each byte of the message at the physical address to which the
  task's page tables translate its own address, and changes no other byte of memory; an accepted
  copy from the task returns the bytes at these addresses. So a copy to the task and back returns the
  bytes.
\<close>

theorem user_copy_exact:
  assumes inv: "kernel_inv E K" and i: "find_task (k_table K) t = Some i" and root: "tk_address_space_root (task_at K i) \<noteq> 0"
    and l: "length bytes < 2 ^ 64"
  shows "(ub_valid (validate_user_buffer K t address (of_nat (length bytes)) w) \<longleftrightarrow>
        length bytes \<le> 2 ^ 20 \<and> (bytes = [] \<or> unat address + length bytes \<le> 2 ^ 64)
        \<and> (\<forall>k < length bytes. accessible (k_vm K) (sl_address_space (slots K ! i)) w (address + of_nat k)))
    \<and> (if ub_valid (validate_user_buffer K t address (of_nat (length bytes)) True)
       then \<exists>K'. copy_to_user K t address bytes = (True, K') \<and> kernel_inv E K'
              \<and> K' = K\<lparr>k_vm := (k_vm K)\<lparr>vm_phys := vm_phys (k_vm K')\<rparr>\<rparr>
              \<and> (\<forall>k < length bytes. vm_phys (k_vm K') (buffer_byte K i address k) = bytes ! k)
              \<and> (\<forall>x. (\<forall>k < length bytes. x \<noteq> buffer_byte K i address k) \<longrightarrow> vm_phys (k_vm K') x = vm_phys (k_vm K) x)
              \<and> copy_from_user K' t address (replicate (length bytes) 0) = (True, bytes)
       else copy_to_user K t address bytes = (False, K))
    \<and> copy_from_user K t address bytes =
        (if ub_valid (validate_user_buffer K t address (of_nat (length bytes)) False)
         then (True, map (\<lambda>k. vm_phys (k_vm K) (buffer_byte K i address k)) [0..<length bytes])
         else (False, bytes))"
proof -
  note v = validate_iff [OF inv i root l]
  have "copy_to_user K t address bytes = (False, K)"
    if "\<not> ub_valid (validate_user_buffer K t address (of_nat (length bytes)) True)"
    using that by (simp add: copy_to_user_def)
  moreover have "\<exists>K'. copy_to_user K t address bytes = (True, K') \<and> kernel_inv E K'
      \<and> K' = K\<lparr>k_vm := (k_vm K)\<lparr>vm_phys := vm_phys (k_vm K')\<rparr>\<rparr>
      \<and> (\<forall>k < length bytes. vm_phys (k_vm K') (buffer_byte K i address k) = bytes ! k)
      \<and> (\<forall>x. (\<forall>k < length bytes. x \<noteq> buffer_byte K i address k) \<longrightarrow> vm_phys (k_vm K') x = vm_phys (k_vm K) x)
      \<and> copy_from_user K' t address (replicate (length bytes) 0) = (True, bytes)"
    if u: "ub_valid (validate_user_buffer K t address (of_nat (length bytes)) True)"
  proof -
    obtain mem where "copy_to_user K t address bytes = (True, with_memory mem K)" "kernel_inv E (with_memory mem K)"
      "\<forall>k < length bytes. mem (buffer_byte K i address k) = bytes ! k"
      "\<forall>x. (\<forall>k < length bytes. x \<noteq> buffer_byte K i address k) \<longrightarrow> mem x = vm_phys (k_vm K) x"
      "copy_from_user (with_memory mem K) t address (replicate (length bytes) 0) = (True, bytes)"
      using copy_stored [OF inv i root l] u v by blast
    then show ?thesis by (intro exI [of _ "with_memory mem K"]) (simp, simp add: with_memory_def)
  qed
  moreover have "copy_from_user K t address bytes =
        (if ub_valid (validate_user_buffer K t address (of_nat (length bytes)) False)
         then (True, map (\<lambda>k. vm_phys (k_vm K) (buffer_byte K i address k)) [0..<length bytes])
         else (False, bytes))"
    using copy_from_user_spec [OF inv i _ l] by (simp add: copy_from_user_def)
  ultimately show ?thesis using v by (simp add: user_buffer_def)
qed

theorem user_copy_exact_witness:
  "\<exists>E vm s K'. kernel_inv E (paged_kernel vm s)
     \<and> copy_to_user (paged_kernel vm s) 1 USER_ELF_BASE [1, 2, 3] = (True, K')
     \<and> copy_from_user K' 1 USER_ELF_BASE [0, 0, 0] = (True, [1, 2, 3])"
proof -
  obtain E vm s where e: "kernel_inv E (paged_kernel vm s)" "root_frame s \<noteq> 0"
    "\<And>k. k < 4096 \<Longrightarrow> accessible vm s True (USER_ELF_BASE + of_nat k)" by (rule paged_example) blast
  have vm: "k_vm (paged_kernel vm s) = vm" "sl_address_space (slots (paged_kernel vm s) ! 0) = s"
    "tk_address_space_root (task_at (paged_kernel vm s) 0) \<noteq> 0"
    using e(2) by (simp_all add: paged_slots) (simp add: paged_kernel_def Let_def kernel_start_def)
  note T = user_copy_exact [OF e(1) paged_find vm(3), of "[1, 2, 3]" USER_ELF_BASE True]
  have l: "length [1 :: u8, 2, 3] = 3" "replicate 3 (0 :: u8) = [0, 0, 0]" "(3 :: nat) \<le> 2 ^ 20" "(3 :: nat) < 2 ^ 64"
    by (simp_all add: numeral_3_eq_3)
  have "unat USER_ELF_BASE + 3 \<le> 2 ^ 64" by (simp add: USER_ELF_BASE_def USER_SPACE_BASE_def BOOT_IDENTITY_MAP_BYTES_def)
  moreover have "accessible vm s True (USER_ELF_BASE + of_nat k)" if "k < 3" for k using e(3) that by simp
  ultimately have v: "ub_valid (validate_user_buffer (paged_kernel vm s) 1 USER_ELF_BASE (of_nat 3) True)"
    using T [THEN conjunct1] unfolding l vm(1,2) using l(3,4) by blast
  then show ?thesis using T [THEN conjunct2, THEN conjunct1] e(1) unfolding l using l(4) by auto
qed

lemma lookup_numbers: "lookup number = None \<longleftrightarrow> number \<notin> set (map se_number SYSCALLS)"
  by (auto simp: lookup_def find_None_iff)

lemma table_numbers: "map se_number SYSCALLS = [1, 2, 3, 4, 5, 6, 7, 8, 9, 10, 11, 12]"
  by code_simp

lemma error_return_codes:
  "ipc_error_return e = ipc_error_return e' \<Longrightarrow> e = e'"
  "ipc_error_return e \<notin> {RET_OK, RET_UNKNOWN_SYSCALL, RET_INVALID_USER_BUFFER}"
proof -
  have v: "ipc_error_return e = - 33 + error_code e" for e
    by (cases e) (simp_all add: ipc_error_return_def RET_IPC_ERROR_BASE_def sat_add_def)
  show "ipc_error_return e = ipc_error_return e' \<Longrightarrow> e = e'"
    unfolding v by (cases e; cases e'; simp)
  show "ipc_error_return e \<notin> {RET_OK, RET_UNKNOWN_SYSCALL, RET_INVALID_USER_BUFFER}"
    unfolding v RET_OK_def RET_UNKNOWN_SYSCALL_def RET_INVALID_USER_BUFFER_def by (cases e) simp_all
qed

text \<open>
  C39. Errors of system calls. The twelve numbers of the table are the only ones known, and the table
  passes its self test; a call with any other number returns \<open>-1\<close> and changes only the counters
  of the dispatcher. Every error of the mailboxes has a return value of its own, different from success,
  from the unknown number and from the invalid buffer.
\<close>

theorem syscall_errors_distinct:
  "(lookup number = None \<longleftrightarrow> number \<notin> {1 .. 12}) \<and> syscall_selftest (syscall_init s)
   \<and> (number \<notin> {1 .. 12} \<longrightarrow> (case syscall_dispatch_handler number a frame M of (c, frame', M') \<Rightarrow>
        c = Returns 0 \<and> frame' = frame\<lparr>sf_rax := - 1\<rparr> \<and> m_kernel M' = m_kernel M \<and> m_screen M' = m_screen M
        \<and> sy_unknown_syscalls (m_syscall M') = sy_unknown_syscalls (m_syscall M) + 1))
   \<and> inj ipc_error_return \<and> range ipc_error_return \<inter> {RET_OK, RET_UNKNOWN_SYSCALL, RET_INVALID_USER_BUFFER} = {}"
proof -
  have "set (map se_number SYSCALLS) = {1 .. 12}"
  proof (rule set_eqI, rule iffI)
    fix n assume "n \<in> {1 .. 12 :: u64}"
    then have "1 \<le> unat n" "unat n \<le> 12" by (simp_all add: word_le_nat_alt)
    then have "unat n \<in> set [1 ..< 13]" by simp
    then have "(of_nat (unat n) :: u64) \<in> of_nat ` set [1 ..< 13]" by (rule imageI)
    then show "n \<in> set (map se_number SYSCALLS)" unfolding table_numbers by (simp add: upt_rec)
  qed (unfold table_numbers, auto)
  then have l: "lookup number = None \<longleftrightarrow> number \<notin> {1 .. 12}" unfolding lookup_numbers by simp
  moreover have "syscall_selftest (syscall_init s)" 
    unfolding syscall_selftest_def syscall_init_def by (intro conjI) (simp, code_simp+)
  moreover have "inj ipc_error_return" by (rule injI) (rule error_return_codes(1))
  moreover have "range ipc_error_return \<inter> {RET_OK, RET_UNKNOWN_SYSCALL, RET_INVALID_USER_BUFFER} = {}"
    using error_return_codes(2) by blast
  ultimately show ?thesis
    by (auto simp: syscall_dispatch_handler_def dispatch_def count_syscall_def set_last_return_def RET_UNKNOWN_SYSCALL_def
        update_syscall_def update_stats_def update_user_def)
qed

theorem syscall_errors_distinct_witness:
  "\<forall>M. fst (snd (syscall_dispatch_handler 99 0 demo_frame M)) = demo_frame\<lparr>sf_rax := - 1\<rparr>"
  using syscall_errors_distinct [where number = 99 and a = 0 and frame = demo_frame] by (auto simp: case_prod_beta)

end
