(* ===== verification/Kernel_Switch.thy ===== *)
theory Kernel_Switch
  imports Kernel_Properties
begin

text \<open>
  Switching between tasks: a blocking receive and a timer interrupt hand the processor to the
  first ready task, a message, a cancellation or a deadline makes a blocked receiver ready again.
\<close>

section \<open>The decisions of the scheduler\<close>

lemma dispatch_switched:
  assumes "sched_inv s" "block_current_and_dispatch s t = (d, s')" "switched d"
  obtains e es where "ready s = e # es" "current_task s = t" "t \<noteq> 0" "previous_task d = t" "next_task d = task_id e"
    "ready s' = es" "current_task s' = task_id e" "blocked_tasks s' = blocked_tasks s @ [t]"
proof -
  have c: "sch_initialized s" "t \<noteq> 0" "current_task s = t" "ready s \<noteq> []" "sch_blocked_len s < QUEUE_CAPACITY"
    using dispatch_refuses [of s t] assms(2,3) by (fastforce simp: PreemptionDecision_none_def)+
  then obtain e es where e: "ready s = e # es" by (cases "ready s") auto
  show thesis using that [OF e c(3,2)] dispatch_state [OF assms(1) c(1) _ e c(5)] c(2,3) assms(2) by simp
qed

lemma preempt_switched:
  assumes "sched_inv s" "preempt_current s = (d, s')" "switched d"
  obtains e es where "ready s = e # es" "current_task s \<noteq> 0" "quantum_ticks s \<le> slice_ticks s"
    "previous_task d = current_task s" "next_task d = task_id e"
    "ready s' = es @ [\<lparr>task_id = current_task s, ready_since = timer_ticks s\<rparr>]" "current_task s' = task_id e"
    "blocked_tasks s' = blocked_tasks s"
proof -
  have c: "sch_initialized s" "current_task s \<noteq> 0" "ready s \<noteq> []" "quantum_ticks s \<le> slice_ticks s"
    using preempt_current_refuses [of s] assms(2,3) by (fastforce simp: PreemptionDecision_none_def not_less)+
  then obtain e es where e: "ready s = e # es" by (cases "ready s") auto
  show thesis using that [OF e c(2,4)] preempt_current_state [OF assms(1) c(1,2) e c(4)] assms(2) by simp
qed

lemma different_slots:
  assumes "find_task p t = Some i" "find_task p u = Some j" "t \<noteq> u"
  shows "i \<noteq> j" "i < length (pt_slots p)" "j < length (pt_slots p)"
  using find_task_Some [OF assms(1)] find_task_Some [OF assms(2)] assms(3) by auto

section \<open>Two tasks\<close>

text \<open>A kernel with task 1 running and task 2 ready, both with a saved context and a root of page tables.\<close>

definition duo_slot :: "u64 \<Rightarrow> TaskState \<Rightarrow> u64 \<Rightarrow> ProcessSlot" where
  "duo_slot t state root = ProcessSlot_empty\<lparr>
     sl_task := Task_empty\<lparr>tk_id := t, tk_state := state, tk_address_space_root := root\<rparr>,
     sl_timer_context := initial_timer_context (USER_ELF_BASE + t) USER_ELF_STACK_TOP, sl_context_valid := True\<rparr>"

definition duo_sched :: Scheduler where
  "duo_sched = (begin_task (snd (enqueue (sched_init 0 Scheduler_new) 2)) 1)\<lparr>slice_ticks := 1, quantum_ticks := 1\<rparr>"

definition duo :: "Vm \<Rightarrow> KernelHeap \<Rightarrow> Kernel" where
  "duo vm h =
     (let K = kernel_start vm ArchiveState_empty h 0
      in K\<lparr>k_table := (k_table K)\<lparr>pt_next_task_id := 3, pt_preemption_active := True, pt_preemption_target := 8,
             pt_slots := duo_slot 1 TaskRunning 0x5000 # duo_slot 2 TaskReady 0x6000 # replicate 6 ProcessSlot_empty\<rparr>,
           k_sched := duo_sched\<rparr>)"

abbreviation duo_kernel :: Kernel where
  "duo_kernel \<equiv> duo small_vm demo_heap"

lemma duo_sched_known: "sched_known 3 duo_sched"
proof -
  have "sched_known 3 (sched_init 0 Scheduler_new)"
    using sched_init_inv [of Scheduler_new 0]
    by (simp add: sched_known_def all_tasks_def sched_init_def Scheduler_new_def ready_def blocked_tasks_def)
  then have "sched_known 3 (snd (enqueue (sched_init 0 Scheduler_new) 2))"
    by (rule enqueue_known) (simp_all add: blocked_tasks_def sched_init_def Scheduler_new_def)
  then have k: "sched_known 3 (begin_task (snd (enqueue (sched_init 0 Scheduler_new) 2)) 1)" by (rule begin_task_known) simp
  then show ?thesis unfolding duo_sched_def by (rule sched_known_same)
      (use k in \<open>simp_all add: sched_known_def sched_inv_def all_tasks_def sched_sized_def ready_def blocked_tasks_def\<close>)
qed

lemma duo_kernel_inv: "kernel_inv (all_frames (phys_init 0x100000 0x104000 small_boot)) duo_kernel"
proof -
  have S: "system_inv (all_frames (phys_init 0x100000 0x104000 small_boot)) (small_vm, [])"
    using spaces_reachable_inv small_start by (simp add: small_reachable_def)
  have start: "kernel_inv (all_frames (phys_init 0x100000 0x104000 small_boot)) (kernel_start small_vm ArchiveState_empty demo_heap 0)"
    by (rule kernel_start_inv [OF S]) (use reset_inv [OF demo_start] in blast)
  have sp: "spaces duo_kernel = replicate 8 AddressSpace_empty"
    by (simp add: duo_def Let_def duo_slot_def ProcessSlot_empty_def numeral_eq_Suc)
  have t: "table_inv (k_table duo_kernel)"
    by (rule table_inv_distinct)
      (simp_all add: duo_def Let_def duo_slot_def ProcessSlot_empty_def Task_empty_def MAX_TASKS_def)
  have parts: "k_sched duo_kernel = duo_sched" "pt_next_task_id (k_table duo_kernel) = 3" "k_vm duo_kernel = small_vm"
    "k_ipc duo_kernel = k_ipc (kernel_start small_vm ArchiveState_empty demo_heap 0)"
    "k_heap duo_kernel = k_heap (kernel_start small_vm ArchiveState_empty demo_heap 0)"
    by (simp_all add: duo_def Let_def kernel_start_def)
  show ?thesis
    unfolding kernel_inv_def parts sp
    using t duo_sched_known kernel_invD(3,6) [OF start] system_inv_empties [OF S, of 8] by (simp only: simp_thms)
qed

lemma duo_find: "find_task (k_table duo_kernel) 1 = Some 0" "find_task (k_table duo_kernel) 2 = Some 1"
  by (simp_all add: find_task_def duo_def Let_def duo_slot_def)

lemma duo_ready: "map task_id (ready duo_sched) = [2]" "blocked_tasks duo_sched = []"
  by code_simp+

lemma duo_blocks: "fst (block_for_ipc_syscall 1 demo_frame 10 (duo vm h)) = Some 0x6000"
  by code_simp

lemma duo_switches: "fst (on_timer_interrupt (initial_timer_context 0x401000 0x402000) (duo vm h)) = TimerSwitch 0x6000"
  by code_simp

section \<open>Properties\<close>

text \<open>
  C5. When a receive blocks, the processor goes to the task that has been ready the longest: its
  saved registers and its page tables are loaded and it runs. The caller is blocked, with the deadline,
  and its registers are kept such that it will execute the same system call again; every other
  slot is unchanged.
\<close>

theorem blocking_receive_switches:
  assumes inv: "kernel_inv E K" and i: "find_task (k_table K) t = Some i"
    and b: "block_for_ipc_syscall t frame deadline K = (Some root, frame', K')"
  shows "\<exists>n es j. ready (k_sched K) = n # es \<and> current_task (k_sched K) = t \<and> find_task (k_table K) (task_id n) = Some j
    \<and> current_task (k_sched K') = task_id n \<and> ready (k_sched K') = es
    \<and> blocked_tasks (k_sched K') = blocked_tasks (k_sched K) @ [t]
    \<and> root = tk_address_space_root (task_at K j) \<and> root \<noteq> 0
    \<and> frame' = load_syscall_context frame (sl_timer_context (slots K ! j)) \<and> tk_state (task_at K' j) = TaskRunning
    \<and> task_at K' i = (task_at K i)\<lparr>tk_state := TaskBlocked, tk_ipc_waiting := True, tk_ipc_restart_pending := True,
        tk_ipc_deadline_tick := deadline, tk_ipc_wake_reason := WakeNone\<rparr>
    \<and> (\<forall>f. load_syscall_context f (sl_timer_context (slots K' ! i)) = frame\<lparr>sf_rip := sat_sub (sf_rip frame) 2\<rparr>)
    \<and> (\<forall>k. k \<noteq> i \<longrightarrow> k \<noteq> j \<longrightarrow> slots K' ! k = slots K ! k)"
proof -
  define K1 where "K1 = update_slot i (\<lambda>slot. slot\<lparr>
      sl_timer_context := save_syscall_context (sl_timer_context slot) frame True, sl_context_valid := True\<rparr>) K"
  obtain d s where d: "block_current_and_dispatch (k_sched K) t = (d, s)" by fastforce
  have sw: "switched d" using b i d by (auto simp: block_for_ipc_syscall_def Let_def split: if_splits)
  have si: "sched_inv (k_sched K)" using kernel_invD(2) [OF inv] by (simp add: sched_known_def)
  obtain e es where e: "ready (k_sched K) = e # es" "current_task (k_sched K) = t" "t \<noteq> 0" "previous_task d = t"
    "next_task d = task_id e" "ready s = es" "current_task s = task_id e"
    "blocked_tasks s = blocked_tasks (k_sched K) @ [t]" by (rule dispatch_switched [OF si d sw])
  have ne: "t \<noteq> task_id e" using si e(1,2) by (auto simp: sched_inv_def)
  have f1: "find_task (k_table K1) u = find_task (k_table K) u" for u
    using same_memory_find(1) [OF same_memory_slot, of K i] by (simp add: K1_def same_owner_def)
  have k1: "k_sched K1 = k_sched K" by (simp add: K1_def)
  have g: "tk_state (task_at K i) = TaskRunning" "tk_wait_target (task_at K i) = 0" "\<not> tk_ipc_waiting (task_at K i)"
    "\<not> tk_ipc_restart_pending (task_at K i)"
    using b i by (auto simp: block_for_ipc_syscall_def Let_def split: if_splits)
  have b1: "block_for_ipc_syscall t frame deadline K = (case find_task (k_table K) (task_id e) of
       None \<Rightarrow> (None, frame, K1\<lparr>k_sched := s\<rparr>)
     | Some j \<Rightarrow> if \<not> sl_context_valid (slots K1 ! j) \<or> tk_address_space_root (task_at K1 j) = 0 then (None, frame, K1\<lparr>k_sched := s\<rparr>)
        else let K = update_task i (\<lambda>task. task\<lparr>tk_state := TaskBlocked, tk_ipc_waiting := True,
               tk_ipc_restart_pending := True, tk_ipc_deadline_tick := deadline, tk_ipc_wake_reason := WakeNone\<rparr>) (K1\<lparr>k_sched := s\<rparr>);
             K = update_task j (dispatched (k_ticks K) (waited_ticks d)) K;
             frame = load_syscall_context frame (sl_timer_context (slots K ! j));
             K = update_table (\<lambda>p. p\<lparr>pt_ipc_blocking_switches := sat_add (pt_ipc_blocking_switches p) 1,
                                  pt_last_task_id := task_id e\<rparr>) K
          in (Some (tk_address_space_root (task_at K j)), frame, K))"
    unfolding block_for_ipc_syscall_def using i d sw e g
    by (simp add: Let_def K1_def [symmetric] f1 k1 split: option.split)
  obtain j where j: "find_task (k_table K) (task_id e) = Some j" using b b1 by (cases "find_task (k_table K) (task_id e)") auto
  note ij = different_slots [OF i j ne]
  have s1: "slots K1 ! k = (if k = i then (slots K ! i)\<lparr>sl_timer_context :=
      save_syscall_context (sl_timer_context (slots K ! i)) frame True, sl_context_valid := True\<rparr> else slots K ! k)" for k
    using ij by (simp add: K1_def slot_update)
  have l1: "length (slots K1) = length (slots K)" by (simp add: K1_def)
  show ?thesis
    by (rule exI [of _ e], rule exI [of _ es], rule exI [of _ j])
      (use b ij e j in \<open>auto simp: b1 Let_def s1 l1 nth_list_update load_save_context SYSCALL_INSTRUCTION_BYTES_def dispatched_def split: if_splits\<close>)
qed

theorem blocking_receive_switches_witness:
  "\<exists>root frame' K'. block_for_ipc_syscall 1 demo_frame 10 duo_kernel = (Some root, frame', K')
     \<and> current_task (k_sched K') = 2 \<and> blocked_tasks (k_sched K') = [1] \<and> root = 0x6000"
proof -
  obtain frame' K' where e: "block_for_ipc_syscall 1 demo_frame 10 duo_kernel = (Some 0x6000, frame', K')"
    using duo_blocks by (metis prod.collapse)
  have "map task_id (ready (k_sched duo_kernel)) = [2]" "blocked_tasks (k_sched duo_kernel) = []"
    using duo_ready by (simp_all add: duo_def Let_def)
  with blocking_receive_switches [OF duo_kernel_inv duo_find(1) e] e show ?thesis by auto
qed

text \<open>
  C8. A timer interrupt that switches tasks comes from user mode at the end of a time slice of the
  preemption test. The processor goes to the task that has been ready the longest, with its
  saved registers and page tables; the interrupted registers are kept in the slot of the interrupted
  task, which goes to the end of the ready queue; every other slot is unchanged.
\<close>

theorem timer_switch_exact:
  assumes inv: "kernel_inv E K" and b: "on_timer_interrupt context K = (TimerSwitch root, context', K')"
  shows "\<exists>n es i j. ready (k_sched K) = n # es \<and> from_user context \<and> pt_preemption_active (k_table K)
    \<and> quantum_ticks (k_sched K) \<le> slice_ticks (k_sched K)
    \<and> find_task (k_table K) (current_task (k_sched K)) = Some i \<and> find_task (k_table K) (task_id n) = Some j \<and> i \<noteq> j
    \<and> current_task (k_sched K') = task_id n
    \<and> ready_ids (k_sched K') = map task_id es @ [current_task (k_sched K)]
    \<and> root = tk_address_space_root (task_at K j) \<and> root \<noteq> 0 \<and> context' = sl_timer_context (slots K ! j)
    \<and> tk_state (task_at K' j) = TaskRunning \<and> tk_state (task_at K' i) = TaskReady
    \<and> sl_timer_context (slots K' ! i) = context \<and> sl_context_valid (slots K' ! i)
    \<and> (\<forall>k. k \<noteq> i \<longrightarrow> k \<noteq> j \<longrightarrow> slots K' ! k = slots K ! k)"
proof -
  obtain d s where d: "preempt_current (k_sched K) = (d, s)" by fastforce
  have g: "pt_preemption_active (k_table K)" "from_user context"
    "\<not> pt_preemption_target (k_table K) \<le> pt_preemption_switches (k_table K)" "switched d"
    using b d by (auto simp: on_timer_interrupt_def Let_def split: if_splits)
  have si: "sched_inv (k_sched K)" using kernel_invD(2) [OF inv] by (simp add: sched_known_def)
  obtain e es where e: "ready (k_sched K) = e # es" "quantum_ticks (k_sched K) \<le> slice_ticks (k_sched K)"
    "previous_task d = current_task (k_sched K)" "next_task d = task_id e"
    "ready s = es @ [\<lparr>task_id = current_task (k_sched K), ready_since = timer_ticks (k_sched K)\<rparr>]"
    "current_task s = task_id e" by (rule preempt_switched [OF si d g(4)])
  have ne: "current_task (k_sched K) \<noteq> task_id e" using si e(1) by (auto simp: sched_inv_def)
  obtain i j where i: "find_task (k_table K) (current_task (k_sched K)) = Some i" and j: "find_task (k_table K) (task_id e) = Some j"
    using b d g e by (auto simp: on_timer_interrupt_def Let_def split: option.splits)
  note ij = different_slots [OF i j ne]
  show ?thesis
    by (rule exI [of _ e], rule exI [of _ es], rule exI [of _ i], rule exI [of _ j])
      (use b d g e i j ij in \<open>auto simp: on_timer_interrupt_def Let_def nth_list_update dispatched_def split: if_splits\<close>)
qed

theorem timer_switch_exact_witness:
  "\<exists>context' K'. on_timer_interrupt (initial_timer_context 0x401000 0x402000) duo_kernel = (TimerSwitch 0x6000, context', K')
     \<and> current_task (k_sched K') = 2 \<and> context' = initial_timer_context (USER_ELF_BASE + 2) USER_ELF_STACK_TOP"
proof -
  obtain context' K' where e: "on_timer_interrupt (initial_timer_context 0x401000 0x402000) duo_kernel = (TimerSwitch 0x6000, context', K')"
    using duo_switches by (metis prod.collapse)
  have r: "map task_id (ready (k_sched duo_kernel)) = [2]" using duo_ready by (simp add: duo_def Let_def)
  have "sl_timer_context (slots duo_kernel ! 1) = initial_timer_context (USER_ELF_BASE + 2) USER_ELF_STACK_TOP"
    by (simp add: duo_def Let_def duo_slot_def)
  with timer_switch_exact [OF duo_kernel_inv e] r duo_find(2) e show ?thesis by auto
qed

end
