(* ===== verification/Kernel_Wake.thy ===== *)
theory Kernel_Wake
  imports Kernel_Switch Ipc_Lifecycle
begin

text \<open>
  Waking a task that waits for a message: by the message, which its receive then returns, or by
  the deadline of the receive.
\<close>

section \<open>One wake-up\<close>

abbreviation waits_for_message :: "Kernel \<Rightarrow> nat \<Rightarrow> bool" where
  "waits_for_message K i \<equiv> tk_state (task_at K i) = TaskBlocked \<and> tk_ipc_waiting (task_at K i)"

definition woken :: "IpcWakeReason \<Rightarrow> Task \<Rightarrow> Task" where
  "woken reason task = task\<lparr>tk_state := TaskReady, tk_ipc_waiting := False, tk_ipc_deadline_tick := 0,
     tk_ipc_wake_reason := reason\<rparr>"

lemma wake_ipc_task_ok:
  assumes inv: "kernel_inv E K" and i: "find_task (k_table K) t = Some i" and w: "waits_for_message K i"
    and b: "t \<in> set (blocked_tasks (k_sched K))" "sch_len (k_sched K) < QUEUE_CAPACITY"
  obtains s where "wake_ipc_task reason t K = (True, update_task i (woken reason) (K\<lparr>k_sched := s\<rparr>))"
    "ready s = ready (k_sched K) @ [\<lparr>task_id = t, ready_since = timer_ticks (k_sched K)\<rparr>]"
    "blocked_tasks s = filter (\<lambda>u. u \<noteq> t) (blocked_tasks (k_sched K))" "current_task s = current_task (k_sched K)"
proof -
  have si: "sched_inv (k_sched K)" using kernel_invD(2) [OF inv] by (simp add: sched_known_def)
  note s = wake_task_state [OF si b]
  obtain s' where e: "wake_task (k_sched K) t = (True, s')" using s(1) by (metis prod.collapse)
  have "woken reason = (\<lambda>task. task\<lparr>tk_state := TaskReady, tk_ipc_waiting := False, tk_ipc_deadline_tick := 0,
      tk_ipc_wake_reason := reason\<rparr>)" by (simp add: fun_eq_iff woken_def)
  then show thesis using that [of s'] s e i w by (simp add: wake_ipc_task_def)
qed

lemma send_kernel:
  assumes inv: "kernel_inv E K" and e: "find_endpoint (k_ipc K) receiver = Some e" "find_endpoint (k_ipc K) sender \<noteq> None"
    and l: "ep_len (ipc_endpoints (k_ipc K) ! e) = 0" "length bytes \<le> MAX_MESSAGE_BYTES"
  defines "m \<equiv> make_message sender (next_sequence (k_ipc K)) 0 0 bytes"
  obtains c where "send (k_ipc K) sender receiver bytes =
      (Inr (next_sequence (k_ipc K), ep_waiting (ipc_endpoints (k_ipc K) ! e)), c)"
    "ipc_inv c" "find_endpoint c receiver = Some e" "ep_messages (ipc_endpoints c ! e) = [m]" "\<not> ep_waiting (ipc_endpoints c ! e)"
proof -
  let ?s = "k_ipc K" and ?c = "snd (send (k_ipc K) sender receiver bytes)"
  let ?e = "(ipc_endpoints ?s ! e)\<lparr>ep_waiting := False\<rparr>"
  have I: "ipc_inv ?s" by (rule kernel_invD(3) [OF inv])
  note i = find_endpoint_Some [OF I e(1)]
  have room: "ep_len (ipc_endpoints ?s ! e) < QUEUE_DEPTH" "ipc_initialized ?s"
    using l(1) I by (simp_all add: ipc_consts ipc_inv_def)
  note sent = send_ok_eq [OF room(2) l(2) e(2,1) room(1)]
  have box: "mailbox_ok ?e" using i(4) by (simp add: ep_ok_def ep_sized_def mailbox_ok_def)
  have "map ep_owner (ipc_endpoints ?c) = map ep_owner (ipc_endpoints ?s)"
    unfolding sent(2) by (rule map_update_same [OF i(2)]) (use push_ok(4) [OF box] room in simp)
  then have find: "find_endpoint ?c receiver = Some e" using find_endpoint_owners e(1) by metis
  have "ep_messages (ipc_endpoints ?c ! e) = [m]" "\<not> ep_waiting (ipc_endpoints ?c ! e)"
    using push_ok(2,7) [OF box, of m] room l(1) i(2) by (simp_all add: sent(2) m_def)
  then show thesis using that [OF _ send_inv [OF I] find] sent(1) by (metis prod.collapse)
qed

section \<open>A blocked receiver\<close>

text \<open>Tasks 1 and 2 of the example have endpoints; task 1 blocks in a receive with a deadline at tick 10.\<close>

definition pair_blocked :: "Vm \<Rightarrow> KernelHeap \<Rightarrow> Kernel" where
  "pair_blocked vm h = snd (snd (block_syscall 1 demo_frame 10 ((duo vm h)\<lparr>k_ipc := run_granted\<rparr>)))"

lemma pair_blocked_inv: "kernel_inv (all_frames (phys_init 0x100000 0x104000 small_boot)) (pair_blocked small_vm demo_heap)"
proof -
  have "kernel_inv (all_frames (phys_init 0x100000 0x104000 small_boot)) (duo_kernel\<lparr>k_ipc := run_granted\<rparr>)"
    using duo_kernel_inv reachable_inv [OF run_granted_reachable] by (rule ipc_update_inv)
  then show ?thesis using block_syscall_safe by (simp add: pair_blocked_def safe_op_def)
qed

lemma pair_blocked_facts:
  "find_task (k_table (pair_blocked vm h)) 1 = Some 0" "find_endpoint (k_ipc (pair_blocked vm h)) 1 = Some 0"
  "find_endpoint (k_ipc (pair_blocked vm h)) 2 = Some 1" "ep_len (ipc_endpoints (k_ipc (pair_blocked vm h)) ! 0) = 0"
  "ep_waiting (ipc_endpoints (k_ipc (pair_blocked vm h)) ! 0)" "waits_for_message (pair_blocked vm h) 0"
  "blocked_tasks (k_sched (pair_blocked vm h)) = [1]" "sch_len (k_sched (pair_blocked vm h)) = 0"
  "tk_ipc_deadline_tick (task_at (pair_blocked vm h) 0) = 10"
  by code_simp+

section \<open>Properties\<close>

text \<open>
  C6. A message wakes the task that waits for it. Sending to a task that is blocked in a receive on
  its empty mailbox succeeds: the receiver is ready, at the end of the ready queue, and no longer marked as
  waiting, and its receive then returns the sender, the sequence number and exactly the bytes that were
  sent.
\<close>

theorem message_wakes_receiver:
  assumes inv: "kernel_inv E K" and e: "find_endpoint (k_ipc K) receiver = Some e" "find_endpoint (k_ipc K) sender \<noteq> None"
    and n: "receiver \<noteq> 0" "ep_len (ipc_endpoints (k_ipc K) ! e) = 0" "ep_waiting (ipc_endpoints (k_ipc K) ! e)"
    and l: "length bytes \<le> MAX_MESSAGE_BYTES" "length bytes \<le> length buffer"
    and i: "find_task (k_table K) receiver = Some i" "waits_for_message K i"
    and b: "receiver \<in> set (blocked_tasks (k_sched K))" "sch_len (k_sched K) < QUEUE_CAPACITY"
  shows "\<exists>K1 K2. ipc_send sender receiver bytes K = (Inr (next_sequence (k_ipc K)), K1)
    \<and> tk_state (task_at K1 i) = TaskReady \<and> tk_ipc_wake_reason (task_at K1 i) = WakeMessage \<and> \<not> tk_ipc_waiting (task_at K1 i)
    \<and> ready_ids (k_sched K1) = ready_ids (k_sched K) @ [receiver] \<and> receiver \<notin> set (blocked_tasks (k_sched K1))
    \<and> \<not> ep_waiting (ipc_endpoints (k_ipc K1) ! e)
    \<and> ipc_receive receiver buffer False K1 = (Inr (ReceivedMessage \<lparr>dl_sender = sender, dl_length = of_nat (length bytes),
          dl_sequence = next_sequence (k_ipc K), dl_capability_handle = 0, dl_capability_rights = 0\<rparr>),
        bytes @ drop (length bytes) buffer, K2)"
proof -
  define m where "m = make_message sender (next_sequence (k_ipc K)) 0 0 bytes"
  obtain c where c: "send (k_ipc K) sender receiver bytes = (Inr (next_sequence (k_ipc K), True), c)" "ipc_inv c"
    "find_endpoint c receiver = Some e" "ep_messages (ipc_endpoints c ! e) = [m]" "\<not> ep_waiting (ipc_endpoints c ! e)"
    using send_kernel [OF inv e n(2) l(1)] n(3) unfolding m_def by metis
  let ?Kc = "K\<lparr>k_ipc := c\<rparr>"
  have ic: "kernel_inv E ?Kc" using inv c(2) by (rule ipc_update_inv)
  obtain s where s: "wake_ipc_task WakeMessage receiver ?Kc = (True, update_task i (woken WakeMessage) (?Kc\<lparr>k_sched := s\<rparr>))"
    "ready s = ready (k_sched K) @ [\<lparr>task_id = receiver, ready_since = timer_ticks (k_sched K)\<rparr>]"
    "blocked_tasks s = filter (\<lambda>u. u \<noteq> receiver) (blocked_tasks (k_sched K))"
    using wake_ipc_task_ok [OF ic, of receiver i WakeMessage] i b by auto
  define c1 where "c1 = c\<lparr>receiver_wakeups := sat_add (receiver_wakeups c) 1\<rparr>"
  define K1 where "K1 = (update_task i (woken WakeMessage) (?Kc\<lparr>k_sched := s\<rparr>))\<lparr>k_ipc := c1\<rparr>"
  have K1: "ipc_send sender receiver bytes K = (Inr (next_sequence (k_ipc K)), K1)"
    using c(1) s(1) by (simp add: ipc_send_def with_ipc_def finish_send_locked_def wake_from_ipc_def update_ipc_def K1_def c1_def)
  have "ipc_inv c1" "find_endpoint c1 receiver = Some e" "ep_messages (ipc_endpoints c1 ! e) = [m]"
    using c(2-4) by (simp_all add: c1_def find_endpoint_def)
  from receive_spec [OF this(1) n(1) this(2), of buffer] this(3) l(2) obtain c2 where
    "receive c1 receiver buffer = (Inr (delivery_of m), bytes @ drop (length bytes) buffer, c2)"
    by (auto simp: m_def make_message_def)
  then have "ipc_receive receiver buffer False K1 = (Inr (ReceivedMessage (delivery_of m)),
      bytes @ drop (length bytes) buffer, K1\<lparr>k_ipc := c2\<rparr>)"
    by (simp add: ipc_receive_def K1_def)
  then show ?thesis using K1 s(2,3) c(5) find_task_Some(1) [OF i(1)]
    by (auto simp: K1_def c1_def woken_def m_def delivery_of_def make_message_def)
qed

theorem message_wakes_receiver_witness:
  "\<exists>K1 K2. ipc_send 2 1 [7, 8] (pair_blocked small_vm demo_heap) = (Inr (next_sequence (k_ipc (pair_blocked small_vm demo_heap))), K1)
     \<and> tk_state (task_at K1 0) = TaskReady
     \<and> fst (ipc_receive 1 [0, 0, 9] False K1) = Inr (ReceivedMessage \<lparr>dl_sender = 2, dl_length = 2,
          dl_sequence = next_sequence (k_ipc (pair_blocked small_vm demo_heap)), dl_capability_handle = 0, dl_capability_rights = 0\<rparr>)"
proof -
  note f = pair_blocked_facts [of small_vm demo_heap]
  have "find_endpoint (k_ipc (pair_blocked small_vm demo_heap)) 2 \<noteq> None" using f(3) by simp
  note T = message_wakes_receiver [OF pair_blocked_inv f(2) this _ f(4,5) _ _ f(1,6), of "[7, 8]" "[0, 0, 9]"]
  show ?thesis using T f(7,8) by (auto simp: ipc_consts QUEUE_CAPACITY_def)
qed

end
