(* ===== verification/Kernel_Deadlines.thy ===== *)
theory Kernel_Deadlines
  imports Kernel_Wake Interrupts
begin

text \<open>
  The timer's part in a blocking receive: at every tick the tasks whose deadline has passed become
  ready, in the order of their slots, as far as the ready queue has room for them, and their receive
  will report the timeout.
\<close>

section \<open>Waking a task in the scheduler\<close>

text \<open>
  A task that is current or ready already counts as woken and the queue stays as it is; a blocked
  task goes to the end of the ready queue when there is room; every other attempt fails.
\<close>

definition runnable :: "Scheduler \<Rightarrow> u64 \<Rightarrow> bool" where
  "runnable s t \<longleftrightarrow> current_task s = t \<or> t \<in> set (ready_ids s)"

definition admitted :: "Scheduler \<Rightarrow> u64 \<Rightarrow> bool" where
  "admitted s t \<longleftrightarrow> t \<in> set (blocked_tasks s) \<and> length (ready_ids s) < QUEUE_CAPACITY"

lemma wake_task_effect:
  assumes inv: "sched_inv s" and t: "t \<noteq> 0"
  shows "fst (wake_task s t) \<longleftrightarrow> runnable s t \<or> admitted s t"
    and "ready_ids (snd (wake_task s t)) = ready_ids s @ (if admitted s t then [t] else [])"
    and "set (blocked_tasks (snd (wake_task s t))) = set (blocked_tasks s) - (if admitted s t then {t} else {})"
    and "current_task (snd (wake_task s t)) = current_task s"
proof -
  note c = sched_contains_iff [OF sched_invD(1) [OF inv], of t]
  have "(fst (wake_task s t) \<longleftrightarrow> runnable s t \<or> admitted s t)
    \<and> ready_ids (snd (wake_task s t)) = ready_ids s @ (if admitted s t then [t] else [])
    \<and> set (blocked_tasks (snd (wake_task s t))) = set (blocked_tasks s) - (if admitted s t then {t} else {})
    \<and> current_task (snd (wake_task s t)) = current_task s"
  proof (cases "t \<in> set (blocked_tasks s)")
    case True
    have n: "\<not> runnable s t" using True inv by (auto simp: runnable_def sched_inv_def)
    show ?thesis
    proof (cases "sch_len s < QUEUE_CAPACITY")
      case room: True
      from wake_task_state [OF inv True room] True room show ?thesis by (auto simp: admitted_def)
    next
      case full: False
      then have "sch_len s = QUEUE_CAPACITY" using sched_invD(1) [OF inv] by (simp add: sched_sized_def)
      from wake_task_full [OF inv True this] True full n show ?thesis by (auto simp: admitted_def)
    qed
  next
    case False
    have "fst (remove_blocked s t) = False" using False remove_blocked_tasks [OF sched_invD(1,3) [OF inv], of t] by simp
    then have "fst (wake_task s t) \<longleftrightarrow> runnable s t"
      using t c by (auto simp: wake_task_def runnable_def split: prod.splits bool.splits)
    with wake_task_not_blocked [OF inv False] False show ?thesis by (auto simp: admitted_def)
  qed
  then show "fst (wake_task s t) \<longleftrightarrow> runnable s t \<or> admitted s t"
    "ready_ids (snd (wake_task s t)) = ready_ids s @ (if admitted s t then [t] else [])"
    "set (blocked_tasks (snd (wake_task s t))) = set (blocked_tasks s) - (if admitted s t then {t} else {})"
    "current_task (snd (wake_task s t)) = current_task s" by blast+
qed

section \<open>One endpoint\<close>

lemma set_waiting_False:
  "find_endpoint (snd (set_waiting c t False)) u = find_endpoint c u"
  "ep_waiting (ipc_endpoints (snd (set_waiting c t False)) ! e) \<longleftrightarrow>
     ep_waiting (ipc_endpoints c ! e) \<and> find_endpoint c t \<noteq> Some e"
proof -
  have l: "j < length (ipc_endpoints c)" if "find_endpoint c t = Some j" for j
    using that position_SomeD unfolding find_endpoint_def by blast
  have eq: "ipc_endpoints (snd (set_waiting c t False)) = (case find_endpoint c t of None \<Rightarrow> ipc_endpoints c
    | Some j \<Rightarrow> (ipc_endpoints c)[j := (ipc_endpoints c ! j)\<lparr>ep_waiting := False\<rparr>])"
    by (simp add: set_waiting_def set_endpoint_def split: option.split)
  have "map ep_owner (ipc_endpoints (snd (set_waiting c t False))) = map ep_owner (ipc_endpoints c)"
    unfolding eq by (auto split: option.split intro!: map_update_same l)
  then show "find_endpoint (snd (set_waiting c t False)) u = find_endpoint c u" by (rule find_endpoint_owners)
  show "ep_waiting (ipc_endpoints (snd (set_waiting c t False)) ! e) \<longleftrightarrow>
      ep_waiting (ipc_endpoints c ! e) \<and> find_endpoint c t \<noteq> Some e"
    unfolding eq using l by (auto simp: nth_list_update split: option.split)
qed

section \<open>One slot\<close>

definition expired :: "u64 \<Rightarrow> Kernel \<Rightarrow> nat \<Rightarrow> bool" where
  "expired now K i \<longleftrightarrow> waits_for_message K i \<and> tk_ipc_deadline_tick (task_at K i) \<noteq> 0
     \<and> tk_ipc_deadline_tick (task_at K i) \<le> now"

abbreviation id_at :: "Kernel \<Rightarrow> nat \<Rightarrow> u64" where
  "id_at K i \<equiv> tk_id (task_at K i)"

text \<open>
  Of the slots \<open>xs\<close>, \<open>queued\<close> are those whose expired task enters the ready queue, while it has
  room, and \<open>awake\<close> those whose task is marked ready: the queued ones and those the scheduler
  already holds as ready or current.
\<close>

definition queued :: "u64 \<Rightarrow> nat list \<Rightarrow> Kernel \<Rightarrow> nat list" where
  "queued now xs K = take (QUEUE_CAPACITY - length (ready_ids (k_sched K)))
     (filter (\<lambda>i. expired now K i \<and> id_at K i \<in> set (blocked_tasks (k_sched K))) xs)"

definition awake :: "u64 \<Rightarrow> nat list \<Rightarrow> Kernel \<Rightarrow> nat set" where
  "awake now xs K = {i \<in> set xs. expired now K i \<and> runnable (k_sched K) (id_at K i)} \<union> set (queued now xs K)"

definition expire_result :: "u64 \<Rightarrow> nat list \<Rightarrow> Kernel \<Rightarrow> Kernel \<Rightarrow> bool" where
  "expire_result now xs K K' \<longleftrightarrow>
     (\<forall>i < MAX_TASKS. slots K' ! i = (if i \<in> awake now xs K
        then (slots K ! i)\<lparr>sl_task := woken WakeTimeout (task_at K i)\<rparr> else slots K ! i))
     \<and> ready_ids (k_sched K') = ready_ids (k_sched K) @ map (id_at K) (queued now xs K)
     \<and> set (blocked_tasks (k_sched K')) = set (blocked_tasks (k_sched K)) - id_at K ` set (queued now xs K)
     \<and> current_task (k_sched K') = current_task (k_sched K)
     \<and> (\<forall>t. find_endpoint (k_ipc K') t = find_endpoint (k_ipc K) t)
     \<and> (\<forall>e. ep_waiting (ipc_endpoints (k_ipc K') ! e) \<longleftrightarrow> ep_waiting (ipc_endpoints (k_ipc K) ! e)
          \<and> (\<forall>i \<in> awake now xs K. find_endpoint (k_ipc K) (id_at K i) \<noteq> Some e))"

lemma expired_id:
  assumes "kernel_inv E K" "i < MAX_TASKS" "expired now K i"
  shows "id_at K i \<noteq> 0" and "j < MAX_TASKS \<Longrightarrow> expired now K j \<Longrightarrow> i \<noteq> j \<Longrightarrow> id_at K i \<noteq> id_at K j"
proof -
  have t: "table_inv (k_table K)" "slots K ! i \<in> set (slots K)"
    using kernel_invD(1,5) [OF assms(1)] assms(2) by simp_all
  have e: "tk_state (task_at K i) \<noteq> TaskEmpty" using assms(3) by (simp add: expired_def)
  then show "id_at K i \<noteq> 0" using t unfolding table_inv_def by blast
  assume "j < MAX_TASKS" "expired now K j" "i \<noteq> j"
  then show "id_at K i \<noteq> id_at K j" using e t(1) assms(2) unfolding table_inv_def expired_def by (metis TaskState.distinct)
qed

lemma one_slot:
  "queued now [x] K = (if expired now K x \<and> admitted (k_sched K) (id_at K x) then [x] else [])"
  "awake now [x] K = (if expired now K x \<and> (runnable (k_sched K) (id_at K x) \<or> admitted (k_sched K) (id_at K x)) then {x} else {})"
  unfolding awake_def queued_def admitted_def by (cases "QUEUE_CAPACITY - length (ready_ids (k_sched K))"; force)+

lemma expire_slot_result:
  assumes inv: "kernel_inv E K" and x: "x < MAX_TASKS"
  shows "expire_result now [x] K (expire_slot now x K)"
proof (cases "expired now K x")
  case False
  then have "expire_slot now x K = K" by (auto simp: expire_slot_def expired_def Let_def)
  then show ?thesis using False by (simp add: expire_result_def one_slot)
next
  case True
  let ?t = "id_at K x"
  have si: "sched_inv (k_sched K)" using kernel_invD(2) [OF inv] by (simp add: sched_known_def)
  have len: "length (slots K) = MAX_TASKS" by (rule kernel_invD(5) [OF inv])
  note w = wake_task_effect [OF si expired_id(1) [OF inv x True]]
  obtain b s where e: "wake_task (k_sched K) ?t = (b, s)" by fastforce
  have x': "\<not> (tk_state (task_at K x) \<noteq> TaskBlocked \<or> \<not> tk_ipc_waiting (task_at K x) \<or> tk_ipc_deadline_tick (task_at K x) = 0
      \<or> now < tk_ipc_deadline_tick (task_at K x))" using True by (simp add: expired_def not_less)
  note w = w [unfolded e fst_conv snd_conv]
  show ?thesis
  proof (cases b)
    case False
    then have "expire_slot now x K = K\<lparr>k_sched := s\<rparr>"
      unfolding expire_slot_def Let_def using e x' by (simp only: if_False prod.case bool.case)
    then show ?thesis using w False by (simp add: expire_result_def one_slot)
  next
    case ok: True
    have "expire_slot now x K = update_table (\<lambda>p. p\<lparr>pt_ipc_timeouts := sat_add (pt_ipc_timeouts p) 1\<rparr>)
        (update_task x (woken WakeTimeout) (K\<lparr>k_sched := s, k_ipc := snd (set_waiting (k_ipc K) ?t False)\<rparr>))"
      unfolding expire_slot_def Let_def woken_def [abs_def] using e x' ok by (simp only: if_False prod.case bool.case)
    then have K': "slots (expire_slot now x K) = slots (update_task x (woken WakeTimeout) K)" "k_sched (expire_slot now x K) = s"
      "k_ipc (expire_slot now x K) = snd (set_waiting (k_ipc K) ?t False)" by simp_all
    have one: "awake now [x] K = {x}" "queued now [x] K = (if admitted (k_sched K) ?t then [x] else [])"
      using w(1) ok True by (simp_all add: one_slot)
    show ?thesis unfolding expire_result_def K' one set_waiting_False
      using w(2-4) len x by (cases "admitted (k_sched K) ?t") (simp_all add: nth_list_update)
  qed
qed

section \<open>All slots\<close>

lemma take_filter_Cons:
  "take n (filter P (x # xs)) = take n (filter P [x]) @ take (n - length (take n (filter P [x]))) (filter P xs)"
  by (cases n) auto

lemma expire_result_Cons:
  assumes inv: "kernel_inv E K" and x: "x < MAX_TASKS" "x \<notin> set xs" "\<forall>i \<in> set xs. i < MAX_TASKS"
    and one: "expire_result now [x] K K1"
  shows "queued now (x # xs) K = queued now [x] K @ queued now xs K1"
    and "awake now (x # xs) K = awake now [x] K \<union> awake now xs K1"
    and "i \<in> set xs \<Longrightarrow> slots K1 ! i = slots K ! i"
proof -
  have s: "slots K1 ! i = slots K ! i" if "i \<in> set xs" for i
    using one that x unfolding expire_result_def one_slot by (metis empty_iff singletonD)
  then show "i \<in> set xs \<Longrightarrow> slots K1 ! i = slots K ! i" .
  have ex: "expired now K1 i = expired now K i" if "i \<in> set xs" for i unfolding expired_def s [OF that] ..
  have id: "id_at K i \<noteq> id_at K x" if "i \<in> set xs" "expired now K i" "expired now K x" for i
    using expired_id(2) [OF inv _ that(2) x(1) that(3)] that(1) x by auto
  have b: "id_at K1 i \<in> set (blocked_tasks (k_sched K1)) \<longleftrightarrow> id_at K i \<in> set (blocked_tasks (k_sched K))"
    "runnable (k_sched K1) (id_at K1 i) \<longleftrightarrow> runnable (k_sched K) (id_at K i)"
    if i: "i \<in> set xs" "expired now K i" for i
  proof -
    have "expired now K x \<and> queued now [x] K = [x] \<or> queued now [x] K = []" by (simp add: one_slot)
    then have "id_at K i \<notin> id_at K ` set (queued now [x] K)" using id [OF i] by (elim disjE) simp_all
    then show "id_at K1 i \<in> set (blocked_tasks (k_sched K1)) \<longleftrightarrow> id_at K i \<in> set (blocked_tasks (k_sched K))"
      "runnable (k_sched K1) (id_at K1 i) \<longleftrightarrow> runnable (k_sched K) (id_at K i)"
      using one unfolding expire_result_def runnable_def s [OF i(1)] by auto
  qed
  have f: "filter (\<lambda>i. expired now K1 i \<and> id_at K1 i \<in> set (blocked_tasks (k_sched K1))) xs
      = filter (\<lambda>i. expired now K i \<and> id_at K i \<in> set (blocked_tasks (k_sched K))) xs"
    using b ex by (auto intro!: filter_cong)
  have "length (ready_ids (k_sched K1)) = length (ready_ids (k_sched K)) + length (queued now [x] K)"
    using one by (simp only: expire_result_def length_append length_map)
  then have n: "QUEUE_CAPACITY - length (ready_ids (k_sched K)) - length (queued now [x] K)
      = QUEUE_CAPACITY - length (ready_ids (k_sched K1))" by simp
  show q: "queued now (x # xs) K = queued now [x] K @ queued now xs K1"
    unfolding queued_def [of now xs] f n [symmetric]
    using take_filter_Cons [of "QUEUE_CAPACITY - length (ready_ids (k_sched K))" _ x xs] by (simp only: queued_def)
  show "awake now (x # xs) K = awake now [x] K \<union> awake now xs K1"
    unfolding awake_def q using b(2) ex by auto
qed

lemma queued_subset: "set (queued now xs K) \<subseteq> set xs" "awake now xs K \<subseteq> set xs"
  unfolding awake_def queued_def by (auto dest: in_set_takeD)

lemma expire_all:
  assumes "kernel_inv E K" "distinct xs" "\<forall>i \<in> set xs. i < MAX_TASKS"
  shows "expire_result now xs K (fold (expire_slot now) xs K)"
  using assms
proof (induction xs arbitrary: K)
  case Nil
  then show ?case by (simp add: expire_result_def awake_def queued_def)
next
  case (Cons x xs)
  let ?K = "expire_slot now x K" and ?K' = "fold (expire_slot now) (x # xs) K"
  have x: "x < MAX_TASKS" "x \<notin> set xs" "\<forall>i \<in> set xs. i < MAX_TASKS" using Cons.prems by auto
  have one: "expire_result now [x] K ?K" by (rule expire_slot_result [OF Cons.prems(1) x(1)])
  have IH: "expire_result now xs ?K ?K'"
    using Cons.IH [OF expire_slot_inv [OF Cons.prems(1)]] Cons.prems(2) x(3) by simp
  note step = expire_result_Cons [OF Cons.prems(1) x one]
  have id: "id_at ?K i = id_at K i" if "i \<in> set xs" for i using step(3) [OF that] by simp
  have m: "map (id_at ?K) (queued now xs ?K) = map (id_at K) (queued now xs ?K)"
    "id_at ?K ` set (queued now xs ?K) = id_at K ` set (queued now xs ?K)"
    using id queued_subset(1) by (force intro: image_cong)+
  have a: "i \<in> awake now xs ?K \<Longrightarrow> i \<in> set xs" "i \<in> awake now [x] K \<Longrightarrow> i = x" for i
    using queued_subset(2) by (fastforce simp: one_slot split: if_splits)+
  have "slots ?K' ! i = (if i \<in> awake now (x # xs) K then (slots K ! i)\<lparr>sl_task := woken WakeTimeout (task_at K i)\<rparr>
      else slots K ! i)" if "i < MAX_TASKS" for i
    using one IH that a step(3) [of i] x(2) unfolding expire_result_def step(2) by (cases "i \<in> set xs") auto
  moreover have "ep_waiting (ipc_endpoints (k_ipc ?K') ! e) \<longleftrightarrow> ep_waiting (ipc_endpoints (k_ipc K) ! e)
      \<and> (\<forall>i \<in> awake now (x # xs) K. find_endpoint (k_ipc K) (id_at K i) \<noteq> Some e)" for e
    using one IH a id unfolding expire_result_def step(2) by (metis Un_iff)
  ultimately show ?case
    using one IH m unfolding expire_result_def step(1) by auto
qed

definition pair_late :: "Vm \<Rightarrow> KernelHeap \<Rightarrow> Kernel" where
  "pair_late vm h = (pair_blocked vm h)\<lparr>k_ticks := 20\<rparr>"

lemma pair_late_expired: "filter (expired (sat_add (k_ticks (pair_late vm h)) 1) (pair_late vm h)) [0..<MAX_TASKS] = [0]"
  by code_simp

section \<open>Properties\<close>

text \<open>
  C7. Deadlines. A task is late when it waits for a message with a deadline at or before the new
  tick. The kernel's part of a timer interrupt marks as ready, with the timeout as the reason, exactly
  these late tasks: those the scheduler already has as current or ready, and, of those it has as
  blocked, in the order of their slots, as many as the ready queue has room for, which it puts at the
  end of the queue in that order. Every other slot is as it was, a late task whose wake failed included.
  The current task stays, and an endpoint is marked as waiting afterwards exactly if it was before and
  is not that of a task so marked. When all late tasks are blocked in the scheduler and fit in the queue,
  all of them become ready.
\<close>

theorem deadlines_expire:
  assumes inv: "kernel_inv E K"
  defines "late \<equiv> filter (expired (sat_add (k_ticks K) 1) K) [0..<MAX_TASKS]"
  defines "queue \<equiv> take (QUEUE_CAPACITY - sch_len (k_sched K))
      (filter (\<lambda>i. tk_id (task_at K i) \<in> set (blocked_tasks (k_sched K))) late)"
  defines "up \<equiv> {i \<in> set late. current_task (k_sched K) = tk_id (task_at K i)
      \<or> tk_id (task_at K i) \<in> set (ready_ids (k_sched K))} \<union> set queue"
  shows "(\<forall>i < MAX_TASKS. slots (kernel_tick K) ! i = (if i \<in> up
        then (slots K ! i)\<lparr>sl_task := woken WakeTimeout (task_at K i)\<rparr> else slots K ! i))
    \<and> ready_ids (k_sched (kernel_tick K)) = ready_ids (k_sched K) @ map (tk_id \<circ> task_at K) queue
    \<and> set (blocked_tasks (k_sched (kernel_tick K))) = set (blocked_tasks (k_sched K)) - (tk_id \<circ> task_at K) ` set queue
    \<and> current_task (k_sched (kernel_tick K)) = current_task (k_sched K)
    \<and> (\<forall>e. ep_waiting (ipc_endpoints (k_ipc (kernel_tick K)) ! e) \<longleftrightarrow> ep_waiting (ipc_endpoints (k_ipc K) ! e)
        \<and> (\<forall>i \<in> up. find_endpoint (k_ipc K) (tk_id (task_at K i)) \<noteq> Some e))
    \<and> ((\<forall>i \<in> set late. tk_id (task_at K i) \<in> set (blocked_tasks (k_sched K)))
        \<and> sch_len (k_sched K) + length late \<le> QUEUE_CAPACITY \<longrightarrow> queue = late \<and> up = set late)"
proof -
  let ?now = "sat_add (k_ticks K) 1"
  let ?K = "K\<lparr>k_ticks := k_ticks K + 1, k_sched := timer_interrupt (k_sched K)\<rparr>"
  have k: "kernel_inv E ?K" using inv sched_steps(6) [OF inv] by (simp add: kernel_inv_def)
  have s: "ready (timer_interrupt (k_sched K)) = ready (k_sched K)"
    "blocked_tasks (timer_interrupt (k_sched K)) = blocked_tasks (k_sched K)"
    "current_task (timer_interrupt (k_sched K)) = current_task (k_sched K)"
    by (simp_all add: timer_interrupt_def on_timer_tick_state)
  have x: "expired ?now ?K = expired ?now K" by (simp add: fun_eq_iff expired_def)
  have q: "queued ?now [0..<MAX_TASKS] ?K = queue"
    by (simp add: queued_def queue_def late_def x s conj_commute)
  have u: "awake ?now [0..<MAX_TASKS] ?K = up"
    unfolding awake_def q up_def by (auto simp: late_def x s runnable_def)
  have tick: "kernel_tick K = fold (expire_slot ?now) [0..<MAX_TASKS] ?K" by (simp add: kernel_tick_def expire_ipc_deadlines_def)
  have all: "queue = late \<and> up = set late" if "\<forall>i \<in> set late. tk_id (task_at K i) \<in> set (blocked_tasks (k_sched K))"
    "sch_len (k_sched K) + length late \<le> QUEUE_CAPACITY"
  proof -
    have "queue = late" using that by (simp add: queue_def)
    then show ?thesis by (auto simp: up_def)
  qed
  have "\<forall>i \<in> set [0..<MAX_TASKS]. i < MAX_TASKS" by simp
  from expire_all [OF k distinct_upt this, of ?now, folded tick] all show ?thesis
    unfolding expire_result_def q u by (simp add: s)
qed

theorem deadlines_expire_witness:
  "tk_state (task_at (kernel_tick (pair_late small_vm demo_heap)) 0) = TaskReady
   \<and> tk_ipc_wake_reason (task_at (kernel_tick (pair_late small_vm demo_heap)) 0) = WakeTimeout
   \<and> ready_ids (k_sched (kernel_tick (pair_late small_vm demo_heap))) = ready_ids (k_sched (pair_late small_vm demo_heap)) @ [1]"
proof -
  let ?K = "pair_late small_vm demo_heap"
  have inv: "kernel_inv (all_frames (phys_init 0x100000 0x104000 small_boot)) ?K"
    using pair_blocked_inv by (simp add: pair_late_def kernel_inv_def)
  note f = pair_blocked_facts [of small_vm demo_heap]
  have id: "tk_id (task_at ?K 0) = 1" using find_task_Some(3) [OF f(1)] by (simp add: pair_late_def)
  have s: "sch_len (k_sched ?K) = 0" "blocked_tasks (k_sched ?K) = [1]" using f(7,8) by (simp_all add: pair_late_def)
  from deadlines_expire [OF inv, unfolded pair_late_expired, THEN conjunct1, rule_format, of 0]
    deadlines_expire [OF inv, unfolded pair_late_expired, THEN conjunct2, THEN conjunct1]
  show ?thesis by (simp add: id s woken_def QUEUE_CAPACITY_def MAX_TASKS_def)
qed

end
