(* ===== verification/Kernel_Cleanup.thy ===== *)
theory Kernel_Cleanup
  imports Kernel_Wake
begin

text \<open>
  The end of a task: what \<open>cleanup_task\<close> gives back.
\<close>

lemma cleanup_parts:
  assumes i: "find_task (k_table K) t = Some i" and act: "tk_resources_active (task_at K i)"
    and h: "tk_heap_allocation (task_at K i) \<noteq> 0" "heap_free (k_heap K) (tk_heap_allocation (task_at K i)) = (Inr (), h')"
    and u: "unregister (k_ipc K) t = (Inr n, c)" and d: "destroy (k_vm K) (sl_address_space (slots K ! i)) = (Inr report, s, vm)"
    and r: "complete report"
  obtains K' where "cleanup_task t K = (True, K')" "k_heap K' = h'" "k_ipc K' = c" "k_vm K' = vm"
    "sl_address_space (slots K' ! i) = s" "tk_cleanup_complete (task_at K' i)" "\<not> tk_resources_active (task_at K' i)"
    "tk_heap_allocation (task_at K' i) = 0" "tk_cleanup_user_frames (task_at K' i) = user_frames_freed report"
    "tk_cleanup_table_frames (task_at K' i) = table_frames_freed report" "\<And>j. j \<noteq> i \<Longrightarrow> slots K' ! j = slots K ! j"
proof -
  have l: "i < length (slots K)" by (rule find_task_Some(1) [OF i])
  define K' where "K' = snd (cleanup_task t K)"
  have "cleanup_task t K = (True, K')" using assms by (simp add: cleanup_task_def Let_def K'_def)
  moreover have "k_heap K' = h'" "k_ipc K' = c" "k_vm K' = vm"
    "sl_address_space (slots K' ! i) = s" "tk_cleanup_complete (task_at K' i)" "\<not> tk_resources_active (task_at K' i)"
    "tk_heap_allocation (task_at K' i) = 0" "tk_cleanup_user_frames (task_at K' i) = user_frames_freed report"
    "tk_cleanup_table_frames (task_at K' i) = table_frames_freed report" "\<And>j. j \<noteq> i \<Longrightarrow> slots K' ! j = slots K ! j"
    using assms l by (simp_all add: cleanup_task_def Let_def K'_def)
  ultimately show thesis using that by blast
qed

section \<open>Properties\<close>

text \<open>
  C9. The resources of a task come back. For a task whose address space is not the active one,
  while the allocator has room to take the frames back, cleaning up succeeds: exactly the frames of its
  address space are released, exactly its block of the heap is freed, its endpoint is gone, the slot
  reports the frames, and no other slot changes.
\<close>

theorem cleanup_releases:
  assumes inv: "kernel_inv E K" and i: "find_task (k_table K) t = Some i" and act: "tk_resources_active (task_at K i)"
    and s: "sl_address_space (slots K ! i) = s" "as_active s" "vm_cr3 (k_vm K) \<noteq> root_frame s"
    and room: "length (pages s) + length (tables s) + fa_recycled_count (vm_frames (k_vm K)) \<le> MAX_RECYCLED_FRAMES"
    and h: "tk_heap_allocation (task_at K i) \<noteq> 0" "tk_heap_allocation (task_at K i) \<in> fst ` Heap_Interface.owned (k_heap K)"
    and e: "find_endpoint (k_ipc K) t \<noteq> None"
  shows "\<exists>K'. cleanup_task t K = (True, K') \<and> kernel_inv E K'
    \<and> Space_Ops.owned s \<subseteq> live_frames (vm_frames (k_vm K))
    \<and> live_frames (vm_frames (k_vm K')) = live_frames (vm_frames (k_vm K)) - Space_Ops.owned s
    \<and> Heap_Interface.owned (k_heap K') = {an \<in> Heap_Interface.owned (k_heap K). fst an \<noteq> tk_heap_allocation (task_at K i)}
    \<and> find_endpoint (k_ipc K') t = None \<and> sl_address_space (slots K' ! i) = AddressSpace_empty
    \<and> tk_cleanup_complete (task_at K' i) \<and> \<not> tk_resources_active (task_at K' i) \<and> tk_heap_allocation (task_at K' i) = 0
    \<and> tk_cleanup_user_frames (task_at K' i) = of_nat (length (pages s))
    \<and> tk_cleanup_table_frames (task_at K' i) = of_nat (length (tables s))
    \<and> (\<forall>j. j \<noteq> i \<longrightarrow> slots K' ! j = slots K ! j)"
proof -
  have S: "space_inv (k_vm K) s" "frames_ok (k_vm K)"
    using slot_space(1) [OF inv i] s(1,2) kernel_invD(4) [OF inv] by (auto simp: AddressSpace_empty_def system_inv_def)
  have rm: "length (frames_of s) \<le> vm_room (k_vm K)" using room by (simp add: frames_of_def vm_room_def)
  have own: "Space_Ops.owned s \<subseteq> vm_live (k_vm K)" using S(1) by (rule space_invE)
  obtain report vm where d: "destroy (k_vm K) s = (Inr report, AddressSpace_empty, vm)"
    and live: "vm_live vm = vm_live (k_vm K) - Space_Ops.owned s"
    and rep: "report = \<lparr>user_frames_freed = of_nat (length (pages s)), table_frames_freed = of_nat (length (tables s)), complete = True\<rparr>"
    by (rule destroy_spec [OF S(2,1) s(3)]) (use rm in blast)
  obtain r h' where f: "heap_free (k_heap K) (tk_heap_allocation (task_at K i)) = (r, h')" by fastforce
  note H = kernel_invD(6) [OF inv]
  have "held (k_heap K) (tk_heap_allocation (task_at K i))" using h(2) held_owned H by (simp add: heap_inv_def)
  with heap_free_spec [OF H f] have fr: "r = Inr ()"
    "Heap_Interface.owned h' = {an \<in> Heap_Interface.owned (k_heap K). fst an \<noteq> tk_heap_allocation (task_at K i)}" by simp_all
  obtain x where x: "find_endpoint (k_ipc K) t = Some x" using e by blast
  note U = unregister_forgets [OF kernel_invD(3) [OF inv] found_known(1) [OF inv i] x]
  obtain n c where u: "unregister (k_ipc K) t = (Inr n, c)" "find_endpoint c t = None" using U by (metis prod.collapse)
  obtain K' where K': "cleanup_task t K = (True, K')" "k_heap K' = h'" "k_ipc K' = c" "k_vm K' = vm"
    "sl_address_space (slots K' ! i) = AddressSpace_empty" "tk_cleanup_complete (task_at K' i)" "\<not> tk_resources_active (task_at K' i)"
    "tk_heap_allocation (task_at K' i) = 0" "tk_cleanup_user_frames (task_at K' i) = user_frames_freed report"
    "tk_cleanup_table_frames (task_at K' i) = table_frames_freed report" "\<And>j. j \<noteq> i \<Longrightarrow> slots K' ! j = slots K ! j"
    by (rule cleanup_parts [OF i act h(1) f [unfolded fr(1)] u(1) d [folded s(1)]]) (simp add: rep, blast)
  have "kernel_inv E K'" using cleanup_task_inv [OF inv, of t] K'(1) by simp
  then show ?thesis using K' live own fr(2) u(2) rep by (auto simp: vm_live_def)
qed

lemma demo_alloc:
  obtains a h where "heap_alloc demo_heap 128 64 = (Some a, h)" "heap_inv h" "(a, 128) \<in> Heap_Interface.owned h" "a \<noteq> 0"
proof -
  note I = reset_inv [OF demo_start]
  obtain r h where run: "heap_alloc demo_heap 128 64 = (r, h)" by fastforce
  have rq: "request_ok 128 64" by code_simp
  obtain b where b: "b \<in> set (kh_blocks demo_heap)" "vacant b" "bl_offset b = 64" "bl_size b = 65472"
    using unfragmented I by blast
  have mx: "unat (max 64 ALLOC_CANARY_BYTES) = 64" "unat (128 :: u64) = 128" by code_simp+
  have "has_room (kh_blocks demo_heap) 128 64"
    unfolding has_room_def by (rule bexI [OF _ b(1)], rule conjI [OF b(2)], rule exI [of _ 128]) (simp add: b)
  then obtain a where r: "r = Some a" using heap_alloc_spec [OF _ run] I rq unfolding mx by (cases r) auto
  have A: "heap_inv h" "Heap_Interface.owned h = insert (a, 128) (Heap_Interface.owned demo_heap)" "block_bytes (a, 128) \<subseteq> heap_window"
    using heap_alloc_spec [OF _ run] I unfolding r mx by auto
  have "a \<in> block_bytes (a, 128)" unfolding block_bytes_def by (rule CollectI, rule exI [of _ 0]) simp
  then obtain k where k: "a = HEAP_BASE + of_nat k" "k < 65536" using A(3) by (auto simp: heap_window_def)
  have "unat (HEAP_BASE + of_nat k) = unat HEAP_BASE + k"
    using k(2) heap_base_room by (simp add: unat_word_ariths unat_of_nat)
  then have "a \<noteq> 0" using k heap_base_pos by (metis add_is_0 unat_0 unat_eq_zero)
  then show thesis using that run r A(1,2) by blast
qed

theorem cleanup_releases_witness:
  "\<exists>E K K' f. kernel_inv E K \<and> f \<in> live_frames (vm_frames (k_vm K)) \<and> cleanup_task 1 K = (True, K')
     \<and> f \<notin> live_frames (vm_frames (k_vm K')) \<and> find_endpoint (k_ipc K') 1 = None"
proof -
  obtain vm s f where m: "small_reachable (vm, [s])" "as_active s" "pages s = [(USER_ELF_BASE, f, READ_WRITE)]"
    "space_inv vm s" "root_frame s \<noteq> 0" "kernel_inv (all_frames (phys_init 0x100000 0x104000 small_boot)) (paged_kernel vm s)"
    by (rule paged_system)
  obtain a h where h: "heap_inv h" "(a, 128) \<in> Heap_Interface.owned h" "a \<noteq> 0" by (rule demo_alloc)
  let ?E = "all_frames (phys_init 0x100000 0x104000 small_boot)"
  define K1 where "K1 = (paged_kernel vm s)\<lparr>k_ipc := run_granted, k_heap := h, k_vm := vm\<lparr>vm_cr3 := 0\<rparr>\<rparr>"
  define K where "K = update_task 0 (\<lambda>task. task\<lparr>tk_resources_active := True, tk_heap_allocation := a\<rparr>) K1"
  have vm: "k_vm (paged_kernel vm s) = vm" by (simp add: paged_kernel_def Let_def kernel_start_def)
  have "kernel_inv ?E ((paged_kernel vm s)\<lparr>k_vm := vm\<lparr>vm_cr3 := 0\<rparr>\<rparr>)"
    using system_step_inv [OF m(6)] step_switch [of vm _ 0] unfolding vm by blast
  then have "kernel_inv ?E K1" unfolding K1_def using reachable_inv [OF run_granted_reachable] h(1) by (simp add: kernel_inv_def)
  then have inv: "kernel_inv ?E K" unfolding K_def by (rule update_task_inv) (simp add: keeps_identity_def)
  have sl: "slots K1 = slots (paged_kernel vm s)" "0 < length (slots K1)" by (simp_all add: K1_def paged_slots)
  have find: "find_task (k_table K) 1 = Some 0"
    using sl unfolding K_def find_task_def by (simp add: paged_slots)
  have t: "tk_resources_active (task_at K 0)" "tk_heap_allocation (task_at K 0) = a" "sl_address_space (slots K ! 0) = s"
    "k_vm K = vm\<lparr>vm_cr3 := 0\<rparr>" "k_heap K = h" "k_ipc K = run_granted"
    using sl by (simp_all add: K_def paged_slots) (simp_all add: K1_def)
  have r: "small_reachable (vm\<lparr>vm_cr3 := 0\<rparr>, [s])" by (rule small_step [OF m(1) step_switch])
  have "arrays_ok s" using m(4) by (rule space_invE)
  then have "length (tables s) \<le> 16" by (simp add: tables_def arrays_ok_def MAX_PROCESS_TABLE_FRAMES_def)
  moreover have "fa_recycled_count (vm_frames (k_vm K)) \<le> 12"
    using recycled_bound [OF small_inv(1) [OF r]] small_every [OF r] t(4) by simp
  ultimately have room: "length (pages s) + length (tables s) + fa_recycled_count (vm_frames (k_vm K)) \<le> MAX_RECYCLED_FRAMES"
    using m(3) by (simp add: MAX_RECYCLED_FRAMES_def)
  have f: "f \<in> Space_Ops.owned s" using m(3) by (simp add: Space_Ops.owned_def)
  obtain K' where K': "cleanup_task 1 K = (True, K')" "Space_Ops.owned s \<subseteq> live_frames (vm_frames (k_vm K))"
    "live_frames (vm_frames (k_vm K')) = live_frames (vm_frames (k_vm K)) - Space_Ops.owned s" "find_endpoint (k_ipc K') 1 = None"
    using cleanup_releases [OF inv find t(1,3) m(2) _ room] t m(5) h(2,3) run_granted_facts by force
  then show ?thesis using inv f by blast
qed

end
