(* ===== verification/Shell.thy ===== *)
theory Shell
  imports Interrupts
begin

text \<open>
  The shell, \<^verbatim>\<open>src/src/shell.rs\<close>: the input line and its history, the loop that handles key events,
  the table of commands with their lookup, the numbers that arguments give, and the commands that
  print what they are given or what the shell itself keeps. The shell works on the whole
  machine: it writes to its screen and counts in its statistics. Text sent to the serial port has no
  effect on the machine.
\<close>

definition HISTORY_SIZE :: nat where "HISTORY_SIZE = 16"
definition PIT_HZ :: u64 where "PIT_HZ = 18"
definition STRESS_DEFAULT_CYCLES :: nat where "STRESS_DEFAULT_CYCLES = 4"
definition STRESS_MAX_CYCLES :: nat where "STRESS_MAX_CYCLES = 32"

section \<open>Text\<close>

definition is_blank :: "u8 \<Rightarrow> bool" where
  "is_blank b \<longleftrightarrow> b = 0x20 \<or> b = 0x09"

fun trim_start :: "u8 list \<Rightarrow> u8 list" where
  "trim_start [] = []"
| "trim_start (first # rest) = (if is_blank first then trim_start rest else first # rest)"

text \<open>The second loop takes blanks off the end.\<close>

function trim_end :: "u8 list \<Rightarrow> u8 list" where
  "trim_end input = (if input = [] then [] else if is_blank (last input) then trim_end (butlast input) else input)"
  by pat_completeness auto
termination by (relation "measure length") auto

declare trim_end.simps [simp del]

definition trim_ascii :: "u8 list \<Rightarrow> u8 list" where
  "trim_ascii input = trim_end (trim_start input)"

fun split_loop :: "u8 list \<Rightarrow> nat list \<Rightarrow> u8 list \<times> u8 list" where
  "split_loop input [] = (input, [])"
| "split_loop input (index # rest) =
     (if input ! index = 0x20 \<or> input ! index = 0x09
      then (take index input, trim_ascii (drop (index + 1) input))
      else split_loop input rest)"

definition split_command :: "u8 list \<Rightarrow> u8 list \<times> u8 list" where
  "split_command input = split_loop input [0..<length input]"

definition to_ascii_lower :: "u8 \<Rightarrow> u8" where
  "to_ascii_lower byte = (if 0x41 \<le> byte \<and> byte \<le> 0x5a then byte + 32 else byte)"

definition eq_ignore_ascii_case :: "u8 list \<Rightarrow> u8 list \<Rightarrow> bool" where
  "eq_ignore_ascii_case left right \<longleftrightarrow> length left = length right
     \<and> list_all (\<lambda>index. to_ascii_lower (left ! index) = to_ascii_lower (right ! index)) [0..<length left]"

definition bytes_eq :: "u8 list \<Rightarrow> u8 list \<Rightarrow> bool" where
  "bytes_eq left right \<longleftrightarrow> length left = length right
     \<and> list_all (\<lambda>index. left ! index = right ! index) [0..<length left]"

definition ascii_digit_value :: "u8 \<Rightarrow> u64 option" where
  "ascii_digit_value byte =
     (if 0x30 \<le> byte \<and> byte \<le> 0x39 then Some (ucast (byte - 0x30))
      else if 0x61 \<le> byte \<and> byte \<le> 0x66 then Some (ucast (byte - 0x61 + 10))
      else if 0x41 \<le> byte \<and> byte \<le> 0x46 then Some (ucast (byte - 0x41 + 10))
      else None)"

text \<open>The loop over the digits, with the value so far and whether a digit has been read.\<close>

fun parse_digits :: "u64 \<Rightarrow> u8 list \<Rightarrow> u64 \<Rightarrow> bool \<Rightarrow> u64 option" where
  "parse_digits base [] v parsed_digit = (if parsed_digit then Some v else None)"
| "parse_digits base (byte # rest) v parsed_digit =
     (if byte = 0x5f then parse_digits base rest v parsed_digit
      else case ascii_digit_value byte of
             None \<Rightarrow> None
           | Some digit_number \<Rightarrow>
               if base \<le> digit_number then None
               else case checked_mul v base of
                      None \<Rightarrow> None
                    | Some scaled \<Rightarrow>
                        (case checked_add scaled digit_number of
                           None \<Rightarrow> None
                         | Some grown \<Rightarrow> parse_digits base rest grown True))"

definition parse_u64 :: "u8 list \<Rightarrow> u64 option" where
  "parse_u64 input =
     (let input = trim_ascii input
      in if input = [] then None
         else let (digits, base) =
                (if 2 < length input \<and> input ! 0 = 0x30 \<and> to_ascii_lower (input ! 1) = 0x78
                 then (drop 2 input, 16) else (input, 10))
              in if digits = [] then None else parse_digits base digits 0 False)"

text \<open>The number of log entries to print; an argument that is no number is counted as an error.\<close>

definition log_limit :: "u8 list \<Rightarrow> nat \<Rightarrow> Machine \<Rightarrow> nat \<times> Machine" where
  "log_limit arguments count M =
     (let arguments = trim_ascii arguments
      in if arguments = [] then (min count 16, M)
         else if eq_ignore_ascii_case arguments (ascii ''all'') then (count, M)
         else case parse_u64 arguments of
                Some v \<Rightarrow> (min (unat v) count, M)
              | None \<Rightarrow> (min 16 count, update_stats inc_shell_error M))"

section \<open>The input line\<close>

record InputLine =
  ln_input :: "u8 list"
  ln_len :: nat
  ln_cursor :: nat

definition InputLine_new :: InputLine where
  "InputLine_new = \<lparr>ln_input = replicate INPUT_BUFFER_SIZE 0, ln_len = 0, ln_cursor = 0\<rparr>"

definition line_bytes :: "InputLine \<Rightarrow> u8 list" where
  "line_bytes l = take (ln_len l) (ln_input l)"

definition insert_input_byte :: "u8 \<Rightarrow> InputLine \<Rightarrow> bool \<times> InputLine" where
  "insert_input_byte byte l =
     (if INPUT_BUFFER_SIZE \<le> ln_len l then (False, l)
      else
        let cursor = (if ln_len l < ln_cursor l then ln_len l else ln_cursor l);
            input = fold (\<lambda>index input. input[index := input ! (index - 1)]) (rev [cursor + 1..<ln_len l + 1]) (ln_input l)
        in (True, \<lparr>ln_input = input[cursor := byte], ln_len = ln_len l + 1, ln_cursor = cursor + 1\<rparr>))"

definition delete_previous_input_byte :: "InputLine \<Rightarrow> bool \<times> InputLine" where
  "delete_previous_input_byte l =
     (if ln_cursor l = 0 \<or> ln_len l = 0 then (False, l)
      else
        let cursor = (if ln_len l < ln_cursor l then ln_len l else ln_cursor l);
            input = fold (\<lambda>index input. input[index - 1 := input ! index]) [cursor..<ln_len l] (ln_input l)
        in (True, \<lparr>ln_input = input, ln_len = ln_len l - 1, ln_cursor = cursor - 1\<rparr>))"

section \<open>The history\<close>

record CommandHistory =
  ch_entries :: "u8 list list"
  ch_lengths :: "nat list"
  ch_len :: nat

definition CommandHistory_new :: CommandHistory where
  "CommandHistory_new = \<lparr>ch_entries = replicate HISTORY_SIZE (replicate INPUT_BUFFER_SIZE 0),
     ch_lengths = replicate HISTORY_SIZE 0, ch_len = 0\<rparr>"

definition is_same_as_latest :: "CommandHistory \<Rightarrow> u8 list \<Rightarrow> bool" where
  "is_same_as_latest h input =
     (if ch_len h = 0 then False
      else let index = ch_len h - 1
           in ch_lengths h ! index = length input \<and> take (length input) (ch_entries h ! index) = input)"

definition history_push :: "u8 list \<Rightarrow> CommandHistory \<Rightarrow> CommandHistory" where
  "history_push input h =
     (let input = trim_ascii input
      in if input = [] then h
         else if is_same_as_latest h input then h
         else
           let h = (if ch_len h = HISTORY_SIZE
                    then let h = fold (\<lambda>index h. h\<lparr>ch_entries := (ch_entries h)[index - 1 := ch_entries h ! index],
                               ch_lengths := (ch_lengths h)[index - 1 := ch_lengths h ! index]\<rparr>) [1..<HISTORY_SIZE] h
                         in h\<lparr>ch_len := ch_len h - 1\<rparr>
                    else h);
               index = ch_len h
           in h\<lparr>ch_entries := (ch_entries h)[index := input @ drop (length input) (ch_entries h ! index)],
                ch_lengths := (ch_lengths h)[index := length input], ch_len := ch_len h + 1\<rparr>)"

definition latest_index :: "CommandHistory \<Rightarrow> nat option" where
  "latest_index h = (if ch_len h = 0 then None else Some (ch_len h - 1))"

definition previous_index :: "CommandHistory \<Rightarrow> nat option \<Rightarrow> nat option" where
  "previous_index h selected =
     (case selected of Some index \<Rightarrow> if 0 < index then Some (index - 1) else Some index | None \<Rightarrow> latest_index h)"

definition next_index :: "CommandHistory \<Rightarrow> nat option \<Rightarrow> nat option" where
  "next_index h selected =
     (case selected of Some index \<Rightarrow> if index + 1 < ch_len h then Some (index + 1) else None | None \<Rightarrow> None)"

definition history_load :: "CommandHistory \<Rightarrow> nat \<Rightarrow> InputLine \<Rightarrow> bool \<times> InputLine" where
  "history_load h index l =
     (if ch_len h \<le> index then (False, l)
      else let len = ch_lengths h ! index
           in (True, \<lparr>ln_input = take len (ch_entries h ! index) @ drop len (ln_input l), ln_len = len, ln_cursor = len\<rparr>))"

section \<open>Printing\<close>

definition write_byte :: "u8 \<Rightarrow> Machine \<Rightarrow> Machine" where
  "write_byte byte = update_screen (console_write_byte byte)"

definition print :: "u8 list \<Rightarrow> Machine \<Rightarrow> Machine" where
  "print s = update_screen (write_string s)"

definition newline :: "Machine \<Rightarrow> Machine" where
  "newline = write_byte 0x0a"

definition println :: "u8 list \<Rightarrow> Machine \<Rightarrow> Machine" where
  "println s M = newline (print s M)"

definition print_spaces :: "nat \<Rightarrow> Machine \<Rightarrow> Machine" where
  "print_spaces count = fold write_byte (replicate count 0x20)"

definition print_ascii_line :: "u8 list \<Rightarrow> Machine \<Rightarrow> Machine" where
  "print_ascii_line bytes M = newline (fold write_byte bytes M)"

definition decimal_text :: "u64 \<Rightarrow> u8 list" where
  "decimal_text v = (if v = 0 then [0x30] else decimal_digits v [])"

definition print_u64 :: "u64 \<Rightarrow> Machine \<Rightarrow> Machine" where
  "print_u64 v = fold write_byte (decimal_text v)"

fun hex_text :: "u64 \<Rightarrow> bool \<Rightarrow> nat list \<Rightarrow> u8 list" where
  "hex_text v started [] = []"
| "hex_text v started (shift # shifts) =
     (let nibble = ucast (drop_bit shift v AND 0x0f)
      in if nibble \<noteq> 0 \<or> started \<or> shift = 0 then hex_digit nibble # hex_text v True shifts
         else hex_text v started shifts)"

definition print_hex_u64 :: "u64 \<Rightarrow> Machine \<Rightarrow> Machine" where
  "print_hex_u64 v M =
     fold write_byte (hex_text v False [60, 56, 52, 48, 44, 40, 36, 32, 28, 24, 20, 16, 12, 8, 4, 0])
       (print (ascii ''0x'') M)"

definition print_counter :: "string \<Rightarrow> u64 \<Rightarrow> Machine \<Rightarrow> Machine" where
  "print_counter label v M =
     (let M = print (ascii label) (print (ascii ''  '') M);
          M = print (ascii '': '') (print_spaces (17 - length label) M)
      in newline (print_u64 v M))"

definition print_two_digits :: "u64 \<Rightarrow> Machine \<Rightarrow> Machine" where
  "print_two_digits v M =
     (let v = v mod 100; M = (if v < 10 then print (ascii ''0'') M else M) in print_u64 v M)"

definition print_duration :: "u64 \<Rightarrow> Machine \<Rightarrow> Machine" where
  "print_duration seconds M =
     (let M = print (ascii ''d '') (print_u64 (seconds div 86400) M);
          M = print (ascii '':'') (print_two_digits (seconds div 3600 mod 24) M);
          M = print (ascii '':'') (print_two_digits (seconds div 60 mod 60) M)
      in print_two_digits (seconds mod 60) M)"

definition print_on_off :: "bool \<Rightarrow> Machine \<Rightarrow> Machine" where
  "print_on_off enabled = print (ascii (if enabled then ''on'' else ''off''))"

definition print_bytes :: "u64 \<Rightarrow> Machine \<Rightarrow> Machine" where
  "print_bytes bytes M =
     (if 1024 * 1024 \<le> bytes then print (ascii '' MiB'') (print_u64 (bytes div 1024 div 1024) M)
      else if 1024 \<le> bytes then print (ascii '' KiB'') (print_u64 (bytes div 1024) M)
      else print (ascii '' B'') (print_u64 bytes M))"

text \<open>The counts of passed and failed checks are threaded through.\<close>

definition selftest_check :: "string \<Rightarrow> bool \<Rightarrow> (u64 \<times> u64) \<times> Machine \<Rightarrow> (u64 \<times> u64) \<times> Machine" where
  "selftest_check label ok = (\<lambda>((passed, failed), M).
     (let M = print (ascii ''  '') M;
          M = print (ascii (if ok then ''[PASS] '' else ''[FAIL] '')) M
      in (if ok then (sat_add passed 1, failed) else (passed, sat_add failed 1), println (ascii label) M)))"

section \<open>The table of commands\<close>

text \<open>A command has a name, a description and the function that handles it.\<close>

datatype (plugins only: code size) CommandHandler = CmdHelp | CmdClear | CmdVersion | CmdAbout | CmdEcho | CmdUptime
  | CmdBuildinfo | CmdHealth | CmdDiag | CmdLastpanic | CmdFaults | CmdSysinfo | CmdMem
  | CmdMemmap | CmdFrames | CmdFrame | CmdTicks | CmdKeyboard | CmdConsoletest | CmdPerf | CmdIrq
  | CmdBoot | CmdUser | CmdElf | CmdInitramfs | CmdElftest | CmdProcess | CmdLifecycle
  | CmdLifecycletest | CmdProcessTree | CmdWaittest | CmdTasks | CmdScheduler | CmdPreempt
  | CmdUsertest | CmdFaulttest | CmdSyscall | CmdIpc | CmdIpctest | CmdIpchandoff
  | CmdCapabilities | CmdCaptest | CmdIpcwait | CmdCapabilityTransfer | CmdCapabilityRevocation
  | CmdGdt | CmdIdt | CmdPaging | CmdHeap | CmdHeaptest | CmdHeapcheck | CmdVirt | CmdVmtest
  | CmdLog | CmdSelftest | CmdStress | CmdBench

record Command =
  cmd_name :: string
  cmd_description :: string
  cmd_handler :: CommandHandler

definition COMMANDS :: "Command list" where
  "COMMANDS = map (\<lambda>(name, description, handler). \<lparr>cmd_name = name, cmd_description = description, cmd_handler = handler\<rparr>) [
     (''help'', ''tampilkan daftar command'', CmdHelp),
     (''clear'', ''bersihkan layar terminal'', CmdClear),
     (''version'', ''tampilkan versi Tobacco'', CmdVersion),
     (''about'', ''tampilkan visi singkat Tobacco'', CmdAbout),
     (''echo'', ''cetak ulang teks'', CmdEcho),
     (''uptime'', ''tampilkan waktu hidup kernel'', CmdUptime),
     (''buildinfo'', ''tampilkan metadata build kernel'', CmdBuildinfo),
     (''health'', ''ringkasan kesehatan kernel'', CmdHealth),
     (''status'', ''alias cepat untuk health'', CmdHealth),
     (''diag'', ''diagnostik observability lengkap'', CmdDiag),
     (''lastpanic'', ''tampilkan panic terakhir di boot ini'', CmdLastpanic),
     (''faults'', ''status fault dan exception kernel'', CmdFaults),
     (''sysinfo'', ''ringkasan subsistem kernel'', CmdSysinfo),
     (''mem'', ''ringkasan memori dari Multiboot2'', CmdMem),
     (''memmap'', ''daftar region memory map'', CmdMemmap),
     (''mmap'', ''alias untuk memmap'', CmdMemmap),
     (''frames'', ''status physical frame allocator'', CmdFrames),
     (''frame'', ''alokasi satu frame uji'', CmdFrame),
     (''ticks'', ''tampilkan tick timer mentah'', CmdTicks),
     (''keyboard'', ''status input keyboard PS/2'', CmdKeyboard),
     (''consoletest'', ''uji editor, history, dan command lookup'', CmdConsoletest),
     (''perf'', ''tampilkan counter performa kernel'', CmdPerf),
     (''irq'', ''tampilkan counter interrupt'', CmdIrq),
     (''boot'', ''tampilkan status boot Phase 1'', CmdBoot),
     (''user'', ''status Ring 3 dan user mode'', CmdUser),
     (''elf'', ''status loader ELF64 user'', CmdElf),
     (''initramfs'', ''daftar arsip boot read-only'', CmdInitramfs),
     (''elftest'', ''jalankan ELF /init di Ring 3'', CmdElftest),
     (''spawn'', ''spawn dan jalankan /bin/init'', CmdElftest),
     (''process'', ''status task dan process model'', CmdProcess),
     (''lifecycle'', ''status resource lifecycle process'', CmdLifecycle),
     (''lifecycletest'', ''uji isolasi dan cleanup dua process'', CmdLifecycletest),
     (''proctree'', ''tampilkan relasi parent dan child'', CmdProcessTree),
     (''waittest'', ''uji wait, wakeup, dan reaping child'', CmdWaittest),
     (''tasks'', ''daftar task kernel'', CmdTasks),
     (''sched'', ''status scheduler preemptive'', CmdScheduler),
     (''scheduler'', ''alias untuk sched'', CmdScheduler),
     (''preempt'', ''uji round-robin preemptive Ring 3'', CmdPreempt),
     (''usertest'', ''jalankan user probe sebagai task'', CmdUsertest),
     (''tasktest'', ''alias untuk usertest'', CmdUsertest),
     (''faulttest'', ''uji isolasi page fault user'', CmdFaulttest),
     (''syscall'', ''tampilkan ABI syscall minimal'', CmdSyscall),
     (''syscalls'', ''alias untuk syscall'', CmdSyscall),
     (''ipc'', ''status mailbox IPC kernel'', CmdIpc),
     (''ipctest'', ''uji message queue dan wakeup'', CmdIpctest),
     (''ipchandoff'', ''uji blocking IPC antarprocess Ring 3'', CmdIpchandoff),
     (''caps'', ''status capability endpoint IPC'', CmdCapabilities),
     (''captest'', ''uji izin revoke dan stale capability'', CmdCaptest),
     (''ipcwait'', ''uji timeout dan cancellation IPC'', CmdIpcwait),
     (''capxfer'', ''uji transfer dan attenuasi capability'', CmdCapabilityTransfer),
     (''caprevoke'', ''uji revocation tree capability'', CmdCapabilityRevocation),
     (''gdt'', ''status GDT, TSS, dan IST'', CmdGdt),
     (''idt'', ''status IDT dan interrupt gates'', CmdIdt),
     (''paging'', ''status page table boot'', CmdPaging),
     (''heap'', ''status kernel heap'', CmdHeap),
     (''heaptest'', ''uji allocator heap'', CmdHeaptest),
     (''heapcheck'', ''cek integritas heap'', CmdHeapcheck),
     (''virt'', ''translate virtual address'', CmdVirt),
     (''vmtest'', ''uji map/unmap virtual page'', CmdVmtest),
     (''log'', ''tampilkan kernel ring log'', CmdLog),
     (''dmesg'', ''alias untuk kernel ring log'', CmdLog),
     (''selftest'', ''uji mandiri subsistem Phase 1'', CmdSelftest),
     (''stress'', ''uji stabilitas ringan kernel'', CmdStress),
     (''bench'', ''benchmark ringan kernel'', CmdBench)]"

definition command_count :: nat where
  "command_count = length COMMANDS"

definition command_exists :: "u8 list \<Rightarrow> bool" where
  "command_exists name = list_ex (\<lambda>command. eq_ignore_ascii_case name (ascii (cmd_name command))) COMMANDS"

section \<open>The checks of the console model\<close>

definition check_long_input_capacity :: bool where
  "check_long_input_capacity =
     (let (inserted, l) = fold (\<lambda>index (inserted, l).
            case insert_input_byte (0x61 + of_nat (index mod 26)) l of (ok, l) \<Rightarrow> (if ok then inserted + 1 else inserted, l))
            [0..<INPUT_BUFFER_SIZE + 16] (0 :: nat, InputLine_new)
      in inserted = INPUT_BUFFER_SIZE \<and> ln_len l = INPUT_BUFFER_SIZE \<and> ln_cursor l = INPUT_BUFFER_SIZE
         \<and> \<not> fst (insert_input_byte 0x21 l))"

text \<open>Deleting ends because each deletion shortens the line.\<close>

function delete_all :: "InputLine \<Rightarrow> nat \<times> InputLine" where
  "delete_all l =
     (case delete_previous_input_byte l of
        (True, l') \<Rightarrow> (let (deleted, l'') = delete_all l' in (deleted + 1, l''))
      | (False, l') \<Rightarrow> (0, l'))"
  by pat_completeness auto
termination
  by (relation "measure ln_len") (auto simp: delete_previous_input_byte_def Let_def split: if_splits)

declare delete_all.simps [simp del]

definition insert_all :: "u8 list \<Rightarrow> bool \<times> InputLine \<Rightarrow> bool \<times> InputLine" where
  "insert_all bytes = fold (\<lambda>byte (ok, l). if ok then insert_input_byte byte l else (False, l)) bytes"

definition check_long_backspace :: bool where
  "check_long_backspace =
     (case insert_all (replicate INPUT_BUFFER_SIZE 0x78) (True, InputLine_new) of
        (False, _) \<Rightarrow> False
      | (True, l) \<Rightarrow>
          let (deleted, l) = delete_all l
          in deleted = INPUT_BUFFER_SIZE \<and> ln_len l = 0 \<and> ln_cursor l = 0)"

definition check_line_editing :: bool where
  "check_line_editing =
     (case insert_all (ascii ''helo'') (True, InputLine_new) of (False, _) \<Rightarrow> False | (True, l) \<Rightarrow>
      case insert_input_byte 0x6c (l\<lparr>ln_cursor := 3\<rparr>) of (False, _) \<Rightarrow> False | (True, l) \<Rightarrow>
      case insert_input_byte 0x45 (l\<lparr>ln_cursor := 1\<rparr>) of (False, _) \<Rightarrow> False | (True, l) \<Rightarrow>
      case delete_previous_input_byte l of (False, _) \<Rightarrow> False | (True, l) \<Rightarrow>
        ln_len l = 5 \<and> ln_cursor l = 1 \<and> bytes_eq (line_bytes l) (ascii ''hello''))"

definition check_history_navigation :: bool where
  "check_history_navigation =
     (let history = fold history_push (map ascii [''help'', ''version'', ''about'', ''about'']) CommandHistory_new
      in if ch_len history \<noteq> 3 then False
         else case previous_index history None of None \<Rightarrow> False | Some latest \<Rightarrow>
           let (loaded, l) = history_load history latest InputLine_new
           in if \<not> loaded \<or> \<not> bytes_eq (line_bytes l) (ascii ''about'') \<or> ln_cursor l \<noteq> ln_len l then False
              else case previous_index history (Some latest) of None \<Rightarrow> False | Some previous \<Rightarrow>
                let (loaded, l) = history_load history previous l
                in if \<not> loaded \<or> \<not> bytes_eq (line_bytes l) (ascii ''version'') then False
                   else case next_index history (Some previous) of None \<Rightarrow> False | Some next_one \<Rightarrow>
                     let (loaded, l) = history_load history next_one l
                     in loaded \<and> bytes_eq (line_bytes l) (ascii ''about'')
                        \<and> next_index history (Some next_one) = None)"

definition check_command_lookup :: bool where
  "check_command_lookup \<longleftrightarrow> command_exists (ascii ''HELP'') \<and> command_exists (ascii ''HeLp'')
     \<and> command_exists (ascii ''stress'') \<and> \<not> command_exists (ascii ''definitely-not-a-command'')"

record ConsoleModelReport =
  cr_long_input :: bool
  cr_backspace_long :: bool
  cr_line_editing :: bool
  cr_history_navigation :: bool
  cr_command_lookup :: bool

definition run_console_model_checks :: ConsoleModelReport where
  "run_console_model_checks = \<lparr>cr_long_input = check_long_input_capacity, cr_backspace_long = check_long_backspace,
     cr_line_editing = check_line_editing, cr_history_navigation = check_history_navigation,
     cr_command_lookup = check_command_lookup\<rparr>"

section \<open>Commands\<close>

definition command_help :: "Machine \<Rightarrow> Machine" where
  "command_help M =
     fold (\<lambda>command M.
         let M = print (ascii (cmd_name command)) (print (ascii ''  '') M);
             M = print (ascii ''- '') (print_spaces (10 - length (cmd_name command)) M)
         in println (ascii (cmd_description command)) M)
       COMMANDS (println (ascii ''Commands:'') M)"

definition command_clear :: "Machine \<Rightarrow> Machine" where
  "command_clear = update_screen show_splash"

definition command_version :: "Machine \<Rightarrow> Machine" where
  "command_version = println (ascii ''Tobacco v0.0.5'')"

definition command_about :: "Machine \<Rightarrow> Machine" where
  "command_about = println (ascii ''Tobacco: Sistem operasi untuk semua, tanpa perlu perangkat mahal.'')"

definition command_echo :: "u8 list \<Rightarrow> Machine \<Rightarrow> Machine" where
  "command_echo arguments = print_ascii_line arguments"

definition command_uptime :: "Machine \<Rightarrow> Machine" where
  "command_uptime M =
     (let ticks = k_ticks (m_kernel M);
          seconds = ticks div PIT_HZ;
          remainder_ticks = ticks mod PIT_HZ;
          ready_tick = st_shell_ready_tick (m_stats M);
          M = print (ascii ''  time      : '') (println (ascii ''Uptime:'') M);
          M = newline (print_duration seconds M);
          M = print_counter ''seconds'' seconds M;
          M = print_counter ''ticks'' ticks M;
          M = print_counter ''tick hz'' PIT_HZ M;
          M = print_counter ''partial tick'' remainder_ticks M
      in print_counter ''shell ready'' ready_tick M)"

definition command_irq :: "Machine \<Rightarrow> Machine" where
  "command_irq M =
     (let snapshot = m_stats M;
          M = println (ascii ''IRQ counters:'') M;
          M = print_counter ''timer irq'' (st_timer_irqs snapshot) M;
          M = print_counter ''keyboard irq'' (st_keyboard_irqs snapshot) M;
          M = print_counter ''default irq'' (st_default_irqs snapshot) M;
          M = print_counter ''exceptions'' (st_exceptions snapshot) M
      in print_counter ''current ticks'' (k_ticks (m_kernel M)) M)"

definition print_flag :: "string \<Rightarrow> bool \<Rightarrow> Machine \<Rightarrow> Machine" where
  "print_flag label enabled M = newline (print_on_off enabled (print (ascii label) M))"

definition command_idt :: "Machine \<Rightarrow> Machine" where
  "command_idt M =
     (let abi = abi_snapshot (m_idt M);
          counters = m_stats M;
          M = println (ascii ''IDT/Interrupt ABI:'') M;
          M = print_counter ''idt entry bytes'' (abi_idt_entry_bytes abi) M;
          M = print_counter ''timer ctx bytes'' (abi_timer_context_bytes abi) M;
          M = print_counter ''syscall frame'' (abi_syscall_frame_bytes abi) M;
          M = print_counter ''exception ctx'' (abi_exception_context_bytes abi) M;
          M = print_flag ''  timer gate       : '' (abi_timer_gate_present abi) M;
          M = print_flag ''  keyboard gate    : '' (abi_keyboard_gate_present abi) M;
          M = print_flag ''  syscall gate     : '' (abi_syscall_gate_present abi) M;
          M = print_flag ''  syscall dpl3     : '' (abi_syscall_gate_dpl3 abi) M;
          M = print_flag ''  double fault ist : '' (abi_double_fault_ist abi) M;
          M = print_counter ''timer vector'' (abi_pic_timer_vector abi) M;
          M = print_counter ''keyboard vector'' (abi_pic_keyboard_vector abi) M;
          M = print_counter ''syscall vector'' (abi_syscall_vector abi) M;
          M = print_counter ''timer irq'' (st_timer_irqs counters) M;
          M = print_counter ''keyboard irq'' (st_keyboard_irqs counters) M;
          M = print_counter ''default irq'' (st_default_irqs counters) M
      in print_counter ''exceptions'' (st_exceptions counters) M)"

definition command_consoletest :: "Machine \<Rightarrow> Machine" where
  "command_consoletest M =
     (let report = run_console_model_checks;
          S = ((0, 0), println (ascii ''Console model test:'') M);
          S = selftest_check ''long input'' (cr_long_input report) S;
          S = selftest_check ''long backspace'' (cr_backspace_long report) S;
          S = selftest_check ''line editing'' (cr_line_editing report) S;
          S = selftest_check ''history navigation'' (cr_history_navigation report) S;
          ((passed, failed), M) = selftest_check ''command lookup'' (cr_command_lookup report) S;
          M = print_counter ''failed'' failed (print_counter ''passed'' passed M)
      in if failed = 0 then println (ascii ''status: PASS'') M
         else println (ascii ''status: FAIL'') (update_stats inc_shell_error M))"

text \<open>
  The rounds that \<open>bench\<close> and \<open>stress\<close> compute; \<open>rotate_left\<close> is the library's rotation of words.
\<close>

definition bench_round :: "u64 \<Rightarrow> u64 \<Rightarrow> u64" where
  "bench_round v accumulator = word_rotl 7 accumulator + (v XOR 0x9e3779b97f4a7c15)"

definition stress_cpu_round :: "u64 \<Rightarrow> u64 \<Rightarrow> u64" where
  "stress_cpu_round checksum cycle =
     fold (\<lambda>v checksum. (word_rotl 9 checksum + (v XOR word_rotl 3 cycle)) * 0x1000000001b3)
       (map of_nat [0..<2048]) checksum"

definition command_bench :: "u64 \<Rightarrow> Machine \<Rightarrow> Machine" where
  "command_bench end_tick M =
     (let M = update_stats inc_bench_run M;
          start = k_ticks (m_kernel M);
          accumulator = fold bench_round (map of_nat [0..<100000]) 0x544f424143434f00;
          M = println (ascii ''Bench:'') M;
          M = print_counter ''iterations'' 100000 M;
          M = print_counter ''start tick'' start M;
          M = print_counter ''end tick'' end_tick M;
          M = print_counter ''delta ticks'' (sat_sub end_tick start) M
      in newline (print_hex_u64 accumulator (print (ascii ''  accumulator   : '') M)))"

definition stress_cycles :: "u8 list \<Rightarrow> Machine \<Rightarrow> nat option \<times> Machine" where
  "stress_cycles arguments M =
     (let arguments = trim_ascii arguments
      in if arguments = [] then (Some STRESS_DEFAULT_CYCLES, M)
         else case parse_u64 arguments of
                None \<Rightarrow> (None, M)
              | Some v \<Rightarrow>
                  if v = 0 then (None, M)
                  else if of_nat STRESS_MAX_CYCLES < v
                  then (Some STRESS_MAX_CYCLES, println (ascii ''cycles dibatasi ke 32 agar tetap aman.'') M)
                  else (Some (unat v), M))"

section \<open>Executing a line\<close>

text \<open>The handlers are an argument: what the function behind an entry of the table does.\<close>

type_synonym handlers = "CommandHandler \<Rightarrow> u8 list \<Rightarrow> Machine \<Rightarrow> Machine"

fun execute_loop :: "handlers \<Rightarrow> u8 list \<Rightarrow> u8 list \<Rightarrow> Command list \<Rightarrow> Machine \<Rightarrow> Machine" where
  "execute_loop handlers command arguments [] M =
     println (ascii ''Perintah tidak dikenal. Ketik help.'') (update_stats inc_shell_error M)"
| "execute_loop handlers command arguments (entry # rest) M =
     (if eq_ignore_ascii_case command (ascii (cmd_name entry)) then handlers (cmd_handler entry) arguments M
      else execute_loop handlers command arguments rest M)"

definition execute :: "handlers \<Rightarrow> u8 list \<Rightarrow> Machine \<Rightarrow> Machine" where
  "execute handlers input M =
     (let command_line = trim_ascii input
      in if command_line = [] then update_stats inc_shell_empty_command M
         else let (command, arguments) = split_command command_line
              in execute_loop handlers command arguments COMMANDS (update_stats inc_shell_command M))"

text \<open>
  The commands modelled above, in their places in the table; \<open>other\<close> stands for the rest. The number of
  ticks at the end of a benchmark is what the clock shows then.
\<close>

definition builtin_handlers :: "u64 \<Rightarrow> handlers \<Rightarrow> handlers" where
  "builtin_handlers end_tick other command arguments =
     (case command of
        CmdHelp \<Rightarrow> command_help | CmdClear \<Rightarrow> command_clear | CmdVersion \<Rightarrow> command_version
      | CmdAbout \<Rightarrow> command_about | CmdEcho \<Rightarrow> command_echo arguments | CmdUptime \<Rightarrow> command_uptime
      | CmdIrq \<Rightarrow> command_irq | CmdIdt \<Rightarrow> command_idt | CmdConsoletest \<Rightarrow> command_consoletest
      | CmdBench \<Rightarrow> command_bench end_tick | _ \<Rightarrow> other command arguments)"

definition prompt :: "Machine \<Rightarrow> Machine" where
  "prompt = update_screen start_prompt"

section \<open>The loop over key events\<close>

record Shell =
  sh_line :: InputLine
  sh_history :: CommandHistory
  sh_history_selected :: "nat option"

definition Shell_new :: Shell where
  "Shell_new = \<lparr>sh_line = InputLine_new, sh_history = CommandHistory_new, sh_history_selected = None\<rparr>"

definition render :: "Shell \<times> Machine \<Rightarrow> Shell \<times> Machine" where
  "render S = (fst S, update_screen (render_input_with_cursor (line_bytes (sh_line (fst S))) (ln_cursor (sh_line (fst S)))) (snd S))"

definition clear_line :: "Shell \<Rightarrow> Shell" where
  "clear_line s = s\<lparr>sh_line := (sh_line s)\<lparr>ln_len := 0, ln_cursor := 0\<rparr>, sh_history_selected := None\<rparr>"

text \<open>An edit of the line: when it succeeds the line is drawn and no history entry is selected.\<close>

definition edited :: "bool \<times> InputLine \<Rightarrow> Shell \<times> Machine \<Rightarrow> Shell \<times> Machine" where
  "edited r S =
     (if fst r then render ((fst S)\<lparr>sh_line := snd r, sh_history_selected := None\<rparr>, snd S)
      else ((fst S)\<lparr>sh_line := snd r\<rparr>, snd S))"

definition recall :: "nat \<Rightarrow> Shell \<times> Machine \<Rightarrow> Shell \<times> Machine" where
  "recall index S =
     (let s = (fst S)\<lparr>sh_history_selected := Some index\<rparr>
      in case history_load (sh_history s) index (sh_line s) of
           (True, l) \<Rightarrow> render (s\<lparr>sh_line := l\<rparr>, update_stats inc_shell_history_recall (snd S))
         | (False, l) \<Rightarrow> (s\<lparr>sh_line := l\<rparr>, snd S))"

definition handle_key :: "handlers \<Rightarrow> KeyEvent \<Rightarrow> Shell \<times> Machine \<Rightarrow> Shell \<times> Machine" where
  "handle_key handlers event S =
     (let s = fst S; M = snd S; l = sh_line s
      in case event of
           Enter \<Rightarrow>
             let M = write_byte 0x0a M;
                 s = s\<lparr>sh_history := history_push (line_bytes l) (sh_history s)\<rparr>;
                 M = execute handlers (line_bytes l) M
             in (clear_line s, prompt M)
         | Backspace \<Rightarrow> edited (delete_previous_input_byte l) S
         | Escape \<Rightarrow> render (clear_line s, M)
         | Tab \<Rightarrow> edited (insert_input_byte 0x20 l) S
         | KeyChar byte \<Rightarrow> if 0x20 \<le> byte \<and> byte \<le> 0x7e then edited (insert_input_byte byte l) S else S
         | ArrowLeft \<Rightarrow> if 0 < ln_cursor l then render (s\<lparr>sh_line := l\<lparr>ln_cursor := ln_cursor l - 1\<rparr>\<rparr>, M) else S
         | ArrowRight \<Rightarrow>
             if ln_cursor l < ln_len l then render (s\<lparr>sh_line := l\<lparr>ln_cursor := ln_cursor l + 1\<rparr>\<rparr>, M) else S
         | ArrowUp \<Rightarrow>
             (case previous_index (sh_history s) (sh_history_selected s) of Some index \<Rightarrow> recall index S | None \<Rightarrow> S)
         | ArrowDown \<Rightarrow>
             (case next_index (sh_history s) (sh_history_selected s) of
                Some index \<Rightarrow> recall index S
              | None \<Rightarrow> if sh_history_selected s \<noteq> None then render (clear_line s, M) else S)
         | ShiftPressed \<Rightarrow> S | ShiftReleased \<Rightarrow> S | CapsLockToggled _ \<Rightarrow> S)"

text \<open>
  One round of the loop: scancodes that wait in the controller are read, and the oldest key event is
  handled. \<open>status\<close> and \<open>data\<close> are what the ports of the controller return.
\<close>

definition run_round :: "handlers \<Rightarrow> (nat \<Rightarrow> u8) \<Rightarrow> (nat \<Rightarrow> u8) \<Rightarrow> Shell \<times> Machine \<Rightarrow> Shell \<times> Machine" where
  "run_round handlers status data S =
     (let M = snd S;
          (event, keyboard) = pop_event (poll status data (m_keyboard M));
          S = (fst S, M\<lparr>m_keyboard := keyboard\<rparr>)
      in case event of Some e \<Rightarrow> handle_key handlers e S | None \<Rightarrow> S)"

end
