(* ===== verification/Shell_Text.thy ===== *)
theory Shell_Text
  imports Shell Klog_Properties
begin

text \<open>
  The words and numbers of a command line: blanks are trimmed, the first word is looked up in the
  table, and numbers are read as what they denote.
\<close>

section \<open>Words of a line\<close>

lemma trim_end_Nil [simp]: "trim_end [] = []"
  by (simp add: trim_end.simps)

lemma trim_start_eq: "trim_start xs = dropWhile is_blank xs"
  by (induction xs) auto

lemma trim_end_eq: "trim_end xs = rev (dropWhile is_blank (rev xs))"
proof (induction xs rule: trim_end.induct)
  case (1 xs)
  show ?case
  proof (cases xs rule: rev_cases)
    case (snoc ys y)
    with 1 show ?thesis by (subst trim_end.simps) simp
  qed simp
qed

lemma trim_end_append:
  "trim_end (xs @ ys) = (if list_all is_blank ys then trim_end xs else xs @ trim_end ys)"
  by (auto simp: trim_end_eq dropWhile_append list_all_iff)

lemma trim_end_blank: "list_all is_blank xs \<Longrightarrow> trim_end xs = []" "list_all is_blank xs \<Longrightarrow> trim_start xs = []"
  by (simp_all add: trim_end_eq trim_start_eq list_all_iff)

lemma trim_end_word: "w \<noteq> [] \<Longrightarrow> \<not> is_blank (last w) \<Longrightarrow> trim_end w = w"
  by (cases w rule: rev_cases) (simp_all add: trim_end_eq)

lemma trim_start_end: "trim_start (trim_end xs) = trim_end (trim_start xs)"
proof (cases "list_all is_blank xs")
  case True
  then show ?thesis by (simp add: trim_end_blank)
next
  case False
  then obtain ys where ys: "dropWhile is_blank xs = ys" "ys \<noteq> []" "\<not> is_blank (hd ys)"
    by (auto simp: list_all_iff hd_dropWhile)
  then have nb: "\<not> list_all is_blank ys" by (cases ys) auto
  have "xs = takeWhile is_blank xs @ ys" using ys(1) takeWhile_dropWhile_id [of is_blank xs] by simp
  then have "trim_end xs = takeWhile is_blank xs @ trim_end ys" using nb trim_end_append [of "takeWhile is_blank xs" ys] by simp
  moreover have "trim_end ys = hd ys # trim_end (tl ys) \<or> trim_end ys = [hd ys]"
    using ys(2,3) trim_end_append [of "[hd ys]" "tl ys"] trim_end_word [of "[hd ys]"] by auto
  ultimately have "dropWhile is_blank (trim_end xs) = trim_end ys" using ys(3)
    by (auto simp: dropWhile_append dest: set_takeWhileD)
  then show ?thesis using ys(1) by (simp add: trim_start_eq)
qed

lemma trim_end_idem: "trim_end (trim_end xs) = trim_end xs"
  by (simp add: trim_end_eq dropWhile_idem)

text \<open>The first word of a line and what follows it.\<close>

definition first_word :: "u8 list \<Rightarrow> u8 list" where
  "first_word input = takeWhile (\<lambda>b. \<not> is_blank b) (dropWhile is_blank input)"

definition rest_of_line :: "u8 list \<Rightarrow> u8 list" where
  "rest_of_line input = dropWhile (\<lambda>b. \<not> is_blank b) (dropWhile is_blank input)"

lemma split_loop_eq:
  assumes "n \<le> length input" "\<forall>i < n. \<not> is_blank (input ! i)"
  shows "split_loop input [n..<length input] =
    (let w = takeWhile (\<lambda>b. \<not> is_blank b) input in (w, trim_ascii (drop (length w + 1) input)))"
  using assms
proof (induction "length input - n" arbitrary: n)
  case 0
  then have w: "takeWhile (\<lambda>b. \<not> is_blank b) input = input" by (auto simp: takeWhile_eq_all_conv in_set_conv_nth)
  from 0 show ?case by (simp add: Let_def trim_ascii_def w)
next
  case (Suc k)
  then have n: "n < length input" by simp
  show ?case
  proof (cases "is_blank (input ! n)")
    case True
    have "takeWhile (\<lambda>b. \<not> is_blank b) input = take n input"
      using True n Suc.prems(2) by (intro takeWhile_eq_take_P_nth) auto
    with True n show ?thesis by (simp add: upt_conv_Cons is_blank_def Let_def min_absorb1)
  next
    case False
    have "split_loop input [Suc n..<length input] =
        (let w = takeWhile (\<lambda>b. \<not> is_blank b) input in (w, trim_ascii (drop (length w + 1) input)))"
      using Suc False by (intro Suc.hyps(1)) (auto simp: less_Suc_eq)
    with False n show ?thesis by (simp add: upt_conv_Cons is_blank_def)
  qed
qed

lemma split_words:
  "trim_ascii input = [] \<longleftrightarrow> first_word input = []"
  "first_word input \<noteq> [] \<Longrightarrow> split_command (trim_ascii input) = (first_word input, trim_ascii (rest_of_line input))"
proof -
  let ?t = "dropWhile is_blank input" and ?w = "first_word input" and ?r = "rest_of_line input"
  have t: "?t = ?w @ ?r" by (simp add: first_word_def rest_of_line_def)
  have w: "b \<in> set ?w \<Longrightarrow> \<not> is_blank b" for b by (auto simp: first_word_def dest: set_takeWhileD)
  have r: "?r = [] \<or> is_blank (hd ?r)" using hd_dropWhile [of "\<lambda>b. \<not> is_blank b" ?t] unfolding rest_of_line_def by blast
  have e: "?t \<noteq> [] \<Longrightarrow> ?w \<noteq> []" using hd_dropWhile [of is_blank input] by (cases ?t) (auto simp: first_word_def)
  have tw: "trim_ascii input = ?w @ trim_end ?r" if "?w \<noteq> []"
    using that w trim_end_word [OF that] trim_end_append [of ?w ?r] trim_end_blank(1) [of ?r]
    by (simp add: trim_ascii_def trim_start_eq t)
  show "trim_ascii input = [] \<longleftrightarrow> ?w = []"
  proof
    assume "trim_ascii input = []"
    then show "?w = []" using tw by auto
  next
    assume "?w = []"
    then have "?t = []" using e by blast
    then show "trim_ascii input = []" by (simp only: trim_ascii_def trim_start_eq trim_end_Nil)
  qed
  assume ne: "?w \<noteq> []"
  have tr: "trim_end ?r = [] \<or> (\<exists>b ys. ?r = b # ys \<and> is_blank b \<and> trim_end ?r = b # trim_end ys)"
  proof (cases ?r)
    case (Cons b ys)
    then have "is_blank b" using r by simp
    then show ?thesis using Cons trim_end_append [of "[b]" ys] trim_end_blank(1) [of ?r] by auto
  qed simp
  have "takeWhile (\<lambda>b. \<not> is_blank b) (?w @ trim_end ?r) = ?w" using tr w by (auto simp: takeWhile_append)
  then have "split_command (trim_ascii input) = (?w, trim_ascii (drop (length ?w + 1) (?w @ trim_end ?r)))"
    using split_loop_eq [of 0 "trim_ascii input"] tw [OF ne] by (simp add: split_command_def Let_def)
  also have "trim_ascii (drop (length ?w + 1) (?w @ trim_end ?r)) = trim_ascii ?r"
    using tr
  proof
    assume n: "trim_end ?r = []"
    then have "trim_end (trim_start ?r) = []" using trim_start_end [of ?r] by simp
    then show ?thesis using n by (simp add: trim_ascii_def)
  next
    assume "\<exists>b ys. ?r = b # ys \<and> is_blank b \<and> trim_end ?r = b # trim_end ys"
    then obtain b ys where "?r = b # ys" "is_blank b" "trim_end ?r = b # trim_end ys" by blast
    then show ?thesis by (simp add: trim_ascii_def trim_start_end trim_end_idem)
  qed
  finally show "split_command (trim_ascii input) = (?w, trim_ascii ?r)" .
qed

lemma trim_start_length: "length (trim_start xs) \<le> length xs"
  by (induction xs) auto

lemma trim_end_length: "length (trim_end xs) \<le> length xs"
proof (induction xs rule: trim_end.induct)
  case (1 xs)
  then show ?case by (subst trim_end.simps) (auto intro: order_trans)
qed

lemma trim_length: "length (trim_ascii xs) \<le> length xs"
  using trim_start_length trim_end_length unfolding trim_ascii_def by (rule order_trans [rotated])

section \<open>Looking up a command\<close>

lemma eq_ignore_case_iff: "eq_ignore_ascii_case xs ys \<longleftrightarrow> map to_ascii_lower xs = map to_ascii_lower ys"
  unfolding eq_ignore_ascii_case_def list_all_iff by (subst list_eq_iff_nth_eq) auto

definition command_named :: "u8 list \<Rightarrow> Command option" where
  "command_named word = find (\<lambda>c. ascii (cmd_name c) = map to_ascii_lower word) COMMANDS"

text \<open>The names are compared as numbers.\<close>

definition name_code :: "string \<Rightarrow> int" where
  "name_code s = foldr (\<lambda>c n. of_char c + 256 * n) s 0"

lemma command_names:
  "distinct (map cmd_name COMMANDS)" "length COMMANDS = 64"
  "list_all (list_all (\<lambda>x. x \<in> set ''abcdefghijklmnopqrstuvwxyz'')) (map cmd_name COMMANDS)"
proof -
  have "distinct (map (name_code \<circ> cmd_name) COMMANDS)" by code_simp
  then show "distinct (map cmd_name COMMANDS)" by (metis distinct_map map_map)
qed code_simp+

lemma command_names_lower: "\<forall>c \<in> set COMMANDS. map to_ascii_lower (ascii (cmd_name c)) = ascii (cmd_name c)"
proof
  fix c
  assume "c \<in> set COMMANDS"
  then have "\<forall>x \<in> set (cmd_name c). x \<in> set ''abcdefghijklmnopqrstuvwxyz''"
    using command_names(3) unfolding list_all_iff set_map by blast
  moreover have "\<forall>x \<in> set ''abcdefghijklmnopqrstuvwxyz''. to_ascii_lower (of_char x) = of_char x" by code_simp
  ultimately show "map to_ascii_lower (ascii (cmd_name c)) = ascii (cmd_name c)" unfolding ascii_def by (auto simp del: list.set)
qed

lemma execute_loop_eq:
  "\<forall>c \<in> set cs. map to_ascii_lower (ascii (cmd_name c)) = ascii (cmd_name c) \<Longrightarrow>
   execute_loop handlers word arguments cs M =
     (case find (\<lambda>c. ascii (cmd_name c) = map to_ascii_lower word) cs of
        Some c \<Rightarrow> handlers (cmd_handler c) arguments M
      | None \<Rightarrow> println (ascii ''Perintah tidak dikenal. Ketik help.'') (update_stats inc_shell_error M))"
  by (induction cs) (auto simp: eq_ignore_case_iff)

section \<open>Numbers\<close>

definition is_digit :: "nat \<Rightarrow> u8 \<Rightarrow> bool" where
  "is_digit base b \<longleftrightarrow> to_ascii_lower b \<in> set (map digit [0..<base])"

definition number_value :: "nat \<Rightarrow> u8 list \<Rightarrow> nat" where
  "number_value base ds = numeral_value base (map to_ascii_lower ds)"

lemma digit_value_table:
  "case ascii_digit_value b of None \<Rightarrow> \<not> is_digit 16 b
   | Some d \<Rightarrow> unat d < 16 \<and> to_ascii_lower b = digit (unat d)"
proof (cases "ascii_digit_value b")
  case None
  have t: "\<forall>d \<in> set [0..<16]. ascii_digit_value (digit d) \<noteq> None \<and> (0x41 \<le> digit d - 32 \<longrightarrow> ascii_digit_value (digit d - 32) \<noteq> None)"
    by code_simp
  have "\<not> is_digit 16 b"
  proof
    assume "is_digit 16 b"
    then obtain d where d: "d \<in> set [0..<16]" "to_ascii_lower b = digit d" by (auto simp: is_digit_def)
    then have "b = digit d \<or> 0x41 \<le> b \<and> b = digit d - 32" by (auto simp: to_ascii_lower_def eq_diff_eq split: if_splits)
    with bspec [OF t d(1)] None show False by auto
  qed
  with None show ?thesis by simp
next
  case (Some d)
  let ?L = "[48..<58] @ [65..<71] @ [97..<103]"
  have "48 \<le> unat b \<and> unat b < 58 \<or> 65 \<le> unat b \<and> unat b < 71 \<or> 97 \<le> unat b \<and> unat b < 103"
    using Some by (auto simp: ascii_digit_value_def word_le_nat_alt split: if_splits)
  then have "unat b \<in> set ?L" by (simp only: set_append set_upt Un_iff atLeastLessThan_iff)
  moreover have "\<forall>n \<in> set ?L. case ascii_digit_value (of_nat n) of None \<Rightarrow> True
     | Some d \<Rightarrow> unat d < 16 \<and> to_ascii_lower (of_nat n) = digit (unat d)" by code_simp
  ultimately have "case ascii_digit_value (of_nat (unat b)) of None \<Rightarrow> True
     | Some d \<Rightarrow> unat d < 16 \<and> to_ascii_lower (of_nat (unat b)) = digit (unat d)" by blast
  with Some show ?thesis by simp
qed

lemma is_digit_iff: "d < 16 \<Longrightarrow> base \<le> 16 \<Longrightarrow> to_ascii_lower b = digit d \<Longrightarrow> is_digit base b \<longleftrightarrow> d < base"
  using digit_value_digit by (auto simp: is_digit_def) (metis order.strict_trans2)

lemma fold_value_mono: "0 < base \<Longrightarrow> w \<le> fold (\<lambda>b w. w * base + f b) ds (w :: nat)"
proof (induction ds arbitrary: w)
  case (Cons d ds)
  have "w \<le> w * base + f d" using Cons.prems by (cases base) simp_all
  also have "\<dots> \<le> fold (\<lambda>b w. w * base + f b) ds (w * base + f d)" using Cons by simp
  finally show ?case by simp
qed simp

lemma parse_digits_eq:
  assumes "base = 10 \<or> base = 16"
  shows "parse_digits base ds v p =
    (let ds = filter (\<lambda>b. b \<noteq> 0x5f) ds; n = fold (\<lambda>b w. w * unat base + digit_value (to_ascii_lower b)) ds (unat v)
     in if (p \<or> ds \<noteq> []) \<and> list_all (is_digit (unat base)) ds \<and> n < 2 ^ 64 then Some (of_nat n) else None)"
proof (induction ds arbitrary: v p)
  case Nil
  have "unat v < 2 ^ 64" by (rule order_less_le_trans [OF unsigned_less]) simp
  then show ?case by simp
next
  case (Cons b ds)
  have base: "unat base \<le> 16" "0 < unat base" using assms by auto
  show ?case
  proof (cases "b = 0x5f")
    case False
    show ?thesis
    proof (cases "ascii_digit_value b")
      case None
      then have "\<not> is_digit (unat base) b" using digit_value_table [of b] base(1) by (auto simp: is_digit_def)
      then show ?thesis using None False by (simp add: Let_def)
    next
      case (Some d)
      then have d: "unat d < 16" "to_ascii_lower b = digit (unat d)" using digit_value_table [of b] by auto
      have i: "is_digit (unat base) b \<longleftrightarrow> d < base" using is_digit_iff [OF d(1) base(1) d(2)] by (simp add: word_less_nat_alt)
      have dv: "digit_value (to_ascii_lower b) = unat d" using d digit_value_digit by simp
      let ?n = "unat v * unat base + unat d"
      let ?ds = "filter (\<lambda>b. b \<noteq> 0x5f) ds"
      have m: "?n \<le> fold (\<lambda>b w. w * unat base + digit_value (to_ascii_lower b)) ?ds ?n" by (rule fold_value_mono [OF base(2)])
      show ?thesis
      proof (cases "?n < 2 ^ 64")
        case True
        then have "checked_mul v base = Some (v * base)" "unat (v * base) = unat v * unat base"
          by (simp_all add: checked_mul_def unat_mult_lem [THEN iffD1])
        moreover from this True have "checked_add (v * base) d = Some (v * base + d)" "unat (v * base + d) = ?n"
          by (simp_all add: checked_add_def unat_add_lem [THEN iffD1])
        ultimately show ?thesis using Some False i dv Cons.IH [of "v * base + d" True]
          by (cases "base \<le> d") (simp_all add: Let_def not_le [symmetric])
      next
        case big: False
        have "checked_mul v base = None \<or> (checked_mul v base = Some (v * base) \<and> checked_add (v * base) d = None)"
        proof (cases "unat v * unat base < 2 ^ 64")
          case True
          then have "unat (v * base) = unat v * unat base" by (simp add: unat_mult_lem [THEN iffD1])
          with big True show ?thesis by (simp add: checked_mul_def checked_add_None)
        qed (simp add: checked_mul_def)
        then show ?thesis using Some False m big dv by (auto simp: Let_def)
      qed
    qed
  qed (use Cons in \<open>simp add: Let_def\<close>)
qed

lemma decimal_digits_eq: "v \<noteq> 0 \<Longrightarrow> decimal_digits v ds = numeral_text 10 (unat v) @ ds"
proof (induction v ds rule: decimal_digits.induct)
  case (1 v ds)
  have div: "unat (v div 10) = unat v div 10" by (simp add: unat_div_distrib)
  show ?case
  proof (cases "v div 10 = 0")
    case True
    then have "unat v < 10" using div by (simp add: div_eq_0_iff)
    with True 1(2) show ?thesis
      by (subst decimal_digits.simps, subst decimal_digits.simps, subst numeral_text.simps) (simp add: decimal_digit word_gt_0)
  next
    case False
    then have "\<not> unat v < 10" using div by (auto simp: unat_eq_0 [symmetric])
    then show ?thesis using 1 False
      by (subst decimal_digits.simps, subst numeral_text.simps) (simp add: decimal_digit word_gt_0 div)
  qed
qed

lemma decimal_text_eq: "decimal_text v = numeral_text 10 (unat v)"
proof (cases "v = 0")
  case True
  then show ?thesis by (subst numeral_text.simps) (simp add: decimal_text_def digit_def)
qed (simp add: decimal_text_def decimal_digits_eq)

lemma hex_text_step:
  "hex_text v started (4 * k # shifts) =
     (let d = unat v div 16 ^ k mod 16
      in if d \<noteq> 0 \<or> started \<or> k = 0 then digit d # hex_text v True shifts else hex_text v started shifts)"
proof -
  have p: "unat v div 2 ^ (4 * k) = unat v div 16 ^ k" by (simp add: power_mult)
  have d: "unat v div 16 ^ k mod 16 < 16" by simp
  have h: "hex_digit (of_nat (unat v div 16 ^ k mod 16)) = digit (unat v div 16 ^ k mod 16)"
    unfolding hex_digit_def by (rule Klog_Properties.hex_digit [OF d])
  show ?thesis unfolding hex_text.simps nibble_eq p Let_def nibble_zero [OF d] h by simp
qed

lemma hex_text_started: "hex_text v True (map (\<lambda>k. 4 * k) (rev [0..<n])) = hex_pad n (unat v)"
  by (induction n) (simp_all add: hex_text_step del: hex_text.simps(2))

lemma hex_text_eq: "unat v < 16 ^ Suc k \<Longrightarrow> hex_text v False (map (\<lambda>k. 4 * k) (rev [0..<Suc k])) = numeral_text 16 (unat v)"
proof (induction k)
  case 0
  then show ?case by (subst numeral_text.simps) (simp add: hex_text_step [of v False 0, simplified])
next
  case (Suc k)
  have lt: "unat v div 16 ^ Suc k < 16" using Suc.prems by (simp add: less_mult_imp_div_less mult.commute)
  show ?case
  proof (cases "unat v div 16 ^ Suc k = 0")
    case True
    then have "unat v < 16 ^ Suc k" by (simp add: div_eq_0_iff)
    from Suc.IH [OF this] True show ?thesis using hex_text_step [of v False "Suc k"] by (simp add: Let_def del: hex_text.simps(2))
  next
    case False
    have "hex_text v False (map (\<lambda>k. 4 * k) (rev [0..<Suc (Suc k)])) = hex_text v True (map (\<lambda>k. 4 * k) (rev [0..<Suc (Suc k)]))"
      using False lt hex_text_step [of v _ "Suc k"] by (simp add: Let_def del: hex_text.simps(2))
    with numeral_text_hex_pad [OF Suc.prems False] hex_text_started [of v "Suc (Suc k)"] show ?thesis by simp
  qed
qed

lemma numeral_text_digits: "1 < base \<Longrightarrow> b \<in> set (numeral_text base n) \<Longrightarrow> \<exists>d < base. b = digit d"
proof (induction base n rule: numeral_text.induct)
  case (1 base n)
  then show ?case by (subst (asm) (2) numeral_text.simps) (auto split: if_splits intro: exI [of _ "n mod base"])
qed

lemma digit_text:
  assumes "1 < base" "base \<le> 16" "b \<in> set (numeral_text base n)"
  shows "\<not> is_blank b" "b \<noteq> 0x5f" "b \<noteq> 0x78" "to_ascii_lower b = b" "is_digit base b"
proof -
  obtain d where d: "d < base" "b = digit d" using numeral_text_digits [OF assms(1,3)] by blast
  have "\<forall>d \<in> set [0..<16]. \<not> is_blank (digit d) \<and> digit d \<noteq> 0x5f \<and> digit d \<noteq> 0x78 \<and> to_ascii_lower (digit d) = digit d"
    by code_simp
  then have "\<not> is_blank b \<and> b \<noteq> 0x5f \<and> b \<noteq> 0x78 \<and> to_ascii_lower b = b" using d assms(2) by (simp only: set_upt) auto
  then show "\<not> is_blank b" "b \<noteq> 0x5f" "b \<noteq> 0x78" "to_ascii_lower b = b" "is_digit base b"
    using d by (auto simp: is_digit_def)
qed

lemma trim_no_blanks: "\<forall>b \<in> set xs. \<not> is_blank b \<Longrightarrow> trim_ascii xs = xs"
proof (cases "xs = []")
  case False
  assume "\<forall>b \<in> set xs. \<not> is_blank b"
  then have "\<not> is_blank (hd xs)" "\<not> is_blank (last xs)" using False by auto
  then show ?thesis using False trim_end_word [of xs] by (cases xs) (simp_all add: trim_ascii_def)
qed (simp add: trim_ascii_def)

lemma numeral_text_parsed:
  assumes "1 < base" "base \<le> 16"
  shows "filter (\<lambda>b. b \<noteq> 0x5f) (numeral_text base n) = numeral_text base n" "numeral_text base n \<noteq> []"
    "list_all (is_digit base) (numeral_text base n)" "number_value base (numeral_text base n) = n"
proof -
  show "filter (\<lambda>b. b \<noteq> 0x5f) (numeral_text base n) = numeral_text base n"
    using digit_text(2) [OF assms] by (simp add: filter_id_conv)
  show "numeral_text base n \<noteq> []" by (subst numeral_text.simps) simp
  show "list_all (is_digit base) (numeral_text base n)" using digit_text(5) [OF assms] by (simp add: list_all_iff)
  have "map to_ascii_lower (numeral_text base n) = numeral_text base n"
    using digit_text(4) [OF assms] by (simp add: map_idI)
  then show "number_value base (numeral_text base n) = n" by (simp add: number_value_def numeral_value_text [OF assms])
qed

lemma number_value_fold: "number_value base ds = fold (\<lambda>b w. w * base + digit_value (to_ascii_lower b)) ds 0"
  by (simp add: number_value_def numeral_value_def fold_map comp_def)

lemma parse_u64_eq:
  "parse_u64 input =
     (let input = trim_ascii input;
          (digits, base) = (if 2 < length input \<and> input ! 0 = 0x30 \<and> to_ascii_lower (input ! 1) = 0x78
                            then (drop 2 input, 16) else (input, 10));
          digits = filter (\<lambda>b. b \<noteq> 0x5f) digits
      in if digits \<noteq> [] \<and> list_all (is_digit base) digits \<and> number_value base digits < 2 ^ 64
         then Some (of_nat (number_value base digits)) else None)"
  by (auto simp: parse_u64_def parse_digits_eq number_value_fold Let_def)

section \<open>Properties\<close>

text \<open>
  The commands. The 64 commands have different names. For any line, the first word is
  looked up without regard to the case of its letters: a line of blanks only counts as empty, an unknown
  word is reported and counted as an error, and otherwise exactly the handler of the command with
  this name runs, with the rest of the line without the blanks around it.
\<close>

theorem command_dispatch:
  "distinct (map cmd_name COMMANDS) \<and> command_count = 64
   \<and> execute handlers input M =
      (if first_word input = [] then update_stats inc_shell_empty_command M
       else let M = update_stats inc_shell_command M
            in case command_named (first_word input) of
                 Some c \<Rightarrow> handlers (cmd_handler c) (trim_ascii (rest_of_line input)) M
               | None \<Rightarrow> println (ascii ''Perintah tidak dikenal. Ketik help.'') (update_stats inc_shell_error M))"
  using command_names(1,2) split_words [of input] execute_loop_eq [OF command_names_lower]
  by (simp add: command_count_def execute_def Let_def command_named_def)

text \<open>
  Numbers. A number argument is read exactly when, without the blanks around it and without
  underscores, it consists of at least one digit, decimal or, after \<open>0x\<close>, hexadecimal in either
  case, and its value fits in 64 bits; the result is that value. Every number that the shell prints, in
  decimal or hexadecimal, is read back as itself.
\<close>

theorem parse_u64_exact:
  "parse_u64 input =
     (let input = trim_ascii input;
          (digits, base) = (if 2 < length input \<and> input ! 0 = 0x30 \<and> to_ascii_lower (input ! 1) = 0x78
                            then (drop 2 input, 16) else (input, 10));
          digits = filter (\<lambda>b. b \<noteq> 0x5f) digits
      in if digits \<noteq> [] \<and> list_all (is_digit base) digits \<and> number_value base digits < 2 ^ 64
         then Some (of_nat (number_value base digits)) else None)
   \<and> parse_u64 (decimal_text v) = Some v
   \<and> parse_u64 (ascii ''0x'' @ hex_text v False [60, 56, 52, 48, 44, 40, 36, 32, 28, 24, 20, 16, 12, 8, 4, 0]) = Some v"
proof -
  let ?t = "numeral_text 10 (unat v)" and ?h = "numeral_text 16 (unat v)"
  have v: "unat v < 2 ^ 64" by (rule order_less_le_trans [OF unsigned_less]) simp
  have "trim_ascii ?t = ?t" by (rule trim_no_blanks) (use digit_text(1) [of 10] in auto)
  moreover have "\<not> (2 < length ?t \<and> to_ascii_lower (?t ! 1) = 0x78)"
    using digit_text(3,4) [of 10 "?t ! 1" "unat v"] by auto
  ultimately have d: "parse_u64 (decimal_text v) = Some v"
    using numeral_text_parsed [of 10 "unat v"] v by (auto simp: parse_u64_eq decimal_text_eq Let_def)
  have shifts: "[60, 56, 52, 48, 44, 40, 36, 32, 28, 24, 20, 16, 12, 8, 4, 0 :: nat] = map (\<lambda>k. 4 * k) (rev [0..<Suc 15])" by code_simp
  have h: "hex_text v False [60, 56, 52, 48, 44, 40, 36, 32, 28, 24, 20, 16, 12, 8, 4, 0] = ?h"
    unfolding shifts by (rule hex_text_eq) (use v in simp)
  have p: "ascii ''0x'' = [0x30, 0x78]" "\<not> is_blank 0x30" "\<not> is_blank 0x78" "to_ascii_lower 0x78 = 0x78" by code_simp+
  have "trim_ascii (0x30 # 0x78 # ?h) = 0x30 # 0x78 # ?h" by (rule trim_no_blanks) (use p digit_text(1) [of 16] in auto)
  then have "parse_u64 (ascii ''0x'' @ ?h) = Some v"
    using numeral_text_parsed [of 16 "unat v"] v p by (simp add: parse_u64_eq Let_def)
  with d h parse_u64_eq [of input] show ?thesis by simp
qed

end
