(* ===== verification/Shell_Editor.thy ===== *)
theory Shell_Editor
  imports Shell_Text
begin

text \<open>
  The shell implements a line editor with a history: text before and after the cursor, and at most
  sixteen remembered lines.
\<close>

section \<open>Moving bytes in an array\<close>

lemma fold_shift_up:
  assumes "c \<le> n" "n < length xs"
  shows "fold (\<lambda>i xs. xs[i := xs ! (i - 1)]) (rev [c + 1..<n + 1]) xs
    = take (c + 1) xs @ take (n - c) (drop c xs) @ drop (n + 1) xs"
  using assms
proof (induction n arbitrary: xs)
  case (Suc m)
  show ?case
  proof (cases "c = Suc m")
    case False
    then have c: "c \<le> m" using Suc.prems by simp
    let ?ys = "xs[Suc m := xs ! m]"
    have "fold (\<lambda>i xs. xs[i := xs ! (i - 1)]) (rev [c + 1..<Suc m + 1]) xs
      = fold (\<lambda>i xs. xs[i := xs ! (i - 1)]) (rev [c + 1..<m + 1]) ?ys" using c by simp
    also have "\<dots> = take (c + 1) ?ys @ take (m - c) (drop c ?ys) @ drop (m + 1) ?ys"
      using c Suc.prems by (intro Suc.IH) simp_all
    also have "take (c + 1) ?ys = take (c + 1) xs" using c by simp
    also have "take (m - c) (drop c ?ys) = take (m - c) (drop c xs)" using c by (simp add: drop_update_swap)
    also have "drop (m + 1) ?ys = xs ! m # drop (Suc m + 1) xs"
      using Suc.prems by (metis Cons_nth_drop_Suc Suc_eq_plus1 drop_update_cancel length_list_update lessI nth_list_update_eq)
    also have "take (m - c) (drop c xs) @ xs ! m # drop (Suc m + 1) xs = take (Suc m - c) (drop c xs) @ drop (Suc m + 1) xs"
      using c Suc.prems by (simp add: Suc_diff_le take_Suc_conv_app_nth)
    finally show ?thesis .
  qed simp
qed simp

lemma fold_shift_down:
  assumes "0 < c" "c \<le> n" "n \<le> length xs"
  shows "fold (\<lambda>i xs. xs[i - 1 := xs ! i]) [c..<n] xs = take (c - 1) xs @ take (n - c) (drop c xs) @ drop (n - 1) xs"
  using assms(2,3)
proof (induction n rule: dec_induct)
  case base
  then show ?case using assms(1) by simp
next
  case (step m)
  let ?ts = "take (c - 1) xs @ take (m - c) (drop c xs)"
  have l: "length ?ts = m - 1" using assms(1) step by simp
  have d: "drop (m - 1) xs = xs ! (m - 1) # xs ! m # drop (Suc m) xs"
    using step assms(1) Cons_nth_drop_Suc [of "m - 1" xs] Cons_nth_drop_Suc [of m xs] by simp
  have "?ts @ xs ! m # xs ! m # drop (Suc m) xs = take (c - 1) xs @ take (Suc m - c) (drop c xs) @ drop m xs"
    using step Cons_nth_drop_Suc [of m xs] by (simp add: Suc_diff_le take_Suc_conv_app_nth)
  moreover have "(?ts @ drop (m - 1) xs) ! m = xs ! m" "(?ts @ drop (m - 1) xs)[m - 1 := v] = ?ts @ v # xs ! m # drop (Suc m) xs" for v
    using step(1) assms(1) l unfolding d by (auto simp: nth_append list_update_append simp del: append_assoc)
  ultimately show ?case using step by simp
qed

section \<open>The abstract editor\<close>

record Editor =
  ed_before :: "u8 list"
  ed_after :: "u8 list"
  ed_history :: "u8 list list"
  ed_selected :: "nat option"

definition Editor_new :: Editor where
  "Editor_new = \<lparr>ed_before = [], ed_after = [], ed_history = [], ed_selected = None\<rparr>"

abbreviation ed_line :: "Editor \<Rightarrow> u8 list" where
  "ed_line E \<equiv> ed_before E @ ed_after E"

definition ed_insert :: "u8 \<Rightarrow> Editor \<Rightarrow> Editor" where
  "ed_insert b E = (if length (ed_line E) < 512 then E\<lparr>ed_before := ed_before E @ [b], ed_selected := None\<rparr> else E)"

definition ed_show :: "nat \<Rightarrow> Editor \<Rightarrow> Editor" where
  "ed_show i E = E\<lparr>ed_before := ed_history E ! i, ed_after := [], ed_selected := Some i\<rparr>"

definition ed_clear :: "Editor \<Rightarrow> Editor" where
  "ed_clear E = E\<lparr>ed_before := [], ed_after := [], ed_selected := None\<rparr>"

text \<open>A line is remembered without the blanks around it, unless it is empty or the latest one; the oldest of sixteen makes room.\<close>

definition remember :: "u8 list \<Rightarrow> u8 list list \<Rightarrow> u8 list list" where
  "remember line h =
     (let line = trim_ascii line
      in if line = [] \<or> (h \<noteq> [] \<and> last h = line) then h else (if length h = 16 then tl h else h) @ [line])"

definition editor_key :: "KeyEvent \<Rightarrow> Editor \<Rightarrow> Editor" where
  "editor_key event E = (case event of
       KeyChar b \<Rightarrow> if 0x20 \<le> b \<and> b \<le> 0x7e then ed_insert b E else E
     | Tab \<Rightarrow> ed_insert 0x20 E
     | Backspace \<Rightarrow> if ed_before E = [] then E else E\<lparr>ed_before := butlast (ed_before E), ed_selected := None\<rparr>
     | Escape \<Rightarrow> ed_clear E
     | Enter \<Rightarrow> ed_clear (E\<lparr>ed_history := remember (ed_line E) (ed_history E)\<rparr>)
     | ArrowLeft \<Rightarrow> if ed_before E = [] then E
         else E\<lparr>ed_before := butlast (ed_before E), ed_after := last (ed_before E) # ed_after E\<rparr>
     | ArrowRight \<Rightarrow> (case ed_after E of [] \<Rightarrow> E | b # bs \<Rightarrow> E\<lparr>ed_before := ed_before E @ [b], ed_after := bs\<rparr>)
     | ArrowUp \<Rightarrow> if ed_history E = [] then E
         else ed_show (case ed_selected E of None \<Rightarrow> length (ed_history E) - 1 | Some i \<Rightarrow> i - 1) E
     | ArrowDown \<Rightarrow> (case ed_selected E of None \<Rightarrow> E
         | Some i \<Rightarrow> if Suc i < length (ed_history E) then ed_show (Suc i) E else ed_clear E)
     | _ \<Rightarrow> E)"

section \<open>Refinement\<close>

definition line_ok :: "InputLine \<Rightarrow> bool" where
  "line_ok l \<longleftrightarrow> length (ln_input l) = 512 \<and> ln_len l \<le> 512 \<and> ln_cursor l \<le> ln_len l"

definition history_ok :: "CommandHistory \<Rightarrow> bool" where
  "history_ok h \<longleftrightarrow> length (ch_entries h) = 16 \<and> length (ch_lengths h) = 16 \<and> ch_len h \<le> 16
     \<and> (\<forall>e \<in> set (ch_entries h). length e = 512) \<and> (\<forall>i < ch_len h. ch_lengths h ! i \<le> 512)"

definition history_lines :: "CommandHistory \<Rightarrow> u8 list list" where
  "history_lines h = map (\<lambda>i. take (ch_lengths h ! i) (ch_entries h ! i)) [0..<ch_len h]"

definition shell_ok :: "Shell \<Rightarrow> bool" where
  "shell_ok s \<longleftrightarrow> line_ok (sh_line s) \<and> history_ok (sh_history s)
     \<and> (\<forall>i. sh_history_selected s = Some i \<longrightarrow> i < ch_len (sh_history s))"

definition editor :: "Shell \<Rightarrow> Editor" where
  "editor s = \<lparr>ed_before = take (ln_cursor (sh_line s)) (line_bytes (sh_line s)),
     ed_after = drop (ln_cursor (sh_line s)) (line_bytes (sh_line s)),
     ed_history = history_lines (sh_history s), ed_selected = sh_history_selected s\<rparr>"

lemmas shell_consts = INPUT_BUFFER_SIZE_def HISTORY_SIZE_def

lemma insert_line:
  assumes "line_ok l"
  shows "insert_input_byte b l = (if ln_len l < 512
    then (True, \<lparr>ln_input = take (ln_cursor l) (ln_input l) @ b # take (ln_len l - ln_cursor l) (drop (ln_cursor l) (ln_input l))
        @ drop (ln_len l + 1) (ln_input l), ln_len = ln_len l + 1, ln_cursor = ln_cursor l + 1\<rparr>) else (False, l))"
proof -
  have "ln_len l < 512 \<Longrightarrow> (take (ln_cursor l + 1) (ln_input l) @ ys)[ln_cursor l := b] = take (ln_cursor l) (ln_input l) @ b # ys" for ys
    using assms by (simp add: line_ok_def take_Suc_conv_app_nth list_update_append)
  then show ?thesis
    using assms fold_shift_up [of "ln_cursor l" "ln_len l" "ln_input l"]
    by (simp add: insert_input_byte_def line_ok_def Let_def shell_consts)
qed

lemma delete_line:
  assumes "line_ok l"
  shows "delete_previous_input_byte l = (if 0 < ln_cursor l
    then (True, \<lparr>ln_input = take (ln_cursor l - 1) (ln_input l) @ take (ln_len l - ln_cursor l) (drop (ln_cursor l) (ln_input l))
        @ drop (ln_len l - 1) (ln_input l), ln_len = ln_len l - 1, ln_cursor = ln_cursor l - 1\<rparr>) else (False, l))"
  using assms fold_shift_down [of "ln_cursor l" "ln_len l" "ln_input l"]
  by (auto simp: delete_previous_input_byte_def line_ok_def Let_def)

lemma line_parts:
  "line_ok l \<Longrightarrow> take (ln_cursor l) (line_bytes l) = take (ln_cursor l) (ln_input l)"
  "drop (ln_cursor l) (line_bytes l) = take (ln_len l - ln_cursor l) (drop (ln_cursor l) (ln_input l))"
  by (simp_all add: line_bytes_def drop_take line_ok_def min_absorb1)

lemma line_length [simp]: "line_ok l \<Longrightarrow> length (line_bytes l) = ln_len l"
  by (simp add: line_bytes_def line_ok_def)

lemma inserted:
  assumes "line_ok l" "ln_len l < 512"
  shows "\<exists>l'. insert_input_byte b l = (True, l') \<and> line_ok l'
    \<and> take (ln_cursor l') (line_bytes l') = take (ln_cursor l) (line_bytes l) @ [b]
    \<and> drop (ln_cursor l') (line_bytes l') = drop (ln_cursor l) (line_bytes l)"
  using assms by (simp add: insert_line line_parts(1) [OF assms(1)] line_parts(2) [of l])
    (simp add: line_bytes_def line_ok_def Suc_diff_le min_absorb1)

lemma deleted:
  assumes "line_ok l" "0 < ln_cursor l"
  shows "\<exists>l'. delete_previous_input_byte l = (True, l') \<and> line_ok l'
    \<and> take (ln_cursor l') (line_bytes l') = butlast (take (ln_cursor l) (line_bytes l))
    \<and> drop (ln_cursor l') (line_bytes l') = drop (ln_cursor l) (line_bytes l)"
  using assms by (simp add: delete_line line_parts(1) [OF assms(1)] line_parts(2) [of l])
    (auto simp: line_bytes_def line_ok_def min_absorb1 butlast_take)

text \<open>Pushing onto the history.\<close>

lemma length_history_lines [simp]: "length (history_lines h) = ch_len h"
  by (simp add: history_lines_def)

lemma history_line_nth [simp]: "i < ch_len h \<Longrightarrow> history_lines h ! i = take (ch_lengths h ! i) (ch_entries h ! i)"
  by (simp add: history_lines_def)

lemma history_lines_cong:
  assumes "ch_len h' = ch_len h" "\<And>i. i < ch_len h \<Longrightarrow> ch_lengths h' ! i = ch_lengths h ! i \<and> ch_entries h' ! i = ch_entries h ! i"
  shows "history_lines h' = history_lines h"
  using assms by (simp add: history_lines_def)

lemma same_as_latest:
  assumes "history_ok h" "input \<noteq> []"
  shows "is_same_as_latest h input \<longleftrightarrow> history_lines h \<noteq> [] \<and> last (history_lines h) = input"
proof (cases "ch_len h = 0")
  case False
  let ?i = "ch_len h - 1"
  have i: "?i < ch_len h" "?i < 16" using False assms(1) by (auto simp: history_ok_def)
  then have "ch_lengths h ! ?i \<le> length (ch_entries h ! ?i)" using assms(1) by (simp add: history_ok_def)
  moreover have "last (history_lines h) = take (ch_lengths h ! ?i) (ch_entries h ! ?i)"
    using i False by (simp add: last_conv_nth length_0_conv [symmetric] del: length_0_conv)
  moreover have "history_lines h \<noteq> []" using False by (simp add: history_lines_def)
  ultimately show ?thesis using False by (auto simp: is_same_as_latest_def Let_def)
qed (simp add: is_same_as_latest_def history_lines_def)

definition drop_oldest :: "CommandHistory \<Rightarrow> CommandHistory" where
  "drop_oldest h = (fold (\<lambda>index h. h\<lparr>ch_entries := (ch_entries h)[index - 1 := ch_entries h ! index],
     ch_lengths := (ch_lengths h)[index - 1 := ch_lengths h ! index]\<rparr>) [1..<HISTORY_SIZE] h)\<lparr>ch_len := ch_len h - 1\<rparr>"

definition add_line :: "u8 list \<Rightarrow> CommandHistory \<Rightarrow> CommandHistory" where
  "add_line input h = h\<lparr>ch_entries := (ch_entries h)[ch_len h := input @ drop (length input) (ch_entries h ! ch_len h)],
     ch_lengths := (ch_lengths h)[ch_len h := length input], ch_len := ch_len h + 1\<rparr>"

lemma fold_history:
  "fold (\<lambda>i h. h\<lparr>ch_entries := (ch_entries h)[i - 1 := ch_entries h ! i], ch_lengths := (ch_lengths h)[i - 1 := ch_lengths h ! i]\<rparr>) js h
   = h\<lparr>ch_entries := fold (\<lambda>i xs. xs[i - 1 := xs ! i]) js (ch_entries h),
       ch_lengths := fold (\<lambda>i xs. xs[i - 1 := xs ! i]) js (ch_lengths h)\<rparr>"
  by (induction js arbitrary: h) simp_all

lemma oldest_dropped:
  assumes "history_ok h" "ch_len h = 16"
  shows "history_ok (drop_oldest h) \<and> ch_len (drop_oldest h) = 15 \<and> history_lines (drop_oldest h) = tl (history_lines h)"
proof -
  have f: "fold (\<lambda>i xs. xs[i - 1 := xs ! i]) [1..<16] xs = tl xs @ [last xs]" if "length xs = 16" for xs :: "'x list"
  proof -
    have "drop 15 xs = [last xs]" using that by (cases xs rule: rev_cases) simp_all
    then show ?thesis using fold_shift_down [of 1 16 xs] that by (simp add: drop_Suc)
  qed
  have d: "drop_oldest h = h\<lparr>ch_entries := tl (ch_entries h) @ [last (ch_entries h)],
      ch_lengths := tl (ch_lengths h) @ [last (ch_lengths h)], ch_len := 15\<rparr>"
    using assms f [of "ch_entries h"] f [of "ch_lengths h"] unfolding drop_oldest_def HISTORY_SIZE_def fold_history
    by (simp add: history_ok_def)
  have n: "(tl xs @ [last xs]) ! i = xs ! Suc i" if "length xs = 16" "i < 15" for xs :: "'x list" and i
    using that by (simp add: nth_append nth_tl)
  have e: "set (tl xs @ [last xs]) \<subseteq> set xs" if "length xs = 16" for xs :: "'x list"
    using that by (cases xs) auto
  have "history_ok (drop_oldest h)"
    using assms e [of "ch_entries h"] n [of "ch_lengths h"] unfolding d history_ok_def by auto
  moreover have "history_lines (drop_oldest h) = tl (history_lines h)"
    using assms n [of "ch_lengths h"] n [of "ch_entries h"] unfolding d
    by (intro nth_equalityI) (auto simp: history_lines_def history_ok_def nth_tl)
  ultimately show ?thesis by (simp add: d)
qed

lemma line_added:
  assumes "history_ok h" "ch_len h < 16" "length input \<le> 512"
  shows "history_ok (add_line input h) \<and> history_lines (add_line input h) = history_lines h @ [input]"
proof -
  have "length (input @ drop (length input) (ch_entries h ! ch_len h)) = 512" using assms by (auto simp: history_ok_def)
  then have "history_ok (add_line input h)"
    using assms unfolding history_ok_def add_line_def
    by (auto simp: nth_list_update dest!: set_update_subset_insert [THEN subsetD])
  moreover have "history_lines (add_line input h) = history_lines h @ [input]"
    using assms by (auto simp: history_lines_def add_line_def history_ok_def)
  ultimately show ?thesis ..
qed

lemma pushed:
  assumes h: "history_ok h" and l: "length input \<le> 512"
  shows "history_ok (history_push input h) \<and> history_lines (history_push input h) = remember input (history_lines h)"
proof -
  define line where "line = trim_ascii input"
  have len: "length line \<le> 512" using trim_length [of input] l unfolding line_def by simp
  have p: "history_push input h = (if line = [] then h else if is_same_as_latest h line then h
      else add_line line (if ch_len h = 16 then drop_oldest h else h))"
    unfolding history_push_def drop_oldest_def HISTORY_SIZE_def fold_history by (simp add: line_def Let_def add_line_def)
  show ?thesis
  proof (cases "line = [] \<or> is_same_as_latest h line")
    case True
    with h p same_as_latest [OF h, of line] show ?thesis by (auto simp: remember_def Let_def line_def [symmetric])
  next
    case False
    let ?h = "if ch_len h = 16 then drop_oldest h else h"
    have "history_ok ?h" "ch_len ?h < 16" "history_lines ?h = (if ch_len h = 16 then tl (history_lines h) else history_lines h)"
      using oldest_dropped [OF h] h by (auto simp: history_ok_def)
    with line_added [of ?h line] len False p same_as_latest [OF h, of line] show ?thesis
      by (auto simp: remember_def Let_def line_def [symmetric])
  qed
qed

lemma loaded:
  assumes "history_ok h" "line_ok l" "i < ch_len h"
  shows "\<exists>l'. history_load h i l = (True, l') \<and> line_ok l' \<and> line_bytes l' = history_lines h ! i \<and> ln_cursor l' = ln_len l'"
proof -
  have "i < 16" "ch_lengths h ! i \<le> 512" using assms by (auto simp: history_ok_def)
  then show ?thesis using assms by (auto simp: history_load_def line_ok_def line_bytes_def history_ok_def Let_def)
qed

text \<open>One key.\<close>

lemma render_fst [simp]: "fst (render S) = fst S"
  by (simp add: render_def)

lemma recalled:
  assumes "shell_ok s" "i < ch_len (sh_history s)"
  shows "shell_ok (fst (recall i (s, M))) \<and> editor (fst (recall i (s, M))) = ed_show i (editor s)"
proof -
  obtain l' where l: "history_load (sh_history s) i (sh_line s) = (True, l')" "line_ok l'"
      "line_bytes l' = history_lines (sh_history s) ! i" "ln_cursor l' = ln_len l'"
    using loaded [of "sh_history s" "sh_line s" i] assms unfolding shell_ok_def by auto
  from l(2,4) have "take (ln_cursor l') (line_bytes l') = line_bytes l'" "drop (ln_cursor l') (line_bytes l') = []" by simp_all
  with l assms show ?thesis by (simp add: recall_def Let_def shell_ok_def editor_def ed_show_def)
qed

lemma edited_ok:
  assumes "shell_ok s" "line_ok (snd r)"
    "fst r \<Longrightarrow> take (ln_cursor (snd r)) (line_bytes (snd r)) = before" "fst r \<Longrightarrow> drop (ln_cursor (snd r)) (line_bytes (snd r)) = ed_after (editor s)"
    "\<not> fst r \<Longrightarrow> snd r = sh_line s"
  shows "shell_ok (fst (edited r (s, M))) \<and> editor (fst (edited r (s, M)))
    = (if fst r then (editor s)\<lparr>ed_before := before, ed_selected := None\<rparr> else editor s)"
  using assms by (auto simp: edited_def shell_ok_def editor_def)

lemma insert_refines:
  assumes "shell_ok s"
  shows "shell_ok (fst (edited (insert_input_byte b (sh_line s)) (s, M)))
    \<and> editor (fst (edited (insert_input_byte b (sh_line s)) (s, M))) = ed_insert b (editor s)"
proof -
  have l: "line_ok (sh_line s)" using assms by (simp add: shell_ok_def)
  have n: "length (ed_line (editor s)) = ln_len (sh_line s)" using l by (simp add: editor_def)
  show ?thesis
  proof (cases "ln_len (sh_line s) < 512")
    case True
    with inserted [OF l True, of b] edited_ok [OF assms, of "insert_input_byte b (sh_line s)"] n show ?thesis
      by (auto simp: ed_insert_def editor_def)
  next
    case False
    with insert_line [OF l, of b] edited_ok [OF assms, of "insert_input_byte b (sh_line s)"] n l show ?thesis
      by (simp add: ed_insert_def)
  qed
qed

lemma delete_refines:
  assumes "shell_ok s"
  shows "shell_ok (fst (edited (delete_previous_input_byte (sh_line s)) (s, M)))
    \<and> editor (fst (edited (delete_previous_input_byte (sh_line s)) (s, M))) = editor_key Backspace (editor s)"
proof -
  have l: "line_ok (sh_line s)" using assms by (simp add: shell_ok_def)
  then have n: "ed_before (editor s) = [] \<longleftrightarrow> ln_cursor (sh_line s) = 0"
    by (auto simp: editor_def line_ok_def line_bytes_def)
  show ?thesis
  proof (cases "0 < ln_cursor (sh_line s)")
    case True
    with deleted [OF l True] edited_ok [OF assms, of "delete_previous_input_byte (sh_line s)"] n show ?thesis
      by (auto simp: editor_key_def editor_def)
  next
    case False
    with delete_line [OF l] edited_ok [OF assms, of "delete_previous_input_byte (sh_line s)"] n l show ?thesis
      by (simp add: editor_key_def)
  qed
qed

lemma clear_refines:
  "shell_ok s \<Longrightarrow> shell_ok (clear_line s) \<and> editor (clear_line s) = ed_clear (editor s)"
  by (simp add: shell_ok_def clear_line_def editor_def ed_clear_def line_ok_def line_bytes_def)

lemma left_refines:
  assumes "shell_ok s" "0 < ln_cursor (sh_line s)"
  shows "shell_ok (s\<lparr>sh_line := (sh_line s)\<lparr>ln_cursor := ln_cursor (sh_line s) - 1\<rparr>\<rparr>)
    \<and> editor (s\<lparr>sh_line := (sh_line s)\<lparr>ln_cursor := ln_cursor (sh_line s) - 1\<rparr>\<rparr>) = editor_key ArrowLeft (editor s)"
proof -
  let ?c = "ln_cursor (sh_line s)" and ?b = "line_bytes (sh_line s)"
  have c: "?c - 1 < length ?b" "?c \<le> length ?b" using assms by (auto simp: shell_ok_def line_ok_def)
  have b: "line_bytes ((sh_line s)\<lparr>ln_cursor := k\<rparr>) = ?b" for k by (simp add: line_bytes_def)
  have "take ?c ?b = take (?c - 1) ?b @ [?b ! (?c - 1)]" "drop (?c - 1) ?b = ?b ! (?c - 1) # drop ?c ?b"
    using c assms(2) take_Suc_conv_app_nth [OF c(1)] Cons_nth_drop_Suc [OF c(1)] by simp_all
  then show ?thesis using assms b by (auto simp: editor_key_def editor_def shell_ok_def line_ok_def)
qed

lemma right_refines:
  assumes "shell_ok s" "ln_cursor (sh_line s) < ln_len (sh_line s)"
  shows "shell_ok (s\<lparr>sh_line := (sh_line s)\<lparr>ln_cursor := ln_cursor (sh_line s) + 1\<rparr>\<rparr>)
    \<and> editor (s\<lparr>sh_line := (sh_line s)\<lparr>ln_cursor := ln_cursor (sh_line s) + 1\<rparr>\<rparr>) = editor_key ArrowRight (editor s)"
proof -
  let ?c = "ln_cursor (sh_line s)" and ?b = "line_bytes (sh_line s)"
  have c: "?c < length ?b" using assms by (auto simp: shell_ok_def)
  have b: "line_bytes ((sh_line s)\<lparr>ln_cursor := k\<rparr>) = ?b" for k by (simp add: line_bytes_def)
  have "take (?c + 1) ?b = take ?c ?b @ [?b ! ?c]" "drop ?c ?b = ?b ! ?c # drop (?c + 1) ?b"
    using take_Suc_conv_app_nth [OF c] Cons_nth_drop_Suc [OF c] by simp_all
  then show ?thesis using assms b by (auto simp: editor_key_def editor_def shell_ok_def line_ok_def)
qed

lemma key_refines:
  assumes "shell_ok s"
  shows "shell_ok (fst (handle_key handlers e (s, M))) \<and> editor (fst (handle_key handlers e (s, M))) = editor_key e (editor s)"
proof -
  have l: "line_ok (sh_line s)" and h: "history_ok (sh_history s)" using assms by (simp_all add: shell_ok_def)
  show ?thesis
  proof (cases e)
    case Enter
    let ?s = "s\<lparr>sh_history := history_push (line_bytes (sh_line s)) (sh_history s)\<rparr>"
    let ?t = "?s\<lparr>sh_history_selected := None\<rparr>"
    have t: "clear_line ?s = clear_line ?t" by (simp add: clear_line_def)
    have "length (line_bytes (sh_line s)) \<le> 512" using l by (simp add: line_ok_def)
    from pushed [OF h this] have "shell_ok ?t" "editor ?t = (editor s)\<lparr>ed_history := remember (ed_line (editor s)) (ed_history (editor s)), ed_selected := None\<rparr>"
      using l by (simp_all add: shell_ok_def editor_def)
    with clear_refines [of ?t] t Enter show ?thesis by (simp add: handle_key_def editor_key_def ed_clear_def Let_def)
  next
    case ArrowUp
    have "ed_history (editor s) = [] \<longleftrightarrow> ch_len (sh_history s) = 0" by (simp add: editor_def history_lines_def)
    moreover have "ed_selected (editor s) = sh_history_selected s" "length (ed_history (editor s)) = ch_len (sh_history s)"
      by (simp_all add: editor_def)
    ultimately show ?thesis using ArrowUp assms recalled [OF assms]
      by (auto simp: handle_key_def editor_key_def previous_index_def latest_index_def Let_def shell_ok_def split: option.split)
  next
    case ArrowDown
    have "ed_selected (editor s) = sh_history_selected s" "length (ed_history (editor s)) = ch_len (sh_history s)"
      by (simp_all add: editor_def)
    then show ?thesis using ArrowDown assms recalled [OF assms] clear_refines [OF assms]
      by (auto simp: handle_key_def editor_key_def next_index_def Let_def split: option.split)
  next
    case ArrowLeft
    have "ed_before (editor s) = [] \<longleftrightarrow> ln_cursor (sh_line s) = 0"
      using l by (auto simp: editor_def line_ok_def line_bytes_def)
    then show ?thesis using ArrowLeft assms left_refines [OF assms] by (auto simp: handle_key_def editor_key_def Let_def)
  next
    case ArrowRight
    have "ed_after (editor s) = [] \<longleftrightarrow> \<not> ln_cursor (sh_line s) < ln_len (sh_line s)" using l by (auto simp: editor_def)
    then show ?thesis using ArrowRight assms right_refines [OF assms]
      by (auto simp: handle_key_def editor_key_def Let_def)
  qed (use assms insert_refines [OF assms] delete_refines [OF assms] clear_refines [OF assms]
       in \<open>auto simp: handle_key_def editor_key_def Let_def\<close>)
qed

text \<open>Any number of keys.\<close>

lemma keys_refine:
  "shell_ok (fst S) \<Longrightarrow> shell_ok (fst (fold (handle_key handlers) events S))
     \<and> editor (fst (fold (handle_key handlers) events S)) = fold editor_key events (editor (fst S))"
proof (induction events arbitrary: S)
  case (Cons e events)
  from key_refines [OF Cons.prems, of handlers e "snd S"]
  have "shell_ok (fst (handle_key handlers e S))" "editor (fst (handle_key handlers e S)) = editor_key e (editor (fst S))" by simp_all
  with Cons.IH [of "handle_key handlers e S"] show ?case by simp
qed simp

section \<open>Properties\<close>

text \<open>
  C37. The shell implements a line editor. After any key events, whatever the commands do, the
  shell's arrays represent the state of the editor that has seen the same keys: the text before
  and after the cursor, never more than 512 bytes, and the at most sixteen lines remembered, of
  which one may be selected. The enter key hands exactly the edited line to the commands and shows a new
  prompt.
\<close>

theorem shell_refines_editor:
  "let S = fold (handle_key handlers) events (Shell_new, M); E = fold editor_key events Editor_new
   in editor (fst S) = E \<and> length (ed_line E) \<le> INPUT_BUFFER_SIZE \<and> length (ed_history E) \<le> HISTORY_SIZE
      \<and> snd (handle_key handlers Enter S) = prompt (execute handlers (ed_line E) (write_byte 0x0a (snd S)))"
proof -
  note keys_refine [of "(Shell_new, M)" handlers events]
  moreover have "shell_ok Shell_new" "editor Shell_new = Editor_new"
    by (auto simp: shell_ok_def line_ok_def history_ok_def Shell_new_def InputLine_new_def CommandHistory_new_def
        editor_def Editor_new_def line_bytes_def history_lines_def shell_consts)
  ultimately have r: "shell_ok (fst (fold (handle_key handlers) events (Shell_new, M)))"
      "editor (fst (fold (handle_key handlers) events (Shell_new, M))) = fold editor_key events Editor_new"
    by simp_all
  have "ed_line (editor s) = line_bytes (sh_line s)" "length (ed_history (editor s)) = ch_len (sh_history s)" for s
    by (simp_all add: editor_def)
  with r show ?thesis unfolding Let_def r(2) [symmetric]
    by (auto simp: shell_ok_def line_ok_def history_ok_def shell_consts handle_key_def Let_def)
qed

end
