(* ===== verification/Spec2Isabelle.thy ===== *)
theory Spec2Isabelle
  imports Ipc_Lifecycle Scheduler_Properties Physmem_Safety Klog_Properties Keyboard_Properties
    Initramfs_Archive Address_Space_Properties Heap_Properties Elf_Properties Vga_Properties
    Interrupt_Properties Kernel_Deadlines Kernel_Cleanup Shell_Editor
begin

text \<open>
  A verification library for the Tobacco kernel, an x86-64 kernel in Rust under
  \<^verbatim>\<open>src/src\<close> with the archive tool \<^verbatim>\<open>src/tools/mkinitramfs.rs\<close>.

  \<^bold>\<open>The program.\<close> The boot code builds page tables for the first gigabyte and calls
  \<open>kernel_main\<close>, which starts the components in order: the serial log and the kernel log ring
  (\<^verbatim>\<open>klog.rs\<close>), the parser of the boot information (\<^verbatim>\<open>multiboot.rs\<close>), the archive of boot files
  (\<^verbatim>\<open>initramfs.rs\<close>), the physical frame allocator (\<^verbatim>\<open>physmem.rs\<close>), virtual memory (\<^verbatim>\<open>paging.rs\<close>),
  the kernel heap (\<^verbatim>\<open>heap.rs\<close>), the program loader (\<^verbatim>\<open>elf.rs\<close>), message passing with
  capabilities (\<^verbatim>\<open>ipc.rs\<close>), processes (\<^verbatim>\<open>process.rs\<close>), the scheduler (\<^verbatim>\<open>scheduler.rs\<close>), system
  calls (\<^verbatim>\<open>syscall.rs\<close>), the text console, the keyboard (\<^verbatim>\<open>keyboard.rs\<close>) and the shell
  (\<^verbatim>\<open>shell.rs\<close>). The frame allocator is set up from the boot summary, virtual memory and the
  loader take frames from it, the loader reads programs from the archive, and the process code
  ties IPC, scheduler and address spaces together.

  \<^bold>\<open>Conventions.\<close> Every function of the source is one definition at the top level with the name
  of the source where HOL allows it; a prefix or suffix tells apart names that several modules
  share (\<open>phys_init\<close>, \<open>sched_init\<close>, \<open>paging_init\<close>). Structures are records, enumerations
  datatypes, \<open>u8\<close> to \<open>u64\<close> words of that width with the wrap-around of the release build;
  \<open>usize\<close> indices and lengths are naturals, with the bound of their array. Statics are fields
  of a state record that is passed and returned, errors are values of a sum type, loops are
  recursive functions. Reads and writes through raw pointers go to a byte-addressed memory.
  Interrupt masking, serial output and assembly have no effect on the modelled state.

  \<^bold>\<open>Theories and what they model.\<close>
  \<^item> \<open>Prelude\<close>, \<open>Slices\<close>, \<open>Numerals\<close>, \<open>Memory\<close>: machine arithmetic, searches, rings, byte slices,
    numerals, memory and page frames, and two interfaces as locales: \<open>bounded_queue\<close>, interpreted on the
    IPC mailbox and on the keyboard buffer, and \<open>invariant_machine\<close>, interpreted on IPC, scheduler,
    frame allocator, address spaces, heap, console and the whole machine.
  \<^item> \<open>Ipc\<close>, \<open>Ipc_Selftest\<close>: \<open>IpcState\<close> of \<^verbatim>\<open>ipc.rs\<close>, its mailboxes, capability tables, transfers,
    recursive revocation, consistency check and self tests. \<open>Ipc_Revoke\<close> gives revocation a closed
    form; \<open>Ipc_Invariant\<close>, \<open>Ipc_Update\<close>, \<open>Ipc_Preserve\<close> and \<open>Ipc_Ops\<close> carry the invariant through
    every operation; \<open>Ipc_Security\<close> is the state machine. \<open>Ipc_Properties\<close> and \<open>Ipc_Lifecycle\<close> hold
    C10 to C18: the kernel's own consistency check holds after all calls in which no grant names task 0,
    revocation removes exactly a branch of the delegation tree, rights only shrink, transfers are atomic,
    mailboxes are first-in first-out, generations are fresh.
  \<^item> \<open>Scheduler\<close>, \<open>Scheduler_Proofs\<close>, \<open>Scheduler_Properties\<close>: \<^verbatim>\<open>scheduler.rs\<close>; C19: every ready task
    runs after a known number of slices.
  \<^item> \<open>Multiboot\<close>, \<open>Multiboot_Properties\<close>: \<^verbatim>\<open>multiboot.rs\<close>; C20 and C21: the parser reads only declared
    bytes and its summary is well formed.
  \<^item> \<open>Physmem\<close>, \<open>Physmem_Properties\<close>, \<open>Physmem_Safety\<close>: \<^verbatim>\<open>physmem.rs\<close>; C22 and C23: frames in use are
    safe and counted, release is exact.
  \<^item> \<open>Klog\<close>, \<open>Klog_Properties\<close>: \<^verbatim>\<open>klog.rs\<close>; C24 and C25: the newest messages are kept, numbers are
    rendered as their numerals.
  \<^item> \<open>Keyboard\<close>, \<open>Keyboard_Properties\<close>: \<^verbatim>\<open>keyboard.rs\<close>; C26 and C27: interrupts between the steps of a
    pop lose nothing, the decoder follows shift and caps lock.
  \<^item> \<open>Initramfs\<close>, \<open>Mkinitramfs\<close>, \<open>Initramfs_Roundtrip\<close>, \<open>Initramfs_Archive\<close>: \<^verbatim>\<open>initramfs.rs\<close> and
    \<^verbatim>\<open>mkinitramfs.rs\<close>; C28 and C29: writing and parsing an archive are inverse, lookups return files
    under safe paths only.
  \<^item> \<open>Paging\<close>, \<open>Page_Mapper\<close>, \<open>Address_Space\<close>: \<^verbatim>\<open>paging.rs\<close>. \<open>Frame_Store\<close> reads entries bit by bit and
    states what virtual memory relies on from the frame allocator as the locale \<open>frame_store\<close>,
    interpreted on \<open>Physmem\<close>; \<open>Space_Layout\<close>, \<open>Space_Ops\<close>, \<open>Space_Contents\<close> and \<open>Space_Runs\<close> follow the
    tables of address spaces through the operations. \<open>Address_Space_Properties\<close> holds C3 and C30:
    isolation, and refinement of a finite map, from the page tables of the boot code under arbitrary
    writes of user programs.
  \<^item> \<open>Heap\<close>, \<open>Heap_Invariant\<close>, \<open>Heap_Alloc\<close>, \<open>Heap_Interface\<close>, \<open>Heap_Properties\<close>: \<^verbatim>\<open>heap.rs\<close>, with the
    locale \<open>allocator\<close> for its clients; C31 to C33: the blocks partition the window and every check
    passes, allocation and release are exact.
  \<^item> \<open>Elf\<close>, \<open>Elf_Plan\<close>, \<open>Elf_Load\<close>, \<open>Elf_Process\<close>, \<open>Elf_Init\<close>, \<open>Elf_Properties\<close>: \<^verbatim>\<open>elf.rs\<close> and the program
    of the build tool; C34 to C36: what validation accepts, what a loaded process finds in its memory, and
    that the shipped program starts.
  \<^item> \<open>Stats\<close>, \<open>Vga\<close>, \<open>Vga_Properties\<close>: \<^verbatim>\<open>stats.rs\<close> and \<^verbatim>\<open>vga.rs\<close>; C40: the console stays on the
    screen and in its panel (locale \<open>canvas\<close>).
  \<^item> \<open>Contexts\<close>, \<open>Process\<close>, \<open>User_Memory\<close>, \<open>User_Access\<close>: the process table of \<^verbatim>\<open>process.rs\<close> and its
    access to user memory; \<open>Ipc_Calls\<close>: the entry points of \<^verbatim>\<open>ipc.rs\<close> that block and wake tasks;
    \<open>User\<close>, \<open>Syscall\<close>: \<^verbatim>\<open>user.rs\<close> and \<^verbatim>\<open>syscall.rs\<close>; \<open>Descriptors\<close>, \<open>Interrupts\<close>,
    \<open>Interrupt_Properties\<close>: \<^verbatim>\<open>gdt.rs\<close>, \<^verbatim>\<open>paniclog.rs\<close> and \<^verbatim>\<open>interrupts.rs\<close>, with C38: the gates.
  \<^item> \<open>Kernel_Invariant\<close>, \<open>Kernel_Ops\<close>, \<open>Kernel_Spawn\<close>, \<open>Kernel_Calls\<close>, \<open>Syscall_Safety\<close>, \<open>Kernel_Runs\<close>: the
    invariant of the kernel as a whole through every operation, call and interrupt.
    \<open>Kernel_Properties\<close> holds C1, C2, C4 and C39: consistency of every run, confinement of system
    calls, exact copies from and to user memory, distinct errors. \<open>Kernel_Switch\<close>, \<open>Kernel_Wake\<close>,
    \<open>Kernel_Deadlines\<close> and \<open>Kernel_Cleanup\<close> hold C5 to C9: switches on a blocking receive and on
    the timer, wake-up by a message and by a deadline, and the release of a task's resources.
  \<^item> \<open>Shell\<close>, \<open>Shell_Text\<close>, \<open>Shell_Editor\<close>: \<^verbatim>\<open>shell.rs\<close>, the key loop, the input line and its history, the
    command table and its lookup, and the commands that print what they are given or the counters;
    C37: the loop implements an abstract line editor.

  \<^bold>\<open>Bounds and fuel.\<close> The only fuelled loop is the search for a free capability generation
  (\<open>allocate_generation_loop\<close>): its fuel is the number of capability slots plus one, and C18
  shows that this is always enough. All other loops are structural or have a termination proof.

  \<^bold>\<open>Limits of the statements.\<close>
  \<^item> A run of the machine starts when the modules are initialised, with the page tables of the boot
    code, an untouched frame allocator and a reset heap (\<open>booted_machine\<close>, \<open>kernel_start\<close>); the order
    in which \<open>kernel_main\<close> initialises the modules, and the frames it takes meanwhile, are not part
    of a run. The heap's bytes are a memory of their own, so that the heap window and the frames that
    back it cannot be seen to interfere.
  \<^item> Three kinds of steps of the machine have a condition that the code does not check
    (\<open>machine_step\<close>): spawns while task numbers are left, the preemption test on an image with room for
    four bytes behind its entry point in the page, and grants that name tasks other than 0. The IPC
    machine has the last of them (\<open>ipc_step\<close>, \<open>names_tasks\<close>), and C10 shows that it is needed.
  \<^item> A page is accessible (\<open>accessible\<close>) when the kernel's translation finds it so; this translation
    ignores bits 48 to 63 of an address, and the processor would refuse such an address.
  \<^item> \<open>slice\<close> returns what there is of a byte range where Rust would panic; the modelled code uses it
    behind its own bounds checks.

  \<^bold>\<open>Not modelled.\<close> The serial port; the boot-time test driver (\<^verbatim>\<open>ci.rs\<close>); the call sequence of
  \<open>kernel_main\<close>; the assembly of the start-up code but for the page tables it writes, of the interrupt
  stubs and of the switch to user mode; the test drivers of \<^verbatim>\<open>process.rs\<close> (\<open>run_capability_test\<close> and the like)
  with the programs they assemble; and the commands of the shell that print snapshots of other
  components or run their tests, for which the dispatcher takes an argument.
\<close>

end
